(* ===== verification/Asas_Prelude.thy ===== *)
theory Asas_Prelude
  imports Main "HOL-Library.Word" "HOL-Library.Multiset"
begin

text \<open>
  What the components share: names for the fixed-width integers of
  \<^verbatim>\<open>include/uefi.h\<close>, C strings, the bounded string copy and string comparison that
  nearly every kernel file repeats as a static helper, and generic lemmas on lists and words.

  Conventions of the whole library:
  \<^item> \<open>UINT8\<close>, \<open>UINT16\<close>, \<open>UINT32\<close>, \<open>UINT64\<close> and \<open>UINTN\<close> are words of that width, so
    arithmetic wraps around as it does on the machine;
  \<^item> a C string is the list of the characters before its terminating NUL;
  \<^item> an \<open>int\<close> that is only tested for zero is a \<open>bool\<close>;
  \<^item> a null pointer is \<open>None\<close>; where the code would follow a null or wild pointer, or loop
    for ever, the model's result is \<open>None\<close>;
  \<^item> operations on static variables take the component's state record and return it.
\<close>

unbundle bit_operations_syntax

type_synonym u8 = "8 word"
type_synonym u16 = "16 word"
type_synonym u32 = "32 word"
type_synonym u64 = "64 word"
type_synonym bytes = "u8 list"

named_theorems asas_defs \<open>definitions unfolded by the evaluation of closed terms\<close>

section \<open>C strings\<close>

fun strings_equal :: "string \<Rightarrow> string \<Rightarrow> bool" where
  "strings_equal (l # left) (r # right) =
     (if l \<noteq> r then False else strings_equal left right)"
| "strings_equal left right = (left = [] \<and> right = [])"

lemma strings_equal_iff [simp]: "strings_equal left right \<longleftrightarrow> left = right"
  by (induction left right rule: strings_equal.induct) auto

text \<open>
  The bounded copy: at most \<open>capacity - 1\<close> characters are stored, then the NUL.
\<close>

fun copy_string :: "nat \<Rightarrow> string \<Rightarrow> string" where
  "copy_string capacity [] = []"
| "copy_string capacity (c # source) =
     (if 1 < capacity then c # copy_string (capacity - 1) source else [])"

lemma copy_string_take: "copy_string capacity source = take (capacity - 1) source"
proof (induction capacity source rule: copy_string.induct)
  case (2 capacity c source)
  show ?case
  proof (cases "1 < capacity")
    case True
    then obtain n where "capacity = Suc (Suc n)"
      by (metis One_nat_def Suc_lessE less_imp_Suc_add)
    with 2 show ?thesis by simp
  qed auto
qed auto

lemma length_copy_string: "0 < capacity \<Longrightarrow> length (copy_string capacity source) < capacity"
  by (simp add: copy_string_take)

lemma copy_string_id: "length source < capacity \<Longrightarrow> copy_string capacity source = source"
  by (simp add: copy_string_take)

section \<open>Lists\<close>

lemma nth_list_update_eq_iff: "i < length xs \<Longrightarrow> xs[i := v] ! j = (if i = j then v else xs ! j)"
  by simp

lemma count_filter_update:
  assumes "i < length xs"
  shows "length (filter P (xs[i := v])) + (if P (xs ! i) then 1 else 0)
       = length (filter P xs) + (if P v then 1 else 0)"
  using assms
proof (induction xs arbitrary: i)
  case (Cons x xs)
  then show ?case by (cases i) auto
qed simp

lemma fold_index_count:
  "fold (\<lambda>i c. if P (xs ! i) then c + 1 else c) [0 ..< length xs] c
     = c + of_nat (length (filter P xs))" for c :: "'a::semiring_1"
proof (induction xs arbitrary: c rule: rev_induct)
  case (snoc x xs)
  have "fold (\<lambda>i c. if P ((xs @ [x]) ! i) then c + 1 else c) [0 ..< length xs] c
      = fold (\<lambda>i c. if P (xs ! i) then c + 1 else c) [0 ..< length xs] c"
    by (rule fold_cong) (auto simp: nth_append)
  then show ?case using snoc by (simp add: add.assoc add.commute [of 1])
qed simp

section \<open>Words\<close>

lemma unat_less_64 [simp]: "unat (a :: u64) < 18446744073709551616"
  using unsigned_less [of a] by simp

lemma unat_less_32 [simp]: "unat (a :: u32) < 4294967296"
  using unsigned_less [of a] by simp

lemma unat_ucast_32_64 [simp]: "unat (ucast (i :: u32) :: u64) = unat i"
proof -
  have "unat i < 2 ^ 64" using unat_less_32 [of i] by (simp del: unat_less_32)
  then show ?thesis by (simp add: unsigned_ucast_eq take_bit_nat_eq_self_iff)
qed

lemma unat_add_64: "unat a + unat b < 18446744073709551616 \<Longrightarrow> unat (a + b) = unat a + unat b"
  for a b :: u64
  using unat_add_lem [of a b] by simp

lemma unat_sub_le: "b \<le> a \<Longrightarrow> unat (a - b) = unat a - unat b" for a b :: "'a::len word"
  by (rule unat_sub)

lemma unat_Suc_less: "n < m \<Longrightarrow> unat (n + 1) = Suc (unat n)" for n m :: "'a::len word"
proof -
  assume "n < m"
  then have "unat n < unat m" by (simp add: word_less_nat_alt)
  moreover have "unat m < 2 ^ LENGTH('a)" by (rule unsigned_less)
  ultimately have "Suc (unat n) < 2 ^ LENGTH('a)" by linarith
  then show ?thesis by (simp add: unat_word_ariths)
qed

section \<open>Integers in byte arrays\<close>

text \<open>The packed structures of the on-disk formats are read through pointers into byte buffers: an
  \<open>n\<close>-byte little-endian integer at an offset.\<close>

fun le_value :: "bytes \<Rightarrow> nat" where
  "le_value [] = 0"
| "le_value (b # bs) = unat b + 256 * le_value bs"

definition le_bytes :: "nat \<Rightarrow> nat \<Rightarrow> bytes" where
  "le_bytes n v = map (\<lambda>i. of_nat (v div 256 ^ i)) [0 ..< n]"

definition u16_at :: "nat \<Rightarrow> bytes \<Rightarrow> u16" where
  "u16_at offset b = of_nat (le_value (take 2 (drop offset b)))"

definition u32_at :: "nat \<Rightarrow> bytes \<Rightarrow> u32" where
  "u32_at offset b = of_nat (le_value (take 4 (drop offset b)))"

definition u64_at :: "nat \<Rightarrow> bytes \<Rightarrow> u64" where
  "u64_at offset b = of_nat (le_value (take 8 (drop offset b)))"

text \<open>Storing bytes at an offset of a buffer.\<close>

definition put_bytes :: "nat \<Rightarrow> bytes \<Rightarrow> bytes \<Rightarrow> bytes" where
  "put_bytes offset data b = take offset b @ data @ drop (offset + length data) b"

lemma length_le_bytes [simp]: "length (le_bytes n v) = n"
  by (simp add: le_bytes_def)

lemma length_put_bytes [simp]:
  "offset + length data \<le> length b \<Longrightarrow> length (put_bytes offset data b) = length b"
  by (simp add: put_bytes_def)

lemma put_bytes_read:
  "offset + length data \<le> length b \<Longrightarrow> take (length data) (drop offset (put_bytes offset data b)) = data"
  by (simp add: put_bytes_def)

lemma put_bytes_other:
  assumes "offset + length data \<le> length b" "i + n \<le> offset \<or> offset + length data \<le> i"
  shows "take n (drop i (put_bytes offset data b)) = take n (drop i b)"
  using assms(2)
proof
  assume "i + n \<le> offset"
  then have "n \<le> offset - i" by simp
  then show ?thesis using assms(1) by (simp add: put_bytes_def drop_take min_absorb1)
next
  assume "offset + length data \<le> i"
  then obtain k where "i = offset + length data + k" using le_Suc_ex by blast
  then show ?thesis using assms(1) by (simp add: put_bytes_def add.commute)
qed

lemma le_bytes_Suc: "le_bytes (Suc n) v = of_nat v # le_bytes n (v div 256)"
proof -
  have "map (\<lambda>i. of_nat (v div 256 ^ i)) [0 ..< Suc n]
      = of_nat v # map (\<lambda>i. of_nat (v div 256 ^ Suc i)) [0 ..< n] "
    by (simp add: upt_conv_Cons map_Suc_upt [symmetric] del: upt_Suc)
  then show ?thesis by (simp add: le_bytes_def div_mult2_eq del: upt_Suc)
qed

lemma le_value_bytes: "le_value (le_bytes n v) = v mod 256 ^ n"
proof (induction n arbitrary: v)
  case (Suc n)
  have "unat (of_nat v :: u8) = v mod 256" by (simp add: unat_of_nat)
  then show ?case using Suc by (simp add: le_bytes_Suc mod_mult2_eq)
qed (simp add: le_bytes_def)

lemma le_value_less: "le_value bs < 256 ^ length bs"
proof (induction bs)
  case (Cons b bs)
  have "unat b < 256" using unsigned_less [of b] by simp
  then show ?case using Cons by simp
qed simp

lemma concat_chunk:
  assumes "\<forall>x \<in> set xs. length x = n" "j < length xs"
  shows "take n (drop (n * j) (concat xs)) = xs ! j"
  using assms
proof (induction xs arbitrary: j)
  case (Cons x xs)
  then show ?case by (cases j) simp_all
qed simp

lemma length_concat_chunks: "\<forall>x \<in> set xs. length x = n \<Longrightarrow> length (concat xs) = n * length xs"
  by (induction xs) simp_all

lemma u32_at_le_bytes: "u32_at 0 (le_bytes 4 (unat x) @ r) = x"
  by (simp add: u32_at_def le_value_bytes)

lemma u64_at_le_bytes: "u64_at 0 (le_bytes 8 (unat x) @ r) = x"
  by (simp add: u64_at_def le_value_bytes)

lemma u32_at_drop: "u32_at k b = u32_at 0 (drop k b)"
  by (simp add: u32_at_def)

lemma u64_at_drop: "u64_at k b = u64_at 0 (drop k b)"
  by (simp add: u64_at_def)

lemma u32_at_take: "k + 4 \<le> n \<Longrightarrow> u32_at k (take n b) = u32_at k b"
  by (simp add: u32_at_def drop_take min_absorb1)

end
