(* ===== verification/Kernel_Security.thy ===== *)
theory Kernel_Security
  imports Asas_Prelude
begin

text \<open>
  \<^verbatim>\<open>src/kernel/security.c\<close>: the fixed user table, the current user, the permission tests
  and the authenticated user switch.  The pointer \<open>current_user\<close> into the constant table
  \<open>users\<close> is an index, \<open>None\<close> before \<open>security_initialize\<close>; an accessor that would
  follow the null pointer yields \<open>None\<close>.  Messages handed to \<open>logger_write\<close> are
  appended to \<open>security_log\<close>.
\<close>

section \<open>Data\<close>

definition SECURITY_PERMISSION_READ :: u32 where "SECURITY_PERMISSION_READ = 1"
definition SECURITY_PERMISSION_WRITE :: u32 where "SECURITY_PERMISSION_WRITE = 2"
definition SECURITY_PERMISSION_EXECUTE :: u32 where "SECURITY_PERMISSION_EXECUTE = 4"
definition SECURITY_PERMISSION_ADMIN :: u32 where "SECURITY_PERMISSION_ADMIN = 8"

lemmas permission_defs =
  SECURITY_PERMISSION_READ_def SECURITY_PERMISSION_WRITE_def
  SECURITY_PERMISSION_EXECUTE_def SECURITY_PERMISSION_ADMIN_def

record security_user =
  uid :: u32
  user_name :: string
  password :: string
  permissions :: u32

definition users :: "security_user list" where
  "users =
    [\<lparr>uid = 0, user_name = ''root'', password = ''asas-root'',
      permissions = SECURITY_PERMISSION_READ OR SECURITY_PERMISSION_WRITE
        OR SECURITY_PERMISSION_EXECUTE OR SECURITY_PERMISSION_ADMIN\<rparr>,
     \<lparr>uid = 1000, user_name = ''guest'', password = [],
      permissions = SECURITY_PERMISSION_READ OR SECURITY_PERMISSION_EXECUTE\<rparr>]"

record security_state =
  current_user :: "nat option"
  security_log :: "(string \<times> string) list"

section \<open>Operations\<close>

definition security_boot :: security_state where
  "security_boot = \<lparr>current_user = None, security_log = []\<rparr>"

definition security_initialize :: "security_state \<Rightarrow> security_state" where
  "security_initialize s =
     s\<lparr>current_user := Some 0,
       security_log := security_log s @ [(''INFO'', ''security users initialized'')]\<rparr>"

definition security_current_uid :: "security_state \<Rightarrow> u32 option" where
  "security_current_uid s = map_option (\<lambda>i. uid (users ! i)) (current_user s)"

definition security_current_user :: "security_state \<Rightarrow> string option" where
  "security_current_user s = map_option (\<lambda>i. user_name (users ! i)) (current_user s)"

definition security_current_permissions :: "security_state \<Rightarrow> u32 option" where
  "security_current_permissions s = map_option (\<lambda>i. permissions (users ! i)) (current_user s)"

definition security_can_read :: "security_state \<Rightarrow> bool option" where
  "security_can_read s =
     map_option (\<lambda>i. permissions (users ! i) AND SECURITY_PERMISSION_READ \<noteq> 0) (current_user s)"

definition security_can_write :: "security_state \<Rightarrow> bool option" where
  "security_can_write s =
     map_option (\<lambda>i. permissions (users ! i) AND SECURITY_PERMISSION_WRITE \<noteq> 0) (current_user s)"

definition security_can_execute :: "security_state \<Rightarrow> bool option" where
  "security_can_execute s =
     map_option (\<lambda>i. permissions (users ! i) AND SECURITY_PERMISSION_EXECUTE \<noteq> 0) (current_user s)"

definition security_can_admin :: "security_state \<Rightarrow> bool option" where
  "security_can_admin s =
     map_option (\<lambda>i. permissions (users ! i) AND SECURITY_PERMISSION_ADMIN \<noteq> 0) (current_user s)"

text \<open>The table scan of the switch, from entry \<open>index\<close> on.\<close>

function switch_from ::
  "nat \<Rightarrow> string \<Rightarrow> string \<Rightarrow> security_state \<Rightarrow> bool \<times> security_state" where
  "switch_from index name pw s =
     (if index < length users then
        if strings_equal (user_name (users ! index)) name then
          if permissions (users ! index) AND SECURITY_PERMISSION_ADMIN \<noteq> 0
             \<and> \<not> strings_equal (password (users ! index)) pw
          then (False, s)
          else (True, s\<lparr>current_user := Some index\<rparr>)
        else switch_from (Suc index) name pw s
      else (False, s))"
  by pat_completeness auto
termination by (relation "measure (\<lambda>(index, _). length users - index)") auto

declare switch_from.simps [simp del]

definition security_switch_user_authenticated ::
  "string \<Rightarrow> string \<Rightarrow> security_state \<Rightarrow> bool \<times> security_state" where
  "security_switch_user_authenticated name pw s = switch_from 0 name pw s"

definition security_switch_user :: "string \<Rightarrow> security_state \<Rightarrow> bool \<times> security_state" where
  "security_switch_user name s = security_switch_user_authenticated name [] s"

definition security_self_test :: "security_state \<Rightarrow> bool \<times> security_state" where
  "security_self_test s =
    (if security_current_user s \<noteq> Some ''root'' \<or> security_current_uid s \<noteq> Some 0
        \<or> security_can_read s \<noteq> Some True \<or> security_can_write s \<noteq> Some True
        \<or> security_can_execute s \<noteq> Some True \<or> security_can_admin s \<noteq> Some True
     then (False, s)
     else
       let (switched, s1) = security_switch_user ''guest'' s in
       if \<not> switched \<or> security_current_uid s1 \<noteq> Some 1000
          \<or> security_can_read s1 \<noteq> Some True \<or> security_can_write s1 \<noteq> Some False
          \<or> security_can_execute s1 \<noteq> Some True \<or> security_can_admin s1 \<noteq> Some False
       then (False, snd (security_switch_user ''root'' s1))
       else
         let (root1, s2) = security_switch_user ''root'' s1 in
         if root1 then (False, s2)
         else
           let (root2, s3) = security_switch_user_authenticated ''root'' ''asas-root'' s2 in
           if \<not> root2 then (False, s3)
           else (True, s3\<lparr>current_user := Some 0,
                   security_log := security_log s3
                     @ [(''INFO'', ''security permissions verified'')]\<rparr>))"

text \<open>A session is a sequence of switch attempts, each a name and a password.\<close>

fun switch_session :: "(string \<times> string) list \<Rightarrow> security_state \<Rightarrow> security_state" where
  "switch_session [] s = s"
| "switch_session ((name, pw) # rest) s =
     switch_session rest (snd (security_switch_user_authenticated name pw s))"

section \<open>Lemmas\<close>

lemma length_users [simp]: "length users = 2"
  by (simp add: users_def)

lemma users_nth [simp]:
  "users ! 0 = \<lparr>uid = 0, user_name = ''root'', password = ''asas-root'', permissions = 15\<rparr>"
  "users ! Suc 0 = \<lparr>uid = 1000, user_name = ''guest'', password = [], permissions = 5\<rparr>"
  by (simp_all add: users_def permission_defs)

lemma switch_eq:
  "security_switch_user_authenticated name pw s =
     (if name = ''root'' then
        if pw = ''asas-root'' then (True, s\<lparr>current_user := Some 0\<rparr>) else (False, s)
      else if name = ''guest'' then (True, s\<lparr>current_user := Some 1\<rparr>)
      else (False, s))"
  by (auto simp: security_switch_user_authenticated_def switch_from.simps permission_defs)

text \<open>The well-formed states: the pointer is null or points into the table.\<close>

definition security_wf :: "security_state \<Rightarrow> bool" where
  "security_wf s \<longleftrightarrow> (case current_user s of None \<Rightarrow> True | Some i \<Rightarrow> i < length users)"

lemma security_wf_boot: "security_wf security_boot"
  by (simp add: security_wf_def security_boot_def)

lemma security_wf_initialize: "security_wf (security_initialize s)"
  by (simp add: security_wf_def security_initialize_def)

lemma security_wf_switch:
  "security_wf s \<Longrightarrow> security_wf (snd (security_switch_user_authenticated name pw s))"
  by (simp add: switch_eq security_wf_def)

text \<open>Without the administrator's password the guest session stays the guest session.\<close>

lemma guest_session_stays:
  "current_user s = Some 1 \<Longrightarrow> (''root'', ''asas-root'') \<notin> set attempts \<Longrightarrow>
   current_user (switch_session attempts s) = Some 1"
proof (induction attempts arbitrary: s)
  case (Cons a attempts)
  obtain name pw where a: "a = (name, pw)" by (cases a)
  have "current_user (snd (security_switch_user_authenticated name pw s)) = Some 1"
    using Cons.prems a by (auto simp: switch_eq)
  then show ?case using Cons a by simp
qed simp

section \<open>Properties\<close>

text \<open>C1: no privilege escalation.  Starting from a guest session, whatever sequence of user
  switches is attempted, as long as the administrator's password is not among them the session
  ends without write and administration permission and with uid 1000.\<close>

theorem no_escalation_without_password:
  assumes "current_user s = Some 1"
    and "(''root'', ''asas-root'') \<notin> set attempts"
  shows "security_can_admin (switch_session attempts s) = Some False
    \<and> security_can_write (switch_session attempts s) = Some False
    \<and> security_current_uid (switch_session attempts s) = Some 1000"
  using guest_session_stays [OF assms]
  by (simp add: security_can_admin_def security_can_write_def security_current_uid_def
      permission_defs)

theorem no_escalation_without_password_witness:
  "security_can_admin (switch_session [(''root'', []), (''root'', ''guess''), (''guest'', [])]
     \<lparr>current_user = Some 1, security_log = []\<rparr>) = Some False"
  using no_escalation_without_password
    [of "\<lparr>current_user = Some 1, security_log = []\<rparr>"
        "[(''root'', []), (''root'', ''guess''), (''guest'', [])]"]
  by simp

text \<open>the boot-time self test passes on every initialised state and leaves the root user
  current, having logged its success.\<close>

theorem security_self_test_passes:
  "security_self_test (security_initialize s)
   = (True, (security_initialize s)\<lparr>security_log := security_log (security_initialize s)
       @ [(''INFO'', ''security permissions verified'')]\<rparr>)"
  by (simp add: security_self_test_def security_switch_user_def switch_eq
      security_current_user_def security_current_uid_def security_can_read_def
      security_can_write_def security_can_execute_def security_can_admin_def
      security_initialize_def permission_defs)

end
