(* ===== verification/Frame_Allocator.thy ===== *)
theory Frame_Allocator
  imports Asas_Prelude
begin

text \<open>
  \<^verbatim>\<open>src/kernel/memory.c\<close>: the physical frame allocator.  It hands out the 4 KiB frames of
  the conventional regions of the UEFI memory map in order, skipping the first megabyte, and
  reuses freed frames from a list of 256 entries.  The byte array \<open>memory_map\<close> is a
  function from a byte offset to the descriptor stored there, so the arithmetic on
  \<open>descriptor_index\<close> and \<open>descriptor_size\<close> is the code's.  A \<open>descriptor_size\<close> of zero
  would trap in the division; the memory-map hypothesis \<open>mm_ok\<close> excludes it.
\<close>

section \<open>Data\<close>

definition EFI_CONVENTIONAL_MEMORY :: u32 where "EFI_CONVENTIONAL_MEMORY = 7"
definition PAGE_SIZE :: u64 where "PAGE_SIZE = 4096"
definition LOW_MEMORY_RESERVE :: u64 where "LOW_MEMORY_RESERVE = 0x100000"
definition FRAME_FREE_LIST_CAPACITY :: u32 where "FRAME_FREE_LIST_CAPACITY = 256"

lemmas frame_consts = EFI_CONVENTIONAL_MEMORY_def PAGE_SIZE_def LOW_MEMORY_RESERVE_def
  FRAME_FREE_LIST_CAPACITY_def

record efi_memory_descriptor =
  md_type :: u32
  physical_start :: u64
  number_of_pages :: u64

record frame_allocator =
  memory_map :: "u64 \<Rightarrow> efi_memory_descriptor"
  memory_map_size :: u64
  descriptor_size :: u64
  descriptor_index :: u64
  next_frame :: u64
  remaining_pages :: u64
  allocated_pages :: u64
  free_list :: "u64 list"
  free_count :: u32

section \<open>Operations\<close>

definition descriptor_count :: "frame_allocator \<Rightarrow> u64" where
  "descriptor_count al = memory_map_size al div descriptor_size al"

function select_next_region :: "frame_allocator \<Rightarrow> bool \<times> frame_allocator" where
  "select_next_region al =
     (if descriptor_index al < descriptor_count al then
        let d = memory_map al (descriptor_index al * descriptor_size al);
            al1 = al\<lparr>descriptor_index := descriptor_index al + 1\<rparr>
        in if md_type d = EFI_CONVENTIONAL_MEMORY \<and> number_of_pages d \<noteq> 0 then
             let region_start = physical_start d;
                 region_end = region_start + number_of_pages d * PAGE_SIZE
             in if region_end \<le> LOW_MEMORY_RESERVE then select_next_region al1
                else
                  let start = (if region_start < LOW_MEMORY_RESERVE then LOW_MEMORY_RESERVE
                               else region_start)
                  in (True, al1\<lparr>next_frame := start,
                        remaining_pages := (region_end - start) div PAGE_SIZE\<rparr>)
           else select_next_region al1
      else (False, al))"
  by pat_completeness auto
termination
  by (relation "measure (\<lambda>al. unat (descriptor_count al) - unat (descriptor_index al))")
     (auto simp: descriptor_count_def unat_Suc_less word_less_nat_alt)

declare select_next_region.simps [simp del]

definition frame_allocator_initialize ::
  "frame_allocator \<Rightarrow> (u64 \<Rightarrow> efi_memory_descriptor) \<Rightarrow> u64 \<Rightarrow> u64 \<Rightarrow> frame_allocator" where
  "frame_allocator_initialize al mm mm_size d_size =
     al\<lparr>memory_map := mm, memory_map_size := mm_size, descriptor_size := d_size,
       descriptor_index := 0, next_frame := 0, remaining_pages := 0, allocated_pages := 0,
       free_count := 0\<rparr>"

definition frame_allocate :: "frame_allocator \<Rightarrow> u64 \<times> frame_allocator" where
  "frame_allocate al =
     (if free_count al > 0 then
        let c = free_count al - 1 in
        (free_list al ! unat c,
         al\<lparr>free_count := c, allocated_pages := allocated_pages al + 1\<rparr>)
      else
        let (ok, al1) = (if remaining_pages al = 0 then select_next_region al else (True, al))
        in if \<not> ok then (0, al1)
           else (next_frame al1,
                 al1\<lparr>next_frame := next_frame al1 + PAGE_SIZE,
                   remaining_pages := remaining_pages al1 - 1,
                   allocated_pages := allocated_pages al1 + 1\<rparr>))"

definition frame_free :: "frame_allocator \<Rightarrow> u64 \<Rightarrow> frame_allocator" where
  "frame_free al frame =
     (if frame = 0 \<or> frame AND (PAGE_SIZE - 1) \<noteq> 0 then al
      else if free_count al < FRAME_FREE_LIST_CAPACITY then
        al\<lparr>free_list := (free_list al)[unat (free_count al) := frame],
          free_count := free_count al + 1,
          allocated_pages := allocated_pages al - 1\<rparr>
      else al)"

definition frame_allocator_allocated_pages :: "frame_allocator \<Rightarrow> u64" where
  "frame_allocator_allocated_pages al = allocated_pages al"

section \<open>Specification\<close>

text \<open>Frames by page number.  What the memory map must satisfy (the UEFI specification
  guarantees it, and physical addresses of the x86-64 architecture have at most 52 bits):
  conventional regions are page aligned, end at \<open>2 ^ 52\<close> or below and do not overlap.\<close>

definition descriptor :: "frame_allocator \<Rightarrow> nat \<Rightarrow> efi_memory_descriptor" where
  "descriptor al i = memory_map al (of_nat i * descriptor_size al)"

definition usable :: "efi_memory_descriptor \<Rightarrow> bool" where
  "usable d \<longleftrightarrow> md_type d = EFI_CONVENTIONAL_MEMORY \<and> number_of_pages d \<noteq> 0"

definition region_pages :: "efi_memory_descriptor \<Rightarrow> nat set" where
  "region_pages d = (if usable d then
     {max 256 (unat (physical_start d) div 4096) ..<
      unat (physical_start d) div 4096 + unat (number_of_pages d)} else {})"

definition mm_ok :: "frame_allocator \<Rightarrow> bool" where
  "mm_ok al \<longleftrightarrow> descriptor_size al \<noteq> 0 \<and>
     (\<forall>i < unat (descriptor_count al). usable (descriptor al i) \<longrightarrow>
        4096 dvd unat (physical_start (descriptor al i)) \<and>
        unat (physical_start (descriptor al i)) + unat (number_of_pages (descriptor al i)) * 4096
          \<le> 2 ^ 52) \<and>
     (\<forall>i < unat (descriptor_count al). \<forall>j < unat (descriptor_count al). i \<noteq> j \<longrightarrow>
        region_pages (descriptor al i) \<inter> region_pages (descriptor al j) = {})"

definition later_pages :: "frame_allocator \<Rightarrow> nat \<Rightarrow> nat set" where
  "later_pages al k = (\<Union>i \<in> {k ..< unat (descriptor_count al)}. region_pages (descriptor al i))"

definition current_pages :: "frame_allocator \<Rightarrow> nat set" where
  "current_pages al =
     {unat (next_frame al) div 4096 ..< unat (next_frame al) div 4096 + unat (remaining_pages al)}"

definition fresh_pages :: "frame_allocator \<Rightarrow> nat set" where
  "fresh_pages al = current_pages al \<union> later_pages al (unat (descriptor_index al))"

definition pooled :: "frame_allocator \<Rightarrow> u64 list" where
  "pooled al = take (unat (free_count al)) (free_list al)"

definition is_frame :: "u64 \<Rightarrow> bool" where
  "is_frame f \<longleftrightarrow> 4096 dvd unat f \<and> 0x100000 \<le> unat f \<and> unat f < 2 ^ 52"

definition page_of :: "u64 \<Rightarrow> nat" where
  "page_of f = unat f div 4096"

text \<open>The invariant, relative to the set of frames the rest of the kernel owns: owned, pooled
  and fresh frames are pairwise disjoint.\<close>

definition frame_inv :: "frame_allocator \<Rightarrow> u64 set \<Rightarrow> bool" where
  "frame_inv al owned \<longleftrightarrow> mm_ok al
     \<and> length (free_list al) = 256 \<and> unat (free_count al) \<le> 256
     \<and> distinct (pooled al) \<and> (\<forall>f \<in> set (pooled al) \<union> owned. is_frame f)
     \<and> set (pooled al) \<inter> owned = {}
     \<and> page_of ` (set (pooled al) \<union> owned) \<inter> fresh_pages al = {}
     \<and> current_pages al \<inter> later_pages al (unat (descriptor_index al)) = {}
     \<and> (remaining_pages al \<noteq> 0 \<longrightarrow> is_frame (next_frame al)
        \<and> unat (next_frame al) + unat (remaining_pages al) * 4096 \<le> 2 ^ 52)"

section \<open>Lemmas\<close>

lemma is_frame_page: "is_frame f \<Longrightarrow> unat f = 4096 * page_of f \<and> 256 \<le> page_of f"
  by (auto simp: is_frame_def page_of_def)

lemma page_of_inj: "is_frame f \<Longrightarrow> is_frame g \<Longrightarrow> page_of f = page_of g \<Longrightarrow> f = g"
  by (metis is_frame_page word_unat_eq_iff)

lemma is_frame_nonzero: "is_frame f \<Longrightarrow> f \<noteq> 0"
  by (auto simp: is_frame_def)

lemma map_fields_update [simp]:
  "descriptor_count (al\<lparr>descriptor_index := i\<rparr>) = descriptor_count al"
  "descriptor_count (al\<lparr>next_frame := n\<rparr>) = descriptor_count al"
  "descriptor_count (al\<lparr>remaining_pages := r\<rparr>) = descriptor_count al"
  "descriptor_count (al\<lparr>allocated_pages := a\<rparr>) = descriptor_count al"
  "descriptor_count (al\<lparr>free_list := l\<rparr>) = descriptor_count al"
  "descriptor_count (al\<lparr>free_count := c\<rparr>) = descriptor_count al"
  "descriptor (al\<lparr>descriptor_index := i\<rparr>) = descriptor al"
  "descriptor (al\<lparr>next_frame := n\<rparr>) = descriptor al"
  "descriptor (al\<lparr>remaining_pages := r\<rparr>) = descriptor al"
  "descriptor (al\<lparr>allocated_pages := a\<rparr>) = descriptor al"
  "descriptor (al\<lparr>free_list := l\<rparr>) = descriptor al"
  "descriptor (al\<lparr>free_count := c\<rparr>) = descriptor al"
  by (simp_all add: descriptor_count_def descriptor_def fun_eq_iff)

lemma mm_ok_update [simp]:
  "mm_ok (al\<lparr>descriptor_index := i\<rparr>) = mm_ok al"
  "mm_ok (al\<lparr>next_frame := n\<rparr>) = mm_ok al"
  "mm_ok (al\<lparr>remaining_pages := r\<rparr>) = mm_ok al"
  "mm_ok (al\<lparr>allocated_pages := a\<rparr>) = mm_ok al"
  "mm_ok (al\<lparr>free_list := l\<rparr>) = mm_ok al"
  "mm_ok (al\<lparr>free_count := c\<rparr>) = mm_ok al"
  by (simp_all add: mm_ok_def)

lemma later_pages_update [simp]:
  "later_pages (al\<lparr>descriptor_index := i\<rparr>) = later_pages al"
  "later_pages (al\<lparr>next_frame := n\<rparr>) = later_pages al"
  "later_pages (al\<lparr>remaining_pages := r\<rparr>) = later_pages al"
  "later_pages (al\<lparr>allocated_pages := a\<rparr>) = later_pages al"
  "later_pages (al\<lparr>free_list := l\<rparr>) = later_pages al"
  "later_pages (al\<lparr>free_count := c\<rparr>) = later_pages al"
  by (simp_all add: later_pages_def fun_eq_iff)

lemma later_pages_Suc:
  "k < unat (descriptor_count al) \<Longrightarrow>
   later_pages al k = region_pages (descriptor al k) \<union> later_pages al (Suc k)"
proof -
  assume "k < unat (descriptor_count al)"
  then have "{k ..< unat (descriptor_count al)} = insert k {Suc k ..< unat (descriptor_count al)}"
    by auto
  then show ?thesis by (simp add: later_pages_def)
qed

lemma later_pages_disjoint:
  assumes "mm_ok al" "k < unat (descriptor_count al)"
  shows "region_pages (descriptor al k) \<inter> later_pages al (Suc k) = {}"
proof -
  have "region_pages (descriptor al k) \<inter> region_pages (descriptor al i) = {}"
    if "i \<in> {Suc k ..< unat (descriptor_count al)}" for i
    using assms that by (auto simp: mm_ok_def)
  then show ?thesis unfolding later_pages_def by blast
qed

text \<open>The words of one region against its page numbers.\<close>

lemma region_words:
  assumes "usable d" "4096 dvd unat (physical_start d)"
    "unat (physical_start d) + unat (number_of_pages d) * 4096 \<le> 2 ^ 52"
  defines "rend \<equiv> physical_start d + number_of_pages d * PAGE_SIZE"
    and "start \<equiv> (if physical_start d < LOW_MEMORY_RESERVE then LOW_MEMORY_RESERVE
                  else physical_start d)"
  shows "rend \<le> LOW_MEMORY_RESERVE \<Longrightarrow> region_pages d = {}"
    and "\<not> rend \<le> LOW_MEMORY_RESERVE \<Longrightarrow>
      is_frame start \<and> (rend - start) div PAGE_SIZE \<noteq> 0
      \<and> unat start + unat ((rend - start) div PAGE_SIZE) * 4096 \<le> 2 ^ 52
      \<and> region_pages d = {unat start div 4096 ..<
          unat start div 4096 + unat ((rend - start) div PAGE_SIZE)}"
proof -
  obtain p where p: "unat (physical_start d) = 4096 * p" using assms(2) by (auto elim: dvdE)
  let ?n = "unat (number_of_pages d)"
  have "unat (number_of_pages d * PAGE_SIZE) = ?n * 4096"
    using assms(3) unat_mult_lem [of "number_of_pages d" PAGE_SIZE] by (simp add: PAGE_SIZE_def)
  then have rend: "unat rend = 4096 * (p + ?n)"
    unfolding rend_def using assms(3) p by (subst unat_add_64) auto
  have low: "unat LOW_MEMORY_RESERVE = 4096 * 256" by (simp add: LOW_MEMORY_RESERVE_def)
  have start: "unat start = 4096 * max 256 p"
    using p low by (auto simp: start_def word_less_nat_alt)
  have region: "region_pages d = {max 256 p ..< p + ?n}"
    using assms(1) p by (simp add: region_pages_def)
  { assume "rend \<le> LOW_MEMORY_RESERVE"
    then show "region_pages d = {}" using rend low region by (simp add: word_le_nat_alt) }
  assume "\<not> rend \<le> LOW_MEMORY_RESERVE"
  then have big: "256 < p + ?n" using rend low by (simp add: word_le_nat_alt)
  have npos: "0 < ?n" using assms(1) by (simp add: usable_def unat_gt_0)
  have sle: "start \<le> rend" using start rend big by (simp add: word_le_nat_alt)
  have rem: "unat ((rend - start) div PAGE_SIZE) = p + ?n - max 256 p"
    using start rend unat_sub_le [OF sle] big
    by (simp add: unat_div_distrib PAGE_SIZE_def flip: diff_mult_distrib2)
  then have "(rend - start) div PAGE_SIZE \<noteq> 0" using big npos by (auto simp flip: unat_gt_0)
  then show "is_frame start \<and> (rend - start) div PAGE_SIZE \<noteq> 0
      \<and> unat start + unat ((rend - start) div PAGE_SIZE) * 4096 \<le> 2 ^ 52
      \<and> region_pages d = {unat start div 4096 ..<
          unat start div 4096 + unat ((rend - start) div PAGE_SIZE)}"
    using start rem region big npos assms(3) p by (auto simp: is_frame_def)
qed

text \<open>What the search for the next region leaves behind.\<close>

definition region_selected :: "frame_allocator \<Rightarrow> bool \<times> frame_allocator \<Rightarrow> bool" where
  "region_selected al r \<longleftrightarrow> (case r of (ok, al') \<Rightarrow>
     (\<exists>i n q. al' = al\<lparr>descriptor_index := i, next_frame := n, remaining_pages := q\<rparr>) \<and>
     (if ok then fresh_pages al' = later_pages al (unat (descriptor_index al))
        \<and> current_pages al' \<inter> later_pages al (unat (descriptor_index al')) = {}
        \<and> remaining_pages al' \<noteq> 0 \<and> is_frame (next_frame al')
        \<and> unat (next_frame al') + unat (remaining_pages al') * 4096 \<le> 2 ^ 52
      else later_pages al (unat (descriptor_index al)) = {}
        \<and> al' = al\<lparr>descriptor_index := descriptor_index al'\<rparr>
        \<and> later_pages al (unat (descriptor_index al')) = {}))"

lemma region_selected_skip:
  assumes "region_selected (al\<lparr>descriptor_index := descriptor_index al + 1\<rparr>) r"
    "descriptor_index al < descriptor_count al"
    "region_pages (descriptor al (unat (descriptor_index al))) = {}"
  shows "region_selected al r"
proof -
  have "unat (descriptor_index al) < unat (descriptor_count al)"
    using assms(2) by (simp add: word_less_nat_alt)
  then have "later_pages al (unat (descriptor_index al))
      = later_pages al (unat (descriptor_index al + 1))"
    using later_pages_Suc [of "unat (descriptor_index al)" al] assms(2,3)
    by (simp add: unat_Suc_less [OF assms(2)])
  then show ?thesis
    using assms(1) by (auto simp: region_selected_def split: prod.splits if_splits)
qed

lemma select_next_region_selected:
  "mm_ok al \<Longrightarrow> region_selected al (select_next_region al)"
proof (induction al rule: select_next_region.induct)
  case (1 al)
  let ?i = "unat (descriptor_index al)"
  let ?d = "memory_map al (descriptor_index al * descriptor_size al)"
  have d: "descriptor al ?i = ?d" by (simp add: descriptor_def)
  show ?case
  proof (cases "descriptor_index al < descriptor_count al")
    case False
    then have "later_pages al ?i = {}" by (simp add: later_pages_def word_less_nat_alt)
    moreover have "al = al\<lparr>descriptor_index := descriptor_index al, next_frame := next_frame al,
        remaining_pages := remaining_pages al\<rparr>" by simp
    then have "\<exists>i n q. al = al\<lparr>descriptor_index := i, next_frame := n, remaining_pages := q\<rparr>"
      by blast
    ultimately show ?thesis
      using False by (simp add: select_next_region.simps [of al] region_selected_def)
  next
    case idx: True
    then have i: "?i < unat (descriptor_count al)" by (simp add: word_less_nat_alt)
    note Suc = unat_Suc_less [OF idx]
    let ?al1 = "al\<lparr>descriptor_index := descriptor_index al + 1\<rparr>"
    let ?rend = "physical_start ?d + number_of_pages ?d * PAGE_SIZE"
    show ?thesis
    proof (cases "usable ?d")
      case False
      then have "region_selected ?al1 (select_next_region ?al1)"
        using 1 idx by (auto simp: usable_def)
      then have "region_selected al (select_next_region ?al1)"
        using region_selected_skip idx False d by (simp add: region_pages_def)
      moreover have "select_next_region al = select_next_region ?al1"
        using idx False by (subst select_next_region.simps) (auto simp: usable_def Let_def)
      ultimately show ?thesis by simp
    next
      case u: True
      have ok: "4096 dvd unat (physical_start ?d)"
        "unat (physical_start ?d) + unat (number_of_pages ?d) * 4096 \<le> 2 ^ 52"
        using 1(3) i u d by (auto simp: mm_ok_def)
      show ?thesis
      proof (cases "?rend \<le> LOW_MEMORY_RESERVE")
        case True
        then have "region_selected ?al1 (select_next_region ?al1)"
          using 1 idx u by (auto simp: usable_def)
        then have "region_selected al (select_next_region ?al1)"
          using region_selected_skip idx d region_words(1) [OF u ok True] by simp
        moreover have "select_next_region al = select_next_region ?al1"
          using idx True u by (subst select_next_region.simps) (auto simp: usable_def Let_def)
        ultimately show ?thesis by simp
      next
        case False
        define start where "start = (if physical_start ?d < LOW_MEMORY_RESERVE
          then LOW_MEMORY_RESERVE else physical_start ?d)"
        let ?r = "?al1\<lparr>next_frame := start, remaining_pages := (?rend - start) div PAGE_SIZE\<rparr>"
        have sel: "select_next_region al = (True, ?r)"
          using idx False u
          by (subst select_next_region.simps) (auto simp: usable_def Let_def start_def)
        have w: "is_frame start \<and> (?rend - start) div PAGE_SIZE \<noteq> 0
            \<and> unat start + unat ((?rend - start) div PAGE_SIZE) * 4096 \<le> 2 ^ 52
            \<and> region_pages ?d = {unat start div 4096 ..<
                unat start div 4096 + unat ((?rend - start) div PAGE_SIZE)}"
          unfolding start_def using region_words(2) [OF u ok False] .
        have "current_pages ?r = region_pages ?d" using w by (simp add: current_pages_def)
        moreover have "later_pages al ?i = region_pages ?d \<union> later_pages al (Suc ?i)"
          using later_pages_Suc [OF i] d by simp
        moreover have "region_pages ?d \<inter> later_pages al (Suc ?i) = {}"
          using later_pages_disjoint [OF 1(3) i] d by simp
        ultimately show ?thesis
          unfolding sel region_selected_def using w
          by (auto simp: fresh_pages_def Suc intro!: exI)
      qed
    qed
  qed
qed

lemma frame_inv_selected:
  assumes "frame_inv al owned" "remaining_pages al = 0" "select_next_region al = (ok, al1)"
  shows "frame_inv al1 owned" "ok \<Longrightarrow> remaining_pages al1 \<noteq> 0"
    "\<not> ok \<Longrightarrow> fresh_pages al = {}" "pooled al1 = pooled al"
proof -
  have cur: "current_pages al = {}" using assms(2) by (simp add: current_pages_def)
  have sel: "region_selected al (ok, al1)"
    using select_next_region_selected [of al] assms by (simp add: frame_inv_def)
  then obtain i n q where al1:
    "al1 = al\<lparr>descriptor_index := i, next_frame := n, remaining_pages := q\<rparr>"
    by (auto simp: region_selected_def)
  show pool: "pooled al1 = pooled al" by (simp add: al1 pooled_def)
  show "ok \<Longrightarrow> remaining_pages al1 \<noteq> 0" "\<not> ok \<Longrightarrow> fresh_pages al = {}"
    using sel cur by (auto simp: region_selected_def fresh_pages_def)
  have fresh: "fresh_pages al1 = fresh_pages al"
  proof (cases ok)
    case True
    then show ?thesis using sel cur by (simp add: region_selected_def fresh_pages_def)
  next
    case False
    then have "al1 = al\<lparr>descriptor_index := descriptor_index al1\<rparr>"
      "later_pages al (unat (descriptor_index al1)) = {}"
      "later_pages al (unat (descriptor_index al)) = {}"
      using sel by (auto simp: region_selected_def)
    then have "current_pages al1 = current_pages al"
      "later_pages al1 (unat (descriptor_index al1)) = {}"
      by (metis current_pages_def frame_allocator.ext_inject frame_allocator.surjective
          frame_allocator.update_convs(4), metis later_pages_update(1))
    then show ?thesis using cur \<open>later_pages al (unat (descriptor_index al)) = {}\<close>
      by (simp add: fresh_pages_def)
  qed
  have cl: "current_pages al1 \<inter> later_pages al1 (unat (descriptor_index al1)) = {}"
  proof (cases ok)
    case True
    then show ?thesis using sel al1 by (simp add: region_selected_def)
  next
    case False
    then have "later_pages al (unat (descriptor_index al1)) = {}"
      using sel by (auto simp: region_selected_def)
    then show ?thesis using al1 by simp
  qed
  have rem: "remaining_pages al1 \<noteq> 0 \<longrightarrow> is_frame (next_frame al1)
      \<and> unat (next_frame al1) + unat (remaining_pages al1) * 4096 \<le> 2 ^ 52"
  proof (cases ok)
    case True
    then show ?thesis using sel by (simp add: region_selected_def)
  next
    case False
    then have "al1 = al\<lparr>descriptor_index := descriptor_index al1\<rparr>"
      using sel by (auto simp: region_selected_def)
    then have "remaining_pages al1 = remaining_pages al"
      by (metis frame_allocator.select_convs(6) frame_allocator.surjective
          frame_allocator.update_convs(4))
    then show ?thesis using assms(2) by simp
  qed
  show "frame_inv al1 owned"
    using assms(1) cl rem fresh pool unfolding frame_inv_def by (simp add: al1)
qed

lemma frame_inv_take_fresh:
  assumes "frame_inv al owned" "remaining_pages al \<noteq> 0"
  defines "f \<equiv> next_frame al"
  shows "is_frame f" "f \<notin> owned"
    "frame_inv (al\<lparr>next_frame := f + PAGE_SIZE, remaining_pages := remaining_pages al - 1,
       allocated_pages := a\<rparr>) (insert f owned)"
proof -
  have inv: "is_frame f" "unat f + unat (remaining_pages al) * 4096 \<le> 2 ^ 52"
    using assms by (auto simp: frame_inv_def)
  show "is_frame f" by (rule inv)
  have r: "0 < unat (remaining_pages al)" using assms(2) by (simp add: unat_gt_0)
  have f': "unat (f + PAGE_SIZE) = unat f + 4096"
    using inv(2) r by (subst unat_add_64) (auto simp: PAGE_SIZE_def)
  have r': "unat (remaining_pages al - 1) = unat (remaining_pages al) - 1"
    using assms(2) by (simp add: unat_minus_one)
  let ?al = "al\<lparr>next_frame := f + PAGE_SIZE, remaining_pages := remaining_pages al - 1,
       allocated_pages := a\<rparr>"
  have dv: "unat f div 4096 + 1 = (unat f + 4096) div 4096" by simp
  have cur: "current_pages al = insert (page_of f) (current_pages ?al)"
    using r f' r' by (auto simp: current_pages_def page_of_def f_def dv)
  have fresh_f: "page_of f \<in> fresh_pages al" using cur by (simp add: fresh_pages_def)
  then show notin: "f \<notin> owned" using assms(1) by (auto simp: frame_inv_def)
  have notpool: "f \<notin> set (pooled al)" using fresh_f assms(1) by (auto simp: frame_inv_def)
  have nf: "page_of f \<notin> current_pages ?al"
    using f' by (simp add: current_pages_def page_of_def flip: dv)
  have sub: "fresh_pages ?al \<subseteq> fresh_pages al" using cur by (auto simp: fresh_pages_def)
  have "page_of f \<notin> later_pages al (unat (descriptor_index al))"
    using assms(1) cur by (auto simp: frame_inv_def)
  then have nf2: "page_of f \<notin> fresh_pages ?al" using nf by (simp add: fresh_pages_def)
  have "is_frame (f + PAGE_SIZE)" if "remaining_pages al - 1 \<noteq> 0"
  proof -
    have "0 < unat (remaining_pages al - 1)" using that by (simp add: unat_gt_0)
    then have "unat f + 4096 < 2 ^ 52" using inv(2) r' by simp
    then show ?thesis using inv f' by (simp add: is_frame_def)
  qed
  moreover have "unat (f + PAGE_SIZE) + unat (remaining_pages al - 1) * 4096 \<le> 2 ^ 52"
    using inv(2) r f' r' by (simp add: diff_mult_distrib)
  moreover have "pooled ?al = pooled al" by (simp add: pooled_def)
  moreover have "current_pages ?al \<inter> later_pages al (unat (descriptor_index al)) = {}"
    using assms(1) cur by (auto simp: frame_inv_def)
  moreover have "page_of ` (set (pooled al) \<union> insert f owned) \<inter> fresh_pages ?al = {}"
    using assms(1) sub nf2 by (auto simp: frame_inv_def)
  ultimately show "frame_inv ?al (insert f owned)"
    using assms(1) inv notpool unfolding frame_inv_def by auto
qed

lemma frame_inv_take_pooled:
  assumes "frame_inv al owned" "free_count al > 0"
  defines "f \<equiv> free_list al ! unat (free_count al - 1)"
  shows "is_frame f" "f \<notin> owned"
    "frame_inv (al\<lparr>free_count := free_count al - 1, allocated_pages := a\<rparr>) (insert f owned)"
proof -
  let ?al = "al\<lparr>free_count := free_count al - 1, allocated_pages := a\<rparr>"
  have ne: "free_count al \<noteq> 0" using assms(2) by auto
  then have "0 < unat (free_count al)" by (simp add: unat_gt_0)
  then have c: "unat (free_count al) = Suc (unat (free_count al - 1))"
    by (simp add: unat_minus_one [OF ne])
  have "unat (free_count al - 1) < length (free_list al)"
    using assms(1) c by (auto simp: frame_inv_def)
  then have pool: "pooled al = pooled ?al @ [f]"
    by (simp add: pooled_def c f_def take_Suc_conv_app_nth)
  have cur: "current_pages ?al = current_pages al" by (simp add: current_pages_def)
  then have fresh: "fresh_pages ?al = fresh_pages al" by (simp add: fresh_pages_def)
  show "is_frame f" "f \<notin> owned" using assms(1) pool by (auto simp: frame_inv_def)
  then show "frame_inv ?al (insert f owned)"
    using assms(1) pool fresh cur c unfolding frame_inv_def by auto
qed

lemma frame_allocate_cases:
  assumes "frame_inv al owned" "frame_allocate al = (f, al')"
  shows "if f = 0 then frame_inv al' owned \<and> pooled al = [] \<and> fresh_pages al = {}
    else is_frame f \<and> f \<notin> owned \<and> frame_inv al' (insert f owned)"
proof (cases "free_count al > 0")
  case True
  then show ?thesis
    using assms(2) frame_inv_take_pooled(1,2) [OF assms(1) True]
      frame_inv_take_pooled(3) [OF assms(1) True, of "allocated_pages al + 1"]
      is_frame_nonzero
    by (auto simp: frame_allocate_def Let_def)
next
  case nopool: False
  then have pool: "pooled al = []" by (simp add: pooled_def word_gt_0)
  show ?thesis
  proof (cases "remaining_pages al = 0")
    case False
    then show ?thesis
      using assms(2) nopool frame_inv_take_fresh(1,2) [OF assms(1) False]
        frame_inv_take_fresh(3) [OF assms(1) False, of "allocated_pages al + 1"]
        is_frame_nonzero
      by (auto simp: frame_allocate_def Let_def)
  next
    case rem: True
    obtain ok al1 where sel: "select_next_region al = (ok, al1)" by (cases "select_next_region al")
    note s = frame_inv_selected [OF assms(1) rem sel]
    show ?thesis
    proof (cases ok)
      case True
      then show ?thesis
        using assms(2) nopool rem sel is_frame_nonzero
          frame_inv_take_fresh(1,2) [OF s(1) s(2) [OF True]]
          frame_inv_take_fresh(3) [OF s(1) s(2) [OF True], of "allocated_pages al1 + 1"]
        by (auto simp: frame_allocate_def Let_def)
    next
      case False
      then show ?thesis using assms(2) nopool rem sel s pool by (auto simp: frame_allocate_def Let_def)
    qed
  qed
qed

lemma and_4095: "frame AND (PAGE_SIZE - 1) = 0 \<longleftrightarrow> 4096 dvd unat frame"
proof -
  have "frame AND (PAGE_SIZE - 1) = take_bit 12 frame"
    by (simp add: PAGE_SIZE_def take_bit_eq_mask mask_numeral)
  also have "unat (take_bit 12 frame) = unat frame mod 4096"
    by (simp add: take_bit_eq_mod unat_mod_distrib)
  then have "take_bit 12 frame = 0 \<longleftrightarrow> unat frame mod 4096 = 0"
    by (simp flip: unat_0_iff)
  finally show ?thesis by (simp add: dvd_eq_mod_eq_0)
qed

lemma frame_inv_free:
  assumes "frame_inv al owned" "f \<in> owned"
  shows "frame_inv (frame_free al f) (owned - {f})"
    "free_count al < FRAME_FREE_LIST_CAPACITY \<Longrightarrow> f \<in> set (pooled (frame_free al f))"
proof -
  have f: "is_frame f" using assms by (auto simp: frame_inv_def)
  then have dvd: "frame_free al f = (if free_count al < FRAME_FREE_LIST_CAPACITY then
        al\<lparr>free_list := (free_list al)[unat (free_count al) := f],
          free_count := free_count al + 1,
          allocated_pages := allocated_pages al - 1\<rparr>
      else al)"
    using is_frame_nonzero [OF f] and_4095 [of f] by (simp add: frame_free_def is_frame_def)
  have len: "length (free_list al) = 256" using assms(1) by (simp add: frame_inv_def)
  { assume c: "free_count al < FRAME_FREE_LIST_CAPACITY"
    have c': "unat (free_count al) < 256"
      using c by (simp add: FRAME_FREE_LIST_CAPACITY_def word_less_nat_alt)
    have pool: "pooled (frame_free al f) = pooled al @ [f]"
      using c c' len by (simp add: dvd pooled_def unat_Suc_less [OF c] take_Suc_conv_app_nth)
    then show "f \<in> set (pooled (frame_free al f))" by simp
    have cur: "current_pages (frame_free al f) = current_pages al"
      by (simp add: dvd current_pages_def)
    then have fresh: "fresh_pages (frame_free al f) = fresh_pages al"
      by (simp add: dvd fresh_pages_def)
    have "frame_inv (frame_free al f) (owned - {f})"
      unfolding frame_inv_def pool fresh cur
      using assms f c' len by (auto simp: dvd c unat_Suc_less [OF c] frame_inv_def) }
  moreover
  { assume "\<not> free_count al < FRAME_FREE_LIST_CAPACITY"
    then have "frame_inv (frame_free al f) (owned - {f})"
      using assms by (auto simp: dvd frame_inv_def) }
  ultimately show "frame_inv (frame_free al f) (owned - {f})" by blast
qed

section \<open>The interface of frame sources\<close>

text \<open>What the page-table code, the heap and the process table rely on: a frame that is handed
  out is aligned, outside the first megabyte and not already owned.\<close>

locale frame_source =
  fixes take_frame :: "'a \<Rightarrow> u64 \<times> 'a"
    and give_frame :: "'a \<Rightarrow> u64 \<Rightarrow> 'a"
    and inv :: "'a \<Rightarrow> u64 set \<Rightarrow> bool"
  assumes take_null: "inv al owned \<Longrightarrow> take_frame al = (0, al') \<Longrightarrow> inv al' owned"
    and take_frame: "inv al owned \<Longrightarrow> take_frame al = (f, al') \<Longrightarrow> f \<noteq> 0 \<Longrightarrow>
      is_frame f \<and> f \<notin> owned \<and> inv al' (insert f owned)"
    and give_frame: "inv al owned \<Longrightarrow> f \<in> owned \<Longrightarrow> inv (give_frame al f) (owned - {f})"
begin

fun take_frames :: "nat \<Rightarrow> 'a \<Rightarrow> u64 list \<times> 'a" where
  "take_frames 0 al = ([], al)"
| "take_frames (Suc n) al =
     (case take_frame al of (f, al1) \<Rightarrow>
        if f = 0 then ([], al1)
        else (case take_frames n al1 of (fs, al2) \<Rightarrow> (f # fs, al2)))"

lemma take_frames_distinct:
  "inv al owned \<Longrightarrow> take_frames n al = (fs, al') \<Longrightarrow>
   distinct fs \<and> set fs \<inter> owned = {} \<and> (\<forall>f \<in> set fs. is_frame f) \<and> inv al' (owned \<union> set fs)"
proof (induction n arbitrary: al owned fs al')
  case (Suc n)
  obtain f al1 where f: "take_frame al = (f, al1)" by (cases "take_frame al")
  show ?case
  proof (cases "f = 0")
    case True
    then show ?thesis using Suc.prems f take_null by auto
  next
    case False
    obtain gs al2 where gs: "take_frames n al1 = (gs, al2)" by (cases "take_frames n al1")
    have 1: "is_frame f" "f \<notin> owned" "inv al1 (insert f owned)"
      using take_frame [OF Suc.prems(1) f False] by auto
    from Suc.IH [OF 1(3) gs] 1 Suc.prems(2) f gs False show ?thesis by auto
  qed
qed auto

end

interpretation frames: frame_source frame_allocate frame_free frame_inv
proof
  fix al owned al'
  assume "frame_inv al owned" "frame_allocate al = (0, al')"
  then show "frame_inv al' owned" using frame_allocate_cases by fastforce
next
  fix al owned f al'
  assume "frame_inv al owned" "frame_allocate al = (f, al')" "f \<noteq> 0"
  then show "is_frame f \<and> f \<notin> owned \<and> frame_inv al' (insert f owned)"
    using frame_allocate_cases by fastforce
qed (rule frame_inv_free)

text \<open>Runs of the allocator: the owned set grows with every frame handed out and shrinks with
  every owned frame given back.\<close>

inductive frame_step :: "frame_allocator \<times> u64 set \<Rightarrow> frame_allocator \<times> u64 set \<Rightarrow> bool" where
  allocated: "frame_allocate al = (f, al') \<Longrightarrow> f \<noteq> 0 \<Longrightarrow> frame_step (al, owned) (al', insert f owned)"
| exhausted: "frame_allocate al = (0, al') \<Longrightarrow> frame_step (al, owned) (al', owned)"
| freed: "f \<in> owned \<Longrightarrow> frame_step (al, owned) (frame_free al f, owned - {f})"

inductive_cases frame_stepE: "frame_step (al, owned) s"

lemma frame_step_inv:
  assumes "frame_step s t" "frame_inv (fst s) (snd s)"
  shows "frame_inv (fst t) (snd t)"
  using assms
proof (induction rule: frame_step.induct)
  case (allocated al f al' owned)
  then show ?case using frames.take_frame by fastforce
next
  case (exhausted al al' owned)
  then show ?case using frames.take_null by fastforce
next
  case (freed f owned al)
  then show ?case using frames.give_frame by fastforce
qed

lemma frame_inv_initialize:
  assumes "mm_ok (frame_allocator_initialize al mm mm_size d_size)" "length (free_list al) = 256"
  shows "frame_inv (frame_allocator_initialize al mm mm_size d_size) {}"
  using assms
  by (simp add: frame_inv_def frame_allocator_initialize_def pooled_def current_pages_def)

lemma frame_run_inv:
  "frame_step\<^sup>*\<^sup>* s t \<Longrightarrow> frame_inv (fst s) (snd s) \<Longrightarrow> frame_inv (fst t) (snd t)"
  by (induction rule: rtranclp_induct) (auto intro: frame_step_inv)

text \<open>One conventional region of sixteen pages at two megabytes, for closed instances.\<close>

definition one_region_allocator :: frame_allocator where
  "one_region_allocator = frame_allocator_initialize
     \<lparr>memory_map = (\<lambda>_. \<lparr>md_type = 0, physical_start = 0, number_of_pages = 0\<rparr>),
      memory_map_size = 0, descriptor_size = 0, descriptor_index = 0, next_frame = 0,
      remaining_pages = 0, allocated_pages = 0, free_list = replicate 256 0, free_count = 0\<rparr>
     (\<lambda>_. \<lparr>md_type = 7, physical_start = 0x200000, number_of_pages = 16\<rparr>) 48 48"

lemma one_region_mm_ok: "mm_ok one_region_allocator"
  by (simp add: mm_ok_def one_region_allocator_def frame_allocator_initialize_def
      descriptor_count_def descriptor_def)

lemma one_region_inv: "frame_inv one_region_allocator {}"
  unfolding one_region_allocator_def
  by (rule frame_inv_initialize)
     (simp_all add: one_region_mm_ok [unfolded one_region_allocator_def])

lemma one_region_allocate:
  "frame_allocate one_region_allocator =
     (0x200000, one_region_allocator\<lparr>descriptor_index := 1, next_frame := 0x201000,
        remaining_pages := 15, allocated_pages := 1\<rparr>)"
  by (simp add: frame_allocate_def one_region_allocator_def frame_allocator_initialize_def
      select_next_region.simps descriptor_count_def frame_consts)

section \<open>Properties\<close>



text \<open>\<open>frame_allocate\<close> reports exhaustion only when no freed frame is pooled and every frame of
  every usable region has been handed out.\<close>

theorem frame_allocate_null_exhausted:
  assumes "frame_inv al owned" and "frame_allocate al = (0, al')"
  shows "pooled al = [] \<and> fresh_pages al = {}"
  using frame_allocate_cases [OF assms] by simp

theorem frame_allocate_null_exhausted_witness:
  "\<exists>al al'. frame_allocate al = (0, al') \<and> pooled al = [] \<and> fresh_pages al = {}"
proof -
  let ?al = "frame_allocator_initialize one_region_allocator (memory_map one_region_allocator) 0 48"
  have "length (free_list one_region_allocator) = 256"
    by (simp add: one_region_allocator_def frame_allocator_initialize_def)
  then have inv: "frame_inv ?al {}"
    by (intro frame_inv_initialize)
       (simp_all add: mm_ok_def frame_allocator_initialize_def descriptor_count_def)
  have "frame_allocate ?al = (0, ?al)"
    by (simp add: frame_allocate_def frame_allocator_initialize_def select_next_region.simps
        descriptor_count_def)
  then show ?thesis using frame_allocate_null_exhausted [OF inv] by blast
qed

text \<open>a freed frame is the next one handed out, and freeing and reallocating it leaves the
  allocation count and every other field as they were, while the free list has room.\<close>

theorem frame_free_allocate:
  assumes "f \<noteq> 0" and "f AND (PAGE_SIZE - 1) = 0"
    and "free_count al < FRAME_FREE_LIST_CAPACITY" and "length (free_list al) = 256"
  shows "frame_allocate (frame_free al f)
    = (f, al\<lparr>free_list := (free_list al)[unat (free_count al) := f]\<rparr>)"
proof -
  have "unat (free_count al) < 256"
    using assms(3) by (simp add: FRAME_FREE_LIST_CAPACITY_def word_less_nat_alt)
  moreover have "0 < free_count al + 1"
    using unat_Suc_less [OF assms(3)] by (simp add: word_less_nat_alt)
  ultimately show ?thesis using assms by (simp add: frame_free_def frame_allocate_def Let_def)
qed

theorem frame_free_allocate_witness:
  "fst (frame_allocate (frame_free one_region_allocator 0x300000)) = 0x300000"
  using frame_free_allocate [of "0x300000" one_region_allocator]
  by (simp add: one_region_allocator_def frame_allocator_initialize_def frame_consts)

end
