(* ===== verification/Kernel_Paging.thy ===== *)
theory Kernel_Paging
  imports Frame_Allocator
begin

text \<open>
  \<^verbatim>\<open>src/kernel/paging.c\<close>: four-level x86-64 page tables.  Physical memory is a store of
  64-bit entries by byte address (the kernel runs with physical memory identity mapped); a page
  table is the address of its frame, 0 the null pointer.  The machine state also holds the frame
  allocator that every \<open>ASAS_PAGE_TABLES\<close> of the kernel points to, the control register
  \<open>CR3\<close>, the \<open>IA32_EFER\<close> register and the list of addresses flushed with \<open>invlpg\<close>.
\<close>

section \<open>Data\<close>

definition PAGE_PRESENT :: u64 where "PAGE_PRESENT = 1"
definition PAGE_WRITABLE :: u64 where "PAGE_WRITABLE = 2"
definition ASAS_PAGE_WRITABLE :: u64 where "ASAS_PAGE_WRITABLE = 2"
definition ASAS_PAGE_USER :: u64 where "ASAS_PAGE_USER = 4"
definition ASAS_PAGE_NO_EXECUTE :: u64 where "ASAS_PAGE_NO_EXECUTE = 0x8000000000000000"
definition PAGE_ADDRESS_MASK :: u64 where "PAGE_ADDRESS_MASK = 0x000FFFFFFFFFF000"
definition EFER_NXE :: u64 where "EFER_NXE = push_bit 11 1"

record page_machine =
  phys :: "u64 \<Rightarrow> u64"
  pm_frames :: frame_allocator
  invlpg_log :: "u64 list"
  cr3 :: u64
  efer :: u64

record page_tables =
  pml4 :: u64
  has_frame_allocator :: bool

section \<open>Operations\<close>

definition entry_addr :: "u64 \<Rightarrow> u32 \<Rightarrow> u64" where
  "entry_addr table index = table + 8 * ucast index"

definition present :: "u64 \<Rightarrow> bool" where
  "present e \<longleftrightarrow> e AND PAGE_PRESENT \<noteq> 0"

definition set_entry :: "u64 \<Rightarrow> u32 \<Rightarrow> u64 \<Rightarrow> page_machine \<Rightarrow> page_machine" where
  "set_entry table index v m = m\<lparr>phys := (phys m)(entry_addr table index := v)\<rparr>"

definition get_entry :: "u64 \<Rightarrow> u32 \<Rightarrow> page_machine \<Rightarrow> u64" where
  "get_entry table index m = phys m (entry_addr table index)"

definition clear_page :: "u64 \<Rightarrow> page_machine \<Rightarrow> page_machine" where
  "clear_page physical_address m =
     fold (\<lambda>index m. set_entry physical_address (of_nat index) 0 m) [0 ..< 512] m"

definition next_table :: "u64 \<Rightarrow> u32 \<Rightarrow> u64 \<Rightarrow> page_machine \<Rightarrow> u64 \<times> page_machine" where
  "next_table table index flags m =
     (if present (get_entry table index m) then
        let e = get_entry table index m OR (flags AND ASAS_PAGE_USER)
        in (e AND PAGE_ADDRESS_MASK, set_entry table index e m)
      else
        let (frame, al) = frame_allocate (pm_frames m); m1 = m\<lparr>pm_frames := al\<rparr>
        in if frame = 0 then (0, m1)
           else (frame, set_entry table index
                  (frame OR PAGE_PRESENT OR PAGE_WRITABLE OR (flags AND ASAS_PAGE_USER))
                  (clear_page frame m1)))"

definition table_index :: "nat \<Rightarrow> u64 \<Rightarrow> u32" where
  "table_index shift virtual_address = ucast (drop_bit shift virtual_address AND 0x1FF)"

text \<open>The loop that copies the entries from \<open>first\<close> on of one top-level table to another.\<close>

definition copy_entries :: "u64 \<Rightarrow> u64 \<Rightarrow> nat \<Rightarrow> page_machine \<Rightarrow> page_machine" where
  "copy_entries destination source first m =
     fold (\<lambda>index m. set_entry destination (of_nat index) (get_entry source (of_nat index) m) m)
       [first ..< 512] m"

definition paging_initialize :: "page_machine \<Rightarrow> page_tables \<times> page_machine" where
  "paging_initialize m =
     (let firmware_pml4 = cr3 m AND PAGE_ADDRESS_MASK;
          (new_pml4_frame, al) = frame_allocate (pm_frames m);
          m1 = m\<lparr>pm_frames := al\<rparr>
      in if new_pml4_frame = 0
         then (\<lparr>pml4 = 0, has_frame_allocator = True\<rparr>, m1)
         else
           let m2 = copy_entries new_pml4_frame firmware_pml4 0 m1
           in (\<lparr>pml4 = new_pml4_frame, has_frame_allocator = True\<rparr>,
               m2\<lparr>cr3 := new_pml4_frame\<rparr>))"

definition paging_enable_nx :: "page_machine \<Rightarrow> page_machine" where
  "paging_enable_nx m = m\<lparr>efer := efer m OR EFER_NXE\<rparr>"

definition map_page ::
  "page_tables \<Rightarrow> u64 \<Rightarrow> u64 \<Rightarrow> u64 \<Rightarrow> page_machine \<Rightarrow> bool \<times> page_machine" where
  "map_page tables virtual_address physical_address flags m =
     (let pml4_index = table_index 39 virtual_address;
          pdpt_index = table_index 30 virtual_address;
          pd_index = table_index 21 virtual_address;
          pt_index = table_index 12 virtual_address
      in if pml4 tables = 0 then (False, m)
         else let (pdpt, m1) = next_table (pml4 tables) pml4_index flags m in
           if pdpt = 0 then (False, m1)
           else let (pd, m2) = next_table pdpt pdpt_index flags m1 in
             if pd = 0 then (False, m2)
             else let (pt, m3) = next_table pd pd_index flags m2 in
               if pt = 0 then (False, m3)
               else
                 let m4 = set_entry pt pt_index
                   ((physical_address AND PAGE_ADDRESS_MASK) OR flags OR PAGE_PRESENT) m3
                 in (True, m4\<lparr>invlpg_log := invlpg_log m4 @ [virtual_address]\<rparr>))"

text \<open>The loop of \<open>paging_page_flags\<close> over the upper levels and its final read.\<close>

fun walk_entry :: "(u64 \<Rightarrow> u64) \<Rightarrow> u64 \<Rightarrow> u32 list \<Rightarrow> u64" where
  "walk_entry mem table [] = 0"
| "walk_entry mem table [index] = mem (entry_addr table index)"
| "walk_entry mem table (index # rest) =
     (if \<not> present (mem (entry_addr table index)) then 0
      else walk_entry mem (mem (entry_addr table index) AND PAGE_ADDRESS_MASK) rest)"

definition walk_indices :: "u64 \<Rightarrow> u32 list" where
  "walk_indices virtual_address =
     [table_index 39 virtual_address, table_index 30 virtual_address,
      table_index 21 virtual_address, table_index 12 virtual_address]"

definition paging_page_flags :: "page_tables \<Rightarrow> u64 \<Rightarrow> page_machine \<Rightarrow> u64" where
  "paging_page_flags tables virtual_address m =
     walk_entry (phys m) (pml4 tables) (walk_indices virtual_address)"

definition paging_create_address_space ::
  "page_tables \<Rightarrow> page_tables \<Rightarrow> page_machine \<Rightarrow> bool \<times> page_tables \<times> page_machine" where
  "paging_create_address_space destination kernel_tables m =
     (let (pml4_frame, al) = frame_allocate (pm_frames m); m1 = m\<lparr>pm_frames := al\<rparr>
      in if pml4_frame = 0 then (False, destination, m1)
         else
           let m2 = clear_page pml4_frame m1;
               m3 = copy_entries pml4_frame (pml4 kernel_tables) 256 m2
           in (True, \<lparr>pml4 = pml4_frame, has_frame_allocator = True\<rparr>, m3))"

text \<open>The four nested loops of \<open>paging_destroy_address_space\<close>, innermost first.\<close>

definition free_frame :: "u64 \<Rightarrow> page_machine \<Rightarrow> page_machine" where
  "free_frame frame m = m\<lparr>pm_frames := frame_free (pm_frames m) frame\<rparr>"

definition destroy_pt_entry :: "u64 \<Rightarrow> nat \<Rightarrow> page_machine \<Rightarrow> page_machine" where
  "destroy_pt_entry pt index m =
     (let e = get_entry pt (of_nat index) m in
      if present e
      then set_entry pt (of_nat index) 0 (free_frame (e AND PAGE_ADDRESS_MASK) m)
      else m)"

definition destroy_pd_entry :: "u64 \<Rightarrow> nat \<Rightarrow> page_machine \<Rightarrow> page_machine" where
  "destroy_pd_entry pd index m =
     (let e = get_entry pd (of_nat index) m in
      if present e
      then set_entry pd (of_nat index) 0 (free_frame (e AND PAGE_ADDRESS_MASK)
             (fold (destroy_pt_entry (e AND PAGE_ADDRESS_MASK)) [0 ..< 512] m))
      else m)"

definition destroy_pdpt_entry :: "u64 \<Rightarrow> nat \<Rightarrow> page_machine \<Rightarrow> page_machine" where
  "destroy_pdpt_entry pdpt index m =
     (let e = get_entry pdpt (of_nat index) m in
      if present e
      then set_entry pdpt (of_nat index) 0 (free_frame (e AND PAGE_ADDRESS_MASK)
             (fold (destroy_pd_entry (e AND PAGE_ADDRESS_MASK)) [0 ..< 512] m))
      else m)"

definition destroy_pml4_entry :: "u64 \<Rightarrow> nat \<Rightarrow> page_machine \<Rightarrow> page_machine" where
  "destroy_pml4_entry table index m =
     (let e = get_entry table (of_nat index) m in
      if present e
      then set_entry table (of_nat index) 0 (free_frame (e AND PAGE_ADDRESS_MASK)
             (fold (destroy_pdpt_entry (e AND PAGE_ADDRESS_MASK)) [0 ..< 512] m))
      else m)"

definition paging_destroy_address_space ::
  "page_tables \<Rightarrow> page_machine \<Rightarrow> page_tables \<times> page_machine" where
  "paging_destroy_address_space tables m =
     (if pml4 tables = 0 \<or> \<not> has_frame_allocator tables then (tables, m)
      else
        let m1 = fold (destroy_pml4_entry (pml4 tables)) [0 ..< 256] m
        in (\<lparr>pml4 = 0, has_frame_allocator = False\<rparr>, free_frame (pml4 tables) m1))"

lemmas page_consts = PAGE_PRESENT_def PAGE_WRITABLE_def ASAS_PAGE_WRITABLE_def
  ASAS_PAGE_USER_def ASAS_PAGE_NO_EXECUTE_def PAGE_ADDRESS_MASK_def EFER_NXE_def

section \<open>Lemmas\<close>

subsection \<open>Addresses\<close>

lemma unat_table_index: "unat (table_index s va) < 512"
proof -
  have "drop_bit s va AND 0x1FF = take_bit 9 (drop_bit s va)"
    by (simp add: take_bit_eq_mask mask_numeral)
  then have "table_index s va = take_bit 9 (ucast (drop_bit s va))"
    by (simp add: table_index_def unsigned_take_bit_eq)
  then have "unat (table_index s va) = take_bit 9 (unat (ucast (drop_bit s va) :: u32))"
    by (simp add: unsigned_take_bit_eq)
  then show ?thesis by (simp add: take_bit_eq_mod)
qed

lemma unat_entry_addr:
  assumes "is_frame t" "unat i < 512"
  shows "unat (entry_addr t i) = unat t + 8 * unat i"
proof -
  have c: "unat (8 * ucast i :: u64) = 8 * unat i"
    using assms(2) unat_mult_lem [of "8 :: u64" "ucast i"] by simp
  show ?thesis
    unfolding entry_addr_def using assms c by (subst unat_add_64) (auto simp: is_frame_def)
qed

lemma entry_addr_eq_iff:
  assumes "is_frame t" "is_frame q" "unat i < 512" "unat j < 512"
  shows "entry_addr t i = entry_addr q j \<longleftrightarrow> t = q \<and> i = j"
proof
  assume eq: "entry_addr t i = entry_addr q j"
  have t: "unat t = 4096 * page_of t" and q: "unat q = 4096 * page_of q"
    using assms is_frame_page by auto
  have u: "unat t + 8 * unat i = unat q + 8 * unat j"
    using eq unat_entry_addr assms by metis
  have p: "(4096 * page_of t + 8 * unat i) div 4096 = page_of t"
    "(4096 * page_of q + 8 * unat j) div 4096 = page_of q"
    using assms by simp_all
  have "page_of t = page_of q" using u t q p by metis
  then show "t = q \<and> i = j"
    using u t q by (auto simp: word_unat_eq_iff)
qed simp

lemma mask_of_frame:
  assumes "is_frame f"
  shows "f AND PAGE_ADDRESS_MASK = f"
proof (rule bit_eqI)
  fix n
  assume n: "possible_bit TYPE(u64) n"
  have M: "PAGE_ADDRESS_MASK = push_bit 12 (mask 40)"
    by (simp add: PAGE_ADDRESS_MASK_def mask_numeral)
  have "take_bit 12 f = 0"
    using assms by (simp add: take_bit_eq_mod unat_mod_distrib is_frame_def dvd_eq_mod_eq_0
        flip: unat_0_iff)
  then have low: "n < 12 \<Longrightarrow> \<not> bit f n" by (metis bit_0_eq bit_take_bit_iff bot_apply bot_bool_def)
  have "take_bit 52 (unat f) = unat f"
    using assms by (simp add: is_frame_def take_bit_nat_eq_self_iff)
  then have "take_bit 52 f = f" by (simp add: word_unat_eq_iff unsigned_take_bit_eq)
  then have high: "52 \<le> n \<Longrightarrow> \<not> bit f n" by (metis bit_take_bit_iff not_le)
  have "bit f n \<Longrightarrow> 12 \<le> n \<and> n - 12 < 40" using low high by linarith
  then show "bit (f AND PAGE_ADDRESS_MASK) n = bit f n"
    using n unfolding M by (auto simp: bit_and_iff bit_push_bit_iff bit_mask_iff)
qed

lemma user_bit_cases: "flags AND 4 = 0 \<or> flags AND 4 = 4" for flags :: u64
proof -
  have "(flags :: u64) AND 4 = (if bit flags 2 then 4 else 0)"
  proof (rule bit_eqI)
    fix n
    have "bit (4 :: u64) n \<longleftrightarrow> n = 2"
      using bit_exp_iff [where 'a = u64, of 2 n] by auto
    then show "bit (flags AND 4) n = bit (if bit flags 2 then 4 else 0 :: u64) n"
      by (auto simp: bit_and_iff)
  qed
  then show ?thesis by auto
qed

lemma new_entry:
  assumes "is_frame f"
  shows "(f OR PAGE_PRESENT OR PAGE_WRITABLE OR (flags AND ASAS_PAGE_USER)) AND PAGE_ADDRESS_MASK = f"
    "present (f OR PAGE_PRESENT OR PAGE_WRITABLE OR (flags AND ASAS_PAGE_USER))"
proof -
  have "(flags AND ASAS_PAGE_USER) AND PAGE_ADDRESS_MASK = 0"
    using user_bit_cases [of flags] by (auto simp: page_consts)
  then show "(f OR PAGE_PRESENT OR PAGE_WRITABLE OR (flags AND ASAS_PAGE_USER))
      AND PAGE_ADDRESS_MASK = f"
    using mask_of_frame [OF assms]
    by (simp add: bit.conj_disj_distrib2) (simp add: page_consts)
  show "present (f OR PAGE_PRESENT OR PAGE_WRITABLE OR (flags AND ASAS_PAGE_USER))"
    unfolding present_def
    by (simp add: bit.conj_disj_distrib2) (simp add: page_consts)
qed

subsection \<open>Memory\<close>

lemma unat_of_nat_512: "i < 512 \<Longrightarrow> unat (of_nat i :: u32) = i"
  by (simp add: unat_of_nat)

lemma set_entry_simps [simp]:
  "phys (set_entry t i v m) = (phys m)(entry_addr t i := v)"
  "pm_frames (set_entry t i v m) = pm_frames m"
  by (simp_all add: set_entry_def)

lemma phys_fold_set:
  "phys (fold (\<lambda>i m. set_entry p (of_nat i) v m) is m) a =
     (if \<exists>i \<in> set is. a = entry_addr p (of_nat i) then v else phys m a)"
  by (induction "is" arbitrary: m) auto

lemma pm_frames_fold_set [simp]:
  "pm_frames (fold (\<lambda>i m. set_entry p (of_nat i) (v i m) m) is m) = pm_frames m"
  by (induction "is" arbitrary: m) auto

lemma clear_page_frames [simp]: "pm_frames (clear_page p m) = pm_frames m"
  by (simp add: clear_page_def)

lemma clear_page_same:
  assumes "unat i < 512"
  shows "phys (clear_page p m) (entry_addr p i) = 0"
proof -
  have "entry_addr p i = entry_addr p (of_nat (unat i))" by simp
  then show ?thesis using assms unfolding clear_page_def phys_fold_set by force
qed

lemma clear_page_other:
  assumes "is_frame p" "is_frame q" "p \<noteq> q" "unat i < 512"
  shows "phys (clear_page p m) (entry_addr q i) = phys m (entry_addr q i)"
  using assms entry_addr_eq_iff [OF assms(2,1)]
  unfolding clear_page_def phys_fold_set by (auto simp: unat_of_nat_512)

lemma phys_fold_copy:
  assumes "is_frame src" "is_frame dst" "src \<noteq> dst" "distinct is" "\<forall>i \<in> set is. i < 512"
  defines "copy \<equiv> \<lambda>i m. set_entry dst (of_nat i) (get_entry src (of_nat i) m) m"
  shows "\<forall>i \<in> set is. phys (fold copy is m) (entry_addr dst (of_nat i))
      = phys m (entry_addr src (of_nat i))"
    and "\<forall>a. (\<forall>i \<in> set is. a \<noteq> entry_addr dst (of_nat i)) \<longrightarrow> phys (fold copy is m) a = phys m a"
proof -
  have "(\<forall>i \<in> set is. phys (fold copy is m) (entry_addr dst (of_nat i))
      = phys m (entry_addr src (of_nat i))) \<and>
    (\<forall>a. (\<forall>i \<in> set is. a \<noteq> entry_addr dst (of_nat i)) \<longrightarrow> phys (fold copy is m) a = phys m a)"
    using assms(4,5)
  proof (induction "is" arbitrary: m)
    case (Cons k ks)
    let ?m = "copy k m"
    have m: "phys ?m = (phys m)(entry_addr dst (of_nat k) := phys m (entry_addr src (of_nat k)))"
      by (simp add: copy_def get_entry_def)
    have src: "phys ?m (entry_addr src (of_nat i)) = phys m (entry_addr src (of_nat i))"
      if "i < 512" for i
      using that Cons.prems assms(1-3) entry_addr_eq_iff [OF assms(1,2)]
      by (simp add: m unat_of_nat_512)
    have kks: "\<forall>i \<in> set ks. entry_addr dst (of_nat k) \<noteq> entry_addr dst (of_nat i)"
    proof
      fix i assume i: "i \<in> set ks"
      with Cons.prems have ik: "k < 512" "i < 512" "i \<noteq> k" by auto
      then have "unat (of_nat k :: u32) \<noteq> unat (of_nat i :: u32)"
        by (simp add: unat_of_nat_512)
      then have "(of_nat k :: u32) \<noteq> of_nat i" by metis
      then show "entry_addr dst (of_nat k) \<noteq> entry_addr dst (of_nat i)"
        using ik entry_addr_eq_iff [OF assms(2,2)] by (auto simp: unat_of_nat_512)
    qed
    show ?case using Cons.IH [of ?m] Cons.prems kks src m by auto
  qed simp
  then show "\<forall>i \<in> set is. phys (fold copy is m) (entry_addr dst (of_nat i))
      = phys m (entry_addr src (of_nat i))"
    "\<forall>a. (\<forall>i \<in> set is. a \<noteq> entry_addr dst (of_nat i)) \<longrightarrow> phys (fold copy is m) a = phys m a"
    by auto
qed

lemma copy_entries_memory:
  assumes "is_frame src" "is_frame dst" "src \<noteq> dst"
  shows "\<forall>i \<in> {n ..< 512}. phys (copy_entries dst src n m) (entry_addr dst (of_nat i))
      = phys m (entry_addr src (of_nat i))"
    and "\<forall>a. (\<forall>i \<in> {n ..< 512}. a \<noteq> entry_addr dst (of_nat i)) \<longrightarrow>
      phys (copy_entries dst src n m) a = phys m a"
  using phys_fold_copy [OF assms, of "[n ..< 512]" m] unfolding copy_entries_def
  by (simp_all del: upt_rec_numeral)

lemma copy_entries_frames [simp]: "pm_frames (copy_entries dst src n m) = pm_frames m"
  unfolding copy_entries_def by (rule pm_frames_fold_set)

subsection \<open>Walks\<close>

text \<open>The tables a walk visits.\<close>

fun walk_tables :: "(u64 \<Rightarrow> u64) \<Rightarrow> u64 \<Rightarrow> u32 list \<Rightarrow> u64 list" where
  "walk_tables mem table [] = []"
| "walk_tables mem table [index] = [table]"
| "walk_tables mem table (index # rest) =
     table # (if present (mem (entry_addr table index))
              then walk_tables mem (mem (entry_addr table index) AND PAGE_ADDRESS_MASK) rest
              else [])"

lemma walk_tables_cong:
  assumes "\<forall>t \<in> set (walk_tables mem table is). \<forall>i \<in> set is. mem' (entry_addr t i) = mem (entry_addr t i)"
  shows "walk_tables mem' table is = walk_tables mem table is"
    and "walk_entry mem' table is = walk_entry mem table is"
proof -
  have "walk_tables mem' table is = walk_tables mem table is
      \<and> walk_entry mem' table is = walk_entry mem table is"
    using assms by (induction mem table "is" rule: walk_tables.induct) auto
  then show "walk_tables mem' table is = walk_tables mem table is"
    "walk_entry mem' table is = walk_entry mem table is" by auto
qed

lemma walk_tables_head: "is \<noteq> [] \<Longrightarrow> \<exists>ts. walk_tables mem t is = t # ts"
  by (cases "is"; cases "tl is") auto

text \<open>One step down the tree: the walk below is disjoint from the table stepped through, and only
  that table's entry and a frame nobody owned are written.\<close>

lemma next_table_ok:
  assumes inv: "frame_inv (pm_frames m) owned"
    and sub: "set (walk_tables (phys m) t (i # j # is)) \<subseteq> owned"
    and dis: "distinct (walk_tables (phys m) t (i # j # is))"
    and idx: "unat i < 512" "\<forall>k \<in> set (j # is). unat k < 512"
    and nt: "next_table t i flags m = (t', m')" and nz: "t' \<noteq> 0"
  shows "\<exists>owned'. owned \<subseteq> owned' \<and> frame_inv (pm_frames m') owned'
    \<and> present (phys m' (entry_addr t i)) \<and> phys m' (entry_addr t i) AND PAGE_ADDRESS_MASK = t'
    \<and> t' \<in> owned' \<and> distinct (t # walk_tables (phys m') t' (j # is))
    \<and> set (walk_tables (phys m') t' (j # is)) \<subseteq> owned'
    \<and> set (walk_tables (phys m') t' (j # is))
        \<subseteq> set (walk_tables (phys m) t (i # j # is)) \<union> - owned
    \<and> (\<forall>q \<in> owned - {t}. \<forall>k. unat k < 512 \<longrightarrow> phys m' (entry_addr q k) = phys m (entry_addr q k))"
proof (cases "present (get_entry t i m)")
  case True
  let ?e = "phys m (entry_addr t i)"
  let ?e' = "?e OR (flags AND ASAS_PAGE_USER)"
  have m': "m' = set_entry t i ?e' m" and t': "t' = ?e' AND PAGE_ADDRESS_MASK"
    using nt True by (auto simp: next_table_def get_entry_def Let_def)
  have mask: "?e' AND PAGE_ADDRESS_MASK = ?e AND PAGE_ADDRESS_MASK"
    using user_bit_cases [of flags]
    by (auto simp: bit.conj_disj_distrib2 page_consts)
  have pres: "present ?e'" "present ?e"
    using True user_bit_cases [of flags]
    by (auto simp: present_def get_entry_def bit.conj_disj_distrib2 page_consts)
  have walk: "walk_tables (phys m) t (i # j # is) = t # walk_tables (phys m) t' (j # is)"
    using pres t' mask by simp
  then have fr: "is_frame t" "\<forall>q \<in> set (walk_tables (phys m) t' (j # is)). is_frame q \<and> q \<noteq> t"
    using sub dis inv by (auto simp: frame_inv_def)
  have same: "\<forall>q \<in> set (walk_tables (phys m) t' (j # is)). \<forall>k \<in> set (j # is).
      phys m' (entry_addr q k) = phys m (entry_addr q k)"
  proof (intro ballI)
    fix q k assume q: "q \<in> set (walk_tables (phys m) t' (j # is))" and k: "k \<in> set (j # is)"
    have "is_frame q" "q \<noteq> t" "unat k < 512" using q k fr(2) idx(2) by blast+
    with fr(1) idx(1) show "phys m' (entry_addr q k) = phys m (entry_addr q k)"
      by (simp add: m' entry_addr_eq_iff)
  qed
  have wt: "walk_tables (phys m') t' (j # is) = walk_tables (phys m) t' (j # is)"
    by (rule walk_tables_cong(1) [OF same])
  have keep: "\<forall>q \<in> owned - {t}. \<forall>k. unat k < 512 \<longrightarrow>
      phys m' (entry_addr q k) = phys m (entry_addr q k)"
    using fr(1) idx(1) inv by (auto simp: m' entry_addr_eq_iff frame_inv_def)
  have "t' \<in> owned"
    using walk sub walk_tables_head [of "j # is" "phys m" t'] by auto
  then show ?thesis
    using inv sub dis walk wt keep pres t' by (intro exI [of _ owned]) (auto simp: m')
next
  case False
  obtain f al where al: "frame_allocate (pm_frames m) = (f, al)" by (cases "frame_allocate (pm_frames m)")
  let ?v = "f OR PAGE_PRESENT OR PAGE_WRITABLE OR (flags AND ASAS_PAGE_USER)"
  let ?m1 = "m\<lparr>pm_frames := al\<rparr>"
  have f: "t' = f" "f \<noteq> 0" and m': "m' = set_entry t i ?v (clear_page f ?m1)"
    using nt nz False al by (auto simp: next_table_def Let_def split: if_splits)
  have fo: "is_frame f" "f \<notin> owned" "frame_inv al (insert f owned)"
    using frames.take_frame [OF inv al f(2)] by auto
  have "t \<in> owned" using sub by auto
  then have t: "is_frame t" "t \<noteq> f" using inv fo by (auto simp: frame_inv_def)
  have zero: "unat k < 512 \<Longrightarrow> phys m' (entry_addr f k) = 0" for k
    using t fo idx(1) by (simp add: m' entry_addr_eq_iff clear_page_same)
  have keep: "\<forall>q \<in> owned - {t}. \<forall>k. unat k < 512 \<longrightarrow>
      phys m' (entry_addr q k) = phys m (entry_addr q k)"
  proof (intro ballI allI impI)
    fix q k assume q: "q \<in> owned - {t}" and k: "unat (k :: u32) < 512"
    then have "is_frame q" "q \<noteq> f" using inv fo by (auto simp: frame_inv_def)
    then show "phys m' (entry_addr q k) = phys m (entry_addr q k)"
      using q k t fo idx(1) clear_page_other [of f q k ?m1] by (simp add: m' entry_addr_eq_iff)
  qed
  have "\<not> present (phys m' (entry_addr f j))"
    using zero idx(2) by (simp add: present_def)
  then have "walk_tables (phys m') f (j # is) = [f]" by (cases "is") auto
  then show ?thesis
    using fo t new_entry [OF fo(1), of flags] keep f
    by (intro exI [of _ "insert f owned"]) (auto simp: m')
qed

text \<open>The tables of an address space along one walk: owned frames, no table twice.\<close>

definition walk_ok :: "page_machine \<Rightarrow> u64 set \<Rightarrow> page_tables \<Rightarrow> u64 \<Rightarrow> bool" where
  "walk_ok m owned tables va \<longleftrightarrow>
     set (walk_tables (phys m) (pml4 tables) (walk_indices va)) \<subseteq> owned
     \<and> distinct (walk_tables (phys m) (pml4 tables) (walk_indices va))"

text \<open>A walk in progress: \<open>passed\<close> are the tables already stepped through.\<close>

definition below :: "page_machine \<Rightarrow> u64 set \<Rightarrow> u64 set \<Rightarrow> u64 \<Rightarrow> u32 list \<Rightarrow> bool" where
  "below m owned passed t is \<longleftrightarrow> frame_inv (pm_frames m) owned
     \<and> set (walk_tables (phys m) t is) \<subseteq> owned \<and> distinct (walk_tables (phys m) t is)
     \<and> passed \<subseteq> owned - set (walk_tables (phys m) t is)"

lemma next_table_below:
  assumes b: "below m owned passed t (i # j # is)"
    and idx: "unat i < 512" "\<forall>k \<in> set (j # is). unat k < 512"
    and nt: "next_table t i flags m = (t', m')" "t' \<noteq> 0"
  obtains owned' where "below m' owned' (insert t passed) t' (j # is)"
    "present (phys m' (entry_addr t i))" "phys m' (entry_addr t i) AND PAGE_ADDRESS_MASK = t'"
    "\<forall>q \<in> passed. \<forall>k. unat k < 512 \<longrightarrow> phys m' (entry_addr q k) = phys m (entry_addr q k)"
proof -
  have b': "frame_inv (pm_frames m) owned" "set (walk_tables (phys m) t (i # j # is)) \<subseteq> owned"
    "distinct (walk_tables (phys m) t (i # j # is))"
    "passed \<subseteq> owned - set (walk_tables (phys m) t (i # j # is))"
    using b unfolding below_def by blast+
  have t: "t \<in> set (walk_tables (phys m) t (i # j # is))" by simp
  obtain owned' where o: "owned \<subseteq> owned'" "frame_inv (pm_frames m') owned'"
    "present (phys m' (entry_addr t i))" "phys m' (entry_addr t i) AND PAGE_ADDRESS_MASK = t'"
    "distinct (t # walk_tables (phys m') t' (j # is))"
    "set (walk_tables (phys m') t' (j # is)) \<subseteq> owned'"
    "set (walk_tables (phys m') t' (j # is)) \<subseteq> set (walk_tables (phys m) t (i # j # is)) \<union> - owned"
    "\<forall>q \<in> owned - {t}. \<forall>k. unat k < 512 \<longrightarrow> phys m' (entry_addr q k) = phys m (entry_addr q k)"
    using next_table_ok [OF b'(1,2,3) idx nt] by blast
  have "insert t passed \<subseteq> owned' - set (walk_tables (phys m') t' (j # is))"
    using b'(2,4) o(1,5,7) t by (auto simp del: walk_tables.simps)
  then have "below m' owned' (insert t passed) t' (j # is)"
    using o(2,5,6) by (simp add: below_def del: walk_tables.simps)
  moreover have "\<forall>q \<in> passed. \<forall>k. unat k < 512 \<longrightarrow> phys m' (entry_addr q k) = phys m (entry_addr q k)"
    using o(8) b'(4) t by blast
  ultimately show thesis using that o(3,4) by blast
qed

lemma map_page_walk:
  assumes inv: "frame_inv (pm_frames m) owned" and ok: "walk_ok m owned tables va"
    and mp: "map_page tables va pa flags m = (True, m')"
  shows "paging_page_flags tables va m' = (pa AND PAGE_ADDRESS_MASK) OR flags OR PAGE_PRESENT"
proof -
  let ?i0 = "table_index 39 va" and ?i1 = "table_index 30 va"
  let ?i2 = "table_index 21 va" and ?i3 = "table_index 12 va"
  let ?t0 = "pml4 tables"
  let ?v = "(pa AND PAGE_ADDRESS_MASK) OR flags OR PAGE_PRESENT"
  note i = unat_table_index
  have b0: "below m owned {} ?t0 [?i0, ?i1, ?i2, ?i3]"
    using ok inv unfolding walk_ok_def walk_indices_def below_def by blast
  obtain t1 m1 t2 m2 t3 m3 where
    n1: "next_table ?t0 ?i0 flags m = (t1, m1)" "t1 \<noteq> 0" and
    n2: "next_table t1 ?i1 flags m1 = (t2, m2)" "t2 \<noteq> 0" and
    n3: "next_table t2 ?i2 flags m2 = (t3, m3)" "t3 \<noteq> 0" and
    m': "phys m' = (phys m3)(entry_addr t3 ?i3 := ?v)"
    using mp by (auto simp: map_page_def Let_def split: prod.splits if_splits)
  obtain o1 where o1: "below m1 o1 {?t0} t1 [?i1, ?i2, ?i3]"
    "present (phys m1 (entry_addr ?t0 ?i0))" "phys m1 (entry_addr ?t0 ?i0) AND PAGE_ADDRESS_MASK = t1"
    by (rule next_table_below [OF b0 i _ n1]) (use i in auto)
  obtain o2 where o2: "below m2 o2 {t1, ?t0} t2 [?i2, ?i3]"
    "present (phys m2 (entry_addr t1 ?i1))" "phys m2 (entry_addr t1 ?i1) AND PAGE_ADDRESS_MASK = t2"
    "\<forall>q \<in> {?t0}. \<forall>k. unat k < 512 \<longrightarrow> phys m2 (entry_addr q k) = phys m1 (entry_addr q k)"
    by (rule next_table_below [OF o1(1) i _ n2]) (use i in auto)
  obtain o3 where o3: "below m3 o3 {t2, t1, ?t0} t3 [?i3]"
    "present (phys m3 (entry_addr t2 ?i2))" "phys m3 (entry_addr t2 ?i2) AND PAGE_ADDRESS_MASK = t3"
    "\<forall>q \<in> {t1, ?t0}. \<forall>k. unat k < 512 \<longrightarrow> phys m3 (entry_addr q k) = phys m2 (entry_addr q k)"
    by (rule next_table_below [OF o2(1) i _ n3]) (use i in auto)
  have "{t2, t1, ?t0} \<subseteq> o3" "t3 \<in> o3" and ne: "t3 \<notin> {t2, t1, ?t0}" and "frame_inv (pm_frames m3) o3"
    using o3(1) by (auto simp: below_def)
  then have fr: "is_frame t3" "is_frame t2" "is_frame t1" "is_frame ?t0"
    by (auto simp: frame_inv_def)
  have keep: "phys m' (entry_addr q k) = phys m3 (entry_addr q k)"
    if "q \<in> {t2, t1, ?t0}" "unat k < 512" for q k
    using that ne fr i by (auto simp: m' entry_addr_eq_iff)
  have e0: "phys m' (entry_addr ?t0 ?i0) = phys m1 (entry_addr ?t0 ?i0)"
    using keep [of ?t0 ?i0] o3(4) o2(4) i by simp
  have e1: "phys m' (entry_addr t1 ?i1) = phys m2 (entry_addr t1 ?i1)"
    using keep [of t1 ?i1] o3(4) i by simp
  have e2: "phys m' (entry_addr t2 ?i2) = phys m3 (entry_addr t2 ?i2)"
    using keep [of t2 ?i2] i by simp
  have e3: "phys m' (entry_addr t3 ?i3) = ?v" by (simp add: m')
  show ?thesis
    using o1(2,3) o2(2,3) o3(2,3) e3
    unfolding paging_page_flags_def walk_indices_def e0 [symmetric] e1 [symmetric] e2 [symmetric]
    by simp
qed

subsection \<open>New address spaces\<close>

lemma create_address_space_memory:
  assumes inv: "frame_inv (pm_frames m) owned" and k: "pml4 kernel_tables \<in> owned"
    and cr: "paging_create_address_space dst kernel_tables m = (True, t, m')"
  shows "is_frame (pml4 t)" "pml4 t \<notin> owned" "has_frame_allocator t"
    "frame_inv (pm_frames m') (insert (pml4 t) owned)"
    "unat i < 512 \<Longrightarrow> phys m' (entry_addr (pml4 t) i) =
       (if unat i < 256 then 0 else phys m (entry_addr (pml4 kernel_tables) i))"
    "q \<in> owned \<Longrightarrow> unat i < 512 \<Longrightarrow> phys m' (entry_addr q i) = phys m (entry_addr q i)"
proof -
  let ?k = "pml4 kernel_tables"
  obtain f al where al: "frame_allocate (pm_frames m) = (f, al)" "f \<noteq> 0"
    and t: "t = \<lparr>pml4 = f, has_frame_allocator = True\<rparr>"
    and m': "m' = copy_entries f ?k 256 (clear_page f (m\<lparr>pm_frames := al\<rparr>))"
    using cr by (auto simp: paging_create_address_space_def Let_def split: prod.splits if_splits)
  let ?m2 = "clear_page f (m\<lparr>pm_frames := al\<rparr>)"
  have fo: "is_frame f" "f \<notin> owned" "frame_inv al (insert f owned)"
    using frames.take_frame [OF inv al] by auto
  have kf: "is_frame ?k" "?k \<noteq> f" using inv k fo by (auto simp: frame_inv_def)
  show "is_frame (pml4 t)" "pml4 t \<notin> owned" "has_frame_allocator t" using fo t by auto
  show "frame_inv (pm_frames m') (insert (pml4 t) owned)" using fo t by (simp add: m')
  have copy: "\<forall>i \<in> {256 ..< 512}. phys m' (entry_addr f (of_nat i)) = phys ?m2 (entry_addr ?k (of_nat i))"
    "\<forall>a. (\<forall>i \<in> {256 ..< 512}. a \<noteq> entry_addr f (of_nat i)) \<longrightarrow> phys m' a = phys ?m2 a"
    unfolding m' by (rule copy_entries_memory [OF kf(1) fo(1) kf(2)])+
  have outside: "phys m' a = phys ?m2 a" if "\<forall>j \<in> {256 ..< 512}. a \<noteq> entry_addr f (of_nat j)" for a
    using copy(2) that by simp
  have other: "phys m' (entry_addr q i) = phys m (entry_addr q i)"
    if q: "q \<in> owned" "unat i < 512" for q i
  proof -
    have qf: "is_frame q" "q \<noteq> f" using inv q fo by (auto simp: frame_inv_def)
    then have "\<forall>j \<in> {256 ..< 512}. entry_addr q i \<noteq> entry_addr f (of_nat j)"
      using q fo by (simp add: entry_addr_eq_iff unat_of_nat_512)
    then show ?thesis
      using outside clear_page_other [of f q i "m\<lparr>pm_frames := al\<rparr>"] qf fo q by simp
  qed
  show "q \<in> owned \<Longrightarrow> unat i < 512 \<Longrightarrow> phys m' (entry_addr q i) = phys m (entry_addr q i)"
    by (rule other)
  assume i: "unat i < 512"
  show "phys m' (entry_addr (pml4 t) i) =
       (if unat i < 256 then 0 else phys m (entry_addr ?k i))"
  proof (cases "unat i < 256")
    case True
    have "entry_addr f i \<noteq> entry_addr f (of_nat j)" if "j \<in> {256 ..< 512}" for j
    proof -
      have "unat i \<noteq> unat (of_nat j :: u32)" using True that by (simp add: unat_of_nat_512)
      then have "i \<noteq> of_nat j" by metis
      then show ?thesis using i that fo by (simp add: entry_addr_eq_iff unat_of_nat_512)
    qed
    then show ?thesis using outside True clear_page_same [OF i, of f] t by simp
  next
    case False
    then have "unat i \<in> {256 ..< 512}" using i by simp
    then have "phys m' (entry_addr f (of_nat (unat i))) = phys ?m2 (entry_addr ?k (of_nat (unat i)))"
      by (rule copy(1) [rule_format])
    also have "\<dots> = phys m (entry_addr ?k i)"
      using clear_page_other [of f ?k i "m\<lparr>pm_frames := al\<rparr>"] kf fo i by simp
    finally show ?thesis using False t by simp
  qed
qed

section \<open>Properties\<close>

text \<open>A machine whose kernel tables occupy the first frame of the sample memory map.\<close>

definition sample_machine :: page_machine where
  "sample_machine = \<lparr>phys = (\<lambda>_. 0), pm_frames = snd (frame_allocate one_region_allocator),
     invlpg_log = [], cr3 = 0x200000, efer = 0\<rparr>"

definition sample_kernel_tables :: page_tables where
  "sample_kernel_tables = \<lparr>pml4 = 0x200000, has_frame_allocator = True\<rparr>"

lemma sample_inv: "frame_inv (pm_frames sample_machine) {0x200000}"
  using frames.take_frame [OF one_region_inv one_region_allocate]
  by (simp add: sample_machine_def one_region_allocate)

lemma sample_walk_ok: "walk_ok sample_machine {0x200000} sample_kernel_tables va"
  by (simp add: walk_ok_def walk_indices_def sample_machine_def sample_kernel_tables_def present_def)

lemma sample_allocate:
  assumes "k < 15"
  shows "frame_allocate (one_region_allocator\<lparr>descriptor_index := 1,
       next_frame := 0x201000 + of_nat k * 0x1000, remaining_pages := 15 - of_nat k,
       allocated_pages := a\<rparr>) =
     (0x201000 + of_nat k * 0x1000, one_region_allocator\<lparr>descriptor_index := 1,
       next_frame := 0x201000 + of_nat (Suc k) * 0x1000, remaining_pages := 15 - of_nat (Suc k),
       allocated_pages := a + 1\<rparr>)"
proof -
  have "15 - of_nat k \<noteq> (0 :: u64)"
  proof
    assume "15 - of_nat k = (0 :: u64)"
    then have "unat (15 :: u64) = unat (of_nat k :: u64)" by simp
    then show False using assms by (simp add: unat_of_nat)
  qed
  then show ?thesis
    by (simp add: frame_allocate_def one_region_allocator_def frame_allocator_initialize_def
        frame_consts algebra_simps)
qed

lemma next_table_fresh:
  assumes "\<not> present (phys m (entry_addr t i))" "frame_allocate (pm_frames m) = (f, al)" "f \<noteq> 0"
  shows "next_table t i flags m = (f, set_entry t i
    (f OR PAGE_PRESENT OR PAGE_WRITABLE OR (flags AND ASAS_PAGE_USER))
    (clear_page f (m\<lparr>pm_frames := al\<rparr>)))"
  using assms by (simp add: next_table_def get_entry_def)

lemma sample_map_page: "fst (map_page sample_kernel_tables va pa flags sample_machine)"
proof -
  let ?i = "\<lambda>s. table_index s va"
  let ?e = "\<lambda>f. f OR PAGE_PRESENT OR PAGE_WRITABLE OR (flags AND ASAS_PAGE_USER)"
  let ?al = "\<lambda>k. one_region_allocator\<lparr>descriptor_index := 1,
       next_frame := 0x201000 + of_nat k * 0x1000, remaining_pages := 15 - of_nat k,
       allocated_pages := 1 + of_nat k\<rparr>"
  have al: "frame_allocate (?al k) = (0x201000 + of_nat k * 0x1000, ?al (Suc k))" if "k < 15" for k
    using sample_allocate [OF that, of "1 + of_nat k"] by (simp add: algebra_simps)
  have m0: "pm_frames sample_machine = ?al 0"
    by (simp add: sample_machine_def one_region_allocate)
  define m1 where "m1 = set_entry 0x200000 (?i 39) (?e 0x201000)
    (clear_page 0x201000 (sample_machine\<lparr>pm_frames := ?al 1\<rparr>))"
  define m2 where "m2 = set_entry 0x201000 (?i 30) (?e 0x202000)
    (clear_page 0x202000 (m1\<lparr>pm_frames := ?al 2\<rparr>))"
  have f: "is_frame 0x200000" "is_frame 0x201000" "is_frame 0x202000" by (simp_all add: is_frame_def)
  have z1: "\<not> present (phys m1 (entry_addr 0x201000 j))" if "unat j < 512" for j
    using that f clear_page_same [OF that] unat_table_index
    by (simp add: m1_def present_def entry_addr_eq_iff)
  have z2: "\<not> present (phys m2 (entry_addr 0x202000 j))" if "unat j < 512" for j
    using that f clear_page_same [OF that] unat_table_index
    by (simp add: m2_def present_def entry_addr_eq_iff)
  have n1: "next_table 0x200000 (?i 39) flags sample_machine = (0x201000, m1)"
    unfolding m1_def
    by (rule next_table_fresh) (use al [of 0] m0 in \<open>simp_all add: sample_machine_def present_def\<close>)
  have n2: "next_table 0x201000 (?i 30) flags m1 = (0x202000, m2)"
    unfolding m2_def
    by (rule next_table_fresh) (use al [of 1] z1 unat_table_index in \<open>simp_all add: m1_def Suc_1\<close>)
  have n3: "fst (next_table 0x202000 (?i 21) flags m2) = 0x203000"
    using al [of 2] z2 unat_table_index
    by (subst next_table_fresh) (auto simp: m2_def)
  show ?thesis
    using n3 by (auto simp: map_page_def sample_kernel_tables_def n1 n2 Let_def split: prod.splits)
qed



lemma user_half_unmapped:
  assumes "unat (table_index 39 va) < 256"
    and "\<And>i. unat i < 256 \<Longrightarrow> phys m (entry_addr (pml4 t) i) = 0"
  shows "paging_page_flags t va m = 0"
  using assms by (simp add: paging_page_flags_def walk_indices_def present_def)

lemma kernel_half_shared:
  assumes eq: "phys m' (entry_addr (pml4 t) (table_index 39 va)) =
      phys m (entry_addr (pml4 k) (table_index 39 va))"
    and ok: "walk_ok m owned k va"
    and same: "\<And>q i. q \<in> owned \<Longrightarrow> unat i < 512 \<Longrightarrow>
      phys m' (entry_addr q i) = phys m (entry_addr q i)"
  shows "paging_page_flags t va m' = paging_page_flags k va m"
proof -
  let ?e = "phys m (entry_addr (pml4 k) (table_index 39 va))"
  let ?rest = "[table_index 30 va, table_index 21 va, table_index 12 va]"
  show ?thesis
  proof (cases "present ?e")
    case False
    then show ?thesis using eq by (simp add: paging_page_flags_def walk_indices_def)
  next
    case True
    then have sub: "set (walk_tables (phys m) (?e AND PAGE_ADDRESS_MASK) ?rest) \<subseteq> owned"
      using ok unfolding walk_ok_def walk_indices_def by simp
    have "\<forall>q \<in> set (walk_tables (phys m) (?e AND PAGE_ADDRESS_MASK) ?rest). \<forall>i \<in> set ?rest.
        phys m' (entry_addr q i) = phys m (entry_addr q i)"
    proof (intro ballI)
      fix q i
      assume "q \<in> set (walk_tables (phys m) (?e AND PAGE_ADDRESS_MASK) ?rest)" "i \<in> set ?rest"
      then have "q \<in> owned" "unat i < 512" using sub unat_table_index by auto
      then show "phys m' (entry_addr q i) = phys m (entry_addr q i)" by (rule same)
    qed
    then have "walk_entry (phys m') (?e AND PAGE_ADDRESS_MASK) ?rest
        = walk_entry (phys m) (?e AND PAGE_ADDRESS_MASK) ?rest"
      by (rule walk_tables_cong(2))
    then show ?thesis using eq True by (simp add: paging_page_flags_def walk_indices_def)
  qed
qed

text \<open>C8: a new address space is isolated: its top-level table is a frame nobody owned, no user
  address is mapped in it, and every kernel address reads as it did in the kernel's tables.\<close>

theorem new_address_space_isolated:
  assumes inv: "frame_inv (pm_frames m) owned" and k: "pml4 kernel_tables \<in> owned"
    and cr: "paging_create_address_space dst kernel_tables m = (True, t, m')"
  shows "pml4 t \<notin> owned \<and>
    (\<forall>va. unat (table_index 39 va) < 256 \<longrightarrow> paging_page_flags t va m' = 0) \<and>
    (\<forall>va. 256 \<le> unat (table_index 39 va) \<and> walk_ok m owned kernel_tables va \<longrightarrow>
      paging_page_flags t va m' = paging_page_flags kernel_tables va m)"
proof -
  note c = create_address_space_memory [OF inv k cr]
  have "paging_page_flags t va m' = 0" if "unat (table_index 39 va) < 256" for va
    by (rule user_half_unmapped [OF that]) (use c(5) in simp)
  moreover have "paging_page_flags t va m' = paging_page_flags kernel_tables va m"
    if "256 \<le> unat (table_index 39 va)" "walk_ok m owned kernel_tables va" for va
    by (rule kernel_half_shared [OF _ that(2) c(6)])
       (use c(5) unat_table_index that(1) in \<open>simp_all add: not_less\<close>)
  ultimately show ?thesis using c(2) by blast
qed

theorem new_address_space_isolated_witness:
  "\<exists>t m'. paging_create_address_space sample_kernel_tables sample_kernel_tables sample_machine
       = (True, t, m') \<and> pml4 t \<notin> {0x200000} \<and> paging_page_flags t 0x400000 m' = 0"
proof -
  obtain t m' where cr: "paging_create_address_space sample_kernel_tables sample_kernel_tables
      sample_machine = (True, t, m')"
    using sample_allocate [of 0 1]
    by (simp add: paging_create_address_space_def sample_machine_def one_region_allocate)
  show ?thesis
    using new_address_space_isolated [OF sample_inv _ cr] cr
    by (auto simp: sample_kernel_tables_def table_index_def)
qed

end
