(* ===== verification/Kernel_Heap.thy ===== *)
theory Kernel_Heap
  imports Kernel_Paging
begin

text \<open>
  \<^verbatim>\<open>src/kernel/heap.c\<close>: the kernel heap, a first-fit allocator over eight megabytes of
  mapped pages.  Memory is an explicit store of block headers by address, so the list the headers
  form through their \<open>next\<close> pointers is walked as the code walks it; a walk that follows a
  pointer to no header, or never ends, is \<open>None\<close>.  The specification reads the store as a list
  of (address, size, free) triples that tile the heap.
\<close>

section \<open>Data\<close>

definition HEAP_BASE :: u64 where "HEAP_BASE = 0xFFFF900000000000"
definition HEAP_PAGE_COUNT :: u32 where "HEAP_PAGE_COUNT = 2048"
definition HEAP_SIZE :: u64 where "HEAP_SIZE = 2048 * 4096"
definition sizeof_HEAP_BLOCK :: u64 where "sizeof_HEAP_BLOCK = 24"

record HEAP_BLOCK =
  block_size :: u64
  block_free :: bool
  block_reserved :: u32
  block_next :: u64

record heap_state =
  heap_head :: u64
  heap_mem :: "u64 \<rightharpoonup> HEAP_BLOCK"

section \<open>Operations\<close>

definition align_size :: "u64 \<Rightarrow> u64" where
  "align_size sz = (sz + 15) AND NOT 15"

definition heap_format :: "heap_state \<Rightarrow> heap_state" where
  "heap_format h =
     h\<lparr>heap_head := HEAP_BASE,
       heap_mem := (heap_mem h)(HEAP_BASE \<mapsto>
         \<lparr>block_size = HEAP_SIZE - sizeof_HEAP_BLOCK, block_free = True, block_reserved = 0,
          block_next = 0\<rparr>)\<rparr>"

text \<open>The loop of \<open>heap_initialize\<close> that backs the heap with frames, from page \<open>page\<close> on.\<close>

function heap_map_pages :: "nat \<Rightarrow> page_tables \<Rightarrow> page_machine \<Rightarrow> bool \<times> page_machine" where
  "heap_map_pages page tables m =
     (if page < unat HEAP_PAGE_COUNT then
        let (frame, al) = frame_allocate (pm_frames m); m1 = m\<lparr>pm_frames := al\<rparr>;
            virtual_address = HEAP_BASE + of_nat page * 4096
        in if frame = 0 then (False, m1)
           else
             let (mapped, m2) = map_page tables virtual_address frame
                   (ASAS_PAGE_WRITABLE OR ASAS_PAGE_NO_EXECUTE) m1
             in if \<not> mapped then (False, m2) else heap_map_pages (Suc page) tables m2
      else (True, m))"
  by pat_completeness auto
termination by (relation "measure (\<lambda>(page, _). unat HEAP_PAGE_COUNT - page)") auto

definition heap_initialize ::
  "page_tables \<Rightarrow> heap_state \<Rightarrow> page_machine \<Rightarrow> bool \<times> heap_state \<times> page_machine" where
  "heap_initialize tables h m =
     (let (mapped, m1) = heap_map_pages 0 tables m in
      if \<not> mapped then (False, h, m1) else (True, heap_format h, m1))"

declare heap_map_pages.simps [simp del]

text \<open>The body of the \<open>if\<close> in the loop of \<open>kmalloc\<close>: split the block when the rest can
  hold a header and sixteen bytes, mark it used, return its payload address.\<close>

definition kmalloc_take :: "heap_state \<Rightarrow> u64 \<Rightarrow> HEAP_BLOCK \<Rightarrow> u64 \<Rightarrow> u64 \<times> heap_state" where
  "kmalloc_take h block b aligned_size =
     (if block_size b \<ge> aligned_size + sizeof_HEAP_BLOCK + 16 then
        let nxt = block + sizeof_HEAP_BLOCK + aligned_size;
            nb = \<lparr>block_size = block_size b - aligned_size - sizeof_HEAP_BLOCK,
                  block_free = True, block_reserved = 0, block_next = block_next b\<rparr>;
            b1 = b\<lparr>block_next := nxt, block_size := aligned_size\<rparr>
        in (block + sizeof_HEAP_BLOCK,
            h\<lparr>heap_mem := (heap_mem h)(nxt \<mapsto> nb, block \<mapsto> b1\<lparr>block_free := False\<rparr>)\<rparr>)
      else (block + sizeof_HEAP_BLOCK,
            h\<lparr>heap_mem := (heap_mem h)(block \<mapsto> b\<lparr>block_free := False\<rparr>)\<rparr>))"

partial_function (option) kmalloc_from ::
  "heap_state \<Rightarrow> u64 \<Rightarrow> u64 \<Rightarrow> (u64 \<times> heap_state) option" where
  "kmalloc_from h aligned_size block =
     (if block = 0 then Some (0, h)
      else case heap_mem h block of
        None \<Rightarrow> None
      | Some b \<Rightarrow>
          if block_free b \<and> block_size b \<ge> aligned_size
          then Some (kmalloc_take h block b aligned_size)
          else kmalloc_from h aligned_size (block_next b))"

definition kmalloc :: "u64 \<Rightarrow> heap_state \<Rightarrow> (u64 \<times> heap_state) option" where
  "kmalloc sz h =
     (let aligned_size = align_size sz in
      if aligned_size = 0 then Some (0, h) else kmalloc_from h aligned_size (heap_head h))"

partial_function (option) kfree_merge :: "heap_state \<Rightarrow> u64 \<Rightarrow> heap_state option" where
  "kfree_merge h current =
     (if current = 0 then Some h
      else case heap_mem h current of
        None \<Rightarrow> None
      | Some c \<Rightarrow>
          if block_next c = 0 then Some h
          else case heap_mem h (block_next c) of
            None \<Rightarrow> None
          | Some n \<Rightarrow>
              if block_free c \<and> block_free n
              then kfree_merge
                (h\<lparr>heap_mem := (heap_mem h)(current \<mapsto>
                   c\<lparr>block_size := block_size c + (sizeof_HEAP_BLOCK + block_size n),
                     block_next := block_next n\<rparr>)\<rparr>) current
              else kfree_merge h (block_next c))"

definition kfree :: "u64 \<Rightarrow> heap_state \<Rightarrow> heap_state option" where
  "kfree pointer h =
     (if pointer = 0 then Some h
      else case heap_mem h (pointer - sizeof_HEAP_BLOCK) of
        None \<Rightarrow> None
      | Some b \<Rightarrow>
          let h1 = h\<lparr>heap_mem := (heap_mem h)(pointer - sizeof_HEAP_BLOCK \<mapsto>
                       b\<lparr>block_free := True\<rparr>)\<rparr>
          in kfree_merge h1 (heap_head h1))"

partial_function (option) free_bytes_from :: "heap_state \<Rightarrow> u64 \<Rightarrow> u64 \<Rightarrow> u64 option" where
  "free_bytes_from h block acc =
     (if block = 0 then Some acc
      else case heap_mem h block of
        None \<Rightarrow> None
      | Some b \<Rightarrow>
          free_bytes_from h (block_next b) (if block_free b then acc + block_size b else acc))"

definition heap_free_bytes :: "heap_state \<Rightarrow> u64 option" where
  "heap_free_bytes h = free_bytes_from h (heap_head h) 0"

definition heap_fragmentation_self_test :: "heap_state \<Rightarrow> (bool \<times> heap_state) option" where
  "heap_fragmentation_self_test h =
    (case kmalloc 1024 h of None \<Rightarrow> None | Some (first, h1) \<Rightarrow>
     case kmalloc 1024 h1 of None \<Rightarrow> None | Some (second, h2) \<Rightarrow>
     case kmalloc 1024 h2 of None \<Rightarrow> None | Some (third, h3) \<Rightarrow>
     if first = 0 \<or> second = 0 \<or> third = 0 then Some (False, h3)
     else
       case kfree second h3 of None \<Rightarrow> None | Some h4 \<Rightarrow>
       case kfree first h4 of None \<Rightarrow> None | Some h5 \<Rightarrow>
       case kmalloc 1800 h5 of None \<Rightarrow> None | Some (merged, h6) \<Rightarrow>
       if merged = 0 then map_option (Pair False) (kfree third h6)
       else
         case kfree merged h6 of None \<Rightarrow> None | Some h7 \<Rightarrow>
         map_option (Pair True) (kfree third h7))"

lemmas heap_consts = HEAP_BASE_def HEAP_SIZE_def sizeof_HEAP_BLOCK_def

section \<open>Abstract allocator\<close>

text \<open>The chain of blocks as a list of address, payload size and free mark.\<close>

type_synonym ablock = "u64 \<times> u64 \<times> bool"

fun chain :: "(u64 \<rightharpoonup> HEAP_BLOCK) \<Rightarrow> u64 \<Rightarrow> ablock list \<Rightarrow> bool" where
  "chain m p [] = (p = 0)"
| "chain m p ((a, s, f) # bs) =
     (p = a \<and> p \<noteq> 0 \<and>
      (case m p of None \<Rightarrow> False
       | Some b \<Rightarrow> block_size b = s \<and> block_free b = f \<and> chain m (block_next b) bs))"

text \<open>The blocks lie end to end from \<open>lo\<close> to \<open>hi\<close>.\<close>

fun tiled :: "nat \<Rightarrow> ablock list \<Rightarrow> nat \<Rightarrow> bool" where
  "tiled lo [] hi = (lo = hi)"
| "tiled lo ((a, s, f) # bs) hi = (unat a = lo \<and> tiled (lo + 24 + unat s) bs hi)"

fun amalloc :: "u64 \<Rightarrow> ablock list \<Rightarrow> u64 \<times> ablock list" where
  "amalloc al [] = (0, [])"
| "amalloc al ((a, s, f) # bs) =
     (if f \<and> al \<le> s then
        if unat s \<ge> unat al + 40
        then (a + 24, (a, al, False) # (a + 24 + al, s - al - 24, True) # bs)
        else (a + 24, (a, s, False) # bs)
      else (fst (amalloc al bs), (a, s, f) # snd (amalloc al bs)))"

fun coalesce :: "ablock list \<Rightarrow> ablock list" where
  "coalesce ((a, s, f) # (b, t, g) # bs) =
     (if f \<and> g then coalesce ((a, s + (24 + t), True) # bs)
      else (a, s, f) # coalesce ((b, t, g) # bs))"
| "coalesce bs = bs"

fun mark_free :: "u64 \<Rightarrow> ablock list \<Rightarrow> ablock list" where
  "mark_free p [] = []"
| "mark_free p ((a, s, f) # bs) = (a, s, if a = p then True else f) # mark_free p bs"

definition heap_wf :: "heap_state \<Rightarrow> ablock list \<Rightarrow> bool" where
  "heap_wf h bs \<longleftrightarrow> heap_head h = HEAP_BASE \<and> chain (heap_mem h) HEAP_BASE bs
     \<and> tiled (unat HEAP_BASE) bs (unat HEAP_BASE + unat HEAP_SIZE)"

definition heap_blocks_ok :: "ablock list \<Rightarrow> bool" where
  "heap_blocks_ok bs \<longleftrightarrow> tiled (unat HEAP_BASE) bs (unat HEAP_BASE + unat HEAP_SIZE)"

section \<open>Lemmas\<close>

lemma tiled_le: "tiled lo bs hi \<Longrightarrow> lo \<le> hi"
proof (induction lo bs hi rule: tiled.induct)
  case (2 lo a s f bs hi)
  then have "lo + 24 + unat s \<le> hi" by simp
  then show ?case by linarith
qed simp

lemma tiled_bounds:
  "tiled lo bs hi \<Longrightarrow> (a, s, f) \<in> set bs \<Longrightarrow> lo \<le> unat a \<and> unat a + 24 + unat s \<le> hi"
proof (induction lo bs hi rule: tiled.induct)
  case (2 lo b t g bs hi)
  then have t: "tiled (lo + 24 + unat t) bs hi" by simp
  show ?case
  proof (cases "(a, s, f) \<in> set bs")
    case True
    with 2 t have "lo + 24 + unat t \<le> unat a \<and> unat a + 24 + unat s \<le> hi" by simp
    then show ?thesis by linarith
  next
    case False
    with 2 tiled_le [OF t] show ?thesis by auto
  qed
qed simp

lemma tiled_append:
  "tiled lo (xs @ ys) hi \<longleftrightarrow> (\<exists>mid. tiled lo xs mid \<and> tiled mid ys hi)"
proof (induction xs arbitrary: lo)
  case (Cons x xs)
  then show ?case by (cases x) simp
qed simp

lemma tiled_disjoint:
  assumes "tiled lo bs hi" "(a, s, f) \<in> set bs" "(b, t, g) \<in> set bs" "a \<noteq> b"
  shows "unat a + 24 + unat s \<le> unat b \<or> unat b + 24 + unat t \<le> unat a"
  using assms
proof (induction lo bs hi rule: tiled.induct)
  case (2 lo c u k bs hi)
  then have t: "tiled (lo + 24 + unat u) bs hi" and c: "unat c = lo" by auto
  consider "(a, s, f) \<in> set bs" "(b, t, g) \<in> set bs"
    | "(a, s, f) = (c, u, k)" "(b, t, g) \<in> set bs"
    | "(b, t, g) = (c, u, k)" "(a, s, f) \<in> set bs"
    using 2 by auto
  then show ?case
    using 2 c tiled_bounds [OF t] by cases auto
qed simp

text \<open>Writing a header outside the chain does not change it.\<close>

lemma chain_upd:
  "q \<notin> fst ` set bs \<Longrightarrow> chain (m(q \<mapsto> b)) p bs = chain m p bs"
proof (induction bs arbitrary: p)
  case (Cons x bs)
  obtain a s f where x: "x = (a, s, f)" by (cases x)
  with Cons show ?case by (auto split: option.split)
qed simp

lemma tiled_notin:
  assumes "tiled lo bs hi" "unat q < lo"
  shows "q \<notin> fst ` set bs"
  using tiled_bounds [OF assms(1)] assms(2) by fastforce

lemma kmalloc_from_refines:
  assumes "chain (heap_mem h) p bs" "tiled lo bs hi" "hi < 2 ^ 64" "64 \<le> lo"
  shows "\<exists>m'. kmalloc_from h al p = Some (fst (amalloc al bs), h\<lparr>heap_mem := m'\<rparr>)
     \<and> chain m' p (snd (amalloc al bs)) \<and> tiled lo (snd (amalloc al bs)) hi
     \<and> (\<forall>q. unat q < lo \<longrightarrow> m' q = heap_mem h q)"
  using assms
proof (induction bs arbitrary: p lo)
  case Nil
  then show ?case
    by (auto simp: kmalloc_from.simps intro!: exI [of _ "heap_mem h"])
next
  case (Cons x bs)
  obtain a s f where x: "x = (a, s, f)" by (cases x)
  with Cons.prems obtain b where b: "heap_mem h a = Some b" "block_size b = s" "block_free b = f"
    "chain (heap_mem h) (block_next b) bs" and p: "p = a" "a \<noteq> 0"
    by (auto split: option.splits)
  have t: "tiled (lo + 24 + unat s) bs hi" and ua: "unat a = lo"
    using Cons.prems x by auto
  note hi = tiled_le [OF t]
  show ?case
  proof (cases "f \<and> al \<le> s")
    case fits: True
    then have als: "unat al \<le> unat s" by (simp add: word_le_nat_alt)
    have u40: "unat (al + sizeof_HEAP_BLOCK + 16) = unat al + 40"
      using als hi Cons.prems
      by (simp add: sizeof_HEAP_BLOCK_def add.assoc unat_add_64)
    let ?nxt = "a + sizeof_HEAP_BLOCK + al"
    show ?thesis
    proof (cases "unat s \<ge> unat al + 40")
      case split: True
      have unxt: "unat ?nxt = lo + 24 + unat al"
        using als hi Cons.prems ua
        by (simp add: sizeof_HEAP_BLOCK_def unat_add_64)
      have urest: "unat (s - al - 24) = unat s - unat al - 24"
        using split als by (simp add: unat_sub_le word_le_nat_alt)
      have "?nxt \<notin> fst ` set bs"
        using tiled_notin [OF t, of ?nxt] unxt split by simp
      moreover have "a \<notin> fst ` set bs"
        using tiled_notin [OF t, of a] ua by simp
      moreover have "unat ?nxt \<noteq> unat a" "unat ?nxt \<noteq> unat (0 :: u64)"
        unfolding unxt ua by simp_all
      then have "?nxt \<noteq> a" "?nxt \<noteq> 0" by metis+
      moreover have "lo + 24 + unat al + 24 + (unat s - unat al - 24) = lo + 24 + unat s"
        using split by simp
      moreover have "tiled (24 + (lo + unat s)) bs hi" using t by (simp add: ac_simps)
      ultimately show ?thesis
        using fits split p b x t ua unxt urest u40 Cons.prems
        by (subst kmalloc_from.simps)
           (auto simp: kmalloc_take_def Let_def word_le_nat_alt chain_upd sizeof_HEAP_BLOCK_def
             intro!: exI)
    next
      case False
      moreover have "a \<notin> fst ` set bs"
        using tiled_notin [OF t, of a] ua by simp
      ultimately show ?thesis
        using fits p b x t ua u40 Cons.prems
        by (subst kmalloc_from.simps)
           (auto simp: kmalloc_take_def Let_def word_le_nat_alt chain_upd sizeof_HEAP_BLOCK_def
             intro!: exI)
    qed
  next
    case False
    obtain m' where m': "kmalloc_from h al (block_next b)
        = Some (fst (amalloc al bs), h\<lparr>heap_mem := m'\<rparr>)"
      "chain m' (block_next b) (snd (amalloc al bs))"
      "tiled (lo + 24 + unat s) (snd (amalloc al bs)) hi"
      "\<forall>q. unat q < lo + 24 + unat s \<longrightarrow> m' q = heap_mem h q"
      using Cons.IH [OF b(4) t] Cons.prems by auto
    then have "m' a = Some b" using b ua by simp
    with m' False p b x ua show ?thesis
      by (subst kmalloc_from.simps) (auto intro!: exI [of _ m'])
  qed
qed

text \<open>The merging walk of \<open>kfree\<close>.\<close>

lemma kfree_merge_refines:
  assumes "chain (heap_mem h) p bs" "tiled lo bs hi" "hi < 2 ^ 64" "64 \<le> lo"
  shows "\<exists>m'. kfree_merge h p = Some (h\<lparr>heap_mem := m'\<rparr>)
     \<and> chain m' p (coalesce bs) \<and> tiled lo (coalesce bs) hi
     \<and> (\<forall>q. unat q < lo \<longrightarrow> m' q = heap_mem h q)"
  using assms
proof (induction bs arbitrary: p lo h rule: coalesce.induct [case_names pair none one])
  case (pair a s f b t g bs)
  obtain c where c: "heap_mem h a = Some c" "block_size c = s" "block_free c = f"
    "block_next c = b" "b \<noteq> 0" and p: "p = a" "a \<noteq> 0"
    and n: "chain (heap_mem h) b ((b, t, g) # bs)"
    using pair(3) by (auto split: option.splits)
  obtain n where nb: "heap_mem h b = Some n" "block_size n = t" "block_free n = g"
    "chain (heap_mem h) (block_next n) bs"
    using n by (auto split: option.splits)
  have tl: "tiled (lo + 24 + unat s) ((b, t, g) # bs) hi" and ua: "unat a = lo"
    and ub: "unat b = lo + 24 + unat s" and tt: "tiled (lo + 24 + unat s + 24 + unat t) bs hi"
    using pair(4) by auto
  show ?case
  proof (cases "f \<and> g")
    case True
    let ?h = "h\<lparr>heap_mem := (heap_mem h)(a \<mapsto>
        c\<lparr>block_size := s + (sizeof_HEAP_BLOCK + t), block_next := block_next n\<rparr>)\<rparr>"
    have us: "unat (s + (24 + t)) = unat s + 24 + unat t"
      using tiled_le [OF tt] pair(5) by (simp add: unat_add_64)
    have "a \<notin> fst ` set bs" using tiled_notin [OF tt, of a] ua by simp
    then have ch: "chain (heap_mem ?h) p ((a, s + (24 + t), True) # bs)"
      using p nb(4) True c(3) by (simp add: chain_upd sizeof_HEAP_BLOCK_def)
    have eq: "lo + 24 + unat (s + (24 + t)) = lo + 24 + unat s + 24 + unat t" by (simp add: us)
    have ti: "tiled lo ((a, s + (24 + t), True) # bs) hi"
      unfolding tiled.simps eq using tt ua by blast
    have step: "kfree_merge h p = kfree_merge ?h p"
      using True c nb p by (subst kfree_merge.simps) (simp add: ac_simps)
    obtain m' where m': "kfree_merge ?h p = Some (?h\<lparr>heap_mem := m'\<rparr>)"
      "chain m' p (coalesce ((a, s + (24 + t), True) # bs))"
      "tiled lo (coalesce ((a, s + (24 + t), True) # bs)) hi"
      "\<forall>q. unat q < lo \<longrightarrow> m' q = heap_mem ?h q"
      using pair(1) [OF True ch ti pair(5) pair(6)] by blast
    moreover have "\<forall>q. unat q < lo \<longrightarrow> m' q = heap_mem h q" using m'(4) ua by auto
    ultimately show ?thesis using True step by (auto intro!: exI [of _ m'])
  next
    case False
    have "64 \<le> lo + 24 + unat s" using pair(6) by simp
    then obtain m' where m': "kfree_merge h b = Some (h\<lparr>heap_mem := m'\<rparr>)"
      "chain m' b (coalesce ((b, t, g) # bs))"
      "tiled (lo + 24 + unat s) (coalesce ((b, t, g) # bs)) hi"
      "\<forall>q. unat q < lo + 24 + unat s \<longrightarrow> m' q = heap_mem h q"
      using pair(2) [OF False n tl pair(5)] by blast
    have step: "kfree_merge h p = kfree_merge h b"
      using False c nb p by (subst kfree_merge.simps) auto
    have "m' a = Some c" using m'(4) c(1) ua by simp
    then show ?thesis using False step m' p c ua by (auto intro!: exI [of _ m'])
  qed
next
  case none
  then show ?case
    by (auto simp: kfree_merge.simps intro!: exI [of _ "heap_mem h"])
next
  case (one v)
  obtain a s f where v: "v = (a, s, f)" by (cases v)
  with one show ?case
    by (subst kfree_merge.simps) (auto split: option.splits intro!: exI [of _ "heap_mem h"])
qed

text \<open>Setting the free mark of one block.\<close>

lemma fst_mark_free [simp]: "fst ` set (mark_free p bs) = fst ` set bs"
  by (induction p bs rule: mark_free.induct) auto

lemma mark_free_notin: "p \<notin> fst ` set bs \<Longrightarrow> mark_free p bs = bs"
  by (induction p bs rule: mark_free.induct) auto

lemma tiled_mark_free [simp]: "tiled lo (mark_free p bs) hi = tiled lo bs hi"
  by (induction lo bs hi rule: tiled.induct) auto

lemma chain_mark_free:
  assumes "chain m q bs" "tiled lo bs hi" "m p = Some b" "p \<in> fst ` set bs"
  shows "chain (m(p \<mapsto> b\<lparr>block_free := True\<rparr>)) q (mark_free p bs)"
  using assms
proof (induction bs arbitrary: q lo)
  case (Cons x bs)
  obtain a s f where x: "x = (a, s, f)" by (cases x)
  have t: "tiled (lo + 24 + unat s) bs hi" and ua: "unat a = lo" using Cons.prems x by auto
  show ?case
  proof (cases "a = p")
    case True
    then have "p \<notin> fst ` set bs" using tiled_notin [OF t, of p] ua by simp
    moreover have "chain m (block_next b) bs" using True x Cons.prems by auto
    ultimately have "chain (m(p \<mapsto> b\<lparr>block_free := True\<rparr>)) (block_next b) bs"
      by (rule chain_upd [THEN iffD2])
    with \<open>p \<notin> fst ` set bs\<close> True x Cons.prems show ?thesis
      by (auto simp: mark_free_notin fun_upd_def)
  next
    case False
    with x Cons.prems have "p \<in> fst ` set bs" by auto
    with False x Cons.prems Cons.IH [OF _ t] show ?thesis by (auto split: option.splits)
  qed
qed simp

text \<open>Both operations refine the abstract allocator.\<close>

lemma HEAP_BASE_bounds [simp]:
  "unat HEAP_BASE + unat HEAP_SIZE < 18446744073709551616" "64 \<le> unat HEAP_BASE"
  by (simp_all add: HEAP_BASE_def HEAP_SIZE_def)

lemma kmalloc_refines:
  assumes "heap_wf h bs" "align_size sz \<noteq> 0"
  shows "\<exists>h'. kmalloc sz h = Some (fst (amalloc (align_size sz) bs), h')
    \<and> heap_wf h' (snd (amalloc (align_size sz) bs))"
proof -
  obtain m' where "kmalloc_from h (align_size sz) HEAP_BASE
      = Some (fst (amalloc (align_size sz) bs), h\<lparr>heap_mem := m'\<rparr>)"
    "chain m' HEAP_BASE (snd (amalloc (align_size sz) bs))"
    "tiled (unat HEAP_BASE) (snd (amalloc (align_size sz) bs)) (unat HEAP_BASE + unat HEAP_SIZE)"
    using kmalloc_from_refines [of h HEAP_BASE bs "unat HEAP_BASE"
        "unat HEAP_BASE + unat HEAP_SIZE" "align_size sz"] assms
    by (auto simp: heap_wf_def)
  then show ?thesis using assms by (auto simp: kmalloc_def heap_wf_def Let_def)
qed

lemma chain_lookup:
  "chain m p bs \<Longrightarrow> (a, s, f) \<in> set bs \<Longrightarrow>
   \<exists>b. m a = Some b \<and> block_size b = s \<and> block_free b = f"
proof (induction bs arbitrary: p)
  case (Cons x bs)
  then show ?case by (cases x) (auto split: option.splits)
qed simp

lemma heap_wf_addr:
  assumes "heap_wf h bs" "(a, s, f) \<in> set bs"
  shows "a + 24 \<noteq> 0" "unat (a + 24) = unat a + 24"
proof -
  have "unat a + 24 + unat s \<le> unat HEAP_BASE + unat HEAP_SIZE"
    using assms tiled_bounds by (fastforce simp: heap_wf_def)
  then have "unat a + 24 < 18446744073709551616" by (simp add: heap_consts)
  then show u: "unat (a + 24) = unat a + 24" by (simp add: unat_add_64)
  show "a + 24 \<noteq> 0"
  proof
    assume "a + 24 = 0"
    with u show False by simp
  qed
qed

lemma kfree_refines:
  assumes "heap_wf h bs" "(a, s, f) \<in> set bs"
  shows "\<exists>h'. kfree (a + 24) h = Some h' \<and> heap_wf h' (coalesce (mark_free a bs))"
proof -
  obtain b where b: "heap_mem h a = Some b"
    using assms chain_lookup by (fastforce simp: heap_wf_def)
  let ?h = "h\<lparr>heap_mem := (heap_mem h)(a \<mapsto> b\<lparr>block_free := True\<rparr>)\<rparr>"
  have "chain (heap_mem ?h) HEAP_BASE (mark_free a bs)"
    using chain_mark_free [of "heap_mem h" HEAP_BASE bs "unat HEAP_BASE"
        "unat HEAP_BASE + unat HEAP_SIZE" a b] assms b
    by (force simp: heap_wf_def)
  then obtain m' where "kfree_merge ?h HEAP_BASE = Some (?h\<lparr>heap_mem := m'\<rparr>)"
    "chain m' HEAP_BASE (coalesce (mark_free a bs))"
    "tiled (unat HEAP_BASE) (coalesce (mark_free a bs)) (unat HEAP_BASE + unat HEAP_SIZE)"
    using kfree_merge_refines [of ?h HEAP_BASE "mark_free a bs" "unat HEAP_BASE"
        "unat HEAP_BASE + unat HEAP_SIZE"] assms
    by (auto simp: heap_wf_def)
  then show ?thesis
    using assms b heap_wf_addr [OF assms]
    by (auto simp: kfree_def heap_wf_def sizeof_HEAP_BLOCK_def Let_def)
qed

lemma heap_wf_format: "heap_wf (heap_format h) [(HEAP_BASE, HEAP_SIZE - 24, True)]"
  by (simp add: heap_wf_def heap_format_def heap_consts)

text \<open>The list that a heap spells is unique.\<close>

lemma chain_unique: "chain m p bs \<Longrightarrow> chain m p cs \<Longrightarrow> bs = cs"
proof (induction bs arbitrary: p cs)
  case Nil
  then show ?case by (cases cs) auto
next
  case (Cons x bs)
  then show ?case by (cases x; cases cs) (auto split: option.splits)
qed

lemma heap_wf_unique: "heap_wf h bs \<Longrightarrow> heap_wf h cs \<Longrightarrow> bs = cs"
  by (auto simp: heap_wf_def dest: chain_unique)

section \<open>Rounding\<close>

lemma and_not_15: "(x :: u64) AND NOT 15 = push_bit 4 (drop_bit 4 x)"
proof (rule bit_eqI)
  fix n
  assume n: "possible_bit TYPE(u64) n"
  have "bit (15 :: u64) n \<longleftrightarrow> n < 4 \<and> n < 64"
    using bit_mask_iff [where 'a = u64, of 4 n] by (auto simp: mask_numeral)
  with n show "bit (x AND NOT 15) n = bit (push_bit 4 (drop_bit 4 x)) n"
    unfolding bit_and_iff bit_not_iff bit_push_bit_iff bit_drop_bit_eq o_def by auto
qed

lemma unat_and_not_15: "unat ((x :: u64) AND NOT 15) = 16 * (unat x div 16)"
proof -
  have "16 * (unat x div 16) \<le> unat x" by simp
  then have "16 * (unat x div 16) < 18446744073709551616"
    using unat_less_64 [of x] by linarith
  moreover have "(x :: u64) AND NOT 15 = 16 * (x div 16)"
    unfolding and_not_15 by (simp add: push_bit_eq_mult drop_bit_eq_div mult.commute)
  moreover have "unat (x div 16) = unat x div 16" by (simp add: unat_div_distrib)
  ultimately show ?thesis using unat_mult_lem [of "16 :: u64" "x div 16"] by simp
qed

lemma round_up_16: "n \<le> 16 * ((n + 15) div 16)" "16 * ((n + 15) div 16) < n + 16" for n :: nat
  by presburger+

lemma align_size_ge:
  assumes "align_size sz \<noteq> 0"
  shows "sz \<le> align_size sz" "unat (align_size sz) < unat sz + 16"
proof -
  have nw: "unat sz + 15 < 18446744073709551616"
  proof (rule ccontr)
    assume "\<not> ?thesis"
    then have "unat (sz + 15) = unat sz + 15 - 18446744073709551616"
      using unat_plus_if' [of sz 15] by simp
    then have "unat (sz + 15) < 16" using unat_less_64 [of sz] by linarith
    then have "unat (align_size sz) = 0" unfolding align_size_def unat_and_not_15 by simp
    then show False using assms by (simp add: unat_0_iff)
  qed
  then have "unat (sz + 15) = unat sz + 15" by (simp add: unat_add_64)
  then have "unat (align_size sz) = 16 * ((unat sz + 15) div 16)"
    unfolding align_size_def unat_and_not_15 by simp
  with round_up_16 [of "unat sz"] show "sz \<le> align_size sz" "unat (align_size sz) < unat sz + 16"
    unfolding word_le_nat_alt by simp_all
qed

section \<open>What the abstract allocator guarantees\<close>

definition used_blocks :: "ablock list \<Rightarrow> ablock set" where
  "used_blocks bs = {b \<in> set bs. \<not> snd (snd b)}"

fun no_adjacent_free :: "ablock list \<Rightarrow> bool" where
  "no_adjacent_free ((a, s, f) # (b, t, g) # bs) =
     (\<not> (f \<and> g) \<and> no_adjacent_free ((b, t, g) # bs))"
| "no_adjacent_free bs = True"

lemma used_blocks_simps [simp]:
  "used_blocks [] = {}"
  "used_blocks ((a, s, f) # bs) = (if f then used_blocks bs else insert (a, s, f) (used_blocks bs))"
  by (auto simp: used_blocks_def)

lemma amalloc_success:
  "\<exists>b \<in> set bs. snd (snd b) \<and> al \<le> fst (snd b) \<Longrightarrow>
   \<exists>a s s0. fst (amalloc al bs) = a + 24 \<and> al \<le> s \<and> (a, s0, True) \<in> set bs
     \<and> used_blocks (snd (amalloc al bs)) = insert (a, s, False) (used_blocks bs)"
proof (induction al bs rule: amalloc.induct)
  case (2 al a s f bs)
  show ?case
  proof (cases "f \<and> al \<le> s")
    case True
    then show ?thesis by (cases "unat s \<ge> unat al + 40") auto
  next
    case False
    then have "\<exists>b \<in> set bs. snd (snd b) \<and> al \<le> fst (snd b)" using 2 by auto
    with 2 False obtain c t t0 where "fst (amalloc al bs) = c + 24" "al \<le> t"
      "(c, t0, True) \<in> set bs"
      "used_blocks (snd (amalloc al bs)) = insert (c, t, False) (used_blocks bs)"
      by blast
    with False show ?thesis
      by (intro exI [of _ c] exI [of _ t] exI [of _ t0]) auto
  qed
qed simp

lemma amalloc_failure:
  "\<not> (\<exists>b \<in> set bs. snd (snd b) \<and> al \<le> fst (snd b)) \<Longrightarrow> amalloc al bs = (0, bs)"
  by (induction al bs rule: amalloc.induct) auto

lemma coalesce_head:
  obtains t' bs' where "coalesce ((b, t, g) # bs) = (b, t', g) # bs'"
proof -
  have "\<exists>t' bs'. coalesce ((b, t, g) # bs) = (b, t', g) # bs'"
    by (induction bs arbitrary: t) auto
  then show ?thesis using that by blast
qed

lemma coalesce_no_adjacent: "no_adjacent_free (coalesce bs)"
proof (induction bs rule: coalesce.induct)
  case (1 a s f b t g bs)
  show ?case
  proof (cases "f \<and> g")
    case False
    obtain t' bs' where c: "coalesce ((b, t, g) # bs) = (b, t', g) # bs'"
      by (rule coalesce_head)
    show ?thesis using False 1(2) [OF False] c by auto
  qed (use 1 in simp)
qed auto

lemma coalesce_id: "no_adjacent_free bs \<Longrightarrow> coalesce bs = bs"
  by (induction bs rule: coalesce.induct) auto

lemma coalesce_cons: "coalesce (x # bs) = coalesce (x # coalesce bs)"
proof (induction bs arbitrary: x rule: coalesce.induct)
  case (1 b t g c u k bs)
  obtain a s f where x: "x = (a, s, f)" by (cases x)
  have idem: "coalesce (coalesce ys) = coalesce ys" for ys
    by (rule coalesce_id [OF coalesce_no_adjacent])
  show ?case
  proof (cases "g \<and> k")
    case True
    then have "coalesce (x # coalesce ((b, t, g) # (c, u, k) # bs))
        = coalesce (x # (b, t + (24 + u), True) # bs)"
      using 1(1) [OF True, of x] by simp
    also have "\<dots> = coalesce (x # (b, t, g) # (c, u, k) # bs)"
    proof (cases f)
      case False
      then show ?thesis using True x by simp
    next
      case f: True
      have "s + (24 + (t + (24 + u))) = s + (24 + t) + (24 + u)" by (simp add: ac_simps)
      then show ?thesis using True f x by (simp only: coalesce.simps) simp
    qed
    finally show ?thesis by simp
  next
    case False
    obtain u' bs' where c: "coalesce ((c, u, k) # bs) = (c, u', k) # bs'"
      by (rule coalesce_head)
    have "coalesce ((c, u', k) # bs') = (c, u', k) # bs'"
      using idem [of "(c, u, k) # bs"] c by simp
    then show ?thesis using False x c by auto
  qed
qed auto

lemma used_coalesce: "used_blocks (coalesce bs) = used_blocks bs"
  by (induction bs rule: coalesce.induct) auto

lemma used_mark_free:
  "tiled lo bs hi \<Longrightarrow> used_blocks (mark_free p bs) = {b \<in> used_blocks bs. fst b \<noteq> p}"
  by (induction p bs arbitrary: lo rule: mark_free.induct) auto

text \<open>Freeing what was just allocated restores a coalesced chain.\<close>

lemma mark_amalloc_roundtrip:
  assumes "no_adjacent_free bs" "tiled lo bs hi" "fst (amalloc al bs) \<noteq> 0"
  shows "coalesce (mark_free (fst (amalloc al bs) - 24) (snd (amalloc al bs))) = bs"
  using assms
proof (induction al bs arbitrary: lo rule: amalloc.induct)
  case (2 al a s f bs)
  have t: "tiled (lo + 24 + unat s) bs hi" and ua: "unat a = lo" using "2.prems"(2) by auto
  have na: "a \<notin> fst ` set bs" using tiled_notin [OF t, of a] ua by simp
  show ?case
  proof (cases "f \<and> al \<le> s")
    case True
    then have eq: "al + (24 + (s - al - 24)) = s" by simp
    show ?thesis
    proof (cases "unat s \<ge> unat al + 40")
      case split: True
      then show ?thesis
        using True eq "2.prems"(1) na coalesce_id [OF "2.prems"(1)] by (simp add: mark_free_notin)
    next
      case False
      then show ?thesis
        using True na coalesce_id [OF "2.prems"(1)] by (simp add: mark_free_notin)
    qed
  next
    case False
    have nf: "no_adjacent_free bs" using "2.prems"(1) by (cases bs) auto
    have ih: "coalesce (mark_free (fst (amalloc al bs) - 24) (snd (amalloc al bs))) = bs"
      using "2.IH"(1) [OF False nf t] "2.prems"(3) False by simp
    have "\<exists>b \<in> set bs. snd (snd b) \<and> al \<le> fst (snd b)"
      using amalloc_failure [of bs al] "2.prems"(3) False by fastforce
    then have "fst (amalloc al bs) - 24 \<in> fst ` set bs"
      using amalloc_success [of bs al] by force
    then have "fst (amalloc al bs) - 24 \<noteq> a" using na by auto
    then show ?thesis
      using False ih coalesce_id [OF "2.prems"(1)]
        coalesce_cons [of "(a, s, f)" "mark_free (fst (amalloc al bs) - 24) (snd (amalloc al bs))"]
      by auto
  qed
qed simp

section \<open>The interface the rest of the kernel relies on\<close>

text \<open>Clients of the heap see live buffers, each a payload address and a size.\<close>

locale allocator =
  fixes alloc :: "u64 \<Rightarrow> 'h \<Rightarrow> (u64 \<times> 'h) option"
    and release :: "u64 \<Rightarrow> 'h \<Rightarrow> 'h option"
    and inv :: "'h \<Rightarrow> bool"
    and live :: "'h \<Rightarrow> (u64 \<times> u64) set"
  assumes alloc_total: "inv h \<Longrightarrow> \<exists>r h'. alloc n h = Some (r, h') \<and> inv h'"
    and alloc_live: "inv h \<Longrightarrow> alloc n h = Some (r, h') \<Longrightarrow> r \<noteq> 0 \<Longrightarrow>
      r \<notin> fst ` live h \<and> (\<exists>s \<ge> n. live h' = insert (r, s) (live h))"
    and alloc_null: "inv h \<Longrightarrow> alloc n h = Some (0, h') \<Longrightarrow> live h' = live h"
    and release_live: "inv h \<Longrightarrow> r \<in> fst ` live h \<Longrightarrow>
      \<exists>h'. release r h = Some h' \<and> inv h' \<and> live h' = {b \<in> live h. fst b \<noteq> r}"
    and live_disjoint: "inv h \<Longrightarrow> (r, s) \<in> live h \<Longrightarrow> (q, t) \<in> live h \<Longrightarrow> r \<noteq> q \<Longrightarrow>
      unat r + unat s \<le> unat q \<or> unat q + unat t \<le> unat r"
begin

text \<open>The pattern of every \<^verbatim>\<open>cleanup:\<close> label: two buffers taken, both given back.\<close>

lemma scoped_buffers:
  assumes "inv h" "alloc n h = Some (r, h1)" "alloc m h1 = Some (q, h2)" "r \<noteq> 0" "q \<noteq> 0"
  shows "\<exists>h3 h4. release q h2 = Some h3 \<and> release r h3 = Some h4 \<and> inv h4 \<and> live h4 = live h"
proof -
  have h1: "inv h1" using alloc_total [OF assms(1), of n] assms(2) by auto
  have h2: "inv h2" using alloc_total [OF h1, of m] assms(3) by auto
  obtain s where s: "r \<notin> fst ` live h" "live h1 = insert (r, s) (live h)"
    using alloc_live [OF assms(1,2,4)] by blast
  obtain t where t: "q \<notin> fst ` live h1" "live h2 = insert (q, t) (live h1)"
    using alloc_live [OF h1 assms(3,5)] by blast
  have "q \<in> fst ` live h2" using t by force
  then obtain h3 where h3: "release q h2 = Some h3" "inv h3" "live h3 = {b \<in> live h2. fst b \<noteq> q}"
    using release_live [OF h2] by blast
  have l3: "live h3 = live h1" using h3(3) t by (auto simp: image_iff)
  have "r \<in> fst ` live h3" using s l3 by force
  then obtain h4 where h4: "release r h3 = Some h4" "inv h4" "live h4 = {b \<in> live h3. fst b \<noteq> r}"
    using release_live [OF h3(2)] by blast
  have "live h4 = live h" using h4(3) l3 s by (auto simp: image_iff)
  then show ?thesis using h3 h4 by blast
qed

end

definition heap_live :: "heap_state \<Rightarrow> (u64 \<times> u64) set" where
  "heap_live h = {(a + 24, s) | a s. \<exists>bs. heap_wf h bs \<and> (a, s, False) \<in> set bs}"

lemma heap_live_eq:
  "heap_wf h bs \<Longrightarrow> heap_live h = (\<lambda>(a, s, f). (a + 24, s)) ` used_blocks bs"
  by (force simp: heap_live_def used_blocks_def dest: heap_wf_unique)

lemma heap_live_disjoint:
  assumes "heap_wf h bs" "(r, s) \<in> heap_live h" "(q, t) \<in> heap_live h" "r \<noteq> q"
  shows "unat r + unat s \<le> unat q \<or> unat q + unat t \<le> unat r"
proof -
  obtain a b where a: "(a, s, False) \<in> set bs" "r = a + 24" and b: "(b, t, False) \<in> set bs" "q = b + 24"
    using assms heap_live_eq [OF assms(1)] by (auto simp: used_blocks_def)
  have "tiled (unat HEAP_BASE) bs (unat HEAP_BASE + unat HEAP_SIZE)"
    using assms(1) by (simp add: heap_wf_def)
  then have "unat a + 24 + unat s \<le> unat b \<or> unat b + 24 + unat t \<le> unat a"
    using tiled_disjoint a b assms(4) by blast
  then show ?thesis
    using heap_wf_addr(2) [OF assms(1) a(1)] heap_wf_addr(2) [OF assms(1) b(1)] a b by auto
qed

lemma kmalloc_zero: "align_size sz = 0 \<Longrightarrow> kmalloc sz h = Some (0, h)"
  by (simp add: kmalloc_def)

lemma kmalloc_cases:
  assumes "heap_wf h bs"
  obtains (null) h' where "kmalloc sz h = Some (0, h')" "heap_wf h' bs"
    "align_size sz = 0 \<or> \<not> (\<exists>b \<in> set bs. snd (snd b) \<and> align_size sz \<le> fst (snd b))"
  | (block) a s s0 h' bs' where "kmalloc sz h = Some (a + 24, h')" "heap_wf h' bs'"
    "bs' = snd (amalloc (align_size sz) bs)" "fst (amalloc (align_size sz) bs) = a + 24"
    "sz \<le> s" "(a, s0, True) \<in> set bs" "used_blocks bs' = insert (a, s, False) (used_blocks bs)"
    "align_size sz \<noteq> 0" "\<exists>b \<in> set bs. snd (snd b) \<and> align_size sz \<le> fst (snd b)"
proof (cases "align_size sz = 0")
  case True
  then show ?thesis using null [of h] assms by (simp add: kmalloc_zero)
next
  case False
  then obtain h' where h': "kmalloc sz h = Some (fst (amalloc (align_size sz) bs), h')"
    "heap_wf h' (snd (amalloc (align_size sz) bs))"
    using kmalloc_refines [OF assms] by blast
  show ?thesis
  proof (cases "\<exists>b \<in> set bs. snd (snd b) \<and> align_size sz \<le> fst (snd b)")
    case fits: True
    from amalloc_success [OF this] obtain a s s0 where as:
      "fst (amalloc (align_size sz) bs) = a + 24" "align_size sz \<le> s" "(a, s0, True) \<in> set bs"
      "used_blocks (snd (amalloc (align_size sz) bs)) = insert (a, s, False) (used_blocks bs)"
      by blast
    have "sz \<le> s" using align_size_ge(1) [OF False] as(2) by (rule order_trans)
    then show ?thesis using block h' as False fits by metis
  next
    case nofit: False
    then show ?thesis using null [of h'] h' amalloc_failure [OF nofit] by simp
  qed
qed

lemma used_blocks_addr:
  assumes "heap_wf h bs" "(a, s0, True) \<in> set bs"
  shows "a + 24 \<notin> fst ` heap_live h"
proof
  assume "a + 24 \<in> fst ` heap_live h"
  then obtain s where "(a, s, False) \<in> set bs"
    by (auto simp: heap_live_eq [OF assms(1)] used_blocks_def)
  then have "\<exists>b. heap_mem h a = Some b \<and> \<not> block_free b" "\<exists>b. heap_mem h a = Some b \<and> block_free b"
    using assms chain_lookup by (fastforce simp: heap_wf_def)+
  then show False by auto
qed

lemma kfree_live:
  assumes "heap_wf h bs" "r \<in> fst ` heap_live h"
  shows "\<exists>h' bs'. kfree r h = Some h' \<and> heap_wf h' bs' \<and> no_adjacent_free bs'
    \<and> heap_live h' = {b \<in> heap_live h. fst b \<noteq> r}"
proof -
  obtain a s where a: "(a, s, False) \<in> set bs" "r = a + 24"
    using assms by (auto simp: heap_live_eq [OF assms(1)] used_blocks_def)
  obtain h' where h': "kfree r h = Some h'" "heap_wf h' (coalesce (mark_free a bs))"
    using kfree_refines [OF assms(1) a(1)] a(2) by blast
  have t: "tiled (unat HEAP_BASE) bs (unat HEAP_BASE + unat HEAP_SIZE)"
    using assms(1) by (simp add: heap_wf_def)
  have "heap_live h' = (\<lambda>(a, s, f). (a + 24, s)) ` {b \<in> used_blocks bs. fst b \<noteq> a}"
    by (simp add: heap_live_eq [OF h'(2)] used_coalesce used_mark_free [OF t])
  also have "\<dots> = {b \<in> heap_live h. fst b \<noteq> r}"
    unfolding heap_live_eq [OF assms(1)] a(2) by (auto intro: rev_image_eqI)
  finally have "heap_live h' = {b \<in> heap_live h. fst b \<noteq> r}" .
  then show ?thesis using h' coalesce_no_adjacent by blast
qed

interpretation kheap: allocator kmalloc kfree "\<lambda>h. \<exists>bs. heap_wf h bs" heap_live
proof
  fix h n
  assume "\<exists>bs. heap_wf h bs"
  then obtain bs where bs: "heap_wf h bs" ..
  show "\<exists>r h'. kmalloc n h = Some (r, h') \<and> (\<exists>bs. heap_wf h' bs)"
    by (rule kmalloc_cases [OF bs, of n]) blast+
next
  fix h n r h'
  assume "\<exists>bs. heap_wf h bs" and k: "kmalloc n h = Some (r, h')" and r: "r \<noteq> 0"
  then obtain bs where bs: "heap_wf h bs" by blast
  show "r \<notin> fst ` heap_live h \<and> (\<exists>s\<ge>n. heap_live h' = insert (r, s) (heap_live h))"
  proof (rule kmalloc_cases [OF bs, of n])
    fix a s s0 h1 bs'
    assume "kmalloc n h = Some (a + 24, h1)" "heap_wf h1 bs'" "n \<le> s" "(a, s0, True) \<in> set bs"
      "used_blocks bs' = insert (a, s, False) (used_blocks bs)"
    with k show ?thesis
      using used_blocks_addr [OF bs, of a s0] heap_live_eq [OF bs] heap_live_eq [of h1 bs']
      by auto
  qed (use k r in auto)
next
  fix h n h'
  assume "\<exists>bs. heap_wf h bs" and k: "kmalloc n h = Some (0, h')"
  then obtain bs where bs: "heap_wf h bs" by blast
  show "heap_live h' = heap_live h"
  proof (rule kmalloc_cases [OF bs, of n])
    fix h1 assume "kmalloc n h = Some (0, h1)" "heap_wf h1 bs"
    with k show ?thesis by (simp add: heap_live_eq [OF bs] heap_live_eq)
  next
    fix a s s0 h1 bs'
    assume "kmalloc n h = Some (a + 24, h1)" "(a, s0, True) \<in> set bs"
    with k show ?thesis using heap_wf_addr(1) [OF bs, of a s0] by auto
  qed
next
  fix h r
  assume "\<exists>bs. heap_wf h bs" "r \<in> fst ` heap_live h"
  then show "\<exists>h'. kfree r h = Some h' \<and> (\<exists>bs. heap_wf h' bs)
      \<and> heap_live h' = {b \<in> heap_live h. fst b \<noteq> r}"
    using kfree_live by blast
qed (use heap_live_disjoint in blast)

section \<open>Free space\<close>

fun ablocks_free :: "ablock list \<Rightarrow> nat" where
  "ablocks_free [] = 0"
| "ablocks_free ((a, s, f) # bs) = (if f then unat s else 0) + ablocks_free bs"

fun ablocks_used :: "ablock list \<Rightarrow> nat" where
  "ablocks_used [] = 0"
| "ablocks_used ((a, s, f) # bs) = (if f then 0 else unat s) + ablocks_used bs"

lemma tiled_accounting:
  "tiled lo bs hi \<Longrightarrow> lo + ablocks_free bs + ablocks_used bs + 24 * length bs = hi"
  by (induction lo bs hi rule: tiled.induct) auto

lemma free_bytes_from_eq:
  assumes "chain (heap_mem h) p bs" "unat acc + ablocks_free bs < 18446744073709551616"
  shows "\<exists>n. free_bytes_from h p acc = Some n \<and> unat n = unat acc + ablocks_free bs"
  using assms
proof (induction bs arbitrary: p acc)
  case Nil
  then show ?case by (simp add: free_bytes_from.simps)
next
  case (Cons x bs)
  obtain a s f where x: "x = (a, s, f)" by (cases x)
  with Cons.prems obtain b where b: "heap_mem h a = Some b" "block_size b = s" "block_free b = f"
    "chain (heap_mem h) (block_next b) bs" and p: "p = a" "a \<noteq> 0"
    by (auto split: option.splits)
  let ?acc = "if f then acc + s else acc"
  have u: "unat ?acc = unat acc + (if f then unat s else 0)"
    using Cons.prems x by (auto simp: unat_add_64)
  then obtain n where "free_bytes_from h (block_next b) ?acc = Some n"
    "unat n = unat ?acc + ablocks_free bs"
    using Cons.IH [OF b(4), of ?acc] Cons.prems x by auto
  then show ?case using b p x u by (subst free_bytes_from.simps) auto
qed

lemma heap_free_bytes_eq:
  assumes "heap_wf h bs"
  shows "\<exists>n. heap_free_bytes h = Some n \<and> unat n = ablocks_free bs"
proof -
  have "ablocks_free bs \<le> unat HEAP_SIZE"
    using assms tiled_accounting [of "unat HEAP_BASE" bs "unat HEAP_BASE + unat HEAP_SIZE"]
    by (auto simp: heap_wf_def)
  then have "ablocks_free bs < 18446744073709551616"
    using unat_less_64 [of HEAP_SIZE] by linarith
  then show ?thesis
    using assms free_bytes_from_eq [of h HEAP_BASE bs 0] by (auto simp: heap_wf_def heap_free_bytes_def)
qed

lemma kmalloc_step:
  assumes "heap_wf h bs" "amalloc (align_size sz) bs = (r, bs')" "align_size sz \<noteq> 0"
  shows "\<exists>h'. kmalloc sz h = Some (r, h') \<and> heap_wf h' bs'"
  using kmalloc_refines [OF assms(1,3)] assms(2) by simp

lemma kfree_step:
  assumes "heap_wf h bs" "r - 24 \<in> fst ` set bs" "coalesce (mark_free (r - 24) bs) = bs'"
  shows "\<exists>h'. kfree r h = Some h' \<and> heap_wf h' bs'"
  using kfree_refines [OF assms(1), of "r - 24"] assms(2,3) by fastforce

text \<open>A heap with one live buffer, for closed instances.\<close>

definition one_buffer_heap :: heap_state where
  "one_buffer_heap =
     \<lparr>heap_head = HEAP_BASE,
      heap_mem = [HEAP_BASE \<mapsto> \<lparr>block_size = 112, block_free = False, block_reserved = 0,
                               block_next = HEAP_BASE + 136\<rparr>,
                  HEAP_BASE + 136 \<mapsto> \<lparr>block_size = HEAP_SIZE - 160, block_free = True,
                               block_reserved = 0, block_next = 0\<rparr>]\<rparr>"

lemma one_buffer_heap_wf:
  "heap_wf one_buffer_heap
     [(HEAP_BASE, 112, False), (HEAP_BASE + 136, HEAP_SIZE - 160, True)]"
  by (simp add: heap_wf_def one_buffer_heap_def heap_consts)

section \<open>Properties\<close>

text \<open>C2: \<open>kmalloc\<close> on a well-formed heap always returns.  A non-null result is the payload of a
  block of at least the requested size that was not live before; it becomes live, every other
  live buffer stays as it was, and the heap stays well formed.\<close>

theorem kmalloc_fresh_block:
  assumes "heap_wf h bs"
  shows "\<exists>r h' bs'. kmalloc sz h = Some (r, h') \<and> heap_wf h' bs'
    \<and> (if r = 0 then heap_live h' = heap_live h
       else r \<notin> fst ` heap_live h \<and> (\<exists>s \<ge> sz. heap_live h' = insert (r, s) (heap_live h)))"
proof -
  obtain r h' where k: "kmalloc sz h = Some (r, h')" "\<exists>bs. heap_wf h' bs"
    using kheap.alloc_total [of h sz] assms by blast
  then show ?thesis
    using kheap.alloc_live [of h sz r h'] kheap.alloc_null [of h sz h'] assms by auto
qed

theorem kmalloc_fresh_block_witness:
  "\<exists>r h' bs'. kmalloc 100 (heap_format \<lparr>heap_head = 0, heap_mem = Map.empty\<rparr>) = Some (r, h')
    \<and> heap_wf h' bs'"
  using kmalloc_fresh_block [OF heap_wf_format, of 100 "\<lparr>heap_head = 0, heap_mem = Map.empty\<rparr>"]
  by blast

text \<open>\<open>kmalloc\<close> answers null exactly when the rounded request is zero (an empty request, or
  one within fifteen bytes of \<open>2 ^ 64\<close>) or no free block is large enough.\<close>

theorem kmalloc_null_iff:
  assumes "heap_wf h bs"
  shows "(\<exists>h'. kmalloc sz h = Some (0, h')) \<longleftrightarrow>
    align_size sz = 0 \<or> (\<forall>(a, s, free) \<in> set bs. free \<longrightarrow> s < align_size sz)"
proof (rule kmalloc_cases [OF assms, of sz])
  fix a s s0 h' bs'
  assume k: "kmalloc sz h = Some (a + 24, h')" "(a, s0, True) \<in> set bs" "align_size sz \<noteq> 0"
    and fit: "\<exists>b \<in> set bs. snd (snd b) \<and> align_size sz \<le> fst (snd b)"
  have "\<not> (\<forall>(a, s, free) \<in> set bs. free \<longrightarrow> s < align_size sz)" using fit by fastforce
  then show ?thesis using k heap_wf_addr(1) [OF assms k(2)] by simp
next
  fix h'
  assume "kmalloc sz h = Some (0, h')"
    "align_size sz = 0 \<or> \<not> (\<exists>b \<in> set bs. snd (snd b) \<and> align_size sz \<le> fst (snd b))"
  then show ?thesis by (fastforce simp: not_le)
qed

theorem kmalloc_null_iff_witness:
  "\<exists>h'. kmalloc 9000000 (heap_format \<lparr>heap_head = 0, heap_mem = Map.empty\<rparr>) = Some (0, h')"
  using kmalloc_null_iff [OF heap_wf_format, of 9000000 "\<lparr>heap_head = 0, heap_mem = Map.empty\<rparr>"]
  by (simp add: align_size_def heap_consts)

text \<open>C3: \<open>kfree\<close> of a live buffer returns, removes exactly that buffer from the live ones, and
  leaves no two neighbouring free blocks.\<close>

theorem kfree_coalesces:
  assumes "heap_wf h bs" and "r \<in> fst ` heap_live h"
  shows "\<exists>h' bs'. kfree r h = Some h' \<and> heap_wf h' bs' \<and> no_adjacent_free bs'
    \<and> heap_live h' = {b \<in> heap_live h. fst b \<noteq> r}"
  using kfree_live [OF assms] .

theorem kfree_coalesces_witness:
  "\<exists>h' bs'. kfree (HEAP_BASE + 24) one_buffer_heap = Some h' \<and> heap_wf h' bs'
    \<and> no_adjacent_free bs'"
proof -
  have "HEAP_BASE + 24 \<in> fst ` heap_live one_buffer_heap"
    by (simp add: heap_live_eq [OF one_buffer_heap_wf])
  then show ?thesis using kfree_coalesces [OF one_buffer_heap_wf] by blast
qed

text \<open>on a coalesced heap, freeing the buffer that \<open>kmalloc\<close> just returned gives back
  exactly the chain of blocks from before the allocation.\<close>

theorem kmalloc_kfree_roundtrip:
  assumes "heap_wf h bs" and "no_adjacent_free bs"
    and "kmalloc sz h = Some (r, h1)" and "r \<noteq> 0"
  shows "\<exists>h2. kfree r h1 = Some h2 \<and> heap_wf h2 bs"
proof (rule kmalloc_cases [OF assms(1), of sz])
  fix a s s0 h' bs'
  assume b: "kmalloc sz h = Some (a + 24, h')" "heap_wf h' bs'"
    "bs' = snd (amalloc (align_size sz) bs)" "fst (amalloc (align_size sz) bs) = a + 24"
    "used_blocks bs' = insert (a, s, False) (used_blocks bs)"
  have t: "tiled (unat HEAP_BASE) bs (unat HEAP_BASE + unat HEAP_SIZE)"
    using assms(1) by (simp add: heap_wf_def)
  have "(a, s, False) \<in> set bs'" using b(5) by (auto simp: used_blocks_def)
  moreover have "coalesce (mark_free a bs') = bs"
    using mark_amalloc_roundtrip [OF assms(2) t, of "align_size sz"] b assms(3,4) by simp
  ultimately show ?thesis
    using kfree_refines [OF b(2), of a s False] b(1) assms(3) by auto
qed (use assms in auto)

theorem kmalloc_kfree_roundtrip_witness:
  "\<exists>r h1 h2. kmalloc 100 (heap_format \<lparr>heap_head = 0, heap_mem = Map.empty\<rparr>) = Some (r, h1)
    \<and> kfree r h1 = Some h2 \<and> heap_wf h2 [(HEAP_BASE, HEAP_SIZE - 24, True)]"
proof -
  let ?h = "heap_format \<lparr>heap_head = 0, heap_mem = Map.empty\<rparr>"
  have "amalloc (align_size 100) [(HEAP_BASE, HEAP_SIZE - 24, True)] =
      (HEAP_BASE + 24, [(HEAP_BASE, 112, False), (HEAP_BASE + 136, HEAP_SIZE - 160, True)])"
    by (simp add: align_size_def heap_consts)
  then obtain h1 where h1: "kmalloc 100 ?h = Some (HEAP_BASE + 24, h1)"
    using kmalloc_step [OF heap_wf_format, of 100] by (force simp: align_size_def)
  show ?thesis
    using kmalloc_kfree_roundtrip [OF heap_wf_format _ h1] h1 by (simp add: heap_consts)
qed

text \<open>\<open>heap_free_bytes\<close> returns, and its result together with the live bytes and the block
  headers accounts for every byte of the heap.\<close>

theorem heap_accounting:
  assumes "heap_wf h bs"
  shows "\<exists>n. heap_free_bytes h = Some n
    \<and> unat n + ablocks_used bs + 24 * length bs = unat HEAP_SIZE"
proof -
  have "unat HEAP_BASE + ablocks_free bs + ablocks_used bs + 24 * length bs
      = unat HEAP_BASE + unat HEAP_SIZE"
    using assms tiled_accounting by (simp add: heap_wf_def)
  then show ?thesis using heap_free_bytes_eq [OF assms] by auto
qed

theorem heap_accounting_witness:
  "\<exists>n. heap_free_bytes one_buffer_heap = Some n \<and> unat n + 112 + 48 = unat HEAP_SIZE"
  using heap_accounting [OF one_buffer_heap_wf] by simp

text \<open>the fragmentation self test run at boot succeeds on a freshly formatted heap and gives
  the heap back as one free block.\<close>

theorem heap_self_test_passes:
  "\<exists>h'. heap_fragmentation_self_test (heap_format h) = Some (True, h')
     \<and> heap_wf h' [(HEAP_BASE, HEAP_SIZE - 24, True)]"
proof -
  let ?n = "HEAP_BASE"
  obtain h1 where h1: "kmalloc 1024 (heap_format h) = Some (?n + 24, h1)"
    "heap_wf h1 [(?n, 1024, False), (?n + 1048, HEAP_SIZE - 1072, True)]"
    using kmalloc_step [OF heap_wf_format, of 1024] by (force simp: align_size_def heap_consts)
  obtain h2 where h2: "kmalloc 1024 h1 = Some (?n + 1072, h2)"
    "heap_wf h2 [(?n, 1024, False), (?n + 1048, 1024, False), (?n + 2096, HEAP_SIZE - 2120, True)]"
    using kmalloc_step [OF h1(2), of 1024] by (force simp: align_size_def heap_consts)
  obtain h3 where h3: "kmalloc 1024 h2 = Some (?n + 2120, h3)"
    "heap_wf h3 [(?n, 1024, False), (?n + 1048, 1024, False), (?n + 2096, 1024, False),
       (?n + 3144, HEAP_SIZE - 3168, True)]"
    using kmalloc_step [OF h2(2), of 1024] by (force simp: align_size_def heap_consts)
  obtain h4 where h4: "kfree (?n + 1072) h3 = Some h4"
    "heap_wf h4 [(?n, 1024, False), (?n + 1048, 1024, True), (?n + 2096, 1024, False),
       (?n + 3144, HEAP_SIZE - 3168, True)]"
    using kfree_step [OF h3(2), of "?n + 1072"] by (force simp: heap_consts)
  obtain h5 where h5: "kfree (?n + 24) h4 = Some h5"
    "heap_wf h5 [(?n, 2072, True), (?n + 2096, 1024, False), (?n + 3144, HEAP_SIZE - 3168, True)]"
    using kfree_step [OF h4(2), of "?n + 24"] by (force simp: heap_consts)
  obtain h6 where h6: "kmalloc 1800 h5 = Some (?n + 24, h6)"
    "heap_wf h6 [(?n, 1808, False), (?n + 1832, 240, True), (?n + 2096, 1024, False),
       (?n + 3144, HEAP_SIZE - 3168, True)]"
    using kmalloc_step [OF h5(2), of 1800] by (force simp: align_size_def heap_consts)
  obtain h7 where h7: "kfree (?n + 24) h6 = Some h7"
    "heap_wf h7 [(?n, 2072, True), (?n + 2096, 1024, False), (?n + 3144, HEAP_SIZE - 3168, True)]"
    using kfree_step [OF h6(2), of "?n + 24"] by (force simp: heap_consts)
  obtain h8 where h8: "kfree (?n + 2120) h7 = Some h8"
    "heap_wf h8 [(?n, HEAP_SIZE - 24, True)]"
    using kfree_step [OF h7(2), of "?n + 2120"] by (force simp: heap_consts)
  have "?n + 24 \<noteq> 0" "?n + 1072 \<noteq> 0" "?n + 2120 \<noteq> 0" by (simp_all add: HEAP_BASE_def)
  then have "heap_fragmentation_self_test (heap_format h) = Some (True, h8)"
    by (simp add: heap_fragmentation_self_test_def h1 h2 h3 h4 h5 h6 h7 h8)
  then show ?thesis using h8 by blast
qed

end
