(* ===== verification/Kernel_Process.thy ===== *)
theory Kernel_Process
  imports Kernel_Paging
begin

text \<open>
  \<^verbatim>\<open>src/kernel/process.c\<close>: the table of sixteen processes.  A process pointer is its index
  in the table, \<open>None\<close> the null pointer; every operation also passes the machine of
  \<open>Kernel_Paging\<close>, which creating and killing a process change.  The loops over the table are
  functions of the loop index.
\<close>

section \<open>Data\<close>

datatype ASAS_PROCESS_STATE =
  PROCESS_UNUSED | PROCESS_READY | PROCESS_RUNNING | PROCESS_BLOCKED | PROCESS_EXITED

record ASAS_PROCESS =
  pid :: u32
  process_state :: ASAS_PROCESS_STATE
  address_space :: page_tables
  user_entry :: u64
  user_stack :: u64

definition ASAS_MAX_PROCESSES :: nat where "ASAS_MAX_PROCESSES = 16"
definition USER_TEST_PAGE :: u64 where "USER_TEST_PAGE = 0x0000600001000000"

record process_table =
  processes :: "ASAS_PROCESS list"
  next_pid :: u32

section \<open>Operations\<close>

definition process_initialize :: "process_table \<Rightarrow> process_table" where
  "process_initialize st =
     st\<lparr>processes := map (\<lambda>_. \<lparr>pid = 0, process_state = PROCESS_UNUSED,
          address_space = \<lparr>pml4 = 0, has_frame_allocator = False\<rparr>,
          user_entry = 0, user_stack = 0\<rparr>) (processes st),
        next_pid := 1\<rparr>"

function process_create_from :: "nat \<Rightarrow> page_tables \<Rightarrow> process_table \<Rightarrow> page_machine \<Rightarrow>
    nat option \<times> process_table \<times> page_machine" where
  "process_create_from index kernel_tables st m =
     (if index < ASAS_MAX_PROCESSES then
        if process_state (processes st ! index) = PROCESS_UNUSED then
          let (ok, space, m1) = paging_create_address_space
                (address_space (processes st ! index)) kernel_tables m
          in if \<not> ok then (None, st, m1)
             else (Some index,
               st\<lparr>processes := (processes st)[index := (processes st ! index)\<lparr>
                    address_space := space, pid := next_pid st, process_state := PROCESS_READY\<rparr>],
                  next_pid := next_pid st + 1\<rparr>, m1)
        else process_create_from (Suc index) kernel_tables st m
      else (None, st, m))"
  by pat_completeness auto
termination by (relation "measure (\<lambda>(index, _). ASAS_MAX_PROCESSES - index)") auto

definition process_create :: "page_tables \<Rightarrow> process_table \<Rightarrow> page_machine \<Rightarrow>
    nat option \<times> process_table \<times> page_machine" where
  "process_create = process_create_from 0"

definition active :: "ASAS_PROCESS \<Rightarrow> bool" where
  "active p \<longleftrightarrow> process_state p \<noteq> PROCESS_UNUSED \<and> process_state p \<noteq> PROCESS_EXITED"

definition process_active_count :: "process_table \<Rightarrow> u32" where
  "process_active_count st =
     fold (\<lambda>index count. if active (processes st ! index) then count + 1 else count)
       [0 ..< ASAS_MAX_PROCESSES] 0"

function process_kill_from :: "nat \<Rightarrow> u32 \<Rightarrow> process_table \<Rightarrow> page_machine \<Rightarrow>
    bool \<times> process_table \<times> page_machine" where
  "process_kill_from index p st m =
     (if index < ASAS_MAX_PROCESSES then
        if pid (processes st ! index) = p \<and> process_state (processes st ! index) \<noteq> PROCESS_UNUSED
        then
          let (space, m1) = paging_destroy_address_space (address_space (processes st ! index)) m
          in (True,
              st\<lparr>processes := (processes st)[index := (processes st ! index)\<lparr>
                   address_space := space, process_state := PROCESS_EXITED,
                   user_entry := 0, user_stack := 0\<rparr>]\<rparr>, m1)
        else process_kill_from (Suc index) p st m
      else (False, st, m))"
  by pat_completeness auto
termination by (relation "measure (\<lambda>(index, _). ASAS_MAX_PROCESSES - index)") auto

definition process_kill :: "u32 \<Rightarrow> process_table \<Rightarrow> page_machine \<Rightarrow>
    bool \<times> process_table \<times> page_machine" where
  "process_kill = process_kill_from 0"

definition take_test_frame :: "page_machine \<Rightarrow> u64 \<times> page_machine" where
  "take_test_frame m =
     (let (frame, al) = frame_allocate (pm_frames m) in (frame, m\<lparr>pm_frames := al\<rparr>))"

definition process_self_test :: "page_tables \<Rightarrow> process_table \<Rightarrow> page_machine \<Rightarrow>
    bool \<times> process_table \<times> page_machine" where
  "process_self_test kernel_tables st0 m0 =
    (let (first, st1, m1) = process_create kernel_tables st0 m0;
         (second, st2, m2) = process_create kernel_tables st1 m1;
         space = (\<lambda>p st. address_space (processes st ! the p));
         user_rw = ASAS_PAGE_USER OR ASAS_PAGE_WRITABLE
     in if first = None \<or> second = None
           \<or> pid (processes st2 ! the first) = pid (processes st2 ! the second)
        then (False, st2, m2)
        else
          let (first_frame, m3) = take_test_frame m2; (second_frame, m4) = take_test_frame m3
          in if first_frame = 0 \<or> second_frame = 0 \<or> first_frame = second_frame
             then (False, st2, m4)
             else
               let (ok1, m5) = map_page (space first st2) USER_TEST_PAGE first_frame user_rw m4
               in if \<not> ok1 then (False, st2, m5)
                  else
               let (ok2, m6) = map_page (space second st2) USER_TEST_PAGE second_frame user_rw m5
               in if \<not> ok2 then (False, st2, m6)
                  else
               let first_mapping = paging_page_flags (space first st2) USER_TEST_PAGE m6;
                   second_mapping = paging_page_flags (space second st2) USER_TEST_PAGE m6
               in if first_mapping AND ASAS_PAGE_USER = 0 \<or> second_mapping AND ASAS_PAGE_USER = 0
                     \<or> first_mapping AND PAGE_ADDRESS_MASK = second_mapping AND PAGE_ADDRESS_MASK
                  then (False, st2, m6)
                  else
               let (cleanup, st3, m7) = process_create kernel_tables st2 m6
               in if cleanup = None then (False, st3, m7)
                  else
               let (cleanup_frame, m8) = take_test_frame m7
               in if cleanup_frame = 0 then (False, st3, m8)
                  else
               let (ok3, m9) = map_page (space cleanup st3) USER_TEST_PAGE cleanup_frame user_rw m8
               in if \<not> ok3 then (False, st3, m9)
                  else
               let allocated_before_kill = frame_allocator_allocated_pages (pm_frames m9);
                   (killed, st4, m10) = process_kill (pid (processes st3 ! the cleanup)) st3 m9
               in if \<not> killed then (False, st4, m10)
                  else (frame_allocator_allocated_pages (pm_frames m10) < allocated_before_kill,
                        st4, m10))"

declare process_create_from.simps [simp del] process_kill_from.simps [simp del]

section \<open>Specification\<close>

text \<open>The invariant of the table: slots fill in order and are never given back, so the slot
  number determines the pid.  \<open>k\<close> is the number of processes ever created.\<close>

definition process_wf :: "process_table \<Rightarrow> nat \<Rightarrow> bool" where
  "process_wf st k \<longleftrightarrow> length (processes st) = 16 \<and> k \<le> 16 \<and> next_pid st = of_nat (k + 1)
     \<and> (\<forall>i < 16. if i < k
          then process_state (processes st ! i) \<noteq> PROCESS_UNUSED
             \<and> pid (processes st ! i) = of_nat (i + 1)
          else process_state (processes st ! i) = PROCESS_UNUSED)"

text \<open>The steps of the system: create, kill, and anything the rest of the kernel does to the
  machine.\<close>

inductive process_step ::
  "page_tables \<Rightarrow> process_table \<times> page_machine \<Rightarrow> process_table \<times> page_machine \<Rightarrow> bool"
  for kernel_tables where
  create: "process_create kernel_tables st m = (r, st', m') \<Longrightarrow>
    process_step kernel_tables (st, m) (st', m')"
| kill: "process_kill p st m = (r, st', m') \<Longrightarrow> process_step kernel_tables (st, m) (st', m')"
| machine: "process_step kernel_tables (st, m) (st, m')"

inductive_cases process_stepE: "process_step kernel_tables (st, m) s"

section \<open>Lemmas\<close>

lemma pid_eq_iff:
  assumes "i < 16" "j < 16"
  shows "(of_nat (i + 1) :: u32) = of_nat (j + 1) \<longleftrightarrow> i = j"
proof -
  have "unat (of_nat (n + 1) :: u32) = n + 1" if "n < 16" for n
    using that by (simp only: unat_of_nat) simp
  then show ?thesis using assms by (metis Suc_eq_plus1 Suc_inject)
qed

lemma process_wf_slot:
  assumes "process_wf st k"
  shows "i < k \<Longrightarrow> process_state (processes st ! i) \<noteq> PROCESS_UNUSED"
    "i < k \<Longrightarrow> pid (processes st ! i) = of_nat (i + 1)"
    "k \<le> i \<Longrightarrow> i < 16 \<Longrightarrow> process_state (processes st ! i) = PROCESS_UNUSED"
  using assms unfolding process_wf_def by (metis le_trans not_less less_le_trans)+

lemma process_wf_bounds [simp]:
  assumes "process_wf st k"
  shows "k \<le> 16" "length (processes st) = 16" "next_pid st = of_nat (k + 1)"
  using assms by (simp_all add: process_wf_def)

text \<open>The scan of \<open>process_create\<close> stops at slot \<open>k\<close>.\<close>

lemma process_create_from_skip:
  assumes "process_wf st k" "index \<le> k"
  shows "process_create_from index kt st m = process_create_from k kt st m"
  using assms(2)
proof (induction "k - index" arbitrary: index)
  case (Suc d)
  then have "index < k" by simp
  then have "process_create_from index kt st m = process_create_from (Suc index) kt st m"
    using process_wf_slot(1) [OF assms(1)] process_wf_bounds(1) [OF assms(1)]
    by (subst process_create_from.simps) (simp add: ASAS_MAX_PROCESSES_def)
  also have "\<dots> = process_create_from k kt st m"
    using Suc.hyps(1) [of "Suc index"] Suc.hyps(2) \<open>index < k\<close> by simp
  finally show ?case .
qed simp

lemma process_create_wf:
  assumes "process_wf st k"
  shows "process_create kt st m =
     (if k < 16 then
        let (ok, space, m1) = paging_create_address_space (address_space (processes st ! k)) kt m
        in if ok then (Some k,
             st\<lparr>processes := (processes st)[k := (processes st ! k)\<lparr>
                  address_space := space, pid := next_pid st, process_state := PROCESS_READY\<rparr>],
                next_pid := next_pid st + 1\<rparr>, m1)
           else (None, st, m1)
      else (None, st, m))"
proof -
  have "process_create kt st m = process_create_from k kt st m"
    using process_create_from_skip [OF assms, of 0] by (simp add: process_create_def)
  then show ?thesis
    using process_wf_slot(3) [OF assms, of k]
    by (subst (asm) process_create_from.simps)
       (auto simp: ASAS_MAX_PROCESSES_def Let_def split: prod.splits)
qed

lemma process_create_preserves:
  assumes "process_wf st k" "process_create kt st m = (r, st', m')"
  shows "\<exists>k'. process_wf st' k' \<and> k \<le> k'"
proof (cases r)
  case None
  then have "st' = st"
    using assms(2) unfolding process_create_wf [OF assms(1)]
    by (auto simp: Let_def split: if_splits prod.splits)
  then show ?thesis using assms(1) by auto
next
  case (Some i)
  then obtain space where "k < 16" and st': "st' = st\<lparr>processes := (processes st)[k :=
      (processes st ! k)\<lparr>address_space := space, pid := next_pid st,
         process_state := PROCESS_READY\<rparr>], next_pid := next_pid st + 1\<rparr>"
    using assms(2) unfolding process_create_wf [OF assms(1)]
    by (auto simp: Let_def split: if_splits prod.splits)
  then have "process_wf st' (Suc k)"
    using assms(1) unfolding process_wf_def by (auto simp: nth_list_update less_Suc_eq)
  then show ?thesis by auto
qed

text \<open>The scan of \<open>process_kill\<close> finds the slot of a pid that was given out, and no other.\<close>

lemma process_kill_from_miss:
  assumes "\<And>i. index \<le> i \<Longrightarrow> i < 16 \<Longrightarrow>
    pid (processes st ! i) \<noteq> p \<or> process_state (processes st ! i) = PROCESS_UNUSED"
  shows "process_kill_from index p st m = (False, st, m)"
  using assms
proof (induction "16 - index" arbitrary: index)
  case 0
  then show ?case by (subst process_kill_from.simps) (simp add: ASAS_MAX_PROCESSES_def)
next
  case (Suc d)
  then show ?case
    using Suc.hyps(1) [of "Suc index"] Suc.prems [of index]
    by (subst process_kill_from.simps) (auto simp: ASAS_MAX_PROCESSES_def)
qed

lemma process_kill_from_hit:
  assumes "process_wf st k" "j < k" "index \<le> j"
  shows "process_kill_from index (of_nat (j + 1)) st m =
     (let (space, m1) = paging_destroy_address_space (address_space (processes st ! j)) m
      in (True, st\<lparr>processes := (processes st)[j := (processes st ! j)\<lparr>
             address_space := space, process_state := PROCESS_EXITED,
             user_entry := 0, user_stack := 0\<rparr>]\<rparr>, m1))"
  using assms(3)
proof (induction "j - index" arbitrary: index)
  case 0
  then have "index = j" by simp
  then show ?case
    using process_wf_slot(1,2) [OF assms(1,2)] process_wf_bounds(1) [OF assms(1)] assms(2)
    by (subst process_kill_from.simps) (simp add: ASAS_MAX_PROCESSES_def)
next
  case (Suc d)
  then have i: "index < k" "index < 16" "j < 16" "index \<noteq> j"
    using assms process_wf_bounds(1) [OF assms(1)] by linarith+
  have "pid (processes st ! index) \<noteq> of_nat (j + 1)"
    using i pid_eq_iff [of index j] process_wf_slot(2) [OF assms(1) i(1)] by simp
  then have "process_kill_from index (of_nat (j + 1)) st m =
      process_kill_from (Suc index) (of_nat (j + 1)) st m"
    using i by (subst process_kill_from.simps) (simp add: ASAS_MAX_PROCESSES_def)
  then show ?case using Suc.hyps(1) [of "Suc index"] Suc.hyps(2) i by simp
qed

lemma process_kill_miss:
  assumes "process_wf st k" "\<not> (\<exists>j < k. p = of_nat (j + 1))"
  shows "process_kill p st m = (False, st, m)"
proof -
  have "pid (processes st ! i) \<noteq> p \<or> process_state (processes st ! i) = PROCESS_UNUSED"
    if "i < 16" for i
  proof (cases "i < k")
    case True
    then show ?thesis using assms(2) process_wf_slot(2) [OF assms(1) True] by auto
  qed (use process_wf_slot(3) [OF assms(1)] that in auto)
  then show ?thesis
    using process_kill_from_miss [of 0 st p] by (simp add: process_kill_def)
qed

lemmas process_kill_hit = process_kill_from_hit [where index = 0, simplified, folded process_kill_def]

lemma process_kill_preserves:
  assumes "process_wf st k" "process_kill p st m = (r, st', m')"
  shows "process_wf st' k"
proof (cases "\<exists>j < k. p = of_nat (j + 1)")
  case True
  then obtain j where j: "j < k" "p = of_nat (j + 1)" by blast
  obtain space where "st' = st\<lparr>processes := (processes st)[j := (processes st ! j)\<lparr>
       address_space := space, process_state := PROCESS_EXITED, user_entry := 0, user_stack := 0\<rparr>]\<rparr>"
    using assms process_kill_hit [OF assms(1) j(1), of m] j(2) by (auto split: prod.splits)
  then show ?thesis
    using assms(1) j(1) unfolding process_wf_def by (auto simp: nth_list_update)
next
  case False
  then show ?thesis using process_kill_miss [OF assms(1) False] assms by simp
qed

lemma process_step_wf:
  assumes "process_step kt (st, m) (st', m')" "process_wf st k"
  shows "\<exists>k' \<ge> k. process_wf st' k'"
  using assms(1)
  by (rule process_stepE)
     (use assms(2) process_create_preserves [OF assms(2)] process_kill_preserves [OF assms(2)]
      in blast)+

lemma process_steps_wf:
  assumes "(process_step kt)\<^sup>*\<^sup>* (st, m) (st', m')" "process_wf st k"
  shows "\<exists>k' \<ge> k. process_wf st' k'"
  using assms(1)
proof (induction rule: rtranclp_induct2)
  case refl
  then show ?case using assms(2) by auto
next
  case (step st1 m1 st2 m2)
  then show ?case using process_step_wf by (metis le_trans)
qed

lemma process_initialize_wf:
  assumes "length (processes st) = 16"
  shows "process_wf (process_initialize st) 0"
  using assms unfolding process_wf_def by (auto simp: process_initialize_def)

lemma active_count_length:
  assumes "length (processes st) = 16"
  shows "process_active_count st = of_nat (length (filter active (processes st)))"
  unfolding process_active_count_def ASAS_MAX_PROCESSES_def
  using fold_index_count [of active "processes st" 0] by (simp only: assms add_0)

lemma process_create_isolated_space:
  assumes wf: "process_wf st k" and inv: "frame_inv (pm_frames m) owned" and kt: "pml4 kt \<in> owned"
    and cr: "process_create kt st m = (Some i, st', m')"
  shows "i = k" "k < 16" "pid (processes st' ! i) = of_nat (k + 1)" "active (processes st' ! i)"
    "pml4 (address_space (processes st' ! i)) \<notin> owned"
    "unat (table_index 39 va) < 256 \<Longrightarrow> paging_page_flags (address_space (processes st' ! i)) va m' = 0"
proof -
  obtain space where k: "k < 16" "i = k"
    and cs: "paging_create_address_space (address_space (processes st ! k)) kt m = (True, space, m')"
    and st': "st' = st\<lparr>processes := (processes st)[k := (processes st ! k)\<lparr>address_space := space,
        pid := next_pid st, process_state := PROCESS_READY\<rparr>], next_pid := next_pid st + 1\<rparr>"
    using cr unfolding process_create_wf [OF wf] by (auto simp: Let_def split: if_splits prod.splits)
  have slot: "processes st' ! i = (processes st ! k)\<lparr>address_space := space,
        pid := next_pid st, process_state := PROCESS_READY\<rparr>"
    using k st' process_wf_bounds [OF wf] by simp
  show "i = k" "k < 16" "pid (processes st' ! i) = of_nat (k + 1)" "active (processes st' ! i)"
    using k slot process_wf_bounds(3) [OF wf] by (simp_all add: active_def)
  note c = create_address_space_memory [OF inv kt cs]
  show "pml4 (address_space (processes st' ! i)) \<notin> owned" using c(2) slot by simp
  assume u: "unat (table_index 39 va) < 256"
  have "paging_page_flags space va m' = 0"
    by (rule user_half_unmapped [OF u]) (use c(5) in simp)
  then show "paging_page_flags (address_space (processes st' ! i)) va m' = 0"
    using slot by simp
qed

text \<open>A sample table for the witnesses: the static storage before initialisation.\<close>

definition boot_table :: process_table where
  "boot_table = \<lparr>processes = replicate 16 \<lparr>pid = 0, process_state = PROCESS_UNUSED,
       address_space = \<lparr>pml4 = 0, has_frame_allocator = False\<rparr>, user_entry = 0, user_stack = 0\<rparr>,
     next_pid = 0\<rparr>"

lemma boot_table_wf: "process_wf (process_initialize boot_table) 0"
  by (rule process_initialize_wf) (simp add: boot_table_def)

lemma sample_process_create:
  assumes "process_wf st 0"
  shows "\<exists>st' m'. process_create sample_kernel_tables st sample_machine = (Some 0, st', m')"
  using sample_allocate [of 0 1]
  by (simp add: process_create_wf [OF assms] paging_create_address_space_def sample_machine_def
      one_region_allocate)

definition exited_table :: process_table where
  "exited_table = \<lparr>processes = map (\<lambda>i. \<lparr>pid = of_nat (i + 1), process_state = PROCESS_EXITED,
       address_space = \<lparr>pml4 = 0, has_frame_allocator = False\<rparr>, user_entry = 0, user_stack = 0\<rparr>)
       [0 ..< 16], next_pid = of_nat (16 + 1)\<rparr>"

lemma exited_table_wf: "process_wf exited_table 16"
  unfolding process_wf_def by (auto simp: exited_table_def simp del: upt_rec_numeral)

lemma process_kill_slot:
  assumes wf: "process_wf st k" and j: "j < k"
  obtains st' m' where "process_kill (of_nat (j + 1)) st m = (True, st', m')"
    "process_state (processes st' ! j) = PROCESS_EXITED"
    "address_space (processes st' ! j) = fst (paging_destroy_address_space (address_space (processes st ! j)) m)"
    "\<forall>i. i \<noteq> j \<longrightarrow> processes st' ! i = processes st ! i"
    "process_active_count st' = process_active_count st - (if active (processes st ! j) then 1 else 0)"
proof -
  obtain space m' where ds: "paging_destroy_address_space (address_space (processes st ! j)) m = (space, m')"
    by fastforce
  define p' where "p' = (processes st ! j)\<lparr>address_space := space, process_state := PROCESS_EXITED,
        user_entry := 0, user_stack := 0\<rparr>"
  let ?st' = "st\<lparr>processes := (processes st)[j := p']\<rparr>"
  have kill: "process_kill (of_nat (j + 1)) st m = (True, ?st', m')"
    using process_kill_hit [OF wf j, of m] ds by (simp add: p'_def)
  have len: "j < length (processes st)" "length (processes st) = 16"
    using j process_wf_bounds [OF wf] by linarith+
  have "\<not> active p'" by (simp add: active_def p'_def)
  then have "length (filter active (processes st)) =
      length (filter active (processes ?st')) + (if active (processes st ! j) then 1 else 0)"
    using count_filter_update [OF len(1), of active p'] by simp
  then have "(of_nat (length (filter active (processes st))) :: u32) =
      of_nat (length (filter active (processes ?st'))) + (if active (processes st ! j) then 1 else 0)"
    by (simp split: if_splits)
  then have cnt: "process_active_count ?st' = process_active_count st - (if active (processes st ! j) then 1 else 0)"
    using active_count_length [OF len(2)] active_count_length [of ?st'] len(2) by simp
  show thesis
    by (rule that [OF kill _ _ _ cnt]) (use len(1) in \<open>simp_all add: p'_def ds\<close>)
qed

section \<open>Properties\<close>

text \<open>in every history of creations and kills no two slots in use share a pid, and the pid counter
  cannot wrap around.\<close>

theorem process_pids_unique:
  assumes "length (processes st0) = 16"
    and "(process_step kt)\<^sup>*\<^sup>* (process_initialize st0, m0) (st, m)"
    and "i < 16" "j < 16"
    and "process_state (processes st ! i) \<noteq> PROCESS_UNUSED"
    and "process_state (processes st ! j) \<noteq> PROCESS_UNUSED"
    and "pid (processes st ! i) = pid (processes st ! j)"
  shows "i = j"
proof -
  obtain k where wf: "process_wf st k"
    using process_steps_wf [OF assms(2) process_initialize_wf [OF assms(1)]] by blast
  then have "i < k" "j < k" using assms(3-6) process_wf_slot(3) by (metis not_less)+
  then show ?thesis using wf assms pid_eq_iff process_wf_slot(2) by metis
qed

theorem process_pids_unique_witness:
  "\<exists>st m. process_create sample_kernel_tables (process_initialize boot_table) sample_machine
      = (Some 0, st, m) \<and>
     (\<forall>j < 16. process_state (processes st ! j) \<noteq> PROCESS_UNUSED
        \<and> pid (processes st ! 0) = pid (processes st ! j) \<longrightarrow> 0 = j)"
proof -
  obtain st m where cr: "process_create sample_kernel_tables (process_initialize boot_table)
      sample_machine = (Some 0, st, m)"
    using sample_process_create [OF boot_table_wf] by blast
  have "active (processes st ! 0)"
    using process_create_isolated_space(4) [OF boot_table_wf sample_inv _ cr]
    by (simp add: sample_kernel_tables_def)
  moreover have "length (processes boot_table) = 16" by (simp add: boot_table_def)
  moreover have "(process_step sample_kernel_tables)\<^sup>*\<^sup>*
      (process_initialize boot_table, sample_machine) (st, m)"
    using process_step.create [OF cr] by (rule r_into_rtranclp)
  ultimately show ?thesis
    using process_pids_unique [where i = 0] cr by (auto simp: active_def)
qed



text \<open>\<open>process_kill\<close> of a pid that was given out succeeds, leaves the slot exited with its address
  space detached, touches no other slot, and lowers \<open>process_active_count\<close> by one exactly when the
  process was still active; killing any other pid fails and changes nothing.\<close>

theorem process_kill_exits:
  assumes "process_wf st k"
  shows "(\<forall>j < k. \<exists>st' m'. process_kill (of_nat (j + 1)) st m = (True, st', m')
      \<and> process_state (processes st' ! j) = PROCESS_EXITED
      \<and> (has_frame_allocator (address_space (processes st ! j)) \<longrightarrow>
           pml4 (address_space (processes st' ! j)) = 0)
      \<and> (\<forall>i. i \<noteq> j \<longrightarrow> processes st' ! i = processes st ! i)
      \<and> process_active_count st'
          = process_active_count st - (if active (processes st ! j) then 1 else 0))
    \<and> (\<forall>p. (\<forall>j < k. p \<noteq> of_nat (j + 1)) \<longrightarrow> process_kill p st m = (False, st, m))"
proof (intro conjI allI impI)
  fix j
  assume "j < k"
  then obtain st' m' where kill: "process_kill (of_nat (j + 1)) st m = (True, st', m')"
    "process_state (processes st' ! j) = PROCESS_EXITED"
    "address_space (processes st' ! j) = fst (paging_destroy_address_space (address_space (processes st ! j)) m)"
    "\<forall>i. i \<noteq> j \<longrightarrow> processes st' ! i = processes st ! i"
    "process_active_count st' = process_active_count st - (if active (processes st ! j) then 1 else 0)"
    by (rule process_kill_slot [OF assms])
  have "has_frame_allocator (address_space (processes st ! j)) \<longrightarrow>
      pml4 (address_space (processes st' ! j)) = 0"
    unfolding kill(3) by (simp add: paging_destroy_address_space_def Let_def)
  then show "\<exists>st' m'. process_kill (of_nat (j + 1)) st m = (True, st', m')
      \<and> process_state (processes st' ! j) = PROCESS_EXITED
      \<and> (has_frame_allocator (address_space (processes st ! j)) \<longrightarrow>
           pml4 (address_space (processes st' ! j)) = 0)
      \<and> (\<forall>i. i \<noteq> j \<longrightarrow> processes st' ! i = processes st ! i)
      \<and> process_active_count st'
          = process_active_count st - (if active (processes st ! j) then 1 else 0)"
    using kill by blast
next
  fix p :: u32
  assume "\<forall>j < k. p \<noteq> of_nat (j + 1)"
  then show "process_kill p st m = (False, st, m)" by (intro process_kill_miss [OF assms]) blast
qed

theorem process_kill_exits_witness:
  "\<exists>st' m'. process_kill (of_nat (4 + 1)) exited_table sample_machine = (True, st', m')
     \<and> process_state (processes st' ! 4) = PROCESS_EXITED
     \<and> process_kill 99 exited_table sample_machine = (False, exited_table, sample_machine)"
proof -
  have "\<forall>j < 16. (99 :: u32) \<noteq> of_nat (j + 1)"
  proof (intro allI impI notI)
    fix j :: nat
    assume j: "j < 16" and "(99 :: u32) = of_nat (j + 1)"
    then have "unat (99 :: u32) = unat (of_nat (j + 1) :: u32)" by simp
    moreover have "unat (of_nat (j + 1) :: u32) = j + 1" using j by (simp only: unat_of_nat) simp
    ultimately show False using j by simp
  qed
  moreover have "(4 :: nat) < 16" by simp
  ultimately show ?thesis
    using process_kill_exits [OF exited_table_wf, of sample_machine] by blast
qed

text \<open>the table never gives a slot back.  Once sixteen processes have been created,
  \<open>process_create\<close> fails in every later state, even after all sixteen have been killed.\<close>

theorem process_slots_never_reused:
  assumes "process_wf st 16" and "(process_step kt)\<^sup>*\<^sup>* (st, m) (st', m')"
  shows "process_create kt st' m' = (None, st', m')"
proof -
  obtain k where "k \<ge> 16" "process_wf st' k" using process_steps_wf [OF assms(2,1)] by blast
  then show ?thesis
    using process_create_wf [of st' k] process_wf_bounds(1) [of st' k] by simp
qed

theorem process_slots_never_reused_witness:
  "process_active_count exited_table = 0 \<and>
   process_create sample_kernel_tables exited_table sample_machine = (None, exited_table, sample_machine)"
proof -
  have "filter active (processes exited_table) = []"
    by (simp add: exited_table_def active_def filter_empty_conv del: upt_rec_numeral)
  then have "process_active_count exited_table = 0"
    using active_count_length [of exited_table] process_wf_bounds(2) [OF exited_table_wf] by simp
  then show ?thesis
    using process_slots_never_reused [OF exited_table_wf rtranclp.rtrancl_refl] by blast
qed

end
