(* ===== verification/Kernel_Ipc.thy ===== *)
theory Kernel_Ipc
  imports Asas_Prelude
begin

text \<open>
  \<^verbatim>\<open>src/kernel/ipc.c\<close>: one ring of 32 message slots shared by all processes.  A receiver takes the
  first message addressed to it, so the ring has holes; the sender skips used slots and the head
  skips unused ones.  These two loops and the spin lock have no bound of their own, so they are
  partial functions whose result \<open>None\<close> is not returning; the lemmas show that they return.
  The slot numbers are naturals: the code reduces them modulo 32 after every increment, so they
  stay far from the end of their 32-bit type.
\<close>

section \<open>Data\<close>

definition IPC_QUEUE_CAPACITY :: nat where "IPC_QUEUE_CAPACITY = 32"
definition ASAS_IPC_MESSAGE_SIZE :: u32 where "ASAS_IPC_MESSAGE_SIZE = 64"

record ASAS_IPC_MESSAGE =
  sender_pid :: u32
  receiver_pid :: u32
  msg_length :: u32
  msg_data :: bytes

record ipc_state =
  queue :: "ASAS_IPC_MESSAGE list"
  queue_used :: "bool list"
  queue_head :: nat
  queue_tail :: nat
  queue_count :: u32
  ipc_lock_value :: u32

section \<open>Operations\<close>

text \<open>\<open>_InterlockedExchange\<close> on the lock word: store the value, return the old one.\<close>

definition interlocked_exchange :: "u32 \<Rightarrow> ipc_state \<Rightarrow> u32 \<times> ipc_state" where
  "interlocked_exchange v s = (ipc_lock_value s, s\<lparr>ipc_lock_value := v\<rparr>)"

partial_function (option) ipc_lock :: "ipc_state \<Rightarrow> ipc_state option" where
  "ipc_lock s = (case interlocked_exchange 1 s of (old, s1) \<Rightarrow>
     if old \<noteq> 0 then ipc_lock s1 else Some s1)"

definition ipc_unlock :: "ipc_state \<Rightarrow> ipc_state" where
  "ipc_unlock s = snd (interlocked_exchange 0 s)"

definition ipc_initialize :: "ipc_state \<Rightarrow> ipc_state" where
  "ipc_initialize s = s\<lparr>queue_head := 0, queue_tail := 0, queue_count := 0,
     queue_used := map (\<lambda>_. False) (queue_used s)\<rparr>"

text \<open>\<open>while (queue_used[queue_tail])\<close>\<close>

partial_function (option) tail_skip_used :: "ipc_state \<Rightarrow> ipc_state option" where
  "tail_skip_used s =
     (if queue_used s ! queue_tail s
      then tail_skip_used (s\<lparr>queue_tail := (queue_tail s + 1) mod IPC_QUEUE_CAPACITY\<rparr>)
      else Some s)"

text \<open>\<open>for (index = 0; index < length; index++) message->data[index] = bytes[index]\<close>\<close>

definition copy_payload :: "nat \<Rightarrow> bytes \<Rightarrow> bytes \<Rightarrow> bytes" where
  "copy_payload len source destination = fold (\<lambda>i d. d[i := source ! i]) [0 ..< len] destination"

definition ipc_send :: "u32 \<Rightarrow> u32 \<Rightarrow> bytes \<Rightarrow> u32 \<Rightarrow> ipc_state \<Rightarrow> (bool \<times> ipc_state) option" where
  "ipc_send sender receiver payload len s =
     (if len > ASAS_IPC_MESSAGE_SIZE then Some (False, s)
      else case ipc_lock s of
        None \<Rightarrow> None
      | Some s1 \<Rightarrow>
          if queue_count s1 \<ge> of_nat IPC_QUEUE_CAPACITY then Some (False, ipc_unlock s1)
          else case tail_skip_used s1 of
            None \<Rightarrow> None
          | Some s2 \<Rightarrow>
              if length payload < unat len then None
              else
                let slot = queue_tail s2;
                    message = (queue s2 ! slot)\<lparr>sender_pid := sender, receiver_pid := receiver,
                      msg_length := len,
                      msg_data := copy_payload (unat len) payload (msg_data (queue s2 ! slot))\<rparr>
                in Some (True, ipc_unlock (s2\<lparr>
                     queue_used := (queue_used s2)[slot := True],
                     queue_tail := (slot + 1) mod IPC_QUEUE_CAPACITY,
                     queue_count := queue_count s2 + 1,
                     queue := (queue s2)[slot := message]\<rparr>)))"

text \<open>\<open>while (!queue_used[queue_head])\<close>\<close>

partial_function (option) head_skip_unused :: "ipc_state \<Rightarrow> ipc_state option" where
  "head_skip_unused s =
     (if \<not> queue_used s ! queue_head s
      then head_skip_unused (s\<lparr>queue_head := (queue_head s + 1) mod IPC_QUEUE_CAPACITY\<rparr>)
      else Some s)"

text \<open>The body of the loop of \<open>ipc_receive\<close> for the slot that matches.\<close>

definition ipc_take :: "nat \<Rightarrow> ipc_state \<Rightarrow> ipc_state option" where
  "ipc_take slot s =
     (let s1 = s\<lparr>queue_used := (queue_used s)[slot := False], queue_count := queue_count s - 1\<rparr>
      in if queue_count s1 = 0 then Some (s1\<lparr>queue_head := 0, queue_tail := 0\<rparr>)
         else head_skip_unused s1)"

function ipc_receive_from ::
  "nat \<Rightarrow> u32 \<Rightarrow> ASAS_IPC_MESSAGE \<Rightarrow> ipc_state \<Rightarrow> (bool \<times> ASAS_IPC_MESSAGE \<times> ipc_state) option" where
  "ipc_receive_from index receiver message s =
     (if index < IPC_QUEUE_CAPACITY then
        let slot = (queue_head s + index) mod IPC_QUEUE_CAPACITY in
        if \<not> queue_used s ! slot \<or> receiver_pid (queue s ! slot) \<noteq> receiver
        then ipc_receive_from (Suc index) receiver message s
        else case ipc_take slot s of
          None \<Rightarrow> None
        | Some s1 \<Rightarrow> Some (True, queue s ! slot, ipc_unlock s1)
      else Some (False, message, ipc_unlock s))"
  by pat_completeness auto
termination by (relation "measure (\<lambda>(index, _). IPC_QUEUE_CAPACITY - index)") auto

definition ipc_receive ::
  "u32 \<Rightarrow> ASAS_IPC_MESSAGE \<Rightarrow> ipc_state \<Rightarrow> (bool \<times> ASAS_IPC_MESSAGE \<times> ipc_state) option" where
  "ipc_receive receiver message s =
     (case ipc_lock s of None \<Rightarrow> None | Some s1 \<Rightarrow> ipc_receive_from 0 receiver message s1)"

definition ipc_self_test :: "ASAS_IPC_MESSAGE \<Rightarrow> ipc_state \<Rightarrow> (bool \<times> ipc_state) option" where
  "ipc_self_test message s =
     (let payload = [65, 83, 65, 83] in
      case ipc_send 1 2 payload 4 (ipc_initialize s) of
        None \<Rightarrow> None
      | Some (sent, s1) \<Rightarrow>
          if \<not> sent then Some (False, s1)
          else case ipc_receive 2 message s1 of
            None \<Rightarrow> None
          | Some (received, m, s2) \<Rightarrow>
              if \<not> received then Some (False, s2)
              else Some (sender_pid m = 1 \<and> receiver_pid m = 2 \<and> msg_length m = 4
                     \<and> msg_data m ! 0 = 65 \<and> msg_data m ! 3 = 83, s2))"

declare ipc_receive_from.simps [simp del]
  ipc_lock.simps [code] tail_skip_used.simps [code] head_skip_unused.simps [code]

section \<open>Specification\<close>

text \<open>What the ring holds: the messages of the used slots, each as sender, receiver and payload.\<close>

type_synonym ipc_letter = "u32 \<times> u32 \<times> bytes"

definition letter :: "ASAS_IPC_MESSAGE \<Rightarrow> ipc_letter" where
  "letter m = (sender_pid m, receiver_pid m, take (unat (msg_length m)) (msg_data m))"

definition used_set :: "ipc_state \<Rightarrow> nat set" where
  "used_set s = {i. i < 32 \<and> queue_used s ! i}"

definition pending :: "ipc_state \<Rightarrow> ipc_letter multiset" where
  "pending s = image_mset (\<lambda>i. letter (queue s ! i)) (mset_set (used_set s))"

definition ipc_inv :: "ipc_state \<Rightarrow> bool" where
  "ipc_inv s \<longleftrightarrow> length (queue s) = 32 \<and> length (queue_used s) = 32
     \<and> queue_head s < 32 \<and> queue_tail s < 32
     \<and> queue_count s = of_nat (card (used_set s))
     \<and> (\<forall>i < 32. length (msg_data (queue s ! i)) = 64) \<and> ipc_lock_value s = 0"

section \<open>Lemmas\<close>

subsection \<open>Loops around the ring\<close>

lemma ring_find:
  assumes "t < n" "j < n" "P j"
  obtains d :: nat where "P ((t + d) mod n)" "\<forall>e < d. \<not> P ((t + e) mod n)"
proof -
  have "(t + (n + j - t)) mod n = j" using assms by simp
  then have "P ((t + (n + j - t)) mod n)" using assms by simp
  then obtain d where "P ((t + d) mod n)" "\<forall>e < d. \<not> P ((t + e) mod n)"
    using exists_least_iff [of "\<lambda>d. P ((t + d) mod n)"] by blast
  then show thesis by (rule that)
qed

lemma ipc_lock_free: "ipc_lock_value s = 0 \<Longrightarrow> ipc_lock s = Some (s\<lparr>ipc_lock_value := 1\<rparr>)"
  by (subst ipc_lock.simps) (simp add: interlocked_exchange_def)

lemma tail_skip_used_steps:
  assumes "\<forall>e < d. queue_used s ! ((queue_tail s + e) mod 32)"
    and "\<not> queue_used s ! ((queue_tail s + d) mod 32)" and "queue_tail s < 32"
  shows "tail_skip_used s = Some (s\<lparr>queue_tail := (queue_tail s + d) mod 32\<rparr>)"
  using assms
proof (induction d arbitrary: s)
  case 0
  then show ?case by (subst tail_skip_used.simps) simp
next
  case (Suc d)
  let ?s = "s\<lparr>queue_tail := (queue_tail s + 1) mod 32\<rparr>"
  have "tail_skip_used ?s = Some (?s\<lparr>queue_tail := (queue_tail ?s + d) mod 32\<rparr>)"
  proof (rule Suc.IH)
    show "\<forall>e < d. queue_used ?s ! ((queue_tail ?s + e) mod 32)"
    proof (intro allI impI)
      fix e assume "e < d"
      then have "queue_used s ! ((queue_tail s + Suc e) mod 32)" using Suc.prems(1) by blast
      then show "queue_used ?s ! ((queue_tail ?s + e) mod 32)" by (simp add: mod_simps)
    qed
    show "\<not> queue_used ?s ! ((queue_tail ?s + d) mod 32)"
      using Suc.prems(2) by (simp add: mod_simps)
  qed simp
  moreover have "queue_used s ! queue_tail s" using Suc.prems(1,3) by (auto dest: spec [of _ 0])
  ultimately show ?case
    by (subst tail_skip_used.simps) (simp add: IPC_QUEUE_CAPACITY_def mod_simps)
qed

lemma head_skip_unused_steps:
  assumes "\<forall>e < d. \<not> queue_used s ! ((queue_head s + e) mod 32)"
    and "queue_used s ! ((queue_head s + d) mod 32)" and "queue_head s < 32"
  shows "head_skip_unused s = Some (s\<lparr>queue_head := (queue_head s + d) mod 32\<rparr>)"
  using assms
proof (induction d arbitrary: s)
  case 0
  then show ?case by (subst head_skip_unused.simps) simp
next
  case (Suc d)
  let ?s = "s\<lparr>queue_head := (queue_head s + 1) mod 32\<rparr>"
  have "head_skip_unused ?s = Some (?s\<lparr>queue_head := (queue_head ?s + d) mod 32\<rparr>)"
  proof (rule Suc.IH)
    show "\<forall>e < d. \<not> queue_used ?s ! ((queue_head ?s + e) mod 32)"
    proof (intro allI impI)
      fix e assume "e < d"
      then have "\<not> queue_used s ! ((queue_head s + Suc e) mod 32)" using Suc.prems(1) by blast
      then show "\<not> queue_used ?s ! ((queue_head ?s + e) mod 32)" by (simp add: mod_simps)
    qed
    show "queue_used ?s ! ((queue_head ?s + d) mod 32)"
      using Suc.prems(2) by (simp add: mod_simps)
  qed simp
  moreover have "\<not> queue_used s ! queue_head s" using Suc.prems(1,3) by (auto dest: spec [of _ 0])
  ultimately show ?case
    by (subst head_skip_unused.simps) (simp add: IPC_QUEUE_CAPACITY_def mod_simps)
qed

text \<open>Both loops return whenever there is a slot to stop at.\<close>

lemma tail_skip_used_returns:
  assumes "queue_tail s < 32" "j < 32" "\<not> queue_used s ! j"
  obtains t where "tail_skip_used s = Some (s\<lparr>queue_tail := t\<rparr>)" "t < 32" "\<not> queue_used s ! t"
proof -
  obtain d where d: "\<not> queue_used s ! ((queue_tail s + d) mod 32)"
    "\<forall>e < d. \<not> \<not> queue_used s ! ((queue_tail s + e) mod 32)"
    using ring_find [of "queue_tail s" 32 j "\<lambda>i. \<not> queue_used s ! i"] assms by blast
  show thesis
    using tail_skip_used_steps [of d s] d assms(1) by (intro that [of "(queue_tail s + d) mod 32"]) auto
qed

lemma head_skip_unused_returns:
  assumes "queue_head s < 32" "j < 32" "queue_used s ! j"
  obtains h where "head_skip_unused s = Some (s\<lparr>queue_head := h\<rparr>)" "h < 32"
proof -
  obtain d where d: "queue_used s ! ((queue_head s + d) mod 32)"
    "\<forall>e < d. \<not> queue_used s ! ((queue_head s + e) mod 32)"
    using ring_find [of "queue_head s" 32 j "\<lambda>i. queue_used s ! i"] assms by blast
  show thesis
    using head_skip_unused_steps [of d s] d assms(1) by (intro that [of "(queue_head s + d) mod 32"]) auto
qed

lemma copy_payload_eq:
  assumes "len \<le> length source" "len \<le> length destination"
  shows "copy_payload len source destination = take len source @ drop len destination"
  using assms
proof (induction len)
  case (Suc n)
  then have "copy_payload (Suc n) source destination
      = (take n source @ drop n destination)[n := source ! n]"
    by (simp add: copy_payload_def)
  also have "\<dots> = take n source @ (drop n destination)[0 := source ! n]"
    using Suc.prems by (simp add: list_update_append)
  also have "(drop n destination)[0 := source ! n] = source ! n # drop (Suc n) destination"
    using Suc.prems by (simp add: Cons_nth_drop_Suc [symmetric])
  also have "take n source @ \<dots> = take (Suc n) source @ drop (Suc n) destination"
    using Suc.prems by (simp add: take_Suc_conv_app_nth)
  finally show ?case .
qed (simp add: copy_payload_def)

subsection \<open>Contents of the ring\<close>

lemma used_set_finite [simp]: "finite (used_set s)"
  by (simp add: used_set_def)

lemma used_set_bound: "card (used_set s) \<le> 32"
proof -
  have "card (used_set s) \<le> card {..< 32 :: nat}"
    by (rule card_mono) (auto simp: used_set_def)
  then show ?thesis by simp
qed

lemma used_set_full:
  assumes "card (used_set s) < 32"
  obtains j where "j < 32" "\<not> queue_used s ! j"
proof (rule ccontr)
  assume "\<not> thesis"
  then have "{..< 32} \<subseteq> used_set s" using that by (auto simp: used_set_def)
  then have "card {..< 32 :: nat} \<le> card (used_set s)" by (intro card_mono) auto
  then show False using assms by simp
qed

lemma ipc_invD:
  assumes "ipc_inv s"
  shows "length (queue s) = 32" "length (queue_used s) = 32" "queue_head s < 32" "queue_tail s < 32"
    "queue_count s = of_nat (card (used_set s))" "ipc_lock_value s = 0"
    "i < 32 \<Longrightarrow> length (msg_data (queue s ! i)) = 64"
  using assms unfolding ipc_inv_def by blast+

lemma ipc_count:
  assumes "ipc_inv s"
  shows "unat (queue_count s) = card (used_set s)"
  using ipc_invD(5) [OF assms] used_set_bound [of s] by (simp add: unat_of_nat)

lemma size_pending: "size (pending s) = card (used_set s)"
  by (simp add: pending_def)

text \<open>What the mailbox sees does not depend on the indices and the lock.\<close>

lemma used_set_update [simp]:
  "used_set (s\<lparr>queue_head := h\<rparr>) = used_set s" "used_set (s\<lparr>queue_tail := t\<rparr>) = used_set s"
  "used_set (s\<lparr>queue_count := c\<rparr>) = used_set s" "used_set (s\<lparr>ipc_lock_value := v\<rparr>) = used_set s"
  "used_set (s\<lparr>queue := q\<rparr>) = used_set s"
  by (simp_all add: used_set_def)

lemma used_set_add:
  assumes "length (queue_used s) = 32" "t < 32"
  shows "used_set (s\<lparr>queue_used := (queue_used s)[t := True]\<rparr>) = insert t (used_set s)"
    "used_set (s\<lparr>queue_used := (queue_used s)[t := False]\<rparr>) = used_set s - {t}"
  using assms by (auto simp: used_set_def nth_list_update)

lemma pending_cong:
  assumes "used_set s = used_set s'" "queue s = queue s'"
  shows "pending s = pending s'"
  using assms by (simp add: pending_def)

lemma pending_add:
  assumes "length (queue s) = 32" "length (queue_used s) = 32" "t < 32" "\<not> queue_used s ! t"
  shows "pending (s\<lparr>queue_used := (queue_used s)[t := True], queue := (queue s)[t := m]\<rparr>)
       = add_mset (letter m) (pending s)"
proof -
  let ?s = "s\<lparr>queue_used := (queue_used s)[t := True], queue := (queue s)[t := m]\<rparr>"
  have t: "t \<notin> used_set s" using assms by (simp add: used_set_def)
  have "used_set ?s = insert t (used_set s)"
    using assms by (simp add: used_set_add)
  moreover have "image_mset (\<lambda>i. letter ((queue s)[t := m] ! i)) (mset_set (used_set s))
      = image_mset (\<lambda>i. letter (queue s ! i)) (mset_set (used_set s))"
    by (rule image_mset_cong) (use t in \<open>auto intro!: arg_cong [where f = letter] nth_list_update_neq\<close>)
  ultimately show ?thesis using t assms by (simp add: pending_def)
qed

lemma pending_remove:
  assumes "length (queue_used s) = 32" "t \<in> used_set s"
  shows "add_mset (letter (queue s ! t)) (pending (s\<lparr>queue_used := (queue_used s)[t := False]\<rparr>))
       = pending s"
proof -
  have "t < 32" using assms by (simp add: used_set_def)
  then have "pending (s\<lparr>queue_used := (queue_used s)[t := False]\<rparr>)
      = image_mset (\<lambda>i. letter (queue s ! i)) (mset_set (used_set s - {t}))"
    using assms by (simp add: pending_def used_set_add)
  then show ?thesis
    using assms(2) by (simp add: pending_def mset_set.remove [of _ t])
qed

subsection \<open>Send\<close>

lemma ipc_send_cases:
  assumes inv: "ipc_inv s" and len: "unat len \<le> length payload"
  shows "ipc_send sender receiver payload len s = Some (False, s)
      \<and> (64 < len \<or> size (pending s) = 32)
    \<or> (\<exists>s'. ipc_send sender receiver payload len s = Some (True, s') \<and> ipc_inv s'
      \<and> len \<le> 64 \<and> size (pending s) < 32
      \<and> pending s' = add_mset (sender, receiver, take (unat len) payload) (pending s))"
proof -
  let ?l = "s\<lparr>ipc_lock_value := 1\<rparr>"
  have lk: "ipc_lock s = Some ?l" using ipc_invD(6) [OF inv] by (rule ipc_lock_free)
  have unl: "ipc_unlock ?l = s"
    using ipc_invD(6) [OF inv] by (simp add: ipc_unlock_def interlocked_exchange_def)
  have cnt: "unat (queue_count s) = card (used_set s)" using ipc_count [OF inv] .
  show ?thesis
  proof (cases "64 < len")
    case True
    then show ?thesis by (simp add: ipc_send_def ASAS_IPC_MESSAGE_SIZE_def)
  next
    case small: False
    show ?thesis
    proof (cases "card (used_set s) < 32")
      case False
      then have "queue_count s \<ge> 32" "card (used_set s) = 32"
        using cnt used_set_bound [of s] by (simp_all add: word_le_nat_alt)
      then show ?thesis
        using small lk unl
        by (simp add: ipc_send_def ASAS_IPC_MESSAGE_SIZE_def IPC_QUEUE_CAPACITY_def size_pending)
    next
      case room: True
      then obtain j where "j < 32" "\<not> queue_used ?l ! j" using used_set_full by auto
      then obtain t where t: "tail_skip_used ?l = Some (?l\<lparr>queue_tail := t\<rparr>)" "t < 32"
        "\<not> queue_used ?l ! t"
        using ipc_invD(4) [OF inv] tail_skip_used_returns [of ?l j] by auto
      define m where "m = (queue s ! t)\<lparr>sender_pid := sender, receiver_pid := receiver,
        msg_length := len, msg_data := copy_payload (unat len) payload (msg_data (queue s ! t))\<rparr>"
      define s' where "s' = s\<lparr>queue_used := (queue_used s)[t := True],
        queue_tail := (t + 1) mod 32, queue_count := queue_count s + 1,
        queue := (queue s)[t := m]\<rparr>"
      have le: "unat len \<le> 64" using small by (simp add: word_less_nat_alt)
      have d64: "length (msg_data (queue s ! t)) = 64" by (rule ipc_invD(7) [OF inv t(2)])
      have cp: "copy_payload (unat len) payload (msg_data (queue s ! t))
          = take (unat len) payload @ drop (unat len) (msg_data (queue s ! t))"
        using le len d64 by (simp add: copy_payload_eq)
      have "\<not> queue_count s \<ge> 32" using room cnt by (simp add: word_le_nat_alt)
      then have send: "ipc_send sender receiver payload len s = Some (True, s')"
        using small lk t len ipc_invD(6) [OF inv]
        by (simp add: ipc_send_def ASAS_IPC_MESSAGE_SIZE_def IPC_QUEUE_CAPACITY_def Let_def
            ipc_unlock_def interlocked_exchange_def s'_def m_def)
      have used: "used_set s' = insert t (used_set s)" "t \<notin> used_set s"
        using ipc_invD(2) [OF inv] t by (simp_all add: s'_def used_set_add) (simp add: used_set_def)
      then have "card (used_set s') = Suc (card (used_set s))" by simp
      moreover have "length (msg_data m) = 64" using le len d64 by (simp add: m_def cp)
      ultimately have inv': "ipc_inv s'"
        using ipc_invD [OF inv] t unfolding ipc_inv_def by (auto simp: s'_def nth_list_update)
      have "pending s' = add_mset (letter m) (pending s)"
        using pending_add [of s t m] ipc_invD(1,2) [OF inv] t
        by (subst pending_cong [of s' "s\<lparr>queue_used := (queue_used s)[t := True], queue := (queue s)[t := m]\<rparr>"])
           (simp_all add: s'_def used_set_def)
      moreover have "letter m = (sender, receiver, take (unat len) payload)"
        using len by (simp add: letter_def m_def cp)
      ultimately show ?thesis using send inv' small room by (simp add: size_pending not_less)
    qed
  qed
qed

subsection \<open>Receive\<close>

definition matches :: "u32 \<Rightarrow> ipc_state \<Rightarrow> nat \<Rightarrow> bool" where
  "matches r s i \<longleftrightarrow> queue_used s ! i \<and> receiver_pid (queue s ! i) = r"

lemma ipc_receive_from_step:
  "ipc_receive_from index r m s =
     (if index < 32 then
        if matches r s ((queue_head s + index) mod 32)
        then (case ipc_take ((queue_head s + index) mod 32) s of None \<Rightarrow> None
          | Some s1 \<Rightarrow> Some (True, queue s ! ((queue_head s + index) mod 32), ipc_unlock s1))
        else ipc_receive_from (Suc index) r m s
      else Some (False, m, ipc_unlock s))"
  by (subst ipc_receive_from.simps) (auto simp: matches_def IPC_QUEUE_CAPACITY_def Let_def)

lemma ipc_receive_from_miss:
  assumes "\<forall>i < 32. \<not> matches r s i"
  shows "ipc_receive_from index r m s = Some (False, m, ipc_unlock s)"
proof (induction "32 - index" arbitrary: index)
  case 0
  then show ?case by (subst ipc_receive_from_step) simp
next
  case (Suc d)
  have "\<not> matches r s ((queue_head s + index) mod 32)" using assms by simp
  then show ?case using Suc.hyps(1) [of "Suc index"] Suc.hyps(2) by (subst ipc_receive_from_step) simp
qed

lemma ipc_receive_from_hit:
  assumes "matches r s ((queue_head s + d) mod 32)" "d < 32" "index \<le> d"
    "\<forall>e < d. \<not> matches r s ((queue_head s + e) mod 32)"
  shows "ipc_receive_from index r m s =
    (case ipc_take ((queue_head s + d) mod 32) s of None \<Rightarrow> None
     | Some s1 \<Rightarrow> Some (True, queue s ! ((queue_head s + d) mod 32), ipc_unlock s1))"
  using assms(3)
proof (induction "d - index" arbitrary: index)
  case 0
  then have "index = d" by simp
  show ?case unfolding \<open>index = d\<close> using assms by (subst ipc_receive_from_step) simp
next
  case (Suc k)
  then have "index < d" by simp
  then show ?case
    using Suc.hyps(1) [of "Suc index"] Suc.hyps(2) assms by (subst ipc_receive_from_step) simp
qed

lemma ring_find_32:
  assumes "t < 32" "j < 32" "P j"
  obtains d :: nat where "d < 32" "P ((t + d) mod 32)" "\<forall>e < d. \<not> P ((t + e) mod 32)"
proof -
  obtain d where d: "P ((t + d) mod 32)" "\<forall>e < d. \<not> P ((t + e) mod 32)"
    using ring_find [of t 32 j P] assms by blast
  have "d < 32"
  proof (rule ccontr)
    assume "\<not> d < 32"
    then have "d - 32 < d" by simp
    then have "\<not> P ((t + (d - 32)) mod 32)" using d(2) by blast
    moreover have "(t + (d - 32)) mod 32 = (t + d) mod 32"
      using \<open>\<not> d < 32\<close> by (metis Nat.add_diff_assoc le_mod_geq le_trans not_less le_add2)
    ultimately show False using d(1) by simp
  qed
  then show thesis using d that by blast
qed

lemma ipc_take_slot:
  assumes inv: "ipc_inv s" and i: "i \<in> used_set s"
  obtains s' where "ipc_take i (s\<lparr>ipc_lock_value := 1\<rparr>) = Some s'" "ipc_inv (ipc_unlock s')"
    "pending s = add_mset (letter (queue s ! i)) (pending (ipc_unlock s'))"
proof -
  let ?t = "s\<lparr>ipc_lock_value := 1, queue_used := (queue_used s)[i := False],
      queue_count := queue_count s - 1\<rparr>"
  note I = ipc_invD [OF inv]
  have i32: "i < 32" using i by (simp add: used_set_def)
  have used: "used_set ?t = used_set s - {i}"
    using I(2) i32 by (auto simp: used_set_def nth_list_update)
  obtain c where c: "card (used_set s) = Suc c" "card (used_set s - {i}) = c"
    using i by (metis card_Suc_Diff1 used_set_finite)
  have cnt: "queue_count s - 1 = of_nat c" using I(5) c by simp
  have head: "\<exists>h t. h < 32 \<and> t < 32 \<and> ipc_take i (s\<lparr>ipc_lock_value := 1\<rparr>)
      = Some (?t\<lparr>queue_head := h, queue_tail := t\<rparr>)"
  proof (cases "queue_count s - 1 = 0")
    case True
    then show ?thesis
      by (intro exI [of _ 0]) (simp add: ipc_take_def)
  next
    case False
    then have "c \<noteq> 0" unfolding cnt by (intro notI) simp
    then obtain j where "j \<in> used_set ?t" using c used by (metis card.empty equals0I)
    then have "j < 32" "queue_used ?t ! j" by (simp_all add: used_set_def)
    then obtain h where "head_skip_unused ?t = Some (?t\<lparr>queue_head := h\<rparr>)" "h < 32"
      using head_skip_unused_returns [of ?t j] I(3) by auto
    then show ?thesis
      using False I(4) by (intro exI [of _ h] exI [of _ "queue_tail s"]) (simp add: ipc_take_def)
  qed
  then obtain h t where ht: "h < 32" "t < 32"
    and take: "ipc_take i (s\<lparr>ipc_lock_value := 1\<rparr>) = Some (?t\<lparr>queue_head := h, queue_tail := t\<rparr>)"
    by blast
  let ?u = "ipc_unlock (?t\<lparr>queue_head := h, queue_tail := t\<rparr>)"
  have u: "used_set ?u = used_set s - {i}" "queue ?u = queue s"
    using I(2) i32 by (auto simp: ipc_unlock_def interlocked_exchange_def used_set_def nth_list_update)
  have "ipc_inv ?u"
    using I ht u(1) c cnt unfolding ipc_inv_def
    by (auto simp: ipc_unlock_def interlocked_exchange_def)
  moreover have "pending ?u = pending (s\<lparr>queue_used := (queue_used s)[i := False]\<rparr>)"
    using u used_set_add(2) [OF I(2) i32] by (intro pending_cong) simp_all
  ultimately show thesis
    using that [OF take] pending_remove [OF I(2) i] by simp
qed

lemma pending_receiver:
  assumes "\<forall>i < 32. \<not> matches r s i" "l \<in># pending s"
  shows "fst (snd l) \<noteq> r"
  using assms by (auto simp: pending_def used_set_def matches_def letter_def)

lemma ipc_receive_cases:
  assumes inv: "ipc_inv s"
  shows "ipc_receive r m0 s = Some (False, m0, s) \<and> (\<forall>l \<in># pending s. fst (snd l) \<noteq> r)
    \<or> (\<exists>m s'. ipc_receive r m0 s = Some (True, m, s') \<and> ipc_inv s' \<and> receiver_pid m = r
        \<and> length (msg_data m) = 64 \<and> pending s = add_mset (letter m) (pending s'))"
proof -
  let ?l = "s\<lparr>ipc_lock_value := 1\<rparr>"
  note I = ipc_invD [OF inv]
  have lk: "ipc_lock s = Some ?l" using I(6) by (rule ipc_lock_free)
  have unl: "ipc_unlock ?l = s" using I(6) by (simp add: ipc_unlock_def interlocked_exchange_def)
  have m: "matches r ?l i = matches r s i" for i by (simp add: matches_def)
  show ?thesis
  proof (cases "\<exists>i < 32. matches r s i")
    case False
    then have "ipc_receive r m0 s = Some (False, m0, s)"
      using ipc_receive_from_miss [of r ?l 0 m0] lk unl m by (simp add: ipc_receive_def)
    then show ?thesis using pending_receiver False by blast
  next
    case True
    then obtain j where "j < 32" "matches r s j" by blast
    then obtain d where d: "d < 32" "matches r s ((queue_head s + d) mod 32)"
      "\<forall>e < d. \<not> matches r s ((queue_head s + e) mod 32)"
      using ring_find_32 [OF I(3), of j "matches r s"] by blast
    let ?i = "(queue_head s + d) mod 32"
    have "?i \<in> used_set s" using d(2) by (simp add: used_set_def matches_def)
    then obtain s' where t: "ipc_take ?i ?l = Some s'" "ipc_inv (ipc_unlock s')"
      "pending s = add_mset (letter (queue s ! ?i)) (pending (ipc_unlock s'))"
      by (rule ipc_take_slot [OF inv])
    have "ipc_receive r m0 s = Some (True, queue s ! ?i, ipc_unlock s')"
      using ipc_receive_from_hit [of r ?l d 0 m0] d lk m t by (simp add: ipc_receive_def)
    moreover have "length (msg_data (queue s ! ?i)) = 64" by (rule I(7)) simp
    ultimately show ?thesis using t d(2) by (auto simp: matches_def)
  qed
qed

subsection \<open>The mailbox interface\<close>

text \<open>A client's session: posts and fetches in any order.  It collects the letters that were accepted
  and the letters that were delivered; \<open>None\<close> when an operation does not return.\<close>

datatype ('l, 'k) mail_op = Post 'l | Fetch 'k

fun run_mail :: "('l \<Rightarrow> 's \<Rightarrow> (bool \<times> 's) option) \<Rightarrow> ('k \<Rightarrow> 's \<Rightarrow> ('l option \<times> 's) option) \<Rightarrow>
    ('l, 'k) mail_op list \<Rightarrow> 's \<Rightarrow> ('l list \<times> 'l list \<times> 's) option" where
  "run_mail post fetch [] s = Some ([], [], s)"
| "run_mail post fetch (Post l # rest) s =
     (case post l s of None \<Rightarrow> None
      | Some (ok, s1) \<Rightarrow>
          map_option (\<lambda>(sent, got, s2). (if ok then l # sent else sent, got, s2))
            (run_mail post fetch rest s1))"
| "run_mail post fetch (Fetch k # rest) s =
     (case fetch k s of None \<Rightarrow> None
      | Some (r, s1) \<Rightarrow>
          map_option (\<lambda>(sent, got, s2). (sent, case r of None \<Rightarrow> got | Some l \<Rightarrow> l # got, s2))
            (run_mail post fetch rest s1))"

locale mailbox =
  fixes post :: "'l \<Rightarrow> 's \<Rightarrow> (bool \<times> 's) option"
    and fetch :: "'k \<Rightarrow> 's \<Rightarrow> ('l option \<times> 's) option"
    and fits :: "'l \<Rightarrow> bool" and addressee :: "'l \<Rightarrow> 'k" and capacity :: nat
    and inv :: "'s \<Rightarrow> bool" and contents :: "'s \<Rightarrow> 'l multiset"
  assumes post_accepts: "inv s \<Longrightarrow> fits l \<Longrightarrow> size (contents s) < capacity \<Longrightarrow>
      \<exists>s'. post l s = Some (True, s') \<and> inv s' \<and> contents s' = add_mset l (contents s)"
    and post_full: "inv s \<Longrightarrow> fits l \<Longrightarrow> \<not> size (contents s) < capacity \<Longrightarrow> post l s = Some (False, s)"
    and fetch_delivers: "inv s \<Longrightarrow> \<exists>l \<in># contents s. addressee l = k \<Longrightarrow>
      \<exists>l s'. fetch k s = Some (Some l, s') \<and> inv s' \<and> addressee l = k
        \<and> contents s = add_mset l (contents s')"
    and fetch_empty: "inv s \<Longrightarrow> \<not> (\<exists>l \<in># contents s. addressee l = k) \<Longrightarrow> fetch k s = Some (None, s)"
begin

lemma post_cases:
  assumes "inv s" "fits l"
  obtains ok s' where "post l s = Some (ok, s')" "inv s'"
    "contents s' = (if ok then add_mset l (contents s) else contents s)"
  using post_accepts [OF assms] post_full [OF assms] assms(1) that by metis

lemma fetch_cases:
  assumes "inv s"
  obtains r s' where "fetch k s = Some (r, s')" "inv s'"
    "contents s = (case r of None \<Rightarrow> contents s' | Some l \<Rightarrow> add_mset l (contents s'))"
proof (cases "\<exists>l \<in># contents s. addressee l = k")
  case True
  then obtain l s' where "fetch k s = Some (Some l, s')" "inv s'" "contents s = add_mset l (contents s')"
    using fetch_delivers [OF assms] by blast
  then show thesis using that by simp
next
  case False
  then show thesis using fetch_empty [OF assms] assms that by simp
qed

theorem session_conserves:
  assumes "inv s" "\<forall>l. Post l \<in> set ops \<longrightarrow> fits l"
  shows "\<exists>sent got s'. run_mail post fetch ops s = Some (sent, got, s') \<and> inv s'
    \<and> contents s + mset sent = mset got + contents s'"
  using assms
proof (induction ops arbitrary: s)
  case (Cons x ops)
  show ?case
  proof (cases x)
    case (Post l)
    then have "fits l" using Cons.prems(2) by simp
    then obtain ok s1 where s1: "post l s = Some (ok, s1)" "inv s1"
      "contents s1 = (if ok then add_mset l (contents s) else contents s)"
      using post_cases [OF Cons.prems(1)] by blast
    obtain sent got s' where "run_mail post fetch ops s1 = Some (sent, got, s')" "inv s'"
      "contents s1 + mset sent = mset got + contents s'"
      using Cons.IH [OF s1(2)] Cons.prems(2) by auto
    then show ?thesis using Post s1 by (cases ok) auto
  next
    case (Fetch k)
    obtain r s1 where s1: "fetch k s = Some (r, s1)" "inv s1"
      "contents s = (case r of None \<Rightarrow> contents s1 | Some l \<Rightarrow> add_mset l (contents s1))"
      using fetch_cases [OF Cons.prems(1)] by blast
    obtain sent got s' where "run_mail post fetch ops s1 = Some (sent, got, s')" "inv s'"
      "contents s1 + mset sent = mset got + contents s'"
      using Cons.IH [OF s1(2)] Cons.prems(2) by auto
    then show ?thesis using Fetch s1 by (cases r) auto
  qed
qed simp

end

text \<open>The kernel's calls as a mailbox: a letter that fits is sent with its own length, and the
  receiver's buffer starts as a blank message.\<close>

definition ipc_post :: "ipc_letter \<Rightarrow> ipc_state \<Rightarrow> (bool \<times> ipc_state) option" where
  "ipc_post = (\<lambda>(sender, receiver, payload) s.
     ipc_send sender receiver payload (of_nat (length payload)) s)"

definition blank_message :: ASAS_IPC_MESSAGE where
  "blank_message = \<lparr>sender_pid = 0, receiver_pid = 0, msg_length = 0, msg_data = replicate 64 0\<rparr>"

definition ipc_fetch :: "u32 \<Rightarrow> ipc_state \<Rightarrow> (ipc_letter option \<times> ipc_state) option" where
  "ipc_fetch receiver s = map_option (\<lambda>(ok, m, s'). (if ok then Some (letter m) else None, s'))
     (ipc_receive receiver blank_message s)"

definition letter_fits :: "ipc_letter \<Rightarrow> bool" where
  "letter_fits l \<longleftrightarrow> length (snd (snd l)) \<le> 64"

lemma letter_fits_len:
  assumes "letter_fits (a, b, p)"
  shows "unat (of_nat (length p) :: u32) = length p" "\<not> 64 < (of_nat (length p) :: u32)"
  using assms by (simp_all add: letter_fits_def unat_of_nat word_less_nat_alt)

interpretation ipc: mailbox ipc_post ipc_fetch letter_fits "\<lambda>l. fst (snd l)" 32 ipc_inv pending
proof
  fix s l
  assume inv: "ipc_inv s" and f: "letter_fits l"
  obtain a b p where l: "l = (a, b, p)" by (cases l) auto
  note cs = ipc_send_cases [OF inv, of "of_nat (length p)" p a b]
  note len = letter_fits_len [OF f [unfolded l]]
  show "size (pending s) < 32 \<Longrightarrow>
      \<exists>s'. ipc_post l s = Some (True, s') \<and> ipc_inv s' \<and> pending s' = add_mset l (pending s)"
    using cs len l by (auto simp: ipc_post_def)
  show "\<not> size (pending s) < 32 \<Longrightarrow> ipc_post l s = Some (False, s)"
    using cs len l by (auto simp: ipc_post_def)
next
  fix s k
  assume inv: "ipc_inv s"
  note cs = ipc_receive_cases [OF inv, of k blank_message]
  {
    assume "\<exists>l \<in># pending s. fst (snd l) = k"
    then obtain m s' where "ipc_receive k blank_message s = Some (True, m, s')" "ipc_inv s'"
      "receiver_pid m = k" "pending s = add_mset (letter m) (pending s')"
      using cs by blast
    then show "\<exists>l s'. ipc_fetch k s = Some (Some l, s') \<and> ipc_inv s' \<and> fst (snd l) = k
        \<and> pending s = add_mset l (pending s')"
      by (intro exI [of _ "letter m"] exI [of _ s']) (simp add: ipc_fetch_def letter_def)
  }
  assume "\<not> (\<exists>l \<in># pending s. fst (snd l) = k)"
  then have "ipc_receive k blank_message s = Some (False, blank_message, s)"
    using cs by (auto simp: letter_def)
  then show "ipc_fetch k s = Some (None, s)" by (simp add: ipc_fetch_def)
qed

lemma ipc_initialize_inv:
  assumes "length (queue s) = 32" "length (queue_used s) = 32" "ipc_lock_value s = 0"
    "\<forall>m \<in> set (queue s). length (msg_data m) = 64"
  shows "ipc_inv (ipc_initialize s)" "pending (ipc_initialize s) = {#}"
proof -
  have u: "used_set (ipc_initialize s) = {}" using assms by (auto simp: used_set_def ipc_initialize_def)
  then show "pending (ipc_initialize s) = {#}" by (simp add: pending_def)
  show "ipc_inv (ipc_initialize s)"
    using assms u unfolding ipc_inv_def by (auto simp: ipc_initialize_def)
qed

definition ipc_boot :: ipc_state where
  "ipc_boot = \<lparr>queue = replicate 32 blank_message, queue_used = replicate 32 False,
     queue_head = 0, queue_tail = 0, queue_count = 0, ipc_lock_value = 0\<rparr>"

lemma ipc_boot_inv: "ipc_inv (ipc_initialize ipc_boot)" "pending (ipc_initialize ipc_boot) = {#}"
  by (rule ipc_initialize_inv; simp add: ipc_boot_def blank_message_def)+

section \<open>Properties\<close>

text \<open>C10: no message is lost, duplicated or made up.  Any session of sends and receives returns, and
  what was queued before together with what was accepted is exactly what was delivered together
  with what is still queued.\<close>

theorem ipc_conserves_messages:
  assumes "ipc_inv s" and "\<forall>l. Post l \<in> set ops \<longrightarrow> letter_fits l"
  shows "\<exists>sent got s'. run_mail ipc_post ipc_fetch ops s = Some (sent, got, s') \<and> ipc_inv s'
    \<and> pending s + mset sent = mset got + pending s'"
  using assms by (rule ipc.session_conserves)

theorem ipc_conserves_messages_witness:
  "\<exists>sent got s'. run_mail ipc_post ipc_fetch [Post (1, 2, [65]), Fetch 2, Fetch 3]
      (ipc_initialize ipc_boot) = Some (sent, got, s') \<and> mset sent = mset got + pending s'"
  using ipc_conserves_messages [OF ipc_boot_inv(1), of "[Post (1, 2, [65]), Fetch 2, Fetch 3]"]
  by (auto simp: letter_fits_def ipc_boot_inv)

text \<open>\<open>ipc_receive\<close> always returns; it delivers a message exactly when one is queued for the
  receiver, the message is addressed to it, and on failure neither the queue nor the caller's
  buffer changes.\<close>

theorem ipc_receive_delivers:
  assumes "ipc_inv s"
  shows "if \<exists>l \<in># pending s. fst (snd l) = r
    then \<exists>m s'. ipc_receive r m0 s = Some (True, m, s') \<and> ipc_inv s' \<and> receiver_pid m = r
      \<and> pending s = add_mset (letter m) (pending s')
    else ipc_receive r m0 s = Some (False, m0, s)"
  using ipc_receive_cases [OF assms, of r m0] by (auto simp: letter_def)

theorem ipc_receive_delivers_witness:
  "ipc_receive 7 blank_message (ipc_initialize ipc_boot)
     = Some (False, blank_message, ipc_initialize ipc_boot)"
  using ipc_receive_delivers [OF ipc_boot_inv(1), of 7 blank_message] by (simp add: ipc_boot_inv)

text \<open>the module's self test passes, whatever the static variables and the message buffer held,
  provided the lock is free.\<close>

theorem ipc_self_test_passes:
  assumes "length (queue s) = 32" and "length (queue_used s) = 32" and "ipc_lock_value s = 0"
    and "\<forall>m \<in> set (queue s). length (msg_data m) = 64"
  shows "\<exists>s'. ipc_self_test m0 s = Some (True, s')"
proof -
  note I = ipc_initialize_inv [OF assms]
  obtain s1 where s1: "ipc_send 1 2 [65, 83, 65, 83] 4 (ipc_initialize s) = Some (True, s1)"
    "ipc_inv s1" "pending s1 = {#(1, 2, [65, 83, 65, 83])#}"
    using ipc_send_cases [OF I(1), of 4 "[65, 83, 65, 83]" 1 2] I(2) by auto
  obtain m s2 where m: "ipc_receive 2 m0 s1 = Some (True, m, s2)"
    "letter m = (1, 2, [65, 83, 65, 83])" "length (msg_data m) = 64"
    using ipc_receive_cases [OF s1(2), of 2 m0] s1(3) by auto
  then have tk: "take (unat (msg_length m)) (msg_data m) = [65, 83, 65, 83]"
    "sender_pid m = 1" "receiver_pid m = 2" by (simp_all add: letter_def)
  have "length (take (unat (msg_length m)) (msg_data m)) = 4" by (simp add: tk(1))
  then have l4: "unat (msg_length m) = 4"
    unfolding length_take using m(3) by (simp add: min_def split: if_splits)
  have "msg_data m ! 0 = 65" "msg_data m ! 3 = 83"
    using tk(1) l4 nth_take [of 0 4 "msg_data m"] nth_take [of 3 4 "msg_data m"] by simp_all
  moreover have "msg_length m = 4" using l4 by (simp add: word_unat_eq_iff)
  ultimately show ?thesis using s1(1) m tk by (simp add: ipc_self_test_def)
qed

theorem ipc_self_test_passes_witness: "\<exists>s'. ipc_self_test blank_message ipc_boot = Some (True, s')"
  by (rule ipc_self_test_passes) (simp_all add: ipc_boot_def blank_message_def)

text \<open>A session that fills the ring, takes a message from its middle and posts into the hole.\<close>

definition overtaking_session :: "(ipc_letter, u32) mail_op list" where
  "overtaking_session = Post (1, 2, [0]) # Post (1, 3, [1])
     # map (\<lambda>n. Post (1, 2, [of_nat n])) [2 ..< 32]
     @ [Fetch 3, Post (1, 2, [32]), Fetch 2, Fetch 2]"

text \<open>delivery is not first in, first out, even between one sender and one receiver.  In the
  session the letter 32 is posted last, after 0 and 2 to 31, and is delivered second: it was put in
  the hole that the receiver 3 left near the head of the full ring.\<close>

theorem ipc_not_fifo:
  "map_option (\<lambda>(sent, got, s). got) (run_mail ipc_post ipc_fetch overtaking_session ipc_boot)
     = Some [(1, 3, [1]), (1, 2, [0]), (1, 2, [32])]"
  by code_simp

end
