(* ===== verification/Kernel_Scheduler.thy ===== *)
theory Kernel_Scheduler
  imports Asas_Prelude
begin

text \<open>
  \<^verbatim>\<open>src/kernel/scheduler.c\<close>: sixteen thread slots scheduled round-robin, and the context switch of
  \<^verbatim>\<open>src/kernel/x86_64.asm\<close> that the scheduler ends in.  The state holds the thread table, the
  scheduler's variables, the processor's stack pointer, return address and callee-saved registers
  (in the order in which the switch pushes them) and the stack memory, a store of eight-byte words
  by address.  A call pushes its return address, so \<open>cpu_rip\<close> is the address the running thread
  continues at after the call.  The base of the static stacks and the address of
  \<open>thread_bootstrap\<close> are fields: the linker chooses them.
\<close>

section \<open>Data\<close>

definition MAX_THREADS :: nat where "MAX_THREADS = 16"
definition THREAD_STACK_SIZE :: u64 where "THREAD_STACK_SIZE = 16384"

record ASAS_THREAD =
  stack_pointer :: u64
  thread_entry :: u64
  thread_active :: bool

record sched_state =
  threads :: "ASAS_THREAD list"
  current_thread :: nat
  thread_count :: nat
  preemption_enabled :: bool
  scheduler_lock_value :: u32
  stack_mem :: "u64 \<Rightarrow> u64"
  cpu_rsp :: u64
  cpu_rip :: u64
  callee_saved :: "u64 list"
  thread_stacks :: u64
  thread_bootstrap :: u64

section \<open>Operations\<close>

partial_function (option) scheduler_lock :: "sched_state \<Rightarrow> sched_state option" where
  "scheduler_lock s =
     (let old = scheduler_lock_value s; s1 = s\<lparr>scheduler_lock_value := 1\<rparr>
      in if old \<noteq> 0 then scheduler_lock s1 else Some s1)"

definition scheduler_unlock :: "sched_state \<Rightarrow> sched_state" where
  "scheduler_unlock s = s\<lparr>scheduler_lock_value := 0\<rparr>"

definition scheduler_initialize :: "sched_state \<Rightarrow> sched_state" where
  "scheduler_initialize s =
     (let cleared = map (\<lambda>_. \<lparr>stack_pointer = 0, thread_entry = 0, thread_active = False\<rparr>) (threads s)
      in s\<lparr>threads := cleared[0 := (cleared ! 0)\<lparr>thread_active := True\<rparr>],
           current_thread := 0, thread_count := 1, preemption_enabled := False\<rparr>)"

text \<open>\<open>*--stack = value\<close> and the instructions \<open>push\<close> and \<open>pop\<close>\<close>

definition store_below :: "u64 \<Rightarrow> u64 \<times> (u64 \<Rightarrow> u64) \<Rightarrow> u64 \<times> (u64 \<Rightarrow> u64)" where
  "store_below v = (\<lambda>(sp, mem). (sp - 8, mem(sp - 8 := v)))"

definition push_words :: "u64 list \<Rightarrow> sched_state \<Rightarrow> sched_state" where
  "push_words vs s =
     (let (sp, mem) = fold store_below vs (cpu_rsp s, stack_mem s)
      in s\<lparr>cpu_rsp := sp, stack_mem := mem\<rparr>)"

fun pop_words :: "nat \<Rightarrow> sched_state \<Rightarrow> u64 list \<times> sched_state" where
  "pop_words 0 s = ([], s)"
| "pop_words (Suc n) s =
     (let (vs, s') = pop_words n (s\<lparr>cpu_rsp := cpu_rsp s + 8\<rparr>)
      in (stack_mem s (cpu_rsp s) # vs, s'))"

text \<open>The stack that \<open>scheduler_create_thread\<close> builds: the bootstrap address, then eight zeros.\<close>

definition new_thread_stack :: "nat \<Rightarrow> sched_state \<Rightarrow> u64 \<times> (u64 \<Rightarrow> u64)" where
  "new_thread_stack index s =
     fold store_below (thread_bootstrap s # replicate 8 0)
       (thread_stacks s + of_nat (index + 1) * THREAD_STACK_SIZE, stack_mem s)"

function create_thread_from :: "nat \<Rightarrow> u64 \<Rightarrow> sched_state \<Rightarrow> bool \<times> sched_state" where
  "create_thread_from index entry s =
     (if index < MAX_THREADS then
        if \<not> thread_active (threads s ! index) then
          let (stack, mem) = new_thread_stack index s
          in (True, scheduler_unlock (s\<lparr>
                stack_mem := mem,
                threads := (threads s)[index := \<lparr>stack_pointer = stack, thread_entry = entry,
                  thread_active = True\<rparr>],
                thread_count := (if index \<ge> thread_count s then index + 1 else thread_count s)\<rparr>))
        else create_thread_from (Suc index) entry s
      else (False, scheduler_unlock s))"
  by pat_completeness auto
termination by (relation "measure (\<lambda>(index, _). MAX_THREADS - index)") auto

definition scheduler_create_thread :: "u64 \<Rightarrow> sched_state \<Rightarrow> (bool \<times> sched_state) option" where
  "scheduler_create_thread entry s = map_option (create_thread_from 1 entry) (scheduler_lock s)"

text \<open>The assembly routine, with the push of the return address by the call instruction.\<close>

definition context_switch :: "nat \<Rightarrow> u64 \<Rightarrow> sched_state \<Rightarrow> sched_state" where
  "context_switch previous new_stack_pointer s =
     (let s1 = push_words (cpu_rip s # callee_saved s) s;
          s2 = s1\<lparr>threads := (threads s1)[previous :=
                 (threads s1 ! previous)\<lparr>stack_pointer := cpu_rsp s1\<rparr>],
               cpu_rsp := new_stack_pointer\<rparr>;
          (registers, s3) = pop_words 8 s2;
          (return_address, s4) = pop_words 1 s3
      in s4\<lparr>callee_saved := rev registers, cpu_rip := hd return_address\<rparr>)"

function yield_from :: "nat \<Rightarrow> nat \<Rightarrow> sched_state \<Rightarrow> sched_state" where
  "yield_from checked nxt s =
     (if checked < thread_count s then
        let nxt = (nxt + 1) mod thread_count s in
        if thread_active (threads s ! nxt) then
          let previous = current_thread s in
          if nxt = previous then scheduler_unlock s
          else context_switch previous (stack_pointer (threads s ! nxt))
                 (scheduler_unlock (s\<lparr>current_thread := nxt\<rparr>))
        else yield_from (Suc checked) nxt s
      else scheduler_unlock s)"
  by pat_completeness auto
termination by (relation "measure (\<lambda>(checked, _, s). thread_count s - checked)") auto

definition scheduler_yield :: "sched_state \<Rightarrow> sched_state option" where
  "scheduler_yield s = map_option (\<lambda>s1. yield_from 0 (current_thread s) s1) (scheduler_lock s)"

definition scheduler_on_timer_tick :: "sched_state \<Rightarrow> sched_state option" where
  "scheduler_on_timer_tick s = (if preemption_enabled s then scheduler_yield s else Some s)"

definition scheduler_enable_preemption :: "sched_state \<Rightarrow> sched_state" where
  "scheduler_enable_preemption s = s\<lparr>preemption_enabled := True\<rparr>"

definition scheduler_disable_preemption :: "sched_state \<Rightarrow> sched_state" where
  "scheduler_disable_preemption s = s\<lparr>preemption_enabled := False\<rparr>"

text \<open>The end of \<open>thread_bootstrap\<close>, after the entry function has returned: the thread leaves the
  table and yields (the surrounding loop only matters if no other thread is active).\<close>

definition thread_exit :: "sched_state \<Rightarrow> sched_state option" where
  "thread_exit s = scheduler_yield (s\<lparr>threads := (threads s)[current_thread s :=
     (threads s ! current_thread s)\<lparr>thread_active := False\<rparr>]\<rparr>)"

declare yield_from.simps [simp del] create_thread_from.simps [simp del]

section \<open>Specification\<close>

definition sched_inv :: "sched_state \<Rightarrow> bool" where
  "sched_inv s \<longleftrightarrow> length (threads s) = 16 \<and> 0 < thread_count s \<and> thread_count s \<le> 16
     \<and> current_thread s < thread_count s
     \<and> (\<forall>i < 16. thread_active (threads s ! i) \<longrightarrow> i < thread_count s)
     \<and> scheduler_lock_value s = 0 \<and> length (callee_saved s) = 8"

definition runnable :: "sched_state \<Rightarrow> nat \<Rightarrow> bool" where
  "runnable s i \<longleftrightarrow> i < thread_count s \<and> thread_active (threads s ! i)"

text \<open>The distance from \<open>i\<close> forward to \<open>j\<close> around the ring of \<open>n\<close> slots, 1 to \<open>n\<close>.\<close>

definition ring_distance :: "nat \<Rightarrow> nat \<Rightarrow> nat \<Rightarrow> nat" where
  "ring_distance n i j = (if i < j then j - i else j + n - i)"

section \<open>Lemmas\<close>

lemma scheduler_lock_free:
  "scheduler_lock_value s = 0 \<Longrightarrow> scheduler_lock s = Some (s\<lparr>scheduler_lock_value := 1\<rparr>)"
  by (subst scheduler_lock.simps) simp

lemma sched_invD:
  assumes "sched_inv s"
  shows "length (threads s) = 16" "0 < thread_count s" "thread_count s \<le> 16"
    "current_thread s < thread_count s" "scheduler_lock_value s = 0" "length (callee_saved s) = 8"
    "i < 16 \<Longrightarrow> thread_active (threads s ! i) \<Longrightarrow> i < thread_count s"
  using assms unfolding sched_inv_def by blast+

subsection \<open>Stacks\<close>

lemma store_below_pair [simp]: "store_below v (sp, mem) = (sp - 8, mem(sp - 8 := v))"
  by (simp add: store_below_def)

lemma store_below_sp: "fst (fold store_below vs (sp, mem)) = sp - 8 * of_nat (length vs)"
proof (induction vs arbitrary: sp mem)
  case (Cons v vs)
  then show ?case by (simp only: fold_simps store_below_pair) simp
qed simp

lemma word_offset_eq:
  assumes "i < 1000" "j < 1000"
  shows "(sp :: u64) - 8 * of_nat i = sp - 8 * of_nat j \<longleftrightarrow> i = j"
proof -
  have "unat (8 * of_nat n :: u64) = 8 * n" if "n < 1000" for n
  proof -
    have "unat (of_nat (8 * n) :: u64) = 8 * n" using that by (simp only: unat_of_nat) simp
    then show ?thesis by simp
  qed
  then have "(8 * of_nat i :: u64) = 8 * of_nat j \<longleftrightarrow> i = j"
    using assms by (metis mult_left_cancel zero_neq_numeral)
  then show ?thesis by simp
qed


lemma store_below_word:
  assumes "k < length vs" "length vs < 100"
  shows "snd (fold store_below vs (sp, mem)) (sp - 8 * of_nat (Suc k)) = vs ! k"
  using assms
proof (induction vs rule: rev_induct)
  case (snoc v vs)
  obtain sp' mem' where f: "fold store_below vs (sp, mem) = (sp', mem')" by fastforce
  have sp': "sp' - 8 = sp - 8 * of_nat (Suc (length vs))"
    using store_below_sp [of vs sp mem] f by (simp add: algebra_simps)
  show ?case
  proof (cases "k = length vs")
    case True
    then show ?thesis using f sp' by simp
  next
    case False
    then have "sp - 8 * of_nat (Suc k) \<noteq> sp' - 8"
      unfolding sp' using snoc.prems by (subst word_offset_eq) auto
    then show ?thesis
      using snoc False f by (simp add: nth_append del: of_nat_Suc)
  qed
qed simp

lemma store_below_other:
  assumes "\<And>k. k < length vs \<Longrightarrow> a \<noteq> sp - 8 * of_nat (Suc k)"
  shows "snd (fold store_below vs (sp, mem)) a = mem a"
  using assms
proof (induction vs rule: rev_induct)
  case (snoc v vs)
  obtain sp' mem' where f: "fold store_below vs (sp, mem) = (sp', mem')" by fastforce
  have sp': "sp' - 8 = sp - 8 * of_nat (Suc (length vs))"
    using store_below_sp [of vs sp mem] f by (simp add: algebra_simps)
  have "a \<noteq> sp' - 8" unfolding sp' by (rule snoc.prems) simp
  moreover have "mem' a = mem a" using snoc.IH snoc.prems f by simp
  ultimately show ?case using f by simp
qed simp

lemma pop_words_eq:
  "pop_words n s = (map (\<lambda>k. stack_mem s (cpu_rsp s + 8 * of_nat k)) [0 ..< n],
     s\<lparr>cpu_rsp := cpu_rsp s + 8 * of_nat n\<rparr>)"
proof (induction n arbitrary: s)
  case (Suc n)
  have "map (\<lambda>k. stack_mem s (cpu_rsp s + 8 * of_nat k)) [0 ..< Suc n]
      = stack_mem s (cpu_rsp s) # map (\<lambda>k. stack_mem s (cpu_rsp s + 8 + 8 * of_nat k)) [0 ..< n]"
    by (simp add: upt_conv_Cons map_Suc_upt [symmetric] algebra_simps del: upt_Suc)
  then show ?case using Suc by (simp add: algebra_simps del: upt_Suc)
qed simp

text \<open>What the switch saves and where it goes.\<close>

definition saved_word :: "sched_state \<Rightarrow> u64 \<Rightarrow> bool" where
  "saved_word s a \<longleftrightarrow> (\<exists>k < 9. a = cpu_rsp s - 8 * of_nat (Suc k))"

lemma not_saved_word:
  assumes "72 \<le> unat (cpu_rsp s)" "unat a < unat (cpu_rsp s) - 72 \<or> unat (cpu_rsp s) \<le> unat a"
  shows "\<not> saved_word s a"
proof
  assume "saved_word s a"
  then obtain k where k: "k < 9" "a = cpu_rsp s - 8 * of_nat (Suc k)" by (auto simp: saved_word_def)
  have u: "unat (of_nat (8 * Suc k) :: u64) = 8 * Suc k" using k(1) by (simp only: unat_of_nat) simp
  have a: "a = cpu_rsp s - of_nat (8 * Suc k)" using k(2) by simp
  have "of_nat (8 * Suc k) \<le> cpu_rsp s" unfolding word_le_nat_alt u using assms(1) k(1) by simp
  then have "unat a = unat (cpu_rsp s) - 8 * Suc k" unfolding a using u by (simp only: unat_sub)
  then show False using assms k(1) by auto
qed

lemma push_words_simps:
  "cpu_rsp (push_words vs s) = cpu_rsp s - 8 * of_nat (length vs)"
  "threads (push_words vs s) = threads s" "current_thread (push_words vs s) = current_thread s"
  "thread_count (push_words vs s) = thread_count s"
  "scheduler_lock_value (push_words vs s) = scheduler_lock_value s"
  "thread_stacks (push_words vs s) = thread_stacks s"
  "thread_bootstrap (push_words vs s) = thread_bootstrap s"
  "preemption_enabled (push_words vs s) = preemption_enabled s"
  "stack_mem (push_words vs s) = snd (fold store_below vs (cpu_rsp s, stack_mem s))"
  using store_below_sp [of vs "cpu_rsp s" "stack_mem s"]
  by (auto simp: push_words_def split: prod.splits)

lemma context_switch_threads:
  "threads (context_switch p sp s) = (threads s)[p := (threads s ! p)\<lparr>stack_pointer :=
     cpu_rsp s - 8 * of_nat (Suc (length (callee_saved s)))\<rparr>]"
  "current_thread (context_switch p sp s) = current_thread s"
  "thread_count (context_switch p sp s) = thread_count s"
  "scheduler_lock_value (context_switch p sp s) = scheduler_lock_value s"
  "length (callee_saved (context_switch p sp s)) = 8"
  "stack_mem (context_switch p sp s) = stack_mem (push_words (cpu_rip s # callee_saved s) s)"
  by (simp_all add: context_switch_def Let_def pop_words_eq push_words_simps del: of_nat_Suc upt_rec_numeral)

lemma context_switch_loads:
  fixes p sp s
  defines "mem \<equiv> stack_mem (push_words (cpu_rip s # callee_saved s) s)"
  shows "callee_saved (context_switch p sp s) = rev (map (\<lambda>k. mem (sp + 8 * of_nat k)) [0 ..< 8])"
    "cpu_rip (context_switch p sp s) = mem (sp + 64)"
    "cpu_rsp (context_switch p sp s) = sp + 72"
  by (simp_all add: context_switch_def Let_def pop_words_eq mem_def del: upt_rec_numeral)

lemma context_switch_active:
  "thread_active (threads (context_switch p sp s) ! i) = thread_active (threads s ! i)"
  by (cases "p < length (threads s)") (auto simp: context_switch_threads nth_list_update list_update_beyond)

lemma saved_frame:
  assumes "length (callee_saved s) = 8"
  shows "k < 9 \<Longrightarrow> stack_mem (push_words (cpu_rip s # callee_saved s) s) (cpu_rsp s - 8 * of_nat (Suc k))
      = (cpu_rip s # callee_saved s) ! k"
    "\<not> saved_word s a \<Longrightarrow> stack_mem (push_words (cpu_rip s # callee_saved s) s) a = stack_mem s a"
proof -
  show "k < 9 \<Longrightarrow> stack_mem (push_words (cpu_rip s # callee_saved s) s) (cpu_rsp s - 8 * of_nat (Suc k))
      = (cpu_rip s # callee_saved s) ! k"
    using assms unfolding push_words_simps by (intro store_below_word) simp_all
  show "\<not> saved_word s a \<Longrightarrow> stack_mem (push_words (cpu_rip s # callee_saved s) s) a = stack_mem s a"
    using assms unfolding push_words_simps saved_word_def by (intro store_below_other) auto
qed

text \<open>A frame of nine words: the registers from the lowest address up, then the return address.\<close>

definition frame_at :: "(u64 \<Rightarrow> u64) \<Rightarrow> u64 \<Rightarrow> u64 list \<Rightarrow> u64 \<Rightarrow> bool" where
  "frame_at mem sp regs ret \<longleftrightarrow> length regs = 8 \<and> mem (sp + 64) = ret
     \<and> (\<forall>k < 8. mem (sp + 8 * of_nat k) = regs ! (7 - k))"

lemma switch_to_frame:
  assumes f: "frame_at (stack_mem s) sp regs ret" and len: "length (callee_saved s) = 8"
    and sep: "\<And>k. k < 9 \<Longrightarrow> \<not> saved_word s (sp + 8 * of_nat k)"
  shows "callee_saved (context_switch p sp s) = regs" "cpu_rip (context_switch p sp s) = ret"
    "cpu_rsp (context_switch p sp s) = sp + 72"
proof -
  let ?m = "stack_mem (push_words (cpu_rip s # callee_saved s) s)"
  have same: "?m (sp + 8 * of_nat k) = stack_mem s (sp + 8 * of_nat k)" if "k < 9" for k
    using saved_frame(2) [OF len] sep [OF that] by blast
  have "rev (map (\<lambda>k. ?m (sp + 8 * of_nat k)) [0 ..< 8]) = regs"
  proof (rule nth_equalityI)
    fix i
    assume "i < length (rev (map (\<lambda>k. ?m (sp + 8 * of_nat k)) [0 ..< 8]))"
    then have i: "i < 8" by simp
    then have k: "7 - i < 8" "7 - (7 - i) = i" by auto
    have "rev (map (\<lambda>k. ?m (sp + 8 * of_nat k)) [0 ..< 8]) ! i = ?m (sp + 8 * of_nat (7 - i))"
      using i k(1) by (simp add: rev_nth nth_upt [of 0 "7 - i" 8] del: upt_rec_numeral of_nat_diff)
    also have "\<dots> = regs ! i" using same [of "7 - i"] f k i unfolding frame_at_def by auto
    finally show "rev (map (\<lambda>k. ?m (sp + 8 * of_nat k)) [0 ..< 8]) ! i = regs ! i" .
  qed (use f in \<open>simp add: frame_at_def\<close>)
  then show "callee_saved (context_switch p sp s) = regs" by (simp only: context_switch_loads)
  show "cpu_rip (context_switch p sp s) = ret"
    using same [of 8] f by (simp add: context_switch_loads frame_at_def)
  show "cpu_rsp (context_switch p sp s) = sp + 72" by (rule context_switch_loads)
qed

lemma frame_of_stores:
  assumes "length vs = 9"
  shows "frame_at (snd (fold store_below vs (sp, mem))) (sp - 72) (tl vs) (hd vs)"
proof -
  obtain v ws where vs: "vs = v # ws" "length ws = 8" using assms by (cases vs) auto
  let ?m = "snd (fold store_below vs (sp, mem))"
  have w: "?m (sp - 8 * of_nat (Suc k)) = vs ! k" if "k < 9" for k
    using store_below_word [of k vs sp mem] assms that by simp
  have "?m (sp - 72 + 8 * of_nat k) = ws ! (7 - k)" if "k < 8" for k
  proof -
    have "Suc (8 - k) + k = 9" using that by simp
    then have "of_nat (Suc (8 - k)) + of_nat k = (9 :: u64)" by (metis of_nat_add of_nat_numeral)
    then have "of_nat k = (9 :: u64) - of_nat (Suc (8 - k))" by (metis add_diff_cancel_left')
    then have eq: "sp - 72 + 8 * of_nat k = sp - 8 * of_nat (Suc (8 - k))"
      by (simp only: right_diff_distrib) simp
    have "?m (sp - 72 + 8 * of_nat k) = vs ! (8 - k)" unfolding eq by (rule w) simp
    moreover have "8 - k = Suc (7 - k)" using that by simp
    ultimately show ?thesis using vs(1) by simp
  qed
  moreover have "?m (sp - 72 + 64) = v" using w [of 0] vs by simp
  ultimately show ?thesis using vs by (simp add: frame_at_def)
qed

subsection \<open>Picking the next thread\<close>

lemma yield_from_step:
  "yield_from checked nxt s =
     (if checked < thread_count s then
        if thread_active (threads s ! ((nxt + 1) mod thread_count s)) then
          if (nxt + 1) mod thread_count s = current_thread s then scheduler_unlock s
          else context_switch (current_thread s)
            (stack_pointer (threads s ! ((nxt + 1) mod thread_count s)))
            (scheduler_unlock (s\<lparr>current_thread := (nxt + 1) mod thread_count s\<rparr>))
        else yield_from (Suc checked) ((nxt + 1) mod thread_count s) s
      else scheduler_unlock s)"
  by (subst yield_from.simps) (simp add: Let_def)

text \<open>\<open>e\<close> is the number of slots already looked at, the next active one is \<open>d\<close> slots ahead of the
  current thread.\<close>

lemma yield_from_finds:
  fixes s d
  defines "j \<equiv> (current_thread s + d) mod thread_count s"
  assumes "e < d" "d \<le> thread_count s" "thread_active (threads s ! j)"
    and "\<And>i. 0 < i \<Longrightarrow> i < d \<Longrightarrow>
      \<not> thread_active (threads s ! ((current_thread s + i) mod thread_count s))"
  shows "yield_from e ((current_thread s + e) mod thread_count s) s =
    (if j = current_thread s then scheduler_unlock s
     else context_switch (current_thread s) (stack_pointer (threads s ! j))
       (scheduler_unlock (s\<lparr>current_thread := j\<rparr>)))"
  using assms(2)
proof (induction "d - Suc e" arbitrary: e)
  case 0
  then have "Suc e = d" by simp
  then have "((current_thread s + e) mod thread_count s + 1) mod thread_count s = j"
    unfolding j_def by (simp add: mod_simps flip: \<open>Suc e = d\<close>)
  then show ?case using 0 assms by (subst yield_from_step) simp
next
  case (Suc k)
  then have e: "Suc e < d" by simp
  have "((current_thread s + e) mod thread_count s + 1) mod thread_count s
      = (current_thread s + Suc e) mod thread_count s"
    by (simp add: mod_simps)
  moreover have "\<not> thread_active (threads s ! ((current_thread s + Suc e) mod thread_count s))"
    using assms(5) [of "Suc e"] e by simp
  ultimately have "yield_from e ((current_thread s + e) mod thread_count s) s
      = yield_from (Suc e) ((current_thread s + Suc e) mod thread_count s) s"
    using e assms(3) by (subst yield_from_step) simp
  then show ?case using Suc.hyps(1) [of "Suc e"] Suc.hyps(2) e by simp
qed

lemma ring_distance_bounds:
  assumes "i < n" "j < n"
  shows "0 < ring_distance n i j" "ring_distance n i j \<le> n"
    "(i + ring_distance n i j) mod n = j"
  using assms by (auto simp: ring_distance_def)

lemma ring_distance_unique:
  assumes "i < n" "0 < d" "d \<le> n"
  shows "ring_distance n i ((i + d) mod n) = d"
proof (cases "i + d < n")
  case False
  then have "(i + d) mod n = i + d - n" using assms by (simp add: mod_if)
  then show ?thesis using assms False by (auto simp: ring_distance_def)
qed (use assms in \<open>simp add: ring_distance_def\<close>)

lemma ring_distance_trans:
  assumes "c < n" "i < n" "j < n" "ring_distance n c i < ring_distance n c j"
  shows "ring_distance n i j < ring_distance n c j"
  using assms by (auto simp: ring_distance_def split: if_splits)

lemma next_runnable:
  assumes inv: "sched_inv s" and r: "runnable s j"
  obtains d where "0 < d" "d \<le> thread_count s"
    "runnable s ((current_thread s + d) mod thread_count s)"
    "\<And>i. runnable s i \<Longrightarrow> d \<le> ring_distance (thread_count s) (current_thread s) i"
proof -
  note I = sched_invD [OF inv]
  define R where "R = (\<lambda>d. 0 < d \<and> d \<le> thread_count s \<and> runnable s ((current_thread s + d) mod thread_count s))"
  have R: "R (ring_distance (thread_count s) (current_thread s) i)" if "runnable s i" for i
    using ring_distance_bounds [OF I(4), of i] that by (auto simp: R_def runnable_def)
  then obtain d where d: "R d" "\<And>e. e < d \<Longrightarrow> \<not> R e"
    using exists_least_iff [of R] r by blast
  show thesis
    using that [of d] d R by (metis R_def not_less)
qed

lemma scheduler_yield_result:
  assumes inv: "sched_inv s" and d: "0 < d" "d \<le> thread_count s"
    and r: "runnable s ((current_thread s + d) mod thread_count s)"
    and least: "\<And>i. runnable s i \<Longrightarrow> d \<le> ring_distance (thread_count s) (current_thread s) i"
  shows "scheduler_yield s = Some
    (if (current_thread s + d) mod thread_count s = current_thread s then s
     else context_switch (current_thread s)
       (stack_pointer (threads s ! ((current_thread s + d) mod thread_count s)))
       (s\<lparr>current_thread := (current_thread s + d) mod thread_count s\<rparr>))"
proof -
  note I = sched_invD [OF inv]
  let ?l = "s\<lparr>scheduler_lock_value := 1\<rparr>"
  have none: "\<not> thread_active (threads ?l ! ((current_thread ?l + i) mod thread_count ?l))"
    if "0 < i" "i < d" for i
  proof
    assume "thread_active (threads ?l ! ((current_thread ?l + i) mod thread_count ?l))"
    then have "runnable s ((current_thread s + i) mod thread_count s)"
      using I(2) by (simp add: runnable_def)
    then have "d \<le> i" using least ring_distance_unique [OF I(4), of i] that d by fastforce
    then show False using that by simp
  qed
  have "yield_from 0 ((current_thread ?l + 0) mod thread_count ?l) ?l =
    (if (current_thread ?l + d) mod thread_count ?l = current_thread ?l then scheduler_unlock ?l
     else context_switch (current_thread ?l)
       (stack_pointer (threads ?l ! ((current_thread ?l + d) mod thread_count ?l)))
       (scheduler_unlock (?l\<lparr>current_thread := (current_thread ?l + d) mod thread_count ?l\<rparr>)))"
    by (rule yield_from_finds [OF _ _ _ none]) (use d r in \<open>simp_all add: runnable_def\<close>)
  moreover have "scheduler_unlock ?l = s" "scheduler_unlock (?l\<lparr>current_thread := k\<rparr>) = s\<lparr>current_thread := k\<rparr>" for k
    using I(5) by (simp_all add: scheduler_unlock_def)
  ultimately show ?thesis
    using I(4) scheduler_lock_free [OF I(5)] by (simp add: scheduler_yield_def)
qed

lemma scheduler_yield_nearest:
  assumes inv: "sched_inv s" and r: "runnable s j"
  obtains s' where "scheduler_yield s = Some s'" "sched_inv s'" "runnable s (current_thread s')"
    "thread_count s' = thread_count s" "runnable s' = runnable s"
    "\<And>i. runnable s i \<Longrightarrow> ring_distance (thread_count s) (current_thread s) (current_thread s')
        \<le> ring_distance (thread_count s) (current_thread s) i"
proof -
  note I = sched_invD [OF inv]
  obtain d where d: "0 < d" "d \<le> thread_count s"
    "runnable s ((current_thread s + d) mod thread_count s)"
    "\<And>i. runnable s i \<Longrightarrow> d \<le> ring_distance (thread_count s) (current_thread s) i"
    using next_runnable [OF inv r] by blast
  let ?j = "(current_thread s + d) mod thread_count s"
  define s' where "s' = (if ?j = current_thread s then s else context_switch (current_thread s)
     (stack_pointer (threads s ! ?j)) (s\<lparr>current_thread := ?j\<rparr>))"
  have y: "scheduler_yield s = Some s'"
    unfolding s'_def by (rule scheduler_yield_result [OF inv d])
  have c: "current_thread s' = ?j" "thread_count s' = thread_count s"
    by (simp_all add: s'_def context_switch_threads)
  have act: "thread_active (threads s' ! i) = thread_active (threads s ! i)" for i
    by (simp add: s'_def context_switch_active)
  have "sched_inv s'"
    using I c act unfolding sched_inv_def
    by (auto simp: s'_def context_switch_threads split: if_splits)
  moreover have "runnable s' = runnable s"
    using c act by (intro ext) (simp add: runnable_def)
  ultimately show thesis
    using that [OF y] c d ring_distance_unique [OF I(4) d(1,2)] by simp
qed

text \<open>A number of consecutive yields.\<close>

fun yields :: "nat \<Rightarrow> sched_state \<Rightarrow> sched_state option" where
  "yields 0 s = Some s"
| "yields (Suc n) s = (case scheduler_yield s of None \<Rightarrow> None | Some s1 \<Rightarrow> yields n s1)"

lemma yields_reach:
  assumes "sched_inv s" "runnable s j"
  shows "\<exists>k s'. 0 < k \<and> k \<le> ring_distance (thread_count s) (current_thread s) j
    \<and> yields k s = Some s' \<and> current_thread s' = j"
  using assms
proof (induction "ring_distance (thread_count s) (current_thread s) j" arbitrary: s rule: less_induct)
  case less
  let ?n = "thread_count s" and ?c = "current_thread s"
  obtain s1 where y: "scheduler_yield s = Some s1" and inv1: "sched_inv s1"
    and r1: "runnable s (current_thread s1)" and n1: "thread_count s1 = ?n"
    and rr: "runnable s1 = runnable s"
    and near: "\<And>i. runnable s i \<Longrightarrow> ring_distance ?n ?c (current_thread s1) \<le> ring_distance ?n ?c i"
    using scheduler_yield_nearest [OF less.prems] by metis
  have b: "?c < ?n" "current_thread s1 < ?n" "j < ?n"
    using sched_invD(4) [OF less.prems(1)] r1 less.prems(2) by (auto simp: runnable_def)
  show ?case
  proof (cases "current_thread s1 = j")
    case True
    then show ?thesis
      using y ring_distance_bounds(1) [OF b(1,3)] by (intro exI [of _ 1] exI [of _ s1]) auto
  next
    case False
    have "ring_distance ?n ?c (current_thread s1) \<noteq> ring_distance ?n ?c j"
      using False ring_distance_bounds(3) [OF b(1)] b by metis
    then have "ring_distance ?n (current_thread s1) j < ring_distance ?n ?c j"
      using near [OF less.prems(2)] ring_distance_trans [OF b] by simp
    then obtain k s' where "0 < k" "k \<le> ring_distance ?n (current_thread s1) j"
      "yields k s1 = Some s'" "current_thread s' = j"
      using less.hyps [of s1] n1 inv1 rr less.prems(2) by auto
    then show ?thesis
      using y \<open>ring_distance ?n (current_thread s1) j < _\<close>
      by (intro exI [of _ "Suc k"] exI [of _ s']) simp
  qed
qed

subsection \<open>New threads\<close>

lemma create_thread_from_slot:
  assumes "i < 16" "\<not> thread_active (threads s ! i)" "index \<le> i"
    "\<And>k. index \<le> k \<Longrightarrow> k < i \<Longrightarrow> thread_active (threads s ! k)"
  shows "create_thread_from index entry s = (True, scheduler_unlock (s\<lparr>
      stack_mem := snd (new_thread_stack i s),
      threads := (threads s)[i := \<lparr>stack_pointer = fst (new_thread_stack i s), thread_entry = entry,
        thread_active = True\<rparr>],
      thread_count := (if i \<ge> thread_count s then i + 1 else thread_count s)\<rparr>))"
  using assms(3,4)
proof (induction "i - index" arbitrary: index)
  case 0
  then have "index = i" by simp
  show ?case unfolding \<open>index = i\<close>
    using assms(1,2)
    by (subst create_thread_from.simps) (simp add: MAX_THREADS_def split: prod.splits)
next
  case (Suc d)
  then have "index < i" by simp
  then have "create_thread_from index entry s = create_thread_from (Suc index) entry s"
    using Suc.prems(2) [of index] assms(1)
    by (subst create_thread_from.simps) (simp add: MAX_THREADS_def)
  then show ?case using Suc.hyps(1) [of "Suc index"] Suc.hyps(2) \<open>index < i\<close> Suc.prems(2) by simp
qed

lemma create_thread_from_none:
  assumes "\<And>k. index \<le> k \<Longrightarrow> k < 16 \<Longrightarrow> thread_active (threads s ! k)"
  shows "create_thread_from index entry s = (False, scheduler_unlock s)"
  using assms
proof (induction "16 - index" arbitrary: index)
  case 0
  then show ?case by (subst create_thread_from.simps) (simp add: MAX_THREADS_def)
next
  case (Suc d)
  then show ?case
    using Suc.hyps(1) [of "Suc index"] Suc.prems [of index]
    by (subst create_thread_from.simps) (simp add: MAX_THREADS_def)
qed

lemma create_thread_cases:
  assumes inv: "sched_inv s"
  shows "(\<forall>k. 0 < k \<and> k < 16 \<longrightarrow> thread_active (threads s ! k))
      \<and> scheduler_create_thread entry s = Some (False, s)
    \<or> (\<exists>i s'. 0 < i \<and> i < 16 \<and> \<not> thread_active (threads s ! i)
      \<and> scheduler_create_thread entry s = Some (True, s') \<and> sched_inv s'
      \<and> threads s' = (threads s)[i := \<lparr>stack_pointer = thread_stacks s + of_nat (i + 1) * THREAD_STACK_SIZE - 72,
           thread_entry = entry, thread_active = True\<rparr>]
      \<and> frame_at (stack_mem s') (stack_pointer (threads s' ! i)) (replicate 8 0) (thread_bootstrap s)
      \<and> cpu_rsp s' = cpu_rsp s \<and> runnable s' i)"
proof (cases "\<forall>k. 0 < k \<and> k < 16 \<longrightarrow> thread_active (threads s ! k)")
  note I = sched_invD [OF inv]
  have ul: "scheduler_unlock (s\<lparr>scheduler_lock_value := 1\<rparr>) = s"
    using I(5) by (simp add: scheduler_unlock_def)
  {
    case True
    then have "scheduler_create_thread entry s = Some (False, s)"
      using create_thread_from_none [of 1 "s\<lparr>scheduler_lock_value := 1\<rparr>" entry]
        scheduler_lock_free [OF I(5)] ul by (simp add: scheduler_create_thread_def)
    then show ?thesis using True by blast
  }
  case False
  then obtain i where i: "0 < i" "i < 16" "\<not> thread_active (threads s ! i)"
    "\<And>k. 1 \<le> k \<Longrightarrow> k < i \<Longrightarrow> thread_active (threads s ! k)"
    using exists_least_iff [of "\<lambda>k. 0 < k \<and> k < 16 \<and> \<not> thread_active (threads s ! k)"]
    by (metis less_le_trans less_trans zero_less_one)
  let ?l = "s\<lparr>scheduler_lock_value := 1\<rparr>"
  let ?top = "thread_stacks s + of_nat (i + 1) * THREAD_STACK_SIZE"
  let ?stores = "fold store_below (thread_bootstrap s # replicate 8 0) (?top, stack_mem s)"
  have st: "new_thread_stack i ?l = ?stores" by (simp add: new_thread_stack_def)
  have sp: "fst ?stores = ?top - 72" using store_below_sp [of "thread_bootstrap s # replicate 8 0"] by simp
  have fr: "frame_at (snd ?stores) (?top - 72) (replicate 8 0) (thread_bootstrap s)"
    using frame_of_stores [of "thread_bootstrap s # replicate 8 0" ?top "stack_mem s"] by simp
  define s' where "s' = s\<lparr>stack_mem := snd ?stores,
      threads := (threads s)[i := \<lparr>stack_pointer = ?top - 72, thread_entry = entry, thread_active = True\<rparr>],
      thread_count := (if i \<ge> thread_count s then i + 1 else thread_count s)\<rparr>"
  have "scheduler_create_thread entry s = Some (True, s')"
    using create_thread_from_slot [of i ?l 1 entry] i scheduler_lock_free [OF I(5)] I(5) st sp
    by (simp add: scheduler_create_thread_def s'_def scheduler_unlock_def)
  moreover have "sched_inv s'"
    using I i unfolding sched_inv_def
    by (auto simp: s'_def nth_list_update) (metis I(7) less_SucI less_le_trans)
  moreover have "runnable s' i" using I i by (simp add: s'_def runnable_def)
  ultimately show ?thesis
    using i I(1) fr by (intro disjI2 exI [of _ i] exI [of _ s']) (simp add: s'_def)
qed

text \<open>A sample state: the scheduler after initialisation, on a boot stack below the thread stacks.\<close>

definition sched_boot :: sched_state where
  "sched_boot = scheduler_initialize
     \<lparr>threads = replicate 16 \<lparr>stack_pointer = 0, thread_entry = 0, thread_active = False\<rparr>,
      current_thread = 0, thread_count = 0, preemption_enabled = False, scheduler_lock_value = 0,
      stack_mem = (\<lambda>_. 0), cpu_rsp = 0x10000, cpu_rip = 0x400000, callee_saved = [1, 2, 3, 4, 5, 6, 7, 8],
      thread_stacks = 0x100000, thread_bootstrap = 0x500000\<rparr>"

lemma scheduler_initialize_inv:
  assumes "length (threads s) = 16" "scheduler_lock_value s = 0" "length (callee_saved s) = 8"
  shows "sched_inv (scheduler_initialize s)" "runnable (scheduler_initialize s) 0"
proof -
  show "runnable (scheduler_initialize s) 0"
    using assms by (simp add: runnable_def scheduler_initialize_def)
  have "thread_active (threads (scheduler_initialize s) ! i) \<Longrightarrow> i < 1" if "i < 16" for i
    using assms that by (cases i) (auto simp: scheduler_initialize_def)
  then show "sched_inv (scheduler_initialize s)"
    using assms unfolding sched_inv_def by (auto simp: scheduler_initialize_def)
qed

lemma sched_boot_inv: "sched_inv sched_boot" "runnable sched_boot 0"
  unfolding sched_boot_def by (rule scheduler_initialize_inv; simp)+

lemma sched_boot_simps [simp]:
  "current_thread sched_boot = 0" "thread_count sched_boot = 1" "cpu_rsp sched_boot = 0x10000"
  "thread_stacks sched_boot = 0x100000" "length (callee_saved sched_boot) = 8"
  "length (threads sched_boot) = 16"
  by (simp_all add: sched_boot_def scheduler_initialize_def)

section \<open>Properties\<close>

text \<open>\<open>scheduler_yield\<close> is round-robin: it returns, and control goes to the runnable thread that
  comes first after the current one around the table (the current one itself when it is alone).
  The set of runnable threads and the invariant are kept.\<close>

theorem scheduler_yield_round_robin:
  assumes "sched_inv s" and "runnable s j"
  shows "\<exists>s'. scheduler_yield s = Some s' \<and> sched_inv s' \<and> runnable s' = runnable s
    \<and> runnable s (current_thread s')
    \<and> (\<forall>i. runnable s i \<longrightarrow> ring_distance (thread_count s) (current_thread s) (current_thread s')
         \<le> ring_distance (thread_count s) (current_thread s) i)"
  using scheduler_yield_nearest [OF assms] by metis

theorem scheduler_yield_round_robin_witness:
  "\<exists>s'. scheduler_yield sched_boot = Some s' \<and> sched_inv s' \<and> runnable sched_boot (current_thread s')"
  using scheduler_yield_round_robin [OF sched_boot_inv] by blast

text \<open>C11: no thread starves: while the set of runnable threads stays as it is, every runnable thread
  gets the processor within as many yields as the table has slots in use.\<close>

theorem scheduler_fair:
  assumes "sched_inv s" and "runnable s j"
  shows "\<exists>k s'. 0 < k \<and> k \<le> thread_count s \<and> yields k s = Some s' \<and> current_thread s' = j"
proof -
  have "ring_distance (thread_count s) (current_thread s) j \<le> thread_count s"
    using assms sched_invD(4) [OF assms(1)] by (intro ring_distance_bounds) (simp_all add: runnable_def)
  then show ?thesis using yields_reach [OF assms] by (metis le_trans)
qed

theorem scheduler_fair_witness:
  "\<exists>k s'. 0 < k \<and> k \<le> 1 \<and> yields k sched_boot = Some s' \<and> current_thread s' = 0"
  using scheduler_fair [OF sched_boot_inv] by simp

text \<open>a context switch away from a thread and a later switch back restore its registers, its
  return address and its stack pointer, provided nothing wrote to the nine saved words meanwhile
  and the stack of the thread switched away from does not overlap them.\<close>

theorem context_switch_restores:
  assumes "length (callee_saved s) = 8" and "length (callee_saved t) = 8"
    and "a < length (threads s)"
    and sa: "sa = stack_pointer (threads (context_switch a sp s) ! a)"
    and kept: "\<And>k. k < 9 \<Longrightarrow> stack_mem t (sa + 8 * of_nat k)
      = stack_mem (context_switch a sp s) (sa + 8 * of_nat k)"
    and sep: "\<And>k. k < 9 \<Longrightarrow> \<not> saved_word t (sa + 8 * of_nat k)"
  shows "callee_saved (context_switch b sa t) = callee_saved s
    \<and> cpu_rip (context_switch b sa t) = cpu_rip s \<and> cpu_rsp (context_switch b sa t) = cpu_rsp s"
proof -
  have sa': "sa = cpu_rsp s - 72"
    using assms(1,3) by (simp add: sa context_switch_threads)
  have "frame_at (stack_mem (context_switch a sp s)) sa (callee_saved s) (cpu_rip s)"
    unfolding context_switch_threads push_words_simps sa'
    using frame_of_stores [of "cpu_rip s # callee_saved s"] assms(1) by simp
  then have "frame_at (stack_mem t) sa (callee_saved s) (cpu_rip s)"
    using kept kept [of 8] unfolding frame_at_def by simp
  then show ?thesis
    using switch_to_frame [OF _ assms(2) sep] sa' by simp
qed

theorem context_switch_restores_witness:
  "callee_saved (context_switch 1 (0x10000 - 72)
     (context_switch 0 0x104000 sched_boot\<lparr>cpu_rsp := 0x104000\<rparr>)) = callee_saved sched_boot"
proof -
  have sa: "0x10000 - 72 = stack_pointer (threads (context_switch 0 0x104000 sched_boot) ! 0)"
    by (simp add: context_switch_threads)
  have "unat (of_nat (65464 + 8 * k) :: u64) = 65464 + 8 * k" if "k < 9" for k
    using that by (simp only: unat_of_nat) simp
  then have n: "\<not> saved_word (s\<lparr>cpu_rsp := 0x104000\<rparr>) (0x10000 - 72 + 8 * of_nat k)" if "k < 9" for k s
    using that that [THEN Suc_leI] by (intro not_saved_word) simp_all
  have l: "length (callee_saved (context_switch 0 0x104000 sched_boot\<lparr>cpu_rsp := 0x104000\<rparr>)) = 8"
    using context_switch_threads(5) [of 0 "0x104000" sched_boot] by simp
  show ?thesis
    using context_switch_restores [OF _ l _ sa _ n, of 1] by (simp del: of_nat_Suc)
qed

text \<open>\<open>scheduler_create_thread\<close> fails only when all fifteen slots are taken; otherwise it claims a
  free slot, makes it runnable, and the first switch to it enters \<open>thread_bootstrap\<close> at the top of
  the slot's own stack with cleared registers.\<close>

theorem new_thread_starts_at_bootstrap:
  assumes "sched_inv s"
    and "\<exists>k. 0 < k \<and> k < 16 \<and> \<not> thread_active (threads s ! k)"
    and sep: "\<And>i k. i < 16 \<Longrightarrow> k < 9 \<Longrightarrow>
      \<not> saved_word s (thread_stacks s + of_nat (i + 1) * THREAD_STACK_SIZE - 72 + 8 * of_nat k)"
  shows "\<exists>i s'. scheduler_create_thread entry s = Some (True, s') \<and> sched_inv s' \<and> runnable s' i
    \<and> \<not> thread_active (threads s ! i) \<and> thread_entry (threads s' ! i) = entry
    \<and> (let t = context_switch (current_thread s') (stack_pointer (threads s' ! i)) s' in
        cpu_rip t = thread_bootstrap s \<and> callee_saved t = replicate 8 0
        \<and> cpu_rsp t = thread_stacks s + of_nat (i + 1) * THREAD_STACK_SIZE)"
proof -
  obtain i s' where i: "i < 16" "\<not> thread_active (threads s ! i)"
    "scheduler_create_thread entry s = Some (True, s')" "sched_inv s'"
    and th: "threads s' = (threads s)[i := \<lparr>stack_pointer = thread_stacks s + of_nat (i + 1) * THREAD_STACK_SIZE - 72,
           thread_entry = entry, thread_active = True\<rparr>]"
    and fr: "frame_at (stack_mem s') (stack_pointer (threads s' ! i)) (replicate 8 0) (thread_bootstrap s)"
    and rs: "cpu_rsp s' = cpu_rsp s" "runnable s' i"
    using create_thread_cases [OF assms(1), of entry] assms(2) by blast
  have slot: "threads s' ! i = \<lparr>stack_pointer = thread_stacks s + of_nat (i + 1) * THREAD_STACK_SIZE - 72,
           thread_entry = entry, thread_active = True\<rparr>"
    using th i(1) sched_invD(1) [OF assms(1)] by simp
  have "\<not> saved_word s' (stack_pointer (threads s' ! i) + 8 * of_nat k)" if "k < 9" for k
    using sep [OF i(1) that] rs(1) by (simp add: slot saved_word_def)
  note sw = switch_to_frame [OF fr sched_invD(6) [OF i(4)] this, where p = "current_thread s'"]
  have "cpu_rsp (context_switch (current_thread s') (stack_pointer (threads s' ! i)) s')
      = thread_stacks s + of_nat (i + 1) * THREAD_STACK_SIZE"
    using sw(3) by (simp add: slot)
  then show ?thesis using i rs slot sw(1,2) by (auto simp: Let_def)
qed

theorem new_thread_starts_at_bootstrap_witness:
  "\<exists>i s'. scheduler_create_thread 0x600000 sched_boot = Some (True, s') \<and> runnable s' i
    \<and> cpu_rip (context_switch (current_thread s') (stack_pointer (threads s' ! i)) s') = 0x500000"
proof -
  have "unat (of_nat (0x100000 + (i + 1) * 16384 - 72 + 8 * k) :: u64) = 0x100000 + (i + 1) * 16384 - 72 + 8 * k"
    if "i < 16" "k < 9" for i k
    using that by (simp only: unat_of_nat) simp
  moreover have "thread_stacks sched_boot + of_nat (i + 1) * THREAD_STACK_SIZE - 72 + 8 * of_nat k
      = of_nat (0x100000 + (i + 1) * 16384 - 72 + 8 * k)" for i k
    by (simp add: THREAD_STACK_SIZE_def)
  ultimately have sep: "\<not> saved_word sched_boot
      (thread_stacks sched_boot + of_nat (i + 1) * THREAD_STACK_SIZE - 72 + 8 * of_nat k)"
    if "i < 16" "k < 9" for i k
    using that by (intro not_saved_word) simp_all
  have b: "thread_bootstrap sched_boot = 0x500000" "\<not> thread_active (threads sched_boot ! 1)"
    by (simp_all add: sched_boot_def scheduler_initialize_def)
  then have "\<exists>k. 0 < k \<and> k < 16 \<and> \<not> thread_active (threads sched_boot ! k)"
    by (intro exI [of _ 1]) simp
  from new_thread_starts_at_bootstrap [OF sched_boot_inv(1) this sep, of "0x600000"]
  show ?thesis by (auto simp: Let_def b)
qed

end
