(* ===== verification/Input_Devices.thy ===== *)
theory Input_Devices
  imports Asas_Prelude
begin

text \<open>
  \<^verbatim>\<open>src/kernel/keyboard.c\<close> and \<^verbatim>\<open>src/kernel/mouse.c\<close>: the PS/2 keyboard with its ring of 64
  characters, and the mouse accumulators.  The controller behind the two ports is hardware: the
  operations that touch it take \<open>inb\<close> and \<open>outb\<close>, functions on a hardware state of any type.
  Characters are bytes.  The mouse deltas are 64-bit and 32-bit two's complement words, so the
  accumulators wrap as they do in the compiled code.
\<close>

section \<open>Data\<close>

definition PS2_DATA_PORT :: u16 where "PS2_DATA_PORT = 0x60"
definition PS2_STATUS_PORT :: u16 where "PS2_STATUS_PORT = 0x64"
definition PS2_COMMAND_PORT :: u16 where "PS2_COMMAND_PORT = 0x64"
definition PS2_STATUS_OUTPUT_FULL :: u8 where "PS2_STATUS_OUTPUT_FULL = 0x01"
definition PS2_STATUS_INPUT_FULL :: u8 where "PS2_STATUS_INPUT_FULL = 0x02"

record keyboard_state =
  interrupt_count :: u64
  last_scancode :: u8
  character_queue :: "u8 list"
  queue_read :: u32
  queue_write :: u32
  shift_pressed :: bool

record mouse_state =
  current_x :: u64
  current_y :: u64
  current_buttons :: u8
  report_count :: u64
  absolute_x :: u32
  absolute_y :: u32
  absolute_buttons :: u8
  absolute_pending :: bool
  s_scroll_accum :: u32

type_synonym 'h inbyte = "u16 \<Rightarrow> 'h \<Rightarrow> u8 \<times> 'h"
type_synonym 'h outbyte = "u16 \<Rightarrow> u8 \<Rightarrow> 'h \<Rightarrow> 'h"

section \<open>Keyboard\<close>

definition char_code :: "char \<Rightarrow> u8" where
  "char_code c = of_char c"

definition translate_normal :: "u8 list" where
  "translate_normal = [0, 0] @ map char_code ''1234567890-='' @ [8, 9]
     @ map char_code ''qwertyuiop[]'' @ [10, 0]
     @ map char_code ''asdfghjkl;'' @ [39, 96, 0, 92]
     @ map char_code ''zxcvbnm,./'' @ [0, 42, 0, 32]"

definition translate_shifted :: "u8 list" where
  "translate_shifted = [0, 0] @ map char_code ''!@#$%^&*()_+'' @ [8, 9]
     @ map char_code ''QWERTYUIOP{}'' @ [10, 0]
     @ map char_code ''ASDFGHJKL:'' @ [34, 126, 0, 124]
     @ map char_code ''ZXCVBNM<>?'' @ [0, 42, 0, 32]"

definition translate_scancode :: "u8 \<Rightarrow> keyboard_state \<Rightarrow> u8" where
  "translate_scancode scancode k =
     (if unat scancode \<ge> length translate_normal then 0
      else if shift_pressed k then translate_shifted ! unat scancode
      else translate_normal ! unat scancode)"

definition queue_character :: "u8 \<Rightarrow> keyboard_state \<Rightarrow> keyboard_state" where
  "queue_character c k =
     (let nxt = (queue_write k + 1) mod 64 in
      if nxt \<noteq> queue_read k
      then k\<lparr>character_queue := (character_queue k)[unat (queue_write k) := c], queue_write := nxt\<rparr>
      else k)"

function wait_from :: "nat \<Rightarrow> nat \<Rightarrow> (u8 \<Rightarrow> bool) \<Rightarrow> 'h inbyte \<Rightarrow> 'h \<Rightarrow> bool \<times> 'h" where
  "wait_from timeout limit ready inb h =
     (if timeout < limit then
        let (status, h1) = inb PS2_STATUS_PORT h in
        if ready status then (True, h1) else wait_from (Suc timeout) limit ready inb h1
      else (False, h))"
  by pat_completeness auto
termination by (relation "measure (\<lambda>(timeout, limit, _). limit - timeout)") auto

definition wait_input_empty :: "'h inbyte \<Rightarrow> 'h \<Rightarrow> bool \<times> 'h" where
  "wait_input_empty inb h =
     wait_from 0 1000000 (\<lambda>status. status AND PS2_STATUS_INPUT_FULL = 0) inb h"

function flush_from :: "nat \<Rightarrow> 'h inbyte \<Rightarrow> 'h \<Rightarrow> 'h" where
  "flush_from timeout inb h =
     (if timeout < 256 then
        let (status, h1) = inb PS2_STATUS_PORT h in
        if status AND PS2_STATUS_OUTPUT_FULL = 0 then h1
        else flush_from (Suc timeout) inb (snd (inb PS2_DATA_PORT h1))
      else h)"
  by pat_completeness auto
termination by (relation "measure (\<lambda>(timeout, _). 256 - timeout)") auto

definition flush_output :: "'h inbyte \<Rightarrow> 'h \<Rightarrow> 'h" where
  "flush_output = flush_from 0"

definition keyboard_initialize ::
  "'h inbyte \<Rightarrow> 'h outbyte \<Rightarrow> keyboard_state \<Rightarrow> 'h \<Rightarrow> bool \<times> keyboard_state \<times> 'h" where
  "keyboard_initialize inb outb k h =
     (let k1 = k\<lparr>interrupt_count := 0, last_scancode := 0, queue_read := 0, queue_write := 0,
                 shift_pressed := False\<rparr>;
          (status, h1) = inb PS2_STATUS_PORT h
      in if status = 0xFF then (False, k1, h1)
         else let (ok1, h2) = wait_input_empty inb h1 in
           if \<not> ok1 then (False, k1, h2)
           else let h3 = flush_output inb (outb PS2_COMMAND_PORT 0xAD h2);
                    (ok2, h4) = wait_input_empty inb h3
                in if \<not> ok2 then (False, k1, h4)
                   else (True, k1, flush_output inb (outb PS2_COMMAND_PORT 0xAE h4)))"

definition keyboard_has_data :: "'h inbyte \<Rightarrow> 'h \<Rightarrow> bool \<times> 'h" where
  "keyboard_has_data inb h =
     (let (status, h1) = inb PS2_STATUS_PORT h in (status AND PS2_STATUS_OUTPUT_FULL \<noteq> 0, h1))"

definition keyboard_read_scancode :: "'h inbyte \<Rightarrow> 'h \<Rightarrow> u8 \<times> 'h" where
  "keyboard_read_scancode inb h = inb PS2_DATA_PORT h"

definition keyboard_read_character :: "keyboard_state \<Rightarrow> u8 option \<times> keyboard_state" where
  "keyboard_read_character k =
     (if queue_read k = queue_write k then (None, k)
      else (Some (character_queue k ! unat (queue_read k)),
            k\<lparr>queue_read := (queue_read k + 1) mod 64\<rparr>))"

definition keyboard_inject_character :: "u8 \<Rightarrow> keyboard_state \<Rightarrow> keyboard_state" where
  "keyboard_inject_character = queue_character"

definition keyboard_inject_scancode :: "u8 \<Rightarrow> keyboard_state \<Rightarrow> keyboard_state" where
  "keyboard_inject_scancode scancode k =
     (if scancode = 0x2A \<or> scancode = 0x36 then k\<lparr>shift_pressed := True\<rparr>
      else if scancode = 0xAA \<or> scancode = 0xB6 then k\<lparr>shift_pressed := False\<rparr>
      else if scancode AND 0x80 \<noteq> 0 then k
      else let character = translate_scancode scancode k in
        if character \<noteq> 0 then queue_character character k else k)"

function poll_from :: "nat \<Rightarrow> 'h inbyte \<Rightarrow> keyboard_state \<Rightarrow> 'h \<Rightarrow> keyboard_state \<times> 'h" where
  "poll_from limit inb k h =
     (if limit < 16 then
        let (has, h1) = keyboard_has_data inb h in
        if has then
          let (scancode, h2) = keyboard_read_scancode inb h1
          in poll_from (Suc limit) inb (keyboard_inject_scancode scancode k) h2
        else (k, h1)
      else (k, h))"
  by pat_completeness auto
termination by (relation "measure (\<lambda>(limit, _). 16 - limit)") auto

definition keyboard_poll_controller :: "'h inbyte \<Rightarrow> keyboard_state \<Rightarrow> 'h \<Rightarrow> keyboard_state \<times> 'h" where
  "keyboard_poll_controller = poll_from 0"

definition keyboard_interrupt_handler ::
  "'h inbyte \<Rightarrow> ('h \<Rightarrow> 'h) \<Rightarrow> keyboard_state \<Rightarrow> 'h \<Rightarrow> keyboard_state \<times> 'h" where
  "keyboard_interrupt_handler inb apic_eoi k h =
     (let (has, h1) = keyboard_has_data inb h in
      if has then
        let (scancode, h2) = keyboard_read_scancode inb h1;
            k1 = k\<lparr>last_scancode := scancode, interrupt_count := interrupt_count k + 1\<rparr>;
            k2 = (if scancode = 0x2A \<or> scancode = 0x36 then k1\<lparr>shift_pressed := True\<rparr>
                  else if scancode = 0xAA \<or> scancode = 0xB6 then k1\<lparr>shift_pressed := False\<rparr>
                  else if scancode AND 0x80 = 0 then
                    let character = translate_scancode scancode k1 in
                    if character \<noteq> 0 then queue_character character k1 else k1
                  else k1)
        in (k2, apic_eoi h2)
      else (k, apic_eoi h1))"

definition keyboard_interrupt_count :: "keyboard_state \<Rightarrow> u64" where
  "keyboard_interrupt_count k = interrupt_count k"

declare wait_from.simps [simp del] flush_from.simps [simp del] poll_from.simps [simp del]

section \<open>Mouse\<close>

definition wait_output_full :: "'h inbyte \<Rightarrow> 'h \<Rightarrow> bool \<times> 'h" where
  "wait_output_full inb h =
     wait_from 0 1000000 (\<lambda>status. status AND PS2_STATUS_OUTPUT_FULL \<noteq> 0) inb h"

definition mouse_initialize :: "'h inbyte \<Rightarrow> 'h outbyte \<Rightarrow> 'h \<Rightarrow> bool \<times> 'h" where
  "mouse_initialize inb outb h =
     (let (ok1, h1) = wait_input_empty inb h in
      if \<not> ok1 then (False, h1)
      else let (ok2, h2) = wait_input_empty inb (outb PS2_COMMAND_PORT 0xA8 h1) in
      if \<not> ok2 then (False, h2)
      else let (ok3, h3) = wait_input_empty inb (outb PS2_COMMAND_PORT 0xD4 h2) in
      if \<not> ok3 then (False, h3)
      else let (ok4, h4) = wait_output_full inb (outb PS2_DATA_PORT 0xF4 h3) in
      if \<not> ok4 then (False, h4)
      else let (answer, h5) = inb PS2_DATA_PORT h4 in (answer = 0xFA, h5))"

definition mouse_inject_report :: "u64 \<Rightarrow> u64 \<Rightarrow> u8 \<Rightarrow> mouse_state \<Rightarrow> mouse_state" where
  "mouse_inject_report delta_x delta_y buttons m =
     m\<lparr>current_x := current_x m + delta_x, current_y := current_y m + delta_y,
       current_buttons := buttons, report_count := report_count m + 1\<rparr>"

definition mouse_inject_absolute :: "u32 \<Rightarrow> u32 \<Rightarrow> u8 \<Rightarrow> mouse_state \<Rightarrow> mouse_state" where
  "mouse_inject_absolute x y buttons m =
     m\<lparr>absolute_x := x, absolute_y := y, absolute_buttons := buttons, absolute_pending := True,
       current_buttons := buttons, report_count := report_count m + 1\<rparr>"

text \<open>The results that the C functions store through their pointers are returned; a caller that
  passes a null pointer ignores that component.\<close>

definition mouse_consume_delta :: "mouse_state \<Rightarrow> (u64 \<times> u64 \<times> u8) \<times> mouse_state" where
  "mouse_consume_delta m =
     ((current_x m, current_y m, current_buttons m), m\<lparr>current_x := 0, current_y := 0\<rparr>)"

definition mouse_consume_absolute :: "mouse_state \<Rightarrow> (u32 \<times> u32 \<times> u8) option \<times> mouse_state" where
  "mouse_consume_absolute m =
     (if \<not> absolute_pending m then (None, m)
      else (Some (absolute_x m, absolute_y m, absolute_buttons m), m\<lparr>absolute_pending := False\<rparr>))"

definition mouse_x :: "mouse_state \<Rightarrow> u64" where "mouse_x m = current_x m"
definition mouse_y :: "mouse_state \<Rightarrow> u64" where "mouse_y m = current_y m"
definition mouse_buttons :: "mouse_state \<Rightarrow> u8" where "mouse_buttons m = current_buttons m"
definition mouse_report_count :: "mouse_state \<Rightarrow> u64" where "mouse_report_count m = report_count m"

definition mouse_inject_scroll :: "u32 \<Rightarrow> mouse_state \<Rightarrow> mouse_state" where
  "mouse_inject_scroll delta m = m\<lparr>s_scroll_accum := s_scroll_accum m + delta\<rparr>"

definition mouse_consume_scroll :: "mouse_state \<Rightarrow> u32 \<times> mouse_state" where
  "mouse_consume_scroll m = (s_scroll_accum m, m\<lparr>s_scroll_accum := 0\<rparr>)"

section \<open>Specification and lemmas\<close>

text \<open>The characters waiting in the ring, oldest first.\<close>

definition waiting :: "keyboard_state \<Rightarrow> u8 list" where
  "waiting k = map (\<lambda>i. character_queue k ! ((unat (queue_read k) + i) mod 64))
     [0 ..< (64 + unat (queue_write k) - unat (queue_read k)) mod 64]"

definition keyboard_inv :: "keyboard_state \<Rightarrow> bool" where
  "keyboard_inv k \<longleftrightarrow> length (character_queue k) = 64
     \<and> unat (queue_read k) < 64 \<and> unat (queue_write k) < 64"

lemma unat_next_64: "unat (i :: u32) < 64 \<Longrightarrow> unat ((i + 1) mod 64) = (unat i + 1) mod 64"
  by (simp add: unat_mod_distrib unat_word_ariths)

lemma ring_length:
  assumes "r < 64" "w < 64" "(w + 1) mod 64 \<noteq> (r :: nat)"
  shows "(64 + (w + 1) mod 64 - r) mod 64 = Suc ((64 + w - r) mod 64)" "(64 + w - r) mod 64 < 63"
    "(r + (64 + w - r) mod 64) mod 64 = w"
proof -
  consider "w = 63" "0 < r" | "w < 63" "w + 1 \<noteq> r" using assms by (cases "w = 63") auto
  then have "(64 + (w + 1) mod 64 - r) mod 64 = Suc ((64 + w - r) mod 64)
      \<and> (64 + w - r) mod 64 < 63 \<and> (r + (64 + w - r) mod 64) mod 64 = w"
  proof cases
    case 2
    then show ?thesis
      using assms by (cases "r \<le> w") (auto simp: Suc_diff_le mod_if)
  qed (use assms in \<open>auto simp: mod_if\<close>)
  then show "(64 + (w + 1) mod 64 - r) mod 64 = Suc ((64 + w - r) mod 64)" "(64 + w - r) mod 64 < 63"
    "(r + (64 + w - r) mod 64) mod 64 = w" by blast+
qed

lemma ring_index_inj:
  assumes "r < 64" "i < 64" "j < 64" "(r + i) mod 64 = (r + j) mod (64 :: nat)"
  shows "i = j"
  using assms by (auto simp: mod_if split: if_splits)

lemma length_waiting: "length (waiting k) = (64 + unat (queue_write k) - unat (queue_read k)) mod 64"
  by (simp add: waiting_def)

lemma queue_character_waiting:
  assumes inv: "keyboard_inv k"
  shows "keyboard_inv (queue_character c k)"
    "waiting (queue_character c k) = (if length (waiting k) < 63 then waiting k @ [c] else waiting k)"
proof -
  let ?r = "unat (queue_read k)" and ?w = "unat (queue_write k)"
  let ?n = "(64 + ?w - ?r) mod 64"
  have b: "?r < 64" "?w < 64" "length (character_queue k) = 64" using inv by (simp_all add: keyboard_inv_def)
  have nw: "unat ((queue_write k + 1) mod 64) = (?w + 1) mod 64" using b(2) by (rule unat_next_64)
  show "keyboard_inv (queue_character c k)"
    using inv nw by (simp add: keyboard_inv_def queue_character_def Let_def)
  show "waiting (queue_character c k) = (if length (waiting k) < 63 then waiting k @ [c] else waiting k)"
  proof (cases "(queue_write k + 1) mod 64 = queue_read k")
    case True
    then have "(?w + 1) mod 64 = ?r" using nw by simp
    then have "?n = 63" using b by (auto simp: mod_if split: if_splits)
    then show ?thesis using True by (simp add: queue_character_def length_waiting)
  next
    case False
    then have "(?w + 1) mod 64 \<noteq> ?r" using nw by (metis word_unat_eq_iff)
    note R = ring_length [OF b(1,2) this]
    let ?k = "k\<lparr>character_queue := (character_queue k)[?w := c], queue_write := (queue_write k + 1) mod 64\<rparr>"
    have "(character_queue k)[?w := c] ! ((?r + i) mod 64) = character_queue k ! ((?r + i) mod 64)"
      if "i < ?n" for i
    proof -
      have "(?r + i) mod 64 \<noteq> ?w" using ring_index_inj [OF b(1), of i ?n] R(2,3) that by auto
      then show ?thesis by simp
    qed
    then have "waiting ?k = waiting k @ [c]"
      using R b nw by (simp add: waiting_def)
    then show ?thesis using False R(2) by (simp add: queue_character_def Let_def length_waiting)
  qed
qed

lemma keyboard_read_waiting:
  assumes inv: "keyboard_inv k"
  shows "waiting k = [] \<Longrightarrow> keyboard_read_character k = (None, k)"
    "waiting k = c # cs \<Longrightarrow> \<exists>k'. keyboard_read_character k = (Some c, k') \<and> keyboard_inv k'
      \<and> waiting k' = cs \<and> shift_pressed k' = shift_pressed k"
proof -
  let ?r = "unat (queue_read k)" and ?w = "unat (queue_write k)"
  have b: "?r < 64" "?w < 64" "length (character_queue k) = 64" using inv by (simp_all add: keyboard_inv_def)
  have eq: "(64 + ?w - ?r) mod 64 = 0 \<longleftrightarrow> queue_read k = queue_write k"
    using b by (auto simp: mod_if word_unat_eq_iff split: if_splits)
  {
    assume "waiting k = []"
    then have "(64 + ?w - ?r) mod 64 = 0" using length_waiting [of k] by simp
    then show "keyboard_read_character k = (None, k)" using eq by (simp add: keyboard_read_character_def)
  }
  assume w: "waiting k = c # cs"
  let ?k = "k\<lparr>queue_read := (queue_read k + 1) mod 64\<rparr>"
  have n: "(64 + ?w - ?r) mod 64 = Suc (length cs)" using w length_waiting [of k] by simp
  then have ne: "queue_read k \<noteq> queue_write k" using eq by auto
  have nr: "unat ((queue_read k + 1) mod 64) = (?r + 1) mod 64" using b(1) by (rule unat_next_64)
  have n': "(64 + ?w - (?r + 1) mod 64) mod 64 = length cs"
    using n b by (auto simp: mod_if split: if_splits)
  have "waiting k = character_queue k ! ?r
      # map (\<lambda>i. character_queue k ! ((?r + Suc i) mod 64)) [0 ..< length cs]"
    unfolding waiting_def n
    using b(1) by (simp add: upt_conv_Cons map_Suc_upt [symmetric] del: upt_Suc)
  then have c: "c = character_queue k ! ?r"
    "cs = map (\<lambda>i. character_queue k ! ((?r + Suc i) mod 64)) [0 ..< length cs]"
    using w by simp_all
  have "waiting ?k = cs"
    unfolding waiting_def using c(2) n' nr by (simp add: mod_simps)
  moreover have "keyboard_inv ?k" using inv nr by (simp add: keyboard_inv_def)
  ultimately show "\<exists>k'. keyboard_read_character k = (Some c, k') \<and> keyboard_inv k'
      \<and> waiting k' = cs \<and> shift_pressed k' = shift_pressed k"
    using ne c(1) by (simp add: keyboard_read_character_def)
qed

subsection \<open>The queue interface\<close>

text \<open>Reads until the queue is empty, at most \<open>n\<close> of them.\<close>

fun drain :: "('s \<Rightarrow> 'c option \<times> 's) \<Rightarrow> nat \<Rightarrow> 's \<Rightarrow> 'c list \<times> 's" where
  "drain get 0 s = ([], s)"
| "drain get (Suc n) s =
     (case get s of (None, s1) \<Rightarrow> ([], s1)
      | (Some c, s1) \<Rightarrow> let (cs, s2) = drain get n s1 in (c # cs, s2))"

locale bounded_fifo =
  fixes put :: "'c \<Rightarrow> 's \<Rightarrow> 's" and get :: "'s \<Rightarrow> 'c option \<times> 's"
    and room :: nat and inv :: "'s \<Rightarrow> bool" and contents :: "'s \<Rightarrow> 'c list"
  assumes put_inv: "inv s \<Longrightarrow> inv (put c s)"
    and put_contents: "inv s \<Longrightarrow>
      contents (put c s) = (if length (contents s) < room then contents s @ [c] else contents s)"
    and get_empty: "inv s \<Longrightarrow> contents s = [] \<Longrightarrow> get s = (None, s)"
    and get_first: "inv s \<Longrightarrow> contents s = c # cs \<Longrightarrow>
      \<exists>s'. get s = (Some c, s') \<and> inv s' \<and> contents s' = cs"
begin

lemma puts_contents:
  assumes "inv s"
  shows "inv (fold put cs s) \<and> contents (fold put cs s) = contents s @ take (room - length (contents s)) cs"
  using assms
proof (induction cs arbitrary: s)
  case (Cons c cs)
  have "inv (put c s)" using Cons.prems by (rule put_inv)
  note IH = Cons.IH [OF this]
  show ?case
  proof (cases "length (contents s) < room")
    case True
    then obtain d where "room - length (contents s) = Suc d" "room - Suc (length (contents s)) = d"
      by (metis Suc_diff_Suc)
    then show ?thesis using IH True put_contents [OF Cons.prems] by simp
  next
    case False
    then show ?thesis using IH put_contents [OF Cons.prems] by simp
  qed
qed simp

lemma drain_contents:
  assumes "inv s" "length (contents s) \<le> n"
  shows "\<exists>s'. drain get n s = (contents s, s') \<and> inv s' \<and> contents s' = []"
  using assms
proof (induction n arbitrary: s)
  case (Suc n)
  show ?case
  proof (cases "contents s")
    case Nil
    then show ?thesis using get_empty [OF Suc.prems(1)] Suc.prems(1) by simp
  next
    case (Cons c cs)
    then obtain s1 where s1: "get s = (Some c, s1)" "inv s1" "contents s1 = cs"
      using get_first [OF Suc.prems(1)] by blast
    then obtain s2 where "drain get n s1 = (cs, s2)" "inv s2" "contents s2 = []"
      using Suc.IH [OF s1(2)] Suc.prems(2) Cons by auto
    then show ?thesis using s1 Cons by simp
  qed
qed simp

theorem puts_drain:
  assumes "inv s" "contents s = []"
  shows "fst (drain get room (fold put cs s)) = take room cs"
proof -
  have "inv (fold put cs s)" "contents (fold put cs s) = take room cs"
    using puts_contents [OF assms(1), of cs] assms(2) by simp_all
  then show ?thesis using drain_contents [of "fold put cs s" room] by auto
qed

end

interpretation keys: bounded_fifo queue_character keyboard_read_character 63 keyboard_inv waiting
  by unfold_locales
     (use queue_character_waiting keyboard_read_waiting in blast)+

lemma length_translate [simp]: "length translate_normal = 58" "length translate_shifted = 58"
  by (simp_all add: translate_normal_def translate_shifted_def)

text \<open>Typing: a press of a key that translates to a character queues that character.\<close>

definition printable :: "u8 \<Rightarrow> bool" where
  "printable scancode \<longleftrightarrow> unat scancode < 58 \<and> scancode \<noteq> 0x2A \<and> scancode \<noteq> 0x36
     \<and> translate_normal ! unat scancode \<noteq> 0"

lemma translate_zero_iff: "i < 58 \<Longrightarrow> translate_normal ! i = 0 \<longleftrightarrow> translate_shifted ! i = 0"
proof -
  have "\<forall>i \<in> set [0 ..< 58]. translate_normal ! i = 0 \<longleftrightarrow> translate_shifted ! i = 0"
    by code_simp
  then show "i < 58 \<Longrightarrow> translate_normal ! i = 0 \<longleftrightarrow> translate_shifted ! i = 0"
    by (simp only: set_upt atLeastLessThan_iff Ball_def) blast
qed

lemma inject_printable:
  assumes "printable sc"
  shows "keyboard_inject_scancode sc k = queue_character
    ((if shift_pressed k then translate_shifted else translate_normal) ! unat sc) k"
proof -
  have "unat sc < 58" using assms by (simp add: printable_def)
  then have "take_bit 7 (unat sc) = unat sc" by (simp add: take_bit_nat_eq_self_iff)
  then have "\<not> bit sc 7"
    by (metis bit_take_bit_iff less_irrefl unsigned_take_bit_eq word_unat_eq_iff)
  then have "sc AND 0x80 = 0" using and_exp_eq_0_iff_not_bit [of sc 7] by simp
  moreover have "sc \<noteq> 0xAA" "sc \<noteq> 0xB6" using \<open>unat sc < 58\<close> by auto
  ultimately show ?thesis
    using assms translate_zero_iff [of "unat sc"]
    by (auto simp: keyboard_inject_scancode_def printable_def translate_scancode_def Let_def)
qed

lemma queue_character_shift [simp]: "shift_pressed (queue_character c k) = shift_pressed k"
  by (simp add: queue_character_def Let_def)

lemma inject_printables:
  assumes "\<forall>sc \<in> set scs. printable sc"
  shows "fold keyboard_inject_scancode scs k = fold queue_character (map (\<lambda>sc.
    (if shift_pressed k then translate_shifted else translate_normal) ! unat sc) scs) k"
  using assms by (induction scs arbitrary: k) (simp_all add: inject_printable)

definition keyboard_boot :: keyboard_state where
  "keyboard_boot = \<lparr>interrupt_count = 0, last_scancode = 0, character_queue = replicate 64 0,
     queue_read = 0, queue_write = 0, shift_pressed = False\<rparr>"

lemma keyboard_boot_inv: "keyboard_inv keyboard_boot" "waiting keyboard_boot = []"
  by (simp_all add: keyboard_inv_def keyboard_boot_def waiting_def)

section \<open>Properties\<close>

text \<open>what is typed is what is read.  From an empty queue, the characters of any sequence of
  printable key presses come back in order, in upper or lower case as the shift state says; a ring
  of 64 slots keeps the first 63 and drops the rest, never overwriting.\<close>

theorem keyboard_typed_is_read:
  assumes "keyboard_inv k" and "waiting k = []" and "\<forall>sc \<in> set scs. printable sc"
  shows "fst (drain keyboard_read_character 63 (fold keyboard_inject_scancode scs k))
    = take 63 (map (\<lambda>sc. (if shift_pressed k then translate_shifted else translate_normal) ! unat sc) scs)"
  unfolding inject_printables [OF assms(3)] by (rule keys.puts_drain [OF assms(1,2)])

theorem keyboard_typed_is_read_witness:
  "fst (drain keyboard_read_character 63 (fold keyboard_inject_scancode [0x23, 0x17] keyboard_boot))
    = map char_code ''hi''"
proof -
  have "\<forall>sc \<in> set [0x23, 0x17]. printable sc" by code_simp
  from keyboard_typed_is_read [OF keyboard_boot_inv this]
  show ?thesis by (simp add: keyboard_boot_def translate_normal_def)
qed

text \<open>the mouse accumulators lose nothing: after any sequence of reports, \<open>mouse_consume_delta\<close>
  returns the sums of the deltas (modulo the word size) added to what was there, and the
  next call returns no motion.\<close>

theorem mouse_deltas_accumulate:
  fixes reports m
  defines "m' \<equiv> fold (\<lambda>(dx, dy, b). mouse_inject_report dx dy b) reports m"
  shows "fst (mouse_consume_delta m') = (current_x m + (\<Sum>(dx, dy, b) \<leftarrow> reports. dx),
      current_y m + (\<Sum>(dx, dy, b) \<leftarrow> reports. dy), last (current_buttons m # map (\<lambda>(dx, dy, b). b) reports))
    \<and> fst (fst (mouse_consume_delta (snd (mouse_consume_delta m')))) = 0
    \<and> report_count m' = report_count m + of_nat (length reports)"
proof -
  have "current_x m' = current_x m + (\<Sum>(dx, dy, b) \<leftarrow> reports. dx)
    \<and> current_y m' = current_y m + (\<Sum>(dx, dy, b) \<leftarrow> reports. dy)
    \<and> current_buttons m' = last (current_buttons m # map (\<lambda>(dx, dy, b). b) reports)
    \<and> report_count m' = report_count m + of_nat (length reports)"
    unfolding m'_def
    by (induction reports arbitrary: m) (auto simp: mouse_inject_report_def algebra_simps)
  then show ?thesis by (simp add: mouse_consume_delta_def)
qed

end
