(* ===== verification/Kernel_Syscall.thy ===== *)
theory Kernel_Syscall
  imports Asas_Prelude
begin

text \<open>
  \<^verbatim>\<open>src/kernel/syscall.c\<close>: the system call dispatcher.  The file system behind \<open>open\<close> and \<open>read\<close>
  is a parameter (its two entry points, on a state of any type), and so is the reading of a
  NUL-terminated string at a user address; log records are collected in a list.  A call either
  returns a value or halts the processor for ever.
\<close>

section \<open>Data\<close>

definition ASAS_SYSCALL_VERIFY :: u64 where "ASAS_SYSCALL_VERIFY = 1"
definition ASAS_SYSCALL_GETPID :: u64 where "ASAS_SYSCALL_GETPID = 2"
definition ASAS_SYSCALL_WRITE :: u64 where "ASAS_SYSCALL_WRITE = 3"
definition ASAS_SYSCALL_EXIT :: u64 where "ASAS_SYSCALL_EXIT = 4"
definition ASAS_SYSCALL_OPEN :: u64 where "ASAS_SYSCALL_OPEN = 5"
definition ASAS_SYSCALL_READ :: u64 where "ASAS_SYSCALL_READ = 6"

datatype syscall_result = Returns u64 | Halts

record 'v syscall_state =
  syscall_log :: "(string \<times> string) list"
  vfs_state :: 'v

section \<open>Operations\<close>

definition is_user_pointer :: "u64 \<Rightarrow> u64 \<Rightarrow> bool" where
  "is_user_pointer address len =
     (if address < 0x1000 then False
      else if address \<ge> 0x0000800000000000 then False
      else if len > 0 \<and> address + len > 0x0000800000000000 then False
      else True)"

definition logger_write :: "string \<Rightarrow> string \<Rightarrow> 'v syscall_state \<Rightarrow> 'v syscall_state" where
  "logger_write level message s = s\<lparr>syscall_log := syscall_log s @ [(level, message)]\<rparr>"

definition syscall_dispatch ::
  "(u64 \<Rightarrow> 'v \<Rightarrow> u64 \<times> 'v) \<Rightarrow> (u64 \<Rightarrow> u64 \<Rightarrow> u64 \<Rightarrow> 'v \<Rightarrow> u64 \<times> 'v) \<Rightarrow> (u64 \<Rightarrow> string) \<Rightarrow>
   u64 \<Rightarrow> u64 \<Rightarrow> u64 \<Rightarrow> u64 \<Rightarrow> 'v syscall_state \<Rightarrow> syscall_result \<times> 'v syscall_state" where
  "syscall_dispatch vfs_open vfs_read string_at number argument0 argument1 argument2 s =
     (if number = ASAS_SYSCALL_VERIFY \<and> argument0 = 0x41534153
      then (Returns 1, logger_write ''INFO'' ''user mode system call verified'' s)
      else if number = ASAS_SYSCALL_GETPID then (Returns 1, s)
      else if number = ASAS_SYSCALL_WRITE then
        if \<not> is_user_pointer argument0 argument1 then (Returns (- 1), s)
        else (Returns argument1, logger_write ''USER'' (string_at argument0) s)
      else if number = ASAS_SYSCALL_EXIT
      then (Halts, logger_write ''INFO'' ''user program exited'' s)
      else if number = ASAS_SYSCALL_OPEN then
        if \<not> is_user_pointer argument0 1 then (Returns 0, s)
        else let (r, v) = vfs_open argument0 (vfs_state s) in (Returns r, s\<lparr>vfs_state := v\<rparr>)
      else if number = ASAS_SYSCALL_READ then
        if \<not> is_user_pointer argument1 argument2 then (Returns 0, s)
        else let (r, v) = vfs_read argument0 argument1 argument2 (vfs_state s)
             in (Returns r, s\<lparr>vfs_state := v\<rparr>)
      else (Returns (- 1), s))"

section \<open>Specification and lemmas\<close>

definition in_user_space :: "u64 \<Rightarrow> u64 \<Rightarrow> bool" where
  "in_user_space address len \<longleftrightarrow> 0x1000 \<le> unat address \<and> unat address < 2 ^ 47
     \<and> unat address + unat len \<le> 2 ^ 47"

lemmas syscall_numbers = ASAS_SYSCALL_VERIFY_def ASAS_SYSCALL_GETPID_def ASAS_SYSCALL_WRITE_def
  ASAS_SYSCALL_EXIT_def ASAS_SYSCALL_OPEN_def ASAS_SYSCALL_READ_def

lemma is_user_pointer_no_wrap:
  assumes "unat address + unat len < 2 ^ 64"
  shows "is_user_pointer address len = in_user_space address len"
proof -
  have "unat (address + len) = unat address + unat len" using assms by (intro unat_add_64) simp
  moreover have "len > 0 \<longleftrightarrow> 0 < unat len" by (simp add: word_gt_0 unat_gt_0)
  ultimately show ?thesis
    by (auto simp: is_user_pointer_def in_user_space_def word_less_nat_alt word_le_nat_alt)
qed

lemma is_user_pointer_wrap:
  assumes "0x1000 \<le> unat address" "unat address < 2 ^ 47" "2 ^ 64 \<le> unat address + unat len"
  shows "is_user_pointer address len"
proof -
  have "unat (address + len) = unat address + unat len - 2 ^ 64"
    using assms by (simp add: unat_plus_if')
  moreover have "unat len < 2 ^ 64" using unat_less_64 [of len] by simp
  ultimately have "unat (address + len) < 2 ^ 47" using assms by linarith
  then show ?thesis
    using assms by (auto simp: is_user_pointer_def word_less_nat_alt word_le_nat_alt)
qed

text \<open>A file system that records the buffers it is told to fill.\<close>

definition recording_read :: "u64 \<Rightarrow> u64 \<Rightarrow> u64 \<Rightarrow> (u64 \<times> u64) list \<Rightarrow> u64 \<times> (u64 \<times> u64) list" where
  "recording_read handle buffer len v = (len, v @ [(buffer, len)])"

definition quiet_syscalls :: "(u64 \<times> u64) list syscall_state" where
  "quiet_syscalls = \<lparr>syscall_log = [], vfs_state = []\<rparr>"

section \<open>Properties\<close>



text \<open>the check does not hold when the end of the buffer wraps around: for every user address a
  length that reaches past the end of the address space is accepted, and the file system is told to
  fill a buffer that covers the whole kernel half.\<close>

theorem syscall_wrapping_buffer_accepted:
  assumes "0x1000 \<le> unat buffer" and "unat buffer < 2 ^ 47" and "2 ^ 64 \<le> unat buffer + unat len"
  shows "\<not> in_user_space buffer len
    \<and> vfs_state (snd (syscall_dispatch vfs_open recording_read string_at ASAS_SYSCALL_READ handle
        buffer len s)) = vfs_state s @ [(buffer, len)]"
  using is_user_pointer_wrap [OF assms] assms(3)
  by (simp add: syscall_dispatch_def syscall_numbers recording_read_def in_user_space_def)

theorem syscall_wrapping_buffer_accepted_witness:
  "vfs_state (snd (syscall_dispatch (\<lambda>_ v. (0, v)) recording_read (\<lambda>_. []) ASAS_SYSCALL_READ 1
      0x400000 0xFFFFFFFFFFC00000 quiet_syscalls)) = [(0x400000, 0xFFFFFFFFFFC00000)]"
  using syscall_wrapping_buffer_accepted [of "0x400000" "0xFFFFFFFFFFC00000"]
  by (simp add: quiet_syscalls_def)

end
