(* ===== verification/Block_Device.thy ===== *)
theory Block_Device
  imports Asas_Prelude
begin

text \<open>
  \<^verbatim>\<open>src/kernel/block_device.c\<close>: the table of block devices with their telemetry, the block cache they
  share, and reading and writing through them with bounds checks, retries and read-ahead.

  A device pointer is the index of the device in the table, \<open>None\<close> the null pointer.  The
  operation tables of the drivers are a parameter: \<open>drv n\<close> is the table behind the pointer \<open>n\<close>,
  each of its entries may be null, and the drivers work on a state of their own.  A driver that
  fails delivers no data (what it leaves in the buffer of a failed call is not modelled).
  A partition forwards to its parent, so reading, writing and flushing recurse along the parents;
  the recursion takes fuel, one unit for each level, and \<open>None\<close> is running out of it; for a device
  behind a driver one unit is enough.
\<close>

section \<open>Data\<close>

definition BLOCK_DEVICE_MAX_COUNT :: nat where "BLOCK_DEVICE_MAX_COUNT = 32"
definition BLOCK_CACHE_ENTRY_COUNT :: nat where "BLOCK_CACHE_ENTRY_COUNT = 16"
definition BLOCK_CACHE_MAX_BLOCK_SIZE :: u32 where "BLOCK_CACHE_MAX_BLOCK_SIZE = 4096"
definition BLOCK_RETRY_DEFAULT :: u32 where "BLOCK_RETRY_DEFAULT = 2"

definition BLOCK_DEVICE_FLAG_READ_ONLY :: u32 where "BLOCK_DEVICE_FLAG_READ_ONLY = 0x01"
definition BLOCK_DEVICE_FLAG_REMOVABLE :: u32 where "BLOCK_DEVICE_FLAG_REMOVABLE = 0x02"
definition BLOCK_DEVICE_FLAG_OPTICAL :: u32 where "BLOCK_DEVICE_FLAG_OPTICAL = 0x04"
definition BLOCK_DEVICE_FLAG_PARTITION :: u32 where "BLOCK_DEVICE_FLAG_PARTITION = 0x08"
definition BLOCK_DEVICE_FLAG_HOT_PLUG :: u32 where "BLOCK_DEVICE_FLAG_HOT_PLUG = 0x10"
definition BLOCK_DEVICE_FLAG_NO_CACHE :: u32 where "BLOCK_DEVICE_FLAG_NO_CACHE = 0x20"

definition BLOCK_DEVICE_CAPABILITY_MASK :: u32 where
  "BLOCK_DEVICE_CAPABILITY_MASK = BLOCK_DEVICE_FLAG_READ_ONLY OR BLOCK_DEVICE_FLAG_REMOVABLE
     OR BLOCK_DEVICE_FLAG_OPTICAL OR BLOCK_DEVICE_FLAG_HOT_PLUG"

record ASAS_BLOCK_DEVICE_TELEMETRY =
  read_ops :: u64
  write_ops :: u64
  flush_ops :: u64
  blocks_read :: u64
  blocks_written :: u64
  cache_hits :: u64
  cache_misses :: u64
  read_ahead_ops :: u64
  tel_retries :: u64
  tel_errors :: u64
  out_of_bounds :: u64

datatype block_ops = No_ops | Partition_ops | Driver_ops nat

record ASAS_BLOCK_DEVICE =
  bd_id :: u32
  bd_name :: string
  logical_block_size :: u32
  physical_block_size :: u32
  block_count :: u64
  bd_flags :: u32
  bd_target :: u8
  bd_lun :: u8
  start_lba :: u64
  bd_parent :: "nat option"
  bd_ops :: block_ops
  driver_context :: nat

record 'd ASAS_BLOCK_DEVICE_OPS =
  read_blocks :: "(ASAS_BLOCK_DEVICE \<Rightarrow> u64 \<Rightarrow> u32 \<Rightarrow> 'd \<Rightarrow> bytes option \<times> 'd) option"
  write_blocks :: "(ASAS_BLOCK_DEVICE \<Rightarrow> u64 \<Rightarrow> u32 \<Rightarrow> bytes \<Rightarrow> 'd \<Rightarrow> bool \<times> 'd) option"
  flush_blocks :: "(ASAS_BLOCK_DEVICE \<Rightarrow> 'd \<Rightarrow> bool \<times> 'd) option"

type_synonym 'd drivers = "nat \<Rightarrow> 'd ASAS_BLOCK_DEVICE_OPS"

record BLOCK_CACHE_ENTRY =
  ce_valid :: bool
  ce_device_id :: u32
  ce_lba :: u64
  ce_block_size :: u32
  ce_data :: bytes

record 'd block_state =
  devices :: "ASAS_BLOCK_DEVICE list"
  telemetry :: "ASAS_BLOCK_DEVICE_TELEMETRY list"
  cache_entries :: "BLOCK_CACHE_ENTRY list"
  device_count :: nat
  next_cache_slot :: u32
  driver_state :: 'd

section \<open>Registration\<close>

definition telemetry_zero :: ASAS_BLOCK_DEVICE_TELEMETRY where
  "telemetry_zero = \<lparr>read_ops = 0, write_ops = 0, flush_ops = 0, blocks_read = 0, blocks_written = 0,
     cache_hits = 0, cache_misses = 0, read_ahead_ops = 0, tel_retries = 0, tel_errors = 0,
     out_of_bounds = 0\<rparr>"

definition block_device_initialize :: "'d block_state \<Rightarrow> 'd block_state" where
  "block_device_initialize s =
     s\<lparr>device_count := 0, next_cache_slot := 0,
       devices := map (\<lambda>d. d\<lparr>bd_id := 0, bd_name := []\<rparr>) (devices s),
       telemetry := map (\<lambda>_. telemetry_zero) (telemetry s),
       cache_entries := map (\<lambda>e. e\<lparr>ce_valid := False\<rparr>) (cache_entries s)\<rparr>"

definition block_device_register ::
  "ASAS_BLOCK_DEVICE option \<Rightarrow> 'd block_state \<Rightarrow> nat option \<times> 'd block_state" where
  "block_device_register description s =
     (case description of None \<Rightarrow> (None, s)
      | Some d \<Rightarrow>
          if bd_ops d = No_ops \<or> logical_block_size d < 512 \<or> logical_block_size d > 4096
             \<or> logical_block_size d AND (logical_block_size d - 1) \<noteq> 0
             \<or> physical_block_size d \<noteq> 0
               \<and> (physical_block_size d < logical_block_size d
                  \<or> physical_block_size d AND (physical_block_size d - 1) \<noteq> 0)
             \<or> device_count s \<ge> BLOCK_DEVICE_MAX_COUNT
          then (None, s)
          else
            let flags = (if bd_flags d AND BLOCK_DEVICE_FLAG_OPTICAL \<noteq> 0
                         then bd_flags d OR BLOCK_DEVICE_FLAG_READ_ONLY else bd_flags d);
                device = d\<lparr>bd_flags := flags, bd_id := of_nat (device_count s),
                           bd_name := copy_string 16 (bd_name d)\<rparr>
            in (Some (device_count s),
                s\<lparr>devices := (devices s)[device_count s := device],
                  telemetry := (telemetry s)[device_count s := telemetry_zero],
                  device_count := device_count s + 1\<rparr>))"

definition block_device_register_partition ::
  "nat option \<Rightarrow> u64 \<Rightarrow> u64 \<Rightarrow> string \<Rightarrow> u32 \<Rightarrow> 'd block_state \<Rightarrow> nat option \<times> 'd block_state" where
  "block_device_register_partition par start cnt name flags s =
     (case par of None \<Rightarrow> (None, s)
      | Some p \<Rightarrow>
          let q = devices s ! p in
          if cnt = 0 \<or> block_count q \<noteq> 0 \<and> (start \<ge> block_count q \<or> cnt > block_count q - start)
          then (None, s)
          else block_device_register (Some \<lparr>bd_id = 0, bd_name = copy_string 16 name,
                 logical_block_size = logical_block_size q,
                 physical_block_size = physical_block_size q, block_count = cnt,
                 bd_flags = bd_flags q OR flags OR BLOCK_DEVICE_FLAG_PARTITION,
                 bd_target = bd_target q, bd_lun = bd_lun q, start_lba = start, bd_parent = par,
                 bd_ops = Partition_ops, driver_context = 0\<rparr>) s)"

definition block_device_count :: "'d block_state \<Rightarrow> u32" where
  "block_device_count s = of_nat (device_count s)"

definition block_device_get :: "u32 \<Rightarrow> 'd block_state \<Rightarrow> nat option" where
  "block_device_get index s = (if unat index < device_count s then Some (unat index) else None)"

function find_from :: "nat \<Rightarrow> string \<Rightarrow> 'd block_state \<Rightarrow> nat option" where
  "find_from index name s =
     (if index < device_count s then
        if strings_equal (bd_name (devices s ! index)) name then Some index
        else find_from (Suc index) name s
      else None)"
  by pat_completeness auto
termination by (relation "measure (\<lambda>(index, _, s). device_count s - index)") auto

definition block_device_find :: "string \<Rightarrow> 'd block_state \<Rightarrow> nat option" where
  "block_device_find = find_from 0"

declare find_from.simps [simp del]

section \<open>Cache\<close>

definition request_in_bounds :: "ASAS_BLOCK_DEVICE \<Rightarrow> u64 \<Rightarrow> u32 \<Rightarrow> bool" where
  "request_in_bounds device lba cnt =
     (if cnt = 0 then False
      else if ucast (cnt - 1) > NOT 0 - lba then False
      else if block_count device = 0 then True
      else if lba \<ge> block_count device then False
      else ucast cnt \<le> block_count device - lba)"

definition retry_budget :: "ASAS_BLOCK_DEVICE \<Rightarrow> u32" where
  "retry_budget device =
     (if bd_flags device AND BLOCK_DEVICE_FLAG_HOT_PLUG \<noteq> 0 then 1
      else if bd_flags device AND BLOCK_DEVICE_FLAG_REMOVABLE \<noteq> 0 then 3
      else BLOCK_RETRY_DEFAULT)"

definition cache_hit :: "ASAS_BLOCK_DEVICE \<Rightarrow> u64 \<Rightarrow> BLOCK_CACHE_ENTRY \<Rightarrow> bool" where
  "cache_hit device lba e \<longleftrightarrow> ce_valid e \<and> ce_device_id e = bd_id device \<and> ce_lba e = lba
     \<and> ce_block_size e = logical_block_size device"

definition no_cache :: "ASAS_BLOCK_DEVICE \<Rightarrow> bool" where
  "no_cache device \<longleftrightarrow> bd_flags device AND BLOCK_DEVICE_FLAG_NO_CACHE \<noteq> 0"

definition cache_find :: "ASAS_BLOCK_DEVICE \<Rightarrow> u64 \<Rightarrow> 'd block_state \<Rightarrow> nat option" where
  "cache_find device lba s =
     (if no_cache device then None
      else find (\<lambda>i. cache_hit device lba (cache_entries s ! i)) [0 ..< BLOCK_CACHE_ENTRY_COUNT])"

definition cache_allocate ::
  "ASAS_BLOCK_DEVICE \<Rightarrow> u64 \<Rightarrow> 'd block_state \<Rightarrow> nat option \<times> 'd block_state" where
  "cache_allocate device lba s =
     (if no_cache device \<or> logical_block_size device > BLOCK_CACHE_MAX_BLOCK_SIZE then (None, s)
      else
        let slot = unat (next_cache_slot s) mod BLOCK_CACHE_ENTRY_COUNT
        in (Some slot, s\<lparr>next_cache_slot := next_cache_slot s + 1,
             cache_entries := (cache_entries s)[slot := (cache_entries s ! slot)\<lparr>ce_valid := True,
               ce_device_id := bd_id device, ce_lba := lba,
               ce_block_size := logical_block_size device\<rparr>]\<rparr>))"

text \<open>The copy of one block into the data array of a cache entry.\<close>

definition fill_entry :: "nat \<Rightarrow> ASAS_BLOCK_DEVICE \<Rightarrow> bytes \<Rightarrow> 'd block_state \<Rightarrow> 'd block_state" where
  "fill_entry slot device data s =
     (let n = unat (logical_block_size device); e = cache_entries s ! slot
      in s\<lparr>cache_entries := (cache_entries s)[slot := e\<lparr>ce_data := take n data @ drop n (ce_data e)\<rparr>]\<rparr>)"

definition cache_store :: "ASAS_BLOCK_DEVICE \<Rightarrow> u64 \<Rightarrow> bytes \<Rightarrow> 'd block_state \<Rightarrow> 'd block_state" where
  "cache_store device lba data s =
     (case cache_find device lba s of
        Some slot \<Rightarrow> fill_entry slot device data s
      | None \<Rightarrow> (case cache_allocate device lba s of
          (None, s1) \<Rightarrow> s1
        | (Some slot, s1) \<Rightarrow> fill_entry slot device data s1))"

definition cache_invalidate_device :: "ASAS_BLOCK_DEVICE \<Rightarrow> 'd block_state \<Rightarrow> 'd block_state" where
  "cache_invalidate_device device s =
     s\<lparr>cache_entries := map (\<lambda>e. if ce_valid e \<and> ce_device_id e = bd_id device
        then e\<lparr>ce_valid := False\<rparr> else e) (cache_entries s)\<rparr>"

section \<open>Reading and writing\<close>

definition count_event ::
  "ASAS_BLOCK_DEVICE \<Rightarrow> (ASAS_BLOCK_DEVICE_TELEMETRY \<Rightarrow> ASAS_BLOCK_DEVICE_TELEMETRY) \<Rightarrow>
   'd block_state \<Rightarrow> 'd block_state" where
  "count_event device f s = s\<lparr>telemetry := (telemetry s)[unat (bd_id device) :=
     f (telemetry s ! unat (bd_id device))]\<rparr>"

text \<open>The retry loop of \<open>raw_read_with_retry\<close> and \<open>raw_write_with_retry\<close>: \<open>left\<close> attempts are left,
  \<open>attempt\<close> have been made; the operation answers \<open>None\<close> when it failed.\<close>

fun attempts :: "('s \<Rightarrow> ('r option \<times> 's) option) \<Rightarrow> nat \<Rightarrow> nat \<Rightarrow> 's \<Rightarrow> (nat \<times> 'r option \<times> 's) option" where
  "attempts f 0 attempt s = Some (attempt, None, s)"
| "attempts f (Suc left) attempt s =
     (case f s of
        None \<Rightarrow> None
      | Some (Some r, s1) \<Rightarrow> Some (attempt, Some r, s1)
      | Some (None, s1) \<Rightarrow> attempts f left (Suc attempt) s1)"

definition with_retry ::
  "('d block_state \<Rightarrow> ('r option \<times> 'd block_state) option) \<Rightarrow> ASAS_BLOCK_DEVICE \<Rightarrow> 'd block_state \<Rightarrow>
   ('r option \<times> 'd block_state) option" where
  "with_retry f device s =
     (let retries = retry_budget device in
      case attempts f (unat retries + 1) 0 s of
        None \<Rightarrow> None
      | Some (attempt, Some r, s1) \<Rightarrow> Some (Some r,
          if attempt \<noteq> 0 then count_event device (\<lambda>t. t\<lparr>tel_retries := tel_retries t + of_nat attempt\<rparr>) s1
          else s1)
      | Some (attempt, None, s1) \<Rightarrow> Some (None,
          count_event device (\<lambda>t. t\<lparr>tel_retries := tel_retries t + ucast retries,
            tel_errors := tel_errors t + 1\<rparr>) s1))"

text \<open>A block from the cache or the device, entered in the cache in the second case.\<close>

definition read_block ::
  "(u64 \<Rightarrow> 'd block_state \<Rightarrow> (bytes option \<times> 'd block_state) option) \<Rightarrow> ASAS_BLOCK_DEVICE \<Rightarrow> u64 \<Rightarrow>
   'd block_state \<Rightarrow> (bytes option \<times> 'd block_state) option" where
  "read_block rd device lba s =
     (case cache_find device lba s of
        Some slot \<Rightarrow>
          let s1 = count_event device (\<lambda>t. t\<lparr>cache_hits := cache_hits t + 1\<rparr>) s
          in Some (Some (take (unat (logical_block_size device)) (ce_data (cache_entries s1 ! slot))), s1)
      | None \<Rightarrow>
          (case with_retry (rd lba) device
                  (count_event device (\<lambda>t. t\<lparr>cache_misses := cache_misses t + 1\<rparr>) s) of
             None \<Rightarrow> None
           | Some (None, s1) \<Rightarrow> Some (None, s1)
           | Some (Some data, s1) \<Rightarrow> Some (Some data, cache_store device lba data s1)))"

definition read_ahead ::
  "(u64 \<Rightarrow> 'd block_state \<Rightarrow> (bytes option \<times> 'd block_state) option) \<Rightarrow> ASAS_BLOCK_DEVICE \<Rightarrow> u64 \<Rightarrow>
   'd block_state \<Rightarrow> 'd block_state option" where
  "read_ahead rd device lba s =
     (if lba \<noteq> NOT 0 \<and> request_in_bounds device (lba + 1) 1 \<and> cache_find device (lba + 1) s = None then
        (case cache_allocate device (lba + 1) s of
           (None, s1) \<Rightarrow> Some s1
         | (Some slot, s1) \<Rightarrow>
             (case with_retry (rd (lba + 1)) device s1 of
                None \<Rightarrow> None
              | Some (Some data, s2) \<Rightarrow> Some (count_event device
                  (\<lambda>t. t\<lparr>read_ahead_ops := read_ahead_ops t + 1\<rparr>) (fill_entry slot device data s2))
              | Some (None, s2) \<Rightarrow> Some (s2\<lparr>cache_entries := (cache_entries s2)[slot :=
                  (cache_entries s2 ! slot)\<lparr>ce_valid := False\<rparr>]\<rparr>)))
      else Some s)"

text \<open>\<open>bytes[offset ...] = data\<close>\<close>

definition blit :: "nat \<Rightarrow> bytes \<Rightarrow> bytes \<Rightarrow> bytes" where
  "blit offset data buffer = take offset buffer @ data @ drop (offset + length data) buffer"

text \<open>The loop of \<open>block_device_read\<close>: \<open>left\<close> blocks are left, \<open>index\<close> is the next.\<close>

fun read_loop ::
  "(u64 \<Rightarrow> 'd block_state \<Rightarrow> (bytes option \<times> 'd block_state) option) \<Rightarrow> ASAS_BLOCK_DEVICE \<Rightarrow> u64 \<Rightarrow>
   nat \<Rightarrow> u32 \<Rightarrow> bytes \<Rightarrow> 'd block_state \<Rightarrow> (bool \<times> bytes \<times> 'd block_state) option" where
  "read_loop rd device lba 0 index buffer s = Some (True, buffer, s)"
| "read_loop rd device lba (Suc left) index buffer s =
     (let current_lba = lba + ucast index in
      case read_block rd device current_lba s of
        None \<Rightarrow> None
      | Some (None, s1) \<Rightarrow> Some (False, buffer, s1)
      | Some (Some data, s1) \<Rightarrow>
          let buffer1 = blit (unat (index * logical_block_size device)) data buffer in
          (case (if left = 0 then read_ahead rd device current_lba s1 else Some s1) of
             None \<Rightarrow> None
           | Some s2 \<Rightarrow> read_loop rd device lba left (index + 1) buffer1 s2))"

definition has_read :: "'d drivers \<Rightarrow> ASAS_BLOCK_DEVICE \<Rightarrow> bool" where
  "has_read drv device = (case bd_ops device of No_ops \<Rightarrow> False | Partition_ops \<Rightarrow> True
     | Driver_ops n \<Rightarrow> read_blocks (drv n) \<noteq> None)"

definition has_write :: "'d drivers \<Rightarrow> ASAS_BLOCK_DEVICE \<Rightarrow> bool" where
  "has_write drv device = (case bd_ops device of No_ops \<Rightarrow> False | Partition_ops \<Rightarrow> True
     | Driver_ops n \<Rightarrow> write_blocks (drv n) \<noteq> None)"

definition driver_read :: "'d drivers \<Rightarrow> nat \<Rightarrow> ASAS_BLOCK_DEVICE \<Rightarrow> u64 \<Rightarrow> u32 \<Rightarrow>
    'd block_state \<Rightarrow> (bytes option \<times> 'd block_state) option" where
  "driver_read drv n device lba cnt s =
     (let (r, d) = the (read_blocks (drv n)) device lba cnt (driver_state s)
      in Some (r, s\<lparr>driver_state := d\<rparr>))"

definition driver_write :: "'d drivers \<Rightarrow> nat \<Rightarrow> ASAS_BLOCK_DEVICE \<Rightarrow> u64 \<Rightarrow> u32 \<Rightarrow> bytes \<Rightarrow>
    'd block_state \<Rightarrow> (unit option \<times> 'd block_state) option" where
  "driver_write drv n device lba cnt data s =
     (let (ok, d) = the (write_blocks (drv n)) device lba cnt data (driver_state s)
      in Some (if ok then Some () else None, s\<lparr>driver_state := d\<rparr>))"

definition reject :: "ASAS_BLOCK_DEVICE \<Rightarrow> 'd block_state \<Rightarrow> 'd block_state" where
  "reject device s = (if unat (bd_id device) < BLOCK_DEVICE_MAX_COUNT
     then count_event device (\<lambda>t. t\<lparr>out_of_bounds := out_of_bounds t + 1\<rparr>) s else s)"

text \<open>\<open>partition_read\<close> (the buffer of a block of the parent) and \<open>block_device_read\<close>\<close>

fun block_device_read :: "nat \<Rightarrow> 'd drivers \<Rightarrow> nat option \<Rightarrow> u64 \<Rightarrow> u32 \<Rightarrow> bytes option \<Rightarrow>
    'd block_state \<Rightarrow> (bool \<times> bytes option \<times> 'd block_state) option" where
  "block_device_read 0 drv device lba cnt buffer s = None"
| "block_device_read (Suc fuel) drv device lba cnt buffer s =
     (case device of None \<Rightarrow> Some (False, buffer, s)
      | Some i \<Rightarrow>
          let d = devices s ! i;
              rd = (\<lambda>l t. case bd_ops d of
                  Driver_ops n \<Rightarrow> driver_read drv n d l 1 t
                | _ \<Rightarrow> if l > NOT 0 - start_lba d then Some (None, t)
                  else (case block_device_read fuel drv (bd_parent d) (start_lba d + l) 1
                          (Some (replicate (unat (logical_block_size d)) 0)) t of
                      None \<Rightarrow> None
                    | Some (ok, b, t1) \<Rightarrow> Some (if ok then b else None, t1)))
          in case buffer of
            None \<Rightarrow> Some (False, None, reject d s)
          | Some buf \<Rightarrow>
              if \<not> request_in_bounds d lba cnt \<or> \<not> has_read drv d
              then Some (False, buffer, reject d s)
              else
                let s1 = count_event d (\<lambda>t. t\<lparr>read_ops := read_ops t + 1,
                       blocks_read := blocks_read t + ucast cnt\<rparr>) s
                in map_option (\<lambda>(ok, b, s2). (ok, Some b, s2))
                     (read_loop rd d lba (unat cnt) 0 buf s1))"

text \<open>The blocks of a buffer that a write enters in the cache, from \<open>index\<close> on.\<close>

fun store_loop :: "ASAS_BLOCK_DEVICE \<Rightarrow> u64 \<Rightarrow> nat \<Rightarrow> u32 \<Rightarrow> bytes \<Rightarrow> 'd block_state \<Rightarrow> 'd block_state" where
  "store_loop device lba 0 index buffer s = s"
| "store_loop device lba (Suc left) index buffer s =
     store_loop device lba left (index + 1) buffer
       (cache_store device (lba + ucast index) (drop (unat (index * logical_block_size device)) buffer) s)"

fun block_device_write :: "nat \<Rightarrow> 'd drivers \<Rightarrow> nat option \<Rightarrow> u64 \<Rightarrow> u32 \<Rightarrow> bytes option \<Rightarrow>
    'd block_state \<Rightarrow> (bool \<times> 'd block_state) option" where
  "block_device_write 0 drv device lba cnt buffer s = None"
| "block_device_write (Suc fuel) drv device lba cnt buffer s =
     (case device of None \<Rightarrow> Some (False, s)
      | Some i \<Rightarrow>
          let d = devices s ! i;
              wr = (\<lambda>data t. case bd_ops d of
                  Driver_ops n \<Rightarrow> driver_write drv n d lba cnt data t
                | _ \<Rightarrow> if lba > NOT 0 - start_lba d then Some (None, t)
                  else (case block_device_write fuel drv (bd_parent d) (start_lba d + lba) cnt
                          (Some data) t of
                      None \<Rightarrow> None
                    | Some (ok, t1) \<Rightarrow> Some (if ok then Some () else None, t1)))
          in case buffer of
            None \<Rightarrow> Some (False, reject d s)
          | Some data \<Rightarrow>
              if \<not> request_in_bounds d lba cnt \<or> bd_flags d AND BLOCK_DEVICE_FLAG_READ_ONLY \<noteq> 0
                 \<or> \<not> has_write drv d
              then Some (False, reject d s)
              else
                let s1 = count_event d (\<lambda>t. t\<lparr>write_ops := write_ops t + 1,
                       blocks_written := blocks_written t + ucast cnt\<rparr>) s
                in (case with_retry (wr data) d s1 of
                      None \<Rightarrow> None
                    | Some (None, s2) \<Rightarrow> Some (False, s2)
                    | Some (Some _, s2) \<Rightarrow> Some (True, store_loop d lba (unat cnt) 0 data s2)))"

fun block_device_flush :: "nat \<Rightarrow> 'd drivers \<Rightarrow> nat option \<Rightarrow> 'd block_state \<Rightarrow>
    (bool \<times> 'd block_state) option" where
  "block_device_flush 0 drv device s = None"
| "block_device_flush (Suc fuel) drv device s =
     (case device of None \<Rightarrow> Some (False, s)
      | Some i \<Rightarrow>
          let d = devices s ! i;
              s1 = count_event d (\<lambda>t. t\<lparr>flush_ops := flush_ops t + 1\<rparr>) s
          in case bd_ops d of
              No_ops \<Rightarrow> Some (False, s)
            | Partition_ops \<Rightarrow> block_device_flush fuel drv (bd_parent d) s1
            | Driver_ops n \<Rightarrow> (case flush_blocks (drv n) of
                None \<Rightarrow> Some (True, s1)
              | Some f \<Rightarrow> let (ok, x) = f d (driver_state s1) in Some (ok, s1\<lparr>driver_state := x\<rparr>)))"

definition block_device_flush_barrier :: "nat \<Rightarrow> 'd drivers \<Rightarrow> nat option \<Rightarrow> 'd block_state \<Rightarrow>
    (bool \<times> 'd block_state) option" where
  "block_device_flush_barrier fuel drv device s =
     (case device of None \<Rightarrow> Some (False, s)
      | Some i \<Rightarrow>
          let s1 = cache_invalidate_device (devices s ! i) s;
              s2 = (case bd_parent (devices s ! i) of None \<Rightarrow> s1
                    | Some p \<Rightarrow> cache_invalidate_device (devices s ! p) s1)
          in block_device_flush fuel drv device s2)"

definition block_device_get_telemetry ::
  "nat option \<Rightarrow> 'd block_state \<Rightarrow> ASAS_BLOCK_DEVICE_TELEMETRY option" where
  "block_device_get_telemetry device s =
     (case device of None \<Rightarrow> None
      | Some i \<Rightarrow> if unat (bd_id (devices s ! i)) \<ge> BLOCK_DEVICE_MAX_COUNT then None
          else Some (telemetry s ! unat (bd_id (devices s ! i))))"

definition block_device_has_capability :: "nat option \<Rightarrow> u32 \<Rightarrow> 'd block_state \<Rightarrow> bool" where
  "block_device_has_capability device capability s =
     (case device of None \<Rightarrow> False
      | Some i \<Rightarrow>
          if capability = 0 \<or> capability AND NOT BLOCK_DEVICE_CAPABILITY_MASK \<noteq> 0 then False
          else bd_flags (devices s ! i) AND capability = capability)"

section \<open>The drivers of this file\<close>

text \<open>The disk of the module's self test.  Its storage is a byte array; the contexts that devices point
  to are the driver state.\<close>

record SELF_TEST_DISK =
  st_storage :: "nat \<Rightarrow> u8"
  st_block_size :: u32
  st_block_count :: u32
  fail_reads :: u32
  fail_writes :: u32
  st_removed :: bool
  st_flushes :: u32

type_synonym self_test_disks = "nat \<Rightarrow> SELF_TEST_DISK option"

definition self_test_fill :: "nat \<Rightarrow> u8 \<Rightarrow> bytes" where
  "self_test_fill n seed = map (\<lambda>index. seed + of_nat index) [0 ..< n]"

definition self_test_disk_bounds :: "SELF_TEST_DISK option \<Rightarrow> u64 \<Rightarrow> u32 \<Rightarrow> bool" where
  "self_test_disk_bounds disk lba cnt =
     (case disk of None \<Rightarrow> False
      | Some d \<Rightarrow>
          if st_removed d \<or> cnt = 0 then False
          else if lba \<ge> ucast (st_block_count d) then False
          else ucast cnt \<le> ucast (st_block_count d) - lba)"

definition self_test_offset :: "SELF_TEST_DISK \<Rightarrow> u64 \<Rightarrow> nat \<Rightarrow> nat" where
  "self_test_offset d lba index = unat (ucast (lba + of_nat index) * st_block_size d :: u32)"

text \<open>\<open>self_test_copy\<close> out of and into the storage\<close>

definition copy_out :: "SELF_TEST_DISK \<Rightarrow> nat \<Rightarrow> bytes" where
  "copy_out d offset = map (\<lambda>k. st_storage d (offset + k)) [0 ..< unat (st_block_size d)]"

definition copy_in :: "nat \<Rightarrow> bytes \<Rightarrow> SELF_TEST_DISK \<Rightarrow> SELF_TEST_DISK" where
  "copy_in offset data d = d\<lparr>st_storage := (\<lambda>a. if offset \<le> a \<and> a < offset + unat (st_block_size d)
     then data ! (a - offset) else st_storage d a)\<rparr>"

definition self_test_read ::
  "ASAS_BLOCK_DEVICE \<Rightarrow> u64 \<Rightarrow> u32 \<Rightarrow> self_test_disks \<Rightarrow> bytes option \<times> self_test_disks" where
  "self_test_read device lba cnt disks =
     (case disks (driver_context device) of
        None \<Rightarrow> (None, disks)
      | Some d \<Rightarrow>
          if \<not> self_test_disk_bounds (Some d) lba cnt then (None, disks)
          else if fail_reads d \<noteq> 0
          then (None, disks(driver_context device \<mapsto> d\<lparr>fail_reads := fail_reads d - 1\<rparr>))
          else (Some (concat (map (\<lambda>index. copy_out d (self_test_offset d lba index)) [0 ..< unat cnt])),
                disks))"

definition self_test_write ::
  "ASAS_BLOCK_DEVICE \<Rightarrow> u64 \<Rightarrow> u32 \<Rightarrow> bytes \<Rightarrow> self_test_disks \<Rightarrow> bool \<times> self_test_disks" where
  "self_test_write device lba cnt data disks =
     (case disks (driver_context device) of
        None \<Rightarrow> (False, disks)
      | Some d \<Rightarrow>
          if \<not> self_test_disk_bounds (Some d) lba cnt then (False, disks)
          else if fail_writes d \<noteq> 0
          then (False, disks(driver_context device \<mapsto> d\<lparr>fail_writes := fail_writes d - 1\<rparr>))
          else (True, disks(driver_context device \<mapsto>
            fold (\<lambda>index d1. copy_in (self_test_offset d lba index)
                (drop (unat (of_nat index * st_block_size d)) data) d1) [0 ..< unat cnt] d)))"

definition self_test_flush :: "ASAS_BLOCK_DEVICE \<Rightarrow> self_test_disks \<Rightarrow> bool \<times> self_test_disks" where
  "self_test_flush device disks =
     (case disks (driver_context device) of
        None \<Rightarrow> (False, disks)
      | Some d \<Rightarrow> if st_removed d then (False, disks)
          else (True, disks(driver_context device \<mapsto> d\<lparr>st_flushes := st_flushes d + 1\<rparr>)))"

definition self_test_ops :: "self_test_disks ASAS_BLOCK_DEVICE_OPS" where
  "self_test_ops = \<lparr>read_blocks = Some self_test_read, write_blocks = Some self_test_write,
     flush_blocks = Some self_test_flush\<rparr>"

text \<open>The compatibility driver for the devices that \<^verbatim>\<open>virtio_block.c\<close> routes.  That file's entry points
  are the record \<open>sector_driver\<close>, an argument of the operations that use them; \<open>'v\<close> is the state behind it.\<close>

record 'v sector_driver =
  vb_read :: "u64 \<Rightarrow> 'v \<Rightarrow> bytes option \<times> 'v"
  vb_write :: "u64 \<Rightarrow> bytes \<Rightarrow> 'v \<Rightarrow> bool \<times> 'v"
  vb_select :: "u8 \<Rightarrow> u8 \<Rightarrow> 'v \<Rightarrow> 'v"

fun legacy_read_loop ::
  "'v sector_driver \<Rightarrow> u64 \<Rightarrow> nat \<Rightarrow> u32 \<Rightarrow> bytes \<Rightarrow> 'v \<Rightarrow> bytes option \<times> 'v" where
  "legacy_read_loop vb lba 0 index acc v = (Some acc, v)"
| "legacy_read_loop vb lba (Suc left) index acc v =
     (case vb_read vb (lba + ucast index) v of
        (None, v1) \<Rightarrow> (None, v1)
      | (Some data, v1) \<Rightarrow> legacy_read_loop vb lba left (index + 1) (acc @ data) v1)"

definition legacy_read :: "'v sector_driver \<Rightarrow> ASAS_BLOCK_DEVICE \<Rightarrow> u64 \<Rightarrow> u32 \<Rightarrow> 'v \<Rightarrow> bytes option \<times> 'v" where
  "legacy_read vb device lba cnt v =
     legacy_read_loop vb lba (unat cnt) 0 []
       (vb_select vb (bd_target device) (bd_lun device) v)"

fun legacy_write_loop ::
  "'v sector_driver \<Rightarrow> u32 \<Rightarrow> u64 \<Rightarrow> nat \<Rightarrow> u32 \<Rightarrow> bytes \<Rightarrow> 'v \<Rightarrow> bool \<times> 'v" where
  "legacy_write_loop vb bs lba 0 index data v = (True, v)"
| "legacy_write_loop vb bs lba (Suc left) index data v =
     (case vb_write vb (lba + ucast index) (drop (unat (index * bs)) data) v of
        (False, v1) \<Rightarrow> (False, v1)
      | (True, v1) \<Rightarrow> legacy_write_loop vb bs lba left (index + 1) data v1)"

definition legacy_write ::
  "'v sector_driver \<Rightarrow> ASAS_BLOCK_DEVICE \<Rightarrow> u64 \<Rightarrow> u32 \<Rightarrow> bytes \<Rightarrow> 'v \<Rightarrow> bool \<times> 'v" where
  "legacy_write vb device lba cnt data v =
     legacy_write_loop vb (logical_block_size device) lba (unat cnt) 0 data
       (vb_select vb (bd_target device) (bd_lun device) v)"

definition legacy_flush :: "ASAS_BLOCK_DEVICE \<Rightarrow> 'v \<Rightarrow> bool \<times> 'v" where
  "legacy_flush device v = (True, v)"

definition legacy_ops :: "'v sector_driver \<Rightarrow> 'v ASAS_BLOCK_DEVICE_OPS" where
  "legacy_ops vb = \<lparr>read_blocks = Some (legacy_read vb), write_blocks = Some (legacy_write vb),
     flush_blocks = Some legacy_flush\<rparr>"

definition register_legacy ::
  "nat \<Rightarrow> u8 \<Rightarrow> u8 \<Rightarrow> u64 \<Rightarrow> u32 \<Rightarrow> u32 \<Rightarrow> u32 \<Rightarrow> 'd block_state \<Rightarrow> nat option \<times> 'd block_state" where
  "register_legacy ops target lun blocks bs flags number s =
     (let lbs = (if bs = 0 then 512 else bs) in
      block_device_register (Some \<lparr>bd_id = 0,
        bd_name = copy_string 16 (''disk'' @ [char_of (48 + unat number)]),
        logical_block_size = lbs, physical_block_size = lbs, block_count = blocks,
        bd_flags = flags, bd_target = target, bd_lun = lun, start_lba = 0, bd_parent = None,
        bd_ops = Driver_ops ops, driver_context = 0\<rparr>) s)"

record ASAS_STORAGE_DEVICE =
  sd_valid :: bool
  is_cdrom :: bool
  sd_target :: u8
  sd_lun :: u8
  sector_count :: u64
  sector_size :: u32

fun register_storage_devices :: "nat \<Rightarrow> ASAS_STORAGE_DEVICE list \<Rightarrow> 'd block_state \<Rightarrow> 'd block_state" where
  "register_storage_devices ops [] s = s"
| "register_storage_devices ops (x # xs) s =
     (if device_count s < BLOCK_DEVICE_MAX_COUNT then
        register_storage_devices ops xs
          (if \<not> sd_valid x then s
           else snd (register_legacy ops (sd_target x) (sd_lun x) (sector_count x) (sector_size x)
             (if is_cdrom x then BLOCK_DEVICE_FLAG_OPTICAL OR BLOCK_DEVICE_FLAG_READ_ONLY else 0)
             (of_nat (device_count s)) s))
      else s)"

definition block_device_register_legacy_devices ::
  "nat \<Rightarrow> ASAS_STORAGE_DEVICE list \<Rightarrow> u8 \<Rightarrow> u8 \<Rightarrow> 'd block_state \<Rightarrow> nat \<times> 'd block_state" where
  "block_device_register_legacy_devices ops storage_devices current_target current_lun s =
     (if device_count s \<noteq> 0 then (device_count s, s)
      else
        let s1 = register_storage_devices ops storage_devices s;
            s2 = (if device_count s1 = 0
                  then snd (register_legacy ops current_target current_lun 0 512 0 0 s1) else s1)
        in (device_count s2, s2))"

section \<open>Bounds\<close>

lemma request_in_bounds_iff:
  "request_in_bounds d lba cnt \<longleftrightarrow> 0 < unat cnt \<and> unat lba + unat cnt \<le> 2 ^ 64
     \<and> (block_count d \<noteq> 0 \<longrightarrow> unat lba + unat cnt \<le> unat (block_count d))"
proof (cases "cnt = 0")
  case False
  then have c: "unat (cnt - 1) = unat cnt - 1" "0 < unat cnt"
    by (simp_all add: unat_minus_one unat_gt_0)
  have m1: "unat (- 1 :: u64) = 2 ^ 64 - 1" by (simp add: unsigned_minus_1_eq_mask mask_eq_exp_minus_1)
  have n: "unat (- 1 - lba) = 18446744073709551615 - unat lba"
    by (subst unat_sub) (simp_all add: m1)
  have lb: "unat lba < 2 ^ 64" "unat (block_count d) < 2 ^ 64" using unat_less_64 by simp_all
  have "ucast (cnt - 1) > NOT 0 - lba \<longleftrightarrow> 2 ^ 64 < unat lba + unat cnt"
    using c unat_less_64 [of lba] by (simp add: word_less_nat_alt n del: unat_less_64) linarith
  moreover have "lba < block_count d \<Longrightarrow> (ucast cnt \<le> block_count d - lba)
      \<longleftrightarrow> unat lba + unat cnt \<le> unat (block_count d)"
    by (simp add: word_le_nat_alt word_less_nat_alt unat_sub) linarith
  ultimately show ?thesis
    using False c(2) by (auto simp: request_in_bounds_def word_less_nat_alt word_le_nat_alt not_le)
qed (simp add: request_in_bounds_def)

section \<open>Cache coherence\<close>

text \<open>The cache agrees with the contents \<open>B\<close> of a device: every valid entry of the device holds the
  block it is labelled with, and no block has two entries.\<close>

definition block_bytes :: "ASAS_BLOCK_DEVICE \<Rightarrow> nat" where
  "block_bytes d = unat (logical_block_size d)"

definition coherent :: "ASAS_BLOCK_DEVICE \<Rightarrow> (u64 \<Rightarrow> bytes) \<Rightarrow> BLOCK_CACHE_ENTRY list \<Rightarrow> bool" where
  "coherent d B C \<longleftrightarrow> length C = 16 \<and> (no_cache d
     \<or> (\<forall>lba. \<forall>i < 16. cache_hit d lba (C ! i) \<longrightarrow> take (block_bytes d) (ce_data (C ! i)) = B lba)
       \<and> (\<forall>lba. \<forall>i < 16. \<forall>j < 16. cache_hit d lba (C ! i) \<longrightarrow> cache_hit d lba (C ! j) \<longrightarrow> i = j))"

lemma coherentD:
  assumes "coherent d B C" "\<not> no_cache d"
  shows "i < 16 \<Longrightarrow> cache_hit d lba (C ! i) \<Longrightarrow> take (block_bytes d) (ce_data (C ! i)) = B lba"
    "i < 16 \<Longrightarrow> j < 16 \<Longrightarrow> cache_hit d lba (C ! i) \<Longrightarrow> cache_hit d lba (C ! j) \<Longrightarrow> i = j"
  using assms unfolding coherent_def by blast+

lemma coherent_length: "coherent d B C \<Longrightarrow> length C = 16"
  by (simp add: coherent_def)

lemma coherentI:
  assumes "length C = 16"
    and "\<And>lba i. \<not> no_cache d \<Longrightarrow> i < 16 \<Longrightarrow> cache_hit d lba (C ! i) \<Longrightarrow>
      take (block_bytes d) (ce_data (C ! i)) = B lba"
    and "\<And>lba i j. \<not> no_cache d \<Longrightarrow> i < 16 \<Longrightarrow> j < 16 \<Longrightarrow> cache_hit d lba (C ! i) \<Longrightarrow>
      cache_hit d lba (C ! j) \<Longrightarrow> i = j"
  shows "coherent d B C"
  using assms unfolding coherent_def by blast

lemma cache_hit_same_lba: "cache_hit d l e \<Longrightarrow> cache_hit d l' e \<Longrightarrow> l = l'"
  by (simp add: cache_hit_def)

text \<open>The three ways the code changes an entry.\<close>

lemma coherent_refill:
  assumes c: "coherent d B C" and s: "slot < 16" "cache_hit d lba (C ! slot)"
    and len: "block_bytes d \<le> length data"
  shows "coherent d (B(lba := take (block_bytes d) data))
    (C[slot := (C ! slot)\<lparr>ce_data := take (block_bytes d) data @ x\<rparr>])"
proof -
  have L: "length C = 16" using c by (rule coherent_length)
  have hit: "cache_hit d l (C[slot := (C ! slot)\<lparr>ce_data := take (block_bytes d) data @ x\<rparr>] ! i)
      = cache_hit d l (C ! i)" if "i < 16" for l i
    using that L s(1) by (auto simp: nth_list_update cache_hit_def)
  show ?thesis
  proof (rule coherentI)
  show "length (C[slot := (C ! slot)\<lparr>ce_data := take (block_bytes d) data @ x\<rparr>]) = 16" using L by simp
  fix l i
  assume nc: "\<not> no_cache d" and i: "i < 16"
    and h: "cache_hit d l (C[slot := (C ! slot)\<lparr>ce_data := take (block_bytes d) data @ x\<rparr>] ! i)"
  show "take (block_bytes d) (ce_data (C[slot := (C ! slot)\<lparr>ce_data := take (block_bytes d) data @ x\<rparr>] ! i))
      = (B(lba := take (block_bytes d) data)) l"
  proof (cases "i = slot")
    case True
    then have "l = lba" using h hit [OF i] s(2) cache_hit_same_lba by blast
    then show ?thesis using True L i len by simp
  next
    case False
    then have "l \<noteq> lba" using coherentD(2) [OF c nc i s(1)] h hit [OF i] s(2) by blast
    then show ?thesis using False coherentD(1) [OF c nc i] h hit [OF i] by simp
  qed
next
  fix l i j
  assume "\<not> no_cache d" "i < 16" "j < 16"
    "cache_hit d l (C[slot := (C ! slot)\<lparr>ce_data := take (block_bytes d) data @ x\<rparr>] ! i)"
    "cache_hit d l (C[slot := (C ! slot)\<lparr>ce_data := take (block_bytes d) data @ x\<rparr>] ! j)"
  then show "i = j" using coherentD(2) [OF c] hit by blast
  qed
qed

lemma coherent_replace:
  assumes c: "coherent d B C" and none: "\<And>i. i < 16 \<Longrightarrow> \<not> no_cache d \<Longrightarrow> \<not> cache_hit d lba (C ! i)"
    and e: "cache_hit d lba e" "take (block_bytes d) (ce_data e) = v"
  shows "coherent d (B(lba := v)) (C[slot := e])"
proof (rule coherentI)
  have L: "length C = 16" using c by (rule coherent_length)
  then show "length (C[slot := e]) = 16" by simp
  fix l i
  assume nc: "\<not> no_cache d" and i: "i < 16" and h: "cache_hit d l (C[slot := e] ! i)"
  show "take (block_bytes d) (ce_data (C[slot := e] ! i)) = (B(lba := v)) l"
  proof (cases "i = slot")
    case True
    then have "l = lba" using h e(1) i L cache_hit_same_lba by auto
    then show ?thesis using True i L e(2) by simp
  next
    case False
    then have "l \<noteq> lba" using h none [OF i nc] by auto
    then show ?thesis using False h coherentD(1) [OF c nc i] by simp
  qed
next
  fix l i j
  assume nc: "\<not> no_cache d" and ij: "i < 16" "j < 16"
    and h: "cache_hit d l (C[slot := e] ! i)" "cache_hit d l (C[slot := e] ! j)"
  have L: "length C = 16" using c by (rule coherent_length)
  show "i = j"
  proof (cases "l = lba")
    case True
    then have "i = slot" "j = slot" using h none [OF ij(1) nc] none [OF ij(2) nc] by (metis nth_list_update_neq)+
    then show ?thesis by simp
  next
    case False
    then have "i \<noteq> slot" "j \<noteq> slot" using h e(1) ij L cache_hit_same_lba by auto
    then show ?thesis using h coherentD(2) [OF c nc ij] by simp
  qed
qed

lemma coherent_invalidate:
  assumes c: "coherent d B C" and e: "\<not> ce_valid e"
  shows "coherent d B (C[slot := e])"
proof (rule coherentI)
  have L: "length C = 16" using c by (rule coherent_length)
  then show "length (C[slot := e]) = 16" by simp
  have ne: "i \<noteq> slot" if "i < 16" "cache_hit d l (C[slot := e] ! i)" for i l
    using that e L by (auto simp: cache_hit_def)
  show "take (block_bytes d) (ce_data (C[slot := e] ! i)) = B l"
    if "\<not> no_cache d" "i < 16" "cache_hit d l (C[slot := e] ! i)" for l i
    using that ne [OF that(2,3)] coherentD(1) [OF c] by simp
  show "i = j" if "\<not> no_cache d" "i < 16" "j < 16" "cache_hit d l (C[slot := e] ! i)"
    "cache_hit d l (C[slot := e] ! j)" for l i j
    using that ne [OF that(2,4)] ne [OF that(3,5)] coherentD(2) [OF c] by simp
qed

lemma coherent_update:
  assumes "coherent d B C" "\<And>i. i < 16 \<Longrightarrow> \<not> no_cache d \<Longrightarrow> \<not> cache_hit d lba (C ! i)"
  shows "coherent d (B(lba := v)) C"
proof (rule coherentI)
  show "length C = 16" using assms(1) by (rule coherent_length)
  show "take (block_bytes d) (ce_data (C ! i)) = (B(lba := v)) l"
    if "\<not> no_cache d" "i < 16" "cache_hit d l (C ! i)" for l i
    using that assms(2) [OF that(2,1)] coherentD(1) [OF assms(1)] by auto
qed (use coherentD(2) [OF assms(1)] in blast)

lemma cache_find_Some:
  assumes "cache_find d lba s = Some i"
  shows "i < 16" "cache_hit d lba (cache_entries s ! i)" "\<not> no_cache d"
  using assms by (auto simp: cache_find_def BLOCK_CACHE_ENTRY_COUNT_def find_Some_iff split: if_splits
      simp del: upt_rec_numeral)

lemma cache_find_None:
  assumes "cache_find d lba s = None" "i < 16" "\<not> no_cache d"
  shows "\<not> cache_hit d lba (cache_entries s ! i)"
  using assms by (auto simp: cache_find_def BLOCK_CACHE_ENTRY_COUNT_def find_None_iff
      simp del: upt_rec_numeral)

text \<open>The devices, the driver state and the telemetry are not touched by the cache, and conversely.\<close>

lemma count_event_simps [simp]:
  "devices (count_event d f s) = devices s" "cache_entries (count_event d f s) = cache_entries s"
  "driver_state (count_event d f s) = driver_state s"
  by (simp_all add: count_event_def)

lemma cache_find_count_event [simp]: "cache_find d l (count_event e f s) = cache_find d l s"
  by (simp add: cache_find_def)

lemma fill_entry_simps [simp]:
  "devices (fill_entry slot d data s) = devices s" "driver_state (fill_entry slot d data s) = driver_state s"
  "cache_entries (fill_entry slot d data s) = (cache_entries s)[slot := (cache_entries s ! slot)\<lparr>
     ce_data := take (block_bytes d) data @ drop (block_bytes d) (ce_data (cache_entries s ! slot))\<rparr>]"
  by (simp_all add: fill_entry_def Let_def block_bytes_def)

lemma cache_allocate_simps:
  assumes "cache_allocate d lba s = (r, s1)"
  shows "devices s1 = devices s" "driver_state s1 = driver_state s"
    "r = None \<Longrightarrow> s1 = s"
    "r = Some slot \<Longrightarrow> slot < 16 \<and> cache_entries s1 = (cache_entries s)[slot :=
        (cache_entries s ! slot)\<lparr>ce_valid := True, ce_device_id := bd_id d, ce_lba := lba,
           ce_block_size := logical_block_size d\<rparr>]"
  using assms by (auto simp: cache_allocate_def Let_def BLOCK_CACHE_ENTRY_COUNT_def split: if_splits)

lemma allocated_fill_coherent:
  assumes c: "coherent d B (cache_entries s)" and n: "cache_find d lba s = None"
    and a: "cache_allocate d lba s = (Some slot, s1)" and e: "cache_entries s2 = cache_entries s1"
    and len: "block_bytes d \<le> length data"
  shows "coherent d (B(lba := take (block_bytes d) data)) (cache_entries (fill_entry slot d data s2))"
proof -
  have L: "length (cache_entries s) = 16" using c by (rule coherent_length)
  have sl: "slot < 16" using cache_allocate_simps(4) [OF a] by simp
  define x where "x = (cache_entries s2 ! slot)\<lparr>
     ce_data := take (block_bytes d) data @ drop (block_bytes d) (ce_data (cache_entries s2 ! slot))\<rparr>"
  have "cache_entries (fill_entry slot d data s2) = (cache_entries s)[slot := x]"
    using cache_allocate_simps(4) [OF a] e by (simp add: x_def)
  moreover have "cache_hit d lba x" "take (block_bytes d) (ce_data x) = take (block_bytes d) data"
    using cache_allocate_simps(4) [OF a] e sl L len by (simp_all add: x_def cache_hit_def)
  ultimately show ?thesis
    using coherent_replace [OF c cache_find_None [OF n]] by simp
qed

lemma cache_store_coherent:
  assumes c: "coherent d B (cache_entries s)" and len: "block_bytes d \<le> length data"
  shows "coherent d (B(lba := take (block_bytes d) data)) (cache_entries (cache_store d lba data s))"
    "devices (cache_store d lba data s) = devices s" "driver_state (cache_store d lba data s) = driver_state s"
proof -
  obtain r s1 where a: "cache_allocate d lba s = (r, s1)" by fastforce
  show "devices (cache_store d lba data s) = devices s" "driver_state (cache_store d lba data s) = driver_state s"
    using cache_allocate_simps(1,2) [OF a] a by (auto simp: cache_store_def split: option.splits)
  show "coherent d (B(lba := take (block_bytes d) data)) (cache_entries (cache_store d lba data s))"
  proof (cases "cache_find d lba s")
    case (Some slot)
    then show ?thesis
      using coherent_refill [OF c cache_find_Some(1,2) [OF Some] len] by (simp add: cache_store_def)
  next
    case None
    show ?thesis
    proof (cases r)
      case (Some slot)
      then show ?thesis
        using allocated_fill_coherent [OF c None _ refl len] a None by (simp add: cache_store_def)
    next
      case rn: None
      then have "cache_store d lba data s = s"
        using None a cache_allocate_simps(3) [OF a] by (simp add: cache_store_def)
      then show ?thesis using coherent_update [OF c cache_find_None [OF None]] by simp
    qed
  qed
qed

section \<open>The driver interface\<close>

lemma attempts_rule:
  assumes "P s"
    and "\<And>t. P t \<Longrightarrow> \<exists>r t'. f t = Some (r, t') \<and> (case r of None \<Rightarrow> P t' | Some x \<Rightarrow> Q x t')"
  shows "\<exists>k r s'. attempts f n a s = Some (k, r, s') \<and> (case r of None \<Rightarrow> P s' | Some x \<Rightarrow> Q x s')"
  using assms(1)
proof (induction n arbitrary: a s)
  case (Suc n)
  obtain r t where f: "f s = Some (r, t)" "case r of None \<Rightarrow> P t | Some x \<Rightarrow> Q x t"
    using assms(2) [OF Suc.prems] by blast
  then show ?case using Suc.IH [of t] by (cases r) auto
qed simp

lemma with_retry_rule:
  assumes "P s"
    and "\<And>t. P t \<Longrightarrow> \<exists>r t'. f t = Some (r, t') \<and> (case r of None \<Rightarrow> P t' | Some x \<Rightarrow> Q x t')"
    and "\<And>t g. P t \<Longrightarrow> P (count_event d g t)" "\<And>x t g. Q x t \<Longrightarrow> Q x (count_event d g t)"
  shows "\<exists>r s'. with_retry f d s = Some (r, s') \<and> (case r of None \<Rightarrow> P s' | Some x \<Rightarrow> Q x s')"
proof -
  obtain k r t where a: "attempts f (unat (retry_budget d) + 1) 0 s = Some (k, r, t)"
    "case r of None \<Rightarrow> P t | Some x \<Rightarrow> Q x t"
    using attempts_rule [of P s f Q, OF assms(1,2)] by blast
  show ?thesis
  proof (cases r)
    case None
    then show ?thesis using a assms(3) by (simp add: with_retry_def Let_def)
  next
    case (Some x)
    then show ?thesis using a assms(4) by (simp add: with_retry_def Let_def)
  qed
qed

text \<open>The \<open>k\<close>-th block of a buffer.\<close>

definition chunk :: "ASAS_BLOCK_DEVICE \<Rightarrow> nat \<Rightarrow> bytes \<Rightarrow> bytes" where
  "chunk d k data = take (block_bytes d) (drop (k * block_bytes d) data)"

lemma word_index:
  assumes "k < 2 ^ 32" "k * block_bytes d < 2 ^ 32"
  shows "unat (of_nat k * logical_block_size d :: u32) = k * block_bytes d"
    "ucast (of_nat k :: u32) = (of_nat k :: u64)"
proof -
  have k: "unat (of_nat k :: u32) = k" using assms(1) by (simp add: unat_of_nat)
  show "unat (of_nat k * logical_block_size d :: u32) = k * block_bytes d"
    using unat_mult_lem [of "of_nat k :: u32" "logical_block_size d"] assms(2) k
    by (simp add: block_bytes_def)
  show "ucast (of_nat k :: u32) = (of_nat k :: u64)"
    using k assms(1) by (simp add: word_unat_eq_iff unat_of_nat)
qed

lemma blit_append:
  assumes "length data = n" "k * n + n \<le> length buffer"
  shows "length (blit (k * n) data buffer) = length buffer"
    "take (k * n + n) (blit (k * n) data buffer) = take (k * n) buffer @ data"
    "k * n + n \<le> m \<Longrightarrow> drop m (blit (k * n) data buffer) = drop m buffer"
  using assms by (auto simp: blit_def le_iff_add ac_simps)

lemma in_request:
  assumes "request_in_bounds d lba cnt" "j < unat cnt"
  shows "unat (lba + of_nat j) = unat lba + j" "request_in_bounds d (lba + of_nat j) 1"
proof -
  note R = assms(1) [unfolded request_in_bounds_iff]
  have "j < 18446744073709551616" using assms(2) unat_less_32 [of cnt] by linarith
  then have "unat (of_nat j :: u64) = j" by (simp add: unat_of_nat)
  then show u: "unat (lba + of_nat j) = unat lba + j"
    using R assms(2) by (subst unat_add_64) auto
  show "request_in_bounds d (lba + of_nat j) 1"
    unfolding request_in_bounds_iff u using R assms(2) by auto
qed

text \<open>The contents after the blocks \<open>k\<close> to \<open>m - 1\<close> of a buffer have been written from \<open>lba\<close> on.\<close>

definition written :: "ASAS_BLOCK_DEVICE \<Rightarrow> u64 \<Rightarrow> nat \<Rightarrow> nat \<Rightarrow> bytes \<Rightarrow> (u64 \<Rightarrow> bytes) \<Rightarrow> u64 \<Rightarrow> bytes" where
  "written d lba k m data B = fold (\<lambda>j f. f(lba + of_nat j := chunk d j data)) [k ..< m] B"

lemma written_request:
  assumes "request_in_bounds d lba cnt"
  shows "written d lba 0 (unat cnt) data B = (\<lambda>l. if unat lba \<le> unat l \<and> unat l < unat lba + unat cnt
    then chunk d (unat l - unat lba) data else B l)"
proof -
  have "written d lba 0 m data B l = (if unat lba \<le> unat l \<and> unat l < unat lba + m
      then chunk d (unat l - unat lba) data else B l)" if "m \<le> unat cnt" for m l
    using that
  proof (induction m)
    case (Suc m)
    have u: "unat (lba + of_nat m) = unat lba + m" using in_request(1) [OF assms, of m] Suc.prems by simp
    have "written d lba 0 (Suc m) data B l
        = (if l = lba + of_nat m then chunk d m data else written d lba 0 m data B l)"
      by (simp add: written_def)
    moreover have "l = lba + of_nat m \<longleftrightarrow> unat l = unat lba + m" using u by (metis word_unat_eq_iff)
    ultimately show ?case using Suc by auto
  qed (auto simp: written_def)
  then show ?thesis by auto
qed

lemma store_loop_coherent:
  assumes "coherent d B (cache_entries s)" "k + left = m" "m < 2 ^ 32" "m * block_bytes d < 2 ^ 32"
    "m * block_bytes d \<le> length data"
  shows "coherent d (written d lba k m data B) (cache_entries (store_loop d lba left (of_nat k) data s))
    \<and> devices (store_loop d lba left (of_nat k) data s) = devices s
    \<and> driver_state (store_loop d lba left (of_nat k) data s) = driver_state s"
  using assms(1,2)
proof (induction left arbitrary: k s B)
  case 0
  then show ?case by (simp add: written_def)
next
  case (Suc left)
  then have k: "k < m" by simp
  have kL: "k * block_bytes d + block_bytes d \<le> m * block_bytes d"
    using k by (metis Suc_leI add.commute mult_Suc mult_le_mono1)
  have w: "unat (of_nat k * logical_block_size d :: u32) = k * block_bytes d" "ucast (of_nat k :: u32) = (of_nat k :: u64)"
    using word_index [of k d] k assms(3,4) kL by auto
  have len: "block_bytes d \<le> length (drop (k * block_bytes d) data)" using assms(5) kL by simp
  let ?s = "cache_store d (lba + of_nat k) (drop (k * block_bytes d) data) s"
  note C = cache_store_coherent [OF Suc.prems(1) len, of "lba + of_nat k", folded chunk_def]
  have st: "store_loop d lba (Suc left) (of_nat k) data s = store_loop d lba left (of_nat (Suc k)) data ?s"
    by (simp only: store_loop.simps w) (simp add: add.commute)
  have wr: "written d lba k m data B = written d lba (Suc k) m data (B(lba + of_nat k := chunk d k data))"
    using k by (simp add: written_def upt_conv_Cons)
  show ?case unfolding st wr using Suc.IH [OF C(1), of "Suc k"] Suc.prems(2) C(2,3) by (simp add: fun_upd_def)
qed

text \<open>What the block layer relies on of a disk driver, for the device \<open>dev\<close>: a read that succeeds
  returns the block and changes nothing, a write that succeeds changes exactly the blocks it names,
  and a call that fails changes no block.\<close>

locale disk_driver =
  fixes ops :: "'d ASAS_BLOCK_DEVICE_OPS" and dev :: ASAS_BLOCK_DEVICE
    and dinv :: "'d \<Rightarrow> bool" and blocks :: "'d \<Rightarrow> u64 \<Rightarrow> bytes"
  assumes read_law: "read_blocks ops = Some f \<Longrightarrow> dinv d \<Longrightarrow> request_in_bounds dev lba 1 \<Longrightarrow>
      f dev lba 1 d = (r, d') \<Longrightarrow>
      dinv d' \<and> blocks d' = blocks d \<and> (\<forall>data. r = Some data \<longrightarrow> data = blocks d lba)"
    and write_law: "write_blocks ops = Some g \<Longrightarrow> dinv d \<Longrightarrow> request_in_bounds dev lba cnt \<Longrightarrow>
      unat cnt * block_bytes dev < 2 ^ 32 \<Longrightarrow> unat cnt * block_bytes dev \<le> length data \<Longrightarrow>
      g dev lba cnt data d = (ok, d') \<Longrightarrow>
      dinv d' \<and> blocks d' = (\<lambda>l. if ok \<and> unat lba \<le> unat l \<and> unat l < unat lba + unat cnt
        then chunk dev (unat l - unat lba) data else blocks d l)"
    and flush_law: "flush_blocks ops = Some h \<Longrightarrow> dinv d \<Longrightarrow> h dev d = (ok, d') \<Longrightarrow>
      dinv d' \<and> blocks d' = blocks d"
    and block_length: "dinv d \<Longrightarrow> length (blocks d lba) = block_bytes dev"
begin

definition settled :: "(u64 \<Rightarrow> bytes) \<Rightarrow> 'd block_state \<Rightarrow> bool" where
  "settled B s \<longleftrightarrow> coherent dev B (cache_entries s) \<and> dinv (driver_state s) \<and> blocks (driver_state s) = B"

lemma raw_read:
  assumes "read_blocks (drv n) = read_blocks ops" "read_blocks ops \<noteq> None"
    "request_in_bounds dev lba 1" "dinv (driver_state s)"
  shows "\<exists>r s'. with_retry (driver_read drv n dev lba 1) dev s = Some (r, s')
    \<and> cache_entries s' = cache_entries s \<and> devices s' = devices s \<and> dinv (driver_state s')
    \<and> blocks (driver_state s') = blocks (driver_state s)
    \<and> (\<forall>data. r = Some data \<longrightarrow> data = blocks (driver_state s) lba)"
proof -
  obtain f where f: "read_blocks (drv n) = Some f" "read_blocks ops = Some f" using assms(1,2) by auto
  define P where "P = (\<lambda>t :: 'd block_state. cache_entries t = cache_entries s \<and> devices t = devices s
    \<and> dinv (driver_state t) \<and> blocks (driver_state t) = blocks (driver_state s))"
  have "\<exists>r s'. with_retry (driver_read drv n dev lba 1) dev s = Some (r, s')
    \<and> (case r of None \<Rightarrow> P s' | Some x \<Rightarrow> P s' \<and> x = blocks (driver_state s) lba)"
  proof (rule with_retry_rule [of P])
    show "P s" using assms(4) by (simp add: P_def)
    show "\<exists>r t'. driver_read drv n dev lba 1 t = Some (r, t')
        \<and> (case r of None \<Rightarrow> P t' | Some x \<Rightarrow> P t' \<and> x = blocks (driver_state s) lba)" if "P t" for t
    proof -
      obtain r d' where e: "f dev lba 1 (driver_state t) = (r, d')" by fastforce
      have "dinv (driver_state t)" "blocks (driver_state t) = blocks (driver_state s)"
        using that by (simp_all add: P_def)
      with read_law [OF f(2) _ assms(3) e] show ?thesis
        using that f(1) e by (cases r) (auto simp: driver_read_def P_def)
    qed
  qed (auto simp: P_def)
  then obtain r s' where "with_retry (driver_read drv n dev lba 1) dev s = Some (r, s')"
    "case r of None \<Rightarrow> P s' | Some x \<Rightarrow> P s' \<and> x = blocks (driver_state s) lba" by blast
  then show ?thesis by (cases r) (auto simp: P_def)
qed

lemma read_block_settled:
  assumes ops: "read_blocks (drv n) = read_blocks ops" "read_blocks ops \<noteq> None"
    and rb: "request_in_bounds dev lba 1" and st: "settled B s"
  shows "\<exists>r s'. read_block (\<lambda>l. driver_read drv n dev l 1) dev lba s = Some (r, s') \<and> settled B s'
    \<and> devices s' = devices s \<and> (\<forall>data. r = Some data \<longrightarrow> data = B lba)"
proof (cases "cache_find dev lba s")
  case (Some i)
  note c = cache_find_Some [OF Some]
  have "take (block_bytes dev) (ce_data (cache_entries s ! i)) = B lba"
    using st coherentD(1) [OF _ c(3,1,2)] by (simp add: settled_def)
  then show ?thesis
    using Some st by (simp add: read_block_def Let_def settled_def block_bytes_def)
next
  case None
  let ?s = "count_event dev (\<lambda>t. t\<lparr>cache_misses := cache_misses t + 1\<rparr>) s"
  have st1: "settled B ?s" using st by (simp add: settled_def)
  then have "dinv (driver_state ?s)" by (simp add: settled_def)
  then obtain r s1 where r: "with_retry (driver_read drv n dev lba 1) dev ?s = Some (r, s1)"
    "cache_entries s1 = cache_entries ?s" "devices s1 = devices ?s" "dinv (driver_state s1)"
    "blocks (driver_state s1) = blocks (driver_state ?s)"
    "\<forall>data. r = Some data \<longrightarrow> data = blocks (driver_state ?s) lba"
    using raw_read [where s = ?s and drv = drv and n = n and lba = lba] ops rb by blast
  show ?thesis
  proof (cases r)
    case rn: None
    then show ?thesis using None r st by (simp add: read_block_def settled_def)
  next
    case (Some data)
    then have d: "data = B lba" using r(6) st by (simp add: settled_def)
    have len: "block_bytes dev \<le> length data"
      using block_length st unfolding d settled_def by (metis order_refl)
    have "length data = block_bytes dev"
      using block_length st unfolding d settled_def by metis
    then have "B(lba := take (block_bytes dev) data) = B" using d by simp
    moreover have coh: "coherent dev B (cache_entries s1)" using st r(2) by (simp add: settled_def)
    note store = cache_store_coherent [OF coh len, of lba]
    ultimately have "settled B (cache_store dev lba data s1)"
      using store(1,3) r(4,5) st by (simp add: settled_def)
    moreover have "read_block (\<lambda>l. driver_read drv n dev l 1) dev lba s
        = Some (Some data, cache_store dev lba data s1)"
      by (simp add: read_block_def None Some r(1))
    moreover have "devices (cache_store dev lba data s1) = devices s" using store(2) r(3) by simp
    ultimately show ?thesis using d by blast
  qed
qed

lemma read_ahead_settled:
  assumes ops: "read_blocks (drv n) = read_blocks ops" "read_blocks ops \<noteq> None" and st: "settled B s"
  shows "\<exists>s'. read_ahead (\<lambda>l. driver_read drv n dev l 1) dev lba s = Some s' \<and> settled B s'
    \<and> devices s' = devices s"
proof (cases "lba \<noteq> NOT 0 \<and> request_in_bounds dev (lba + 1) 1 \<and> cache_find dev (lba + 1) s = None")
  case True
  obtain a s1 where a: "cache_allocate dev (lba + 1) s = (a, s1)" by fastforce
  note A = cache_allocate_simps [OF a]
  show ?thesis
  proof (cases a)
    case None
    then show ?thesis using True a A(3) st by (simp add: read_ahead_def)
  next
    case (Some slot)
    have "dinv (driver_state s1)" "blocks (driver_state s1) = B" using st A(2) by (simp_all add: settled_def)
    then obtain r s2 where r: "with_retry (driver_read drv n dev (lba + 1) 1) dev s1 = Some (r, s2)"
      "cache_entries s2 = cache_entries s1" "devices s2 = devices s1" "dinv (driver_state s2)"
      "blocks (driver_state s2) = B" "\<forall>data. r = Some data \<longrightarrow> data = B (lba + 1)"
      using raw_read [where s = s1 and lba = "lba + 1" and drv = drv and n = n] ops True by auto
    have coh: "coherent dev B (cache_entries s)" using st by (simp add: settled_def)
    show ?thesis
    proof (cases r)
      case None
      have "cache_entries s2 = (cache_entries s)[slot := cache_entries s2 ! slot]"
        using A(4) [OF Some] r(2) coherent_length [OF coh] by simp
      then have "(cache_entries s2)[slot := (cache_entries s2 ! slot)\<lparr>ce_valid := False\<rparr>]
          = (cache_entries s)[slot := (cache_entries s2 ! slot)\<lparr>ce_valid := False\<rparr>]"
        by (metis list_update_overwrite)
      then have "coherent dev B ((cache_entries s2)[slot := (cache_entries s2 ! slot)\<lparr>ce_valid := False\<rparr>])"
        using coherent_invalidate [OF coh] by simp
      then show ?thesis using True a Some None r A by (simp add: read_ahead_def settled_def)
    next
      case data: (Some data)
      have d: "data = B (lba + 1)" using r(6) data by simp
      have len: "length data = block_bytes dev" using block_length r(4,5) d by metis
      have "coherent dev (B(lba + 1 := take (block_bytes dev) data)) (cache_entries (fill_entry slot dev data s2))"
        by (rule allocated_fill_coherent [OF coh _ _ r(2)]) (use True a Some len in simp_all)
      then have "coherent dev B (cache_entries (fill_entry slot dev data s2))" using d len by simp
      then show ?thesis using True a Some data r A by (simp add: read_ahead_def settled_def)
    qed
  qed
next
  case False
  then have "read_ahead (\<lambda>l. driver_read drv n dev l 1) dev lba s = Some s"
    unfolding read_ahead_def by (rule if_not_P)
  then show ?thesis using st by simp
qed

lemma read_loop_settled:
  assumes ops: "read_blocks (drv n) = read_blocks ops" "read_blocks ops \<noteq> None"
    and rb: "request_in_bounds dev lba cnt" and bytes: "unat cnt * block_bytes dev < 2 ^ 32"
    and "settled B s" "k + left = unat cnt" "unat cnt * block_bytes dev \<le> length buffer"
  shows "\<exists>ok buffer' s'. read_loop (\<lambda>l. driver_read drv n dev l 1) dev lba left (of_nat k) buffer s
      = Some (ok, buffer', s') \<and> settled B s' \<and> devices s' = devices s
    \<and> (ok \<longrightarrow> buffer' = take (k * block_bytes dev) buffer
        @ concat (map (\<lambda>j. B (lba + of_nat j)) [k ..< unat cnt]) @ drop (unat cnt * block_bytes dev) buffer)"
  using assms(5-)
proof (induction left arbitrary: k buffer s)
  case 0
  then show ?case by auto
next
  case (Suc left)
  let ?L = "block_bytes dev" and ?l = "lba + of_nat k"
  have k: "k < unat cnt" using Suc.prems(2) by simp
  have kL: "k * ?L + ?L \<le> unat cnt * ?L" using k by (metis Suc_leI add.commute mult_Suc mult_le_mono1)
  have w: "unat (of_nat k * logical_block_size dev :: u32) = k * ?L" "ucast (of_nat k :: u32) = (of_nat k :: u64)"
    using word_index [of k dev] k unat_less_32 [of cnt] kL bytes by auto
  obtain r s1 where r: "read_block (\<lambda>l. driver_read drv n dev l 1) dev ?l s = Some (r, s1)" "settled B s1"
    "devices s1 = devices s" "\<forall>data. r = Some data \<longrightarrow> data = B ?l"
    using read_block_settled [where drv = drv and n = n and lba = ?l and s = s and B = B] ops
      in_request(2) [OF rb k] Suc.prems(1) by blast
  show ?case
  proof (cases r)
    case None
    then show ?thesis using r w by (auto simp: Let_def)
  next
    case (Some data)
    then have data: "data = B ?l" using r(4) by simp
    have len: "length data = ?L" using block_length r(2) unfolding data settled_def by metis
    obtain s2 where s2: "(if left = 0 then read_ahead (\<lambda>l. driver_read drv n dev l 1) dev ?l s1 else Some s1)
        = Some s2" "settled B s2" "devices s2 = devices s1"
      using read_ahead_settled [where drv = drv and n = n and lba = ?l and s = s1 and B = B] ops r(2)
      by (cases "left = 0") auto
    let ?b = "blit (k * ?L) data buffer"
    have b: "unat cnt * ?L \<le> length ?b" "take (Suc k * ?L) ?b = take (k * ?L) buffer @ data"
      "drop (unat cnt * ?L) ?b = drop (unat cnt * ?L) buffer"
      using blit_append [OF len, of k buffer] Suc.prems(3) kL by (simp_all add: add.commute)
    obtain ok buffer' s' where IH: "read_loop (\<lambda>l. driver_read drv n dev l 1) dev lba left (of_nat (Suc k)) ?b s2
        = Some (ok, buffer', s')" "settled B s'" "devices s' = devices s2"
      "ok \<longrightarrow> buffer' = take (Suc k * ?L) ?b @ concat (map (\<lambda>j. B (lba + of_nat j)) [Suc k ..< unat cnt])
         @ drop (unat cnt * ?L) ?b"
      using Suc.IH [OF s2(2) _ b(1), of "Suc k"] Suc.prems(2) by auto
    have "(of_nat k :: u32) + 1 = of_nat (Suc k)" by simp
    then have "read_loop (\<lambda>l. driver_read drv n dev l 1) dev lba (Suc left) (of_nat k) buffer s
        = Some (ok, buffer', s')"
      using r(1) Some w s2(1) IH(1) by (simp only: read_loop.simps Let_def) simp
    moreover have "concat (map (\<lambda>j. B (lba + of_nat j)) [k ..< unat cnt])
        = data @ concat (map (\<lambda>j. B (lba + of_nat j)) [Suc k ..< unat cnt])"
      using k data by (simp add: upt_conv_Cons)
    ultimately show ?thesis using IH b(2,3) s2(3) r(3) by simp
  qed
qed

lemma read_settled:
  assumes i: "devices s ! i = dev" "bd_ops dev = Driver_ops n"
    and ops: "read_blocks (drv n) = read_blocks ops"
    and bytes: "unat cnt * block_bytes dev < 2 ^ 32" "unat cnt * block_bytes dev \<le> length buffer"
    and st: "settled B s"
  shows "\<exists>ok buffer' s'. block_device_read (Suc fuel) drv (Some i) lba cnt (Some buffer) s
      = Some (ok, Some buffer', s') \<and> settled B s' \<and> devices s' = devices s
    \<and> (ok \<longrightarrow> buffer' = concat (map (\<lambda>j. B (lba + of_nat j)) [0 ..< unat cnt])
        @ drop (unat cnt * block_bytes dev) buffer)"
proof (cases "request_in_bounds dev lba cnt \<and> has_read drv dev")
  case False
  then show ?thesis using i st by (auto simp: Let_def reject_def settled_def)
next
  case True
  then have o: "read_blocks ops \<noteq> None" using i(2) ops by (simp add: has_read_def)
  let ?s = "count_event dev (\<lambda>t. t\<lparr>read_ops := read_ops t + 1, blocks_read := blocks_read t + ucast cnt\<rparr>) s"
  have st1: "settled B ?s" using st by (simp add: settled_def)
  obtain ok buffer' s' where "read_loop (\<lambda>l. driver_read drv n dev l 1) dev lba (unat cnt) (of_nat 0) buffer ?s
      = Some (ok, buffer', s')" "settled B s'" "devices s' = devices ?s"
    "ok \<longrightarrow> buffer' = take (0 * block_bytes dev) buffer @ concat (map (\<lambda>j. B (lba + of_nat j)) [0 ..< unat cnt])
      @ drop (unat cnt * block_bytes dev) buffer"
    using read_loop_settled [where s = ?s and drv = drv and n = n and k = 0 and left = "unat cnt"
        and lba = lba and cnt = cnt and B = B and buffer = buffer,
        OF ops o conjunct1 [OF True] bytes(1) st1 add_0 bytes(2)] by blast
  then show ?thesis using True i by (simp add: Let_def)
qed

lemma raw_write:
  assumes ops: "write_blocks (drv n) = write_blocks ops" "write_blocks ops \<noteq> None"
    and rb: "request_in_bounds dev lba cnt" and bytes: "unat cnt * block_bytes dev < 2 ^ 32"
      "unat cnt * block_bytes dev \<le> length data"
    and inv: "dinv (driver_state s)"
  shows "\<exists>r s'. with_retry (driver_write drv n dev lba cnt data) dev s = Some (r, s')
    \<and> cache_entries s' = cache_entries s \<and> devices s' = devices s \<and> dinv (driver_state s')
    \<and> blocks (driver_state s') = (if r = None then blocks (driver_state s)
        else written dev lba 0 (unat cnt) data (blocks (driver_state s)))"
proof -
  obtain g where g: "write_blocks (drv n) = Some g" "write_blocks ops = Some g" using ops by auto
  define P where "P = (\<lambda>B (t :: 'd block_state). cache_entries t = cache_entries s \<and> devices t = devices s
    \<and> dinv (driver_state t) \<and> blocks (driver_state t) = B)"
  let ?B = "blocks (driver_state s)" and ?W = "written dev lba 0 (unat cnt) data (blocks (driver_state s))"
  have "\<exists>r s'. with_retry (driver_write drv n dev lba cnt data) dev s = Some (r, s')
    \<and> (case r of None \<Rightarrow> P ?B s' | Some x \<Rightarrow> P ?W s')"
  proof (rule with_retry_rule [of "P ?B"])
    show "P ?B s" using inv by (simp add: P_def)
    show "\<exists>r t'. driver_write drv n dev lba cnt data t = Some (r, t')
        \<and> (case r of None \<Rightarrow> P ?B t' | Some x \<Rightarrow> P ?W t')" if "P ?B t" for t
    proof -
      obtain ok d' where e: "g dev lba cnt data (driver_state t) = (ok, d')" by fastforce
      have "dinv (driver_state t)" "blocks (driver_state t) = ?B" using that by (simp_all add: P_def)
      with write_law [OF g(2) _ rb bytes e] show ?thesis
        using that g(1) e written_request [OF rb] by (cases ok) (auto simp: driver_write_def P_def)
    qed
  qed (auto simp: P_def)
  then obtain r s' where "with_retry (driver_write drv n dev lba cnt data) dev s = Some (r, s')"
    "case r of None \<Rightarrow> P ?B s' | Some x \<Rightarrow> P ?W s'" by blast
  then show ?thesis by (cases r) (auto simp: P_def)
qed

lemma flush_settled:
  assumes i: "devices s ! i = dev" "bd_ops dev = Driver_ops n"
    and ops: "flush_blocks (drv n) = flush_blocks ops" and st: "settled B s"
  shows "\<exists>ok s'. block_device_flush (Suc fuel) drv (Some i) s = Some (ok, s') \<and> settled B s' \<and> devices s' = devices s"
proof (cases "flush_blocks ops")
  case None
  then show ?thesis using i ops st by (auto simp: Let_def settled_def)
next
  case (Some h)
  obtain ok x where h: "h dev (driver_state s) = (ok, x)" by fastforce
  have "dinv x" "blocks x = B" using flush_law [OF Some _ h] st by (simp_all add: settled_def)
  then show ?thesis using i ops st Some h by (simp add: Let_def settled_def)
qed

lemma write_settled:
  assumes i: "devices s ! i = dev" "bd_ops dev = Driver_ops n"
    and ops: "write_blocks (drv n) = write_blocks ops"
    and bytes: "unat cnt * block_bytes dev < 2 ^ 32" "unat cnt * block_bytes dev \<le> length data"
    and st: "settled B s"
  shows "\<exists>ok s'. block_device_write (Suc fuel) drv (Some i) lba cnt (Some data) s = Some (ok, s')
    \<and> devices s' = devices s
    \<and> settled (if ok then written dev lba 0 (unat cnt) data B else B) s'
    \<and> (ok \<longrightarrow> request_in_bounds dev lba cnt \<and> bd_flags dev AND BLOCK_DEVICE_FLAG_READ_ONLY = 0)"
proof (cases "request_in_bounds dev lba cnt \<and> bd_flags dev AND BLOCK_DEVICE_FLAG_READ_ONLY = 0 \<and> has_write drv dev")
  case False
  then show ?thesis using i st by (auto simp: Let_def reject_def settled_def)
next
  case True
  then have o: "write_blocks ops \<noteq> None" using i(2) ops by (simp add: has_write_def)
  let ?s = "count_event dev (\<lambda>t. t\<lparr>write_ops := write_ops t + 1, blocks_written := blocks_written t + ucast cnt\<rparr>) s"
  have B: "dinv (driver_state ?s)" "blocks (driver_state ?s) = B" "coherent dev B (cache_entries ?s)"
    using st by (simp_all add: settled_def)
  obtain r s1 where r: "with_retry (driver_write drv n dev lba cnt data) dev ?s = Some (r, s1)"
    "cache_entries s1 = cache_entries ?s" "devices s1 = devices ?s" "dinv (driver_state s1)"
    "blocks (driver_state s1) = (if r = None then B else written dev lba 0 (unat cnt) data B)"
    using raw_write [where s = ?s and drv = drv and n = n and lba = lba and cnt = cnt and data = data,
        OF ops o conjunct1 [OF True] bytes B(1), unfolded B(2)] by blast
  show ?thesis
  proof (cases r)
    case None
    then have "block_device_write (Suc fuel) drv (Some i) lba cnt (Some data) s = Some (False, s1)"
      using True i r(1) by (simp add: Let_def)
    moreover have "settled B s1" using r None B(3) by (simp add: settled_def)
    ultimately show ?thesis using r(3) by (intro exI [of _ False] exI [of _ s1]) (simp del: block_device_write.simps)
  next
    case (Some u)
    let ?t = "store_loop dev lba (unat cnt) (of_nat 0) data s1"
    have "block_device_write (Suc fuel) drv (Some i) lba cnt (Some data) s = Some (True, ?t)"
      using True i r(1) Some by (simp add: Let_def)
    moreover have "unat cnt < 2 ^ 32" using unat_less_32 [of cnt] by simp
    then have "coherent dev (written dev lba 0 (unat cnt) data B) (cache_entries ?t)
      \<and> devices ?t = devices s1 \<and> driver_state ?t = driver_state s1"
      using B(3) r(2) bytes by (intro store_loop_coherent) simp_all
    ultimately show ?thesis
      using r Some True
      by (intro exI [of _ True] exI [of _ ?t]) (simp add: settled_def del: block_device_write.simps)
  qed
qed

end

section \<open>The self-test disk is a disk\<close>

definition self_test_inv :: "ASAS_BLOCK_DEVICE \<Rightarrow> self_test_disks \<Rightarrow> bool" where
  "self_test_inv dev disks \<longleftrightarrow> (\<exists>d. disks (driver_context dev) = Some d
     \<and> st_block_size d = logical_block_size dev \<and> block_count dev = ucast (st_block_count d)
     \<and> unat (st_block_count d) * block_bytes dev < 2 ^ 32)"

definition self_test_blocks :: "ASAS_BLOCK_DEVICE \<Rightarrow> self_test_disks \<Rightarrow> u64 \<Rightarrow> bytes" where
  "self_test_blocks dev disks l =
     (case disks (driver_context dev) of None \<Rightarrow> replicate (block_bytes dev) 0
      | Some d \<Rightarrow> if unat l < unat (st_block_count d) then copy_out d (unat l * block_bytes dev)
          else replicate (block_bytes dev) 0)"

lemma self_test_bounds_iff:
  "self_test_disk_bounds (Some d) lba cnt \<longleftrightarrow> \<not> st_removed d \<and> 0 < unat cnt
     \<and> unat lba + unat cnt \<le> unat (st_block_count d)"
proof -
  have c: "cnt = 0 \<longleftrightarrow> unat cnt = 0" by (simp add: unat_eq_zero)
  show ?thesis
  proof (cases "unat lba < unat (st_block_count d)")
    case True
    then have "unat (ucast (st_block_count d) - lba) = unat (st_block_count d) - unat lba"
      by (subst unat_sub) (simp_all add: word_less_nat_alt word_le_nat_alt)
    then show ?thesis
      using True by (auto simp: self_test_disk_bounds_def word_less_nat_alt word_le_nat_alt c)
  next
    case False
    then have "ucast (st_block_count d) \<le> lba" by (simp add: word_le_nat_alt)
    then show ?thesis using False by (auto simp: self_test_disk_bounds_def)
  qed
qed

lemma self_test_offset_eq:
  assumes "unat lba + index < unat (st_block_count d)"
    and "unat (st_block_count d) * unat (st_block_size d) < 2 ^ 32"
  shows "self_test_offset d lba index = (unat lba + index) * unat (st_block_size d)"
proof -
  have c: "unat (st_block_count d) < 4294967296" by simp
  then have "index < 18446744073709551616" using assms(1) by linarith
  then have "unat (of_nat index :: u64) = index" by (simp add: unat_of_nat)
  moreover have "unat lba + index < 18446744073709551616" using assms(1) c by linarith
  ultimately have u: "unat (lba + of_nat index) = unat lba + index"
    by (subst unat_add_64) auto
  have "unat lba + index < 4294967296" using assms(1) c by linarith
  then have v: "unat (ucast (lba + of_nat index) :: u32) = unat lba + index"
    using u by (simp add: unsigned_ucast_eq take_bit_nat_eq_self_iff)
  have "(unat lba + index) * unat (st_block_size d) < 2 ^ 32"
    using assms by (metis less_imp_le_nat mult_le_mono1 order_le_less_trans)
  then show ?thesis
    using unat_mult_lem [of "ucast (lba + of_nat index) :: u32" "st_block_size d"] v
    by (simp add: self_test_offset_def)
qed

lemma copy_in_fold:
  fixes d lba data m
  defines "d' \<equiv> fold (\<lambda>index d1. copy_in (self_test_offset d lba index)
      (drop (unat (of_nat index * st_block_size d)) data) d1) [0 ..< m] d"
  assumes "unat lba + m \<le> unat (st_block_count d)"
    "unat (st_block_count d) * unat (st_block_size d) < 2 ^ 32"
  shows "st_storage d' = (\<lambda>a. if unat lba * unat (st_block_size d) \<le> a
      \<and> a < (unat lba + m) * unat (st_block_size d)
      then (drop ((a div unat (st_block_size d) - unat lba) * unat (st_block_size d)) data)
        ! (a mod unat (st_block_size d)) else st_storage d a)
    \<and> st_block_size d' = st_block_size d \<and> st_block_count d' = st_block_count d"
  unfolding d'_def using assms(2)
proof (induction m)
  case (Suc m)
  let ?b = "unat (st_block_size d)"
  have off: "self_test_offset d lba m = (unat lba + m) * ?b"
    using Suc.prems assms(3) by (intro self_test_offset_eq) auto
  have m: "m < 2 ^ 32" using Suc.prems unat_less_32 [of "st_block_count d"] by (simp del: unat_less_32)
  have "m * ?b < 2 ^ 32"
    using Suc.prems assms(3) by (metis Suc_leD add_leD2 mult_le_mono1 order_le_less_trans add_Suc_right)
  then have w: "unat (of_nat m * st_block_size d :: u32) = m * ?b"
    using unat_mult_lem [of "of_nat m :: u32" "st_block_size d"] m by (simp add: unat_of_nat)
  have blk: "a div ?b = unat lba + m \<and> a mod ?b = a - (unat lba + m) * ?b"
    if "(unat lba + m) * ?b \<le> a" "a < (unat lba + m) * ?b + ?b" for a
    using that by (metis add.commute div_nat_eqI minus_mult_div_eq_mod mult.commute mult_Suc)
  show ?case
    using Suc.IH Suc.prems off w blk
    by (auto simp: copy_in_def fun_eq_iff algebra_simps)
qed (auto simp: fun_eq_iff)

lemma block_index:
  assumes "k < (b :: nat)"
  shows "a * b \<le> l * b + k \<longleftrightarrow> a \<le> l" "l * b + k < a * b \<longleftrightarrow> l < a"
proof -
  have "a * b \<le> l * b" if "a \<le> l" using that by (rule mult_le_mono1)
  moreover have "l * b + b \<le> a * b" if "l < a"
    using mult_le_mono1 [of "Suc l" a b] that by (simp add: add.commute)
  ultimately show "a * b \<le> l * b + k \<longleftrightarrow> a \<le> l" "l * b + k < a * b \<longleftrightarrow> l < a"
    using assms by (meson add_le_cancel_left leD le_add1 le_trans less_imp_le_nat not_le order_le_less_trans
        add_less_cancel_left order_less_le_trans)+
qed

lemma copy_out_chunk:
  assumes "length data \<ge> (k + 1) * unat (st_block_size d)" "block_bytes dev = unat (st_block_size d)"
  shows "map (\<lambda>i. drop (k * unat (st_block_size d)) data ! i) [0 ..< unat (st_block_size d)] = chunk dev k data"
  using assms by (intro nth_equalityI) (simp_all add: chunk_def)

lemma self_test_write_blocks:
  assumes d: "disks (driver_context dev) = Some d" "st_block_size d = logical_block_size dev"
    and c: "unat (st_block_count d) * block_bytes dev < 2 ^ 32" "unat lba + unat cnt \<le> unat (st_block_count d)"
    and len: "unat cnt * block_bytes dev \<le> length data"
  defines "d' \<equiv> fold (\<lambda>index d1. copy_in (self_test_offset d lba index)
      (drop (unat (of_nat index * st_block_size d)) data) d1) [0 ..< unat cnt] d"
  shows "self_test_blocks dev (disks(driver_context dev \<mapsto> d')) l
    = (if unat lba \<le> unat l \<and> unat l < unat lba + unat cnt
       then chunk dev (unat l - unat lba) data else self_test_blocks dev disks l)"
proof -
  let ?b = "unat (st_block_size d)"
  have b: "block_bytes dev = ?b" using d(2) by (simp add: block_bytes_def)
  note F = copy_in_fold [of lba "unat cnt" d data, folded d'_def, OF c(2) c(1) [unfolded b]]
  have st: "st_storage d' (unat l * ?b + k) = (if unat lba \<le> unat l \<and> unat l < unat lba + unat cnt
      then drop ((unat l - unat lba) * ?b) data ! k else st_storage d (unat l * ?b + k))" if "k < ?b" for k
  proof -
    have "(unat l * ?b + k) div ?b = unat l" "(unat l * ?b + k) mod ?b = k" using that by simp_all
    then show ?thesis unfolding conjunct1 [OF F] by (simp only: block_index [OF that])
  qed
  have sz: "st_block_size d' = st_block_size d" "st_block_count d' = st_block_count d" using F by blast+
  show ?thesis
  proof (cases "unat lba \<le> unat l \<and> unat l < unat lba + unat cnt")
    case True
    have "(unat l - unat lba + 1) * ?b \<le> unat cnt * ?b" using True by (intro mult_le_mono1) auto
    then have "length data \<ge> (unat l - unat lba + 1) * ?b" using len b by simp
    then have "map (\<lambda>i. drop ((unat l - unat lba) * ?b) data ! i) [0 ..< ?b] = chunk dev (unat l - unat lba) data"
      using copy_out_chunk b by blast
    moreover have "copy_out d' (unat l * ?b) = map (\<lambda>i. drop ((unat l - unat lba) * ?b) data ! i) [0 ..< ?b]"
      unfolding copy_out_def sz(1) by (rule map_cong [OF refl]) (use st True in simp)
    ultimately have "copy_out d' (unat l * ?b) = chunk dev (unat l - unat lba) data" by simp
    then show ?thesis using True sz c(2) b by (simp add: self_test_blocks_def)
  next
    case False
    then have "copy_out d' (unat l * ?b) = copy_out d (unat l * ?b)"
      using st sz by (auto simp: copy_out_def)
    then show ?thesis using False sz d(1) b by (auto simp: self_test_blocks_def)
  qed
qed

interpretation self_test: disk_driver self_test_ops dev "self_test_inv dev" "self_test_blocks dev" for dev
proof
  fix f disks lba r disks'
  assume f: "read_blocks self_test_ops = Some f" and inv: "self_test_inv dev disks"
    and e: "f dev lba 1 disks = (r, disks')"
  obtain d where d: "disks (driver_context dev) = Some d" "st_block_size d = logical_block_size dev"
    "block_count dev = ucast (st_block_count d)" "unat (st_block_count d) * block_bytes dev < 2 ^ 32"
    using inv by (auto simp: self_test_inv_def)
  have e: "self_test_read dev lba 1 disks = (r, disks')" using f e by (simp add: self_test_ops_def)
  have "data = self_test_blocks dev disks lba" if "r = Some data" for data
  proof -
    have bd: "self_test_disk_bounds (Some d) lba 1" and data: "data = copy_out d (self_test_offset d lba 0)"
      using e that d(1) by (auto simp: self_test_read_def split: if_splits)
    have l: "unat lba < unat (st_block_count d)" using bd unfolding self_test_bounds_iff by simp
    then show ?thesis
      using data self_test_offset_eq [of lba 0 d] d by (simp add: self_test_blocks_def block_bytes_def)
  qed
  moreover have "self_test_inv dev disks' \<and> self_test_blocks dev disks' = self_test_blocks dev disks"
  proof -
    have "disks' = disks \<or> disks' = disks(driver_context dev \<mapsto> d\<lparr>fail_reads := fail_reads d - 1\<rparr>)"
      using e d(1) by (auto simp: self_test_read_def split: if_splits)
    then show ?thesis
      using d by (auto simp: self_test_inv_def self_test_blocks_def copy_out_def intro!: ext)
  qed
  ultimately show "self_test_inv dev disks' \<and> self_test_blocks dev disks' = self_test_blocks dev disks
      \<and> (\<forall>data. r = Some data \<longrightarrow> data = self_test_blocks dev disks lba)" by blast
next
  fix g disks lba cnt data ok disks'
  assume g: "write_blocks self_test_ops = Some g" and inv: "self_test_inv dev disks"
    and len: "unat cnt * block_bytes dev \<le> length data" and e: "g dev lba cnt data disks = (ok, disks')"
  obtain d where d: "disks (driver_context dev) = Some d" "st_block_size d = logical_block_size dev"
    "block_count dev = ucast (st_block_count d)" "unat (st_block_count d) * block_bytes dev < 2 ^ 32"
    using inv by (auto simp: self_test_inv_def)
  have e: "self_test_write dev lba cnt data disks = (ok, disks')" using g e by (simp add: self_test_ops_def)
  show "self_test_inv dev disks' \<and> self_test_blocks dev disks' = (\<lambda>l. if ok \<and> unat lba \<le> unat l
      \<and> unat l < unat lba + unat cnt then chunk dev (unat l - unat lba) data else self_test_blocks dev disks l)"
  proof (cases ok)
    case False
    then have "disks' = disks \<or> disks' = disks(driver_context dev \<mapsto> d\<lparr>fail_writes := fail_writes d - 1\<rparr>)"
      using e d(1) by (auto simp: self_test_write_def split: if_splits)
    then show ?thesis
      using d False by (auto simp: self_test_inv_def self_test_blocks_def copy_out_def intro!: ext)
  next
    case True
    let ?d = "fold (\<lambda>index d1. copy_in (self_test_offset d lba index)
      (drop (unat (of_nat index * st_block_size d)) data) d1) [0 ..< unat cnt] d"
    have bd: "self_test_disk_bounds (Some d) lba cnt" and disks': "disks' = disks(driver_context dev \<mapsto> ?d)"
      using e True d(1) by (auto simp: self_test_write_def split: if_splits)
    have lc: "unat lba + unat cnt \<le> unat (st_block_count d)" using bd unfolding self_test_bounds_iff by simp
    have "st_block_size ?d = st_block_size d" "st_block_count ?d = st_block_count d"
      using copy_in_fold [of lba "unat cnt" d data] lc d by (simp_all add: block_bytes_def)
    then have "self_test_inv dev disks'" using d disks' by (simp add: self_test_inv_def)
    moreover have "self_test_blocks dev disks' l = (if unat lba \<le> unat l \<and> unat l < unat lba + unat cnt
        then chunk dev (unat l - unat lba) data else self_test_blocks dev disks l)" for l
      unfolding disks' by (rule self_test_write_blocks) (use d lc len in simp_all)
    ultimately show ?thesis using True by (intro conjI ext) simp_all
  qed
next
  fix h disks ok disks'
  assume "flush_blocks self_test_ops = Some h" "self_test_inv dev disks" "h dev disks = (ok, disks')"
  then show "self_test_inv dev disks' \<and> self_test_blocks dev disks' = self_test_blocks dev disks"
    by (auto simp: self_test_ops_def self_test_flush_def self_test_inv_def self_test_blocks_def copy_out_def
        split: option.splits if_splits intro!: ext)
next
  show "self_test_inv dev disks \<Longrightarrow> length (self_test_blocks dev disks lba) = block_bytes dev" for disks lba
    by (auto simp: self_test_inv_def self_test_blocks_def copy_out_def block_bytes_def)
qed

section \<open>Registration\<close>

lemma register_Some:
  assumes "block_device_register (Some d) s = (Some j, s')" "device_count s < length (devices s)"
  shows "j = device_count s" "devices s' ! j = d\<lparr>bd_flags := (if bd_flags d AND BLOCK_DEVICE_FLAG_OPTICAL \<noteq> 0
      then bd_flags d OR BLOCK_DEVICE_FLAG_READ_ONLY else bd_flags d), bd_id := of_nat (device_count s),
      bd_name := copy_string 16 (bd_name d)\<rparr>"
    "i \<noteq> device_count s \<Longrightarrow> devices s' ! i = devices s ! i"
    "driver_state s' = driver_state s" "cache_entries s' = cache_entries s"
  using assms by (auto simp: block_device_register_def Let_def split: if_splits)

lemma register_partition_Some:
  assumes "block_device_register_partition par start cnt name flags s = (Some j, s')"
    "device_count s < length (devices s)"
  obtains p where "par = Some p" "cnt \<noteq> 0"
    "block_count (devices s ! p) \<noteq> 0 \<Longrightarrow> unat start + unat cnt \<le> unat (block_count (devices s ! p))"
    "block_count (devices s' ! j) = cnt" "start_lba (devices s' ! j) = start"
    "bd_parent (devices s' ! j) = Some p" "bd_ops (devices s' ! j) = Partition_ops"
    "bd_flags (devices s' ! j) AND bd_flags (devices s ! p) = bd_flags (devices s ! p)"
proof -
  obtain p where p: "par = Some p" using assms(1) by (cases par) (simp_all add: block_device_register_partition_def)
  let ?q = "devices s ! p"
  let ?d = "\<lparr>bd_id = 0, bd_name = copy_string 16 name, logical_block_size = logical_block_size ?q,
     physical_block_size = physical_block_size ?q, block_count = cnt,
     bd_flags = bd_flags ?q OR flags OR BLOCK_DEVICE_FLAG_PARTITION, bd_target = bd_target ?q,
     bd_lun = bd_lun ?q, start_lba = start, bd_parent = par, bd_ops = Partition_ops, driver_context = 0\<rparr>"
  have g: "cnt \<noteq> 0" "\<not> (block_count ?q \<noteq> 0 \<and> (start \<ge> block_count ?q \<or> cnt > block_count ?q - start))"
    and r: "block_device_register (Some ?d) s = (Some j, s')"
    using assms(1) p by (auto simp: block_device_register_partition_def Let_def split: if_splits)
  have "unat start + unat cnt \<le> unat (block_count ?q)" if "block_count ?q \<noteq> 0"
  proof -
    have a: "start < block_count ?q" "cnt \<le> block_count ?q - start" using g(2) that by auto
    then have "unat (block_count ?q - start) = unat (block_count ?q) - unat start" by (intro unat_sub) simp
    then show ?thesis using a by (simp add: word_le_nat_alt word_less_nat_alt)
  qed
  moreover have "bd_flags (devices s' ! j) AND bd_flags ?q = bd_flags ?q"
    using register_Some(2) [OF r assms(2)] by (auto simp: bit_eq_iff bit_simps)
  ultimately show thesis using that [OF p g(1)] register_Some(2) [OF r assms(2)] p by simp
qed

lemma read_only_inherits:
  assumes "(f :: u32) AND q = q" "q AND m \<noteq> 0"
  shows "f AND m \<noteq> 0"
proof
  assume "f AND m = 0"
  have "q AND m = (f AND q) AND m" using assms(1) by simp
  also have "\<dots> = q AND (f AND m)" by (simp only: ac_simps)
  finally show False using assms(2) \<open>f AND m = 0\<close> by simp
qed

text \<open>A sample disk of eight 512-byte blocks for the witnesses, with one partition.\<close>

definition sample_device :: ASAS_BLOCK_DEVICE where
  "sample_device = \<lparr>bd_id = 0, bd_name = ''test0'', logical_block_size = 512, physical_block_size = 512,
     block_count = 8, bd_flags = 0, bd_target = 0, bd_lun = 0, start_lba = 0, bd_parent = None,
     bd_ops = Driver_ops 0, driver_context = 7\<rparr>"

definition sample_disks :: self_test_disks where
  "sample_disks = [7 \<mapsto> \<lparr>st_storage = (\<lambda>_. 0x11), st_block_size = 512, st_block_count = 8, fail_reads = 1,
     fail_writes = 0, st_removed = False, st_flushes = 0\<rparr>]"

definition sample_blocks :: "self_test_disks block_state" where
  "sample_blocks = \<lparr>devices = replicate 32 sample_device, telemetry = replicate 32 telemetry_zero,
     cache_entries = replicate 16 \<lparr>ce_valid = False, ce_device_id = 0, ce_lba = 0, ce_block_size = 0,
       ce_data = replicate 4096 0\<rparr>,
     device_count = 1, next_cache_slot = 0, driver_state = sample_disks\<rparr>"

lemma sample_settled:
  "self_test.settled sample_device (self_test_blocks sample_device sample_disks) sample_blocks"
proof -
  have "self_test_inv sample_device sample_disks"
    by (simp add: self_test_inv_def sample_device_def sample_disks_def block_bytes_def)
  moreover have "coherent sample_device B (cache_entries sample_blocks)" for B
    by (rule coherentI) (simp_all add: sample_blocks_def cache_hit_def)
  ultimately show ?thesis by (simp add: self_test.settled_def sample_blocks_def)
qed

section \<open>Properties\<close>

text \<open>C5: the cache, the read-ahead and the retries are transparent to readers.  On a device behind the
  self-test driver, from a coherent state, \<open>block_device_read\<close> returns; if it reports success, the
  buffer holds exactly the requested blocks of the disk; and the disk contents and the coherence of
  the cache are kept, whether or not reads failed on the way.\<close>

theorem block_read_refines_disk:
  assumes "devices s ! i = dev" and "bd_ops dev = Driver_ops n" and "drv n = self_test_ops"
    and "unat cnt * block_bytes dev < 2 ^ 32" and "length buffer = unat cnt * block_bytes dev"
    and "self_test_inv dev (driver_state s)"
    and "coherent dev (self_test_blocks dev (driver_state s)) (cache_entries s)"
  shows "\<exists>ok buffer' s'. block_device_read (Suc fuel) drv (Some i) lba cnt (Some buffer) s
      = Some (ok, Some buffer', s')
    \<and> self_test_blocks dev (driver_state s') = self_test_blocks dev (driver_state s)
    \<and> self_test_inv dev (driver_state s')
    \<and> coherent dev (self_test_blocks dev (driver_state s')) (cache_entries s')
    \<and> (ok \<longrightarrow> buffer' = concat (map (\<lambda>j. self_test_blocks dev (driver_state s) (lba + of_nat j)) [0 ..< unat cnt]))"
proof -
  have o: "read_blocks (drv n) = read_blocks self_test_ops" using assms(3) by simp
  have st: "self_test.settled dev (self_test_blocks dev (driver_state s)) s"
    using assms(6,7) by (simp add: self_test.settled_def)
  obtain ok b s' where "block_device_read (Suc fuel) drv (Some i) lba cnt (Some buffer) s = Some (ok, Some b, s')"
    "self_test.settled dev (self_test_blocks dev (driver_state s)) s'"
    "ok \<longrightarrow> b = concat (map (\<lambda>j. self_test_blocks dev (driver_state s) (lba + of_nat j)) [0 ..< unat cnt])"
    using self_test.read_settled [where drv = drv and n = n, OF assms(1,2) o assms(4) _ st, of buffer fuel lba]
      assms(5) by auto
  then show ?thesis
    by (intro exI [of _ ok] exI [of _ b] exI [of _ s'])
       (simp add: self_test.settled_def del: block_device_read.simps)
qed

theorem block_read_refines_disk_witness:
  "\<exists>ok buffer' s'. block_device_read 1 (\<lambda>_. self_test_ops) (Some 0) 2 1 (Some (replicate 512 0)) sample_blocks
      = Some (ok, Some buffer', s')
    \<and> coherent sample_device (self_test_blocks sample_device (driver_state s')) (cache_entries s')"
  using block_read_refines_disk [of sample_blocks 0 sample_device 0 "\<lambda>_. self_test_ops" 1 "replicate 512 0" 0 2]
    sample_settled
  by (simp add: sample_blocks_def sample_device_def block_bytes_def self_test.settled_def
      del: block_device_read.simps) blast

text \<open>C6: \<open>block_device_write\<close> returns; if it reports success, exactly the named blocks of the disk hold
  the buffer's data and no other block changed; if it fails, no block changed; and every later
  cached read will see the new contents, since the cache is coherent with them.\<close>

theorem block_write_refines_disk:
  assumes "devices s ! i = dev" and "bd_ops dev = Driver_ops n" and "drv n = self_test_ops"
    and "unat cnt * block_bytes dev < 2 ^ 32" and "unat cnt * block_bytes dev \<le> length data"
    and "self_test_inv dev (driver_state s)"
    and "coherent dev (self_test_blocks dev (driver_state s)) (cache_entries s)"
  shows "\<exists>ok s'. block_device_write (Suc fuel) drv (Some i) lba cnt (Some data) s = Some (ok, s')
    \<and> self_test_inv dev (driver_state s')
    \<and> self_test_blocks dev (driver_state s')
        = (\<lambda>l. if ok \<and> unat lba \<le> unat l \<and> unat l < unat lba + unat cnt
             then chunk dev (unat l - unat lba) data else self_test_blocks dev (driver_state s) l)
    \<and> coherent dev (self_test_blocks dev (driver_state s')) (cache_entries s')"
proof -
  have o: "write_blocks (drv n) = write_blocks self_test_ops" using assms(3) by simp
  have st: "self_test.settled dev (self_test_blocks dev (driver_state s)) s"
    using assms(6,7) by (simp add: self_test.settled_def)
  obtain ok s' where w: "block_device_write (Suc fuel) drv (Some i) lba cnt (Some data) s = Some (ok, s')"
    "self_test.settled dev (if ok then written dev lba 0 (unat cnt) data (self_test_blocks dev (driver_state s))
       else self_test_blocks dev (driver_state s)) s'"
    "ok \<longrightarrow> request_in_bounds dev lba cnt \<and> bd_flags dev AND BLOCK_DEVICE_FLAG_READ_ONLY = 0"
    using self_test.write_settled [where drv = drv and n = n, OF assms(1,2) o assms(4,5) st] by blast
  then show ?thesis
    using written_request [of dev lba cnt data "self_test_blocks dev (driver_state s)"]
    by (intro exI [of _ ok] exI [of _ s'])
       (cases ok; simp add: self_test.settled_def del: block_device_write.simps)
qed

theorem block_write_refines_disk_witness:
  "\<exists>ok s'. block_device_write 1 (\<lambda>_. self_test_ops) (Some 0) 2 1 (Some (replicate 512 0xAA)) sample_blocks
      = Some (ok, s')
    \<and> coherent sample_device (self_test_blocks sample_device (driver_state s')) (cache_entries s')"
  using block_write_refines_disk [of sample_blocks 0 sample_device 0 "\<lambda>_. self_test_ops" 1 "replicate 512 0xAA" 0 2]
    sample_settled
  by (simp add: sample_blocks_def sample_device_def block_bytes_def self_test.settled_def
      del: block_device_write.simps) blast



text \<open>read-only devices are never written.  A device that was registered as optical, and a partition
  of a read-only device, is read-only; a write to a read-only device fails and changes neither the
  disk nor the cache.\<close>

theorem read_only_devices_not_written:
  assumes "device_count s < length (devices s)"
    and "block_device_register (Some d) s = (Some j, s') \<and> bd_flags d AND BLOCK_DEVICE_FLAG_OPTICAL \<noteq> 0
      \<or> block_device_register_partition (Some p) start len name flags s = (Some j, s')
        \<and> bd_flags (devices s ! p) AND BLOCK_DEVICE_FLAG_READ_ONLY \<noteq> 0"
  shows "\<exists>s''. block_device_write (Suc fuel) drv (Some j) lba cnt buffer s' = Some (False, s'')
    \<and> driver_state s'' = driver_state s' \<and> cache_entries s'' = cache_entries s'"
proof -
  have "bd_flags (devices s' ! j) AND BLOCK_DEVICE_FLAG_READ_ONLY \<noteq> 0"
    using assms(2)
  proof
    assume a: "block_device_register (Some d) s = (Some j, s') \<and> bd_flags d AND BLOCK_DEVICE_FLAG_OPTICAL \<noteq> 0"
    then have "bd_flags (devices s' ! j) = bd_flags d OR BLOCK_DEVICE_FLAG_READ_ONLY"
      using register_Some(2) [of d s j s'] assms(1) by simp
    then have "bd_flags (devices s' ! j) AND BLOCK_DEVICE_FLAG_READ_ONLY = BLOCK_DEVICE_FLAG_READ_ONLY"
      by (simp add: bit_eq_iff bit_simps) blast
    then show ?thesis by (simp add: BLOCK_DEVICE_FLAG_READ_ONLY_def)
  next
    assume a: "block_device_register_partition (Some p) start len name flags s = (Some j, s')
        \<and> bd_flags (devices s ! p) AND BLOCK_DEVICE_FLAG_READ_ONLY \<noteq> 0"
    then have "bd_flags (devices s' ! j) AND bd_flags (devices s ! p) = bd_flags (devices s ! p)"
      using register_partition_Some [of "Some p" start len name flags s j s'] assms(1) by auto
    then show ?thesis using read_only_inherits a by blast
  qed
  then show ?thesis by (cases buffer) (simp_all add: Let_def reject_def)
qed

theorem read_only_devices_not_written_witness:
  "\<exists>s' s''. block_device_register (Some (sample_device\<lparr>bd_flags := BLOCK_DEVICE_FLAG_OPTICAL\<rparr>)) sample_blocks
      = (Some 1, s')
    \<and> block_device_write 1 (\<lambda>_. self_test_ops) (Some 1) 0 1 (Some []) s' = Some (False, s'')"
proof -
  obtain s' where r: "block_device_register (Some (sample_device\<lparr>bd_flags := BLOCK_DEVICE_FLAG_OPTICAL\<rparr>))
      sample_blocks = (Some 1, s')"
    by (simp add: block_device_register_def sample_blocks_def sample_device_def BLOCK_DEVICE_MAX_COUNT_def Let_def)
  have "device_count sample_blocks < length (devices sample_blocks)" by (simp add: sample_blocks_def)
  from read_only_devices_not_written [OF this disjI1, OF conjI [OF r], of 0 "\<lambda>_. self_test_ops" 0 1 "Some []"]
  show ?thesis using r by (auto simp: BLOCK_DEVICE_FLAG_OPTICAL_def simp del: block_device_write.simps)
qed

lemma attempts_cache:
  assumes "attempts (driver_write drv n d lba cnt data) left a s = Some (k, r, s')"
  shows "cache_entries s' = cache_entries s \<and> next_cache_slot s' = next_cache_slot s \<and> devices s' = devices s"
  using assms
proof (induction left arbitrary: a s)
  case (Suc left)
  obtain ok x where "the (write_blocks (drv n)) d lba cnt data (driver_state s) = (ok, x)" by fastforce
  then have "driver_write drv n d lba cnt data s
      = Some (if ok then Some () else None, s\<lparr>driver_state := x\<rparr>)"
    by (simp add: driver_write_def)
  then show ?case using Suc.IH [of "Suc a" "s\<lparr>driver_state := x\<rparr>"] Suc.prems by (cases ok) auto
qed simp

lemma write_driver_cache:
  assumes "block_device_write (Suc fuel) drv (Some p) lba 1 (Some data) s = Some (True, s')"
    and "bd_ops (devices s ! p) = Driver_ops n"
  obtains t where "s' = cache_store (devices s ! p) lba data t" "cache_entries t = cache_entries s"
    "next_cache_slot t = next_cache_slot s"
proof -
  let ?d = "devices s ! p"
  let ?s = "count_event ?d (\<lambda>t. t\<lparr>write_ops := write_ops t + 1, blocks_written := blocks_written t + ucast (1 :: u32)\<rparr>) s"
  obtain u t where w: "with_retry (driver_write drv n ?d lba 1 data) ?d ?s = Some (Some u, t)"
    and s': "s' = store_loop ?d lba (unat (1 :: u32)) 0 data t"
    using assms by (auto simp: Let_def split: if_splits option.splits)
  then obtain k t1 where att: "attempts (driver_write drv n ?d lba 1 data) (unat (retry_budget ?d) + 1) 0 ?s = Some (k, Some u, t1)"
    and t: "t = t1 \<or> t = count_event ?d (\<lambda>x. x\<lparr>tel_retries := tel_retries x + of_nat k\<rparr>) t1"
    by (auto simp: with_retry_def Let_def split: option.splits if_splits simp del: attempts.simps)
  from attempts_cache [OF att] have "cache_entries t1 = cache_entries s \<and> next_cache_slot t1 = next_cache_slot s"
    by (simp add: count_event_def)
  then have "cache_entries t = cache_entries s" "next_cache_slot t = next_cache_slot s"
    using t by (auto simp: count_event_def)
  moreover have "s' = cache_store ?d lba data t"
    using s' by (simp add: numeral_eq_Suc)
  ultimately show thesis by (rule that [rotated])
qed

lemma cache_store_other:
  assumes "length (cache_entries t) = 16" "slot < 16" "ce_device_id (cache_entries t ! slot) \<noteq> bd_id d"
    and "slot \<noteq> unat (next_cache_slot t) mod 16"
  shows "cache_entries (cache_store d lba data t) ! slot = cache_entries t ! slot"
proof (cases "cache_find d lba t")
  case (Some i)
  then have "i \<noteq> slot" using assms(3) cache_find_Some(2) [OF Some] by (auto simp: cache_hit_def)
  then show ?thesis using Some by (simp add: cache_store_def)
next
  case None
  then show ?thesis
    using assms by (auto simp: cache_store_def cache_allocate_def BLOCK_CACHE_ENTRY_COUNT_def Let_def)
qed

lemma cache_store_no_hit:
  assumes "bd_id part \<noteq> bd_id d" "i < 16" "length (cache_entries t) = 16"
    and "cache_hit part l (cache_entries (cache_store d lba data t) ! i)"
  shows "cache_hit part l (cache_entries t ! i)"
proof (cases "cache_find d lba t")
  case (Some j)
  then show ?thesis
    using assms by (cases "i = j") (auto simp: cache_store_def cache_hit_def)
next
  case None
  then show ?thesis
    using assms by (cases "i = unat (next_cache_slot t) mod 16")
      (auto simp: cache_store_def cache_allocate_def cache_hit_def BLOCK_CACHE_ENTRY_COUNT_def Let_def
        split: if_splits)
qed

lemma cache_find_iff:
  "cache_find d lba s = Some slot \<longleftrightarrow> \<not> no_cache d \<and> slot < 16 \<and> cache_hit d lba (cache_entries s ! slot)
     \<and> (\<forall>i < slot. \<not> cache_hit d lba (cache_entries s ! i))"
  by (auto simp: cache_find_def BLOCK_CACHE_ENTRY_COUNT_def find_Some_iff simp del: upt_rec_numeral)

lemma with_retry_first: "f s = Some (Some r, s1) \<Longrightarrow> with_retry f d s = Some (Some r, s1)"
  by (simp add: with_retry_def)

definition stale_partition :: ASAS_BLOCK_DEVICE where
  "stale_partition = sample_device\<lparr>bd_id := 1, block_count := 4, start_lba := 2, bd_parent := Some 0,
     bd_ops := Partition_ops\<rparr>"

definition stale_state :: "self_test_disks block_state" where
  "stale_state = sample_blocks\<lparr>devices := (devices sample_blocks)[1 := stale_partition],
     cache_entries := (cache_entries sample_blocks)[5 := \<lparr>ce_valid = True, ce_device_id = 1, ce_lba = 0,
       ce_block_size = 512, ce_data = replicate 4096 0x11\<rparr>]\<rparr>"

text \<open>the cache is not coherent between a disk and its partitions.  After a block that is cached for a
  partition has been overwritten through the disk, a read of that block of the partition still hits
  the cache and returns the old data, unless the slot happened to be recycled.\<close>

theorem partition_cache_stale:
  assumes "bd_ops (devices s ! p) = Driver_ops n" and "bd_id part \<noteq> bd_id (devices s ! p)"
    and "length (cache_entries s) = 16" and "cache_find part lba s = Some slot"
    and "slot \<noteq> unat (next_cache_slot s) mod 16"
    and "block_device_write (Suc fuel) drv (Some p) (start_lba part + lba) 1 (Some data) s = Some (True, s')"
  shows "\<exists>s''. read_block rd part lba s'
    = Some (Some (take (block_bytes part) (ce_data (cache_entries s ! slot))), s'')"
proof -
  note F = assms(4) [unfolded cache_find_iff]
  obtain t where t: "s' = cache_store (devices s ! p) (start_lba part + lba) data t"
    "cache_entries t = cache_entries s" "next_cache_slot t = next_cache_slot s"
    by (rule write_driver_cache [OF assms(6,1)])
  have "ce_device_id (cache_entries t ! slot) \<noteq> bd_id (devices s ! p)"
    using F assms(2) t(2) by (simp add: cache_hit_def)
  then have same: "cache_entries s' ! slot = cache_entries s ! slot"
    using cache_store_other [of t slot "devices s ! p"] t assms(3,5) F by simp
  have "\<not> cache_hit part lba (cache_entries s' ! i)" if "i < slot" for i
    using cache_store_no_hit [of part "devices s ! p" i t lba "start_lba part + lba" data] that F t assms(2,3)
    by auto
  then have "cache_find part lba s' = Some slot" unfolding cache_find_iff using F same by simp
  then show ?thesis using same by (simp add: read_block_def Let_def block_bytes_def)
qed

theorem partition_cache_stale_witness:
  "\<exists>s' s''. block_device_write 1 (\<lambda>_. self_test_ops) (Some 0) 2 1 (Some (replicate 512 0xAA)) stale_state
      = Some (True, s')
    \<and> read_block (\<lambda>_ _. None) stale_partition 0 s' = Some (Some (replicate 512 0x11), s'')"
proof -
  have d: "devices stale_state ! 0 = sample_device" "bd_ops sample_device = Driver_ops 0"
    "bd_id stale_partition \<noteq> bd_id sample_device" "start_lba stale_partition + 0 = 2"
    "length (cache_entries stale_state) = 16" "unat (next_cache_slot stale_state) mod 16 = 0"
    "take (block_bytes stale_partition) (ce_data (cache_entries stale_state ! 5)) = replicate 512 0x11"
    by (simp_all add: stale_state_def stale_partition_def sample_blocks_def sample_device_def block_bytes_def)
  have e: "\<not> ce_valid (cache_entries stale_state ! i)" if "i < 5" for i
    using that by (simp add: stale_state_def sample_blocks_def)
  have "cache_hit stale_partition 0 (cache_entries stale_state ! 5)" "\<not> no_cache stale_partition"
    by (simp_all add: stale_state_def stale_partition_def sample_blocks_def sample_device_def cache_hit_def
        no_cache_def)
  then have f: "cache_find stale_partition 0 stale_state = Some 5"
    unfolding cache_find_iff using e by (auto simp: cache_hit_def)
  have "self_test_disk_bounds (sample_disks 7) 2 1"
    unfolding sample_disks_def by (simp add: self_test_bounds_iff)
  then obtain x where "self_test_write sample_device 2 1 (replicate 512 0xAA) sample_disks = (True, x)"
    by (simp add: self_test_write_def sample_device_def sample_disks_def)
  then have "\<exists>x. driver_write (\<lambda>_. self_test_ops) 0 sample_device 2 1 (replicate 512 0xAA)
      (count_event sample_device g stale_state) = Some (Some (), x)" for g
    by (simp add: driver_write_def self_test_ops_def stale_state_def sample_blocks_def)
  then have "\<exists>x. with_retry (driver_write (\<lambda>_. self_test_ops) 0 sample_device 2 1 (replicate 512 0xAA)) sample_device
      (count_event sample_device g stale_state) = Some (Some (), x)" for g
    using with_retry_first by metis
  then obtain X where "with_retry (driver_write (\<lambda>_. self_test_ops) 0 sample_device 2 1 (replicate 512 0xAA))
      sample_device (count_event sample_device g stale_state) = Some (Some (), X g)" for g
    by metis
  moreover have "request_in_bounds sample_device 2 1" "has_write (\<lambda>_. self_test_ops) sample_device"
    "bd_flags sample_device = 0"
    by (simp_all add: request_in_bounds_iff has_write_def) (simp_all add: sample_device_def self_test_ops_def)
  ultimately have "\<exists>s'. block_device_write (Suc 0) (\<lambda>_. self_test_ops) (Some 0) 2 1 (Some (replicate 512 0xAA))
      stale_state = Some (True, s')"
    by (simp add: d(1,2) Let_def)
  then obtain s' where w: "block_device_write (Suc 0) (\<lambda>_. self_test_ops) (Some 0) 2 1
      (Some (replicate 512 0xAA)) stale_state = Some (True, s')" by blast
  show ?thesis
    using partition_cache_stale [of stale_state 0 0 stale_partition 0 5 0 "\<lambda>_. self_test_ops"
        "replicate 512 0xAA" s'] d f w by (simp del: block_device_write.simps)
qed

end
