(* ===== verification/Filesystem_Mounts.thy ===== *)
theory Filesystem_Mounts
  imports Block_Device
begin

text \<open>
  \<^verbatim>\<open>src/kernel/filesystem.c\<close>, lines 653 to 905: the table of file system drivers, the table of mounts
  with their locks and reference counts, and the dispatch of file operations to the driver of a
  mount.

  A mount pointer is the index of the mount in the table, \<open>None\<close> the null pointer.  A driver pointer
  is one of the six built-in tables; the operations take the tables as the parameter \<open>drv\<close>, and
  \<open>builtin_drivers\<close> is the kernel's: the adapters of lines 55 to 651 over the functions that the files
  \<^verbatim>\<open>fat32.c\<close>, \<^verbatim>\<open>ntfs.c\<close>, \<^verbatim>\<open>exfat.c\<close>, \<^verbatim>\<open>ext2.c\<close>, \<^verbatim>\<open>udf.c\<close> and \<^verbatim>\<open>iso9660.c\<close> provide on their
  contexts, which are a parameter, as are probing and listing.  The drivers work on a state of
  their own.  What \<^verbatim>\<open>filesystem_unmount\<close> calls directly
  (\<^verbatim>\<open>fat32_context_sync\<close> and the \<^verbatim>\<open>*_context_destroy\<close> functions of the other files) is a second
  parameter.  A lock that is taken is never released while the kernel spins on it, so \<open>mount_lock\<close>
  of a taken lock has no result.
\<close>

section \<open>State\<close>

definition FILESYSTEM_MAX_DRIVERS :: nat where "FILESYSTEM_MAX_DRIVERS = 8"
definition FILESYSTEM_MAX_MOUNTS :: nat where "FILESYSTEM_MAX_MOUNTS = 16"
definition FILESYSTEM_FLAG_READ_ONLY :: u32 where "FILESYSTEM_FLAG_READ_ONLY = 0x01"
definition FILESYSTEM_FLAG_NO_EXEC :: u32 where "FILESYSTEM_FLAG_NO_EXEC = 0x02"

text \<open>The addresses of the built-in driver tables.\<close>

datatype fs_driver = fat32_driver | ntfs_driver | exfat_driver | ext2_driver | udf_driver | iso9660_driver

record ASAS_FILE_STAT =
  stat_size :: u64
  stat_exists :: bool
  stat_is_directory :: bool
  stat_read_only :: bool

record ASAS_FILESYSTEM_ENTRY =
  entry_name :: string
  entry_length :: u64
  entry_is_directory :: bool
  entry_read_only :: bool

record ASAS_FILESYSTEM_MOUNT =
  fm_id :: u32
  fm_generation :: u32
  reference_count :: u32
  fm_device :: "nat option"
  fm_driver :: "fs_driver option"
  fm_flags :: u32
  fm_context :: "nat option"
  lock_value :: u32
  fm_active :: bool

text \<open>\<open>mount\<close> receives the mount and returns it with the fields it set; the other operations read the
  mount only.\<close>

record 'v ASAS_FILESYSTEM_DRIVER =
  fd_name :: "string option"
  fd_flags :: u32
  fd_probe :: "(nat option \<Rightarrow> 'v \<Rightarrow> bool \<times> 'v) option"
  fd_mount :: "(ASAS_FILESYSTEM_MOUNT \<Rightarrow> 'v \<Rightarrow> (bool \<times> ASAS_FILESYSTEM_MOUNT) \<times> 'v) option"
  fd_stat :: "(ASAS_FILESYSTEM_MOUNT \<Rightarrow> string \<Rightarrow> ASAS_FILE_STAT \<Rightarrow> 'v \<Rightarrow> (bool \<times> ASAS_FILE_STAT) \<times> 'v) option"
  fd_read :: "(ASAS_FILESYSTEM_MOUNT \<Rightarrow> string \<Rightarrow> u64 \<Rightarrow> 'v \<Rightarrow> (u64 \<times> bytes) \<times> 'v) option"
  fd_list :: "(ASAS_FILESYSTEM_MOUNT \<Rightarrow> string \<Rightarrow> u64 \<Rightarrow> 'v \<Rightarrow> (u64 \<times> ASAS_FILESYSTEM_ENTRY list) \<times> 'v) option"
  fd_write :: "(ASAS_FILESYSTEM_MOUNT \<Rightarrow> string \<Rightarrow> bytes \<Rightarrow> 'v \<Rightarrow> bool \<times> 'v) option"
  fd_unlink :: "(ASAS_FILESYSTEM_MOUNT \<Rightarrow> string \<Rightarrow> 'v \<Rightarrow> bool \<times> 'v) option"
  fd_mkdir :: "(ASAS_FILESYSTEM_MOUNT \<Rightarrow> string \<Rightarrow> 'v \<Rightarrow> bool \<times> 'v) option"
  fd_rmdir :: "(ASAS_FILESYSTEM_MOUNT \<Rightarrow> string \<Rightarrow> 'v \<Rightarrow> bool \<times> 'v) option"
  fd_rename :: "(ASAS_FILESYSTEM_MOUNT \<Rightarrow> string \<Rightarrow> string \<Rightarrow> 'v \<Rightarrow> bool \<times> 'v) option"
  fd_sync :: "(ASAS_FILESYSTEM_MOUNT \<Rightarrow> 'v \<Rightarrow> bool \<times> 'v) option"

type_synonym 'v fs_drivers = "fs_driver \<Rightarrow> 'v ASAS_FILESYSTEM_DRIVER"

text \<open>The functions on contexts that unmounting calls by name; \<open>context_destroy\<close> takes the driver
  whose function is meant.\<close>

record 'v fs_contexts =
  fat32_context_sync :: "nat option \<Rightarrow> 'v \<Rightarrow> bool \<times> 'v"
  context_destroy :: "fs_driver \<Rightarrow> nat option \<Rightarrow> 'v \<Rightarrow> 'v"

record 'v fs_state =
  driver_table :: "fs_driver list"
  mounts :: "ASAS_FILESYSTEM_MOUNT list"
  driver_count :: nat
  mount_count :: u32
  next_generation :: u32
  fs_world :: 'v

section \<open>Operations\<close>

definition upd_mount ::
  "nat \<Rightarrow> (ASAS_FILESYSTEM_MOUNT \<Rightarrow> ASAS_FILESYSTEM_MOUNT) \<Rightarrow> 'v fs_state \<Rightarrow> 'v fs_state" where
  "upd_mount i f s = s\<lparr>mounts := (mounts s)[i := f (mounts s ! i)]\<rparr>"

definition mount_lock :: "nat \<Rightarrow> 'v fs_state \<Rightarrow> 'v fs_state option" where
  "mount_lock i s = (if lock_value (mounts s ! i) = 0 then Some (upd_mount i (lock_value_update (\<lambda>_. 1)) s)
     else None)"

definition mount_unlock :: "nat \<Rightarrow> 'v fs_state \<Rightarrow> 'v fs_state" where
  "mount_unlock i = upd_mount i (lock_value_update (\<lambda>_. 0))"

definition unmount_context :: "'v fs_contexts \<Rightarrow> ASAS_FILESYSTEM_MOUNT \<Rightarrow> 'v \<Rightarrow> bool \<times> 'v" where
  "unmount_context ctx m v =
     (if fm_driver m = Some fat32_driver then
        let (ok, v1) = fat32_context_sync ctx (fm_context m) v
        in if ok then (True, context_destroy ctx fat32_driver (fm_context m) v1) else (False, v1)
      else if fm_driver m = Some ntfs_driver then (True, context_destroy ctx ntfs_driver (fm_context m) v)
      else if fm_driver m = Some exfat_driver then (True, context_destroy ctx exfat_driver (fm_context m) v)
      else if fm_driver m = Some iso9660_driver then (True, context_destroy ctx iso9660_driver (fm_context m) v)
      else if fm_driver m = Some udf_driver then (True, context_destroy ctx udf_driver (fm_context m) v)
      else if fm_driver m = Some ext2_driver then (True, context_destroy ctx ext2_driver (fm_context m) v)
      else (True, v))"

text \<open>A mount pointer into the table is valid when its \<open>id\<close> names its own slot.\<close>

definition own_slot :: "nat \<Rightarrow> 'v fs_state \<Rightarrow> bool" where
  "own_slot i s \<longleftrightarrow> unat (fm_id (mounts s ! i)) < FILESYSTEM_MAX_MOUNTS \<and> unat (fm_id (mounts s ! i)) = i"

definition filesystem_unmount :: "'v fs_contexts \<Rightarrow> nat option \<Rightarrow> 'v fs_state \<Rightarrow> (bool \<times> 'v fs_state) option" where
  "filesystem_unmount ctx mnt s =
     (case mnt of None \<Rightarrow> Some (False, s)
      | Some i \<Rightarrow>
          if \<not> own_slot i s \<or> \<not> fm_active (mounts s ! i) \<or> reference_count (mounts s ! i) \<noteq> 0
          then Some (False, s)
          else (case mount_lock i s of None \<Rightarrow> None
            | Some s1 \<Rightarrow>
                let (ok, v) = unmount_context ctx (mounts s1 ! i) (fs_world s1);
                    s2 = s1\<lparr>fs_world := v\<rparr>
                in if ok then
                     Some (True, mount_unlock i (upd_mount i
                       (\<lambda>m. m\<lparr>fm_device := None, fm_driver := None, fm_context := None, fm_active := False\<rparr>)
                       (s2\<lparr>mount_count := mount_count s2 - 1\<rparr>)))
                   else Some (False, mount_unlock i s2)))"

text \<open>The loop of \<open>filesystem_initialize\<close> over the mounts from \<open>index\<close> on.\<close>

fun unmount_all :: "'v fs_contexts \<Rightarrow> nat list \<Rightarrow> 'v fs_state \<Rightarrow> 'v fs_state option" where
  "unmount_all ctx [] s = Some s"
| "unmount_all ctx (index # rest) s =
     (if fm_active (mounts s ! index) then
        (case filesystem_unmount ctx (Some index) s of None \<Rightarrow> None
         | Some (_, s1) \<Rightarrow> unmount_all ctx rest s1)
      else unmount_all ctx rest s)"

definition filesystem_initialize :: "'v fs_contexts \<Rightarrow> 'v fs_state \<Rightarrow> 'v fs_state option" where
  "filesystem_initialize ctx s =
     map_option (\<lambda>s1. s1\<lparr>driver_count := 0\<rparr>) (unmount_all ctx [0 ..< FILESYSTEM_MAX_MOUNTS] s)"

definition filesystem_register :: "'v fs_drivers \<Rightarrow> fs_driver option \<Rightarrow> 'v fs_state \<Rightarrow> bool \<times> 'v fs_state" where
  "filesystem_register drv driver s =
     (case driver of None \<Rightarrow> (False, s)
      | Some n \<Rightarrow>
          if fd_name (drv n) = None \<or> fd_probe (drv n) = None \<or> fd_mount (drv n) = None
             \<or> driver_count s \<ge> FILESYSTEM_MAX_DRIVERS
          then (False, s)
          else (True, s\<lparr>driver_table := (driver_table s)[driver_count s := n],
                        driver_count := driver_count s + 1\<rparr>))"

definition filesystem_register_builtin_drivers :: "'v fs_drivers \<Rightarrow> 'v fs_state \<Rightarrow> 'v fs_state" where
  "filesystem_register_builtin_drivers drv s =
     fold (\<lambda>n t. snd (filesystem_register drv (Some n) t))
       [fat32_driver, ntfs_driver, exfat_driver, ext2_driver, udf_driver, iso9660_driver] s"

text \<open>The loop of \<open>filesystem_probe\<close> over the registered drivers.\<close>

fun probe_drivers :: "'v fs_drivers \<Rightarrow> nat option \<Rightarrow> fs_driver list \<Rightarrow> 'v \<Rightarrow> fs_driver option \<times> 'v" where
  "probe_drivers drv device [] v = (None, v)"
| "probe_drivers drv device (n # rest) v =
     (let (found, v1) = the (fd_probe (drv n)) device v
      in if found then (Some n, v1) else probe_drivers drv device rest v1)"

definition filesystem_probe :: "'v fs_drivers \<Rightarrow> nat option \<Rightarrow> 'v fs_state \<Rightarrow> fs_driver option \<times> 'v fs_state" where
  "filesystem_probe drv device s =
     (let (r, v) = probe_drivers drv device (take (driver_count s) (driver_table s)) (fs_world s)
      in (r, s\<lparr>fs_world := v\<rparr>))"

text \<open>The first inactive slot from \<open>slot\<close> on.\<close>

function free_slot_from :: "nat \<Rightarrow> 'v fs_state \<Rightarrow> nat" where
  "free_slot_from slot s =
     (if slot < FILESYSTEM_MAX_MOUNTS then
        if \<not> fm_active (mounts s ! slot) then slot else free_slot_from (Suc slot) s
      else slot)"
  by pat_completeness auto
termination by (relation "measure (\<lambda>(slot, _). FILESYSTEM_MAX_MOUNTS - slot)") auto

declare free_slot_from.simps [simp del]

definition filesystem_mount ::
  "'v fs_drivers \<Rightarrow> nat option \<Rightarrow> fs_driver option \<Rightarrow> u32 \<Rightarrow> 'v fs_state \<Rightarrow> nat option \<times> 'v fs_state" where
  "filesystem_mount drv device driver flags s =
     (case (device, driver) of
        (Some d, Some n) \<Rightarrow>
          if unat (mount_count s) \<ge> FILESYSTEM_MAX_MOUNTS then (None, s)
          else
            let slot = free_slot_from 0 s in
            if slot = FILESYSTEM_MAX_MOUNTS then (None, s)
            else
              let m = (mounts s ! slot)\<lparr>fm_id := of_nat slot, fm_generation := next_generation s,
                    reference_count := 0, fm_device := device, fm_driver := driver,
                    fm_flags := flags OR fd_flags (drv n), fm_context := None, lock_value := 0,
                    fm_active := True\<rparr>;
                  gen = (if next_generation s + 1 = 0 then 1 else next_generation s + 1);
                  ((ok, m1), v) = the (fd_mount (drv n)) m (fs_world s);
                  s1 = s\<lparr>next_generation := gen, fs_world := v\<rparr>
              in if ok then (Some slot, s1\<lparr>mounts := (mounts s)[slot := m1], mount_count := mount_count s + 1\<rparr>)
                 else (None, s1\<lparr>mounts := (mounts s)[slot := m1\<lparr>fm_active := False\<rparr>]\<rparr>)
      | _ \<Rightarrow> (None, s))"

definition filesystem_mount_count :: "'v fs_state \<Rightarrow> u32" where
  "filesystem_mount_count s = mount_count s"

text \<open>The loop of \<open>filesystem_get_mount\<close> over the slots \<open>slot\<close> and following.\<close>

fun get_mount_from :: "nat list \<Rightarrow> nat \<Rightarrow> nat \<Rightarrow> 'v fs_state \<Rightarrow> nat option" where
  "get_mount_from [] found index s = None"
| "get_mount_from (slot # rest) found index s =
     (if \<not> fm_active (mounts s ! slot) then get_mount_from rest found index s
      else if found = index then Some slot else get_mount_from rest (Suc found) index s)"

definition filesystem_get_mount :: "u32 \<Rightarrow> 'v fs_state \<Rightarrow> nat option" where
  "filesystem_get_mount index s = get_mount_from [0 ..< FILESYSTEM_MAX_MOUNTS] 0 (unat index) s"

definition filesystem_device_is_mounted :: "ASAS_BLOCK_DEVICE list \<Rightarrow> nat option \<Rightarrow> 'v fs_state \<Rightarrow> bool" where
  "filesystem_device_is_mounted devs device s \<longleftrightarrow> device \<noteq> None \<and>
     list_ex (\<lambda>index. fm_active (mounts s ! index) \<and>
        (fm_device (mounts s ! index) = device
         \<or> (case fm_device (mounts s ! index) of None \<Rightarrow> False
            | Some mounted \<Rightarrow> bd_parent (devs ! mounted) = device))) [0 ..< FILESYSTEM_MAX_MOUNTS]"

definition filesystem_mount_acquire :: "nat option \<Rightarrow> 'v fs_state \<Rightarrow> (bool \<times> 'v fs_state) option" where
  "filesystem_mount_acquire mnt s =
     (case mnt of None \<Rightarrow> Some (False, s)
      | Some i \<Rightarrow>
          if \<not> own_slot i s then Some (False, s)
          else (case mount_lock i s of None \<Rightarrow> None
            | Some s1 \<Rightarrow>
                if \<not> fm_active (mounts s1 ! i) then Some (False, mount_unlock i s1)
                else Some (True, mount_unlock i
                  (upd_mount i (\<lambda>m. m\<lparr>reference_count := reference_count m + 1\<rparr>) s1))))"

definition filesystem_mount_release :: "nat option \<Rightarrow> 'v fs_state \<Rightarrow> 'v fs_state option" where
  "filesystem_mount_release mnt s =
     (case mnt of None \<Rightarrow> Some s
      | Some i \<Rightarrow>
          if \<not> own_slot i s then Some s
          else (case mount_lock i s of None \<Rightarrow> None
            | Some s1 \<Rightarrow>
                let s2 = (if fm_active (mounts s1 ! i) \<and> reference_count (mounts s1 ! i) \<noteq> 0
                      then upd_mount i (\<lambda>m. m\<lparr>reference_count := reference_count m - 1\<rparr>) s1 else s1)
                in Some (mount_unlock i s2)))"

section \<open>Dispatch\<close>

text \<open>What all the file operations do: check that the mount is active and, for a change, not
  read-only, and that its driver has the operation, and call it with the mount locked.  The driver
  pointer of an active mount that is null would be followed: no result.\<close>

definition dispatch ::
  "'v fs_drivers \<Rightarrow> bool \<Rightarrow> ('v ASAS_FILESYSTEM_DRIVER \<Rightarrow> 'f option) \<Rightarrow>
   ('f \<Rightarrow> ASAS_FILESYSTEM_MOUNT \<Rightarrow> 'v \<Rightarrow> 'r \<times> 'v) \<Rightarrow> 'r \<Rightarrow> nat option \<Rightarrow> 'v fs_state \<Rightarrow> ('r \<times> 'v fs_state) option" where
  "dispatch drv changes operation call refused mnt s =
     (case mnt of None \<Rightarrow> Some (refused, s)
      | Some i \<Rightarrow>
          if \<not> fm_active (mounts s ! i)
             \<or> changes \<and> fm_flags (mounts s ! i) AND FILESYSTEM_FLAG_READ_ONLY \<noteq> 0
          then Some (refused, s)
          else (case fm_driver (mounts s ! i) of None \<Rightarrow> None
            | Some n \<Rightarrow> (case operation (drv n) of None \<Rightarrow> Some (refused, s)
                | Some f \<Rightarrow> (case mount_lock i s of None \<Rightarrow> None
                    | Some s1 \<Rightarrow>
                        let (r, v) = call f (mounts s1 ! i) (fs_world s1)
                        in Some (r, mount_unlock i (s1\<lparr>fs_world := v\<rparr>))))))"

definition filesystem_stat ::
  "'v fs_drivers \<Rightarrow> nat option \<Rightarrow> string \<Rightarrow> ASAS_FILE_STAT option \<Rightarrow> 'v fs_state \<Rightarrow>
   ((bool \<times> ASAS_FILE_STAT option) \<times> 'v fs_state) option" where
  "filesystem_stat drv mnt path stat s =
     (case stat of None \<Rightarrow> Some ((False, None), s)
      | Some st \<Rightarrow> dispatch drv False fd_stat
          (\<lambda>f m v. let ((ok, st'), v') = f m path (st\<lparr>stat_exists := False\<rparr>) v in ((ok, Some st'), v'))
          (False, stat) mnt s)"

definition filesystem_read ::
  "'v fs_drivers \<Rightarrow> nat option \<Rightarrow> string \<Rightarrow> u64 \<Rightarrow> 'v fs_state \<Rightarrow> ((u64 \<times> bytes) \<times> 'v fs_state) option" where
  "filesystem_read drv mnt path capacity = dispatch drv False fd_read (\<lambda>f m. f m path capacity) (0, []) mnt"

definition filesystem_list ::
  "'v fs_drivers \<Rightarrow> nat option \<Rightarrow> string \<Rightarrow> u64 \<Rightarrow> 'v fs_state \<Rightarrow>
   ((u64 \<times> ASAS_FILESYSTEM_ENTRY list) \<times> 'v fs_state) option" where
  "filesystem_list drv mnt path capacity = dispatch drv False fd_list (\<lambda>f m. f m path capacity) (0, []) mnt"

definition filesystem_write ::
  "'v fs_drivers \<Rightarrow> nat option \<Rightarrow> string \<Rightarrow> bytes \<Rightarrow> 'v fs_state \<Rightarrow> (bool \<times> 'v fs_state) option" where
  "filesystem_write drv mnt path buffer = dispatch drv True fd_write (\<lambda>f m. f m path buffer) False mnt"

definition filesystem_unlink ::
  "'v fs_drivers \<Rightarrow> nat option \<Rightarrow> string \<Rightarrow> 'v fs_state \<Rightarrow> (bool \<times> 'v fs_state) option" where
  "filesystem_unlink drv mnt path = dispatch drv True fd_unlink (\<lambda>f m. f m path) False mnt"

definition filesystem_mkdir ::
  "'v fs_drivers \<Rightarrow> nat option \<Rightarrow> string \<Rightarrow> 'v fs_state \<Rightarrow> (bool \<times> 'v fs_state) option" where
  "filesystem_mkdir drv mnt path = dispatch drv True fd_mkdir (\<lambda>f m. f m path) False mnt"

definition filesystem_rmdir ::
  "'v fs_drivers \<Rightarrow> nat option \<Rightarrow> string \<Rightarrow> 'v fs_state \<Rightarrow> (bool \<times> 'v fs_state) option" where
  "filesystem_rmdir drv mnt path = dispatch drv True fd_rmdir (\<lambda>f m. f m path) False mnt"

definition filesystem_rename ::
  "'v fs_drivers \<Rightarrow> nat option \<Rightarrow> string \<Rightarrow> string \<Rightarrow> 'v fs_state \<Rightarrow> (bool \<times> 'v fs_state) option" where
  "filesystem_rename drv mnt source destination =
     dispatch drv True fd_rename (\<lambda>f m. f m source destination) False mnt"

definition filesystem_sync :: "'v fs_drivers \<Rightarrow> nat option \<Rightarrow> 'v fs_state \<Rightarrow> (bool \<times> 'v fs_state) option" where
  "filesystem_sync drv mnt = dispatch drv False fd_sync (\<lambda>f m. f m) False mnt"

section \<open>The built-in drivers\<close>

text \<open>What a file system provides on its contexts; a null context is passed on as \<open>None\<close>.\<close>

record 'v context_ops =
  cx_probe :: "nat option \<Rightarrow> 'v \<Rightarrow> bool \<times> 'v"
  cx_create :: "nat option \<Rightarrow> 'v \<Rightarrow> nat option \<times> 'v"
  cx_read_only :: "nat option \<Rightarrow> 'v \<Rightarrow> bool \<times> 'v"
  cx_exists :: "nat option \<Rightarrow> string \<Rightarrow> 'v \<Rightarrow> bool \<times> 'v"
  cx_is_directory :: "nat option \<Rightarrow> string \<Rightarrow> 'v \<Rightarrow> bool \<times> 'v"
  cx_file_size :: "nat option \<Rightarrow> string \<Rightarrow> 'v \<Rightarrow> u64 \<times> 'v"
  cx_path_read_only :: "nat option \<Rightarrow> string \<Rightarrow> 'v \<Rightarrow> bool \<times> 'v"
  cx_read_file :: "nat option \<Rightarrow> string \<Rightarrow> u64 \<Rightarrow> 'v \<Rightarrow> (u64 \<times> bytes) \<times> 'v"
  cx_list_directory :: "ASAS_FILESYSTEM_MOUNT \<Rightarrow> string \<Rightarrow> u64 \<Rightarrow> 'v \<Rightarrow> (u64 \<times> ASAS_FILESYSTEM_ENTRY list) \<times> 'v"
  cx_write_file :: "nat option \<Rightarrow> string \<Rightarrow> bytes \<Rightarrow> 'v \<Rightarrow> bool \<times> 'v"
  cx_delete_file :: "nat option \<Rightarrow> string \<Rightarrow> 'v \<Rightarrow> bool \<times> 'v"
  cx_create_directory :: "nat option \<Rightarrow> string \<Rightarrow> 'v \<Rightarrow> bool \<times> 'v"
  cx_delete_directory :: "nat option \<Rightarrow> string \<Rightarrow> 'v \<Rightarrow> bool \<times> 'v"
  cx_rename :: "nat option \<Rightarrow> string \<Rightarrow> string \<Rightarrow> 'v \<Rightarrow> bool \<times> 'v"
  cx_sync :: "nat option \<Rightarrow> 'v \<Rightarrow> bool \<times> 'v"
  cx_flush :: "nat option \<Rightarrow> 'v \<Rightarrow> bool \<times> 'v"

text \<open>The mount adapters create the context; those of NTFS and ext2 then mark the mount read-only
  when the context is (\<open>marks\<close>).  The line the NTFS adapter logs is left out.\<close>

definition mount_adapter ::
  "bool \<Rightarrow> 'v context_ops \<Rightarrow> ASAS_FILESYSTEM_MOUNT \<Rightarrow> 'v \<Rightarrow> (bool \<times> ASAS_FILESYSTEM_MOUNT) \<times> 'v" where
  "mount_adapter marks c m v =
     (let (p, v1) = cx_create c (fm_device m) v;
          m1 = m\<lparr>fm_context := p\<rparr>
      in if p = None then ((False, m1), v1)
         else if marks then
           let (ro, v2) = cx_read_only c p v1
           in ((True, if ro then m1\<lparr>fm_flags := fm_flags m1 OR FILESYSTEM_FLAG_READ_ONLY\<rparr> else m1), v2)
         else ((True, m1), v1))"

text \<open>The stat adapters differ in how they set \<open>read_only\<close>: never, from the mount's flags, or from
  the file.\<close>

definition stat_adapter ::
  "(ASAS_FILESYSTEM_MOUNT \<Rightarrow> string \<Rightarrow> 'v \<Rightarrow> bool \<times> 'v) \<Rightarrow> 'v context_ops \<Rightarrow> ASAS_FILESYSTEM_MOUNT \<Rightarrow> string \<Rightarrow>
   ASAS_FILE_STAT \<Rightarrow> 'v \<Rightarrow> (bool \<times> ASAS_FILE_STAT) \<times> 'v" where
  "stat_adapter ro c m path st v =
     (let (ex, v1) = cx_exists c (fm_context m) path v in
      if \<not> ex then ((False, st), v1)
      else
        let (dir, v2) = cx_is_directory c (fm_context m) path v1;
            (len, v3) = (if dir then (0, v2) else cx_file_size c (fm_context m) path v2);
            (rd, v4) = ro m path v3
        in ((True, st\<lparr>stat_exists := True, stat_is_directory := dir, stat_size := len, stat_read_only := rd\<rparr>), v4))"

definition stat_writable :: "ASAS_FILESYSTEM_MOUNT \<Rightarrow> string \<Rightarrow> 'v \<Rightarrow> bool \<times> 'v" where
  "stat_writable m path v = (False, v)"

definition stat_mount_flags :: "ASAS_FILESYSTEM_MOUNT \<Rightarrow> string \<Rightarrow> 'v \<Rightarrow> bool \<times> 'v" where
  "stat_mount_flags m path v = (fm_flags m AND FILESYSTEM_FLAG_READ_ONLY \<noteq> 0, v)"

text \<open>The changing adapters of FAT32 synchronise the context after a change that succeeded.\<close>

definition synced :: "'v context_ops \<Rightarrow> ASAS_FILESYSTEM_MOUNT \<Rightarrow> bool \<times> 'v \<Rightarrow> bool \<times> 'v" where
  "synced c m r = (let (ok, v1) = r in if ok then cx_sync c (fm_context m) v1 else (False, v1))"

definition adapter_table :: "string \<Rightarrow> bool \<Rightarrow> (ASAS_FILESYSTEM_MOUNT \<Rightarrow> string \<Rightarrow> 'v \<Rightarrow> bool \<times> 'v) \<Rightarrow>
    'v context_ops \<Rightarrow> 'v ASAS_FILESYSTEM_DRIVER" where
  "adapter_table name marks ro c = \<lparr>fd_name = Some name, fd_flags = 0, fd_probe = Some (cx_probe c),
     fd_mount = Some (mount_adapter marks c), fd_stat = Some (stat_adapter ro c),
     fd_read = Some (\<lambda>m. cx_read_file c (fm_context m)), fd_list = Some (cx_list_directory c),
     fd_write = Some (\<lambda>m. cx_write_file c (fm_context m)),
     fd_unlink = Some (\<lambda>m. cx_delete_file c (fm_context m)),
     fd_mkdir = Some (\<lambda>m. cx_create_directory c (fm_context m)),
     fd_rmdir = Some (\<lambda>m. cx_delete_directory c (fm_context m)),
     fd_rename = Some (\<lambda>m. cx_rename c (fm_context m)),
     fd_sync = Some (\<lambda>m. cx_sync c (fm_context m))\<rparr>"

definition fat32_table :: "'v context_ops \<Rightarrow> 'v ASAS_FILESYSTEM_DRIVER" where
  "fat32_table c = (adapter_table ''fat32'' False stat_writable c)\<lparr>
     fd_write := Some (\<lambda>m path buffer v. synced c m (cx_write_file c (fm_context m) path buffer v)),
     fd_unlink := Some (\<lambda>m path v. synced c m (cx_delete_file c (fm_context m) path v)),
     fd_mkdir := Some (\<lambda>m path v. synced c m (cx_create_directory c (fm_context m) path v)),
     fd_rmdir := Some (\<lambda>m path v. synced c m (cx_delete_directory c (fm_context m) path v)),
     fd_rename := Some (\<lambda>m source destination v.
       synced c m (cx_rename c (fm_context m) source destination v))\<rparr>"

definition ntfs_table :: "'v context_ops \<Rightarrow> 'v ASAS_FILESYSTEM_DRIVER" where
  "ntfs_table c = (adapter_table ''ntfs'' True stat_mount_flags c)\<lparr>
     fd_sync := Some (\<lambda>m. cx_flush c (fm_device m))\<rparr>"

definition exfat_table :: "'v context_ops \<Rightarrow> 'v ASAS_FILESYSTEM_DRIVER" where
  "exfat_table = adapter_table ''exfat'' False stat_writable"

definition ext2_table :: "'v context_ops \<Rightarrow> 'v ASAS_FILESYSTEM_DRIVER" where
  "ext2_table = adapter_table ''ext2'' True stat_mount_flags"

definition udf_table :: "'v context_ops \<Rightarrow> 'v ASAS_FILESYSTEM_DRIVER" where
  "udf_table = adapter_table ''udf'' False stat_mount_flags"

definition iso9660_table :: "'v context_ops \<Rightarrow> 'v ASAS_FILESYSTEM_DRIVER" where
  "iso9660_table c = adapter_table ''iso9660'' False (\<lambda>m. cx_path_read_only c (fm_context m)) c"

primrec builtin_drivers :: "(fs_driver \<Rightarrow> 'v context_ops) \<Rightarrow> 'v fs_drivers" where
  "builtin_drivers cx fat32_driver = fat32_table (cx fat32_driver)"
| "builtin_drivers cx ntfs_driver = ntfs_table (cx ntfs_driver)"
| "builtin_drivers cx exfat_driver = exfat_table (cx exfat_driver)"
| "builtin_drivers cx ext2_driver = ext2_table (cx ext2_driver)"
| "builtin_drivers cx udf_driver = udf_table (cx udf_driver)"
| "builtin_drivers cx iso9660_driver = iso9660_table (cx iso9660_driver)"

section \<open>Sessions\<close>

text \<open>The calls a client can make, and a session of them.  Handles point into the table.\<close>

datatype fs_op =
  Fs_initialize
| Fs_register "fs_driver option"
| Fs_probe "nat option"
| Fs_mount "nat option" "fs_driver option" u32
| Fs_unmount "nat option"
| Fs_acquire "nat option"
| Fs_release "nat option"
| Fs_stat "nat option" string "ASAS_FILE_STAT option"
| Fs_read "nat option" string u64
| Fs_list "nat option" string u64
| Fs_write "nat option" string bytes
| Fs_unlink "nat option" string
| Fs_mkdir "nat option" string
| Fs_rmdir "nat option" string
| Fs_rename "nat option" string string
| Fs_sync "nat option"

fun op_handle :: "fs_op \<Rightarrow> nat option" where
  "op_handle (Fs_unmount h) = h"
| "op_handle (Fs_acquire h) = h"
| "op_handle (Fs_release h) = h"
| "op_handle (Fs_stat h _ _) = h"
| "op_handle (Fs_read h _ _) = h"
| "op_handle (Fs_list h _ _) = h"
| "op_handle (Fs_write h _ _) = h"
| "op_handle (Fs_unlink h _) = h"
| "op_handle (Fs_mkdir h _) = h"
| "op_handle (Fs_rmdir h _) = h"
| "op_handle (Fs_rename h _ _) = h"
| "op_handle (Fs_sync h) = h"
| "op_handle _ = None"

definition handle_ok :: "nat option \<Rightarrow> bool" where
  "handle_ok h \<longleftrightarrow> (case h of None \<Rightarrow> True | Some i \<Rightarrow> i < FILESYSTEM_MAX_MOUNTS)"

fun run_op :: "'v fs_drivers \<Rightarrow> 'v fs_contexts \<Rightarrow> fs_op \<Rightarrow> 'v fs_state \<Rightarrow> 'v fs_state option" where
  "run_op drv ctx Fs_initialize s = filesystem_initialize ctx s"
| "run_op drv ctx (Fs_register n) s = Some (snd (filesystem_register drv n s))"
| "run_op drv ctx (Fs_probe d) s = Some (snd (filesystem_probe drv d s))"
| "run_op drv ctx (Fs_mount d n flags) s = Some (snd (filesystem_mount drv d n flags s))"
| "run_op drv ctx (Fs_unmount h) s = map_option snd (filesystem_unmount ctx h s)"
| "run_op drv ctx (Fs_acquire h) s = map_option snd (filesystem_mount_acquire h s)"
| "run_op drv ctx (Fs_release h) s = filesystem_mount_release h s"
| "run_op drv ctx (Fs_stat h p st) s = map_option snd (filesystem_stat drv h p st s)"
| "run_op drv ctx (Fs_read h p c) s = map_option snd (filesystem_read drv h p c s)"
| "run_op drv ctx (Fs_list h p c) s = map_option snd (filesystem_list drv h p c s)"
| "run_op drv ctx (Fs_write h p b) s = map_option snd (filesystem_write drv h p b s)"
| "run_op drv ctx (Fs_unlink h p) s = map_option snd (filesystem_unlink drv h p s)"
| "run_op drv ctx (Fs_mkdir h p) s = map_option snd (filesystem_mkdir drv h p s)"
| "run_op drv ctx (Fs_rmdir h p) s = map_option snd (filesystem_rmdir drv h p s)"
| "run_op drv ctx (Fs_rename h p q) s = map_option snd (filesystem_rename drv h p q s)"
| "run_op drv ctx (Fs_sync h) s = map_option snd (filesystem_sync drv h s)"

fun run_ops :: "'v fs_drivers \<Rightarrow> 'v fs_contexts \<Rightarrow> fs_op list \<Rightarrow> 'v fs_state \<Rightarrow> 'v fs_state option" where
  "run_ops drv ctx [] s = Some s"
| "run_ops drv ctx (x # xs) s = (case run_op drv ctx x s of None \<Rightarrow> None | Some s1 \<Rightarrow> run_ops drv ctx xs s1)"

text \<open>The invariant of the table: the count is the number of active mounts, every lock is free
  between the calls, and an active mount knows its slot and has a driver.\<close>

definition fs_inv :: "'v fs_state \<Rightarrow> bool" where
  "fs_inv s \<longleftrightarrow> length (mounts s) = FILESYSTEM_MAX_MOUNTS
     \<and> unat (mount_count s) = length (filter fm_active (mounts s))
     \<and> (\<forall>i < FILESYSTEM_MAX_MOUNTS. lock_value (mounts s ! i) = 0
          \<and> (fm_active (mounts s ! i) \<longrightarrow> fm_id (mounts s ! i) = of_nat i \<and> fm_driver (mounts s ! i) \<noteq> None))"

text \<open>What a call may do to the table: nothing; count a reference; fill an inactive slot; clear an
  active slot that nobody refers to.\<close>

inductive table_step :: "fs_op \<Rightarrow> 'v fs_state \<Rightarrow> 'v fs_state \<Rightarrow> bool" where
  keep: "mounts s' = mounts s \<Longrightarrow> mount_count s' = mount_count s \<Longrightarrow> table_step x s s'"
| acquire: "i < FILESYSTEM_MAX_MOUNTS \<Longrightarrow> fm_active (mounts s ! i) \<Longrightarrow>
    mounts s' = (mounts s)[i := (mounts s ! i)\<lparr>reference_count := reference_count (mounts s ! i) + 1\<rparr>] \<Longrightarrow>
    mount_count s' = mount_count s \<Longrightarrow> table_step (Fs_acquire (Some i)) s s'"
| release: "i < FILESYSTEM_MAX_MOUNTS \<Longrightarrow> fm_active (mounts s ! i) \<Longrightarrow>
    mounts s' = (mounts s)[i := (mounts s ! i)\<lparr>reference_count := reference_count (mounts s ! i) - 1\<rparr>] \<Longrightarrow>
    mount_count s' = mount_count s \<Longrightarrow> table_step (Fs_release (Some i)) s s'"
| fill: "i < FILESYSTEM_MAX_MOUNTS \<Longrightarrow> \<not> fm_active (mounts s ! i) \<Longrightarrow> lock_value m = 0 \<Longrightarrow>
    (fm_active m \<longrightarrow> fm_id m = of_nat i \<and> fm_driver m \<noteq> None) \<Longrightarrow> mounts s' = (mounts s)[i := m] \<Longrightarrow>
    mount_count s' = mount_count s + (if fm_active m then 1 else 0) \<Longrightarrow> table_step (Fs_mount d n flags) s s'"
| clear: "i < FILESYSTEM_MAX_MOUNTS \<Longrightarrow> fm_active (mounts s ! i) \<Longrightarrow> reference_count (mounts s ! i) = 0 \<Longrightarrow>
    lock_value m = 0 \<Longrightarrow> \<not> fm_active m \<Longrightarrow> mounts s' = (mounts s)[i := m] \<Longrightarrow>
    mount_count s' = mount_count s - 1 \<Longrightarrow> table_step (Fs_unmount (Some i)) s s'"

lemma fs_invD:
  assumes "fs_inv s"
  shows "length (mounts s) = 16" "unat (mount_count s) = length (filter fm_active (mounts s))"
    "i < 16 \<Longrightarrow> lock_value (mounts s ! i) = 0"
    "i < 16 \<Longrightarrow> fm_active (mounts s ! i) \<Longrightarrow> fm_id (mounts s ! i) = of_nat i \<and> fm_driver (mounts s ! i) \<noteq> None"
  using assms unfolding fs_inv_def FILESYSTEM_MAX_MOUNTS_def by blast+

lemma fs_inv_update:
  assumes inv: "fs_inv s" and i: "i < FILESYSTEM_MAX_MOUNTS" and lock: "lock_value m = 0"
    and act: "fm_active m \<Longrightarrow> fm_id m = of_nat i \<and> fm_driver m \<noteq> None"
    and upd: "mounts s' = (mounts s)[i := m]"
    and cnt: "unat (mount_count s') + (if fm_active (mounts s ! i) then 1 else 0)
      = unat (mount_count s) + (if fm_active m then 1 else 0)"
  shows "fs_inv s'"
  unfolding fs_inv_def
proof (intro conjI allI impI)
  have l: "i < length (mounts s)" using i inv by (simp add: fs_inv_def)
  show "unat (mount_count s') = length (filter fm_active (mounts s'))"
    using count_filter_update [OF l, of fm_active m] cnt fs_invD(2) [OF inv] upd by (auto split: if_splits)
  show "length (mounts s') = FILESYSTEM_MAX_MOUNTS" using inv upd by (simp add: fs_inv_def)
  fix j assume j: "j < FILESYSTEM_MAX_MOUNTS"
  show "lock_value (mounts s' ! j) = 0" using inv j l lock upd by (cases "i = j") (auto simp: fs_inv_def)
  show "fm_active (mounts s' ! j) \<Longrightarrow> fm_id (mounts s' ! j) = of_nat j"
    "fm_active (mounts s' ! j) \<Longrightarrow> fm_driver (mounts s' ! j) \<noteq> None"
    using inv j l act upd by (cases "i = j"; auto simp: fs_inv_def)+
qed

lemma active_positive:
  assumes "fs_inv s" "i < FILESYSTEM_MAX_MOUNTS" "fm_active (mounts s ! i)"
  shows "0 < unat (mount_count s)"
proof -
  have "mounts s ! i \<in> set (filter fm_active (mounts s))" using assms by (auto simp: fs_inv_def)
  then have "0 < length (filter fm_active (mounts s))" by (rule length_pos_if_in_set)
  then show ?thesis using fs_invD(2) [OF assms(1)] by linarith
qed

lemma inactive_bound:
  assumes "fs_inv s" "i < FILESYSTEM_MAX_MOUNTS" "\<not> fm_active (mounts s ! i)"
  shows "unat (mount_count s) < 16"
proof -
  have "mounts s ! i \<in> set (mounts s)" using assms by (auto simp: fs_inv_def)
  then have "length (filter fm_active (mounts s)) < length (mounts s)"
    using assms(3) by (intro length_filter_less)
  then show ?thesis using fs_invD(1,2) [OF assms(1)] by simp
qed

lemma table_step_inv: "table_step x s s' \<Longrightarrow> fs_inv s \<Longrightarrow> fs_inv s'"
proof (induction rule: table_step.induct)
  case (keep s' s x)
  then show ?case by (simp add: fs_inv_def)
next
  case (acquire i s s')
  then show ?case by (intro fs_inv_update [OF acquire(5,1) _ _ acquire(3)]) (auto simp: fs_inv_def)
next
  case (release i s s')
  then show ?case by (intro fs_inv_update [OF release(5,1) _ _ release(3)]) (auto simp: fs_inv_def)
next
  case (fill i s m s' d n flags)
  have "unat (mount_count s) < 16" using inactive_bound [OF fill(7,1,2)] .
  then have "unat (mount_count s + 1) = Suc (unat (mount_count s))"
    by (intro unat_Suc_less [of _ 16]) (simp add: word_less_nat_alt)
  then show ?case using fill by (intro fs_inv_update [OF fill(7,1,3) _ fill(5)]) auto
next
  case (clear i s m s')
  have "0 < unat (mount_count s)" using active_positive [OF clear(8,1,2)] .
  then have "unat (mount_count s - 1) = unat (mount_count s) - 1"
    by (intro unat_minus_one) (auto simp: unat_gt_0)
  then show ?case using clear \<open>0 < _\<close> by (intro fs_inv_update [OF clear(8,1,4) _ clear(6)]) auto
qed

lemma mount_lock_free:
  "fs_inv s \<Longrightarrow> i < FILESYSTEM_MAX_MOUNTS \<Longrightarrow> mount_lock i s = Some (upd_mount i (lock_value_update (\<lambda>_. 1)) s)"
  by (simp add: mount_lock_def fs_inv_def)

lemma upd_mount_simps [simp]:
  "mounts (upd_mount i f s) = (mounts s)[i := f (mounts s ! i)]"
  "mount_count (upd_mount i f s) = mount_count s" "fs_world (upd_mount i f s) = fs_world s"
  by (simp_all add: upd_mount_def)

lemma relock:
  assumes "fs_inv s" "i < FILESYSTEM_MAX_MOUNTS"
  shows "mount_unlock i (upd_mount i (lock_value_update (\<lambda>_. 1)) s) = s"
    and "mount_unlock i ((upd_mount i (lock_value_update (\<lambda>_. 1)) s)\<lparr>fs_world := v\<rparr>) = s\<lparr>fs_world := v\<rparr>"
proof -
  have i: "i < length (mounts s)" "lock_value (mounts s ! i) = 0" using assms by (simp_all add: fs_inv_def)
  then have "(mounts s)[i := (mounts s ! i)\<lparr>lock_value := 0\<rparr>] = mounts s"
    by (intro list_update_same_conv [THEN iffD2]) auto
  then show "mount_unlock i (upd_mount i (lock_value_update (\<lambda>_. 1)) s) = s"
    and "mount_unlock i ((upd_mount i (lock_value_update (\<lambda>_. 1)) s)\<lparr>fs_world := v\<rparr>) = s\<lparr>fs_world := v\<rparr>"
    using i by (simp_all add: mount_unlock_def upd_mount_def)
qed

lemma dispatch_returns:
  assumes inv: "fs_inv s" and h: "handle_ok h"
  shows "\<exists>r v. dispatch drv changes operation call refused h s = Some (r, s\<lparr>fs_world := v\<rparr>)"
proof (cases h)
  case None
  then show ?thesis by (auto simp: dispatch_def intro!: exI [of _ "fs_world s"])
next
  case (Some i)
  then have i: "i < FILESYSTEM_MAX_MOUNTS" using h by (simp add: handle_ok_def)
  show ?thesis
  proof (cases "\<not> fm_active (mounts s ! i) \<or> changes \<and> fm_flags (mounts s ! i) AND FILESYSTEM_FLAG_READ_ONLY \<noteq> 0")
    case True
    then show ?thesis using Some by (auto simp: dispatch_def intro!: exI [of _ "fs_world s"])
  next
    case False
    then obtain n where n: "fm_driver (mounts s ! i) = Some n"
      using inv i by (auto simp: fs_inv_def)
    show ?thesis
    proof (cases "operation (drv n)")
      case None
      then show ?thesis using Some False n by (auto simp: dispatch_def intro!: exI [of _ "fs_world s"])
    next
      case (Some f)
      then show ?thesis
        using \<open>h = Some i\<close> False n relock [OF inv i] mount_lock_free [OF inv i]
        by (auto simp: dispatch_def Let_def split: prod.splits)
    qed
  qed
qed

lemma unmount_step:
  assumes inv: "fs_inv s" and h: "handle_ok h"
  shows "\<exists>ok s'. filesystem_unmount ctx h s = Some (ok, s') \<and> table_step (Fs_unmount h) s s'"
proof (cases "case h of None \<Rightarrow> True | Some i \<Rightarrow> \<not> own_slot i s \<or> \<not> fm_active (mounts s ! i)
    \<or> reference_count (mounts s ! i) \<noteq> 0")
  case True
  then have "filesystem_unmount ctx h s = Some (False, s)"
    by (auto simp: filesystem_unmount_def split: option.splits)
  then show ?thesis by (auto intro: table_step.keep)
next
  case False
  then obtain i where i: "h = Some i" "fm_active (mounts s ! i)" "reference_count (mounts s ! i) = 0"
    "own_slot i s" by (auto split: option.splits)
  have b: "i < FILESYSTEM_MAX_MOUNTS" using h i(1) by (simp add: handle_ok_def)
  then have l: "i < length (mounts s)" using inv by (simp add: fs_inv_def)
  let ?m = "(mounts s ! i)\<lparr>lock_value := 1\<rparr>"
  obtain ok v where u: "unmount_context ctx ?m (fs_world s) = (ok, v)" by fastforce
  note eq = filesystem_unmount_def mount_lock_free [OF inv b] i u l Let_def
  show ?thesis
  proof (cases ok)
    case True
    let ?n = "?m\<lparr>fm_device := None, fm_driver := None, fm_context := None, fm_active := False, lock_value := 0\<rparr>"
    obtain s' where "filesystem_unmount ctx h s = Some (True, s')" "mounts s' = (mounts s)[i := ?n]"
      "mount_count s' = mount_count s - 1"
      using True by (simp add: eq mount_unlock_def)
    moreover then have "table_step (Fs_unmount (Some i)) s s'"
      using i b by (intro table_step.clear [of i s ?n]) simp_all
    ultimately show ?thesis using i(1) by blast
  next
    case False
    then have "filesystem_unmount ctx h s = Some (False, s\<lparr>fs_world := v\<rparr>)"
      using relock(2) [OF inv b, of v] by (simp add: eq)
    then show ?thesis by (auto intro: table_step.keep)
  qed
qed

lemma lock_free_update:
  "lock_value m = 0 \<Longrightarrow> m\<lparr>reference_count := r, lock_value := 0\<rparr> = m\<lparr>reference_count := r\<rparr>"
  by (cases m) simp

lemma acquire_step:
  assumes inv: "fs_inv s" and h: "handle_ok h"
  shows "\<exists>ok s'. filesystem_mount_acquire h s = Some (ok, s') \<and> table_step (Fs_acquire h) s s'"
proof (cases "case h of None \<Rightarrow> True | Some i \<Rightarrow> \<not> own_slot i s")
  case True
  then have "filesystem_mount_acquire h s = Some (False, s)"
    by (auto simp: filesystem_mount_acquire_def split: option.splits)
  then show ?thesis by (auto intro: table_step.keep)
next
  case False
  then obtain i where i: "h = Some i" "own_slot i s" by (auto split: option.splits)
  have b: "i < FILESYSTEM_MAX_MOUNTS" using h i(1) by (simp add: handle_ok_def)
  then have l: "i < length (mounts s)" "lock_value (mounts s ! i) = 0" using inv by (simp_all add: fs_inv_def)
  note eq = filesystem_mount_acquire_def mount_lock_free [OF inv b] i l
  show ?thesis
  proof (cases "fm_active (mounts s ! i)")
    case True
    obtain s' where "filesystem_mount_acquire h s = Some (True, s')" "mount_count s' = mount_count s"
      "mounts s' = (mounts s)[i := (mounts s ! i)\<lparr>reference_count := reference_count (mounts s ! i) + 1\<rparr>]"
      using True by (simp add: eq mount_unlock_def lock_free_update)
    moreover then have "table_step (Fs_acquire (Some i)) s s'" using True b by (intro table_step.acquire)
    ultimately show ?thesis using i(1) by blast
  next
    case False
    then have "filesystem_mount_acquire h s = Some (False, s)"
      using relock(1) [OF inv b] by (simp add: eq)
    then show ?thesis by (auto intro: table_step.keep)
  qed
qed

lemma release_step:
  assumes inv: "fs_inv s" and h: "handle_ok h"
  shows "\<exists>s'. filesystem_mount_release h s = Some s' \<and> table_step (Fs_release h) s s'"
proof (cases "case h of None \<Rightarrow> True | Some i \<Rightarrow> \<not> own_slot i s")
  case True
  then have "filesystem_mount_release h s = Some s"
    by (auto simp: filesystem_mount_release_def split: option.splits)
  then show ?thesis by (auto intro: table_step.keep)
next
  case False
  then obtain i where i: "h = Some i" "own_slot i s" by (auto split: option.splits)
  have b: "i < FILESYSTEM_MAX_MOUNTS" using h i(1) by (simp add: handle_ok_def)
  then have l: "i < length (mounts s)" "lock_value (mounts s ! i) = 0" using inv by (simp_all add: fs_inv_def)
  note eq = filesystem_mount_release_def mount_lock_free [OF inv b] i l
  show ?thesis
  proof (cases "fm_active (mounts s ! i) \<and> reference_count (mounts s ! i) \<noteq> 0")
    case True
    obtain s' where "filesystem_mount_release h s = Some s'" "mount_count s' = mount_count s"
      "mounts s' = (mounts s)[i := (mounts s ! i)\<lparr>reference_count := reference_count (mounts s ! i) - 1\<rparr>]"
      using True by (simp add: eq mount_unlock_def lock_free_update)
    moreover then have "table_step (Fs_release (Some i)) s s'" using True b by (intro table_step.release) auto
    ultimately show ?thesis using i(1) by blast
  next
    case False
    then have "filesystem_mount_release h s = Some s"
      using relock(1) [OF inv b] by (auto simp: eq)
    then show ?thesis by (auto intro: table_step.keep)
  qed
qed

lemma free_slot_inactive:
  "free_slot_from k s < FILESYSTEM_MAX_MOUNTS \<Longrightarrow> \<not> fm_active (mounts s ! free_slot_from k s)"
proof (induction k s rule: free_slot_from.induct)
  case (1 k s)
  then show ?case by (subst (asm) (2) free_slot_from.simps, subst free_slot_from.simps) (auto split: if_splits)
qed

lemma free_slot_bound: "k \<le> FILESYSTEM_MAX_MOUNTS \<Longrightarrow> free_slot_from k s \<le> FILESYSTEM_MAX_MOUNTS"
  by (induction k s rule: free_slot_from.induct) (subst free_slot_from.simps, auto)

section \<open>Mounting\<close>

text \<open>What the mount manager relies on of a driver: its \<open>mount\<close> sets the context of the mount and may
  add flags, and touches no other field.\<close>

locale mount_driver =
  fixes drv :: "'v fs_drivers"
  assumes mount_present: "fd_mount (drv n) \<noteq> None"
    and mount_law: "fd_mount (drv n) = Some f \<Longrightarrow> f m v = ((ok, m'), v') \<Longrightarrow>
      m' = m\<lparr>fm_flags := fm_flags m', fm_context := fm_context m'\<rparr> \<and> fm_flags m' AND fm_flags m = fm_flags m"
begin

lemma mount_fields:
  assumes "the (fd_mount (drv n)) m v = ((ok, m'), v')"
  shows "fm_id m' = fm_id m" "lock_value m' = lock_value m" "fm_active m' = fm_active m"
    "fm_driver m' = fm_driver m" "fm_device m' = fm_device m" "reference_count m' = reference_count m"
    "fm_flags m' AND fm_flags m = fm_flags m"
proof -
  obtain f where f: "fd_mount (drv n) = Some f" using mount_present by blast
  then have "f m v = ((ok, m'), v')" using assms by simp
  note law = mount_law [OF f this]
  then have e: "m' = m\<lparr>fm_flags := fm_flags m', fm_context := fm_context m'\<rparr>" by blast
  show "fm_id m' = fm_id m" "lock_value m' = lock_value m" "fm_active m' = fm_active m"
    "fm_driver m' = fm_driver m" "fm_device m' = fm_device m" "reference_count m' = reference_count m"
    by (subst e, simp)+
  show "fm_flags m' AND fm_flags m = fm_flags m" using law by blast
qed

lemma mount_step:
  assumes "filesystem_mount drv d n flags s = (r, s')"
  shows "table_step (Fs_mount d n flags) s s'"
    and "r = Some i \<Longrightarrow> length (mounts s) = FILESYSTEM_MAX_MOUNTS \<Longrightarrow> i < FILESYSTEM_MAX_MOUNTS
      \<and> fm_active (mounts s' ! i) \<and> fm_flags (mounts s' ! i) AND flags = flags \<and> fm_driver (mounts s' ! i) = n
      \<and> fm_device (mounts s' ! i) = d \<and> reference_count (mounts s' ! i) = 0"
proof -
  let ?k = "free_slot_from 0 s"
  have main: "table_step (Fs_mount d n flags) s s' \<and> (r = Some i \<and> length (mounts s) = FILESYSTEM_MAX_MOUNTS
      \<longrightarrow> i < FILESYSTEM_MAX_MOUNTS \<and> fm_active (mounts s' ! i) \<and> fm_flags (mounts s' ! i) AND flags = flags
      \<and> fm_driver (mounts s' ! i) = n \<and> fm_device (mounts s' ! i) = d \<and> reference_count (mounts s' ! i) = 0)"
  proof (cases "d = None \<or> n = None \<or> unat (mount_count s) \<ge> FILESYSTEM_MAX_MOUNTS \<or> ?k = FILESYSTEM_MAX_MOUNTS")
    case True
    then have "r = None" "s' = s"
      using assms by (auto simp: filesystem_mount_def Let_def split: option.splits if_splits)
    then show ?thesis by (auto intro: table_step.keep)
  next
    case False
    then obtain e p where dn: "d = Some e" "n = Some p" by auto
    have k: "?k < FILESYSTEM_MAX_MOUNTS" using free_slot_bound [of 0 s] False by simp
    let ?m = "(mounts s ! ?k)\<lparr>fm_id := of_nat ?k, fm_generation := next_generation s,
      reference_count := 0, fm_device := d, fm_driver := n, fm_flags := flags OR fd_flags (drv p),
      fm_context := None, lock_value := 0, fm_active := True\<rparr>"
    obtain ok m1 v where m1: "the (fd_mount (drv p)) ?m (fs_world s) = ((ok, m1), v)"
      by (metis prod.exhaust)
    note f = mount_fields [OF m1]
    have fl: "fm_flags m1 AND flags = flags"
    proof -
      have "fm_flags m1 AND (flags OR fd_flags (drv p)) = flags OR fd_flags (drv p)" using f(7) by simp
      then show ?thesis by (auto simp: bit_eq_iff bit_simps)
    qed
    have s': "if ok then r = Some ?k \<and> mounts s' = (mounts s)[?k := m1] \<and> mount_count s' = mount_count s + 1
      else r = None \<and> mounts s' = (mounts s)[?k := m1\<lparr>fm_active := False\<rparr>] \<and> mount_count s' = mount_count s"
      using assms False m1 dn by (auto simp: filesystem_mount_def Let_def)
    have "table_step (Fs_mount d n flags) s s'"
      using s' f free_slot_inactive [OF k] k dn
      by (intro table_step.fill [of ?k s "if ok then m1 else m1\<lparr>fm_active := False\<rparr>"]) (auto split: if_splits)
    moreover have "r = Some i \<and> length (mounts s) = FILESYSTEM_MAX_MOUNTS \<Longrightarrow> mounts s' ! i = m1 \<and> i = ?k"
      using s' k by (auto split: if_splits)
    ultimately show ?thesis using f fl k by auto
  qed
  show "table_step (Fs_mount d n flags) s s'" using main by blast
  show "r = Some i \<Longrightarrow> length (mounts s) = FILESYSTEM_MAX_MOUNTS \<Longrightarrow> i < FILESYSTEM_MAX_MOUNTS
      \<and> fm_active (mounts s' ! i) \<and> fm_flags (mounts s' ! i) AND flags = flags \<and> fm_driver (mounts s' ! i) = n
      \<and> fm_device (mounts s' ! i) = d \<and> reference_count (mounts s' ! i) = 0" using main by blast
qed

end

interpretation builtin: mount_driver "builtin_drivers cx" for cx
proof
  fix n and f :: "ASAS_FILESYSTEM_MOUNT \<Rightarrow> 'a \<Rightarrow> (bool \<times> ASAS_FILESYSTEM_MOUNT) \<times> 'a" and m v ok m' v'
  have or: "(a OR b) AND a = a" for a b :: u32 by (auto simp: bit_eq_iff bit_simps)
  have t: "fd_mount (builtin_drivers cx n) = Some (mount_adapter (n = ntfs_driver \<or> n = ext2_driver) (cx n))"
    by (cases n) (simp_all add: fat32_table_def ntfs_table_def exfat_table_def ext2_table_def udf_table_def
        iso9660_table_def adapter_table_def)
  then show "fd_mount (builtin_drivers cx n) \<noteq> None" by simp
  assume "fd_mount (builtin_drivers cx n) = Some f" "f m v = ((ok, m'), v')"
  then have "mount_adapter (n = ntfs_driver \<or> n = ext2_driver) (cx n) m v = ((ok, m'), v')" using t by simp
  then show "m' = m\<lparr>fm_flags := fm_flags m', fm_context := fm_context m'\<rparr> \<and> fm_flags m' AND fm_flags m = fm_flags m"
    by (auto simp: mount_adapter_def Let_def or split: prod.splits if_splits)
qed

section \<open>Sessions keep the table\<close>

inductive_cases table_step_unmountE: "table_step (Fs_unmount h) s s'"

lemma table_step_unmount_held:
  assumes "table_step (Fs_unmount h) s s'" "reference_count (mounts s ! j) \<noteq> 0"
  shows "mounts s' ! j = mounts s ! j"
  using assms by (elim table_step_unmountE) (metis nth_list_update_neq)+

lemma unmount_all_returns:
  assumes "fs_inv s" "\<forall>i \<in> set is. i < FILESYSTEM_MAX_MOUNTS"
  shows "\<exists>s'. unmount_all ctx is s = Some s' \<and> fs_inv s'
    \<and> (\<forall>j. reference_count (mounts s ! j) \<noteq> 0 \<longrightarrow> mounts s' ! j = mounts s ! j)"
  using assms
proof (induction "is" arbitrary: s)
  case (Cons i rest)
  show ?case
  proof (cases "fm_active (mounts s ! i)")
    case True
    have "handle_ok (Some i)" using Cons.prems by (simp add: handle_ok_def)
    then obtain ok s1 where u: "filesystem_unmount ctx (Some i) s = Some (ok, s1)"
      "table_step (Fs_unmount (Some i)) s s1" using unmount_step Cons.prems(1) by blast
    have h: "reference_count (mounts s ! j) \<noteq> 0 \<longrightarrow> mounts s1 ! j = mounts s ! j" for j
      using table_step_unmount_held [OF u(2)] by blast
    obtain s' where "unmount_all ctx rest s1 = Some s'" "fs_inv s'"
      "\<forall>j. reference_count (mounts s1 ! j) \<noteq> 0 \<longrightarrow> mounts s' ! j = mounts s1 ! j"
      using Cons.IH [OF table_step_inv [OF u(2) Cons.prems(1)]] Cons.prems(2) by auto
    then show ?thesis using True u(1) h by (metis (no_types) unmount_all.simps(2) case_prod_conv option.simps(5))
  next
    case False
    then show ?thesis using Cons.IH [OF Cons.prems(1)] Cons.prems(2) by simp
  qed
qed simp

lemma initialize_returns:
  assumes "fs_inv s"
  shows "\<exists>s'. filesystem_initialize ctx s = Some s' \<and> fs_inv s'
    \<and> (\<forall>j. reference_count (mounts s ! j) \<noteq> 0 \<longrightarrow> mounts s' ! j = mounts s ! j)"
proof -
  obtain s' where "unmount_all ctx [0 ..< FILESYSTEM_MAX_MOUNTS] s = Some s'" "fs_inv s'"
    "\<forall>j. reference_count (mounts s ! j) \<noteq> 0 \<longrightarrow> mounts s' ! j = mounts s ! j"
    using unmount_all_returns [OF assms] by (metis atLeastLessThan_iff set_upt)
  then show ?thesis by (simp add: filesystem_initialize_def fs_inv_def)
qed

text \<open>An active mount that is not unmounted keeps everything but its reference count.\<close>

lemma table_step_mount:
  assumes "table_step x s s'" "i < length (mounts s)" "fm_active (mounts s ! i)"
    "x \<noteq> Fs_unmount (Some i) \<or> reference_count (mounts s ! i) \<noteq> 0"
  obtains "mounts s' ! i = mounts s ! i"
  | "x = Fs_acquire (Some i)"
    "mounts s' ! i = (mounts s ! i)\<lparr>reference_count := reference_count (mounts s ! i) + 1\<rparr>"
  | "x = Fs_release (Some i)"
    "mounts s' ! i = (mounts s ! i)\<lparr>reference_count := reference_count (mounts s ! i) - 1\<rparr>"
  using assms
proof (induction rule: table_step.induct)
  case (acquire k s s')
  then show ?case by (cases "k = i") (auto simp: nth_list_update)
next
  case (release k s s')
  then show ?case by (cases "k = i") (auto simp: nth_list_update)
next
  case (fill k s m s' d n flags)
  then show ?case by (cases "k = i") (auto simp: nth_list_update)
next
  case (clear k s m s')
  then show ?case by (cases "k = i") (auto simp: nth_list_update)
qed auto

context mount_driver
begin

lemma run_op_step:
  assumes inv: "fs_inv s" and h: "handle_ok (op_handle x)" and x: "x \<noteq> Fs_initialize"
  shows "\<exists>s'. run_op drv ctx x s = Some s' \<and> table_step x s s'"
proof -
  have keep: "\<exists>s'. map_option snd (dispatch drv c a f r g s) = Some s' \<and> table_step y s s'"
    if "handle_ok g" for c r g y and a :: "'v ASAS_FILESYSTEM_DRIVER \<Rightarrow> 'f option"
      and f :: "'f \<Rightarrow> ASAS_FILESYSTEM_MOUNT \<Rightarrow> 'v \<Rightarrow> 'r \<times> 'v"
    using dispatch_returns [OF inv that, of drv c a f r] by (auto intro!: table_step.keep)
  show ?thesis
  proof (cases x)
    case (Fs_register n)
    then show ?thesis by (auto simp: filesystem_register_def split: option.splits intro!: table_step.keep)
  next
    case (Fs_probe d)
    then show ?thesis by (auto simp: filesystem_probe_def Let_def split: prod.splits intro!: table_step.keep)
  next
    case (Fs_mount d n flags)
    then show ?thesis using mount_step(1) [of d n flags s] by (metis prod.exhaust_sel run_op.simps(4))
  next
    case (Fs_unmount g)
    then show ?thesis using unmount_step [OF inv, of g ctx] h by auto
  next
    case (Fs_acquire g)
    then show ?thesis using acquire_step [OF inv, of g] h by auto
  next
    case (Fs_release g)
    then show ?thesis using release_step [OF inv, of g] h by auto
  next
    case (Fs_stat g p st)
    show ?thesis
    proof (cases st)
      case None
      then show ?thesis using Fs_stat by (auto simp: filesystem_stat_def intro!: table_step.keep)
    next
      case (Some a)
      have "handle_ok g" using h Fs_stat by simp
      then show ?thesis
        unfolding Fs_stat Some run_op.simps filesystem_stat_def option.case by (rule keep)
    qed
  qed (simp_all only: run_op.simps filesystem_read_def filesystem_list_def filesystem_write_def
      filesystem_unlink_def filesystem_mkdir_def filesystem_rmdir_def filesystem_rename_def filesystem_sync_def,
      use x in blast, (rule keep, use h in simp)+)
qed

lemma run_op_inv:
  assumes "fs_inv s" "handle_ok (op_handle x)"
  shows "\<exists>s'. run_op drv ctx x s = Some s' \<and> fs_inv s'"
proof (cases "x = Fs_initialize")
  case True
  then show ?thesis using initialize_returns [OF assms(1), of ctx] by auto
next
  case False
  then show ?thesis using run_op_step [OF assms] table_step_inv assms(1) by blast
qed

lemma run_ops_inv:
  assumes "fs_inv s" "\<forall>x \<in> set xs. handle_ok (op_handle x)"
  shows "\<exists>s'. run_ops drv ctx xs s = Some s' \<and> fs_inv s'"
  using assms
proof (induction xs arbitrary: s)
  case (Cons x xs)
  then obtain s1 where "run_op drv ctx x s = Some s1" "fs_inv s1"
    using run_op_inv [of s x ctx] by auto
  then show ?case using Cons.IH [of s1] Cons.prems by simp
qed simp

text \<open>A mount with a reference survives every call but its release, as long as the count of
  references does not wrap around.\<close>

lemma run_op_held:
  assumes inv: "fs_inv s" and h: "handle_ok (op_handle x)" and i: "i < FILESYSTEM_MAX_MOUNTS"
    and act: "fm_active (mounts s ! i)" and ref: "reference_count (mounts s ! i) \<noteq> 0"
    and x: "x \<noteq> Fs_release (Some i)" and run: "run_op drv ctx x s = Some s'"
    and bound: "unat (reference_count (mounts s ! i)) + (if x = Fs_acquire (Some i) then 1 else 0) < 4294967296"
  shows "\<exists>r. mounts s' ! i = (mounts s ! i)\<lparr>reference_count := r\<rparr> \<and> r \<noteq> 0
    \<and> unat r \<le> unat (reference_count (mounts s ! i)) + (if x = Fs_acquire (Some i) then 1 else 0)"
proof (cases "x = Fs_initialize")
  case True
  then have "mounts s' ! i = mounts s ! i" using initialize_returns [OF inv, of ctx] run ref by auto
  then show ?thesis using ref by (intro exI [of _ "reference_count (mounts s ! i)"]) simp
next
  case False
  have l: "i < length (mounts s)" using i inv by (simp add: fs_inv_def)
  have "table_step x s s'" using run_op_step [OF inv h False, of ctx] run by auto
  then show ?thesis
  proof (rule table_step_mount [OF _ l act disjI2 [OF ref]])
    assume "mounts s' ! i = mounts s ! i"
    then show ?thesis using ref by (intro exI [of _ "reference_count (mounts s ! i)"]) simp
  next
    assume a: "x = Fs_acquire (Some i)"
      "mounts s' ! i = (mounts s ! i)\<lparr>reference_count := reference_count (mounts s ! i) + 1\<rparr>"
    then have "unat (reference_count (mounts s ! i) + 1) = unat (reference_count (mounts s ! i)) + 1"
      using bound by (simp add: unat_word_ariths)
    then show ?thesis using a by (intro exI [of _ "reference_count (mounts s ! i) + 1"]) (auto simp: unat_eq_zero [symmetric])
  next
    assume "x = Fs_release (Some i)"
    then show ?thesis using x by blast
  qed
qed

lemma run_ops_held:
  assumes "fs_inv s" "\<forall>x \<in> set xs. handle_ok (op_handle x)" "i < FILESYSTEM_MAX_MOUNTS"
    "fm_active (mounts s ! i)" "reference_count (mounts s ! i) \<noteq> 0" "Fs_release (Some i) \<notin> set xs"
    "run_ops drv ctx xs s = Some s'"
    "unat (reference_count (mounts s ! i)) + length (filter (\<lambda>x. x = Fs_acquire (Some i)) xs) < 4294967296"
  shows "\<exists>r. mounts s' ! i = (mounts s ! i)\<lparr>reference_count := r\<rparr> \<and> r \<noteq> 0"
  using assms
proof (induction xs arbitrary: s)
  case Nil
  then show ?case by (intro exI [of _ "reference_count (mounts s ! i)"]) simp
next
  case (Cons x xs)
  have h: "handle_ok (op_handle x)" "\<forall>x \<in> set xs. handle_ok (op_handle x)" using Cons.prems(2) by simp_all
  obtain s1 where s1: "run_op drv ctx x s = Some s1" "fs_inv s1"
    using run_op_inv [OF Cons.prems(1) h(1), of ctx] by blast
  obtain r where r: "mounts s1 ! i = (mounts s ! i)\<lparr>reference_count := r\<rparr>" "r \<noteq> 0"
    "unat r \<le> unat (reference_count (mounts s ! i)) + (if x = Fs_acquire (Some i) then 1 else 0)"
    using run_op_held [OF Cons.prems(1) h(1) Cons.prems(3-5) _ s1(1)] Cons.prems(6,8)
    by (cases "x = Fs_acquire (Some i)") auto
  have "\<exists>r'. mounts s' ! i = (mounts s1 ! i)\<lparr>reference_count := r'\<rparr> \<and> r' \<noteq> 0"
    using Cons.prems s1 r h(2) by (intro Cons.IH) (auto split: if_splits)
  then show ?case using r(1) by auto
qed

lemma run_ops_flags:
  assumes "fs_inv s" "\<forall>x \<in> set xs. handle_ok (op_handle x)" "i < FILESYSTEM_MAX_MOUNTS"
    "fm_active (mounts s ! i)" "Fs_unmount (Some i) \<notin> set xs" "Fs_initialize \<notin> set xs"
    "run_ops drv ctx xs s = Some s'"
  shows "fm_active (mounts s' ! i) \<and> fm_flags (mounts s' ! i) = fm_flags (mounts s ! i)"
  using assms
proof (induction xs arbitrary: s)
  case (Cons x xs)
  have h: "handle_ok (op_handle x)" "\<forall>x \<in> set xs. handle_ok (op_handle x)" using Cons.prems(2) by simp_all
  have l: "i < length (mounts s)" using Cons.prems(1,3) by (simp add: fs_inv_def)
  have n: "x \<noteq> Fs_initialize" "x \<noteq> Fs_unmount (Some i)" using Cons.prems(5,6) by auto
  obtain s1 where s1: "run_op drv ctx x s = Some s1" "table_step x s s1"
    using run_op_step [OF Cons.prems(1) h(1) n(1), of ctx] by blast
  have "fm_active (mounts s1 ! i) \<and> fm_flags (mounts s1 ! i) = fm_flags (mounts s ! i)"
    by (rule table_step_mount [OF s1(2) l Cons.prems(4) disjI1 [OF n(2)]]) (use Cons.prems(4) in auto)
  then show ?case
    using Cons.IH [OF table_step_inv [OF s1(2) Cons.prems(1)] h(2)] Cons.prems s1(1) by auto
qed simp

end

section \<open>Properties\<close>

text \<open>Sample drivers for the witnesses: contexts that always work, on a counter of writes.\<close>

definition sample_context :: "nat context_ops" where
  "sample_context = \<lparr>cx_probe = (\<lambda>_ v. (True, v)), cx_create = (\<lambda>d v. (d, v)), cx_read_only = (\<lambda>_ v. (False, v)),
     cx_exists = (\<lambda>_ _ v. (True, v)), cx_is_directory = (\<lambda>_ _ v. (False, v)), cx_file_size = (\<lambda>_ _ v. (0, v)),
     cx_path_read_only = (\<lambda>_ _ v. (True, v)), cx_read_file = (\<lambda>_ _ _ v. ((0, []), v)),
     cx_list_directory = (\<lambda>_ _ _ v. ((0, []), v)), cx_write_file = (\<lambda>_ _ _ v. (True, v + 1)),
     cx_delete_file = (\<lambda>_ _ v. (True, v + 1)), cx_create_directory = (\<lambda>_ _ v. (True, v + 1)),
     cx_delete_directory = (\<lambda>_ _ v. (True, v + 1)), cx_rename = (\<lambda>_ _ _ v. (True, v + 1)),
     cx_sync = (\<lambda>_ v. (True, v)), cx_flush = (\<lambda>_ v. (True, v))\<rparr>"

definition sample_destroy :: "nat fs_contexts" where
  "sample_destroy = \<lparr>fat32_context_sync = (\<lambda>_ v. (True, v)), context_destroy = (\<lambda>_ _ v. v)\<rparr>"

definition fs_boot :: "nat fs_state" where
  "fs_boot = \<lparr>driver_table = replicate 8 fat32_driver,
     mounts = replicate 16 \<lparr>fm_id = 0, fm_generation = 0, reference_count = 0, fm_device = None,
       fm_driver = None, fm_flags = 0, fm_context = None, lock_value = 0, fm_active = False\<rparr>,
     driver_count = 0, mount_count = 0, next_generation = 1, fs_world = 0\<rparr>"

lemma fs_boot_inv: "fs_inv fs_boot"
  by (simp add: fs_inv_def fs_boot_def FILESYSTEM_MAX_MOUNTS_def)

definition one_mount :: "nat fs_state" where
  "one_mount = fs_boot\<lparr>mounts := (mounts fs_boot)[0 := \<lparr>fm_id = 0, fm_generation = 1, reference_count = 1,
     fm_device = Some 3, fm_driver = Some fat32_driver, fm_flags = 0, fm_context = Some 3, lock_value = 0,
     fm_active = True\<rparr>], mount_count := 1\<rparr>"

lemma one_mount_inv: "fs_inv one_mount"
  by (rule fs_inv_update [OF fs_boot_inv, of 0 "mounts one_mount ! 0"])
     (simp_all add: one_mount_def fs_boot_def FILESYSTEM_MAX_MOUNTS_def)



text \<open>C31: A mount that is referred to cannot be taken away: while nobody releases the reference, no
  session, not even one that unmounts it or re-initialises the mount manager, changes anything of the mount but
  its reference count, which stays positive as long as it does not wrap around.\<close>

theorem held_mount_survives:
  assumes "fs_inv s" and "\<forall>x \<in> set xs. handle_ok (op_handle x)" and "i < FILESYSTEM_MAX_MOUNTS"
    and "fm_active (mounts s ! i)" and "reference_count (mounts s ! i) \<noteq> 0"
    and "Fs_release (Some i) \<notin> set xs"
    and "unat (reference_count (mounts s ! i)) + length (filter (\<lambda>x. x = Fs_acquire (Some i)) xs) < 4294967296"
  shows "\<exists>s' r. run_ops (builtin_drivers cx) ctx xs s = Some s'
    \<and> mounts s' ! i = (mounts s ! i)\<lparr>reference_count := r\<rparr> \<and> r \<noteq> 0"
proof -
  obtain s' where "run_ops (builtin_drivers cx) ctx xs s = Some s'"
    using builtin.run_ops_inv [OF assms(1,2)] by blast
  then show ?thesis using builtin.run_ops_held [OF assms(1-6) _ assms(7)] by blast
qed

theorem held_mount_survives_witness:
  "\<exists>s' r. run_ops (builtin_drivers (\<lambda>_. sample_context)) sample_destroy
      [Fs_unmount (Some 0), Fs_initialize, Fs_acquire (Some 0)] one_mount = Some s'
    \<and> mounts s' ! 0 = (mounts one_mount ! 0)\<lparr>reference_count := r\<rparr> \<and> r \<noteq> 0"
  by (rule held_mount_survives)
     (simp_all add: one_mount_inv handle_ok_def FILESYSTEM_MAX_MOUNTS_def, simp_all add: one_mount_def fs_boot_def)

text \<open>C32: A mount made read-only stays read-only: after any session that does not unmount it, writing,
  deleting, making and removing directories and renaming through it are refused and leave the state,
  that of the file systems included, exactly as it was.\<close>

theorem read_only_mount_never_changed:
  assumes "fs_inv s" and "filesystem_mount (builtin_drivers cx) d n flags s = (Some i, s1)"
    and "flags AND FILESYSTEM_FLAG_READ_ONLY \<noteq> 0"
    and "\<forall>x \<in> set xs. handle_ok (op_handle x) \<and> x \<noteq> Fs_unmount (Some i) \<and> x \<noteq> Fs_initialize"
    and "x \<in> {Fs_write (Some i) p b, Fs_unlink (Some i) p, Fs_mkdir (Some i) p, Fs_rmdir (Some i) p,
      Fs_rename (Some i) p q}"
  shows "\<exists>s2. run_ops (builtin_drivers cx) ctx xs s1 = Some s2
    \<and> run_op (builtin_drivers cx) ctx x s2 = Some s2"
proof -
  have l: "length (mounts s) = FILESYSTEM_MAX_MOUNTS" using assms(1) by (simp add: fs_inv_def)
  note m = builtin.mount_step [OF assms(2)]
  have i: "i < FILESYSTEM_MAX_MOUNTS" "fm_active (mounts s1 ! i)" "fm_flags (mounts s1 ! i) AND flags = flags"
    using m(2) [OF refl l] by blast+
  have inv: "fs_inv s1" using table_step_inv [OF m(1) assms(1)] .
  obtain s2 where s2: "run_ops (builtin_drivers cx) ctx xs s1 = Some s2"
    using builtin.run_ops_inv [OF inv] assms(4) by blast
  have "\<forall>x \<in> set xs. handle_ok (op_handle x)" "Fs_unmount (Some i) \<notin> set xs" "Fs_initialize \<notin> set xs"
    using assms(4) by auto
  then have "fm_flags (mounts s2 ! i) AND flags = flags"
    using builtin.run_ops_flags [OF inv _ i(1,2) _ _ s2] i(3) by simp
  then have "fm_flags (mounts s2 ! i) AND FILESYSTEM_FLAG_READ_ONLY \<noteq> 0"
    using assms(3) by (rule read_only_inherits)
  then have "run_op (builtin_drivers cx) ctx x s2 = Some s2"
    using assms(5) by (auto simp: filesystem_write_def filesystem_unlink_def filesystem_mkdir_def
        filesystem_rmdir_def filesystem_rename_def dispatch_def)
  with s2 show ?thesis by blast
qed

theorem read_only_mount_never_changed_witness:
  "\<exists>s1 s2. filesystem_mount (builtin_drivers (\<lambda>_. sample_context)) (Some 3) (Some udf_driver) 1 fs_boot
      = (Some 0, s1)
    \<and> run_ops (builtin_drivers (\<lambda>_. sample_context)) sample_destroy [Fs_acquire (Some 0)] s1 = Some s2
    \<and> run_op (builtin_drivers (\<lambda>_. sample_context)) sample_destroy (Fs_mkdir (Some 0) ''d'') s2 = Some s2"
proof -
  obtain s1 where m: "filesystem_mount (builtin_drivers (\<lambda>_. sample_context)) (Some 3) (Some udf_driver) 1 fs_boot
      = (Some 0, s1)"
    by (simp add: filesystem_mount_def free_slot_from.simps [of 0] fs_boot_def FILESYSTEM_MAX_MOUNTS_def
        udf_table_def adapter_table_def mount_adapter_def sample_context_def)
  have "\<exists>s2. run_ops (builtin_drivers (\<lambda>_. sample_context)) sample_destroy [Fs_acquire (Some 0)] s1 = Some s2
    \<and> run_op (builtin_drivers (\<lambda>_. sample_context)) sample_destroy (Fs_mkdir (Some 0) ''d'') s2 = Some s2"
    by (rule read_only_mount_never_changed [OF fs_boot_inv m])
       (simp_all add: FILESYSTEM_FLAG_READ_ONLY_def handle_ok_def FILESYSTEM_MAX_MOUNTS_def)
  with m show ?thesis by blast
qed

end
