(* ===== verification/Partition_Table.thy ===== *)
theory Partition_Table
  imports Filesystem_Mounts Kernel_Heap "HOL-Library.Monad_Syntax"
begin

text \<open>
  \<^verbatim>\<open>src/kernel/partition.c\<close>: scanning disks for MBR and GPT partition tables, the table of the
  partitions found, and editing both kinds of table on the disk.

  The packed structures of the tables are read from and stored in the bytes of a sector at the
  offsets of their fields.  Disks are read and written through \<open>block_device_read\<close> and
  \<open>block_device_write\<close>, with the drivers and the fuel of \<open>Block_Device\<close>; the result \<open>None\<close> of an
  operation means that the fuel did not cover the chain of parent devices.  The \<open>return 0\<close> of the
  code is the value \<open>None\<close> or \<open>False\<close> inside that.
\<close>

section \<open>On-disk structures\<close>

record MBR_PARTITION_ENTRY =
  mbr_status :: u8
  mbr_first_chs :: bytes
  mbr_type :: u8
  mbr_last_chs :: bytes
  mbr_first_lba :: u32
  mbr_sector_count :: u32

text \<open>Entry \<open>index\<close> of the table at byte 446 of a sector.\<close>

definition mbr_offset :: "nat \<Rightarrow> nat" where
  "mbr_offset index = 446 + 16 * index"

definition mbr_entry :: "bytes \<Rightarrow> nat \<Rightarrow> MBR_PARTITION_ENTRY" where
  "mbr_entry sector index = (let b = drop (mbr_offset index) sector in
     \<lparr>mbr_status = b ! 0, mbr_first_chs = take 3 (drop 1 b), mbr_type = b ! 4,
      mbr_last_chs = take 3 (drop 5 b), mbr_first_lba = u32_at 8 b, mbr_sector_count = u32_at 12 b\<rparr>)"

definition mbr_entries :: "bytes \<Rightarrow> MBR_PARTITION_ENTRY list" where
  "mbr_entries sector = map (mbr_entry sector) [0 ..< 4]"

definition mbr_entry_bytes :: "MBR_PARTITION_ENTRY \<Rightarrow> bytes" where
  "mbr_entry_bytes e = [mbr_status e] @ mbr_first_chs e @ [mbr_type e] @ mbr_last_chs e
     @ le_bytes 4 (unat (mbr_first_lba e)) @ le_bytes 4 (unat (mbr_sector_count e))"

record GPT_HEADER =
  gpt_signature :: bytes
  gpt_revision :: u32
  header_size :: u32
  header_crc32 :: u32
  gpt_reserved :: u32
  current_lba :: u64
  backup_lba :: u64
  first_usable_lba :: u64
  last_usable_lba :: u64
  disk_guid :: bytes
  entries_lba :: u64
  entry_count :: u32
  entry_size :: u32
  entries_crc32 :: u32

definition gpt_header :: "bytes \<Rightarrow> GPT_HEADER" where
  "gpt_header b = \<lparr>gpt_signature = take 8 b, gpt_revision = u32_at 8 b, header_size = u32_at 12 b,
     header_crc32 = u32_at 16 b, gpt_reserved = u32_at 20 b, current_lba = u64_at 24 b,
     backup_lba = u64_at 32 b, first_usable_lba = u64_at 40 b, last_usable_lba = u64_at 48 b,
     disk_guid = take 16 (drop 56 b), entries_lba = u64_at 72 b, entry_count = u32_at 80 b,
     entry_size = u32_at 84 b, entries_crc32 = u32_at 88 b\<rparr>"

record GPT_ENTRY =
  ge_type_guid :: bytes
  ge_unique_guid :: bytes
  ge_first_lba :: u64
  ge_last_lba :: u64
  ge_attributes :: u64
  ge_name :: "u16 list"

text \<open>The entry at a byte offset of a buffer.\<close>

definition gpt_entry :: "nat \<Rightarrow> bytes \<Rightarrow> GPT_ENTRY" where
  "gpt_entry offset buffer = (let b = drop offset buffer in
     \<lparr>ge_type_guid = take 16 b, ge_unique_guid = take 16 (drop 16 b), ge_first_lba = u64_at 32 b,
      ge_last_lba = u64_at 40 b, ge_attributes = u64_at 48 b,
      ge_name = map (\<lambda>i. u16_at (56 + 2 * i) b) [0 ..< 36]\<rparr>)"

section \<open>State\<close>

definition PARTITION_MAX_BLOCK_SIZE :: u32 where "PARTITION_MAX_BLOCK_SIZE = 4096"
definition PARTITION_MAX_PER_DISK :: nat where "PARTITION_MAX_PER_DISK = 16"

datatype ASAS_PARTITION_SCHEME = PARTITION_SCHEME_NONE | PARTITION_SCHEME_MBR | PARTITION_SCHEME_GPT

datatype ASAS_PARTITION_TYPE = PARTITION_TYPE_UNKNOWN | PARTITION_TYPE_EFI_SYSTEM
  | PARTITION_TYPE_MICROSOFT_RESERVED | PARTITION_TYPE_MICROSOFT_BASIC_DATA
  | PARTITION_TYPE_WINDOWS_RECOVERY | PARTITION_TYPE_LINUX_FILESYSTEM | PARTITION_TYPE_LINUX_SWAP

record ASAS_PARTITION_INFO =
  pi_device :: "nat option"
  pi_parent :: nat
  pi_scheme :: ASAS_PARTITION_SCHEME
  pi_number :: u32
  pi_type :: u8
  pi_type_guid :: bytes
  pi_unique_guid :: bytes
  pi_known_type :: ASAS_PARTITION_TYPE
  pi_type_name :: string
  pi_label :: bytes
  pi_uuid :: string
  pi_start_lba :: u64
  pi_block_count :: u64

record GPT_CANDIDATE =
  gc_number :: u32
  gc_type_guid :: bytes
  gc_unique_guid :: bytes
  gc_start_lba :: u64
  gc_block_count :: u64
  gc_name :: "u16 list"

record MBR_CANDIDATE =
  mc_number :: u32
  mc_type :: u8
  mc_start_lba :: u64
  mc_block_count :: u64

record 'd partition_state =
  partitions :: "ASAS_PARTITION_INFO list"
  found_partition_count :: nat
  pt_blocks :: "'d block_state"

section \<open>Helpers\<close>

definition bytes_equal :: "bytes \<Rightarrow> string \<Rightarrow> nat \<Rightarrow> bool" where
  "bytes_equal left right len \<longleftrightarrow> (\<forall>index \<in> set [0 ..< len]. left ! index = of_char (right ! index))"

definition guid_is_zero :: "bytes \<Rightarrow> bool" where
  "guid_is_zero guid \<longleftrightarrow> (\<forall>index \<in> set [0 ..< 16]. guid ! index = 0)"

definition guid_equal :: "bytes \<Rightarrow> bytes \<Rightarrow> bool" where
  "guid_equal left right \<longleftrightarrow> (\<forall>index \<in> set [0 ..< 16]. left ! index = right ! index)"

definition gpt_types :: "(bytes \<times> string \<times> ASAS_PARTITION_TYPE) list" where
  "gpt_types =
    [([0x28,0x73,0x2A,0xC1,0x1F,0xF8,0xD2,0x11,0xBA,0x4B,0x00,0xA0,0xC9,0x3E,0xC9,0x3B],
      ''EFI System'', PARTITION_TYPE_EFI_SYSTEM),
     ([0x16,0xE3,0xC9,0xE3,0x5C,0x0B,0xB8,0x4D,0x81,0x7D,0xF9,0x2D,0xF0,0x02,0x15,0xAE],
      ''Microsoft Reserved'', PARTITION_TYPE_MICROSOFT_RESERVED),
     ([0xA2,0xA0,0xD0,0xEB,0xE5,0xB9,0x33,0x44,0x87,0xC0,0x68,0xB6,0xB7,0x26,0x99,0xC7],
      ''Microsoft Basic Data'', PARTITION_TYPE_MICROSOFT_BASIC_DATA),
     ([0xA4,0xBB,0x94,0xDE,0xD1,0x06,0x40,0x4D,0xA1,0x6A,0xBF,0xD5,0x01,0x79,0xD6,0xAC],
      ''Windows Recovery'', PARTITION_TYPE_WINDOWS_RECOVERY),
     ([0xAF,0x3D,0xC6,0x0F,0x83,0x84,0x72,0x47,0x8E,0x79,0x3D,0x69,0xD8,0x47,0x7D,0xE4],
      ''Linux Filesystem'', PARTITION_TYPE_LINUX_FILESYSTEM),
     ([0x6D,0xFD,0x57,0x06,0xAB,0xA4,0xC4,0x43,0x84,0xE5,0x09,0x33,0xC8,0x4B,0x4F,0x4F],
      ''Linux Swap'', PARTITION_TYPE_LINUX_SWAP)]"

fun classify_in :: "(bytes \<times> string \<times> ASAS_PARTITION_TYPE) list \<Rightarrow> bytes \<Rightarrow> string \<times> ASAS_PARTITION_TYPE" where
  "classify_in [] guid = (copy_string 24 ''Unknown GPT'', PARTITION_TYPE_UNKNOWN)"
| "classify_in ((known, name, type) # rest) guid =
     (if guid_equal guid known then (copy_string 24 name, type) else classify_in rest guid)"

definition classify_gpt_type :: "bytes \<Rightarrow> string \<times> ASAS_PARTITION_TYPE" where
  "classify_gpt_type = classify_in gpt_types"

definition hex_digit :: "u8 \<Rightarrow> char" where
  "hex_digit value = (if value < 10 then char_of (48 + unat value) else char_of (97 + unat value - 10))"

definition guid_to_string :: "bytes \<Rightarrow> string" where
  "guid_to_string guid = concat (map (\<lambda>index.
     let value = guid ! ([3,2,1,0,5,4,7,6,8,9,10,11,12,13,14,15] ! index) in
     (if index \<in> {4, 6, 8, 10} then ''-'' else [])
       @ [hex_digit (drop_bit 4 value), hex_digit (value AND 0x0F)]) [0 ..< 16])"

text \<open>One code point in UTF-8, when it fits in the \<open>64 - out\<close> bytes that are left of the output.\<close>

definition utf8_encode :: "u32 \<Rightarrow> nat \<Rightarrow> bytes" where
  "utf8_encode cp out =
     (if cp < 0x80 \<and> out + 1 < 64 then [ucast cp]
      else if cp < 0x800 \<and> out + 2 < 64 then [ucast (0xC0 OR drop_bit 6 cp), ucast (0x80 OR (cp AND 0x3F))]
      else if cp < 0x10000 \<and> out + 3 < 64 then
        [ucast (0xE0 OR drop_bit 12 cp), ucast (0x80 OR (drop_bit 6 cp AND 0x3F)), ucast (0x80 OR (cp AND 0x3F))]
      else if cp \<le> 0x10FFFF \<and> out + 4 < 64 then
        [ucast (0xF0 OR drop_bit 18 cp), ucast (0x80 OR (drop_bit 12 cp AND 0x3F)),
         ucast (0x80 OR (drop_bit 6 cp AND 0x3F)), ucast (0x80 OR (cp AND 0x3F))]
      else [])"

text \<open>\<open>input\<close> is what is left of the 36 code units, \<open>output\<close> what has been written.\<close>

fun utf16_loop :: "u16 list \<Rightarrow> bytes \<Rightarrow> bytes" where
  "utf16_loop [] output = output"
| "utf16_loop (c # input) output =
     (if c = 0 \<or> \<not> length output + 1 < 64 then output
      else if c \<ge> 0xD800 \<and> c \<le> 0xDBFF \<and> input \<noteq> [] \<and> hd input \<ge> 0xDC00 \<and> hd input \<le> 0xDFFF then
        utf16_loop (tl input) (output @ utf8_encode
          (0x10000 + push_bit 10 (ucast c - 0xD800) + (ucast (hd input) - 0xDC00)) (length output))
      else utf16_loop input (output @ utf8_encode (ucast c) (length output)))"

definition utf16_to_utf8 :: "u16 list \<Rightarrow> bytes" where
  "utf16_to_utf8 input = utf16_loop (take 36 input) []"

definition mbr_type_is_extended :: "u8 \<Rightarrow> bool" where
  "mbr_type_is_extended type \<longleftrightarrow> type = 0x05 \<or> type = 0x0F \<or> type = 0x85"

text \<open>The two ranges of blocks share a block, by the test the code makes.\<close>

definition ranges_meet :: "u64 \<Rightarrow> u64 \<Rightarrow> u64 \<Rightarrow> u64 \<Rightarrow> bool" where
  "ranges_meet start_a end_a start_b end_b \<longleftrightarrow> start_a \<le> end_b \<and> start_b \<le> end_a"

definition mbr_candidate_add ::
  "MBR_CANDIDATE list \<Rightarrow> u32 \<Rightarrow> u8 \<Rightarrow> u64 \<Rightarrow> u64 \<Rightarrow> u64 \<Rightarrow> MBR_CANDIDATE list option" where
  "mbr_candidate_add candidates number type start cnt device_blocks =
     (if length candidates \<ge> PARTITION_MAX_PER_DISK \<or> start = 0 \<or> cnt = 0
         \<or> device_blocks \<noteq> 0 \<and> (start \<ge> device_blocks \<or> cnt > device_blocks - start)
      then None
      else if list_ex (\<lambda>c. ranges_meet start (start + cnt - 1) (mc_start_lba c)
             (mc_start_lba c + mc_block_count c - 1)) candidates then None
      else Some (candidates @ [\<lparr>mc_number = number, mc_type = type, mc_start_lba = start,
             mc_block_count = cnt\<rparr>]))"

definition crc32_bit :: "u32 \<Rightarrow> u32" where
  "crc32_bit crc = drop_bit 1 crc XOR (0xEDB88320 AND (0 - (crc AND 1)))"

definition crc32_byte :: "u8 \<Rightarrow> u32 \<Rightarrow> u32" where
  "crc32_byte b crc = (crc32_bit ^^ 8) (crc XOR ucast b)"

definition crc32_update :: "u32 \<Rightarrow> bytes \<Rightarrow> u32" where
  "crc32_update crc data = fold crc32_byte data crc"

definition make_partition_name :: "string \<Rightarrow> u32 \<Rightarrow> string" where
  "make_partition_name device_name number =
     (let o1 = copy_string 16 device_name;
          o2 = (if length o1 + 2 < 16 then o1 @ ''p'' else o1);
          o3 = (if number \<ge> 10 \<and> length o2 + 1 < 16 then o2 @ [char_of (48 + unat ((number div 10) mod 10))] else o2)
      in if length o3 + 1 < 16 then o3 @ [char_of (48 + unat (number mod 10))] else o3)"

section \<open>The table of partitions\<close>

definition zero_guid :: bytes where
  "zero_guid = replicate 16 0"

definition mbr_type_name :: "u8 \<Rightarrow> string" where
  "mbr_type_name type = copy_string 24
     (if type = 0x07 then ''NTFS/exFAT'' else if type = 0x0B \<or> type = 0x0C then ''FAT32''
      else if type = 0x82 then ''Linux Swap'' else if type = 0x83 then ''Linux Filesystem''
      else ''Unknown MBR'')"

definition partition_info ::
  "nat \<Rightarrow> nat \<Rightarrow> ASAS_PARTITION_SCHEME \<Rightarrow> u32 \<Rightarrow> u8 \<Rightarrow> bytes option \<Rightarrow> bytes option \<Rightarrow> u16 list option \<Rightarrow> u64 \<Rightarrow> u64 \<Rightarrow>
   ASAS_PARTITION_INFO" where
  "partition_info dev par scheme number type type_guid unique_guid gpt_name start cnt =
     (let tg = (case type_guid of Some g \<Rightarrow> take 16 g | None \<Rightarrow> zero_guid);
          ug = (case unique_guid of Some g \<Rightarrow> take 16 g | None \<Rightarrow> zero_guid);
          (name, known) = (if scheme = PARTITION_SCHEME_GPT then classify_gpt_type tg
            else (mbr_type_name type, PARTITION_TYPE_UNKNOWN))
      in \<lparr>pi_device = Some dev, pi_parent = par, pi_scheme = scheme, pi_number = number, pi_type = type,
          pi_type_guid = tg, pi_unique_guid = ug, pi_known_type = known, pi_type_name = name,
          pi_label = (case (scheme, gpt_name) of (PARTITION_SCHEME_GPT, Some n) \<Rightarrow> utf16_to_utf8 n | _ \<Rightarrow> []),
          pi_uuid = (if scheme = PARTITION_SCHEME_GPT then guid_to_string ug else []),
          pi_start_lba = start, pi_block_count = cnt\<rparr>)"

definition record_partition ::
  "nat \<Rightarrow> ASAS_PARTITION_SCHEME \<Rightarrow> u32 \<Rightarrow> u8 \<Rightarrow> bytes option \<Rightarrow> bytes option \<Rightarrow> u16 list option \<Rightarrow> u64 \<Rightarrow> u64 \<Rightarrow>
   'd partition_state \<Rightarrow> bool \<times> 'd partition_state" where
  "record_partition par scheme number type type_guid unique_guid gpt_name start cnt s =
     (let d = devices (pt_blocks s) ! par; n = found_partition_count s in
      if n \<ge> BLOCK_DEVICE_MAX_COUNT \<or> cnt = 0 \<or> start = 0
         \<or> block_count d \<noteq> 0 \<and> (start \<ge> block_count d \<or> cnt > block_count d - start)
      then (False, s)
      else if list_ex (\<lambda>p. pi_parent p = par \<and> ranges_meet start (start + cnt - 1) (pi_start_lba p)
             (pi_start_lba p + pi_block_count p - 1)) (take n (partitions s))
      then (False, s)
      else
        let (r, b) = block_device_register_partition (Some par) start cnt
              (make_partition_name (bd_name d) number) 0 (pt_blocks s)
        in case r of
             None \<Rightarrow> (False, s\<lparr>pt_blocks := b,
               partitions := (partitions s)[n := (partitions s ! n)\<lparr>pi_device := None\<rparr>]\<rparr>)
           | Some j \<Rightarrow> (True, s\<lparr>pt_blocks := b, found_partition_count := n + 1,
               partitions := (partitions s)[n := partition_info j par scheme number type type_guid
                 unique_guid gpt_name start cnt]\<rparr>))"

section \<open>Scanning\<close>

text \<open>One block into a buffer of \<open>PARTITION_MAX_BLOCK_SIZE\<close> bytes on the stack.\<close>

definition read_sector ::
  "nat \<Rightarrow> 'd drivers \<Rightarrow> nat \<Rightarrow> u64 \<Rightarrow> 'd partition_state \<Rightarrow> (bytes option \<times> 'd partition_state) option" where
  "read_sector fuel drv i lba s = do {
     (ok, b, s1) \<leftarrow> block_device_read fuel drv (Some i) lba 1
       (Some (replicate (unat PARTITION_MAX_BLOCK_SIZE) 0)) (pt_blocks s);
     Some (if ok then b else None, s\<lparr>pt_blocks := s1\<rparr>)
   }"

text \<open>The checks of \<open>read_gpt_header\<close> on the sector it has read: the fields, the geometry, the
  checksum.\<close>

definition gpt_fields_ok :: "u32 \<Rightarrow> u64 \<Rightarrow> GPT_HEADER \<Rightarrow> bool" where
  "gpt_fields_ok bsize header_lba h \<longleftrightarrow>
     bytes_equal (gpt_signature h) ''EFI PART'' 8
     \<and> \<not> header_size h < 92 \<and> \<not> header_size h > bsize
     \<and> \<not> entry_size h < 128 \<and> \<not> entry_size h > bsize
     \<and> entry_size h mod 128 = 0 \<and> bsize mod entry_size h = 0
     \<and> entry_count h \<noteq> 0 \<and> current_lba h = header_lba \<and> backup_lba h \<noteq> header_lba
     \<and> \<not> first_usable_lba h > last_usable_lba h"

definition gpt_geometry_ok :: "u32 \<Rightarrow> u64 \<Rightarrow> u64 \<Rightarrow> GPT_HEADER \<Rightarrow> bool" where
  "gpt_geometry_ok bsize blocks header_lba h \<longleftrightarrow>
     (let entries_bytes = ucast (entry_count h) * ucast (entry_size h) :: u64;
          entries_sectors = (entries_bytes + ucast bsize - 1) div ucast bsize
      in \<not> (blocks \<noteq> 0 \<and> (header_lba \<ge> blocks \<or> backup_lba h \<ge> blocks \<or> last_usable_lba h \<ge> blocks))
         \<and> entries_bytes div ucast (entry_size h) = ucast (entry_count h)
         \<and> \<not> (entries_sectors = 0 \<or> entries_lba h = 0
              \<or> blocks \<noteq> 0 \<and> (entries_lba h \<ge> blocks \<or> entries_sectors > blocks - entries_lba h))
         \<and> \<not> (entries_lba h \<le> last_usable_lba h \<and> entries_lba h + entries_sectors - 1 \<ge> first_usable_lba h)
         \<and> \<not> (header_lba \<ge> first_usable_lba h \<and> header_lba \<le> last_usable_lba h
              \<or> backup_lba h \<ge> first_usable_lba h \<and> backup_lba h \<le> last_usable_lba h))"

definition gpt_header_crc :: "bytes \<Rightarrow> u32" where
  "gpt_header_crc sector =
     crc32_update 0xFFFFFFFF (take (unat (header_size (gpt_header sector)))
       (put_bytes 16 (replicate 4 0) sector)) XOR 0xFFFFFFFF"

definition gpt_header_ok :: "ASAS_BLOCK_DEVICE \<Rightarrow> u64 \<Rightarrow> bytes \<Rightarrow> bool" where
  "gpt_header_ok d header_lba sector \<longleftrightarrow>
     gpt_fields_ok (logical_block_size d) header_lba (gpt_header sector)
     \<and> gpt_geometry_ok (logical_block_size d) (block_count d) header_lba (gpt_header sector)
     \<and> gpt_header_crc sector = header_crc32 (gpt_header sector)"

definition read_gpt_header ::
  "nat \<Rightarrow> 'd drivers \<Rightarrow> nat \<Rightarrow> u64 \<Rightarrow> 'd partition_state \<Rightarrow> (bytes option \<times> 'd partition_state) option" where
  "read_gpt_header fuel drv i header_lba s =
     (let d = devices (pt_blocks s) ! i in
      if logical_block_size d < 512 \<or> logical_block_size d > PARTITION_MAX_BLOCK_SIZE then Some (None, s)
      else do {
        (r, s1) \<leftarrow> read_sector fuel drv i header_lba s;
        Some (case r of None \<Rightarrow> (None, s1)
          | Some sector \<Rightarrow> (if gpt_header_ok d header_lba sector then Some sector else None, s1))
      })"

text \<open>The loop over the entries: \<open>left\<close> are left from \<open>index\<close> on; \<open>sector\<close> is the block number
  \<open>current\<close> of the entry array.  The result holds the checksum and the candidates.\<close>

definition gpt_candidate :: "u32 \<Rightarrow> GPT_HEADER \<Rightarrow> GPT_ENTRY \<Rightarrow> GPT_CANDIDATE list \<Rightarrow> GPT_CANDIDATE list option" where
  "gpt_candidate index h e candidates =
     (if length candidates \<ge> PARTITION_MAX_PER_DISK \<or> ge_first_lba e < first_usable_lba h
         \<or> ge_last_lba e > last_usable_lba h \<or> ge_last_lba e < ge_first_lba e then None
      else if list_ex (\<lambda>c. ranges_meet (ge_first_lba e) (ge_last_lba e) (gc_start_lba c)
             (gc_start_lba c + gc_block_count c - 1)) candidates then None
      else Some (candidates @ [\<lparr>gc_number = index + 1, gc_type_guid = ge_type_guid e,
             gc_unique_guid = ge_unique_guid e, gc_start_lba = ge_first_lba e,
             gc_block_count = ge_last_lba e - ge_first_lba e + 1, gc_name = ge_name e\<rparr>]))"

fun gpt_collect ::
  "nat \<Rightarrow> 'd drivers \<Rightarrow> nat \<Rightarrow> GPT_HEADER \<Rightarrow> nat \<Rightarrow> u32 \<Rightarrow> bytes \<Rightarrow> u32 \<Rightarrow> u32 \<Rightarrow> GPT_CANDIDATE list \<Rightarrow>
   'd partition_state \<Rightarrow> ((u32 \<times> GPT_CANDIDATE list) option \<times> 'd partition_state) option" where
  "gpt_collect fuel drv i h 0 index sector current crc candidates s = Some (Some (crc, candidates), s)"
| "gpt_collect fuel drv i h (Suc left) index sector current crc candidates s =
     (let bsize = logical_block_size (devices (pt_blocks s) ! i);
          byte_offset = ucast index * ucast (entry_size h) :: u64;
          sector_index = ucast (byte_offset div ucast bsize) :: u32;
          offset = ucast (byte_offset mod ucast bsize) :: u32
      in do {
        (r, s1) \<leftarrow> (if sector_index \<noteq> current
          then read_sector fuel drv i (entries_lba h + ucast sector_index) s else Some (Some sector, s));
        (case r of None \<Rightarrow> Some (None, s1)
         | Some sector1 \<Rightarrow>
             if offset + entry_size h > bsize then Some (None, s1)
             else
               let crc1 = crc32_update crc (take (unat (entry_size h)) (drop (unat offset) sector1));
                   e = gpt_entry (unat offset) sector1
               in if guid_is_zero (ge_type_guid e)
                  then gpt_collect fuel drv i h left (index + 1) sector1 sector_index crc1 candidates s1
                  else (case gpt_candidate index h e candidates of
                      None \<Rightarrow> Some (None, s1)
                    | Some candidates1 \<Rightarrow>
                        gpt_collect fuel drv i h left (index + 1) sector1 sector_index crc1 candidates1 s1))
      })"

fun record_gpt :: "nat \<Rightarrow> GPT_CANDIDATE list \<Rightarrow> 'd partition_state \<Rightarrow> bool \<times> 'd partition_state" where
  "record_gpt i [] s = (True, s)"
| "record_gpt i (c # cs) s =
     (let (ok, s1) = record_partition i PARTITION_SCHEME_GPT (gc_number c) 0 (Some (gc_type_guid c))
            (Some (gc_unique_guid c)) (Some (gc_name c)) (gc_start_lba c) (gc_block_count c) s
      in if ok then record_gpt i cs s1 else (False, s1))"

definition scan_gpt_at :: "nat \<Rightarrow> 'd drivers \<Rightarrow> nat \<Rightarrow> u64 \<Rightarrow> 'd partition_state \<Rightarrow> (nat \<times> 'd partition_state) option" where
  "scan_gpt_at fuel drv i header_lba s = do {
     (r, s1) \<leftarrow> read_gpt_header fuel drv i header_lba s;
     (case r of None \<Rightarrow> Some (0, s1)
      | Some sector \<Rightarrow>
          let h = gpt_header sector in do {
            (c, s2) \<leftarrow> gpt_collect fuel drv i h (unat (entry_count h)) 0 [] 0xFFFFFFFF 0xFFFFFFFF [] s1;
            (case c of None \<Rightarrow> Some (0, s2)
             | Some (crc, candidates) \<Rightarrow>
                 if crc XOR 0xFFFFFFFF \<noteq> entries_crc32 h then Some (0, s2)
                 else
                   let (ok, s3) = record_gpt i candidates s2
                   in Some (if ok then length candidates else 0, s3))
          })
   }"

definition scan_gpt :: "nat \<Rightarrow> 'd drivers \<Rightarrow> nat \<Rightarrow> 'd partition_state \<Rightarrow> (nat \<times> 'd partition_state) option" where
  "scan_gpt fuel drv i s = do {
     (result, s1) \<leftarrow> scan_gpt_at fuel drv i 1 s;
     if result \<noteq> 0 \<or> block_count (devices (pt_blocks s1) ! i) < 2 then Some (result, s1)
     else scan_gpt_at fuel drv i (block_count (devices (pt_blocks s1) ! i) - 1) s1
   }"

text \<open>The four primary entries, from number \<open>index\<close> on: the candidates, and the base and the length of the
  extended partition.\<close>

definition outside :: "u64 \<Rightarrow> u64 \<Rightarrow> u64 \<Rightarrow> bool" where
  "outside blocks start cnt \<longleftrightarrow> blocks \<noteq> 0 \<and> (start \<ge> blocks \<or> cnt > blocks - start)"

fun mbr_primaries ::
  "u64 \<Rightarrow> u32 \<Rightarrow> MBR_PARTITION_ENTRY list \<Rightarrow> MBR_CANDIDATE list \<Rightarrow> u64 \<Rightarrow> u64 \<Rightarrow>
   (MBR_CANDIDATE list \<times> u64 \<times> u64) option" where
  "mbr_primaries blocks index [] candidates base len = Some (candidates, base, len)"
| "mbr_primaries blocks index (e # es) candidates base len =
     (let start = ucast (mbr_first_lba e); cnt = ucast (mbr_sector_count e) in
      if mbr_type e = 0 \<or> mbr_sector_count e = 0 \<or> mbr_type e = 0xEE
      then mbr_primaries blocks (index + 1) es candidates base len
      else if mbr_type_is_extended (mbr_type e) then
        if base \<noteq> 0 \<or> start = 0 \<or> cnt = 0 \<or> outside blocks start cnt then None
        else mbr_primaries blocks (index + 1) es candidates start cnt
      else do {
        candidates1 \<leftarrow> mbr_candidate_add candidates (index + 1) (mbr_type e) start cnt blocks;
        mbr_primaries blocks (index + 1) es candidates1 base len
      })"

text \<open>What the loop over the extended boot records does with one record: the candidates with its
  logical partition, and the address of the next record, 0 at the end.\<close>

definition ebr_record ::
  "u64 \<Rightarrow> u64 \<Rightarrow> u64 \<Rightarrow> u64 \<Rightarrow> u32 \<Rightarrow> bytes \<Rightarrow> MBR_CANDIDATE list \<Rightarrow> (MBR_CANDIDATE list \<times> u64) option" where
  "ebr_record blocks base extended_end ebr_lba number sector candidates =
     (let e = mbr_entry sector 0; f = mbr_entry sector 1;
          start = ebr_lba + ucast (mbr_first_lba e); cnt = ucast (mbr_sector_count e) :: u64
      in if mbr_type e = 0 \<or> mbr_sector_count e = 0 \<or> mbr_type_is_extended (mbr_type e) then None
         else if start < base \<or> start > extended_end \<or> cnt > extended_end - start + 1 then None
         else do {
           candidates1 \<leftarrow> mbr_candidate_add candidates number (mbr_type e) start cnt blocks;
           (if mbr_type f \<noteq> 0 \<or> mbr_sector_count f \<noteq> 0 then
              let next_ebr = base + ucast (mbr_first_lba f) in
              if \<not> mbr_type_is_extended (mbr_type f) \<or> mbr_first_lba f = 0
                 \<or> next_ebr < base \<or> next_ebr > extended_end then None
              else Some (candidates1, next_ebr)
            else Some (candidates1, 0))
         })"

function ebr_chain ::
  "nat \<Rightarrow> 'd drivers \<Rightarrow> nat \<Rightarrow> u64 \<Rightarrow> u64 \<Rightarrow> u64 \<Rightarrow> u64 \<Rightarrow> u64 list \<Rightarrow> u32 \<Rightarrow> MBR_CANDIDATE list \<Rightarrow>
   'd partition_state \<Rightarrow> (MBR_CANDIDATE list option \<times> 'd partition_state) option" where
  "ebr_chain fuel drv i blocks base extended_end ebr_lba visited number candidates s =
     (if ebr_lba = 0 then Some (Some candidates, s)
      else if length visited \<ge> PARTITION_MAX_PER_DISK \<or> ebr_lba < base \<or> ebr_lba > extended_end then Some (None, s)
      else case read_sector fuel drv i ebr_lba s of
        None \<Rightarrow> None
      | Some (None, s1) \<Rightarrow> Some (None, s1)
      | Some (Some sector, s1) \<Rightarrow>
          if sector ! 510 \<noteq> 0x55 \<or> sector ! 511 \<noteq> 0xAA \<or> ebr_lba \<in> set visited then Some (None, s1)
          else (case ebr_record blocks base extended_end ebr_lba number sector candidates of
              None \<Rightarrow> Some (None, s1)
            | Some (candidates1, next_ebr) \<Rightarrow>
                ebr_chain fuel drv i blocks base extended_end next_ebr (visited @ [ebr_lba]) (number + 1)
                  candidates1 s1))"
  by pat_completeness auto
termination
  by (relation "measure (\<lambda>(_, _, _, _, _, _, _, visited, _). PARTITION_MAX_PER_DISK - length visited)") auto

declare ebr_chain.simps [simp del]

fun record_mbr :: "nat \<Rightarrow> MBR_CANDIDATE list \<Rightarrow> 'd partition_state \<Rightarrow> bool \<times> 'd partition_state" where
  "record_mbr i [] s = (True, s)"
| "record_mbr i (c # cs) s =
     (let (ok, s1) = record_partition i PARTITION_SCHEME_MBR (mc_number c) (mc_type c) None None None
            (mc_start_lba c) (mc_block_count c) s
      in if ok then record_mbr i cs s1 else (False, s1))"

definition scan_mbr :: "nat \<Rightarrow> 'd drivers \<Rightarrow> nat \<Rightarrow> bytes \<Rightarrow> 'd partition_state \<Rightarrow> (nat \<times> 'd partition_state) option" where
  "scan_mbr fuel drv i sector s =
     (let blocks = block_count (devices (pt_blocks s) ! i) in
      case mbr_primaries blocks 0 (mbr_entries sector) [] 0 0 of
        None \<Rightarrow> Some (0, s)
      | Some (candidates, base, len) \<Rightarrow> do {
          (r, s1) \<leftarrow> (if base \<noteq> 0 then
              let extended_end = base + len - 1 in
              if list_ex (\<lambda>c. ranges_meet base extended_end (mc_start_lba c) (mc_start_lba c + mc_block_count c - 1))
                   candidates
              then Some (None, s)
              else ebr_chain fuel drv i blocks base extended_end base [] 5 candidates s
            else Some (Some candidates, s));
          (case r of None \<Rightarrow> Some (0, s1)
           | Some found \<Rightarrow>
               let (ok, s2) = record_mbr i found s1
               in Some (if ok then length found else 0, s2))
        })"

definition partition_manager_initialize :: "'d partition_state \<Rightarrow> 'd partition_state" where
  "partition_manager_initialize s = s\<lparr>found_partition_count := 0\<rparr>"

definition partition_scan_device ::
  "nat \<Rightarrow> 'd drivers \<Rightarrow> nat option \<Rightarrow> 'd partition_state \<Rightarrow> (nat \<times> 'd partition_state) option" where
  "partition_scan_device fuel drv device s =
     (case device of None \<Rightarrow> Some (0, s)
      | Some i \<Rightarrow>
          let d = devices (pt_blocks s) ! i in
          if bd_parent d \<noteq> None \<or> logical_block_size d < 512 \<or> logical_block_size d > PARTITION_MAX_BLOCK_SIZE
          then Some (0, s)
          else do {
            (r, s1) \<leftarrow> read_sector fuel drv i 0 s;
            (case r of None \<Rightarrow> Some (0, s1)
             | Some sector \<Rightarrow>
                 if sector ! 510 \<noteq> 0x55 \<or> sector ! 511 \<noteq> 0xAA then Some (0, s1)
                 else if list_ex (\<lambda>e. mbr_type e = 0xEE) (mbr_entries sector) then scan_gpt fuel drv i s1
                 else scan_mbr fuel drv i sector s1)
          })"

fun scan_devices :: "nat \<Rightarrow> 'd drivers \<Rightarrow> nat list \<Rightarrow> nat \<Rightarrow> 'd partition_state \<Rightarrow> (nat \<times> 'd partition_state) option" where
  "scan_devices fuel drv [] found s = Some (found, s)"
| "scan_devices fuel drv (index # rest) found s =
     (let device = block_device_get (of_nat index) (pt_blocks s) in
      case device of None \<Rightarrow> scan_devices fuel drv rest found s
      | Some i \<Rightarrow>
          let d = devices (pt_blocks s) ! i in
          if bd_parent d = None \<and> bd_flags d AND BLOCK_DEVICE_FLAG_OPTICAL = 0 then do {
            (n, s1) \<leftarrow> partition_scan_device fuel drv device s;
            scan_devices fuel drv rest (found + n) s1
          } else scan_devices fuel drv rest found s)"

definition partition_scan_all :: "nat \<Rightarrow> 'd drivers \<Rightarrow> 'd partition_state \<Rightarrow> (nat \<times> 'd partition_state) option" where
  "partition_scan_all fuel drv s =
     scan_devices fuel drv [0 ..< unat (block_device_count (pt_blocks s))] 0 s"

definition partition_count :: "'d partition_state \<Rightarrow> u32" where
  "partition_count s = of_nat (found_partition_count s)"

definition partition_get :: "u32 \<Rightarrow> 'd partition_state \<Rightarrow> ASAS_PARTITION_INFO option" where
  "partition_get index s =
     (if unat index < found_partition_count s then Some (partitions s ! unat index) else None)"

definition partition_find_by_device :: "nat option \<Rightarrow> 'd partition_state \<Rightarrow> ASAS_PARTITION_INFO option" where
  "partition_find_by_device device s =
     find (\<lambda>p. pi_device p = device) (take (found_partition_count s) (partitions s))"

section \<open>Editing an MBR\<close>

text \<open>\<open>mbr_table_valid\<close> from entry number \<open>index\<close> on\<close>

fun mbr_valid_from :: "u64 \<Rightarrow> u32 \<Rightarrow> MBR_PARTITION_ENTRY list \<Rightarrow> MBR_CANDIDATE list \<Rightarrow> bool" where
  "mbr_valid_from blocks index [] candidates = True"
| "mbr_valid_from blocks index (e # es) candidates =
     (if mbr_type e = 0 \<and> mbr_sector_count e = 0 then mbr_valid_from blocks (index + 1) es candidates
      else if mbr_type e = 0 \<or> mbr_sector_count e = 0 \<or> mbr_type e = 0xEE \<or> mbr_type_is_extended (mbr_type e)
      then False
      else (case mbr_candidate_add candidates (index + 1) (mbr_type e) (ucast (mbr_first_lba e))
                   (ucast (mbr_sector_count e)) blocks of
          None \<Rightarrow> False
        | Some candidates1 \<Rightarrow> mbr_valid_from blocks (index + 1) es candidates1))"

definition mbr_table_valid :: "MBR_PARTITION_ENTRY list \<Rightarrow> u64 \<Rightarrow> bool" where
  "mbr_table_valid entries blocks = mbr_valid_from blocks 0 entries []"

text \<open>The new entry of a slot: cleared, or set to a type and a range; \<open>None\<close> when it is refused.\<close>

definition blank_mbr_entry :: MBR_PARTITION_ENTRY where
  "blank_mbr_entry = \<lparr>mbr_status = 0, mbr_first_chs = [0, 0, 0], mbr_type = 0, mbr_last_chs = [0, 0, 0],
     mbr_first_lba = 0, mbr_sector_count = 0\<rparr>"

definition mbr_new_entry :: "MBR_PARTITION_ENTRY \<Rightarrow> u8 \<Rightarrow> u64 \<Rightarrow> u64 \<Rightarrow> bool \<Rightarrow> MBR_PARTITION_ENTRY option" where
  "mbr_new_entry old type start cnt deleting =
     (if deleting then if mbr_type old = 0 then None else Some blank_mbr_entry
      else if type = 0 \<or> type = 0xEE \<or> mbr_type_is_extended type \<or> start = 0 \<or> cnt = 0
              \<or> start > 0xFFFFFFFF \<or> cnt > 0xFFFFFFFF then None
      else Some (old\<lparr>mbr_status := 0, mbr_type := type, mbr_first_lba := ucast start,
             mbr_sector_count := ucast cnt, mbr_first_chs := [0, 0, 0], mbr_last_chs := [0, 0, 0]\<rparr>))"

text \<open>The sector with its table edited and written back.\<close>

definition mbr_edit :: "u64 \<Rightarrow> bytes \<Rightarrow> nat \<Rightarrow> u8 \<Rightarrow> u64 \<Rightarrow> u64 \<Rightarrow> bool \<Rightarrow> bytes option" where
  "mbr_edit blocks sector slot type start cnt deleting =
     (let entries = mbr_entries sector in
      if list_ex (\<lambda>e. mbr_type e = 0xEE) entries then None
      else case mbr_new_entry (entries ! slot) type start cnt deleting of
          None \<Rightarrow> None
        | Some e \<Rightarrow>
            let entries1 = entries[slot := e] in
            if mbr_table_valid entries1 blocks
            then Some (put_bytes (mbr_offset 0) (concat (map mbr_entry_bytes entries1)) sector)
            else None)"

definition partition_mbr_commit ::
  "nat \<Rightarrow> 'd drivers \<Rightarrow> 'v fs_state \<Rightarrow> nat option \<Rightarrow> u32 \<Rightarrow> u8 \<Rightarrow> u64 \<Rightarrow> u64 \<Rightarrow> bool \<Rightarrow>
   'd partition_state \<Rightarrow> (bool \<times> 'd partition_state) option" where
  "partition_mbr_commit fuel drv fs device slot type start cnt deleting s =
     (case device of None \<Rightarrow> Some (False, s)
      | Some i \<Rightarrow>
          let d = devices (pt_blocks s) ! i in
          if bd_parent d \<noteq> None \<or> slot \<ge> 4 \<or> logical_block_size d < 512
             \<or> logical_block_size d > PARTITION_MAX_BLOCK_SIZE
             \<or> block_device_has_capability device BLOCK_DEVICE_FLAG_READ_ONLY (pt_blocks s)
             \<or> filesystem_device_is_mounted (devices (pt_blocks s)) device fs
          then Some (False, s)
          else do {
            (r, s1) \<leftarrow> read_sector fuel drv i 0 s;
            (case r of None \<Rightarrow> Some (False, s1)
             | Some sector \<Rightarrow>
                 if sector ! 510 \<noteq> 0x55 \<or> sector ! 511 \<noteq> 0xAA then Some (False, s1)
                 else case mbr_edit (block_count d) sector (unat slot) type start cnt deleting of
                     None \<Rightarrow> Some (False, s1)
                   | Some sector1 \<Rightarrow> do {
                       (ok, b2) \<leftarrow> block_device_write fuel drv device 0 1 (Some sector1) (pt_blocks s1);
                       if ok then do {
                         (ok1, b3) \<leftarrow> block_device_flush fuel drv device b2;
                         Some (ok1, s1\<lparr>pt_blocks := b3\<rparr>)
                       } else Some (False, s1\<lparr>pt_blocks := b2\<rparr>)
                     })
          })"

definition partition_mbr_create ::
  "nat \<Rightarrow> 'd drivers \<Rightarrow> 'v fs_state \<Rightarrow> nat option \<Rightarrow> u32 \<Rightarrow> u8 \<Rightarrow> u64 \<Rightarrow> u64 \<Rightarrow>
   'd partition_state \<Rightarrow> (bool \<times> 'd partition_state) option" where
  "partition_mbr_create fuel drv fs device slot type start cnt s =
     (case device of None \<Rightarrow> Some (False, s)
      | Some i \<Rightarrow>
          if slot \<ge> 4 then Some (False, s)
          else do {
            (r, s1) \<leftarrow> read_sector fuel drv i 0 s;
            (case r of None \<Rightarrow> Some (False, s1)
             | Some sector \<Rightarrow>
                 if mbr_type (mbr_entry sector (unat slot)) \<noteq> 0 \<or> mbr_sector_count (mbr_entry sector (unat slot)) \<noteq> 0
                 then Some (False, s1)
                 else partition_mbr_commit fuel drv fs device slot type start cnt False s1)
          })"

definition partition_mbr_delete ::
  "nat \<Rightarrow> 'd drivers \<Rightarrow> 'v fs_state \<Rightarrow> nat option \<Rightarrow> u32 \<Rightarrow> 'd partition_state \<Rightarrow> (bool \<times> 'd partition_state) option" where
  "partition_mbr_delete fuel drv fs device slot = partition_mbr_commit fuel drv fs device slot 0 0 0 True"

definition partition_mbr_resize ::
  "nat \<Rightarrow> 'd drivers \<Rightarrow> 'v fs_state \<Rightarrow> nat option \<Rightarrow> u32 \<Rightarrow> u64 \<Rightarrow> u64 \<Rightarrow>
   'd partition_state \<Rightarrow> (bool \<times> 'd partition_state) option" where
  "partition_mbr_resize fuel drv fs device slot start cnt s =
     (case device of None \<Rightarrow> Some (False, s)
      | Some i \<Rightarrow>
          if slot \<ge> 4 then Some (False, s)
          else do {
            (r, s1) \<leftarrow> read_sector fuel drv i 0 s;
            (case r of None \<Rightarrow> Some (False, s1)
             | Some sector \<Rightarrow>
                 let e = mbr_entry sector (unat slot) in
                 if mbr_type e = 0 \<or> mbr_sector_count e = 0 then Some (False, s1)
                 else partition_mbr_commit fuel drv fs device slot (mbr_type e) start cnt False s1)
          })"

section \<open>Editing a GPT\<close>

definition gpt_layouts_match :: "GPT_HEADER \<Rightarrow> GPT_HEADER \<Rightarrow> bool" where
  "gpt_layouts_match primary backup \<longleftrightarrow>
     current_lba primary = 1 \<and> backup_lba primary = current_lba backup
     \<and> backup_lba backup = current_lba primary
     \<and> first_usable_lba primary = first_usable_lba backup
     \<and> last_usable_lba primary = last_usable_lba backup
     \<and> entry_count primary = entry_count backup \<and> entry_size primary = entry_size backup
     \<and> guid_equal (disk_guid primary) (disk_guid backup)"

text \<open>Entry number \<open>index\<close> of an entry array.\<close>

definition nth_entry :: "GPT_HEADER \<Rightarrow> bytes \<Rightarrow> nat \<Rightarrow> GPT_ENTRY" where
  "nth_entry h entries index = gpt_entry (index * unat (entry_size h)) entries"

definition gpt_entry_fits :: "GPT_HEADER \<Rightarrow> GPT_ENTRY \<Rightarrow> bool" where
  "gpt_entry_fits h e \<longleftrightarrow>
     \<not> (ge_first_lba e < first_usable_lba h \<or> ge_last_lba e > last_usable_lba h \<or> ge_last_lba e < ge_first_lba e)"

definition gpt_entries_valid :: "GPT_HEADER \<Rightarrow> bytes \<Rightarrow> bool" where
  "gpt_entries_valid h entries =
     list_all (\<lambda>index.
       let e = nth_entry h entries index in
       guid_is_zero (ge_type_guid e)
       \<or> gpt_entry_fits h e
         \<and> list_all (\<lambda>other.
             let x = nth_entry h entries other in
             guid_is_zero (ge_type_guid x)
             \<or> \<not> ranges_meet (ge_first_lba e) (ge_last_lba e) (ge_first_lba x) (ge_last_lba x)) [0 ..< index])
       [0 ..< unat (entry_count h)]"

definition gpt_update_header_crc :: "bytes \<Rightarrow> u32 \<Rightarrow> bytes" where
  "gpt_update_header_crc sector crc =
     (let s1 = put_bytes 88 (le_bytes 4 (unat crc)) sector;
          s2 = put_bytes 16 (replicate 4 0) s1;
          c = crc32_update 0xFFFFFFFF (take (unat (header_size (gpt_header s2))) s2) XOR 0xFFFFFFFF
      in put_bytes 16 (le_bytes 4 (unat c)) s2)"

datatype gpt_operation = Gpt_create | Gpt_delete | Gpt_resize

definition put_range :: "nat \<Rightarrow> u64 \<Rightarrow> u64 \<Rightarrow> bytes \<Rightarrow> bytes" where
  "put_range offset start cnt entries =
     put_bytes (offset + 40) (le_bytes 8 (unat (start + cnt - 1)))
       (put_bytes (offset + 32) (le_bytes 8 (unat start)) entries)"

text \<open>The entry array with one slot edited, \<open>None\<close> when the change is refused.\<close>

definition gpt_edit ::
  "GPT_HEADER \<Rightarrow> bytes \<Rightarrow> nat \<Rightarrow> bytes option \<Rightarrow> bytes option \<Rightarrow> u16 list option \<Rightarrow> u64 \<Rightarrow> u64 \<Rightarrow> gpt_operation \<Rightarrow>
   bytes option" where
  "gpt_edit h entries slot type_guid unique_guid name start cnt operation =
     (let offset = slot * unat (entry_size h);
          free = guid_is_zero (ge_type_guid (gpt_entry offset entries));
          cleared = put_bytes offset (replicate (unat (entry_size h)) 0) entries;
          bad_range = (cnt = 0 \<or> cnt - 1 > NOT 0 - start)
      in case operation of
           Gpt_create \<Rightarrow>
             (case (type_guid, unique_guid) of
                (Some tg, Some ug) \<Rightarrow>
                  if \<not> free \<or> guid_is_zero tg \<or> guid_is_zero ug \<or> bad_range then None
                  else
                    let e1 = put_bytes (offset + 16) (take 16 ug) (put_bytes offset (take 16 tg) cleared);
                        e2 = (case name of None \<Rightarrow> e1
                              | Some n \<Rightarrow> put_bytes (offset + 56) (concat (map (\<lambda>c. le_bytes 2 (unat c)) (take 36 n))) e1)
                    in Some (put_range offset start cnt e2)
              | _ \<Rightarrow> None)
         | Gpt_delete \<Rightarrow> if free then None else Some cleared
         | Gpt_resize \<Rightarrow> if free \<or> bad_range then None else Some (put_range offset start cnt entries))"

text \<open>Writes that stop at the first failure, and writes whose results are ignored.\<close>

fun write_list ::
  "nat \<Rightarrow> 'd drivers \<Rightarrow> nat \<Rightarrow> (u64 \<times> u32 \<times> bytes) list \<Rightarrow> 'd block_state \<Rightarrow> (bool \<times> 'd block_state) option" where
  "write_list fuel drv i [] b = Some (True, b)"
| "write_list fuel drv i ((lba, cnt, data) # rest) b = do {
     (ok, b1) \<leftarrow> block_device_write fuel drv (Some i) lba cnt (Some data) b;
     if ok then write_list fuel drv i rest b1 else Some (False, b1)
   }"

fun write_back ::
  "nat \<Rightarrow> 'd drivers \<Rightarrow> nat \<Rightarrow> (u64 \<times> u32 \<times> bytes) list \<Rightarrow> 'd block_state \<Rightarrow> 'd block_state option" where
  "write_back fuel drv i [] b = map_option snd (block_device_flush fuel drv (Some i) b)"
| "write_back fuel drv i ((lba, cnt, data) # rest) b = do {
     (ok, b1) \<leftarrow> block_device_write fuel drv (Some i) lba cnt (Some data) b;
     write_back fuel drv i rest b1
   }"

text \<open>Writes followed by a flush; when one of them fails, the old contents are written back.\<close>

definition write_or_restore ::
  "nat \<Rightarrow> 'd drivers \<Rightarrow> nat \<Rightarrow> (u64 \<times> u32 \<times> bytes) list \<Rightarrow> (u64 \<times> u32 \<times> bytes) list \<Rightarrow> 'd block_state \<Rightarrow>
   (bool \<times> 'd block_state) option" where
  "write_or_restore fuel drv i new old b = do {
     (ok, b1) \<leftarrow> write_list fuel drv i new b;
     (ok1, b2) \<leftarrow> (if ok then block_device_flush fuel drv (Some i) b1 else Some (False, b1));
     if ok1 then Some (True, b2)
     else do { b3 \<leftarrow> write_back fuel drv i old b2; Some (False, b3) }
   }"

text \<open>The part of \<open>partition_gpt_commit\<close> between the allocation of the two buffers and \<open>cleanup\<close>.\<close>

definition gpt_commit_body ::
  "nat \<Rightarrow> 'd drivers \<Rightarrow> nat \<Rightarrow> bytes \<Rightarrow> bytes \<Rightarrow> u64 \<Rightarrow> u32 \<Rightarrow> (bytes \<Rightarrow> bytes option) \<Rightarrow> 'd partition_state \<Rightarrow>
   (bool \<times> 'd partition_state) option" where
  "gpt_commit_body fuel drv i primary_sector backup_sector entries_bytes entries_sectors edit s =
     (let primary = gpt_header primary_sector; backup = gpt_header backup_sector;
          bsize = logical_block_size (devices (pt_blocks s) ! i);
          len = unat entries_sectors * unat bsize
      in do {
        (ok, buf, b1) \<leftarrow> block_device_read fuel drv (Some i) (entries_lba primary) entries_sectors
          (Some (replicate len 0)) (pt_blocks s);
        if \<not> ok then Some (False, s\<lparr>pt_blocks := b1\<rparr>) else do {
        (ok1, buf1, b2) \<leftarrow> block_device_read fuel drv (Some i) (entries_lba backup) entries_sectors
          (Some (replicate len 0)) b1;
        let s2 = s\<lparr>pt_blocks := b2\<rparr>; entries = the buf;
            crc = crc32_update 0xFFFFFFFF (take (unat entries_bytes) entries) XOR 0xFFFFFFFF;
            psec = take (unat bsize) primary_sector; bsec = take (unat bsize) backup_sector in
        if \<not> ok1 \<or> take (unat entries_bytes) entries \<noteq> take (unat entries_bytes) (the buf1)
           \<or> crc \<noteq> entries_crc32 primary \<or> crc \<noteq> entries_crc32 backup
        then Some (False, s2)
        else (case edit entries of None \<Rightarrow> Some (False, s2)
          | Some entries1 \<Rightarrow>
              if \<not> gpt_entries_valid primary entries1 then Some (False, s2)
              else
                let crc1 = crc32_update 0xFFFFFFFF (take (unat entries_bytes) entries1) XOR 0xFFFFFFFF;
                    old_backup = [(entries_lba backup, entries_sectors, entries), (current_lba backup, 1, bsec)];
                    old_primary = [(entries_lba primary, entries_sectors, entries), (current_lba primary, 1, psec)]
                in do {
                  (w, b3) \<leftarrow> write_or_restore fuel drv i
                    [(entries_lba backup, entries_sectors, entries1),
                     (current_lba backup, 1, gpt_update_header_crc backup_sector crc1)] old_backup b2;
                  if \<not> w then Some (False, s\<lparr>pt_blocks := b3\<rparr>) else do {
                  (w1, b4) \<leftarrow> write_or_restore fuel drv i
                    [(entries_lba primary, entries_sectors, entries1),
                     (current_lba primary, 1, gpt_update_header_crc primary_sector crc1)]
                    (old_primary @ old_backup) b3;
                  Some (w1, s\<lparr>pt_blocks := b4\<rparr>) } }) } })"

definition partition_gpt_commit ::
  "nat \<Rightarrow> 'd drivers \<Rightarrow> 'v fs_state \<Rightarrow> nat option \<Rightarrow> u32 \<Rightarrow> bytes option \<Rightarrow> bytes option \<Rightarrow> u16 list option \<Rightarrow> u64 \<Rightarrow> u64 \<Rightarrow>
   gpt_operation \<Rightarrow> heap_state \<Rightarrow> 'd partition_state \<Rightarrow> (bool \<times> heap_state \<times> 'd partition_state) option" where
  "partition_gpt_commit fuel drv fs device slot type_guid unique_guid name start cnt operation heap s =
     (case device of None \<Rightarrow> Some (False, heap, s)
      | Some i \<Rightarrow>
          let d = devices (pt_blocks s) ! i in
          if bd_parent d \<noteq> None \<or> logical_block_size d < 512 \<or> logical_block_size d > PARTITION_MAX_BLOCK_SIZE
             \<or> block_device_has_capability device BLOCK_DEVICE_FLAG_READ_ONLY (pt_blocks s)
             \<or> filesystem_device_is_mounted (devices (pt_blocks s)) device fs
          then Some (False, heap, s)
          else do {
            (r, s1) \<leftarrow> read_gpt_header fuel drv i 1 s;
            (case r of None \<Rightarrow> Some (False, heap, s1)
             | Some primary_sector \<Rightarrow> do {
                 (r1, s2) \<leftarrow> read_gpt_header fuel drv i (backup_lba (gpt_header primary_sector)) s1;
                 (case r1 of None \<Rightarrow> Some (False, heap, s2)
                  | Some backup_sector \<Rightarrow>
                      let primary = gpt_header primary_sector;
                          entries_bytes = ucast (entry_count primary) * ucast (entry_size primary) :: u64;
                          entries_sectors = ucast ((entries_bytes + ucast (logical_block_size d) - 1)
                            div ucast (logical_block_size d)) :: u32;
                          request = ucast entries_sectors * ucast (logical_block_size d) :: u64
                      in if \<not> gpt_layouts_match primary (gpt_header backup_sector) \<or> slot \<ge> entry_count primary
                            \<or> entries_bytes = 0 \<or> entries_bytes > 128 * 1024
                         then Some (False, heap, s2)
                         else do {
                           (p, heap1) \<leftarrow> kmalloc request heap;
                           (q, heap2) \<leftarrow> kmalloc request heap1;
                           (result, s3) \<leftarrow> (if p = 0 \<or> q = 0 then Some (False, s2)
                             else gpt_commit_body fuel drv i primary_sector backup_sector entries_bytes entries_sectors
                               (\<lambda>entries. gpt_edit primary entries (unat slot) type_guid unique_guid name start cnt
                                  operation) s2);
                           heap3 \<leftarrow> kfree q heap2;
                           heap4 \<leftarrow> kfree p heap3;
                           Some (result, heap4, s3)
                         }) })
          })"

definition partition_gpt_create ::
  "nat \<Rightarrow> 'd drivers \<Rightarrow> 'v fs_state \<Rightarrow> nat option \<Rightarrow> u32 \<Rightarrow> bytes option \<Rightarrow> bytes option \<Rightarrow> u16 list option \<Rightarrow> u64 \<Rightarrow> u64 \<Rightarrow>
   heap_state \<Rightarrow> 'd partition_state \<Rightarrow> (bool \<times> heap_state \<times> 'd partition_state) option" where
  "partition_gpt_create fuel drv fs device slot type_guid unique_guid name start cnt =
     partition_gpt_commit fuel drv fs device slot type_guid unique_guid name start cnt Gpt_create"

definition partition_gpt_delete ::
  "nat \<Rightarrow> 'd drivers \<Rightarrow> 'v fs_state \<Rightarrow> nat option \<Rightarrow> u32 \<Rightarrow>
   heap_state \<Rightarrow> 'd partition_state \<Rightarrow> (bool \<times> heap_state \<times> 'd partition_state) option" where
  "partition_gpt_delete fuel drv fs device slot =
     partition_gpt_commit fuel drv fs device slot None None None 0 0 Gpt_delete"

definition partition_gpt_resize ::
  "nat \<Rightarrow> 'd drivers \<Rightarrow> 'v fs_state \<Rightarrow> nat option \<Rightarrow> u32 \<Rightarrow> u64 \<Rightarrow> u64 \<Rightarrow>
   heap_state \<Rightarrow> 'd partition_state \<Rightarrow> (bool \<times> heap_state \<times> 'd partition_state) option" where
  "partition_gpt_resize fuel drv fs device slot start cnt =
     partition_gpt_commit fuel drv fs device slot None None None start cnt Gpt_resize"

end
