(* ===== verification/Partition_Scan.thy ===== *)
theory Partition_Scan
  imports Partition_Table
begin

text \<open>
  The scan of \<^verbatim>\<open>src/kernel/partition.c\<close> returns, and the partitions it records never overlap and stay
  within their disks, whatever the sectors hold.
\<close>

section \<open>Reading keeps the device table\<close>

definition same_table :: "'d block_state \<Rightarrow> 'd block_state \<Rightarrow> bool" where
  "same_table s t \<longleftrightarrow> devices t = devices s \<and> device_count t = device_count s"

lemma same_table_refl [simp]: "same_table s s"
  by (simp add: same_table_def)

lemma same_table_trans: "same_table s t \<Longrightarrow> same_table t u \<Longrightarrow> same_table s u"
  by (simp add: same_table_def)

lemma same_table_simps [simp]:
  "same_table s (count_event d f t) = same_table s t"
  "same_table s (fill_entry slot d data t) = same_table s t"
  "same_table s (t\<lparr>driver_state := x\<rparr>) = same_table s t"
  "same_table s (t\<lparr>cache_entries := y\<rparr>) = same_table s t"
  by (simp_all add: same_table_def count_event_def fill_entry_def Let_def)

lemma same_table_allocate: "cache_allocate d lba t = (r, t') \<Longrightarrow> same_table s t' = same_table s t"
  by (auto simp: cache_allocate_def Let_def same_table_def split: if_splits)

lemma same_table_store [simp]: "same_table s (cache_store d lba data t) = same_table s t"
proof -
  obtain r t' where a: "cache_allocate d lba t = (r, t')" by fastforce
  then show ?thesis
    using same_table_allocate [OF a, of s]
    by (cases r) (simp_all add: cache_store_def split: option.splits)
qed

text \<open>An operation of a driver that returns and keeps the table.\<close>

definition harmless :: "'d block_state \<Rightarrow> ('d block_state \<Rightarrow> ('r option \<times> 'd block_state) option) \<Rightarrow> bool" where
  "harmless s f \<longleftrightarrow> (\<forall>t. same_table s t \<longrightarrow> (\<exists>r t'. f t = Some (r, t') \<and> same_table s t'))"

lemma harmless_retry: "harmless s f \<Longrightarrow> harmless s (with_retry f d)"
  unfolding harmless_def
proof (intro allI impI)
  fix t assume h: "\<forall>t. same_table s t \<longrightarrow> (\<exists>r t'. f t = Some (r, t') \<and> same_table s t')" and t: "same_table s t"
  have step: "\<exists>r t'. f u = Some (r, t') \<and> (case r of None \<Rightarrow> same_table s t' | Some x \<Rightarrow> same_table s t')"
    if u: "same_table s u" for u
  proof -
    obtain r t' where "f u = Some (r, t')" "same_table s t'" using h u by blast
    then show ?thesis by (cases r) auto
  qed
  obtain r t' where "with_retry f d t = Some (r, t')"
    "case r of None \<Rightarrow> same_table s t' | Some x \<Rightarrow> same_table s t'"
    using with_retry_rule [where P = "same_table s" and Q = "\<lambda>_. same_table s" and f = f and d = d, OF t step]
    by auto
  then show "\<exists>r t'. with_retry f d t = Some (r, t') \<and> same_table s t'" by (cases r) auto
qed

lemma read_block_harmless:
  assumes "\<And>l. harmless s (rd l)"
  shows "harmless s (read_block rd d lba)"
  unfolding harmless_def
proof (intro allI impI)
  fix t assume t: "same_table s t"
  let ?t = "count_event d (\<lambda>t. t\<lparr>cache_misses := cache_misses t + 1\<rparr>) t"
  have "same_table s ?t" using t by simp
  moreover have "harmless s (with_retry (rd lba) d)" using assms by (rule harmless_retry)
  ultimately obtain r t' where w: "with_retry (rd lba) d ?t = Some (r, t')" "same_table s t'"
    unfolding harmless_def by blast
  show "\<exists>r t'. read_block rd d lba t = Some (r, t') \<and> same_table s t'"
  proof (cases "cache_find d lba t")
    case None
    then show ?thesis using w by (cases r) (simp_all add: read_block_def)
  next
    case (Some i)
    then show ?thesis using t by (simp add: read_block_def)
  qed
qed

lemma read_ahead_harmless:
  assumes "\<And>l. harmless s (rd l)" and t: "same_table s t"
  shows "\<exists>t'. read_ahead rd d lba t = Some t' \<and> same_table s t'"
proof -
  obtain r t1 where a: "cache_allocate d (lba + 1) t = (r, t1)" by fastforce
  have t1: "same_table s t1" using same_table_allocate [OF a] t by blast
  have "harmless s (with_retry (rd (lba + 1)) d)" using assms(1) by (rule harmless_retry)
  then obtain q t2 where w: "with_retry (rd (lba + 1)) d t1 = Some (q, t2)" "same_table s t2"
    unfolding harmless_def using t1 by blast
  show ?thesis
    using a w t t1 by (cases r; cases q) (simp_all add: read_ahead_def)
qed

lemma read_loop_harmless:
  assumes h: "\<And>l. harmless s (rd l)" and "same_table s t"
  shows "\<exists>ok b t'. read_loop rd d lba n index buffer t = Some (ok, b, t') \<and> same_table s t'"
  using assms(2)
proof (induction n arbitrary: index buffer t)
  case (Suc n)
  obtain r t1 where r: "read_block rd d (lba + ucast index) t = Some (r, t1)" "same_table s t1"
    using read_block_harmless [where rd = rd and d = d, OF h] Suc.prems unfolding harmless_def by blast
  obtain t2 where a: "(if n = 0 then read_ahead rd d (lba + ucast index) t1 else Some t1) = Some t2" "same_table s t2"
    using read_ahead_harmless [where rd = rd and d = d and lba = "lba + ucast index", OF h r(2)] r(2) by (cases "n = 0") auto
  show ?case
  proof (cases r)
    case None
    then show ?thesis using r by auto
  next
    case (Some data)
    then show ?thesis using r(1) a(1) Suc.IH [OF a(2)] by (simp add: Let_def)
  qed
qed auto

lemma read_driver_returns:
  assumes "bd_ops (devices s ! i) = Driver_ops n"
  shows "\<exists>ok b s'. block_device_read (Suc fuel) drv (Some i) lba cnt (Some buffer) s = Some (ok, Some b, s')
    \<and> same_table s s'"
proof (cases "request_in_bounds (devices s ! i) lba cnt \<and> has_read drv (devices s ! i)")
  case True
  have h: "harmless s (driver_read drv n (devices s ! i) l 1)" for l
    by (auto simp: harmless_def driver_read_def split: prod.splits)
  let ?s1 = "count_event (devices s ! i) (\<lambda>t. t\<lparr>read_ops := read_ops t + 1,
    blocks_read := blocks_read t + ucast cnt\<rparr>) s"
  obtain ok b s' where "read_loop (\<lambda>l. driver_read drv n (devices s ! i) l 1) (devices s ! i) lba (unat cnt) 0 buffer
      ?s1 = Some (ok, b, s')" "same_table s s'"
    using read_loop_harmless [where rd = "\<lambda>l. driver_read drv n (devices s ! i) l 1", OF h,
      of ?s1 "devices s ! i" lba "unat cnt" 0 buffer] by auto
  then show ?thesis using True assms by (simp add: Let_def)
next
  case False
  then show ?thesis by (auto simp: Let_def reject_def)
qed

section \<open>Ranges of blocks\<close>

text \<open>A range that is not empty and does not wrap around.\<close>

definition range_ok :: "u64 \<Rightarrow> u64 \<Rightarrow> bool" where
  "range_ok start cnt \<longleftrightarrow> cnt \<noteq> 0 \<and> unat start + unat cnt \<le> 2 ^ 64"

definition disjoint :: "u64 \<Rightarrow> u64 \<Rightarrow> u64 \<Rightarrow> u64 \<Rightarrow> bool" where
  "disjoint a m b n \<longleftrightarrow> unat a + unat m \<le> unat b \<or> unat b + unat n \<le> unat a"

lemma unat_pos_64: "x \<noteq> 0 \<Longrightarrow> 0 < unat x" for x :: u64
  by (simp add: unat_gt_0)

lemma range_end: "range_ok start cnt \<Longrightarrow> unat (start + cnt - 1) = unat start + unat cnt - 1"
proof -
  assume r: "range_ok start cnt"
  then have p: "0 < unat cnt" by (simp add: range_ok_def unat_pos_64)
  have c: "unat (cnt - 1) = unat cnt - 1" using r by (intro unat_minus_one) (simp add: range_ok_def)
  have e: "start + cnt - 1 = start + (cnt - 1)" by simp
  have "unat (start + (cnt - 1)) = unat start + unat (cnt - 1)"
    by (rule unat_add_64) (use r p c in \<open>simp add: range_ok_def, linarith\<close>)
  then show ?thesis unfolding e using c p by simp
qed

lemma ranges_meet_iff:
  assumes "range_ok a m" "range_ok b n"
  shows "ranges_meet a (a + m - 1) b (b + n - 1) \<longleftrightarrow> \<not> disjoint a m b n"
proof -
  have "0 < unat m" "0 < unat n" using assms by (simp_all add: range_ok_def unat_pos_64)
  then show ?thesis
    unfolding ranges_meet_def disjoint_def word_le_nat_alt range_end [OF assms(1)] range_end [OF assms(2)]
    by linarith
qed

lemma range_within:
  assumes "start < blocks" "cnt \<le> blocks - start" "cnt \<noteq> 0"
  shows "range_ok start cnt" "unat start + unat cnt \<le> unat blocks"
proof -
  have "unat (blocks - start) = unat blocks - unat start" using assms(1) by (intro unat_sub) simp
  then show u: "unat start + unat cnt \<le> unat blocks"
    using assms(1,2) by (simp add: word_le_nat_alt word_less_nat_alt)
  show "range_ok start cnt"
    using u assms(3) unat_less_64 [of blocks] unfolding range_ok_def by (simp del: unat_less_64)
qed

section \<open>The recorded partitions\<close>

text \<open>A recorded partition: it is on a disk of the table, starts after its first block, does not wrap
  around and ends before the disk does when its size is known, and the block device registered for
  it covers exactly its range of that disk.\<close>

definition recorded_ok :: "'d block_state \<Rightarrow> ASAS_PARTITION_INFO \<Rightarrow> bool" where
  "recorded_ok b p \<longleftrightarrow> pi_parent p < device_count b \<and> pi_start_lba p \<noteq> 0
     \<and> range_ok (pi_start_lba p) (pi_block_count p)
     \<and> (block_count (devices b ! pi_parent p) \<noteq> 0 \<longrightarrow>
          unat (pi_start_lba p) + unat (pi_block_count p) \<le> unat (block_count (devices b ! pi_parent p)))
     \<and> (\<exists>j < device_count b. pi_device p = Some j \<and> bd_parent (devices b ! j) = Some (pi_parent p)
          \<and> start_lba (devices b ! j) = pi_start_lba p \<and> block_count (devices b ! j) = pi_block_count p)"

definition found :: "'d partition_state \<Rightarrow> ASAS_PARTITION_INFO list" where
  "found s = take (found_partition_count s) (partitions s)"

definition apart :: "ASAS_PARTITION_INFO \<Rightarrow> ASAS_PARTITION_INFO \<Rightarrow> bool" where
  "apart p q \<longleftrightarrow> (pi_parent p = pi_parent q \<longrightarrow>
     disjoint (pi_start_lba p) (pi_block_count p) (pi_start_lba q) (pi_block_count q))"

text \<open>The device table: disks are served by drivers.\<close>

definition table_ok :: "'d block_state \<Rightarrow> bool" where
  "table_ok b \<longleftrightarrow> length (devices b) = 32 \<and> device_count b \<le> 32
     \<and> (\<forall>i < device_count b. bd_parent (devices b ! i) = None \<longrightarrow> (\<exists>n. bd_ops (devices b ! i) = Driver_ops n))"

definition scan_inv :: "'d partition_state \<Rightarrow> bool" where
  "scan_inv s \<longleftrightarrow> table_ok (pt_blocks s) \<and> length (partitions s) = 32 \<and> found_partition_count s \<le> 32
     \<and> (\<forall>p \<in> set (found s). recorded_ok (pt_blocks s) p) \<and> sorted_wrt apart (found s)"

lemma scan_inv_same:
  assumes "scan_inv s" "same_table (pt_blocks s) b"
  shows "scan_inv (s\<lparr>pt_blocks := b\<rparr>)"
  using assms by (simp add: scan_inv_def same_table_def table_ok_def recorded_ok_def found_def)

lemma register_partition_cases:
  assumes "block_device_register_partition (Some p) start cnt name flags s = (r, s')"
    "length (devices s) = 32"
  shows "r = None \<and> s' = s \<or> (r = Some (device_count s) \<and> device_count s < 32
    \<and> device_count s' = Suc (device_count s) \<and> length (devices s') = 32
    \<and> (\<forall>i. i \<noteq> device_count s \<longrightarrow> devices s' ! i = devices s ! i)
    \<and> bd_parent (devices s' ! device_count s) = Some p \<and> start_lba (devices s' ! device_count s) = start
    \<and> block_count (devices s' ! device_count s) = cnt)"
  using assms
  by (auto simp: block_device_register_partition_def block_device_register_def Let_def BLOCK_DEVICE_MAX_COUNT_def
      split: if_splits)

lemma recorded_ok_register:
  assumes "recorded_ok s q" "device_count s' = Suc (device_count s)"
    "\<forall>i. i \<noteq> device_count s \<longrightarrow> devices s' ! i = devices s ! i"
  shows "recorded_ok s' q"
proof -
  have "devices s' ! i = devices s ! i" if "i < device_count s" for i using assms(3) that by auto
  then show ?thesis using assms(1,2) unfolding recorded_ok_def by (auto simp: less_Suc_eq)
qed

lemma table_ok_register:
  assumes "table_ok s" "device_count s' = Suc (device_count s)" "device_count s < 32" "length (devices s') = 32"
    "\<forall>i. i \<noteq> device_count s \<longrightarrow> devices s' ! i = devices s ! i" "bd_parent (devices s' ! device_count s) = Some p"
  shows "table_ok s'"
  using assms by (auto simp: table_ok_def less_Suc_eq)

lemma record_partition_inv:
  assumes inv: "scan_inv s" and par: "par < device_count (pt_blocks s)"
    and range: "cnt \<noteq> 0 \<longrightarrow> range_ok start cnt"
    and rec: "record_partition par scheme number type tg ug name start cnt s = (ok, s')"
  shows "scan_inv s' \<and> device_count (pt_blocks s) \<le> device_count (pt_blocks s')
    \<and> (\<forall>i < device_count (pt_blocks s). devices (pt_blocks s') ! i = devices (pt_blocks s) ! i)"
proof -
  let ?b = "pt_blocks s" and ?n = "found_partition_count s"
  let ?d = "devices ?b ! par"
  obtain r b where reg: "block_device_register_partition (Some par) start cnt
      (make_partition_name (bd_name ?d) number) 0 ?b = (r, b)" by fastforce
  have l: "length (devices ?b) = 32" using inv by (simp add: scan_inv_def table_ok_def)
  note rc = register_partition_cases [OF reg l]
  show ?thesis
  proof (cases "s' = s")
    case True
    then show ?thesis using inv by simp
  next
    case False
    then have g: "?n < 32" "cnt \<noteq> 0" "start \<noteq> 0"
      "block_count ?d \<noteq> 0 \<Longrightarrow> start < block_count ?d \<and> cnt \<le> block_count ?d - start"
      "\<not> list_ex (\<lambda>p. pi_parent p = par \<and> ranges_meet start (start + cnt - 1) (pi_start_lba p)
         (pi_start_lba p + pi_block_count p - 1)) (found s)"
      using rec reg by (auto simp: record_partition_def Let_def BLOCK_DEVICE_MAX_COUNT_def found_def split: if_splits)
    have ro: "range_ok start cnt" using range g(2) by blast
    show ?thesis
    proof (cases r)
      case None
      then have "b = ?b" using rc by blast
      then have "s' = s\<lparr>partitions := (partitions s)[?n := (partitions s ! ?n)\<lparr>pi_device := None\<rparr>]\<rparr>"
        using rec reg None False by (auto simp: record_partition_def Let_def split: if_splits)
      then show ?thesis using inv by (simp add: scan_inv_def found_def)
    next
      case (Some j)
      let ?p = "partition_info j par scheme number type tg ug name start cnt"
      have p: "pi_parent ?p = par" "pi_start_lba ?p = start" "pi_block_count ?p = cnt" "pi_device ?p = Some j"
        by (simp_all add: partition_info_def Let_def split: prod.splits)
      have s': "s' = s\<lparr>pt_blocks := b, found_partition_count := ?n + 1, partitions := (partitions s)[?n := ?p]\<rparr>"
        using rec reg Some False by (auto simp: record_partition_def Let_def split: if_splits)
      have b: "j = device_count ?b" "device_count ?b < 32" "device_count b = Suc (device_count ?b)"
        "length (devices b) = 32" "\<forall>i. i \<noteq> device_count ?b \<longrightarrow> devices b ! i = devices ?b ! i"
        "bd_parent (devices b ! j) = Some par" "start_lba (devices b ! j) = start" "block_count (devices b ! j) = cnt"
        using rc Some by auto
      have f: "found s' = found s @ [?p]"
        using inv g(1) by (simp add: s' found_def scan_inv_def take_Suc_conv_app_nth)
      have "unat start + unat cnt \<le> unat (block_count ?d)" if "block_count ?d \<noteq> 0"
        using range_within(2) g(2,4) that by blast
      then have "recorded_ok b ?p"
        using b par p ro g(3) by (auto simp: recorded_ok_def)
      moreover have "\<forall>q \<in> set (found s). recorded_ok b q"
        using inv recorded_ok_register [OF _ b(3,5)] by (auto simp: scan_inv_def)
      moreover have "table_ok b" using table_ok_register [OF _ b(3,2,4,5)] b(1,6) inv by (auto simp: scan_inv_def)
      moreover have "apart q ?p" if q: "q \<in> set (found s)" for q
      proof -
        have "range_ok (pi_start_lba q) (pi_block_count q)" using inv q by (auto simp: scan_inv_def recorded_ok_def)
        then show ?thesis
          using g(5) q ranges_meet_iff [OF ro, of "pi_start_lba q" "pi_block_count q"] p
          by (auto simp: apart_def disjoint_def list_ex_iff)
      qed
      ultimately show ?thesis
        using inv g(1) b(3,5) f by (auto simp: scan_inv_def s' sorted_wrt_append found_def)
    qed
  qed
qed

section \<open>Scanning\<close>

text \<open>What every step of a scan does: it keeps the invariant and only adds devices.\<close>

definition grown :: "'d partition_state \<Rightarrow> 'd partition_state \<Rightarrow> bool" where
  "grown s s' \<longleftrightarrow> scan_inv s' \<and> device_count (pt_blocks s) \<le> device_count (pt_blocks s')
     \<and> (\<forall>i < device_count (pt_blocks s). devices (pt_blocks s') ! i = devices (pt_blocks s) ! i)"

definition disk :: "nat \<Rightarrow> 'd partition_state \<Rightarrow> bool" where
  "disk i s \<longleftrightarrow> i < device_count (pt_blocks s) \<and> bd_parent (devices (pt_blocks s) ! i) = None"

lemma grown_refl: "scan_inv s \<Longrightarrow> grown s s"
  by (simp add: grown_def)

lemma grown_trans: "grown s t \<Longrightarrow> grown t u \<Longrightarrow> grown s u"
  by (auto simp: grown_def)

lemma grown_inv: "grown s t \<Longrightarrow> scan_inv t"
  by (simp add: grown_def)

lemma grown_disk: "grown s t \<Longrightarrow> disk i s \<Longrightarrow> disk i t"
  by (auto simp: grown_def disk_def)

lemma grown_same: "scan_inv s \<Longrightarrow> same_table (pt_blocks s) b \<Longrightarrow> grown s (s\<lparr>pt_blocks := b\<rparr>)"
  using scan_inv_same by (auto simp: grown_def same_table_def)

lemma read_sector_grown:
  assumes inv: "scan_inv s" and d: "disk i s"
  shows "\<exists>r s'. read_sector (Suc fuel) drv i lba s = Some (r, s') \<and> grown s s'"
proof -
  obtain n where "bd_ops (devices (pt_blocks s) ! i) = Driver_ops n"
    using inv d by (auto simp: scan_inv_def table_ok_def disk_def)
  from read_driver_returns [OF this, of fuel drv lba 1 "replicate (unat PARTITION_MAX_BLOCK_SIZE) 0"]
  obtain ok b t where "block_device_read (Suc fuel) drv (Some i) lba 1
      (Some (replicate (unat PARTITION_MAX_BLOCK_SIZE) 0)) (pt_blocks s) = Some (ok, Some b, t)"
    "same_table (pt_blocks s) t" by blast
  then show ?thesis using grown_same [OF inv] by (auto simp: read_sector_def simp del: block_device_read.simps)
qed

subsection \<open>GPT\<close>

definition gpt_range_ok :: "GPT_CANDIDATE \<Rightarrow> bool" where
  "gpt_range_ok c \<longleftrightarrow> (gc_block_count c \<noteq> 0 \<longrightarrow> range_ok (gc_start_lba c) (gc_block_count c))"

lemma entry_range:
  fixes a l :: u64
  assumes "a \<le> l" "l - a + 1 \<noteq> 0"
  shows "range_ok a (l - a + 1)"
proof -
  have d: "unat (l - a) = unat l - unat a" using assms(1) by (rule unat_sub)
  have "unat (l - a + 1) = Suc (unat (l - a))" using unatSuc [of "l - a"] assms(2) by (simp add: add.commute)
  then have "unat a + unat (l - a + 1) = Suc (unat l)" using d assms(1) by (simp add: word_le_nat_alt)
  then show ?thesis using assms(2) unat_less_64 [of l] by (simp add: range_ok_def del: unat_less_64)
qed

lemma gpt_candidate_range:
  assumes "gpt_candidate index h e cs = Some cs'" "\<forall>c \<in> set cs. gpt_range_ok c"
  shows "\<forall>c \<in> set cs'. gpt_range_ok c"
  using assms entry_range by (auto simp: gpt_candidate_def gpt_range_ok_def not_less split: if_splits)

lemma gpt_collect_grown:
  assumes "scan_inv s" "disk i s" "\<forall>c \<in> set cs. gpt_range_ok c"
  shows "\<exists>r s'. gpt_collect (Suc fuel) drv i h left index sector cur crc cs s = Some (r, s') \<and> grown s s'
    \<and> (\<forall>crc' cs'. r = Some (crc', cs') \<longrightarrow> (\<forall>c \<in> set cs'. gpt_range_ok c))"
  using assms
proof (induction left arbitrary: index sector cur crc cs s)
  case 0
  then show ?case by (auto intro: grown_refl)
next
  case (Suc left)
  let ?bs = "logical_block_size (devices (pt_blocks s) ! i)"
  let ?bo = "ucast index * ucast (entry_size h) :: u64"
  let ?si = "ucast (?bo div ucast ?bs) :: u32"
  let ?of = "ucast (?bo mod ucast ?bs) :: u32"
  obtain r s1 where r: "(if ?si \<noteq> cur then read_sector (Suc fuel) drv i (entries_lba h + ucast ?si) s
      else Some (Some sector, s)) = Some (r, s1)" and g: "grown s s1"
    using read_sector_grown [OF Suc.prems(1,2), of fuel drv "entries_lba h + ucast ?si"] grown_refl [OF Suc.prems(1)]
    by (cases "?si \<noteq> cur") auto
  note next_step = Suc.IH [OF grown_inv [OF g] grown_disk [OF g Suc.prems(2)]]
  show ?case
  proof (cases r)
    case None
    then show ?thesis using r g by (auto simp: Let_def)
  next
    case (Some sec)
    let ?e = "gpt_entry (unat ?of) sec"
    let ?crc = "crc32_update crc (take (unat (entry_size h)) (drop (unat ?of) sec))"
    have eq: "gpt_collect (Suc fuel) drv i h (Suc left) index sector cur crc cs s =
      (if ?of + entry_size h > ?bs then Some (None, s1)
       else if guid_is_zero (ge_type_guid ?e)
         then gpt_collect (Suc fuel) drv i h left (index + 1) sec ?si ?crc cs s1
       else case gpt_candidate index h ?e cs of None \<Rightarrow> Some (None, s1)
         | Some cs1 \<Rightarrow> gpt_collect (Suc fuel) drv i h left (index + 1) sec ?si ?crc cs1 s1)"
      using r Some by (simp add: Let_def)
    have step: "\<exists>r s'. gpt_collect (Suc fuel) drv i h left (index + 1) sec ?si ?crc cs1 s1 = Some (r, s')
      \<and> grown s s' \<and> (\<forall>crc' cs'. r = Some (crc', cs') \<longrightarrow> (\<forall>c \<in> set cs'. gpt_range_ok c))"
      if "\<forall>c \<in> set cs1. gpt_range_ok c" for cs1
      using next_step [OF that] grown_trans [OF g] by blast
    show ?thesis
      unfolding eq
      using g step [OF Suc.prems(3)] step gpt_candidate_range [OF _ Suc.prems(3)]
      by (cases "gpt_candidate index h ?e cs") auto
  qed
qed

lemma record_gpt_grown:
  assumes "scan_inv s" "disk i s" "\<forall>c \<in> set cs. gpt_range_ok c" "record_gpt i cs s = (ok, s')"
  shows "grown s s'"
  using assms
proof (induction cs arbitrary: s)
  case Nil
  then show ?case by (simp add: grown_refl)
next
  case (Cons c cs)
  obtain ok1 s1 where r: "record_partition i PARTITION_SCHEME_GPT (gc_number c) 0 (Some (gc_type_guid c))
      (Some (gc_unique_guid c)) (Some (gc_name c)) (gc_start_lba c) (gc_block_count c) s = (ok1, s1)" by fastforce
  have g: "grown s s1"
    using record_partition_inv [OF Cons.prems(1) _ _ r] Cons.prems(2,3) by (auto simp: disk_def gpt_range_ok_def grown_def)
  show ?case
    using Cons.IH [OF grown_inv [OF g] grown_disk [OF g Cons.prems(2)]] Cons.prems(3,4) r g grown_trans
    by (auto split: if_splits)
qed

lemma read_gpt_header_grown:
  assumes "scan_inv s" "disk i s"
  shows "\<exists>r s'. read_gpt_header (Suc fuel) drv i lba s = Some (r, s') \<and> grown s s'"
proof -
  obtain r s1 where r: "read_sector (Suc fuel) drv i lba s = Some (r, s1)" "grown s s1"
    using read_sector_grown [OF assms] by blast
  then show ?thesis
    using grown_refl [OF assms(1)] by (cases r) (auto simp: read_gpt_header_def Let_def)
qed

lemma scan_gpt_at_grown:
  assumes "scan_inv s" "disk i s"
  shows "\<exists>n s'. scan_gpt_at (Suc fuel) drv i lba s = Some (n, s') \<and> grown s s'"
proof -
  obtain r s1 where r: "read_gpt_header (Suc fuel) drv i lba s = Some (r, s1)" and g: "grown s s1"
    using read_gpt_header_grown [OF assms] by blast
  show ?thesis
  proof (cases r)
    case None
    then show ?thesis using r g by (simp add: scan_gpt_at_def)
  next
    case (Some sector)
    let ?h = "gpt_header sector"
    obtain c s2 where c: "gpt_collect (Suc fuel) drv i ?h (unat (entry_count ?h)) 0 [] 0xFFFFFFFF 0xFFFFFFFF [] s1
        = Some (c, s2)" "grown s1 s2" "\<forall>crc' cs'. c = Some (crc', cs') \<longrightarrow> (\<forall>c \<in> set cs'. gpt_range_ok c)"
      using gpt_collect_grown [OF grown_inv [OF g] grown_disk [OF g assms(2)], of "[]"] by fastforce
    have g2: "grown s s2" using grown_trans [OF g c(2)] .
    show ?thesis
    proof (cases c)
      case None
      then show ?thesis using r Some c g2 by (simp add: scan_gpt_at_def Let_def)
    next
      case (Some p)
      obtain crc cs where p: "p = (crc, cs)" by fastforce
      obtain ok s3 where rec: "record_gpt i cs s2 = (ok, s3)" by fastforce
      have "grown s s3"
        using record_gpt_grown [OF grown_inv [OF g2] grown_disk [OF g2 assms(2)] _ rec] c(3) Some p grown_trans [OF g2]
        by blast
      then show ?thesis using r \<open>r = Some sector\<close> c(1) Some p rec g2 by (simp add: scan_gpt_at_def Let_def)
    qed
  qed
qed

lemma scan_gpt_grown:
  assumes "scan_inv s" "disk i s"
  shows "\<exists>n s'. scan_gpt (Suc fuel) drv i s = Some (n, s') \<and> grown s s'"
proof -
  obtain n s1 where s1: "scan_gpt_at (Suc fuel) drv i 1 s = Some (n, s1)" "grown s s1"
    using scan_gpt_at_grown [OF assms] by blast
  obtain m s2 where "scan_gpt_at (Suc fuel) drv i (block_count (devices (pt_blocks s1) ! i) - 1) s1 = Some (m, s2)"
    "grown s1 s2"
    using scan_gpt_at_grown [OF grown_inv [OF s1(2)] grown_disk [OF s1(2) assms(2)]] by blast
  then show ?thesis using s1 grown_trans by (auto simp: scan_gpt_def)
qed

subsection \<open>MBR\<close>

definition mbr_range_ok :: "MBR_CANDIDATE \<Rightarrow> bool" where
  "mbr_range_ok c \<longleftrightarrow> range_ok (mc_start_lba c) (mc_block_count c)"

lemma mbr_candidate_add_range:
  assumes "mbr_candidate_add cs number type start cnt blocks = Some cs'" "\<forall>c \<in> set cs. mbr_range_ok c"
    "unat start + unat cnt \<le> 2 ^ 64"
  shows "\<forall>c \<in> set cs'. mbr_range_ok c"
  using assms by (auto simp: mbr_candidate_add_def mbr_range_ok_def range_ok_def split: if_splits)

lemma small_range: "unat (ucast (a :: u32) :: u64) + unat (ucast (b :: u32) :: u64) \<le> 2 ^ 64"
  using unat_less_32 [of a] unat_less_32 [of b] by (simp del: unat_less_32)

lemma mbr_primaries_range:
  assumes "mbr_primaries blocks index es cs base len = Some (cs', base', len')" "\<forall>c \<in> set cs. mbr_range_ok c"
    "unat base < 2 ^ 32" "unat len < 2 ^ 32"
  shows "(\<forall>c \<in> set cs'. mbr_range_ok c) \<and> unat base' < 2 ^ 32 \<and> unat len' < 2 ^ 32"
  using assms
proof (induction blocks index es cs base len rule: mbr_primaries.induct)
  case (2 blocks index e es cs base len)
  let ?start = "ucast (mbr_first_lba e) :: u64" and ?cnt = "ucast (mbr_sector_count e) :: u64"
  have b: "unat ?start < 2 ^ 32" "unat ?cnt < 2 ^ 32"
    using unat_less_32 [of "mbr_first_lba e"] unat_less_32 [of "mbr_sector_count e"] by (simp_all del: unat_less_32)
  show ?case
  proof (cases "mbr_type e = 0 \<or> mbr_sector_count e = 0 \<or> mbr_type e = 0xEE")
    case True
    then show ?thesis using 2 by (simp add: Let_def)
  next
    case other: False
    show ?thesis
    proof (cases "mbr_type_is_extended (mbr_type e)")
      case True
      then have "mbr_primaries blocks (index + 1) es cs ?start ?cnt = Some (cs', base', len')"
        "\<not> (base \<noteq> 0 \<or> ?start = 0 \<or> ?cnt = 0 \<or> outside blocks ?start ?cnt)"
        using 2(4) other by (auto simp: Let_def split: if_splits)
      then show ?thesis using 2(2) [OF refl refl other True] 2(5) b by blast
    next
      case False
      then obtain cs1 where "mbr_candidate_add cs (index + 1) (mbr_type e) ?start ?cnt blocks = Some cs1"
        "mbr_primaries blocks (index + 1) es cs1 base len = Some (cs', base', len')"
        using 2(4) other by (auto simp: Let_def bind_eq_Some_conv)
      moreover then have "\<forall>c \<in> set cs1. mbr_range_ok c"
        using mbr_candidate_add_range 2(5) small_range by blast
      ultimately show ?thesis using 2(3) [OF refl refl other False] 2(6,7) by blast
    qed
  qed
qed simp

lemma ebr_record_range:
  assumes "ebr_record blocks base extended_end lba number sector cs = Some (cs', nxt)" "\<forall>c \<in> set cs. mbr_range_ok c"
    "unat extended_end < 2 ^ 33"
  shows "\<forall>c \<in> set cs'. mbr_range_ok c"
proof -
  let ?e = "mbr_entry sector 0"
  let ?start = "lba + ucast (mbr_first_lba ?e)" and ?cnt = "ucast (mbr_sector_count ?e) :: u64"
  obtain a: "mbr_candidate_add cs number (mbr_type ?e) ?start ?cnt blocks = Some cs'" "\<not> ?start > extended_end"
    using assms(1) by (auto simp: ebr_record_def Let_def bind_eq_Some_conv split: if_splits)
  then have "unat ?start < 2 ^ 33" using assms(3) by (simp add: word_less_nat_alt)
  then have "unat ?start + unat ?cnt \<le> 2 ^ 64"
    using unat_less_32 [of "mbr_sector_count ?e"] by (simp del: unat_less_32)
  then show ?thesis using mbr_candidate_add_range [OF a(1) assms(2)] by blast
qed

lemma ebr_chain_grown:
  assumes "scan_inv s" "disk i s" "\<forall>c \<in> set cs. mbr_range_ok c" "unat extended_end < 2 ^ 33" "fuel = Suc fuel'"
  shows "\<exists>r s'. ebr_chain fuel drv i blocks base extended_end lba visited number cs s = Some (r, s') \<and> grown s s'
    \<and> (\<forall>cs'. r = Some cs' \<longrightarrow> (\<forall>c \<in> set cs'. mbr_range_ok c))"
  using assms
proof (induction fuel drv i blocks base extended_end lba visited number cs s rule: ebr_chain.induct)
  case (1 fuel drv i blocks base extended_end lba visited number cs s)
  show ?case
  proof (cases "lba = 0 \<or> length visited \<ge> PARTITION_MAX_PER_DISK \<or> lba < base \<or> lba > extended_end")
    case True
    then show ?thesis using 1(4) grown_refl [OF 1(2)] by (subst ebr_chain.simps) auto
  next
    case False
    obtain r s1 where r: "read_sector fuel drv i lba s = Some (r, s1)" and g: "grown s s1"
      using read_sector_grown [OF 1(2,3)] 1(6) by blast
    show ?thesis
    proof (cases r)
      case None
      then show ?thesis using False r g by (subst ebr_chain.simps) auto
    next
      case (Some sector)
      show ?thesis
      proof (cases "sector ! 510 \<noteq> 0x55 \<or> sector ! 511 \<noteq> 0xAA \<or> lba \<in> set visited
          \<or> ebr_record blocks base extended_end lba number sector cs = None")
        case True
        then show ?thesis using False r g Some by (subst ebr_chain.simps) auto
      next
        case sig: False
        then obtain cs1 nxt where e: "ebr_record blocks base extended_end lba number sector cs = Some (cs1, nxt)" by auto
        have cs1: "\<forall>c \<in> set cs1. mbr_range_ok c" using ebr_record_range [OF e 1(4,5)] .
        have eq: "ebr_chain fuel drv i blocks base extended_end lba visited number cs s
          = ebr_chain fuel drv i blocks base extended_end nxt (visited @ [lba]) (number + 1) cs1 s1"
          using False r Some sig e by (subst ebr_chain.simps) auto
        have "\<exists>r s'. ebr_chain fuel drv i blocks base extended_end nxt (visited @ [lba]) (number + 1) cs1 s1
            = Some (r, s') \<and> grown s1 s' \<and> (\<forall>cs'. r = Some cs' \<longrightarrow> (\<forall>c \<in> set cs'. mbr_range_ok c))"
          by (rule 1(1) [OF _ _ r refl Some _ e refl]) (use False sig cs1 g 1 grown_inv grown_disk in auto)
        then show ?thesis unfolding eq using grown_trans [OF g] by blast
      qed
    qed
  qed
qed

lemma record_mbr_grown:
  assumes "scan_inv s" "disk i s" "\<forall>c \<in> set cs. mbr_range_ok c" "record_mbr i cs s = (ok, s')"
  shows "grown s s'"
  using assms
proof (induction cs arbitrary: s)
  case Nil
  then show ?case by (simp add: grown_refl)
next
  case (Cons c cs)
  obtain ok1 s1 where r: "record_partition i PARTITION_SCHEME_MBR (mc_number c) (mc_type c) None None None
      (mc_start_lba c) (mc_block_count c) s = (ok1, s1)" by fastforce
  have g: "grown s s1"
    using record_partition_inv [OF Cons.prems(1) _ _ r] Cons.prems(2,3) by (auto simp: disk_def mbr_range_ok_def grown_def)
  show ?case
    using Cons.IH [OF grown_inv [OF g] grown_disk [OF g Cons.prems(2)]] Cons.prems(3,4) r g grown_trans
    by (auto split: if_splits)
qed

lemma extended_end_bound: "unat base < 2 ^ 32 \<Longrightarrow> unat len < 2 ^ 32 \<Longrightarrow> base \<noteq> 0 \<Longrightarrow> unat (base + len - 1) < 2 ^ 33"
  for base len :: u64
proof -
  assume a: "unat base < 2 ^ 32" "unat len < 2 ^ 32" "base \<noteq> 0"
  have u: "unat (base + len) = unat base + unat len" by (rule unat_add_64) (use a in simp)
  have "base + len \<noteq> 0" using u a(3) by (metis add_eq_0_iff_both_eq_0 unat_0 unat_eq_zero)
  then have "unat (base + len - 1) = unat base + unat len - 1" using u by (simp add: unat_minus_one)
  then show ?thesis using a by simp
qed

lemma scan_mbr_grown:
  assumes "scan_inv s" "disk i s"
  shows "\<exists>n s'. scan_mbr (Suc fuel) drv i sector s = Some (n, s') \<and> grown s s'"
proof -
  let ?blocks = "block_count (devices (pt_blocks s) ! i)"
  show ?thesis
  proof (cases "mbr_primaries ?blocks 0 (mbr_entries sector) [] 0 0")
    case None
    then show ?thesis using grown_refl [OF assms(1)] by (simp add: scan_mbr_def Let_def)
  next
    case (Some q)
    obtain cs base len where q: "q = (cs, base, len)" by (metis prod.exhaust)
    have ok: "\<forall>c \<in> set cs. mbr_range_ok c" "unat base < 2 ^ 32" "unat len < 2 ^ 32"
      using mbr_primaries_range [of ?blocks 0 "mbr_entries sector" "[]" 0 0 cs base len] Some q by simp_all
    let ?meets = "list_ex (\<lambda>c. ranges_meet base (base + len - 1) (mc_start_lba c)
      (mc_start_lba c + mc_block_count c - 1)) cs"
    obtain r s1 where r: "(if base \<noteq> 0 then if ?meets then Some (None, s)
        else ebr_chain (Suc fuel) drv i ?blocks base (base + len - 1) base [] 5 cs s else Some (Some cs, s))
        = Some (r, s1)" and g: "grown s s1" and rs: "\<forall>cs'. r = Some cs' \<longrightarrow> (\<forall>c \<in> set cs'. mbr_range_ok c)"
      using ebr_chain_grown [OF assms ok(1) extended_end_bound [OF ok(2,3)] refl, of fuel drv ?blocks base base "[]" 5]
        grown_refl [OF assms(1)] ok(1) by (cases "base = 0"; cases ?meets) auto
    have eq: "scan_mbr (Suc fuel) drv i sector s = (case r of None \<Rightarrow> Some (0, s1)
      | Some cs2 \<Rightarrow> let (ok, s2) = record_mbr i cs2 s1 in Some (if ok then length cs2 else 0, s2))"
      unfolding scan_mbr_def Let_def Some q option.case prod.case r by simp
    show ?thesis
    proof (cases r)
      case None
      then show ?thesis unfolding eq using g by simp
    next
      case (Some cs2)
      obtain ok s2 where rec: "record_mbr i cs2 s1 = (ok, s2)" by fastforce
      have "grown s s2"
        using record_mbr_grown [OF grown_inv [OF g] grown_disk [OF g assms(2)] _ rec] rs Some grown_trans [OF g] by blast
      then show ?thesis unfolding eq using Some rec by simp
    qed
  qed
qed

lemma scan_device_grown:
  assumes inv: "scan_inv s" and d: "case device of None \<Rightarrow> True | Some i \<Rightarrow> i < device_count (pt_blocks s)"
  shows "\<exists>n s'. partition_scan_device (Suc fuel) drv device s = Some (n, s') \<and> grown s s'"
proof (cases "case device of None \<Rightarrow> True | Some i \<Rightarrow> (let d = devices (pt_blocks s) ! i in
    bd_parent d \<noteq> None \<or> logical_block_size d < 512 \<or> logical_block_size d > PARTITION_MAX_BLOCK_SIZE)")
  case True
  then show ?thesis
    using grown_refl [OF inv] by (auto simp: partition_scan_device_def Let_def split: option.splits)
next
  case False
  then obtain i where i: "device = Some i" "disk i s"
    "\<not> (logical_block_size (devices (pt_blocks s) ! i) < 512
       \<or> logical_block_size (devices (pt_blocks s) ! i) > PARTITION_MAX_BLOCK_SIZE)"
    using d by (auto simp: disk_def Let_def split: option.splits)
  obtain r s1 where r: "read_sector (Suc fuel) drv i 0 s = Some (r, s1)" and g: "grown s s1"
    using read_sector_grown [OF inv i(2)] by blast
  note g1 = grown_inv [OF g] grown_disk [OF g i(2)]
  show ?thesis
    using i r g scan_gpt_grown [OF g1, of fuel drv] scan_mbr_grown [OF g1, of fuel drv "the r"] grown_trans [OF g]
    by (cases r) (auto simp: partition_scan_device_def disk_def Let_def)
qed

lemma scan_devices_grown:
  assumes "scan_inv s"
  shows "\<exists>n s'. scan_devices (Suc fuel) drv is m s = Some (n, s') \<and> grown s s'"
  using assms
proof (induction "is" arbitrary: m s)
  case Nil
  then show ?case by (auto intro: grown_refl)
next
  case (Cons index rest)
  let ?d = "block_device_get (of_nat index) (pt_blocks s)"
  have b: "case ?d of None \<Rightarrow> True | Some i \<Rightarrow> i < device_count (pt_blocks s)"
    by (simp add: block_device_get_def)
  obtain n s1 where s1: "partition_scan_device (Suc fuel) drv ?d s = Some (n, s1)" "grown s s1"
    using scan_device_grown [OF Cons.prems b] by blast
  obtain n2 s2 where s2: "scan_devices (Suc fuel) drv rest (m + n) s1 = Some (n2, s2)" "grown s s2"
    using Cons.IH [OF grown_inv [OF s1(2)]] grown_trans [OF s1(2)] by blast
  show ?case using s1 s2 Cons.IH [OF Cons.prems, of m] by (cases ?d) (auto simp: Let_def)
qed

section \<open>Properties\<close>

text \<open>A sample disk for the witnesses: one disk of 128 blocks behind a driver that reads an all-zero
  image, no partition yet.\<close>

definition zero_driver :: "unit drivers" where
  "zero_driver = (\<lambda>_. \<lparr>read_blocks = Some (\<lambda>d lba cnt x. (Some (replicate 512 0), x)), write_blocks = None,
     flush_blocks = None\<rparr>)"

definition blank_partition :: ASAS_PARTITION_INFO where
  "blank_partition = partition_info 0 0 PARTITION_SCHEME_NONE 0 0 None None None 0 0"

definition one_disk :: "unit partition_state" where
  "one_disk = \<lparr>partitions = replicate 32 blank_partition, found_partition_count = 0,
     pt_blocks = \<lparr>devices = replicate 32 (sample_device\<lparr>block_count := 128\<rparr>), telemetry = replicate 32 telemetry_zero,
       cache_entries = replicate 16 \<lparr>ce_valid = False, ce_device_id = 0, ce_lba = 0, ce_block_size = 0,
         ce_data = []\<rparr>, device_count = 1, next_cache_slot = 0, driver_state = ()\<rparr>\<rparr>"

lemma one_disk_inv: "scan_inv one_disk"
  by (simp add: scan_inv_def one_disk_def table_ok_def found_def sample_device_def)

text \<open>C13: Whatever the disks hold, the scan of all devices returns, and afterwards the recorded partitions
  of one disk are pairwise disjoint, each starts behind the first block of its disk, does not wrap
  around and, when the size of the disk is known, ends within it, and the block device registered for it
  covers exactly its range.\<close>

theorem scanned_partitions_disjoint:
  assumes "scan_inv s"
  shows "\<exists>n s'. partition_scan_all (Suc fuel) drv s = Some (n, s') \<and> scan_inv s'
    \<and> (\<forall>k l. k < l \<and> l < found_partition_count s' \<and> pi_parent (partitions s' ! k) = pi_parent (partitions s' ! l) \<longrightarrow>
         disjoint (pi_start_lba (partitions s' ! k)) (pi_block_count (partitions s' ! k))
           (pi_start_lba (partitions s' ! l)) (pi_block_count (partitions s' ! l)))
    \<and> (\<forall>k < found_partition_count s'. recorded_ok (pt_blocks s') (partitions s' ! k))"
proof -
  obtain n s' where s': "partition_scan_all (Suc fuel) drv s = Some (n, s')" "scan_inv s'"
    using scan_devices_grown [OF assms] grown_inv unfolding partition_scan_all_def by blast
  have f: "length (found s') = found_partition_count s'" "\<And>k. k < found_partition_count s' \<Longrightarrow> found s' ! k = partitions s' ! k"
    using s'(2) by (simp_all add: found_def scan_inv_def)
  have "apart (partitions s' ! k) (partitions s' ! l)" if "k < l" "l < found_partition_count s'" for k l
    using s'(2) that f sorted_wrt_nth_less [of apart "found s'" k l] by (simp add: scan_inv_def)
  moreover have "recorded_ok (pt_blocks s') (partitions s' ! k)" if "k < found_partition_count s'" for k
    using s'(2) that f nth_mem [of k "found s'"] by (simp add: scan_inv_def)
  ultimately show ?thesis using s' by (auto simp: apart_def)
qed

theorem scanned_partitions_disjoint_witness:
  "\<exists>n s'. partition_scan_all 1 zero_driver one_disk = Some (n, s') \<and> scan_inv s'"
  using scanned_partitions_disjoint [OF one_disk_inv, of 0 zero_driver] by auto

end
