(* ===== verification/Partition_Edit.thy ===== *)
theory Partition_Edit
  imports Partition_Scan
begin

text \<open>
  Editing partition tables, \<^verbatim>\<open>src/kernel/partition.c\<close> from line 550 on: what a committed edit leaves on the
  disk, which tables pass the validity checks, and the checksums of a GPT.
\<close>

section \<open>MBR entries in a sector\<close>

definition mbr_decode :: "bytes \<Rightarrow> MBR_PARTITION_ENTRY" where
  "mbr_decode b = \<lparr>mbr_status = b ! 0, mbr_first_chs = take 3 (drop 1 b), mbr_type = b ! 4,
      mbr_last_chs = take 3 (drop 5 b), mbr_first_lba = u32_at 8 b, mbr_sector_count = u32_at 12 b\<rparr>"

lemma mbr_entry_decode: "mbr_entry sector j = mbr_decode (take 16 (drop (mbr_offset j) sector))"
proof -
  have t: "take 3 (drop k (take 16 b)) = take 3 (drop k b)" if "k + 3 \<le> 16" for k and b :: bytes
    using that by (simp add: drop_take min_absorb1)
  show ?thesis by (simp add: mbr_entry_def mbr_decode_def Let_def u32_at_take t del: drop_drop)
qed

lemma mbr_decode_bytes:
  assumes "length (mbr_first_chs e) = 3" "length (mbr_last_chs e) = 3"
  shows "length (mbr_entry_bytes e) = 16" "mbr_decode (mbr_entry_bytes e) = e"
proof -
  obtain a b c where f: "mbr_first_chs e = [a, b, c]"
    using assms(1) by (auto simp: length_Suc_conv numeral_3_eq_3)
  obtain x y z where l: "mbr_last_chs e = [x, y, z]"
    using assms(2) by (auto simp: length_Suc_conv numeral_3_eq_3)
  show "length (mbr_entry_bytes e) = 16" by (simp add: mbr_entry_bytes_def f l)
  show "mbr_decode (mbr_entry_bytes e) = e"
    using u32_at_le_bytes [of "mbr_sector_count e" "[]"]
    by (simp add: mbr_decode_def mbr_entry_bytes_def f l u32_at_drop [of 8] u32_at_drop [of 12] u32_at_le_bytes)
qed

definition chs_ok :: "MBR_PARTITION_ENTRY \<Rightarrow> bool" where
  "chs_ok e \<longleftrightarrow> length (mbr_first_chs e) = 3 \<and> length (mbr_last_chs e) = 3"

lemma mbr_entries_chs: "512 \<le> length sector \<Longrightarrow> \<forall>e \<in> set (mbr_entries sector). chs_ok e"
  by (auto simp: mbr_entries_def mbr_entry_def mbr_offset_def chs_ok_def Let_def)

lemma mbr_new_entry_chs:
  "mbr_new_entry old type start cnt deleting = Some e \<Longrightarrow> chs_ok e"
  by (auto simp: mbr_new_entry_def chs_ok_def blank_mbr_entry_def split: if_splits)

text \<open>Writing a table of four entries and reading it again.\<close>

lemma mbr_table_roundtrip:
  assumes "length es = 4" "\<forall>e \<in> set es. chs_ok e" "512 \<le> length sector"
  defines "sector' \<equiv> put_bytes (mbr_offset 0) (concat (map mbr_entry_bytes es)) sector"
  shows "length sector' = length sector" "take 446 sector' = take 446 sector" "drop 510 sector' = drop 510 sector"
    "j < 4 \<Longrightarrow> mbr_entry sector' j = es ! j"
proof -
  let ?bs = "map mbr_entry_bytes es"
  have n: "\<forall>x \<in> set ?bs. length x = 16" using assms(2) mbr_decode_bytes(1) by (auto simp: chs_ok_def)
  have l: "length (concat ?bs) = 64" using length_concat_chunks [OF n] assms(1) by simp
  show "length sector' = length sector" using l assms(3) by (simp add: sector'_def mbr_offset_def)
  show "take 446 sector' = take 446 sector" "drop 510 sector' = drop 510 sector"
    using l assms(3) by (simp_all add: sector'_def put_bytes_def mbr_offset_def)
  assume j: "j < 4"
  have "take 16 (drop (446 + 16 * j) sector') = take 16 (drop (16 * j) (concat ?bs))"
    using l j assms(3) by (simp add: sector'_def put_bytes_def mbr_offset_def)
  also have "\<dots> = mbr_entry_bytes (es ! j)" using concat_chunk [OF n, of j] j assms(1) by simp
  finally show "mbr_entry sector' j = es ! j"
    using mbr_decode_bytes(2) assms(1,2) j by (simp add: mbr_entry_decode mbr_offset_def chs_ok_def)
qed

section \<open>Valid MBR tables\<close>

definition entry_used :: "MBR_PARTITION_ENTRY \<Rightarrow> bool" where
  "entry_used e \<longleftrightarrow> mbr_sector_count e \<noteq> 0"

definition entries_apart :: "MBR_PARTITION_ENTRY \<Rightarrow> MBR_PARTITION_ENTRY \<Rightarrow> bool" where
  "entries_apart e f \<longleftrightarrow> (entry_used e \<and> entry_used f \<longrightarrow>
     disjoint (ucast (mbr_first_lba e)) (ucast (mbr_sector_count e)) (ucast (mbr_first_lba f)) (ucast (mbr_sector_count f)))"

definition entry_within :: "u64 \<Rightarrow> MBR_PARTITION_ENTRY \<Rightarrow> bool" where
  "entry_within blocks e \<longleftrightarrow> (entry_used e \<longrightarrow> mbr_first_lba e \<noteq> 0 \<and> mbr_type e \<noteq> 0
     \<and> (blocks \<noteq> 0 \<longrightarrow> unat (mbr_first_lba e) + unat (mbr_sector_count e) \<le> unat blocks))"

lemma mbr_candidate_add_apart:
  assumes "mbr_candidate_add cs number type start cnt blocks = Some cs'" "\<forall>c \<in> set cs. mbr_range_ok c"
    "unat start + unat cnt \<le> 2 ^ 64"
  shows "start \<noteq> 0" "cnt \<noteq> 0" "blocks \<noteq> 0 \<longrightarrow> unat start + unat cnt \<le> unat blocks"
    "\<forall>c \<in> set cs. disjoint start cnt (mc_start_lba c) (mc_block_count c)"
    "cs' = cs @ [\<lparr>mc_number = number, mc_type = type, mc_start_lba = start, mc_block_count = cnt\<rparr>]"
proof -
  show a: "start \<noteq> 0" "cnt \<noteq> 0"
    "cs' = cs @ [\<lparr>mc_number = number, mc_type = type, mc_start_lba = start, mc_block_count = cnt\<rparr>]"
    using assms(1) by (auto simp: mbr_candidate_add_def split: if_splits)
  have g: "\<not> (blocks \<noteq> 0 \<and> (start \<ge> blocks \<or> cnt > blocks - start))"
    "\<not> list_ex (\<lambda>c. ranges_meet start (start + cnt - 1) (mc_start_lba c) (mc_start_lba c + mc_block_count c - 1)) cs"
    using assms(1) by (auto simp: mbr_candidate_add_def split: if_splits)
  show "blocks \<noteq> 0 \<longrightarrow> unat start + unat cnt \<le> unat blocks"
    using g(1) range_within(2) [of start blocks cnt] a(2) by auto
  have "range_ok start cnt" using a(2) assms(3) by (simp add: range_ok_def)
  then show "\<forall>c \<in> set cs. disjoint start cnt (mc_start_lba c) (mc_block_count c)"
    using g(2) assms(2) ranges_meet_iff by (auto simp: list_ex_iff mbr_range_ok_def)
qed

lemma mbr_valid_from_apart:
  assumes "mbr_valid_from blocks index es cs" "\<forall>c \<in> set cs. mbr_range_ok c"
  shows "sorted_wrt entries_apart es \<and> (\<forall>e \<in> set es. entry_within blocks e
    \<and> (entry_used e \<longrightarrow> (\<forall>c \<in> set cs. disjoint (ucast (mbr_first_lba e)) (ucast (mbr_sector_count e))
         (mc_start_lba c) (mc_block_count c))))"
  using assms
proof (induction es arbitrary: index cs)
  case (Cons e es)
  show ?case
  proof (cases "mbr_type e = 0 \<and> mbr_sector_count e = 0")
    case True
    then have "\<not> entry_used e" by (simp add: entry_used_def)
    then show ?thesis using True Cons.IH [of "index + 1" cs] Cons.prems by (auto simp: entries_apart_def entry_within_def)
  next
    case False
    let ?s = "ucast (mbr_first_lba e) :: u64" and ?c = "ucast (mbr_sector_count e) :: u64"
    obtain cs1 where a: "mbr_candidate_add cs (index + 1) (mbr_type e) ?s ?c blocks = Some cs1"
      "mbr_valid_from blocks (index + 1) es cs1" "mbr_type e \<noteq> 0"
      using False Cons.prems(1) by (auto split: if_splits option.splits)
    note A = mbr_candidate_add_apart [OF a(1) Cons.prems(2) small_range]
    have "\<forall>c \<in> set cs1. mbr_range_ok c" using mbr_candidate_add_range [OF a(1) Cons.prems(2) small_range] .
    note IH = Cons.IH [OF a(2) this]
    have "mbr_first_lba e \<noteq> 0" using A(1) by auto
    then show ?thesis
      using IH A a(3) by (auto simp: entries_apart_def entry_within_def disjoint_def)
  qed
qed simp

lemma mbr_table_valid_apart:
  assumes "mbr_table_valid es blocks"
  shows "sorted_wrt entries_apart es" "\<forall>e \<in> set es. entry_within blocks e"
  using mbr_valid_from_apart [of blocks 0 es "[]"] assms by (simp_all add: mbr_table_valid_def)

section \<open>Committing an MBR edit\<close>

text \<open>What an edit makes of a sector.\<close>

lemma mbr_edit_sector:
  assumes e: "mbr_edit blocks sector slot type start cnt deleting = Some sector'"
    and l: "512 \<le> length sector" and slot: "slot < 4"
  shows "length sector' = length sector" "take 446 sector' = take 446 sector" "drop 510 sector' = drop 510 sector"
    "j < 4 \<Longrightarrow> j \<noteq> slot \<Longrightarrow> mbr_entry sector' j = mbr_entry sector j"
    "mbr_new_entry (mbr_entry sector slot) type start cnt deleting = Some (mbr_entry sector' slot)"
    "mbr_table_valid (mbr_entries sector') blocks"
proof -
  obtain n where n: "mbr_new_entry (mbr_entries sector ! slot) type start cnt deleting = Some n"
    and v: "mbr_table_valid ((mbr_entries sector)[slot := n]) blocks"
    and s': "sector' = put_bytes (mbr_offset 0) (concat (map mbr_entry_bytes ((mbr_entries sector)[slot := n]))) sector"
    using e by (auto simp: mbr_edit_def Let_def split: if_splits option.splits)
  let ?es = "(mbr_entries sector)[slot := n]"
  have l4: "length ?es = 4" by (simp add: mbr_entries_def)
  have "\<forall>e \<in> set ?es. chs_ok e"
    using mbr_entries_chs [OF l] mbr_new_entry_chs [OF n] set_update_subset_insert [of "mbr_entries sector" slot n] by blast
  note R = mbr_table_roundtrip [OF l4 this l, folded s']
  show "length sector' = length sector" "take 446 sector' = take 446 sector" "drop 510 sector' = drop 510 sector"
    using R(1-3) by blast+
  have nth: "mbr_entries sector ! j = mbr_entry sector j" if "j < 4" for j
    using that by (simp add: mbr_entries_def nth_append)
  show "j < 4 \<Longrightarrow> j \<noteq> slot \<Longrightarrow> mbr_entry sector' j = mbr_entry sector j" using R(4) nth by simp
  have "mbr_entry sector' slot = n" using R(4) [OF slot] slot l4 by simp
  then show "mbr_new_entry (mbr_entry sector slot) type start cnt deleting = Some (mbr_entry sector' slot)"
    using n nth [OF slot] by simp
  have "mbr_entries sector' = ?es"
    using R(4) l4 by (intro nth_equalityI) (simp_all add: mbr_entries_def)
  then show "mbr_table_valid (mbr_entries sector') blocks" using v by simp
qed

lemma mbr_entry_cong: "512 \<le> L \<Longrightarrow> j < 4 \<Longrightarrow> mbr_entry (take L sector) j = mbr_entry sector j"
  by (simp add: mbr_entry_decode drop_take mbr_offset_def min_absorb1)

lemma mbr_entry_append: "512 \<le> length b \<Longrightarrow> j < 4 \<Longrightarrow> mbr_entry (b @ r) j = mbr_entry b j"
  by (simp add: mbr_entry_decode mbr_offset_def)

context disk_driver
begin

lemma read_sector_settled:
  assumes "devices (pt_blocks s) ! i = dev" "bd_ops dev = Driver_ops n" "read_blocks (drv n) = read_blocks ops"
    "settled B (pt_blocks s)" "block_bytes dev \<le> 4096"
  shows "\<exists>r s'. read_sector (Suc fuel) drv i lba s = Some (r, s') \<and> settled B (pt_blocks s')
    \<and> devices (pt_blocks s') = devices (pt_blocks s)
    \<and> (\<forall>sector. r = Some sector \<longrightarrow> sector = B lba @ replicate (4096 - block_bytes dev) 0)"
proof -
  have b: "unat (1 :: u32) * block_bytes dev < 2 ^ 32" "unat (1 :: u32) * block_bytes dev \<le> length (replicate 4096 (0 :: u8))"
    using assms(5) by simp_all
  obtain ok buf t where "block_device_read (Suc fuel) drv (Some i) lba 1 (Some (replicate 4096 0)) (pt_blocks s)
      = Some (ok, Some buf, t)" "settled B t" "devices t = devices (pt_blocks s)"
    "ok \<longrightarrow> buf = B lba @ replicate (4096 - block_bytes dev) 0"
    using read_settled [where drv = drv and n = n and cnt = 1, OF assms(1-3) b assms(4), of fuel lba] by auto
  then show ?thesis
    by (auto simp: read_sector_def PARTITION_MAX_BLOCK_SIZE_def simp del: block_device_read.simps)
qed

lemma mbr_commit_settled:
  assumes dev: "devices (pt_blocks s) ! i = dev" "bd_ops dev = Driver_ops n" and drv: "drv n = ops"
    and st: "settled B (pt_blocks s)"
  shows "\<exists>ok s' B'. partition_mbr_commit (Suc fuel) drv fs (Some i) slot type start cnt deleting s = Some (ok, s')
    \<and> settled B' (pt_blocks s')
    \<and> (\<not> ok \<and> B' = B \<or> slot < 4 \<and> 512 \<le> block_bytes dev \<and> block_bytes dev \<le> 4096
        \<and> bd_flags dev AND BLOCK_DEVICE_FLAG_READ_ONLY = 0
        \<and> \<not> filesystem_device_is_mounted (devices (pt_blocks s)) (Some i) fs
        \<and> (\<exists>sector'. mbr_edit (block_count dev) (B 0 @ replicate (4096 - block_bytes dev) 0) (unat slot) type start cnt
             deleting = Some sector' \<and> B' = B(0 := take (block_bytes dev) sector')))"
proof (cases "bd_parent dev \<noteq> None \<or> slot \<ge> 4 \<or> logical_block_size dev < 512
    \<or> logical_block_size dev > PARTITION_MAX_BLOCK_SIZE
    \<or> block_device_has_capability (Some i) BLOCK_DEVICE_FLAG_READ_ONLY (pt_blocks s)
    \<or> filesystem_device_is_mounted (devices (pt_blocks s)) (Some i) fs")
  case True
  then have "partition_mbr_commit (Suc fuel) drv fs (Some i) slot type start cnt deleting s = Some (False, s)"
    using dev by (simp add: partition_mbr_commit_def Let_def)
  then show ?thesis using st by blast
next
  case False
  then have bb: "512 \<le> block_bytes dev" "block_bytes dev \<le> 4096" and s4: "slot < 4"
    by (auto simp: block_bytes_def PARTITION_MAX_BLOCK_SIZE_def word_less_nat_alt word_le_nat_alt)
  obtain r s1 where r: "read_sector (Suc fuel) drv i 0 s = Some (r, s1)" "settled B (pt_blocks s1)"
    "devices (pt_blocks s1) = devices (pt_blocks s)"
    "\<forall>sector. r = Some sector \<longrightarrow> sector = B 0 @ replicate (4096 - block_bytes dev) 0"
    using read_sector_settled [OF dev _ st bb(2), of drv fuel 0] drv by auto
  let ?sec = "B 0 @ replicate (4096 - block_bytes dev) 0"
  let ?edit = "mbr_edit (block_count dev) ?sec (unat slot) type start cnt deleting"
  show ?thesis
  proof (cases "r = None \<or> ?sec ! 510 \<noteq> 0x55 \<or> ?sec ! 511 \<noteq> 0xAA \<or> ?edit = None")
    case True
    then have "partition_mbr_commit (Suc fuel) drv fs (Some i) slot type start cnt deleting s = Some (False, s1)"
      using False dev r by (cases r) (auto simp: partition_mbr_commit_def Let_def)
    then show ?thesis using r(2) by blast
  next
    case ok: False
    then obtain sector' where e: "?edit = Some sector'" and rs: "r = Some ?sec" using r(4) by (cases r) auto
    have "length (B 0) = block_bytes dev" using block_length st unfolding settled_def by blast
    then have len: "length ?sec = 4096" using bb by simp
    have u: "unat slot < 4" using s4 by (simp add: word_less_nat_alt)
    have len': "length sector' = 4096" using mbr_edit_sector(1) [OF e _ u] len by simp
    have b: "unat (1 :: u32) * block_bytes dev < 2 ^ 32" "unat (1 :: u32) * block_bytes dev \<le> length sector'"
      using bb len' by simp_all
    have dev1: "devices (pt_blocks s1) ! i = dev" using r(3) dev(1) by simp
    obtain w b2 where w: "block_device_write (Suc fuel) drv (Some i) 0 1 (Some sector') (pt_blocks s1) = Some (w, b2)"
      "devices b2 = devices (pt_blocks s1)" "settled (if w then written dev 0 0 (unat (1 :: u32)) sector' B else B) b2"
      "w \<longrightarrow> bd_flags dev AND BLOCK_DEVICE_FLAG_READ_ONLY = 0"
      using write_settled [where drv = drv and n = n and cnt = 1, OF dev1 dev(2) _ b r(2), of fuel 0] drv by blast
    have wr: "written dev 0 0 (unat (1 :: u32)) sector' B = B(0 := take (block_bytes dev) sector')"
      by (simp add: written_def chunk_def)
    show ?thesis
    proof (cases w)
      case False
      then have "partition_mbr_commit (Suc fuel) drv fs (Some i) slot type start cnt deleting s
          = Some (False, s1\<lparr>pt_blocks := b2\<rparr>)"
        using \<open>\<not> (bd_parent dev \<noteq> None \<or> _)\<close> dev r(1) rs ok e w(1)
        by (simp add: partition_mbr_commit_def Let_def del: block_device_write.simps block_device_flush.simps)
      then show ?thesis using w(3) False by auto
    next
      case True
      have dev2: "devices b2 ! i = dev" using w(2) dev1 by simp
      obtain f b3 where f: "block_device_flush (Suc fuel) drv (Some i) b2 = Some (f, b3)"
        "settled (B(0 := take (block_bytes dev) sector')) b3"
        using flush_settled [where drv = drv and n = n, OF dev2 dev(2) _ w(3), of fuel] drv True wr by (auto simp del: block_device_flush.simps)
      have "partition_mbr_commit (Suc fuel) drv fs (Some i) slot type start cnt deleting s
          = Some (f, s1\<lparr>pt_blocks := b3\<rparr>)"
        using \<open>\<not> (bd_parent dev \<noteq> None \<or> _)\<close> dev r(1) rs ok e w(1) True f(1)
        by (simp add: partition_mbr_commit_def Let_def del: block_device_write.simps block_device_flush.simps)
      then show ?thesis
        using f(2) e s4 bb w(4) True \<open>\<not> (bd_parent dev \<noteq> None \<or> _)\<close> by fastforce
    qed
  qed
qed

end

section \<open>Properties of MBR edits\<close>

definition edit_boot :: "self_test_disks partition_state" where
  "edit_boot = \<lparr>partitions = replicate 32 blank_partition, found_partition_count = 0, pt_blocks = sample_blocks\<rparr>"

text \<open>C14: Creating, deleting or resizing an MBR partition edits nothing but its slot.  On a disk behind the
  self-test driver and a coherent cache, the commit returns.  Whether it succeeds or not, no block but
  the first changes, and of the first neither the boot code nor the signature nor the entries of the other slots.
  If it succeeds, the disk was writable and not mounted, the slot holds the new entry, and the entries
  in use are pairwise disjoint and within the disk.\<close>

theorem mbr_commit_edits_one_slot:
  assumes "devices (pt_blocks s) ! i = dev" and "bd_ops dev = Driver_ops n" and "drv n = self_test_ops"
    and "self_test_inv dev (driver_state (pt_blocks s))"
    and "coherent dev (self_test_blocks dev (driver_state (pt_blocks s))) (cache_entries (pt_blocks s))"
    and B: "B = self_test_blocks dev (driver_state (pt_blocks s))"
  shows "\<exists>ok s' B'. partition_mbr_commit (Suc fuel) drv fs (Some i) slot type start cnt deleting s = Some (ok, s')
    \<and> B' = self_test_blocks dev (driver_state (pt_blocks s'))
    \<and> (\<forall>lba. lba \<noteq> 0 \<longrightarrow> B' lba = B lba)
    \<and> take 446 (B' 0) = take 446 (B 0) \<and> drop 510 (B' 0) = drop 510 (B 0)
    \<and> (\<forall>j < 4. j \<noteq> unat slot \<longrightarrow> mbr_entry (B' 0) j = mbr_entry (B 0) j)
    \<and> (ok \<longrightarrow> bd_flags dev AND BLOCK_DEVICE_FLAG_READ_ONLY = 0
         \<and> \<not> filesystem_device_is_mounted (devices (pt_blocks s)) (Some i) fs
         \<and> mbr_new_entry (mbr_entry (B 0) (unat slot)) type start cnt deleting = Some (mbr_entry (B' 0) (unat slot))
         \<and> sorted_wrt entries_apart (mbr_entries (B' 0))
         \<and> (\<forall>e \<in> set (mbr_entries (B' 0)). entry_within (block_count dev) e))"
proof -
  let ?L = "block_bytes dev"
  have st: "self_test.settled dev B (pt_blocks s)" using assms(4,5) B by (simp add: self_test.settled_def)
  obtain ok s' B' where c: "partition_mbr_commit (Suc fuel) drv fs (Some i) slot type start cnt deleting s = Some (ok, s')"
    "self_test.settled dev B' (pt_blocks s')"
    "\<not> ok \<and> B' = B \<or> slot < 4 \<and> 512 \<le> ?L \<and> ?L \<le> 4096 \<and> bd_flags dev AND BLOCK_DEVICE_FLAG_READ_ONLY = 0
      \<and> \<not> filesystem_device_is_mounted (devices (pt_blocks s)) (Some i) fs
      \<and> (\<exists>sector'. mbr_edit (block_count dev) (B 0 @ replicate (4096 - ?L) 0) (unat slot) type start cnt deleting
           = Some sector' \<and> B' = B(0 := take ?L sector'))"
    using self_test.mbr_commit_settled [where drv = drv and n = n, OF assms(1,2,3) st] by blast
  have b': "B' = self_test_blocks dev (driver_state (pt_blocks s'))" using c(2) by (simp add: self_test.settled_def)
  show ?thesis
  proof (cases "\<not> ok \<and> B' = B")
    case True
    then show ?thesis using c(1) b' by blast
  next
    case False
    then obtain sector' where e: "mbr_edit (block_count dev) (B 0 @ replicate (4096 - ?L) 0) (unat slot) type start cnt
        deleting = Some sector'" and B': "B' = B(0 := take ?L sector')"
      and g: "slot < 4" "512 \<le> ?L" "?L \<le> 4096" "bd_flags dev AND BLOCK_DEVICE_FLAG_READ_ONLY = 0"
        "\<not> filesystem_device_is_mounted (devices (pt_blocks s)) (Some i) fs"
      using c(3) by blast
    have l: "length (B 0) = ?L" using self_test.block_length assms(4) B by blast
    have u: "unat slot < 4" using g(1) by (simp add: word_less_nat_alt)
    have lp: "512 \<le> length (B 0 @ replicate (4096 - ?L) 0)" using l g(2) by simp
    note E = mbr_edit_sector [OF e lp u]
    have ent: "mbr_entry (B' 0) j = mbr_entry sector' j" "mbr_entry (B 0 @ replicate (4096 - ?L) 0) j = mbr_entry (B 0) j"
      if "j < 4" for j
      using that mbr_entry_cong [OF g(2)] mbr_entry_append [of "B 0"] l g(2) B' by simp_all
    have "mbr_entries (B' 0) = mbr_entries sector'" using ent(1) by (simp add: mbr_entries_def)
    then have v: "sorted_wrt entries_apart (mbr_entries (B' 0))" "\<forall>e \<in> set (mbr_entries (B' 0)). entry_within (block_count dev) e"
      using mbr_table_valid_apart [OF E(6)] by simp_all
    have "take 446 (B' 0) = take 446 sector'" "drop 510 (B' 0) = take (?L - 510) (drop 510 sector')"
      using g(2) B' by (simp_all add: drop_take min_absorb1)
    then have "take 446 (B' 0) = take 446 (B 0)" "drop 510 (B' 0) = drop 510 (B 0)"
      using E(2,3) l g(2) by simp_all
    moreover have "\<forall>j < 4. j \<noteq> unat slot \<longrightarrow> mbr_entry (B' 0) j = mbr_entry (B 0) j" using ent E(4) by simp
    moreover have "mbr_new_entry (mbr_entry (B 0) (unat slot)) type start cnt deleting = Some (mbr_entry (B' 0) (unat slot))"
      using E(5) ent u by simp
    moreover have "\<forall>lba. lba \<noteq> 0 \<longrightarrow> B' lba = B lba" using B' by simp
    ultimately show ?thesis using c(1) b' v g(4,5) by blast
  qed
qed

theorem mbr_commit_edits_one_slot_witness:
  "\<exists>ok s'. partition_mbr_commit 1 (\<lambda>_. self_test_ops) fs_boot (Some 0) 0 0x0C 2 4 False edit_boot = Some (ok, s')
    \<and> drop 510 (self_test_blocks sample_device (driver_state (pt_blocks s')) 0)
      = drop 510 (self_test_blocks sample_device sample_disks 0)"
  using mbr_commit_edits_one_slot [of edit_boot 0 sample_device 0 "\<lambda>_. self_test_ops" _ 0 fs_boot 0 "0x0C" 2 4 False]
    sample_settled
  by (simp add: edit_boot_def sample_blocks_def sample_device_def self_test.settled_def
      del: block_device_read.simps) blast

section \<open>Valid GPT entry arrays\<close>

text \<open>The specification of a valid array: the blocks of every used entry lie in the usable part of the
  disk, and no two used entries share a block.\<close>

definition entry_blocks :: "GPT_ENTRY \<Rightarrow> u64 set" where
  "entry_blocks e = {ge_first_lba e .. ge_last_lba e}"

definition slot_used :: "GPT_HEADER \<Rightarrow> bytes \<Rightarrow> nat \<Rightarrow> bool" where
  "slot_used h entries i \<longleftrightarrow> i < unat (entry_count h) \<and> \<not> guid_is_zero (ge_type_guid (nth_entry h entries i))"

lemma gpt_entry_fits_iff:
  "gpt_entry_fits h e \<longleftrightarrow> entry_blocks e \<noteq> {} \<and> entry_blocks e \<subseteq> {first_usable_lba h .. last_usable_lba h}"
  by (auto simp: gpt_entry_fits_def entry_blocks_def not_less)

lemma ranges_meet_blocks:
  assumes "entry_blocks e \<noteq> {}" "entry_blocks f \<noteq> {}"
  shows "ranges_meet (ge_first_lba e) (ge_last_lba e) (ge_first_lba f) (ge_last_lba f) \<longleftrightarrow> entry_blocks e \<inter> entry_blocks f \<noteq> {}"
  using assms by (auto simp: ranges_meet_def entry_blocks_def intro: order_trans)

text \<open>C15: \<open>gpt_entries_valid\<close> decides exactly whether an entry array is valid, for every array and
  header.\<close>

theorem gpt_entries_valid_iff:
  "gpt_entries_valid h entries \<longleftrightarrow>
     (\<forall>i. slot_used h entries i \<longrightarrow> entry_blocks (nth_entry h entries i) \<noteq> {}
        \<and> entry_blocks (nth_entry h entries i) \<subseteq> {first_usable_lba h .. last_usable_lba h})
     \<and> (\<forall>i j. slot_used h entries i \<and> slot_used h entries j \<and> i \<noteq> j \<longrightarrow>
          entry_blocks (nth_entry h entries i) \<inter> entry_blocks (nth_entry h entries j) = {})"
  (is "_ \<longleftrightarrow> ?fits \<and> ?apart")
proof -
  let ?e = "nth_entry h entries" and ?u = "slot_used h entries"
  have v: "gpt_entries_valid h entries \<longleftrightarrow> (\<forall>i. ?u i \<longrightarrow> gpt_entry_fits h (?e i)
      \<and> (\<forall>j < i. ?u j \<longrightarrow> \<not> ranges_meet (ge_first_lba (?e i)) (ge_last_lba (?e i)) (ge_first_lba (?e j)) (ge_last_lba (?e j))))"
    unfolding gpt_entries_valid_def list_all_iff Let_def slot_used_def set_upt atLeastLessThan_iff Ball_def
    by (meson le0 less_trans)
  show ?thesis
  proof
    assume valid: "gpt_entries_valid h entries"
    then have f: ?fits using v gpt_entry_fits_iff by blast
    moreover have "entry_blocks (?e i) \<inter> entry_blocks (?e j) = {}" if "?u i" "?u j" "j < i" for i j
      using valid v that f ranges_meet_blocks by blast
    then have ?apart by (metis Int_commute linorder_neqE_nat)
    ultimately show "?fits \<and> ?apart" by blast
  next
    assume a: "?fits \<and> ?apart"
    have "\<not> ranges_meet (ge_first_lba (?e i)) (ge_last_lba (?e i)) (ge_first_lba (?e j)) (ge_last_lba (?e j))"
      if "?u i" "?u j" "j < i" for i j
      using a that ranges_meet_blocks [of "?e i" "?e j"] by (metis nat_neq_iff)
    then show "gpt_entries_valid h entries" unfolding v using a gpt_entry_fits_iff by blast
  qed
qed

definition two_entry_header :: GPT_HEADER where
  "two_entry_header = \<lparr>gpt_signature = [], gpt_revision = 0, header_size = 92, header_crc32 = 0, gpt_reserved = 0,
     current_lba = 1, backup_lba = 99, first_usable_lba = 34, last_usable_lba = 66, disk_guid = [], entries_lba = 2,
     entry_count = 2, entry_size = 128, entries_crc32 = 0\<rparr>"

definition used_entry_bytes :: "nat \<Rightarrow> nat \<Rightarrow> bytes" where
  "used_entry_bytes lo hi = (1 # replicate 31 0) @ le_bytes 8 lo @ le_bytes 8 hi @ replicate 80 0"

lemma used_entry:
  assumes "lo < 2 ^ 64" "hi < 2 ^ 64"
  shows "ge_first_lba (gpt_entry 0 (used_entry_bytes lo hi @ r)) = of_nat lo"
    and "ge_last_lba (gpt_entry 0 (used_entry_bytes lo hi @ r)) = of_nat hi"
    and "\<not> guid_is_zero (ge_type_guid (gpt_entry 0 (used_entry_bytes lo hi @ r)))"
  using assms by (auto simp: gpt_entry_def u64_at_def used_entry_bytes_def guid_is_zero_def le_value_bytes
      intro!: bexI [of _ 0])

lemma gpt_entry_skip: "gpt_entry 128 (used_entry_bytes lo hi @ r) = gpt_entry 0 r"
  by (simp add: gpt_entry_def used_entry_bytes_def)

definition two_entries :: bytes where
  "two_entries = used_entry_bytes 34 40 @ used_entry_bytes 41 66"

lemmas two_entry_fields =
  used_entry [of 34 40 "used_entry_bytes 41 66", simplified]
  used_entry [of 41 66 "[]", simplified]

theorem gpt_entries_valid_iff_witness:
  "gpt_entries_valid two_entry_header two_entries \<and> slot_used two_entry_header two_entries 0
    \<and> entry_blocks (nth_entry two_entry_header two_entries 0) \<subseteq> {34 .. 66}"
proof -
  have u: "slot_used two_entry_header two_entries 0"
    by (simp add: slot_used_def two_entry_header_def nth_entry_def two_entries_def two_entry_fields)
  have v: "gpt_entries_valid two_entry_header two_entries"
    by (simp add: gpt_entries_valid_def two_entry_header_def nth_entry_def two_entries_def two_entry_fields
        gpt_entry_skip gpt_entry_fits_def ranges_meet_def upt_rec Let_def)
  with u have "entry_blocks (nth_entry two_entry_header two_entries 0)
      \<subseteq> {first_usable_lba two_entry_header .. last_usable_lba two_entry_header}"
    using gpt_entries_valid_iff [of two_entry_header two_entries] by blast
  with v u show ?thesis by (simp add: two_entry_header_def)
qed

section \<open>GPT checksums\<close>

lemma u32_at_put:
  "off + length data \<le> length b \<Longrightarrow> i + 4 \<le> off \<or> off + length data \<le> i \<Longrightarrow> u32_at i (put_bytes off data b) = u32_at i b"
  "off + length data \<le> length b \<Longrightarrow> i + 8 \<le> off \<or> off + length data \<le> i \<Longrightarrow> u64_at i (put_bytes off data b) = u64_at i b"
  by (simp_all add: u32_at_def u64_at_def put_bytes_other)

lemma u32_at_put_same: "off + 4 \<le> length b \<Longrightarrow> u32_at off (put_bytes off (le_bytes 4 (unat x)) b) = x"
  using put_bytes_read [of off "le_bytes 4 (unat x)" b] by (simp add: u32_at_def le_value_bytes)

lemma gpt_header_put:
  assumes "92 \<le> length b" "length data = 4" "off = 16 \<or> off = 88"
  shows "gpt_header (put_bytes off data b) = (gpt_header b)\<lparr>
    header_crc32 := u32_at 16 (put_bytes off data b), entries_crc32 := u32_at 88 (put_bytes off data b)\<rparr>"
proof -
  have sig: "take 8 (put_bytes off data b) = take 8 b"
    using put_bytes_other [of off data b 0 8] assms by auto
  show ?thesis
    using assms by (auto simp: gpt_header_def u32_at_put sig put_bytes_other)
qed

lemma put_bytes_again: "length data = length data' \<Longrightarrow> off + length data \<le> length b \<Longrightarrow>
    put_bytes off data (put_bytes off data' b) = put_bytes off data b"
  by (simp add: put_bytes_def)

lemma drop_put_bytes: "off + length data \<le> i \<Longrightarrow> off + length data \<le> length b \<Longrightarrow> drop i (put_bytes off data b) = drop i b"
  by (simp add: put_bytes_def)

text \<open>Updating the checksums of a header makes it pass the check that reading it makes, stores the
  checksum of the entries and changes no other byte of the sector.\<close>

theorem gpt_update_header_crc_accepted:
  assumes "92 \<le> length sector" and sector': "sector' = gpt_update_header_crc sector crc"
  shows "gpt_header_crc sector' = header_crc32 (gpt_header sector')
    \<and> gpt_header sector' = (gpt_header sector)\<lparr>header_crc32 := gpt_header_crc sector', entries_crc32 := crc\<rparr>
    \<and> length sector' = length sector \<and> take 16 sector' = take 16 sector
    \<and> take 68 (drop 20 sector') = take 68 (drop 20 sector) \<and> drop 92 sector' = drop 92 sector"
proof -
  let ?s1 = "put_bytes 88 (le_bytes 4 (unat crc)) sector"
  let ?s2 = "put_bytes 16 (replicate 4 0) ?s1"
  let ?c = "crc32_update 0xFFFFFFFF (take (unat (header_size (gpt_header ?s2))) ?s2) XOR 0xFFFFFFFF"
  have s': "sector' = put_bytes 16 (le_bytes 4 (unat ?c)) ?s2"
    by (simp add: sector' gpt_update_header_crc_def Let_def)
  have l: "length ?s1 = length sector" "length ?s2 = length sector" "length sector' = length sector"
    using assms(1) by (simp_all add: s')
  have h2: "gpt_header ?s2 = (gpt_header ?s1)\<lparr>header_crc32 := u32_at 16 ?s2, entries_crc32 := u32_at 88 ?s2\<rparr>"
    by (rule gpt_header_put) (use assms(1) l in simp_all)
  have h3: "gpt_header sector' = (gpt_header ?s2)\<lparr>header_crc32 := u32_at 16 sector', entries_crc32 := u32_at 88 sector'\<rparr>"
    unfolding s' by (rule gpt_header_put) (use assms(1) l in simp_all)
  have h1: "gpt_header ?s1 = (gpt_header sector)\<lparr>header_crc32 := u32_at 16 ?s1, entries_crc32 := u32_at 88 ?s1\<rparr>"
    by (rule gpt_header_put) (use assms(1) in simp_all)
  have c16: "u32_at 16 sector' = ?c" unfolding s' by (rule u32_at_put_same) (use assms(1) l in simp)
  have c88: "u32_at 88 sector' = crc"
    using assms(1) l u32_at_put_same [of 88 sector crc] by (simp add: s' u32_at_put)
  have "put_bytes 16 (replicate 4 0) sector' = ?s2"
    using assms(1) l unfolding s' by (simp add: put_bytes_again)
  then have crc: "gpt_header_crc sector' = ?c" by (simp add: gpt_header_crc_def h3)
  have "take 16 sector' = take 16 sector" "take 68 (drop 20 sector') = take 68 (drop 20 sector)"
    using assms(1) l put_bytes_other [of 16 _ _ 0 16] put_bytes_other [of 88 _ _ 0 16]
    by (simp_all add: s' put_bytes_other)
  moreover have "drop 92 sector' = drop 92 sector"
    using assms(1) l by (simp add: s' drop_put_bytes)
  ultimately show ?thesis using crc h3 h2 h1 c16 c88 l(3) by simp
qed

theorem gpt_update_header_crc_accepted_witness:
  "gpt_header_crc (gpt_update_header_crc (replicate 512 0) 7)
     = header_crc32 (gpt_header (gpt_update_header_crc (replicate 512 0) 7))"
proof -
  have "92 \<le> length (replicate 512 (0::u8))" by simp
  from gpt_update_header_crc_accepted [OF this refl] show ?thesis by (rule conjunct1)
qed

end
