(* ===== verification/Virtual_Filesystem.thy ===== *)
theory Virtual_Filesystem
  imports Partition_Table "HOL-Library.Char_ord"
begin

text \<open>
  \<^verbatim>\<open>src/kernel/vfs.c\<close>: the name space over the mounts.  Paths are routed to the volume with the longest
  mount point; open files are entries of a table of eight handles that hold a reference to their
  mount; volumes are mounted at chosen or given mount points and unmounted.

  The state \<open>vfs_state\<close> holds the static variables of the file, the mount manager
  (\<open>Filesystem_Mounts\<close>), the block devices with their partitions (\<open>Partition_Table\<close>), the kernel heap and the slots
  of the virtual disks, which \<^verbatim>\<open>vfs_initialize\<close> clears.  The array \<^verbatim>\<open>boot_nodes\<close> is the list of its first
  \<^verbatim>\<open>boot_node_count\<close> elements.  What other files provide is the parameter
  \<open>vfs_env\<close>: the file system drivers, the functions of \<^verbatim>\<open>fat16.c\<close>, \<^verbatim>\<open>fat32.c\<close> and \<^verbatim>\<open>ntfs.c\<close> on the volume they
  have mounted themselves, the block device drivers and the registration of devices.  Lines that are only
  logged are left out.  A directory entry of the legacy functions is an \<open>ASAS_FILESYSTEM_ENTRY\<close>, which has the
  fields that are read of it.
\<close>

section \<open>State\<close>

datatype FS_TYPE = FS_TYPE_FAT16 | FS_TYPE_FAT32 | FS_TYPE_NTFS

definition VFS_DISK_HANDLE_COUNT :: nat where "VFS_DISK_HANDLE_COUNT = 8"
definition VFS_BOOT_HANDLE_BASE :: u64 where "VFS_BOOT_HANDLE_BASE = 100"
definition VFS_PATH_CAPACITY :: nat where "VFS_PATH_CAPACITY = 64"
definition VFS_MAX_VOLUMES :: nat where "VFS_MAX_VOLUMES = 8"
definition VFS_PERMISSION_READ :: u8 where "VFS_PERMISSION_READ = 1"
definition VFS_PERMISSION_WRITE :: u8 where "VFS_PERMISSION_WRITE = 2"
definition VFS_PERMISSION_EXECUTE :: u8 where "VFS_PERMISSION_EXECUTE = 4"

datatype vfs_fs_type = VFS_FS_FAT16 | VFS_FS_FAT32 | VFS_FS_NTFS | VFS_FS_EXFAT | VFS_FS_ISO9660 | VFS_FS_UDF
  | VFS_FS_EXT2 | VFS_FS_NONE

record VFS_NODE =
  node_path :: string
  node_data :: "nat \<Rightarrow> u8"
  node_size :: u64

record VFS_DISK_HANDLE =
  dh_path :: string
  dh_mount :: "nat option"
  dh_mount_generation :: u32
  dh_used :: bool

record VFS_DIRECTORY_ENTRY =
  de_name :: string
  de_size :: u64
  de_is_directory :: bool
  de_permissions :: u8

record VFS_VOLUME_INFO =
  vol_valid :: bool
  vol_is_cdrom :: bool
  vol_is_removable :: bool
  vol_read_only :: bool
  vol_no_exec :: bool
  vol_target :: u8
  vol_lun :: u8
  vol_fs_type :: vfs_fs_type
  vol_mount_point :: string
  vol_label :: string
  vol_device_name :: string
  vol_partition_type :: string
  vol_uuid :: string

record ASAS_VDISK_INFO =
  vd_active :: bool
  vd_read_only :: bool
  vd_name :: string
  vd_format :: string
  vd_path :: string
  vd_size :: u64
  vd_file_size :: u64
  vd_device :: "nat option"

record ('v, 'd) vfs_state =
  welcome_node :: VFS_NODE
  boot_nodes :: "VFS_NODE list"
  disk_handles :: "VFS_DISK_HANDLE list"
  boot_fallback_enabled :: bool
  active_fs :: FS_TYPE
  vfs_lock_value :: bool
  vfs_status_reason :: string
  vfs_volumes :: "VFS_VOLUME_INFO list"
  vfs_mounts :: "nat option list"
  vfs_volume_count :: nat
  vfs_fs :: "'v fs_state"
  vfs_disks :: "'d partition_state"
  vfs_heap :: heap_state
  vdisks :: "ASAS_VDISK_INFO list"

record 'v legacy_fs =
  lf_mount_device :: "u8 \<Rightarrow> u8 \<Rightarrow> 'v \<Rightarrow> bool \<times> 'v"
  lf_exists :: "string \<Rightarrow> 'v \<Rightarrow> bool \<times> 'v"
  lf_is_directory :: "string \<Rightarrow> 'v \<Rightarrow> bool \<times> 'v"
  lf_file_size :: "string \<Rightarrow> 'v \<Rightarrow> u64 \<times> 'v"
  lf_read_file :: "string \<Rightarrow> u64 \<Rightarrow> 'v \<Rightarrow> (u64 \<times> bytes) \<times> 'v"
  lf_list_directory :: "string \<Rightarrow> u64 \<Rightarrow> 'v \<Rightarrow> (u64 \<times> ASAS_FILESYSTEM_ENTRY list) \<times> 'v"
  lf_write_file :: "string \<Rightarrow> bytes \<Rightarrow> 'v \<Rightarrow> bool \<times> 'v"
  lf_delete_file :: "string \<Rightarrow> 'v \<Rightarrow> bool \<times> 'v"
  lf_create_directory :: "string \<Rightarrow> 'v \<Rightarrow> bool \<times> 'v"
  lf_delete_directory :: "string \<Rightarrow> 'v \<Rightarrow> bool \<times> 'v"
  lf_initialize :: "'v \<Rightarrow> 'v"

text \<open>\<open>env_stat\<close> is what an uninitialised \<open>ASAS_FILE_STAT\<close> holds; \<open>env_register\<close> and \<open>env_rescan\<close> are the calls
  that register block devices, in order; \<open>env_legacy_backend\<close> the arguments of
  \<open>block_device_register_legacy_devices\<close> when the legacy backend is active.\<close>

record ('v, 'd) vfs_env =
  env_drivers :: "'v fs_drivers"
  env_contexts :: "'v fs_contexts"
  env_legacy :: "FS_TYPE \<Rightarrow> 'v legacy_fs"
  env_stat :: ASAS_FILE_STAT
  env_fuel :: nat
  env_blocks :: "'d drivers"
  env_register :: "('d block_state \<Rightarrow> 'd block_state) list"
  env_rescan :: "('d block_state \<Rightarrow> 'd block_state) list"
  env_legacy_backend :: "(nat \<times> ASAS_STORAGE_DEVICE list \<times> u8 \<times> u8) option"
  env_read_only_reason :: "nat \<Rightarrow> 'v \<Rightarrow> string"
  env_last_error :: "fs_driver \<Rightarrow> nat \<Rightarrow> 'v \<Rightarrow> string"

abbreviation vfs_blocks :: "('v, 'd) vfs_state \<Rightarrow> 'd block_state" where
  "vfs_blocks s \<equiv> pt_blocks (vfs_disks s)"

abbreviation vfs_world :: "('v, 'd) vfs_state \<Rightarrow> 'v" where
  "vfs_world s \<equiv> fs_world (vfs_fs s)"

definition set_world :: "'v \<Rightarrow> ('v, 'd) vfs_state \<Rightarrow> ('v, 'd) vfs_state" where
  "set_world v s = s\<lparr>vfs_fs := (vfs_fs s)\<lparr>fs_world := v\<rparr>\<rparr>"

text \<open>A call of a legacy function.\<close>

definition legacy_call :: "('v \<Rightarrow> 'r \<times> 'v) \<Rightarrow> ('v, 'd) vfs_state \<Rightarrow> 'r \<times> ('v, 'd) vfs_state" where
  "legacy_call f s = (let (r, v) = f (vfs_world s) in (r, set_world v s))"

definition legacy :: "('v, 'd) vfs_env \<Rightarrow> ('v, 'd) vfs_state \<Rightarrow> 'v legacy_fs" where
  "legacy e s = env_legacy e (active_fs s)"

definition upd_handle ::
  "nat \<Rightarrow> (VFS_DISK_HANDLE \<Rightarrow> VFS_DISK_HANDLE) \<Rightarrow> ('v, 'd) vfs_state \<Rightarrow> ('v, 'd) vfs_state" where
  "upd_handle i f s = s\<lparr>disk_handles := (disk_handles s)[i := f (disk_handles s ! i)]\<rparr>"

section \<open>Helpers\<close>

definition reason_copy :: "string option \<Rightarrow> string" where
  "reason_copy text = copy_string 128 (case text of None \<Rightarrow> [] | Some t \<Rightarrow> t)"

definition reason_append :: "string option \<Rightarrow> string \<Rightarrow> string" where
  "reason_append text reason = (case text of None \<Rightarrow> reason | Some t \<Rightarrow> reason @ take (127 - length reason) t)"

text \<open>The loop of \<open>vfs_reset_handles\<close>.\<close>

fun reset_handles_from :: "nat list \<Rightarrow> ('v, 'd) vfs_state \<Rightarrow> ('v, 'd) vfs_state option" where
  "reset_handles_from [] s = Some s"
| "reset_handles_from (index # rest) s = do {
     let h = disk_handles s ! index;
     fs1 \<leftarrow> (if dh_used h \<and> dh_mount h \<noteq> None then filesystem_mount_release (dh_mount h) (vfs_fs s)
            else Some (vfs_fs s));
     reset_handles_from rest (upd_handle index
       (\<lambda>h. h\<lparr>dh_used := False, dh_mount := None, dh_mount_generation := 0, dh_path := []\<rparr>) (s\<lparr>vfs_fs := fs1\<rparr>))
   }"

definition vfs_reset_handles :: "('v, 'd) vfs_state \<Rightarrow> ('v, 'd) vfs_state option" where
  "vfs_reset_handles = reset_handles_from [0 ..< VFS_DISK_HANDLE_COUNT]"

fun path_has_prefix :: "string \<Rightarrow> string \<Rightarrow> bool" where
  "path_has_prefix path [] = (path = [] \<or> hd path = CHR ''/'')"
| "path_has_prefix path (c # prefix) = (case path of [] \<Rightarrow> False | d # rest \<Rightarrow> d = c \<and> path_has_prefix rest prefix)"

definition vfs_lock :: "('v, 'd) vfs_state \<Rightarrow> ('v, 'd) vfs_state option" where
  "vfs_lock s = (if vfs_lock_value s then None else Some (s\<lparr>vfs_lock_value := True\<rparr>))"

definition vfs_unlock :: "('v, 'd) vfs_state \<Rightarrow> ('v, 'd) vfs_state" where
  "vfs_unlock s = s\<lparr>vfs_lock_value := False\<rparr>"

definition to_lower :: "char \<Rightarrow> char" where
  "to_lower value = (if CHR ''A'' \<le> value \<and> value \<le> CHR ''Z''
     then char_of (of_char value - of_char (CHR ''A'') + of_char (CHR ''a'') :: nat) else value)"

fun paths_equal :: "string \<Rightarrow> string \<Rightarrow> bool" where
  "paths_equal (l # left) (r # right) = (if to_lower l \<noteq> to_lower r then False else paths_equal left right)"
| "paths_equal left right = (left = [] \<and> right = [])"

definition vfs_select_primary :: "('v, 'd) vfs_env \<Rightarrow> ('v, 'd) vfs_state \<Rightarrow> ('v, 'd) vfs_state" where
  "vfs_select_primary e s =
     (if vfs_volume_count s > 0 \<and> vfs_mounts s ! 0 \<noteq> None then s
      else
        let t = (if vfs_volume_count s > 0 then vol_target (vfs_volumes s ! 0) else 0);
            l = (if vfs_volume_count s > 0 then vol_lun (vfs_volumes s ! 0) else 0)
        in snd (legacy_call (lf_mount_device (legacy e s) t l) s))"

section \<open>Routing\<close>

text \<open>The loop of \<open>vfs_select_volume_for_path\<close>: the volume with the longest mount point so far and that
  length.\<close>

fun best_volume ::
  "string \<Rightarrow> VFS_VOLUME_INFO list \<Rightarrow> nat \<Rightarrow> nat option \<Rightarrow> nat \<Rightarrow> nat option \<times> nat" where
  "best_volume path [] i best best_length = (best, best_length)"
| "best_volume path (v # rest) i best best_length =
     (if \<not> vol_valid v then best_volume path rest (Suc i) best best_length
      else
        let mplen = length (vol_mount_point v) in
        if mplen > best_length \<and> path_has_prefix path (vol_mount_point v)
        then best_volume path rest (Suc i) (Some i) mplen
        else best_volume path rest (Suc i) best best_length)"

definition or_root :: "string \<Rightarrow> string" where
  "or_root path = (if path = [] then ''/'' else path)"

definition disk_alias :: "string \<Rightarrow> nat option" where
  "disk_alias path =
     (if take 5 path = ''/disk'' \<and> length path \<ge> 6 \<and> CHR ''0'' \<le> path ! 5 \<and> path ! 5 \<le> CHR ''7''
         \<and> (length path = 6 \<or> path ! 6 = CHR ''/'')
      then Some (of_char (path ! 5) - of_char (CHR ''0'')) else None)"

definition vfs_select_volume_for_path :: "string \<Rightarrow> ('v, 'd) vfs_state \<Rightarrow> (nat \<times> string) option" where
  "vfs_select_volume_for_path path s =
     (let (best, best_length) = best_volume path (take (vfs_volume_count s) (vfs_volumes s)) 0 None 0 in
      case best of
        Some i \<Rightarrow> Some (i, or_root (drop best_length path))
      | None \<Rightarrow> (case disk_alias path of
          None \<Rightarrow> None
        | Some i \<Rightarrow> if i < vfs_volume_count s \<and> vol_valid (vfs_volumes s ! i)
            then Some (i, or_root (drop 6 path)) else None))"

definition vfs_type_from_driver :: "'v ASAS_FILESYSTEM_DRIVER option \<Rightarrow> vfs_fs_type" where
  "vfs_type_from_driver driver =
     (case driver of None \<Rightarrow> VFS_FS_NONE
      | Some d \<Rightarrow>
          let name = the (fd_name d) in
          if strings_equal name ''fat32'' then VFS_FS_FAT32
          else if strings_equal name ''ntfs'' then VFS_FS_NTFS
          else if strings_equal name ''exfat'' then VFS_FS_EXFAT
          else if strings_equal name ''iso9660'' then VFS_FS_ISO9660
          else if strings_equal name ''udf'' then VFS_FS_UDF
          else if strings_equal name ''ext2'' then VFS_FS_EXT2
          else VFS_FS_NONE)"

definition vfs_mount_for_path :: "string \<Rightarrow> ('v, 'd) vfs_state \<Rightarrow> nat option \<times> string" where
  "vfs_mount_for_path path s =
     (case vfs_select_volume_for_path path s of
        Some (volume_index, rel) \<Rightarrow> (vfs_mounts s ! volume_index, rel)
      | None \<Rightarrow>
          if path_has_prefix path ''/system'' \<and> vfs_volume_count s > 0
          then (vfs_mounts s ! 0, or_root (drop 7 path))
          else (if vfs_volume_count s > 0 then vfs_mounts s ! 0 else None, path))"

section \<open>Boot files and handles\<close>

text \<open>The fields of \<open>ASAS_BOOT_INFO\<close> that are read here.\<close>

record boot_files =
  boot_disk_text_base :: u64
  boot_disk_text_size :: u64
  boot_readme_base :: u64
  boot_readme_size :: u64
  boot_user_program_base :: u64
  boot_user_program_size :: u64

definition boot_node :: "(u64 \<Rightarrow> u8) \<Rightarrow> string \<Rightarrow> u64 \<Rightarrow> u64 \<Rightarrow> VFS_NODE list" where
  "boot_node mem path base sz =
     (if base \<noteq> 0 \<and> sz \<noteq> 0
      then [\<lparr>node_path = path, node_data = (\<lambda>i. mem (base + of_nat i)), node_size = sz\<rparr>] else [])"

definition vfs_set_boot_info ::
  "(u64 \<Rightarrow> u8) \<Rightarrow> boot_files option \<Rightarrow> ('v, 'd) vfs_state \<Rightarrow> ('v, 'd) vfs_state" where
  "vfs_set_boot_info mem boot_info s =
     (case boot_info of None \<Rightarrow> s\<lparr>boot_nodes := []\<rparr>
      | Some b \<Rightarrow> s\<lparr>boot_nodes :=
          boot_node mem ''/DISK.TXT'' (boot_disk_text_base b) (boot_disk_text_size b)
          @ boot_node mem ''/ASAS/README.TXT'' (boot_readme_base b) (boot_readme_size b)
          @ boot_node mem ''/HELLO.EXE'' (boot_user_program_base b) (boot_user_program_size b)\<rparr>)"

definition welcome_text :: bytes where
  "welcome_text = map of_char ''Asas OS virtual filesystem''"

definition welcome_file :: VFS_NODE where
  "welcome_file = \<lparr>node_path = ''/welcome.txt'', node_data = (\<lambda>i. welcome_text ! i),
     node_size = of_nat (length welcome_text)\<rparr>"

definition vfs_initialize_boot_fallback :: "('v, 'd) vfs_state \<Rightarrow> ('v, 'd) vfs_state option" where
  "vfs_initialize_boot_fallback s =
     map_option (\<lambda>s1. s1\<lparr>active_fs := FS_TYPE_FAT16, boot_fallback_enabled := True\<rparr>)
       (vfs_reset_handles (s\<lparr>welcome_node := welcome_file\<rparr>))"

text \<open>The first index from \<open>index\<close> on whose node has the path.\<close>

fun boot_index :: "string \<Rightarrow> VFS_NODE list \<Rightarrow> nat \<Rightarrow> nat option" where
  "boot_index path [] index = None"
| "boot_index path (n # rest) index =
     (if paths_equal path (node_path n) then Some index else boot_index path rest (Suc index))"

text \<open>The check that a path on no volume exists, on the file system that is active.\<close>

definition legacy_openable ::
  "('v, 'd) vfs_env \<Rightarrow> string \<Rightarrow> ('v, 'd) vfs_state \<Rightarrow> bool \<times> ('v, 'd) vfs_state" where
  "legacy_openable e path s =
     (let s1 = vfs_select_primary e s in
      case active_fs s1 of
        FS_TYPE_FAT16 \<Rightarrow>
          let (sz, s2) = legacy_call (lf_file_size (legacy e s1) path) s1 in
          if sz = 0 then legacy_call (lf_is_directory (legacy e s1) path) s2 else (True, s2)
      | _ \<Rightarrow> legacy_call (lf_exists (legacy e s1) path) s1)"

text \<open>Checking the file and taking the reference: the mount to be put in the handle, or \<open>None\<close> when the file
  cannot be opened.\<close>

definition open_target ::
  "('v, 'd) vfs_env \<Rightarrow> string \<Rightarrow> ('v, 'd) vfs_state \<Rightarrow> (nat option option \<times> ('v, 'd) vfs_state) option" where
  "open_target e path s =
     (case vfs_mount_for_path path s of
        (Some m, rel) \<Rightarrow> do {
          ((ok, st), fs1) \<leftarrow> filesystem_stat (env_drivers e) (Some m) rel (Some (env_stat e)) (vfs_fs s);
          let s1 = s\<lparr>vfs_fs := fs1\<rparr>;
          if \<not> ok \<or> \<not> stat_exists (the st) \<or> stat_is_directory (the st) then Some (None, s1)
          else do {
            (ok1, fs2) \<leftarrow> filesystem_mount_acquire (Some m) fs1;
            Some (if ok1 then Some (Some m) else None, s1\<lparr>vfs_fs := fs2\<rparr>)
          }
        }
      | (None, rel) \<Rightarrow>
          let (ok, s1) = legacy_openable e path s in Some (if ok then Some None else None, s1))"

text \<open>The first unused handle.\<close>

definition free_handle :: "('v, 'd) vfs_state \<Rightarrow> nat option" where
  "free_handle s = find (\<lambda>i. \<not> dh_used (disk_handles s ! i)) [0 ..< VFS_DISK_HANDLE_COUNT]"

definition open_handle ::
  "string \<Rightarrow> nat option \<Rightarrow> ('v, 'd) vfs_state \<Rightarrow> (u64 \<times> ('v, 'd) vfs_state) option" where
  "open_handle path opened_mount s = do {
     s1 \<leftarrow> vfs_lock s;
     (case free_handle s1 of
        Some index \<Rightarrow>
          Some (of_nat index + 2, vfs_unlock (upd_handle index (\<lambda>h. h\<lparr>dh_path := copy_string VFS_PATH_CAPACITY path,
            dh_mount := opened_mount,
            dh_mount_generation := (case opened_mount of None \<Rightarrow> 0 | Some m \<Rightarrow> fm_generation (mounts (vfs_fs s) ! m)),
            dh_used := True\<rparr>) s1))
      | None \<Rightarrow> do {
          let s2 = vfs_unlock s1;
          fs1 \<leftarrow> (if opened_mount \<noteq> None then filesystem_mount_release opened_mount (vfs_fs s2) else Some (vfs_fs s2));
          Some (0, s2\<lparr>vfs_fs := fs1\<rparr>)
        })
   }"

definition vfs_open :: "('v, 'd) vfs_env \<Rightarrow> string \<Rightarrow> ('v, 'd) vfs_state \<Rightarrow> (u64 \<times> ('v, 'd) vfs_state) option" where
  "vfs_open e path s =
     (if strings_equal path (node_path (welcome_node s)) then Some (1, s)
      else if boot_fallback_enabled s then
        (case boot_index path (boot_nodes s) 0 of
           Some index \<Rightarrow> Some (VFS_BOOT_HANDLE_BASE + of_nat index, s)
         | None \<Rightarrow> Some (0, s))
      else do {
        (target, s1) \<leftarrow> open_target e path s;
        (case target of None \<Rightarrow> Some (0, s1) | Some opened_mount \<Rightarrow> open_handle path opened_mount s1)
      })"

definition node_bytes :: "VFS_NODE \<Rightarrow> u64 \<Rightarrow> u64 \<times> bytes" where
  "node_bytes n sz = (let copy_size = (if sz < node_size n then sz else node_size n)
     in (copy_size, map (node_data n) [0 ..< unat copy_size]))"

definition disk_handle :: "u64 \<Rightarrow> ('v, 'd) vfs_state \<Rightarrow> nat option" where
  "disk_handle handle s =
     (if handle \<ge> 2 \<and> handle < of_nat VFS_DISK_HANDLE_COUNT + 2 \<and> dh_used (disk_handles s ! unat (handle - 2))
      then Some (unat (handle - 2)) else None)"

definition is_boot_handle :: "u64 \<Rightarrow> ('v, 'd) vfs_state \<Rightarrow> bool" where
  "is_boot_handle handle s \<longleftrightarrow> handle \<ge> VFS_BOOT_HANDLE_BASE
     \<and> handle < VFS_BOOT_HANDLE_BASE + of_nat (length (boot_nodes s))"

definition vfs_read ::
  "('v, 'd) vfs_env \<Rightarrow> u64 \<Rightarrow> u64 \<Rightarrow> ('v, 'd) vfs_state \<Rightarrow> ((u64 \<times> bytes) \<times> ('v, 'd) vfs_state) option" where
  "vfs_read e handle sz s = do {
     s0 \<leftarrow> vfs_lock s;
     let opened = disk_handle handle s0;
     let s1 = vfs_unlock s0;
     if boot_fallback_enabled s1 \<and> is_boot_handle handle s1 then
       Some (node_bytes (boot_nodes s1 ! unat (handle - VFS_BOOT_HANDLE_BASE)) sz, s1)
     else (case opened of
         Some index \<Rightarrow>
           let h = disk_handles s1 ! index;
               disk_path = copy_string VFS_PATH_CAPACITY (dh_path h);
               (mount, rel) = vfs_mount_for_path disk_path s1
           in if (case dh_mount h of None \<Rightarrow> False
                  | Some m \<Rightarrow> \<not> fm_active (mounts (vfs_fs s1) ! m)
                      \<or> fm_generation (mounts (vfs_fs s1) ! m) \<noteq> dh_mount_generation h \<or> mount \<noteq> Some m)
              then Some ((0, []), s1)
              else if mount \<noteq> None then do {
                (r, fs1) \<leftarrow> filesystem_read (env_drivers e) mount rel sz (vfs_fs s1);
                Some (r, s1\<lparr>vfs_fs := fs1\<rparr>)
              } else
                let s2 = vfs_select_primary e s1
                in Some (legacy_call (lf_read_file (legacy e s2) disk_path sz) s2)
       | None \<Rightarrow> Some (if handle \<noteq> 1 then (0, []) else node_bytes (welcome_node s1) sz, s1))
   }"

definition vfs_close :: "u64 \<Rightarrow> ('v, 'd) vfs_state \<Rightarrow> (bool \<times> ('v, 'd) vfs_state) option" where
  "vfs_close handle s =
     (if handle = 1 \<or> is_boot_handle handle s then Some (True, s)
      else do {
        s1 \<leftarrow> vfs_lock s;
        (case disk_handle handle s1 of
           Some index \<Rightarrow> do {
             let mount = dh_mount (disk_handles s1 ! index);
             let s2 = vfs_unlock (upd_handle index (\<lambda>h. h\<lparr>dh_used := False, dh_mount := None\<rparr>) s1);
             fs1 \<leftarrow> (if mount \<noteq> None then filesystem_mount_release mount (vfs_fs s2) else Some (vfs_fs s2));
             Some (True, s2\<lparr>vfs_fs := fs1\<rparr>)
           }
         | None \<Rightarrow> Some (False, vfs_unlock s1))
      })"

section \<open>Files and directories by path\<close>

text \<open>The changing operations: refused in the boot fallback, passed to the mount of the path, or to the
  active legacy file system, which cannot change NTFS.\<close>

definition vfs_change ::
  "('v, 'd) vfs_env \<Rightarrow> (nat option \<Rightarrow> string \<Rightarrow> 'v fs_state \<Rightarrow> (bool \<times> 'v fs_state) option) \<Rightarrow>
   ('v legacy_fs \<Rightarrow> 'v \<Rightarrow> bool \<times> 'v) \<Rightarrow> string \<Rightarrow> ('v, 'd) vfs_state \<Rightarrow> (bool \<times> ('v, 'd) vfs_state) option" where
  "vfs_change e change old path s =
     (if boot_fallback_enabled s then Some (False, s)
      else case vfs_mount_for_path path s of
          (Some m, rel) \<Rightarrow> do { (ok, fs1) \<leftarrow> change (Some m) rel (vfs_fs s); Some (ok, s\<lparr>vfs_fs := fs1\<rparr>) }
        | (None, rel) \<Rightarrow>
            if active_fs s = FS_TYPE_NTFS then Some (False, s)
            else Some (legacy_call (old (legacy e s)) s))"

definition vfs_write_file ::
  "('v, 'd) vfs_env \<Rightarrow> string \<Rightarrow> bytes \<Rightarrow> ('v, 'd) vfs_state \<Rightarrow> (bool \<times> ('v, 'd) vfs_state) option" where
  "vfs_write_file e path buffer =
     vfs_change e (\<lambda>m rel. filesystem_write (env_drivers e) m rel buffer) (\<lambda>l. lf_write_file l path buffer) path"

definition vfs_delete_file ::
  "('v, 'd) vfs_env \<Rightarrow> string \<Rightarrow> ('v, 'd) vfs_state \<Rightarrow> (bool \<times> ('v, 'd) vfs_state) option" where
  "vfs_delete_file e path = vfs_change e (filesystem_unlink (env_drivers e)) (\<lambda>l. lf_delete_file l path) path"

definition vfs_create_directory ::
  "('v, 'd) vfs_env \<Rightarrow> string \<Rightarrow> ('v, 'd) vfs_state \<Rightarrow> (bool \<times> ('v, 'd) vfs_state) option" where
  "vfs_create_directory e path =
     vfs_change e (filesystem_mkdir (env_drivers e)) (\<lambda>l. lf_create_directory l path) path"

definition vfs_delete_directory ::
  "('v, 'd) vfs_env \<Rightarrow> string \<Rightarrow> ('v, 'd) vfs_state \<Rightarrow> (bool \<times> ('v, 'd) vfs_state) option" where
  "vfs_delete_directory e path =
     vfs_change e (filesystem_rmdir (env_drivers e)) (\<lambda>l. lf_delete_directory l path) path"

definition vfs_rename ::
  "('v, 'd) vfs_env \<Rightarrow> string \<Rightarrow> string \<Rightarrow> ('v, 'd) vfs_state \<Rightarrow> (bool \<times> ('v, 'd) vfs_state) option" where
  "vfs_rename e source destination s =
     (let (source_mount, source_relative) = vfs_mount_for_path source s;
          (destination_mount, destination_relative) = vfs_mount_for_path destination s
      in if source_mount = None \<or> source_mount \<noteq> destination_mount then Some (False, s)
         else do {
           (ok, fs1) \<leftarrow> filesystem_rename (env_drivers e) source_mount source_relative destination_relative (vfs_fs s);
           Some (ok, s\<lparr>vfs_fs := fs1\<rparr>)
         })"

definition vfs_sync_path ::
  "('v, 'd) vfs_env \<Rightarrow> string option \<Rightarrow> ('v, 'd) vfs_state \<Rightarrow> (bool \<times> ('v, 'd) vfs_state) option" where
  "vfs_sync_path e path s =
     (case path of None \<Rightarrow> Some (False, s)
      | Some p \<Rightarrow> (case vfs_mount_for_path p s of
          (None, _) \<Rightarrow> Some (False, s)
        | (Some m, _) \<Rightarrow> do {
            (ok, fs1) \<leftarrow> filesystem_sync (env_drivers e) (Some m) (vfs_fs s);
            Some (ok, s\<lparr>vfs_fs := fs1\<rparr>)
          }))"

definition vfs_can_execute :: "string option \<Rightarrow> ('v, 'd) vfs_state \<Rightarrow> bool" where
  "vfs_can_execute path s =
     (case path of None \<Rightarrow> False
      | Some p \<Rightarrow>
          boot_fallback_enabled s
          \<or> (case fst (vfs_mount_for_path p s) of None \<Rightarrow> False
             | Some m \<Rightarrow> fm_flags (mounts (vfs_fs s) ! m) AND FILESYSTEM_FLAG_NO_EXEC = 0))"

definition vfs_is_directory ::
  "('v, 'd) vfs_env \<Rightarrow> string \<Rightarrow> ('v, 'd) vfs_state \<Rightarrow> (bool \<times> ('v, 'd) vfs_state) option" where
  "vfs_is_directory e path s =
     (if boot_fallback_enabled s then
        Some (paths_equal path ''/''
          \<or> paths_equal path ''/ASAS''
            \<and> list_ex (\<lambda>n. paths_equal (node_path n) ''/ASAS/README.TXT'') (boot_nodes s), s)
      else if strings_equal path ''/media'' then Some (True, s)
      else case vfs_mount_for_path path s of
          (Some m, rel) \<Rightarrow> do {
            ((ok, st), fs1) \<leftarrow> filesystem_stat (env_drivers e) (Some m) rel (Some (env_stat e)) (vfs_fs s);
            Some (ok \<and> stat_is_directory (the st), s\<lparr>vfs_fs := fs1\<rparr>)
          }
        | (None, rel) \<Rightarrow> Some (legacy_call (lf_is_directory (legacy e s) path) s))"

definition vfs_file_size ::
  "('v, 'd) vfs_env \<Rightarrow> string \<Rightarrow> ('v, 'd) vfs_state \<Rightarrow> (u64 \<times> ('v, 'd) vfs_state) option" where
  "vfs_file_size e path s =
     (if boot_fallback_enabled s then
        Some (if strings_equal path (node_path (welcome_node s)) then node_size (welcome_node s)
          else (case boot_index path (boot_nodes s) 0 of Some i \<Rightarrow> node_size (boot_nodes s ! i) | None \<Rightarrow> 0), s)
      else case vfs_mount_for_path path s of
          (Some m, rel) \<Rightarrow> do {
            ((ok, st), fs1) \<leftarrow> filesystem_stat (env_drivers e) (Some m) rel (Some (env_stat e)) (vfs_fs s);
            Some (if \<not> ok \<or> stat_is_directory (the st) then 0 else stat_size (the st), s\<lparr>vfs_fs := fs1\<rparr>)
          }
        | (None, rel) \<Rightarrow>
            let s1 = vfs_select_primary e s in Some (legacy_call (lf_file_size (legacy e s1) path) s1))"

text \<open>The error text.  The last case builds it in the static buffer.\<close>

definition vfs_write_status_reason ::
  "('v, 'd) vfs_env \<Rightarrow> string \<Rightarrow> ('v, 'd) vfs_state \<Rightarrow> string \<times> ('v, 'd) vfs_state" where
  "vfs_write_status_reason e path s =
     (if boot_fallback_enabled s then (''storage is in RAM boot fallback'', s)
      else case fst (vfs_mount_for_path path s) of
          None \<Rightarrow> (''no mounted filesystem for path'', s)
        | Some i \<Rightarrow>
            let m = mounts (vfs_fs s) ! i;
                ro = fm_flags m AND FILESYSTEM_FLAG_READ_ONLY \<noteq> 0 in
            if \<not> fm_active m then (''no mounted filesystem for path'', s)
            else case fm_device m of
                None \<Rightarrow> (''mounted filesystem has no block device'', s)
              | Some d \<Rightarrow>
                  let fl = bd_flags (devices (vfs_blocks s) ! d);
                      name = (case fm_driver m of None \<Rightarrow> None | Some n \<Rightarrow> fd_name (env_drivers e n)) in
                  if fl AND BLOCK_DEVICE_FLAG_OPTICAL \<noteq> 0 then (''physical optical media is read-only'', s)
                  else if fl AND BLOCK_DEVICE_FLAG_READ_ONLY \<noteq> 0 then (''device is write-protected'', s)
                  else if ro \<and> name = Some ''ntfs'' \<and> fm_context m \<noteq> None
                  then (env_read_only_reason e (the (fm_context m)) (vfs_world s), s)
                  else if ro then (''filesystem is mounted read-only'', s)
                  else if name = Some ''ntfs'' \<and> fm_context m \<noteq> None
                  then (env_last_error e ntfs_driver (the (fm_context m)) (vfs_world s), s)
                  else if name = Some ''fat32'' \<and> fm_context m \<noteq> None
                  then (env_last_error e fat32_driver (the (fm_context m)) (vfs_world s), s)
                  else
                    let r = reason_append (Some '': operation rejected by filesystem driver'')
                      (reason_append (Some (case name of None \<Rightarrow> ''unknown'' | Some t \<Rightarrow> t))
                        (reason_copy (Some ''driver '')))
                    in (r, s\<lparr>vfs_status_reason := r\<rparr>))"

section \<open>Listing\<close>

definition sizeof_FAT16_FILE_INFO :: u64 where "sizeof_FAT16_FILE_INFO = 32"
definition sizeof_FAT32_FILE_INFO :: u64 where "sizeof_FAT32_FILE_INFO = 272"
definition sizeof_NTFS_FILE_INFO :: u64 where "sizeof_NTFS_FILE_INFO = 272"
definition sizeof_FILESYSTEM_ENTRY :: u64 where "sizeof_FILESYSTEM_ENTRY = 272"

definition vfs_entry :: "ASAS_FILESYSTEM_ENTRY \<Rightarrow> VFS_DIRECTORY_ENTRY" where
  "vfs_entry x = \<lparr>de_name = copy_string 32 (entry_name x), de_size = entry_length x,
     de_is_directory = entry_is_directory x,
     de_permissions = (if entry_read_only x then VFS_PERMISSION_READ else VFS_PERMISSION_READ OR VFS_PERMISSION_WRITE)\<rparr>"

text \<open>A listing into a buffer of \<open>cap\<close> entries from the kernel heap: \<open>None\<close> when the heap has no room.\<close>

definition list_items ::
  "(('v, 'd) vfs_state \<Rightarrow> ((u64 \<times> ASAS_FILESYSTEM_ENTRY list) \<times> ('v, 'd) vfs_state) option) \<Rightarrow> u64 \<Rightarrow>
   ('v, 'd) vfs_state \<Rightarrow> (ASAS_FILESYSTEM_ENTRY list option \<times> ('v, 'd) vfs_state) option" where
  "list_items listing bytes s = do {
     (p, h1) \<leftarrow> kmalloc bytes (vfs_heap s);
     if p = 0 then Some (None, s\<lparr>vfs_heap := h1\<rparr>)
     else do {
       ((n, items), s1) \<leftarrow> listing (s\<lparr>vfs_heap := h1\<rparr>);
       h2 \<leftarrow> kfree p (vfs_heap s1);
       Some (Some (take (unat n) items), s1\<lparr>vfs_heap := h2\<rparr>)
     }
   }"

definition list_mounted ::
  "('v, 'd) vfs_env \<Rightarrow> nat option \<Rightarrow> string \<Rightarrow> u64 \<Rightarrow> ('v, 'd) vfs_state \<Rightarrow>
   (ASAS_FILESYSTEM_ENTRY list option \<times> ('v, 'd) vfs_state) option" where
  "list_mounted e mount path cap =
     list_items (\<lambda>s. do { (r, fs1) \<leftarrow> filesystem_list (env_drivers e) mount path cap (vfs_fs s);
                          Some (r, s\<lparr>vfs_fs := fs1\<rparr>) }) (cap * sizeof_FILESYSTEM_ENTRY)"

definition list_legacy ::
  "('v, 'd) vfs_env \<Rightarrow> FS_TYPE \<Rightarrow> string \<Rightarrow> u64 \<Rightarrow> ('v, 'd) vfs_state \<Rightarrow>
   (ASAS_FILESYSTEM_ENTRY list option \<times> ('v, 'd) vfs_state) option" where
  "list_legacy e t path item_cap =
     (let cap = (if t = FS_TYPE_NTFS \<and> \<not> item_cap < 64 then 64 else item_cap);
          bytes = (case t of FS_TYPE_FAT16 \<Rightarrow> sizeof_FAT16_FILE_INFO | FS_TYPE_FAT32 \<Rightarrow> sizeof_FAT32_FILE_INFO
                   | FS_TYPE_NTFS \<Rightarrow> sizeof_NTFS_FILE_INFO)
      in list_items (\<lambda>s. Some (legacy_call (lf_list_directory (env_legacy e t) path cap) s)) (cap * bytes))"

definition legacy_type :: "vfs_fs_type \<Rightarrow> FS_TYPE option" where
  "legacy_type t = (case t of VFS_FS_FAT16 \<Rightarrow> Some FS_TYPE_FAT16 | VFS_FS_FAT32 \<Rightarrow> Some FS_TYPE_FAT32
     | VFS_FS_NTFS \<Rightarrow> Some FS_TYPE_NTFS | _ \<Rightarrow> None)"

definition vfs_list_on_volume ::
  "('v, 'd) vfs_env \<Rightarrow> nat \<Rightarrow> string \<Rightarrow> u64 \<Rightarrow> ('v, 'd) vfs_state \<Rightarrow>
   (VFS_DIRECTORY_ENTRY list \<times> ('v, 'd) vfs_state) option" where
  "vfs_list_on_volume e vol_idx rel_path capacity s =
     (let vol = vfs_volumes s ! vol_idx;
          item_cap = (if capacity < 256 then capacity else 256) in
      if vfs_mounts s ! vol_idx \<noteq> None then do {
        (items, s1) \<leftarrow> list_mounted e (vfs_mounts s ! vol_idx) rel_path item_cap s;
        Some (case items of None \<Rightarrow> [] | Some xs \<Rightarrow> map vfs_entry xs, s1)
      }
      else if vol_fs_type vol = VFS_FS_NONE then Some ([], s)
      else case legacy_type (vol_fs_type vol) of
          None \<Rightarrow> Some ([], vfs_select_primary e s)
        | Some t \<Rightarrow> (case legacy_call (lf_mount_device (env_legacy e t) (vol_target vol) (vol_lun vol)) s of
            (False, s1) \<Rightarrow> Some ([], vfs_select_primary e s1)
          | (True, s1) \<Rightarrow> do {
              (items, s2) \<leftarrow> list_legacy e t rel_path item_cap s1;
              Some (case items of None \<Rightarrow> [] | Some xs \<Rightarrow> map vfs_entry (take (unat capacity) xs),
                vfs_select_primary e s2)
            }))"

definition virtual_entry :: "string \<Rightarrow> u64 \<Rightarrow> bool \<Rightarrow> u8 \<Rightarrow> VFS_DIRECTORY_ENTRY" where
  "virtual_entry name sz dir perm =
     \<lparr>de_name = copy_string 32 name, de_size = sz, de_is_directory = dir, de_permissions = perm\<rparr>"

definition list_media :: "u64 \<Rightarrow> ('v, 'd) vfs_state \<Rightarrow> VFS_DIRECTORY_ENTRY list" where
  "list_media capacity s = take (unat capacity) (map
     (\<lambda>v. virtual_entry (drop 7 (vol_mount_point v)) 0 True
        (if vol_read_only v then VFS_PERMISSION_READ else VFS_PERMISSION_READ OR VFS_PERMISSION_WRITE))
     (filter (\<lambda>v. vol_valid v \<and> path_has_prefix (vol_mount_point v) ''/media''
         \<and> length (vol_mount_point v) > 6 \<and> vol_mount_point v ! 6 = CHR ''/'')
       (take (vfs_volume_count s) (vfs_volumes s))))"

text \<open>The loop over the boot nodes for the root; \<open>room\<close> entries are left, \<open>added_asas\<close> the local variable.\<close>

fun list_boot_root :: "VFS_NODE list \<Rightarrow> nat \<Rightarrow> bool \<Rightarrow> VFS_DIRECTORY_ENTRY list" where
  "list_boot_root [] room added_asas = []"
| "list_boot_root (n # rest) room added_asas =
     (if room = 0 then []
      else if paths_equal (node_path n) ''/DISK.TXT'' then
        virtual_entry ''DISK.TXT'' (node_size n) False VFS_PERMISSION_READ # list_boot_root rest (room - 1) added_asas
      else if paths_equal (node_path n) ''/HELLO.EXE'' then
        virtual_entry ''HELLO.EXE'' (node_size n) False (VFS_PERMISSION_READ OR VFS_PERMISSION_EXECUTE)
          # list_boot_root rest (room - 1) added_asas
      else if paths_equal (node_path n) ''/ASAS/README.TXT'' \<and> \<not> added_asas then
        virtual_entry ''ASAS'' 0 True VFS_PERMISSION_READ # list_boot_root rest (room - 1) True
      else list_boot_root rest room added_asas)"

definition list_boot_asas :: "VFS_NODE list \<Rightarrow> nat \<Rightarrow> VFS_DIRECTORY_ENTRY list" where
  "list_boot_asas ns room = take room (map (\<lambda>n. virtual_entry ''README.TXT'' (node_size n) False VFS_PERMISSION_READ)
     (filter (\<lambda>n. paths_equal (node_path n) ''/ASAS/README.TXT'') ns))"

definition root_namespace :: "('v, 'd) vfs_state \<Rightarrow> VFS_DIRECTORY_ENTRY list" where
  "root_namespace s = map (\<lambda>name. virtual_entry name 0 True VFS_PERMISSION_READ)
     ([''system''] @ (if list_ex (\<lambda>v. vol_valid v \<and> strings_equal (vol_mount_point v) ''/data'')
          (drop 1 (take (vfs_volume_count s) (vfs_volumes s))) then [''data''] else []) @ [''media''])"

definition vfs_list_directory ::
  "('v, 'd) vfs_env \<Rightarrow> string \<Rightarrow> u64 \<Rightarrow> ('v, 'd) vfs_state \<Rightarrow>
   (VFS_DIRECTORY_ENTRY list \<times> ('v, 'd) vfs_state) option" where
  "vfs_list_directory e path capacity s =
     (if capacity = 0 then Some ([], s)
      else if \<not> boot_fallback_enabled s \<and> strings_equal path ''/media'' then Some (list_media capacity s, s)
      else case (if boot_fallback_enabled s then None else vfs_select_volume_for_path path s) of
          Some (vol_idx, rel_path) \<Rightarrow> vfs_list_on_volume e vol_idx rel_path capacity s
        | None \<Rightarrow>
            let s1 = (if boot_fallback_enabled s then s else vfs_select_primary e s);
                out = (if strings_equal path ''/''
                  then [virtual_entry ''welcome.txt'' (node_size (welcome_node s)) False VFS_PERMISSION_READ] else []);
                remaining = unat capacity - length out;
                internal_cap = of_nat (if remaining < 256 then remaining else 256) in
            if boot_fallback_enabled s then
              Some (if strings_equal path ''/'' then out @ list_boot_root (boot_nodes s) remaining False
                else if paths_equal path ''/ASAS'' then out @ list_boot_asas (boot_nodes s) remaining else [], s1)
            else if internal_cap = 0 then Some (out, s1)
            else do {
              (items, s2) \<leftarrow>
                (if vfs_volume_count s1 > 0 \<and> vfs_mounts s1 ! 0 \<noteq> None
                 then list_mounted e (vfs_mounts s1 ! 0) path internal_cap s1
                 else list_legacy e (active_fs s1) path internal_cap s1);
              (case items of None \<Rightarrow> Some (out, s2)
               | Some xs \<Rightarrow>
                   let out1 = out @ map vfs_entry (take remaining xs) in
                   Some (if strings_equal path ''/'' then out1 @ take (unat capacity - length out1) (root_namespace s2)
                     else out1, s2))
            })"

definition vfs_list_root ::
  "('v, 'd) vfs_env \<Rightarrow> u64 \<Rightarrow> ('v, 'd) vfs_state \<Rightarrow> (VFS_DIRECTORY_ENTRY list \<times> ('v, 'd) vfs_state) option" where
  "vfs_list_root e = vfs_list_directory e ''/''"

section \<open>Volumes\<close>

definition vfs_get_volume_count :: "('v, 'd) vfs_state \<Rightarrow> nat" where
  "vfs_get_volume_count = vfs_volume_count"

definition vfs_get_volume :: "int \<Rightarrow> ('v, 'd) vfs_state \<Rightarrow> VFS_VOLUME_INFO option" where
  "vfs_get_volume index s =
     (if index < 0 \<or> index \<ge> int (vfs_volume_count s) then None else Some (vfs_volumes s ! nat index))"

definition block_device_has_partitions :: "nat \<Rightarrow> 'd block_state \<Rightarrow> bool" where
  "block_device_has_partitions device b =
     list_ex (\<lambda>index. case block_device_get (of_nat index) b of None \<Rightarrow> False
       | Some candidate \<Rightarrow> bd_parent (devices b ! candidate) = Some device) [0 ..< unat (block_device_count b)]"

definition mount_point_in_use :: "string \<Rightarrow> ('v, 'd) vfs_state \<Rightarrow> bool" where
  "mount_point_in_use path s =
     list_ex (\<lambda>v. vol_valid v \<and> strings_equal (vol_mount_point v) path) (take (vfs_volume_count s) (vfs_volumes s))"

text \<open>The digits of a number, least significant first; the array holds ten.\<close>

fun digits_from :: "nat \<Rightarrow> u32 \<Rightarrow> string" where
  "digits_from 0 number = []"
| "digits_from (Suc left) number =
     char_of (48 + unat (number mod 10)) # (if number div 10 \<noteq> 0 then digits_from left (number div 10) else [])"

definition append_decimal :: "string \<Rightarrow> nat \<Rightarrow> u32 \<Rightarrow> string" where
  "append_decimal path capacity number = path @ take (capacity - 1 - length path) (rev (digits_from 10 number))"

text \<open>The loops of \<open>choose_auto_mount_point\<close>: the first number from \<open>number\<close> on whose name is free.\<close>

partial_function (option) auto_name :: "string \<Rightarrow> u32 \<Rightarrow> ('v, 'd) vfs_state \<Rightarrow> string option" where
  "auto_name prefix number s =
     (let path = append_decimal (copy_string 32 prefix) 32 number in
      if mount_point_in_use path s then auto_name prefix (number + 1) s else Some path)"

definition choose_auto_mount_point :: "VFS_VOLUME_INFO \<Rightarrow> ('v, 'd) vfs_state \<Rightarrow> string option" where
  "choose_auto_mount_point volume s =
     (if vol_is_cdrom volume then auto_name ''/media/cdrom'' 0 s
      else if vol_is_removable volume then auto_name ''/media/usb'' 0 s
      else if \<not> mount_point_in_use ''/data'' s then Some (copy_string 32 ''/data'')
      else auto_name ''/media/disk'' 1 s)"

text \<open>The first slot of the volume table that is not in use.\<close>

definition volume_slot :: "('v, 'd) vfs_state \<Rightarrow> nat option" where
  "volume_slot s = find (\<lambda>slot. slot \<ge> vfs_volume_count s \<or> \<not> vol_valid (vfs_volumes s ! slot)) [0 ..< VFS_MAX_VOLUMES]"

definition has_flag :: "u32 \<Rightarrow> u32 \<Rightarrow> bool" where
  "has_flag flags flag \<longleftrightarrow> flags AND flag \<noteq> 0"

definition label_string :: "ASAS_PARTITION_INFO \<Rightarrow> string" where
  "label_string p = map (\<lambda>b. char_of (unat b)) (pi_label p)"

text \<open>The fields of a volume that both ways of mounting set alike.\<close>

definition describe_volume ::
  "ASAS_BLOCK_DEVICE \<Rightarrow> 'v ASAS_FILESYSTEM_DRIVER \<Rightarrow> ASAS_FILESYSTEM_MOUNT \<Rightarrow> ASAS_PARTITION_INFO option \<Rightarrow>
   VFS_VOLUME_INFO \<Rightarrow> VFS_VOLUME_INFO" where
  "describe_volume d driver m part v = v\<lparr>vol_valid := True,
     vol_is_cdrom := has_flag (bd_flags d) BLOCK_DEVICE_FLAG_OPTICAL,
     vol_is_removable := has_flag (bd_flags d) BLOCK_DEVICE_FLAG_REMOVABLE,
     vol_read_only := has_flag (fm_flags m) FILESYSTEM_FLAG_READ_ONLY,
     vol_no_exec := has_flag (fm_flags m) FILESYSTEM_FLAG_NO_EXEC,
     vol_target := bd_target d, vol_lun := bd_lun d, vol_fs_type := vfs_type_from_driver (Some driver),
     vol_device_name := copy_string 16 (bd_name d),
     vol_partition_type := (case part of None \<Rightarrow> [] | Some p \<Rightarrow> copy_string 24 (pi_type_name p)),
     vol_uuid := (case part of None \<Rightarrow> [] | Some p \<Rightarrow> copy_string 37 (pi_uuid p))\<rparr>"

text \<open>The label of the partition, or another text when it has none.\<close>

definition volume_label :: "ASAS_PARTITION_INFO option \<Rightarrow> string \<Rightarrow> string" where
  "volume_label part other =
     copy_string 64 (case part of None \<Rightarrow> other | Some p \<Rightarrow> if label_string p \<noteq> [] then label_string p else other)"

definition set_volume :: "nat \<Rightarrow> VFS_VOLUME_INFO \<Rightarrow> ('v, 'd) vfs_state \<Rightarrow> ('v, 'd) vfs_state" where
  "set_volume slot v s = s\<lparr>vfs_volumes := (vfs_volumes s)[slot := v]\<rparr>"

definition attach_mount :: "nat \<Rightarrow> nat option \<Rightarrow> ('v, 'd) vfs_state \<Rightarrow> ('v, 'd) vfs_state" where
  "attach_mount slot mount s = s\<lparr>vfs_mounts := (vfs_mounts s)[slot := mount],
     vfs_volume_count := (if slot = vfs_volume_count s then vfs_volume_count s + 1 else vfs_volume_count s)\<rparr>"

text \<open>\<open>vfs_mount_all_volumes\<close> once the device is mounted and a slot is found.  The slot is marked valid before its
  mount point is chosen.\<close>

definition record_volume ::
  "('v, 'd) vfs_env \<Rightarrow> nat \<Rightarrow> nat \<Rightarrow> fs_driver \<Rightarrow> nat \<Rightarrow> ('v, 'd) vfs_state \<Rightarrow> ('v, 'd) vfs_state option" where
  "record_volume e slot dev n i s =
     (let d = devices (vfs_blocks s) ! dev;
          part = partition_find_by_device (Some dev) (vfs_disks s);
          v0 = describe_volume d (env_drivers e n) (mounts (vfs_fs s) ! i) part (vfs_volumes s ! slot);
          v = v0\<lparr>vol_read_only := vol_read_only v0 \<or> has_flag (bd_flags d) BLOCK_DEVICE_FLAG_READ_ONLY\<rparr>;
          s1 = set_volume slot v s
      in if slot = 0 then
           Some (attach_mount slot (Some i) (set_volume slot (v\<lparr>vol_mount_point := copy_string 32 ''/system'',
             vol_label := volume_label part ''System''\<rparr>) s1))
         else do {
           path \<leftarrow> choose_auto_mount_point v s1;
           Some (attach_mount slot (Some i) (set_volume slot (v\<lparr>vol_mount_point := copy_string 32 path,
             vol_label := volume_label part (bd_name d)\<rparr>) s1))
         })"

fun mount_all_from ::
  "('v, 'd) vfs_env \<Rightarrow> nat list \<Rightarrow> ('v, 'd) vfs_state \<Rightarrow> ('v, 'd) vfs_state option" where
  "mount_all_from e [] s = Some s"
| "mount_all_from e (index # rest) s =
     (case block_device_get (of_nat index) (vfs_blocks s) of None \<Rightarrow> mount_all_from e rest s
      | Some dev \<Rightarrow>
          if filesystem_device_is_mounted (devices (vfs_blocks s)) (Some dev) (vfs_fs s)
             \<or> bd_parent (devices (vfs_blocks s) ! dev) = None \<and> block_device_has_partitions dev (vfs_blocks s)
          then mount_all_from e rest s
          else case filesystem_probe (env_drivers e) (Some dev) (vfs_fs s) of
              (None, fs1) \<Rightarrow> mount_all_from e rest (s\<lparr>vfs_fs := fs1\<rparr>)
            | (Some n, fs1) \<Rightarrow> (case filesystem_mount (env_drivers e) (Some dev) (Some n) 0 fs1 of
                (None, fs2) \<Rightarrow> mount_all_from e rest (s\<lparr>vfs_fs := fs2\<rparr>)
              | (Some i, fs2) \<Rightarrow> (case volume_slot s of
                  None \<Rightarrow> map_option (\<lambda>(_, fs3). s\<lparr>vfs_fs := fs3\<rparr>) (filesystem_unmount (env_contexts e) (Some i) fs2)
                | Some slot \<Rightarrow> do {
                    s1 \<leftarrow> record_volume e slot dev n i (s\<lparr>vfs_fs := fs2\<rparr>);
                    mount_all_from e rest s1
                  })))"

definition vfs_mount_all_volumes ::
  "('v, 'd) vfs_env \<Rightarrow> ('v, 'd) vfs_state \<Rightarrow> (nat \<times> ('v, 'd) vfs_state) option" where
  "vfs_mount_all_volumes e s = do {
     s1 \<leftarrow> mount_all_from e [0 ..< unat (block_device_count (vfs_blocks s))] s;
     let s2 = vfs_select_primary e s1;
     Some (vfs_volume_count s2, s2)
   }"

text \<open>The device with a name, or else the partition with that identifier or label.\<close>

definition find_device :: "string \<Rightarrow> 'd partition_state \<Rightarrow> nat option" where
  "find_device name p =
     (case block_device_find name (pt_blocks p) of
        Some d \<Rightarrow> Some d
      | None \<Rightarrow> find (\<lambda>index. case partition_find_by_device (Some index) p of None \<Rightarrow> False
          | Some x \<Rightarrow> strings_equal (pi_uuid x) name \<or> strings_equal (label_string x) name)
          [0 ..< unat (block_device_count (pt_blocks p))])"

definition mount_flags_ok :: "u32 \<Rightarrow> bool" where
  "mount_flags_ok flags \<longleftrightarrow> flags AND NOT (FILESYSTEM_FLAG_READ_ONLY OR FILESYSTEM_FLAG_NO_EXEC) = 0"

definition mount_point_ok :: "string \<Rightarrow> ('v, 'd) vfs_state \<Rightarrow> bool" where
  "mount_point_ok mount_point s \<longleftrightarrow> mount_point \<noteq> [] \<and> hd mount_point = CHR ''/''
     \<and> \<not> strings_equal mount_point ''/'' \<and> \<not> strings_equal mount_point ''/media''
     \<and> \<not> list_ex (\<lambda>v. vol_valid v \<and> (path_has_prefix mount_point (vol_mount_point v)
          \<or> path_has_prefix (vol_mount_point v) mount_point)) (take (vfs_volume_count s) (vfs_volumes s))"

definition vfs_mount_device ::
  "('v, 'd) vfs_env \<Rightarrow> string option \<Rightarrow> string option \<Rightarrow> u32 \<Rightarrow> ('v, 'd) vfs_state \<Rightarrow>
   (bool \<times> ('v, 'd) vfs_state) option" where
  "vfs_mount_device e device_name mount_point flags s =
     (case (device_name, mount_point) of
        (Some name, Some point) \<Rightarrow>
          if \<not> mount_point_ok point s \<or> \<not> mount_flags_ok flags then Some (False, s)
          else (case find_device name (vfs_disks s) of None \<Rightarrow> Some (False, s)
            | Some dev \<Rightarrow>
                if filesystem_device_is_mounted (devices (vfs_blocks s)) (Some dev) (vfs_fs s) then Some (False, s)
                else case filesystem_probe (env_drivers e) (Some dev) (vfs_fs s) of
                    (None, fs1) \<Rightarrow> Some (False, s\<lparr>vfs_fs := fs1\<rparr>)
                  | (Some n, fs1) \<Rightarrow> (case filesystem_mount (env_drivers e) (Some dev) (Some n) flags fs1 of
                      (None, fs2) \<Rightarrow> Some (False, s\<lparr>vfs_fs := fs2\<rparr>)
                    | (Some i, fs2) \<Rightarrow> (case volume_slot s of
                        None \<Rightarrow> map_option (\<lambda>(_, fs3). (False, s\<lparr>vfs_fs := fs3\<rparr>))
                          (filesystem_unmount (env_contexts e) (Some i) fs2)
                      | Some slot \<Rightarrow>
                          let d = devices (vfs_blocks s) ! dev;
                              part = partition_find_by_device (Some dev) (vfs_disks s);
                              v = (describe_volume d (env_drivers e n) (mounts fs2 ! i) part (vfs_volumes s ! slot))
                                \<lparr>vol_mount_point := copy_string 32 point, vol_label := volume_label part (bd_name d)\<rparr>
                          in Some (True, attach_mount slot (Some i) (set_volume slot v (s\<lparr>vfs_fs := fs2\<rparr>))))))
      | _ \<Rightarrow> Some (False, s))"

text \<open>The first valid volume with a mount point.\<close>

definition volume_at :: "string \<Rightarrow> ('v, 'd) vfs_state \<Rightarrow> nat option" where
  "volume_at mount_point s = find (\<lambda>index. vol_valid (vfs_volumes s ! index)
     \<and> strings_equal (vol_mount_point (vfs_volumes s ! index)) mount_point) [0 ..< vfs_volume_count s]"

definition detach_volume :: "nat \<Rightarrow> ('v, 'd) vfs_state \<Rightarrow> ('v, 'd) vfs_state" where
  "detach_volume index s = set_volume index ((vfs_volumes s ! index)\<lparr>vol_valid := False\<rparr>)
     (s\<lparr>vfs_mounts := (vfs_mounts s)[index := None]\<rparr>)"

definition vfs_unmount ::
  "('v, 'd) vfs_env \<Rightarrow> string option \<Rightarrow> ('v, 'd) vfs_state \<Rightarrow> (bool \<times> ('v, 'd) vfs_state) option" where
  "vfs_unmount e mount_point s =
     (case mount_point of None \<Rightarrow> Some (False, s)
      | Some point \<Rightarrow>
          if strings_equal point ''/'' \<or> strings_equal point ''/system'' then Some (False, s)
          else (case volume_at point s of None \<Rightarrow> Some (False, s)
            | Some index \<Rightarrow> do {
                (ok, fs1) \<leftarrow> filesystem_unmount (env_contexts e) (vfs_mounts s ! index) (vfs_fs s);
                let s1 = s\<lparr>vfs_fs := fs1\<rparr>;
                Some (if ok then (True, detach_volume index s1) else (False, s1))
              }))"

definition vfs_remount ::
  "('v, 'd) vfs_env \<Rightarrow> string option \<Rightarrow> u32 \<Rightarrow> ('v, 'd) vfs_state \<Rightarrow> (bool \<times> ('v, 'd) vfs_state) option" where
  "vfs_remount e mount_point flags s =
     (case mount_point of None \<Rightarrow> Some (False, s)
      | Some point \<Rightarrow>
          if strings_equal point ''/'' \<or> strings_equal point ''/system'' \<or> \<not> mount_flags_ok flags then Some (False, s)
          else (case volume_at point s of None \<Rightarrow> Some (False, s)
            | Some index \<Rightarrow>
                let snapshot = vfs_volumes s ! index in do {
                (ok, s1) \<leftarrow> vfs_unmount e mount_point s;
                if \<not> ok then Some (False, s1) else do {
                (ok1, s2) \<leftarrow> vfs_mount_device e (Some (vol_device_name snapshot)) (Some (vol_mount_point snapshot)) flags s1;
                if ok1 then Some (True, s2) else do {
                (_, s3) \<leftarrow> vfs_mount_device e (Some (vol_device_name snapshot)) (Some (vol_mount_point snapshot))
                  (if vol_read_only snapshot then FILESYSTEM_FLAG_READ_ONLY else 0) s2;
                Some (False, s3) } } }))"

text \<open>The loop of \<open>vfs_handle_device_removed\<close> over the volumes.\<close>

fun remove_device_from ::
  "('v, 'd) vfs_env \<Rightarrow> nat \<Rightarrow> nat list \<Rightarrow> nat \<Rightarrow> ('v, 'd) vfs_state \<Rightarrow> (nat \<times> ('v, 'd) vfs_state) option" where
  "remove_device_from e device [] affected s = Some (affected, s)"
| "remove_device_from e device (index # rest) affected s =
     (case (if vol_valid (vfs_volumes s ! index) then vfs_mounts s ! index else None) of
        None \<Rightarrow> remove_device_from e device rest affected s
      | Some i \<Rightarrow>
          let mounted = fm_device (mounts (vfs_fs s) ! i) in
          if mounted \<noteq> Some device
             \<and> \<not> (case mounted of None \<Rightarrow> False | Some k \<Rightarrow> bd_parent (devices (vfs_blocks s) ! k) = Some device)
          then remove_device_from e device rest affected s
          else do {
            let s1 = s\<lparr>vfs_fs := upd_mount i (\<lambda>m. m\<lparr>fm_flags :=
              fm_flags m OR (FILESYSTEM_FLAG_READ_ONLY OR FILESYSTEM_FLAG_NO_EXEC)\<rparr>) (vfs_fs s)\<rparr>;
            let s2 = set_volume index ((vfs_volumes s1 ! index)\<lparr>vol_read_only := True, vol_no_exec := True\<rparr>) s1;
            (_, b) \<leftarrow> block_device_flush_barrier (env_fuel e) (env_blocks e) mounted (vfs_blocks s2);
            let s3 = s2\<lparr>vfs_disks := (vfs_disks s2)\<lparr>pt_blocks := b\<rparr>\<rparr>;
            (ok, fs1) \<leftarrow> (if reference_count (mounts (vfs_fs s3) ! i) = 0
              then filesystem_unmount (env_contexts e) (Some i) (vfs_fs s3) else Some (False, vfs_fs s3));
            let s4 = s3\<lparr>vfs_fs := fs1\<rparr>;
            remove_device_from e device rest (Suc affected) (if ok then detach_volume index s4 else s4)
          })"

definition vfs_handle_device_removed ::
  "('v, 'd) vfs_env \<Rightarrow> string option \<Rightarrow> ('v, 'd) vfs_state \<Rightarrow> (nat \<times> ('v, 'd) vfs_state) option" where
  "vfs_handle_device_removed e device_name s =
     (case device_name of None \<Rightarrow> Some (0, s)
      | Some name \<Rightarrow>
          if name = [] then Some (0, s)
          else (case block_device_find name (vfs_blocks s) of None \<Rightarrow> Some (0, s)
            | Some device \<Rightarrow> do {
                (affected, s1) \<leftarrow> remove_device_from e device [0 ..< vfs_volume_count s] 0 s;
                let b = vfs_blocks s1;
                let d = devices b ! device;
                Some (affected, s1\<lparr>vfs_disks := (vfs_disks s1)\<lparr>pt_blocks := b\<lparr>devices := (devices b)[device :=
                  d\<lparr>bd_flags := bd_flags d OR (BLOCK_DEVICE_FLAG_READ_ONLY OR BLOCK_DEVICE_FLAG_NO_CACHE)\<rparr>]\<rparr>\<rparr>\<rparr>)
              }))"

section \<open>Start up\<close>

definition virtual_disk_initialize :: "ASAS_VDISK_INFO list \<Rightarrow> ASAS_VDISK_INFO list" where
  "virtual_disk_initialize xs = map (\<lambda>_. \<lparr>vd_active = False, vd_read_only = False, vd_name = [], vd_format = [],
     vd_path = [], vd_size = 0, vd_file_size = 0, vd_device = None\<rparr>) xs"

text \<open>The loop of \<open>vfs_rescan_devices\<close>; the number of devices grows while it scans them.\<close>

partial_function (option) rescan_from ::
  "('v, 'd) vfs_env \<Rightarrow> nat \<Rightarrow> 'd partition_state \<Rightarrow> 'd partition_state option" where
  "rescan_from e index p =
     (if index < unat (block_device_count (pt_blocks p)) then do {
        let d = devices (pt_blocks p) ! index;
        p1 \<leftarrow> (if bd_parent d = None \<and> bd_flags d AND BLOCK_DEVICE_FLAG_OPTICAL = 0
               \<and> \<not> block_device_has_partitions index (pt_blocks p)
              then map_option snd (partition_scan_device (env_fuel e) (env_blocks e) (Some index) p) else Some p);
        rescan_from e (index + 1) p1
      } else Some p)"

definition vfs_rescan_devices ::
  "('v, 'd) vfs_env \<Rightarrow> ('v, 'd) vfs_state \<Rightarrow> (nat \<times> ('v, 'd) vfs_state) option" where
  "vfs_rescan_devices e s =
     (if boot_fallback_enabled s then Some (0, s)
      else do {
        p \<leftarrow> rescan_from e 0 ((vfs_disks s)\<lparr>pt_blocks := fold (\<lambda>f. f) (env_rescan e) (vfs_blocks s)\<rparr>);
        vfs_mount_all_volumes e (s\<lparr>vfs_disks := p\<rparr>)
      })"

definition vfs_initialize :: "('v, 'd) vfs_env \<Rightarrow> ('v, 'd) vfs_state \<Rightarrow> ('v, 'd) vfs_state option" where
  "vfs_initialize e s = do {
     s1 \<leftarrow> vfs_reset_handles (s\<lparr>boot_fallback_enabled := False, welcome_node := welcome_file\<rparr>);
     let b1 = fold (\<lambda>f. f) (env_register e) (block_device_initialize (vfs_blocks s1));
     let b2 = (case env_legacy_backend e of None \<Rightarrow> b1
       | Some (ops, storage, t, l) \<Rightarrow> snd (block_device_register_legacy_devices ops storage t l b1));
     (_, p) \<leftarrow> partition_scan_all (env_fuel e) (env_blocks e)
       (partition_manager_initialize ((vfs_disks s1)\<lparr>pt_blocks := b2\<rparr>));
     fs1 \<leftarrow> filesystem_initialize (env_contexts e) (vfs_fs s1);
     let fs2 = filesystem_register_builtin_drivers (env_drivers e) fs1;
     (_, s2) \<leftarrow> vfs_mount_all_volumes e (s1\<lparr>vfs_volume_count := 0, vfs_mounts := map (\<lambda>_. None) (vfs_mounts s1),
       vdisks := virtual_disk_initialize (vdisks s1), vfs_disks := p, vfs_fs := fs2\<rparr>);
     if vfs_volume_count s2 > 0 \<and> vfs_mounts s2 ! 0 \<noteq> None then
       Some (s2\<lparr>active_fs := (if vol_fs_type (vfs_volumes s2 ! 0) = VFS_FS_NTFS then FS_TYPE_NTFS else FS_TYPE_FAT32)\<rparr>)
     else Some ((set_world (lf_initialize (env_legacy e FS_TYPE_FAT16) (vfs_world s2)) s2)\<lparr>active_fs := FS_TYPE_FAT16\<rparr>)
   }"

end
