(* ===== verification/Vfs_Routing.thy ===== *)
theory Vfs_Routing
  imports Virtual_Filesystem
begin

text \<open>
  Names in the virtual file system: a path is routed to the valid volume with the longest mount point that
  covers it, and choosing a mount point for a new volume always ends with a name that is not in use.
\<close>

section \<open>Mount points that cover a path\<close>

definition covers :: "string \<Rightarrow> string \<Rightarrow> bool" where
  "covers point path \<longleftrightarrow> (\<exists>rest. path = point @ rest \<and> (rest = [] \<or> hd rest = CHR ''/''))"

lemma path_has_prefix_iff: "path_has_prefix path point \<longleftrightarrow> covers point path"
proof (induction path point rule: path_has_prefix.induct)
  case (1 path)
  then show ?case by (auto simp: covers_def)
next
  case (2 path c prefix)
  then show ?case by (cases path) (auto simp: covers_def)
qed

text \<open>The volumes of the table that are considered, with their position.\<close>

definition volume_covers :: "string \<Rightarrow> ('v, 'd) vfs_state \<Rightarrow> nat \<Rightarrow> bool" where
  "volume_covers path s i \<longleftrightarrow> i < vfs_volume_count s \<and> vol_valid (vfs_volumes s ! i)
     \<and> vol_mount_point (vfs_volumes s ! i) \<noteq> [] \<and> covers (vol_mount_point (vfs_volumes s ! i)) path"

text \<open>What the loop has found once it has looked at the volumes before \<open>k\<close>.\<close>

definition best_among :: "string \<Rightarrow> VFS_VOLUME_INFO list \<Rightarrow> nat \<Rightarrow> nat option \<Rightarrow> nat \<Rightarrow> bool" where
  "best_among path vs k best len \<longleftrightarrow>
     (case best of None \<Rightarrow> len = 0
      | Some i \<Rightarrow> i < k \<and> vol_valid (vs ! i) \<and> covers (vol_mount_point (vs ! i)) path \<and> len = length (vol_mount_point (vs ! i)))
     \<and> (\<forall>j < k. vol_valid (vs ! j) \<and> covers (vol_mount_point (vs ! j)) path \<longrightarrow> length (vol_mount_point (vs ! j)) \<le> len)"

lemma best_volume_spec:
  assumes "best_among path (pre @ vs) (length pre) best len"
    "best_volume path vs (length pre) best len = (best', len')"
  shows "best_among path (pre @ vs) (length (pre @ vs)) best' len'"
  using assms
proof (induction vs arbitrary: pre best len)
  case (Cons v vs)
  define new where "new \<longleftrightarrow> vol_valid v \<and> length (vol_mount_point v) > len \<and> covers (vol_mount_point v) path"
  let ?best = "if new then Some (length pre) else best" and ?len = "if new then length (vol_mount_point v) else len"
  have "best_among path ((pre @ [v]) @ vs) (length (pre @ [v])) ?best ?len"
    using Cons.prems(1) by (auto simp: best_among_def new_def less_Suc_eq split: option.splits)
  moreover have "best_volume path vs (length (pre @ [v])) ?best ?len = (best', len')"
    using Cons.prems(2) by (auto simp: new_def path_has_prefix_iff Let_def split: if_splits)
  ultimately show ?case using Cons.IH [of "pre @ [v]"] by simp
qed simp

lemma select_volume_best:
  assumes "vfs_volume_count s \<le> length (vfs_volumes s)" "volume_covers path s k"
  obtains i rest where "vfs_select_volume_for_path path s = Some (i, or_root rest)" "volume_covers path s i"
    "path = vol_mount_point (vfs_volumes s ! i) @ rest"
    "\<forall>j. volume_covers path s j \<longrightarrow> length (vol_mount_point (vfs_volumes s ! j)) \<le> length (vol_mount_point (vfs_volumes s ! i))"
proof -
  let ?vs = "take (vfs_volume_count s) (vfs_volumes s)" and ?n = "vfs_volume_count s"
  obtain best len where b: "best_volume path ?vs 0 None 0 = (best, len)" by fastforce
  have "best_among path ?vs ?n best len"
    using best_volume_spec [of path "[]" ?vs None 0 best len] b assms(1) by (simp add: best_among_def min_absorb2)
  then have a: "best_among path (vfs_volumes s) ?n best len"
    by (auto simp: best_among_def split: option.splits)
  have k': "length (vol_mount_point (vfs_volumes s ! k)) \<le> len"
    using a assms(2) by (simp add: best_among_def volume_covers_def)
  moreover have "length (vol_mount_point (vfs_volumes s ! k)) \<noteq> 0" using assms(2) by (simp add: volume_covers_def)
  ultimately have k: "len \<noteq> 0" by linarith
  then obtain i where i: "best = Some i" "i < ?n" "vol_valid (vfs_volumes s ! i)"
    "covers (vol_mount_point (vfs_volumes s ! i)) path" "len = length (vol_mount_point (vfs_volumes s ! i))"
    using a by (auto simp: best_among_def split: option.splits)
  show thesis
  proof (rule that [of i "drop len path"])
    show "vfs_select_volume_for_path path s = Some (i, or_root (drop len path))"
      using b i(1) by (simp add: vfs_select_volume_for_path_def)
    show "volume_covers path s i" using i k by (auto simp: volume_covers_def)
    show "path = vol_mount_point (vfs_volumes s ! i) @ drop len path" using i(4,5) by (auto simp: covers_def)
    show "\<forall>j. volume_covers path s j \<longrightarrow>
        length (vol_mount_point (vfs_volumes s ! j)) \<le> length (vol_mount_point (vfs_volumes s ! i))"
      using a i(5) by (auto simp: best_among_def volume_covers_def)
  qed
qed

section \<open>Free names\<close>

lemma digits_single: "n < 10 \<Longrightarrow> digits_from 10 (of_nat n) = [char_of (48 + n)]"
proof -
  assume n: "n < 10"
  have u: "unat (of_nat n :: u32) = n" using n by (simp add: unat_of_nat)
  then have "(of_nat n :: u32) div 10 = 0" "unat ((of_nat n :: u32) mod 10) = n"
    using n by (simp_all add: word_arith_nat_div unat_mod)
  then show ?thesis by (simp add: numeral_eq_Suc)
qed

lemma append_decimal_single:
  "length prefix < 31 \<Longrightarrow> n < 10 \<Longrightarrow> append_decimal (copy_string 32 prefix) 32 (of_nat n) = prefix @ [char_of (48 + n)]"
  by (simp add: append_decimal_def digits_single copy_string_id)

text \<open>Nine different names cannot all be in use by eight volumes.\<close>

lemma some_name_free:
  assumes "vfs_volume_count s \<le> 8" "inj_on name A" "card A = 9"
  shows "\<exists>n \<in> A. \<not> mount_point_in_use (name n) s"
proof (rule ccontr)
  let ?vs = "take (vfs_volume_count s) (vfs_volumes s)"
  assume "\<not> ?thesis"
  then have "name ` A \<subseteq> vol_mount_point ` set ?vs"
    unfolding mount_point_in_use_def list_ex_iff strings_equal_iff by (intro image_subsetI) (metis image_eqI)
  then have "card (name ` A) \<le> card (vol_mount_point ` set ?vs)" by (simp add: card_mono)
  also have "\<dots> \<le> card (set ?vs)" by (rule card_image_le) simp
  also have "\<dots> \<le> length ?vs" by (rule card_length)
  also have "\<dots> \<le> 8" using assms(1) by simp
  finally show False using assms(2,3) by (simp add: card_image)
qed

lemma auto_name_step:
  "auto_name prefix number s = (let path = append_decimal (copy_string 32 prefix) 32 number in
     if mount_point_in_use path s then auto_name prefix (number + 1) s else Some path)"
  by (subst auto_name.simps) simp

lemma auto_name_reaches:
  assumes "\<not> mount_point_in_use (append_decimal (copy_string 32 prefix) 32 (of_nat m)) s" "n \<le> m"
  shows "\<exists>k. n \<le> k \<and> k \<le> m \<and> auto_name prefix (of_nat n) s = Some (append_decimal (copy_string 32 prefix) 32 (of_nat k))
    \<and> \<not> mount_point_in_use (append_decimal (copy_string 32 prefix) 32 (of_nat k)) s"
  using assms(2)
proof (induction "m - n" arbitrary: n)
  case 0
  then show ?case using assms(1) auto_name_step [of prefix "of_nat n" s] by auto
next
  case (Suc d)
  show ?case
  proof (cases "mount_point_in_use (append_decimal (copy_string 32 prefix) 32 (of_nat n)) s")
    case True
    then have "auto_name prefix (of_nat n) s = auto_name prefix (of_nat (Suc n)) s"
      using auto_name_step [of prefix "of_nat n" s] by (simp add: add.commute)
    moreover have "d = m - Suc n" "Suc n \<le> m" using Suc.hyps(2) by linarith+
    ultimately show ?thesis using Suc.hyps(1) [of "Suc n"] by (metis Suc_leD)
  next
    case False
    then show ?thesis using auto_name_step [of prefix "of_nat n" s] Suc.prems by auto
  qed
qed

lemma auto_name_returns:
  assumes "vfs_volume_count s \<le> 8" "length prefix < 31" "n \<le> 1"
  shows "\<exists>path. auto_name prefix (of_nat n) s = Some path \<and> \<not> mount_point_in_use path s
    \<and> (\<exists>k < 10. path = prefix @ [char_of (48 + k :: nat)])"
proof -
  let ?name = "\<lambda>k::nat. append_decimal (copy_string 32 prefix) 32 (of_nat k)"
  have e: "k < 10 \<Longrightarrow> ?name k = prefix @ [char_of (48 + k)]" for k
    using append_decimal_single [OF assms(2)] .
  have "inj_on ?name {n ..< n + 9}"
  proof (rule inj_onI)
    fix a b assume ab: "a \<in> {n ..< n + 9}" "b \<in> {n ..< n + 9}" "?name a = ?name b"
    then have "a < 10" "b < 10" using assms(3) by auto
    then have "char_of (48 + a) = (char_of (48 + b) :: char)" using ab(3) e by simp
    then have "(48 + a) mod 256 = (48 + b) mod 256" using char_of_eq_iff [of "48 + a" "char_of (48 + b)"] by simp
    then show "a = b" using \<open>a < 10\<close> \<open>b < 10\<close> by simp
  qed
  then obtain m where m: "m \<in> {n ..< n + 9}" "\<not> mount_point_in_use (?name m) s"
    using some_name_free [OF assms(1), of ?name "{n ..< n + 9}"] by auto
  obtain k where "n \<le> k" "k \<le> m" "auto_name prefix (of_nat n) s = Some (?name k)" "\<not> mount_point_in_use (?name k) s"
    using auto_name_reaches [OF m(2), of n] m(1) by auto
  moreover have "k < 10" using m(1) \<open>k \<le> m\<close> assms(3) by auto
  ultimately show ?thesis using e [of k] by auto
qed

lemma auto_mount_point_returns:
  assumes "vfs_volume_count s \<le> 8"
  shows "\<exists>path. choose_auto_mount_point v s = Some path \<and> \<not> mount_point_in_use path s \<and> copy_string 32 path = path"
proof -
  have *: "\<exists>path. auto_name prefix (of_nat n) s = Some path \<and> \<not> mount_point_in_use path s \<and> copy_string 32 path = path"
    if "length prefix < 31" "n \<le> 1" for prefix n
    using auto_name_returns [OF assms that] that(1) by (auto simp: copy_string_id)
  show ?thesis
    using * [of "''/media/cdrom''" 0] * [of "''/media/usb''" 0] * [of "''/media/disk''" 1]
    by (auto simp: choose_auto_mount_point_def copy_string_id)
qed

section \<open>Properties\<close>

text \<open>A state for the witnesses: a system volume, a volume at \<open>/data\<close> and one below it.\<close>

definition sample_volume :: "string \<Rightarrow> VFS_VOLUME_INFO" where
  "sample_volume point = \<lparr>vol_valid = True, vol_is_cdrom = False, vol_is_removable = False, vol_read_only = False,
     vol_no_exec = False, vol_target = 0, vol_lun = 0, vol_fs_type = VFS_FS_FAT32, vol_mount_point = point,
     vol_label = [], vol_device_name = ''disk0'', vol_partition_type = [], vol_uuid = []\<rparr>"

definition sample_vfs :: "(nat, self_test_disks) vfs_state" where
  "sample_vfs = \<lparr>welcome_node = welcome_file, boot_nodes = [],
     disk_handles = replicate 8 \<lparr>dh_path = [], dh_mount = None, dh_mount_generation = 0, dh_used = False\<rparr>,
     boot_fallback_enabled = False, active_fs = FS_TYPE_FAT32, vfs_lock_value = False, vfs_status_reason = [],
     vfs_volumes = map sample_volume [''/system'', ''/data'', ''/data/inner''] @ replicate 5 (sample_volume []),
     vfs_mounts = [Some 0, Some 1, Some 2, None, None, None, None, None], vfs_volume_count = 3, vfs_fs = fs_boot,
     vfs_disks = \<lparr>partitions = [], found_partition_count = 0, pt_blocks = sample_blocks\<rparr>,
     vfs_heap = heap_format \<lparr>heap_head = 0, heap_mem = Map.empty\<rparr>, vdisks = []\<rparr>"

text \<open>C18: A path is routed to the volume with the longest mount point.  Whenever the mount point of
  some valid volume is the path or an ancestor directory of it, \<open>vfs_mount_for_path\<close> answers the mount of a volume
  of this kind whose mount point is at least as long as that of every other one, together with the rest of the path, the
  root directory when nothing is left.\<close>

theorem path_routed_to_longest_mount_point:
  assumes "vfs_volume_count s \<le> length (vfs_volumes s)" and "volume_covers path s k"
  shows "\<exists>i rest. vfs_mount_for_path path s = (vfs_mounts s ! i, or_root rest) \<and> volume_covers path s i
    \<and> path = vol_mount_point (vfs_volumes s ! i) @ rest
    \<and> (\<forall>j. volume_covers path s j \<longrightarrow>
        length (vol_mount_point (vfs_volumes s ! j)) \<le> length (vol_mount_point (vfs_volumes s ! i)))"
proof (rule select_volume_best [OF assms])
  fix i rest
  assume "vfs_select_volume_for_path path s = Some (i, or_root rest)" "volume_covers path s i"
    "path = vol_mount_point (vfs_volumes s ! i) @ rest"
    "\<forall>j. volume_covers path s j \<longrightarrow>
      length (vol_mount_point (vfs_volumes s ! j)) \<le> length (vol_mount_point (vfs_volumes s ! i))"
  then show ?thesis by (intro exI [of _ i] exI [of _ rest]) (simp add: vfs_mount_for_path_def)
qed

theorem path_routed_to_longest_mount_point_witness:
  "\<exists>i rest. vfs_mount_for_path ''/data/inner/f'' sample_vfs = (vfs_mounts sample_vfs ! i, or_root rest)
    \<and> volume_covers ''/data/inner/f'' sample_vfs i"
proof -
  have "volume_covers ''/data/inner/f'' sample_vfs 1"
    by (simp add: volume_covers_def sample_vfs_def sample_volume_def covers_def)
  moreover have "vfs_volume_count sample_vfs \<le> length (vfs_volumes sample_vfs)" by (simp add: sample_vfs_def)
  ultimately show ?thesis using path_routed_to_longest_mount_point by blast
qed

text \<open>C19: Choosing a mount point always ends: with at most eight volumes the search for a free name returns, and
  the name it returns is not in use and short enough to be stored whole.\<close>

theorem auto_mount_point_free:
  assumes "vfs_volume_count s \<le> VFS_MAX_VOLUMES"
  shows "\<exists>path. choose_auto_mount_point v s = Some path \<and> \<not> mount_point_in_use path s \<and> copy_string 32 path = path"
  using assms by (intro auto_mount_point_returns) (simp add: VFS_MAX_VOLUMES_def)

theorem auto_mount_point_free_witness:
  "\<exists>path. choose_auto_mount_point (sample_volume []) sample_vfs = Some path \<and> \<not> mount_point_in_use path sample_vfs"
  using auto_mount_point_free [of sample_vfs "sample_volume []"] by (simp add: sample_vfs_def VFS_MAX_VOLUMES_def) blast

end
