(* ===== verification/Vfs_Sessions.thy ===== *)
theory Vfs_Sessions
  imports Vfs_Routing
begin

text \<open>
  Sessions of calls to the virtual file system: the references of every mount are exactly the open handles, so an open
  file keeps its volume mounted, every call returns, and the buffers taken for listings are given back.
\<close>

section \<open>The mount manager as the virtual file system uses it\<close>

lemma active_own_slot: "fs_inv s \<Longrightarrow> i < 16 \<Longrightarrow> fm_active (mounts s ! i) \<Longrightarrow> own_slot i s"
  using fs_invD(4) [of s i] by (simp add: own_slot_def FILESYSTEM_MAX_MOUNTS_def unat_of_nat)

definition add_reference :: "nat \<Rightarrow> u32 \<Rightarrow> 'v fs_state \<Rightarrow> 'v fs_state" where
  "add_reference i n s = s\<lparr>mounts := (mounts s)[i := (mounts s ! i)\<lparr>reference_count := reference_count (mounts s ! i) + n\<rparr>]\<rparr>"

lemma acquire_result:
  assumes inv: "fs_inv s" and i: "i < 16"
  shows "filesystem_mount_acquire (Some i) s
    = Some (if fm_active (mounts s ! i) then (True, add_reference i 1 s) else (False, s))"
proof -
  have b: "i < FILESYSTEM_MAX_MOUNTS" using i by (simp add: FILESYSTEM_MAX_MOUNTS_def)
  have l: "i < length (mounts s)" "lock_value (mounts s ! i) = 0" using fs_invD(1,3) [OF inv] i by simp_all
  show ?thesis
    using active_own_slot [OF inv i] mount_lock_free [OF inv b] relock(1) [OF inv b] l
    by (auto simp: filesystem_mount_acquire_def add_reference_def mount_unlock_def upd_mount_def lock_free_update)
qed

lemma release_result:
  assumes inv: "fs_inv s" and i: "i < 16" and "fm_active (mounts s ! i)" "reference_count (mounts s ! i) \<noteq> 0"
  shows "filesystem_mount_release (Some i) s = Some (add_reference i (- 1) s)"
proof -
  have b: "i < FILESYSTEM_MAX_MOUNTS" using i by (simp add: FILESYSTEM_MAX_MOUNTS_def)
  have l: "i < length (mounts s)" "lock_value (mounts s ! i) = 0" using fs_invD(1,3) [OF inv] i by simp_all
  show ?thesis
    using active_own_slot [OF inv i] mount_lock_free [OF inv b] l assms(3,4)
    by (simp add: filesystem_mount_release_def add_reference_def mount_unlock_def upd_mount_def lock_free_update Let_def)
qed

lemma unmount_held:
  assumes "reference_count (mounts s ! i) \<noteq> 0"
  shows "filesystem_unmount ctx (Some i) s = Some (False, s)"
  using assms by (simp add: filesystem_unmount_def)

context mount_driver
begin

lemma mount_result:
  assumes "filesystem_mount drv d n flags s = (r, s')"
  shows "r = None \<and> mounts s' = mounts s
    \<or> (\<exists>k m. k < 16 \<and> \<not> fm_active (mounts s ! k) \<and> (fm_active m \<longrightarrow> reference_count m = 0)
        \<and> mounts s' = (mounts s)[k := m] \<and> (r = None \<or> r = Some k))"
proof (cases "d = None \<or> n = None \<or> unat (mount_count s) \<ge> FILESYSTEM_MAX_MOUNTS
    \<or> free_slot_from 0 s = FILESYSTEM_MAX_MOUNTS")
  case True
  then show ?thesis
    using assms by (auto simp: filesystem_mount_def Let_def split: option.splits if_splits)
next
  case False
  let ?k = "free_slot_from 0 s"
  obtain p where n: "n = Some p" "d \<noteq> None" using False by auto
  have k: "?k < FILESYSTEM_MAX_MOUNTS" using free_slot_bound [of 0 s] False by simp
  let ?m = "(mounts s ! ?k)\<lparr>fm_id := of_nat ?k, fm_generation := next_generation s,
    reference_count := 0, fm_device := d, fm_driver := n, fm_flags := flags OR fd_flags (drv p),
    fm_context := None, lock_value := 0, fm_active := True\<rparr>"
  obtain ok m1 v where m1: "the (fd_mount (drv p)) ?m (fs_world s) = ((ok, m1), v)" by (metis prod.exhaust)
  have "mounts s' = (mounts s)[?k := (if ok then m1 else m1\<lparr>fm_active := False\<rparr>)] \<and> (r = None \<or> r = Some ?k)"
    using assms False m1 n by (auto simp: filesystem_mount_def Let_def)
  moreover have "reference_count m1 = 0" using mount_fields(6) [OF m1] by simp
  ultimately show ?thesis
    using k free_slot_inactive [OF k]
    by (intro disjI2 exI [of _ ?k] exI [of _ "if ok then m1 else m1\<lparr>fm_active := False\<rparr>"])
       (auto simp: FILESYSTEM_MAX_MOUNTS_def)
qed

end

section \<open>Counting references\<close>

definition holds :: "nat \<Rightarrow> VFS_DISK_HANDLE \<Rightarrow> bool" where
  "holds i h \<longleftrightarrow> dh_used h \<and> dh_mount h = Some i"

definition counted :: "ASAS_FILESYSTEM_MOUNT list \<Rightarrow> VFS_DISK_HANDLE list \<Rightarrow> bool" where
  "counted ms hs \<longleftrightarrow>
     (\<forall>h \<in> set hs. \<forall>i. holds i h \<longrightarrow> i < 16 \<and> fm_active (ms ! i) \<and> fm_generation (ms ! i) = dh_mount_generation h)
     \<and> (\<forall>i < 16. fm_active (ms ! i) \<longrightarrow> unat (reference_count (ms ! i)) = length (filter (holds i) hs))"

lemma countedD:
  assumes "counted ms hs"
  shows "h \<in> set hs \<Longrightarrow> holds i h \<Longrightarrow> i < 16 \<and> fm_active (ms ! i) \<and> fm_generation (ms ! i) = dh_mount_generation h"
    "i < 16 \<Longrightarrow> fm_active (ms ! i) \<Longrightarrow> unat (reference_count (ms ! i)) = length (filter (holds i) hs)"
  using assms unfolding counted_def by blast+

lemma countedI:
  assumes "\<And>h i. h \<in> set hs \<Longrightarrow> holds i h \<Longrightarrow> i < 16 \<and> fm_active (ms ! i) \<and> fm_generation (ms ! i) = dh_mount_generation h"
    "\<And>i. i < 16 \<Longrightarrow> fm_active (ms ! i) \<Longrightarrow> unat (reference_count (ms ! i)) = length (filter (holds i) hs)"
  shows "counted ms hs"
  using assms unfolding counted_def by blast

lemma counted_held:
  assumes "counted ms hs" "h \<in> set hs" "holds i h"
  shows "reference_count (ms ! i) \<noteq> 0"
proof -
  have "h \<in> set (filter (holds i) hs)" using assms(2,3) by simp
  then have "0 < length (filter (holds i) hs)" by (rule length_pos_if_in_set)
  then show ?thesis using countedD [OF assms(1)] assms(2,3) by (metis unat_0 less_nat_zero_code)
qed

text \<open>Filling a slot that was inactive, or clearing one without references.\<close>

lemma counted_replace:
  assumes c: "counted ms hs" and k: "k < length ms" and old: "\<not> fm_active (ms ! k) \<or> reference_count (ms ! k) = 0"
    and new: "fm_active m \<longrightarrow> \<not> fm_active (ms ! k) \<and> reference_count m = 0"
  shows "counted (ms[k := m]) hs"
proof -
  have none: "\<not> holds k h" if "h \<in> set hs" for h
    using old countedD(1) [OF c that] counted_held [OF c that] by blast
  then have "filter (holds k) hs = []" by (simp add: filter_empty_conv)
  then show ?thesis
    using c none new k unfolding counted_def by (auto simp: nth_list_update)
qed

lemma counted_table_step:
  assumes "table_step (Fs_unmount h) s s'" "counted (mounts s) hs" "length (mounts s) = 16"
  shows "counted (mounts s') hs"
  using assms(1) by (elim table_step_unmountE)
    (use assms(2,3) in \<open>auto intro!: counted_replace simp: FILESYSTEM_MAX_MOUNTS_def\<close>)

text \<open>Opening and closing a handle.\<close>

lemma counted_open:
  assumes c: "counted ms hs" and j: "j < length hs" "\<not> dh_used (hs ! j)" and l: "length ms = 16" "length hs = 8"
    and m: "case dh_mount h of None \<Rightarrow> ms' = ms
      | Some i \<Rightarrow> i < 16 \<and> fm_active (ms ! i) \<and> dh_mount_generation h = fm_generation (ms ! i)
          \<and> ms' = ms[i := (ms ! i)\<lparr>reference_count := reference_count (ms ! i) + 1\<rparr>]"
  shows "counted ms' (hs[j := h\<lparr>dh_used := True\<rparr>])"
proof -
  let ?hs = "hs[j := h\<lparr>dh_used := True\<rparr>]"
  have cnt: "length (filter (holds i) ?hs) = length (filter (holds i) hs) + (if dh_mount h = Some i then 1 else 0)" for i
    using count_filter_update [OF j(1), of "holds i" "h\<lparr>dh_used := True\<rparr>"] j(2) by (simp add: holds_def)
  have mem: "x \<in> set hs \<or> x = h\<lparr>dh_used := True\<rparr>" if "x \<in> set ?hs" for x
    using that set_update_subset_insert [of hs j] by blast
  show ?thesis
  proof (cases "dh_mount h")
    case None
    then have "ms' = ms" "\<not> holds i (h\<lparr>dh_used := True\<rparr>)" for i using m by (simp_all add: holds_def)
    then show ?thesis using countedD [OF c] mem cnt None by (intro countedI) (metis, simp)
  next
    case (Some i)
    then have i: "i < 16" "fm_active (ms ! i)" "dh_mount_generation h = fm_generation (ms ! i)"
      and ms': "ms' = ms[i := (ms ! i)\<lparr>reference_count := reference_count (ms ! i) + 1\<rparr>]" using m by auto
    have fields: "fm_active (ms' ! k) = fm_active (ms ! k)" "fm_generation (ms' ! k) = fm_generation (ms ! k)"
      "reference_count (ms' ! k) = reference_count (ms ! k) + (if k = i then 1 else 0)" for k
      using i(1) l by (simp_all add: ms' nth_list_update)
    have "unat (reference_count (ms ! i)) \<le> 8"
      using countedD(2) [OF c i(1,2)] length_filter_le [of "holds i" hs] l by simp
    then have u: "unat (reference_count (ms ! i) + 1) = Suc (unat (reference_count (ms ! i)))"
      by (simp add: unat_word_ariths)
    have new: "k < 16 \<and> fm_active (ms ! k) \<and> fm_generation (ms ! k) = dh_mount_generation (h\<lparr>dh_used := True\<rparr>)"
      if "holds k (h\<lparr>dh_used := True\<rparr>)" for k using that i Some by (simp add: holds_def)
    show ?thesis
    proof (rule countedI, unfold fields)
      fix x k assume "x \<in> set ?hs" "holds k x"
      then show "k < 16 \<and> fm_active (ms ! k) \<and> fm_generation (ms ! k) = dh_mount_generation x"
        using countedD(1) [OF c] mem new by blast
    next
      fix k assume "k < 16" "fm_active (ms ! k)"
      then show "unat (reference_count (ms ! k) + (if k = i then 1 else 0)) = length (filter (holds k) ?hs)"
        using countedD(2) [OF c] u cnt [of k] Some by auto
    qed
  qed
qed

lemma counted_close:
  assumes c: "counted ms hs" and j: "j < length hs" "dh_used (hs ! j)" and l: "length ms = 16"
    and h: "\<not> dh_used h"
    and m: "case dh_mount (hs ! j) of None \<Rightarrow> ms' = ms
      | Some i \<Rightarrow> ms' = ms[i := (ms ! i)\<lparr>reference_count := reference_count (ms ! i) + - 1\<rparr>]"
  shows "counted ms' (hs[j := h])"
proof -
  have cnt: "length (filter (holds i) (hs[j := h])) + (if dh_mount (hs ! j) = Some i then 1 else 0)
      = length (filter (holds i) hs)" for i
    using count_filter_update [OF j(1), of "holds i" h] j(2) h by (simp add: holds_def)
  have mem: "x \<in> set hs \<or> x = h" if "x \<in> set (hs[j := h])" for x
    using that set_update_subset_insert [of hs j] by blast
  have nh: "\<not> holds i h" for i using h by (simp add: holds_def)
  show ?thesis
  proof (cases "dh_mount (hs ! j)")
    case None
    then have "ms' = ms" using m by simp
    then show ?thesis using countedD [OF c] mem nh cnt None by (intro countedI) (blast, fastforce)
  next
    case (Some i)
    then have hi: "holds i (hs ! j)" "hs ! j \<in> set hs" using j by (simp_all add: holds_def)
    have i: "i < 16" "fm_active (ms ! i)" using countedD(1) [OF c hi(2,1)] by blast+
    have ms': "ms' = ms[i := (ms ! i)\<lparr>reference_count := reference_count (ms ! i) + - 1\<rparr>]" using m Some by simp
    have fields: "fm_active (ms' ! k) = fm_active (ms ! k)" "fm_generation (ms' ! k) = fm_generation (ms ! k)"
      "reference_count (ms' ! k) = (if k = i then reference_count (ms ! i) - 1 else reference_count (ms ! k))" for k
      using i(1) l by (simp_all add: ms' nth_list_update)
    have u: "unat (reference_count (ms ! i) - 1) = unat (reference_count (ms ! i)) - 1"
      using counted_held [OF c hi(2,1)] by (rule unat_minus_one)
    have r: "unat (if k = i then reference_count (ms ! i) - 1 else reference_count (ms ! k))
        = length (filter (holds k) (hs[j := h]))" if "k < 16" "fm_active (ms ! k)" for k
      using cnt [of k] countedD(2) [OF c that] u Some by auto
    show ?thesis
      unfolding counted_def fields using countedD(1) [OF c] mem nh r by blast
  qed
qed

section \<open>The invariant of the virtual file system\<close>

definition vfs_inv :: "('v, 'd) vfs_state \<Rightarrow> bool" where
  "vfs_inv s \<longleftrightarrow> fs_inv (vfs_fs s) \<and> counted (mounts (vfs_fs s)) (disk_handles s)
     \<and> length (disk_handles s) = 8 \<and> \<not> vfs_lock_value s
     \<and> length (vfs_volumes s) = 8 \<and> length (vfs_mounts s) = 8 \<and> vfs_volume_count s \<le> 8
     \<and> (\<forall>m \<in> set (vfs_mounts s). handle_ok m) \<and> (\<exists>bs. heap_wf (vfs_heap s) bs)"

text \<open>What a call keeps: the invariant, the live buffers of the heap, and the open handles except one that it
  closes.\<close>

definition kept :: "nat set \<Rightarrow> ('v, 'd) vfs_state \<Rightarrow> ('v, 'd) vfs_state \<Rightarrow> bool" where
  "kept closed s s' \<longleftrightarrow> vfs_inv s' \<and> heap_live (vfs_heap s') = heap_live (vfs_heap s)
     \<and> (\<forall>k < 8. dh_used (disk_handles s ! k) \<and> k \<notin> closed \<longrightarrow> disk_handles s' ! k = disk_handles s ! k)"

lemma kept_refl: "vfs_inv s \<Longrightarrow> kept A s s"
  by (simp add: kept_def)

lemma kept_trans: "kept {} s s1 \<Longrightarrow> kept A s1 s2 \<Longrightarrow> kept A s s2"
  by (simp add: kept_def)

text \<open>What most calls do: everything stays but the state of the drivers and of the legacy file systems.\<close>

definition quiet :: "('v, 'd) vfs_state \<Rightarrow> ('v, 'd) vfs_state \<Rightarrow> bool" where
  "quiet s s' \<longleftrightarrow> (\<exists>v t. s' = s\<lparr>vfs_fs := (vfs_fs s)\<lparr>fs_world := v\<rparr>, vfs_status_reason := t\<rparr>)"

lemma quietI: "s' = s\<lparr>vfs_fs := (vfs_fs s)\<lparr>fs_world := v\<rparr>\<rparr> \<Longrightarrow> quiet s s'"
  unfolding quiet_def by (rule exI [of _ v], rule exI [of _ "vfs_status_reason s"]) simp

lemma quiet_refl [simp]: "quiet s s"
  by (rule quietI [where v = "fs_world (vfs_fs s)"]) simp

lemma quiet_trans: "quiet s s1 \<Longrightarrow> quiet s1 s2 \<Longrightarrow> quiet s s2"
  unfolding quiet_def by (elim exE) (rule exI, rule exI, simp)

lemma fs_inv_world [simp]: "fs_inv (f\<lparr>fs_world := v\<rparr>) = fs_inv f"
  by (simp add: fs_inv_def)

lemma quiet_kept: "quiet s s' \<Longrightarrow> vfs_inv s \<Longrightarrow> kept A s s'"
  by (auto simp: quiet_def kept_def vfs_inv_def)

lemma quiet_fields:
  assumes "quiet s s'"
  shows "disk_handles s' = disk_handles s" "mounts (vfs_fs s') = mounts (vfs_fs s)" "vfs_mounts s' = vfs_mounts s"
    "vfs_volumes s' = vfs_volumes s" "vfs_volume_count s' = vfs_volume_count s" "vfs_heap s' = vfs_heap s"
    "boot_fallback_enabled s' = boot_fallback_enabled s" "vfs_disks s' = vfs_disks s" "welcome_node s' = welcome_node s"
  using assms by (auto simp: quiet_def)

lemma quiet_inv: "quiet s s' \<Longrightarrow> vfs_inv s \<Longrightarrow> vfs_inv s'"
  using quiet_kept [of s s' "{}"] by (simp add: kept_def)

lemma vfs_invD:
  assumes "vfs_inv s"
  shows "fs_inv (vfs_fs s)" "counted (mounts (vfs_fs s)) (disk_handles s)" "length (disk_handles s) = 8"
    "\<not> vfs_lock_value s" "vfs_volume_count s \<le> 8" "length (vfs_volumes s) = 8" "length (vfs_mounts s) = 8"
    "m \<in> set (vfs_mounts s) \<Longrightarrow> handle_ok m" "\<exists>bs. heap_wf (vfs_heap s) bs"
  using assms unfolding vfs_inv_def by blast+

text \<open>The mounts the router answers point into the table.\<close>

lemma best_volume_bound:
  "best_volume path vs i best len = (Some k, len') \<Longrightarrow> (\<forall>b. best = Some b \<longrightarrow> b < i + length vs) \<Longrightarrow> k < i + length vs"
proof (induction vs arbitrary: i best len)
  case (Cons v vs)
  then show ?case by (fastforce simp: Let_def split: if_splits)
qed simp

lemma select_volume_bound: "vfs_select_volume_for_path path s = Some (i, rel) \<Longrightarrow> i < vfs_volume_count s"
  using best_volume_bound [of path "take (vfs_volume_count s) (vfs_volumes s)" 0 None 0]
  by (fastforce simp: vfs_select_volume_for_path_def split: prod.splits option.splits if_splits)

lemma vfs_mount_nth_ok: "vfs_inv s \<Longrightarrow> k < 8 \<Longrightarrow> handle_ok (vfs_mounts s ! k)"
  using vfs_invD(7,8) [of s] nth_mem [of k "vfs_mounts s"] by simp

lemma route_ok: "vfs_inv s \<Longrightarrow> vfs_mount_for_path path s = (m, rel) \<Longrightarrow> handle_ok m"
  using vfs_mount_nth_ok [of s] vfs_invD(5) [of s] select_volume_bound [of path s]
  by (fastforce simp: vfs_mount_for_path_def handle_ok_def [of None] split: option.splits if_splits)

lemma handle_ok_Some: "handle_ok (Some i) \<longleftrightarrow> i < 16"
  by (simp add: handle_ok_def FILESYSTEM_MAX_MOUNTS_def)

section \<open>Calls that change no table\<close>

lemma dispatch_quiet:
  assumes "vfs_inv s" "handle_ok h"
  shows "\<exists>r fs'. dispatch drv c a f x h (vfs_fs s) = Some (r, fs') \<and> quiet s (s\<lparr>vfs_fs := fs'\<rparr>)"
  using dispatch_returns [OF vfs_invD(1) [OF assms(1)] assms(2), of drv c a f x] by (auto intro: quietI)

lemma fs_quiet:
  assumes "vfs_inv s" "handle_ok h"
  shows "\<exists>r fs'. filesystem_stat drv h p (Some st) (vfs_fs s) = Some (r, fs') \<and> quiet s (s\<lparr>vfs_fs := fs'\<rparr>)"
    "\<exists>r fs'. filesystem_read drv h p n (vfs_fs s) = Some (r, fs') \<and> quiet s (s\<lparr>vfs_fs := fs'\<rparr>)"
    "\<exists>r fs'. filesystem_list drv h p n (vfs_fs s) = Some (r, fs') \<and> quiet s (s\<lparr>vfs_fs := fs'\<rparr>)"
    "\<exists>r fs'. filesystem_write drv h p b (vfs_fs s) = Some (r, fs') \<and> quiet s (s\<lparr>vfs_fs := fs'\<rparr>)"
    "\<exists>r fs'. filesystem_unlink drv h p (vfs_fs s) = Some (r, fs') \<and> quiet s (s\<lparr>vfs_fs := fs'\<rparr>)"
    "\<exists>r fs'. filesystem_mkdir drv h p (vfs_fs s) = Some (r, fs') \<and> quiet s (s\<lparr>vfs_fs := fs'\<rparr>)"
    "\<exists>r fs'. filesystem_rmdir drv h p (vfs_fs s) = Some (r, fs') \<and> quiet s (s\<lparr>vfs_fs := fs'\<rparr>)"
    "\<exists>r fs'. filesystem_rename drv h p q (vfs_fs s) = Some (r, fs') \<and> quiet s (s\<lparr>vfs_fs := fs'\<rparr>)"
    "\<exists>r fs'. filesystem_sync drv h (vfs_fs s) = Some (r, fs') \<and> quiet s (s\<lparr>vfs_fs := fs'\<rparr>)"
  unfolding filesystem_stat_def filesystem_read_def filesystem_list_def filesystem_write_def filesystem_unlink_def
    filesystem_mkdir_def filesystem_rmdir_def filesystem_rename_def filesystem_sync_def option.case
  by (rule dispatch_quiet [OF assms])+

lemma legacy_quiet: "legacy_call f s = (r, s') \<Longrightarrow> quiet s s'"
  by (auto simp: legacy_call_def set_world_def Let_def split: prod.splits intro: quietI)

lemma legacy_snd_quiet [simp]: "quiet s (snd (legacy_call f s))"
  using legacy_quiet [of f s] by (cases "legacy_call f s") simp

lemma select_primary_quiet [simp]: "quiet s (vfs_select_primary e s)"
  by (simp add: vfs_select_primary_def Let_def)

lemma change_quiet:
  assumes "vfs_inv s" "\<And>h rel. handle_ok h \<Longrightarrow> \<exists>r fs'. change h rel (vfs_fs s) = Some (r, fs') \<and> quiet s (s\<lparr>vfs_fs := fs'\<rparr>)"
  shows "\<exists>ok s'. vfs_change e change old path s = Some (ok, s') \<and> quiet s s'"
proof (cases "vfs_mount_for_path path s")
  case (Pair m rel)
  show ?thesis
  proof (cases m)
    case None
    then show ?thesis using Pair by (auto simp: vfs_change_def intro: legacy_quiet) (metis legacy_quiet prod.exhaust)
  next
    case (Some i)
    then obtain r fs' where "change (Some i) rel (vfs_fs s) = Some (r, fs')" "quiet s (s\<lparr>vfs_fs := fs'\<rparr>)"
      using assms route_ok [OF assms(1) Pair] by blast
    then show ?thesis using Pair Some by (auto simp: vfs_change_def)
  qed
qed

lemma write_quiet:
  assumes "vfs_inv s"
  shows "\<exists>ok s'. vfs_write_file e path buffer s = Some (ok, s') \<and> quiet s s'"
    "\<exists>ok s'. vfs_delete_file e path s = Some (ok, s') \<and> quiet s s'"
    "\<exists>ok s'. vfs_create_directory e path s = Some (ok, s') \<and> quiet s s'"
    "\<exists>ok s'. vfs_delete_directory e path s = Some (ok, s') \<and> quiet s s'"
  unfolding vfs_write_file_def vfs_delete_file_def vfs_create_directory_def vfs_delete_directory_def
  by (rule change_quiet [OF assms], erule fs_quiet [OF assms])+

lemma rename_quiet:
  assumes "vfs_inv s"
  shows "\<exists>ok s'. vfs_rename e source destination s = Some (ok, s') \<and> quiet s s'"
proof -
  obtain a p b q where r: "vfs_mount_for_path source s = (a, p)" "vfs_mount_for_path destination s = (b, q)" by fastforce
  obtain x fs' where "filesystem_rename (env_drivers e) a p q (vfs_fs s) = Some (x, fs')" "quiet s (s\<lparr>vfs_fs := fs'\<rparr>)"
    using fs_quiet(8) [OF assms route_ok [OF assms r(1)]] by blast
  then show ?thesis using r by (auto simp: vfs_rename_def)
qed

lemma sync_quiet:
  assumes "vfs_inv s"
  shows "\<exists>ok s'. vfs_sync_path e path s = Some (ok, s') \<and> quiet s s'"
proof (cases path)
  case (Some p)
  obtain a q where r: "vfs_mount_for_path p s = (a, q)" by fastforce
  obtain x fs' where "filesystem_sync (env_drivers e) a (vfs_fs s) = Some (x, fs')" "quiet s (s\<lparr>vfs_fs := fs'\<rparr>)"
    using fs_quiet(9) [OF assms route_ok [OF assms r]] by blast
  then show ?thesis using r Some by (cases a) (auto simp: vfs_sync_path_def)
qed (auto simp: vfs_sync_path_def)

lemma is_directory_quiet:
  assumes "vfs_inv s"
  shows "\<exists>ok s'. vfs_is_directory e path s = Some (ok, s') \<and> quiet s s'"
proof -
  obtain a q where r: "vfs_mount_for_path path s = (a, q)" by fastforce
  obtain x fs' where st: "filesystem_stat (env_drivers e) a q (Some (env_stat e)) (vfs_fs s) = Some (x, fs')"
    "quiet s (s\<lparr>vfs_fs := fs'\<rparr>)" using fs_quiet(1) [OF assms route_ok [OF assms r]] by blast
  obtain b s1 where l: "legacy_call (lf_is_directory (legacy e s) path) s = (b, s1)" by fastforce
  show ?thesis using st r l legacy_quiet [OF l] by (cases a; cases x) (auto simp: vfs_is_directory_def)
qed

lemma file_size_quiet:
  assumes "vfs_inv s"
  shows "\<exists>n s'. vfs_file_size e path s = Some (n, s') \<and> quiet s s'"
proof -
  obtain a q where r: "vfs_mount_for_path path s = (a, q)" by fastforce
  obtain x fs' where st: "filesystem_stat (env_drivers e) a q (Some (env_stat e)) (vfs_fs s) = Some (x, fs')"
    "quiet s (s\<lparr>vfs_fs := fs'\<rparr>)" using fs_quiet(1) [OF assms route_ok [OF assms r]] by blast
  let ?s1 = "vfs_select_primary e s"
  obtain b s1 where l: "legacy_call (lf_file_size (legacy e ?s1) path) ?s1 = (b, s1)" by fastforce
  show ?thesis
    using st r l quiet_trans [OF select_primary_quiet legacy_quiet [OF l]]
    by (cases a; cases x) (auto simp: vfs_file_size_def Let_def)
qed

lemma reason_quiet: "quiet s (snd (vfs_write_status_reason e path s))"
proof -
  have "quiet s (s\<lparr>vfs_status_reason := t\<rparr>)" for t
    unfolding quiet_def by (rule exI [of _ "fs_world (vfs_fs s)"], rule exI [of _ t]) simp
  then show ?thesis
    by (auto simp: vfs_write_status_reason_def Let_def split: option.splits)
qed

lemma lock_free: "\<not> vfs_lock_value s \<Longrightarrow> vfs_lock s = Some (s\<lparr>vfs_lock_value := True\<rparr>)"
  by (simp add: vfs_lock_def)

lemma unlock_lock: "\<not> vfs_lock_value s \<Longrightarrow> vfs_unlock (s\<lparr>vfs_lock_value := True\<rparr>) = s"
  by (simp add: vfs_unlock_def)

lemma disk_handle_lock [simp]: "disk_handle h (s\<lparr>vfs_lock_value := b\<rparr>) = disk_handle h s"
  by (simp add: disk_handle_def)

lemma read_quiet:
  assumes "vfs_inv s"
  shows "\<exists>r s'. vfs_read e handle sz s = Some (r, s') \<and> quiet s s'"
proof -
  note l = lock_free [OF vfs_invD(4) [OF assms]] unlock_lock [OF vfs_invD(4) [OF assms]]
  show ?thesis
  proof (cases "disk_handle handle s")
    case None
    then show ?thesis by (simp add: vfs_read_def l)
  next
    case (Some index)
    let ?path = "copy_string VFS_PATH_CAPACITY (dh_path (disk_handles s ! index))" and ?s1 = "vfs_select_primary e s"
    obtain a q where r: "vfs_mount_for_path ?path s = (a, q)" by fastforce
    obtain x fs' where rd: "filesystem_read (env_drivers e) a q sz (vfs_fs s) = Some (x, fs')" "quiet s (s\<lparr>vfs_fs := fs'\<rparr>)"
      using fs_quiet(2) [OF assms route_ok [OF assms r]] by blast
    obtain b s1 where lc: "legacy_call (lf_read_file (legacy e ?s1) ?path sz) ?s1 = (b, s1)" by fastforce
    show ?thesis
      using Some r rd lc quiet_trans [OF select_primary_quiet legacy_quiet [OF lc]]
      by (auto simp: vfs_read_def l Let_def split: option.splits)
  qed
qed

section \<open>Listing\<close>

context allocator
begin

lemma scoped_buffer:
  assumes "inv h" "alloc n h = Some (r, h1)" "r \<noteq> 0"
  shows "inv h1 \<and> (\<exists>h2. release r h1 = Some h2 \<and> inv h2 \<and> live h2 = live h)"
proof -
  have h1: "inv h1" using alloc_total [OF assms(1), of n] assms(2) by auto
  obtain s where s: "r \<notin> fst ` live h" "live h1 = insert (r, s) (live h)" using alloc_live [OF assms] by blast
  then have "r \<in> fst ` live h1" by force
  then obtain h2 where h2: "release r h1 = Some h2" "inv h2" "live h2 = {b \<in> live h1. fst b \<noteq> r}"
    using release_live [OF h1] by blast
  moreover have "{b \<in> live h1. fst b \<noteq> r} = live h" using s by (auto simp: image_iff)
  ultimately show ?thesis using h1 by simp
qed

end

lemma kept_heap:
  assumes "vfs_inv s" "quiet (s\<lparr>vfs_heap := h\<rparr>) s'" "\<exists>bs. heap_wf h' bs" "heap_live h' = heap_live (vfs_heap s)"
  shows "kept A s (s'\<lparr>vfs_heap := h'\<rparr>)"
  using assms by (auto simp: quiet_def kept_def vfs_inv_def)

lemma list_items_kept:
  assumes inv: "vfs_inv s"
    and listing: "\<And>h. vfs_inv (s\<lparr>vfs_heap := h\<rparr>) \<Longrightarrow>
      \<exists>r s'. listing (s\<lparr>vfs_heap := h\<rparr>) = Some (r, s') \<and> quiet (s\<lparr>vfs_heap := h\<rparr>) s'"
  shows "\<exists>r s'. list_items listing n s = Some (r, s') \<and> kept {} s s'"
proof -
  obtain p h1 where p: "kmalloc n (vfs_heap s) = Some (p, h1)" and h1: "\<exists>bs. heap_wf h1 bs"
    using kheap.alloc_total [OF vfs_invD(9) [OF inv]] by blast
  have inv1: "vfs_inv (s\<lparr>vfs_heap := h1\<rparr>)" using inv h1 by (simp add: vfs_inv_def)
  show ?thesis
  proof (cases "p = 0")
    case True
    then have "heap_live h1 = heap_live (vfs_heap s)"
      using kheap.alloc_null [OF vfs_invD(9) [OF inv], of n h1] p by simp
    then have "kept {} s (s\<lparr>vfs_heap := h1\<rparr>)" using inv1 by (simp add: kept_def)
    then show ?thesis using True p by (auto simp: list_items_def)
  next
    case False
    obtain x s1 where l: "listing (s\<lparr>vfs_heap := h1\<rparr>) = Some (x, s1)" and q: "quiet (s\<lparr>vfs_heap := h1\<rparr>) s1"
      using listing [OF inv1] by blast
    obtain h2 where h2: "kfree p h1 = Some h2" "\<exists>bs. heap_wf h2 bs" "heap_live h2 = heap_live (vfs_heap s)"
      using kheap.scoped_buffer [OF vfs_invD(9) [OF inv] p False] by blast
    have "vfs_heap s1 = h1" using quiet_fields(6) [OF q] by simp
    then show ?thesis
      using False p l h2 kept_heap [OF inv q h2(2,3), of "{}"] by (cases x) (simp add: list_items_def)
  qed
qed

lemma list_mounted_kept:
  assumes "vfs_inv s" "handle_ok m"
  shows "\<exists>r s'. list_mounted e m path cap s = Some (r, s') \<and> kept {} s s'"
  unfolding list_mounted_def
proof (rule list_items_kept [OF assms(1)])
  fix h assume inv: "vfs_inv (s\<lparr>vfs_heap := h\<rparr>)"
  obtain x fs' where "filesystem_list (env_drivers e) m path cap (vfs_fs (s\<lparr>vfs_heap := h\<rparr>)) = Some (x, fs')"
    "quiet (s\<lparr>vfs_heap := h\<rparr>) (s\<lparr>vfs_heap := h, vfs_fs := fs'\<rparr>)"
    using fs_quiet(3) [OF inv assms(2)] by blast
  then show "\<exists>r s'. do { (r, fs1) \<leftarrow> filesystem_list (env_drivers e) m path cap (vfs_fs (s\<lparr>vfs_heap := h\<rparr>));
      Some (r, s\<lparr>vfs_heap := h, vfs_fs := fs1\<rparr>) } = Some (r, s') \<and> quiet (s\<lparr>vfs_heap := h\<rparr>) s'"
    by simp
qed

lemma list_legacy_kept:
  assumes "vfs_inv s"
  shows "\<exists>r s'. list_legacy e t path cap s = Some (r, s') \<and> kept {} s s'"
  unfolding list_legacy_def Let_def
  by (rule list_items_kept [OF assms]) (metis legacy_quiet prod.exhaust)

lemma quiet_kept_trans: "quiet s s1 \<Longrightarrow> vfs_inv s \<Longrightarrow> (vfs_inv s1 \<Longrightarrow> kept A s1 s2) \<Longrightarrow> kept A s s2"
  using kept_trans quiet_kept quiet_inv by blast

lemma keptD: "kept A s s' \<Longrightarrow> vfs_inv s'"
  by (simp add: kept_def)

lemma list_on_volume_kept:
  assumes inv: "vfs_inv s" and i: "i < 8"
  shows "\<exists>r s'. vfs_list_on_volume e i path cap s = Some (r, s') \<and> kept {} s s'"
proof (cases "vfs_mounts s ! i")
  case (Some m)
  let ?cap = "if cap < 256 then cap else 256"
  obtain r s' where "list_mounted e (vfs_mounts s ! i) path ?cap s = Some (r, s')" "kept {} s s'"
    using list_mounted_kept [OF inv vfs_mount_nth_ok [OF inv i]] by blast
  then show ?thesis using Some by (simp add: vfs_list_on_volume_def Let_def)
next
  case None
  let ?cap = "if cap < 256 then cap else 256" and ?v = "vfs_volumes s ! i"
  show ?thesis
  proof (cases "legacy_type (vol_fs_type ?v)")
    case None
    then show ?thesis
      using \<open>vfs_mounts s ! i = None\<close> kept_refl [OF inv] quiet_kept [OF select_primary_quiet inv]
      by (simp add: vfs_list_on_volume_def Let_def)
  next
    case (Some t)
    then have n: "vol_fs_type ?v \<noteq> VFS_FS_NONE" by (auto simp: legacy_type_def)
    obtain ok s1 where c: "legacy_call (lf_mount_device (env_legacy e t) (vol_target ?v) (vol_lun ?v)) s = (ok, s1)"
      by fastforce
    note q = legacy_quiet [OF c]
    obtain r s2 where l: "list_legacy e t path ?cap s1 = Some (r, s2)" "kept {} s1 s2"
      using list_legacy_kept [OF quiet_inv [OF q inv]] by blast
    have k: "kept {} s (vfs_select_primary e s1)" "kept {} s (vfs_select_primary e s2)"
      using quiet_kept [OF quiet_trans [OF q select_primary_quiet] inv]
        kept_trans [OF kept_trans [OF quiet_kept [OF q inv] l(2)] quiet_kept [OF select_primary_quiet keptD [OF l(2)]]]
      by blast+
    show ?thesis
      using \<open>vfs_mounts s ! i = None\<close> Some n c l(1) k
      by (cases ok) (simp_all add: vfs_list_on_volume_def Let_def)
  qed
qed

lemma list_directory_kept:
  assumes inv: "vfs_inv s"
  shows "\<exists>r s'. vfs_list_directory e path cap s = Some (r, s') \<and> kept {} s s'"
proof (cases "boot_fallback_enabled s \<or> cap = 0 \<or> path = ''/media''")
  case True
  then show ?thesis using kept_refl [OF inv] by (auto simp: vfs_list_directory_def Let_def)
next
  case False
  show ?thesis
  proof (cases "vfs_select_volume_for_path path s")
    case (Some x)
    obtain i rel where x: "x = (i, rel)" by fastforce
    then have "i < 8" using select_volume_bound [of path s i rel] Some vfs_invD(5) [OF inv] by simp
    then show ?thesis using list_on_volume_kept [OF inv, of i e rel cap] False Some x
      by (simp add: vfs_list_directory_def)
  next
    case None
    let ?s1 = "vfs_select_primary e s"
    have inv1: "vfs_inv ?s1" using quiet_inv [OF select_primary_quiet inv] .
    define icap :: u64 where "icap = of_nat (if unat cap - length (if path = ''/'' then [undefined] else []) < 256
      then unat cap - length (if path = ''/'' then [undefined] else []) else 256)"
    obtain r s2 where l: "(if vfs_volume_count ?s1 > 0 \<and> vfs_mounts ?s1 ! 0 \<noteq> None
        then list_mounted e (vfs_mounts ?s1 ! 0) path icap ?s1
        else list_legacy e (active_fs ?s1) path icap ?s1) = Some (r, s2)" "kept {} ?s1 s2"
      using list_mounted_kept [OF inv1 vfs_mount_nth_ok [OF inv1, of 0]] list_legacy_kept [OF inv1] by (metis zero_less_numeral)
    have k: "kept {} s ?s1" "kept {} s s2"
      using quiet_kept [OF select_primary_quiet inv] kept_trans [OF _ l(2)] by blast+
    show ?thesis
      using False None l(1) k
      by (auto simp: vfs_list_directory_def Let_def icap_def split: option.splits)
  qed
qed

section \<open>Opening and closing\<close>

lemma add_reference_inv:
  assumes "fs_inv f" "i < 16"
  shows "fs_inv (add_reference i n f)"
  by (rule fs_inv_update [OF assms(1), of i "(mounts f ! i)\<lparr>reference_count := reference_count (mounts f ! i) + n\<rparr>"])
     (use assms fs_invD(3,4) [OF assms(1), of i] in \<open>auto simp: FILESYSTEM_MAX_MOUNTS_def add_reference_def\<close>)

lemma add_reference_mounts [simp]:
  "mounts (add_reference i n f) = (mounts f)[i := (mounts f ! i)\<lparr>reference_count := reference_count (mounts f ! i) + n\<rparr>]"
  by (simp add: add_reference_def)

lemma add_reference_back:
  "i < length (mounts f) \<Longrightarrow> add_reference i (- 1) (add_reference i 1 f) = f"
proof -
  assume i: "i < length (mounts f)"
  have "(mounts f)[i := (mounts f ! i)\<lparr>reference_count := reference_count (mounts f ! i)\<rparr>] = mounts f"
    using i by (intro list_update_same_conv [THEN iffD2]) simp_all
  then show ?thesis using i by (simp add: add_reference_def)
qed

lemma vfs_inv_open:
  assumes inv: "vfs_inv s" and j: "j < 8" "\<not> dh_used (disk_handles s ! j)"
    and f: "case dh_mount h of None \<Rightarrow> f = vfs_fs s
      | Some i \<Rightarrow> i < 16 \<and> fm_active (mounts (vfs_fs s) ! i) \<and> f = add_reference i 1 (vfs_fs s)
          \<and> dh_mount_generation h = fm_generation (mounts (vfs_fs s) ! i)"
  shows "kept {} s (s\<lparr>vfs_fs := f, disk_handles := (disk_handles s)[j := h\<lparr>dh_used := True\<rparr>]\<rparr>)"
proof -
  have l: "length (mounts (vfs_fs s)) = 16" "length (disk_handles s) = 8"
    using fs_invD(1) vfs_invD(1,3) [OF inv] by blast+
  have c: "counted (mounts f) ((disk_handles s)[j := h\<lparr>dh_used := True\<rparr>])"
    using f l j by (intro counted_open [OF vfs_invD(2) [OF inv]]) (auto split: option.splits)
  have "fs_inv f" using f vfs_invD(1) [OF inv] add_reference_inv by (auto split: option.splits)
  then show ?thesis
    using inv c j by (auto simp: kept_def vfs_inv_def nth_list_update)
qed

lemma vfs_inv_close:
  assumes inv: "vfs_inv s" and j: "j < 8" "dh_used (disk_handles s ! j)" and h: "\<not> dh_used h"
    and f: "case dh_mount (disk_handles s ! j) of None \<Rightarrow> f = vfs_fs s | Some i \<Rightarrow> f = add_reference i (- 1) (vfs_fs s)"
  shows "kept {j} s (s\<lparr>vfs_fs := f, disk_handles := (disk_handles s)[j := h]\<rparr>)"
proof -
  have l: "length (mounts (vfs_fs s)) = 16" "length (disk_handles s) = 8"
    using fs_invD(1) vfs_invD(1,3) [OF inv] by blast+
  have c: "counted (mounts f) ((disk_handles s)[j := h])"
    using f l j h by (intro counted_close [OF vfs_invD(2) [OF inv]]) (auto split: option.splits)
  have "i < 16" if "dh_mount (disk_handles s ! j) = Some i" for i
    using countedD(1) [OF vfs_invD(2) [OF inv], of "disk_handles s ! j" i] that j l by (simp add: holds_def)
  then have "fs_inv f" using f vfs_invD(1) [OF inv] add_reference_inv by (auto split: option.splits)
  then show ?thesis using inv c j by (auto simp: kept_def vfs_inv_def)
qed

text \<open>Opening finds out whether the file can be opened, and then holds a reference to its mount.\<close>

lemma open_target_cases:
  assumes inv: "vfs_inv s"
  obtains s1 where "open_target e path s = Some (None, s1)" "quiet s s1"
  | s1 where "open_target e path s = Some (Some None, s1)" "quiet s s1" "fst (vfs_mount_for_path path s) = None"
  | m s1 where "open_target e path s = Some (Some (Some m), s1\<lparr>vfs_fs := add_reference m 1 (vfs_fs s1)\<rparr>)" "quiet s s1"
      "fst (vfs_mount_for_path path s) = Some m" "m < 16" "fm_active (mounts (vfs_fs s1) ! m)"
proof -
  obtain a rel where r: "vfs_mount_for_path path s = (a, rel)" by fastforce
  show thesis
  proof (cases a)
    case None
    obtain ok s1 where l: "legacy_openable e path s = (ok, s1)" by fastforce
    have "quiet s s1"
      using l by (auto simp: legacy_openable_def Let_def split: FS_TYPE.splits prod.splits if_splits
          intro: quiet_trans [OF select_primary_quiet] legacy_quiet
          dest!: legacy_quiet quiet_trans [OF select_primary_quiet] intro: quiet_trans)
    then show thesis using that(1,2) [of s1] l r None by (cases ok) (simp_all add: open_target_def)
  next
    case (Some m)
    have m: "handle_ok (Some m)" using route_ok [OF inv r] Some by simp
    obtain ok st f where st: "filesystem_stat (env_drivers e) (Some m) rel (Some (env_stat e)) (vfs_fs s) = Some ((ok, st), f)"
      and q: "quiet s (s\<lparr>vfs_fs := f\<rparr>)" using fs_quiet(1) [OF inv m] by (metis prod.exhaust)
    have inv1: "fs_inv f" using vfs_invD(1) [OF quiet_inv [OF q inv]] by simp
    note a = acquire_result [OF inv1, of m] m [unfolded handle_ok_Some]
    show thesis
    proof (cases "\<not> ok \<or> \<not> stat_exists (the st) \<or> stat_is_directory (the st) \<or> \<not> fm_active (mounts f ! m)")
      case True
      then show thesis using that(1) [OF _ q] a st r Some by (auto simp: open_target_def Let_def)
    next
      case False
      then show thesis using that(3) [OF _ q, of m] a st r Some by (simp add: open_target_def Let_def)
    qed
  qed
qed

text \<open>The entry that opening puts into the table.\<close>

definition opened :: "string \<Rightarrow> nat option \<Rightarrow> VFS_DISK_HANDLE \<Rightarrow> ('v, 'd) vfs_state \<Rightarrow> bool" where
  "opened path m h s \<longleftrightarrow> dh_used h \<and> dh_path h = copy_string VFS_PATH_CAPACITY path \<and> dh_mount h = m
     \<and> (\<forall>i. m = Some i \<longrightarrow> dh_mount_generation h = fm_generation (mounts (vfs_fs s) ! i))"

lemma free_handle_cases:
  assumes "vfs_inv s"
  obtains "free_handle s = None" | j where "free_handle s = Some j" "j < 8" "\<not> dh_used (disk_handles s ! j)"
proof (cases "free_handle s")
  case (Some j)
  then have "j \<in> set [0 ..< 8]" "\<not> dh_used (disk_handles s ! j)"
    by (auto simp: free_handle_def find_Some_iff VFS_DISK_HANDLE_COUNT_def)
  then show thesis using that(2) Some by simp
qed (use that in blast)

lemma open_handle_eq:
  assumes "vfs_inv s" "free_handle s = Some j"
  shows "open_handle path m (s\<lparr>vfs_fs := f\<rparr>) = Some (of_nat j + 2, s\<lparr>vfs_fs := f, disk_handles := (disk_handles s)[j :=
    (disk_handles s ! j)\<lparr>dh_path := copy_string VFS_PATH_CAPACITY path, dh_mount := m,
       dh_mount_generation := (case m of None \<Rightarrow> 0 | Some i \<Rightarrow> fm_generation (mounts f ! i)), dh_used := True\<rparr>]\<rparr>)"
proof -
  have "free_handle (s\<lparr>vfs_fs := f, vfs_lock_value := True\<rparr>) = Some j" using assms(2) by (simp add: free_handle_def)
  then show ?thesis
    using vfs_invD(4) [OF assms(1)]
    by (cases m; cases s) (simp_all add: open_handle_def vfs_lock_def vfs_unlock_def upd_handle_def)
qed

lemma open_handle_full:
  assumes "vfs_inv s" "free_handle s = None"
  shows "open_handle path None s = Some (0, s)"
    and "m < 16 \<Longrightarrow> fm_active (mounts (vfs_fs s) ! m) \<Longrightarrow>
      open_handle path (Some m) (s\<lparr>vfs_fs := add_reference m 1 (vfs_fs s)\<rparr>) = Some (0, s)"
proof -
  have f: "free_handle (s\<lparr>vfs_fs := f, vfs_lock_value := True\<rparr>) = None" for f using assms(2) by (simp add: free_handle_def)
  note l = vfs_invD(4) [OF assms(1)]
  show "open_handle path None s = Some (0, s)"
    using f [of "vfs_fs s"] l by (simp add: open_handle_def vfs_lock_def vfs_unlock_def)
  assume m: "m < 16" "fm_active (mounts (vfs_fs s) ! m)"
  let ?f = "add_reference m 1 (vfs_fs s)"
  note inv = vfs_invD(1) [OF assms(1)]
  have len: "m < length (mounts (vfs_fs s))" using fs_invD(1) [OF inv] m(1) by simp
  have "unat (reference_count (mounts (vfs_fs s) ! m)) \<le> 8"
    using countedD(2) [OF vfs_invD(2) [OF assms(1)] m] vfs_invD(3) [OF assms(1)]
      length_filter_le [of "holds m" "disk_handles s"] by simp
  then have "unat (reference_count (mounts (vfs_fs s) ! m) + 1) \<noteq> 0" by (simp add: unat_word_ariths)
  then have "reference_count (mounts ?f ! m) \<noteq> 0" using len by (simp add: unat_eq_zero)
  then have "filesystem_mount_release (Some m) ?f = Some (vfs_fs s)"
    using release_result [OF add_reference_inv [OF inv m(1)] m(1)] m(2) len by (simp add: add_reference_back)
  then show "open_handle path (Some m) (s\<lparr>vfs_fs := ?f\<rparr>) = Some (0, s)"
    using f [of ?f] l by (simp add: open_handle_def vfs_lock_def vfs_unlock_def)
qed

lemma open_kept:
  assumes inv: "vfs_inv s"
  shows "\<exists>h s'. vfs_open e path s = Some (h, s') \<and> kept {} s s'
    \<and> (path \<noteq> node_path (welcome_node s) \<and> \<not> boot_fallback_enabled s \<and> h \<noteq> 0 \<longrightarrow>
        (\<exists>j < 8. h = of_nat j + 2 \<and> opened path (fst (vfs_mount_for_path path s)) (disk_handles s' ! j) s')
        \<and> (\<exists>t. s'\<lparr>disk_handles := disk_handles s, vfs_fs := vfs_fs s\<rparr> = s\<lparr>vfs_status_reason := t\<rparr>))"
proof (cases "path = node_path (welcome_node s) \<or> boot_fallback_enabled s")
  case True
  then show ?thesis using kept_refl [OF inv] by (auto simp: vfs_open_def split: option.splits)
next
  case False
  note eq = vfs_open_def False
  have tab: "\<exists>t. s1\<lparr>vfs_fs := f, disk_handles := d, disk_handles := disk_handles s, vfs_fs := vfs_fs s\<rparr>
      = s\<lparr>vfs_status_reason := t\<rparr>" if "quiet s s1" for s1 f d
    using that by (auto simp: quiet_def)
  show ?thesis
  proof (cases rule: open_target_cases [OF inv, of e path])
    case (1 s1)
    then show ?thesis using False quiet_kept [OF 1(2) inv] by (auto simp: vfs_open_def)
  next
    case (2 s1)
    note inv1 = quiet_inv [OF 2(2) inv]
    show ?thesis
    proof (rule free_handle_cases [OF inv1])
      assume "free_handle s1 = None"
      then show ?thesis using open_handle_full(1) [OF inv1] False 2 quiet_kept [OF 2(2) inv] by (auto simp: vfs_open_def)
    next
      fix j assume j: "free_handle s1 = Some j" "j < 8" "\<not> dh_used (disk_handles s1 ! j)"
      let ?h = "(disk_handles s1 ! j)\<lparr>dh_path := copy_string VFS_PATH_CAPACITY path, dh_mount := None,
        dh_mount_generation := 0\<rparr>"
      have k: "kept {} s1 (s1\<lparr>vfs_fs := vfs_fs s1, disk_handles := (disk_handles s1)[j := ?h\<lparr>dh_used := True\<rparr>]\<rparr>)"
        by (rule vfs_inv_open [OF inv1 j(2,3)]) simp
      have "j < length (disk_handles s1)" using vfs_invD(3) [OF inv1] j(2) by simp
      then show ?thesis
        using open_handle_eq [OF inv1 j(1), of path None "vfs_fs s1"] False 2 j(2) kept_trans [OF quiet_kept [OF 2(2) inv] k]
          tab [OF 2(2), where f = "vfs_fs s1" and d = "(disk_handles s1)[j := ?h\<lparr>dh_used := True\<rparr>]"]
        by (auto simp: vfs_open_def opened_def)
    qed
  next
    case (3 m s1)
    note inv1 = quiet_inv [OF 3(2) inv]
    show ?thesis
    proof (rule free_handle_cases [OF inv1])
      assume "free_handle s1 = None"
      then show ?thesis
        using open_handle_full(2) [OF inv1 _ 3(4,5)] False 3 quiet_kept [OF 3(2) inv] by (auto simp: vfs_open_def)
    next
      fix j assume j: "free_handle s1 = Some j" "j < 8" "\<not> dh_used (disk_handles s1 ! j)"
      let ?f = "add_reference m 1 (vfs_fs s1)"
      let ?h = "(disk_handles s1 ! j)\<lparr>dh_path := copy_string VFS_PATH_CAPACITY path, dh_mount := Some m,
        dh_mount_generation := fm_generation (mounts ?f ! m)\<rparr>"
      have len: "m < length (mounts (vfs_fs s1))" using fs_invD(1) [OF vfs_invD(1) [OF inv1]] 3(4) by simp
      have k: "kept {} s1 (s1\<lparr>vfs_fs := ?f, disk_handles := (disk_handles s1)[j := ?h\<lparr>dh_used := True\<rparr>]\<rparr>)"
        by (rule vfs_inv_open [OF inv1 j(2,3)]) (use 3 len in simp)
      have "j < length (disk_handles s1)" using vfs_invD(3) [OF inv1] j(2) by simp
      then show ?thesis
        using open_handle_eq [OF inv1 j(1), of path "Some m" ?f] False 3 j(2) kept_trans [OF quiet_kept [OF 3(2) inv] k]
          tab [OF 3(2), where f = ?f and d = "(disk_handles s1)[j := ?h\<lparr>dh_used := True\<rparr>]"]
        by (auto simp: vfs_open_def opened_def)
    qed
  qed
qed

lemma close_kept:
  assumes inv: "vfs_inv s"
  shows "\<exists>ok s'. vfs_close h s = Some (ok, s') \<and> kept {k. h = of_nat k + 2} s s'"
proof (cases "h = 1 \<or> is_boot_handle h s \<or> disk_handle h s = None")
  case True
  then show ?thesis
    using kept_refl [OF inv] vfs_invD(4) [OF inv] by (auto simp: vfs_close_def lock_free unlock_lock)
next
  case False
  then obtain j where d: "disk_handle h s = Some j" by auto
  then have j: "j < 8" "dh_used (disk_handles s ! j)" "h = of_nat j + 2"
    by (auto simp: disk_handle_def VFS_DISK_HANDLE_COUNT_def unat_sub word_le_nat_alt word_less_nat_alt split: if_splits)
  let ?h = "(disk_handles s ! j)\<lparr>dh_used := False, dh_mount := None\<rparr>"
  have len: "j < length (disk_handles s)" using vfs_invD(3) [OF inv] j by simp
  obtain f where f: "(if dh_mount (disk_handles s ! j) \<noteq> None then filesystem_mount_release (dh_mount (disk_handles s ! j)) (vfs_fs s)
      else Some (vfs_fs s)) = Some f"
    and f': "case dh_mount (disk_handles s ! j) of None \<Rightarrow> f = vfs_fs s | Some i \<Rightarrow> f = add_reference i (- 1) (vfs_fs s)"
  proof (cases "dh_mount (disk_handles s ! j)")
    case (Some i)
    then have h: "holds i (disk_handles s ! j)" "disk_handles s ! j \<in> set (disk_handles s)"
      using j len by (simp_all add: holds_def)
    have "i < 16" "fm_active (mounts (vfs_fs s) ! i)" "reference_count (mounts (vfs_fs s) ! i) \<noteq> 0"
      using countedD(1) [OF vfs_invD(2) [OF inv] h(2,1)] counted_held [OF vfs_invD(2) [OF inv] h(2,1)] by blast+
    then show thesis using that Some release_result [OF vfs_invD(1) [OF inv]] by simp
  qed (use that in simp)
  have "kept {j} s (s\<lparr>vfs_fs := f, disk_handles := (disk_handles s)[j := ?h]\<rparr>)"
    by (rule vfs_inv_close [OF inv j(1,2) _ f']) simp
  then have k: "kept {k. h = of_nat k + 2} s (s\<lparr>vfs_fs := f, disk_handles := (disk_handles s)[j := ?h]\<rparr>)"
    using j(3) by (clarsimp simp: kept_def) (metis nth_list_update_neq)
  have "vfs_close h s = Some (True, s\<lparr>vfs_fs := f, disk_handles := (disk_handles s)[j := ?h]\<rparr>)"
    using False d f vfs_invD(4) [OF inv]
    by (auto simp: vfs_close_def vfs_lock_def vfs_unlock_def upd_handle_def Let_def)
  then show ?thesis using k by blast
qed

section \<open>Mounting and unmounting\<close>

text \<open>A change of the mount table that the handles do not notice, with any change of the volume table.\<close>

lemma kept_tables:
  assumes "vfs_inv s" "fs_inv (vfs_fs s')" "counted (mounts (vfs_fs s')) (disk_handles s)"
    "disk_handles s' = disk_handles s" "vfs_heap s' = vfs_heap s" "vfs_lock_value s' = vfs_lock_value s"
    "length (vfs_volumes s') = 8" "length (vfs_mounts s') = 8" "vfs_volume_count s' \<le> 8" "\<forall>m \<in> set (vfs_mounts s'). handle_ok m"
  shows "kept A s s'"
  using assms by (simp add: kept_def vfs_inv_def)

lemma kept_fs:
  assumes "vfs_inv s" "fs_inv f" "counted (mounts f) (disk_handles s)"
  shows "kept A s (s\<lparr>vfs_fs := f\<rparr>)"
  using assms by (simp add: kept_def vfs_inv_def)

lemma unmount_fs:
  assumes "vfs_inv s" "fs_inv f" "counted (mounts f) (disk_handles s)" "handle_ok m"
  shows "\<exists>ok f'. filesystem_unmount ctx m f = Some (ok, f') \<and> fs_inv f' \<and> counted (mounts f') (disk_handles s)"
  using unmount_step [OF assms(2,4), of ctx] table_step_inv [OF _ assms(2)]
    counted_table_step [OF _ assms(3) fs_invD(1) [OF assms(2)]] by blast

lemma set_update_ok: "\<forall>x \<in> set xs. P x \<Longrightarrow> P y \<Longrightarrow> \<forall>x \<in> set (xs[i := y]). P x"
  using set_update_subset_insert [of xs i y] by blast

lemma detach_kept:
  assumes "vfs_inv s" "fs_inv f" "counted (mounts f) (disk_handles s)"
  shows "kept A s (detach_volume i (s\<lparr>vfs_fs := f\<rparr>))"
proof -
  have "\<forall>m \<in> set ((vfs_mounts s)[i := None]). handle_ok m"
    using vfs_invD(8) [OF assms(1)] by (intro set_update_ok) (auto simp: handle_ok_def)
  then show ?thesis
    using assms vfs_invD(5-7) [OF assms(1)] by (intro kept_tables) (simp_all add: detach_volume_def set_volume_def)
qed

lemma attach_kept:
  assumes "vfs_inv s" "fs_inv f" "counted (mounts f) (disk_handles s)" "slot < 8" "handle_ok m"
  shows "kept A s (attach_mount slot m (set_volume slot v (set_volume slot w (s\<lparr>vfs_fs := f\<rparr>))))"
    and "kept A s (attach_mount slot m (set_volume slot v (s\<lparr>vfs_fs := f\<rparr>)))"
proof -
  have "\<forall>x \<in> set ((vfs_mounts s)[slot := m]). handle_ok x"
    using vfs_invD(8) [OF assms(1)] assms(5) by (intro set_update_ok) auto
  then show "kept A s (attach_mount slot m (set_volume slot v (set_volume slot w (s\<lparr>vfs_fs := f\<rparr>))))"
    and "kept A s (attach_mount slot m (set_volume slot v (s\<lparr>vfs_fs := f\<rparr>)))"
    using assms vfs_invD(5-7) [OF assms(1)]
    by (intro kept_tables; simp add: attach_mount_def set_volume_def)+
qed

lemma unmount_kept:
  assumes inv: "vfs_inv s"
  shows "\<exists>ok s'. vfs_unmount e p s = Some (ok, s') \<and> kept {} s s'"
proof (cases "case p of None \<Rightarrow> None | Some q \<Rightarrow> if q = ''/'' \<or> q = ''/system'' then None else volume_at q s")
  case None
  then show ?thesis using kept_refl [OF inv] by (auto simp: vfs_unmount_def split: option.splits if_splits)
next
  case (Some i)
  then obtain q where q: "p = Some q" "\<not> (q = ''/'' \<or> q = ''/system'')" "volume_at q s = Some i"
    by (auto split: option.splits if_splits)
  then have "i < 8" using vfs_invD(5) [OF inv] by (auto simp: volume_at_def find_Some_iff)
  then obtain ok f where f: "filesystem_unmount (env_contexts e) (vfs_mounts s ! i) (vfs_fs s) = Some (ok, f)"
    "fs_inv f" "counted (mounts f) (disk_handles s)"
    using unmount_fs [OF inv vfs_invD(1,2) [OF inv] vfs_mount_nth_ok [OF inv]] by blast
  then show ?thesis
    using q kept_fs [OF inv f(2,3)] detach_kept [OF inv f(2,3)] by (auto simp: vfs_unmount_def Let_def)
qed

lemma volume_slot_bound: "volume_slot s = Some k \<Longrightarrow> k < 8"
  by (auto simp: volume_slot_def find_Some_iff VFS_MAX_VOLUMES_def)

lemma probe_world: "filesystem_probe drv d f = (n, f') \<Longrightarrow> \<exists>v. f' = f\<lparr>fs_world := v\<rparr>"
  by (auto simp: filesystem_probe_def Let_def split: prod.splits)

context mount_driver
begin

lemma mount_fs:
  assumes "fs_inv f" "counted (mounts f) hs" "filesystem_mount drv d n flags f = (r, f')"
  shows "fs_inv f'" "counted (mounts f') hs" "handle_ok r"
proof -
  show "fs_inv f'" using table_step_inv [OF mount_step(1) [OF assms(3)] assms(1)] .
  have l: "length (mounts f) = 16" using fs_invD(1) [OF assms(1)] .
  show "counted (mounts f') hs"
    using mount_result [OF assms(3)] assms(2) l by (auto intro!: counted_replace)
  show "handle_ok r" using mount_result [OF assms(3)] by (auto simp: handle_ok_def FILESYSTEM_MAX_MOUNTS_def)
qed

lemma probe_mount:
  assumes "vfs_inv s" "filesystem_probe drv d (vfs_fs s) = (n, f)"
  shows "fs_inv f" "counted (mounts f) (disk_handles s)" "kept A s (s\<lparr>vfs_fs := f\<rparr>)"
proof -
  show a: "fs_inv f" "counted (mounts f) (disk_handles s)"
    using probe_world [OF assms(2)] vfs_invD(1,2) [OF assms(1)] by auto
  show "kept A s (s\<lparr>vfs_fs := f\<rparr>)" by (rule kept_fs [OF assms(1) a])
qed

lemma mount_device_kept:
  assumes inv: "vfs_inv s" and e: "env_drivers e = drv"
  shows "\<exists>ok s'. vfs_mount_device e name point flags s = Some (ok, s') \<and> kept {} s s'"
proof (cases "case (name, point) of (Some a, Some p) \<Rightarrow>
    if \<not> mount_point_ok p s \<or> \<not> mount_flags_ok flags then None
    else (case find_device a (vfs_disks s) of None \<Rightarrow> None
      | Some dev \<Rightarrow> if filesystem_device_is_mounted (devices (vfs_blocks s)) (Some dev) (vfs_fs s) then None else Some (p, dev))
    | _ \<Rightarrow> None")
  case None
  then have "vfs_mount_device e name point flags s = Some (False, s)"
    by (auto simp: vfs_mount_device_def split: option.splits if_splits)
  then show ?thesis using kept_refl [OF inv] by blast
next
  case (Some x)
  then obtain a p dev where x: "name = Some a" "point = Some p" "mount_point_ok p s" "mount_flags_ok flags"
    "find_device a (vfs_disks s) = Some dev" "\<not> filesystem_device_is_mounted (devices (vfs_blocks s)) (Some dev) (vfs_fs s)"
    by (auto split: option.splits if_splits)
  obtain n f1 where pr: "filesystem_probe drv (Some dev) (vfs_fs s) = (n, f1)" by fastforce
  note p1 = probe_mount [OF inv pr]
  obtain r f2 where mt: "filesystem_mount drv (Some dev) n flags f1 = (r, f2)" by fastforce
  note p2 = mount_fs [OF p1(1,2) mt]
  obtain ok f3 where u: "filesystem_unmount (env_contexts e) r f2 = Some (ok, f3)"
    "fs_inv f3" "counted (mounts f3) (disk_handles s)" using unmount_fs [OF inv p2] by blast
  note k = p1(3) kept_fs [OF inv p2(1,2)] kept_fs [OF inv u(2,3)] attach_kept(2) [OF inv p2(1,2) volume_slot_bound p2(3)]
  show ?thesis
    using x e pr mt u k
    by (cases n; cases r; cases "volume_slot s") (simp_all add: vfs_mount_device_def Let_def, blast+)
qed

lemma remount_kept:
  assumes inv: "vfs_inv s" and e: "env_drivers e = drv"
  shows "\<exists>ok s'. vfs_remount e p flags s = Some (ok, s') \<and> kept {} s s'"
proof (cases "case p of None \<Rightarrow> None
    | Some q \<Rightarrow> if q = ''/'' \<or> q = ''/system'' \<or> \<not> mount_flags_ok flags then None else volume_at q s")
  case None
  then have "vfs_remount e p flags s = Some (False, s)"
    by (auto simp: vfs_remount_def split: option.splits if_splits)
  then show ?thesis using kept_refl [OF inv] by blast
next
  case (Some i)
  then obtain q where q: "p = Some q" "\<not> (q = ''/'' \<or> q = ''/system'' \<or> \<not> mount_flags_ok flags)" "volume_at q s = Some i"
    by (auto split: option.splits if_splits)
  let ?v = "vfs_volumes s ! i"
  let ?mount = "vfs_mount_device e (Some (vol_device_name ?v)) (Some (vol_mount_point ?v))"
  obtain ok1 s1 where u: "vfs_unmount e p s = Some (ok1, s1)" "kept {} s s1" using unmount_kept [OF inv] by blast
  obtain ok2 s2 where m: "?mount flags s1 = Some (ok2, s2)" "kept {} s1 s2"
    using mount_device_kept [OF keptD [OF u(2)] e] by blast
  obtain ok3 s3 where n: "?mount (if vol_read_only ?v then FILESYSTEM_FLAG_READ_ONLY else 0) s2 = Some (ok3, s3)" "kept {} s2 s3"
    using mount_device_kept [OF keptD [OF m(2)] e] by blast
  have k: "kept {} s s2" "kept {} s s3" using kept_trans u(2) m(2) n(2) by blast+
  show ?thesis
    using q u m(1) n(1) k by (cases ok1; cases ok2) (auto simp: vfs_remount_def Let_def)
qed

lemma record_kept:
  assumes inv: "vfs_inv s" and f: "fs_inv f" "counted (mounts f) (disk_handles s)" and slot: "slot < 8" and i: "i < 16"
  shows "\<exists>s'. record_volume e slot dev n i (s\<lparr>vfs_fs := f\<rparr>) = Some s' \<and> kept {} s s'"
proof -
  have i: "handle_ok (Some i)" using i by (simp add: handle_ok_Some)
  note k = attach_kept(1) [OF inv f slot i]
  have c: "vfs_volume_count (set_volume slot w (s\<lparr>vfs_fs := f\<rparr>)) \<le> 8" for w
    using vfs_invD(5) [OF inv] by (simp add: set_volume_def)
  have a: "\<exists>path. choose_auto_mount_point v (set_volume slot w (s\<lparr>vfs_fs := f\<rparr>)) = Some path" for v w
    using auto_mount_point_returns [OF c] by blast
  show ?thesis
  proof (cases "slot = 0")
    case True
    show ?thesis unfolding record_volume_def Let_def if_P [OF True] by (rule exI, rule conjI, rule refl, rule k)
  next
    case False
    show ?thesis
      unfolding record_volume_def Let_def if_not_P [OF False]
      by (rule exE [OF a], erule ssubst, unfold bind.bind_lunit) (rule exI, rule conjI, rule refl, rule k)
  qed
qed

lemma mount_all_kept:
  assumes "vfs_inv s" "env_drivers e = drv"
  shows "\<exists>s'. mount_all_from e is s = Some s' \<and> kept {} s s'"
  using assms(1)
proof (induction "is" arbitrary: s)
  case Nil
  then show ?case using kept_refl by auto
next
  case (Cons index rest)
  note inv = Cons.prems
  have cont: "\<exists>s'. mount_all_from e rest t = Some s' \<and> kept {} s s'" if "kept {} s t" for t
    using Cons.IH [OF keptD [OF that]] kept_trans [OF that] by blast
  show ?case
  proof (cases "case block_device_get (of_nat index) (vfs_blocks s) of None \<Rightarrow> None
      | Some dev \<Rightarrow> if filesystem_device_is_mounted (devices (vfs_blocks s)) (Some dev) (vfs_fs s)
          \<or> bd_parent (devices (vfs_blocks s) ! dev) = None \<and> block_device_has_partitions dev (vfs_blocks s) then None
        else Some dev")
    case None
    then have "mount_all_from e (index # rest) s = mount_all_from e rest s" by (auto split: option.splits if_splits)
    then show ?thesis using cont [OF kept_refl [OF inv]] by simp
  next
    case (Some dev)
    then have dev: "block_device_get (of_nat index) (vfs_blocks s) = Some dev"
      "\<not> (filesystem_device_is_mounted (devices (vfs_blocks s)) (Some dev) (vfs_fs s)
          \<or> bd_parent (devices (vfs_blocks s) ! dev) = None \<and> block_device_has_partitions dev (vfs_blocks s))"
      by (auto split: option.splits if_splits)
    obtain n f1 where pr: "filesystem_probe drv (Some dev) (vfs_fs s) = (n, f1)" by fastforce
    note p1 = probe_mount [OF inv pr]
    obtain r f2 where mt: "filesystem_mount drv (Some dev) n 0 f1 = (r, f2)" by fastforce
    note p2 = mount_fs [OF p1(1,2) mt]
    show ?thesis
    proof (cases "n = None \<or> r = None \<or> volume_slot s = None")
      case True
      obtain ok f3 where u: "filesystem_unmount (env_contexts e) r f2 = Some (ok, f3)"
        "fs_inv f3" "counted (mounts f3) (disk_handles s)" using unmount_fs [OF inv p2] by blast
      show ?thesis
        using True dev assms(2) pr mt u cont [OF p1(3)] cont [OF kept_fs [OF inv p2(1,2)]] kept_fs [OF inv u(2,3), of "{}"]
        by (cases n; cases r) auto
    next
      case False
      then obtain p i slot where x: "n = Some p" "r = Some i" "volume_slot s = Some slot" by auto
      have "i < 16" using p2(3) x(2) by (simp add: handle_ok_Some)
      then obtain s1 where s1: "record_volume e slot dev p i (s\<lparr>vfs_fs := f2\<rparr>) = Some s1" "kept {} s s1"
        using record_kept [OF inv p2(1,2) volume_slot_bound [OF x(3)]] by blast
      show ?thesis using dev assms(2) pr mt x s1(1) cont [OF s1(2)] by auto
    qed
  qed
qed

lemma mount_all_volumes_kept:
  assumes "vfs_inv s" "env_drivers e = drv"
  shows "\<exists>n s'. vfs_mount_all_volumes e s = Some (n, s') \<and> kept {} s s'"
proof -
  obtain s1 where s1: "mount_all_from e [0 ..< unat (block_device_count (vfs_blocks s))] s = Some s1" "kept {} s s1"
    using mount_all_kept [OF assms] by blast
  have "kept {} s (vfs_select_primary e s1)"
    using kept_trans [OF s1(2) quiet_kept [OF select_primary_quiet keptD [OF s1(2)]]] .
  then show ?thesis using s1(1) by (simp add: vfs_mount_all_volumes_def Let_def)
qed

end

section \<open>Sessions\<close>

datatype vfs_op =
  Vfs_open string
| Vfs_read u64 u64
| Vfs_close u64
| Vfs_write string bytes
| Vfs_delete string
| Vfs_mkdir string
| Vfs_rmdir string
| Vfs_rename string string
| Vfs_sync "string option"
| Vfs_is_directory string
| Vfs_file_size string
| Vfs_list string u64
| Vfs_status string
| Vfs_mount "string option" "string option" u32
| Vfs_unmount "string option"
| Vfs_remount "string option" u32
| Vfs_mount_all

fun run_vfs_op :: "('v, 'd) vfs_env \<Rightarrow> vfs_op \<Rightarrow> ('v, 'd) vfs_state \<Rightarrow> ('v, 'd) vfs_state option" where
  "run_vfs_op e (Vfs_open p) s = map_option snd (vfs_open e p s)"
| "run_vfs_op e (Vfs_read h n) s = map_option snd (vfs_read e h n s)"
| "run_vfs_op e (Vfs_close h) s = map_option snd (vfs_close h s)"
| "run_vfs_op e (Vfs_write p b) s = map_option snd (vfs_write_file e p b s)"
| "run_vfs_op e (Vfs_delete p) s = map_option snd (vfs_delete_file e p s)"
| "run_vfs_op e (Vfs_mkdir p) s = map_option snd (vfs_create_directory e p s)"
| "run_vfs_op e (Vfs_rmdir p) s = map_option snd (vfs_delete_directory e p s)"
| "run_vfs_op e (Vfs_rename p q) s = map_option snd (vfs_rename e p q s)"
| "run_vfs_op e (Vfs_sync p) s = map_option snd (vfs_sync_path e p s)"
| "run_vfs_op e (Vfs_is_directory p) s = map_option snd (vfs_is_directory e p s)"
| "run_vfs_op e (Vfs_file_size p) s = map_option snd (vfs_file_size e p s)"
| "run_vfs_op e (Vfs_list p n) s = map_option snd (vfs_list_directory e p n s)"
| "run_vfs_op e (Vfs_status p) s = Some (snd (vfs_write_status_reason e p s))"
| "run_vfs_op e (Vfs_mount d p flags) s = map_option snd (vfs_mount_device e d p flags s)"
| "run_vfs_op e (Vfs_unmount p) s = map_option snd (vfs_unmount e p s)"
| "run_vfs_op e (Vfs_remount p flags) s = map_option snd (vfs_remount e p flags s)"
| "run_vfs_op e Vfs_mount_all s = map_option snd (vfs_mount_all_volumes e s)"

fun run_vfs :: "('v, 'd) vfs_env \<Rightarrow> vfs_op list \<Rightarrow> ('v, 'd) vfs_state \<Rightarrow> ('v, 'd) vfs_state option" where
  "run_vfs e [] s = Some s"
| "run_vfs e (x # xs) s = (case run_vfs_op e x s of None \<Rightarrow> None | Some s1 \<Rightarrow> run_vfs e xs s1)"

text \<open>The handles a call closes.\<close>

definition closes :: "vfs_op \<Rightarrow> nat set" where
  "closes x = {k. x = Vfs_close (of_nat k + 2)}"

lemma map_snd_kept: "\<exists>r s'. c = Some (r, s') \<and> kept A s s' \<Longrightarrow> \<exists>s'. map_option snd c = Some s' \<and> kept A s s'"
  by auto

lemma map_snd_quiet:
  "vfs_inv s \<Longrightarrow> \<exists>r s'. c = Some (r, s') \<and> quiet s s' \<Longrightarrow> \<exists>s'. map_option snd c = Some s' \<and> kept A s s'"
  using quiet_kept by fastforce

context mount_driver
begin

lemma run_vfs_op_kept:
  assumes inv: "vfs_inv s" and e: "env_drivers e = drv"
  shows "\<exists>s'. run_vfs_op e x s = Some s' \<and> kept (closes x) s s'"
proof (cases x)
  case (Vfs_open p)
  have "\<exists>h s'. vfs_open e p s = Some (h, s') \<and> kept {} s s'" using open_kept [OF inv] by blast
  then show ?thesis unfolding Vfs_open run_vfs_op.simps closes_def by (intro map_snd_kept) simp
next
  case (Vfs_close h)
  have "closes x = {k. h = of_nat k + 2}" using Vfs_close by (simp add: closes_def)
  then show ?thesis unfolding Vfs_close run_vfs_op.simps
    using map_snd_kept [OF close_kept [OF inv, of h]] Vfs_close by simp
next
  case (Vfs_status p)
  then show ?thesis using quiet_kept [OF reason_quiet inv] by simp
qed (simp_all only: run_vfs_op.simps closes_def vfs_op.distinct Collect_const if_False,
    (rule map_snd_quiet [OF inv], rule read_quiet [OF inv] write_quiet [OF inv] rename_quiet [OF inv] sync_quiet [OF inv]
       is_directory_quiet [OF inv] file_size_quiet [OF inv]
     | rule map_snd_kept, rule list_directory_kept [OF inv] mount_device_kept [OF inv e] unmount_kept [OF inv]
       remount_kept [OF inv e] mount_all_volumes_kept [OF inv e])+)

lemma run_vfs_kept:
  assumes "vfs_inv s" "env_drivers e = drv"
  shows "\<exists>s'. run_vfs e xs s = Some s' \<and> kept (\<Union> (closes ` set xs)) s s'"
  using assms(1)
proof (induction xs arbitrary: s)
  case Nil
  then show ?case by (simp add: kept_refl)
next
  case (Cons x xs)
  obtain s1 where s1: "run_vfs_op e x s = Some s1" "kept (closes x) s s1"
    using run_vfs_op_kept [OF Cons.prems assms(2)] by blast
  obtain s2 where "run_vfs e xs s1 = Some s2" "kept (\<Union> (closes ` set xs)) s1 s2"
    using Cons.IH [OF keptD [OF s1(2)]] by blast
  then show ?case using s1 by (auto simp: kept_def)
qed

end

end
