(* ===== verification/Vfs_Files.thy ===== *)
theory Vfs_Files
  imports Vfs_Sessions
begin

text \<open>
  What an open file guarantees: its volume stays mounted, and reading it reads the file that was opened, provided
  its path fits into the handle.
\<close>

section \<open>Reading an open file\<close>

lemma route_cong:
  assumes "vfs_volumes s' = vfs_volumes s" "vfs_volume_count s' = vfs_volume_count s" "vfs_mounts s' = vfs_mounts s"
  shows "vfs_mount_for_path path s' = vfs_mount_for_path path s"
  unfolding vfs_mount_for_path_def vfs_select_volume_for_path_def assms by (rule refl)

lemma stored_path: "copy_string VFS_PATH_CAPACITY (copy_string VFS_PATH_CAPACITY path) = take 63 path"
  by (simp add: copy_string_take VFS_PATH_CAPACITY_def)

lemma read_opened:
  assumes inv: "vfs_inv s" and j: "j < 8" "opened path (Some m) (disk_handles s ! j) s"
    and fb: "\<not> boot_fallback_enabled s" and route: "vfs_mount_for_path (take 63 path) s = (Some m, rel)"
  shows "vfs_read e (of_nat j + 2) n s = (case filesystem_read (env_drivers e) (Some m) rel n (vfs_fs s) of
    None \<Rightarrow> None | Some (r, f) \<Rightarrow> Some (r, s\<lparr>vfs_fs := f\<rparr>))"
proof -
  have u: "unat (of_nat j :: u64) = j" using j(1) by (simp add: unat_of_nat)
  have "unat (of_nat j + 2 :: u64) = j + 2" using j(1) by (simp add: unat_word_ariths unat_of_nat)
  then have "(2::u64) \<le> of_nat j + 2" "of_nat j + 2 < (10::u64)" using j(1) by (simp_all add: word_le_nat_alt word_less_nat_alt)
  then have d: "disk_handle (of_nat j + 2) s = Some j"
    using j u by (simp add: disk_handle_def opened_def VFS_DISK_HANDLE_COUNT_def)
  let ?h = "disk_handles s ! j"
  have "holds m ?h" "?h \<in> set (disk_handles s)" using j vfs_invD(3) [OF inv] by (simp_all add: opened_def holds_def)
  then have "fm_active (mounts (vfs_fs s) ! m)" "fm_generation (mounts (vfs_fs s) ! m) = dh_mount_generation ?h"
    using countedD(1) [OF vfs_invD(2) [OF inv]] by blast+
  moreover have "dh_path ?h = copy_string VFS_PATH_CAPACITY path" "dh_mount ?h = Some m" using j(2) by (simp_all add: opened_def)
  ultimately show ?thesis
    using d route fb lock_free [OF vfs_invD(4) [OF inv]] unlock_lock [OF vfs_invD(4) [OF inv]]
    by (auto simp: vfs_read_def stored_path Let_def split: option.splits)
qed

text \<open>Opening changes nothing the router looks at.\<close>

lemma open_then_read_any:
  assumes inv: "vfs_inv s" and path: "path \<noteq> node_path (welcome_node s)" "\<not> boot_fallback_enabled s"
    and op: "vfs_open e path s = Some (h, s1)" "h \<noteq> 0"
    and route: "fst (vfs_mount_for_path path s) = Some m" "vfs_mount_for_path (take 63 path) s = (Some m, rel)"
  shows "vfs_read e h n s1 = (case filesystem_read (env_drivers e) (Some m) rel n (vfs_fs s1) of
    None \<Rightarrow> None | Some (r, f) \<Rightarrow> Some (r, s1\<lparr>vfs_fs := f\<rparr>))"
proof -
  have k: "kept {} s s1" and o: "\<exists>j < 8. h = of_nat j + 2 \<and> opened path (Some m) (disk_handles s1 ! j) s1"
    and t: "\<exists>t. s1\<lparr>disk_handles := disk_handles s, vfs_fs := vfs_fs s\<rparr> = s\<lparr>vfs_status_reason := t\<rparr>"
    using open_kept [OF inv, of e path] op path route(1) by auto
  obtain t where t: "s1\<lparr>disk_handles := disk_handles s, vfs_fs := vfs_fs s\<rparr> = s\<lparr>vfs_status_reason := t\<rparr>" using t ..
  have same: "vfs_volumes s1 = vfs_volumes s" "vfs_volume_count s1 = vfs_volume_count s" "vfs_mounts s1 = vfs_mounts s"
    "boot_fallback_enabled s1 = boot_fallback_enabled s"
    using arg_cong [OF t, of vfs_volumes] arg_cong [OF t, of vfs_volume_count] arg_cong [OF t, of vfs_mounts]
      arg_cong [OF t, of boot_fallback_enabled] by simp_all
  obtain j where "j < 8" "h = of_nat j + 2" "opened path (Some m) (disk_handles s1 ! j) s1" using o by blast
  then show ?thesis
    using read_opened [OF keptD [OF k], of j path m rel e n] route(2) route_cong [OF same(1-3)] same(4) path(2) by simp
qed

section \<open>Properties\<close>

text \<open>An environment for the witnesses: every file system reads from a file the bytes of its own path.\<close>

definition echo_context :: "nat context_ops" where
  "echo_context = sample_context\<lparr>cx_read_file := (\<lambda>_ path _ v. ((of_nat (length path), map of_char path), v))\<rparr>"

definition idle_legacy :: "nat legacy_fs" where
  "idle_legacy = \<lparr>lf_mount_device = (\<lambda>_ _ v. (False, v)), lf_exists = (\<lambda>_ v. (False, v)), lf_is_directory = (\<lambda>_ v. (False, v)),
     lf_file_size = (\<lambda>_ v. (0, v)), lf_read_file = (\<lambda>_ _ v. ((0, []), v)), lf_list_directory = (\<lambda>_ _ v. ((0, []), v)),
     lf_write_file = (\<lambda>_ _ v. (False, v)), lf_delete_file = (\<lambda>_ v. (False, v)), lf_create_directory = (\<lambda>_ v. (False, v)),
     lf_delete_directory = (\<lambda>_ v. (False, v)), lf_initialize = (\<lambda>v. v)\<rparr>"

definition echo_env :: "(nat, self_test_disks) vfs_env" where
  "echo_env = \<lparr>env_drivers = builtin_drivers (\<lambda>_. echo_context), env_contexts = sample_destroy, env_legacy = (\<lambda>_. idle_legacy),
     env_stat = \<lparr>stat_size = 0, stat_exists = False, stat_is_directory = False, stat_read_only = False\<rparr>, env_fuel = 1,
     env_blocks = (\<lambda>_. self_test_ops), env_register = [], env_rescan = [], env_legacy_backend = None,
     env_read_only_reason = (\<lambda>_ _. []), env_last_error = (\<lambda>_ _ _. [])\<rparr>"

definition mounted_fs :: "nat fs_state" where
  "mounted_fs = fs_boot\<lparr>mounts := (mounts fs_boot)[0 := \<lparr>fm_id = 0, fm_generation = 1, reference_count = 0,
     fm_device = Some 0, fm_driver = Some fat32_driver, fm_flags = 0, fm_context = Some 3, lock_value = 0,
     fm_active = True\<rparr>], mount_count := 1\<rparr>"

definition mounted_vfs :: "(nat, self_test_disks) vfs_state" where
  "mounted_vfs = sample_vfs\<lparr>vfs_volume_count := 1, vfs_fs := mounted_fs\<rparr>"

lemma mounted_fs_inv: "fs_inv mounted_fs"
  by (rule fs_inv_update [OF fs_boot_inv, of 0 "mounts mounted_fs ! 0"])
     (simp_all add: mounted_fs_def fs_boot_def FILESYSTEM_MAX_MOUNTS_def)

lemma mounted_vfs_inv: "vfs_inv mounted_vfs"
proof -
  have none: "filter (holds i) (disk_handles mounted_vfs) = []" for i
    by (simp add: filter_empty_conv mounted_vfs_def sample_vfs_def holds_def)
  have "reference_count (mounts mounted_fs ! i) = 0" if "i < 16" for i
    using that by (cases i) (simp_all add: mounted_fs_def fs_boot_def)
  then have "counted (mounts mounted_fs) (disk_handles mounted_vfs)"
    using none by (intro countedI) (auto simp: filter_empty_conv)
  moreover have "\<exists>bs. heap_wf (vfs_heap mounted_vfs) bs"
    using heap_wf_format by (simp add: mounted_vfs_def sample_vfs_def) blast
  moreover have "\<forall>m \<in> set (vfs_mounts mounted_vfs). handle_ok m"
    by (simp add: mounted_vfs_def sample_vfs_def handle_ok_def FILESYSTEM_MAX_MOUNTS_def)
  ultimately show ?thesis
    using mounted_fs_inv by (simp add: vfs_inv_def) (simp add: mounted_vfs_def sample_vfs_def)
qed

lemma echo_drivers: "env_drivers echo_env = builtin_drivers (\<lambda>_. echo_context)"
  by (simp add: echo_env_def)

lemma mounted_vfs_simps:
  "vfs_fs mounted_vfs = mounted_fs" "\<not> boot_fallback_enabled mounted_vfs" "node_path (welcome_node mounted_vfs) = ''/welcome.txt''"
  "fm_active (mounts mounted_fs ! 0)" "fm_driver (mounts mounted_fs ! 0) = Some fat32_driver"
  by (simp_all add: mounted_vfs_def sample_vfs_def welcome_file_def mounted_fs_def fs_boot_def)

lemma echo_stat:
  "filesystem_stat (env_drivers echo_env) (Some 0) rel (Some st) mounted_fs
    = Some ((True, Some (st\<lparr>stat_exists := True, stat_is_directory := False, stat_size := 0, stat_read_only := False\<rparr>)), mounted_fs)"
proof -
  have w: "fs_world mounted_fs = 0" by (simp add: mounted_fs_def fs_boot_def)
  have "mounted_fs\<lparr>fs_world := 0\<rparr> = mounted_fs" by (simp add: mounted_fs_def fs_boot_def)
  then show ?thesis
    using mount_lock_free [OF mounted_fs_inv, of 0] relock(2) [OF mounted_fs_inv, of 0 0] w
    by (simp add: filesystem_stat_def dispatch_def mounted_vfs_simps echo_drivers fat32_table_def adapter_table_def
        stat_adapter_def stat_writable_def echo_context_def sample_context_def FILESYSTEM_MAX_MOUNTS_def)
qed

lemma echo_open:
  assumes "vfs_mount_for_path path mounted_vfs = (Some 0, rel)" "path \<noteq> ''/welcome.txt''"
  shows "\<exists>s1. vfs_open echo_env path mounted_vfs = Some (2, s1) \<and> dh_used (disk_handles s1 ! 0)
    \<and> dh_mount (disk_handles s1 ! 0) = Some 0"
proof -
  have f: "free_handle mounted_vfs = Some 0"
    by (simp add: free_handle_def mounted_vfs_def sample_vfs_def VFS_DISK_HANDLE_COUNT_def upt_rec)
  have "open_target echo_env path mounted_vfs = Some (Some (Some 0), mounted_vfs\<lparr>vfs_fs := add_reference 0 1 mounted_fs\<rparr>)"
    using assms(1) acquire_result [OF mounted_fs_inv, of 0]
    by (simp add: open_target_def mounted_vfs_simps echo_stat Let_def)
  then show ?thesis
    using open_handle_eq [OF mounted_vfs_inv f, of path "Some 0" "add_reference 0 1 mounted_fs"] assms(2)
      vfs_invD(3) [OF mounted_vfs_inv]
    by (simp add: vfs_open_def mounted_vfs_simps)
qed

lemma mounted_route:
  assumes "\<not> covers ''/system'' path" "disk_alias path = None"
  shows "vfs_mount_for_path path mounted_vfs = (Some 0, path)"
  using assms path_has_prefix_iff [of path "''/system''"]
  by (simp add: vfs_mount_for_path_def vfs_select_volume_for_path_def mounted_vfs_def sample_vfs_def sample_volume_def
      del: path_has_prefix.simps)



text \<open>C17: An open file pins its volume: until the handle is closed, no session unmounts the volume, even one that
  unmounts and remounts as it likes; the handle stays as it is, its mount stays active with the generation
  it had, and unmounting the volume is refused.\<close>

theorem open_file_pins_volume:
  assumes "vfs_inv s" and "env_drivers e = builtin_drivers cx" and "k < VFS_DISK_HANDLE_COUNT"
    and "dh_used (disk_handles s ! k)" and "dh_mount (disk_handles s ! k) = Some m"
    and "Vfs_close (of_nat k + 2) \<notin> set xs"
  shows "\<exists>s'. run_vfs e xs s = Some s' \<and> disk_handles s' ! k = disk_handles s ! k
    \<and> fm_active (mounts (vfs_fs s') ! m) \<and> fm_generation (mounts (vfs_fs s') ! m) = dh_mount_generation (disk_handles s ! k)
    \<and> (\<forall>point i. volume_at point s' = Some i \<and> vfs_mounts s' ! i = Some m \<longrightarrow>
        vfs_unmount e (Some point) s' = Some (False, s'))"
proof -
  have k: "k < 8" using assms(3) by (simp add: VFS_DISK_HANDLE_COUNT_def)
  obtain s' where s': "run_vfs e xs s = Some s'" "kept (\<Union> (closes ` set xs)) s s'"
    using builtin.run_vfs_kept [OF assms(1,2)] by blast
  have same: "disk_handles s' ! k = disk_handles s ! k"
    using s'(2) k assms(4,6) by (auto simp: kept_def closes_def)
  note inv = keptD [OF s'(2)]
  have h: "disk_handles s' ! k \<in> set (disk_handles s')" "holds m (disk_handles s' ! k)"
    by (rule nth_mem) (use k vfs_invD(3) [OF inv] in simp, use same assms(4,5) in \<open>simp add: holds_def\<close>)
  note c = countedD(1) [OF vfs_invD(2) [OF inv] h] counted_held [OF vfs_invD(2) [OF inv] h]
  have "vfs_unmount e (Some point) s' = Some (False, s')"
    if "volume_at point s' = Some i" "vfs_mounts s' ! i = Some m" for point i
    using that unmount_held [OF c(2)] by (simp add: vfs_unmount_def)
  then show ?thesis using s'(1) same c(1) by auto
qed

text \<open>Reading an open file reads the file that was opened: for a path shorter than the 64 characters a
  handle stores, \<open>vfs_read\<close> on the handle \<open>vfs_open\<close> has returned is the driver's read of that
  file on the mount of its volume.\<close>

theorem open_then_read:
  assumes "vfs_inv s" and "path \<noteq> node_path (welcome_node s)" and "\<not> boot_fallback_enabled s"
    and "vfs_mount_for_path path s = (Some m, rel)" and "length path < VFS_PATH_CAPACITY"
    and "vfs_open e path s = Some (h, s1)" and "h \<noteq> 0"
  shows "vfs_read e h n s1 = (case filesystem_read (env_drivers e) (Some m) rel n (vfs_fs s1) of
    None \<Rightarrow> None | Some (r, f) \<Rightarrow> Some (r, s1\<lparr>vfs_fs := f\<rparr>))"
  using open_then_read_any [OF assms(1-3,6,7), of m rel n] assms(4,5) by (simp add: VFS_PATH_CAPACITY_def)

definition long_path :: string where
  "long_path = ''/'' @ replicate 70 (CHR ''a'')"

lemma a_path_route:
  assumes "0 < n"
  shows "vfs_mount_for_path (''/'' @ replicate n (CHR ''a'')) mounted_vfs = (Some 0, ''/'' @ replicate n (CHR ''a''))"
  using assms by (intro mounted_route) (cases n; auto simp: covers_def disk_alias_def)+

theorem open_file_pins_volume_witness:
  "\<exists>s1 s2. vfs_open echo_env ''/a'' mounted_vfs = Some (2, s1)
    \<and> run_vfs echo_env [Vfs_unmount (Some ''/data''), Vfs_mount_all, Vfs_close 3] s1 = Some s2
    \<and> disk_handles s2 ! 0 = disk_handles s1 ! 0 \<and> fm_active (mounts (vfs_fs s2) ! 0)"
proof -
  obtain s1 where s1: "vfs_open echo_env ''/a'' mounted_vfs = Some (2, s1)" "dh_used (disk_handles s1 ! 0)"
    "dh_mount (disk_handles s1 ! 0) = Some 0"
    using echo_open [of "''/a''"] a_path_route [of 1] by auto
  have "vfs_inv s1" using open_kept [OF mounted_vfs_inv, of echo_env "''/a''"] s1(1) keptD by fastforce
  then have "\<exists>s2. run_vfs echo_env [Vfs_unmount (Some ''/data''), Vfs_mount_all, Vfs_close 3] s1 = Some s2
    \<and> disk_handles s2 ! 0 = disk_handles s1 ! 0 \<and> fm_active (mounts (vfs_fs s2) ! 0)"
    using open_file_pins_volume [OF _ echo_drivers _ s1(2,3),
        of "[Vfs_unmount (Some ''/data''), Vfs_mount_all, Vfs_close 3]"]
    by (auto simp: VFS_DISK_HANDLE_COUNT_def simp del: run_vfs.simps)
  then show ?thesis using s1(1) by blast
qed

theorem open_then_read_witness:
  "\<exists>s1. vfs_open echo_env ''/a'' mounted_vfs = Some (2, s1)
    \<and> vfs_read echo_env 2 9 s1 = (case filesystem_read (env_drivers echo_env) (Some 0) ''/a'' 9 (vfs_fs s1) of
      None \<Rightarrow> None | Some (r, f) \<Rightarrow> Some (r, s1\<lparr>vfs_fs := f\<rparr>))"
proof -
  have r: "vfs_mount_for_path ''/a'' mounted_vfs = (Some 0, ''/a'')" using a_path_route [of 1] by simp
  obtain s1 where s1: "vfs_open echo_env ''/a'' mounted_vfs = Some (2, s1)" using echo_open [OF r] by auto
  have "vfs_read echo_env 2 9 s1 = (case filesystem_read (env_drivers echo_env) (Some 0) ''/a'' 9 (vfs_fs s1) of
      None \<Rightarrow> None | Some (r, f) \<Rightarrow> Some (r, s1\<lparr>vfs_fs := f\<rparr>))"
    using open_then_read [OF mounted_vfs_inv _ _ r _ s1] by (simp add: mounted_vfs_simps VFS_PATH_CAPACITY_def)
  then show ?thesis using s1 by blast
qed

text \<open>A path of 64 characters or more opens one file and reads another: the handle keeps only the first
  63 characters.  Opening a file of the volume whose name has 70 letters succeeds, and reading the handle reads the file whose
  name is its first 62 letters.\<close>

theorem long_path_reads_another_file:
  "\<exists>s1. vfs_open echo_env long_path mounted_vfs = Some (2, s1)
    \<and> vfs_read echo_env 2 n s1 = (case filesystem_read (env_drivers echo_env) (Some 0) (''/'' @ replicate 62 (CHR ''a'')) n (vfs_fs s1)
      of None \<Rightarrow> None | Some (r, f) \<Rightarrow> Some (r, s1\<lparr>vfs_fs := f\<rparr>))"
proof -
  have r: "vfs_mount_for_path long_path mounted_vfs = (Some 0, long_path)"
    unfolding long_path_def by (rule a_path_route) simp
  have t: "take 63 long_path = ''/'' @ replicate 62 (CHR ''a'')"
    unfolding long_path_def take_append by (simp only: list.size take_Cons_numeral take_replicate) simp
  have r': "vfs_mount_for_path (take 63 long_path) mounted_vfs = (Some 0, ''/'' @ replicate 62 (CHR ''a''))"
    unfolding t by (rule a_path_route) simp
  have l: "length long_path = 71" by (simp only: long_path_def length_append length_replicate) simp
  have w: "long_path \<noteq> ''/welcome.txt''"
  proof
    assume "long_path = ''/welcome.txt''"
    then have "length long_path = length ''/welcome.txt''" by (rule arg_cong)
    then show False unfolding l by simp
  qed
  obtain s1 where s1: "vfs_open echo_env long_path mounted_vfs = Some (2, s1)" using echo_open [OF r w] by auto
  have "vfs_read echo_env 2 n s1 = (case filesystem_read (env_drivers echo_env) (Some 0) (''/'' @ replicate 62 (CHR ''a'')) n (vfs_fs s1)
      of None \<Rightarrow> None | Some (r, f) \<Rightarrow> Some (r, s1\<lparr>vfs_fs := f\<rparr>))"
    using open_then_read_any [OF mounted_vfs_inv _ _ s1 _ _ r'] r w by (simp add: mounted_vfs_simps)
  then show ?thesis using s1 by blast
qed

end
