(* ===== verification/Virtual_Disk.thy ===== *)
theory Virtual_Disk
  imports Virtual_Filesystem
begin

text \<open>
  \<^verbatim>\<open>src/kernel/virtual_disk.c\<close>: disk images in files as block devices.  The eight slots are part of
  \<open>vfs_state\<close>, since the images are read and written through the virtual file system.  The address of slot \<open>i\<close>,
  the \<^verbatim>\<open>driver_context\<close> of its device, is \<open>i + 1\<close>, and 0 is the null pointer.  The buffer of an image is its contents;
  the address that the heap gave for it is kept to free it.  \<open>ops\<close> is the number of the driver table \<^verbatim>\<open>raw_ops\<close>
  among the block device drivers.
\<close>

section \<open>Helpers\<close>

definition VDISK_SECTOR_SIZE :: nat where "VDISK_SECTOR_SIZE = 512"
definition VDISK_MAX_COUNT :: nat where "VDISK_MAX_COUNT = 8"
definition VDISK_FLAG_READ_ONLY :: u32 where "VDISK_FLAG_READ_ONLY = 0x01"

definition has_suffix :: "string \<Rightarrow> string \<Rightarrow> bool" where
  "has_suffix name suffix \<longleftrightarrow> length suffix \<noteq> 0 \<and> length name \<ge> length suffix
     \<and> list_all (\<lambda>index. to_lower (name ! (length name - length suffix + index)) = to_lower (suffix ! index))
         [0 ..< length suffix]"

definition read_be32 :: "bytes \<Rightarrow> nat \<Rightarrow> u32" where
  "read_be32 data i = push_bit 24 (ucast (data ! i)) OR push_bit 16 (ucast (data ! (i + 1)))
     OR push_bit 8 (ucast (data ! (i + 2))) OR ucast (data ! (i + 3))"

definition read_be64 :: "bytes \<Rightarrow> nat \<Rightarrow> u64" where
  "read_be64 data i = push_bit 32 (ucast (read_be32 data i)) OR ucast (read_be32 data (i + 4))"

definition write_be32 :: "nat \<Rightarrow> u32 \<Rightarrow> bytes \<Rightarrow> bytes" where
  "write_be32 i value data = data[i := ucast (drop_bit 24 value), i + 1 := ucast (drop_bit 16 value),
     i + 2 := ucast (drop_bit 8 value), i + 3 := ucast value]"

definition upd_slot :: "nat \<Rightarrow> (ASAS_VDISK_INFO \<Rightarrow> ASAS_VDISK_INFO) \<Rightarrow> ('v, 'd) vfs_state \<Rightarrow> ('v, 'd) vfs_state" where
  "upd_slot i f s = s\<lparr>vdisks := (vdisks s)[i := f (vdisks s ! i)]\<rparr>"

section \<open>Reading images\<close>

text \<open>Freeing the buffer at an address.\<close>

definition free_image :: "u64 \<Rightarrow> ('v, 'd) vfs_state \<Rightarrow> ('v, 'd) vfs_state option" where
  "free_image p s = map_option (\<lambda>h. s\<lparr>vfs_heap := h\<rparr>) (kfree p (vfs_heap s))"

text \<open>What every reader of an image does: take a buffer of the size of the file, open, read and close it, and free
  the buffer when the file cannot be opened or is short.\<close>

definition load_image ::
  "('v, 'd) vfs_env \<Rightarrow> string \<Rightarrow> u64 \<Rightarrow> ('v, 'd) vfs_state \<Rightarrow> ((u64 \<times> bytes) option \<times> ('v, 'd) vfs_state) option" where
  "load_image e path image_size s = do {
     (p, h1) \<leftarrow> kmalloc image_size (vfs_heap s);
     if p = 0 then Some (None, s\<lparr>vfs_heap := h1\<rparr>)
     else do {
       (handle, s1) \<leftarrow> vfs_open e path (s\<lparr>vfs_heap := h1\<rparr>);
       if handle = 0 then do { s2 \<leftarrow> free_image p s1; Some (None, s2) }
       else do {
         ((n, data), s2) \<leftarrow> vfs_read e handle image_size s1;
         (_, s3) \<leftarrow> vfs_close handle s2;
         if n < image_size then do { s4 \<leftarrow> free_image p s3; Some (None, s4) }
         else Some (Some (p, take (unat image_size) data), s3)
       }
     }
   }"

definition image_read_all ::
  "('v, 'd) vfs_env \<Rightarrow> string \<Rightarrow> ('v, 'd) vfs_state \<Rightarrow> ((u64 \<times> bytes \<times> u64) option \<times> ('v, 'd) vfs_state) option" where
  "image_read_all e path s = do {
     (image_size, s1) \<leftarrow> vfs_file_size e path s;
     if image_size = 0 then Some (None, s1)
     else do {
       (r, s2) \<leftarrow> load_image e path image_size s1;
       Some (map_option (\<lambda>(p, img). (p, img, image_size)) r, s2)
     }
   }"

section \<open>Fixed VHD images\<close>

definition footer_at :: "bytes \<Rightarrow> u64 \<Rightarrow> bytes" where
  "footer_at img file_size = drop (unat file_size - VDISK_SECTOR_SIZE) img"

text \<open>The sum of the bytes of the footer at some positions.\<close>

definition footer_sum :: "nat list \<Rightarrow> bytes \<Rightarrow> u32" where
  "footer_sum is footer = fold (\<lambda>index sum. sum + ucast (footer ! index)) is 0"

definition validate_fixed_vhd_footer :: "bytes \<Rightarrow> u64 \<Rightarrow> u64 option" where
  "validate_fixed_vhd_footer footer file_size =
     (if file_size \<le> of_nat VDISK_SECTOR_SIZE then None
      else if map (\<lambda>i. footer ! i) [0 ..< 8] \<noteq> map of_char ''conectix'' then None
      else if read_be32 footer 60 \<noteq> 2 then None
      else
        let stored = read_be32 footer 64;
            sum = footer_sum (filter (\<lambda>index. \<not> (index \<ge> 64 \<and> index < 68)) [0 ..< VDISK_SECTOR_SIZE]) footer
        in if NOT sum \<noteq> stored then None
           else
             let current_size = read_be64 footer 48
             in if current_size = 0 \<or> current_size + of_nat VDISK_SECTOR_SIZE \<noteq> file_size
                   \<or> current_size mod of_nat VDISK_SECTOR_SIZE \<noteq> 0 then None
                else Some current_size)"

text \<open>The footer with its checksum written again.\<close>

definition rewritten_footer :: "bytes \<Rightarrow> bytes" where
  "rewritten_footer footer =
     (let cleared = footer[64 := 0, 65 := 0, 66 := 0, 67 := 0];
          sum = footer_sum [0 ..< VDISK_SECTOR_SIZE] cleared
      in write_be32 64 (NOT sum) cleared)"

definition rewrite_fixed_vhd_footer ::
  "('v, 'd) vfs_env \<Rightarrow> string \<Rightarrow> ('v, 'd) vfs_state \<Rightarrow> (bool \<times> ('v, 'd) vfs_state) option" where
  "rewrite_fixed_vhd_footer e path s = do {
     (r, s1) \<leftarrow> image_read_all e path s;
     (case r of None \<Rightarrow> Some (False, s1)
      | Some (p, img, file_size) \<Rightarrow> do {
          (ok, s2) \<leftarrow>
            (if validate_fixed_vhd_footer (footer_at img file_size) file_size \<noteq> None
             then vfs_write_file e path (take (unat file_size - VDISK_SECTOR_SIZE) img
               @ rewritten_footer (footer_at img file_size)) s1
             else Some (False, s1));
          s3 \<leftarrow> free_image p s2;
          Some (ok, s3)
        })
   }"

section \<open>The driver\<close>

text \<open>The slot of a device, unless its context is null or the slot is not active.\<close>

definition device_slot :: "ASAS_BLOCK_DEVICE \<Rightarrow> ('v, 'd) vfs_state \<Rightarrow> ASAS_VDISK_INFO option" where
  "device_slot device s =
     (if driver_context device = 0 \<or> \<not> vd_active (vdisks s ! (driver_context device - 1)) then None
      else Some (vdisks s ! (driver_context device - 1)))"

definition request_fits :: "ASAS_VDISK_INFO \<Rightarrow> u64 \<Rightarrow> u64 \<Rightarrow> u64 \<Rightarrow> bool" where
  "request_fits slot image_size offset len \<longleftrightarrow> image_size \<noteq> 0 \<and> image_size = vd_file_size slot
     \<and> offset \<le> vd_size slot \<and> len \<le> vd_size slot - offset"

definition raw_read_blocks ::
  "('v, 'd) vfs_env \<Rightarrow> ASAS_BLOCK_DEVICE \<Rightarrow> u64 \<Rightarrow> u32 \<Rightarrow> ('v, 'd) vfs_state \<Rightarrow> (bytes option \<times> ('v, 'd) vfs_state) option" where
  "raw_read_blocks e device lba cnt s =
     (case device_slot device s of None \<Rightarrow> Some (None, s)
      | Some slot \<Rightarrow> do {
          (image_size, s1) \<leftarrow> vfs_file_size e (vd_path slot) s;
          let offset = lba * of_nat VDISK_SECTOR_SIZE;
          let len = (ucast cnt * of_nat VDISK_SECTOR_SIZE :: u64);
          if \<not> request_fits slot image_size offset len then Some (None, s1)
          else do {
            (r, s2) \<leftarrow> load_image e (vd_path slot) image_size s1;
            (case r of None \<Rightarrow> Some (None, s2)
             | Some (p, img) \<Rightarrow> do {
                 s3 \<leftarrow> free_image p s2;
                 Some (Some (take (unat len) (drop (unat offset) img)), s3)
               })
          }
        })"

definition raw_write_blocks ::
  "('v, 'd) vfs_env \<Rightarrow> ASAS_BLOCK_DEVICE \<Rightarrow> u64 \<Rightarrow> u32 \<Rightarrow> bytes \<Rightarrow> ('v, 'd) vfs_state \<Rightarrow>
   (bool \<times> ('v, 'd) vfs_state) option" where
  "raw_write_blocks e device lba cnt buffer s =
     (case device_slot device s of None \<Rightarrow> Some (False, s)
      | Some slot \<Rightarrow>
          if vd_read_only slot then Some (False, s)
          else do {
            (image_size, s1) \<leftarrow> vfs_file_size e (vd_path slot) s;
            let offset = lba * of_nat VDISK_SECTOR_SIZE;
            let len = (ucast cnt * of_nat VDISK_SECTOR_SIZE :: u64);
            if \<not> request_fits slot image_size offset len then Some (False, s1)
            else do {
              (r, s2) \<leftarrow> load_image e (vd_path slot) image_size s1;
              (case r of None \<Rightarrow> Some (False, s2)
               | Some (p, img) \<Rightarrow> do {
                   (ok, s3) \<leftarrow> vfs_write_file e (vd_path slot)
                     (put_bytes (unat offset) (take (unat len) buffer) img) s2;
                   s4 \<leftarrow> free_image p s3;
                   Some (ok, s4)
                 })
            }
          })"

definition raw_flush ::
  "('v, 'd) vfs_env \<Rightarrow> ASAS_BLOCK_DEVICE \<Rightarrow> ('v, 'd) vfs_state \<Rightarrow> (bool \<times> ('v, 'd) vfs_state) option" where
  "raw_flush e device s =
     (case device_slot device s of None \<Rightarrow> Some (False, s)
      | Some slot \<Rightarrow>
          if strings_equal (vd_format slot) ''vhd-fixed'' \<and> \<not> vd_read_only slot
          then rewrite_fixed_vhd_footer e (vd_path slot) s else Some (True, s))"

section \<open>Attaching and detaching\<close>

definition free_slot :: "('v, 'd) vfs_state \<Rightarrow> nat option" where
  "free_slot s = find (\<lambda>index. \<not> vd_active (vdisks s ! index)) [0 ..< VDISK_MAX_COUNT]"

definition vdisk_name :: "nat \<Rightarrow> string" where
  "vdisk_name index = ''vdisk'' @ [char_of (48 + index)]"

definition vdisk_description :: "nat \<Rightarrow> nat \<Rightarrow> ASAS_VDISK_INFO \<Rightarrow> ASAS_BLOCK_DEVICE" where
  "vdisk_description ops index v = \<lparr>bd_id = 0, bd_name = copy_string 16 (vd_name v),
     logical_block_size = of_nat VDISK_SECTOR_SIZE, physical_block_size = of_nat VDISK_SECTOR_SIZE,
     block_count = vd_size v div of_nat VDISK_SECTOR_SIZE,
     bd_flags = (if vd_read_only v then BLOCK_DEVICE_FLAG_READ_ONLY else 0), bd_target = 0, bd_lun = 0, start_lba = 0,
     bd_parent = None, bd_ops = Driver_ops ops, driver_context = index + 1\<rparr>"

definition attach_virtual_disk ::
  "nat \<Rightarrow> string \<Rightarrow> u32 \<Rightarrow> string \<Rightarrow> u64 \<Rightarrow> u64 \<Rightarrow> ('v, 'd) vfs_state \<Rightarrow> nat option \<times> ('v, 'd) vfs_state" where
  "attach_virtual_disk ops path flags format data_size file_size s =
     (if path = [] \<or> data_size = 0 \<or> file_size = 0 \<or> data_size mod of_nat VDISK_SECTOR_SIZE \<noteq> 0
         \<or> list_ex (\<lambda>index. vd_active (vdisks s ! index) \<and> strings_equal (vd_path (vdisks s ! index)) path) [0 ..< VDISK_MAX_COUNT]
      then (None, s)
      else case free_slot s of None \<Rightarrow> (None, s)
        | Some index \<Rightarrow>
            let v = (vdisks s ! index)\<lparr>vd_active := True, vd_read_only := flags AND VDISK_FLAG_READ_ONLY \<noteq> 0,
                  vd_size := data_size, vd_file_size := file_size, vd_format := copy_string 12 format,
                  vd_path := copy_string 256 path, vd_name := vdisk_name index\<rparr>;
                (r, b) = block_device_register (Some (vdisk_description ops index v)) (vfs_blocks s);
                s1 = s\<lparr>vfs_disks := (vfs_disks s)\<lparr>pt_blocks := b\<rparr>\<rparr>
            in (r, upd_slot index (\<lambda>_. v\<lparr>vd_device := r, vd_active := r \<noteq> None\<rparr>) s1))"

definition virtual_disk_attach_raw ::
  "('v, 'd) vfs_env \<Rightarrow> nat \<Rightarrow> string option \<Rightarrow> u32 \<Rightarrow> ('v, 'd) vfs_state \<Rightarrow> (nat option \<times> ('v, 'd) vfs_state) option" where
  "virtual_disk_attach_raw e ops path flags s =
     (case path of None \<Rightarrow> Some (None, s)
      | Some p \<Rightarrow>
          if p = [] then Some (None, s)
          else do {
            (sz, s1) \<leftarrow> vfs_file_size e p s;
            Some (attach_virtual_disk ops p flags ''raw'' sz sz s1)
          })"

definition virtual_disk_attach_fixed_vhd ::
  "('v, 'd) vfs_env \<Rightarrow> nat \<Rightarrow> string option \<Rightarrow> u32 \<Rightarrow> ('v, 'd) vfs_state \<Rightarrow> (nat option \<times> ('v, 'd) vfs_state) option" where
  "virtual_disk_attach_fixed_vhd e ops path flags s =
     (case path of None \<Rightarrow> Some (None, s)
      | Some p \<Rightarrow>
          if p = [] then Some (None, s)
          else do {
            (file_size, s1) \<leftarrow> vfs_file_size e p s;
            if file_size \<le> of_nat VDISK_SECTOR_SIZE then Some (None, s1)
            else do {
              (r, s2) \<leftarrow> load_image e p file_size s1;
              (case r of None \<Rightarrow> Some (None, s2)
               | Some (a, img) \<Rightarrow> do {
                   s3 \<leftarrow> free_image a s2;
                   Some (case validate_fixed_vhd_footer (footer_at img file_size) file_size of
                       None \<Rightarrow> (None, s3)
                     | Some data_size \<Rightarrow> attach_virtual_disk ops p flags ''vhd-fixed'' data_size file_size s3)
                 })
            }
          })"

definition validate_qcow2_image :: "bytes \<Rightarrow> u64 \<Rightarrow> bool" where
  "validate_qcow2_image img sz \<longleftrightarrow>
     sz \<ge> 104 \<and> img ! 0 = of_char (CHR ''Q'') \<and> img ! 1 = of_char (CHR ''F'') \<and> img ! 2 = of_char (CHR ''I'')
     \<and> img ! 3 = 0xFB
     \<and> read_be32 img 4 \<ge> 2 \<and> read_be32 img 4 \<le> 3
     \<and> read_be32 img 20 \<ge> 9 \<and> read_be32 img 20 \<le> 21
     \<and> \<not> (read_be32 img 36 = 0 \<or> read_be64 img 40 = 0 \<or> read_be64 img 48 = 0 \<or> read_be32 img 56 = 0)
     \<and> \<not> (read_be64 img 40 \<ge> sz \<or> read_be64 img 48 \<ge> sz)
     \<and> \<not> (read_be64 img 8 \<noteq> 0
          \<and> (read_be64 img 8 \<ge> sz \<or> read_be32 img 16 = 0 \<or> read_be64 img 8 + ucast (read_be32 img 16) > sz))"

text \<open>A four-letter signature at an offset.\<close>

definition signature_at :: "bytes \<Rightarrow> u64 \<Rightarrow> string \<Rightarrow> u64 \<Rightarrow> bool" where
  "signature_at img sz sig offset \<longleftrightarrow> offset + 4 \<le> sz
     \<and> list_all (\<lambda>i. img ! (unat offset + i) = of_char (sig ! i)) [0 ..< 4]"

definition validate_vhdx_image :: "bytes \<Rightarrow> u64 \<Rightarrow> bool" where
  "validate_vhdx_image img sz \<longleftrightarrow>
     sz \<ge> 4 * 1024 * 1024 \<and> list_all (\<lambda>i. img ! i = of_char (''vhdxfile'' ! i)) [0 ..< 8]
     \<and> list_ex (signature_at img sz ''head'') [64 * 1024, 128 * 1024]
     \<and> list_ex (signature_at img sz ''regi'') [192 * 1024, 256 * 1024]"

definition virtual_disk_validate_image ::
  "('v, 'd) vfs_env \<Rightarrow> string option \<Rightarrow> string option \<Rightarrow> ('v, 'd) vfs_state \<Rightarrow> (bool \<times> ('v, 'd) vfs_state) option" where
  "virtual_disk_validate_image e path format s =
     (case (path, format) of
        (Some q, Some f) \<Rightarrow> do {
          (r, s1) \<leftarrow> image_read_all e q s;
          (case r of None \<Rightarrow> Some (False, s1)
           | Some (p, img, sz) \<Rightarrow> do {
               s2 \<leftarrow> free_image p s1;
               Some (if strings_equal f ''raw'' then sz \<noteq> 0 \<and> sz mod of_nat VDISK_SECTOR_SIZE = 0
                 else if strings_equal f ''vhd-fixed''
                 then sz > of_nat VDISK_SECTOR_SIZE \<and> validate_fixed_vhd_footer (footer_at img sz) sz \<noteq> None
                 else if strings_equal f ''qcow2'' then validate_qcow2_image img sz
                 else if strings_equal f ''vhdx'' then validate_vhdx_image img sz
                 else False, s2)
             })
        }
      | _ \<Rightarrow> Some (False, s))"

definition virtual_disk_attach_auto ::
  "('v, 'd) vfs_env \<Rightarrow> nat \<Rightarrow> string option \<Rightarrow> u32 \<Rightarrow> ('v, 'd) vfs_state \<Rightarrow> (nat option \<times> ('v, 'd) vfs_state) option" where
  "virtual_disk_attach_auto e ops path flags s =
     (case path of None \<Rightarrow> Some (None, s)
      | Some q \<Rightarrow>
          if q = [] then Some (None, s)
          else do {
            (sz, s1) \<leftarrow> vfs_file_size e q s;
            if sz = 0 then Some (None, s1)
            else do {
              (r, s2) \<leftarrow> image_read_all e q s1;
              (case r of None \<Rightarrow> Some (None, s2)
               | Some (p, img, image_size) \<Rightarrow> do {
                   s3 \<leftarrow> free_image p s2;
                   if image_size > of_nat VDISK_SECTOR_SIZE
                      \<and> validate_fixed_vhd_footer (footer_at img image_size) image_size \<noteq> None
                   then virtual_disk_attach_fixed_vhd e ops path flags s3
                   else if validate_qcow2_image img image_size \<or> validate_vhdx_image img image_size
                      \<or> has_suffix q ''.qcow2'' \<or> has_suffix q ''.vhdx''
                   then Some (None, s3)
                   else virtual_disk_attach_raw e ops path flags s3
                 })
            }
          })"

text \<open>The first active slot with a name.\<close>

definition slot_named :: "string \<Rightarrow> ('v, 'd) vfs_state \<Rightarrow> nat option" where
  "slot_named name s =
     find (\<lambda>index. vd_active (vdisks s ! index) \<and> strings_equal (vd_name (vdisks s ! index)) name) [0 ..< VDISK_MAX_COUNT]"

definition virtual_disk_detach :: "string option \<Rightarrow> ('v, 'd) vfs_state \<Rightarrow> bool \<times> ('v, 'd) vfs_state" where
  "virtual_disk_detach name s =
     (case name of None \<Rightarrow> (False, s)
      | Some n \<Rightarrow>
          if n = [] then (False, s)
          else (case slot_named n s of None \<Rightarrow> (False, s)
            | Some index \<Rightarrow>
                (case vd_device (vdisks s ! index) of
                   None \<Rightarrow> (True, upd_slot index (\<lambda>v. v\<lparr>vd_active := False\<rparr>) s)
                 | Some d \<Rightarrow>
                     if filesystem_device_is_mounted (devices (vfs_blocks s)) (Some d) (vfs_fs s) then (False, s)
                     else
                       let b = vfs_blocks s; dev = devices b ! d
                       in (True, upd_slot index (\<lambda>v. v\<lparr>vd_active := False\<rparr>)
                            (s\<lparr>vfs_disks := (vfs_disks s)\<lparr>pt_blocks := b\<lparr>devices := (devices b)[d :=
                               dev\<lparr>bd_flags := bd_flags dev OR BLOCK_DEVICE_FLAG_READ_ONLY\<rparr>]\<rparr>\<rparr>\<rparr>)))))"

definition virtual_disk_find :: "string option \<Rightarrow> ('v, 'd) vfs_state \<Rightarrow> ASAS_VDISK_INFO option" where
  "virtual_disk_find name s =
     (case name of None \<Rightarrow> None | Some n \<Rightarrow> map_option (\<lambda>index. vdisks s ! index) (slot_named n s))"

text \<open>Checking a raw image only reads its first sector and forgets it.\<close>

definition virtual_disk_check ::
  "('v, 'd) vfs_env \<Rightarrow> string option \<Rightarrow> ('v, 'd) vfs_state \<Rightarrow> (bool \<times> ('v, 'd) vfs_state) option" where
  "virtual_disk_check e name s =
     (case virtual_disk_find name s of None \<Rightarrow> Some (False, s)
      | Some info \<Rightarrow> do {
          (sz, s1) \<leftarrow> vfs_file_size e (vd_path info) s;
          if sz = 0 \<or> sz \<noteq> vd_file_size info \<or> vd_size info mod of_nat VDISK_SECTOR_SIZE \<noteq> 0 then Some (False, s1)
          else if strings_equal (vd_format info) ''vhd-fixed'' then do {
            (r, s2) \<leftarrow> load_image e (vd_path info) sz s1;
            (case r of None \<Rightarrow> Some (False, s2)
             | Some (p, img) \<Rightarrow> do {
                 s3 \<leftarrow> free_image p s2;
                 Some (validate_fixed_vhd_footer (footer_at img sz) sz = Some (vd_size info), s3)
               })
          }
          else do {
            (p, h1) \<leftarrow> kmalloc (of_nat VDISK_SECTOR_SIZE) (vfs_heap s1);
            let s2 = s1\<lparr>vfs_heap := h1\<rparr>;
            if p = 0 then Some (False, s2)
            else do {
              (handle, s3) \<leftarrow> vfs_open e (vd_path info) s2;
              if handle = 0 then do { s4 \<leftarrow> free_image p s3; Some (False, s4) }
              else do {
                (_, s4) \<leftarrow> vfs_read e handle (of_nat VDISK_SECTOR_SIZE) s3;
                (_, s5) \<leftarrow> vfs_close handle s4;
                s6 \<leftarrow> free_image p s5;
                Some (True, s6)
              }
            }
          }
        })"

definition virtual_disk_count :: "('v, 'd) vfs_state \<Rightarrow> nat" where
  "virtual_disk_count s = length (filter (\<lambda>index. vd_active (vdisks s ! index)) [0 ..< VDISK_MAX_COUNT])"

text \<open>The loop of \<open>virtual_disk_get\<close>.\<close>

fun get_slot_from :: "nat list \<Rightarrow> nat \<Rightarrow> nat \<Rightarrow> ('v, 'd) vfs_state \<Rightarrow> nat option" where
  "get_slot_from [] seen index s = None"
| "get_slot_from (slot # rest) seen index s =
     (if \<not> vd_active (vdisks s ! slot) then get_slot_from rest seen index s
      else if seen = index then Some slot else get_slot_from rest (Suc seen) index s)"

definition virtual_disk_get :: "u32 \<Rightarrow> ('v, 'd) vfs_state \<Rightarrow> ASAS_VDISK_INFO option" where
  "virtual_disk_get index s = map_option (\<lambda>slot. vdisks s ! slot) (get_slot_from [0 ..< VDISK_MAX_COUNT] 0 (unat index) s)"

end
