(* ===== verification/Vdisk_Images.thy ===== *)
theory Vdisk_Images
  imports Vfs_Files Virtual_Disk
begin

text \<open>
  Disk images: rewriting the footer of a fixed VHD writes the image back as it was, requests within a device touch only
  their own bytes of the image, the buffers taken for images are given back, and what a detached device reads.
\<close>

declare upt_rec_numeral [simp del]

section \<open>Big-endian words\<close>

lemma bit_u8_high: "8 \<le> n \<Longrightarrow> \<not> bit (w :: u8) n"
  using bit_imp_le_length [of w n] by auto

lemma write_read_be32:
  assumes "i + 3 < length data" "length data' = length data"
    "\<forall>k < length data. k < i \<or> i + 3 < k \<longrightarrow> data' ! k = data ! k"
  shows "write_be32 i (read_be32 data i) data' = data"
proof (rule nth_equalityI)
  show "length (write_be32 i (read_be32 data i) data') = length data" using assms(2) by (simp add: write_be32_def)
  have b: "ucast (drop_bit 24 (read_be32 data i)) = data ! i" "ucast (drop_bit 16 (read_be32 data i)) = data ! (i + 1)"
    "ucast (drop_bit 8 (read_be32 data i)) = data ! (i + 2)" "ucast (read_be32 data i) = data ! (i + 3)"
    by (rule bit_word_eqI; auto simp: read_be32_def bit_simps bit_u8_high)+
  fix k assume "k < length (write_be32 i (read_be32 data i) data')"
  then have k: "k < length data" using assms(2) by (simp add: write_be32_def)
  show "write_be32 i (read_be32 data i) data' ! k = data ! k"
    using assms k by (auto simp: write_be32_def b nth_list_update)
qed

lemma read_write_be32:
  assumes "i + 3 < length data"
  shows "read_be32 (write_be32 i v data) i = v"
proof (rule bit_word_eqI)
  fix n :: nat assume n: "n < LENGTH(32)"
  have "read_be32 (write_be32 i v data) i = push_bit 24 (ucast (ucast (drop_bit 24 v) :: u8))
      OR push_bit 16 (ucast (ucast (drop_bit 16 v) :: u8)) OR push_bit 8 (ucast (ucast (drop_bit 8 v) :: u8)) OR ucast (ucast v :: u8)"
    using assms by (simp add: read_be32_def write_be32_def nth_list_update)
  then show "bit (read_be32 (write_be32 i v data) i) n = bit v n"
    using n by (cases "n < 16"; cases "n < 24"; auto simp: bit_simps)
qed

section \<open>Footers\<close>

lemma footer_sum_eq: "footer_sum is footer = (\<Sum>i \<leftarrow> is. ucast (footer ! i))"
proof -
  have "fold (\<lambda>index sum. sum + ucast (footer ! index)) is a = a + (\<Sum>i \<leftarrow> is. ucast (footer ! i))" for a :: u32
    by (induction "is" arbitrary: a) (simp_all add: add.assoc)
  then show ?thesis by (simp add: footer_sum_def)
qed

lemma footer_indices: "[0 ..< VDISK_SECTOR_SIZE] = [0 ..< 64] @ [64 ..< 68] @ [68 ..< 512]"
  using upt_add_eq_append [of 0 64 448] upt_add_eq_append [of 64 68 444] by (simp add: VDISK_SECTOR_SIZE_def)

lemma footer_others:
  "filter (\<lambda>index. \<not> (index \<ge> 64 \<and> index < 68)) [0 ..< VDISK_SECTOR_SIZE] = [0 ..< 64] @ [68 ..< 512]"
proof -
  let ?P = "\<lambda>index::nat. \<not> (index \<ge> 64 \<and> index < 68)"
  have "filter ?P [0 ..< 64] = [0 ..< 64]" "filter ?P [68 ..< 512] = [68 ..< 512]"
    by (rule filter_True, auto)+
  moreover have "filter ?P [64 ..< 68] = []" by (rule filter_False) auto
  ultimately show ?thesis unfolding footer_indices filter_append by simp
qed

text \<open>The sum over the footer with an empty checksum is the sum over the other bytes.\<close>

lemma footer_sum_cleared:
  assumes "length footer = 512"
  shows "footer_sum [0 ..< VDISK_SECTOR_SIZE] (footer[64 := 0, 65 := 0, 66 := 0, 67 := 0])
    = footer_sum ([0 ..< 64] @ [68 ..< 512]) footer"
proof -
  let ?c = "footer[64 := 0, 65 := 0, 66 := 0, 67 := 0]"
  have "map (\<lambda>i. ucast (?c ! i) :: u32) [64 ..< 68] = replicate 4 0" using assms by (simp add: upt_rec numeral_eq_Suc)
  moreover have "map (\<lambda>i. ucast (?c ! i) :: u32) [0 ..< 64] = map (\<lambda>i. ucast (footer ! i)) [0 ..< 64]"
    "map (\<lambda>i. ucast (?c ! i) :: u32) [68 ..< 512] = map (\<lambda>i. ucast (footer ! i)) [68 ..< 512]"
    by (rule map_cong [OF refl], auto)+
  ultimately show ?thesis
    unfolding footer_indices footer_sum_eq map_append sum_list_append by (simp only: sum_list_replicate) simp
qed

text \<open>A footer that passes the check is not changed by writing its checksum again.\<close>

lemma rewritten_footer_same:
  assumes "validate_fixed_vhd_footer footer file_size = Some d" "length footer = 512"
  shows "rewritten_footer footer = footer"
proof -
  let ?c = "footer[64 := 0, 65 := 0, 66 := 0, 67 := 0]"
  have "NOT (footer_sum ([0 ..< 64] @ [68 ..< 512]) footer) = read_be32 footer 64"
    using assms(1) unfolding validate_fixed_vhd_footer_def Let_def footer_others by (simp split: if_splits)
  then have "rewritten_footer footer = write_be32 64 (read_be32 footer 64) ?c"
    using footer_sum_cleared [OF assms(2)] by (simp add: rewritten_footer_def Let_def)
  also have "\<dots> = footer" by (rule write_read_be32) (use assms(2) in \<open>auto simp: nth_list_update\<close>)
  finally show ?thesis .
qed

text \<open>Writing the checksum makes a footer valid whose other fields are.\<close>

lemma rewritten_footer_valid:
  assumes len: "length footer = 512" and c: "map (\<lambda>i. footer ! i) [0 ..< 8] = map of_char ''conectix''"
    and ty: "read_be32 footer 60 = 2" and sz: "512 < file_size" "read_be64 footer 48 = d" "d \<noteq> 0" "d + 512 = file_size" "d mod 512 = 0"
  shows "validate_fixed_vhd_footer (rewritten_footer footer) file_size = Some d"
proof -
  let ?c = "footer[64 := 0, 65 := 0, 66 := 0, 67 := 0]" and ?r = "rewritten_footer footer"
  have r: "?r = write_be32 64 (NOT (footer_sum [0 ..< VDISK_SECTOR_SIZE] ?c)) ?c" by (simp add: rewritten_footer_def Let_def)
  have same: "?r ! k = footer ! k" if "k < 64 \<or> 68 \<le> k" for k
    using that unfolding r write_be32_def by (auto simp: nth_list_update len)
  have "map (\<lambda>i. ?r ! i) [0 ..< 8] = map of_char ''conectix''" unfolding c [symmetric] by (rule map_cong) (auto simp: same)
  moreover have "read_be32 ?r 60 = 2" "read_be64 ?r 48 = d" using ty sz(2) by (simp_all add: read_be64_def read_be32_def same)
  moreover have "read_be32 ?r 64 = NOT (footer_sum [0 ..< VDISK_SECTOR_SIZE] ?c)"
    unfolding r by (rule read_write_be32) (simp add: len)
  moreover have "footer_sum (filter (\<lambda>index. \<not> (index \<ge> 64 \<and> index < 68)) [0 ..< VDISK_SECTOR_SIZE]) ?r
      = footer_sum [0 ..< VDISK_SECTOR_SIZE] ?c"
    unfolding footer_sum_cleared [OF len] footer_others
    unfolding footer_sum_eq
    by (rule arg_cong [of _ _ sum_list], rule map_cong) (auto simp: same)
  ultimately show ?thesis using sz by (simp add: validate_fixed_vhd_footer_def Let_def VDISK_SECTOR_SIZE_def)
qed

lemma valid_footer_size:
  assumes "validate_fixed_vhd_footer footer file_size = Some d"
  shows "unat d + 512 = unat file_size" "unat d mod 512 = 0" "d \<noteq> 0"
proof -
  have v: "d \<noteq> 0" "d + 512 = file_size" "d mod 512 = 0" "512 < file_size"
    using assms by (auto simp: validate_fixed_vhd_footer_def VDISK_SECTOR_SIZE_def Let_def not_le split: if_splits)
  show "d \<noteq> 0" by (fact v(1))
  have d: "d = file_size - 512" using v(2) by auto
  have "unat (512 :: u64) = 512" by simp
  then show "unat d + 512 = unat file_size" using v(4) unat_sub [of 512 file_size] unfolding d
    by (simp add: word_le_nat_alt word_less_nat_alt)
  have "unat (d mod 512) = 0" using v(3) by simp
  then show "unat d mod 512 = 0" unfolding unat_mod by simp
qed

section \<open>Calls of the virtual file system leave the disks alone\<close>

definition beside :: "('v, 'd) vfs_state \<Rightarrow> ('v, 'd) vfs_state \<Rightarrow> bool" where
  "beside s s' \<longleftrightarrow> vdisks s' = vdisks s \<and> vfs_disks s' = vfs_disks s \<and> vfs_heap s' = vfs_heap s"

lemma beside_simps [simp]:
  "beside s s" "beside s (s1\<lparr>vfs_fs := f\<rparr>) = beside s s1" "beside s (vfs_unlock s1) = beside s s1"
  "beside s (upd_handle i g s1) = beside s s1"
  by (simp_all add: beside_def vfs_unlock_def upd_handle_def)

lemma beside_trans: "beside s s1 \<Longrightarrow> beside s1 s2 \<Longrightarrow> beside s s2"
  by (simp add: beside_def)

lemma quiet_beside: "quiet s s' \<Longrightarrow> beside s s'"
  by (auto simp: quiet_def beside_def)

lemma lock_beside: "vfs_lock s = Some s' \<Longrightarrow> beside s s'"
  by (auto simp: vfs_lock_def beside_def split: if_splits)

lemma open_beside:
  assumes "vfs_inv s" "vfs_open e path s = Some (h, s')"
  shows "beside s s'"
proof (cases "path = node_path (welcome_node s) \<or> boot_fallback_enabled s")
  case True
  then show ?thesis using assms(2) by (auto simp: vfs_open_def split: option.splits if_splits)
next
  case False
  obtain t s1 where t: "open_target e path s = Some (t, s1)" "beside s s1"
    by (rule open_target_cases [OF assms(1), of e path]) (auto dest: quiet_beside)
  have o: "beside s1 s'" if "open_handle path m s1 = Some (h, s')" for m
    using that by (auto simp: open_handle_def bind_eq_Some_conv Let_def dest!: lock_beside split: option.splits if_splits)
  show ?thesis
    using assms(2) False t beside_trans [OF t(2) o] by (auto simp: vfs_open_def split: option.splits)
qed

lemma close_beside:
  assumes "vfs_close h s = Some (ok, s')"
  shows "beside s s'"
proof (cases "h = 1 \<or> is_boot_handle h s")
  case True
  then show ?thesis using assms by (simp add: vfs_close_def)
next
  case False
  then obtain s1 where l: "vfs_lock s = Some s1" and c: "(case disk_handle h s1 of
      Some index \<Rightarrow> do {
        let mount = dh_mount (disk_handles s1 ! index);
        let s2 = vfs_unlock (upd_handle index (\<lambda>h. h\<lparr>dh_used := False, dh_mount := None\<rparr>) s1);
        fs1 \<leftarrow> (if mount \<noteq> None then filesystem_mount_release mount (vfs_fs s2) else Some (vfs_fs s2));
        Some (True, s2\<lparr>vfs_fs := fs1\<rparr>)
      }
    | None \<Rightarrow> Some (False, vfs_unlock s1)) = Some (ok, s')"
    using assms by (auto simp: vfs_close_def bind_eq_Some_conv)
  have "beside s s1" using lock_beside [OF l] .
  then show ?thesis
    using c by (cases "disk_handle h s1") (auto simp: Let_def bind_eq_Some_conv simp del: if_split)
qed

text \<open>The state around a buffer of the heap: the live buffers are those before and the one at \<open>p\<close>.\<close>

definition with_buffer :: "u64 \<Rightarrow> ('v, 'd) vfs_state \<Rightarrow> ('v, 'd) vfs_state \<Rightarrow> bool" where
  "with_buffer p s s' \<longleftrightarrow> vfs_inv s' \<and> vdisks s' = vdisks s \<and> vfs_disks s' = vfs_disks s
     \<and> (\<exists>n h. kmalloc n (vfs_heap s) = Some (p, h) \<and> p \<noteq> 0 \<and> vfs_heap s' = h)"

text \<open>A call that left the disks alone and has given its buffers back.\<close>

definition settled_call :: "('v, 'd) vfs_state \<Rightarrow> ('v, 'd) vfs_state \<Rightarrow> bool" where
  "settled_call s s' \<longleftrightarrow> vfs_inv s' \<and> vdisks s' = vdisks s \<and> vfs_disks s' = vfs_disks s
     \<and> heap_live (vfs_heap s') = heap_live (vfs_heap s)"

lemma quiet_settled: "quiet s s' \<Longrightarrow> vfs_inv s \<Longrightarrow> settled_call s s'"
  using quiet_kept [of s s' "{}"] quiet_beside [of s s'] by (simp add: settled_call_def kept_def beside_def)

lemma settled_trans: "settled_call s s1 \<Longrightarrow> settled_call s1 s2 \<Longrightarrow> settled_call s s2"
  by (simp add: settled_call_def)

lemma with_buffer_beside: "with_buffer p s s1 \<Longrightarrow> beside s1 s2 \<Longrightarrow> vfs_inv s2 \<Longrightarrow> with_buffer p s s2"
  by (auto simp: with_buffer_def beside_def)

lemma free_image_settled:
  assumes "vfs_inv s" "with_buffer p s s1"
  shows "\<exists>s2. free_image p s1 = Some s2 \<and> settled_call s s2"
proof -
  obtain n h where b: "kmalloc n (vfs_heap s) = Some (p, h)" "p \<noteq> 0" "vfs_heap s1 = h"
    and s1: "vfs_inv s1" "vdisks s1 = vdisks s" "vfs_disks s1 = vfs_disks s"
    using assms(2) by (auto simp: with_buffer_def)
  obtain h2 where h2: "kfree p h = Some h2" "\<exists>bs. heap_wf h2 bs" "heap_live h2 = heap_live (vfs_heap s)"
    using kheap.scoped_buffer [OF vfs_invD(9) [OF assms(1)] b(1,2)] by blast
  have "vfs_inv (s1\<lparr>vfs_heap := h2\<rparr>)" using s1(1) h2(2) by (simp add: vfs_inv_def)
  then show ?thesis using b s1 h2 by (simp add: free_image_def settled_call_def)
qed

lemma load_image_returns:
  assumes inv: "vfs_inv s"
  shows "\<exists>r s'. load_image e path n s = Some (r, s') \<and> (case r of None \<Rightarrow> settled_call s s' | Some (p, img) \<Rightarrow> with_buffer p s s')"
proof -
  obtain p h where p: "kmalloc n (vfs_heap s) = Some (p, h)" and h: "\<exists>bs. heap_wf h bs"
    using kheap.alloc_total [OF vfs_invD(9) [OF inv]] by blast
  let ?s0 = "s\<lparr>vfs_heap := h\<rparr>"
  have inv0: "vfs_inv ?s0" using inv h by (simp add: vfs_inv_def)
  show ?thesis
  proof (cases "p = 0")
    case True
    then have "heap_live h = heap_live (vfs_heap s)" using kheap.alloc_null [OF vfs_invD(9) [OF inv], of n h] p by simp
    then show ?thesis using True p inv0 by (simp add: load_image_def settled_call_def)
  next
    case False
    obtain hd s1 where o: "vfs_open e path ?s0 = Some (hd, s1)" "kept {} ?s0 s1" using open_kept [OF inv0] by blast
    obtain x s2 where rd: "vfs_read e hd n s1 = Some (x, s2)" "quiet s1 s2" using read_quiet [OF keptD [OF o(2)]] by blast
    have inv2: "vfs_inv s2" using quiet_inv [OF rd(2) keptD [OF o(2)]] .
    obtain ok s3 where c: "vfs_close hd s2 = Some (ok, s3)" "kept {k. hd = of_nat k + 2} s2 s3" using close_kept [OF inv2] by blast
    have w0: "with_buffer p s ?s0" using inv0 p False by (auto simp: with_buffer_def)
    have w1: "with_buffer p s s1" using with_buffer_beside [OF w0 open_beside [OF inv0 o(1)] keptD [OF o(2)]] .
    have w3: "with_buffer p s s3"
      using with_buffer_beside [OF with_buffer_beside [OF w1 quiet_beside [OF rd(2)] inv2] close_beside [OF c(1)] keptD [OF c(2)]] .
    obtain t1 t3 where f: "free_image p s1 = Some t1" "settled_call s t1" "free_image p s3 = Some t3" "settled_call s t3"
      using free_image_settled [OF inv w1] free_image_settled [OF inv w3] by blast
    show ?thesis using False p o(1) rd(1) c(1) f w3 by (cases x) (simp add: load_image_def)
  qed
qed

lemma image_read_all_returns:
  assumes inv: "vfs_inv s"
  shows "\<exists>r s0 s'. image_read_all e path s = Some (r, s') \<and> settled_call s s0
    \<and> (case r of None \<Rightarrow> settled_call s s' | Some (p, img, n) \<Rightarrow> with_buffer p s0 s')"
proof -
  obtain n s1 where f: "vfs_file_size e path s = Some (n, s1)" "quiet s s1" using file_size_quiet [OF inv] by blast
  note q = quiet_settled [OF f(2) inv] and inv1 = quiet_inv [OF f(2) inv]
  obtain r s2 where l: "load_image e path n s1 = Some (r, s2)"
    "case r of None \<Rightarrow> settled_call s1 s2 | Some (p, img) \<Rightarrow> with_buffer p s1 s2" using load_image_returns [OF inv1] by blast
  show ?thesis
    using f(1) l q settled_trans [OF q] by (cases "n = 0"; cases r) (auto simp: image_read_all_def)
qed

section \<open>The slots\<close>

text \<open>An active slot has the name of its position, whole sectors, not more than its file, and a device of that size whose
  context is the slot.\<close>

definition slot_ok :: "'d block_state \<Rightarrow> nat \<Rightarrow> ASAS_VDISK_INFO \<Rightarrow> bool" where
  "slot_ok b i v \<longleftrightarrow> (vd_active v \<longrightarrow> vd_name v = vdisk_name i \<and> vd_size v \<noteq> 0 \<and> unat (vd_size v) mod 512 = 0
     \<and> unat (vd_size v) \<le> unat (vd_file_size v)
     \<and> (\<exists>d. vd_device v = Some d \<and> d < device_count b \<and> driver_context (devices b ! d) = i + 1
          \<and> block_count (devices b ! d) = vd_size v div 512))"

definition vdisk_wf :: "('v, 'd) vfs_state \<Rightarrow> bool" where
  "vdisk_wf s \<longleftrightarrow> length (vdisks s) = 8 \<and> length (devices (vfs_blocks s)) = 32 \<and> device_count (vfs_blocks s) \<le> 32
     \<and> (\<forall>i < 8. slot_ok (vfs_blocks s) i (vdisks s ! i))"

lemma vdisk_wfD:
  assumes "vdisk_wf s"
  shows "length (vdisks s) = 8" "length (devices (vfs_blocks s)) = 32" "device_count (vfs_blocks s) \<le> 32"
    "i < 8 \<Longrightarrow> slot_ok (vfs_blocks s) i (vdisks s ! i)"
  using assms unfolding vdisk_wf_def by blast+

lemma settled_wf: "settled_call s s' \<Longrightarrow> vdisk_wf s' = vdisk_wf s"
  by (simp add: settled_call_def vdisk_wf_def)

lemma register_cases:
  assumes "block_device_register (Some d) b = (r, b')"
  obtains "r = None" "b' = b"
  | "r = Some (device_count b)" "device_count b < 32" "device_count b' = device_count b + 1"
    "\<exists>flags id name. devices b' = (devices b)[device_count b := d\<lparr>bd_flags := flags, bd_id := id, bd_name := name\<rparr>]"
proof (cases "r = None")
  case True
  then show ?thesis using assms that(1) by (auto simp: block_device_register_def Let_def split: if_splits)
next
  case False
  then have *: "r = Some (device_count b)" "device_count b < 32" "device_count b' = device_count b + 1"
    using assms by (auto simp: block_device_register_def Let_def BLOCK_DEVICE_MAX_COUNT_def split: if_splits)
  have "devices b' = (devices b)[device_count b := d\<lparr>bd_flags := if bd_flags d AND BLOCK_DEVICE_FLAG_OPTICAL \<noteq> 0
      then bd_flags d OR BLOCK_DEVICE_FLAG_READ_ONLY else bd_flags d,
      bd_id := of_nat (device_count b), bd_name := copy_string 16 (bd_name d)\<rparr>]"
    using assms False by (auto simp: block_device_register_def Let_def split: if_splits)
  then show ?thesis using * that(2) by blast
qed

text \<open>What a call that changes the slots may do besides.\<close>

definition slots_changed :: "('v, 'd) vfs_state \<Rightarrow> ('v, 'd) vfs_state \<Rightarrow> bool" where
  "slots_changed s s' \<longleftrightarrow> (\<exists>v p. s' = s\<lparr>vdisks := v, vfs_disks := p\<rparr>) \<and> (vdisk_wf s \<longrightarrow> vdisk_wf s')"

lemma slots_changedI:
  "s' = s\<lparr>vdisks := v, vfs_disks := p\<rparr> \<Longrightarrow> (vdisk_wf s \<Longrightarrow> vdisk_wf s') \<Longrightarrow> slots_changed s s'"
  unfolding slots_changed_def by blast

lemma slots_changed_refl: "slots_changed s s"
  unfolding slots_changed_def by (intro conjI exI [of _ "vdisks s"] exI [of _ "vfs_disks s"]) simp_all

lemma slot_ok_grown:
  assumes "slot_ok b i v" "device_count b \<le> device_count b'"
    "\<And>d. d < device_count b \<Longrightarrow> driver_context (devices b' ! d) = driver_context (devices b ! d)
      \<and> block_count (devices b' ! d) = block_count (devices b ! d)"
  shows "slot_ok b' i v"
  using assms unfolding slot_ok_def by (metis less_le_trans)

lemma attach_changed:
  assumes at: "attach_virtual_disk ops path flags format n m s = (r, s')" and le: "unat n \<le> unat m"
  shows "slots_changed s s'"
proof (cases "path = [] \<or> n = 0 \<or> m = 0 \<or> n mod of_nat VDISK_SECTOR_SIZE \<noteq> 0
    \<or> list_ex (\<lambda>index. vd_active (vdisks s ! index) \<and> strings_equal (vd_path (vdisks s ! index)) path) [0 ..< VDISK_MAX_COUNT]
    \<or> free_slot s = None")
  case True
  then show ?thesis using at slots_changed_refl by (auto simp: attach_virtual_disk_def split: option.splits)
next
  case False
  then obtain i where i: "free_slot s = Some i" by auto
  have i8: "i < 8" "\<not> vd_active (vdisks s ! i)"
    using i [unfolded free_slot_def find_Some_iff] by (auto simp: VDISK_MAX_COUNT_def)
  let ?v = "(vdisks s ! i)\<lparr>vd_active := True, vd_read_only := flags AND VDISK_FLAG_READ_ONLY \<noteq> 0,
    vd_size := n, vd_file_size := m, vd_format := copy_string 12 format, vd_path := copy_string 256 path, vd_name := vdisk_name i\<rparr>"
  obtain x b where b: "block_device_register (Some (vdisk_description ops i ?v)) (vfs_blocks s) = (x, b)" by fastforce
  let ?s' = "upd_slot i (\<lambda>_. ?v\<lparr>vd_device := x, vd_active := x \<noteq> None\<rparr>) (s\<lparr>vfs_disks := (vfs_disks s)\<lparr>pt_blocks := b\<rparr>\<rparr>)"
  have s': "s' = ?s'" using at False i b by (auto simp: attach_virtual_disk_def Let_def)
  have "unat n mod 512 = 0"
  proof -
    have "unat (n mod 512) = 0" using False by (simp add: VDISK_SECTOR_SIZE_def)
    then show ?thesis unfolding unat_mod by simp
  qed
  moreover have "n \<noteq> 0" using False by simp
  moreover have "vdisk_wf s'" if wf: "vdisk_wf s"
    using b
  proof (cases rule: register_cases)
    case 1
    then show ?thesis using vdisk_wfD [OF wf] i8 unfolding s'
      by (auto simp: vdisk_wf_def upd_slot_def nth_list_update slot_ok_def)
  next
    case 2
    note D = vdisk_wfD [OF wf]
    obtain fl id nm where dv: "devices b = (devices (vfs_blocks s))[device_count (vfs_blocks s) :=
      (vdisk_description ops i ?v)\<lparr>bd_flags := fl, bd_id := id, bd_name := nm\<rparr>]" using 2(4) by blast
    have new: "slot_ok b i (?v\<lparr>vd_device := x, vd_active := x \<noteq> None\<rparr>)"
      using 2(1-3) dv D(2) calculation le
      by (simp add: slot_ok_def vdisk_description_def VDISK_SECTOR_SIZE_def)
    have "slot_ok b j (vdisks s ! j)" if "j < 8" for j
      by (rule slot_ok_grown [OF D(4) [OF that]]) (use 2(3) dv in auto)
    then show ?thesis using D(1,2) 2(2,3) dv new i8(1) unfolding s'
      by (auto simp: vdisk_wf_def upd_slot_def nth_list_update)
  qed
  ultimately show ?thesis unfolding s'
    by (intro slots_changedI [where v = "(vdisks s)[i := ?v\<lparr>vd_device := x, vd_active := x \<noteq> None\<rparr>]"
        and p = "(vfs_disks s)\<lparr>pt_blocks := b\<rparr>"]) (simp_all add: upd_slot_def)
qed

lemma detach_changed:
  assumes "virtual_disk_detach name s = (ok, s')"
  shows "slots_changed s s'"
proof (cases "case name of None \<Rightarrow> None | Some n \<Rightarrow> if n = [] then None else slot_named n s")
  case None
  then show ?thesis using assms slots_changed_refl
    by (auto simp: virtual_disk_detach_def split: option.splits if_splits)
next
  case (Some i)
  then have i: "i < 8"
    by (auto simp: slot_named_def find_Some_iff VDISK_MAX_COUNT_def split: option.splits if_splits)
  have off: "slot_ok b i (v\<lparr>vd_active := False\<rparr>)" for b :: "'b block_state" and v by (simp add: slot_ok_def)
  show ?thesis
  proof (cases "vd_device (vdisks s ! i)")
    case None
    then have "s' = upd_slot i (\<lambda>v. v\<lparr>vd_active := False\<rparr>) s"
      using assms Some by (auto simp: virtual_disk_detach_def split: option.splits if_splits)
    then show ?thesis
      using i off by (intro slots_changedI [where v = "(vdisks s)[i := (vdisks s ! i)\<lparr>vd_active := False\<rparr>]" and p = "vfs_disks s"])
        (simp_all add: upd_slot_def vdisk_wf_def nth_list_update)
  next
    case (Some d)
    let ?b = "vfs_blocks s"
    let ?b' = "?b\<lparr>devices := (devices ?b)[d := (devices ?b ! d)\<lparr>bd_flags := bd_flags (devices ?b ! d) OR BLOCK_DEVICE_FLAG_READ_ONLY\<rparr>]\<rparr>"
    have s': "s' = s \<or> s' = upd_slot i (\<lambda>v. v\<lparr>vd_active := False\<rparr>) (s\<lparr>vfs_disks := (vfs_disks s)\<lparr>pt_blocks := ?b'\<rparr>\<rparr>)"
      using assms Some \<open>(case name of None \<Rightarrow> None | Some n \<Rightarrow> if n = [] then None else slot_named n s) = Some i\<close>
      by (auto simp: virtual_disk_detach_def Let_def split: option.splits if_splits)
    have same: "f (devices ?b' ! k) = f (devices ?b ! k)"
      if "\<And>x F. f (x\<lparr>bd_flags := F\<rparr>) = f x" "k < length (devices ?b)" for k and f :: "ASAS_BLOCK_DEVICE \<Rightarrow> 'c"
      using that by (cases "k = d") simp_all
    have "slot_ok ?b' j (vdisks s ! j)" if wf: "vdisk_wf s" "j < 8" for j
    proof (rule slot_ok_grown [OF vdisk_wfD(4) [OF wf]])
      fix k assume "k < device_count ?b"
      then have k: "k < length (devices ?b)" using vdisk_wfD(2,3) [OF wf(1)] by simp
      show "driver_context (devices ?b' ! k) = driver_context (devices ?b ! k)
          \<and> block_count (devices ?b' ! k) = block_count (devices ?b ! k)"
        by (intro conjI same k) simp_all
    qed simp
    then have "vdisk_wf s \<Longrightarrow> vdisk_wf (upd_slot i (\<lambda>v. v\<lparr>vd_active := False\<rparr>) (s\<lparr>vfs_disks := (vfs_disks s)\<lparr>pt_blocks := ?b'\<rparr>\<rparr>))"
      using i off by (auto simp: upd_slot_def vdisk_wf_def nth_list_update)
    then show ?thesis using s' slots_changed_refl [of s]
      by (elim disjE) (simp, intro slots_changedI [where v = "(vdisks s)[i := (vdisks s ! i)\<lparr>vd_active := False\<rparr>]"
        and p = "(vfs_disks s)\<lparr>pt_blocks := ?b'\<rparr>"], simp_all add: upd_slot_def)
  qed
qed

section \<open>Every call returns\<close>

text \<open>What every call of the component keeps.\<close>

definition vdisk_kept :: "('v, 'd) vfs_state \<Rightarrow> ('v, 'd) vfs_state \<Rightarrow> bool" where
  "vdisk_kept s s' \<longleftrightarrow> vfs_inv s' \<and> heap_live (vfs_heap s') = heap_live (vfs_heap s) \<and> (vdisk_wf s \<longrightarrow> vdisk_wf s')"

lemma settled_kept: "settled_call s s' \<Longrightarrow> vdisk_kept s s'"
  using settled_wf [of s s'] by (simp add: vdisk_kept_def settled_call_def)

lemma slots_kept: "slots_changed s s' \<Longrightarrow> vfs_inv s \<Longrightarrow> vdisk_kept s s'"
  by (auto simp: vdisk_kept_def slots_changed_def vfs_inv_def)

lemma vdisk_kept_trans: "vdisk_kept s s1 \<Longrightarrow> vdisk_kept s1 s2 \<Longrightarrow> vdisk_kept s s2"
  by (simp add: vdisk_kept_def)

lemma vdisk_kept_inv: "vdisk_kept s s' \<Longrightarrow> vfs_inv s'"
  by (simp add: vdisk_kept_def)

lemma settled_inv: "settled_call s s' \<Longrightarrow> vfs_inv s'"
  by (simp add: settled_call_def)

lemma settled_refl: "vfs_inv s \<Longrightarrow> settled_call s s"
  by (simp add: settled_call_def)

text \<open>An image that is loaded, used and freed.\<close>

lemma load_free_returns:
  assumes "vfs_inv s"
  shows "\<exists>r s'. load_image e path n s = Some (r, s') \<and> (case r of None \<Rightarrow> settled_call s s'
    | Some (p, img) \<Rightarrow> with_buffer p s s' \<and> (\<exists>s3. free_image p s' = Some s3 \<and> settled_call s s3))"
  using load_image_returns [OF assms, of e path n] free_image_settled [OF assms] by (fastforce split: option.splits)

lemma size_settled:
  assumes "vfs_inv s"
  shows "\<exists>n s'. vfs_file_size e path s = Some (n, s') \<and> settled_call s s'"
  using file_size_quiet [OF assms, of e path] quiet_settled [OF _ assms] by blast

lemma write_free_returns:
  assumes inv: "vfs_inv s" and b: "with_buffer p s s1"
  shows "\<exists>ok s2 s3. vfs_write_file e path data s1 = Some (ok, s2) \<and> free_image p s2 = Some s3 \<and> settled_call s s3"
proof -
  have inv1: "vfs_inv s1" using b by (simp add: with_buffer_def)
  obtain ok s2 where w: "vfs_write_file e path data s1 = Some (ok, s2)" "quiet s1 s2" using write_quiet(1) [OF inv1] by blast
  have "with_buffer p s s2" using with_buffer_beside [OF b quiet_beside [OF w(2)] quiet_inv [OF w(2) inv1]] .
  then show ?thesis using w(1) free_image_settled [OF inv] by blast
qed

lemma raw_read_returns:
  assumes inv: "vfs_inv s"
  shows "\<exists>r s'. raw_read_blocks e d lba cnt s = Some (r, s') \<and> settled_call s s'"
proof (cases "device_slot d s")
  case None
  then show ?thesis using settled_refl [OF inv] by (simp add: raw_read_blocks_def)
next
  case (Some slot)
  obtain n s1 where f: "vfs_file_size e (vd_path slot) s = Some (n, s1)" "settled_call s s1" using size_settled [OF inv] by blast
  obtain r s2 where l: "load_image e (vd_path slot) n s1 = Some (r, s2)" "case r of None \<Rightarrow> settled_call s1 s2
    | Some (p, img) \<Rightarrow> with_buffer p s1 s2 \<and> (\<exists>s3. free_image p s2 = Some s3 \<and> settled_call s1 s3)"
    using load_free_returns [OF settled_inv [OF f(2)]] by blast
  show ?thesis using Some f l settled_trans [OF f(2)] by (cases r) (auto simp: raw_read_blocks_def Let_def)
qed

lemma raw_write_returns:
  assumes inv: "vfs_inv s"
  shows "\<exists>r s'. raw_write_blocks e d lba cnt buffer s = Some (r, s') \<and> settled_call s s'"
proof (cases "\<exists>slot. device_slot d s = Some slot \<and> \<not> vd_read_only slot")
  case False
  then show ?thesis using settled_refl [OF inv] by (auto simp: raw_write_blocks_def split: option.splits)
next
  case True
  then obtain slot where slot: "device_slot d s = Some slot" "\<not> vd_read_only slot" by blast
  obtain n s1 where f: "vfs_file_size e (vd_path slot) s = Some (n, s1)" "settled_call s s1" using size_settled [OF inv] by blast
  note inv1 = settled_inv [OF f(2)]
  obtain r s2 where l: "load_image e (vd_path slot) n s1 = Some (r, s2)" "case r of None \<Rightarrow> settled_call s1 s2
    | Some (p, img) \<Rightarrow> with_buffer p s1 s2" using load_image_returns [OF inv1] by blast
  show ?thesis
  proof (cases r)
    case None
    then show ?thesis using slot f l settled_trans [OF f(2)] by (auto simp: raw_write_blocks_def Let_def)
  next
    case (Some x)
    obtain p img where x: "x = (p, img)" by fastforce
    have b: "with_buffer p s1 s2" using l(2) Some x by simp
    show ?thesis using slot f l(1) Some x write_free_returns [OF inv1 b, of e "vd_path slot"
        "put_bytes (unat (lba * of_nat VDISK_SECTOR_SIZE)) (take (unat (ucast cnt * of_nat VDISK_SECTOR_SIZE :: u64)) buffer) img"]
        settled_trans [OF f(2)]
      by (cases "request_fits slot n (lba * of_nat VDISK_SECTOR_SIZE) (ucast cnt * of_nat VDISK_SECTOR_SIZE)")
        (auto simp: raw_write_blocks_def Let_def)
  qed
qed

lemma read_all_free_returns:
  assumes inv: "vfs_inv s"
  shows "\<exists>r s'. image_read_all e path s = Some (r, s') \<and> (case r of None \<Rightarrow> settled_call s s'
    | Some (p, img, n) \<Rightarrow> (\<exists>s3. free_image p s' = Some s3 \<and> settled_call s s3)
        \<and> (\<forall>data. \<exists>ok s2 s3. vfs_write_file e path data s' = Some (ok, s2) \<and> free_image p s2 = Some s3 \<and> settled_call s s3))"
proof -
  obtain r s0 s' where r: "image_read_all e path s = Some (r, s')" "settled_call s s0"
    "case r of None \<Rightarrow> settled_call s s' | Some (p, img, n) \<Rightarrow> with_buffer p s0 s'"
    using image_read_all_returns [OF inv] by blast
  have w: "(\<exists>s3. free_image p s' = Some s3 \<and> settled_call s s3)
      \<and> (\<forall>data. \<exists>ok s2 s3. vfs_write_file e path data s' = Some (ok, s2) \<and> free_image p s2 = Some s3 \<and> settled_call s s3)"
    if "with_buffer p s0 s'" for p
    using free_image_settled [OF settled_inv [OF r(2)] that] write_free_returns [OF settled_inv [OF r(2)] that]
      settled_trans [OF r(2)] by blast
  show ?thesis using r(1,3) w by (auto split: option.splits)
qed

lemma rewrite_footer_returns:
  assumes "vfs_inv s"
  shows "\<exists>ok s'. rewrite_fixed_vhd_footer e path s = Some (ok, s') \<and> settled_call s s'"
proof -
  obtain r s1 where r: "image_read_all e path s = Some (r, s1)" "case r of None \<Rightarrow> settled_call s s1
    | Some (p, img, n) \<Rightarrow> (\<exists>s3. free_image p s1 = Some s3 \<and> settled_call s s3)
        \<and> (\<forall>data. \<exists>ok s2 s3. vfs_write_file e path data s1 = Some (ok, s2) \<and> free_image p s2 = Some s3 \<and> settled_call s s3)"
    using read_all_free_returns [OF assms] by blast
  show ?thesis
  proof (cases r)
    case None
    then show ?thesis using r by (auto simp: rewrite_fixed_vhd_footer_def)
  next
    case (Some x)
    obtain p img n where x: "x = (p, img, n)" using prod_cases3 by blast
    obtain ok s2 s3 where "vfs_write_file e path (take (unat n - VDISK_SECTOR_SIZE) img @ rewritten_footer (footer_at img n)) s1
        = Some (ok, s2)" "free_image p s2 = Some s3" "settled_call s s3" using r(2) Some x by fastforce
    then show ?thesis using r Some x
      by (cases "validate_fixed_vhd_footer (footer_at img n) n") (auto simp: rewrite_fixed_vhd_footer_def)
  qed
qed

lemma raw_flush_returns: "vfs_inv s \<Longrightarrow> \<exists>ok s'. raw_flush e d s = Some (ok, s') \<and> settled_call s s'"
  using rewrite_footer_returns [of s e] settled_refl [of s] by (auto simp: raw_flush_def split: option.splits)

lemma attach_kept': "vfs_inv s \<Longrightarrow> unat n \<le> unat m \<Longrightarrow>
    \<exists>r s'. attach_virtual_disk ops path flags format n m s = (r, s') \<and> vdisk_kept s s'"
  using slots_kept [OF attach_changed] by (metis surj_pair)

lemma attach_raw_kept:
  assumes inv: "vfs_inv s"
  shows "\<exists>r s'. virtual_disk_attach_raw e ops path flags s = Some (r, s') \<and> vdisk_kept s s'"
proof (cases "path = None \<or> path = Some []")
  case True
  then show ?thesis using settled_kept [OF settled_refl [OF inv]] by (auto simp: virtual_disk_attach_raw_def)
next
  case False
  then obtain p where p: "path = Some p" "p \<noteq> []" by auto
  obtain n s1 where f: "vfs_file_size e p s = Some (n, s1)" "settled_call s s1" using size_settled [OF inv] by blast
  show ?thesis using p f vdisk_kept_trans [OF settled_kept [OF f(2)]] attach_kept' [OF settled_inv [OF f(2)], of n n ops p flags "''raw''"]
    by (auto simp: virtual_disk_attach_raw_def)
qed

lemma attach_vhd_kept:
  assumes inv: "vfs_inv s"
  shows "\<exists>r s'. virtual_disk_attach_fixed_vhd e ops path flags s = Some (r, s') \<and> vdisk_kept s s'"
proof (cases "path = None \<or> path = Some []")
  case True
  then show ?thesis using settled_kept [OF settled_refl [OF inv]] by (auto simp: virtual_disk_attach_fixed_vhd_def)
next
  case False
  then obtain q where q: "path = Some q" "q \<noteq> []" by auto
  obtain n s1 where f: "vfs_file_size e q s = Some (n, s1)" "settled_call s s1" using size_settled [OF inv] by blast
  note k1 = vdisk_kept_trans [OF settled_kept [OF f(2)]]
  obtain r s2 where l: "load_image e q n s1 = Some (r, s2)" "case r of None \<Rightarrow> settled_call s1 s2
    | Some (p, img) \<Rightarrow> with_buffer p s1 s2 \<and> (\<exists>s3. free_image p s2 = Some s3 \<and> settled_call s1 s3)"
    using load_free_returns [OF settled_inv [OF f(2)]] by blast
  show ?thesis
  proof (cases r)
    case None
    then show ?thesis using q f l k1 settled_kept by (auto simp: virtual_disk_attach_fixed_vhd_def)
  next
    case (Some x)
    obtain p img where x: "x = (p, img)" by fastforce
    obtain s3 where s3: "free_image p s2 = Some s3" "settled_call s1 s3" using l(2) Some x by auto
    note k3 = k1 [OF settled_kept [OF s3(2)]]
    show ?thesis
    proof (cases "validate_fixed_vhd_footer (footer_at img n) n")
      case None
      then show ?thesis using q f(1) l(1) Some x s3(1) k3 settled_kept [OF f(2)] by (auto simp: virtual_disk_attach_fixed_vhd_def)
    next
      case V: (Some sz)
      have "unat sz \<le> unat n" using valid_footer_size(1) [OF V] by simp
      then obtain r' s' where "attach_virtual_disk ops q flags ''vhd-fixed'' sz n s3 = (r', s')" "vdisk_kept s s'"
        using attach_kept' [OF settled_inv [OF s3(2)], of sz n ops q flags "''vhd-fixed''"] vdisk_kept_trans [OF k3] by blast
      then show ?thesis using q f(1) l(1) Some x s3(1) V settled_kept [OF f(2)] by (auto simp: virtual_disk_attach_fixed_vhd_def)
    qed
  qed
qed

lemma attach_auto_kept:
  assumes inv: "vfs_inv s"
  shows "\<exists>r s'. virtual_disk_attach_auto e ops path flags s = Some (r, s') \<and> vdisk_kept s s'"
proof (cases "path = None \<or> path = Some []")
  case True
  then show ?thesis using settled_kept [OF settled_refl [OF inv]] by (auto simp: virtual_disk_attach_auto_def)
next
  case False
  then obtain q where q: "path = Some q" "q \<noteq> []" by auto
  obtain n s1 where f: "vfs_file_size e q s = Some (n, s1)" "settled_call s s1" using size_settled [OF inv] by blast
  note k1 = vdisk_kept_trans [OF settled_kept [OF f(2)]]
  obtain r s2 where l: "image_read_all e q s1 = Some (r, s2)" "case r of None \<Rightarrow> settled_call s1 s2
    | Some (p, img, n) \<Rightarrow> (\<exists>s3. free_image p s2 = Some s3 \<and> settled_call s1 s3) \<and> (\<forall>data. \<exists>ok t s3.
        vfs_write_file e q data s2 = Some (ok, t) \<and> free_image p t = Some s3 \<and> settled_call s1 s3)"
    using read_all_free_returns [OF settled_inv [OF f(2)]] by blast
  show ?thesis
  proof (cases r)
    case None
    then show ?thesis using q f l k1 settled_kept by (auto simp: virtual_disk_attach_auto_def)
  next
    case (Some x)
    obtain p img m where x: "x = (p, img, m)" using prod_cases3 by blast
    obtain s3 where s3: "free_image p s2 = Some s3" "settled_call s1 s3" using l(2) Some x by auto
    note k3 = k1 [OF settled_kept [OF s3(2)]]
    obtain ra sa rb sb where a: "virtual_disk_attach_raw e ops path flags s3 = Some (ra, sa)" "vdisk_kept s sa"
      "virtual_disk_attach_fixed_vhd e ops path flags s3 = Some (rb, sb)" "vdisk_kept s sb"
      using attach_raw_kept [OF settled_inv [OF s3(2)]] attach_vhd_kept [OF settled_inv [OF s3(2)]] vdisk_kept_trans [OF k3]
      by metis
    show ?thesis using q f(1) l(1) Some x s3(1) a k3 settled_kept [OF f(2)]
      by (simp add: virtual_disk_attach_auto_def)
  qed
qed

lemma validate_image_returns:
  assumes inv: "vfs_inv s"
  shows "\<exists>ok s'. virtual_disk_validate_image e path format s = Some (ok, s') \<and> settled_call s s'"
proof (cases "path = None \<or> format = None")
  case True
  then show ?thesis using settled_refl [OF inv] by (cases path) (auto simp: virtual_disk_validate_image_def)
next
  case False
  then obtain q f where q: "path = Some q" "format = Some f" by auto
  obtain r s1 where "image_read_all e q s = Some (r, s1)" "case r of None \<Rightarrow> settled_call s s1
    | Some (p, img, n) \<Rightarrow> (\<exists>s3. free_image p s1 = Some s3 \<and> settled_call s s3) \<and> (\<forall>data. \<exists>ok t s3.
        vfs_write_file e q data s1 = Some (ok, t) \<and> free_image p t = Some s3 \<and> settled_call s s3)"
    using read_all_free_returns [OF inv] by blast
  then show ?thesis using q by (cases r) (auto simp: virtual_disk_validate_image_def)
qed

text \<open>The buffer of a sector that \<open>virtual_disk_check\<close> reads.\<close>

lemma check_sector_returns:
  assumes inv: "vfs_inv s" and k: "kmalloc n (vfs_heap s) = Some (p, h)" "p \<noteq> 0"
  shows "\<exists>hd s1 x s2 ok s3 t1 t3. vfs_open e path (s\<lparr>vfs_heap := h\<rparr>) = Some (hd, s1) \<and> free_image p s1 = Some t1 \<and> settled_call s t1
    \<and> vfs_read e hd m s1 = Some (x, s2) \<and> vfs_close hd s2 = Some (ok, s3) \<and> free_image p s3 = Some t3 \<and> settled_call s t3"
proof -
  have h: "\<exists>bs. heap_wf h bs" using kheap.alloc_total [OF vfs_invD(9) [OF inv], of n] k by auto
  let ?s0 = "s\<lparr>vfs_heap := h\<rparr>"
  have inv0: "vfs_inv ?s0" using inv h by (simp add: vfs_inv_def)
  obtain hd s1 where o: "vfs_open e path ?s0 = Some (hd, s1)" "kept {} ?s0 s1" using open_kept [OF inv0] by blast
  obtain x s2 where rd: "vfs_read e hd m s1 = Some (x, s2)" "quiet s1 s2" using read_quiet [OF keptD [OF o(2)]] by blast
  have inv2: "vfs_inv s2" using quiet_inv [OF rd(2) keptD [OF o(2)]] .
  obtain ok s3 where c: "vfs_close hd s2 = Some (ok, s3)" "kept {k. hd = of_nat k + 2} s2 s3" using close_kept [OF inv2] by blast
  have w0: "with_buffer p s ?s0" using inv0 k by (auto simp: with_buffer_def)
  have w1: "with_buffer p s s1" using with_buffer_beside [OF w0 open_beside [OF inv0 o(1)] keptD [OF o(2)]] .
  have w3: "with_buffer p s s3"
    using with_buffer_beside [OF with_buffer_beside [OF w1 quiet_beside [OF rd(2)] inv2] close_beside [OF c(1)] keptD [OF c(2)]] .
  show ?thesis using o(1) rd(1) c(1) free_image_settled [OF inv w1] free_image_settled [OF inv w3] by metis
qed

lemma check_returns:
  assumes inv: "vfs_inv s"
  shows "\<exists>ok s'. virtual_disk_check e name s = Some (ok, s') \<and> settled_call s s'"
proof (cases "virtual_disk_find name s")
  case None
  then show ?thesis using settled_refl [OF inv] by (auto simp: virtual_disk_check_def)
next
  case (Some info)
  obtain n s1 where f: "vfs_file_size e (vd_path info) s = Some (n, s1)" "settled_call s s1" using size_settled [OF inv] by blast
  note inv1 = settled_inv [OF f(2)] and t = settled_trans [OF f(2)]
  obtain r s2 where l: "load_image e (vd_path info) n s1 = Some (r, s2)" "case r of None \<Rightarrow> settled_call s1 s2
    | Some (p, img) \<Rightarrow> with_buffer p s1 s2 \<and> (\<exists>s3. free_image p s2 = Some s3 \<and> settled_call s1 s3)"
    using load_free_returns [OF inv1] by blast
  obtain p h where k: "kmalloc (of_nat VDISK_SECTOR_SIZE) (vfs_heap s1) = Some (p, h)" and h: "\<exists>bs. heap_wf h bs"
    using kheap.alloc_total [OF vfs_invD(9) [OF inv1]] by blast
  show ?thesis
  proof (cases "n = 0 \<or> n \<noteq> vd_file_size info \<or> vd_size info mod of_nat VDISK_SECTOR_SIZE \<noteq> 0
      \<or> strings_equal (vd_format info) ''vhd-fixed''")
    case True
    then show ?thesis using Some f l t by (cases r) (auto simp: virtual_disk_check_def)
  next
    case False
    then have c: "\<not> (n = 0 \<or> n \<noteq> vd_file_size info \<or> vd_size info mod of_nat VDISK_SECTOR_SIZE \<noteq> 0)"
      "\<not> strings_equal (vd_format info) ''vhd-fixed''" by blast+
    show ?thesis
    proof (cases "p = 0")
      case True
      then have "settled_call s1 (s1\<lparr>vfs_heap := h\<rparr>)"
        using kheap.alloc_null [OF vfs_invD(9) [OF inv1], of "of_nat VDISK_SECTOR_SIZE" h] k h inv1
        by (simp add: settled_call_def vfs_inv_def)
      then show ?thesis using Some f(1) c k True t by (auto simp: virtual_disk_check_def Let_def)
    next
      case p: False
      obtain hd u1 x u2 ok u3 t1 t3 where "vfs_open e (vd_path info) (s1\<lparr>vfs_heap := h\<rparr>) = Some (hd, u1)" "free_image p u1 = Some t1"
        "settled_call s1 t1" "vfs_read e hd (of_nat VDISK_SECTOR_SIZE) u1 = Some (x, u2)" "vfs_close hd u2 = Some (ok, u3)"
        "free_image p u3 = Some t3" "settled_call s1 t3"
        using check_sector_returns [OF inv1 k p, of e "vd_path info" "of_nat VDISK_SECTOR_SIZE"] by blast
      then show ?thesis using Some f(1) c k p t by (cases "hd = 0") (auto simp: virtual_disk_check_def Let_def)
    qed
  qed
qed

section \<open>Sessions\<close>

datatype vdisk_op =
    Vdisk_attach_raw "string option" u32
  | Vdisk_attach_vhd "string option" u32
  | Vdisk_attach_auto "string option" u32
  | Vdisk_detach "string option"
  | Vdisk_read ASAS_BLOCK_DEVICE u64 u32
  | Vdisk_write ASAS_BLOCK_DEVICE u64 u32 bytes
  | Vdisk_flush ASAS_BLOCK_DEVICE
  | Vdisk_check "string option"
  | Vdisk_validate "string option" "string option"

fun run_vdisk_op :: "('v, 'd) vfs_env \<Rightarrow> nat \<Rightarrow> vdisk_op \<Rightarrow> ('v, 'd) vfs_state \<Rightarrow> ('v, 'd) vfs_state option" where
  "run_vdisk_op e ops (Vdisk_attach_raw p f) s = map_option snd (virtual_disk_attach_raw e ops p f s)"
| "run_vdisk_op e ops (Vdisk_attach_vhd p f) s = map_option snd (virtual_disk_attach_fixed_vhd e ops p f s)"
| "run_vdisk_op e ops (Vdisk_attach_auto p f) s = map_option snd (virtual_disk_attach_auto e ops p f s)"
| "run_vdisk_op e ops (Vdisk_detach n) s = Some (snd (virtual_disk_detach n s))"
| "run_vdisk_op e ops (Vdisk_read d lba cnt) s = map_option snd (raw_read_blocks e d lba cnt s)"
| "run_vdisk_op e ops (Vdisk_write d lba cnt b) s = map_option snd (raw_write_blocks e d lba cnt b s)"
| "run_vdisk_op e ops (Vdisk_flush d) s = map_option snd (raw_flush e d s)"
| "run_vdisk_op e ops (Vdisk_check n) s = map_option snd (virtual_disk_check e n s)"
| "run_vdisk_op e ops (Vdisk_validate p f) s = map_option snd (virtual_disk_validate_image e p f s)"

fun run_vdisk :: "('v, 'd) vfs_env \<Rightarrow> nat \<Rightarrow> vdisk_op list \<Rightarrow> ('v, 'd) vfs_state \<Rightarrow> ('v, 'd) vfs_state option" where
  "run_vdisk e ops [] s = Some s"
| "run_vdisk e ops (x # xs) s = do { s' \<leftarrow> run_vdisk_op e ops x s; run_vdisk e ops xs s' }"

lemma detach_slots_kept: "vfs_inv s \<Longrightarrow> vdisk_kept s (snd (virtual_disk_detach name s))"
  by (rule slots_kept [OF detach_changed]) (auto intro: prod.collapse [symmetric])

lemma map_snd_vdisk_kept: "\<exists>r s'. c = Some (r, s') \<and> vdisk_kept s s' \<Longrightarrow> \<exists>s'. map_option snd c = Some s' \<and> vdisk_kept s s'"
  by auto

lemma map_snd_settled: "\<exists>r s'. c = Some (r, s') \<and> settled_call s s' \<Longrightarrow> \<exists>s'. map_option snd c = Some s' \<and> vdisk_kept s s'"
  using settled_kept by auto

lemma run_vdisk_op_kept: "vfs_inv s \<Longrightarrow> \<exists>s'. run_vdisk_op e ops x s = Some s' \<and> vdisk_kept s s'"
  by (cases x)
    (simp_all only: run_vdisk_op.simps option.inject ex_simps simp_thms detach_slots_kept,
     (rule map_snd_vdisk_kept, erule attach_raw_kept attach_vhd_kept attach_auto_kept
      | rule map_snd_settled, erule raw_read_returns raw_write_returns raw_flush_returns check_returns validate_image_returns)+)

lemma run_vdisk_kept: "vfs_inv s \<Longrightarrow> \<exists>s'. run_vdisk e ops xs s = Some s' \<and> vdisk_kept s s'"
proof (induction xs arbitrary: s)
  case Nil
  then show ?case using settled_kept [OF settled_refl] by auto
next
  case (Cons x xs)
  obtain s1 where s1: "run_vdisk_op e ops x s = Some s1" "vdisk_kept s s1" using run_vdisk_op_kept [OF Cons.prems] by blast
  obtain s2 where "run_vdisk e ops xs s1 = Some s2" "vdisk_kept s1 s2" using Cons.IH [OF vdisk_kept_inv [OF s1(2)]] by blast
  then show ?case using s1 vdisk_kept_trans [OF s1(2)] by auto
qed

section \<open>Properties\<close>

text \<open>An active slot with its device.\<close>

lemma slot_okD:
  assumes "vdisk_wf s" "i < 8" "vd_active (vdisks s ! i)"
  obtains d where "vd_device (vdisks s ! i) = Some d" "driver_context (devices (vfs_blocks s) ! d) = i + 1"
    "block_count (devices (vfs_blocks s) ! d) = vd_size (vdisks s ! i) div 512"
    "0 < unat (vd_size (vdisks s ! i))" "unat (vd_size (vdisks s ! i)) mod 512 = 0"
    "unat (vd_size (vdisks s ! i)) \<le> unat (vd_file_size (vdisks s ! i))"
  using vdisk_wfD(4) [OF assms(1,2)] assms(3) by (auto simp: slot_ok_def unat_gt_0)

text \<open>The bytes of a request that is within a virtual disk.\<close>

lemma request_bytes:
  assumes b: "request_in_bounds d lba cnt" and n: "block_count d = sz div 512" "0 < unat sz" "unat sz mod 512 = 0"
  shows "unat (lba * of_nat VDISK_SECTOR_SIZE :: u64) = 512 * unat lba"
    "unat (ucast cnt * of_nat VDISK_SECTOR_SIZE :: u64) = 512 * unat cnt"
    "512 * (unat lba + unat cnt) \<le> unat sz"
proof -
  have c: "unat (block_count d) = unat sz div 512" unfolding n(1) by (simp add: unat_div)
  have "512 dvd unat sz" using n(3) by presburger
  then have s: "512 * unat (block_count d) = unat sz" unfolding c by simp
  then have "block_count d \<noteq> 0" using n(2) by auto
  then have le: "unat lba + unat cnt \<le> unat (block_count d)" using b [unfolded request_in_bounds_iff] by blast
  show end_le: "512 * (unat lba + unat cnt) \<le> unat sz" using mult_le_mono2 [OF le, of 512] s by simp
  have lt: "unat sz < 2 ^ 64" by simp
  have w: "unat (x * of_nat VDISK_SECTOR_SIZE :: u64) = 512 * unat x" if "unat x \<le> unat lba + unat cnt" for x :: u64
  proof -
    have "512 * unat x < 2 ^ 64" using mult_le_mono2 [OF that, of 512] end_le lt by linarith
    then have "unat x * unat (512 :: u64) < 2 ^ LENGTH(64)" by (simp add: mult.commute)
    then have "unat (x * 512) = unat x * unat (512 :: u64)" by (subst unat_mult_lem [symmetric])
    then show ?thesis by (simp add: VDISK_SECTOR_SIZE_def)
  qed
  show "unat (lba * of_nat VDISK_SECTOR_SIZE :: u64) = 512 * unat lba" by (rule w) simp
  show "unat (ucast cnt * of_nat VDISK_SECTOR_SIZE :: u64) = 512 * unat cnt" using w [of "ucast cnt"] by simp
qed

text \<open>What a slot with a device says to its driver.\<close>

lemma device_slot_active:
  "driver_context device = i + 1 \<Longrightarrow> vd_active (vdisks s ! i) \<Longrightarrow> device_slot device s = Some (vdisks s ! i)"
  by (simp add: device_slot_def)

lemma raw_read_context:
  "driver_context d = driver_context d' \<Longrightarrow> raw_read_blocks e d lba cnt s = raw_read_blocks e d' lba cnt s"
  by (simp add: raw_read_blocks_def device_slot_def)

text \<open>A state for the witnesses: the file system is the memory fallback, its file \<^verbatim>\<open>/d.img\<close> is a fixed VHD of one sector,
  which is attached in the first slot.\<close>

definition sample_footer :: bytes where
  "sample_footer = rewritten_footer (map of_char ''conectix'' @ replicate 46 0 @ [2, 0] @ replicate 7 0 @ [2] @ replicate 448 0)"

definition sample_image :: bytes where
  "sample_image = replicate 512 0xAA @ sample_footer"

definition sample_slot :: ASAS_VDISK_INFO where
  "sample_slot = \<lparr>vd_active = True, vd_read_only = False, vd_name = vdisk_name 0, vd_format = ''vhd-fixed'', vd_path = ''/d.img'',
     vd_size = 512, vd_file_size = 1024, vd_device = Some 0\<rparr>"

definition image_vfs :: "(nat, self_test_disks) vfs_state" where
  "image_vfs = sample_vfs\<lparr>boot_fallback_enabled := True,
     welcome_node := \<lparr>node_path = ''/d.img'', node_data = (\<lambda>i. sample_image ! i), node_size = 1024\<rparr>,
     vfs_disks := \<lparr>partitions = [], found_partition_count = 0,
       pt_blocks = sample_blocks\<lparr>devices := replicate 32 (vdisk_description 1 0 sample_slot)\<rparr>\<rparr>,
     vdisks := sample_slot # replicate 7 (sample_slot\<lparr>vd_active := False\<rparr>)\<rparr>"

lemma sample_footer_valid: "validate_fixed_vhd_footer sample_footer 1024 = Some 512"
  unfolding sample_footer_def
proof (rule rewritten_footer_valid)
  let ?f = "map of_char ''conectix'' @ replicate 46 0 @ [2, 0] @ replicate 7 0 @ [2] @ replicate 448 (0 :: u8)"
  show "length ?f = 512" by (simp only: length_append length_map length_replicate) simp
  show "map (\<lambda>i. ?f ! i) [0 ..< 8] = map of_char ''conectix''" by (simp add: upt_rec)
  show "read_be32 ?f 60 = 2" "read_be64 ?f 48 = 512"
    unfolding read_be64_def read_be32_def by (simp_all add: nth_append)
qed simp_all

lemma image_vfs_wf: "vdisk_wf image_vfs"
proof -
  have "slot_ok (vfs_blocks image_vfs) i (vdisks image_vfs ! i)" if "i < 8" for i
    using that by (cases i) (simp_all add: image_vfs_def slot_ok_def sample_slot_def vdisk_description_def
        sample_blocks_def VDISK_SECTOR_SIZE_def)
  then show ?thesis by (simp add: vdisk_wf_def) (simp add: image_vfs_def sample_vfs_def sample_blocks_def)
qed

lemma image_vfs_inv: "vfs_inv image_vfs"
proof -
  have none: "filter (holds i) (disk_handles image_vfs) = []" for i
    by (simp add: filter_empty_conv image_vfs_def sample_vfs_def holds_def)
  have "reference_count (mounts fs_boot ! i) = 0" if "i < 16" for i using that by (simp add: fs_boot_def)
  then have "counted (mounts fs_boot) (disk_handles image_vfs)"
    using none by (intro countedI) (auto simp: filter_empty_conv)
  moreover have "\<exists>bs. heap_wf (vfs_heap image_vfs) bs"
    using heap_wf_format by (simp add: image_vfs_def sample_vfs_def) blast
  moreover have "\<forall>m \<in> set (vfs_mounts image_vfs). handle_ok m"
    by (simp add: image_vfs_def sample_vfs_def handle_ok_def FILESYSTEM_MAX_MOUNTS_def)
  ultimately show ?thesis
    using fs_boot_inv by (simp add: vfs_inv_def) (simp add: image_vfs_def sample_vfs_def)
qed

lemma length_sample_image: "length sample_image = 1024"
  unfolding sample_image_def sample_footer_def rewritten_footer_def write_be32_def Let_def
  by (simp only: length_append length_replicate length_list_update length_map) simp

lemma image_vfs_size: "vfs_file_size echo_env ''/d.img'' image_vfs = Some (1024, image_vfs)"
  by (simp add: vfs_file_size_def image_vfs_def)

lemma image_vfs_load:
  obtains p s where "p \<noteq> 0" "load_image echo_env ''/d.img'' 1024 image_vfs = Some (Some (p, sample_image), s)"
proof -
  have h: "vfs_heap image_vfs = heap_format \<lparr>heap_head = 0, heap_mem = Map.empty\<rparr>" by (simp add: image_vfs_def sample_vfs_def)
  have "amalloc (align_size 1024) [(HEAP_BASE, HEAP_SIZE - 24, True)] =
      (HEAP_BASE + 24, [(HEAP_BASE, 1024, False), (HEAP_BASE + 1048, HEAP_SIZE - 1072, True)])"
    by (simp add: align_size_def heap_consts)
  then obtain h1 where h1: "kmalloc 1024 (vfs_heap image_vfs) = Some (HEAP_BASE + 24, h1)"
    unfolding h using kmalloc_step [OF heap_wf_format, of 1024] by (force simp: align_size_def)
  let ?s = "image_vfs\<lparr>vfs_heap := h1\<rparr>"
  have le: "\<not> (100 :: u64) \<le> 1" "\<not> (2 :: u64) \<le> 1" by (simp_all add: word_le_nat_alt)
  have f: "boot_fallback_enabled ?s" "welcome_node ?s = \<lparr>node_path = ''/d.img'', node_data = (\<lambda>i. sample_image ! i), node_size = 1024\<rparr>"
    "\<not> vfs_lock_value ?s" "\<not> is_boot_handle 1 ?s" "disk_handle 1 ?s = None"
    by (simp_all add: image_vfs_def sample_vfs_def is_boot_handle_def disk_handle_def VFS_BOOT_HANDLE_BASE_def le)
  have m: "map ((!) sample_image) [0 ..< 1024] = sample_image"
    using map_nth [of sample_image] unfolding length_sample_image .
  have o: "vfs_open echo_env ''/d.img'' ?s = Some (1, ?s)" using f(2) by (simp add: vfs_open_def)
  have r: "vfs_read echo_env 1 1024 ?s = Some ((1024, sample_image), ?s)"
    using f m lock_free [OF f(3)] unlock_lock [OF f(3)]
    by (simp add: vfs_read_def node_bytes_def Let_def)
  have c: "vfs_close 1 ?s = Some (True, ?s)" by (simp add: vfs_close_def)
  have "HEAP_BASE + 24 \<noteq> 0" by (simp add: heap_consts)
  moreover have "load_image echo_env ''/d.img'' 1024 image_vfs = Some (Some (HEAP_BASE + 24, sample_image), ?s)"
    using h1 o r c calculation length_sample_image by (simp add: load_image_def)
  ultimately show ?thesis using that by blast
qed



text \<open>C28: Flushing a fixed VHD writes the image back exactly as it was read when its footer is valid, although the
  checksum is computed anew, and writes nothing when it is not.\<close>

theorem vhd_flush_writes_same_image:
  assumes "device_slot device s = Some slot" and "vd_format slot = ''vhd-fixed''" and "\<not> vd_read_only slot"
    and "image_read_all e (vd_path slot) s = Some (Some (p, img, n), s1)" and "length img = unat n"
  shows "raw_flush e device s = (if validate_fixed_vhd_footer (footer_at img n) n \<noteq> None
     then (case vfs_write_file e (vd_path slot) img s1 of None \<Rightarrow> None
       | Some (ok, s2) \<Rightarrow> map_option (\<lambda>s3. (ok, s3)) (free_image p s2))
     else map_option (\<lambda>s3. (False, s3)) (free_image p s1))"
proof (cases "validate_fixed_vhd_footer (footer_at img n) n")
  case None
  then show ?thesis using assms by (cases "free_image p s1") (simp_all add: raw_flush_def rewrite_fixed_vhd_footer_def)
next
  case (Some d)
  have u: "unat d + 512 = unat n" using valid_footer_size(1) [OF Some] .
  have "length (footer_at img n) = 512" using u assms(5) by (simp add: footer_at_def VDISK_SECTOR_SIZE_def)
  then have "take (unat n - VDISK_SECTOR_SIZE) img @ rewritten_footer (footer_at img n) = img"
    using rewritten_footer_same [OF Some] by (simp add: footer_at_def)
  then show ?thesis using Some assms
    by (auto simp: raw_flush_def rewrite_fixed_vhd_footer_def split: option.splits bind_splits)
qed

theorem vhd_flush_writes_same_image_witness:
  "\<exists>p s1. raw_flush echo_env (vdisk_description 1 0 sample_slot) image_vfs =
     (case vfs_write_file echo_env ''/d.img'' sample_image s1 of None \<Rightarrow> None
       | Some (ok, s2) \<Rightarrow> map_option (\<lambda>s3. (ok, s3)) (free_image p s2))"
proof -
  obtain p s1 where l: "load_image echo_env ''/d.img'' 1024 image_vfs = Some (Some (p, sample_image), s1)"
    using image_vfs_load by blast
  then have r: "image_read_all echo_env (vd_path sample_slot) image_vfs = Some (Some (p, sample_image, 1024), s1)"
    by (simp add: image_read_all_def sample_slot_def image_vfs_size)
  have "device_slot (vdisk_description 1 0 sample_slot) image_vfs = Some sample_slot"
    by (simp add: device_slot_def vdisk_description_def image_vfs_def) (simp add: sample_slot_def)
  moreover have "footer_at sample_image 1024 = sample_footer"
    by (simp add: footer_at_def sample_image_def VDISK_SECTOR_SIZE_def)
  ultimately show ?thesis
    using vhd_flush_writes_same_image [OF _ _ _ r] length_sample_image sample_footer_valid
    by (auto simp: sample_slot_def)
qed

text \<open>C27: A write within the device of a virtual disk replaces exactly the bytes of its blocks in the image: nothing before
  them, nothing after them, and never the footer of a fixed VHD, which starts at the size of the disk.  The
  multiplications by the sector size do not wrap around.\<close>

theorem image_write_confined:
  assumes "vdisk_wf s" and "i < 8" and "vd_active (vdisks s ! i)" and "\<not> vd_read_only (vdisks s ! i)"
    and "vd_device (vdisks s ! i) = Some d" and "request_in_bounds (devices (vfs_blocks s) ! d) lba cnt"
    and "length buffer = 512 * unat cnt"
    and "vfs_file_size e (vd_path (vdisks s ! i)) s = Some (vd_file_size (vdisks s ! i), s1)"
    and "load_image e (vd_path (vdisks s ! i)) (vd_file_size (vdisks s ! i)) s1 = Some (Some (p, img), s2)"
    and "length img = unat (vd_file_size (vdisks s ! i))"
  shows "raw_write_blocks e (devices (vfs_blocks s) ! d) lba cnt buffer s =
      (case vfs_write_file e (vd_path (vdisks s ! i)) (put_bytes (512 * unat lba) buffer img) s2 of None \<Rightarrow> None
       | Some (ok, s3) \<Rightarrow> map_option (\<lambda>s4. (ok, s4)) (free_image p s3))
    \<and> length (put_bytes (512 * unat lba) buffer img) = length img
    \<and> 512 * unat lba + length buffer \<le> unat (vd_size (vdisks s ! i))
    \<and> drop (unat (vd_size (vdisks s ! i))) (put_bytes (512 * unat lba) buffer img) = drop (unat (vd_size (vdisks s ! i))) img"
proof -
  let ?v = "vdisks s ! i" and ?d = "devices (vfs_blocks s) ! d"
  have dc: "driver_context ?d = i + 1" and n: "block_count ?d = vd_size ?v div 512" "0 < unat (vd_size ?v)" "unat (vd_size ?v) mod 512 = 0"
    and fs: "unat (vd_size ?v) \<le> unat (vd_file_size ?v)"
    using slot_okD [OF assms(1-3)] assms(5) by auto
  note r = request_bytes [OF assms(6) n]
  have within: "512 * unat lba + length buffer \<le> unat (vd_size ?v)" using r(3) assms(7) by (simp add: distrib_left)
  have "lba * of_nat VDISK_SECTOR_SIZE \<le> vd_size ?v" using within by (simp add: word_le_nat_alt r(1))
  moreover from this have "ucast cnt * of_nat VDISK_SECTOR_SIZE \<le> vd_size ?v - lba * of_nat VDISK_SECTOR_SIZE"
    using within assms(7) by (simp add: word_le_nat_alt r(1,2) unat_sub)
  moreover have "vd_file_size ?v \<noteq> 0" using n(2) fs by auto
  ultimately have fits: "request_fits ?v (vd_file_size ?v) (lba * of_nat VDISK_SECTOR_SIZE) (ucast cnt * of_nat VDISK_SECTOR_SIZE)"
    by (simp add: request_fits_def)
  have "raw_write_blocks e ?d lba cnt buffer s =
      (case vfs_write_file e (vd_path ?v) (put_bytes (512 * unat lba) buffer img) s2 of None \<Rightarrow> None
       | Some (ok, s3) \<Rightarrow> map_option (\<lambda>s4. (ok, s4)) (free_image p s3))"
    using assms(4,7-9) device_slot_active [OF dc assms(3)] fits r(1,2)
    by (auto simp: raw_write_blocks_def Let_def split: option.splits bind_splits)
  moreover have "length (put_bytes (512 * unat lba) buffer img) = length img"
    using within fs assms(10) by simp
  moreover have "drop (unat (vd_size ?v)) (put_bytes (512 * unat lba) buffer img) = drop (unat (vd_size ?v)) img"
    using within fs assms(10) by (simp add: put_bytes_def)
  ultimately show ?thesis using within by blast
qed

theorem image_write_confined_witness:
  "\<exists>p s2. raw_write_blocks echo_env (devices (vfs_blocks image_vfs) ! 0) 0 1 (replicate 512 7) image_vfs =
     (case vfs_write_file echo_env ''/d.img'' (put_bytes 0 (replicate 512 7) sample_image) s2 of None \<Rightarrow> None
       | Some (ok, s3) \<Rightarrow> map_option (\<lambda>s4. (ok, s4)) (free_image p s3))"
proof -
  obtain p s2 where l: "load_image echo_env ''/d.img'' 1024 image_vfs = Some (Some (p, sample_image), s2)"
    using image_vfs_load by blast
  have v: "vdisks image_vfs ! 0 = sample_slot" by (simp add: image_vfs_def)
  have "request_in_bounds (devices (vfs_blocks image_vfs) ! 0) 0 1"
    by (simp add: request_in_bounds_def image_vfs_def sample_blocks_def vdisk_description_def sample_slot_def VDISK_SECTOR_SIZE_def)
  then show ?thesis
    using image_write_confined [OF image_vfs_wf, of 0 0 0 1 "replicate 512 7" echo_env image_vfs p sample_image s2]
      l image_vfs_size length_sample_image unfolding v by (auto simp: sample_slot_def)
qed

text \<open>The device of a detached image reads the image that is attached in its slot afterwards: detaching leaves the device
  registered with the address of the slot as its context.  The first free slot is taken again, a new device is registered,
  and from then on the driver reads the same through both.\<close>

theorem detached_device_reads_next_image:
  assumes "vdisk_wf s" and "slot_named n s = Some i" and "vd_device (vdisks s ! i) = Some d"
    and "virtual_disk_detach (Some n) s = (True, s1)" and "free_slot s1 = Some i"
    and "attach_virtual_disk ops path flags format sz fsz s1 = (Some d', s2)"
  shows "d < d' \<and> vd_device (vdisks s2 ! i) = Some d'
    \<and> device_slot (devices (vfs_blocks s2) ! d) s2 = Some (vdisks s2 ! i)
    \<and> (\<forall>t. raw_read_blocks e (devices (vfs_blocks s2) ! d) lba cnt t = raw_read_blocks e (devices (vfs_blocks s2) ! d') lba cnt t)"
proof -
  have i: "i < 8" "vd_active (vdisks s ! i)"
    using assms(2) by (auto simp: slot_named_def find_Some_iff VDISK_MAX_COUNT_def)
  have d: "d < device_count (vfs_blocks s)" "driver_context (devices (vfs_blocks s) ! d) = i + 1"
    using vdisk_wfD(4) [OF assms(1) i(1)] i(2) assms(3) by (auto simp: slot_ok_def)
  let ?b1 = "vfs_blocks s1"
  have s1: "device_count ?b1 = device_count (vfs_blocks s)" "driver_context (devices ?b1 ! d) = i + 1"
    "length (vdisks s1) = 8" "length (devices ?b1) = 32"
    using assms(2-4) d vdisk_wfD(1-3) [OF assms(1)]
    by (auto simp: virtual_disk_detach_def Let_def upd_slot_def split: if_splits option.splits)
  obtain v b where reg: "block_device_register (Some (vdisk_description ops i v)) ?b1 = (Some d', b)"
    and s2: "s2 = upd_slot i (\<lambda>_. v\<lparr>vd_device := Some d', vd_active := True\<rparr>) (s1\<lparr>vfs_disks := (vfs_disks s1)\<lparr>pt_blocks := b\<rparr>\<rparr>)"
    using assms(5,6) by (auto simp: attach_virtual_disk_def Let_def split: if_splits prod.splits)
  obtain fl id nm where b: "d' = device_count ?b1" "device_count ?b1 < 32"
    "devices b = (devices ?b1)[d' := (vdisk_description ops i v)\<lparr>bd_flags := fl, bd_id := id, bd_name := nm\<rparr>]"
    using reg by (cases rule: register_cases) auto
  have "driver_context (devices b ! d) = i + 1" "driver_context (devices b ! d') = i + 1"
    using b d(1) s1 by (auto simp: vdisk_description_def)
  moreover have "vdisks s2 ! i = v\<lparr>vd_device := Some d', vd_active := True\<rparr>" "vfs_blocks s2 = b"
    using s1(3) i(1) unfolding s2 by (simp_all add: upd_slot_def)
  moreover have "raw_read_blocks e (devices (vfs_blocks s2) ! d) lba cnt t = raw_read_blocks e (devices (vfs_blocks s2) ! d') lba cnt t"
    for t using calculation by (intro raw_read_context) simp
  ultimately show ?thesis using b(1) d(1) s1(1) by (auto simp: device_slot_def)
qed

theorem detached_device_reads_next_image_witness:
  "\<exists>s1 s2. virtual_disk_detach (Some (vdisk_name 0)) image_vfs = (True, s1)
    \<and> attach_virtual_disk 1 ''/other.img'' 0 ''raw'' 512 512 s1 = (Some 1, s2)
    \<and> device_slot (devices (vfs_blocks s2) ! 0) s2 = Some (vdisks s2 ! 0)
    \<and> raw_read_blocks echo_env (devices (vfs_blocks s2) ! 0) 0 1 s2 = raw_read_blocks echo_env (devices (vfs_blocks s2) ! 1) 0 1 s2"
proof -
  have n: "slot_named (vdisk_name 0) image_vfs = Some 0"
    by (simp add: slot_named_def VDISK_MAX_COUNT_def upt_rec image_vfs_def sample_slot_def)
  have v: "vd_device (vdisks image_vfs ! 0) = Some 0" by (simp add: image_vfs_def sample_slot_def)
  have m: "\<not> filesystem_device_is_mounted devs (Some 0) (vfs_fs image_vfs)" for devs
    by (auto simp: filesystem_device_is_mounted_def image_vfs_def sample_vfs_def fs_boot_def list_ex_iff FILESYSTEM_MAX_MOUNTS_def)
  let ?s1 = "snd (virtual_disk_detach (Some (vdisk_name 0)) image_vfs)"
  have ne: "vdisk_name 0 \<noteq> []" by (simp add: vdisk_name_def)
  have "fst (virtual_disk_detach (Some (vdisk_name 0)) image_vfs)"
    using n v m ne by (simp add: virtual_disk_detach_def Let_def)
  then have s1: "virtual_disk_detach (Some (vdisk_name 0)) image_vfs = (True, ?s1)" by (metis prod.collapse)
  have e: "vdisks ?s1 = replicate 8 (sample_slot\<lparr>vd_active := False\<rparr>)" "device_count (vfs_blocks ?s1) = 1"
    using n v m ne replicate_Suc [of 7 "sample_slot\<lparr>vd_active := False\<rparr>"]
    by (simp_all add: virtual_disk_detach_def Let_def upd_slot_def) (simp_all add: image_vfs_def sample_blocks_def)
  have f: "free_slot ?s1 = Some 0" by (simp add: free_slot_def e VDISK_MAX_COUNT_def upt_rec)
  obtain s2 where s2: "attach_virtual_disk 1 ''/other.img'' 0 ''raw'' 512 512 ?s1 = (Some 1, s2)"
    using f e by (auto simp: attach_virtual_disk_def Let_def VDISK_SECTOR_SIZE_def list_ex_iff VDISK_MAX_COUNT_def
      block_device_register_def vdisk_description_def BLOCK_DEVICE_MAX_COUNT_def VDISK_FLAG_READ_ONLY_def)
  show ?thesis
    using s1 s2 detached_device_reads_next_image [OF image_vfs_wf n v s1 f s2, of echo_env 0 1] by blast
qed

end
