(* ===== verification/Disk_Management.thy ===== *)
theory Disk_Management
  imports Vfs_Files
begin

text \<open>
  \<^verbatim>\<open>src/kernel/disk_management.c\<close>: the checks in front of mounting, formatting and editing partitions, over the
  virtual file system and the partition tables.  The four listing functions only write to the log and are left out,
  as are the lines the others log.  A null pointer is \<open>None\<close> where the code tests for it.
\<close>

section \<open>Devices\<close>

datatype ASAS_DISK_MANAGEMENT_OP = DISK_MANAGEMENT_OP_MOUNT | DISK_MANAGEMENT_OP_UNMOUNT | DISK_MANAGEMENT_OP_REMOUNT
  | DISK_MANAGEMENT_OP_FORMAT | DISK_MANAGEMENT_OP_PARTITION_CREATE | DISK_MANAGEMENT_OP_PARTITION_DELETE
  | DISK_MANAGEMENT_OP_PARTITION_RESIZE | DISK_MANAGEMENT_OP_FS_CHECK | DISK_MANAGEMENT_OP_FS_REPAIR

definition dm_find_device :: "string \<Rightarrow> 'd partition_state \<Rightarrow> nat option" where
  "dm_find_device name p =
     (case block_device_find name (pt_blocks p) of
        Some device \<Rightarrow> Some device
      | None \<Rightarrow> find (\<lambda>index. case partition_find_by_device (Some index) p of None \<Rightarrow> False
          | Some x \<Rightarrow> strings_equal (label_string x) name \<or> strings_equal (pi_uuid x) name)
          [0 ..< unat (block_device_count (pt_blocks p))])"

definition dm_is_mounted :: "nat \<Rightarrow> ('v, 'd) vfs_state \<Rightarrow> bool" where
  "dm_is_mounted device s \<longleftrightarrow> filesystem_device_is_mounted (devices (vfs_blocks s)) (Some device) (vfs_fs s)"

definition dm_supported_format_name :: "string \<Rightarrow> bool" where
  "dm_supported_format_name fs_name \<longleftrightarrow> strings_equal fs_name ''fat32'' \<or> strings_equal fs_name ''exfat''
     \<or> strings_equal fs_name ''udf'' \<or> strings_equal fs_name ''ext2'' \<or> strings_equal fs_name ''ntfs''"

section \<open>Why a device is read-only\<close>

text \<open>The loop over the mounts with the numbers of a list.\<close>

fun mount_reason_from :: "('v, 'd) vfs_env \<Rightarrow> nat \<Rightarrow> nat list \<Rightarrow> ('v, 'd) vfs_state \<Rightarrow> string" where
  "mount_reason_from e device [] s = ''full read-write''"
| "mount_reason_from e device (index # rest) s =
     (case filesystem_get_mount (of_nat index) (vfs_fs s) of
        None \<Rightarrow> mount_reason_from e device rest s
      | Some i \<Rightarrow>
          let m = mounts (vfs_fs s) ! i in
          (case fm_driver m of
             None \<Rightarrow> mount_reason_from e device rest s
           | Some n \<Rightarrow>
               if \<not> fm_active m \<or> fm_device m \<noteq> Some device then mount_reason_from e device rest s
               else (case (fd_name (env_drivers e n), fm_context m) of
                   (Some name, Some context) \<Rightarrow>
                     if strings_equal name ''ntfs'' then env_read_only_reason e context (vfs_world s)
                     else if fm_flags m AND FILESYSTEM_FLAG_READ_ONLY \<noteq> 0
                     then ''temporary read-only: filesystem safety policy''
                     else mount_reason_from e device rest s
                 | _ \<Rightarrow>
                     if fm_flags m AND FILESYSTEM_FLAG_READ_ONLY \<noteq> 0
                     then ''temporary read-only: filesystem safety policy''
                     else mount_reason_from e device rest s)))"

definition disk_management_read_only_reason :: "('v, 'd) vfs_env \<Rightarrow> string \<Rightarrow> ('v, 'd) vfs_state \<Rightarrow> string" where
  "disk_management_read_only_reason e device_name s =
     (case dm_find_device device_name (vfs_disks s) of
        None \<Rightarrow> ''unknown device''
      | Some device \<Rightarrow>
          let flags = bd_flags (devices (vfs_blocks s) ! device) in
          if flags AND BLOCK_DEVICE_FLAG_OPTICAL \<noteq> 0 then ''physical optical media is read-only''
          else if flags AND BLOCK_DEVICE_FLAG_READ_ONLY \<noteq> 0 then ''device is write-protected''
          else mount_reason_from e device [0 ..< unat (filesystem_mount_count (vfs_fs s))] s)"

section \<open>Operations\<close>

definition disk_management_hotplug_rescan ::
  "('v, 'd) vfs_env \<Rightarrow> ('v, 'd) vfs_state \<Rightarrow> (nat \<times> ('v, 'd) vfs_state) option" where
  "disk_management_hotplug_rescan e s = vfs_rescan_devices e s"

definition disk_management_device_removed ::
  "('v, 'd) vfs_env \<Rightarrow> string option \<Rightarrow> ('v, 'd) vfs_state \<Rightarrow> (nat \<times> ('v, 'd) vfs_state) option" where
  "disk_management_device_removed e device_name s = vfs_handle_device_removed e device_name s"

definition disk_management_validate ::
  "ASAS_DISK_MANAGEMENT_OP \<Rightarrow> string option \<Rightarrow> u32 \<Rightarrow> ('v, 'd) vfs_state \<Rightarrow> bool" where
  "disk_management_validate operation target flags s =
     (case target of None \<Rightarrow> False
      | Some name \<Rightarrow>
          if name = [] then False
          else if operation \<in> {DISK_MANAGEMENT_OP_UNMOUNT, DISK_MANAGEMENT_OP_REMOUNT, DISK_MANAGEMENT_OP_FS_CHECK,
              DISK_MANAGEMENT_OP_FS_REPAIR} then hd name = CHR ''/''
          else (case dm_find_device name (vfs_disks s) of None \<Rightarrow> False
            | Some device \<Rightarrow>
                \<not> (operation \<in> {DISK_MANAGEMENT_OP_FORMAT, DISK_MANAGEMENT_OP_PARTITION_CREATE,
                     DISK_MANAGEMENT_OP_PARTITION_DELETE, DISK_MANAGEMENT_OP_PARTITION_RESIZE}
                   \<and> (bd_flags (devices (vfs_blocks s) ! device) AND BLOCK_DEVICE_FLAG_READ_ONLY \<noteq> 0
                      \<or> dm_is_mounted device s))))"

definition disk_management_dry_run ::
  "ASAS_DISK_MANAGEMENT_OP \<Rightarrow> string option \<Rightarrow> u32 \<Rightarrow> ('v, 'd) vfs_state \<Rightarrow> bool" where
  "disk_management_dry_run operation target flags s = disk_management_validate operation target flags s"

definition disk_management_mount ::
  "('v, 'd) vfs_env \<Rightarrow> string option \<Rightarrow> string option \<Rightarrow> u32 \<Rightarrow> ('v, 'd) vfs_state \<Rightarrow>
   (bool \<times> ('v, 'd) vfs_state) option" where
  "disk_management_mount e device_name mount_point flags s =
     (if \<not> disk_management_validate DISK_MANAGEMENT_OP_MOUNT device_name flags s then Some (False, s)
      else vfs_mount_device e device_name mount_point flags s)"

definition disk_management_unmount ::
  "('v, 'd) vfs_env \<Rightarrow> string option \<Rightarrow> ('v, 'd) vfs_state \<Rightarrow> (bool \<times> ('v, 'd) vfs_state) option" where
  "disk_management_unmount e mount_point s =
     (if \<not> disk_management_validate DISK_MANAGEMENT_OP_UNMOUNT mount_point 0 s then Some (False, s)
      else vfs_unmount e mount_point s)"

definition disk_management_remount ::
  "('v, 'd) vfs_env \<Rightarrow> string option \<Rightarrow> u32 \<Rightarrow> ('v, 'd) vfs_state \<Rightarrow> (bool \<times> ('v, 'd) vfs_state) option" where
  "disk_management_remount e mount_point flags s =
     (if \<not> disk_management_validate DISK_MANAGEMENT_OP_REMOUNT mount_point flags s then Some (False, s)
      else vfs_remount e mount_point flags s)"

text \<open>No format engine is registered: formatting ends with a failure unless it is a dry run.\<close>

definition disk_management_format :: "string option \<Rightarrow> string option \<Rightarrow> bool \<Rightarrow> ('v, 'd) vfs_state \<Rightarrow> bool" where
  "disk_management_format device_name fs_name dry_run s =
     (case fs_name of None \<Rightarrow> False
      | Some f \<Rightarrow>
          disk_management_validate DISK_MANAGEMENT_OP_FORMAT device_name 0 s \<and> dm_supported_format_name f \<and> dry_run)"

definition disk_management_partition_mbr ::
  "('v, 'd) vfs_env \<Rightarrow> string option \<Rightarrow> string option \<Rightarrow> u32 \<Rightarrow> u8 \<Rightarrow> u64 \<Rightarrow> u64 \<Rightarrow> bool \<Rightarrow>
   ('v, 'd) vfs_state \<Rightarrow> (bool \<times> ('v, 'd) vfs_state) option" where
  "disk_management_partition_mbr e operation device_name slot type start cnt dry_run s =
     (case (operation, device_name) of
        (Some op, Some name) \<Rightarrow>
          if \<not> disk_management_validate DISK_MANAGEMENT_OP_PARTITION_CREATE device_name 0 s \<or> slot \<ge> 4
          then Some (False, s)
          else
            let device = dm_find_device name (vfs_disks s);
                done = map_option (\<lambda>(ok, p). (ok, s\<lparr>vfs_disks := p\<rparr>))
            in if dry_run then Some (True, s)
               else if strings_equal op ''create''
               then done (partition_mbr_create (env_fuel e) (env_blocks e) (vfs_fs s) device slot type start cnt (vfs_disks s))
               else if strings_equal op ''delete''
               then done (partition_mbr_delete (env_fuel e) (env_blocks e) (vfs_fs s) device slot (vfs_disks s))
               else if strings_equal op ''resize''
               then done (partition_mbr_resize (env_fuel e) (env_blocks e) (vfs_fs s) device slot start cnt (vfs_disks s))
               else Some (False, s)
      | _ \<Rightarrow> Some (False, s))"

definition linux_type :: bytes where
  "linux_type = [0xaf, 0x3d, 0xc6, 0x0f, 0x83, 0x84, 0x72, 0x47, 0x8e, 0x79, 0x3d, 0x69, 0xd8, 0x47, 0x7d, 0xe4]"

definition unique_guid :: bytes where
  "unique_guid = [0x10, 0x32, 0x54, 0x76, 0x98, 0xba, 0xdc, 0xfe, 0x01, 0x23, 0x45, 0x67, 0x89, 0xab, 0xcd, 0xef]"

definition asas_data_name :: "u16 list" where
  "asas_data_name = map of_char ''ASAS-DATA'' @ replicate 27 0"

definition disk_management_partition_gpt ::
  "('v, 'd) vfs_env \<Rightarrow> string option \<Rightarrow> string option \<Rightarrow> u32 \<Rightarrow> u64 \<Rightarrow> u64 \<Rightarrow> bool \<Rightarrow>
   ('v, 'd) vfs_state \<Rightarrow> (bool \<times> ('v, 'd) vfs_state) option" where
  "disk_management_partition_gpt e operation device_name slot start cnt dry_run s =
     (case (operation, device_name) of
        (Some op, Some name) \<Rightarrow>
          if \<not> disk_management_validate DISK_MANAGEMENT_OP_PARTITION_CREATE device_name 0 s
             \<or> slot \<ge> of_nat PARTITION_MAX_PER_DISK
          then Some (False, s)
          else
            let device = dm_find_device name (vfs_disks s);
                done = map_option (\<lambda>(ok, h, p). (ok, s\<lparr>vfs_heap := h, vfs_disks := p\<rparr>))
            in if dry_run then Some (True, s)
               else if strings_equal op ''create''
               then done (partition_gpt_create (env_fuel e) (env_blocks e) (vfs_fs s) device slot (Some linux_type)
                 (Some unique_guid) (Some asas_data_name) start cnt (vfs_heap s) (vfs_disks s))
               else if strings_equal op ''delete''
               then done (partition_gpt_delete (env_fuel e) (env_blocks e) (vfs_fs s) device slot (vfs_heap s) (vfs_disks s))
               else if strings_equal op ''resize''
               then done (partition_gpt_resize (env_fuel e) (env_blocks e) (vfs_fs s) device slot start cnt (vfs_heap s) (vfs_disks s))
               else Some (False, s)
      | _ \<Rightarrow> Some (False, s))"

definition disk_management_fs_check ::
  "('v, 'd) vfs_env \<Rightarrow> string option \<Rightarrow> ('v, 'd) vfs_state \<Rightarrow> (bool \<times> ('v, 'd) vfs_state) option" where
  "disk_management_fs_check e path s =
     (if \<not> disk_management_validate DISK_MANAGEMENT_OP_FS_CHECK path 0 s then Some (False, s)
      else do {
        (handle, s1) \<leftarrow> vfs_open e (the path) s;
        (dir, s2) \<leftarrow> vfs_is_directory e (the path) s1;
        (ok, s3) \<leftarrow> (if dir then Some (True, s2) else do {
            (n, s3) \<leftarrow> vfs_file_size e (the path) s2;
            Some (n \<noteq> 0 \<or> handle \<noteq> 0, s3)
          });
        (if handle \<noteq> 0 then do { (_, s4) \<leftarrow> vfs_close handle s3; Some (ok, s4) } else Some (ok, s3))
      })"

text \<open>No repair engine is registered either.\<close>

definition disk_management_fs_repair :: "string option \<Rightarrow> bool \<Rightarrow> ('v, 'd) vfs_state \<Rightarrow> bool" where
  "disk_management_fs_repair path dry_run s \<longleftrightarrow>
     disk_management_validate DISK_MANAGEMENT_OP_FS_REPAIR path 0 s \<and> dry_run"

definition disk_management_self_test :: "('v, 'd) vfs_state \<Rightarrow> bool" where
  "disk_management_self_test s \<longleftrightarrow>
     disk_management_dry_run DISK_MANAGEMENT_OP_FS_CHECK (Some ''/system'') 0 s
     \<and> \<not> disk_management_validate DISK_MANAGEMENT_OP_FORMAT (Some []) 0 s"

section \<open>Properties\<close>

text \<open>A device that may be formatted or partitioned: writable, and neither it nor a partition of it is mounted.\<close>

definition editable :: "string \<Rightarrow> ('v, 'd) vfs_state \<Rightarrow> bool" where
  "editable name s \<longleftrightarrow> name \<noteq> [] \<and> (\<exists>d. dm_find_device name (vfs_disks s) = Some d
     \<and> bd_flags (devices (vfs_blocks s) ! d) AND BLOCK_DEVICE_FLAG_READ_ONLY = 0
     \<and> (\<nexists>i m. i < FILESYSTEM_MAX_MOUNTS \<and> fm_active (mounts (vfs_fs s) ! i) \<and> fm_device (mounts (vfs_fs s) ! i) = Some m
          \<and> (m = d \<or> bd_parent (devices (vfs_blocks s) ! m) = Some d)))"

lemma dm_is_mounted_iff:
  "dm_is_mounted d s \<longleftrightarrow> (\<exists>i m. i < FILESYSTEM_MAX_MOUNTS \<and> fm_active (mounts (vfs_fs s) ! i)
     \<and> fm_device (mounts (vfs_fs s) ! i) = Some m \<and> (m = d \<or> bd_parent (devices (vfs_blocks s) ! m) = Some d))"
proof -
  have "(x = Some d \<or> (case x of None \<Rightarrow> False | Some m \<Rightarrow> bd_parent (devices (vfs_blocks s) ! m) = Some d))
      \<longleftrightarrow> (\<exists>m. x = Some m \<and> (m = d \<or> bd_parent (devices (vfs_blocks s) ! m) = Some d))" for x
    by (cases x) auto
  then show ?thesis by (auto simp: dm_is_mounted_def filesystem_device_is_mounted_def list_ex_iff)
qed

lemma validate_edit_iff:
  "disk_management_validate DISK_MANAGEMENT_OP_PARTITION_CREATE (Some name) f s = editable name s"
  "disk_management_validate DISK_MANAGEMENT_OP_FORMAT (Some name) f s = editable name s"
  by (cases "dm_find_device name (vfs_disks s)"; simp add: disk_management_validate_def editable_def dm_is_mounted_iff)+

text \<open>C25: Editing a partition table through the disk manager is guarded, and its dry run is honest.  A dry run changes
  nothing and answers whether the named device is writable and nothing on it or its partitions is mounted, an operation is
  named and the slot exists; whenever the dry run is refused, so are the real edit of an MBR or GPT slot and formatting,
  with the whole state as it was.\<close>

theorem partition_edit_dry_run_honest:
  shows "disk_management_partition_mbr e operation (Some name) slot type start cnt True s
      = Some (operation \<noteq> None \<and> editable name s \<and> slot < 4, s)
    \<and> disk_management_partition_gpt e operation (Some name) gslot start cnt True s
      = Some (operation \<noteq> None \<and> editable name s \<and> gslot < 16, s)
    \<and> (operation = None \<or> \<not> editable name s \<or> 4 \<le> slot \<longrightarrow>
        disk_management_partition_mbr e operation (Some name) slot type start cnt False s = Some (False, s))
    \<and> (operation = None \<or> \<not> editable name s \<or> 16 \<le> gslot \<longrightarrow>
        disk_management_partition_gpt e operation (Some name) gslot start cnt False s = Some (False, s))
    \<and> (\<not> editable name s \<longrightarrow> \<not> disk_management_format (Some name) fs_name dry s)"
  unfolding disk_management_partition_mbr_def disk_management_partition_gpt_def disk_management_format_def
    validate_edit_iff PARTITION_MAX_PER_DISK_def
  by (cases operation; cases fs_name; auto simp: Let_def not_le)

text \<open>The witness: on the volume that is mounted at the start no table is edited, since its device is in use.\<close>

theorem partition_edit_dry_run_honest_witness:
  "disk_management_partition_mbr echo_env (Some ''create'') (Some ''test0'') 0 0x83 1 4 False mounted_vfs = Some (False, mounted_vfs)"
proof -
  have f: "dm_find_device ''test0'' (vfs_disks mounted_vfs) = Some 0"
    by (simp add: dm_find_device_def block_device_find_def mounted_vfs_def sample_vfs_def sample_blocks_def
        find_from.simps sample_device_def)
  have "fm_active (mounts (vfs_fs mounted_vfs) ! 0)" "fm_device (mounts (vfs_fs mounted_vfs) ! 0) = Some 0"
    by (simp_all add: mounted_vfs_def mounted_fs_def fs_boot_def)
  then have "\<not> editable ''test0'' mounted_vfs"
    unfolding editable_def f by (auto simp: FILESYSTEM_MAX_MOUNTS_def intro!: exI [of _ 0])
  then show ?thesis
    using partition_edit_dry_run_honest [of echo_env "Some ''create''" "''test0''" 0 "0x83" 1 4 mounted_vfs] by blast
qed

end
