(* ===== verification/Fat16.thy ===== *)
theory Fat16
  imports Block_Device "HOL-Library.Monad_Syntax" "HOL-Library.Char_ord"
begin

text \<open>
  \<^verbatim>\<open>src/kernel/fat16.c\<close>: the FAT16 file system on the sectors of the legacy storage backend.  The functions
  \<^verbatim>\<open>virtio_block_read_sector\<close>, \<^verbatim>\<open>virtio_block_write_sector\<close> and \<^verbatim>\<open>virtio_block_select_device\<close>, which drive the
  hardware, are the record \<open>sector_driver\<close> of \<^verbatim>\<open>Block_Device\<close>, an argument of the operations; \<open>'d\<close> is the state
  behind it.

  The packed structures are read from and stored in the bytes of a sector.  A pointer to a directory entry in a
  sector buffer is the buffer with the number of the entry.  The result \<open>None\<close> of an operation means that a loop
  along a cluster chain does not end, as on a chain that runs in a circle.  Lines that are only logged are left out.
\<close>

section \<open>State\<close>

record FAT16_BPB =
  bytes_per_sector :: u16
  sectors_per_cluster :: u8
  reserved_sectors :: u16
  fat_count :: u8
  root_entry_count :: u16
  total_sectors_16 :: u16
  bpb_media :: u8
  sectors_per_fat :: u16

text \<open>After the jump and the name of the formatting system.\<close>

definition bpb_of :: "bytes \<Rightarrow> FAT16_BPB" where
  "bpb_of sector = \<lparr>bytes_per_sector = u16_at 11 sector, sectors_per_cluster = sector ! 13,
     reserved_sectors = u16_at 14 sector, fat_count = sector ! 16, root_entry_count = u16_at 17 sector,
     total_sectors_16 = u16_at 19 sector, bpb_media = sector ! 21, sectors_per_fat = u16_at 22 sector\<rparr>"

record FAT16_DIRECTORY_ENTRY =
  fe_name :: bytes
  fe_attributes :: u8
  fe_reserved :: bytes
  fe_first_cluster :: u16
  fe_size :: u32

definition directory_entry :: "nat \<Rightarrow> bytes \<Rightarrow> FAT16_DIRECTORY_ENTRY" where
  "directory_entry index sector = (let b = drop (32 * index) sector in
     \<lparr>fe_name = take 11 b, fe_attributes = b ! 11, fe_reserved = take 14 (drop 12 b),
      fe_first_cluster = u16_at 26 b, fe_size = u32_at 28 b\<rparr>)"

definition entry_bytes :: "FAT16_DIRECTORY_ENTRY \<Rightarrow> bytes" where
  "entry_bytes e = fe_name e @ [fe_attributes e] @ fe_reserved e @ le_bytes 2 (unat (fe_first_cluster e))
     @ le_bytes 4 (unat (fe_size e))"

definition put_entry :: "nat \<Rightarrow> FAT16_DIRECTORY_ENTRY \<Rightarrow> bytes \<Rightarrow> bytes" where
  "put_entry index e sector = put_bytes (32 * index) (entry_bytes e) sector"

record FAT16_FILE_INFO =
  fi_name :: string
  fi_size :: u64
  fi_is_directory :: bool
  fi_read_only :: bool

record 'd fat16_state =
  bpb :: FAT16_BPB
  root_start_sector :: u32
  root_sector_count :: u32
  data_start_sector :: u32
  fat16_mounted_target :: u8
  fat16_mounted_lun :: u8
  fat16_disk :: 'd

definition fat16_read_sector :: "'d sector_driver \<Rightarrow> u32 \<Rightarrow> 'd fat16_state \<Rightarrow> bytes option \<times> 'd fat16_state" where
  "fat16_read_sector drv n s = (let (r, d) = vb_read drv (ucast n) (fat16_disk s) in (r, s\<lparr>fat16_disk := d\<rparr>))"

definition fat16_write_sector :: "'d sector_driver \<Rightarrow> u32 \<Rightarrow> bytes \<Rightarrow> 'd fat16_state \<Rightarrow> bool \<times> 'd fat16_state" where
  "fat16_write_sector drv n data s = (let (ok, d) = vb_write drv (ucast n) data (fat16_disk s) in (ok, s\<lparr>fat16_disk := d\<rparr>))"

section \<open>Names\<close>

definition format_name :: "bytes \<Rightarrow> string" where
  "format_name source =
     (let base = takeWhile (\<lambda>b. b \<noteq> 0x20) (take 8 source);
          extension = (if source ! 8 \<noteq> 0x20 then 0x2E # takeWhile (\<lambda>b. b \<noteq> 0x20) (take 3 (drop 8 source)) else [])
      in map (\<lambda>b. char_of (unat b)) (takeWhile (\<lambda>b. b \<noteq> 0) (base @ extension)))"

definition fat16_upper :: "char \<Rightarrow> char" where
  "fat16_upper value = (if CHR ''a'' \<le> value \<and> value \<le> CHR ''z''
     then char_of (of_char value - of_char (CHR ''a'') + of_char (CHR ''A'') :: nat) else value)"

text \<open>The loop of \<open>component_to_name\<close>.\<close>

fun name_from :: "string \<Rightarrow> bytes \<Rightarrow> nat \<Rightarrow> nat \<Rightarrow> bool \<Rightarrow> bytes option" where
  "name_from [] name name_index extension_index in_extension = (if name_index \<noteq> 0 then Some name else None)"
| "name_from (c # component) name name_index extension_index in_extension =
     (let value = fat16_upper c in
      if value = CHR ''.'' then
        if in_extension then None else name_from component name name_index extension_index True
      else if \<not> in_extension \<and> name_index \<ge> 8 \<or> in_extension \<and> extension_index \<ge> 11 then None
      else if in_extension
      then name_from component (name[extension_index := of_char value]) name_index (extension_index + 1) in_extension
      else name_from component (name[name_index := of_char value]) (name_index + 1) extension_index in_extension)"

definition component_to_name :: "string \<Rightarrow> bytes option" where
  "component_to_name component = (if component = [] then None else name_from component (replicate 11 0x20) 0 8 False)"

section \<open>The file allocation table\<close>

definition fat16_next_cluster :: "'d sector_driver \<Rightarrow> u16 \<Rightarrow> 'd fat16_state \<Rightarrow> u16 \<times> 'd fat16_state" where
  "fat16_next_cluster drv cluster s =
     (let fat_offset = ucast cluster * 2;
          fat_sector = ucast (reserved_sectors (bpb s)) + fat_offset div 512;
          offset = unat (fat_offset mod 512)
      in case fat16_read_sector drv fat_sector s of
           (None, s1) \<Rightarrow> (0xFFFF, s1)
         | (Some sector, s1) \<Rightarrow> (u16_at offset sector, s1))"

text \<open>The loop over the copies of the table.\<close>

primrec set_in_copies :: "'d sector_driver \<Rightarrow> nat list \<Rightarrow> u16 \<Rightarrow> u16 \<Rightarrow> 'd fat16_state \<Rightarrow> bool \<times> 'd fat16_state" where
  "set_in_copies drv [] cluster value s = (True, s)"
| "set_in_copies drv (fat_index # rest) cluster value s =
     (let fat_offset = ucast cluster * 2;
          fat_sector = ucast (reserved_sectors (bpb s)) + of_nat fat_index * ucast (sectors_per_fat (bpb s)) + fat_offset div 512;
          offset = unat (fat_offset mod 512)
      in case fat16_read_sector drv fat_sector s of
           (None, s1) \<Rightarrow> (False, s1)
         | (Some sector, s1) \<Rightarrow>
             (case fat16_write_sector drv fat_sector (put_bytes offset (le_bytes 2 (unat value)) sector) s1 of
                (False, s2) \<Rightarrow> (False, s2)
              | (True, s2) \<Rightarrow> set_in_copies drv rest cluster value s2))"

definition fat16_set_cluster :: "'d sector_driver \<Rightarrow> u16 \<Rightarrow> u16 \<Rightarrow> 'd fat16_state \<Rightarrow> bool \<times> 'd fat16_state" where
  "fat16_set_cluster drv cluster value s = set_in_copies drv [0 ..< unat (fat_count (bpb s))] cluster value s"

primrec allocate_from :: "'d sector_driver \<Rightarrow> nat list \<Rightarrow> 'd fat16_state \<Rightarrow> u16 \<times> 'd fat16_state" where
  "allocate_from drv [] s = (0, s)"
| "allocate_from drv (cluster # rest) s =
     (case fat16_next_cluster drv (of_nat cluster) s of
        (nxt, s1) \<Rightarrow>
          if nxt = 0 then
            (case fat16_set_cluster drv (of_nat cluster) 0xFFFF s1 of
               (ok, s2) \<Rightarrow> (if ok then of_nat cluster else 0, s2))
          else allocate_from drv rest s1)"

definition fat16_allocate_cluster :: "'d sector_driver \<Rightarrow> 'd fat16_state \<Rightarrow> u16 \<times> 'd fat16_state" where
  "fat16_allocate_cluster drv s =
     allocate_from drv [2 ..< min (unat (sectors_per_fat (bpb s)) * 256) 0xFFF0] s"

partial_function (option) fat16_free_chain ::
  "'d sector_driver \<Rightarrow> u16 \<Rightarrow> 'd fat16_state \<Rightarrow> (bool \<times> 'd fat16_state) option" where
  "fat16_free_chain drv cluster s =
     (if cluster \<ge> 2 \<and> cluster < 0xFFF8 then
        (case fat16_next_cluster drv cluster s of
           (nxt, s1) \<Rightarrow> (case fat16_set_cluster drv cluster 0 s1 of
             (ok, s2) \<Rightarrow> if ok then fat16_free_chain drv nxt s2 else Some (False, s2)))
      else Some (True, s))"

text \<open>The loop of \<open>fat16_allocate_chain\<close> for the clusters that are still to be found.\<close>

primrec allocate_chain_from ::
  "'d sector_driver \<Rightarrow> nat \<Rightarrow> u16 \<Rightarrow> u16 \<Rightarrow> 'd fat16_state \<Rightarrow> (u16 \<times> 'd fat16_state) option" where
  "allocate_chain_from drv 0 first_cluster previous s = Some (first_cluster, s)"
| "allocate_chain_from drv (Suc n) first_cluster previous s =
     (case fat16_allocate_cluster drv s of
        (cluster, s1) \<Rightarrow>
          if cluster = 0 then
            (if first_cluster \<noteq> 0 then map_option (\<lambda>(_, s2). (0, s2)) (fat16_free_chain drv first_cluster s1) else Some (0, s1))
          else
            let first1 = (if first_cluster = 0 then cluster else first_cluster) in
            (case (if previous \<noteq> 0 then fat16_set_cluster drv previous cluster s1 else (True, s1)) of
               (ok, s2) \<Rightarrow>
                 if ok then allocate_chain_from drv n first1 cluster s2
                 else map_option (\<lambda>(_, s3). (0, s3)) (fat16_free_chain drv first1 s2)))"

definition fat16_allocate_chain :: "'d sector_driver \<Rightarrow> u32 \<Rightarrow> 'd fat16_state \<Rightarrow> (u16 \<times> 'd fat16_state) option" where
  "fat16_allocate_chain drv cluster_count s = allocate_chain_from drv (unat cluster_count) 0 0 s"

section \<open>Clusters\<close>

definition cluster_sector_number :: "u16 \<Rightarrow> nat \<Rightarrow> 'd fat16_state \<Rightarrow> u32" where
  "cluster_sector_number cluster cluster_sector s =
     data_start_sector s + (ucast cluster - 2) * ucast (sectors_per_cluster (bpb s)) + of_nat cluster_sector"

definition cluster_sectors :: "u16 \<Rightarrow> 'd fat16_state \<Rightarrow> u32 list" where
  "cluster_sectors cluster s = map (\<lambda>k. cluster_sector_number cluster k s) [0 ..< unat (sectors_per_cluster (bpb s))]"

definition root_sectors :: "'d fat16_state \<Rightarrow> u32 list" where
  "root_sectors s = map (\<lambda>k. root_start_sector s + of_nat k) [0 ..< unat (root_sector_count s)]"

text \<open>The loop over the sectors of a cluster: whether the writes succeeded and how much is written.\<close>

primrec write_sectors :: "'d sector_driver \<Rightarrow> u32 list \<Rightarrow> bytes \<Rightarrow> nat \<Rightarrow> 'd fat16_state \<Rightarrow> bool \<times> nat \<times> 'd fat16_state" where
  "write_sectors drv [] buffer bytes_written s = (True, bytes_written, s)"
| "write_sectors drv (n # rest) buffer bytes_written s =
     (if bytes_written < length buffer then
        let copy_size = min (length buffer - bytes_written) 512;
            sector = take copy_size (drop bytes_written buffer) @ replicate (512 - copy_size) 0
        in (case fat16_write_sector drv n sector s of
              (False, s1) \<Rightarrow> (False, bytes_written, s1)
            | (True, s1) \<Rightarrow> write_sectors drv rest buffer (bytes_written + copy_size) s1)
      else (True, bytes_written, s))"

partial_function (option) write_chain_from ::
  "'d sector_driver \<Rightarrow> u16 \<Rightarrow> bytes \<Rightarrow> nat \<Rightarrow> 'd fat16_state \<Rightarrow> (bool \<times> 'd fat16_state) option" where
  "write_chain_from drv cluster buffer bytes_written s =
     (if cluster \<ge> 2 \<and> cluster < 0xFFF8 \<and> bytes_written < length buffer then
        (case write_sectors drv (cluster_sectors cluster s) buffer bytes_written s of
           (ok, written1, s1) \<Rightarrow>
             if ok then (case fat16_next_cluster drv cluster s1 of (nxt, s2) \<Rightarrow> write_chain_from drv nxt buffer written1 s2)
             else Some (False, s1))
      else Some (bytes_written = length buffer, s))"

definition write_cluster_chain ::
  "'d sector_driver \<Rightarrow> u16 \<Rightarrow> bytes \<Rightarrow> 'd fat16_state \<Rightarrow> (bool \<times> 'd fat16_state) option" where
  "write_cluster_chain drv first_cluster buffer s = write_chain_from drv first_cluster buffer 0 s"

section \<open>Searching directories\<close>

datatype 'r scan = Scan_failed | Scan_found 'r | Scan_end

text \<open>Reading sectors until one has what is looked for; the search over a directory that is a cluster chain.\<close>

primrec scan_sectors ::
  "'d sector_driver \<Rightarrow> (u32 \<Rightarrow> bytes \<Rightarrow> 'r option) \<Rightarrow> u32 list \<Rightarrow> 'd fat16_state \<Rightarrow> 'r scan \<times> 'd fat16_state" where
  "scan_sectors drv look [] s = (Scan_end, s)"
| "scan_sectors drv look (n # rest) s =
     (case fat16_read_sector drv n s of
        (None, s1) \<Rightarrow> (Scan_failed, s1)
      | (Some sector, s1) \<Rightarrow> (case look n sector of Some r \<Rightarrow> (Scan_found r, s1) | None \<Rightarrow> scan_sectors drv look rest s1))"

partial_function (option) scan_chain ::
  "'d sector_driver \<Rightarrow> (u32 \<Rightarrow> bytes \<Rightarrow> 'r option) \<Rightarrow> u16 \<Rightarrow> 'd fat16_state \<Rightarrow> ('r scan \<times> 'd fat16_state) option" where
  "scan_chain drv look cluster s =
     (if cluster < 0xFFF8 then
        (case scan_sectors drv look (cluster_sectors cluster s) s of
           (r, s1) \<Rightarrow>
             if r = Scan_end
             then (case fat16_next_cluster drv cluster s1 of (nxt, s2) \<Rightarrow> scan_chain drv look nxt s2)
             else Some (r, s1))
      else Some (Scan_end, s))"

definition scan_directory ::
  "'d sector_driver \<Rightarrow> (u32 \<Rightarrow> bytes \<Rightarrow> 'r option) \<Rightarrow> u16 \<Rightarrow> 'd fat16_state \<Rightarrow> ('r scan \<times> 'd fat16_state) option" where
  "scan_directory drv look cluster s =
     (if cluster = 0 then Some (scan_sectors drv look (root_sectors s) s) else scan_chain drv look cluster s)"

definition free_entry :: "FAT16_DIRECTORY_ENTRY \<Rightarrow> bool" where
  "free_entry e \<longleftrightarrow> fe_name e ! 0 = 0 \<or> fe_name e ! 0 = 0xE5"

text \<open>The number of the sector, the sector and the number of the first entry that has the name, or is free.\<close>

definition slot_with_name :: "bytes \<Rightarrow> u32 \<Rightarrow> bytes \<Rightarrow> (u32 \<times> bytes \<times> nat) option" where
  "slot_with_name name n sector = map_option (\<lambda>i. (n, sector, i))
     (find (\<lambda>i. \<not> free_entry (directory_entry i sector) \<and> fe_name (directory_entry i sector) = name) [0 ..< 16])"

definition free_slot_in :: "u32 \<Rightarrow> bytes \<Rightarrow> (u32 \<times> bytes \<times> nat) option" where
  "free_slot_in n sector = map_option (\<lambda>i. (n, sector, i)) (find (\<lambda>i. free_entry (directory_entry i sector)) [0 ..< 16])"

text \<open>\<open>find_root_entry_slot\<close> for the cluster 0 and the rest of the function for others.\<close>

definition find_directory_entry_slot ::
  "'d sector_driver \<Rightarrow> u16 \<Rightarrow> bytes \<Rightarrow> bool \<Rightarrow> 'd fat16_state \<Rightarrow> ((u32 \<times> bytes \<times> nat) option \<times> 'd fat16_state) option" where
  "find_directory_entry_slot drv directory_cluster name allow_free s = do {
     (r, s1) \<leftarrow> scan_directory drv (slot_with_name name) directory_cluster s;
     (case r of
        Scan_found slot \<Rightarrow> Some (Some slot, s1)
      | Scan_failed \<Rightarrow> Some (None, s1)
      | Scan_end \<Rightarrow>
          if allow_free then do {
            (r2, s2) \<leftarrow> scan_directory drv free_slot_in directory_cluster s1;
            Some (case r2 of Scan_found slot \<Rightarrow> Some slot | _ \<Rightarrow> None, s2)
          }
          else Some (None, s1))
   }"

text \<open>The entries of a sector up to the end of the directory: the search has ended with nothing, or with an entry.\<close>

primrec entry_among :: "(FAT16_DIRECTORY_ENTRY \<Rightarrow> bool) \<Rightarrow> bytes \<Rightarrow> nat list \<Rightarrow> FAT16_DIRECTORY_ENTRY option option" where
  "entry_among P sector [] = None"
| "entry_among P sector (i # rest) =
     (let e = directory_entry i sector in
      if fe_name e ! 0 = 0 then Some None
      else if P e then Some (Some e)
      else entry_among P sector rest)"

definition listed_with_name :: "bytes \<Rightarrow> FAT16_DIRECTORY_ENTRY \<Rightarrow> bool" where
  "listed_with_name name e \<longleftrightarrow> fe_name e ! 0 \<noteq> 0xE5 \<and> fe_attributes e \<noteq> 0x0F \<and> fe_name e = name"

definition find_in_directory ::
  "'d sector_driver \<Rightarrow> u16 \<Rightarrow> bytes \<Rightarrow> 'd fat16_state \<Rightarrow> (FAT16_DIRECTORY_ENTRY option \<times> 'd fat16_state) option" where
  "find_in_directory drv directory_cluster name s = do {
     (r, s1) \<leftarrow> scan_directory drv (\<lambda>_ sector. entry_among (listed_with_name name) sector [0 ..< 16]) directory_cluster s;
     Some (case r of Scan_found e \<Rightarrow> e | _ \<Rightarrow> None, s1)
   }"

section \<open>Paths\<close>

definition is_directory_entry :: "FAT16_DIRECTORY_ENTRY \<Rightarrow> bool" where
  "is_directory_entry e \<longleftrightarrow> fe_attributes e AND 0x10 \<noteq> 0"

text \<open>The loop of \<open>resolve_path\<close> for the rest of the path.\<close>

function resolve_from ::
  "'d sector_driver \<Rightarrow> string \<Rightarrow> u16 \<Rightarrow> 'd fat16_state \<Rightarrow> (FAT16_DIRECTORY_ENTRY option \<times> 'd fat16_state) option" where
  "resolve_from drv path directory_cluster s =
     (if path = [] then Some (None, s)
      else (case component_to_name (takeWhile (\<lambda>c. c \<noteq> CHR ''/'') path) of
          None \<Rightarrow> Some (None, s)
        | Some name \<Rightarrow> do {
            (r, s1) \<leftarrow> find_in_directory drv directory_cluster name s;
            (case r of None \<Rightarrow> Some (None, s1)
             | Some e \<Rightarrow>
                 if dropWhile (\<lambda>c. c \<noteq> CHR ''/'') path = [] then Some (Some e, s1)
                 else if \<not> is_directory_entry e then Some (None, s1)
                 else if tl (dropWhile (\<lambda>c. c \<noteq> CHR ''/'') path) = [] then Some (Some e, s1)
                 else resolve_from drv (tl (dropWhile (\<lambda>c. c \<noteq> CHR ''/'') path)) (fe_first_cluster e) s1)
          }))"
  by pat_completeness auto
termination
proof (relation "measure (\<lambda>(_, path, _, _). length path)", goal_cases)
  case (2 drv path c s)
  have "length (dropWhile (\<lambda>c. c \<noteq> CHR ''/'') path) \<le> length path" by (rule length_dropWhile_le)
  then show ?case using 2(1) by (cases path) auto
qed simp

declare resolve_from.simps [simp del]

definition resolve_path ::
  "'d sector_driver \<Rightarrow> string \<Rightarrow> 'd fat16_state \<Rightarrow> (FAT16_DIRECTORY_ENTRY option \<times> 'd fat16_state) option" where
  "resolve_path drv path s =
     (case path of c # rest \<Rightarrow> if c \<noteq> CHR ''/'' then Some (None, s) else resolve_from drv rest 0 s | [] \<Rightarrow> Some (None, s))"

definition resolve_parent ::
  "'d sector_driver \<Rightarrow> string \<Rightarrow> 'd fat16_state \<Rightarrow> ((u16 \<times> bytes) option \<times> 'd fat16_state) option" where
  "resolve_parent drv path s =
     (let last_component = rev (takeWhile (\<lambda>c. c \<noteq> CHR ''/'') (rev path));
          last_slash = length path - length last_component - 1
      in if path = [] \<or> hd path \<noteq> CHR ''/'' \<or> length path \<le> 1 then Some (None, s)
         else (case component_to_name last_component of
             None \<Rightarrow> Some (None, s)
           | Some name \<Rightarrow>
               if last_slash = 0 then Some (Some (0, name), s)
               else if last_slash \<ge> 64 then Some (None, s)
               else do {
                 (r, s1) \<leftarrow> resolve_path drv (take last_slash path) s;
                 Some (case r of None \<Rightarrow> None
                   | Some e \<Rightarrow> if is_directory_entry e then Some (fe_first_cluster e, name) else None, s1)
               }))"

section \<open>Reading\<close>

text \<open>The loop over the sectors of a cluster: whether the reads succeeded and what is copied so far.\<close>

primrec read_sectors :: "'d sector_driver \<Rightarrow> u32 list \<Rightarrow> nat \<Rightarrow> nat \<Rightarrow> bytes \<Rightarrow> 'd fat16_state \<Rightarrow> bool \<times> bytes \<times> 'd fat16_state" where
  "read_sectors drv [] file_size capacity copied s = (True, copied, s)"
| "read_sectors drv (n # rest) file_size capacity copied s =
     (if length copied < file_size \<and> length copied < capacity then
        let copy_size = min (min (file_size - length copied) 512) (capacity - length copied) in
        (case fat16_read_sector drv n s of
           (None, s1) \<Rightarrow> (False, copied, s1)
         | (Some sector, s1) \<Rightarrow> read_sectors drv rest file_size capacity (copied @ take copy_size sector) s1)
      else (True, copied, s))"

partial_function (option) read_chain ::
  "'d sector_driver \<Rightarrow> u16 \<Rightarrow> nat \<Rightarrow> nat \<Rightarrow> bytes \<Rightarrow> 'd fat16_state \<Rightarrow> ((u64 \<times> bytes) \<times> 'd fat16_state) option" where
  "read_chain drv cluster file_size capacity copied s =
     (if cluster < 0xFFF8 \<and> length copied < file_size \<and> length copied < capacity then
        (case read_sectors drv (cluster_sectors cluster s) file_size capacity copied s of
           (ok, copied1, s1) \<Rightarrow>
             if ok
             then (case fat16_next_cluster drv cluster s1 of (nxt, s2) \<Rightarrow> read_chain drv nxt file_size capacity copied1 s2)
             else Some ((0, copied1), s1))
      else Some ((of_nat (length copied), copied), s))"

definition read_entry ::
  "'d sector_driver \<Rightarrow> FAT16_DIRECTORY_ENTRY \<Rightarrow> u64 \<Rightarrow> 'd fat16_state \<Rightarrow> ((u64 \<times> bytes) \<times> 'd fat16_state) option" where
  "read_entry drv e capacity s = read_chain drv (fe_first_cluster e) (unat (fe_size e)) (unat capacity) [] s"

definition fat16_initialize :: "'d sector_driver \<Rightarrow> 'd fat16_state \<Rightarrow> bool \<times> 'd fat16_state" where
  "fat16_initialize drv s =
     (case fat16_read_sector drv 0 s of
        (None, s1) \<Rightarrow> (False, s1)
      | (Some sector, s1) \<Rightarrow>
          let b = bpb_of sector in
          if bytes_per_sector b \<noteq> 512 \<or> sectors_per_cluster b = 0 then (False, s1)
          else
            let root_start = ucast (reserved_sectors b) + ucast (fat_count b) * ucast (sectors_per_fat b);
                root_count = (ucast (root_entry_count b) * 32 + 511) div 512
            in (True, s1\<lparr>bpb := b, root_start_sector := root_start, root_sector_count := root_count,
                 data_start_sector := root_start + root_count\<rparr>))"

definition fat16_root_file_size :: "'d sector_driver \<Rightarrow> bytes \<Rightarrow> 'd fat16_state \<Rightarrow> u64 \<times> 'd fat16_state" where
  "fat16_root_file_size drv name s =
     (case scan_sectors drv (\<lambda>_ sector. entry_among (\<lambda>e. \<not> is_directory_entry e \<and> fe_name e = name) sector [0 ..< 16])
        (root_sectors s) s of
        (Scan_found (Some e), s1) \<Rightarrow> (ucast (fe_size e), s1)
      | (_, s1) \<Rightarrow> (0, s1))"

definition fat16_read_root_file ::
  "'d sector_driver \<Rightarrow> bytes \<Rightarrow> u64 \<Rightarrow> 'd fat16_state \<Rightarrow> ((u64 \<times> bytes) \<times> 'd fat16_state) option" where
  "fat16_read_root_file drv name capacity s =
     (case scan_sectors drv (\<lambda>_ sector. entry_among (\<lambda>e. fe_name e = name) sector [0 ..< 16]) (root_sectors s) s of
        (Scan_found (Some e), s1) \<Rightarrow> read_entry drv e capacity s1
      | (_, s1) \<Rightarrow> Some ((0, []), s1))"

definition fat16_file_size :: "'d sector_driver \<Rightarrow> string \<Rightarrow> 'd fat16_state \<Rightarrow> (u64 \<times> 'd fat16_state) option" where
  "fat16_file_size drv path s = do {
     (r, s1) \<leftarrow> resolve_path drv path s;
     Some (case r of None \<Rightarrow> 0 | Some e \<Rightarrow> if is_directory_entry e then 0 else ucast (fe_size e), s1)
   }"

definition fat16_is_directory :: "'d sector_driver \<Rightarrow> string \<Rightarrow> 'd fat16_state \<Rightarrow> (bool \<times> 'd fat16_state) option" where
  "fat16_is_directory drv path s =
     (if path = ''/'' then Some (True, s)
      else do {
        (r, s1) \<leftarrow> resolve_path drv path s;
        Some (case r of None \<Rightarrow> False | Some e \<Rightarrow> is_directory_entry e, s1)
      })"

definition fat16_read_file ::
  "'d sector_driver \<Rightarrow> string \<Rightarrow> u64 \<Rightarrow> 'd fat16_state \<Rightarrow> ((u64 \<times> bytes) \<times> 'd fat16_state) option" where
  "fat16_read_file drv path capacity s = do {
     (r, s1) \<leftarrow> resolve_path drv path s;
     (case r of None \<Rightarrow> Some ((0, []), s1)
      | Some e \<Rightarrow> if is_directory_entry e then Some ((0, []), s1) else read_entry drv e capacity s1)
   }"

section \<open>Listing\<close>

definition entry_info :: "FAT16_DIRECTORY_ENTRY \<Rightarrow> FAT16_FILE_INFO" where
  "entry_info e = \<lparr>fi_name = format_name (fe_name e), fi_size = ucast (fe_size e), fi_is_directory = is_directory_entry e,
     fi_read_only = fe_attributes e AND 0x01 \<noteq> 0\<rparr>"

text \<open>The loop over the entries of a sector: whether the listing is complete and the entries so far.  Entries of a directory
  other than the root are also skipped when their name starts with a dot.\<close>

primrec list_among ::
  "bool \<Rightarrow> nat \<Rightarrow> bytes \<Rightarrow> nat list \<Rightarrow> FAT16_FILE_INFO list \<Rightarrow> bool \<times> FAT16_FILE_INFO list" where
  "list_among skip_dots capacity sector [] entries = (False, entries)"
| "list_among skip_dots capacity sector (i # rest) entries =
     (let e = directory_entry i sector in
      if fe_name e ! 0 = 0 then (True, entries)
      else if fe_name e ! 0 = 0xE5 \<or> fe_attributes e = 0x0F \<or> fe_attributes e AND 0x08 \<noteq> 0
         \<or> skip_dots \<and> fe_name e ! 0 = 0x2E
      then list_among skip_dots capacity sector rest entries
      else if length entries \<ge> capacity then (True, entries)
      else list_among skip_dots capacity sector rest (entries @ [entry_info e]))"

primrec list_sectors ::
  "'d sector_driver \<Rightarrow> bool \<Rightarrow> nat \<Rightarrow> u32 list \<Rightarrow> FAT16_FILE_INFO list \<Rightarrow> 'd fat16_state \<Rightarrow>
   bool \<times> FAT16_FILE_INFO list \<times> 'd fat16_state" where
  "list_sectors drv skip_dots capacity [] entries s = (False, entries, s)"
| "list_sectors drv skip_dots capacity (n # rest) entries s =
     (case fat16_read_sector drv n s of
        (None, s1) \<Rightarrow> (True, entries, s1)
      | (Some sector, s1) \<Rightarrow>
          (case list_among skip_dots capacity sector [0 ..< 16] entries of
             (complete, entries1) \<Rightarrow>
               if complete then (True, entries1, s1) else list_sectors drv skip_dots capacity rest entries1 s1))"

partial_function (option) list_chain ::
  "'d sector_driver \<Rightarrow> nat \<Rightarrow> u16 \<Rightarrow> FAT16_FILE_INFO list \<Rightarrow> 'd fat16_state \<Rightarrow>
   (FAT16_FILE_INFO list \<times> 'd fat16_state) option" where
  "list_chain drv capacity cluster entries s =
     (if cluster < 0xFFF8 then
        (case list_sectors drv True capacity (cluster_sectors cluster s) entries s of
           (complete, entries1, s1) \<Rightarrow>
             if complete then Some (entries1, s1)
             else (case fat16_next_cluster drv cluster s1 of (nxt, s2) \<Rightarrow> list_chain drv capacity nxt entries1 s2))
      else Some (entries, s))"

text \<open>The number of entries that the code returns is the length of the list.\<close>

definition fat16_list_root :: "'d sector_driver \<Rightarrow> u64 \<Rightarrow> 'd fat16_state \<Rightarrow> FAT16_FILE_INFO list \<times> 'd fat16_state" where
  "fat16_list_root drv capacity s =
     (case list_sectors drv False (unat capacity) (root_sectors s) [] s of (_, entries, s1) \<Rightarrow> (entries, s1))"

definition fat16_list_directory ::
  "'d sector_driver \<Rightarrow> string \<Rightarrow> u64 \<Rightarrow> 'd fat16_state \<Rightarrow> (FAT16_FILE_INFO list \<times> 'd fat16_state) option" where
  "fat16_list_directory drv path capacity s =
     (if path = ''/'' then Some (fat16_list_root drv capacity s)
      else do {
        (r, s1) \<leftarrow> resolve_path drv path s;
        (case r of None \<Rightarrow> Some ([], s1)
         | Some e \<Rightarrow>
             if \<not> is_directory_entry e then Some ([], s1)
             else list_chain drv (unat capacity) (fe_first_cluster e) [] s1)
      })"

section \<open>Writing\<close>

text \<open>An entry that was cleared, with its name, attributes, cluster and size.\<close>

definition new_entry :: "bytes \<Rightarrow> u8 \<Rightarrow> u16 \<Rightarrow> u32 \<Rightarrow> FAT16_DIRECTORY_ENTRY" where
  "new_entry name attributes cluster len = \<lparr>fe_name = name, fe_attributes = attributes, fe_reserved = replicate 14 0,
     fe_first_cluster = cluster, fe_size = len\<rparr>"

definition mark_deleted :: "nat \<Rightarrow> bytes \<Rightarrow> bytes" where
  "mark_deleted index sector = sector[32 * index := 0xE5]"

text \<open>Storing the entry of a new file: when the directory sector cannot be written, the new clusters are freed, otherwise
  those of the file that was replaced.\<close>

definition commit_entry ::
  "'d sector_driver \<Rightarrow> u32 \<Rightarrow> bytes \<Rightarrow> u16 \<Rightarrow> u16 \<Rightarrow> 'd fat16_state \<Rightarrow> (bool \<times> 'd fat16_state) option" where
  "commit_entry drv target_sector sector new_cluster old_cluster s =
     (case fat16_write_sector drv target_sector sector s of
        (ok, s1) \<Rightarrow>
          if \<not> ok then
            (if new_cluster \<noteq> 0 then map_option (\<lambda>(_, s2). (False, s2)) (fat16_free_chain drv new_cluster s1)
             else Some (False, s1))
          else if old_cluster = 0 then Some (True, s1)
          else fat16_free_chain drv old_cluster s1)"

definition fat16_write_root_file ::
  "'d sector_driver \<Rightarrow> string \<Rightarrow> bytes \<Rightarrow> 'd fat16_state \<Rightarrow> (bool \<times> 'd fat16_state) option" where
  "fat16_write_root_file drv path buffer s =
     (let sz = of_nat (length buffer) :: u64;
          cluster_size = ucast (sectors_per_cluster (bpb s)) * 512 :: u32;
          cluster_count = ucast ((sz + ucast cluster_size - 1) div ucast cluster_size) :: u32
      in if sz > 0xFFFFFFFF then Some (False, s)
         else do {
           (parent, s1) \<leftarrow> resolve_parent drv path s;
           (case parent of None \<Rightarrow> Some (False, s1)
            | Some (parent_cluster, name) \<Rightarrow> do {
                (slot, s2) \<leftarrow> find_directory_entry_slot drv parent_cluster name True s1;
                (case slot of None \<Rightarrow> Some (False, s2)
                 | Some (target_sector, sector, index) \<Rightarrow>
                     let e = directory_entry index sector in
                     if \<not> free_entry e \<and> fe_attributes e AND 0x11 \<noteq> 0 then Some (False, s2)
                     else
                       let old_cluster = (if free_entry e then 0 else fe_first_cluster e);
                           commit = (\<lambda>new_cluster. commit_entry drv target_sector
                             (put_entry index (new_entry name 0x20 new_cluster (ucast sz)) sector) new_cluster old_cluster)
                       in if cluster_count = 0 then commit 0 s2
                          else do {
                            (new_cluster, s3) \<leftarrow> fat16_allocate_chain drv cluster_count s2;
                            if new_cluster = 0 then Some (False, s3)
                            else do {
                              (ok, s4) \<leftarrow> write_cluster_chain drv new_cluster buffer s3;
                              if ok then commit new_cluster s4
                              else map_option (\<lambda>(_, s5). (False, s5)) (fat16_free_chain drv new_cluster s4)
                            }
                          })
              })
         })"

text \<open>Deleting an entry and then its clusters.\<close>

definition delete_entry ::
  "'d sector_driver \<Rightarrow> u32 \<Rightarrow> nat \<Rightarrow> bytes \<Rightarrow> u16 \<Rightarrow> 'd fat16_state \<Rightarrow> (bool \<times> 'd fat16_state) option" where
  "delete_entry drv entry_sector index sector cluster s =
     (case fat16_write_sector drv entry_sector (mark_deleted index sector) s of
        (ok, s1) \<Rightarrow> if ok then fat16_free_chain drv cluster s1 else Some (False, s1))"

definition fat16_delete_root_file ::
  "'d sector_driver \<Rightarrow> string \<Rightarrow> 'd fat16_state \<Rightarrow> (bool \<times> 'd fat16_state) option" where
  "fat16_delete_root_file drv path s = do {
     (parent, s1) \<leftarrow> resolve_parent drv path s;
     (case parent of None \<Rightarrow> Some (False, s1)
      | Some (parent_cluster, name) \<Rightarrow> do {
          (slot, s2) \<leftarrow> find_directory_entry_slot drv parent_cluster name False s1;
          (case slot of None \<Rightarrow> Some (False, s2)
           | Some (entry_sector, sector, index) \<Rightarrow>
               if fe_attributes (directory_entry index sector) AND 0x11 = 0
               then delete_entry drv entry_sector index sector (fe_first_cluster (directory_entry index sector)) s2
               else Some (False, s2))
        })
   }"

text \<open>The first sector of a new directory: the entries \<^verbatim>\<open>.\<close> and \<^verbatim>\<open>..\<close>, whose names are not padded with blanks
  beyond the second character.\<close>

definition new_directory_sector :: "u16 \<Rightarrow> u16 \<Rightarrow> bytes" where
  "new_directory_sector cluster parent_cluster =
     put_entry 1 (new_entry ([0x2E, 0x2E] @ replicate 9 0) 0x10 parent_cluster 0)
       (put_entry 0 (new_entry ([0x2E, 0x20] @ replicate 9 0) 0x10 cluster 0) (replicate 512 0))"

definition fat16_create_root_directory ::
  "'d sector_driver \<Rightarrow> string \<Rightarrow> 'd fat16_state \<Rightarrow> (bool \<times> 'd fat16_state) option" where
  "fat16_create_root_directory drv path s = do {
     (parent, s1) \<leftarrow> resolve_parent drv path s;
     (case parent of None \<Rightarrow> Some (False, s1)
      | Some (parent_cluster, name) \<Rightarrow> do {
          (slot, s2) \<leftarrow> find_directory_entry_slot drv parent_cluster name True s1;
          (case slot of None \<Rightarrow> Some (False, s2)
           | Some (target_sector, sector, index) \<Rightarrow>
               if \<not> free_entry (directory_entry index sector) then Some (False, s2)
               else (case fat16_allocate_cluster drv s2 of
                   (cluster, s3) \<Rightarrow>
                     if cluster = 0 then Some (False, s3)
                     else (case fat16_write_sector drv (data_start_sector s3 + (ucast cluster - 2))
                           (new_directory_sector cluster parent_cluster) s3 of
                         (ok, s4) \<Rightarrow>
                           if \<not> ok then map_option (\<lambda>(_, s5). (False, s5)) (fat16_free_chain drv cluster s4)
                           else commit_entry drv target_sector (put_entry index (new_entry name 0x10 cluster 0) sector) cluster 0 s4)))
        })
   }"

definition fat16_delete_root_directory ::
  "'d sector_driver \<Rightarrow> string \<Rightarrow> 'd fat16_state \<Rightarrow> (bool \<times> 'd fat16_state) option" where
  "fat16_delete_root_directory drv path s = do {
     (parent, s1) \<leftarrow> resolve_parent drv path s;
     (case parent of None \<Rightarrow> Some (False, s1)
      | Some (parent_cluster, name) \<Rightarrow> do {
          (slot, s2) \<leftarrow> find_directory_entry_slot drv parent_cluster name False s1;
          (case slot of None \<Rightarrow> Some (False, s2)
           | Some (target_sector, sector, index) \<Rightarrow>
               let e = directory_entry index sector in
               if \<not> is_directory_entry e \<or> fe_first_cluster e < 2 then Some (False, s2)
               else (case fat16_read_sector drv (data_start_sector s2 + (ucast (fe_first_cluster e) - 2)) s2 of
                   (None, s3) \<Rightarrow> Some (False, s3)
                 | (Some content, s3) \<Rightarrow>
                     if list_ex (\<lambda>i. \<not> free_entry (directory_entry i content)) [2 ..< 16] then Some (False, s3)
                     else delete_entry drv target_sector index sector (fe_first_cluster e) s3))
        })
   }"

section \<open>Mounting\<close>

definition fat16_mount_device :: "'d sector_driver \<Rightarrow> u8 \<Rightarrow> u8 \<Rightarrow> 'd fat16_state \<Rightarrow> bool \<times> 'd fat16_state" where
  "fat16_mount_device drv target lun s =
     (if target = fat16_mounted_target s \<and> lun = fat16_mounted_lun s then (True, s)
      else (case fat16_initialize drv (s\<lparr>fat16_disk := vb_select drv target lun (fat16_disk s)\<rparr>) of
          (ok, s1) \<Rightarrow>
            if ok then (True, s1\<lparr>fat16_mounted_target := target, fat16_mounted_lun := lun\<rparr>) else (False, s1)))"

definition fat16_self_test :: "'d sector_driver \<Rightarrow> 'd fat16_state \<Rightarrow> (bool \<times> 'd fat16_state) option" where
  "fat16_self_test drv s =
     (case fat16_initialize drv s of
        (ok, s1) \<Rightarrow>
          if \<not> ok then Some (False, s1)
          else do {
            ((n, buffer), s2) \<leftarrow> fat16_read_root_file drv (map of_char ''DISK    TXT'') 64 s1;
            (case fat16_list_root drv 8 s2 of
               (entries, s3) \<Rightarrow> do {
                 (nested, s4) \<leftarrow> fat16_list_directory drv ''/ASAS'' 8 s3;
                 Some (n > 10 \<and> buffer ! 0 = of_char (CHR ''A'') \<and> buffer ! 5 = of_char (CHR ''O'')
                   \<and> length entries \<ge> 4 \<and> length nested \<ge> 3, s4)
               })
          })"

end
