(* ===== verification/Fat16_Chains.thy ===== *)
theory Fat16_Chains
  imports Fat16
begin

text \<open>
  The file allocation table of FAT16 as a function of the sectors: what setting an entry changes, cluster chains,
  and allocating, freeing, writing and reading them on a disk whose transfers succeed.
\<close>

section \<open>A disk whose transfers succeed\<close>

text \<open>\<open>content\<close> is what the sectors hold in a state of the driver, \<open>works\<close> the states in which transfers
  succeed.\<close>

locale sector_disk =
  fixes drv :: "'d sector_driver" and content :: "'d \<Rightarrow> u64 \<Rightarrow> bytes" and works :: "'d \<Rightarrow> bool"
  assumes read_works: "works d \<Longrightarrow> \<exists>d'. vb_read drv n d = (Some (content d n), d') \<and> works d' \<and> content d' = content d"
    and write_works: "works d \<Longrightarrow> length data = 512 \<Longrightarrow>
      \<exists>d'. vb_write drv n data d = (True, d') \<and> works d' \<and> content d' = (content d)(n := data)"
    and sector_length: "works d \<Longrightarrow> length (content d n) = 512"

text \<open>The sectors, by the 32-bit numbers that the file system uses.\<close>

definition sectors_in :: "('d \<Rightarrow> u64 \<Rightarrow> bytes) \<Rightarrow> 'd fat16_state \<Rightarrow> u32 \<Rightarrow> bytes" where
  "sectors_in content s n = content (fat16_disk s) (ucast n)"

text \<open>A state with the same static variables in which the sectors are \<open>f\<close>.\<close>

definition leads_to ::
  "('d \<Rightarrow> u64 \<Rightarrow> bytes) \<Rightarrow> ('d \<Rightarrow> bool) \<Rightarrow> 'd fat16_state \<Rightarrow> (u32 \<Rightarrow> bytes) \<Rightarrow> 'd fat16_state \<Rightarrow> bool" where
  "leads_to content works s f s' \<longleftrightarrow> (\<exists>d. s' = s\<lparr>fat16_disk := d\<rparr> \<and> works d \<and> sectors_in content s' = f)"

lemma ucast_32_64_inject: "(ucast (a :: u32) :: u64) = ucast b \<longleftrightarrow> a = b"
proof
  assume "(ucast a :: u64) = ucast b"
  then have "unat (ucast a :: u64) = unat (ucast b :: u64)" by simp
  then show "a = b" by (simp add: word_unat_eq_iff)
qed simp

lemma leads_toD:
  assumes "leads_to content works s f s'"
  shows "bpb s' = bpb s" "root_start_sector s' = root_start_sector s" "root_sector_count s' = root_sector_count s"
    "data_start_sector s' = data_start_sector s" "works (fat16_disk s')" "sectors_in content s' = f"
    "root_sectors s' = root_sectors s" "cluster_sectors c s' = cluster_sectors c s"
  using assms by (auto simp: leads_to_def root_sectors_def cluster_sectors_def cluster_sector_number_def)

lemma leads_to_trans: "leads_to content works s f s1 \<Longrightarrow> leads_to content works s1 g s2 \<Longrightarrow> leads_to content works s g s2"
  by (auto simp: leads_to_def)

context sector_disk
begin

abbreviation sec :: "'d fat16_state \<Rightarrow> u32 \<Rightarrow> bytes" where "sec \<equiv> sectors_in content"
abbreviation to :: "'d fat16_state \<Rightarrow> (u32 \<Rightarrow> bytes) \<Rightarrow> 'd fat16_state \<Rightarrow> bool" where "to \<equiv> leads_to content works"

lemma to_refl: "works (fat16_disk s) \<Longrightarrow> to s (sec s) s"
  unfolding leads_to_def by (rule exI [of _ "fat16_disk s"]) simp

lemma sec_length: "works (fat16_disk s) \<Longrightarrow> length (sec s n) = 512"
  by (simp add: sectors_in_def sector_length)

lemma to_length: "to s f s' \<Longrightarrow> length (f n) = 512"
  using leads_toD(5,6) sec_length by metis

lemma sector_read:
  assumes "works (fat16_disk s)"
  obtains s' where "fat16_read_sector drv n s = (Some (sec s n), s')" "to s (sec s) s'"
proof -
  obtain d' where d: "vb_read drv (ucast n) (fat16_disk s) = (Some (sec s n), d')" "works d'" "content d' = content (fat16_disk s)"
    using read_works [OF assms] by (auto simp: sectors_in_def)
  then have "to s (sec s) (s\<lparr>fat16_disk := d'\<rparr>)"
    unfolding leads_to_def by (intro exI [of _ d']) (simp add: sectors_in_def fun_eq_iff)
  then show ?thesis using that d(1) by (simp add: fat16_read_sector_def)
qed

lemma sector_written:
  assumes "works (fat16_disk s)" "length data = 512"
  obtains s' where "fat16_write_sector drv n data s = (True, s')" "to s ((sec s)(n := data)) s'"
proof -
  obtain d' where d: "vb_write drv (ucast n) data (fat16_disk s) = (True, d')" "works d'"
    "content d' = (content (fat16_disk s))(ucast n := data)"
    using write_works [OF assms] by blast
  then have "to s ((sec s)(n := data)) (s\<lparr>fat16_disk := d'\<rparr>)"
    unfolding leads_to_def by (intro exI [of _ d']) (simp add: sectors_in_def fun_eq_iff ucast_32_64_inject)
  then show ?thesis using that d(1) by (simp add: fat16_write_sector_def)
qed

end

section \<open>The layout of a volume\<close>

text \<open>What \<open>fat16_initialize\<close> has computed, on a volume with at least one table.\<close>

definition fat16_layout :: "'d fat16_state \<Rightarrow> bool" where
  "fat16_layout s \<longleftrightarrow> 0 < sectors_per_cluster (bpb s) \<and> 0 < fat_count (bpb s)
     \<and> root_start_sector s = ucast (reserved_sectors (bpb s)) + ucast (fat_count (bpb s)) * ucast (sectors_per_fat (bpb s))
     \<and> root_sector_count s = (ucast (root_entry_count (bpb s)) * 32 + 511) div 512
     \<and> data_start_sector s = root_start_sector s + root_sector_count s"

abbreviation spc_of :: "'d fat16_state \<Rightarrow> nat" where "spc_of s \<equiv> unat (sectors_per_cluster (bpb s))"
abbreviation spf_of :: "'d fat16_state \<Rightarrow> nat" where "spf_of s \<equiv> unat (sectors_per_fat (bpb s))"
abbreviation reserved_of :: "'d fat16_state \<Rightarrow> nat" where "reserved_of s \<equiv> unat (reserved_sectors (bpb s))"
abbreviation copies_of :: "'d fat16_state \<Rightarrow> nat" where "copies_of s \<equiv> unat (fat_count (bpb s))"

lemma small_words:
  "unat (a :: u16) < 65536" "unat (b :: u8) < 256" "unat (ucast a :: u32) = unat a" "unat (ucast b :: u32) = unat b"
proof -
  show u: "unat a < 65536" "unat b < 256" using unsigned_less [of a] unsigned_less [of b] by simp_all
  show "unat (ucast a :: u32) = unat a" "unat (ucast b :: u32) = unat b"
    using u by (simp_all add: unsigned_ucast_eq take_bit_nat_eq_self_iff)
qed

lemma unat_add_32: "unat (a :: u32) + unat b < 4294967296 \<Longrightarrow> unat (a + b) = unat a + unat b"
  using unat_add_lem [of a b] by simp

lemma unat_mult_32: "unat (a :: u32) * unat b < 4294967296 \<Longrightarrow> unat (a * b) = unat a * unat b"
  using unat_mult_lem [of a b] by simp

lemma small_product: "unat (b :: u8) * unat (a :: u16) \<le> 255 * 65535"
  by (rule mult_le_mono) (use small_words(1) [of a] small_words(2) [of b] in linarith)+

lemma layout_numbers:
  assumes "fat16_layout s"
  shows "0 < spc_of s" "0 < copies_of s"
    "unat (root_start_sector s) = reserved_of s + copies_of s * spf_of s"
    "unat (root_sector_count s) \<le> 4096"
    "unat (data_start_sector s) = unat (root_start_sector s) + unat (root_sector_count s)"
    "unat (data_start_sector s) < 2 ^ 25"
proof -
  note L = assms [unfolded fat16_layout_def]
  show "0 < spc_of s" "0 < copies_of s" using L by (simp_all add: unat_gt_0 word_gt_0)
  have p: "copies_of s * spf_of s \<le> 16711425" using small_product [of "fat_count (bpb s)" "sectors_per_fat (bpb s)"] by simp
  have q: "reserved_of s \<le> 65535" "unat (root_entry_count (bpb s)) \<le> 65535"
    using small_words(1) [of "reserved_sectors (bpb s)"] small_words(1) [of "root_entry_count (bpb s)"] by linarith+
  have m: "unat (ucast (fat_count (bpb s)) * ucast (sectors_per_fat (bpb s)) :: u32) = copies_of s * spf_of s"
    using p by (subst unat_mult_32) (simp_all add: small_words)
  have "unat (ucast (reserved_sectors (bpb s)) + ucast (fat_count (bpb s)) * ucast (sectors_per_fat (bpb s)) :: u32)
      = unat (ucast (reserved_sectors (bpb s)) :: u32) + unat (ucast (fat_count (bpb s)) * ucast (sectors_per_fat (bpb s)) :: u32)"
    using p q by (intro unat_add_32) (simp add: m small_words)
  then show r: "unat (root_start_sector s) = reserved_of s + copies_of s * spf_of s"
    using L by (simp add: m small_words)
  have "unat (ucast (root_entry_count (bpb s)) * 32 :: u32) = unat (root_entry_count (bpb s)) * 32"
    using q by (subst unat_mult_32) (simp_all add: small_words)
  then have e: "unat (ucast (root_entry_count (bpb s)) * 32 + 511 :: u32) = unat (root_entry_count (bpb s)) * 32 + 511"
    using q by (subst unat_add_32) simp_all
  show c: "unat (root_sector_count s) \<le> 4096" using L e q by (simp add: unat_div)
  have "unat (root_start_sector s) + unat (root_sector_count s) < 4294967296" using c r p q by linarith
  then show d: "unat (data_start_sector s) = unat (root_start_sector s) + unat (root_sector_count s)"
    using L unat_add_32 by metis
  have "unat (data_start_sector s) < 33554432" using c r d p q by linarith
  then show "unat (data_start_sector s) < 2 ^ 25" by simp
qed

lemma leads_to_layout: "leads_to content works s f s' \<Longrightarrow> fat16_layout s' = fat16_layout s"
  using leads_toD(1-4) [of content works s f s'] unfolding fat16_layout_def by metis

section \<open>The table as a function\<close>

definition fat_sector :: "'d fat16_state \<Rightarrow> nat \<Rightarrow> u16 \<Rightarrow> u32" where
  "fat_sector s i c = ucast (reserved_sectors (bpb s)) + of_nat i * ucast (sectors_per_fat (bpb s)) + ucast c * 2 div 512"

definition fat_of :: "'d fat16_state \<Rightarrow> (u32 \<Rightarrow> bytes) \<Rightarrow> u16 \<Rightarrow> u16" where
  "fat_of s f c = u16_at (2 * (unat c mod 256)) (f (fat_sector s 0 c))"

definition fat_range :: "'d fat16_state \<Rightarrow> u16 set" where
  "fat_range s = {c. unat c < 256 * spf_of s}"

text \<open>The sectors after an entry was set in some copies.\<close>

definition set_fat :: "'d fat16_state \<Rightarrow> nat set \<Rightarrow> u16 \<Rightarrow> u16 \<Rightarrow> (u32 \<Rightarrow> bytes) \<Rightarrow> u32 \<Rightarrow> bytes" where
  "set_fat s I c v f = (\<lambda>n. if n \<in> (\<lambda>i. fat_sector s i c) ` I
     then put_bytes (2 * (unat c mod 256)) (le_bytes 2 (unat v)) (f n) else f n)"

lemma fat_offsets:
  "unat (ucast c * 2 mod 512 :: u32) = 2 * (unat (c :: u16) mod 256)" "unat (ucast c * 2 div 512 :: u32) = unat c div 256"
proof -
  have "unat c \<le> 65535" using small_words(1) [of c] by linarith
  then have u: "unat (ucast c * 2 :: u32) = 2 * unat c" by (subst unat_mult_32) (simp_all add: small_words)
  have "(512 :: nat) = 2 * 256" by simp
  then show "unat (ucast c * 2 mod 512 :: u32) = 2 * (unat c mod 256)" "unat (ucast c * 2 div 512 :: u32) = unat c div 256"
    using mult_mod_right [of 2 "unat c" 256] by (simp_all add: unat_mod unat_div u)
qed

lemma fat_sector_number:
  assumes "fat16_layout s" "c \<in> fat_range s" "i < copies_of s"
  shows "unat (fat_sector s i c) = reserved_of s + i * spf_of s + unat c div 256"
    "reserved_of s \<le> unat (fat_sector s i c)" "unat (fat_sector s i c) < unat (root_start_sector s)"
proof -
  have d: "unat c div 256 < spf_of s" using assms(2) by (simp add: fat_range_def less_mult_imp_div_less mult.commute)
  have "(i + 1) * spf_of s \<le> copies_of s * spf_of s" by (rule mult_le_mono1) (use assms(3) in simp)
  then have le: "i * spf_of s + unat c div 256 < copies_of s * spf_of s" using d by simp
  have p: "copies_of s * spf_of s \<le> 16711425" "reserved_of s \<le> 65535"
    using small_product [of "fat_count (bpb s)" "sectors_per_fat (bpb s)"] small_words(1) [of "reserved_sectors (bpb s)"] by simp_all
  have i: "unat (of_nat i :: u32) = i" using assms(3) small_words(2) [of "fat_count (bpb s)"] by (simp add: unat_of_nat)
  have m: "unat (of_nat i * ucast (sectors_per_fat (bpb s)) :: u32) = i * spf_of s"
    using le p i by (subst unat_mult_32) (simp_all add: small_words)
  have a: "unat (ucast (reserved_sectors (bpb s)) + of_nat i * ucast (sectors_per_fat (bpb s)) :: u32) = reserved_of s + i * spf_of s"
    using le p by (subst unat_add_32) (simp_all add: m small_words)
  show n: "unat (fat_sector s i c) = reserved_of s + i * spf_of s + unat c div 256"
    using le p unfolding fat_sector_def by (subst unat_add_32) (simp_all add: a fat_offsets)
  show "reserved_of s \<le> unat (fat_sector s i c)" "unat (fat_sector s i c) < unat (root_start_sector s)"
    using le unfolding n layout_numbers(3) [OF assms(1)] by linarith+
qed

lemma fat_sector_inject:
  assumes "fat16_layout s" "c \<in> fat_range s" "c' \<in> fat_range s" "i < copies_of s" "j < copies_of s"
  shows "fat_sector s i c = fat_sector s j c' \<longleftrightarrow> i = j \<and> unat c div 256 = unat c' div 256"
proof
  assume "fat_sector s i c = fat_sector s j c'"
  then have e: "i * spf_of s + unat c div 256 = j * spf_of s + unat c' div 256"
    using fat_sector_number(1) [OF assms(1,2,4)] fat_sector_number(1) [OF assms(1,3,5)] by simp
  have d: "unat c div 256 < spf_of s" "unat c' div 256 < spf_of s"
    using assms(2,3) by (simp_all add: fat_range_def less_mult_imp_div_less mult.commute)
  have "i = (i * spf_of s + unat c div 256) div spf_of s" "j = (j * spf_of s + unat c' div 256) div spf_of s"
    using d by simp_all
  then have "i = j" using e by simp
  then show "i = j \<and> unat c div 256 = unat c' div 256" using e by simp
next
  assume "i = j \<and> unat c div 256 = unat c' div 256"
  then show "fat_sector s i c = fat_sector s j c'"
    using fat_sector_number(1) [OF assms(1,2,4)] fat_sector_number(1) [OF assms(1,3,5)] by (simp add: word_unat_eq_iff)
qed

lemma u16_at_put:
  assumes "a < 256" "b < 256" "length sector = 512"
  shows "u16_at (2 * a) (put_bytes (2 * b) (le_bytes 2 (unat v)) sector) = (if a = b then v else u16_at (2 * a) sector)"
proof (cases "a = b")
  case True
  have "take 2 (drop (2 * b) (put_bytes (2 * b) (le_bytes 2 (unat v)) sector)) = le_bytes 2 (unat v)"
    using put_bytes_read [of "2 * b" "le_bytes 2 (unat v)" sector] assms by simp
  then show ?thesis using True small_words(1) [of v] by (simp add: u16_at_def le_value_bytes)
next
  case False
  then have "2 * a + 2 \<le> 2 * b \<or> 2 * b + length (le_bytes 2 (unat v)) \<le> 2 * a" by (simp; linarith)
  then show ?thesis using assms False by (simp add: u16_at_def put_bytes_other)
qed

lemma set_fat_length: "(\<And>n. length (f n) = 512) \<Longrightarrow> length (set_fat s I c v f n) = 512"
  by (simp add: set_fat_def)

lemma fat_of_set:
  assumes "fat16_layout s" "c \<in> fat_range s" "c' \<in> fat_range s" "\<And>n. length (f n) = 512"
  shows "fat_of s (set_fat s {0 ..< copies_of s} c v f) c' = (if c' = c then v else fat_of s f c')"
proof -
  have z: "0 < copies_of s" using layout_numbers(2) [OF assms(1)] .
  have e: "fat_sector s 0 c' \<in> (\<lambda>i. fat_sector s i c) ` {0 ..< copies_of s} \<longleftrightarrow> unat c' div 256 = unat c div 256"
    using fat_sector_inject [OF assms(1,3,2) z] z by (auto simp: image_iff)
  have "c' = c \<longleftrightarrow> unat c' div 256 = unat c div 256 \<and> unat c' mod 256 = unat c mod 256"
    by (metis div_mult_mod_eq word_unat_eq_iff)
  then show ?thesis using e u16_at_put [of "unat c' mod 256" "unat c mod 256" "f (fat_sector s 0 c')" v] assms(4)
    by (auto simp: fat_of_def set_fat_def)
qed

lemma set_fat_other:
  assumes "fat16_layout s" "c \<in> fat_range s" "unat (root_start_sector s) \<le> unat n"
  shows "set_fat s {0 ..< copies_of s} c v f n = f n"
  using fat_sector_number(3) [OF assms(1,2)] assms(3) by (fastforce simp: set_fat_def)

lemma fat_leads_to:
  "leads_to content works s f s' \<Longrightarrow> fat_of s' = fat_of s" "leads_to content works s f s' \<Longrightarrow> fat_range s' = fat_range s"
  "leads_to content works s f s' \<Longrightarrow> set_fat s' = set_fat s" "leads_to content works s f s' \<Longrightarrow> fat_sector s' = fat_sector s"
  by (auto simp: leads_to_def fat_of_def fat_range_def set_fat_def fat_sector_def fun_eq_iff)

context sector_disk
begin

lemma next_cluster_to:
  assumes "works (fat16_disk s)"
  obtains s' where "fat16_next_cluster drv c s = (fat_of s (sec s) c, s')" "to s (sec s) s'"
proof -
  obtain s' where "fat16_read_sector drv (fat_sector s 0 c) s = (Some (sec s (fat_sector s 0 c)), s')" "to s (sec s) s'"
    using sector_read [OF assms] .
  then show ?thesis using that by (simp add: fat16_next_cluster_def Let_def fat_of_def fat_offsets fat_sector_def)
qed

lemma set_in_copies_to:
  assumes "works (fat16_disk s)" "distinct is" "fat16_layout s" "c \<in> fat_range s" "set is \<subseteq> {0 ..< copies_of s}"
  shows "\<exists>s'. set_in_copies drv is c v s = (True, s') \<and> to s (set_fat s (set is) c v (sec s)) s'"
  using assms
proof (induction "is" arbitrary: s)
  case Nil
  then show ?case using to_refl by (simp add: set_fat_def)
next
  case (Cons i "is")
  let ?n = "fat_sector s i c"
  let ?w = "put_bytes (2 * (unat c mod 256)) (le_bytes 2 (unat v)) (sec s ?n)"
  have c2: "2 * (unat c mod 256) + 2 \<le> 512"
  proof -
    have "unat c mod 256 < 256" by simp
    then show ?thesis by linarith
  qed
  obtain s1 where r: "fat16_read_sector drv ?n s = (Some (sec s ?n), s1)" "to s (sec s) s1" using sector_read [OF Cons.prems(1)] .
  have "length ?w = 512" using sec_length [OF Cons.prems(1)] c2 by simp
  then obtain s2 where w: "fat16_write_sector drv ?n ?w s1 = (True, s2)" "to s1 ((sec s1)(?n := ?w)) s2"
    using sector_written [OF leads_toD(5) [OF r(2)]] by blast
  have t: "to s ((sec s)(?n := ?w)) s2" using leads_to_trans [OF r(2) w(2)] leads_toD(6) [OF r(2)] by simp
  note d = leads_toD [OF t]
  have "\<exists>s'. set_in_copies drv is c v s2 = (True, s') \<and> to s2 (set_fat s2 (set is) c v (sec s2)) s'"
    by (rule Cons.IH) (use Cons.prems d leads_to_layout [OF t] fat_leads_to(2) [OF t] in auto)
  then obtain s' where s': "set_in_copies drv is c v s2 = (True, s')" "to s2 (set_fat s (set is) c v (sec s2)) s'"
    unfolding fat_leads_to(3) [OF t] by blast
  have "?n \<notin> (\<lambda>i. fat_sector s i c) ` set is"
    using Cons.prems(2,5) fat_sector_inject [OF Cons.prems(3,4,4), of i] by (auto simp: subset_iff)
  then have "set_fat s (set is) c v (sec s2) = set_fat s (set (i # is)) c v (sec s)"
    unfolding d(6) by (auto simp: set_fat_def fun_eq_iff)
  then show ?case using r(1) w(1) s' leads_to_trans [OF t s'(2)]
    by (simp add: Let_def fat_offsets fat_sector_def)
qed

lemma set_cluster_to:
  assumes "works (fat16_disk s)" "fat16_layout s" "c \<in> fat_range s"
  obtains s' where "fat16_set_cluster drv c v s = (True, s')" "to s (set_fat s {0 ..< copies_of s} c v (sec s)) s'"
  using set_in_copies_to [OF assms(1) distinct_upt assms(2,3), of 0 "copies_of s" v] that
  by (auto simp: fat16_set_cluster_def)

end

section \<open>Chains\<close>

text \<open>The clusters from \<open>c\<close> on in a table, up to an entry that ends the chain.\<close>

fun fat_chain :: "u16 set \<Rightarrow> (u16 \<Rightarrow> u16) \<Rightarrow> u16 \<Rightarrow> u16 list \<Rightarrow> bool" where
  "fat_chain R t c [] \<longleftrightarrow> 0xFFF8 \<le> c"
| "fat_chain R t c (x # xs) \<longleftrightarrow> x = c \<and> 2 \<le> c \<and> c < 0xFFF8 \<and> c \<in> R \<and> fat_chain R t (t c) xs"

lemma fat_chain_unique: "fat_chain R t c xs \<Longrightarrow> fat_chain R t c ys \<Longrightarrow> xs = ys"
proof (induction xs arbitrary: c ys)
  case Nil
  then show ?case by (cases ys) auto
next
  case (Cons x xs)
  then show ?case by (cases ys) auto
qed

lemma fat_chain_append: "fat_chain R t c (xs @ x # ys) \<Longrightarrow> fat_chain R t x (x # ys)"
  by (induction xs arbitrary: c) auto

lemma fat_chain_distinct:
  assumes "fat_chain R t c xs"
  shows "distinct xs"
proof (rule ccontr)
  assume "\<not> distinct xs"
  then obtain as bs ds x where xs: "xs = as @ [x] @ bs @ [x] @ ds" using not_distinct_decomp by blast
  have "fat_chain R t x (x # bs @ x # ds)" using assms fat_chain_append [of R t c as x "bs @ x # ds"] by (simp add: xs)
  moreover have "fat_chain R t x (x # ds)" using assms fat_chain_append [of R t c "as @ x # bs" x ds] by (simp add: xs)
  ultimately have "x # bs @ x # ds = x # ds" by (rule fat_chain_unique)
  then have "length (x # bs @ x # ds) = length (x # ds)" by (rule arg_cong)
  then show False by simp
qed

lemma fat_chain_cong: "(\<And>x. x \<in> set xs \<Longrightarrow> t' x = t x) \<Longrightarrow> fat_chain R t' c xs = fat_chain R t c xs"
  by (induction xs arbitrary: c) auto

lemma fat_chain_set: "fat_chain R t c xs \<Longrightarrow> x \<in> set xs \<Longrightarrow> 2 \<le> x \<and> x < 0xFFF8 \<and> x \<in> R"
  by (induction xs arbitrary: c) auto

text \<open>No cluster of a chain is free.\<close>

lemma fat_chain_used: "fat_chain R t c xs \<Longrightarrow> x \<in> set xs \<Longrightarrow> t x \<noteq> 0"
proof (induction xs arbitrary: c)
  case (Cons y ys)
  then show ?case by (cases ys) auto
qed simp

text \<open>Linking a new cluster to the end.\<close>

lemma fat_chain_snoc:
  assumes "fat_chain R t c xs" "xs \<noteq> []" "x \<notin> set xs" "2 \<le> x" "x < 0xFFF8" "x \<in> R"
    and "t' (last xs) = x" "0xFFF8 \<le> t' x" "\<And>y. y \<in> set xs \<Longrightarrow> y \<noteq> last xs \<Longrightarrow> t' y = t y"
  shows "fat_chain R t' c (xs @ [x])"
  using assms(1-3,7,9)
proof (induction xs arbitrary: c)
  case (Cons y ys)
  note d = fat_chain_distinct [OF Cons.prems(1)]
  show ?case
  proof (cases ys)
    case Nil
    then show ?thesis using Cons.prems assms(4-6,8) by simp
  next
    case (Cons z zs)
    then have "last (y # ys) = last ys" "last ys \<in> set ys" by simp_all
    then have "t' y = t y" using Cons.prems(5) d by fastforce
    moreover have "fat_chain R t' (t y) (ys @ [x])"
      by (rule Cons.IH) (use Cons.prems Cons in auto)
    ultimately show ?thesis using Cons.prems(1) by simp
  qed
qed simp

text \<open>The clusters that may be allocated and are free.\<close>

definition free_clusters :: "'d fat16_state \<Rightarrow> (u32 \<Rightarrow> bytes) \<Rightarrow> nat list" where
  "free_clusters s g = filter (\<lambda>k. fat_of s g (of_nat k) = 0) [2 ..< min (spf_of s * 256) 0xFFF0]"

lemma length_filter_but_one:
  "distinct ks \<Longrightarrow> (\<And>k. k \<in> set ks \<Longrightarrow> P k \<Longrightarrow> k \<noteq> x \<Longrightarrow> Q k) \<Longrightarrow> length (filter P ks) \<le> Suc (length (filter Q ks))"
proof (induction ks)
  case (Cons k ks)
  show ?case
  proof (cases "k = x")
    case True
    then have "length (filter P ks) \<le> length (filter Q ks)"
      using Cons.prems by (induction ks) auto
    then show ?thesis by simp
  next
    case False
    then show ?thesis using Cons by auto
  qed
qed simp

context sector_disk
begin

lemma free_chain_to:
  assumes "works (fat16_disk s)" "fat16_layout s" "fat_chain (fat_range s) (fat_of s (sec s)) c cs"
  shows "\<exists>s' f. fat16_free_chain drv c s = Some (True, s') \<and> to s f s'
    \<and> (\<forall>x \<in> fat_range s. fat_of s f x = (if x \<in> set cs then 0 else fat_of s (sec s) x))
    \<and> (\<forall>n. unat (root_start_sector s) \<le> unat n \<longrightarrow> f n = sec s n)"
  using assms
proof (induction cs arbitrary: c s)
  case Nil
  then have "\<not> c < 0xFFF8" by simp
  then show ?case using to_refl [OF Nil.prems(1)] by (subst fat16_free_chain.simps) auto
next
  case (Cons x cs)
  have x: "x = c" "2 \<le> c" "c < 0xFFF8" "c \<in> fat_range s" and rest: "fat_chain (fat_range s) (fat_of s (sec s)) (fat_of s (sec s) c) cs"
    using Cons.prems(3) by simp_all
  obtain s1 where n: "fat16_next_cluster drv c s = (fat_of s (sec s) c, s1)" "to s (sec s) s1" using next_cluster_to [OF Cons.prems(1)] .
  note d1 = leads_toD [OF n(2)] and e1 = fat_leads_to [OF n(2)]
  have p1: "works (fat16_disk s1)" "fat16_layout s1" "c \<in> fat_range s1" using d1(5) leads_to_layout [OF n(2)] Cons.prems(2) x(4) e1(2) by simp_all
  let ?g = "set_fat s {0 ..< copies_of s} c 0 (sec s)"
  obtain s2 where "fat16_set_cluster drv c 0 s1 = (True, s2)" "to s1 (set_fat s1 {0 ..< copies_of s1} c 0 (sec s1)) s2"
    using set_cluster_to [OF p1] .
  then have w: "fat16_set_cluster drv c 0 s1 = (True, s2)" "to s ?g s2"
    using leads_to_trans [OF n(2)] d1(1,6) e1(3) by simp_all
  note d2 = leads_toD [OF w(2)] and e2 = fat_leads_to [OF w(2)]
  have fat2: "fat_of s ?g y = (if y = c then 0 else fat_of s (sec s) y)" if "y \<in> fat_range s" for y
    by (rule fat_of_set [OF Cons.prems(2) x(4) that sec_length [OF Cons.prems(1)]])
  have cn: "c \<notin> set cs" using fat_chain_distinct [OF Cons.prems(3)] x(1) by simp
  have "fat_chain (fat_range s) (fat_of s ?g) (fat_of s (sec s) c) cs"
    by (subst fat_chain_cong [of cs _ "fat_of s (sec s)"]) (use fat2 fat_chain_set [OF rest] cn rest in auto)
  then have "fat_chain (fat_range s2) (fat_of s2 (sec s2)) (fat_of s (sec s) c) cs" using d2(6) e2 by simp
  then obtain s' f where s': "fat16_free_chain drv (fat_of s (sec s) c) s2 = Some (True, s')" "to s2 f s'"
    "\<And>y. y \<in> fat_range s2 \<Longrightarrow> fat_of s2 f y = (if y \<in> set cs then 0 else fat_of s2 (sec s2) y)"
    "\<And>n. unat (root_start_sector s2) \<le> unat n \<Longrightarrow> f n = sec s2 n"
    using Cons.IH [OF d2(5)] leads_to_layout [OF w(2)] Cons.prems(2) by blast
  have "fat_of s f y = (if y \<in> set (x # cs) then 0 else fat_of s (sec s) y)" if "y \<in> fat_range s" for y
    using s'(3) [of y] that fat2 [OF that] x(1) unfolding e2 d2(6) by auto
  moreover have "f m = sec s m" if "unat (root_start_sector s) \<le> unat m" for m
    using s'(4) [of m] that set_fat_other [OF Cons.prems(2) x(4) that] unfolding d2(2,6) by simp
  moreover have "fat16_free_chain drv c s = Some (True, s')"
    using x(2,3) n(1) w(1) s'(1) by (subst fat16_free_chain.simps) simp
  ultimately show ?case using leads_to_trans [OF w(2) s'(2)] by blast
qed

text \<open>Allocating the first free cluster of a list.\<close>

lemma allocate_from_to:
  assumes "works (fat16_disk s)" "fat16_layout s" "\<forall>k \<in> set ks. k < 0xFFF0 \<and> 2 \<le> k \<and> of_nat k \<in> fat_range s"
  shows "\<exists>c s'. allocate_from drv ks s = (c, s')
    \<and> (c = 0 \<and> to s (sec s) s' \<and> (\<forall>k \<in> set ks. fat_of s (sec s) (of_nat k) \<noteq> 0)
       \<or> c \<in> of_nat ` set ks \<and> fat_of s (sec s) c = 0 \<and> to s (set_fat s {0 ..< copies_of s} c 0xFFFF (sec s)) s')"
  using assms
proof (induction ks arbitrary: s)
  case Nil
  then show ?case using to_refl by simp
next
  case (Cons k ks)
  obtain s1 where n: "fat16_next_cluster drv (of_nat k) s = (fat_of s (sec s) (of_nat k), s1)" "to s (sec s) s1"
    using next_cluster_to [OF Cons.prems(1)] .
  note d1 = leads_toD [OF n(2)] and e1 = fat_leads_to [OF n(2)]
  show ?case
  proof (cases "fat_of s (sec s) (of_nat k) = 0")
    case True
    have "works (fat16_disk s1)" "fat16_layout s1" "(of_nat k :: u16) \<in> fat_range s1"
      using d1(5) leads_to_layout [OF n(2)] Cons.prems(2,3) e1(2) by simp_all
    then obtain s2 where "fat16_set_cluster drv (of_nat k) 0xFFFF s1 = (True, s2)"
      "to s1 (set_fat s1 {0 ..< copies_of s1} (of_nat k) 0xFFFF (sec s1)) s2"
      using set_cluster_to by blast
    then show ?thesis using True n(1) leads_to_trans [OF n(2)] d1(1,6) e1(3) by simp
  next
    case False
    have "\<exists>c s'. allocate_from drv ks s1 = (c, s')
      \<and> (c = 0 \<and> to s1 (sec s1) s' \<and> (\<forall>k \<in> set ks. fat_of s1 (sec s1) (of_nat k) \<noteq> 0)
       \<or> c \<in> of_nat ` set ks \<and> fat_of s1 (sec s1) c = 0 \<and> to s1 (set_fat s1 {0 ..< copies_of s1} c 0xFFFF (sec s1)) s')"
      by (rule Cons.IH) (use d1(5) leads_to_layout [OF n(2)] Cons.prems e1(2) in auto)
    then show ?thesis using False n(1) leads_to_trans [OF n(2)] d1(1,6) e1 by auto
  qed
qed

lemma allocatable:
  assumes "k \<in> set [2 ..< min (spf_of s * 256) 0xFFF0]"
  shows "k < 0xFFF0 \<and> 2 \<le> k \<and> (of_nat k :: u16) \<in> fat_range s" "unat (of_nat k :: u16) = k"
proof -
  show u: "unat (of_nat k :: u16) = k" using assms by (simp add: unat_of_nat)
  show "k < 0xFFF0 \<and> 2 \<le> k \<and> (of_nat k :: u16) \<in> fat_range s" using assms u by (simp add: fat_range_def mult.commute)
qed

lemma allocate_cluster_to:
  assumes "works (fat16_disk s)" "fat16_layout s"
  shows "\<exists>c s'. fat16_allocate_cluster drv s = (c, s')
    \<and> (c = 0 \<and> to s (sec s) s' \<and> free_clusters s (sec s) = []
       \<or> 2 \<le> c \<and> c < 0xFFF0 \<and> c \<in> fat_range s \<and> fat_of s (sec s) c = 0
         \<and> to s (set_fat s {0 ..< copies_of s} c 0xFFFF (sec s)) s')"
proof -
  have "\<forall>k \<in> set [2 ..< min (spf_of s * 256) 0xFFF0]. k < 0xFFF0 \<and> 2 \<le> k \<and> (of_nat k :: u16) \<in> fat_range s"
    using allocatable(1) by blast
  note a = allocate_from_to [OF assms this]
  have "2 \<le> c \<and> c < 0xFFF0 \<and> c \<in> fat_range s" if c: "c \<in> of_nat ` set [2 ..< min (spf_of s * 256) 0xFFF0]" for c :: u16
  proof -
    obtain k where k: "k \<in> set [2 ..< min (spf_of s * 256) 0xFFF0]" "c = of_nat k" using c by (rule imageE)
    then show ?thesis using allocatable [OF k(1)] unfolding k(2) word_le_nat_alt word_less_nat_alt by simp
  qed
  then show ?thesis using a unfolding fat16_allocate_cluster_def free_clusters_def filter_empty_conv by blast
qed

text \<open>What allocating a chain gives: the clusters \<open>new\<close> were free and are linked behind \<open>old\<close>, or it failed and \<open>old\<close>
  is freed.\<close>

definition allocated ::
  "'d fat16_state \<Rightarrow> (u32 \<Rightarrow> bytes) \<Rightarrow> u16 list \<Rightarrow> nat \<Rightarrow> u16 \<Rightarrow> (u32 \<Rightarrow> bytes) \<Rightarrow> bool" where
  "allocated s g old n r f \<longleftrightarrow>
     (\<forall>m. unat (root_start_sector s) \<le> unat m \<longrightarrow> f m = g m)
     \<and> (r = 0 \<and> length (free_clusters s g) < n
          \<and> (\<forall>x \<in> fat_range s. fat_of s f x = (if x \<in> set old then 0 else fat_of s g x))
        \<or> r \<noteq> 0 \<and> (\<exists>new. length new = n \<and> (\<forall>x \<in> set new. fat_of s g x = 0 \<and> x < 0xFFF0)
            \<and> fat_chain (fat_range s) (fat_of s f) r (old @ new)
            \<and> (\<forall>x \<in> fat_range s - set (old @ new). fat_of s f x = fat_of s g x)))"

lemma allocated_step:
  assumes "x \<notin> set old" "fat_of s g x = 0" "x < 0xFFF0" "fat_of s gn x \<noteq> 0"
    and "\<And>y. y \<in> fat_range s \<Longrightarrow> y \<notin> set old \<Longrightarrow> y \<noteq> x \<Longrightarrow> fat_of s gn y = fat_of s g y"
    and "\<And>y. y \<in> set old \<Longrightarrow> fat_of s gn y \<noteq> 0" "\<And>y. y \<in> set old \<Longrightarrow> fat_of s g y \<noteq> 0"
    and "\<And>m. unat (root_start_sector s) \<le> unat m \<Longrightarrow> gn m = g m"
    and al: "allocated s gn (old @ [x]) n r f"
  shows "allocated s g old (Suc n) r f"
proof (cases "r = 0")
  case True
  have "length (free_clusters s g) \<le> Suc (length (free_clusters s gn))"
    unfolding free_clusters_def
  proof (rule length_filter_but_one [where x = "unat x"])
    fix k assume k: "k \<in> set [2 ..< min (spf_of s * 256) 0xFFF0]" "fat_of s g (of_nat k) = 0" "k \<noteq> unat x"
    note a = allocatable [OF k(1)]
    have "(of_nat k :: u16) \<noteq> x" using a(2) k(3) by metis
    moreover have "of_nat k \<notin> set old" using k(2) assms(7) by blast
    ultimately show "fat_of s gn (of_nat k) = 0" using assms(5) a(1) k(2) by simp
  qed simp
  then show ?thesis using True al assms(1,2,5,8) by (auto simp: allocated_def)
next
  case False
  then obtain new where new: "length new = n" "\<And>y. y \<in> set new \<Longrightarrow> fat_of s gn y = 0 \<and> y < 0xFFF0"
    "fat_chain (fat_range s) (fat_of s f) r ((old @ [x]) @ new)"
    "\<And>y. y \<in> fat_range s - set ((old @ [x]) @ new) \<Longrightarrow> fat_of s f y = fat_of s gn y"
    using al unfolding allocated_def by blast
  have "fat_of s g y = 0 \<and> y < 0xFFF0" if "y \<in> set (x # new)" for y
  proof (cases "y = x")
    case y: False
    then have "y \<in> fat_range s" "fat_of s gn y = 0" "y < 0xFFF0" using that new(2) fat_chain_set [OF new(3), of y] by auto
    moreover have "y \<notin> set old" using assms(6) calculation(2) by blast
    ultimately show ?thesis using assms(5) y by simp
  qed (use assms(2,3) in simp)
  moreover have "fat_chain (fat_range s) (fat_of s f) r (old @ x # new)" using new(3) by simp
  moreover have "fat_of s f y = fat_of s g y" if "y \<in> fat_range s - set (old @ x # new)" for y
    using new(4) [of y] assms(5) that by auto
  moreover have "f m = g m" if "unat (root_start_sector s) \<le> unat m" for m
    using al assms(8) that by (simp add: allocated_def)
  ultimately show ?thesis using False new(1) unfolding allocated_def by (metis length_Cons)
qed

lemma allocated_leads_to:
  assumes "leads_to content works s f0 s'"
  shows "allocated s' = allocated s"
  using leads_toD(1,2) [OF assms] fat_leads_to(1,2) [OF assms] by (intro ext) (simp only: allocated_def free_clusters_def)

lemma allocate_chain_from_to:
  assumes "works (fat16_disk s)" "fat16_layout s"
    and "old = [] \<and> c = 0 \<and> prev = 0 \<and> 0 < n \<or> old \<noteq> [] \<and> c \<noteq> 0 \<and> prev = last old \<and> fat_chain (fat_range s) (fat_of s (sec s)) c old"
  shows "\<exists>r s' f. allocate_chain_from drv n c prev s = Some (r, s') \<and> to s f s' \<and> allocated s (sec s) old n r f"
  using assms
proof (induction n arbitrary: s old c prev)
  case 0
  then have "allocated s (sec s) old 0 c (sec s)" by (auto simp: allocated_def)
  then show ?case using to_refl [OF 0(1)] by auto
next
  case (Suc n)
  obtain x s1 where a: "fat16_allocate_cluster drv s = (x, s1)"
    "x = 0 \<and> to s (sec s) s1 \<and> free_clusters s (sec s) = [] \<or> 2 \<le> x \<and> x < 0xFFF0 \<and> x \<in> fat_range s \<and> fat_of s (sec s) x = 0
         \<and> to s (set_fat s {0 ..< copies_of s} x 0xFFFF (sec s)) s1"
    using allocate_cluster_to [OF Suc.prems(1,2)] by blast
  show ?case
  proof (cases "x = 0")
    case True
    then have t: "to s (sec s) s1" and no: "free_clusters s (sec s) = []" using a(2) by auto
    note d1 = leads_toD [OF t] and e1 = fat_leads_to [OF t]
    show ?thesis
    proof (cases "old = []")
      case True
      then have "allocated s (sec s) old (Suc n) 0 (sec s)" using no by (simp add: allocated_def)
      then show ?thesis using True \<open>x = 0\<close> Suc.prems(3) a(1) t by auto
    next
      case False
      then have "fat_chain (fat_range s1) (fat_of s1 (sec s1)) c old" using Suc.prems(3) d1(6) e1 by simp
      then obtain s2 f where f: "fat16_free_chain drv c s1 = Some (True, s2)" "to s1 f s2"
        "\<forall>x \<in> fat_range s1. fat_of s1 f x = (if x \<in> set old then 0 else fat_of s1 (sec s1) x)"
        "\<forall>n. unat (root_start_sector s1) \<le> unat n \<longrightarrow> f n = sec s1 n"
        using free_chain_to [OF d1(5)] leads_to_layout [OF t] Suc.prems(2) by blast
      then have "allocated s (sec s) old (Suc n) 0 f" using d1 e1 no by (simp add: allocated_def)
      then show ?thesis using False \<open>x = 0\<close> Suc.prems(3) a(1) f(1) leads_to_trans [OF t f(2)] by auto
    qed
  next
    case False
    then have x: "2 \<le> x" "x < 0xFFF0" "x \<in> fat_range s" "fat_of s (sec s) x = 0"
      and t: "to s (set_fat s {0 ..< copies_of s} x 0xFFFF (sec s)) s1" using a(2) by auto
    have x8: "x < 0xFFF8" using x(2) by (simp add: word_less_nat_alt)
    let ?g = "set_fat s {0 ..< copies_of s} x 0xFFFF (sec s)"
    note d1 = leads_toD [OF t] and e1 = fat_leads_to [OF t]
    have fat1: "fat_of s ?g y = (if y = x then 0xFFFF else fat_of s (sec s) y)" if "y \<in> fat_range s" for y
      by (rule fat_of_set [OF Suc.prems(2) x(3) that sec_length [OF Suc.prems(1)]])
    have lay1: "fat16_layout s1" using leads_to_layout [OF t] Suc.prems(2) by simp
    show ?thesis
    proof (cases "old = []")
      case True
      then have z: "c = 0" "prev = 0" using Suc.prems(3) by auto
      have "fat_chain (fat_range s1) (fat_of s1 (sec s1)) x [x]" using x x8 fat1 d1(6) e1 by simp
      then obtain r s' f where i: "allocate_chain_from drv n x x s1 = Some (r, s')" "to s1 f s'" "allocated s1 (sec s1) [x] n r f"
        using Suc.IH [OF d1(5) lay1, of "[x]" x x] False by auto
      have "allocated s (sec s) old (Suc n) r f"
      proof (rule allocated_step [where gn = ?g and x = x])
        show "allocated s ?g (old @ [x]) n r f" using i(3) True allocated_leads_to [OF t] d1(6) by simp
      qed (use True x fat1 set_fat_other [OF Suc.prems(2) x(3)] in auto)
      then show ?thesis using True z False a(1) i(1) leads_to_trans [OF t i(2)] by (auto simp: Let_def)
    next
      case old: False
      then have c: "c \<noteq> 0" "prev = last old" and ch: "fat_chain (fat_range s) (fat_of s (sec s)) c old" using Suc.prems(3) by auto
      have l: "last old \<in> set old" using old by simp
      have "2 \<le> prev" "prev \<in> fat_range s" using fat_chain_set [OF ch l] c(2) by simp_all
      then have pr: "prev \<noteq> 0" "prev \<in> fat_range s" by (auto simp: word_le_nat_alt)
      have xo: "x \<notin> set old" using fat_chain_used [OF ch] x(4) by blast
      have "prev \<in> fat_range s1" using pr(2) e1 by simp
      then obtain s2 where "fat16_set_cluster drv prev x s1 = (True, s2)"
        "to s1 (set_fat s1 {0 ..< copies_of s1} prev x (sec s1)) s2" using set_cluster_to [OF d1(5) lay1] by blast
      then have w: "fat16_set_cluster drv prev x s1 = (True, s2)" "to s1 (set_fat s {0 ..< copies_of s} prev x ?g) s2"
        using d1(1,6) e1(3) by simp_all
      let ?h = "set_fat s {0 ..< copies_of s} prev x ?g"
      note t2 = leads_to_trans [OF t w(2)]
      note d2 = leads_toD [OF t2] and e2 = fat_leads_to [OF t2]
      have g: "length (?g n) = 512" for n by (rule set_fat_length [OF sec_length [OF Suc.prems(1)]])
      have fat2: "fat_of s ?h y = (if y = prev then x else if y = x then 0xFFFF else fat_of s (sec s) y)" if "y \<in> fat_range s" for y
        using fat_of_set [OF Suc.prems(2) pr(2) that g] fat1 [OF that] by simp
      have "fat_chain (fat_range s) (fat_of s ?h) c (old @ [x])"
        by (rule fat_chain_snoc [OF ch old xo x(1) x8 x(3)])
          (use fat2 pr c(2) x(3) xo l fat_chain_set [OF ch] in auto)
      then have "fat_chain (fat_range s2) (fat_of s2 (sec s2)) c (old @ [x])" using d2(6) e2 by simp
      then obtain r s' f where i: "allocate_chain_from drv n c x s2 = Some (r, s')" "to s2 f s'" "allocated s2 (sec s2) (old @ [x]) n r f"
        using Suc.IH [OF d2(5), of "old @ [x]" c x] c(1) leads_to_layout [OF t2] Suc.prems(2) by auto
      have x0: "x \<noteq> 0" using x(1) by (auto simp: word_le_nat_alt)
      have "allocated s (sec s) old (Suc n) r f"
      proof (rule allocated_step [where gn = ?h and x = x])
        show "allocated s ?h (old @ [x]) n r f" using i(3) allocated_leads_to [OF t2] d2(6) by simp
        show "fat_of s ?h y \<noteq> 0" if "y \<in> set old" for y
          using that fat2 [of y] fat_chain_set [OF ch that] fat_chain_used [OF ch that] x0 by auto
        show "fat_of s (sec s) y \<noteq> 0" if "y \<in> set old" for y by (rule fat_chain_used [OF ch that])
        show "fat_of s ?h x \<noteq> 0" using fat2 [OF x(3)] x0 by auto
        show "?h m = sec s m" if "unat (root_start_sector s) \<le> unat m" for m
          using set_fat_other [OF Suc.prems(2) pr(2) that] set_fat_other [OF Suc.prems(2) x(3) that] by simp
        show "fat_of s ?h y = fat_of s (sec s) y" if "y \<in> fat_range s" "y \<notin> set old" "y \<noteq> x" for y
          using fat2 [OF that(1)] that l c(2) by auto
      qed (use x xo in auto)
      then show ?thesis using c(1) pr(1) False a(1) w(1) i(1) leads_to_trans [OF t2 i(2)] by (auto simp: Let_def)
    qed
  qed
qed

end

end
