(* ===== verification/Fat16_Data.thy ===== *)
theory Fat16_Data
  imports Fat16_Chains
begin

text \<open>
  The sectors of a cluster chain: writing a buffer to a chain and reading it back.
\<close>

definition chain_sectors :: "'d fat16_state \<Rightarrow> u16 list \<Rightarrow> u32 list" where
  "chain_sectors s cs = concat (map (\<lambda>c. cluster_sectors c s) cs)"

lemma chain_sectors_simps [simp]:
  "chain_sectors s [] = []" "chain_sectors s (c # cs) = cluster_sectors c s @ chain_sectors s cs"
  by (simp_all add: chain_sectors_def)

lemma length_chain_sectors: "length (chain_sectors s cs) = spc_of s * length cs"
  by (induction cs) (simp_all add: cluster_sectors_def)

lemma chain_sectors_leads_to: "leads_to content works s f s' \<Longrightarrow> chain_sectors s' = chain_sectors s"
  using leads_toD(8) [of content works s f s'] by (simp add: chain_sectors_def fun_eq_iff)

lemma cluster_sector_unat:
  assumes "fat16_layout s" "2 \<le> c" "k < spc_of s"
  shows "unat (cluster_sector_number c k s) = unat (data_start_sector s) + (unat c - 2) * spc_of s + k"
proof -
  have c2: "2 \<le> unat c" using assms(2) by (simp add: word_le_nat_alt)
  have sp: "spc_of s \<le> 255" "unat c \<le> 65535"
    using small_words(2) [of "sectors_per_cluster (bpb s)"] small_words(1) [of c] by linarith+
  have "(unat c - 2) * spc_of s \<le> 65533 * 255" by (rule mult_le_mono) (use sp in linarith)+
  then have m: "(unat c - 2) * spc_of s \<le> 16710915" by simp
  have "(2 :: u32) \<le> ucast c" using c2 by (simp add: word_le_nat_alt small_words)
  then have u: "unat (ucast c - 2 :: u32) = unat c - 2" by (simp add: unat_sub small_words)
  have w: "unat ((ucast c - 2) * ucast (sectors_per_cluster (bpb s)) :: u32) = (unat c - 2) * spc_of s"
    using m u by (subst unat_mult_32) (simp_all add: small_words)
  have d: "unat (data_start_sector s) < 33554432" using layout_numbers(6) [OF assms(1)] by simp
  have a: "unat (data_start_sector s + (ucast c - 2) * ucast (sectors_per_cluster (bpb s)))
      = unat (data_start_sector s) + (unat c - 2) * spc_of s"
    using m d by (subst unat_add_32) (simp_all add: w)
  have k: "unat (of_nat k :: u32) = k" using assms(3) sp by (simp add: unat_of_nat)
  show ?thesis using m d assms(3) sp unfolding cluster_sector_number_def by (subst unat_add_32) (simp_all add: a k)
qed

lemma cluster_sectors_set:
  assumes "fat16_layout s" "2 \<le> c" "n \<in> set (cluster_sectors c s)"
  shows "\<exists>k < spc_of s. unat n = unat (data_start_sector s) + (unat c - 2) * spc_of s + k"
  using assms cluster_sector_unat by (fastforce simp: cluster_sectors_def)

text \<open>Sectors of clusters lie behind the tables and the root directory, and clusters do not share sectors.\<close>

lemma cluster_sectors_data:
  assumes "fat16_layout s" "2 \<le> c" "n \<in> set (cluster_sectors c s)"
  shows "unat (data_start_sector s) \<le> unat n"
  using cluster_sectors_set [OF assms] by auto

lemma cluster_sectors_apart:
  assumes "fat16_layout s" "2 \<le> c" "2 \<le> c'" "n \<in> set (cluster_sectors c s)" "n \<in> set (cluster_sectors c' s)"
  shows "c = c'"
proof -
  obtain k k' where k: "k < spc_of s" "unat n = unat (data_start_sector s) + (unat c - 2) * spc_of s + k"
    "k' < spc_of s" "unat n = unat (data_start_sector s) + (unat c' - 2) * spc_of s + k'"
    using cluster_sectors_set [OF assms(1,2,4)] cluster_sectors_set [OF assms(1,3,5)] by blast
  have "unat c - 2 = ((unat c - 2) * spc_of s + k) div spc_of s" "unat c' - 2 = ((unat c' - 2) * spc_of s + k') div spc_of s"
    using k(1,3) by simp_all
  moreover have "(unat c - 2) * spc_of s + k = (unat c' - 2) * spc_of s + k'" using k(2,4) by simp
  ultimately have "unat c - 2 = unat c' - 2" by simp
  then show ?thesis using assms(2,3) by (simp add: word_le_nat_alt word_unat_eq_iff)
qed

lemma chain_sectors_in: "n \<in> set (chain_sectors s cs) \<longleftrightarrow> (\<exists>c \<in> set cs. n \<in> set (cluster_sectors c s))"
  by (simp add: chain_sectors_def)

lemma distinct_cluster_sectors: "fat16_layout s \<Longrightarrow> 2 \<le> c \<Longrightarrow> distinct (cluster_sectors c s)"
  unfolding cluster_sectors_def distinct_map
proof (intro conjI distinct_upt inj_onI)
  fix k k'
  assume a: "fat16_layout s" "2 \<le> c" "k \<in> set [0 ..< spc_of s]" "k' \<in> set [0 ..< spc_of s]"
    and e: "cluster_sector_number c k s = cluster_sector_number c k' s"
  have "k < spc_of s" "k' < spc_of s" using a(3,4) by simp_all
  then have "unat (data_start_sector s) + (unat c - 2) * spc_of s + k = unat (data_start_sector s) + (unat c - 2) * spc_of s + k'"
    using cluster_sector_unat [OF a(1,2)] e by metis
  then show "k = k'" by simp
qed

lemma distinct_chain_sectors:
  "fat16_layout s \<Longrightarrow> distinct cs \<Longrightarrow> (\<And>c. c \<in> set cs \<Longrightarrow> 2 \<le> c) \<Longrightarrow> distinct (chain_sectors s cs)"
proof (induction cs)
  case (Cons c cs)
  have "n \<notin> set (chain_sectors s cs)" if "n \<in> set (cluster_sectors c s)" for n
  proof
    assume "n \<in> set (chain_sectors s cs)"
    then obtain c' where "c' \<in> set cs" "n \<in> set (cluster_sectors c' s)" unfolding chain_sectors_in by blast
    then have "c = c'" "c' \<in> set cs" using cluster_sectors_apart [OF Cons.prems(1) _ _ that] Cons.prems(3) by auto
    then show False using Cons.prems(2) by simp
  qed
  moreover have "distinct (cluster_sectors c s)" by (rule distinct_cluster_sectors [OF Cons.prems(1)]) (simp add: Cons.prems(3))
  moreover have "distinct (chain_sectors s cs)" using Cons.IH Cons.prems by simp
  ultimately show ?case by auto
qed simp

text \<open>The table does not depend on the sectors behind it.\<close>

lemma fat_of_cong:
  assumes "fat16_layout s" "c \<in> fat_range s" "\<And>n. unat n < unat (root_start_sector s) \<Longrightarrow> f n = g n"
  shows "fat_of s f c = fat_of s g c"
  using fat_sector_number(3) [OF assms(1,2) layout_numbers(2) [OF assms(1)]] assms(3) by (simp add: fat_of_def)

lemma fat_chain_sectors_cong:
  assumes "fat16_layout s" "fat_chain (fat_range s) (fat_of s g) c cs" "\<And>n. unat n < unat (root_start_sector s) \<Longrightarrow> f n = g n"
  shows "fat_chain (fat_range s) (fat_of s f) c cs"
proof -
  have "fat_of s f x = fat_of s g x" if "x \<in> set cs" for x
    by (rule fat_of_cong [OF assms(1)]) (use fat_chain_set [OF assms(2) that] assms(3) in auto)
  then show ?thesis using assms(2) fat_chain_cong [of cs "fat_of s f" "fat_of s g"] by simp
qed

section \<open>Writing\<close>

text \<open>A buffer from \<open>w\<close> on, in two parts.\<close>

lemma take_in_parts:
  assumes "length a = k" "w' = min (length b) (w + k)" "w \<le> length b"
    and "take (w' - w) a = take (w' - w) (drop w b)" "take (length b - w') r = drop w' b"
  shows "take (length b - w) (a @ r) = drop w b"
proof (cases "w + k \<le> length b")
  case True
  then have "w' = w + k" using assms(2) by simp
  then have "a = take k (drop w b)" "take (length b - (w + k)) r = drop (w + k) b" using assms(1,4,5) by simp_all
  moreover have "drop w b = take k (drop w b) @ drop (w + k) b" by (simp add: add.commute flip: drop_drop)
  ultimately show ?thesis using assms(1) by simp
next
  case False
  then show ?thesis using assms by simp
qed

context sector_disk
begin

lemma write_sectors_to:
  assumes "works (fat16_disk s)" "distinct ns" "w \<le> length buffer"
  shows "\<exists>w' s' f. write_sectors drv ns buffer w s = (True, w', s') \<and> to s f s' \<and> w' = min (length buffer) (w + 512 * length ns)
    \<and> (\<forall>n. n \<notin> set ns \<longrightarrow> f n = sec s n) \<and> take (w' - w) (concat (map f ns)) = take (w' - w) (drop w buffer)"
  using assms
proof (induction ns arbitrary: w s)
  case Nil
  then show ?case using to_refl by auto
next
  case (Cons n ns)
  show ?case
  proof (cases "w < length buffer")
    case False
    then show ?thesis using Cons.prems to_refl by auto
  next
    case True
    let ?c = "min (length buffer - w) 512"
    let ?d = "take ?c (drop w buffer) @ replicate (512 - ?c) 0"
    have ld: "length (take ?c (drop w buffer)) = ?c" by simp
    then have "length ?d = 512" by simp
    then obtain s1 where w1: "fat16_write_sector drv n ?d s = (True, s1)" "to s ((sec s)(n := ?d)) s1"
      using sector_written [OF Cons.prems(1)] by blast
    note d1 = leads_toD [OF w1(2)]
    have "w + ?c \<le> length buffer" using True by simp
    then obtain w' s' f where i: "write_sectors drv ns buffer (w + ?c) s1 = (True, w', s')" "to s1 f s'"
      "w' = min (length buffer) (w + ?c + 512 * length ns)" "\<And>m. m \<notin> set ns \<Longrightarrow> f m = sec s1 m"
      "take (w' - (w + ?c)) (concat (map f ns)) = take (w' - (w + ?c)) (drop (w + ?c) buffer)"
      using Cons.IH [OF d1(5)] Cons.prems(2) by fastforce
    have w': "w' = min (length buffer) (w + 512 * length (n # ns))" "w + ?c \<le> w'" using i(3) True by auto
    have fn: "f n = ?d" using i(4) [of n] Cons.prems(2) d1(6) by simp
    have "take (w' - w) (concat (map f (n # ns))) = take (w' - w) (drop w buffer)"
    proof (cases "length buffer - w \<le> 512")
      case True
      then have "?c = length buffer - w" "w' - w = length buffer - w" using w' \<open>w < length buffer\<close> by auto
      then show ?thesis by (simp add: fn)
    next
      case big: False
      then have c: "?c = 512" by simp
      have "take (w' - w) (drop w buffer) = take 512 (drop w buffer) @ take (w' - (w + 512)) (drop (w + 512) buffer)"
        using w'(2) c take_add [of 512 "w' - (w + 512)" "drop w buffer"] by (simp add: add.commute)
      moreover have "take (w' - w) (concat (map f (n # ns))) = take 512 (drop w buffer) @ take (w' - (w + 512)) (concat (map f ns))"
        using w'(2) c big by (simp add: fn)
      ultimately show ?thesis using i(5) c by simp
    qed
    moreover have "f m = sec s m" if "m \<notin> set (n # ns)" for m using i(4) [of m] that d1(6) by simp
    ultimately show ?thesis using True w1(1) i(1) w'(1) leads_to_trans [OF w1(2) i(2)] by (auto simp: Let_def)
  qed
qed

lemma write_chain_to:
  assumes "works (fat16_disk s)" "fat16_layout s" "fat_chain (fat_range s) (fat_of s (sec s)) c cs"
    "w \<le> length buffer" "length buffer - w \<le> 512 * length (chain_sectors s cs)"
  shows "\<exists>s' f. write_chain_from drv c buffer w s = Some (True, s') \<and> to s f s'
    \<and> (\<forall>n. n \<notin> set (chain_sectors s cs) \<longrightarrow> f n = sec s n)
    \<and> take (length buffer - w) (concat (map f (chain_sectors s cs))) = drop w buffer"
  using assms
proof (induction cs arbitrary: c w s)
  case Nil
  then show ?case using to_refl by (subst write_chain_from.simps) auto
next
  case (Cons x cs)
  have x: "x = c" "2 \<le> c" "c < 0xFFF8" "c \<in> fat_range s" and rest: "fat_chain (fat_range s) (fat_of s (sec s)) (fat_of s (sec s) c) cs"
    using Cons.prems(3) by simp_all
  show ?case
  proof (cases "w < length buffer")
    case False
    then show ?thesis using Cons.prems(1,4) to_refl by (subst write_chain_from.simps) auto
  next
    case True
    let ?ns = "cluster_sectors c s"
    obtain w' s1 f1 where w1: "write_sectors drv ?ns buffer w s = (True, w', s1)" "to s f1 s1"
      "w' = min (length buffer) (w + 512 * length ?ns)" "\<And>n. n \<notin> set ?ns \<Longrightarrow> f1 n = sec s n"
      "take (w' - w) (concat (map f1 ?ns)) = take (w' - w) (drop w buffer)"
      using write_sectors_to [OF Cons.prems(1) distinct_cluster_sectors [OF Cons.prems(2) x(2)] Cons.prems(4)] by blast
    note d1 = leads_toD [OF w1(2)] and e1 = fat_leads_to [OF w1(2)]
    have low: "f1 n = sec s n" if "unat n < unat (root_start_sector s)" for n
      using that w1(4) [of n] cluster_sectors_data [OF Cons.prems(2) x(2), of n] layout_numbers(5) [OF Cons.prems(2)] by fastforce
    have fc: "fat_of s f1 c = fat_of s (sec s) c" by (rule fat_of_cong [OF Cons.prems(2) x(4) low])
    obtain s2 where n: "fat16_next_cluster drv c s1 = (fat_of s (sec s) c, s2)" "to s1 (sec s1) s2"
      using next_cluster_to [OF d1(5), of c] e1(1) d1(6) fc by metis
    have t2: "to s f1 s2" using leads_to_trans [OF w1(2) n(2)] d1(6) by simp
    note d2 = leads_toD [OF t2] and e2 = fat_leads_to [OF t2]
    have cs2: "chain_sectors s2 = chain_sectors s" by (rule chain_sectors_leads_to [OF t2])
    have ch2: "fat_chain (fat_range s2) (fat_of s2 (sec s2)) (fat_of s (sec s) c) cs"
      using fat_chain_sectors_cong [OF Cons.prems(2) rest low] e2 d2(6) by simp
    have le: "w' \<le> length buffer" "length buffer - w' \<le> 512 * length (chain_sectors s2 cs)"
      using w1(3) Cons.prems(5) x(1) unfolding cs2 by (auto simp: algebra_simps)
    have lay2: "fat16_layout s2" using leads_to_layout [OF t2] Cons.prems(2) by simp
    obtain s' f where i: "write_chain_from drv (fat_of s (sec s) c) buffer w' s2 = Some (True, s')" "to s2 f s'"
      "\<And>n. n \<notin> set (chain_sectors s cs) \<Longrightarrow> f n = f1 n"
      "take (length buffer - w') (concat (map f (chain_sectors s cs))) = drop w' buffer"
      using Cons.IH [OF d2(5) lay2 ch2 le] unfolding cs2 d2(6) by blast
    have dis: "distinct (chain_sectors s (x # cs))"
      by (rule distinct_chain_sectors [OF Cons.prems(2) fat_chain_distinct [OF Cons.prems(3)]])
        (use fat_chain_set [OF Cons.prems(3)] in blast)
    have m: "map f ?ns = map f1 ?ns" using i(3) dis x(1) by (intro map_cong) auto
    have k: "length (concat (map f1 ?ns)) = 512 * length ?ns"
      by (subst length_concat_chunks [where n = 512]) (use to_length [OF w1(2)] in auto)
    have "take (length buffer - w) (concat (map f (chain_sectors s (x # cs)))) = drop w buffer"
      using take_in_parts [OF k w1(3) Cons.prems(4) w1(5) i(4)]
      by (simp only: chain_sectors_simps map_append concat_append m x(1))
    moreover have "f n = sec s n" if "n \<notin> set (chain_sectors s (x # cs))" for n
      using that i(3) [of n] w1(4) [of n] x(1) by simp
    moreover have "write_chain_from drv c buffer w s = Some (True, s')"
      using True x(2,3) w1(1) n(1) i(1) by (subst write_chain_from.simps) simp
    ultimately show ?thesis using leads_to_trans [OF t2 i(2)] by blast
  qed
qed

end

section \<open>Reading\<close>

text \<open>The bytes of a file with a chain of clusters: those of the chain up to the size.\<close>

definition chain_bytes :: "'d fat16_state \<Rightarrow> (u32 \<Rightarrow> bytes) \<Rightarrow> u16 list \<Rightarrow> bytes" where
  "chain_bytes s f cs = concat (map f (chain_sectors s cs))"

lemma append_take_length: "length copied \<le> lim \<Longrightarrow> length (copied @ take (lim - length copied) a) \<le> lim"
  by simp

lemma append_take_step:
  assumes "length copied \<le> lim"
  shows "(copied @ take (lim - length copied) a) @ take (lim - length (copied @ take (lim - length copied) a)) r
    = copied @ take (lim - length copied) (a @ r)"
  using assms by (cases "length a \<le> lim - length copied") simp_all

context sector_disk
begin

lemma read_sectors_to:
  assumes "works (fat16_disk s)" "length copied \<le> min size_limit capacity"
  shows "\<exists>s'. read_sectors drv ns size_limit capacity copied s
      = (True, copied @ take (min size_limit capacity - length copied) (concat (map (sec s) ns)), s') \<and> to s (sec s) s'"
  using assms
proof (induction ns arbitrary: copied s)
  case Nil
  then show ?case using to_refl by auto
next
  case (Cons n ns)
  let ?lim = "min size_limit capacity"
  show ?case
  proof (cases "length copied < ?lim")
    case False
    then show ?thesis using Cons.prems to_refl by auto
  next
    case True
    obtain s1 where r: "fat16_read_sector drv n s = (Some (sec s n), s1)" "to s (sec s) s1" using sector_read [OF Cons.prems(1)] .
    note d1 = leads_toD [OF r(2)]
    let ?copied = "copied @ take (?lim - length copied) (sec s n)"
    have c: "min (min (size_limit - length copied) 512) (capacity - length copied) = min (?lim - length copied) 512" by linarith
    have "take (min (min (size_limit - length copied) 512) (capacity - length copied)) (sec s n) = take (?lim - length copied) (sec s n)"
      unfolding c using sec_length [OF Cons.prems(1), of n] by (simp only: min_def split: if_split) simp
    moreover obtain s' where i: "read_sectors drv ns size_limit capacity ?copied s1
        = (True, ?copied @ take (?lim - length ?copied) (concat (map (sec s) ns)), s')" "to s1 (sec s) s'"
      using Cons.IH [OF d1(5) append_take_length [OF Cons.prems(2)]] unfolding d1(6) by blast
    moreover have "?copied @ take (?lim - length ?copied) (concat (map (sec s) ns))
        = copied @ take (?lim - length copied) (concat (map (sec s) (n # ns)))"
      using append_take_step [OF Cons.prems(2)] by simp
    moreover have "length copied < size_limit \<and> length copied < capacity" using True by simp
    ultimately have "read_sectors drv (n # ns) size_limit capacity copied s
        = (True, copied @ take (?lim - length copied) (concat (map (sec s) (n # ns))), s')"
      using r(1) by (simp only: read_sectors.simps simp_thms if_True prod.case option.case Let_def)
    then show ?thesis using leads_to_trans [OF r(2) i(2)] by blast
  qed
qed

lemma read_chain_to:
  assumes "works (fat16_disk s)" "fat16_layout s" "fat_chain (fat_range s) (fat_of s (sec s)) c cs"
    "length copied \<le> min size_limit capacity"
  shows "\<exists>s' out. read_chain drv c size_limit capacity copied s = Some ((of_nat (length out), out), s') \<and> to s (sec s) s'
    \<and> out = copied @ take (min size_limit capacity - length copied) (chain_bytes s (sec s) cs)"
  using assms
proof (induction cs arbitrary: c copied s)
  case Nil
  then show ?case using to_refl by (subst read_chain.simps) (auto simp: chain_bytes_def)
next
  case (Cons x cs)
  let ?lim = "min size_limit capacity"
  have x: "x = c" "c < 0xFFF8" and rest: "fat_chain (fat_range s) (fat_of s (sec s)) (fat_of s (sec s) c) cs"
    using Cons.prems(3) by simp_all
  show ?case
  proof (cases "length copied < ?lim")
    case False
    then show ?thesis using Cons.prems(1,4) to_refl by (subst read_chain.simps) auto
  next
    case True
    let ?ns = "cluster_sectors c s"
    let ?a = "concat (map (sec s) ?ns)"
    let ?copied = "copied @ take (?lim - length copied) ?a"
    obtain s1 where r: "read_sectors drv ?ns size_limit capacity copied s = (True, ?copied, s1)" "to s (sec s) s1"
      using read_sectors_to [OF Cons.prems(1,4)] by blast
    note d1 = leads_toD [OF r(2)]
    obtain s2 where n: "fat16_next_cluster drv c s1 = (fat_of s1 (sec s1) c, s2)" "to s1 (sec s1) s2" using next_cluster_to [OF d1(5)] .
    have t2: "to s (sec s) s2" using leads_to_trans [OF r(2) n(2)] d1(6) by simp
    note d2 = leads_toD [OF t2] and e2 = fat_leads_to [OF t2]
    have nx: "fat_of s1 (sec s1) c = fat_of s (sec s) c" using fat_leads_to(1) [OF r(2)] d1(6) by simp
    have lay2: "fat16_layout s2" using leads_to_layout [OF t2] Cons.prems(2) by simp
    have ch2: "fat_chain (fat_range s2) (fat_of s2 (sec s2)) (fat_of s (sec s) c) cs" using rest e2 d2(6) by simp
    have len: "length ?copied \<le> ?lim" by (rule append_take_length [OF Cons.prems(4)])
    obtain s' out where i: "read_chain drv (fat_of s (sec s) c) size_limit capacity ?copied s2 = Some ((of_nat (length out), out), s')"
      "to s2 (sec s) s'" "out = ?copied @ take (?lim - length ?copied) (chain_bytes s (sec s) cs)"
      using Cons.IH [OF d2(5) lay2 ch2 len] unfolding d2(6) chain_bytes_def chain_sectors_leads_to [OF t2] by blast
    have "out = copied @ take (?lim - length copied) (chain_bytes s (sec s) (x # cs))"
      unfolding i(3) chain_bytes_def chain_sectors_simps map_append concat_append x(1) by (rule append_take_step [OF Cons.prems(4)])
    moreover have "read_chain drv c size_limit capacity copied s = Some ((of_nat (length out), out), s')"
      using True x(2) r(1) n(1) nx i(1) by (subst read_chain.simps) simp
    ultimately show ?thesis using leads_to_trans [OF t2 i(2)] by blast
  qed
qed

end

end
