(* ===== verification/Fat16_Files.thy ===== *)
theory Fat16_Files
  imports Fat16_Data
begin

text \<open>
  Files in the root directory of a FAT16 volume: what is written is read back, other files keep their contents, and what
  happens on directories and chains that the code does not expect.
\<close>

section \<open>Directory entries\<close>

definition entry_ok :: "FAT16_DIRECTORY_ENTRY \<Rightarrow> bool" where
  "entry_ok e \<longleftrightarrow> length (fe_name e) = 11 \<and> length (fe_reserved e) = 14"

lemma entry_bytes_length: "entry_ok e \<Longrightarrow> length (entry_bytes e) = 32"
  by (simp add: entry_ok_def entry_bytes_def)

lemma directory_entry_take: "directory_entry i sector = directory_entry 0 (take 32 (drop (32 * i) sector))"
  if "32 * i + 32 \<le> length sector"
proof -
  let ?b = "drop (32 * i) sector"
  have t: "take 2 (drop 26 (take 32 ?b)) = take 2 (drop 26 ?b)" "take 4 (drop 28 (take 32 ?b)) = take 4 (drop 28 ?b)"
    "take 14 (drop 12 (take 32 ?b)) = take 14 (drop 12 ?b)" "take 11 (take 32 ?b) = take 11 ?b"
    by (simp_all only: drop_take take_take) (simp_all add: min_def)
  have n: "take 32 ?b ! 11 = ?b ! 11" by (rule nth_take) simp
  show ?thesis unfolding directory_entry_def Let_def u16_at_def u32_at_def mult_0_right drop_0 t n ..
qed

lemma directory_entry_bytes:
  assumes "entry_ok e"
  shows "directory_entry 0 (entry_bytes e) = e"
proof -
  have l: "length (fe_name e) = 11" "length (fe_reserved e) = 14" using assms by (simp_all add: entry_ok_def)
  have n: "entry_bytes e ! 11 = fe_attributes e" using l by (simp add: entry_bytes_def nth_append)
  have "u16_at 26 (entry_bytes e) = fe_first_cluster e" "u32_at 28 (entry_bytes e) = fe_size e"
    using l small_words(1) [of "fe_first_cluster e"] by (simp_all add: entry_bytes_def u16_at_def u32_at_def le_value_bytes)
  moreover have "take 11 (entry_bytes e) = fe_name e" "take 14 (drop 12 (entry_bytes e)) = fe_reserved e"
    using l by (simp_all add: entry_bytes_def)
  ultimately show ?thesis unfolding directory_entry_def Let_def mult_0_right drop_0 n by simp
qed

lemma directory_entry_put:
  assumes "entry_ok e" "length sector = 512" "i < 16" "k < 16"
  shows "directory_entry k (put_entry i e sector) = (if k = i then e else directory_entry k sector)"
    "length (put_entry i e sector) = 512"
proof -
  show l: "length (put_entry i e sector) = 512" using assms entry_bytes_length [OF assms(1)] by (simp add: put_entry_def)
  have lb: "32 * k + 32 \<le> length (put_entry i e sector)" "32 * k + 32 \<le> length sector" using assms l by simp_all
  show "directory_entry k (put_entry i e sector) = (if k = i then e else directory_entry k sector)"
  proof (cases "k = i")
    case True
    have "take 32 (drop (32 * i) (put_entry i e sector)) = entry_bytes e"
      using put_bytes_read [of "32 * i" "entry_bytes e" sector] assms(2,3) entry_bytes_length [OF assms(1)]
      by (simp add: put_entry_def)
    then show ?thesis using True directory_entry_take [OF lb(1)] directory_entry_bytes [OF assms(1)] by simp
  next
    case False
    then have "32 * k + 32 \<le> 32 * i \<or> 32 * i + length (entry_bytes e) \<le> 32 * k"
      unfolding entry_bytes_length [OF assms(1)] by linarith
    then have "take 32 (drop (32 * k) (put_entry i e sector)) = take 32 (drop (32 * k) sector)"
      unfolding put_entry_def by (intro put_bytes_other) (use assms(2,3) entry_bytes_length [OF assms(1)] in simp_all)
    then show ?thesis using False directory_entry_take [OF lb(1)] directory_entry_take [OF lb(2)] by simp
  qed
qed

section \<open>The root directory as a list\<close>

definition entries_of :: "(u32 \<Rightarrow> bytes) \<Rightarrow> u32 list \<Rightarrow> FAT16_DIRECTORY_ENTRY list" where
  "entries_of f ns = concat (map (\<lambda>n. map (\<lambda>i. directory_entry i (f n)) [0 ..< 16]) ns)"

lemma entries_of_simps [simp]:
  "entries_of f [] = []" "entries_of f (n # ns) = map (\<lambda>i. directory_entry i (f n)) [0 ..< 16] @ entries_of f ns"
  by (simp_all add: entries_of_def)

lemma length_entries_of [simp]: "length (entries_of f ns) = 16 * length ns"
  by (induction ns) simp_all

lemma nth_entries_of: "q < length ns \<Longrightarrow> i < 16 \<Longrightarrow> entries_of f ns ! (16 * q + i) = directory_entry i (f (ns ! q))"
proof (induction ns arbitrary: q)
  case (Cons n ns)
  then show ?case by (cases q) (simp_all add: nth_append)
qed simp

lemma entries_of_update:
  assumes "distinct ns" "q < length ns" "i < 16"
    and "\<And>k. k < 16 \<Longrightarrow> directory_entry k b = (if k = i then e else directory_entry k (f (ns ! q)))"
  shows "entries_of (f(ns ! q := b)) ns = (entries_of f ns)[16 * q + i := e]"
proof (rule nth_equalityI)
  fix j assume "j < length (entries_of (f(ns ! q := b)) ns)"
  then have j: "j div 16 < length ns" "j mod 16 < 16" "16 * (j div 16) + j mod 16 = j" by auto
  have jj: "entries_of g ns ! j = directory_entry (j mod 16) (g (ns ! (j div 16)))" for g
    using nth_entries_of [OF j(1,2)] unfolding j(3) .
  have "(16 * q + i) div 16 = q" "(16 * q + i) mod 16 = i" using assms(3) by simp_all
  then have "j = 16 * q + i \<longleftrightarrow> j div 16 = q \<and> j mod 16 = i" using j(3) by metis
  moreover have "ns ! (j div 16) = ns ! q \<longleftrightarrow> j div 16 = q" using assms(1,2) j(1) by (simp add: nth_eq_iff_index_eq)
  moreover have "16 * q + i < 16 * length ns" using assms(2,3) by simp
  ultimately show "entries_of (f(ns ! q := b)) ns ! j = (entries_of f ns)[16 * q + i := e] ! j"
    using assms(4) [OF j(2)] jj by (auto simp: nth_list_update)
qed simp

text \<open>Marking an entry as deleted.\<close>

lemma directory_entry_deleted:
  assumes "length sector = 512" "i < 16" "k < 16"
  shows "directory_entry k (mark_deleted i sector)
    = (if k = i then (directory_entry i sector)\<lparr>fe_name := (fe_name (directory_entry i sector))[0 := 0xE5]\<rparr> else directory_entry k sector)"
    "length (mark_deleted i sector) = 512"
proof -
  show "length (mark_deleted i sector) = 512" using assms by (simp add: mark_deleted_def)
  show "directory_entry k (mark_deleted i sector)
    = (if k = i then (directory_entry i sector)\<lparr>fe_name := (fe_name (directory_entry i sector))[0 := 0xE5]\<rparr> else directory_entry k sector)"
  proof (cases "k = i")
    case True
    have b: "drop (32 * i) (mark_deleted i sector) = (drop (32 * i) sector)[0 := 0xE5]"
      using assms by (simp add: mark_deleted_def drop_update_swap)
    have d: "drop n (xs[0 := v]) = drop n xs" if "0 < n" for n and xs :: bytes and v using that by (simp add: drop_update_cancel)
    show ?thesis unfolding True directory_entry_def Let_def u16_at_def u32_at_def b using d by (simp add: take_update_swap)
  next
    case False
    then have "32 * k + 32 \<le> 32 * i \<or> 32 * i + length [0xE5 :: u8] \<le> 32 * k" by (simp; linarith)
    moreover have "mark_deleted i sector = put_bytes (32 * i) [0xE5] sector"
      using assms by (simp add: mark_deleted_def put_bytes_def upd_conv_take_nth_drop)
    ultimately have "take 32 (drop (32 * k) (mark_deleted i sector)) = take 32 (drop (32 * k) sector)"
      using put_bytes_other [of "32 * i" "[0xE5]" sector "32 * k" 32] assms by simp
    moreover have "32 * k + 32 \<le> length (mark_deleted i sector)" "32 * k + 32 \<le> length sector"
      using assms by (simp_all add: mark_deleted_def)
    ultimately show ?thesis using False directory_entry_take by metis
  qed
qed

text \<open>A search up to the end of the directory.\<close>

fun among :: "(FAT16_DIRECTORY_ENTRY \<Rightarrow> bool) \<Rightarrow> FAT16_DIRECTORY_ENTRY list \<Rightarrow> FAT16_DIRECTORY_ENTRY option option" where
  "among P [] = None"
| "among P (e # es) = (if fe_name e ! 0 = 0 then Some None else if P e then Some (Some e) else among P es)"

lemma entry_among_eq: "entry_among P sector is = among P (map (\<lambda>i. directory_entry i sector) is)"
  by (induction "is") (simp_all add: Let_def)

lemma among_append: "among P (xs @ ys) = (case among P xs of None \<Rightarrow> among P ys | Some r \<Rightarrow> Some r)"
  by (induction xs) simp_all

lemma among_at:
  "j < length es \<Longrightarrow> (\<And>k. k < j \<Longrightarrow> fe_name (es ! k) ! 0 \<noteq> 0 \<and> \<not> P (es ! k)) \<Longrightarrow> fe_name (es ! j) ! 0 \<noteq> 0 \<Longrightarrow> P (es ! j)
    \<Longrightarrow> among P es = Some (Some (es ! j))"
proof (induction es arbitrary: j)
  case (Cons e es)
  show ?case
  proof (cases j)
    case 0
    then show ?thesis using Cons.prems by simp
  next
    case (Suc i)
    have "among P es = Some (Some (es ! i))"
      by (rule Cons.IH) (use Cons.prems(1,3,4) Suc Cons.prems(2) [of "Suc _"] in auto)
    then show ?thesis using Suc Cons.prems(2) [of 0] by simp
  qed
qed simp

lemma among_found:
  "among P es = Some (Some e) \<Longrightarrow> \<exists>j < length es. e = es ! j \<and> P e \<and> (\<forall>k \<le> j. fe_name (es ! k) ! 0 \<noteq> 0) \<and> (\<forall>k < j. \<not> P (es ! k))"
proof (induction es)
  case (Cons x es)
  show ?case
  proof (cases "P x")
    case True
    then show ?thesis using Cons.prems by (intro exI [of _ 0]) (auto split: if_splits)
  next
    case False
    then obtain j where "j < length es" "e = es ! j" "P e" "\<forall>k \<le> j. fe_name (es ! k) ! 0 \<noteq> 0" "\<forall>k < j. \<not> P (es ! k)"
      using Cons by (auto split: if_splits)
    then show ?thesis using False Cons.prems
      by (intro exI [of _ "Suc j"]) (auto simp: nth_Cons split: nat.splits if_splits)
  qed
qed simp

section \<open>Searching the root directory\<close>

fun first_hit :: "(u32 \<Rightarrow> bytes \<Rightarrow> 'r option) \<Rightarrow> (u32 \<Rightarrow> bytes) \<Rightarrow> u32 list \<Rightarrow> 'r scan" where
  "first_hit look f [] = Scan_end"
| "first_hit look f (n # ns) = (case look n (f n) of Some r \<Rightarrow> Scan_found r | None \<Rightarrow> first_hit look f ns)"

lemma first_hit_among:
  "first_hit (\<lambda>_ sector. entry_among P sector [0 ..< 16]) f ns
    = (case among P (entries_of f ns) of None \<Rightarrow> Scan_end | Some r \<Rightarrow> Scan_found r)"
  by (induction ns) (simp_all add: entry_among_eq among_append split: option.split)

text \<open>The first entry with a property, by its sector.\<close>

definition slot_where :: "(FAT16_DIRECTORY_ENTRY \<Rightarrow> bool) \<Rightarrow> u32 \<Rightarrow> bytes \<Rightarrow> (u32 \<times> bytes \<times> nat) option" where
  "slot_where Q n sector = map_option (\<lambda>i. (n, sector, i)) (find (\<lambda>i. Q (directory_entry i sector)) [0 ..< 16])"

lemma slots_where:
  "slot_with_name name = slot_where (\<lambda>e. \<not> free_entry e \<and> fe_name e = name)" "free_slot_in = slot_where free_entry"
  by (simp_all add: fun_eq_iff slot_with_name_def free_slot_in_def slot_where_def)

lemma slot_where_None: "slot_where Q n sector = None \<longleftrightarrow> (\<forall>i < 16. \<not> Q (directory_entry i sector))"
  by (auto simp: slot_where_def find_None_iff)

lemma slot_where_Some:
  assumes "slot_where Q n sector = Some r"
  shows "\<exists>i < 16. r = (n, sector, i) \<and> Q (directory_entry i sector) \<and> (\<forall>j < i. \<not> Q (directory_entry j sector))"
  using assms by (auto simp: slot_where_def find_Some_iff)

lemma first_hit_slot:
  assumes "first_hit (slot_where Q) f ns = Scan_found (n, sector, i)"
  shows "\<exists>q < length ns. n = ns ! q \<and> sector = f n \<and> i < 16 \<and> Q (directory_entry i sector)
    \<and> (\<forall>j < 16 * q + i. \<not> Q (entries_of f ns ! j))"
  using assms
proof (induction ns)
  case (Cons m ns)
  show ?case
  proof (cases "slot_where Q m (f m)")
    case None
    note no = None [unfolded slot_where_None, rule_format]
    have "first_hit (slot_where Q) f ns = Scan_found (n, sector, i)" using Cons.prems None by simp
    then obtain q where q: "q < length ns" "n = ns ! q" "sector = f n" "i < 16" "Q (directory_entry i sector)"
      "\<forall>j < 16 * q + i. \<not> Q (entries_of f ns ! j)" using Cons.IH by blast
    have "\<not> Q (entries_of f (m # ns) ! j)" if "j < 16 * Suc q + i" for j
      using that no [of j] q(6) by (cases "j < 16") (simp_all add: nth_append)
    then show ?thesis using q by (intro exI [of _ "Suc q"]) auto
  next
    case (Some r)
    then obtain k where "k < 16" "r = (m, f m, k)" "Q (directory_entry k (f m))" "\<And>j. j < k \<Longrightarrow> \<not> Q (directory_entry j (f m))"
      using slot_where_Some by blast
    then show ?thesis using Cons.prems Some by (intro exI [of _ 0]) (auto simp: nth_append)
  qed
qed simp

lemma first_hit_none: "first_hit (slot_where Q) f ns = Scan_end \<Longrightarrow> e \<in> set (entries_of f ns) \<Longrightarrow> \<not> Q e"
proof (induction ns)
  case (Cons m ns)
  then have "slot_where Q m (f m) = None" "first_hit (slot_where Q) f ns = Scan_end"
    by (simp_all split: option.splits)
  then show ?case using Cons by (auto simp: slot_where_None)
qed simp

abbreviation root_of :: "'d fat16_state \<Rightarrow> (u32 \<Rightarrow> bytes) \<Rightarrow> FAT16_DIRECTORY_ENTRY list" where
  "root_of s g \<equiv> entries_of g (root_sectors s)"

lemma first_hit_not_failed [simp]: "first_hit look f ns \<noteq> Scan_failed"
  by (induction ns) (simp_all split: option.split)

context sector_disk
begin

lemma scan_sectors_to:
  assumes "works (fat16_disk s)"
  shows "\<exists>s'. scan_sectors drv look ns s = (first_hit look (sec s) ns, s') \<and> to s (sec s) s'"
  using assms
proof (induction ns arbitrary: s)
  case Nil
  then show ?case using to_refl by simp
next
  case (Cons n ns)
  obtain s1 where r: "fat16_read_sector drv n s = (Some (sec s n), s1)" "to s (sec s) s1" using sector_read [OF Cons.prems] .
  note d1 = leads_toD [OF r(2)]
  obtain s' where i: "scan_sectors drv look ns s1 = (first_hit look (sec s) ns, s')" "to s1 (sec s) s'"
    using Cons.IH [OF d1(5)] unfolding d1(6) by blast
  show ?case
  proof (cases "look n (sec s n)")
    case None
    then show ?thesis using r(1) i leads_to_trans [OF r(2) i(2)] by simp
  next
    case (Some x)
    then show ?thesis using r by simp
  qed
qed

lemma find_in_root_to:
  assumes "works (fat16_disk s)"
  shows "\<exists>s'. find_in_directory drv 0 name s
    = Some (case among (listed_with_name name) (root_of s (sec s)) of None \<Rightarrow> None | Some r \<Rightarrow> r, s') \<and> to s (sec s) s'"
proof -
  obtain s' where "scan_sectors drv (\<lambda>_ sector. entry_among (listed_with_name name) sector [0 ..< 16]) (root_sectors s) s
      = (case among (listed_with_name name) (root_of s (sec s)) of None \<Rightarrow> Scan_end | Some r \<Rightarrow> Scan_found r, s')"
    "to s (sec s) s'"
    using scan_sectors_to [OF assms, of "\<lambda>_ sector. entry_among (listed_with_name name) sector [0 ..< 16]" "root_sectors s"]
    unfolding first_hit_among by blast
  then show ?thesis by (auto simp: find_in_directory_def scan_directory_def split: option.splits)
qed

end

end
