(* ===== verification/Fat16_Volume.thy ===== *)
theory Fat16_Volume
  imports Fat16_Files
begin

text \<open>
  The root directory of a FAT16 volume as a map from names to contents: the clusters of an entry, the well-formed
  root directories, and how the map changes when one entry is replaced.
\<close>

section \<open>The clusters and the content of an entry\<close>

fun follow :: "nat \<Rightarrow> (u16 \<Rightarrow> u16) \<Rightarrow> u16 \<Rightarrow> u16 list" where
  "follow 0 t c = []"
| "follow (Suc n) t c = (if 2 \<le> c \<and> c < 0xFFF8 then c # follow n t (t c) else [])"

lemma follow_chain: "fat_chain R t c cs \<Longrightarrow> length cs \<le> n \<Longrightarrow> follow n t c = cs"
proof (induction cs arbitrary: c n)
  case Nil
  then show ?case by (cases n) auto
next
  case (Cons x cs)
  then show ?case by (cases n) auto
qed

lemma fat_chain_length: "fat_chain R t c cs \<Longrightarrow> length cs \<le> 65536"
proof -
  assume "fat_chain R t c cs"
  then have "distinct (map unat cs)" using fat_chain_distinct [of R t c cs]
    by (auto simp: distinct_map inj_on_def word_unat_eq_iff)
  moreover have "set (map unat cs) \<subseteq> {..< 65536}" using small_words(1) by auto
  ultimately show ?thesis using card_mono [of "{..< 65536}" "set (map unat cs)"] distinct_card [of "map unat cs"] by simp
qed

definition entry_chain :: "'d fat16_state \<Rightarrow> (u32 \<Rightarrow> bytes) \<Rightarrow> FAT16_DIRECTORY_ENTRY \<Rightarrow> u16 list" where
  "entry_chain s g e = follow 65536 (fat_of s g) (fe_first_cluster e)"

lemma entry_chain_eq: "fat_chain R (fat_of s g) (fe_first_cluster e) cs \<Longrightarrow> entry_chain s g e = cs"
  unfolding entry_chain_def by (rule follow_chain) (simp_all add: fat_chain_length)

lemma entry_chain_0: "fe_first_cluster e = 0 \<Longrightarrow> entry_chain s g e = []"
proof -
  have "follow n (fat_of s g) 0 = []" for n by (cases n) (simp_all add: word_le_nat_alt)
  then show "fe_first_cluster e = 0 \<Longrightarrow> entry_chain s g e = []" by (simp add: entry_chain_def)
qed

definition entry_content :: "'d fat16_state \<Rightarrow> (u32 \<Rightarrow> bytes) \<Rightarrow> FAT16_DIRECTORY_ENTRY \<Rightarrow> bytes" where
  "entry_content s g e = take (unat (fe_size e)) (chain_bytes s g (entry_chain s g e))"

text \<open>An entry in use has no clusters, when it is empty or a part of a long name, or a chain that ends.\<close>

definition entry_sound :: "'d fat16_state \<Rightarrow> (u32 \<Rightarrow> bytes) \<Rightarrow> FAT16_DIRECTORY_ENTRY \<Rightarrow> bool" where
  "entry_sound s g e \<longleftrightarrow> fe_first_cluster e = 0 \<and> (fe_size e = 0 \<or> fe_attributes e = 0x0F)
     \<or> fat_chain (fat_range s) (fat_of s g) (fe_first_cluster e) (entry_chain s g e)"

lemma entry_sound_chain:
  assumes "entry_sound s g e" "x \<in> set (entry_chain s g e)"
  shows "2 \<le> x" "x < 0xFFF8" "x \<in> fat_range s" "fat_of s g x \<noteq> 0"
proof -
  have "fat_chain (fat_range s) (fat_of s g) (fe_first_cluster e) (entry_chain s g e)"
    using assms entry_chain_0 [of e s g] by (auto simp: entry_sound_def)
  then show "2 \<le> x" "x < 0xFFF8" "x \<in> fat_range s" "fat_of s g x \<noteq> 0"
    using fat_chain_set [of _ _ _ _ x] fat_chain_used [of _ _ _ _ x] assms(2) by blast+
qed

text \<open>An entry whose clusters are untouched keeps its chain and its content.\<close>

lemma entry_unchanged:
  assumes "entry_sound s g e" "\<And>x. x \<in> set (entry_chain s g e) \<Longrightarrow> fat_of s f x = fat_of s g x"
  shows "entry_chain s f e = entry_chain s g e" "entry_sound s f e"
proof -
  have "entry_chain s f e = entry_chain s g e \<and> entry_sound s f e"
  proof (cases "fe_first_cluster e = 0 \<and> (fe_size e = 0 \<or> fe_attributes e = 0x0F)")
    case True
    then show ?thesis by (simp add: entry_sound_def entry_chain_0)
  next
    case False
    then have "fat_chain (fat_range s) (fat_of s g) (fe_first_cluster e) (entry_chain s g e)"
      using assms(1) unfolding entry_sound_def by blast
    then have c: "fat_chain (fat_range s) (fat_of s f) (fe_first_cluster e) (entry_chain s g e)"
      using fat_chain_cong [of "entry_chain s g e" "fat_of s f" "fat_of s g"] assms(2) by simp
    then show ?thesis using entry_chain_eq [OF c] by (simp add: entry_sound_def)
  qed
  then show "entry_chain s f e = entry_chain s g e" "entry_sound s f e" by simp_all
qed

lemma entry_content_unchanged:
  assumes "entry_chain s f e = entry_chain s g e" "\<And>n. n \<in> set (chain_sectors s (entry_chain s g e)) \<Longrightarrow> f n = g n"
  shows "entry_content s f e = entry_content s g e"
proof -
  have "map f (chain_sectors s (entry_chain s g e)) = map g (chain_sectors s (entry_chain s g e))"
    by (rule map_cong [OF refl assms(2)])
  then show ?thesis unfolding entry_content_def chain_bytes_def assms(1) by (rule arg_cong)
qed

section \<open>The root directory as a map\<close>

definition root_file :: "'d fat16_state \<Rightarrow> (u32 \<Rightarrow> bytes) \<Rightarrow> bytes \<Rightarrow> bytes option" where
  "root_file s g name = (case among (listed_with_name name) (root_of s g) of
     Some (Some e) \<Rightarrow> if is_directory_entry e then None else Some (entry_content s g e)
   | _ \<Rightarrow> None)"

text \<open>Only unused entries follow the end of the directory, the entries in use have sound chains and different names,
  and no cluster belongs to two of them.\<close>

definition root_sound :: "'d fat16_state \<Rightarrow> (u32 \<Rightarrow> bytes) \<Rightarrow> bool" where
  "root_sound s g \<longleftrightarrow> (let es = root_of s g in
     (\<forall>j < length es. \<forall>i < j. fe_name (es ! i) ! 0 = 0 \<longrightarrow> fe_name (es ! j) ! 0 = 0)
     \<and> (\<forall>j < length es. \<not> free_entry (es ! j) \<longrightarrow> entry_sound s g (es ! j))
     \<and> (\<forall>j < length es. \<forall>k < length es. j \<noteq> k \<longrightarrow> \<not> free_entry (es ! j) \<longrightarrow> \<not> free_entry (es ! k) \<longrightarrow>
          fe_name (es ! j) \<noteq> fe_name (es ! k) \<and> set (entry_chain s g (es ! j)) \<inter> set (entry_chain s g (es ! k)) = {}))"

lemma root_soundD:
  assumes "root_sound s g"
  shows "j < length (root_of s g) \<Longrightarrow> i < j \<Longrightarrow> fe_name (root_of s g ! i) ! 0 = 0 \<Longrightarrow> fe_name (root_of s g ! j) ! 0 = 0"
    "j < length (root_of s g) \<Longrightarrow> \<not> free_entry (root_of s g ! j) \<Longrightarrow> entry_sound s g (root_of s g ! j)"
    "j < length (root_of s g) \<Longrightarrow> k < length (root_of s g) \<Longrightarrow> \<not> free_entry (root_of s g ! j) \<Longrightarrow> \<not> free_entry (root_of s g ! k)
      \<Longrightarrow> j \<noteq> k \<Longrightarrow> fe_name (root_of s g ! j) \<noteq> fe_name (root_of s g ! k)"
    "j < length (root_of s g) \<Longrightarrow> k < length (root_of s g) \<Longrightarrow> \<not> free_entry (root_of s g ! j) \<Longrightarrow> \<not> free_entry (root_of s g ! k)
      \<Longrightarrow> j \<noteq> k \<Longrightarrow> set (entry_chain s g (root_of s g ! j)) \<inter> set (entry_chain s g (root_of s g ! k)) = {}"
  using assms unfolding root_sound_def Let_def by blast+

text \<open>A name that is neither unused nor deleted.\<close>

definition proper_name :: "bytes \<Rightarrow> bool" where
  "proper_name name \<longleftrightarrow> name ! 0 \<noteq> 0 \<and> name ! 0 \<noteq> 0xE5"

lemma listed_used: "listed_with_name name e \<Longrightarrow> proper_name name \<Longrightarrow> \<not> free_entry e \<and> fe_name e = name"
  by (auto simp: listed_with_name_def proper_name_def free_entry_def)

lemma root_file_iff:
  assumes "root_sound s g" "proper_name name"
  shows "root_file s g name = Some c \<longleftrightarrow> (\<exists>j < length (root_of s g). listed_with_name name (root_of s g ! j)
    \<and> \<not> is_directory_entry (root_of s g ! j) \<and> entry_content s g (root_of s g ! j) = c)"
    (is "_ \<longleftrightarrow> ?r")
proof
  assume "root_file s g name = Some c"
  then obtain e where e: "among (listed_with_name name) (root_of s g) = Some (Some e)" "\<not> is_directory_entry e" "entry_content s g e = c"
    by (auto simp: root_file_def split: option.splits if_splits)
  then show ?r using among_found [OF e(1)] by blast
next
  assume ?r
  then obtain j where j: "j < length (root_of s g)" "listed_with_name name (root_of s g ! j)"
    "\<not> is_directory_entry (root_of s g ! j)" "entry_content s g (root_of s g ! j) = c" by blast
  note u = listed_used [OF j(2) assms(2)]
  have "among (listed_with_name name) (root_of s g) = Some (Some (root_of s g ! j))"
  proof (rule among_at [OF j(1)])
    fix k assume k: "k < j"
    have "\<not> listed_with_name name (root_of s g ! k)"
    proof
      assume "listed_with_name name (root_of s g ! k)"
      then have "\<not> free_entry (root_of s g ! k) \<and> fe_name (root_of s g ! k) = name" using listed_used assms(2) by blast
      then show False using root_soundD(3) [OF assms(1), of k j] k j(1) u by auto
    qed
    then show "fe_name (root_of s g ! k) ! 0 \<noteq> 0 \<and> \<not> listed_with_name name (root_of s g ! k)"
      using root_soundD(1) [OF assms(1) j(1) k] u by (auto simp: free_entry_def)
  qed (use u j(2) in \<open>auto simp: free_entry_def\<close>)
  then show "root_file s g name = Some c" using j(3,4) by (simp add: root_file_def)
qed

lemma option_eqI: "(\<And>c. x = Some c \<longleftrightarrow> y = Some c) \<Longrightarrow> x = y"
  by (cases x) (auto, metis option.exhaust)

section \<open>Replacing one entry\<close>

text \<open>The entry \<open>j\<close> becomes \<open>e\<close>, when there is one, and the clusters of the other entries in use are untouched.\<close>

definition entry_replaced ::
  "'d fat16_state \<Rightarrow> (u32 \<Rightarrow> bytes) \<Rightarrow> nat \<Rightarrow> FAT16_DIRECTORY_ENTRY \<Rightarrow> (u32 \<Rightarrow> bytes) \<Rightarrow> bool" where
  "entry_replaced s g j e f \<longleftrightarrow> root_of s f = (root_of s g)[j := e]
     \<and> (\<forall>k < length (root_of s g). k \<noteq> j \<longrightarrow> \<not> free_entry (root_of s g ! k) \<longrightarrow>
          (\<forall>x \<in> set (entry_chain s g (root_of s g ! k)). fat_of s f x = fat_of s g x)
          \<and> (\<forall>n \<in> set (chain_sectors s (entry_chain s g (root_of s g ! k))). f n = g n))"

lemma entry_replacedD:
  assumes "entry_replaced s g j e f" "root_sound s g"
  shows "root_of s f = (root_of s g)[j := e]"
    "k < length (root_of s g) \<Longrightarrow> k \<noteq> j \<Longrightarrow> \<not> free_entry (root_of s g ! k) \<Longrightarrow>
      entry_chain s f (root_of s g ! k) = entry_chain s g (root_of s g ! k) \<and> entry_sound s f (root_of s g ! k)
      \<and> entry_content s f (root_of s g ! k) = entry_content s g (root_of s g ! k)"
proof -
  show "root_of s f = (root_of s g)[j := e]" using assms(1) by (simp add: entry_replaced_def)
  assume k: "k < length (root_of s g)" "k \<noteq> j" "\<not> free_entry (root_of s g ! k)"
  then have u: "\<And>x. x \<in> set (entry_chain s g (root_of s g ! k)) \<Longrightarrow> fat_of s f x = fat_of s g x"
    "\<And>n. n \<in> set (chain_sectors s (entry_chain s g (root_of s g ! k))) \<Longrightarrow> f n = g n"
    using assms(1) unfolding entry_replaced_def by blast+
  note c = entry_unchanged [OF root_soundD(2) [OF assms(2) k(1,3)] u(1)]
  show "entry_chain s f (root_of s g ! k) = entry_chain s g (root_of s g ! k) \<and> entry_sound s f (root_of s g ! k)
    \<and> entry_content s f (root_of s g ! k) = entry_content s g (root_of s g ! k)"
    using c entry_content_unchanged [OF c(1) u(2)] by simp
qed

lemma root_sound_replaced:
  assumes r: "entry_replaced s g j e f" and g: "root_sound s g"
    and e0: "j < length (root_of s g) \<Longrightarrow> fe_name e ! 0 \<noteq> 0"
      "\<And>i. j < length (root_of s g) \<Longrightarrow> i < j \<Longrightarrow> fe_name (root_of s g ! i) ! 0 \<noteq> 0"
    and new: "j < length (root_of s g) \<Longrightarrow> \<not> free_entry e \<Longrightarrow> entry_sound s f e"
      "\<And>k. j < length (root_of s g) \<Longrightarrow> \<not> free_entry e \<Longrightarrow> k < length (root_of s g) \<Longrightarrow> k \<noteq> j \<Longrightarrow> \<not> free_entry (root_of s g ! k) \<Longrightarrow>
        fe_name (root_of s g ! k) \<noteq> fe_name e \<and> set (entry_chain s g (root_of s g ! k)) \<inter> set (entry_chain s f e) = {}"
  shows "root_sound s f"
proof -
  let ?g = "root_of s g" and ?f = "root_of s f"
  note d = entry_replacedD(1) [OF r g] and keep = entry_replacedD(2) [OF r g]
  have len: "length ?f = length ?g" using d by simp
  have at: "?f ! k = (if k = j then e else ?g ! k)" if "k < length ?g" for k using that d by (simp add: nth_list_update)
  have end': "fe_name (?f ! k) ! 0 = 0" if "k < length ?g" "i < k" "fe_name (?f ! i) ! 0 = 0" for k i
    using that at [of k] at [of i] root_soundD(1) [OF g that(1,2)] e0 by (auto split: if_splits)
  have sound: "entry_sound s f (?f ! k)" if "k < length ?g" "\<not> free_entry (?f ! k)" for k
    using that at [of k] new(1) keep [of k] by (auto split: if_splits)
  have apart: "fe_name (?f ! k) \<noteq> fe_name (?f ! l) \<and> set (entry_chain s f (?f ! k)) \<inter> set (entry_chain s f (?f ! l)) = {}"
    if kl: "k < length ?g" "l < length ?g" "k \<noteq> l" "\<not> free_entry (?f ! k)" "\<not> free_entry (?f ! l)" for k l
  proof -
    consider "k = j" | "l = j" | "k \<noteq> j" "l \<noteq> j" by blast
    then show ?thesis
    proof cases
      case 1
      then show ?thesis using kl at new(2) [of l] keep [of l] by (simp add: Int_commute) metis
    next
      case 2
      then show ?thesis using kl at new(2) [of k] keep [of k] by simp
    next
      case 3
      then have n: "\<not> free_entry (?g ! k)" "\<not> free_entry (?g ! l)" "?f ! k = ?g ! k" "?f ! l = ?g ! l" using kl at by simp_all
      show ?thesis unfolding n(3,4) using root_soundD(3,4) [OF g kl(1,2) n(1,2) kl(3)] keep [OF kl(1) 3(1) n(1)] keep [OF kl(2) 3(2) n(2)] by simp
    qed
  qed
  show ?thesis unfolding root_sound_def Let_def len using end' sound apart by blast
qed

lemma root_file_replaced:
  assumes r: "entry_replaced s g j e f" and g: "root_sound s g" and f: "root_sound s f" and name: "proper_name name"
    and "j < length (root_of s g) \<Longrightarrow> free_entry e \<or> fe_name e \<noteq> name"
      "j < length (root_of s g) \<Longrightarrow> free_entry (root_of s g ! j) \<or> fe_name (root_of s g ! j) \<noteq> name"
  shows "root_file s f name = root_file s g name"
proof (rule option_eqI)
  fix c
  note d = entry_replacedD(1) [OF r g] and keep = entry_replacedD(2) [OF r g]
  have at: "root_of s f ! k = (if k = j then e else root_of s g ! k)" if "k < length (root_of s g)" for k
    using that d by (simp add: nth_list_update)
  have no: "\<not> listed_with_name name e" "\<not> listed_with_name name (root_of s g ! j)" if "j < length (root_of s g)"
    using assms(5,6) [OF that] listed_used [OF _ name] by blast+
  have "listed_with_name name (root_of s f ! k) \<and> \<not> is_directory_entry (root_of s f ! k) \<and> entry_content s f (root_of s f ! k) = c
    \<longleftrightarrow> listed_with_name name (root_of s g ! k) \<and> \<not> is_directory_entry (root_of s g ! k) \<and> entry_content s g (root_of s g ! k) = c"
    if k: "k < length (root_of s g)" for k
    using k at [OF k] no keep [OF k] listed_used [OF _ name, of "root_of s g ! k"] by (cases "k = j") auto
  moreover have "length (root_of s f) = length (root_of s g)" using d by simp
  ultimately show "root_file s f name = Some c \<longleftrightarrow> root_file s g name = Some c"
    unfolding root_file_iff [OF g name] root_file_iff [OF f name] by metis
qed

end
