(* ===== verification/Fat16_Root.thy ===== *)
theory Fat16_Root
  imports Fat16_Volume
begin

text \<open>
  Writing, reading and deleting files of the root directory of a FAT16 volume change the map from names to contents as
  they should.
\<close>

section \<open>Names and the directory\<close>

lemma name_from_length: "name_from component name i k x = Some r \<Longrightarrow> length r = length name"
  by (induction component name i k x rule: name_from.induct) (auto simp: Let_def split: if_splits)

lemma component_name:
  "component_to_name component = Some name \<Longrightarrow> component \<noteq> []" "component_to_name component = Some name \<Longrightarrow> length name = 11"
  using name_from_length by (fastforce simp: component_to_name_def split: if_splits)+

lemma resolve_parent_root:
  assumes "component_to_name component = Some name" "CHR ''/'' \<notin> set component"
  shows "resolve_parent drv (CHR ''/'' # component) s = Some (Some (0, name), s)"
proof -
  have "rev (takeWhile (\<lambda>c. c \<noteq> CHR ''/'') (rev (CHR ''/'' # component))) = component"
    using assms(2) by (subst rev.simps, subst takeWhile_append2) auto
  then show ?thesis using component_name(1) [OF assms(1)] assms(1) unfolding resolve_parent_def Let_def by (cases component) simp_all
qed

lemma resolve_path_root:
  assumes "component_to_name component = Some name" "CHR ''/'' \<notin> set component"
  shows "resolve_path drv (CHR ''/'' # component) s = find_in_directory drv 0 name s"
proof -
  have c: "takeWhile (\<lambda>c. c \<noteq> CHR ''/'') component = component" "dropWhile (\<lambda>c. c \<noteq> CHR ''/'') component = []"
    using assms(2) by (auto simp: takeWhile_eq_all_conv dropWhile_eq_Nil_conv)
  show ?thesis using component_name(1) [OF assms(1)] assms(1)
    by (cases "find_in_directory drv 0 name s")
      (auto simp: resolve_path_def resolve_from.simps [of drv component] c split: option.split)
qed

lemma root_sector_unat:
  assumes "fat16_layout s" "k < unat (root_sector_count s)"
  shows "unat (root_start_sector s + of_nat k) = unat (root_start_sector s) + k"
proof -
  have k: "unat (of_nat k :: u32) = k" using assms layout_numbers(4) [OF assms(1)] by (simp add: unat_of_nat)
  show ?thesis using assms layout_numbers(5,6) [OF assms(1)] by (subst unat_add_32) (simp_all add: k)
qed

lemma root_sectors_numbers:
  assumes "fat16_layout s"
  shows "n \<in> set (root_sectors s) \<Longrightarrow> unat (root_start_sector s) \<le> unat n \<and> unat n < unat (data_start_sector s)"
    "distinct (root_sectors s)"
proof -
  show "n \<in> set (root_sectors s) \<Longrightarrow> unat (root_start_sector s) \<le> unat n \<and> unat n < unat (data_start_sector s)"
    using root_sector_unat [OF assms] layout_numbers(5) [OF assms] by (auto simp: root_sectors_def)
  show "distinct (root_sectors s)" unfolding root_sectors_def distinct_map
  proof (intro conjI distinct_upt inj_onI)
    fix k k' assume k: "k \<in> set [0 ..< unat (root_sector_count s)]" "k' \<in> set [0 ..< unat (root_sector_count s)]"
      and e: "root_start_sector s + of_nat k = root_start_sector s + of_nat k'"
    have "k < unat (root_sector_count s)" "k' < unat (root_sector_count s)" using k by simp_all
    then have "unat (root_start_sector s) + k = unat (root_start_sector s) + k'" using root_sector_unat [OF assms] e by metis
    then show "k = k'" by simp
  qed
qed

lemma root_of_cong: "(\<And>n. n \<in> set (root_sectors s) \<Longrightarrow> f n = g n) \<Longrightarrow> root_of s f = root_of s g"
  by (auto simp: entries_of_def intro!: arg_cong [where f = concat])

text \<open>The slot that is found for a name: that of the entry with the name, or the first free one.\<close>

definition slot_at :: "FAT16_DIRECTORY_ENTRY list \<Rightarrow> bytes \<Rightarrow> bool \<Rightarrow> nat \<Rightarrow> bool" where
  "slot_at es name allow_free j \<longleftrightarrow> j < length es \<and>
     (\<not> free_entry (es ! j) \<and> fe_name (es ! j) = name
      \<or> allow_free \<and> free_entry (es ! j) \<and> (\<forall>k < j. \<not> free_entry (es ! k)) \<and> (\<forall>e \<in> set es. free_entry e \<or> fe_name e \<noteq> name))"

context sector_disk
begin

lemma find_slot_to:
  assumes "works (fat16_disk s)"
  shows "\<exists>r s'. find_directory_entry_slot drv 0 name allow_free s = Some (r, s') \<and> to s (sec s) s'
    \<and> (case r of None \<Rightarrow> (\<forall>e \<in> set (root_of s (sec s)). (free_entry e \<or> fe_name e \<noteq> name) \<and> (allow_free \<longrightarrow> \<not> free_entry e))
       | Some (n, sector, i) \<Rightarrow> \<exists>q < length (root_sectors s). n = root_sectors s ! q \<and> sector = sec s n \<and> i < 16
           \<and> directory_entry i sector = root_of s (sec s) ! (16 * q + i) \<and> slot_at (root_of s (sec s)) name allow_free (16 * q + i))"
proof -
  let ?Q = "\<lambda>e. \<not> free_entry e \<and> fe_name e = name" and ?ns = "root_sectors s" and ?es = "root_of s (sec s)"
  obtain s1 where 1: "scan_sectors drv (slot_with_name name) ?ns s = (first_hit (slot_where ?Q) (sec s) ?ns, s1)" "to s (sec s) s1"
    using scan_sectors_to [OF assms] unfolding slots_where by blast
  note d1 = leads_toD [OF 1(2)]
  have found: "\<exists>q < length ?ns. n = ?ns ! q \<and> sector = sec s n \<and> i < 16
      \<and> directory_entry i sector = ?es ! (16 * q + i) \<and> Q (?es ! (16 * q + i)) \<and> 16 * q + i < length ?es
      \<and> (\<forall>k < 16 * q + i. \<not> Q (?es ! k))"
    if hit: "first_hit (slot_where Q) (sec s) ?ns = Scan_found (n, sector, i)" for Q n sector i
  proof -
    obtain q where q: "q < length ?ns" "n = ?ns ! q" "sector = sec s n" "i < 16" "Q (directory_entry i sector)"
      "\<forall>k < 16 * q + i. \<not> Q (?es ! k)" using first_hit_slot [OF hit] by blast
    moreover have "directory_entry i sector = ?es ! (16 * q + i)" using nth_entries_of [OF q(1,4)] q(2,3) by simp
    moreover have "16 * q + i < length ?es" using q(1,4) by simp
    ultimately show ?thesis by metis
  qed
  show ?thesis
  proof (cases "first_hit (slot_where ?Q) (sec s) ?ns")
    case (Scan_found r)
    obtain n sector i where r: "r = (n, sector, i)" by (cases r)
    show ?thesis using found [OF Scan_found [unfolded r]] 1 Scan_found r
      by (auto simp: find_directory_entry_slot_def scan_directory_def slot_at_def)
  next
    case Scan_end
    note no = first_hit_none [OF this]
    show ?thesis
    proof (cases allow_free)
      case False
      then show ?thesis using 1 Scan_end no by (auto simp: find_directory_entry_slot_def scan_directory_def)
    next
      case True
      obtain s2 where 2: "scan_sectors drv free_slot_in ?ns s1 = (first_hit (slot_where free_entry) (sec s) ?ns, s2)" "to s1 (sec s) s2"
        using scan_sectors_to [OF d1(5), of free_slot_in] unfolding slots_where d1(6) by blast
      note t2 = leads_to_trans [OF 1(2) 2(2)]
      show ?thesis
      proof (cases "first_hit (slot_where free_entry) (sec s) ?ns")
        case (Scan_found r)
        obtain n sector i where r: "r = (n, sector, i)" by (cases r)
        show ?thesis using found [OF Scan_found [unfolded r]] 1(1) 2(1) t2 Scan_end Scan_found r True no d1(7)
          by (auto simp: find_directory_entry_slot_def scan_directory_def slot_at_def)
      next
        case Scan_end2: Scan_end
        show ?thesis using 1(1) 2(1) t2 Scan_end Scan_end2 True no d1(7) first_hit_none [OF Scan_end2]
          by (auto simp: find_directory_entry_slot_def scan_directory_def)
      qed simp
    qed
  qed simp
qed

text \<open>Storing a directory sector and freeing the clusters of the entry that was there.\<close>

lemma store_entry_to:
  assumes w: "works (fat16_disk s)" and lay: "fat16_layout s"
    and q: "q < length (root_sectors s)" "i < 16" "n = root_sectors s ! q"
    and b: "length b = 512" "\<And>k. k < 16 \<Longrightarrow> directory_entry k b = (if k = i then e else directory_entry k (sec s n))"
    and c: "c = 0 \<and> cs = [] \<or> fat_chain (fat_range s) (fat_of s (sec s)) c cs"
  shows "\<exists>s1 s' f. fat16_write_sector drv n b s = (True, s1) \<and> fat16_free_chain drv c s1 = Some (True, s') \<and> to s f s'
    \<and> (c = 0 \<longrightarrow> s' = s1)
    \<and> root_of s f = (root_of s (sec s))[16 * q + i := e]
    \<and> (\<forall>x \<in> fat_range s. fat_of s f x = (if x \<in> set cs then 0 else fat_of s (sec s) x))
    \<and> (\<forall>m. unat (data_start_sector s) \<le> unat m \<longrightarrow> f m = sec s m)"
proof -
  note nums = root_sectors_numbers [OF lay]
  have n: "n \<in> set (root_sectors s)" using q by simp
  have root_low: "unat (root_start_sector s) \<le> unat (data_start_sector s)" using layout_numbers(5) [OF lay] by simp
  obtain s1 where s1: "fat16_write_sector drv n b s = (True, s1)" "to s ((sec s)(n := b)) s1" using sector_written [OF w b(1)] .
  let ?g = "(sec s)(n := b)"
  note d1 = leads_toD [OF s1(2)] and e1 = fat_leads_to [OF s1(2)]
  have g: "?g m = sec s m" if "unat m < unat (root_start_sector s) \<or> unat (data_start_sector s) \<le> unat m" for m
    using that nums(1) [OF n] by auto
  have fatg: "fat_of s ?g x = fat_of s (sec s) x" if "x \<in> fat_range s" for x
    by (rule fat_of_cong [OF lay that]) (rule g, simp)
  have rootg: "root_of s ?g = (root_of s (sec s))[16 * q + i := e]"
    using entries_of_update [OF nums(2) q(1,2), of b e "sec s"] b(2) q(3) by simp
  show ?thesis
  proof (cases "c = 0 \<and> cs = []")
    case True
    then have "fat16_free_chain drv c s1 = Some (True, s1)" by (subst fat16_free_chain.simps) (simp add: word_le_nat_alt)
    then show ?thesis using s1 g fatg rootg True by (intro exI [of _ s1] exI [of _ ?g]) auto
  next
    case False
    then have ch: "fat_chain (fat_range s) (fat_of s (sec s)) c cs" using c by blast
    have c0: "c \<noteq> 0" using ch by (cases cs) (auto simp: word_le_nat_alt)
    have "fat_chain (fat_range s1) (fat_of s1 (sec s1)) c cs"
      using fat_chain_cong [of cs "fat_of s ?g" "fat_of s (sec s)"] fatg fat_chain_set [OF ch] ch d1(6) e1 by simp
    then obtain s' f where s': "fat16_free_chain drv c s1 = Some (True, s')" "to s1 f s'"
      "\<And>x. x \<in> fat_range s \<Longrightarrow> fat_of s f x = (if x \<in> set cs then 0 else fat_of s ?g x)"
      "\<And>m. unat (root_start_sector s) \<le> unat m \<Longrightarrow> f m = ?g m"
      using free_chain_to [OF d1(5)] leads_to_layout [OF s1(2)] lay unfolding d1(2,6) e1 by blast
    have "root_of s f = root_of s ?g" by (rule root_of_cong) (use s'(4) nums(1) in blast)
    then show ?thesis using s1(1) s'(1) leads_to_trans [OF s1(2) s'(2)] s'(3,4) fatg rootg c0 g root_low
      by (intro exI [of _ s1] exI [of _ s'] exI [of _ f]) auto
  qed
qed

end

section \<open>Storing a new file\<close>

text \<open>What the entry \<open>j\<close> holds is replaced by the clusters \<open>new\<close>, which were free.\<close>

lemma new_entry_simps [simp]:
  "fe_name (new_entry name a c z) = name" "fe_attributes (new_entry name a c z) = a"
  "fe_first_cluster (new_entry name a c z) = c" "fe_size (new_entry name a c z) = z"
  by (simp_all add: new_entry_def)

lemma new_entry_ok: "length name = 11 \<Longrightarrow> entry_ok (new_entry name a c z)"
  by (simp add: entry_ok_def new_entry_def)

lemma chain_sectors_apart:
  assumes "fat16_layout s" "\<And>x. x \<in> set cs \<Longrightarrow> 2 \<le> x" "\<And>x. x \<in> set ds \<Longrightarrow> 2 \<le> x" "set cs \<inter> set ds = {}"
  shows "n \<in> set (chain_sectors s cs) \<Longrightarrow> n \<notin> set (chain_sectors s ds)"
  using assms(2-4) cluster_sectors_apart [OF assms(1)] unfolding chain_sectors_in by blast

lemma chain_sectors_data:
  assumes "fat16_layout s" "\<And>x. x \<in> set cs \<Longrightarrow> 2 \<le> x" "n \<in> set (chain_sectors s cs)"
  shows "unat (data_start_sector s) \<le> unat n"
  using assms(2,3) cluster_sectors_data [OF assms(1)] unfolding chain_sectors_in by blast

definition file_stored ::
  "'d fat16_state \<Rightarrow> (u32 \<Rightarrow> bytes) \<Rightarrow> nat \<Rightarrow> u16 list \<Rightarrow> u16 list \<Rightarrow> FAT16_DIRECTORY_ENTRY \<Rightarrow> (u32 \<Rightarrow> bytes) \<Rightarrow> bool" where
  "file_stored s g j old new e f \<longleftrightarrow> root_of s f = (root_of s g)[j := e]
     \<and> (\<forall>x \<in> fat_range s - set new. fat_of s f x = (if x \<in> set old then 0 else fat_of s g x))
     \<and> (\<forall>x \<in> set new. 2 \<le> x \<and> x \<in> fat_range s \<and> fat_of s g x = 0)
     \<and> (\<forall>m. unat (data_start_sector s) \<le> unat m \<longrightarrow> m \<notin> set (chain_sectors s new) \<longrightarrow> f m = g m)"

lemma file_stored_replaced:
  assumes lay: "fat16_layout s" and g: "root_sound s g" and st: "file_stored s g j old new e f"
    and old: "old = (if free_entry (root_of s g ! j) then [] else entry_chain s g (root_of s g ! j))" and j: "j < length (root_of s g)"
  shows "entry_replaced s g j e f"
  unfolding entry_replaced_def
proof (intro conjI allI impI ballI)
  show "root_of s f = (root_of s g)[j := e]" using st by (simp add: file_stored_def)
  fix k assume k: "k < length (root_of s g)" "k \<noteq> j" "\<not> free_entry (root_of s g ! k)"
  note ch = entry_sound_chain [OF root_soundD(2) [OF g k(1,3)]]
  have new: "x \<notin> set new" if "x \<in> set (entry_chain s g (root_of s g ! k))" for x
    using ch(4) [OF that] st by (auto simp: file_stored_def)
  have oldx: "x \<notin> set old" if "x \<in> set (entry_chain s g (root_of s g ! k))" for x
    using that root_soundD(4) [OF g k(1) j k(3) _ k(2)] unfolding old by (auto split: if_splits)
  show "fat_of s f x = fat_of s g x" if "x \<in> set (entry_chain s g (root_of s g ! k))" for x
    using new [OF that] oldx [OF that] ch(3) [OF that] st by (simp add: file_stored_def)
  show "f n = g n" if n: "n \<in> set (chain_sectors s (entry_chain s g (root_of s g ! k)))" for n
  proof -
    have "n \<notin> set (chain_sectors s new)"
      by (rule chain_sectors_apart [OF lay ch(1) _ _ n]) (use st new in \<open>auto simp: file_stored_def\<close>)
    then show ?thesis using chain_sectors_data [OF lay ch(1) n] st by (simp add: file_stored_def)
  qed
qed

lemma root_file_stored:
  assumes lay: "fat16_layout s" and g: "root_sound s g" and name: "proper_name name"
    and slot: "slot_at (root_of s g) name True j"
    and old: "old = (if free_entry (root_of s g ! j) then [] else entry_chain s g (root_of s g ! j))"
    and st: "file_stored s g j old new (new_entry name 0x20 c len) f"
    and ch: "c = 0 \<and> new = [] \<and> len = 0 \<or> fat_chain (fat_range s) (fat_of s f) c new"
    and content: "take (unat len) (chain_bytes s f new) = buffer"
  shows "root_sound s f"
    "proper_name name' \<Longrightarrow> root_file s f name' = (if name' = name then Some buffer else root_file s g name')"
proof -
  let ?e = "new_entry name 0x20 c len"
  have j: "j < length (root_of s g)" using slot by (simp add: slot_at_def)
  have r: "entry_replaced s g j ?e f" by (rule file_stored_replaced [OF lay g st old j])
  have chain: "entry_chain s f ?e = new" using ch entry_chain_0 [of ?e s f] entry_chain_eq [of _ s f ?e new] by auto
  have sound: "entry_sound s f ?e" using ch chain by (auto simp: entry_sound_def)
  have e: "\<not> free_entry ?e" using name by (simp add: free_entry_def proper_name_def)
  have other: "fe_name (root_of s g ! k) \<noteq> name" if "k < length (root_of s g)" "k \<noteq> j" "\<not> free_entry (root_of s g ! k)" for k
    using slot that root_soundD(3) [OF g that(1) j that(3) _ that(2)] by (auto simp: slot_at_def)
  show f: "root_sound s f"
  proof (rule root_sound_replaced [OF r g])
    show "fe_name ?e ! 0 \<noteq> 0" using name by (simp add: proper_name_def)
    show "fe_name (root_of s g ! i) ! 0 \<noteq> 0" if "i < j" for i
    proof
      assume z: "fe_name (root_of s g ! i) ! 0 = 0"
      then have "fe_name (root_of s g ! j) ! 0 = 0" using root_soundD(1) [OF g j that] by blast
      then have "free_entry (root_of s g ! j)" "free_entry (root_of s g ! i)" using z by (simp_all add: free_entry_def)
      then show False using slot that by (auto simp: slot_at_def)
    qed
    show "entry_sound s f ?e" by (rule sound)
    fix k assume k: "k < length (root_of s g)" "k \<noteq> j" "\<not> free_entry (root_of s g ! k)"
    have "x \<notin> set new" if "x \<in> set (entry_chain s g (root_of s g ! k))" for x
      using entry_sound_chain(4) [OF root_soundD(2) [OF g k(1,3)] that] st by (auto simp: file_stored_def)
    then show "fe_name (root_of s g ! k) \<noteq> fe_name ?e \<and> set (entry_chain s g (root_of s g ! k)) \<inter> set (entry_chain s f ?e) = {}"
      using other [OF k] unfolding chain by auto
  qed
  assume name': "proper_name name'"
  show "root_file s f name' = (if name' = name then Some buffer else root_file s g name')"
  proof (cases "name' = name")
    case True
    have "root_of s f ! j = ?e" "j < length (root_of s f)" using r j by (simp_all add: entry_replaced_def)
    moreover have "listed_with_name name ?e" "\<not> is_directory_entry ?e"
      using name by (simp_all add: listed_with_name_def proper_name_def is_directory_entry_def)
    moreover have "entry_content s f ?e = buffer" using content by (simp add: entry_content_def chain)
    ultimately show ?thesis using True root_file_iff [OF f name] by auto
  next
    case False
    have "free_entry (root_of s g ! j) \<or> fe_name (root_of s g ! j) \<noteq> name'" using slot False by (auto simp: slot_at_def)
    then show ?thesis using False root_file_replaced [OF r g f name'] by simp
  qed
qed

text \<open>Nothing that a root directory holds is changed.\<close>

lemma root_file_kept:
  assumes "fat16_layout s" "root_sound s g" "\<And>x. x \<in> fat_range s \<Longrightarrow> fat_of s f x = fat_of s g x"
    "\<And>m. unat (root_start_sector s) \<le> unat m \<Longrightarrow> f m = g m"
  shows "root_sound s f" "proper_name name \<Longrightarrow> root_file s f name = root_file s g name"
proof -
  let ?j = "length (root_of s g)" and ?e = "new_entry [] 0 0 0"
  have st: "file_stored s g ?j [] [] ?e f"
    using assms(3,4) root_of_cong [of s f g] root_sectors_numbers(1) [OF assms(1)] layout_numbers(5) [OF assms(1)]
    by (auto simp: file_stored_def list_update_beyond)
  have "f n = g n" if "n \<in> set (chain_sectors s (entry_chain s g (root_of s g ! k)))"
    "k < length (root_of s g)" "\<not> free_entry (root_of s g ! k)" for n k
    using chain_sectors_data [OF assms(1) entry_sound_chain(1) [OF root_soundD(2) [OF assms(2) that(2,3)]] that(1)]
      assms(4) [of n] layout_numbers(5) [OF assms(1)] by simp
  then have r: "entry_replaced s g ?j ?e f"
    using st entry_sound_chain(3) [OF root_soundD(2) [OF assms(2)]] assms(3) unfolding entry_replaced_def file_stored_def by blast
  show f: "root_sound s f" by (rule root_sound_replaced [OF r assms(2)]) simp_all
  show "proper_name name \<Longrightarrow> root_file s f name = root_file s g name"
    by (rule root_file_replaced [OF r assms(2) f]) simp_all
qed

end
