(* ===== verification/Fat16_Write.thy ===== *)
theory Fat16_Write
  imports Fat16_Root
begin

text \<open>
  \<^verbatim>\<open>fat16_write_root_file\<close>, \<^verbatim>\<open>fat16_read_file\<close> and \<^verbatim>\<open>fat16_delete_root_file\<close> on files of the root directory, as
  operations on the map from names to contents.
\<close>

section \<open>Clusters of a buffer\<close>

definition clusters_needed :: "'d fat16_state \<Rightarrow> nat \<Rightarrow> nat" where
  "clusters_needed s n = (n + 512 * spc_of s - 1) div (512 * spc_of s)"

lemma clusters_needed_words:
  assumes "n < 2 ^ 32" "0 < spc_of s"
  shows "unat (ucast ((of_nat n + ucast (ucast (sectors_per_cluster (bpb s)) * 512 :: u32) - 1)
      div ucast (ucast (sectors_per_cluster (bpb s)) * 512 :: u32) :: u64) :: u32) = clusters_needed s n"
    "unat (ucast (of_nat n :: u64) :: u32) = n" "\<not> (of_nat n :: u64) > 0xFFFFFFFF"
proof -
  have sp: "spc_of s \<le> 255" using small_words(2) [of "sectors_per_cluster (bpb s)"] by linarith
  have n: "unat (of_nat n :: u64) = n" using assms(1) by (simp add: unat_of_nat)
  have c: "unat (ucast (sectors_per_cluster (bpb s)) * 512 :: u32) = 512 * spc_of s"
    using sp by (subst unat_mult_32) (simp_all add: small_words)
  let ?c = "ucast (ucast (sectors_per_cluster (bpb s)) * 512 :: u32) :: u64"
  have c64: "unat ?c = 512 * spc_of s" using c by simp
  have a: "unat (of_nat n + ?c) = n + 512 * spc_of s"
    using assms(1) sp n c64 by (subst unat_add_64) simp_all
  have "(1 :: u64) \<le> of_nat n + ?c" using assms(2) by (simp add: word_le_nat_alt a)
  then have b: "unat (of_nat n + ?c - 1) = n + 512 * spc_of s - 1" using a by (simp add: unat_sub_le)
  have d: "unat ((of_nat n + ?c - 1) div ?c) = clusters_needed s n" by (simp only: unat_div b c64 clusters_needed_def)
  have "clusters_needed s n \<le> n"
  proof (cases n)
    case (Suc m)
    have "(m + 512 * spc_of s) div (512 * spc_of s) = m div (512 * spc_of s) + 1" by (rule div_add_self2) (use assms(2) in simp)
    then have "clusters_needed s n = Suc (m div (512 * spc_of s))" using Suc by (simp add: clusters_needed_def)
    then show ?thesis using Suc by (simp add: div_le_dividend)
  qed (use assms(2) in \<open>simp add: clusters_needed_def\<close>)
  then have "clusters_needed s n < 2 ^ 32" using assms(1) by simp
  then show "unat (ucast ((of_nat n + ?c - 1) div ?c) :: u32) = clusters_needed s n"
    using d by (simp add: unsigned_ucast_eq take_bit_nat_eq_self_iff)
  show "unat (ucast (of_nat n :: u64) :: u32) = n" using assms(1) n by (simp add: unsigned_ucast_eq take_bit_nat_eq_self_iff)
  show "\<not> (of_nat n :: u64) > 0xFFFFFFFF" using assms(1) n by (simp add: word_less_nat_alt)
qed

lemma clusters_needed_hold:
  assumes "0 < spc_of s"
  shows "n \<le> 512 * (spc_of s * clusters_needed s n)" "clusters_needed s n = 0 \<longleftrightarrow> n = 0"
proof -
  let ?c = "512 * spc_of s"
  have "(n + ?c - 1) = clusters_needed s n * ?c + (n + ?c - 1) mod ?c"
    unfolding clusters_needed_def by (rule div_mult_mod_eq [symmetric])
  moreover have "(n + ?c - 1) mod ?c < ?c" using assms by simp
  ultimately have "n \<le> clusters_needed s n * ?c" using assms by linarith
  then show "n \<le> 512 * (spc_of s * clusters_needed s n)" by (simp add: ac_simps)
  show "clusters_needed s n = 0 \<longleftrightarrow> n = 0" using assms by (auto simp: clusters_needed_def div_eq_0_iff)
qed

text \<open>A successful allocation uses clusters that were free.\<close>

lemma free_clusters_enough:
  assumes "distinct new" "\<And>x. x \<in> set new \<Longrightarrow> 2 \<le> x \<and> x < 0xFFF0 \<and> x \<in> fat_range s \<and> fat_of s g x = 0"
  shows "length new \<le> length (free_clusters s g)"
proof -
  have "unat x \<in> set (free_clusters s g)" if "x \<in> set new" for x
    using assms(2) [OF that] by (simp add: free_clusters_def fat_range_def word_le_nat_alt word_less_nat_alt mult.commute)
  then have "set (map unat new) \<subseteq> set (free_clusters s g)" by auto
  moreover have "distinct (map unat new)" using assms(1) by (auto simp: distinct_map inj_on_def word_unat_eq_iff)
  ultimately have "length new \<le> card (set (free_clusters s g))"
    using card_mono [OF finite_set, of "set (map unat new)" "free_clusters s g"] distinct_card [of "map unat new"] by simp
  moreover have "card (set (free_clusters s g)) \<le> length (free_clusters s g)" by (rule card_length)
  ultimately show ?thesis by simp
qed

section \<open>Writing\<close>

text \<open>Whether a file can be stored: what has the name is not protected, or there is a free entry.\<close>

definition can_store :: "FAT16_DIRECTORY_ENTRY list \<Rightarrow> bytes \<Rightarrow> bool" where
  "can_store es name \<longleftrightarrow> (case find (\<lambda>e. \<not> free_entry e \<and> fe_name e = name) es of
     Some e \<Rightarrow> fe_attributes e AND 0x11 = 0 | None \<Rightarrow> list_ex free_entry es)"

lemma can_store_slot:
  assumes "root_sound s g" "slot_at (root_of s g) name True j"
  shows "can_store (root_of s g) name \<longleftrightarrow> free_entry (root_of s g ! j) \<or> fe_attributes (root_of s g ! j) AND 0x11 = 0"
proof (cases "find (\<lambda>e. \<not> free_entry e \<and> fe_name e = name) (root_of s g)")
  case None
  then have "\<forall>e \<in> set (root_of s g). free_entry e \<or> fe_name e \<noteq> name" by (auto simp: find_None_iff)
  then have "free_entry (root_of s g ! j)" "root_of s g ! j \<in> set (root_of s g)" using assms(2) by (auto simp: slot_at_def)
  then show ?thesis using None by (auto simp: can_store_def list_ex_iff)
next
  case (Some e)
  then obtain k where k: "k < length (root_of s g)" "e = root_of s g ! k" "\<not> free_entry e" "fe_name e = name"
    by (auto simp: find_Some_iff)
  then have "\<not> free_entry (root_of s g ! j)" "fe_name (root_of s g ! j) = name" "j < length (root_of s g)"
    using assms(2) nth_mem [OF k(1)] by (auto simp: slot_at_def)
  then have "j = k" using root_soundD(3) [OF assms(1), of j k] k by auto
  then show ?thesis using Some k by (simp add: can_store_def)
qed

lemma can_store_none:
  assumes "\<forall>e \<in> set es. (free_entry e \<or> fe_name e \<noteq> name) \<and> \<not> free_entry e"
  shows "\<not> can_store es name"
proof -
  have "find (\<lambda>e. \<not> free_entry e \<and> fe_name e = name) es = None" using assms by (auto simp: find_None_iff)
  then show ?thesis using assms by (auto simp: can_store_def list_ex_iff)
qed

text \<open>The state of the volume that a write leads to: the map is updated when there is an entry and enough free clusters.\<close>

definition written_to ::
  "'d fat16_state \<Rightarrow> (u32 \<Rightarrow> bytes) \<Rightarrow> bytes \<Rightarrow> bytes \<Rightarrow> bool \<Rightarrow> (u32 \<Rightarrow> bytes) \<Rightarrow> bool" where
  "written_to s g name buffer ok f \<longleftrightarrow> root_sound s f
     \<and> (ok \<longleftrightarrow> can_store (root_of s g) name \<and> clusters_needed s (length buffer) \<le> length (free_clusters s g))
     \<and> (\<forall>name'. proper_name name' \<longrightarrow>
          root_file s f name' = (if ok \<and> name' = name then Some buffer else root_file s g name'))"

context sector_disk
begin

text \<open>Committing a file whose clusters \<open>new\<close> hold the buffer.\<close>

lemma commit_file_to:
  assumes lay: "fat16_layout s" and g: "root_sound s g" and name: "proper_name name" "length name = 11"
    and slot: "slot_at (root_of s g) name True (16 * q + i)" "q < length (root_sectors s)" "i < 16"
    and t: "to s f2 s4"
    and new: "\<And>x. x \<in> fat_range s - set new \<Longrightarrow> fat_of s f2 x = fat_of s g x"
      "\<And>x. x \<in> set new \<Longrightarrow> 2 \<le> x \<and> x \<in> fat_range s \<and> fat_of s g x = 0"
      "\<And>m. unat (root_start_sector s) \<le> unat m \<Longrightarrow> m \<notin> set (chain_sectors s new) \<Longrightarrow> f2 m = g m"
    and ch: "c = 0 \<and> new = [] \<and> buffer = [] \<or> fat_chain (fat_range s) (fat_of s f2) c new"
    and content: "take (length buffer) (chain_bytes s f2 new) = buffer" and len: "length buffer < 2 ^ 32"
    and g512: "\<And>n. length (g n) = 512"
  shows "\<exists>s' f. commit_entry drv (root_sectors s ! q)
      (put_entry i (new_entry name 0x20 c (ucast (of_nat (length buffer) :: u64))) (g (root_sectors s ! q))) c
      (if free_entry (root_of s g ! (16 * q + i)) then 0 else fe_first_cluster (root_of s g ! (16 * q + i))) s4 = Some (True, s')
    \<and> to s f s' \<and> root_sound s f
    \<and> (\<forall>name'. proper_name name' \<longrightarrow> root_file s f name' = (if name' = name then Some buffer else root_file s g name'))"
proof -
  let ?j = "16 * q + i" and ?n = "root_sectors s ! q" and ?len = "ucast (of_nat (length buffer) :: u64) :: u32"
  let ?e = "new_entry name 0x20 c ?len" and ?x = "root_of s g ! (16 * q + i)"
  let ?old = "if free_entry ?x then 0 else fe_first_cluster ?x"
  define old where "old = (if free_entry ?x then [] else entry_chain s g ?x)"
  note d4 = leads_toD [OF t] and e4 = fat_leads_to [OF t]
  have ulen: "unat ?len = length buffer" by (rule clusters_needed_words(2) [OF len layout_numbers(1) [OF lay]])
  have j: "?j < length (root_of s g)" using slot(1) by (simp add: slot_at_def)
  have oldx: "2 \<le> x \<and> x \<in> fat_range s \<and> fat_of s g x \<noteq> 0" if "x \<in> set old" for x
    using that entry_sound_chain [OF root_soundD(2) [OF g j]] unfolding old_def by (auto split: if_splits)
  have oldnew: "x \<notin> set new" if "x \<in> set old" for x using oldx [OF that] new(2) by blast
  have nroot: "?n \<in> set (root_sectors s)" using slot(2) by simp
  have rootg: "f2 n = g n" if "n \<in> set (root_sectors s)" for n
  proof -
    have "n \<notin> set (chain_sectors s new)" using chain_sectors_data [OF lay, of new n] new(2) root_sectors_numbers(1) [OF lay that] by fastforce
    then show ?thesis using new(3) root_sectors_numbers(1) [OF lay that] by blast
  qed
  have "?old = 0 \<and> old = [] \<or> fat_chain (fat_range s) (fat_of s g) ?old old"
  proof (cases "free_entry ?x")
    case False
    then show ?thesis using root_soundD(2) [OF g j False] entry_chain_0 [of ?x s g] unfolding old_def entry_sound_def by auto
  qed (simp add: old_def)
  moreover have "fat_chain (fat_range s) (fat_of s f2) ?old old = fat_chain (fat_range s) (fat_of s g) ?old old"
    by (rule fat_chain_cong) (use new(1) oldx oldnew in blast)
  ultimately have oldch: "?old = 0 \<and> old = [] \<or> fat_chain (fat_range s4) (fat_of s4 (sec s4)) ?old old" using d4(6) e4 by metis
  have ents: "directory_entry k (put_entry i ?e (g ?n)) = (if k = i then ?e else directory_entry k (sec s4 ?n))"
    if "k < 16" for k
    using directory_entry_put(1) [OF new_entry_ok [OF name(2)] g512 slot(3) that] rootg [OF nroot] d4(6) by simp
  have l512: "length (put_entry i ?e (g ?n)) = 512"
    by (rule directory_entry_put(2) [OF new_entry_ok [OF name(2)] g512 slot(3) slot(3)])
  have q4: "q < length (root_sectors s4)" "?n = root_sectors s4 ! q" using slot(2) d4(7) by simp_all
  have lay4: "fat16_layout s4" using leads_to_layout [OF t] lay by simp
  obtain s5 s' f where f: "fat16_write_sector drv ?n (put_entry i ?e (g ?n)) s4 = (True, s5)"
    "fat16_free_chain drv ?old s5 = Some (True, s')" "to s4 f s'" "?old = 0 \<longrightarrow> s' = s5"
    "root_of s4 f = (root_of s4 (sec s4))[?j := ?e]"
    "\<forall>x \<in> fat_range s4. fat_of s4 f x = (if x \<in> set old then 0 else fat_of s4 (sec s4) x)"
    "\<forall>m. unat (data_start_sector s4) \<le> unat m \<longrightarrow> f m = sec s4 m"
    using store_entry_to [OF d4(5) lay4 q4(1) slot(3) q4(2) l512 ents oldch] by blast
  have f': "root_of s f = (root_of s g)[?j := ?e]"
    "\<And>x. x \<in> fat_range s \<Longrightarrow> fat_of s f x = (if x \<in> set old then 0 else fat_of s f2 x)"
    "\<And>m. unat (data_start_sector s) \<le> unat m \<Longrightarrow> f m = f2 m"
    using f(5-7) root_of_cong [of s f2 g, OF rootg] unfolding d4 e4 by simp_all
  have st: "file_stored s g ?j old new ?e f"
    unfolding file_stored_def using f' new layout_numbers(5) [OF lay] by auto
  have fnew: "fat_of s f x = fat_of s f2 x" if "x \<in> set new" for x using f'(2) [of x] new(2) [OF that] oldnew that by auto
  have chf: "c = 0 \<and> new = [] \<and> ?len = 0 \<or> fat_chain (fat_range s) (fat_of s f) c new"
    using ch fat_chain_cong [of new "fat_of s f" "fat_of s f2"] fnew by auto
  have m: "map f (chain_sectors s new) = map f2 (chain_sectors s new)"
    by (rule map_cong [OF refl]) (use f'(3) chain_sectors_data [OF lay, of new] new(2) in blast)
  have contf: "take (unat ?len) (chain_bytes s f new) = buffer" using content unfolding chain_bytes_def m ulen .
  note res = root_file_stored [OF lay g name(1) slot(1) old_def st chf contf]
  have "commit_entry drv ?n (put_entry i ?e (g ?n)) c ?old s4 = Some (True, s')"
    using f(1,2,4) by (auto simp: commit_entry_def)
  then show ?thesis using leads_to_trans [OF t f(3)] res by blast
qed

lemma write_root_eq:
  assumes "component_to_name component = Some name" "CHR ''/'' \<notin> set component" "length buffer < 2 ^ 32" "0 < spc_of s"
    and "find_directory_entry_slot drv 0 name True s = Some (r, s2)"
  shows "fat16_write_root_file drv (CHR ''/'' # component) buffer s =
     (case r of None \<Rightarrow> Some (False, s2)
      | Some (n, sector, i) \<Rightarrow>
         let e = directory_entry i sector;
             commit = (\<lambda>c. commit_entry drv n (put_entry i (new_entry name 0x20 c (ucast (of_nat (length buffer) :: u64))) sector) c
               (if free_entry e then 0 else fe_first_cluster e))
         in if \<not> free_entry e \<and> fe_attributes e AND 0x11 \<noteq> 0 then Some (False, s2)
            else if buffer = [] then commit 0 s2
            else (case allocate_chain_from drv (clusters_needed s (length buffer)) 0 0 s2 of
                None \<Rightarrow> None
              | Some (c, s3) \<Rightarrow>
                  if c = 0 then Some (False, s3)
                  else (case write_chain_from drv c buffer 0 s3 of
                      None \<Rightarrow> None
                    | Some (ok, s4) \<Rightarrow> if ok then commit c s4 else map_option (\<lambda>(_, s5). (False, s5)) (fat16_free_chain drv c s4))))"
proof -
  let ?cc = "ucast ((of_nat (length buffer) + ucast (ucast (sectors_per_cluster (bpb s)) * 512 :: u32) - 1)
      div ucast (ucast (sectors_per_cluster (bpb s)) * 512 :: u32) :: u64) :: u32"
  note cw = clusters_needed_words [OF assms(3,4)]
  have z: "?cc = 0 \<longleftrightarrow> buffer = []" using cw(1) clusters_needed_hold(2) [OF assms(4), of "length buffer"]
    by (simp add: word_unat_eq_iff)
  have b: "Option.bind x h = (case x of None \<Rightarrow> None | Some y \<Rightarrow> h y)" for x :: "'b option" and h :: "'b \<Rightarrow> 'c option"
    by (cases x) simp_all
  show ?thesis unfolding fat16_write_root_file_def Let_def fat16_allocate_chain_def write_cluster_chain_def z cw(1)
      resolve_parent_root [OF assms(1,2)] if_not_P [OF cw(3)] b option.case prod.case assms(5)
    by (rule refl)
qed

lemma write_root_to:
  assumes w: "works (fat16_disk s)" and lay: "fat16_layout s" and g: "root_sound s (sec s)"
    and comp: "component_to_name component = Some name" "CHR ''/'' \<notin> set component" "proper_name name"
    and len: "length buffer < 2 ^ 32"
  shows "\<exists>ok s' f. fat16_write_root_file drv (CHR ''/'' # component) buffer s = Some (ok, s') \<and> to s f s'
    \<and> written_to s (sec s) name buffer ok f"
proof -
  let ?es = "root_of s (sec s)"
  obtain r s2 where r: "find_directory_entry_slot drv 0 name True s = Some (r, s2)" "to s (sec s) s2"
    "case r of None \<Rightarrow> (\<forall>e \<in> set ?es. (free_entry e \<or> fe_name e \<noteq> name) \<and> \<not> free_entry e)
     | Some (n, sector, i) \<Rightarrow> \<exists>q < length (root_sectors s). n = root_sectors s ! q \<and> sector = sec s n \<and> i < 16
         \<and> directory_entry i sector = ?es ! (16 * q + i) \<and> slot_at ?es name True (16 * q + i)"
    using find_slot_to [OF w, of name True] unfolding simp_thms by blast
  note eq = write_root_eq [OF comp(1,2) len layout_numbers(1) [OF lay] r(1)]
  have no_change: "written_to s (sec s) name buffer False (sec s)" if "\<not> can_store ?es name"
    using that g by (simp add: written_to_def)
  show ?thesis
  proof (cases r)
    case None
    then have "\<not> can_store ?es name" using r(3) can_store_none by auto
    then show ?thesis using None eq r(2) no_change by auto
  next
    case (Some slot)
    then obtain n sector i q where slot: "r = Some (n, sector, i)" "q < length (root_sectors s)" "n = root_sectors s ! q"
      "sector = sec s n" "i < 16" "directory_entry i sector = ?es ! (16 * q + i)" "slot_at ?es name True (16 * q + i)"
      using r(3) by (cases slot) auto
    let ?x = "?es ! (16 * q + i)"
    note cs = can_store_slot [OF g slot(7)]
    show ?thesis
    proof (cases "\<not> free_entry ?x \<and> fe_attributes ?x AND 0x11 \<noteq> 0")
      case True
      then show ?thesis using eq slot(1,6) r(2) no_change cs by (auto simp: Let_def)
    next
      case False
      then have can: "can_store ?es name" using cs by blast
      let ?commit = "\<lambda>c. commit_entry drv (root_sectors s ! q)
        (put_entry i (new_entry name 0x20 c (ucast (of_nat (length buffer) :: u64))) (sec s (root_sectors s ! q))) c
        (if free_entry ?x then 0 else fe_first_cluster ?x)"
      have stored: "written_to s (sec s) name buffer True f"
        if "root_sound s f" "clusters_needed s (length buffer) \<le> length (free_clusters s (sec s))"
          "\<forall>name'. proper_name name' \<longrightarrow> root_file s f name' = (if name' = name then Some buffer else root_file s (sec s) name')" for f
        using that can by (simp add: written_to_def)
      note commit = commit_file_to [OF lay g comp(3) component_name(2) [OF comp(1)] slot(7,2,5), where buffer = buffer]
      show ?thesis
      proof (cases "buffer = []")
        case True
        have "\<exists>s' f. ?commit 0 s2 = Some (True, s') \<and> to s f s' \<and> root_sound s f
          \<and> (\<forall>name'. proper_name name' \<longrightarrow> root_file s f name' = (if name' = name then Some buffer else root_file s (sec s) name'))"
          by (rule commit [where new = "[]" and ?f2.0 = "sec s"]) (use r(2) True sec_length [OF w] in auto)
        moreover have "fat16_write_root_file drv (CHR ''/'' # component) buffer s = ?commit 0 s2"
          using eq slot(1,3,4,6) False True by (auto simp: Let_def)
        moreover have "clusters_needed s (length buffer) \<le> length (free_clusters s (sec s))"
          using clusters_needed_hold(2) [OF layout_numbers(1) [OF lay], of 0] True by simp
        ultimately show ?thesis using stored by metis
      next
        case nonempty: False
        let ?k = "clusters_needed s (length buffer)"
        note d2 = leads_toD [OF r(2)] and e2 = fat_leads_to [OF r(2)]
        have lay2: "fat16_layout s2" using leads_to_layout [OF r(2)] lay by simp
        have k: "0 < ?k" using clusters_needed_hold(2) [OF layout_numbers(1) [OF lay], of "length buffer"] nonempty by simp
        obtain c s3 f3 where a: "allocate_chain_from drv ?k 0 0 s2 = Some (c, s3)" "to s2 f3 s3" "allocated s (sec s) [] ?k c f3"
          using allocate_chain_from_to [OF d2(5) lay2, of "[]" 0 0 ?k] k unfolding allocated_leads_to [OF r(2)] d2(6) by blast
        have t3: "to s f3 s3" by (rule leads_to_trans [OF r(2) a(2)])
        have high: "f3 m = sec s m" if "unat (root_start_sector s) \<le> unat m" for m using a(3) that by (simp add: allocated_def)
        show ?thesis
        proof (cases "c = 0")
          case True
          then have "length (free_clusters s (sec s)) < ?k" "\<And>x. x \<in> fat_range s \<Longrightarrow> fat_of s f3 x = fat_of s (sec s) x"
            using a(3) by (simp_all add: allocated_def)
          then have "written_to s (sec s) name buffer False f3"
            using root_file_kept [OF lay g, of f3] high by (simp add: written_to_def)
          moreover have "fat16_write_root_file drv (CHR ''/'' # component) buffer s = Some (False, s3)"
            using eq slot(1,6) False nonempty a(1) True by (auto simp: Let_def)
          ultimately show ?thesis using t3 by blast
        next
          case c: False
          then obtain new where new: "length new = ?k" "\<And>x. x \<in> set new \<Longrightarrow> fat_of s (sec s) x = 0 \<and> x < 0xFFF0"
            "fat_chain (fat_range s) (fat_of s f3) c new"
            "\<And>x. x \<in> fat_range s - set new \<Longrightarrow> fat_of s f3 x = fat_of s (sec s) x"
            using a(3) by (auto simp: allocated_def)
          note d3 = leads_toD [OF t3] and e3 = fat_leads_to [OF t3]
          have lay3: "fat16_layout s3" using leads_to_layout [OF t3] lay by simp
          have ch3: "fat_chain (fat_range s3) (fat_of s3 (sec s3)) c new" using new(3) d3(6) e3 by simp
          have cs3: "chain_sectors s3 = chain_sectors s" by (rule chain_sectors_leads_to [OF t3])
          have room: "length buffer - 0 \<le> 512 * length (chain_sectors s3 new)"
            using clusters_needed_hold(1) [OF layout_numbers(1) [OF lay], of "length buffer"] new(1)
            unfolding cs3 by (simp add: length_chain_sectors)
          obtain s4 f2 where w4: "write_chain_from drv c buffer 0 s3 = Some (True, s4)" "to s3 f2 s4"
            "\<And>n. n \<notin> set (chain_sectors s new) \<Longrightarrow> f2 n = f3 n"
            "take (length buffer) (concat (map f2 (chain_sectors s new))) = buffer"
            using write_chain_to [OF d3(5) lay3 ch3 _ room] unfolding cs3 d3(6) by auto
          have in_new: "2 \<le> x \<and> x \<in> fat_range s \<and> fat_of s (sec s) x = 0" if "x \<in> set new" for x
            using that new(2) fat_chain_set [OF new(3) that] by blast
          have low: "f2 n = f3 n" if "unat n < unat (root_start_sector s)" for n
          proof -
            have "n \<notin> set (chain_sectors s new)"
              using chain_sectors_data [OF lay, of new n] in_new that layout_numbers(5) [OF lay] by fastforce
            then show ?thesis by (rule w4(3))
          qed
          have "\<exists>s' f. ?commit c s4 = Some (True, s') \<and> to s f s' \<and> root_sound s f
            \<and> (\<forall>name'. proper_name name' \<longrightarrow> root_file s f name' = (if name' = name then Some buffer else root_file s (sec s) name'))"
          proof (rule commit [where new = new and ?f2.0 = f2])
            show "to s f2 s4" by (rule leads_to_trans [OF t3 w4(2)])
            show "fat_of s f2 x = fat_of s (sec s) x" if "x \<in> fat_range s - set new" for x
              using fat_of_cong [OF lay _ low, of x] new(4) [OF that] that by auto
            show "f2 m = sec s m" if "unat (root_start_sector s) \<le> unat m" "m \<notin> set (chain_sectors s new)" for m
              using w4(3) [OF that(2)] high [OF that(1)] by simp
            show "c = 0 \<and> new = [] \<and> buffer = [] \<or> fat_chain (fat_range s) (fat_of s f2) c new"
              using fat_chain_sectors_cong [OF lay new(3) low] by blast
            show "take (length buffer) (chain_bytes s f2 new) = buffer" using w4(4) by (simp add: chain_bytes_def)
          qed (use in_new len sec_length [OF w] in blast)+
          moreover have "fat16_write_root_file drv (CHR ''/'' # component) buffer s = ?commit c s4"
            using eq slot(1,3,4,6) False nonempty a(1) c w4(1) by (auto simp: Let_def)
          moreover have "?k \<le> length (free_clusters s (sec s))"
            using free_clusters_enough [OF fat_chain_distinct [OF new(3)], of s "sec s"] in_new new(1,2) by auto
          ultimately show ?thesis using stored by metis
        qed
      qed
    qed
  qed
qed

text \<open>Reading gives the content that the map has.\<close>

lemma read_root_to:
  assumes w: "works (fat16_disk s)" and lay: "fat16_layout s" and g: "root_sound s (sec s)"
    and comp: "component_to_name component = Some name" "CHR ''/'' \<notin> set component" "proper_name name"
  shows "\<exists>s' out. fat16_read_file drv (CHR ''/'' # component) capacity s = Some ((of_nat (length out), out), s') \<and> to s (sec s) s'
    \<and> out = (case root_file s (sec s) name of None \<Rightarrow> [] | Some content \<Rightarrow> take (unat capacity) content)"
proof -
  let ?r = "among (listed_with_name name) (root_of s (sec s))"
  obtain s1 where f: "find_in_directory drv 0 name s = Some (case ?r of None \<Rightarrow> None | Some r \<Rightarrow> r, s1)" "to s (sec s) s1"
    using find_in_root_to [OF w] by blast
  note d1 = leads_toD [OF f(2)] and e1 = fat_leads_to [OF f(2)]
  have p: "resolve_path drv (CHR ''/'' # component) s = Some (case ?r of None \<Rightarrow> None | Some r \<Rightarrow> r, s1)"
    unfolding resolve_path_root [OF comp(1,2)] by (rule f(1))
  show ?thesis
  proof (cases "\<exists>e. ?r = Some (Some e) \<and> \<not> is_directory_entry e")
    case False
    then have "fat16_read_file drv (CHR ''/'' # component) capacity s = Some ((0, []), s1)" "root_file s (sec s) name = None"
      using p by (auto simp: fat16_read_file_def root_file_def split: option.splits)
    then show ?thesis using f(2) by simp
  next
    case True
    then obtain e where e: "?r = Some (Some e)" "\<not> is_directory_entry e" by blast
    then have rd: "fat16_read_file drv (CHR ''/'' # component) capacity s = read_entry drv e capacity s1"
      and rf: "root_file s (sec s) name = Some (entry_content s (sec s) e)"
      using p by (simp_all add: fat16_read_file_def root_file_def)
    obtain j where j: "j < length (root_of s (sec s))" "e = root_of s (sec s) ! j" "listed_with_name name e"
      using among_found [OF e(1)] by blast
    have sound: "entry_sound s (sec s) e" using root_soundD(2) [OF g j(1)] listed_used [OF j(3) comp(3)] j(2) by simp
    show ?thesis
    proof (cases "fe_first_cluster e = 0 \<and> fe_size e = 0")
      case True
      then have "read_entry drv e capacity s1 = Some ((0, []), s1)"
        unfolding read_entry_def by (subst read_chain.simps) simp
      then show ?thesis using rd rf f(2) True by (simp add: entry_content_def)
    next
      case False
      then have ch: "fat_chain (fat_range s) (fat_of s (sec s)) (fe_first_cluster e) (entry_chain s (sec s) e)"
        using sound j(3) by (auto simp: entry_sound_def listed_with_name_def)
      have ch1: "fat_chain (fat_range s1) (fat_of s1 (sec s1)) (fe_first_cluster e) (entry_chain s (sec s) e)" using ch d1(6) e1 by simp
      have lay1: "fat16_layout s1" using leads_to_layout [OF f(2)] lay by simp
      have z: "length ([] :: bytes) \<le> min (unat (fe_size e)) (unat capacity)" by simp
      obtain s' out where o: "read_chain drv (fe_first_cluster e) (unat (fe_size e)) (unat capacity) [] s1
          = Some ((of_nat (length out), out), s')" "to s1 (sec s1) s'"
        "out = take (min (unat (fe_size e)) (unat capacity)) (chain_bytes s1 (sec s1) (entry_chain s (sec s) e))"
        using read_chain_to [OF d1(5) lay1 ch1 z] unfolding append_Nil list.size(3) diff_zero by blast
      have "out = take (unat capacity) (entry_content s (sec s) e)"
        using o(3) d1(6) chain_sectors_leads_to [OF f(2)] by (simp add: entry_content_def chain_bytes_def min.commute)
      then show ?thesis using rd rf o(1) leads_to_trans [OF f(2) o(2)] d1(6) by (simp add: read_entry_def)
    qed
  qed
qed

lemma delete_root_to:
  assumes w: "works (fat16_disk s)" and lay: "fat16_layout s" and g: "root_sound s (sec s)"
    and comp: "component_to_name component = Some name" "CHR ''/'' \<notin> set component" "proper_name name"
  shows "\<exists>ok s' f. fat16_delete_root_file drv (CHR ''/'' # component) s = Some (ok, s') \<and> to s f s' \<and> root_sound s f
    \<and> (ok \<longleftrightarrow> (\<exists>e \<in> set (root_of s (sec s)). \<not> free_entry e \<and> fe_name e = name \<and> fe_attributes e AND 0x11 = 0))
    \<and> (\<forall>name'. proper_name name' \<longrightarrow>
         root_file s f name' = (if ok \<and> name' = name then None else root_file s (sec s) name'))"
proof -
  let ?es = "root_of s (sec s)"
  obtain r s2 where r: "find_directory_entry_slot drv 0 name False s = Some (r, s2)" "to s (sec s) s2"
    "case r of None \<Rightarrow> (\<forall>e \<in> set ?es. free_entry e \<or> fe_name e \<noteq> name)
     | Some (n, sector, i) \<Rightarrow> \<exists>q < length (root_sectors s). n = root_sectors s ! q \<and> sector = sec s n \<and> i < 16
         \<and> directory_entry i sector = ?es ! (16 * q + i) \<and> slot_at ?es name False (16 * q + i)"
    using find_slot_to [OF w, of name False] unfolding simp_thms by blast
  note d2 = leads_toD [OF r(2)] and e2 = fat_leads_to [OF r(2)]
  note defs = fat16_delete_root_file_def resolve_parent_root [OF comp(1,2)] r(1)
  show ?thesis
  proof (cases r)
    case None
    have "fat16_delete_root_file drv (CHR ''/'' # component) s = Some (False, s2)" using None by (simp add: defs)
    moreover have "\<not> (\<exists>e \<in> set ?es. \<not> free_entry e \<and> fe_name e = name \<and> fe_attributes e AND 0x11 = 0)" using None r(3) by auto
    ultimately show ?thesis using r(2) g by auto
  next
    case (Some slot)
    then obtain n sector i q where slot: "r = Some (n, sector, i)" "q < length (root_sectors s)" "n = root_sectors s ! q"
      "sector = sec s n" "i < 16" "directory_entry i sector = ?es ! (16 * q + i)" "slot_at ?es name False (16 * q + i)"
      using r(3) by (cases slot) auto
    let ?j = "16 * q + i" and ?x = "?es ! (16 * q + i)"
    have j: "?j < length ?es" "\<not> free_entry ?x" "fe_name ?x = name" using slot(7) by (auto simp: slot_at_def)
    have only: "k = ?j" if "k < length ?es" "\<not> free_entry (?es ! k)" "fe_name (?es ! k) = name" for k
      using root_soundD(3) [OF g that(1) j(1) that(2) j(2)] that(3) j(3) by auto
    show ?thesis
    proof (cases "fe_attributes ?x AND 0x11 = 0")
      case False
      have "fat16_delete_root_file drv (CHR ''/'' # component) s = Some (False, s2)" using slot(1,6) False by (simp add: defs)
      moreover have "\<not> (\<exists>e \<in> set ?es. \<not> free_entry e \<and> fe_name e = name \<and> fe_attributes e AND 0x11 = 0)"
        using only False by (metis in_set_conv_nth)
      ultimately show ?thesis using r(2) g by auto
    next
      case True
      let ?e = "?x\<lparr>fe_name := (fe_name ?x)[0 := 0xE5]\<rparr>"
      define old where "old = entry_chain s (sec s) ?x"
      have lay2: "fat16_layout s2" using leads_to_layout [OF r(2)] lay by simp
      have q2: "q < length (root_sectors s2)" "n = root_sectors s2 ! q" using slot(2,3) d2(7) by simp_all
      have l: "length sector = 512" using slot(4) sec_length [OF w] by simp
      have ents: "directory_entry k (mark_deleted i sector) = (if k = i then ?e else directory_entry k (sec s2 n))" if "k < 16" for k
        using directory_entry_deleted(1) [OF l slot(5) that] slot(4,6) d2(6) by simp
      have "fe_first_cluster ?x = 0 \<and> old = [] \<or> fat_chain (fat_range s2) (fat_of s2 (sec s2)) (fe_first_cluster ?x) old"
        using root_soundD(2) [OF g j(1,2)] entry_chain_0 [of ?x s "sec s"] d2(6) e2 unfolding old_def entry_sound_def by auto
      then obtain s3 s' f where f: "fat16_write_sector drv n (mark_deleted i sector) s2 = (True, s3)"
        "fat16_free_chain drv (fe_first_cluster ?x) s3 = Some (True, s')" "to s2 f s'"
        "root_of s2 f = (root_of s2 (sec s2))[?j := ?e]"
        "\<forall>x \<in> fat_range s2. fat_of s2 f x = (if x \<in> set old then 0 else fat_of s2 (sec s2) x)"
        "\<forall>m. unat (data_start_sector s2) \<le> unat m \<longrightarrow> f m = sec s2 m"
        using store_entry_to [OF d2(5) lay2 q2(1) slot(5) q2(2) directory_entry_deleted(2) [OF l slot(5) slot(5)] ents] by blast
      have st: "file_stored s (sec s) ?j old [] ?e f" using f(4-6) unfolding d2 e2 file_stored_def by simp
      have rep: "entry_replaced s (sec s) ?j ?e f"
        by (rule file_stored_replaced [OF lay g st _ j(1)]) (simp add: old_def j(2))
      have name0: "fe_name ?e ! 0 = 0xE5" using j(3) component_name(2) [OF comp(1)] by simp
      have free: "free_entry ?e" using name0 by (simp add: free_entry_def)
      have tidy: "fe_name (?es ! k) ! 0 \<noteq> 0" if "k < ?j" for k
        using root_soundD(1) [OF g j(1) that] j(2) by (auto simp: free_entry_def)
      have sound: "root_sound s f" by (rule root_sound_replaced [OF rep g]) (use name0 tidy free in simp_all)
      have gone: "root_file s f name = None"
      proof (rule ccontr)
        assume "root_file s f name \<noteq> None"
        then obtain k where k: "k < length (root_of s f)" "listed_with_name name (root_of s f ! k)"
          using root_file_iff [OF sound comp(3)] by blast
        have len: "length (root_of s f) = length ?es" unfolding entry_replacedD(1) [OF rep g] by (rule length_list_update)
        have at: "root_of s f ! k = (if ?j = k then ?e else ?es ! k)"
          unfolding entry_replacedD(1) [OF rep g] by (rule nth_list_update [OF j(1)])
        note u = listed_used [OF k(2) comp(3)]
        have jk: "?j \<noteq> k"
        proof
          assume "?j = k"
          then have "root_of s f ! k = ?e" unfolding at by (rule if_P)
          then show False using free u by metis
        qed
        then have at': "root_of s f ! k = ?es ! k" unfolding at by (rule if_not_P)
        show False using jk only [of k] k(1) u unfolding len at' by metis
      qed
      have others: "root_file s f name' = root_file s (sec s) name'" if "proper_name name'" "name' \<noteq> name" for name'
        by (rule root_file_replaced [OF rep g sound that(1)]) (use free that(2) j(3) in auto)
      have "fat16_delete_root_file drv (CHR ''/'' # component) s = Some (True, s')"
        using slot(1,6) True f(1,2) by (simp add: defs delete_entry_def)
      moreover have "\<exists>e \<in> set ?es. \<not> free_entry e \<and> fe_name e = name \<and> fe_attributes e AND 0x11 = 0" using j True nth_mem by blast
      ultimately show ?thesis using leads_to_trans [OF r(2) f(3)] sound gone others by auto
    qed
  qed
qed

end

end
