(* ===== verification/Virtio_Block.thy ===== *)
theory Virtio_Block
  imports Fat16_Chains
begin

text \<open>
  \<^verbatim>\<open>src/kernel/virtio_block.c\<close>: the legacy storage backend, which answers sector requests with the VirtIO queue or
  hands them to another driver, and stages 512-byte sectors on disks with larger blocks.  The port and bus accesses,
  the device that serves the queue, and the drivers \<^verbatim>\<open>ide_ata.c\<close>, \<^verbatim>\<open>ahci.c\<close> and \<^verbatim>\<open>hyperv_storage.c\<close> are the record
  \<open>virtio_hardware\<close>, an argument of the operations; \<open>'h\<close> is the state behind it.
\<close>

section \<open>State\<close>

datatype block_backend = BLOCK_BACKEND_NONE | BLOCK_BACKEND_VIRTIO | BLOCK_BACKEND_IDE_ATA | BLOCK_BACKEND_HYPERV
  | BLOCK_BACKEND_AHCI

text \<open>The memory that a descriptor points to: the request header, the buffer of the caller or the status byte.\<close>

datatype virtq_address = Request_header | Request_buffer | Request_status

record VIRTQ_DESCRIPTOR =
  vd_address :: virtq_address
  vd_length :: u32
  vd_flags :: u16
  vd_next :: u16

record VIRTIO_BLOCK_REQUEST =
  req_type :: u32
  req_reserved :: u32
  req_sector :: u64

definition VIRTIO_BLOCK_READ :: u32 where "VIRTIO_BLOCK_READ = 0"
definition VIRTIO_BLOCK_WRITE :: u32 where "VIRTIO_BLOCK_WRITE = 1"
definition VIRTQ_DESC_F_NEXT :: u16 where "VIRTQ_DESC_F_NEXT = 1"
definition VIRTQ_DESC_F_WRITE :: u16 where "VIRTQ_DESC_F_WRITE = 2"

text \<open>\<open>hw_notify\<close> is the device from the write to its notification port on: when the request is used before the
  loop runs out, the buffer and the status byte that the device leaves.\<close>

record 'h virtio_hardware =
  hw_notify :: "VIRTIO_BLOCK_REQUEST \<Rightarrow> VIRTQ_DESCRIPTOR list \<Rightarrow> bytes \<Rightarrow> 'h \<Rightarrow> (bytes \<times> u8) option \<times> 'h"
  hw_in16 :: "u16 \<Rightarrow> 'h \<Rightarrow> u16 \<times> 'h"
  hw_in32 :: "u16 \<Rightarrow> 'h \<Rightarrow> u32 \<times> 'h"
  hw_out8 :: "u16 \<Rightarrow> u8 \<Rightarrow> 'h \<Rightarrow> 'h"
  hw_out16 :: "u16 \<Rightarrow> u16 \<Rightarrow> 'h \<Rightarrow> 'h"
  hw_out32 :: "u16 \<Rightarrow> u32 \<Rightarrow> 'h \<Rightarrow> 'h"
  pci_write_bar :: "nat \<Rightarrow> u32 \<Rightarrow> 'h \<Rightarrow> 'h"
  pci_enable_bus_mastering :: "'h \<Rightarrow> 'h"
  queue_memory_page :: u32
  ide_ata_initialize :: "'h \<Rightarrow> bool \<times> 'h"
  ide_ata_read_sector :: "u64 \<Rightarrow> 'h \<Rightarrow> bytes option \<times> 'h"
  ide_ata_write_sector :: "u64 \<Rightarrow> bytes \<Rightarrow> 'h \<Rightarrow> bool \<times> 'h"
  ahci_initialize :: "'h \<Rightarrow> u32 \<times> 'h"
  ahci_read_sector :: "u64 \<Rightarrow> 'h \<Rightarrow> bytes option \<times> 'h"
  ahci_write_sector :: "u64 \<Rightarrow> bytes \<Rightarrow> 'h \<Rightarrow> bool \<times> 'h"
  hyperv_storage_initialize :: "'h \<Rightarrow> bool \<times> 'h"
  hyperv_storage_read_sector_ex :: "u8 \<Rightarrow> u8 \<Rightarrow> u64 \<Rightarrow> 'h \<Rightarrow> bytes option \<times> 'h"
  hyperv_storage_write_sector_ex :: "u8 \<Rightarrow> u8 \<Rightarrow> u64 \<Rightarrow> bytes \<Rightarrow> 'h \<Rightarrow> bool \<times> 'h"
  hyperv_storage_get_devices :: "'h \<Rightarrow> ASAS_STORAGE_DEVICE list"

record 'h virtio_block_state =
  io_base :: u16
  queue_size :: u16
  available_index :: u16
  available_ring :: "u16 list"
  active_backend :: block_backend
  block_current_target :: u8
  block_current_lun :: u8
  virtio_sector_count :: u64
  virtio_logical_block_size :: u32
  legacy_sector_staging :: bytes
  vb_hardware :: 'h

section \<open>Initialization\<close>

text \<open>The first register of the device that is in the port space, and port 0xC000 when it has no address yet.\<close>

definition find_io_bar :: "'h virtio_hardware \<Rightarrow> u32 list \<Rightarrow> 'h \<Rightarrow> u16 \<times> 'h" where
  "find_io_bar hw bars h =
     (case find (\<lambda>i. bars ! i AND 1 \<noteq> 0) [0 ..< 6] of
        None \<Rightarrow> (0, h)
      | Some i \<Rightarrow>
          let base = ucast (bars ! i AND NOT 3) in
          if base = 0 then (0xC000, pci_write_bar hw i (0xC000 OR 1) h) else (base, h))"

text \<open>The negotiation of the features and the discovery of the queue; the memory of the queue is cleared.\<close>

definition negotiate :: "'h virtio_hardware \<Rightarrow> u16 \<Rightarrow> 'h \<Rightarrow> u32 \<times> u16 \<times> 'h" where
  "negotiate hw base h =
     (let h1 = hw_out8 hw (base + 0x12) (1 OR 2) (hw_out8 hw (base + 0x12) 1 (hw_out8 hw (base + 0x12) 0 h));
          (features, h2) = hw_in32 hw (base + 0x00) h1;
          h3 = hw_out16 hw (base + 0x0E) 0 (hw_out32 hw (base + 0x04) (features AND 0x40) h2);
          (n, h4) = hw_in16 hw (base + 0x0C) h3
      in (features, n, h4))"

definition virtio_block_initialize ::
  "'h virtio_hardware \<Rightarrow> u32 list \<Rightarrow> 'h virtio_block_state \<Rightarrow> bool \<times> 'h virtio_block_state" where
  "virtio_block_initialize hw bars s =
     (let (base, h1) = find_io_bar hw bars (vb_hardware s);
          s1 = s\<lparr>io_base := base, vb_hardware := h1\<rparr>
      in if base = 0 then (False, s1)
         else
           let (features, n, h2) = negotiate hw base (pci_enable_bus_mastering hw h1);
               s2 = s1\<lparr>queue_size := n, vb_hardware := h2\<rparr>
           in if n = 0 \<or> n > 256 then (False, s2)
              else
                let h3 = hw_out8 hw (base + 0x12) (1 OR 2 OR 4) (hw_out32 hw (base + 0x08) (queue_memory_page hw) h2);
                    (low, h4) = hw_in32 hw (base + 0x14) h3;
                    (high, h5) = hw_in32 hw (base + 0x18) h4;
                    (configured, h6) = (if features AND 0x40 \<noteq> 0 then hw_in32 hw (base + 0x28) h5 else (0, h5));
                    valid = (configured \<ge> 512 \<and> configured \<le> 4096 \<and> configured AND (configured - 1) = 0)
                in (True, s2\<lparr>available_index := 0, available_ring := replicate 256 0,
                     virtio_sector_count := ucast low OR push_bit 32 (ucast high),
                     virtio_logical_block_size := (if features AND 0x40 \<noteq> 0 \<and> valid then configured
                       else virtio_logical_block_size s2),
                     active_backend := BLOCK_BACKEND_VIRTIO, vb_hardware := h6\<rparr>))"

definition virtio_block_use_ide_ata :: "'h virtio_hardware \<Rightarrow> 'h virtio_block_state \<Rightarrow> bool \<times> 'h virtio_block_state" where
  "virtio_block_use_ide_ata hw s =
     (let (ok, h) = ide_ata_initialize hw (vb_hardware s); s1 = s\<lparr>vb_hardware := h\<rparr>
      in if ok then (True, s1\<lparr>active_backend := BLOCK_BACKEND_IDE_ATA\<rparr>) else (False, s1))"

definition virtio_block_use_hyperv_storage ::
  "'h virtio_hardware \<Rightarrow> 'h virtio_block_state \<Rightarrow> bool \<times> 'h virtio_block_state" where
  "virtio_block_use_hyperv_storage hw s =
     (let (ok, h) = hyperv_storage_initialize hw (vb_hardware s); s1 = s\<lparr>vb_hardware := h\<rparr>
      in if ok then (True, s1\<lparr>active_backend := BLOCK_BACKEND_HYPERV\<rparr>) else (False, s1))"

definition virtio_block_use_ahci :: "'h virtio_hardware \<Rightarrow> 'h virtio_block_state \<Rightarrow> bool \<times> 'h virtio_block_state" where
  "virtio_block_use_ahci hw s =
     (let (n, h) = ahci_initialize hw (vb_hardware s); s1 = s\<lparr>vb_hardware := h\<rparr>
      in if n = 0 then (False, s1) else (True, s1\<lparr>active_backend := BLOCK_BACKEND_AHCI\<rparr>))"

definition virtio_block_backend_name :: "'h virtio_block_state \<Rightarrow> string" where
  "virtio_block_backend_name s = (case active_backend s of
     BLOCK_BACKEND_VIRTIO \<Rightarrow> ''VirtIO'' | BLOCK_BACKEND_IDE_ATA \<Rightarrow> ''IDE ATA''
   | BLOCK_BACKEND_HYPERV \<Rightarrow> ''Hyper-V StorVSC'' | BLOCK_BACKEND_AHCI \<Rightarrow> ''AHCI'' | BLOCK_BACKEND_NONE \<Rightarrow> ''none'')"

section \<open>Transfers\<close>

definition request_descriptors :: "u32 \<Rightarrow> u32 \<Rightarrow> VIRTQ_DESCRIPTOR list" where
  "request_descriptors len type =
     [\<lparr>vd_address = Request_header, vd_length = 16, vd_flags = VIRTQ_DESC_F_NEXT, vd_next = 1\<rparr>,
      \<lparr>vd_address = Request_buffer, vd_length = len,
       vd_flags = (if type = VIRTIO_BLOCK_READ then VIRTQ_DESC_F_NEXT OR VIRTQ_DESC_F_WRITE else VIRTQ_DESC_F_NEXT),
       vd_next = 2\<rparr>,
      \<lparr>vd_address = Request_status, vd_length = 1, vd_flags = VIRTQ_DESC_F_WRITE, vd_next = 0\<rparr>]"

text \<open>The result is whether the request succeeded, and the buffer afterwards.\<close>

definition virtio_block_transfer ::
  "'h virtio_hardware \<Rightarrow> u64 \<Rightarrow> u32 \<Rightarrow> u32 \<Rightarrow> bytes \<Rightarrow> u32 \<Rightarrow> 'h virtio_block_state \<Rightarrow> bool \<times> bytes \<times> 'h virtio_block_state" where
  "virtio_block_transfer hw sector cnt bs buffer type s =
     (if cnt = 0 \<or> bs < 512 \<or> cnt > 0xFFFFFFFF div bs then (False, buffer, s)
      else
        let s1 = s\<lparr>available_ring := (available_ring s)[unat (available_index s mod queue_size s) := 0],
                   available_index := available_index s + 1\<rparr>
        in (case hw_notify hw \<lparr>req_type = type, req_reserved = 0, req_sector = sector\<rparr> (request_descriptors (cnt * bs) type)
              buffer (vb_hardware s) of
              (None, h) \<Rightarrow> (False, buffer, s1\<lparr>vb_hardware := h\<rparr>)
            | (Some (out, status), h) \<Rightarrow> (status = 0, out, s1\<lparr>vb_hardware := h\<rparr>)))"

text \<open>One block into the staging buffer, and from it.\<close>

definition stage_block ::
  "'h virtio_hardware \<Rightarrow> u64 \<Rightarrow> u32 \<Rightarrow> 'h virtio_block_state \<Rightarrow> bool \<times> 'h virtio_block_state" where
  "stage_block hw base type s =
     (case virtio_block_transfer hw base 1 (virtio_logical_block_size s)
        (take (unat (virtio_logical_block_size s)) (legacy_sector_staging s)) type s of
        (ok, out, s1) \<Rightarrow> (ok, s1\<lparr>legacy_sector_staging := put_bytes 0 out (legacy_sector_staging s1)\<rparr>))"

definition on_hardware :: "'r \<times> 'h \<Rightarrow> 'h virtio_block_state \<Rightarrow> 'r \<times> 'h virtio_block_state" where
  "on_hardware r s = (fst r, s\<lparr>vb_hardware := snd r\<rparr>)"

definition virtio_block_read_sector ::
  "'h virtio_hardware \<Rightarrow> u64 \<Rightarrow> 'h virtio_block_state \<Rightarrow> bytes option \<times> 'h virtio_block_state" where
  "virtio_block_read_sector hw sector s =
     (if active_backend s = BLOCK_BACKEND_IDE_ATA then on_hardware (ide_ata_read_sector hw sector (vb_hardware s)) s
      else if active_backend s = BLOCK_BACKEND_HYPERV
      then on_hardware (hyperv_storage_read_sector_ex hw (block_current_target s) (block_current_lun s) sector (vb_hardware s)) s
      else if active_backend s = BLOCK_BACKEND_AHCI then on_hardware (ahci_read_sector hw sector (vb_hardware s)) s
      else if virtio_logical_block_size s = 512
      then (case virtio_block_transfer hw sector 1 512 (replicate 512 0) VIRTIO_BLOCK_READ s of
              (ok, out, s1) \<Rightarrow> (if ok then Some out else None, s1))
      else
        let factor = ucast (virtio_logical_block_size s div 512);
            offset = unat (ucast (sector mod factor) * 512 :: u32)
        in (case stage_block hw (sector - sector mod factor) VIRTIO_BLOCK_READ s of
              (ok, s1) \<Rightarrow> (if ok then Some (take 512 (drop offset (legacy_sector_staging s1))) else None, s1)))"

definition virtio_block_write_sector ::
  "'h virtio_hardware \<Rightarrow> u64 \<Rightarrow> bytes \<Rightarrow> 'h virtio_block_state \<Rightarrow> bool \<times> 'h virtio_block_state" where
  "virtio_block_write_sector hw sector data s =
     (if active_backend s = BLOCK_BACKEND_IDE_ATA then on_hardware (ide_ata_write_sector hw sector data (vb_hardware s)) s
      else if active_backend s = BLOCK_BACKEND_HYPERV
      then on_hardware (hyperv_storage_write_sector_ex hw (block_current_target s) (block_current_lun s) sector data (vb_hardware s)) s
      else if active_backend s = BLOCK_BACKEND_AHCI then on_hardware (ahci_write_sector hw sector data (vb_hardware s)) s
      else if virtio_logical_block_size s = 512
      then (case virtio_block_transfer hw sector 1 512 data VIRTIO_BLOCK_WRITE s of (ok, _, s1) \<Rightarrow> (ok, s1))
      else
        let factor = ucast (virtio_logical_block_size s div 512);
            offset = unat (ucast (sector mod factor) * 512 :: u32)
        in (case stage_block hw (sector - sector mod factor) VIRTIO_BLOCK_READ s of
              (ok, s1) \<Rightarrow>
                if ok
                then stage_block hw (sector - sector mod factor) VIRTIO_BLOCK_WRITE
                  (s1\<lparr>legacy_sector_staging := put_bytes offset (take 512 data) (legacy_sector_staging s1)\<rparr>)
                else (False, s1)))"

definition virtio_block_select_device :: "u8 \<Rightarrow> u8 \<Rightarrow> 'h virtio_block_state \<Rightarrow> 'h virtio_block_state" where
  "virtio_block_select_device target lun s = s\<lparr>block_current_target := target, block_current_lun := lun\<rparr>"

definition virtio_driver :: "'h virtio_hardware \<Rightarrow> 'h virtio_block_state sector_driver" where
  "virtio_driver hw = \<lparr>vb_read = virtio_block_read_sector hw, vb_write = virtio_block_write_sector hw,
     vb_select = virtio_block_select_device\<rparr>"

definition virtio_block_legacy_backend_active :: "'h virtio_block_state \<Rightarrow> bool" where
  "virtio_block_legacy_backend_active s \<longleftrightarrow> active_backend s = BLOCK_BACKEND_IDE_ATA"

text \<open>The number of devices that the code returns is the length of the list.\<close>

definition virtio_block_get_storage_devices :: "'h virtio_hardware \<Rightarrow> 'h virtio_block_state \<Rightarrow> ASAS_STORAGE_DEVICE list" where
  "virtio_block_get_storage_devices hw s =
     (if active_backend s = BLOCK_BACKEND_HYPERV then hyperv_storage_get_devices hw (vb_hardware s) else [])"

section \<open>The direct block device\<close>

definition virtio_direct_read ::
  "'h virtio_hardware \<Rightarrow> ASAS_BLOCK_DEVICE \<Rightarrow> u64 \<Rightarrow> u32 \<Rightarrow> 'h virtio_block_state \<Rightarrow> bytes option \<times> 'h virtio_block_state" where
  "virtio_direct_read hw device lba cnt s =
     (let factor = logical_block_size device div 512 in
      (case virtio_block_transfer hw (lba * ucast factor) cnt (logical_block_size device)
         (replicate (unat (cnt * logical_block_size device)) 0) VIRTIO_BLOCK_READ s of
         (ok, out, s1) \<Rightarrow> (if ok then Some out else None, s1)))"

definition virtio_direct_write ::
  "'h virtio_hardware \<Rightarrow> ASAS_BLOCK_DEVICE \<Rightarrow> u64 \<Rightarrow> u32 \<Rightarrow> bytes \<Rightarrow> 'h virtio_block_state \<Rightarrow> bool \<times> 'h virtio_block_state" where
  "virtio_direct_write hw device lba cnt data s =
     (let factor = logical_block_size device div 512 in
      (case virtio_block_transfer hw (lba * ucast factor) cnt (logical_block_size device) data VIRTIO_BLOCK_WRITE s of
         (ok, _, s1) \<Rightarrow> (ok, s1)))"

definition virtio_direct_flush :: "ASAS_BLOCK_DEVICE \<Rightarrow> 'h virtio_block_state \<Rightarrow> bool \<times> 'h virtio_block_state" where
  "virtio_direct_flush device s = (True, s)"

definition virtio_direct_ops :: "'h virtio_hardware \<Rightarrow> 'h virtio_block_state ASAS_BLOCK_DEVICE_OPS" where
  "virtio_direct_ops hw = \<lparr>read_blocks = Some (virtio_direct_read hw), write_blocks = Some (virtio_direct_write hw),
     flush_blocks = Some virtio_direct_flush\<rparr>"

text \<open>\<open>ops\<close> is the number of \<open>virtio_direct_ops\<close> among the drivers of the block devices.\<close>

definition virtio_block_register_device ::
  "'h virtio_hardware \<Rightarrow> nat \<Rightarrow> 'd block_state \<Rightarrow> 'h virtio_block_state \<Rightarrow> bool \<times> 'd block_state \<times> 'h virtio_block_state" where
  "virtio_block_register_device hw ops bs s =
     (if active_backend s \<noteq> BLOCK_BACKEND_VIRTIO \<or> virtio_sector_count s = 0 \<or> block_device_find ''virtio0'' bs \<noteq> None
      then (False, bs, s)
      else
        (case virtio_block_transfer hw 0 2 (virtio_logical_block_size s)
           (replicate (2 * unat (virtio_logical_block_size s)) 0) VIRTIO_BLOCK_READ s of
           (ok, _, s1) \<Rightarrow>
             if \<not> ok then (False, bs, s1)
             else
               let (r, bs1) = block_device_register (Some \<lparr>bd_id = 0, bd_name = ''virtio0'',
                   logical_block_size = virtio_logical_block_size s1, physical_block_size = virtio_logical_block_size s1,
                   block_count = virtio_sector_count s1 div ucast (virtio_logical_block_size s1 div 512),
                   bd_flags = 0, bd_target = 0, bd_lun = 0, start_lba = 0, bd_parent = None,
                   bd_ops = Driver_ops ops, driver_context = 0\<rparr>) bs
               in (r \<noteq> None, bs1, s1)))"

section \<open>The backend as a disk of sectors\<close>

text \<open>A disk behind the queue: \<open>stored\<close> is what its 512-byte sectors hold, and a request for up to eight of them that
  is described as the code does it reads or writes them.\<close>

locale virtio_disk =
  fixes hw :: "'h virtio_hardware" and stored :: "'h \<Rightarrow> u64 \<Rightarrow> bytes" and ready :: "'h \<Rightarrow> bool"
  assumes serves_read: "ready h \<Longrightarrow> length buffer = 512 * k \<Longrightarrow> 0 < k \<Longrightarrow> k \<le> 8 \<Longrightarrow>
      \<exists>h'. hw_notify hw \<lparr>req_type = VIRTIO_BLOCK_READ, req_reserved = 0, req_sector = n\<rparr>
          (request_descriptors (of_nat (512 * k)) VIRTIO_BLOCK_READ) buffer h
        = (Some (concat (map (\<lambda>j. stored h (n + of_nat j)) [0 ..< k]), 0), h') \<and> ready h' \<and> stored h' = stored h"
    and serves_write: "ready h \<Longrightarrow> length buffer = 512 * k \<Longrightarrow> 0 < k \<Longrightarrow> k \<le> 8 \<Longrightarrow>
      \<exists>h'. hw_notify hw \<lparr>req_type = VIRTIO_BLOCK_WRITE, req_reserved = 0, req_sector = n\<rparr>
          (request_descriptors (of_nat (512 * k)) VIRTIO_BLOCK_WRITE) buffer h
        = (Some (buffer, 0), h') \<and> ready h'
          \<and> stored h' = (\<lambda>m. if unat (m - n) < k then take 512 (drop (512 * unat (m - n)) buffer) else stored h m)"
    and stored_length: "ready h \<Longrightarrow> length (stored h n) = 512"

text \<open>The backend is the queue, and the blocks of the disk have 512, 1024, 2048 or 4096 bytes.\<close>

definition virtio_ready :: "('h \<Rightarrow> bool) \<Rightarrow> 'h virtio_block_state \<Rightarrow> bool" where
  "virtio_ready ready s \<longleftrightarrow> ready (vb_hardware s) \<and> active_backend s = BLOCK_BACKEND_VIRTIO
     \<and> virtio_logical_block_size s \<in> {512, 1024, 2048, 4096} \<and> length (legacy_sector_staging s) = 4096"

definition virtio_content :: "('h \<Rightarrow> u64 \<Rightarrow> bytes) \<Rightarrow> 'h virtio_block_state \<Rightarrow> u64 \<Rightarrow> bytes" where
  "virtio_content stored s = stored (vb_hardware s)"

lemma virtio_block_size:
  assumes "virtio_ready ready s"
  obtains k where "virtio_logical_block_size s = of_nat (512 * k)" "unat (virtio_logical_block_size s) = 512 * k"
    "unat (virtio_logical_block_size s div 512) = k" "0 < k" "k \<le> 8" "512 \<le> virtio_logical_block_size s"
    "1 \<le> 0xFFFFFFFF div virtio_logical_block_size s" "virtio_logical_block_size s = 512 \<longleftrightarrow> k = 1"
proof -
  have "virtio_logical_block_size s \<in> {512, 1024, 2048, 4096}" using assms by (simp add: virtio_ready_def)
  then show ?thesis using that [of 1] that [of 2] that [of 4] that [of 8] by (auto simp: unat_div word_le_nat_alt)
qed

lemma buffer_in_sectors:
  assumes "length b = 512 * k"
  shows "concat (map (\<lambda>j. take 512 (drop (512 * j) b)) [0 ..< k]) = b"
  using assms
proof (induction k arbitrary: b)
  case (Suc k)
  have "map (\<lambda>j. take 512 (drop (512 * j) b)) [0 ..< Suc k]
      = take 512 b # map (\<lambda>j. take 512 (drop (512 * j) (drop 512 b))) [0 ..< k]"
    by (simp add: upt_conv_Cons map_Suc_upt [symmetric] comp_def algebra_simps del: upt_Suc)
  then show ?case using Suc.IH [of "drop 512 b"] Suc.prems by (simp del: upt_Suc)
qed simp

context virtio_disk
begin

text \<open>A request for one block.\<close>

lemma transfer_read:
  assumes "virtio_ready ready s" "0 < k" "k \<le> 8" "length buffer = 512 * k" "bs = of_nat (512 * k)"
  shows "\<exists>s'. virtio_block_transfer hw n 1 bs buffer VIRTIO_BLOCK_READ s
      = (True, concat (map (\<lambda>j. stored (vb_hardware s) (n + of_nat j)) [0 ..< k]), s')
    \<and> virtio_ready ready s' \<and> virtio_content stored s' = virtio_content stored s
    \<and> virtio_logical_block_size s' = virtio_logical_block_size s \<and> legacy_sector_staging s' = legacy_sector_staging s"
proof -
  have u: "unat bs = 512 * k" unfolding assms(5) unat_of_nat using assms(3) by simp
  have v: "\<not> bs < 512" "\<not> 1 > 0xFFFFFFFF div bs"
    using assms(2,3) by (simp_all add: word_less_nat_alt unat_div u div_greater_zero_iff not_less)
  obtain h' where "hw_notify hw \<lparr>req_type = VIRTIO_BLOCK_READ, req_reserved = 0, req_sector = n\<rparr>
      (request_descriptors bs VIRTIO_BLOCK_READ) buffer (vb_hardware s)
      = (Some (concat (map (\<lambda>j. stored (vb_hardware s) (n + of_nat j)) [0 ..< k]), 0), h')" "ready h'" "stored h' = stored (vb_hardware s)"
    using serves_read [of "vb_hardware s" buffer k n] assms by (auto simp: virtio_ready_def)
  then show ?thesis using assms(1) v by (simp add: virtio_block_transfer_def virtio_ready_def virtio_content_def)
qed

lemma transfer_write:
  assumes "virtio_ready ready s" "0 < k" "k \<le> 8" "length buffer = 512 * k" "bs = of_nat (512 * k)"
  shows "\<exists>s'. virtio_block_transfer hw n 1 bs buffer VIRTIO_BLOCK_WRITE s = (True, buffer, s')
    \<and> virtio_ready ready s' \<and> virtio_content stored s'
        = (\<lambda>m. if unat (m - n) < k then take 512 (drop (512 * unat (m - n)) buffer) else virtio_content stored s m)
    \<and> virtio_logical_block_size s' = virtio_logical_block_size s \<and> legacy_sector_staging s' = legacy_sector_staging s"
proof -
  have u: "unat bs = 512 * k" unfolding assms(5) unat_of_nat using assms(3) by simp
  have v: "\<not> bs < 512" "\<not> 1 > 0xFFFFFFFF div bs"
    using assms(2,3) by (simp_all add: word_less_nat_alt unat_div u div_greater_zero_iff not_less)
  obtain h' where "hw_notify hw \<lparr>req_type = VIRTIO_BLOCK_WRITE, req_reserved = 0, req_sector = n\<rparr>
      (request_descriptors bs VIRTIO_BLOCK_WRITE) buffer (vb_hardware s) = (Some (buffer, 0), h')" "ready h'"
      "stored h' = (\<lambda>m. if unat (m - n) < k then take 512 (drop (512 * unat (m - n)) buffer) else stored (vb_hardware s) m)"
    using serves_write [of "vb_hardware s" buffer k n] assms by (auto simp: virtio_ready_def)
  then show ?thesis using assms(1) v by (simp add: virtio_block_transfer_def virtio_ready_def virtio_content_def cong: if_cong)
qed

lemma length_stored_block: "ready h \<Longrightarrow> length (concat (map (\<lambda>j. stored h (n + of_nat j)) [0 ..< k])) = 512 * k"
  by (subst length_concat_chunks [where n = 512]) (auto simp: stored_length)

lemma stored_slice:
  assumes "ready h" "r < k"
  shows "take 512 (drop (512 * r) (concat (map (\<lambda>j. stored h (n + of_nat j)) [0 ..< k]))) = stored h (n + of_nat r)"
  using concat_chunk [of "map (\<lambda>j. stored h (n + of_nat j)) [0 ..< k]" 512 r] assms by (simp add: stored_length)

text \<open>A block through the staging buffer.\<close>

lemma staged_read:
  assumes r: "virtio_ready ready s" and k: "virtio_logical_block_size s = of_nat (512 * k)"
    "unat (virtio_logical_block_size s) = 512 * k" "0 < k" "k \<le> 8"
  shows "\<exists>s'. stage_block hw n VIRTIO_BLOCK_READ s = (True, s') \<and> virtio_ready ready s'
    \<and> virtio_content stored s' = virtio_content stored s \<and> virtio_logical_block_size s' = virtio_logical_block_size s
    \<and> take (512 * k) (legacy_sector_staging s') = concat (map (\<lambda>j. virtio_content stored s (n + of_nat j)) [0 ..< k])"
proof -
  let ?c = "concat (map (\<lambda>j. stored (vb_hardware s) (n + of_nat j)) [0 ..< k])"
  have st: "length (legacy_sector_staging s) = 4096" "ready (vb_hardware s)" using r by (simp_all add: virtio_ready_def)
  have l: "length (take (512 * k) (legacy_sector_staging s)) = 512 * k" using st k(4) by simp
  obtain s' where s': "virtio_block_transfer hw n 1 (virtio_logical_block_size s) (take (512 * k) (legacy_sector_staging s)) VIRTIO_BLOCK_READ s
      = (True, ?c, s')" "virtio_ready ready s'" "virtio_content stored s' = virtio_content stored s"
      "virtio_logical_block_size s' = virtio_logical_block_size s" "legacy_sector_staging s' = legacy_sector_staging s"
    using transfer_read [OF r k(3,4) l k(1)] by blast
  have c: "length ?c = 512 * k" by (rule length_stored_block [OF st(2)])
  show ?thesis using s' st c k(4) unfolding stage_block_def k(2)
    by (simp add: virtio_ready_def virtio_content_def put_bytes_def)
qed

lemma staged_write:
  assumes r: "virtio_ready ready s" and k: "virtio_logical_block_size s = of_nat (512 * k)"
    "unat (virtio_logical_block_size s) = 512 * k" "0 < k" "k \<le> 8"
  shows "\<exists>s'. stage_block hw n VIRTIO_BLOCK_WRITE s = (True, s') \<and> virtio_ready ready s'
    \<and> virtio_content stored s' = (\<lambda>m. if unat (m - n) < k
        then take 512 (drop (512 * unat (m - n)) (take (512 * k) (legacy_sector_staging s))) else virtio_content stored s m)"
proof -
  let ?b = "take (512 * k) (legacy_sector_staging s)"
  have st: "length (legacy_sector_staging s) = 4096" using r by (simp add: virtio_ready_def)
  then have l: "length ?b = 512 * k" using k(4) by simp
  obtain s' where s': "virtio_block_transfer hw n 1 (virtio_logical_block_size s) ?b VIRTIO_BLOCK_WRITE s = (True, ?b, s')"
      "virtio_ready ready s'" "virtio_content stored s'
        = (\<lambda>m. if unat (m - n) < k then take 512 (drop (512 * unat (m - n)) ?b) else virtio_content stored s m)"
      "legacy_sector_staging s' = legacy_sector_staging s"
    using transfer_write [OF r k(3,4) l k(1)] by blast
  show ?thesis using s' st l k(4) unfolding stage_block_def k(2)
    by (simp add: virtio_ready_def virtio_content_def put_bytes_def)
qed

text \<open>The position of a sector in its block.\<close>

lemma sector_in_block:
  fixes n :: u64
  assumes "unat f = k" "0 < k" "k \<le> 8"
  shows "unat (n mod f) < k" "unat (ucast (n mod f) * 512 :: u32) = 512 * unat (n mod f)"
    "n - n mod f + of_nat (unat (n mod f)) = n"
    "unat (m - (n - n mod f)) = unat (n mod f) \<longleftrightarrow> m = n"
proof -
  show r: "unat (n mod f) < k" using assms by (simp add: unat_mod)
  have "unat (ucast (n mod f) :: u32) = unat (n mod f)"
    using r assms(3) by (simp add: unsigned_ucast_eq take_bit_nat_eq_self_iff)
  then show "unat (ucast (n mod f) * 512 :: u32) = 512 * unat (n mod f)"
    using r assms(3) by (subst unat_mult_32) simp_all
  show "n - n mod f + of_nat (unat (n mod f)) = n" by simp
  show "unat (m - (n - n mod f)) = unat (n mod f) \<longleftrightarrow> m = n" by (auto simp: word_unat_eq_iff [symmetric] algebra_simps)
qed

lemma virtio_sector_disk: "sector_disk (virtio_driver hw) (virtio_content stored) (virtio_ready ready)"
proof
  fix s n
  assume r: "virtio_ready ready s"
  then obtain k where k: "virtio_logical_block_size s = of_nat (512 * k)" "unat (virtio_logical_block_size s) = 512 * k"
    "unat (virtio_logical_block_size s div 512) = k" "0 < k" "k \<le> 8" "virtio_logical_block_size s = 512 \<longleftrightarrow> k = 1"
    using virtio_block_size by metis
  have b: "active_backend s = BLOCK_BACKEND_VIRTIO" "ready (vb_hardware s)" using r by (simp_all add: virtio_ready_def)
  let ?f = "ucast (virtio_logical_block_size s div 512) :: u64"
  have f: "unat ?f = k" using k(3) by simp
  note sib = sector_in_block [OF f k(4,5), where n = n]
  show "length (virtio_content stored s n) = 512" using b by (simp add: virtio_content_def stored_length)
  show "\<exists>s'. vb_read (virtio_driver hw) n s = (Some (virtio_content stored s n), s') \<and> virtio_ready ready s'
      \<and> virtio_content stored s' = virtio_content stored s"
  proof (cases "k = 1")
    case True
    then have "\<exists>s'. virtio_block_transfer hw n 1 512 (replicate 512 0) VIRTIO_BLOCK_READ s = (True, virtio_content stored s n, s')
        \<and> virtio_ready ready s' \<and> virtio_content stored s' = virtio_content stored s"
      using transfer_read [OF r, of 1 "replicate 512 0" 512 n] by (auto simp: virtio_content_def)
    then show ?thesis using True k(6) b by (auto simp: virtio_driver_def virtio_block_read_sector_def)
  next
    case False
    obtain s' where s': "stage_block hw (n - n mod ?f) VIRTIO_BLOCK_READ s = (True, s')" "virtio_ready ready s'"
      "virtio_content stored s' = virtio_content stored s"
      "take (512 * k) (legacy_sector_staging s') = concat (map (\<lambda>j. virtio_content stored s (n - n mod ?f + of_nat j)) [0 ..< k])"
      using staged_read [OF r k(1,2,4,5)] by blast
    have "512 * unat (n mod ?f) + 512 \<le> 512 * k" using sib(1) by simp
    then have "take 512 (drop (512 * unat (n mod ?f)) (legacy_sector_staging s'))
        = take 512 (drop (512 * unat (n mod ?f)) (take (512 * k) (legacy_sector_staging s')))"
      by (simp add: drop_take min_absorb1)
    also have "\<dots> = virtio_content stored s n"
      using stored_slice [OF b(2) sib(1), of "n - n mod ?f"] unfolding s'(4) virtio_content_def sib(3) .
    finally show ?thesis using s'(1-3) False k(6) b sib(2)
      by (simp add: virtio_driver_def virtio_block_read_sector_def Let_def)
  qed
  fix data :: bytes assume d: "length data = 512"
  show "\<exists>s'. vb_write (virtio_driver hw) n data s = (True, s') \<and> virtio_ready ready s'
      \<and> virtio_content stored s' = (virtio_content stored s)(n := data)"
  proof (cases "k = 1")
    case True
    have "unat (m - n) < 1 \<longleftrightarrow> m = n" for m by (simp add: unat_gt_0 word_unat_eq_iff [symmetric]) (metis eq_iff_diff_eq_0 unat_0_iff)
    then have "\<exists>s'. virtio_block_transfer hw n 1 512 data VIRTIO_BLOCK_WRITE s = (True, data, s')
        \<and> virtio_ready ready s' \<and> virtio_content stored s' = (virtio_content stored s)(n := data)"
      using transfer_write [OF r, of 1 data 512 n] d by (auto simp: fun_eq_iff)
    then show ?thesis using True k(6) b by (auto simp: virtio_driver_def virtio_block_write_sector_def)
  next
    case False
    let ?base = "n - n mod ?f" and ?r = "unat (n mod ?f)"
    obtain s1 where s1: "stage_block hw ?base VIRTIO_BLOCK_READ s = (True, s1)" "virtio_ready ready s1"
      "virtio_content stored s1 = virtio_content stored s" "virtio_logical_block_size s1 = virtio_logical_block_size s"
      "take (512 * k) (legacy_sector_staging s1) = concat (map (\<lambda>j. virtio_content stored s (?base + of_nat j)) [0 ..< k])"
      using staged_read [OF r k(1,2,4,5)] by blast
    let ?st = "put_bytes (512 * ?r) data (legacy_sector_staging s1)"
    let ?s2 = "s1\<lparr>legacy_sector_staging := ?st\<rparr>"
    have len: "length (legacy_sector_staging s1) = 4096" using s1(2) by (simp add: virtio_ready_def)
    have fit: "512 * ?r + 512 \<le> 512 * k" "512 * ?r + length data \<le> length (legacy_sector_staging s1)"
      using sib(1) k(5) d len by simp_all
    have r2: "virtio_ready ready ?s2" "virtio_content stored ?s2 = virtio_content stored s"
      using s1(2,3) fit len by (simp_all add: virtio_ready_def virtio_content_def)
    have st: "legacy_sector_staging ?s2 = ?st" by simp
    have k2: "virtio_logical_block_size ?s2 = of_nat (512 * k)" "unat (virtio_logical_block_size ?s2) = 512 * k"
      using k(1,2) s1(4) by simp_all
    obtain s' where s': "stage_block hw ?base VIRTIO_BLOCK_WRITE ?s2 = (True, s')" "virtio_ready ready s'"
      "virtio_content stored s' = (\<lambda>m. if unat (m - ?base) < k
         then take 512 (drop (512 * unat (m - ?base)) (take (512 * k) ?st)) else virtio_content stored s m)"
      using staged_write [OF r2(1) k2 k(4,5), where n = ?base] unfolding r2(2) st by blast
    have "virtio_content stored s' m = ((virtio_content stored s)(n := data)) m" for m
    proof (cases "unat (m - ?base) < k")
      case True
      let ?j = "unat (m - ?base)"
      have inside: "take 512 (drop (512 * ?j) (take (512 * k) b)) = take 512 (drop (512 * ?j) b)" for b :: bytes
        using True by (simp add: drop_take min_absorb1)
      show ?thesis
      proof (cases "?j = ?r")
        case eq: True
        then have "m = n" using sib(4) by simp
        moreover have "take 512 (drop (512 * ?r) ?st) = data" using put_bytes_read [OF fit(2)] d by simp
        ultimately show ?thesis using s'(3) True inside eq by simp
      next
        case ne: False
        then have "512 * ?j + 512 \<le> 512 * ?r \<or> 512 * ?r + length data \<le> 512 * ?j" using d by linarith
        then have "take 512 (drop (512 * ?j) ?st) = take 512 (drop (512 * ?j) (legacy_sector_staging s1))"
          by (rule put_bytes_other [OF fit(2)])
        also have "\<dots> = take 512 (drop (512 * ?j) (take (512 * k) (legacy_sector_staging s1)))" using inside by simp
        also have "\<dots> = virtio_content stored s (?base + of_nat ?j)"
          using stored_slice [OF b(2) True, of ?base] unfolding s1(5) virtio_content_def .
        finally show ?thesis using s'(3) True inside ne sib(4) by auto
      qed
    next
      case False
      then have "m \<noteq> n" using sib(1,4) by metis
      then show ?thesis using s'(3) False by simp
    qed
    then have "virtio_content stored s' = (virtio_content stored s)(n := data)" by (rule ext)
    then show ?thesis using s'(1,2) s1(1,4) False k(6) b sib(2) d
      by (simp add: virtio_driver_def virtio_block_write_sector_def Let_def)
  qed
qed

end

sublocale virtio_disk \<subseteq> sector_disk "virtio_driver hw" "virtio_content stored" "virtio_ready ready"
  by (rule virtio_sector_disk)

section \<open>A disk in memory\<close>

text \<open>A device that keeps its sectors in memory and answers every request; the other accesses do nothing.\<close>

definition memory_disk :: "(u64 \<Rightarrow> bytes) virtio_hardware" where
  "memory_disk = \<lparr>hw_notify = (\<lambda>request descriptors buffer h.
       let k = unat (vd_length (descriptors ! 1)) div 512; n = req_sector request in
       if req_type request = VIRTIO_BLOCK_READ then (Some (concat (map (\<lambda>j. h (n + of_nat j)) [0 ..< k]), 0), h)
       else (Some (buffer, 0), \<lambda>m. if unat (m - n) < k then take 512 (drop (512 * unat (m - n)) buffer) else h m)),
     hw_in16 = (\<lambda>_ h. (0, h)), hw_in32 = (\<lambda>_ h. (0, h)), hw_out8 = (\<lambda>_ _ h. h), hw_out16 = (\<lambda>_ _ h. h),
     hw_out32 = (\<lambda>_ _ h. h), pci_write_bar = (\<lambda>_ _ h. h), pci_enable_bus_mastering = (\<lambda>h. h), queue_memory_page = 0,
     ide_ata_initialize = (\<lambda>h. (False, h)), ide_ata_read_sector = (\<lambda>_ h. (None, h)),
     ide_ata_write_sector = (\<lambda>_ _ h. (False, h)), ahci_initialize = (\<lambda>h. (0, h)), ahci_read_sector = (\<lambda>_ h. (None, h)),
     ahci_write_sector = (\<lambda>_ _ h. (False, h)), hyperv_storage_initialize = (\<lambda>h. (False, h)),
     hyperv_storage_read_sector_ex = (\<lambda>_ _ _ h. (None, h)), hyperv_storage_write_sector_ex = (\<lambda>_ _ _ _ h. (False, h)),
     hyperv_storage_get_devices = (\<lambda>_. [])\<rparr>"

lemma memory_disk_requests:
  assumes "k \<le> 8"
  shows "unat (vd_length (request_descriptors (of_nat (512 * k)) type ! 1)) div 512 = k"
proof -
  have "unat (of_nat (512 * k) :: u32) = 512 * k" unfolding unat_of_nat using assms by simp
  then show ?thesis by (simp add: request_descriptors_def del: of_nat_mult)
qed

interpretation memory: virtio_disk memory_disk "\<lambda>h. h" "\<lambda>h. \<forall>n. length (h n) = 512"
proof
  fix h :: "u64 \<Rightarrow> bytes" and buffer :: bytes and k n
  assume h: "\<forall>n. length (h n) = 512"
  show "length (h n) = 512" using h by simp
  assume k: "length buffer = 512 * k" "0 < k" "k \<le> 8"
  note d = memory_disk_requests [OF k(3)]
  show "\<exists>h'. hw_notify memory_disk \<lparr>req_type = VIRTIO_BLOCK_READ, req_reserved = 0, req_sector = n\<rparr>
      (request_descriptors (of_nat (512 * k)) VIRTIO_BLOCK_READ) buffer h
    = (Some (concat (map (\<lambda>j. h (n + of_nat j)) [0 ..< k]), 0), h') \<and> (\<forall>n. length (h' n) = 512) \<and> h' = h"
    using h d by (simp add: memory_disk_def Let_def del: of_nat_mult)
  have "length (take 512 (drop (512 * unat (m - n)) buffer)) = 512" if "unat (m - n) < k" for m
    using k(1) that by simp
  then show "\<exists>h'. hw_notify memory_disk \<lparr>req_type = VIRTIO_BLOCK_WRITE, req_reserved = 0, req_sector = n\<rparr>
      (request_descriptors (of_nat (512 * k)) VIRTIO_BLOCK_WRITE) buffer h = (Some (buffer, 0), h') \<and> (\<forall>n. length (h' n) = 512)
    \<and> h' = (\<lambda>m. if unat (m - n) < k then take 512 (drop (512 * unat (m - n)) buffer) else h m)"
    using h d by (simp add: memory_disk_def Let_def VIRTIO_BLOCK_READ_def VIRTIO_BLOCK_WRITE_def del: of_nat_mult cong: if_cong)
qed

section \<open>Sectors on large blocks\<close>

text \<open>C24: C1.  When the disk behind the queue answers requests, writing a 512-byte sector succeeds whatever the block size of
  the disk, and afterwards every sector reads as before except the one that was written: the staging of a sector in a
  larger block loses nothing of its neighbours.\<close>

theorem virtio_sector_written_is_read:
  assumes "virtio_disk hw stored ready" "virtio_ready ready s" "length data = 512"
  shows "\<exists>s'. virtio_block_write_sector hw n data s = (True, s') \<and> virtio_ready ready s'
    \<and> (\<forall>m. \<exists>s''. virtio_block_read_sector hw m s' = (Some (if m = n then data else virtio_content stored s m), s''))"
proof -
  have d: "sector_disk (virtio_driver hw) (virtio_content stored) (virtio_ready ready)"
    by (rule virtio_disk.virtio_sector_disk [OF assms(1)])
  obtain s' where w: "virtio_block_write_sector hw n data s = (True, s')" "virtio_ready ready s'"
    "virtio_content stored s' = (virtio_content stored s)(n := data)"
    using sector_disk.write_works [OF d assms(2,3), of n] by (auto simp: virtio_driver_def)
  have "\<exists>s''. virtio_block_read_sector hw m s' = (Some (virtio_content stored s' m), s'')" for m
    using sector_disk.read_works [OF d w(2), of m] by (auto simp: virtio_driver_def)
  then show ?thesis using w by auto
qed

text \<open>A disk in memory with blocks of 4096 bytes.\<close>

definition memory_backend :: "(u64 \<Rightarrow> bytes) \<Rightarrow> u32 \<Rightarrow> (u64 \<Rightarrow> bytes) virtio_block_state" where
  "memory_backend h bs = \<lparr>io_base = 0xC000, queue_size = 8, available_index = 0, available_ring = replicate 256 0,
     active_backend = BLOCK_BACKEND_VIRTIO, block_current_target = 0, block_current_lun = 0, virtio_sector_count = 0,
     virtio_logical_block_size = bs, legacy_sector_staging = replicate 4096 0, vb_hardware = h\<rparr>"

lemma memory_backend_ready:
  "(\<And>n. length (h n) = 512) \<Longrightarrow> bs \<in> {512, 1024, 2048, 4096}
    \<Longrightarrow> virtio_ready (\<lambda>h. \<forall>n. length (h n) = 512) (memory_backend h bs)"
  "virtio_content (\<lambda>h. h) (memory_backend h bs) = h"
  by (simp_all add: virtio_ready_def memory_backend_def virtio_content_def)

theorem virtio_sector_written_is_read_witness:
  "\<exists>s'. virtio_block_write_sector memory_disk 5 (replicate 512 7) (memory_backend (\<lambda>_. replicate 512 0) 4096) = (True, s')
    \<and> virtio_ready (\<lambda>h. \<forall>n. length (h n) = 512) s'
    \<and> (\<forall>m. \<exists>s''. virtio_block_read_sector memory_disk m s' = (Some (if m = 5 then replicate 512 7
         else virtio_content (\<lambda>h. h) (memory_backend (\<lambda>_. replicate 512 0) 4096) m), s''))"
proof (rule virtio_sector_written_is_read)
  show "virtio_disk memory_disk (\<lambda>h. h) (\<lambda>h. \<forall>n. length (h n) = 512)" by (rule memory.virtio_disk_axioms)
  show "virtio_ready (\<lambda>h. \<forall>n. length (h n) = 512) (memory_backend (\<lambda>_. replicate 512 0) 4096)"
    by (rule memory_backend_ready(1)) simp_all
qed simp

end
