(* ===== verification/Fat16_Theorems.thy ===== *)
theory Fat16_Theorems
  imports Fat16_Write Virtio_Block
begin

text \<open>
  What FAT16 promises for the files of its root directory, on any disk whose transfers succeed, with the VirtIO backend
  as such a disk; and two situations that the code does not handle.
\<close>

section \<open>Volumes\<close>

text \<open>A mounted volume on a working disk, and the content of the file with a name.\<close>

definition fat16_volume :: "('d \<Rightarrow> u64 \<Rightarrow> bytes) \<Rightarrow> ('d \<Rightarrow> bool) \<Rightarrow> 'd fat16_state \<Rightarrow> bool" where
  "fat16_volume content works s \<longleftrightarrow> works (fat16_disk s) \<and> fat16_layout s \<and> root_sound s (sectors_in content s)"

definition volume_file :: "('d \<Rightarrow> u64 \<Rightarrow> bytes) \<Rightarrow> 'd fat16_state \<Rightarrow> bytes \<Rightarrow> bytes option" where
  "volume_file content s name = root_file s (sectors_in content s) name"

definition volume_root :: "('d \<Rightarrow> u64 \<Rightarrow> bytes) \<Rightarrow> 'd fat16_state \<Rightarrow> FAT16_DIRECTORY_ENTRY list" where
  "volume_root content s = root_of s (sectors_in content s)"

definition root_path :: "string \<Rightarrow> bytes \<Rightarrow> bool" where
  "root_path path name \<longleftrightarrow> hd path = CHR ''/'' \<and> CHR ''/'' \<notin> set (tl path) \<and> path \<noteq> []
     \<and> component_to_name (tl path) = Some name \<and> proper_name name"

lemma root_pathD:
  assumes "root_path path name"
  obtains component where "path = CHR ''/'' # component" "component_to_name component = Some name"
    "CHR ''/'' \<notin> set component" "proper_name name"
  using assms that [of "tl path"] by (cases path) (auto simp: root_path_def)

lemma root_file_leads_to:
  assumes "leads_to content works s f s'"
  shows "root_file s' = root_file s" "root_sound s' = root_sound s" "sectors_in content s' = f"
proof -
  note d = leads_toD [OF assms] fat_leads_to [OF assms] chain_sectors_leads_to [OF assms]
  have c: "entry_chain s' = entry_chain s" "entry_sound s' = entry_sound s"
    by (simp_all add: fun_eq_iff entry_chain_def entry_sound_def d)
  have e: "entry_content s' = entry_content s" by (intro ext) (simp add: entry_content_def chain_bytes_def c d)
  show "root_file s' = root_file s" by (intro ext) (unfold root_file_def d e, rule refl)
  show "root_sound s' = root_sound s" by (intro ext) (unfold root_sound_def c d, rule refl)
  show "sectors_in content s' = f" by (rule d)
qed

lemma volume_file_eq: "volume_file content s = root_file s (sectors_in content s)"
  by (rule ext) (simp add: volume_file_def)

lemma volume_leads_to:
  assumes "fat16_volume content works s" "leads_to content works s f s'" "root_sound s f"
  shows "fat16_volume content works s'" "root_file s' (sectors_in content s') = root_file s f"
  using assms leads_toD(5) [OF assms(2)] leads_to_layout [OF assms(2)] root_file_leads_to [OF assms(2)]
  by (simp_all add: fat16_volume_def volume_file_def)

section \<open>Files as a map\<close>

text \<open>C20: C1.  Writing a file of the root directory always returns, on every sound volume and for every buffer below 4 GiB.
  It succeeds exactly when the name is not that of a directory or read-only file, there is an entry for it and the free
  clusters suffice; then the map from names to contents is updated at the name and nowhere else, and otherwise it is
  unchanged.  The volume stays sound: chains end, names differ and no cluster is shared.\<close>

theorem fat16_write_refines_update:
  assumes "sector_disk drv content works" "fat16_volume content works s" "root_path path name" "length buffer < 2 ^ 32"
  shows "\<exists>ok s'. fat16_write_root_file drv path buffer s = Some (ok, s') \<and> fat16_volume content works s'
    \<and> (ok \<longleftrightarrow> can_store (volume_root content s) name
         \<and> clusters_needed s (length buffer) \<le> length (free_clusters s (sectors_in content s)))
    \<and> (\<forall>name'. proper_name name' \<longrightarrow>
         volume_file content s' name' = (if ok \<and> name' = name then Some buffer else volume_file content s name'))"
proof -
  obtain component where p: "path = CHR ''/'' # component" "component_to_name component = Some name"
    "CHR ''/'' \<notin> set component" "proper_name name" using root_pathD [OF assms(3)] .
  have v: "works (fat16_disk s)" "fat16_layout s" "root_sound s (sectors_in content s)"
    using assms(2) by (simp_all add: fat16_volume_def)
  obtain ok s' f where r: "fat16_write_root_file drv path buffer s = Some (ok, s')" "leads_to content works s f s'"
    "written_to s (sectors_in content s) name buffer ok f"
    using sector_disk.write_root_to [OF assms(1) v p(2-4) assms(4)] p(1) by blast
  have "root_sound s f" using r(3) by (simp add: written_to_def)
  note v' = volume_leads_to [OF assms(2) r(2) this]
  have "\<forall>name'. proper_name name' \<longrightarrow>
      volume_file content s' name' = (if ok \<and> name' = name then Some buffer else volume_file content s name')"
    using r(3) unfolding volume_file_eq written_to_def v'(2) by blast
  then show ?thesis using r(1,3) v'(1) unfolding written_to_def volume_root_def by blast
qed

text \<open>C21: C1.  Reading a file of the root directory always returns, gives exactly its first bytes up to the capacity of the
  caller, or nothing when there is no such file, and changes no file.\<close>

theorem fat16_read_is_content:
  assumes "sector_disk drv content works" "fat16_volume content works s" "root_path path name"
  shows "\<exists>s' out. fat16_read_file drv path capacity s = Some ((of_nat (length out), out), s')
    \<and> fat16_volume content works s' \<and> volume_file content s' = volume_file content s
    \<and> out = (case volume_file content s name of None \<Rightarrow> [] | Some bs \<Rightarrow> take (unat capacity) bs)"
proof -
  obtain component where p: "path = CHR ''/'' # component" "component_to_name component = Some name"
    "CHR ''/'' \<notin> set component" "proper_name name" using root_pathD [OF assms(3)] .
  have v: "works (fat16_disk s)" "fat16_layout s" "root_sound s (sectors_in content s)"
    using assms(2) by (simp_all add: fat16_volume_def)
  obtain s' out where r: "fat16_read_file drv path capacity s = Some ((of_nat (length out), out), s')"
    "leads_to content works s (sectors_in content s) s'"
    "out = (case root_file s (sectors_in content s) name of None \<Rightarrow> [] | Some bs \<Rightarrow> take (unat capacity) bs)"
    using sector_disk.read_root_to [OF assms(1) v p(2-4)] p(1) by blast
  note v' = volume_leads_to [OF assms(2) r(2) v(3)]
  have "volume_file content s' = volume_file content s" unfolding volume_file_eq by (rule v'(2))
  then show ?thesis using r v'(1) by (auto simp: volume_file_def)
qed

text \<open>C22: C1.  Deleting a file of the root directory always returns, succeeds exactly when an entry that is neither read-only
  nor a directory has the name, and then removes that name from the map and no other; the volume stays sound.\<close>

theorem fat16_delete_refines_removal:
  assumes "sector_disk drv content works" "fat16_volume content works s" "root_path path name"
  shows "\<exists>ok s'. fat16_delete_root_file drv path s = Some (ok, s') \<and> fat16_volume content works s'
    \<and> (ok \<longleftrightarrow> (\<exists>e \<in> set (volume_root content s). \<not> free_entry e \<and> fe_name e = name \<and> fe_attributes e AND 0x11 = 0))
    \<and> (\<forall>name'. proper_name name' \<longrightarrow>
         volume_file content s' name' = (if ok \<and> name' = name then None else volume_file content s name'))"
proof -
  obtain component where p: "path = CHR ''/'' # component" "component_to_name component = Some name"
    "CHR ''/'' \<notin> set component" "proper_name name" using root_pathD [OF assms(3)] .
  have v: "works (fat16_disk s)" "fat16_layout s" "root_sound s (sectors_in content s)"
    using assms(2) by (simp_all add: fat16_volume_def)
  obtain ok s' f where r: "fat16_delete_root_file drv path s = Some (ok, s')" "leads_to content works s f s'" "root_sound s f"
    "ok \<longleftrightarrow> (\<exists>e \<in> set (volume_root content s). \<not> free_entry e \<and> fe_name e = name \<and> fe_attributes e AND 0x11 = 0)"
    "\<forall>name'. proper_name name' \<longrightarrow>
       root_file s f name' = (if ok \<and> name' = name then None else root_file s (sectors_in content s) name')"
    using sector_disk.delete_root_to [OF assms(1) v p(2-4)] p(1) unfolding volume_root_def by blast
  note v' = volume_leads_to [OF assms(2) r(2,3)]
  have "\<forall>name'. proper_name name' \<longrightarrow>
      volume_file content s' name' = (if ok \<and> name' = name then None else volume_file content s name')"
    using r(5) unfolding volume_file_eq v'(2) .
  then show ?thesis using r(1,4) v'(1) by blast
qed

text \<open>C23: C1.  What was written is read back: after a write that succeeds, reading the path with a large enough buffer gives
  the bytes that were written.\<close>

theorem fat16_write_then_read:
  assumes "sector_disk drv content works" "fat16_volume content works s" "root_path path name"
    "length buffer < 2 ^ 32" "length buffer \<le> unat capacity"
    "fat16_write_root_file drv path buffer s = Some (True, s')"
  shows "\<exists>s''. fat16_read_file drv path capacity s' = Some ((of_nat (length buffer), buffer), s'')"
proof -
  obtain component where p: "path = CHR ''/'' # component" "component_to_name component = Some name"
    "CHR ''/'' \<notin> set component" "proper_name name" using root_pathD [OF assms(3)] .
  have v: "works (fat16_disk s)" "fat16_layout s" "root_sound s (sectors_in content s)"
    using assms(2) by (simp_all add: fat16_volume_def)
  obtain f where r: "leads_to content works s f s'" "written_to s (sectors_in content s) name buffer True f"
    using sector_disk.write_root_to [OF assms(1) v p(2-4) assms(4)] p(1) assms(6) by auto
  have f: "root_sound s f" "root_file s f name = Some buffer" using r(2) p(4) by (simp_all add: written_to_def)
  note v' = volume_leads_to [OF assms(2) r(1) f(1)]
  have w: "works (fat16_disk s')" "fat16_layout s'" "root_sound s' (sectors_in content s')"
    using v'(1) by (simp_all add: fat16_volume_def)
  have "root_file s' (sectors_in content s') name = Some buffer" unfolding v'(2) by (rule f(2))
  then show ?thesis using sector_disk.read_root_to [OF assms(1) w p(2-4), of capacity] p(1) assms(5) by auto
qed

section \<open>A directory whose chain runs in a circle\<close>

lemma first_hit_all_none: "(\<And>n. n \<in> set ns \<Longrightarrow> look n (f n) = None) \<Longrightarrow> first_hit look f ns = Scan_end"
  by (induction ns) simp_all

context sector_disk
begin

definition in_circle :: "(u32 \<Rightarrow> bytes \<Rightarrow> 'r option) \<Rightarrow> u16 \<Rightarrow> 'd fat16_state \<Rightarrow> bool" where
  "in_circle look c t \<longleftrightarrow> works (fat16_disk t) \<and> c < 0xFFF8 \<and> fat_of t (sec t) c = c
     \<and> (\<forall>n \<in> set (cluster_sectors c t). look n (sec t n) = None)"

lemma scan_chain_circle:
  assumes "scan_chain dr look c t = Some r"
  shows "\<not> (dr = drv \<and> in_circle look c t)"
proof (rule scan_chain.raw_induct [where P = "\<lambda>dr look c t _. \<not> (dr = drv \<and> in_circle look c t)", OF _ assms], rule notI)
  fix f dr c and look :: "u32 \<Rightarrow> bytes \<Rightarrow> 'r option" and t r
  assume IH: "\<And>dr (look :: u32 \<Rightarrow> bytes \<Rightarrow> 'r option) c t r. f dr look c t = Some r \<Longrightarrow> \<not> (dr = drv \<and> in_circle look c t)"
    and body: "(if c < 0xFFF8 then
        (case scan_sectors dr look (cluster_sectors c t) t of
           (r, s1) \<Rightarrow> if r = Scan_end then (case fat16_next_cluster dr c s1 of (nxt, s2) \<Rightarrow> f dr look nxt s2) else Some (r, s1))
      else Some (Scan_end, t)) = Some r"
    and circle: "dr = drv \<and> in_circle look c t"
  then have w: "works (fat16_disk t)" "c < 0xFFF8" "fat_of t (sec t) c = c"
    "\<And>n. n \<in> set (cluster_sectors c t) \<Longrightarrow> look n (sec t n) = None" by (auto simp: in_circle_def)
  have "first_hit look (sec t) (cluster_sectors c t) = Scan_end" by (rule first_hit_all_none) (rule w(4))
  then obtain s1 where s1: "scan_sectors drv look (cluster_sectors c t) t = (Scan_end, s1)" "to t (sec t) s1"
    using scan_sectors_to [OF w(1), of look "cluster_sectors c t"] by auto
  note d1 = leads_toD [OF s1(2)] and e1 = fat_leads_to [OF s1(2)]
  obtain s2 where s2: "fat16_next_cluster drv c s1 = (fat_of s1 (sec s1) c, s2)" "to s1 (sec s1) s2" using next_cluster_to [OF d1(5)] .
  have t2: "to t (sec t) s2" using leads_to_trans [OF s1(2) s2(2)] d1(6) by simp
  note d2 = leads_toD [OF t2] and e2 = fat_leads_to [OF t2]
  have "f drv look c s2 = Some r" using body circle w(2,3) s1(1) s2(1) d1(6) e1(1) by simp
  then have "\<not> in_circle look c s2" using IH by blast
  moreover have "in_circle look c s2" using w d2 e2 by (simp add: in_circle_def)
  ultimately show False by blast
qed

end

text \<open>C1.  The search of a directory whose clusters form a circle never returns when the name is not there and no entry is
  marked as the end: the loop of the code has no bound.  A damaged or hostile volume hangs the kernel.\<close>

theorem fat16_circular_directory_hangs:
  assumes "sector_disk drv content works" "works (fat16_disk s)" "2 \<le> c" "c < 0xFFF8" "fat_of s (sectors_in content s) c = c"
    and "\<forall>n \<in> set (cluster_sectors c s). \<forall>i < 16. fe_name (directory_entry i (sectors_in content s n)) ! 0 \<noteq> 0
      \<and> \<not> listed_with_name name (directory_entry i (sectors_in content s n))"
  shows "find_in_directory drv c name s = None"
proof (cases "scan_chain drv (\<lambda>_ sector. entry_among (listed_with_name name) sector [0 ..< 16]) c s")
  case None
  have "c \<noteq> 0" using assms(3) by (auto simp: word_le_nat_alt)
  then show ?thesis using None by (simp add: find_in_directory_def scan_directory_def)
next
  case (Some r)
  have "among P es = None" if "\<forall>e \<in> set es. fe_name e ! 0 \<noteq> 0 \<and> \<not> P e" for P es using that by (induction es) auto
  then have "entry_among (listed_with_name name) (sectors_in content s n) [0 ..< 16] = None" if "n \<in> set (cluster_sectors c s)" for n
    using assms(6) that unfolding entry_among_eq by fastforce
  then show ?thesis using sector_disk.scan_chain_circle [OF assms(1) Some] assms(2,4,5)
    by (auto simp: sector_disk.in_circle_def [OF assms(1)])
qed

section \<open>The sector of a new directory\<close>

context sector_disk
begin

text \<open>The cluster that is allocated is the first free one.\<close>

lemma allocate_from_first:
  assumes "works (fat16_disk s)" "allocate_from drv ks s = (c, s')" "c \<noteq> 0"
  shows "\<exists>as k bs. ks = as @ k # bs \<and> c = of_nat k \<and> (\<forall>a \<in> set as. fat_of s (sec s) (of_nat a) \<noteq> 0)"
  using assms
proof (induction ks arbitrary: s)
  case (Cons k ks)
  obtain s1 where n: "fat16_next_cluster drv (of_nat k) s = (fat_of s (sec s) (of_nat k), s1)" "to s (sec s) s1"
    using next_cluster_to [OF Cons.prems(1)] .
  note d1 = leads_toD [OF n(2)] and e1 = fat_leads_to [OF n(2)]
  show ?case
  proof (cases "fat_of s (sec s) (of_nat k) = 0")
    case True
    then have "c = of_nat k" using Cons.prems(2,3) n(1) by (auto split: prod.splits if_splits)
    then show ?thesis by (intro exI [of _ "[]"]) simp
  next
    case False
    then have "allocate_from drv ks s1 = (c, s')" using Cons.prems(2) n(1) by simp
    then obtain as k' bs where "ks = as @ k' # bs" "c = of_nat k'" "\<forall>a \<in> set as. fat_of s (sec s) (of_nat a) \<noteq> 0"
      using Cons.IH [OF d1(5) _ Cons.prems(3)] unfolding e1 d1(6) by blast
    then show ?thesis using False by (intro exI [of _ "k # as"]) auto
  qed
qed simp

lemma allocate_cluster_first:
  assumes "works (fat16_disk s)" "fat16_allocate_cluster drv s = (c, s')" "c \<noteq> 0" "2 \<le> c'" "c' < c"
  shows "fat_of s (sec s) c' \<noteq> 0"
proof -
  let ?ks = "[2 ..< min (spf_of s * 256) 0xFFF0]"
  obtain as k bs where k: "?ks = as @ k # bs" "c = of_nat k" "\<forall>a \<in> set as. fat_of s (sec s) (of_nat a) \<noteq> 0"
    using allocate_from_first [OF assms(1) assms(2) [unfolded fat16_allocate_cluster_def] assms(3)] by blast
  have ks: "k \<in> set ?ks" unfolding k(1) by simp
  have u: "unat c = k" using allocatable(2) [OF ks] k(2) by simp
  have c': "2 \<le> unat c'" "unat c' < k" using assms(4,5) u by (simp_all add: word_le_nat_alt word_less_nat_alt)
  have at: "?ks ! i = 2 + i" if "i \<le> length as" for i
  proof -
    have "length as < length ?ks" unfolding k(1) by simp
    then have "2 + i < min (spf_of s * 256) 0xFFF0" using that unfolding length_upt by linarith
    then show ?thesis by (rule nth_upt)
  qed
  have "k = 2 + length as" using at [OF order_refl] unfolding k(1) by simp
  then have i: "unat c' - 2 < length as" "2 + (unat c' - 2) = unat c'" using c' by simp_all
  have "as ! (unat c' - 2) = unat c'" using at [of "unat c' - 2"] i unfolding k(1) nth_append by simp
  then have "unat c' \<in> set as" using i(1) nth_mem by metis
  then show ?thesis using k(3) by auto
qed

end

lemma new_directory_sector_length: "length (new_directory_sector c p) = 512"
proof -
  have d: "entry_ok (new_entry ([0x2E, 0x20] @ replicate 9 0) 0x10 c 0)"
    "entry_ok (new_entry ([0x2E, 0x2E] @ replicate 9 0) 0x10 p 0)" by (rule new_entry_ok, simp)+
  have "length (put_entry 0 (new_entry ([0x2E, 0x20] @ replicate 9 0) 0x10 c 0) (replicate 512 0)) = 512"
    by (rule directory_entry_put(2) [OF d(1) length_replicate, of 0 0]) simp_all
  then show ?thesis unfolding new_directory_sector_def by (rule directory_entry_put(2) [OF d(2), of _ 1 0]) simp_all
qed

text \<open>The sector that the code computes for a new directory belongs to another cluster.\<close>

lemma misplaced_sector:
  assumes lay: "fat16_layout s" and "2 < c" "2 \<le> spc_of s"
  defines "n \<equiv> data_start_sector s + (ucast c - 2)"
  shows "unat n = unat (data_start_sector s) + (unat c - 2)" "n \<notin> set (cluster_sectors c s)"
    "\<exists>c'. 2 \<le> c' \<and> c' < c \<and> n \<in> set (cluster_sectors c' s)"
proof -
  have c: "2 < unat c" "unat c \<le> 65535" using assms(2) small_words(1) [of c] by (simp_all add: word_less_nat_alt)
  have "(2 :: u32) \<le> ucast c" using c by (simp add: word_le_nat_alt small_words)
  then have u: "unat (ucast c - 2 :: u32) = unat c - 2" by (simp add: unat_sub small_words)
  show n: "unat n = unat (data_start_sector s) + (unat c - 2)"
    using c layout_numbers(6) [OF lay] unfolding n_def by (subst unat_add_32) (simp_all add: u)
  have c2: "2 \<le> c" using assms(2) by simp
  have lt: "unat c - 2 < (unat c - 2) * spc_of s" using c assms(3) by simp
  show "n \<notin> set (cluster_sectors c s)"
  proof
    assume "n \<in> set (cluster_sectors c s)"
    then obtain k where "unat n = unat (data_start_sector s) + (unat c - 2) * spc_of s + k" using cluster_sectors_set [OF lay c2] by blast
    then show False using n lt by linarith
  qed
  let ?k = "(unat c - 2) div spc_of s" and ?r = "(unat c - 2) mod spc_of s"
  define c' where "c' = (of_nat (2 + ?k) :: u16)"
  have k: "?k < unat c - 2" using c assms(3) by (simp add: div_less_dividend)
  have "2 + ?k < 65536" using k c by linarith
  then have uc': "unat c' = 2 + ?k" unfolding c'_def unat_of_nat by simp
  have c': "2 \<le> c'" "c' < c" using uc' k by (simp_all add: word_le_nat_alt word_less_nat_alt)
  have r: "?r < spc_of s" using layout_numbers(1) [OF lay] by simp
  have "unat (cluster_sector_number c' ?r s) = unat (data_start_sector s) + (?k * spc_of s + ?r)"
    unfolding cluster_sector_unat [OF lay c'(1) r] uc' by simp
  then have "unat (cluster_sector_number c' ?r s) = unat n" unfolding n div_mult_mod_eq .
  then have "n = cluster_sector_number c' ?r s" unfolding word_unat_eq_iff by (rule sym)
  then have "n \<in> set (cluster_sectors c' s)" using r by (auto simp: cluster_sectors_def)
  then show "\<exists>c'. 2 \<le> c' \<and> c' < c \<and> n \<in> set (cluster_sectors c' s)" using c' by blast
qed

lemma create_root_eq:
  assumes "root_path path name" "find_directory_entry_slot drv 0 name True s = Some (Some (n, sector, i), s2)"
    "free_entry (directory_entry i sector)" "fat16_allocate_cluster drv s2 = (c, s3)" "c \<noteq> 0"
    "fat16_write_sector drv (data_start_sector s3 + (ucast c - 2)) (new_directory_sector c 0) s3 = (True, s4)"
    "fat16_write_sector drv n (put_entry i (new_entry name 0x10 c 0) sector) s4 = (True, s5)"
  shows "fat16_create_root_directory drv path s = Some (True, s5)"
proof -
  obtain component where "path = CHR ''/'' # component" "component_to_name component = Some name" "CHR ''/'' \<notin> set component"
    using root_pathD [OF assms(1)] .
  then have "resolve_parent drv path s = Some (Some (0, name), s)" using resolve_parent_root by blast
  then show ?thesis using assms(2-7) by (simp add: fat16_create_root_directory_def commit_entry_def)
qed

context sector_disk
begin

lemma create_root_to:
  assumes w: "works (fat16_disk s)" and lay: "fat16_layout s" and path: "root_path path name" and spc: "2 \<le> spc_of s"
    and used: "fat_of s (sec s) 2 \<noteq> 0" and free: "free_clusters s (sec s) \<noteq> []"
    and no: "\<And>e. e \<in> set (root_of s (sec s)) \<Longrightarrow> \<not> free_entry e \<Longrightarrow> fe_name e \<noteq> name"
    and slot: "\<exists>e \<in> set (root_of s (sec s)). free_entry e"
  shows "\<exists>s' f c c' n. fat16_create_root_directory drv path s = Some (True, s') \<and> to s f s'
    \<and> new_entry name 0x10 c 0 \<in> set (root_of s f)
    \<and> c' < c \<and> 2 \<le> c' \<and> fat_of s (sec s) c' \<noteq> 0 \<and> n \<in> set (cluster_sectors c' s)
    \<and> f n = new_directory_sector c 0 \<and> (\<forall>m \<in> set (cluster_sectors c s). f m = sec s m)"
proof -
  obtain component where comp: "component_to_name component = Some name" using root_pathD [OF path] .
  let ?es = "root_of s (sec s)"
  obtain r s2 where r: "find_directory_entry_slot drv 0 name True s = Some (r, s2)" "to s (sec s) s2"
    "case r of None \<Rightarrow> (\<forall>e \<in> set ?es. (free_entry e \<or> fe_name e \<noteq> name) \<and> \<not> free_entry e)
     | Some (n, sector, i) \<Rightarrow> \<exists>q < length (root_sectors s). n = root_sectors s ! q \<and> sector = sec s n \<and> i < 16
         \<and> directory_entry i sector = ?es ! (16 * q + i) \<and> slot_at ?es name True (16 * q + i)"
    using find_slot_to [OF w, of name True] unfolding simp_thms by blast
  obtain n sector i q where sl: "r = Some (n, sector, i)" "q < length (root_sectors s)" "n = root_sectors s ! q"
    "sector = sec s n" "i < 16" "directory_entry i sector = ?es ! (16 * q + i)" "slot_at ?es name True (16 * q + i)"
    using r(3) slot by (cases r) auto
  have "?es ! (16 * q + i) \<in> set ?es" using sl(7) unfolding slot_at_def by (intro nth_mem) blast
  then have fr: "free_entry (directory_entry i sector)" using sl(7) no unfolding sl(6) slot_at_def by blast
  note d2 = leads_toD [OF r(2)] and e2 = fat_leads_to [OF r(2)]
  have lay2: "fat16_layout s2" using leads_to_layout [OF r(2)] lay by simp
  have free2: "free_clusters s2 (sec s2) \<noteq> []" using free d2 e2 by (simp add: free_clusters_def)
  obtain c s3 where a: "fat16_allocate_cluster drv s2 = (c, s3)" "2 \<le> c" "c < 0xFFF0" "c \<in> fat_range s" "fat_of s (sec s) c = 0"
    "to s2 (set_fat s {0 ..< copies_of s} c 0xFFFF (sec s)) s3"
    using allocate_cluster_to [OF d2(5) lay2] free2 unfolding d2 e2 by blast
  have c0: "c \<noteq> 0" using a(2) by (auto simp: word_le_nat_alt)
  have "c \<noteq> 2" using used a(5) by auto
  then have c2: "2 < c" using a(2) by simp
  note t3 = leads_to_trans [OF r(2) a(6)]
  note d3 = leads_toD [OF t3]
  let ?g = "set_fat s {0 ..< copies_of s} c 0xFFFF (sec s)" and ?m = "data_start_sector s + (ucast c - 2)"
  note m = misplaced_sector [OF lay c2 spc]
  obtain s4 where w4: "fat16_write_sector drv ?m (new_directory_sector c 0) s3 = (True, s4)"
    "to s3 (?g(?m := new_directory_sector c 0)) s4"
    using sector_written [OF d3(5) new_directory_sector_length] unfolding d3 by blast
  note t4 = leads_to_trans [OF t3 w4(2)]
  note d4 = leads_toD [OF t4]
  let ?b = "put_entry i (new_entry name 0x10 c 0) sector" and ?h = "?g(?m := new_directory_sector c 0)"
  have len: "length sector = 512" unfolding sl(4) by (rule sec_length [OF w])
  note put = directory_entry_put [OF new_entry_ok [OF component_name(2) [OF comp]] len sl(5)]
  obtain s5 where w5: "fat16_write_sector drv n ?b s4 = (True, s5)" "to s4 (?h(n := ?b)) s5"
    using sector_written [OF d4(5) put(2) [OF sl(5)]] unfolding d4 by blast
  have nroot: "n \<in> set (root_sectors s)" using sl(2,3) by simp
  note rn = root_sectors_numbers [OF lay]
  have mn: "?m \<notin> set (root_sectors s)" using m(1) rn(1) by fastforce
  have high: "?g k = sec s k" if "unat (root_start_sector s) \<le> unat k" for k by (rule set_fat_other [OF lay a(4) that])
  have hroot: "?h k = sec s k" if "k \<in> set (root_sectors s)" for k using that mn rn(1) [OF that] high by auto
  have "root_of s (?h(n := ?b)) = (root_of s ?h)[16 * q + i := new_entry name 0x10 c 0]"
    unfolding sl(3) by (rule entries_of_update [OF rn(2) sl(2,5)]) (use put(1) hroot [OF nroot] sl(3,4) in simp)
  moreover have "16 * q + i < length (root_of s ?h)" using sl(2,5) by simp
  ultimately have ent: "new_entry name 0x10 c 0 \<in> set (root_of s (?h(n := ?b)))" by (simp add: set_update_memI)
  obtain c' where c': "2 \<le> c'" "c' < c" "?m \<in> set (cluster_sectors c' s)" using m(3) by blast
  have used': "fat_of s (sec s) c' \<noteq> 0" using allocate_cluster_first [OF d2(5) a(1) c0 c'(1,2)] unfolding d2 e2 .
  have "?m \<noteq> n" using mn nroot by blast
  then have at: "(?h(n := ?b)) ?m = new_directory_sector c 0" by simp
  have kept: "(?h(n := ?b)) k = sec s k" if "k \<in> set (cluster_sectors c s)" for k
  proof -
    have k: "unat (data_start_sector s) \<le> unat k" by (rule cluster_sectors_data [OF lay a(2) that])
    then have "k \<noteq> n" using rn(1) [OF nroot] by auto
    then show ?thesis using that m(2) high [of k] k layout_numbers(5) [OF lay] by auto
  qed
  have "fat16_create_root_directory drv path s = Some (True, s5)"
    by (rule create_root_eq [OF path r(1) [unfolded sl(1)] fr a(1) c0 _ w5(1)]) (use w4(1) d3(4) in simp)
  then show ?thesis using leads_to_trans [OF t4 w5(2)] ent c' used' at kept by blast
qed

end

text \<open>C1.  With two or more sectors per cluster, creating a directory succeeds and destroys data: the entries \<^verbatim>\<open>.\<close> and
  \<^verbatim>\<open>..\<close> are written over a sector of another cluster, one that is in use, and the sectors of the new directory keep
  whatever they held.  The code adds the number of the cluster to the start of the data area without multiplying it by
  the sectors per cluster.\<close>

theorem fat16_create_directory_overwrites:
  assumes "sector_disk drv content works" "fat16_volume content works s" "root_path path name"
    "2 \<le> unat (sectors_per_cluster (bpb s))" "fat_of s (sectors_in content s) 2 \<noteq> 0" "free_clusters s (sectors_in content s) \<noteq> []"
    "\<forall>e \<in> set (volume_root content s). \<not> free_entry e \<longrightarrow> fe_name e \<noteq> name" "\<exists>e \<in> set (volume_root content s). free_entry e"
  shows "\<exists>s' c c' n. fat16_create_root_directory drv path s = Some (True, s')
    \<and> (\<exists>e \<in> set (volume_root content s'). fe_name e = name \<and> is_directory_entry e \<and> fe_first_cluster e = c)
    \<and> c' < c \<and> 2 \<le> c' \<and> fat_of s (sectors_in content s) c' \<noteq> 0 \<and> n \<in> set (cluster_sectors c' s)
    \<and> sectors_in content s' n = new_directory_sector c 0
    \<and> (\<forall>m \<in> set (cluster_sectors c s). sectors_in content s' m = sectors_in content s m)"
proof -
  have v: "works (fat16_disk s)" "fat16_layout s" using assms(2) by (simp_all add: fat16_volume_def)
  obtain s' f c c' n where r: "fat16_create_root_directory drv path s = Some (True, s')" "leads_to content works s f s'"
    "new_entry name 0x10 c 0 \<in> set (root_of s f)" "c' < c" "2 \<le> c'" "fat_of s (sectors_in content s) c' \<noteq> 0"
    "n \<in> set (cluster_sectors c' s)" "f n = new_directory_sector c 0"
    "\<forall>m \<in> set (cluster_sectors c s). f m = sectors_in content s m"
    using sector_disk.create_root_to [OF assms(1) v assms(3-6)] assms(7,8) unfolding volume_root_def by blast
  have "volume_root content s' = root_of s f" using leads_toD [OF r(2)] by (simp add: volume_root_def)
  then have "\<exists>e \<in> set (volume_root content s'). fe_name e = name \<and> is_directory_entry e \<and> fe_first_cluster e = c"
    using r(3) by (intro bexI [of _ "new_entry name 0x10 c 0"]) (simp_all add: is_directory_entry_def)
  then show ?thesis using r leads_toD(6) [OF r(2)] by blast
qed

section \<open>A small volume in memory\<close>

text \<open>One table of 256 entries in sector 1, the 16 entries of the root directory in sector 2 and the clusters from sector
  3 on, on the memory disk with blocks of 4096 bytes behind the VirtIO backend.\<close>

definition example_volume :: "(u64 \<Rightarrow> bytes) \<Rightarrow> u8 \<Rightarrow> (u64 \<Rightarrow> bytes) virtio_block_state fat16_state" where
  "example_volume h spc = \<lparr>bpb = \<lparr>bytes_per_sector = 512, sectors_per_cluster = spc, reserved_sectors = 1, fat_count = 1,
       root_entry_count = 16, total_sectors_16 = 0, bpb_media = 0xF8, sectors_per_fat = 1\<rparr>,
     root_start_sector = 2, root_sector_count = 1, data_start_sector = 3, fat16_mounted_target = 0, fat16_mounted_lun = 0,
     fat16_disk = memory_backend h 4096\<rparr>"

definition zero_sectors :: "u64 \<Rightarrow> bytes" where "zero_sectors n = replicate 512 0"

text \<open>The entry of cluster 2 in the table is the end of a chain, or cluster 2 itself, which then holds deleted entries.\<close>

definition one_used :: "u64 \<Rightarrow> bytes" where
  "one_used = zero_sectors(1 := put_bytes 4 [0xFF, 0xFF] (replicate 512 0))"

definition one_circle :: "u64 \<Rightarrow> bytes" where
  "one_circle = zero_sectors(1 := put_bytes 4 [2, 0] (replicate 512 0), 3 := replicate 512 0xE5)"

abbreviation memory_content :: "(u64 \<Rightarrow> bytes) virtio_block_state \<Rightarrow> u64 \<Rightarrow> bytes" where
  "memory_content \<equiv> virtio_content (\<lambda>h. h)"

abbreviation memory_works :: "(u64 \<Rightarrow> bytes) virtio_block_state \<Rightarrow> bool" where
  "memory_works \<equiv> virtio_ready (\<lambda>h. \<forall>n. length (h n) = 512)"

lemma memory_sector_disk: "sector_disk (virtio_driver memory_disk) memory_content memory_works"
  by (rule memory.virtio_sector_disk)

lemma example_simps [simp]:
  "sectors_in memory_content (example_volume h spc) n = h (ucast n)" "root_sectors (example_volume h spc) = [2]"
  "sectors_per_cluster (bpb (example_volume h spc)) = spc"
  "fat_of (example_volume h spc) g c = u16_at (2 * (unat c mod 256)) (g (1 + ucast c * 2 div 512))"
  by (simp_all add: example_volume_def sectors_in_def virtio_content_def memory_backend_def root_sectors_def fat_of_def fat_sector_def)

lemma example_works: "(\<And>n. length (h n) = 512) \<Longrightarrow> memory_works (fat16_disk (example_volume h spc))"
  unfolding example_volume_def fat16_state.simps by (rule memory_backend_ready(1)) simp_all

lemma example_layout: "spc \<noteq> 0 \<Longrightarrow> fat16_layout (example_volume h spc)"
  by (simp add: fat16_layout_def example_volume_def word_gt_0)

lemma example_root:
  assumes "h 2 = replicate 512 0"
  shows "length (volume_root memory_content (example_volume h spc)) = 16"
    "\<forall>e \<in> set (volume_root memory_content (example_volume h spc)). fe_name e ! 0 = 0"
  using assms by (auto simp: volume_root_def directory_entry_def Let_def simp del: upt_conv_Cons)

lemma example_fat16_volume:
  assumes "\<And>n. length (h n) = 512" "h 2 = replicate 512 0" "spc \<noteq> 0"
  shows "fat16_volume memory_content memory_works (example_volume h spc)"
proof -
  have "fe_name (volume_root memory_content (example_volume h spc) ! j) ! 0 = 0" if "j < 16" for j
    using example_root [where h = h, OF assms(2), of spc] that by simp
  then have "root_sound (example_volume h spc) (sectors_in memory_content (example_volume h spc))"
    using example_root(1) [where h = h, OF assms(2), of spc] unfolding root_sound_def volume_root_def Let_def by (simp add: free_entry_def)
  then show ?thesis using example_works [OF assms(1)] example_layout [OF assms(3)] by (simp add: fat16_volume_def)
qed

lemma example_path: "root_path ''/A.TXT'' [65, 32, 32, 32, 32, 32, 32, 32, 84, 88, 84]"
  by (simp add: root_path_def proper_name_def) code_simp

lemma example_lengths: "length (zero_sectors n) = 512" "length (one_used n) = 512" "length (one_circle n) = 512"
  by (simp_all add: zero_sectors_def one_used_def one_circle_def)

lemma example_zero_volume: "fat16_volume memory_content memory_works (example_volume zero_sectors 1)"
  by (rule example_fat16_volume) (simp_all add: zero_sectors_def)

lemma u16_at_zero: "2 * k + 2 \<le> n \<Longrightarrow> u16_at (2 * k) (replicate n 0) = 0"
  by (simp add: u16_at_def numeral_2_eq_2)

lemma example_can_store:
  "can_store (volume_root memory_content (example_volume zero_sectors spc)) [65, 32, 32, 32, 32, 32, 32, 32, 84, 88, 84]"
proof -
  have z: "zero_sectors 2 = replicate 512 0" by (simp add: zero_sectors_def)
  note r = example_root [where h = zero_sectors, OF z, of spc]
  then have all: "\<forall>e \<in> set (volume_root memory_content (example_volume zero_sectors spc)). free_entry e" by (simp add: free_entry_def)
  then have "volume_root memory_content (example_volume zero_sectors spc) \<noteq> []" using r(1) by auto
  then have ex: "list_ex free_entry (volume_root memory_content (example_volume zero_sectors spc))"
    unfolding list_ex_iff using all by (meson last_in_set)
  have none: "find (\<lambda>e. \<not> free_entry e \<and> fe_name e = name) (volume_root memory_content (example_volume zero_sectors spc)) = None" for name
    unfolding find_None_iff using all by blast
  show ?thesis unfolding can_store_def none using ex by simp
qed

lemma example_space:
  "clusters_needed (example_volume zero_sectors 1) 3
    \<le> length (free_clusters (example_volume zero_sectors 1) (sectors_in memory_content (example_volume zero_sectors 1)))"
proof -
  have "u16_at (2 * (unat c mod 256)) (replicate 512 0) = 0" for c :: u16
    by (rule u16_at_zero) (use mod_less_divisor [of 256 "unat c"] in linarith)
  then have "2 \<in> set (free_clusters (example_volume zero_sectors 1) (sectors_in memory_content (example_volume zero_sectors 1)))"
    by (simp add: free_clusters_def zero_sectors_def) (simp add: example_volume_def)
  then have "free_clusters (example_volume zero_sectors 1) (sectors_in memory_content (example_volume zero_sectors 1)) \<noteq> []" by auto
  moreover have "clusters_needed (example_volume zero_sectors 1) 3 = 1" by (simp add: clusters_needed_def)
  ultimately show ?thesis by (simp add: Suc_le_eq)
qed

theorem fat16_write_refines_update_witness:
  "\<exists>s'. fat16_write_root_file (virtio_driver memory_disk) ''/A.TXT'' [1, 2, 3] (example_volume zero_sectors 1) = Some (True, s')
    \<and> volume_file memory_content s' [65, 32, 32, 32, 32, 32, 32, 32, 84, 88, 84] = Some [1, 2, 3]"
proof -
  have len: "length [1 :: u8, 2, 3] < 2 ^ 32" "length [1 :: u8, 2, 3] = 3" by simp_all
  have p: "proper_name [65, 32, 32, 32, 32, 32, 32, 32, 84, 88, 84]" using example_path by (simp add: root_path_def)
  obtain ok s' where r: "fat16_write_root_file (virtio_driver memory_disk) ''/A.TXT'' [1, 2, 3] (example_volume zero_sectors 1) = Some (ok, s')"
    "ok \<longleftrightarrow> can_store (volume_root memory_content (example_volume zero_sectors 1)) [65, 32, 32, 32, 32, 32, 32, 32, 84, 88, 84]
      \<and> clusters_needed (example_volume zero_sectors 1) (length [1 :: u8, 2, 3])
          \<le> length (free_clusters (example_volume zero_sectors 1) (sectors_in memory_content (example_volume zero_sectors 1)))"
    "\<forall>name'. proper_name name' \<longrightarrow> volume_file memory_content s' name' = (if ok \<and> name' = [65, 32, 32, 32, 32, 32, 32, 32, 84, 88, 84]
      then Some [1, 2, 3] else volume_file memory_content (example_volume zero_sectors 1) name')"
    using fat16_write_refines_update [OF memory_sector_disk example_zero_volume example_path len(1)] by blast
  have "ok" unfolding r(2) len(2) using example_can_store [of 1] example_space by blast
  then show ?thesis using r(1,3) p by auto
qed

theorem fat16_read_is_content_witness:
  "\<exists>s' out. fat16_read_file (virtio_driver memory_disk) ''/A.TXT'' 100 (example_volume zero_sectors 1) = Some ((of_nat (length out), out), s')
    \<and> fat16_volume memory_content memory_works s'
    \<and> volume_file memory_content s' = volume_file memory_content (example_volume zero_sectors 1)
    \<and> out = (case volume_file memory_content (example_volume zero_sectors 1) [65, 32, 32, 32, 32, 32, 32, 32, 84, 88, 84] of
        None \<Rightarrow> [] | Some bs \<Rightarrow> take (unat (100 :: u64)) bs)"
  by (rule fat16_read_is_content [OF memory_sector_disk example_zero_volume example_path])

theorem fat16_delete_refines_removal_witness:
  "\<exists>ok s'. fat16_delete_root_file (virtio_driver memory_disk) ''/A.TXT'' (example_volume zero_sectors 1) = Some (ok, s')
    \<and> fat16_volume memory_content memory_works s'"
  using fat16_delete_refines_removal [OF memory_sector_disk example_zero_volume example_path] by blast

theorem fat16_write_then_read_witness:
  "\<exists>s' s''. fat16_write_root_file (virtio_driver memory_disk) ''/A.TXT'' [1, 2, 3] (example_volume zero_sectors 1) = Some (True, s')
    \<and> fat16_read_file (virtio_driver memory_disk) ''/A.TXT'' 100 s' = Some ((3, [1, 2, 3]), s'')"
proof -
  have v: "memory_works (fat16_disk (example_volume zero_sectors 1))" "fat16_layout (example_volume zero_sectors 1)"
    "root_sound (example_volume zero_sectors 1) (sectors_in memory_content (example_volume zero_sectors 1))"
    using example_zero_volume by (simp_all add: fat16_volume_def)
  have p: "component_to_name ''A.TXT'' = Some [65, 32, 32, 32, 32, 32, 32, 32, 84, 88, 84]"
    "proper_name [65, 32, 32, 32, 32, 32, 32, 32, 84, 88, 84]" using example_path by (simp_all add: root_path_def)
  obtain ok s' f where r: "fat16_write_root_file (virtio_driver memory_disk) ''/A.TXT'' [1, 2, 3] (example_volume zero_sectors 1) = Some (ok, s')"
    "written_to (example_volume zero_sectors 1) (sectors_in memory_content (example_volume zero_sectors 1))
      [65, 32, 32, 32, 32, 32, 32, 32, 84, 88, 84] [1, 2, 3] ok f"
    using sector_disk.write_root_to [OF memory_sector_disk v p(1) _ p(2), of "[1, 2, 3]"] by auto
  have "length [1 :: u8, 2, 3] = 3" by simp
  then have ok: "ok" using r(2) example_can_store [of 1] example_space unfolding written_to_def volume_root_def by argo
  have "\<exists>s''. fat16_read_file (virtio_driver memory_disk) ''/A.TXT'' 100 s' = Some ((of_nat (length [1 :: u8, 2, 3]), [1, 2, 3]), s'')"
    by (rule fat16_write_then_read [OF memory_sector_disk example_zero_volume example_path]) (use r(1) ok in simp_all)
  then show ?thesis using r(1) ok by auto
qed

theorem fat16_circular_directory_hangs_witness:
  "find_in_directory (virtio_driver memory_disk) 2 [65, 32, 32, 32, 32, 32, 32, 32, 84, 88, 84] (example_volume one_circle 1) = None"
proof (rule fat16_circular_directory_hangs [OF memory_sector_disk])
  show "memory_works (fat16_disk (example_volume one_circle 1))" by (rule example_works) (rule example_lengths)
  show "fat_of (example_volume one_circle 1) (sectors_in memory_content (example_volume one_circle 1)) 2 = 2"
    by (simp add: one_circle_def u16_at_def put_bytes_def)
  have "cluster_sectors 2 (example_volume one_circle 1) = [3]"
    by (simp add: cluster_sectors_def cluster_sector_number_def example_volume_def)
  moreover have "fe_name (directory_entry i (replicate 512 0xE5)) ! 0 = 0xE5" if "i < 16" for i
    using that by (simp add: directory_entry_def Let_def)
  ultimately show "\<forall>n \<in> set (cluster_sectors 2 (example_volume one_circle 1)). \<forall>i < 16.
      fe_name (directory_entry i (sectors_in memory_content (example_volume one_circle 1) n)) ! 0 \<noteq> 0
      \<and> \<not> listed_with_name [65, 32, 32, 32, 32, 32, 32, 32, 84, 88, 84]
          (directory_entry i (sectors_in memory_content (example_volume one_circle 1) n))"
    by (simp add: one_circle_def listed_with_name_def)
qed simp_all

theorem fat16_create_directory_overwrites_witness:
  "\<exists>s' c c' n. fat16_create_root_directory (virtio_driver memory_disk) ''/A.TXT'' (example_volume one_used 2) = Some (True, s')
    \<and> c' < c \<and> n \<in> set (cluster_sectors c' (example_volume one_used 2)) \<and> sectors_in memory_content s' n = new_directory_sector c 0"
proof -
  have z: "one_used 2 = replicate 512 0" by (simp add: one_used_def zero_sectors_def)
  have v: "fat16_volume memory_content memory_works (example_volume one_used 2)"
    by (rule example_fat16_volume) (simp_all add: z example_lengths)
  have two: "fat_of (example_volume one_used 2) (sectors_in memory_content (example_volume one_used 2)) 2 \<noteq> 0"
    by (simp add: one_used_def u16_at_def put_bytes_def)
  have z2: "replicate 2 (0 :: u8) = [0, 0]" by (simp add: numeral_2_eq_2)
  have "u16_at 6 (one_used 1) = 0" by (simp add: one_used_def u16_at_def put_bytes_def z2)
  then have "3 \<in> set (free_clusters (example_volume one_used 2) (sectors_in memory_content (example_volume one_used 2)))"
    by (simp add: free_clusters_def) (simp add: example_volume_def)
  then have free: "free_clusters (example_volume one_used 2) (sectors_in memory_content (example_volume one_used 2)) \<noteq> []" by auto
  note r = example_root [where h = one_used, OF z, of 2]
  then have all: "\<forall>e \<in> set (volume_root memory_content (example_volume one_used 2)). free_entry e" by (simp add: free_entry_def)
  moreover have "volume_root memory_content (example_volume one_used 2) \<noteq> []" using r(1) by auto
  ultimately have "\<exists>e \<in> set (volume_root memory_content (example_volume one_used 2)). free_entry e" by (meson last_in_set)
  moreover have "2 \<le> unat (sectors_per_cluster (bpb (example_volume one_used 2)))" by simp
  ultimately show ?thesis
    using fat16_create_directory_overwrites [OF memory_sector_disk v example_path _ two free] all by blast
qed

end
