(* ===== verification/Device_Reader.thy ===== *)
theory Device_Reader
  imports Block_Device "HOL-Library.Monad_Syntax" "HOL-Library.Char_ord"
begin

text \<open>
  What the read-only file systems share: the block device under them, the form of their results, and the loop
  that reads bytes at any offset of the device block by block.

  A file system on a block device works on a record \<open>block_io\<close>: the size and the number of blocks of its device, its
  flags and the calls
  \<^verbatim>\<open>block_device_read\<close>, \<^verbatim>\<open>block_device_write\<close> and \<^verbatim>\<open>block_device_flush\<close> on it, for a state \<open>'d\<close>.  \<open>device_io\<close> is the
  record for a device of the table of \<^verbatim>\<open>Block_Device\<close>.

  A computation has the type \<open>'s \<Rightarrow> ('r option \<times> 's) option\<close>.  \<open>Some (Some r, s)\<close> is a call that succeeds with the
  result \<open>r\<close>, \<open>Some (None, s)\<close> is \<^verbatim>\<open>return 0\<close>, and \<open>None\<close> is an access outside an array.
\<close>

section \<open>The device\<close>

record 'd block_io =
  io_block_size :: u32
  io_block_count :: u64
  io_flags :: u32
  io_read :: "u64 \<Rightarrow> 'd \<Rightarrow> (bytes option \<times> 'd) option"
  io_read_blocks :: "u64 \<Rightarrow> u32 \<Rightarrow> 'd \<Rightarrow> (bytes option \<times> 'd) option"
  io_write :: "u64 \<Rightarrow> u32 \<Rightarrow> bytes \<Rightarrow> 'd \<Rightarrow> (bool \<times> 'd) option"
  io_flush :: "'d \<Rightarrow> (bool \<times> 'd) option"

definition device_io :: "nat \<Rightarrow> 'd drivers \<Rightarrow> ASAS_BLOCK_DEVICE \<Rightarrow> nat \<Rightarrow> 'd block_state block_io" where
  "device_io fuel drv dev i = \<lparr>io_block_size = logical_block_size dev, io_block_count = block_count dev,
     io_flags = bd_flags dev,
     io_read = (\<lambda>lba s. map_option (\<lambda>(ok, b, s1). (if ok then b else None, s1))
       (block_device_read fuel drv (Some i) lba 1 (Some (replicate (block_bytes dev) 0)) s)),
     io_read_blocks = (\<lambda>lba cnt s. map_option (\<lambda>(ok, b, s1). (if ok then b else None, s1))
       (block_device_read fuel drv (Some i) lba cnt (Some (replicate (unat cnt * block_bytes dev) 0)) s)),
     io_write = (\<lambda>lba cnt data s. block_device_write fuel drv (Some i) lba cnt (Some data) s),
     io_flush = block_device_flush fuel drv (Some i)\<rparr>"

section \<open>Computations\<close>

definition on_success ::
  "('a option \<times> 's) option \<Rightarrow> ('a \<Rightarrow> 's \<Rightarrow> ('b option \<times> 's) option) \<Rightarrow> ('b option \<times> 's) option" where
  "on_success m f = do { (r, s) \<leftarrow> m; case r of None \<Rightarrow> Some (None, s) | Some x \<Rightarrow> f x s }"

text \<open>The bytes of an array, if they all lie inside it.\<close>

definition span :: "nat \<Rightarrow> nat \<Rightarrow> bytes \<Rightarrow> bytes option" where
  "span offset n b = (if offset + n \<le> length b then Some (take n (drop offset b)) else None)"

definition byte_in :: "nat \<Rightarrow> bytes \<Rightarrow> u8 option" where
  "byte_in offset b = (if offset < length b then Some (b ! offset) else None)"

definition u16_in :: "nat \<Rightarrow> bytes \<Rightarrow> u16 option" where
  "u16_in offset b = map_option (u16_at 0) (span offset 2 b)"

definition u32_in :: "nat \<Rightarrow> bytes \<Rightarrow> u32 option" where
  "u32_in offset b = map_option (u32_at 0) (span offset 4 b)"

text \<open>
  \<open>m\<close> ends in a state with \<open>held\<close> without a fault; if it succeeds its result meets \<open>P\<close>, and it succeeds
  under the condition \<open>W\<close>.
\<close>

definition outcome :: "bool \<Rightarrow> ('s \<Rightarrow> bool) \<Rightarrow> ('r option \<times> 's) option \<Rightarrow> ('r \<Rightarrow> bool) \<Rightarrow> bool" where
  "outcome W held m P \<longleftrightarrow> (\<exists>r s. m = Some (r, s) \<and> held s \<and> (r = None \<longrightarrow> \<not> W) \<and> (\<forall>x. r = Some x \<longrightarrow> P x))"

lemma outcome_return: "held s \<Longrightarrow> P x \<Longrightarrow> outcome W held (Some (Some x, s)) P"
  by (simp add: outcome_def)

lemma outcome_zero: "held s \<Longrightarrow> \<not> W \<Longrightarrow> outcome W held (Some (None, s)) P"
  by (simp add: outcome_def)

lemma outcome_on_success:
  assumes "outcome V held m Q" and "W \<Longrightarrow> V"
    and "\<And>x s. held s \<Longrightarrow> Q x \<Longrightarrow> outcome W held (f x s) P"
  shows "outcome W held (on_success m f) P"
proof -
  obtain r s where m: "m = Some (r, s)" "held s" "r = None \<longrightarrow> \<not> V" "\<forall>x. r = Some x \<longrightarrow> Q x"
    using assms(1) by (auto simp: outcome_def)
  show ?thesis
  proof (cases r)
    case None
    then show ?thesis using m assms(2) by (auto simp: on_success_def outcome_def)
  next
    case (Some x)
    then show ?thesis using m assms(3) [of s x] by (simp add: on_success_def)
  qed
qed

lemma outcome_mono:
  "outcome V held m Q \<Longrightarrow> (W \<Longrightarrow> V) \<Longrightarrow> (\<And>x. Q x \<Longrightarrow> P x) \<Longrightarrow> outcome W held m P"
  by (auto simp: outcome_def)

lemma outcome_no_fault: "outcome W held m P \<Longrightarrow> m \<noteq> None"
  by (auto simp: outcome_def)

lemma outcome_success: "outcome True held m P \<Longrightarrow> \<exists>x s. m = Some (Some x, s) \<and> held s \<and> P x"
  by (auto simp: outcome_def)

text \<open>If \<open>m\<close> ends, then in a state with \<open>held\<close>.\<close>

definition keeps :: "('s \<Rightarrow> bool) \<Rightarrow> ('r \<times> 's) option \<Rightarrow> bool" where
  "keeps held m \<longleftrightarrow> (\<forall>r s. m = Some (r, s) \<longrightarrow> held s)"

named_theorems keeps_rules \<open>what keeps the invariant of the device\<close>

lemma keeps_return [keeps_rules]: "held s \<Longrightarrow> keeps held (Some (r, s))"
  by (simp add: keeps_def)

lemma keeps_fault [keeps_rules]: "keeps held None"
  by (simp add: keeps_def)

lemma keeps_on_success [keeps_rules]:
  "keeps held m \<Longrightarrow> (\<And>x s. held s \<Longrightarrow> keeps held (f x s)) \<Longrightarrow> keeps held (on_success m f)"
  by (auto simp: keeps_def on_success_def split: option.splits prod.splits bind_splits)

lemma keeps_bind [keeps_rules]:
  "keeps held m \<Longrightarrow> (\<And>r s. held s \<Longrightarrow> keeps held (f r s)) \<Longrightarrow> keeps held (m \<bind> (\<lambda>(r, s). f r s))"
  by (auto simp: keeps_def split: option.splits prod.splits bind_splits)

lemma keeps_value [keeps_rules]: "(\<And>x. keeps held (f x)) \<Longrightarrow> keeps held (Option.bind m f)"
  by (cases m) (simp_all add: keeps_def)

lemma keeps_map [keeps_rules]: "held s \<Longrightarrow> keeps held (map_option (\<lambda>r. (f r, s)) m)"
  by (auto simp: keeps_def)

lemma keeps_if [keeps_rules]: "(b \<Longrightarrow> keeps held m) \<Longrightarrow> (\<not> b \<Longrightarrow> keeps held m') \<Longrightarrow> keeps held (if b then m else m')"
  by simp

lemma outcome_keeps: "outcome W held m P \<Longrightarrow> keeps held m"
  by (auto simp: outcome_def keeps_def)

lemma span_in: "offset + n \<le> length b \<Longrightarrow> span offset n b = Some (take n (drop offset b))"
  by (simp add: span_def)

lemma u16_in_eq: "offset + 2 \<le> length b \<Longrightarrow> u16_in offset b = Some (u16_at offset b)"
  by (simp add: u16_in_def span_in u16_at_def)

lemma u32_in_eq: "offset + 4 \<le> length b \<Longrightarrow> u32_in offset b = Some (u32_at offset b)"
  by (simp add: u32_in_def span_in u32_at_def)

lemma byte_in_eq: "offset < length b \<Longrightarrow> byte_in offset b = Some (b ! offset)"
  by (simp add: byte_in_def)

section \<open>Names and paths\<close>

definition lower_char :: "char \<Rightarrow> char" where
  "lower_char value = (if CHR ''A'' \<le> value \<and> value \<le> CHR ''Z''
     then char_of (of_char value - of_char (CHR ''A'') + of_char (CHR ''a'') :: nat) else value)"

fun strings_equal_ci :: "string \<Rightarrow> string \<Rightarrow> bool" where
  "strings_equal_ci (l # left) (r # right) =
     (if lower_char l \<noteq> lower_char r then False else strings_equal_ci left right)"
| "strings_equal_ci left right = (left = [] \<and> right = [])"

lemma strings_equal_ci_iff [simp]: "strings_equal_ci left right \<longleftrightarrow> map lower_char left = map lower_char right"
  by (induction left right rule: strings_equal_ci.induct) auto

text \<open>The C string in an array.\<close>

definition c_string :: "bytes \<Rightarrow> string" where
  "c_string b = map (\<lambda>x. char_of (unat x)) (takeWhile (\<lambda>x. x \<noteq> 0) b)"

text \<open>Whether there is a component, where the path goes on, and the component.\<close>

definition next_path_component :: "string \<Rightarrow> bool \<times> string \<times> string" where
  "next_path_component path =
     (let cursor = dropWhile (\<lambda>x. x = CHR ''/'') path
      in if cursor = [] then (False, cursor, [])
         else (True, dropWhile (\<lambda>x. x \<noteq> CHR ''/'') cursor, take 255 (takeWhile (\<lambda>x. x \<noteq> CHR ''/'') cursor)))"

lemma next_path_component_shorter: "next_path_component path = (True, rest, component) \<Longrightarrow> length rest < length path"
proof -
  assume n: "next_path_component path = (True, rest, component)"
  define cursor where "cursor = dropWhile (\<lambda>x. x = CHR ''/'') path"
  have c: "cursor \<noteq> []" "rest = dropWhile (\<lambda>x. x \<noteq> CHR ''/'') cursor"
    using n by (auto simp: next_path_component_def cursor_def Let_def split: if_splits)
  then have "hd cursor \<noteq> CHR ''/''" using hd_dropWhile unfolding cursor_def by blast
  then have "length rest < length cursor"
    using c length_dropWhile_le [of "\<lambda>x. x \<noteq> CHR ''/''" "tl cursor"] by (cases cursor) simp_all
  also have "\<dots> \<le> length path" unfolding cursor_def by (rule length_dropWhile_le)
  finally show ?thesis .
qed

text \<open>The \<open>part\<close> bytes of a step when at most \<open>left\<close> bytes are left.\<close>

definition clip :: "u32 \<Rightarrow> u64 \<Rightarrow> u32" where
  "clip part left = (if ucast part > left then ucast left else part)"

lemma unat_clip: "unat (clip part left) = min (unat part) (unat left)"
proof (cases "ucast part > left")
  case True
  then have "unat left < unat part" by (simp add: word_less_nat_alt)
  then have "unat left < 4294967296" by (rule order_less_trans [OF _ unat_less_32])
  then show ?thesis using True by (simp add: clip_def unsigned_ucast_eq take_bit_nat_eq_self_iff word_less_nat_alt)
qed (simp add: clip_def word_less_nat_alt)

lemma clip_progress:
  fixes copied capacity :: u64 and step :: u32
  assumes "copied < capacity" "step \<noteq> 0" "unat step \<le> unat (capacity - copied)"
  shows "unat capacity - unat (copied + ucast step) < unat capacity - unat copied"
proof -
  have "unat (capacity - copied) = unat capacity - unat copied" using assms(1) by (simp add: unat_sub_le)
  then have l: "unat copied + unat step \<le> unat capacity" "0 < unat step"
    using assms by (simp_all add: word_less_nat_alt unat_gt_0)
  then have "unat copied + unat (ucast step :: u64) < 18446744073709551616"
    using order_le_less_trans [OF l(1) unat_less_64] by simp
  then have "unat (copied + ucast step) = unat copied + unat step" by (simp add: unat_add_64)
  then show ?thesis using l by simp
qed

section \<open>Devices that keep what is on them\<close>

text \<open>What the file systems rely on of reading: a block that is read is the block of the disk, and blocks for
  which \<open>works\<close> holds can be read.\<close>

locale block_source =
  fixes io :: "'d block_io" and held :: "'d \<Rightarrow> bool" and disk :: "u64 \<Rightarrow> bytes" and works :: "u64 \<Rightarrow> bool"
  assumes source_read: "held s \<Longrightarrow> outcome (works lba) held (io_read io lba s) (\<lambda>b. b = disk lba)"
    and source_length: "held s \<Longrightarrow> length (disk lba) = unat (io_block_size io)"

text \<open>Several blocks at once.\<close>

locale multi_source = block_source +
  fixes works_all :: "u64 \<Rightarrow> u32 \<Rightarrow> bool"
  assumes source_read_blocks: "held s \<Longrightarrow> unat cnt * unat (io_block_size io) < 2 ^ 32 \<Longrightarrow>
      outcome (works_all lba cnt) held (io_read_blocks io lba cnt s)
        (\<lambda>b. b = concat (map (\<lambda>j. disk (lba + of_nat j)) [0 ..< unat cnt]))"

text \<open>The byte at an address of the device.\<close>

definition disk_byte :: "u32 \<Rightarrow> (u64 \<Rightarrow> bytes) \<Rightarrow> nat \<Rightarrow> u8" where
  "disk_byte bs disk a = disk (of_nat (a div unat bs)) ! (a mod unat bs)"

definition disk_bytes :: "u32 \<Rightarrow> (u64 \<Rightarrow> bytes) \<Rightarrow> nat \<Rightarrow> nat \<Rightarrow> bytes" where
  "disk_bytes bs disk a n = map (\<lambda>i. disk_byte bs disk (a + i)) [0 ..< n]"

lemma length_disk_bytes [simp]: "length (disk_bytes bs disk a n) = n"
  by (simp add: disk_bytes_def)

lemma disk_bytes_nth [simp]: "i < n \<Longrightarrow> disk_bytes bs disk a n ! i = disk_byte bs disk (a + i)"
  by (simp add: disk_bytes_def)

lemma disk_bytes_append: "disk_bytes bs disk a m @ disk_bytes bs disk (a + m) n = disk_bytes bs disk a (m + n)"
  by (rule nth_equalityI) (auto simp: nth_append add.assoc)

lemma take_disk_bytes: "k + n \<le> m \<Longrightarrow> take n (drop k (disk_bytes bs disk a m)) = disk_bytes bs disk (a + k) n"
  by (rule nth_equalityI) (auto simp: add.assoc)

lemma disk_bytes_in_block:
  assumes "a mod unat bs + n \<le> unat bs" "length (disk (of_nat (a div unat bs))) = unat bs"
  shows "disk_bytes bs disk a n = take n (drop (a mod unat bs) (disk (of_nat (a div unat bs))))"
proof (rule nth_equalityI)
  fix i
  assume "i < length (disk_bytes bs disk a n)"
  then have i: "i < n" by simp
  then have l: "a mod unat bs + i < unat bs" using assms(1) by simp
  have "a + i = a div unat bs * unat bs + (a mod unat bs + i)" by simp
  then have "(a + i) div unat bs = a div unat bs" "(a + i) mod unat bs = a mod unat bs + i"
    using l by (metis div_mult_self3 div_less add.right_neutral add_eq_0_iff_both_eq_0 less_nat_zero_code
      not_less_zero, metis mod_mult_self3 mod_less)
  then show "disk_bytes bs disk a n ! i = take n (drop (a mod unat bs) (disk (of_nat (a div unat bs)))) ! i"
    using i l assms by (simp add: disk_bytes_def disk_byte_def)
qed (use assms in simp)

section \<open>Reading bytes\<close>

lemma part_progress:
  fixes copied sz part :: u32
  assumes "copied < sz" "part \<noteq> 0" "part \<le> sz - copied"
  shows "unat sz - unat (copied + part) < unat sz - unat copied"
proof -
  have "unat (sz - copied) = unat sz - unat copied" using assms(1) by (simp add: unat_sub_le)
  then have l: "unat copied + unat part \<le> unat sz" "0 < unat part"
    using assms by (simp_all add: word_le_nat_alt word_less_nat_alt unat_gt_0)
  then have "unat copied + unat part < 4294967296"
    using order_le_less_trans [OF l(1) unat_less_32] by simp
  then have "unat copied + unat part < 2 ^ LENGTH(32)" by simp
  then have "unat (copied + part) = unat copied + unat part" by (rule unat_add_lem [THEN iffD1])
  then show ?thesis using l by simp
qed

text \<open>The loop of the functions \<^verbatim>\<open>read_bytes\<close>: \<open>acc\<close> are the bytes that have been copied; \<open>capacity\<close> is the size of
  the buffer they are copied to.\<close>

function copy_from_device ::
  "'d block_io \<Rightarrow> u64 \<Rightarrow> nat \<Rightarrow> u32 \<Rightarrow> u32 \<Rightarrow> bytes \<Rightarrow> 'd \<Rightarrow> (bytes option \<times> 'd) option" where
  "copy_from_device io byte_offset capacity sz copied acc s =
     (if copied < sz then
        let bs = io_block_size io;
            absolute = byte_offset + ucast copied;
            lba = absolute div ucast bs;
            skip = ucast (absolute mod ucast bs);
            chunk = (if bs - skip > sz - copied then sz - copied else bs - skip)
        in if chunk = 0 then None
           else on_success (io_read io lba s) (\<lambda>sector s1. do {
             part \<leftarrow> span (unat skip) (unat chunk) sector;
             if unat copied + unat chunk > capacity then None
             else copy_from_device io byte_offset capacity sz (copied + chunk) (acc @ part) s1 })
      else Some (Some acc, s))"
  by pat_completeness auto
termination
  by (relation "measure (\<lambda>(io, byte_offset, capacity, sz, copied, acc, s). unat sz - unat copied)")
     (auto intro!: part_progress dest: word_less_nat_alt [THEN iffD1])

declare copy_from_device.simps [simp del]

text \<open>\<open>read_bytes\<close>\<close>

definition read_bytes :: "'d block_io \<Rightarrow> u64 \<Rightarrow> nat \<Rightarrow> u32 \<Rightarrow> 'd \<Rightarrow> (bytes option \<times> 'd) option" where
  "read_bytes io byte_offset capacity sz s =
     (if io_block_size io < 512 \<or> io_block_size io > 4096 then Some (None, s)
      else copy_from_device io byte_offset capacity sz 0 [] s)"

lemma unat_of_nat_id: "of_nat (unat x) = x" for x :: "'a::len word"
  by simp

text \<open>One round of the loop in natural numbers.\<close>

lemma copy_step:
  fixes bs copied sz :: u32 and absolute :: u64
  assumes l: "copied < sz" and bs: "bs \<noteq> 0"
  defines "skip \<equiv> ucast (absolute mod ucast bs)"
  defines "part \<equiv> (if bs - skip > sz - copied then sz - copied else bs - skip)"
  shows "unat skip = unat absolute mod unat bs" "0 < unat part" "part \<noteq> 0" "unat skip + unat part \<le> unat bs"
    "unat copied + unat part \<le> unat sz" "unat (copied + part) = unat copied + unat part"
proof -
  have b: "0 < unat bs" using bs by (simp add: unat_gt_0)
  have m: "unat absolute mod unat bs < unat bs" using b by simp
  have "unat (absolute mod ucast bs) = unat absolute mod unat bs" by (simp add: unat_mod_distrib)
  then show s: "unat skip = unat absolute mod unat bs"
    using order_less_trans [OF m unat_less_32] unfolding skip_def
    by (simp add: unsigned_ucast_eq take_bit_nat_eq_self_iff)
  then have "skip < bs" using m by (simp add: word_less_nat_alt)
  then have d: "unat (bs - skip) = unat bs - unat skip" by (simp add: unat_sub_le)
  have e: "unat (sz - copied) = unat sz - unat copied" using l by (simp add: unat_sub_le)
  have c: "unat part = min (unat sz - unat copied) (unat bs - unat skip)"
    unfolding part_def using d e by (auto simp: word_less_nat_alt)
  have l': "unat copied < unat sz" using l by (simp add: word_less_nat_alt)
  show p: "0 < unat part" unfolding c using l' s m by simp
  then show "part \<noteq> 0" by (simp add: unat_gt_0)
  show "unat skip + unat part \<le> unat bs" unfolding c using s m by simp
  show q: "unat copied + unat part \<le> unat sz" unfolding c using l' by simp
  have "unat copied + unat part < 4294967296" using q unat_less_32 [of sz] by linarith
  then have "unat copied + unat part < 2 ^ LENGTH(32)" by simp
  then show "unat (copied + part) = unat copied + unat part" by (rule unat_add_lem [THEN iffD1])
qed

context block_source
begin

text \<open>All blocks with bytes of an interval can be read.\<close>

definition readable :: "nat \<Rightarrow> nat \<Rightarrow> bool" where
  "readable a n \<longleftrightarrow> (\<forall>i < n. works (of_nat ((a + i) div unat (io_block_size io))))"

abbreviation content :: "nat \<Rightarrow> nat \<Rightarrow> bytes" where
  "content \<equiv> disk_bytes (io_block_size io) disk"

lemma readable_part: "readable a n \<Longrightarrow> k + m \<le> n \<Longrightarrow> readable (a + k) m"
  unfolding readable_def by (metis add.assoc add_less_cancel_left order_less_le_trans)

lemma source_keeps [keeps_rules]: "held s \<Longrightarrow> keeps held (io_read io lba s)"
  using source_read by (rule outcome_keeps)

lemma copy_from_device_keeps: "held s \<Longrightarrow> keeps held (copy_from_device io byte_offset capacity sz copied acc s)"
proof (induction "unat sz - unat copied" arbitrary: copied acc s rule: less_induct)
  case less
  let ?bs = "io_block_size io" and ?at = "byte_offset + ucast copied :: u64"
  let ?skip = "ucast (?at mod ucast ?bs) :: u32"
  let ?part = "if ?bs - ?skip > sz - copied then sz - copied else ?bs - ?skip"
  have "unat sz - unat (copied + ?part) < unat sz - unat copied" if "copied < sz" "?part \<noteq> 0"
    by (rule part_progress [OF that]) auto
  note IH = less.hyps [OF this]
  show ?case
    by (subst copy_from_device.simps, unfold Let_def) (intro keeps_rules less.prems IH; simp)
qed

lemma read_bytes_keeps [keeps_rules]: "held s \<Longrightarrow> keeps held (read_bytes io byte_offset capacity sz s)"
  unfolding read_bytes_def by (intro keeps_rules copy_from_device_keeps)

lemma copy_from_device_outcome:
  assumes "held s" "io_block_size io \<noteq> 0" "unat sz \<le> capacity" "copied \<le> sz" "length acc = unat copied"
    and "fits \<longrightarrow> unat byte_offset + unat sz \<le> 2 ^ 64"
    and "fits \<longrightarrow> acc = content (unat byte_offset) (unat copied)"
  shows "outcome (fits \<and> readable (unat byte_offset + unat copied) (unat sz - unat copied)) held
    (copy_from_device io byte_offset capacity sz copied acc s)
    (\<lambda>b. length b = unat sz \<and> (fits \<longrightarrow> b = content (unat byte_offset) (unat sz)))"
  using assms
proof (induction "unat sz - unat copied" arbitrary: copied acc s rule: less_induct)
  case less
  let ?bs = "io_block_size io"
  show ?case
  proof (cases "copied < sz")
    case False
    then have "copied = sz" using less.prems(4) by simp
    then show ?thesis using less.prems by (simp add: copy_from_device.simps [of io] outcome_return)
  next
    case True
    let ?at = "byte_offset + ucast copied :: u64"
    let ?lba = "?at div ucast ?bs"
    let ?skip = "ucast (?at mod ucast ?bs) :: u32"
    let ?part = "if ?bs - ?skip > sz - copied then sz - copied else ?bs - ?skip"
    note step = copy_step [OF True less.prems(2), of ?at]
    define part where "part = ?part"
    note step = step [folded part_def]
    have lba: "unat ?lba = unat ?at div unat ?bs" by (simp add: unat_div_distrib)
    let ?W = "fits \<and> readable (unat byte_offset + unat copied) (unat sz - unat copied)"
    have at: "unat ?at = unat byte_offset + unat copied" if fits
    proof -
      have "unat byte_offset + unat copied < 2 ^ 64"
        using that less.prems(6) True by (simp add: word_less_nat_alt)
      then show ?thesis by (simp add: unat_add_64)
    qed
    have "outcome ?W held (on_success (io_read io ?lba s) (\<lambda>sector s1. do {
        p \<leftarrow> span (unat ?skip) (unat part) sector;
        if unat copied + unat part > capacity then None
        else copy_from_device io byte_offset capacity sz (copied + part) (acc @ p) s1 }))
      (\<lambda>b. length b = unat sz \<and> (fits \<longrightarrow> b = content (unat byte_offset) (unat sz)))"
    proof (rule outcome_on_success [OF source_read [OF less.prems(1)]])
      assume W: ?W
      have "works (of_nat ((unat byte_offset + unat copied + 0) div unat ?bs))"
        using W True unfolding readable_def word_less_nat_alt by (meson zero_less_diff)
      then show "works ?lba" using at W lba by (metis add_0_right unat_of_nat_id)
    next
      fix sector s1
      assume s1: "held s1" "sector = disk ?lba"
      then have len: "length sector = unat ?bs" using source_length by simp
      let ?p = "take (unat part) (drop (unat ?skip) sector)"
      have lp: "length ?p = unat part" using len step(4) by simp
      have "acc @ ?p = content (unat byte_offset) (unat (copied + part))" if fits
      proof -
        have "of_nat ((unat byte_offset + unat copied) div unat ?bs) = ?lba"
          using at [OF that] lba by (metis unat_of_nat_id)
        then have "?p = content (unat byte_offset + unat copied) (unat part)"
          using disk_bytes_in_block [of "unat byte_offset + unat copied" ?bs "unat part" disk] step(1,4) at [OF that]
            s1(2) len by simp
        then show ?thesis using less.prems(7) that step(6) by (simp add: disk_bytes_append)
      qed
      moreover have "unat sz - unat (copied + part) < unat sz - unat copied"
        using step(2,6) True by (simp add: word_less_nat_alt)
      moreover have "copied + part \<le> sz" using step(5,6) by (simp add: word_le_nat_alt)
      ultimately have "outcome (fits \<and> readable (unat byte_offset + unat (copied + part))
          (unat sz - unat (copied + part))) held
        (copy_from_device io byte_offset capacity sz (copied + part) (acc @ ?p) s1)
        (\<lambda>b. length b = unat sz \<and> (fits \<longrightarrow> b = content (unat byte_offset) (unat sz)))"
        using less.hyps [of "copied + part" s1 "acc @ ?p"] s1(1) less.prems(2,3,5,6) lp step(6) by simp
      then have "outcome ?W held (copy_from_device io byte_offset capacity sz (copied + part) (acc @ ?p) s1)
        (\<lambda>b. length b = unat sz \<and> (fits \<longrightarrow> b = content (unat byte_offset) (unat sz)))"
        by (rule outcome_mono) (use readable_part [of "unat byte_offset + unat copied" "unat sz - unat copied" "unat part"
            "unat sz - unat (copied + part)"] step(5,6) in \<open>auto simp: add.assoc\<close>)
      then show "outcome ?W held (do {
          p \<leftarrow> span (unat ?skip) (unat part) sector;
          if unat copied + unat part > capacity then None
          else copy_from_device io byte_offset capacity sz (copied + part) (acc @ p) s1 })
        (\<lambda>b. length b = unat sz \<and> (fits \<longrightarrow> b = content (unat byte_offset) (unat sz)))"
        using step(4,5) len less.prems(3) by (simp add: span_in)
    qed
    moreover have "copy_from_device io byte_offset capacity sz copied acc s
      = on_success (io_read io ?lba s) (\<lambda>sector s1. do {
        p \<leftarrow> span (unat ?skip) (unat part) sector;
        if unat copied + unat part > capacity then None
        else copy_from_device io byte_offset capacity sz (copied + part) (acc @ p) s1 })"
      using True step(3) by (subst copy_from_device.simps) (simp only: Let_def if_True if_False part_def [symmetric])
    ultimately show ?thesis by simp
  qed
qed

lemma read_bytes_outcome:
  assumes "held s" "unat sz \<le> capacity" "fits \<longrightarrow> unat byte_offset + unat sz \<le> 2 ^ 64"
    "W \<Longrightarrow> fits \<and> 512 \<le> io_block_size io \<and> io_block_size io \<le> 4096 \<and> readable (unat byte_offset) (unat sz)"
  shows "outcome W held (read_bytes io byte_offset capacity sz s)
    (\<lambda>b. length b = unat sz \<and> (fits \<longrightarrow> b = content (unat byte_offset) (unat sz)))"
proof (cases "io_block_size io < 512 \<or> io_block_size io > 4096")
  case True
  then show ?thesis using assms by (auto simp: read_bytes_def intro!: outcome_zero)
next
  case False
  then have "io_block_size io \<noteq> 0" by auto
  then have "outcome (fits \<and> readable (unat byte_offset) (unat sz)) held (copy_from_device io byte_offset capacity sz 0 [] s)
      (\<lambda>b. length b = unat sz \<and> (fits \<longrightarrow> b = content (unat byte_offset) (unat sz)))"
    using copy_from_device_outcome [of s sz capacity 0 "[]" fits byte_offset] assms(1-3) by (simp add: disk_bytes_def)
  then show ?thesis using False assms(4) by (auto simp: read_bytes_def elim: outcome_mono)
qed

end

section \<open>The devices of the table are such devices\<close>

text \<open>A driver whose reads inside the device never fail.\<close>

locale reliable_driver = disk_driver +
  assumes read_total: "read_blocks ops = Some f \<Longrightarrow> dinv d \<Longrightarrow> request_in_bounds dev lba 1 \<Longrightarrow>
      f dev lba 1 d = (r, d') \<Longrightarrow> r \<noteq> None"
begin

lemma read_block_total:
  assumes "read_blocks (drv n) = read_blocks ops" "read_blocks ops \<noteq> None" "request_in_bounds dev lba 1"
    "dinv (driver_state s)" "read_block (\<lambda>l. driver_read drv n dev l 1) dev lba s = Some (r, s')"
  shows "r \<noteq> None"
proof (cases "cache_find dev lba s")
  case None
  let ?s = "count_event dev (\<lambda>t. t\<lparr>cache_misses := cache_misses t + 1\<rparr>) s"
  obtain f where f: "read_blocks (drv n) = Some f" "read_blocks ops = Some f" using assms(1,2) by auto
  obtain x d' where e: "f dev lba 1 (driver_state ?s) = (x, d')" by fastforce
  have "dinv (driver_state ?s)" using assms(4) by simp
  then have "x \<noteq> None" using read_total [OF f(2) _ assms(3) e] by simp
  then obtain b where "driver_read drv n dev lba 1 ?s = Some (Some b, ?s\<lparr>driver_state := d'\<rparr>)"
    using e f(1) by (auto simp: driver_read_def)
  from with_retry_first [where d = dev and f = "driver_read drv n dev lba 1" and s = ?s, OF this] show ?thesis
    using None assms(5) by (auto simp: read_block_def)
qed (use assms(5) in \<open>auto simp: read_block_def Let_def\<close>)

lemma read_total_settled:
  assumes "devices s ! i = dev" "bd_ops dev = Driver_ops n" "read_blocks (drv n) = read_blocks ops"
    "block_bytes dev < 2 ^ 32" "length buffer = block_bytes dev" "settled B s"
    "request_in_bounds dev lba 1" "read_blocks ops \<noteq> None"
  shows "\<exists>s'. block_device_read (Suc fuel) drv (Some i) lba 1 (Some buffer) s = Some (True, Some (B lba), s')
    \<and> settled B s' \<and> devices s' = devices s"
proof -
  obtain ok b s' where r: "block_device_read (Suc fuel) drv (Some i) lba 1 (Some buffer) s = Some (ok, Some b, s')"
    "settled B s'" "devices s' = devices s" "ok \<longrightarrow> b = B lba"
    using read_settled [where drv = drv and n = n and i = i and s = s and B = B and cnt = 1 and buffer = buffer
        and fuel = fuel and lba = lba] assms by auto
  let ?s = "count_event dev (\<lambda>t. t\<lparr>read_ops := read_ops t + 1, blocks_read := blocks_read t + ucast (1 :: u32)\<rparr>) s"
  obtain x t where x: "read_block (\<lambda>l. driver_read drv n dev l 1) dev lba ?s = Some (x, t)"
    using read_block_settled [where drv = drv and n = n and lba = lba and s = ?s and B = B] assms(3,6,7,8)
    by (auto simp: settled_def)
  have "x \<noteq> None"
    by (rule read_block_total [OF assms(3,8,7) _ x]) (use assms(6) in \<open>simp add: settled_def\<close>)
  then have ok
    using r(1) x assms(1,2,3,7,8) by (auto simp: has_read_def Let_def split: option.splits)
  then show ?thesis using r by (auto simp del: block_device_read.simps)
qed

end

context disk_driver
begin

lemma device_source:
  assumes "bd_ops dev = Driver_ops n" "read_blocks (drv n) = read_blocks ops"
  shows "block_source (device_io (Suc fuel) drv dev i) (\<lambda>s. settled B s \<and> devices s ! i = dev) B (\<lambda>_. False)"
proof
  fix s lba
  assume s: "settled B s \<and> devices s ! i = dev"
  show "length (B lba) = unat (io_block_size (device_io (Suc fuel) drv dev i))"
    using s block_length by (auto simp: settled_def device_io_def block_bytes_def)
  have "block_bytes dev < 2 ^ 32" by (simp add: block_bytes_def)
  then obtain ok b s' where "block_device_read (Suc fuel) drv (Some i) lba 1 (Some (replicate (block_bytes dev) 0)) s
      = Some (ok, Some b, s')" "settled B s'" "devices s' = devices s" "ok \<longrightarrow> b = B lba"
    using read_settled [where drv = drv and n = n and i = i and s = s and B = B and cnt = 1
        and buffer = "replicate (block_bytes dev) 0" and fuel = fuel and lba = lba] assms s by auto
  then show "outcome False (\<lambda>s. settled B s \<and> devices s ! i = dev) (io_read (device_io (Suc fuel) drv dev i) lba s)
      (\<lambda>b. b = B lba)"
    using s by (auto simp: device_io_def outcome_def simp del: block_device_read.simps)
qed

lemma device_multi_source:
  assumes "bd_ops dev = Driver_ops n" "read_blocks (drv n) = read_blocks ops"
  shows "multi_source (device_io (Suc fuel) drv dev i) (\<lambda>s. settled B s \<and> devices s ! i = dev) B (\<lambda>_. False) (\<lambda>_ _. False)"
  unfolding multi_source_def multi_source_axioms_def
proof (intro conjI allI impI device_source [where n = n and drv = drv, OF assms])
  fix s lba and cnt :: u32
  assume s: "settled B s \<and> devices s ! i = dev"
    and n: "unat cnt * unat (io_block_size (device_io (Suc fuel) drv dev i)) < 2 ^ 32"
  then have "unat cnt * block_bytes dev < 2 ^ 32" by (simp add: device_io_def block_bytes_def)
  then obtain ok b s' where
    "block_device_read (Suc fuel) drv (Some i) lba cnt (Some (replicate (unat cnt * block_bytes dev) 0)) s
      = Some (ok, Some b, s')" "settled B s'" "devices s' = devices s"
    "ok \<longrightarrow> b = concat (map (\<lambda>j. B (lba + of_nat j)) [0 ..< unat cnt])"
    using read_settled [where drv = drv and n = n and i = i and s = s and B = B and cnt = cnt
        and buffer = "replicate (unat cnt * block_bytes dev) 0" and fuel = fuel and lba = lba] assms s by auto
  then show "outcome False (\<lambda>s. settled B s \<and> devices s ! i = dev)
      (io_read_blocks (device_io (Suc fuel) drv dev i) lba cnt s)
      (\<lambda>b. b = concat (map (\<lambda>j. B (lba + of_nat j)) [0 ..< unat cnt]))"
    using s by (auto simp: device_io_def outcome_def simp del: block_device_read.simps)
qed

end

context reliable_driver
begin

lemma reliable_source:
  assumes "bd_ops dev = Driver_ops n" "read_blocks (drv n) = read_blocks ops" "read_blocks ops \<noteq> None"
  shows "block_source (device_io (Suc fuel) drv dev i) (\<lambda>s. settled B s \<and> devices s ! i = dev) B
    (\<lambda>lba. request_in_bounds dev lba 1)"
proof
  fix s lba
  assume s: "settled B s \<and> devices s ! i = dev"
  show "length (B lba) = unat (io_block_size (device_io (Suc fuel) drv dev i))"
    using s block_length by (auto simp: settled_def device_io_def block_bytes_def)
  note source = block_source.source_read [OF device_source [where i = i and B = B and fuel = fuel and n = n and drv = drv,
    OF assms(1,2)] s]
  show "outcome (request_in_bounds dev lba 1) (\<lambda>s. settled B s \<and> devices s ! i = dev)
      (io_read (device_io (Suc fuel) drv dev i) lba s) (\<lambda>b. b = B lba)"
  proof (cases "request_in_bounds dev lba 1")
    case True
    have "block_bytes dev < 2 ^ 32" by (simp add: block_bytes_def)
    then obtain s' where "block_device_read (Suc fuel) drv (Some i) lba 1 (Some (replicate (block_bytes dev) 0)) s
        = Some (True, Some (B lba), s')" "settled B s'" "devices s' = devices s"
      using read_total_settled [where drv = drv and n = n and i = i and s = s and B = B
          and buffer = "replicate (block_bytes dev) 0" and fuel = fuel and lba = lba] assms s True by auto
    then show ?thesis
      using s by (auto simp: device_io_def outcome_def simp del: block_device_read.simps)
  next
    case False
    then show ?thesis using source [of lba] by simp
  qed
qed

end

definition sound_test_disk :: "ASAS_BLOCK_DEVICE \<Rightarrow> self_test_disks \<Rightarrow> bool" where
  "sound_test_disk dev disks \<longleftrightarrow> self_test_inv dev disks
     \<and> (\<forall>d. disks (driver_context dev) = Some d \<longrightarrow> \<not> st_removed d \<and> fail_reads d = 0
        \<and> st_block_count d \<noteq> 0)"

lemma copy_in_fold_kept:
  "st_removed (fold (\<lambda>i d1. copy_in (f i) (g i) d1) xs d) = st_removed d"
  "fail_reads (fold (\<lambda>i d1. copy_in (f i) (g i) d1) xs d) = fail_reads d"
  "st_block_count (fold (\<lambda>i d1. copy_in (f i) (g i) d1) xs d) = st_block_count d"
  by (induction xs arbitrary: d) (simp_all add: copy_in_def)

interpretation sound_disk: reliable_driver self_test_ops dev "sound_test_disk dev" "self_test_blocks dev" for dev
proof
  fix f d lba r d'
  assume *: "read_blocks self_test_ops = Some f" "sound_test_disk dev d" "request_in_bounds dev lba 1" "f dev lba 1 d = (r, d')"
  have "d' = d" using *(1,2,4)
    by (auto simp: self_test_ops_def sound_test_disk_def self_test_inv_def self_test_read_def split: if_splits)
  then show "sound_test_disk dev d' \<and> self_test_blocks dev d' = self_test_blocks dev d
      \<and> (\<forall>data. r = Some data \<longrightarrow> data = self_test_blocks dev d lba)"
    using self_test.read_law [OF *(1) _ *(3,4)] *(2) by (simp add: sound_test_disk_def)
  obtain t where t: "d (driver_context dev) = Some t" "\<not> st_removed t" "fail_reads t = 0" "st_block_count t \<noteq> 0"
    "block_count dev = ucast (st_block_count t)"
    using *(2) by (auto simp: sound_test_disk_def self_test_inv_def)
  have "block_count dev \<noteq> 0" using t(4,5) by (metis unat_0 unat_eq_zero unat_ucast_32_64)
  then have "self_test_disk_bounds (Some t) lba 1"
    using *(3) t(2,5) unfolding request_in_bounds_iff self_test_bounds_iff t by simp
  then show "r \<noteq> None" using * t by (auto simp: self_test_ops_def self_test_read_def)
next
  show "sound_test_disk dev d \<Longrightarrow> length (self_test_blocks dev d lba) = block_bytes dev" for d lba
    by (simp add: sound_test_disk_def self_test.block_length)
next
  fix g d lba cnt data ok d'
  assume *: "write_blocks self_test_ops = Some g" "sound_test_disk dev d" "request_in_bounds dev lba cnt"
    "unat cnt * block_bytes dev < 2 ^ 32" "unat cnt * block_bytes dev \<le> length data" "g dev lba cnt data d = (ok, d')"
  have inv: "self_test_inv dev d" using *(2) by (simp add: sound_test_disk_def)
  show "sound_test_disk dev d' \<and> self_test_blocks dev d' = (\<lambda>l. if ok \<and> unat lba \<le> unat l
      \<and> unat l < unat lba + unat cnt then chunk dev (unat l - unat lba) data else self_test_blocks dev d l)"
  proof
    show "self_test_blocks dev d' = (\<lambda>l. if ok \<and> unat lba \<le> unat l
      \<and> unat l < unat lba + unat cnt then chunk dev (unat l - unat lba) data else self_test_blocks dev d l)"
      using self_test.write_law [OF *(1) inv *(3-6)] by simp
    have "\<forall>t. d' (driver_context dev) = Some t \<longrightarrow> (\<exists>u. d (driver_context dev) = Some u \<and> st_removed t = st_removed u
        \<and> fail_reads t = fail_reads u \<and> st_block_count t = st_block_count u)"
      using *(1,6) copy_in_fold_kept by (fastforce simp: self_test_ops_def self_test_write_def split: option.splits if_splits)
    then show "sound_test_disk dev d'"
      using self_test.write_law [OF *(1) inv *(3-6)] *(2) unfolding sound_test_disk_def by metis
  qed
next
  fix h d ok d'
  assume *: "flush_blocks self_test_ops = Some h" "sound_test_disk dev d" "h dev d = (ok, d')"
  have inv: "self_test_inv dev d" using *(2) by (simp add: sound_test_disk_def)
  show "sound_test_disk dev d' \<and> self_test_blocks dev d' = self_test_blocks dev d"
    using self_test.flush_law [OF *(1) inv *(3)] *
    by (auto simp: sound_test_disk_def self_test_ops_def self_test_flush_def split: option.splits if_splits)
qed

text \<open>The device \<open>dev\<close> behind driver \<open>n\<close>, as device \<open>i\<close> of the table: with a driver that may fail, and with
  one that does not.\<close>

definition test_device :: "ASAS_BLOCK_DEVICE \<Rightarrow> nat \<Rightarrow> ASAS_BLOCK_DEVICE" where
  "test_device dev n = dev\<lparr>bd_ops := Driver_ops n\<rparr>"

definition test_io :: "nat \<Rightarrow> ASAS_BLOCK_DEVICE \<Rightarrow> nat \<Rightarrow> nat \<Rightarrow> self_test_disks block_state block_io" where
  "test_io fuel dev n i = device_io (Suc fuel) (\<lambda>_. self_test_ops) (test_device dev n) i"

interpretation test_source: block_source "test_io fuel dev n i"
    "\<lambda>s. self_test.settled (test_device dev n) B s \<and> devices s ! i = test_device dev n" B "\<lambda>_. False" for fuel dev n i B
  unfolding test_io_def by (rule self_test.device_source [where n = n]) (simp_all add: test_device_def)

interpretation sound_source: block_source "test_io fuel dev n i"
    "\<lambda>s. sound_disk.settled (test_device dev n) B s \<and> devices s ! i = test_device dev n" B
    "\<lambda>lba. request_in_bounds (test_device dev n) lba 1" for fuel dev n i B
  unfolding test_io_def by (rule sound_disk.reliable_source [where n = n]) (simp_all add: test_device_def self_test_ops_def)

interpretation test_multi: multi_source "test_io fuel dev n i"
    "\<lambda>s. self_test.settled (test_device dev n) B s \<and> devices s ! i = test_device dev n" B "\<lambda>_. False" "\<lambda>_ _. False"
  for fuel dev n i B
  unfolding test_io_def by (rule self_test.device_multi_source [where n = n]) (simp_all add: test_device_def)

text \<open>A disk image in memory, given by its bytes.\<close>

definition image_block :: "(nat \<Rightarrow> u8) \<Rightarrow> u64 \<Rightarrow> bytes" where
  "image_block img lba = map (\<lambda>i. img (unat lba * 512 + i)) [0 ..< 512]"

definition image_io :: "(nat \<Rightarrow> u8) \<Rightarrow> unit block_io" where
  "image_io img = \<lparr>io_block_size = 512, io_block_count = 0, io_flags = 0,
     io_read = (\<lambda>lba s. Some (Some (image_block img lba), s)),
     io_read_blocks = (\<lambda>lba cnt s. Some (Some (concat (map (\<lambda>i. image_block img (lba + of_nat i)) [0 ..< unat cnt])), s)),
     io_write = (\<lambda>lba cnt data s. Some (False, s)), io_flush = (\<lambda>s. Some (True, s))\<rparr>"

lemma image_io_size [simp]: "io_block_size (image_io img) = 512"
  by (simp add: image_io_def)

interpretation image: block_source "image_io img" "\<lambda>_. True" "image_block img" "\<lambda>_. True" for img
  by unfold_locales (simp_all add: image_io_def outcome_def image_block_def)

interpretation image_multi: multi_source "image_io img" "\<lambda>_. True" "image_block img" "\<lambda>_. True" "\<lambda>_ _. True" for img
  by unfold_locales (simp add: image_io_def outcome_def)

lemma image_content:
  assumes "a + n \<le> 2 ^ 64"
  shows "disk_bytes 512 (image_block img) a n = map (\<lambda>i. img (a + i)) [0 ..< n]"
proof (rule nth_equalityI)
  fix i
  assume "i < length (disk_bytes 512 (image_block img) a n)"
  then have "i < n" by simp
  then have "(a + i) div 512 < 2 ^ 64" using assms by simp
  then have "unat (of_nat ((a + i) div 512) :: u64) = (a + i) div 512"
    by (simp add: unsigned_of_nat take_bit_nat_eq_self_iff)
  then show "disk_bytes 512 (image_block img) a n ! i = map (\<lambda>i. img (a + i)) [0 ..< n] ! i"
    using \<open>i < n\<close> by (simp add: disk_byte_def image_block_def)
qed simp

lemma read_bytes_image:
  assumes "unat byte_offset + unat sz \<le> 2 ^ 64" "unat sz \<le> capacity"
  shows "read_bytes (image_io img) byte_offset capacity sz s
    = Some (Some (map (\<lambda>i. img (unat byte_offset + i)) [0 ..< unat sz]), s)"
proof -
  have "outcome True (\<lambda>_. True) (read_bytes (image_io img) byte_offset capacity sz s)
      (\<lambda>b. length b = unat sz \<and> (True \<longrightarrow> b = disk_bytes 512 (image_block img) (unat byte_offset) (unat sz)))"
    using assms image.read_bytes_outcome [where W = True and fits = True] by (simp add: image.readable_def)
  then show ?thesis using image_content [OF assms(1)] by (auto dest!: outcome_success)
qed

lemma take_drop_map_upt: "k + m \<le> n \<Longrightarrow> take m (drop k (map f [0 ..< n])) = map (\<lambda>i. f (k + i)) [0 ..< m]"
  by (rule nth_equalityI) simp_all

lemma upt_4: "[0 ..< 4] = [0, 1, 2, 3]" "[0 ..< 2] = [0, 1 :: nat]"
  by (simp_all add: upt_rec)

lemma u16_at_map:
  assumes "k + 2 \<le> n"
  shows "u16_at k (map f [0 ..< n]) = ucast (f k) + 256 * ucast (f (k + 1))"
  unfolding u16_at_def take_drop_map_upt [OF assms] upt_4 by (simp add: unsigned_ucast_eq)

lemma u32_at_map:
  assumes "k + 4 \<le> n"
  shows "u32_at k (map f [0 ..< n])
    = ucast (f k) + 256 * (ucast (f (k + 1)) + 256 * (ucast (f (k + 2)) + 256 * ucast (f (k + 3))))"
  unfolding u32_at_def take_drop_map_upt [OF assms] upt_4 by simp

end
