(* ===== verification/Ext2.thy ===== *)
theory Ext2
  imports Device_Reader Kernel_Heap
begin

text \<open>
  \<^verbatim>\<open>src/kernel/ext2.c\<close>: reading ext2 and ext4 volumes.  A context is the record \<open>EXT2_CONTEXT\<close>; the device in it is
  the argument \<open>io\<close>.  Arrays keep their size: a computation is \<open>None\<close> when it would touch an element outside of one,
  or a byte of a buffer that was not read from the device.
\<close>

section \<open>Data\<close>

definition EXT2_SUPER_OFFSET :: u64 where "EXT2_SUPER_OFFSET = 1024"
definition EXT2_MAGIC :: u16 where "EXT2_MAGIC = 0xEF53"
definition EXT2_ROOT_INODE :: u32 where "EXT2_ROOT_INODE = 2"
definition EXT2_MAX_BLOCK_SIZE :: nat where "EXT2_MAX_BLOCK_SIZE = 4096"
definition EXT2_MAX_EXTENTS :: nat where "EXT2_MAX_EXTENTS = 64"
definition EXT2_S_IFMT :: u32 where "EXT2_S_IFMT = 0xF000"
definition EXT2_S_IFREG :: u32 where "EXT2_S_IFREG = 0x8000"
definition EXT2_S_IFDIR :: u32 where "EXT2_S_IFDIR = 0x4000"
definition EXT2_FEATURE_COMPAT_HAS_JOURNAL :: u32 where "EXT2_FEATURE_COMPAT_HAS_JOURNAL = 0x4"
definition EXT2_FEATURE_INCOMPAT_64BIT :: u32 where "EXT2_FEATURE_INCOMPAT_64BIT = 0x80"
definition EXT2_FEATURE_RO_COMPAT_METADATA_CSUM :: u32 where "EXT2_FEATURE_RO_COMPAT_METADATA_CSUM = 0x400"
definition EXT4_EXTENTS_FL :: u32 where "EXT4_EXTENTS_FL = 0x80000"
definition EXT4_EXTENT_MAGIC :: u16 where "EXT4_EXTENT_MAGIC = 0xF30A"

record EXT2_INODE =
  i_mode :: u32
  i_flags :: u32
  i_size :: u64
  i_blocks :: "u32 list"

record EXT2_EXTENT =
  ext_block :: u64
  ext_length :: u32

record EXT2_CONTEXT =
  e2_block_size :: u32
  e2_inode_size :: u32
  e2_inodes_per_group :: u32
  e2_blocks_per_group :: u32
  e2_group_count :: u32
  e2_descriptor_size :: u32
  e2_feature_compat :: u32
  e2_feature_incompat :: u32
  e2_feature_ro_compat :: u32
  e2_state :: u16
  e2_read_only_reason :: bool

record EXT2_FILE_INFO =
  e2_name :: string
  e2_size :: u64
  e2_is_directory :: bool
  e2_read_only :: bool

section \<open>The superblock\<close>

definition ext2_read_block :: "'d block_io \<Rightarrow> EXT2_CONTEXT \<Rightarrow> u64 \<Rightarrow> 'd \<Rightarrow> (bytes option \<times> 'd) option" where
  "ext2_read_block io c block s =
     read_bytes io (block * ucast (e2_block_size c)) EXT2_MAX_BLOCK_SIZE (e2_block_size c) s"

text \<open>\<open>load_super\<close> after reading the superblock.\<close>

definition parse_super :: "bytes \<Rightarrow> EXT2_CONTEXT option" where
  "parse_super super =
     (if u16_at 56 super \<noteq> EXT2_MAGIC then None
      else let blocks_count = u32_at 4 super; log_block_size = u32_at 24 super in
      if log_block_size > 2 then None
      else let block_size = push_bit (unat log_block_size) 1024;
               blocks_per_group = u32_at 32 super;
               inodes_per_group = u32_at 40 super;
               state = u16_at 58 super;
               compat = u32_at 92 super;
               incompat = u32_at 96 super;
               ro_compat = u32_at 100 super;
               inode_size = (if u32_at 76 super \<ge> 1 then ucast (u16_at 88 super) else 128);
               wide = incompat AND EXT2_FEATURE_INCOMPAT_64BIT \<noteq> 0;
               descriptor_size = (if wide then ucast (u16_at 254 super) else 32)
      in if wide \<and> descriptor_size < 64 then None
      else if inode_size < 128 \<or> inode_size > block_size \<or> blocks_per_group = 0 \<or> inodes_per_group = 0
              \<or> blocks_count = 0 then None
      else if compat AND NOT (0x1 OR 0x4 OR 0x8 OR 0x10 OR 0x20) \<noteq> 0
              \<or> incompat AND NOT (0x2 OR 0x40 OR 0x80 OR 0x200) \<noteq> 0
              \<or> ro_compat AND NOT (0x1 OR 0x2 OR 0x4 OR 0x8 OR 0x10 OR 0x20 OR 0x40) \<noteq> 0 then None
      else Some \<lparr>e2_block_size = block_size, e2_inode_size = inode_size, e2_inodes_per_group = inodes_per_group,
             e2_blocks_per_group = blocks_per_group,
             e2_group_count = (blocks_count + blocks_per_group - 1) div blocks_per_group,
             e2_descriptor_size = descriptor_size, e2_feature_compat = compat, e2_feature_incompat = incompat,
             e2_feature_ro_compat = ro_compat, e2_state = state,
             e2_read_only_reason = state AND 1 = 0 \<or> compat AND EXT2_FEATURE_COMPAT_HAS_JOURNAL \<noteq> 0
               \<or> ro_compat AND EXT2_FEATURE_RO_COMPAT_METADATA_CSUM \<noteq> 0\<rparr>)"

definition load_super :: "'d block_io \<Rightarrow> 'd \<Rightarrow> (EXT2_CONTEXT option \<times> 'd) option" where
  "load_super io s = on_success (read_bytes io EXT2_SUPER_OFFSET 1024 1024 s) (\<lambda>super s1. Some (parse_super super, s1))"

section \<open>Inodes\<close>

definition descriptor_table_block :: "EXT2_CONTEXT \<Rightarrow> u64" where
  "descriptor_table_block c = (if e2_block_size c = 1024 then 2 else 1)"

definition inode_table_block :: "'d block_io \<Rightarrow> EXT2_CONTEXT \<Rightarrow> u32 \<Rightarrow> 'd \<Rightarrow> (u64 option \<times> 'd) option" where
  "inode_table_block io c grp s =
     (if grp \<ge> e2_group_count c then Some (None, s)
      else let offset = descriptor_table_block c * ucast (e2_block_size c) + ucast grp * ucast (e2_descriptor_size c)
      in on_success (read_bytes io offset 64 (e2_descriptor_size c) s) (\<lambda>descriptor s1. do {
           low \<leftarrow> u32_in 8 descriptor;
           high \<leftarrow> (if e2_descriptor_size c \<ge> 64 then u32_in 40 descriptor else Some 0);
           let block = ucast low OR push_bit 32 (ucast high);
           Some (if block \<noteq> 0 then Some block else None, s1) }))"

definition parse_inode :: "bytes \<Rightarrow> EXT2_INODE" where
  "parse_inode raw = \<lparr>i_mode = ucast (u16_at 0 raw), i_flags = u32_at 32 raw,
     i_size = ucast (u32_at 4 raw) OR push_bit 32 (ucast (u32_at 108 raw)),
     i_blocks = map (\<lambda>block_index. u32_at (40 + block_index * 4) raw) [0 ..< 15]\<rparr>"

definition ext2_read_inode :: "'d block_io \<Rightarrow> EXT2_CONTEXT \<Rightarrow> u32 \<Rightarrow> 'd \<Rightarrow> (EXT2_INODE option \<times> 'd) option" where
  "ext2_read_inode io c inode_number s =
     (if inode_number = 0 \<or> e2_inode_size c > 512 then Some (None, s)
      else let grp = (inode_number - 1) div e2_inodes_per_group c;
               index = (inode_number - 1) mod e2_inodes_per_group c
      in on_success (inode_table_block io c grp s) (\<lambda>table s1.
         on_success (read_bytes io (table * ucast (e2_block_size c) + ucast index * ucast (e2_inode_size c)) 512
             (e2_inode_size c) s1)
           (\<lambda>raw s2. Some (if i_mode (parse_inode raw) \<noteq> 0 then Some (parse_inode raw) else None, s2))))"

definition inode_type :: "EXT2_INODE \<Rightarrow> u32" where
  "inode_type inode = i_mode inode AND EXT2_S_IFMT"

section \<open>Extents\<close>

text \<open>The loops over the entries of a node of the extent tree: a leaf, and an inner node, whose children
  \<open>collect\<close> visits.\<close>

primrec leaf_extents :: "u32 \<Rightarrow> bytes \<Rightarrow> nat list \<Rightarrow> EXT2_EXTENT list \<Rightarrow> EXT2_EXTENT list option option" where
  "leaf_extents bs node [] extents = Some (Some extents)"
| "leaf_extents bs node (index # rest) extents =
     (if length extents \<ge> EXT2_MAX_EXTENTS then Some None
      else do {
        let offset = 12 + index * 12;
        len \<leftarrow> u16_in (offset + 4) node;
        high \<leftarrow> u16_in (offset + 6) node;
        low \<leftarrow> u32_in (offset + 8) node;
        leaf_extents bs node rest (extents @ [\<lparr>ext_block = push_bit 32 (ucast high) OR ucast low,
          ext_length = ucast (len AND 0x7FFF) * bs\<rparr>]) })"

primrec child_extents ::
  "(u64 \<Rightarrow> EXT2_EXTENT list \<Rightarrow> 'd \<Rightarrow> (EXT2_EXTENT list option \<times> 'd) option) \<Rightarrow> bytes \<Rightarrow> nat list \<Rightarrow> EXT2_EXTENT list \<Rightarrow>
   'd \<Rightarrow> (EXT2_EXTENT list option \<times> 'd) option" where
  "child_extents collect node [] extents s = Some (Some extents, s)"
| "child_extents collect node (index # rest) extents s = do {
     let offset = 12 + index * 12;
     high \<leftarrow> u16_in (offset + 10) node;
     low \<leftarrow> u32_in (offset + 4) node;
     on_success (collect (push_bit 32 (ucast high) OR ucast low) extents s) (child_extents collect node rest) }"

text \<open>What \<open>collect_extent_tree\<close> and \<open>collect_inode_extents\<close> do with a node.\<close>

definition extent_node ::
  "(u64 \<Rightarrow> EXT2_EXTENT list \<Rightarrow> 'd \<Rightarrow> (EXT2_EXTENT list option \<times> 'd) option) \<Rightarrow> u32 \<Rightarrow> bytes \<Rightarrow> EXT2_EXTENT list \<Rightarrow>
   'd \<Rightarrow> (EXT2_EXTENT list option \<times> 'd) option" where
  "extent_node collect bs node extents s =
     (let entries = u16_at 2 node in
      if u16_at 0 node \<noteq> EXT4_EXTENT_MAGIC \<or> entries > u16_at 4 node then Some (None, s)
      else if u16_at 6 node = 0 then map_option (\<lambda>r. (r, s)) (leaf_extents bs node [0 ..< unat entries] extents)
      else child_extents collect node [0 ..< unat entries] extents s)"

text \<open>The first argument is 6 less the depth.\<close>

primrec collect_extent_tree ::
  "nat \<Rightarrow> 'd block_io \<Rightarrow> EXT2_CONTEXT \<Rightarrow> u64 \<Rightarrow> EXT2_EXTENT list \<Rightarrow> 'd \<Rightarrow> (EXT2_EXTENT list option \<times> 'd) option" where
  "collect_extent_tree 0 io c block extents s = Some (None, s)"
| "collect_extent_tree (Suc levels) io c block extents s =
     on_success (ext2_read_block io c block s)
       (\<lambda>node s1. extent_node (\<lambda>child ex t. collect_extent_tree levels io c child ex t) (e2_block_size c) node extents s1)"

text \<open>The block numbers of the inode as bytes.\<close>

definition inode_root :: "EXT2_INODE \<Rightarrow> bytes" where
  "inode_root inode = concat (map (\<lambda>b. le_bytes 4 (unat b)) (i_blocks inode))"

definition collect_inode_extents ::
  "'d block_io \<Rightarrow> EXT2_CONTEXT \<Rightarrow> EXT2_INODE \<Rightarrow> 'd \<Rightarrow> (EXT2_EXTENT list option \<times> 'd) option" where
  "collect_inode_extents io c inode s =
     (if i_flags inode AND EXT4_EXTENTS_FL = 0 then Some (None, s)
      else extent_node (collect_extent_tree 5 io c) (e2_block_size c) (inode_root inode) [] s)"

section \<open>Reading files\<close>

text \<open>The loops of \<open>read_inode_bytes\<close>.  \<open>copied\<close> is the number of bytes in the buffer, \<open>acc\<close> are these bytes.\<close>

function read_extent ::
  "'d block_io \<Rightarrow> EXT2_CONTEXT \<Rightarrow> EXT2_EXTENT \<Rightarrow> u64 \<Rightarrow> u64 \<Rightarrow> u64 \<Rightarrow> bytes \<Rightarrow> 'd \<Rightarrow> ((u64 \<times> bytes) option \<times> 'd) option" where
  "read_extent io c e capacity offset copied acc s =
     (let len = ucast (ext_length e) in
      if offset < len \<and> copied < capacity then
        let block_index = offset div ucast (e2_block_size c);
            in_block = ucast (offset mod ucast (e2_block_size c));
            step = clip (clip (e2_block_size c - in_block) (capacity - copied)) (len - offset)
        in if step = 0 then None
           else on_success (ext2_read_block io c (ext_block e + block_index) s) (\<lambda>block s1. do {
             part \<leftarrow> span (unat in_block) (unat step) block;
             read_extent io c e capacity (offset + ucast step) (copied + ucast step) (acc @ part) s1 })
      else Some (Some (copied, acc), s))"
  by pat_completeness auto
termination
  by (relation "measure (\<lambda>(io, c, e, capacity, offset, copied, acc, s). unat capacity - unat copied)")
     (auto intro!: clip_progress simp: unat_clip)

primrec read_extents ::
  "'d block_io \<Rightarrow> EXT2_CONTEXT \<Rightarrow> EXT2_EXTENT list \<Rightarrow> u64 \<Rightarrow> u64 \<Rightarrow> u64 \<Rightarrow> bytes \<Rightarrow> 'd \<Rightarrow> (bytes option \<times> 'd) option" where
  "read_extents io c [] capacity offset copied acc s = Some (if copied = capacity then Some acc else None, s)"
| "read_extents io c (e # extents) capacity offset copied acc s =
     (if copied < capacity then
        if offset \<ge> ucast (ext_length e) then read_extents io c extents capacity (offset - ucast (ext_length e)) copied acc s
        else on_success (read_extent io c e capacity offset copied acc s)
          (\<lambda>(copied1, acc1) s1. read_extents io c extents capacity 0 copied1 acc1 s1)
      else Some (if copied = capacity then Some acc else None, s))"

definition inode_block :: "'d block_io \<Rightarrow> EXT2_CONTEXT \<Rightarrow> EXT2_INODE \<Rightarrow> u64 \<Rightarrow> 'd \<Rightarrow> (u32 option \<times> 'd) option" where
  "inode_block io c inode logical s =
     (if logical < 12 then Some (Some (i_blocks inode ! unat logical), s)
      else let indirect_index = ucast (logical - 12) in
      if indirect_index \<ge> e2_block_size c div 4 \<or> i_blocks inode ! 12 = 0 then Some (None, s)
      else on_success (ext2_read_block io c (ucast (i_blocks inode ! 12)) s) (\<lambda>indirect s1. do {
        physical \<leftarrow> u32_in (unat indirect_index * 4) indirect;
        Some (Some physical, s1) }))"

function read_mapped ::
  "'d block_io \<Rightarrow> EXT2_CONTEXT \<Rightarrow> EXT2_INODE \<Rightarrow> u64 \<Rightarrow> u64 \<Rightarrow> u64 \<Rightarrow> bytes \<Rightarrow> 'd \<Rightarrow> (bytes option \<times> 'd) option" where
  "read_mapped io c inode offset capacity copied acc s =
     (if copied < capacity then
        let logical = (offset + copied) div ucast (e2_block_size c);
            in_block = ucast ((offset + copied) mod ucast (e2_block_size c));
            step = clip (e2_block_size c - in_block) (capacity - copied)
        in if step = 0 then None
           else on_success (inode_block io c inode logical s) (\<lambda>physical s1.
             if physical = 0
             then read_mapped io c inode offset capacity (copied + ucast step) (acc @ replicate (unat step) 0) s1
             else on_success (ext2_read_block io c (ucast physical) s1) (\<lambda>block s2. do {
               part \<leftarrow> span (unat in_block) (unat step) block;
               read_mapped io c inode offset capacity (copied + ucast step) (acc @ part) s2 }))
      else Some (Some acc, s))"
  by pat_completeness auto
termination
  by (relation "measure (\<lambda>(io, c, inode, offset, capacity, copied, acc, s). unat capacity - unat copied)")
     (auto intro!: clip_progress simp: unat_clip)

declare read_extent.simps [simp del] read_mapped.simps [simp del]

definition read_inode_bytes ::
  "'d block_io \<Rightarrow> EXT2_CONTEXT \<Rightarrow> EXT2_INODE \<Rightarrow> u64 \<Rightarrow> u64 \<Rightarrow> 'd \<Rightarrow> (bytes option \<times> 'd) option" where
  "read_inode_bytes io c inode offset capacity s =
     (if offset > i_size inode then Some (None, s)
      else let capacity1 = (if capacity > i_size inode - offset then i_size inode - offset else capacity) in
      if i_flags inode AND EXT4_EXTENTS_FL \<noteq> 0
      then on_success (collect_inode_extents io c inode s) (\<lambda>extents s1. read_extents io c extents capacity1 offset 0 [] s1)
      else read_mapped io c inode offset capacity1 0 [] s)"

section \<open>Directories\<close>

text \<open>The number of the inode of an entry of a directory block, its length, and its name when it has one.\<close>

definition entry_name :: "bytes \<Rightarrow> nat \<Rightarrow> string option" where
  "entry_name block cursor =
     (let name_len = unat (block ! (cursor + 6)) in
      if u32_at cursor block \<noteq> 0 \<and> name_len \<noteq> 0 \<and> 8 + name_len \<le> unat (u16_at (cursor + 4) block)
      then Some (c_string (take name_len (drop (cursor + 8) block))) else None)"

text \<open>The loops over the entries of a block, of \<open>ext2_find_in_directory\<close> and of \<open>ext2_context_list_directory\<close>.\<close>

function find_entry :: "string \<Rightarrow> bytes \<Rightarrow> nat \<Rightarrow> u32 option" where
  "find_entry name block cursor =
     (if cursor + 8 \<le> length block then
        let rec_len = unat (u16_at (cursor + 4) block) in
        if rec_len < 8 \<or> cursor + rec_len > length block then None
        else (case entry_name block cursor of
            Some entry \<Rightarrow> if strings_equal_ci entry name then Some (u32_at cursor block)
              else find_entry name block (cursor + rec_len)
          | None \<Rightarrow> find_entry name block (cursor + rec_len))
      else None)"
  by pat_completeness auto
termination by (relation "measure (\<lambda>(name, block, cursor). length block - cursor)") auto

function list_block ::
  "'d block_io \<Rightarrow> EXT2_CONTEXT \<Rightarrow> u64 \<Rightarrow> bytes \<Rightarrow> nat \<Rightarrow> EXT2_FILE_INFO list \<Rightarrow> 'd \<Rightarrow> (EXT2_FILE_INFO list \<times> 'd) option" where
  "list_block io c capacity block cursor entries s =
     (if cursor + 8 \<le> length block \<and> length entries < unat capacity then
        let rec_len = unat (u16_at (cursor + 4) block) in
        if rec_len < 8 \<or> cursor + rec_len > length block then Some (entries, s)
        else (case entry_name block cursor of
            Some entry \<Rightarrow> do {
              (child, s1) \<leftarrow> ext2_read_inode io c (u32_at cursor block) s;
              case child of
                Some inode \<Rightarrow>
                  let directory = (inode_type inode = EXT2_S_IFDIR)
                  in list_block io c capacity block (cursor + rec_len) (entries @ [\<lparr>e2_name = entry,
                       e2_size = (if directory then 0 else i_size inode), e2_is_directory = directory,
                       e2_read_only = e2_read_only_reason c\<rparr>]) s1
              | None \<Rightarrow> list_block io c capacity block (cursor + rec_len) entries s1 }
          | None \<Rightarrow> list_block io c capacity block (cursor + rec_len) entries s)
      else Some (entries, s))"
  by pat_completeness auto
termination by (relation "measure (\<lambda>(io, c, capacity, block, cursor, entries, s). length block - cursor)") auto

declare find_entry.simps [simp del] list_block.simps [simp del]

function find_from_offset ::
  "'d block_io \<Rightarrow> EXT2_CONTEXT \<Rightarrow> EXT2_INODE \<Rightarrow> string \<Rightarrow> u64 \<Rightarrow> 'd \<Rightarrow> (EXT2_INODE option \<times> 'd) option" where
  "find_from_offset io c directory name offset s =
     (if offset < i_size directory then
        let step = clip (e2_block_size c) (i_size directory - offset)
        in if step = 0 then None
           else on_success (read_inode_bytes io c directory offset (ucast step) s) (\<lambda>block s1.
             case find_entry name block 0 of
               Some inode_number \<Rightarrow> ext2_read_inode io c inode_number s1
             | None \<Rightarrow> find_from_offset io c directory name (offset + ucast step) s1)
      else Some (None, s))"
  by pat_completeness auto
termination
  by (relation "measure (\<lambda>(io, c, directory, name, offset, s). unat (i_size directory) - unat offset)")
     (auto intro!: clip_progress simp: unat_clip)

definition ext2_find_in_directory ::
  "'d block_io \<Rightarrow> EXT2_CONTEXT \<Rightarrow> EXT2_INODE \<Rightarrow> string \<Rightarrow> 'd \<Rightarrow> (EXT2_INODE option \<times> 'd) option" where
  "ext2_find_in_directory io c directory name s =
     (if inode_type directory \<noteq> EXT2_S_IFDIR then Some (None, s) else find_from_offset io c directory name 0 s)"

function find_components ::
  "'d block_io \<Rightarrow> EXT2_CONTEXT \<Rightarrow> string \<Rightarrow> EXT2_INODE \<Rightarrow> 'd \<Rightarrow> (EXT2_INODE option \<times> 'd) option" where
  "find_components io c path current s =
     (case next_path_component path of
        (False, _, _) \<Rightarrow> Some (Some current, s)
      | (True, rest, component) \<Rightarrow>
          on_success (ext2_find_in_directory io c current component s) (\<lambda>child s1. find_components io c rest child s1))"
  by pat_completeness auto
termination
  by (relation "measure (\<lambda>(io, c, path, current, s). length path)") (auto dest!: sym [of "(True, _)"] next_path_component_shorter)

declare find_from_offset.simps [simp del] find_components.simps [simp del]

definition find_inode ::
  "'d block_io \<Rightarrow> EXT2_CONTEXT option \<Rightarrow> string option \<Rightarrow> 'd \<Rightarrow> (EXT2_INODE option \<times> 'd) option" where
  "find_inode io context path s =
     (case (context, path) of
        (Some c, Some p) \<Rightarrow> on_success (ext2_read_inode io c EXT2_ROOT_INODE s) (\<lambda>root s1. find_components io c p root s1)
      | _ \<Rightarrow> Some (None, s))"

section \<open>The operations\<close>

definition ext2_probe :: "'d block_io option \<Rightarrow> 'd \<Rightarrow> (bool \<times> 'd) option" where
  "ext2_probe device s =
     (case device of
        None \<Rightarrow> Some (False, s)
      | Some io \<Rightarrow>
          if io_block_size io < 512 \<or> io_block_size io > 4096 then Some (False, s)
          else do { (r, s1) \<leftarrow> load_super io s; Some (r \<noteq> None, s1) })"

text \<open>The address and the contents of the new context.\<close>

definition ext2_context_create ::
  "'d block_io option \<Rightarrow> heap_state \<Rightarrow> 'd \<Rightarrow> ((u64 \<times> EXT2_CONTEXT) option \<times> heap_state \<times> 'd) option" where
  "ext2_context_create device h s =
     (case device of
        None \<Rightarrow> Some (None, h, s)
      | Some io \<Rightarrow> do {
          (p, h1) \<leftarrow> kmalloc 48 h;
          if p = 0 then Some (None, h1, s)
          else do {
            (r, s1) \<leftarrow> load_super io s;
            case r of
              None \<Rightarrow> do { h2 \<leftarrow> kfree p h1; Some (None, h2, s1) }
            | Some c \<Rightarrow> Some (Some (p, c), h1, s1) } })"

definition ext2_context_destroy :: "u64 \<Rightarrow> heap_state \<Rightarrow> heap_state option" where
  "ext2_context_destroy p h = (if p \<noteq> 0 then kfree p h else Some h)"

definition ext2_context_exists ::
  "'d block_io \<Rightarrow> EXT2_CONTEXT option \<Rightarrow> string option \<Rightarrow> 'd \<Rightarrow> (bool \<times> 'd) option" where
  "ext2_context_exists io context path s = do { (r, s1) \<leftarrow> find_inode io context path s; Some (r \<noteq> None, s1) }"

definition ext2_context_is_directory ::
  "'d block_io \<Rightarrow> EXT2_CONTEXT option \<Rightarrow> string option \<Rightarrow> 'd \<Rightarrow> (bool \<times> 'd) option" where
  "ext2_context_is_directory io context path s = do {
     (r, s1) \<leftarrow> find_inode io context path s;
     Some (case r of None \<Rightarrow> False | Some inode \<Rightarrow> inode_type inode = EXT2_S_IFDIR, s1) }"

definition ext2_context_is_read_only :: "EXT2_CONTEXT option \<Rightarrow> bool" where
  "ext2_context_is_read_only context = (case context of None \<Rightarrow> True | Some c \<Rightarrow> e2_read_only_reason c)"

definition ext2_context_file_size ::
  "'d block_io \<Rightarrow> EXT2_CONTEXT option \<Rightarrow> string option \<Rightarrow> 'd \<Rightarrow> (u64 \<times> 'd) option" where
  "ext2_context_file_size io context path s = do {
     (r, s1) \<leftarrow> find_inode io context path s;
     Some (case r of None \<Rightarrow> 0 | Some inode \<Rightarrow> if inode_type inode = EXT2_S_IFDIR then 0 else i_size inode, s1) }"

text \<open>The result and the bytes in the buffer, which is not null.\<close>

definition ext2_context_read_file ::
  "'d block_io \<Rightarrow> EXT2_CONTEXT option \<Rightarrow> string option \<Rightarrow> u64 \<Rightarrow> 'd \<Rightarrow> ((u64 \<times> bytes) \<times> 'd) option" where
  "ext2_context_read_file io context path capacity s = do {
     (r, s1) \<leftarrow> find_inode io context path s;
     case (context, r) of
       (Some c, Some inode) \<Rightarrow>
         let count = (if capacity < i_size inode then capacity else i_size inode) in
         if inode_type inode \<noteq> EXT2_S_IFREG \<or> count = 0 then Some ((0, []), s1)
         else do {
           (data, s2) \<leftarrow> read_inode_bytes io c inode 0 count s1;
           Some (case data of None \<Rightarrow> (0, []) | Some b \<Rightarrow> (count, b), s2) }
     | _ \<Rightarrow> Some ((0, []), s1) }"

function list_from_offset ::
  "'d block_io \<Rightarrow> EXT2_CONTEXT \<Rightarrow> EXT2_INODE \<Rightarrow> u64 \<Rightarrow> u64 \<Rightarrow> EXT2_FILE_INFO list \<Rightarrow> 'd \<Rightarrow>
   (EXT2_FILE_INFO list \<times> 'd) option" where
  "list_from_offset io c directory capacity offset entries s =
     (if offset < i_size directory \<and> length entries < unat capacity then
        let step = clip (e2_block_size c) (i_size directory - offset)
        in if step = 0 then None
           else do {
             (r, s1) \<leftarrow> read_inode_bytes io c directory offset (ucast step) s;
             case r of
               None \<Rightarrow> Some (entries, s1)
             | Some block \<Rightarrow> do {
                 (entries1, s2) \<leftarrow> list_block io c capacity block 0 entries s1;
                 list_from_offset io c directory capacity (offset + ucast step) entries1 s2 } }
      else Some (entries, s))"
  by pat_completeness auto
termination
  by (relation "measure (\<lambda>(io, c, directory, capacity, offset, entries, s). unat (i_size directory) - unat offset)")
     (auto intro!: clip_progress simp: unat_clip)

declare list_from_offset.simps [simp del]

definition ext2_context_list_directory ::
  "'d block_io \<Rightarrow> EXT2_CONTEXT option \<Rightarrow> string option \<Rightarrow> u64 \<Rightarrow> 'd \<Rightarrow> ((u64 \<times> EXT2_FILE_INFO list) \<times> 'd) option" where
  "ext2_context_list_directory io context path capacity s =
     (if capacity = 0 then Some ((0, []), s)
      else do {
        (r, s1) \<leftarrow> find_inode io context path s;
        case (context, r) of
          (Some c, Some directory) \<Rightarrow>
            if inode_type directory \<noteq> EXT2_S_IFDIR then Some ((0, []), s1)
            else do {
              (entries, s2) \<leftarrow> list_from_offset io c directory capacity 0 [] s1;
              Some ((of_nat (length entries), entries), s2) }
        | _ \<Rightarrow> Some ((0, []), s1) })"

text \<open>The functions that would change the volume.\<close>

definition ext2_context_write_file :: "EXT2_CONTEXT option \<Rightarrow> string option \<Rightarrow> bytes option \<Rightarrow> u64 \<Rightarrow> bool" where
  "ext2_context_write_file context path buffer bytes = False"

definition ext2_context_delete_file :: "EXT2_CONTEXT option \<Rightarrow> string option \<Rightarrow> bool" where
  "ext2_context_delete_file context path = False"

definition ext2_context_create_directory :: "EXT2_CONTEXT option \<Rightarrow> string option \<Rightarrow> bool" where
  "ext2_context_create_directory context path = False"

definition ext2_context_delete_directory :: "EXT2_CONTEXT option \<Rightarrow> string option \<Rightarrow> bool" where
  "ext2_context_delete_directory context path = False"

definition ext2_context_rename :: "EXT2_CONTEXT option \<Rightarrow> string option \<Rightarrow> string option \<Rightarrow> bool" where
  "ext2_context_rename context source destination = False"

definition ext2_context_sync :: "'d block_io \<Rightarrow> EXT2_CONTEXT option \<Rightarrow> 'd \<Rightarrow> (bool \<times> 'd) option" where
  "ext2_context_sync io context s = (case context of None \<Rightarrow> Some (False, s) | Some c \<Rightarrow> io_flush io s)"

end
