(* ===== verification/Ext2_Read.thy ===== *)
theory Ext2_Read
  imports Ext2
begin

text \<open>
  What reading an ext2 file returns: the contents that the block numbers of its inode describe.  The device is any
  \<open>block_source\<close>; \<open>D a n\<close> are the \<open>n\<close> bytes of the device at the address \<open>a\<close>.
\<close>

section \<open>The contents of a file\<close>

abbreviation block_bytes_of :: "EXT2_CONTEXT \<Rightarrow> nat" where
  "block_bytes_of c \<equiv> unat (e2_block_size c)"

text \<open>The physical block of a logical one, and the bytes of the file; block 0 is a hole.\<close>

definition file_block :: "(nat \<Rightarrow> nat \<Rightarrow> bytes) \<Rightarrow> EXT2_CONTEXT \<Rightarrow> EXT2_INODE \<Rightarrow> nat \<Rightarrow> nat" where
  "file_block D c inode l = (if l < 12 then unat (i_blocks inode ! l)
     else unat (u32_at 0 (D (unat (i_blocks inode ! 12) * block_bytes_of c + (l - 12) * 4) 4)))"

definition file_byte :: "(nat \<Rightarrow> nat \<Rightarrow> bytes) \<Rightarrow> EXT2_CONTEXT \<Rightarrow> EXT2_INODE \<Rightarrow> nat \<Rightarrow> u8" where
  "file_byte D c inode i = (let b = file_block D c inode (i div block_bytes_of c) in
     if b = 0 then 0 else D (b * block_bytes_of c + i mod block_bytes_of c) 1 ! 0)"

definition file_content :: "(nat \<Rightarrow> nat \<Rightarrow> bytes) \<Rightarrow> EXT2_CONTEXT \<Rightarrow> EXT2_INODE \<Rightarrow> nat \<Rightarrow> nat \<Rightarrow> bytes" where
  "file_content D c inode a n = map (\<lambda>i. file_byte D c inode (a + i)) [0 ..< n]"

text \<open>The geometry \<open>load_super\<close> accepts, and a file whose first \<open>n\<close> bytes the direct blocks and the indirect block
  reach.\<close>

definition ext2_geometry :: "EXT2_CONTEXT \<Rightarrow> bool" where
  "ext2_geometry c \<longleftrightarrow> e2_block_size c \<in> {1024, 2048, 4096}"

definition mapped_file :: "EXT2_CONTEXT \<Rightarrow> EXT2_INODE \<Rightarrow> nat \<Rightarrow> bool" where
  "mapped_file c inode n \<longleftrightarrow> i_flags inode AND EXT4_EXTENTS_FL = 0 \<and> n \<le> unat (i_size inode)
     \<and> (n \<le> 12 * block_bytes_of c
        \<or> n \<le> (12 + block_bytes_of c div 4) * block_bytes_of c \<and> i_blocks inode ! 12 \<noteq> 0)"

text \<open>Its blocks lie below \<open>V\<close>.\<close>

definition blocks_below :: "(nat \<Rightarrow> nat \<Rightarrow> bytes) \<Rightarrow> EXT2_CONTEXT \<Rightarrow> EXT2_INODE \<Rightarrow> nat \<Rightarrow> nat \<Rightarrow> bool" where
  "blocks_below D c inode n V \<longleftrightarrow> (\<forall>l. l * block_bytes_of c < n \<longrightarrow> file_block D c inode l < V)
     \<and> (12 * block_bytes_of c < n \<longrightarrow> unat (i_blocks inode ! 12) < V)"

lemma parse_super_geometry: "parse_super super = Some c \<Longrightarrow> ext2_geometry c"
proof -
  assume p: "parse_super super = Some c"
  let ?l = "u32_at 24 super"
  have l: "\<not> ?l > 2" and bs: "e2_block_size c = push_bit (unat ?l) 1024"
    using p by (auto simp: parse_super_def Let_def split: if_splits)
  have "unat ?l \<le> 2" using l by (simp add: word_le_nat_alt not_less)
  then consider "unat ?l = 0" | "unat ?l = 1" | "unat ?l = 2" by linarith
  then show ?thesis using bs by cases (simp_all add: ext2_geometry_def push_bit_eq_mult)
qed

lemma geometry_bytes:
  assumes "ext2_geometry c"
  shows "block_bytes_of c \<in> {1024, 2048, 4096}" "0 < block_bytes_of c" "block_bytes_of c \<le> 4096" "e2_block_size c \<noteq> 0"
  using assms by (auto simp: ext2_geometry_def)

lemma length_file_content [simp]: "length (file_content D c inode a n) = n"
  by (simp add: file_content_def)

lemma file_content_append:
  "file_content D c inode a m @ file_content D c inode (a + m) n = file_content D c inode a (m + n)"
  by (rule nth_equalityI) (auto simp: file_content_def nth_append add.assoc)

lemma file_content_in_block:
  assumes "a mod block_bytes_of c + n \<le> block_bytes_of c"
  shows "file_content D c inode a n = (let b = file_block D c inode (a div block_bytes_of c) in
    if b = 0 then replicate n 0 else map (\<lambda>i. D (b * block_bytes_of c + a mod block_bytes_of c + i) 1 ! 0) [0 ..< n])"
proof (rule nth_equalityI)
  let ?B = "block_bytes_of c"
  fix i
  assume "i < length (file_content D c inode a n)"
  then have i: "i < n" by simp
  then have l: "a mod ?B + i < ?B" using assms by simp
  have "a + i = a div ?B * ?B + (a mod ?B + i)" by simp
  then have "(a + i) div ?B = a div ?B" "(a + i) mod ?B = a mod ?B + i"
    using l by (metis div_mult_self3 div_less add.right_neutral add_eq_0_iff_both_eq_0 less_nat_zero_code not_less_zero,
      metis mod_mult_self3 mod_less)
  then show "file_content D c inode a n ! i = (let b = file_block D c inode (a div ?B) in
    if b = 0 then replicate n 0 else map (\<lambda>i. D (b * ?B + a mod ?B + i) 1 ! 0) [0 ..< n]) ! i"
    using i by (simp add: file_content_def file_byte_def Let_def add.assoc)
qed (simp add: Let_def)

text \<open>A step of a loop that stays inside a block of the file system.\<close>

lemma block_step:
  fixes at' rest :: u64 and bs :: u32
  assumes "bs \<noteq> 0" "rest \<noteq> 0"
  defines "off \<equiv> ucast (at' mod ucast bs) :: u32"
  defines "step \<equiv> clip (bs - off) rest"
  shows "unat off = unat at' mod unat bs" "0 < unat step" "step \<noteq> 0" "unat off + unat step \<le> unat bs"
    "unat step \<le> unat rest"
proof -
  have m: "unat at' mod unat bs < unat bs" using assms(1) by (simp add: unat_gt_0)
  have "unat (at' mod ucast bs) = unat at' mod unat bs" by (simp add: unat_mod_distrib)
  then show o: "unat off = unat at' mod unat bs"
    using order_less_trans [OF m unat_less_32] unfolding off_def
    by (simp add: unsigned_ucast_eq take_bit_nat_eq_self_iff)
  then have d: "unat (bs - off) = unat bs - unat off"
    using m by (subst unat_sub) (simp_all add: word_le_nat_alt)
  have s: "unat step = min (unat bs - unat off) (unat rest)" unfolding step_def by (simp add: unat_clip d)
  show p: "0 < unat step" using s o m assms(2) by (simp add: unat_gt_0)
  then show "step \<noteq> 0" by (simp add: unat_gt_0)
  show "unat off + unat step \<le> unat bs" "unat step \<le> unat rest" using s o m by simp_all
qed

lemma disk_byte_nth: "disk_bytes bs disk a 1 ! 0 = disk_byte bs disk a"
  by (simp add: disk_bytes_def)

section \<open>Reading\<close>

context block_source
begin

lemma ext2_read_block_outcome:
  assumes "held s" "ext2_geometry c"
    "W \<Longrightarrow> 512 \<le> io_block_size io \<and> io_block_size io \<le> 4096 \<and> readable 0 (V * block_bytes_of c)
      \<and> unat block < V \<and> unat block < 2 ^ 48"
  shows "outcome W held (ext2_read_block io c block s) (\<lambda>b. length b = block_bytes_of c
    \<and> (unat block < 2 ^ 48 \<longrightarrow> b = content (unat block * block_bytes_of c) (block_bytes_of c)))"
proof -
  let ?B = "block_bytes_of c" and ?a = "block * ucast (e2_block_size c)"
  note g = geometry_bytes [OF assms(2)]
  have a: "unat ?a = unat block * ?B \<and> unat ?a + ?B \<le> 2 ^ 64" if "unat block < 2 ^ 48"
  proof -
    have "unat block * ?B \<le> 2 ^ 48 * 4096" using that g(3) by (intro mult_mono) auto
    then have l: "unat block * ?B \<le> 1152921504606846976" by simp
    then have "unat block * unat (ucast (e2_block_size c) :: u64) < 2 ^ LENGTH(64)" by simp
    then have "unat ?a = unat block * ?B" using unat_mult_lem by (metis unat_ucast_32_64)
    then show ?thesis using l g(3) by simp
  qed
  have "readable (unat ?a) ?B" if W
  proof -
    have "readable 0 (V * ?B)" "unat block + 1 \<le> V" "unat block < 2 ^ 48" using assms(3) [OF that] by auto
    moreover have "unat block * ?B + ?B \<le> V * ?B" using mult_le_mono1 [OF calculation(2), of ?B] by simp
    ultimately show ?thesis using readable_part [of 0 "V * ?B" "unat block * ?B" ?B] a by simp
  qed
  then have "outcome W held (read_bytes io ?a EXT2_MAX_BLOCK_SIZE (e2_block_size c) s) (\<lambda>b. length b = ?B
    \<and> (unat block < 2 ^ 48 \<longrightarrow> b = content (unat ?a) ?B))"
    using assms(1,3) a g(3) by (intro read_bytes_outcome) (auto simp: EXT2_MAX_BLOCK_SIZE_def)
  then show ?thesis unfolding ext2_read_block_def by (rule outcome_mono) (auto simp: a)
qed

lemma u32_of_block:
  assumes "k + 4 \<le> n"
  shows "u32_at k (content a n) = u32_at 0 (content (a + k) 4)"
  using assms by (simp add: u32_at_def take_disk_bytes)

lemma inode_block_outcome:
  assumes "held s" "ext2_geometry c" "unat logical * block_bytes_of c < n" "mapped_file c inode n"
    "W \<Longrightarrow> 512 \<le> io_block_size io \<and> io_block_size io \<le> 4096 \<and> readable 0 (V * block_bytes_of c)
      \<and> blocks_below content c inode n V"
  shows "outcome W held (inode_block io c inode logical s) (\<lambda>p. unat p = file_block content c inode (unat logical))"
proof (cases "logical < 12")
  case True
  then show ?thesis using assms(1)
    by (auto simp: inode_block_def file_block_def word_less_nat_alt intro!: outcome_return)
next
  case False
  let ?B = "block_bytes_of c" and ?i = "i_blocks inode ! 12"
  note g = geometry_bytes [OF assms(2)]
  have l: "12 \<le> unat logical" using False by (simp add: word_less_nat_alt)
  have "12 * ?B < n" using l assms(3) by (meson le_less_trans mult_le_mono1)
  then have n: "n \<le> (12 + ?B div 4) * ?B" "?i \<noteq> 0" using assms(4) by (auto simp: mapped_file_def)
  have "unat logical < 12 + ?B div 4"
    using assms(3) n(1) by (metis less_le_trans mult_less_cancel2)
  then have i: "unat logical - 12 < ?B div 4" using l by simp
  have u: "unat (logical - 12) = unat logical - 12" using False by (simp add: unat_sub_le not_less)
  have "unat logical - 12 < 2 ^ 32" using i g(3) by simp
  then have x: "unat (ucast (logical - 12) :: u32) = unat logical - 12"
    by (simp add: unsigned_ucast_eq take_bit_nat_eq_self_iff u)
  then have b: "\<not> ucast (logical - 12) \<ge> e2_block_size c div 4"
    using i by (simp add: word_le_nat_alt unat_div_distrib)
  have k: "(unat logical - 12) * 4 + 4 \<le> ?B" using i by simp
  have "outcome W held (ext2_read_block io c (ucast ?i) s) (\<lambda>b. length b = ?B
      \<and> (unat (ucast ?i :: u64) < 2 ^ 48 \<longrightarrow> b = content (unat (ucast ?i :: u64) * ?B) ?B))"
    by (rule ext2_read_block_outcome [OF assms(1,2), where V = V])
       (use assms(5) \<open>12 * ?B < n\<close> order_less_trans [OF unat_less_32, of 281474976710656 ?i] in \<open>auto simp: blocks_below_def\<close>)
  then have r: "outcome W held (ext2_read_block io c (ucast ?i) s) (\<lambda>b. b = content (unat ?i * ?B) ?B)"
    by (rule outcome_mono) (use order_less_trans [OF unat_less_32, of 281474976710656 ?i] in simp_all)
  show ?thesis
    unfolding inode_block_def Let_def
  proof (simp only: False if_False b n(2) simp_thms, rule outcome_on_success [OF r], assumption)
    fix b t
    assume t: "held t" "b = content (unat ?i * ?B) ?B"
    have "u32_in ((unat logical - 12) * 4) b = Some (u32_at ((unat logical - 12) * 4) b)"
      using k t(2) by (intro u32_in_eq) simp
    moreover have "u32_at ((unat logical - 12) * 4) b
        = u32_at 0 (content (unat ?i * ?B + (unat logical - 12) * 4) 4)"
      unfolding t(2) by (rule u32_of_block [OF k])
    ultimately show "outcome W held (do { physical \<leftarrow> u32_in (unat (ucast (logical - 12) :: u32) * 4) b;
        Some (Some physical, t) }) (\<lambda>p. unat p = file_block content c inode (unat logical))"
      using l t(1) by (simp add: x file_block_def outcome_return)
  qed
qed

lemma read_mapped_outcome:
  assumes "held s" "ext2_geometry c" "mapped_file c inode (unat offset + unat capacity)"
    "copied \<le> capacity" "acc = file_content content c inode (unat offset) (unat copied)"
    "W \<Longrightarrow> 512 \<le> io_block_size io \<and> io_block_size io \<le> 4096 \<and> readable 0 (V * block_bytes_of c)
      \<and> blocks_below content c inode (unat offset + unat capacity) V"
  shows "outcome W held (read_mapped io c inode offset capacity copied acc s)
    (\<lambda>b. b = file_content content c inode (unat offset) (unat capacity))"
  using assms(1,4,5)
proof (induction "unat capacity - unat copied" arbitrary: copied acc s rule: less_induct)
  case less
  let ?B = "block_bytes_of c" and ?F = "file_content content c inode"
  note g = geometry_bytes [OF assms(2)]
  show ?case
  proof (cases "copied < capacity")
    case False
    then have "copied = capacity" using less.prems(2) by simp
    then show ?thesis using less.prems by (simp add: read_mapped.simps [of io] outcome_return)
  next
    case True
    let ?at = "offset + copied"
    define in_block where "in_block = (ucast (?at mod ucast (e2_block_size c)) :: u32)"
    define step where "step = clip (e2_block_size c - in_block) (capacity - copied)"
    have rest: "capacity - copied \<noteq> 0" "unat (capacity - copied) = unat capacity - unat copied"
      using True by (auto simp: unat_sub_le)
    note st = block_step [OF g(4) rest(1), of ?at, folded in_block_def, folded step_def]
    have lc: "unat copied < unat capacity" using True by (simp add: word_less_nat_alt)
    have end_: "unat offset + unat capacity \<le> unat (i_size inode)" using assms(3) by (simp add: mapped_file_def)
    then have "unat offset + unat copied < 18446744073709551616"
      using lc unat_less_64 [of "i_size inode"] by linarith
    then have at: "unat ?at = unat offset + unat copied" by (simp add: unat_add_64)
    have "unat copied + unat step < 18446744073709551616"
      using st(5) rest(2) lc unat_less_64 [of capacity] by linarith
    then have cs: "unat (copied + ucast step) = unat copied + unat step" by (simp add: unat_add_64)
    define logical where "logical = ?at div ucast (e2_block_size c)"
    have lg: "unat logical = (unat offset + unat copied) div ?B" by (simp add: logical_def unat_div_distrib at)
    have in_file: "unat logical * ?B < unat offset + unat capacity"
      using lc div_times_less_eq_dividend [of "unat offset + unat copied" ?B] unfolding lg by linarith
    have part: "?F (unat offset + unat copied) (unat step) = (let b = file_block content c inode (unat logical) in
        if b = 0 then replicate (unat step) 0
        else content (b * ?B + unat in_block) (unat step))"
      using file_content_in_block [of "unat offset + unat copied" c "unat step" content inode] st(1,4) at
      by (simp add: lg disk_byte_nth disk_bytes_def Let_def)
    have IH: "outcome W held (read_mapped io c inode offset capacity (copied + ucast step) (acc @ p) t)
        (\<lambda>b. b = ?F (unat offset) (unat capacity))"
      if "held t" "p = ?F (unat offset + unat copied) (unat step)" for p t
    proof (rule less.hyps)
      show "unat capacity - unat (copied + ucast step) < unat capacity - unat copied" using st(2) lc cs by simp
      show "copied + ucast step \<le> capacity" using cs st(5) rest(2) lc by (simp add: word_le_nat_alt)
      show "acc @ p = ?F (unat offset) (unat (copied + ucast step))"
        using that(2) less.prems(3) cs by (simp add: file_content_append)
    qed (rule that(1))
    show ?thesis
    proof (subst read_mapped.simps, simp only: Let_def True if_True in_block_def [symmetric] logical_def [symmetric],
        simp only: step_def [symmetric] st(3) if_False,
        rule outcome_on_success [OF inode_block_outcome [OF less.prems(1) assms(2) in_file assms(3) assms(6)]])
      fix physical :: u32 and t
      assume t: "held t" "unat physical = file_block content c inode (unat logical)"
      show "outcome W held (if physical = 0
          then read_mapped io c inode offset capacity (copied + ucast step) (acc @ replicate (unat step) 0) t
          else on_success (ext2_read_block io c (ucast physical) t) (\<lambda>block s2. do {
               part \<leftarrow> span (unat in_block) (unat step) block;
               read_mapped io c inode offset capacity (copied + ucast step) (acc @ part) s2 }))
        (\<lambda>b. b = ?F (unat offset) (unat capacity))"
      proof (cases "physical = 0")
        case True
        then show ?thesis using t IH [OF t(1)] part by (simp add: Let_def)
      next
        case False
        then have nz: "file_block content c inode (unat logical) \<noteq> 0" using t(2) by (metis unat_eq_zero)
        have small: "unat (ucast physical :: u64) < 2 ^ 48"
          using order_less_trans [OF unat_less_32, of 281474976710656 physical] by simp
        have "outcome W held (ext2_read_block io c (ucast physical) t) (\<lambda>b. length b = ?B
            \<and> (unat (ucast physical :: u64) < 2 ^ 48 \<longrightarrow> b = content (unat (ucast physical :: u64) * ?B) ?B))"
          by (rule ext2_read_block_outcome [OF t(1) assms(2), where V = V])
             (use assms(6) in_file t(2) small in \<open>auto simp: blocks_below_def\<close>)
        then have r: "outcome W held (ext2_read_block io c (ucast physical) t) (\<lambda>b. b = content (unat physical * ?B) ?B)"
          by (rule outcome_mono) (use small in simp_all)
        have "outcome W held (on_success (ext2_read_block io c (ucast physical) t) (\<lambda>block s2. do {
               part \<leftarrow> span (unat in_block) (unat step) block;
               read_mapped io c inode offset capacity (copied + ucast step) (acc @ part) s2 }))
          (\<lambda>b. b = ?F (unat offset) (unat capacity))"
        proof (rule outcome_on_success [OF r], assumption)
          fix block t2
          assume t2: "held t2" "block = content (unat physical * ?B) ?B"
          have "span (unat in_block) (unat step) block = Some (?F (unat offset + unat copied) (unat step))"
            using st(4) t2(2) t(2) nz by (simp add: span_in take_disk_bytes part)
          then show "outcome W held (do { part \<leftarrow> span (unat in_block) (unat step) block;
              read_mapped io c inode offset capacity (copied + ucast step) (acc @ part) t2 })
            (\<lambda>b. b = ?F (unat offset) (unat capacity))"
            using IH [OF t2(1)] by simp
        qed
        then show ?thesis using False by simp
      qed
    qed
  qed
qed

lemma read_inode_bytes_outcome:
  assumes "held s" "ext2_geometry c" "mapped_file c inode (unat offset + unat capacity)"
    "W \<Longrightarrow> 512 \<le> io_block_size io \<and> io_block_size io \<le> 4096 \<and> readable 0 (V * block_bytes_of c)
      \<and> blocks_below content c inode (unat offset + unat capacity) V"
  shows "outcome W held (read_inode_bytes io c inode offset capacity s)
    (\<lambda>b. b = file_content content c inode (unat offset) (unat capacity))"
proof -
  have m: "unat offset + unat capacity \<le> unat (i_size inode)" "i_flags inode AND EXT4_EXTENTS_FL = 0"
    using assms(3) by (simp_all add: mapped_file_def)
  then have o: "\<not> offset > i_size inode" by (simp add: word_less_nat_alt)
  then have "unat (i_size inode - offset) = unat (i_size inode) - unat offset" by (simp add: unat_sub_le not_less)
  then have c: "\<not> capacity > i_size inode - offset" using m(1) by (simp add: word_less_nat_alt)
  have "outcome W held (read_mapped io c inode offset capacity 0 [] s)
      (\<lambda>b. b = file_content content c inode (unat offset) (unat capacity))"
    by (rule read_mapped_outcome [OF assms(1-3) _ _ assms(4)]) (simp_all add: file_content_def)
  then show ?thesis using o c m(2) by (simp add: read_inode_bytes_def Let_def)
qed

end

end
