(* ===== verification/Ext2_Theorems.thy ===== *)
theory Ext2_Theorems
  imports Ext2_Read
begin

text \<open>
  No operation of ext2 changes the volume; reading a file returns its contents; and a group descriptor larger than
  the buffer for it.
\<close>

section \<open>Every operation leaves the volume alone\<close>

context block_source
begin

lemma ext2_read_block_keeps [keeps_rules]: "held s \<Longrightarrow> keeps held (ext2_read_block io c block s)"
  unfolding ext2_read_block_def by (intro keeps_rules)

lemma load_super_keeps [keeps_rules]: "held s \<Longrightarrow> keeps held (load_super io s)"
  unfolding load_super_def by (intro keeps_rules)

lemma ext2_read_inode_keeps [keeps_rules]: "held s \<Longrightarrow> keeps held (ext2_read_inode io c inode_number s)"
  unfolding ext2_read_inode_def inode_table_block_def Let_def by (intro keeps_rules)

lemma child_extents_keeps:
  "(\<And>b ex t. held t \<Longrightarrow> keeps held (collect b ex t)) \<Longrightarrow> held s \<Longrightarrow> keeps held (child_extents collect node idx extents s)"
  by (induction idx arbitrary: extents s) (auto intro!: keeps_rules simp: Let_def)

lemma extent_node_keeps:
  "(\<And>b ex t. held t \<Longrightarrow> keeps held (collect b ex t)) \<Longrightarrow> held s \<Longrightarrow> keeps held (extent_node collect bs node extents s)"
  unfolding extent_node_def Let_def by (intro keeps_rules child_extents_keeps)

lemma collect_extent_tree_keeps: "held s \<Longrightarrow> keeps held (collect_extent_tree levels io c block extents s)"
  by (induction levels arbitrary: block extents s) (auto intro!: keeps_rules extent_node_keeps)

lemma collect_inode_extents_keeps [keeps_rules]: "held s \<Longrightarrow> keeps held (collect_inode_extents io c inode s)"
  unfolding collect_inode_extents_def by (intro keeps_rules extent_node_keeps collect_extent_tree_keeps)

lemma read_extent_keeps [keeps_rules]: "held s \<Longrightarrow> keeps held (read_extent io c e capacity offset copied acc s)"
proof (induction "unat capacity - unat copied" arbitrary: offset copied acc s rule: less_induct)
  case less
  let ?at = "ucast (offset mod ucast (e2_block_size c)) :: u32"
  let ?step = "clip (clip (e2_block_size c - ?at) (capacity - copied)) (ucast (ext_length e) - offset)"
  have "unat capacity - unat (copied + ucast ?step) < unat capacity - unat copied" if "copied < capacity" "?step \<noteq> 0"
    by (rule clip_progress [OF that]) (simp add: unat_clip)
  note IH = less.hyps [OF this]
  show ?case
    by (subst read_extent.simps, unfold Let_def) (intro keeps_rules less.prems IH; simp)
qed

lemma read_extents_keeps [keeps_rules]: "held s \<Longrightarrow> keeps held (read_extents io c extents capacity offset copied acc s)"
  by (induction extents arbitrary: offset copied acc s) (auto intro!: keeps_rules)

lemma inode_block_keeps [keeps_rules]: "held s \<Longrightarrow> keeps held (inode_block io c inode logical s)"
  unfolding inode_block_def Let_def by (intro keeps_rules)

lemma read_mapped_keeps [keeps_rules]: "held s \<Longrightarrow> keeps held (read_mapped io c inode offset capacity copied acc s)"
proof (induction "unat capacity - unat copied" arbitrary: copied acc s rule: less_induct)
  case less
  let ?at = "ucast ((offset + copied) mod ucast (e2_block_size c)) :: u32"
  let ?step = "clip (e2_block_size c - ?at) (capacity - copied)"
  have "unat capacity - unat (copied + ucast ?step) < unat capacity - unat copied" if "copied < capacity" "?step \<noteq> 0"
    by (rule clip_progress [OF that]) (simp add: unat_clip)
  note IH = less.hyps [OF this]
  show ?case
    by (subst read_mapped.simps, unfold Let_def) (intro keeps_rules less.prems IH; simp)
qed

lemma read_inode_bytes_keeps [keeps_rules]: "held s \<Longrightarrow> keeps held (read_inode_bytes io c inode offset capacity s)"
  unfolding read_inode_bytes_def Let_def by (intro keeps_rules)

lemma find_from_offset_keeps: "held s \<Longrightarrow> keeps held (find_from_offset io c directory name offset s)"
proof (induction "unat (i_size directory) - unat offset" arbitrary: offset s rule: less_induct)
  case less
  let ?step = "clip (e2_block_size c) (i_size directory - offset)"
  have "unat (i_size directory) - unat (offset + ucast ?step) < unat (i_size directory) - unat offset"
    if "offset < i_size directory" "?step \<noteq> 0"
    by (rule clip_progress [OF that]) (simp add: unat_clip)
  note IH = less.hyps [OF this]
  have "keeps held (case find_entry name block 0 of Some n \<Rightarrow> ext2_read_inode io c n t
      | None \<Rightarrow> find_from_offset io c directory name (offset + ucast ?step) t)"
    if "offset < i_size directory" "?step \<noteq> 0" "held t" for block t
    using IH [OF that] that(3) by (simp add: ext2_read_inode_keeps split: option.split)
  then show ?case
    by (subst find_from_offset.simps, unfold Let_def) (intro keeps_rules less.prems; simp)
qed

lemma find_components_keeps: "held s \<Longrightarrow> keeps held (find_components io c path current s)"
proof (induction "length path" arbitrary: path current s rule: less_induct)
  case less
  obtain more rest component where n: "next_path_component path = (more, rest, component)" by (cases "next_path_component path")
  show ?case
  proof (cases more)
    case True
    then have "length rest < length path" using n next_path_component_shorter by simp
    note IH = less.hyps [OF this]
    have "keeps held (ext2_find_in_directory io c current component s)"
      unfolding ext2_find_in_directory_def by (intro keeps_rules find_from_offset_keeps less.prems)
    then show ?thesis
      by (subst find_components.simps) (simp add: n True keeps_on_success IH)
  next
    case False
    then show ?thesis by (subst find_components.simps) (simp add: n keeps_return less.prems)
  qed
qed

lemma find_inode_keeps [keeps_rules]: "held s \<Longrightarrow> keeps held (find_inode io context path s)"
  unfolding find_inode_def by (auto split: option.split intro!: keeps_rules find_components_keeps)

lemma list_block_keeps: "held s \<Longrightarrow> keeps held (list_block io c capacity block cursor entries s)"
proof (induction "length block - cursor" arbitrary: cursor entries s rule: less_induct)
  case less
  have step: "keeps held (list_block io c capacity block (cursor + unat (u16_at (cursor + 4) block)) es t)"
    if "held t" "cursor + 8 \<le> length block" "\<not> (unat (u16_at (cursor + 4) block) < 8
       \<or> cursor + unat (u16_at (cursor + 4) block) > length block)" for es t
    using that by (intro less.hyps) auto
  show ?case
    by (subst list_block.simps, unfold Let_def)
       (auto intro!: keeps_bind keeps_return ext2_read_inode_keeps step less.prems split: option.split)
qed

lemma list_from_offset_keeps: "held s \<Longrightarrow> keeps held (list_from_offset io c directory capacity offset entries s)"
proof (induction "unat (i_size directory) - unat offset" arbitrary: offset entries s rule: less_induct)
  case less
  let ?step = "clip (e2_block_size c) (i_size directory - offset)"
  have "unat (i_size directory) - unat (offset + ucast ?step) < unat (i_size directory) - unat offset"
    if "offset < i_size directory" "?step \<noteq> 0"
    by (rule clip_progress [OF that]) (simp add: unat_clip)
  note IH = less.hyps [OF this]
  show ?case
    by (subst list_from_offset.simps, unfold Let_def)
       (auto intro!: keeps_bind keeps_return keeps_fault read_inode_bytes_keeps IH list_block_keeps less.prems split: option.split)
qed

end

section \<open>A group descriptor larger than its buffer\<close>

text \<open>\<open>inode_table_block\<close> reads as many bytes as the superblock says into 64 bytes of the stack.\<close>

context block_source
begin

lemma read_bytes_overflow:
  assumes "held s" "io_block_size io \<in> {512, 1024, 2048, 4096}" "512 dvd unat byte_offset"
    "works (byte_offset div ucast (io_block_size io))" "capacity < unat sz" "capacity < 512"
  shows "read_bytes io byte_offset capacity sz s = None"
proof -
  let ?bs = "io_block_size io" and ?lba = "byte_offset div ucast (io_block_size io)"
  obtain t where t: "io_read io ?lba s = Some (Some (disk ?lba), t)"
    using source_read [OF assms(1), of ?lba] assms(4) by (auto simp: outcome_def)
  have sz: "0 < sz" using assms(5) by (simp add: word_less_nat_alt)
  have nz: "?bs \<noteq> 0" using assms(2) by auto
  define skip where "skip = (ucast (byte_offset mod ucast ?bs) :: u32)"
  define part where "part = (if ?bs - skip > sz - 0 then sz - 0 else ?bs - skip)"
  note st = copy_step [OF sz nz, of byte_offset, folded skip_def, folded part_def]
  have b: "unat ?bs \<in> {512, 1024, 2048, 4096}" using assms(2) by auto
  have "512 dvd unat ?bs" using b by auto
  with assms(3) have "512 dvd unat skip" unfolding st(1) by (simp add: dvd_mod)
  moreover have "unat skip < unat ?bs" unfolding st(1) using b by auto
  ultimately have "unat skip + 512 \<le> unat ?bs" using \<open>512 dvd unat ?bs\<close> by (auto elim!: dvdE)
  moreover from this have "unat (?bs - skip) = unat ?bs - unat skip" by (simp add: unat_sub_le word_le_nat_alt)
  ultimately have "capacity < unat part" unfolding part_def using assms(5,6) by auto
  moreover have "span (unat skip) (unat part) (disk ?lba) \<noteq> None" using st(4) source_length [OF assms(1)] by (simp add: span_in)
  ultimately have "copy_from_device io byte_offset capacity sz 0 [] s = None"
    using sz st(3) t unfolding part_def by (subst copy_from_device.simps)
      (auto simp: Let_def on_success_def skip_def [symmetric] split: if_splits)
  then show ?thesis using assms(2) by (auto simp: read_bytes_def)
qed

lemma descriptor_overflow:
  assumes "held s" "io_block_size io \<in> {512, 1024, 2048, 4096}" "ext2_geometry c" "e2_inode_size c \<le> 512"
    "e2_group_count c \<noteq> 0" "2 \<le> e2_inodes_per_group c" "64 < e2_descriptor_size c"
    "works (descriptor_table_block c * ucast (e2_block_size c) div ucast (io_block_size io))"
  shows "ext2_read_inode io c EXT2_ROOT_INODE s = None"
proof -
  have "(1 :: u32) < e2_inodes_per_group c" using assms(6) by (simp add: word_less_nat_alt word_le_nat_alt)
  then have g: "(EXT2_ROOT_INODE - 1) div e2_inodes_per_group c = 0"
    by (auto simp: EXT2_ROOT_INODE_def)
  let ?a = "descriptor_table_block c * ucast (e2_block_size c) :: u64"
  have "?a \<in> {2048, 4096}" using assms(3) by (auto simp: ext2_geometry_def descriptor_table_block_def)
  then have "512 dvd unat ?a" by auto
  moreover have "64 < unat (e2_descriptor_size c)" using assms(7) by (simp add: word_less_nat_alt)
  ultimately have "read_bytes io ?a 64 (e2_descriptor_size c) s = None"
    using assms(1,2,8) by (intro read_bytes_overflow) auto
  moreover have "\<not> e2_inode_size c > 512" "\<not> 0 \<ge> e2_group_count c" using assms(4,5) by (auto simp: not_less)
  ultimately show ?thesis
    using g by (simp add: ext2_read_inode_def inode_table_block_def on_success_def Let_def) (simp add: EXT2_ROOT_INODE_def)
qed

end

section \<open>Two volumes\<close>

text \<open>A volume whose root inode is a file of five bytes in block 7, and a superblock with descriptors of 128 bytes.\<close>

definition tiny_volume :: "nat \<Rightarrow> u8" where
  "tiny_volume a = (if a = 2056 then 5 else if a = 5249 then 0x80 else if a = 5252 then 5 else if a = 5288 then 7
     else if a < 7168 then 0 else of_nat a)"

definition tiny_context :: EXT2_CONTEXT where
  "tiny_context = \<lparr>e2_block_size = 1024, e2_inode_size = 128, e2_inodes_per_group = 8, e2_blocks_per_group = 64,
     e2_group_count = 1, e2_descriptor_size = 32, e2_feature_compat = 0, e2_feature_incompat = 0,
     e2_feature_ro_compat = 0, e2_state = 1, e2_read_only_reason = False\<rparr>"

definition tiny_inode :: EXT2_INODE where
  "tiny_inode = \<lparr>i_mode = 0x8000, i_flags = 0, i_size = 5, i_blocks = [7, 0, 0, 0, 0, 0, 0, 0, 0, 0, 0, 0, 0, 0, 0]\<rparr>"

definition wide_super_byte :: "nat \<Rightarrow> u8" where
  "wide_super_byte a = (if a = 4 then 64 else if a = 32 then 64 else if a = 40 then 8 else if a = 56 then 0x53
     else if a = 57 then 0xEF else if a = 58 then 1 else if a = 96 then 0x80 else if a = 254 then 128 else 0)"

definition wide_context :: EXT2_CONTEXT where
  "wide_context = tiny_context\<lparr>e2_descriptor_size := 128, e2_feature_incompat := 0x80\<rparr>"

lemma wide_super_fields:
  defines "super \<equiv> map wide_super_byte [0 ..< 1024]"
  shows "u16_at 56 super = 0xEF53" "u32_at 4 super = 64" "u32_at 24 super = 0" "u32_at 32 super = 64"
    "u32_at 40 super = 8" "u16_at 58 super = 1" "u32_at 92 super = 0" "u32_at 96 super = 0x80" "u32_at 100 super = 0"
    "u32_at 76 super = 0" "u16_at 254 super = 128"
  unfolding super_def by (simp_all add: u16_at_map u32_at_map wide_super_byte_def)

lemma wide_super: "parse_super (map wide_super_byte [0 ..< 1024]) = Some wide_context"
  by (simp only: parse_super_def wide_super_fields)
     (simp add: EXT2_MAGIC_def EXT2_FEATURE_INCOMPAT_64BIT_def EXT2_FEATURE_COMPAT_HAS_JOURNAL_def
      EXT2_FEATURE_RO_COMPAT_METADATA_CSUM_def wide_context_def tiny_context_def)

lemma tiny_root: "parse_inode (map (\<lambda>i. tiny_volume (5248 + i)) [0 ..< 128]) = tiny_inode"
proof -
  have "[0 ..< 15] = [0, 1, 2, 3, 4, 5, 6, 7, 8, 9, 10, 11, 12, 13, 14 :: nat]" by (simp add: upt_rec)
  then show ?thesis
    by (simp add: parse_inode_def u16_at_map u32_at_map tiny_volume_def tiny_inode_def)
qed

lemma tiny_find: "find_inode (image_io tiny_volume) (Some tiny_context) (Some ''/'') () = Some (Some tiny_inode, ())"
proof -
  have d: "u32_in 8 (map (\<lambda>i. tiny_volume (2048 + i)) [0 ..< 32]) = Some 5"
    by (simp add: u32_in_eq u32_at_map tiny_volume_def)
  have "inode_table_block (image_io tiny_volume) tiny_context 0 () = Some (Some 5, ())"
    by (simp add: inode_table_block_def read_bytes_image on_success_def tiny_context_def descriptor_table_block_def d)
  then have "ext2_read_inode (image_io tiny_volume) tiny_context EXT2_ROOT_INODE () = Some (Some tiny_inode, ())"
    by (simp add: ext2_read_inode_def read_bytes_image on_success_def tiny_context_def EXT2_ROOT_INODE_def tiny_root)
       (simp add: tiny_inode_def)
  then show ?thesis
    by (simp add: find_inode_def on_success_def find_components.simps next_path_component_def)
qed

section \<open>Properties\<close>

text \<open>C33: reading a file of a volume returns its contents.\<close>

theorem ext2_read_file_content:
  assumes "block_source io held disk works" and "held s" and "ext2_geometry c"
    and "find_inode io (Some c) (Some path) s = Some (Some inode, s1)" and "inode_type inode = EXT2_S_IFREG"
    and "mapped_file c inode (unat (min capacity (i_size inode)))" and "0 < min capacity (i_size inode)"
    and "512 \<le> io_block_size io" and "io_block_size io \<le> 4096"
    and "block_source.readable io works 0 (V * block_bytes_of c)"
    and "blocks_below (disk_bytes (io_block_size io) disk) c inode (unat (min capacity (i_size inode))) V"
  shows "\<exists>s2. ext2_context_read_file io (Some c) (Some path) capacity s
      = Some ((min capacity (i_size inode),
          file_content (disk_bytes (io_block_size io) disk) c inode 0 (unat (min capacity (i_size inode)))), s2)
    \<and> held s2"
proof -
  define n where "n = min capacity (i_size inode)"
  note assms = assms [folded n_def]
  have "held s1"
    using block_source.find_inode_keeps [OF assms(1,2), of "Some c" "Some path"] assms(4) by (simp add: keeps_def)
  then have "outcome True held (read_inode_bytes io c inode 0 n s1)
      (\<lambda>b. b = file_content (disk_bytes (io_block_size io) disk) c inode (unat (0 :: u64)) (unat n))"
    using assms by (intro block_source.read_inode_bytes_outcome [where V = V]) simp_all
  then obtain s2 where "read_inode_bytes io c inode 0 n s1 = Some (Some
      (file_content (disk_bytes (io_block_size io) disk) c inode 0 (unat n)), s2)" "held s2"
    by (auto dest: outcome_success)
  moreover have n0: "n \<noteq> 0" using assms(7) by auto
  moreover have "(if capacity < i_size inode then capacity else i_size inode) = n" by (auto simp: n_def min_def)
  ultimately show ?thesis
    using assms(4,5) n0 by (simp add: ext2_context_read_file_def n_def [symmetric])
qed

theorem ext2_read_file_content_witness:
  "\<exists>s2. ext2_context_read_file (image_io tiny_volume) (Some tiny_context) (Some ''/'') 3 () = Some ((3, [0, 1, 2]), s2)"
proof -
  let ?D = "disk_bytes (io_block_size (image_io tiny_volume)) (image_block tiny_volume)"
  have n: "unat (min 3 (i_size tiny_inode)) = 3" "min 3 (i_size tiny_inode) = 3"
    by (simp_all add: tiny_inode_def min_def)
  have bs: "block_bytes_of tiny_context = 1024" by (simp add: tiny_context_def)
  have b: "file_block ?D tiny_context tiny_inode 0 = 7" by (simp add: file_block_def tiny_inode_def)
  have l: "l = 0" if "l * 1024 < 3" for l :: nat using that by simp
  have "\<exists>s2. ext2_context_read_file (image_io tiny_volume) (Some tiny_context) (Some ''/'') 3 ()
      = Some ((min 3 (i_size tiny_inode), file_content ?D tiny_context tiny_inode 0 (unat (min 3 (i_size tiny_inode)))), s2)
    \<and> True"
  proof (rule ext2_read_file_content [OF image.block_source_axioms TrueI _ tiny_find, where V = 8])
    show "mapped_file tiny_context tiny_inode (unat (min 3 (i_size tiny_inode)))"
      unfolding n by (simp add: mapped_file_def tiny_context_def tiny_inode_def EXT4_EXTENTS_FL_def)
    show "blocks_below ?D tiny_context tiny_inode (unat (min 3 (i_size tiny_inode))) 8"
      unfolding n blocks_below_def bs using b l by fastforce
  qed (simp_all add: n ext2_geometry_def tiny_context_def inode_type_def tiny_inode_def EXT2_S_IFMT_def EXT2_S_IFREG_def
      image.readable_def)
  moreover have "file_content ?D tiny_context tiny_inode 0 3 = [0, 1, 2]"
  proof -
    have "file_byte ?D tiny_context tiny_inode i = tiny_volume (7168 + i)" if "i < 3" for i
      using that b by (simp add: file_byte_def bs image_content)
    then have "file_content ?D tiny_context tiny_inode 0 3 = map (\<lambda>i. tiny_volume (7168 + i)) [0 ..< 3]"
      by (simp add: file_content_def)
    then show ?thesis by (simp add: upt_rec tiny_volume_def)
  qed
  ultimately show ?thesis unfolding n by simp
qed

text \<open>a superblock may announce group descriptors of up to 65535 bytes, and looking up any path then reads that
  many bytes into an array of 64 bytes on the stack.\<close>

theorem ext2_descriptor_overflows_buffer:
  assumes "block_source io held disk works" and "held s" and "io_block_size io \<in> {512, 1024, 2048, 4096}"
    and "parse_super super = Some c" and "e2_inode_size c \<le> 512" and "e2_group_count c \<noteq> 0"
    and "2 \<le> e2_inodes_per_group c" and "64 < e2_descriptor_size c"
    and "works (descriptor_table_block c * ucast (e2_block_size c) div ucast (io_block_size io))"
  shows "ext2_context_exists io (Some c) (Some path) s = None"
proof -
  have "ext2_read_inode io c EXT2_ROOT_INODE s = None"
    by (rule block_source.descriptor_overflow [OF assms(1-3) parse_super_geometry [OF assms(4)] assms(5-9)])
  then show ?thesis by (simp add: ext2_context_exists_def find_inode_def on_success_def)
qed

theorem ext2_descriptor_overflows_buffer_witness:
  "ext2_context_exists (image_io wide_super_byte) (Some wide_context) (Some ''/boot'') () = None"
  by (rule ext2_descriptor_overflows_buffer [OF image.block_source_axioms TrueI _ wide_super])
     (simp_all add: wide_context_def tiny_context_def)

end
