(* ===== verification/Iso9660.thy ===== *)
theory Iso9660
  imports Device_Reader Kernel_Heap
begin

text \<open>
  \<^verbatim>\<open>src/kernel/iso9660.c\<close>: reading ISO 9660 volumes with Joliet and Rock Ridge names.  The device of a context is the
  argument \<open>io\<close>.  A pointer to a directory record in a sector buffer is the rest of the buffer from there on, so a
  read past the end of the list is one past the end of the buffer, and the computation is \<open>None\<close> then; \<open>None\<close> is
  also the value of a loop that does not end.
\<close>

section \<open>Data\<close>

definition ISO_SECTOR_SIZE :: u32 where "ISO_SECTOR_SIZE = 2048"
definition ISO_PVD_SECTOR :: u32 where "ISO_PVD_SECTOR = 16"
definition ISO_RECORD_DIRECTORY :: u8 where "ISO_RECORD_DIRECTORY = 0x02"
definition ISO_RECORD_MULTI_EXTENT :: u8 where "ISO_RECORD_MULTI_EXTENT = 0x80"
definition ISO_MAX_EXTENTS :: nat where "ISO_MAX_EXTENTS = 16"

record ISO9660_EXTENT =
  ie_extent :: u32
  ie_size :: u32

record ISO9660_RECORD =
  ir_extents :: "ISO9660_EXTENT list"
  ir_extent :: u32
  ir_size :: u32
  rr_mode :: u32
  rr_has_mode :: bool
  rr_has_tf :: bool
  rr_is_symlink :: bool
  rr_symlink :: string
  rr_timestamp :: bytes
  ir_flags :: u8

record ISO9660_CONTEXT =
  iso_root :: ISO9660_RECORD
  iso_joliet :: bool

record ISO9660_FILE_INFO =
  iso_name :: string
  iso_size :: u64
  iso_is_directory :: bool
  iso_read_only :: bool

section \<open>Names\<close>

definition drop_final_dot :: "bytes \<Rightarrow> bytes" where
  "drop_final_dot name = (if name \<noteq> [] \<and> last name = 0x2E then butlast name else name)"

definition copy_name :: "bytes \<Rightarrow> nat \<Rightarrow> string option" where
  "copy_name source n =
     (let part = take (min n 255) source in
      if length part < min n 255 \<and> 0x3B \<notin> set part then None
      else Some (c_string (drop_final_dot (takeWhile (\<lambda>b. b \<noteq> 0x3B) part))))"

text \<open>The loop of \<open>copy_joliet_name\<close>: 16-bit characters, big-endian, to UTF-8.\<close>

fun joliet_from :: "nat \<Rightarrow> bytes \<Rightarrow> bytes \<Rightarrow> bytes option" where
  "joliet_from (Suc (Suc n)) source out =
     (if length out + 1 < 256 then
        (case source of
           high # low # rest \<Rightarrow>
             let value = push_bit 8 (ucast high) OR ucast low :: u16 in
             if value = 0x3B then Some out
             else joliet_from n rest (out @
               (if value < 0x80 then [ucast value]
                else if value < 0x800 \<and> length out + 2 < 256
                then [0xC0 OR ucast (drop_bit 6 value), 0x80 OR ucast (value AND 0x3F)]
                else if length out + 3 < 256
                then [0xE0 OR ucast (drop_bit 12 value), 0x80 OR ucast (drop_bit 6 value AND 0x3F),
                  0x80 OR ucast (value AND 0x3F)]
                else []))
         | _ \<Rightarrow> None)
      else Some out)"
| "joliet_from _ source out = Some out"

definition copy_joliet_name :: "bytes \<Rightarrow> nat \<Rightarrow> string option" where
  "copy_joliet_name source n = map_option (\<lambda>out. c_string (drop_final_dot out)) (joliet_from n source [])"

definition record_name_to_utf8 :: "bool \<Rightarrow> bytes \<Rightarrow> nat \<Rightarrow> string option" where
  "record_name_to_utf8 joliet source n = (if joliet then copy_joliet_name source n else copy_name source n)"

section \<open>Rock Ridge\<close>

text \<open>Where the system use entries of a record start.\<close>

definition system_use_offset :: "bytes \<Rightarrow> nat" where
  "system_use_offset rec = (let offset = 33 + unat (rec ! 32) in if even (unat (rec ! 32)) then offset + 1 else offset)"

function rock_ridge_name_from :: "bytes \<Rightarrow> nat \<Rightarrow> string option" where
  "rock_ridge_name_from rec offset =
     (if offset + 4 \<le> unat (rec ! 0) then
        let entry_length = unat (rec ! (offset + 2)); version = rec ! (offset + 3) in
        if entry_length < 4 \<or> offset + entry_length > unat (rec ! 0) then None
        else if rec ! offset = 0x4E \<and> rec ! (offset + 1) = 0x4D \<and> version = 1 \<and> entry_length \<ge> 5 then
          (let out = take 255 (take (entry_length - 5) (drop (offset + 5) rec))
           in if out \<noteq> [] then Some (c_string out) else None)
        else rock_ridge_name_from rec (offset + entry_length)
      else None)"
  by pat_completeness auto
termination by (relation "measure (\<lambda>(rec, offset). unat (rec ! 0) - offset)") auto

definition rock_ridge_name :: "bytes \<Rightarrow> string option" where
  "rock_ridge_name rec = (if rec ! 0 < 34 then None else rock_ridge_name_from rec (system_use_offset rec))"

definition rock_ridge_parse_px :: "bytes \<Rightarrow> ISO9660_RECORD \<Rightarrow> ISO9660_RECORD" where
  "rock_ridge_parse_px entry r = (if entry ! 2 < 12 then r else r\<lparr>rr_mode := u32_at 4 entry, rr_has_mode := True\<rparr>)"

definition rock_ridge_parse_tf :: "bytes \<Rightarrow> ISO9660_RECORD \<Rightarrow> ISO9660_RECORD" where
  "rock_ridge_parse_tf entry r =
     (if entry ! 2 < 12 \<or> entry ! 4 AND 0x80 \<noteq> 0 \<or> entry ! 4 AND 0x01 = 0 \<or> 5 + 7 > unat (entry ! 2) then r
      else r\<lparr>rr_timestamp := take 7 (drop 5 entry), rr_has_tf := True\<rparr>)"

text \<open>Storing a character in the array of 256 for the link.\<close>

definition put_char :: "u8 \<Rightarrow> bytes \<Rightarrow> bytes option" where
  "put_char b out = (if length out < 256 then Some (out @ [b]) else None)"

text \<open>The components of a symbolic link.\<close>

definition link_component :: "u8 \<Rightarrow> bytes \<Rightarrow> bytes \<Rightarrow> bytes option" where
  "link_component flags text out =
     (if flags AND 0x02 \<noteq> 0 then put_char 0x2E out
      else if flags AND 0x04 \<noteq> 0
      then (if length out + 2 < 256 then Option.bind (put_char 0x2E out) (put_char 0x2E) else Some out)
      else if flags AND 0x08 \<noteq> 0 then put_char 0x2F out
      else Some (out @ take (255 - length out) text))"

function link_from :: "bytes \<Rightarrow> nat \<Rightarrow> bytes \<Rightarrow> bytes option" where
  "link_from entry offset out =
     (if offset + 2 \<le> unat (entry ! 2) \<and> length out + 1 < 256 then
        let flags = entry ! offset; n = unat (entry ! (offset + 1)) in
        if offset + 2 + n > unat (entry ! 2) then Some out
        else do {
          out1 \<leftarrow> (if out \<noteq> [] \<and> length out + 1 < 256 then put_char 0x2F out else Some out);
          out2 \<leftarrow> link_component flags (take n (drop (offset + 2) entry)) out1;
          link_from entry (offset + 2 + n) out2 }
      else Some out)"
  by pat_completeness auto
termination by (relation "measure (\<lambda>(entry, offset, out). unat (entry ! 2) - offset)") auto

declare rock_ridge_name_from.simps [simp del] link_from.simps [simp del]

definition rock_ridge_parse_sl :: "bytes \<Rightarrow> ISO9660_RECORD \<Rightarrow> ISO9660_RECORD option" where
  "rock_ridge_parse_sl entry r =
     (if entry ! 2 < 7 then Some r
      else do {
        out \<leftarrow> link_from entry 5 [];
        _ \<leftarrow> put_char 0 out;
        Some (r\<lparr>rr_symlink := c_string out, rr_is_symlink := (c_string out \<noteq> [])\<rparr>) })"

function rock_ridge_metadata_from :: "bytes \<Rightarrow> nat \<Rightarrow> ISO9660_RECORD \<Rightarrow> ISO9660_RECORD option" where
  "rock_ridge_metadata_from rec offset r =
     (if offset + 4 \<le> unat (rec ! 0) then
        let entry = drop offset rec; entry_length = unat (entry ! 2); version = entry ! 3 in
        if entry_length < 4 \<or> offset + entry_length > unat (rec ! 0) then Some r
        else do {
          r1 \<leftarrow> (if version = 1 \<and> entry ! 0 = 0x50 \<and> entry ! 1 = 0x58 then Some (rock_ridge_parse_px entry r)
            else if version = 1 \<and> entry ! 0 = 0x53 \<and> entry ! 1 = 0x4C then rock_ridge_parse_sl entry r
            else if version = 1 \<and> entry ! 0 = 0x54 \<and> entry ! 1 = 0x46 then Some (rock_ridge_parse_tf entry r)
            else Some r);
          rock_ridge_metadata_from rec (offset + entry_length) r1 }
      else Some r)"
  by pat_completeness auto
termination by (relation "measure (\<lambda>(rec, offset, r). unat (rec ! 0) - offset)") auto

declare rock_ridge_metadata_from.simps [simp del]

definition rock_ridge_metadata :: "bytes \<Rightarrow> ISO9660_RECORD \<Rightarrow> ISO9660_RECORD option" where
  "rock_ridge_metadata rec r = (if rec ! 0 < 34 then Some r else rock_ridge_metadata_from rec (system_use_offset rec) r)"

definition directory_record_name :: "bool \<Rightarrow> bytes \<Rightarrow> string option" where
  "directory_record_name joliet rec =
     (case rock_ridge_name rec of
        Some name \<Rightarrow> Some name
      | None \<Rightarrow> record_name_to_utf8 joliet (drop 33 rec) (unat (rec ! 32)))"

section \<open>Reading\<close>

text \<open>\<open>read_bytes\<close>, whose offset advances.\<close>

function iso_copy ::
  "'d block_io \<Rightarrow> u64 \<Rightarrow> nat \<Rightarrow> u32 \<Rightarrow> u32 \<Rightarrow> bytes \<Rightarrow> 'd \<Rightarrow> (bytes option \<times> 'd) option" where
  "iso_copy io byte_offset capacity sz copied acc s =
     (if copied < sz then
        let bs = io_block_size io;
            block_lba = byte_offset div ucast bs;
            block_offset = ucast (byte_offset mod ucast bs);
            part = (if bs - block_offset > sz - copied then sz - copied else bs - block_offset)
        in if part = 0 then None
           else on_success (io_read io block_lba s) (\<lambda>block s1. do {
             p \<leftarrow> span (unat block_offset) (unat part) block;
             if unat copied + unat part > capacity then None
             else iso_copy io (byte_offset + ucast part) capacity sz (copied + part) (acc @ p) s1 })
      else Some (Some acc, s))"
  by pat_completeness auto
termination
  by (relation "measure (\<lambda>(io, byte_offset, capacity, sz, copied, acc, s). unat sz - unat copied)")
     (auto intro!: part_progress dest: word_less_nat_alt [THEN iffD1])

declare iso_copy.simps [simp del]

definition iso_read_bytes :: "'d block_io \<Rightarrow> u64 \<Rightarrow> nat \<Rightarrow> u32 \<Rightarrow> 'd \<Rightarrow> (bytes option \<times> 'd) option" where
  "iso_read_bytes io byte_offset capacity sz s =
     (if io_block_size io < 512 \<or> io_block_size io > 4096 then Some (None, s)
      else iso_copy io byte_offset capacity sz 0 [] s)"

definition read_iso_sector :: "'d block_io \<Rightarrow> u32 \<Rightarrow> 'd \<Rightarrow> (bytes option \<times> 'd) option" where
  "read_iso_sector io sector s = iso_read_bytes io (ucast sector * ucast ISO_SECTOR_SIZE) 2048 ISO_SECTOR_SIZE s"

definition parse_record :: "bytes \<Rightarrow> ISO9660_RECORD option option" where
  "parse_record rec =
     (if rec ! 0 < 34 then Some None
      else map_option Some (rock_ridge_metadata rec
        \<lparr>ir_extents = [\<lparr>ie_extent = u32_at 2 rec, ie_size = u32_at 10 rec\<rparr>], ir_extent = u32_at 2 rec,
         ir_size = u32_at 10 rec, rr_mode = 0, rr_has_mode = False, rr_has_tf = False, rr_is_symlink = False,
         rr_symlink = [], rr_timestamp = [], ir_flags = rec ! 25\<rparr>))"

definition append_extent :: "ISO9660_RECORD \<Rightarrow> ISO9660_RECORD \<Rightarrow> ISO9660_RECORD option" where
  "append_extent output part =
     (if length (ir_extents output) \<ge> ISO_MAX_EXTENTS then None
      else Some (output\<lparr>ir_extents := ir_extents output @ [\<lparr>ie_extent = ir_extent part, ie_size = ir_size part\<rparr>],
        ir_size := ir_size output + ir_size part, ir_flags := ir_flags part\<rparr>))"

definition iso_signature :: "bytes \<Rightarrow> bool" where
  "iso_signature sector \<longleftrightarrow> take 5 (drop 1 sector) = [0x43, 0x44, 0x30, 0x30, 0x31]"

definition iso9660_probe :: "'d block_io option \<Rightarrow> 'd \<Rightarrow> (bool \<times> 'd) option" where
  "iso9660_probe device s =
     (case device of
        None \<Rightarrow> Some (False, s)
      | Some io \<Rightarrow>
          if io_block_size io < 512 \<or> io_block_size io > 4096 then Some (False, s)
          else do {
            (r, s1) \<leftarrow> read_iso_sector io ISO_PVD_SECTOR s;
            Some (case r of
              None \<Rightarrow> False
            | Some sector \<Rightarrow> sector ! 0 = 1 \<and> iso_signature sector \<and> sector ! 6 = 1
                \<and> ucast (u16_at 128 sector) = ISO_SECTOR_SIZE, s1) })"

text \<open>The loop over the further volume descriptors, looking for a Joliet one.\<close>

primrec find_joliet ::
  "'d block_io \<Rightarrow> nat list \<Rightarrow> ISO9660_CONTEXT \<Rightarrow> 'd \<Rightarrow> (ISO9660_CONTEXT \<times> 'd) option" where
  "find_joliet io [] context s = Some (context, s)"
| "find_joliet io (number # rest) context s = do {
     (r, s1) \<leftarrow> read_iso_sector io (of_nat number) s;
     case r of
       None \<Rightarrow> Some (context, s1)
     | Some sector \<Rightarrow>
         if \<not> iso_signature sector \<or> sector ! 0 = 255 then Some (context, s1)
         else if sector ! 0 = 2 \<and> sector ! 88 = 0x25 \<and> sector ! 89 = 0x2F
           \<and> (sector ! 90 = 0x40 \<or> sector ! 90 = 0x43 \<or> sector ! 90 = 0x45)
           \<and> ucast (u16_at 128 sector) = ISO_SECTOR_SIZE
         then do {
           root \<leftarrow> parse_record (drop 156 sector);
           case root of
             Some r \<Rightarrow> Some (context\<lparr>iso_root := r, iso_joliet := True\<rparr>, s1)
           | None \<Rightarrow> find_joliet io rest context s1 }
         else find_joliet io rest context s1 }"

text \<open>The address and the contents of the new context.\<close>

definition iso9660_context_create ::
  "'d block_io option \<Rightarrow> heap_state \<Rightarrow> 'd \<Rightarrow> ((u64 \<times> ISO9660_CONTEXT) option \<times> heap_state \<times> 'd) option" where
  "iso9660_context_create device h s = do {
     (ok, s1) \<leftarrow> iso9660_probe device s;
     case device of
       None \<Rightarrow> Some (None, h, s1)
     | Some io \<Rightarrow>
         if \<not> ok then Some (None, h, s1)
         else do {
           (p, h1) \<leftarrow> kmalloc 440 h;
           if p = 0 then Some (None, h1, s1)
           else do {
             (r, s2) \<leftarrow> on_success (read_iso_sector io ISO_PVD_SECTOR s1)
               (\<lambda>sector s2. map_option (\<lambda>root. (root, s2)) (parse_record (drop 156 sector)));
             case r of
               None \<Rightarrow> do { h2 \<leftarrow> kfree p h1; Some (None, h2, s2) }
             | Some root \<Rightarrow> do {
                 (context, s3) \<leftarrow> find_joliet io [17 ..< 64] \<lparr>iso_root = root, iso_joliet = False\<rparr> s2;
                 Some (Some (p, context), h1, s3) } } } }"

definition iso9660_context_destroy :: "u64 \<Rightarrow> heap_state \<Rightarrow> heap_state option" where
  "iso9660_context_destroy p h = (if p \<noteq> 0 then kfree p h else Some h)"

section \<open>Directories\<close>

text \<open>How the scan of a sector ends: with a result, or going on at an offset of the directory with what has been
  collected.\<close>

datatype ('r, 'c) scan_end = Scan_return 'r | Scan_on u32 'c

text \<open>Whether the record is not one of the two entries for the directory itself and its parent.\<close>

definition named_record :: "bytes \<Rightarrow> bool" where
  "named_record rec \<longleftrightarrow> rec ! 32 \<noteq> 1 \<or> rec ! 33 \<noteq> 0 \<and> rec ! 33 \<noteq> 1"

text \<open>The inner loop of \<open>find_in_directory\<close>; \<open>collecting\<close> is the name and the record of a file whose further extents
  are being collected.\<close>

function find_in_sector :: "bool \<Rightarrow> string \<Rightarrow> u32 \<Rightarrow> bytes \<Rightarrow> nat \<Rightarrow> u32 \<Rightarrow> (string \<times> ISO9660_RECORD) option \<Rightarrow>
    (ISO9660_RECORD option, (string \<times> ISO9660_RECORD) option) scan_end option" where
  "find_in_sector joliet name dir_size sector sector_offset offset collecting =
     (if sector_offset < 2048 \<and> offset < dir_size then
        let rec = drop sector_offset sector; record_length = unat (rec ! 0) in
        if record_length = 0 then Some (Scan_on (offset + of_nat (2048 - sector_offset)) collecting)
        else if sector_offset + record_length > 2048 \<or> record_length < 34 then Some (Scan_return None)
        else if named_record rec then do {
          record_name \<leftarrow> directory_record_name joliet rec;
          case collecting of
            Some (collecting_name, found) \<Rightarrow>
              if strings_equal_ci record_name collecting_name then do {
                part \<leftarrow> parse_record rec;
                case (part, Option.bind part (append_extent found)) of
                  (Some p, Some found1) \<Rightarrow>
                    if ir_flags p AND ISO_RECORD_MULTI_EXTENT = 0 then Some (Scan_return (Some found1))
                    else find_in_sector joliet name dir_size sector (sector_offset + record_length)
                      (offset + of_nat record_length) (Some (collecting_name, found1))
                | _ \<Rightarrow> Some (Scan_return None) }
              else Some (Scan_return None)
          | None \<Rightarrow>
              if strings_equal_ci record_name name then do {
                r \<leftarrow> parse_record rec;
                case r of
                  None \<Rightarrow> Some (Scan_return None)
                | Some found \<Rightarrow>
                    if ir_flags found AND ISO_RECORD_MULTI_EXTENT = 0 then Some (Scan_return (Some found))
                    else find_in_sector joliet name dir_size sector (sector_offset + record_length)
                      (offset + of_nat record_length) (Some (copy_string 256 record_name, found)) }
              else find_in_sector joliet name dir_size sector (sector_offset + record_length)
                (offset + of_nat record_length) None }
        else find_in_sector joliet name dir_size sector (sector_offset + record_length)
          (offset + of_nat record_length) collecting
      else Some (Scan_on offset collecting))"
  by pat_completeness auto
termination
  by (relation "measure (\<lambda>(joliet, name, dir_size, sector, sector_offset, offset, collecting). 2048 - sector_offset)") auto

declare find_in_sector.simps [simp del]

definition directory_sector :: "'d block_io \<Rightarrow> ISO9660_RECORD \<Rightarrow> u32 \<Rightarrow> 'd \<Rightarrow> (bytes option \<times> 'd) option" where
  "directory_sector io directory offset s = read_iso_sector io (ir_extent directory + offset div ISO_SECTOR_SIZE) s"

partial_function (option) find_from_sector ::
  "'d block_io \<Rightarrow> bool \<Rightarrow> ISO9660_RECORD \<Rightarrow> string \<Rightarrow> u32 \<Rightarrow> (string \<times> ISO9660_RECORD) option \<Rightarrow> 'd \<Rightarrow>
   (ISO9660_RECORD option \<times> 'd) option" where
  "find_from_sector io joliet directory name offset collecting s =
     (if offset < ir_size directory then
        Option.bind (directory_sector io directory offset s) (\<lambda>(r, s1). case r of
            None \<Rightarrow> Some (None, s1)
          | Some sector \<Rightarrow>
              Option.bind (find_in_sector joliet name (ir_size directory) sector (unat (offset mod ISO_SECTOR_SIZE)) offset collecting)
                (\<lambda>e. case e of
                  Scan_return r \<Rightarrow> Some (r, s1)
                | Scan_on offset1 collecting1 \<Rightarrow> find_from_sector io joliet directory name offset1 collecting1 s1))
      else Some (case collecting of
          Some (_, found) \<Rightarrow> if ir_flags found AND ISO_RECORD_MULTI_EXTENT = 0 then Some found else None
        | None \<Rightarrow> None, s))"

definition iso_find_in_directory ::
  "'d block_io \<Rightarrow> bool \<Rightarrow> ISO9660_RECORD \<Rightarrow> string \<Rightarrow> 'd \<Rightarrow> (ISO9660_RECORD option \<times> 'd) option" where
  "iso_find_in_directory io joliet directory name s =
     (if ir_flags directory AND ISO_RECORD_DIRECTORY = 0 then Some (None, s)
      else find_from_sector io joliet directory name 0 None s)"

function iso_find_components ::
  "'d block_io \<Rightarrow> bool \<Rightarrow> string \<Rightarrow> ISO9660_RECORD \<Rightarrow> 'd \<Rightarrow> (ISO9660_RECORD option \<times> 'd) option" where
  "iso_find_components io joliet path current s =
     (case next_path_component path of
        (False, _, _) \<Rightarrow> Some (Some current, s)
      | (True, rest, component) \<Rightarrow>
          on_success (iso_find_in_directory io joliet current component s)
            (\<lambda>child s1. iso_find_components io joliet rest child s1))"
  by pat_completeness auto
termination
  by (relation "measure (\<lambda>(io, joliet, path, current, s). length path)")
     (auto dest!: sym [of "(True, _)"] next_path_component_shorter)

declare iso_find_components.simps [simp del]

definition find_record ::
  "'d block_io \<Rightarrow> ISO9660_CONTEXT option \<Rightarrow> string option \<Rightarrow> 'd \<Rightarrow> (ISO9660_RECORD option \<times> 'd) option" where
  "find_record io context path s =
     (case (context, path) of
        (Some c, Some p) \<Rightarrow> iso_find_components io (iso_joliet c) p (iso_root c) s
      | _ \<Rightarrow> Some (None, s))"

section \<open>The operations\<close>

definition record_is_directory :: "ISO9660_RECORD \<Rightarrow> bool" where
  "record_is_directory r \<longleftrightarrow> ir_flags r AND ISO_RECORD_DIRECTORY \<noteq> 0"

definition record_read_only :: "ISO9660_RECORD \<Rightarrow> bool" where
  "record_read_only r \<longleftrightarrow> \<not> rr_has_mode r \<or> rr_mode r AND 146 = 0"

definition iso9660_context_exists ::
  "'d block_io \<Rightarrow> ISO9660_CONTEXT option \<Rightarrow> string option \<Rightarrow> 'd \<Rightarrow> (bool \<times> 'd) option" where
  "iso9660_context_exists io context path s = do { (r, s1) \<leftarrow> find_record io context path s; Some (r \<noteq> None, s1) }"

definition iso9660_context_is_directory ::
  "'d block_io \<Rightarrow> ISO9660_CONTEXT option \<Rightarrow> string option \<Rightarrow> 'd \<Rightarrow> (bool \<times> 'd) option" where
  "iso9660_context_is_directory io context path s = do {
     (r, s1) \<leftarrow> find_record io context path s;
     Some (case r of None \<Rightarrow> False | Some x \<Rightarrow> record_is_directory x, s1) }"

definition iso9660_context_is_read_only ::
  "'d block_io \<Rightarrow> ISO9660_CONTEXT option \<Rightarrow> string option \<Rightarrow> 'd \<Rightarrow> (bool \<times> 'd) option" where
  "iso9660_context_is_read_only io context path s = do {
     (r, s1) \<leftarrow> find_record io context path s;
     Some (case r of None \<Rightarrow> True | Some x \<Rightarrow> record_read_only x, s1) }"

definition iso9660_context_file_size ::
  "'d block_io \<Rightarrow> ISO9660_CONTEXT option \<Rightarrow> string option \<Rightarrow> 'd \<Rightarrow> (u64 \<times> 'd) option" where
  "iso9660_context_file_size io context path s = do {
     (r, s1) \<leftarrow> find_record io context path s;
     Some (case r of
       None \<Rightarrow> 0
     | Some x \<Rightarrow> if record_is_directory x then 0
         else if rr_is_symlink x then of_nat (length (rr_symlink x)) else ucast (ir_size x), s1) }"

text \<open>The loop over the extents, \<open>remaining\<close> bytes from the end; the result are the bytes that were read.\<close>

primrec iso_read_extents ::
  "'d block_io \<Rightarrow> ISO9660_EXTENT list \<Rightarrow> u64 \<Rightarrow> bytes \<Rightarrow> 'd \<Rightarrow> (bytes option \<times> 'd) option" where
  "iso_read_extents io [] remaining acc s = Some (Some acc, s)"
| "iso_read_extents io (e # extents) remaining acc s =
     (if remaining \<noteq> 0 then
        let part = clip (ie_size e) remaining
        in on_success (iso_read_bytes io (ucast (ie_extent e) * ucast ISO_SECTOR_SIZE) (unat part) part s)
             (\<lambda>b s1. iso_read_extents io extents (remaining - ucast part) (acc @ b) s1)
      else Some (Some acc, s))"

text \<open>The result and the bytes in the buffer, which is not null and has the size \<open>capacity\<close>.\<close>

definition iso9660_context_read_file ::
  "'d block_io \<Rightarrow> ISO9660_CONTEXT option \<Rightarrow> string option \<Rightarrow> u64 \<Rightarrow> 'd \<Rightarrow> ((u64 \<times> bytes) \<times> 'd) option" where
  "iso9660_context_read_file io context path capacity s = do {
     (r, s1) \<leftarrow> find_record io context path s;
     case r of
       None \<Rightarrow> Some ((0, []), s1)
     | Some x \<Rightarrow>
         if record_is_directory x then Some ((0, []), s1)
         else if rr_is_symlink x then
           let n = min (unat capacity) (length (rr_symlink x))
           in Some ((of_nat n, map of_char (take n (rr_symlink x))), s1)
         else
           let count = (if capacity < ucast (ir_size x) then capacity else ucast (ir_size x)) in
           if count = 0 then Some ((0, []), s1)
           else do {
             (data, s2) \<leftarrow> iso_read_extents io (ir_extents x) count [] s1;
             Some (case data of
               None \<Rightarrow> (0, [])
             | Some b \<Rightarrow> if of_nat (length b) = count then (count, b) else (0, b), s2) } }"

text \<open>The inner loop of \<open>iso9660_context_list_directory\<close>; collected are the flag and the name of the file whose
  further extents are passed over, and the entries.\<close>

function list_sector :: "bool \<Rightarrow> u64 \<Rightarrow> u32 \<Rightarrow> bytes \<Rightarrow> nat \<Rightarrow> u32 \<Rightarrow> bool \<times> string \<times> ISO9660_FILE_INFO list \<Rightarrow>
    (ISO9660_FILE_INFO list, bool \<times> string \<times> ISO9660_FILE_INFO list) scan_end option" where
  "list_sector joliet capacity dir_size sector sector_offset offset (collecting, collecting_name, entries) =
     (if sector_offset < 2048 \<and> offset < dir_size \<and> length entries < unat capacity then
        let rec = drop sector_offset sector; record_length = unat (rec ! 0) in
        if record_length = 0
        then Some (Scan_on (offset + of_nat (2048 - sector_offset)) (collecting, collecting_name, entries))
        else if sector_offset + record_length > 2048 \<or> record_length < 34 then Some (Scan_return entries)
        else if named_record rec then do {
          r \<leftarrow> parse_record rec;
          case r of
            None \<Rightarrow> list_sector joliet capacity dir_size sector (sector_offset + record_length)
              (offset + of_nat record_length) (collecting, collecting_name, entries)
          | Some x \<Rightarrow> do {
              record_name \<leftarrow> directory_record_name joliet rec;
              let more = (ir_flags x AND ISO_RECORD_MULTI_EXTENT \<noteq> 0);
              list_sector joliet capacity dir_size sector (sector_offset + record_length) (offset + of_nat record_length)
                (if collecting \<and> strings_equal_ci record_name collecting_name then (more, collecting_name, entries)
                 else (more, if more then copy_string 256 record_name else [],
                   entries @ [\<lparr>iso_name = copy_string 256 record_name,
                     iso_size = (if rr_is_symlink x then of_nat (length (rr_symlink x)) else ucast (ir_size x)),
                     iso_is_directory = record_is_directory x, iso_read_only = record_read_only x\<rparr>])) } }
        else list_sector joliet capacity dir_size sector (sector_offset + record_length)
          (offset + of_nat record_length) (collecting, collecting_name, entries)
      else Some (Scan_on offset (collecting, collecting_name, entries)))"
  by pat_completeness auto
termination
  by (relation "measure (\<lambda>(joliet, capacity, dir_size, sector, sector_offset, offset, st). 2048 - sector_offset)") auto

declare list_sector.simps [simp del]

partial_function (option) list_from_sector ::
  "'d block_io \<Rightarrow> bool \<Rightarrow> u64 \<Rightarrow> ISO9660_RECORD \<Rightarrow> u32 \<Rightarrow> bool \<times> string \<times> ISO9660_FILE_INFO list \<Rightarrow> 'd \<Rightarrow>
   (ISO9660_FILE_INFO list \<times> 'd) option" where
  "list_from_sector io joliet capacity directory offset st s =
     (if offset < ir_size directory \<and> length (snd (snd st)) < unat capacity then
        Option.bind (directory_sector io directory offset s) (\<lambda>(r, s1). case r of
            None \<Rightarrow> Some (snd (snd st), s1)
          | Some sector \<Rightarrow>
              Option.bind (list_sector joliet capacity (ir_size directory) sector (unat (offset mod ISO_SECTOR_SIZE)) offset st)
                (\<lambda>e. case e of
                  Scan_return entries \<Rightarrow> Some (entries, s1)
                | Scan_on offset1 st1 \<Rightarrow> list_from_sector io joliet capacity directory offset1 st1 s1))
      else Some (snd (snd st), s))"

definition iso9660_context_list_directory ::
  "'d block_io \<Rightarrow> ISO9660_CONTEXT option \<Rightarrow> string option \<Rightarrow> u64 \<Rightarrow> 'd \<Rightarrow> ((u64 \<times> ISO9660_FILE_INFO list) \<times> 'd) option" where
  "iso9660_context_list_directory io context path capacity s =
     (if capacity = 0 then Some ((0, []), s)
      else do {
        (r, s1) \<leftarrow> find_record io context path s;
        case (context, r) of
          (Some c, Some directory) \<Rightarrow>
            if \<not> record_is_directory directory then Some ((0, []), s1)
            else do {
              (entries, s2) \<leftarrow> list_from_sector io (iso_joliet c) capacity directory 0 (False, [], []) s1;
              Some ((of_nat (length entries), entries), s2) }
        | _ \<Rightarrow> Some ((0, []), s1) })"

text \<open>The functions that would change the volume.\<close>

definition iso9660_context_write_file :: "ISO9660_CONTEXT option \<Rightarrow> string option \<Rightarrow> bytes option \<Rightarrow> u64 \<Rightarrow> bool" where
  "iso9660_context_write_file context path buffer bytes = False"

definition iso9660_context_delete_file :: "ISO9660_CONTEXT option \<Rightarrow> string option \<Rightarrow> bool" where
  "iso9660_context_delete_file context path = False"

definition iso9660_context_create_directory :: "ISO9660_CONTEXT option \<Rightarrow> string option \<Rightarrow> bool" where
  "iso9660_context_create_directory context path = False"

definition iso9660_context_delete_directory :: "ISO9660_CONTEXT option \<Rightarrow> string option \<Rightarrow> bool" where
  "iso9660_context_delete_directory context path = False"

definition iso9660_context_rename :: "ISO9660_CONTEXT option \<Rightarrow> string option \<Rightarrow> string option \<Rightarrow> bool" where
  "iso9660_context_rename context source destination = False"

definition iso9660_context_sync :: "'d block_io \<Rightarrow> ISO9660_CONTEXT option \<Rightarrow> 'd \<Rightarrow> (bool \<times> 'd) option" where
  "iso9660_context_sync io context s = (case context of None \<Rightarrow> Some (False, s) | Some c \<Rightarrow> io_flush io s)"

end
