(* ===== verification/Iso9660_Theorems.thy ===== *)
theory Iso9660_Theorems
  imports Iso9660
begin

text \<open>
  What reading a file of an ISO 9660 volume returns, and three inputs that the code does not handle: a directory that
  ends in the last sector below 4 GiB, a symbolic link that fills its array, and a name that runs past the sector.
\<close>

section \<open>Reading\<close>

lemma ucast_add_part:
  fixes copied part sz :: u32
  assumes "copied < sz" "part \<le> sz - copied"
  shows "(ucast (copied + part) :: u64) = ucast copied + ucast part"
proof -
  have "unat (sz - copied) = unat sz - unat copied" using assms(1) by (simp add: unat_sub_le)
  then have l: "unat copied + unat part \<le> unat sz"
    using assms by (simp add: word_le_nat_alt word_less_nat_alt)
  then have "unat copied + unat part < 4294967296" by (rule order_le_less_trans [OF _ unat_less_32])
  then have "unat (copied + part) = unat copied + unat part" by (simp add: unat_add_lem [THEN iffD1])
  moreover have "unat copied + unat part < 18446744073709551616"
    using l unat_less_32 [of sz] by linarith
  then have "unat (ucast copied + ucast part :: u64) = unat copied + unat part" by (simp add: unat_add_64)
  ultimately show ?thesis by (simp add: word_unat_eq_iff)
qed

lemma iso_copy_eq:
  "iso_copy io (byte_offset + ucast copied) capacity sz copied acc s
    = copy_from_device io byte_offset capacity sz copied acc s"
proof (induction "unat sz - unat copied" arbitrary: copied acc s rule: less_induct)
  case less
  define bs where "bs = io_block_size io"
  define skip where "skip = (ucast ((byte_offset + ucast copied) mod ucast bs) :: u32)"
  define part where "part = (if bs - skip > sz - copied then sz - copied else bs - skip)"
  have IH: "iso_copy io (byte_offset + ucast copied + ucast part) capacity sz (copied + part) ac t
      = copy_from_device io byte_offset capacity sz (copied + part) ac t" if "copied < sz" "part \<noteq> 0" for ac t
  proof -
    have le: "part \<le> sz - copied" by (auto simp: part_def)
    have "byte_offset + ucast copied + ucast part = byte_offset + ucast (copied + part)"
      by (simp only: ucast_add_part [OF that(1) le] add.assoc)
    then show ?thesis by (simp only: less.hyps [OF part_progress [OF that le]])
  qed
  show ?case
  proof (cases "copied < sz \<and> part \<noteq> 0")
    case True
    then have t: "copied < sz" "(part = 0) = False" by simp_all
    note I = IH [OF conjunct1 [OF True] conjunct2 [OF True]]
    show ?thesis
      by (subst iso_copy.simps, subst copy_from_device.simps)
         (simp only: Let_def t if_True if_False bs_def [symmetric] skip_def [symmetric] part_def [symmetric] I)
  next
    case False
    then show ?thesis
      by (subst iso_copy.simps, subst copy_from_device.simps)
         (auto simp: Let_def bs_def [symmetric] skip_def [symmetric] part_def)
  qed
qed

lemma iso_read_bytes_eq: "iso_read_bytes io byte_offset capacity sz s = read_bytes io byte_offset capacity sz s"
  using iso_copy_eq [of io byte_offset 0 capacity sz "[]" s] by (simp add: iso_read_bytes_def read_bytes_def)

text \<open>The bytes of an extent, and of a file.\<close>

definition extent_bytes :: "(nat \<Rightarrow> nat \<Rightarrow> bytes) \<Rightarrow> ISO9660_EXTENT \<Rightarrow> bytes" where
  "extent_bytes D e = D (unat (ie_extent e) * 2048) (unat (ie_size e))"

definition record_bytes :: "(nat \<Rightarrow> nat \<Rightarrow> bytes) \<Rightarrow> ISO9660_RECORD \<Rightarrow> bytes" where
  "record_bytes D r = concat (map (extent_bytes D) (ir_extents r))"

lemma unat_numeral_2048: "unat (ucast (2048 :: u32) :: u64) = 2048"
  by simp

context block_source
begin

lemma iso_read_bytes_keeps [keeps_rules]: "held s \<Longrightarrow> keeps held (iso_read_bytes io byte_offset capacity sz s)"
  unfolding iso_read_bytes_eq by (intro keeps_rules)

lemma directory_sector_keeps: "held s \<Longrightarrow> keeps held (directory_sector io directory offset s)"
  unfolding directory_sector_def read_iso_sector_def by (intro keeps_rules)

lemma find_from_sector_keeps:
  assumes "held s" "find_from_sector io joliet directory name offset collecting s = Some y"
  shows "held (snd y)"
proof -
  have "i = io \<longrightarrow> held t \<longrightarrow> held (snd y)" if "find_from_sector i j d n off c t = Some y" for i j d n off c t y
  proof (rule find_from_sector.raw_induct [where P = "\<lambda>i j d n off c t y. i = io \<longrightarrow> held t \<longrightarrow> held (snd y)", OF _ that],
      intro impI)
    fix self i j d n off c t y
    assume IH: "\<And>i j d n off c t y. self i j d n off c t = Some y \<Longrightarrow> i = io \<longrightarrow> held t \<longrightarrow> held (snd y)"
      and e: "(if off < ir_size d then
          directory_sector i d off t \<bind> (\<lambda>(r, s1). case r of None \<Rightarrow> Some (None, s1)
            | Some sector \<Rightarrow> find_in_sector j n (ir_size d) sector (unat (off mod ISO_SECTOR_SIZE)) off c \<bind>
                (\<lambda>e. case e of Scan_return r \<Rightarrow> Some (r, s1) | Scan_on off1 c1 \<Rightarrow> self i j d n off1 c1 s1))
        else Some (case c of None \<Rightarrow> None | Some (_, found) \<Rightarrow>
            if ir_flags found AND ISO_RECORD_MULTI_EXTENT = 0 then Some found else None, t)) = Some y"
      and i: "i = io" and t: "held t"
    show "held (snd y)"
    proof (cases "off < ir_size d")
      case True
      then obtain r s1 where r: "directory_sector io d off t = Some (r, s1)"
        using e i by (cases "directory_sector io d off t") auto
      then have "held s1" using directory_sector_keeps [OF t] by (auto simp: keeps_def)
      then show ?thesis
        using e r True i IH by (auto split: option.splits scan_end.splits bind_splits)
    next
      case False
      then show ?thesis using e t by auto
    qed
  qed
  then show ?thesis using assms by blast
qed

lemma iso_find_components_keeps: "held s \<Longrightarrow> keeps held (iso_find_components io joliet path current s)"
proof (induction "length path" arbitrary: path current s rule: less_induct)
  case less
  obtain more rest component where n: "next_path_component path = (more, rest, component)"
    by (cases "next_path_component path")
  show ?case
  proof (cases more)
    case True
    then have "length rest < length path" using n next_path_component_shorter by simp
    note IH = less.hyps [OF this]
    have "keeps held (iso_find_in_directory io joliet current component s)"
      unfolding iso_find_in_directory_def
      using find_from_sector_keeps [OF less.prems] by (auto simp: keeps_def less.prems)
    then show ?thesis
      by (subst iso_find_components.simps) (simp add: n True keeps_on_success IH)
  next
    case False
    then show ?thesis by (subst iso_find_components.simps) (simp add: n keeps_return less.prems)
  qed
qed

lemma find_record_keeps: "held s \<Longrightarrow> keeps held (find_record io context path s)"
  unfolding find_record_def by (auto split: option.split intro!: keeps_return iso_find_components_keeps)

lemma iso_read_extents_outcome:
  assumes "held s" "W \<Longrightarrow> 512 \<le> io_block_size io \<and> io_block_size io \<le> 4096
      \<and> (\<forall>e \<in> set extents. readable (unat (ie_extent e) * 2048) (unat (ie_size e)))"
  shows "outcome W held (iso_read_extents io extents remaining acc s)
    (\<lambda>b. b = acc @ take (unat remaining) (concat (map (extent_bytes content) extents)))"
  using assms
proof (induction extents arbitrary: remaining acc s)
  case Nil
  then show ?case by (simp add: outcome_return)
next
  case (Cons e extents)
  show ?case
  proof (cases "remaining = 0")
    case True
    then show ?thesis using Cons.prems by (simp add: outcome_return)
  next
    case False
    define part where "part = clip (ie_size e) remaining"
    let ?at = "ucast (ie_extent e) * ucast ISO_SECTOR_SIZE :: u64"
    have u: "unat part = min (unat (ie_size e)) (unat remaining)" by (simp add: part_def unat_clip)
    have "unat (ie_extent e) * 2048 \<le> 8796093022208" using unat_less_32 [of "ie_extent e"] by linarith
    then have "unat (ucast (ie_extent e) :: u64) * unat (ucast ISO_SECTOR_SIZE :: u64) < 2 ^ LENGTH(64)"
      by (simp add: ISO_SECTOR_SIZE_def)
    then have at: "unat ?at = unat (ie_extent e) * 2048" using unat_mult_lem
      by (metis ISO_SECTOR_SIZE_def unat_ucast_32_64 unat_numeral_2048)
    have "unat ?at + unat part \<le> 8796093022208 + 4294967296"
      using \<open>unat (ie_extent e) * 2048 \<le> 8796093022208\<close> unat_less_32 [of part] unfolding at by linarith
    then have small: "unat ?at + unat part \<le> 2 ^ 64" by simp
    have "readable (unat ?at) (unat part)" if W
      using Cons.prems(2) [OF that] readable_part [of "unat ?at" "unat (ie_size e)" 0 "unat part"] u at by simp
    then have r: "outcome W held (iso_read_bytes io ?at (unat part) part s) (\<lambda>b. length b = unat part
        \<and> (True \<longrightarrow> b = content (unat ?at) (unat part)))"
      unfolding iso_read_bytes_eq using Cons.prems small by (intro read_bytes_outcome) auto
    have b: "acc @ content (unat ?at) (unat part) @ take (unat (remaining - ucast part)) rest
        = acc @ take (unat remaining) (extent_bytes content e @ rest)" for rest
    proof -
      have "content (unat ?at) (unat part) = take (unat remaining) (extent_bytes content e)"
      proof (cases "unat (ie_size e) \<le> unat remaining")
        case True
        then show ?thesis using u by (simp add: extent_bytes_def at)
      next
        case False
        then show ?thesis
          using u take_disk_bytes [of 0 "unat remaining" "unat (ie_size e)" "io_block_size io" disk "unat ?at"]
          by (simp add: extent_bytes_def at)
      qed
      moreover have "unat (remaining - ucast part) = unat remaining - unat (ie_size e)"
        using u by (subst unat_sub_le) (simp_all add: word_le_nat_alt)
      ultimately show ?thesis by (simp add: extent_bytes_def)
    qed
    have "outcome W held (on_success (iso_read_bytes io ?at (unat part) part s)
        (\<lambda>b s1. iso_read_extents io extents (remaining - ucast part) (acc @ b) s1))
      (\<lambda>b. b = acc @ take (unat remaining) (concat (map (extent_bytes content) (e # extents))))"
    proof (rule outcome_on_success [OF r], assumption)
      fix x t
      assume t: "held t" "length x = unat part \<and> (True \<longrightarrow> x = content (unat ?at) (unat part))"
      have "outcome W held (iso_read_extents io extents (remaining - ucast part) (acc @ x) t)
        (\<lambda>b. b = (acc @ x) @ take (unat (remaining - ucast part)) (concat (map (extent_bytes content) extents)))"
        using Cons.prems(2) by (intro Cons.IH t(1)) auto
      then show "outcome W held (iso_read_extents io extents (remaining - ucast part) (acc @ x) t)
        (\<lambda>b. b = acc @ take (unat remaining) (concat (map (extent_bytes content) (e # extents))))"
        using t(2) by (simp add: b)
    qed
    then show ?thesis using False by (simp add: part_def Let_def)
  qed
qed

lemma directory_sector_outcome:
  assumes "held s" "512 \<le> io_block_size io" "io_block_size io \<le> 4096" "\<forall>lba. works lba"
  shows "\<exists>t. directory_sector io directory offset s
      = Some (Some (content (unat (ir_extent directory + offset div ISO_SECTOR_SIZE) * 2048) 2048), t) \<and> held t"
proof -
  let ?n = "ir_extent directory + offset div ISO_SECTOR_SIZE"
  let ?at = "ucast ?n * ucast ISO_SECTOR_SIZE :: u64"
  have l: "unat ?n * 2048 \<le> 8796093022208" using unat_less_32 [of ?n] by linarith
  then have "unat (ucast ?n :: u64) * unat (ucast ISO_SECTOR_SIZE :: u64) < 2 ^ LENGTH(64)"
    by (simp add: ISO_SECTOR_SIZE_def)
  then have at: "unat ?at = unat ?n * 2048" using unat_mult_lem
    by (metis ISO_SECTOR_SIZE_def unat_ucast_32_64 unat_numeral_2048)
  have sz: "unat ISO_SECTOR_SIZE = 2048" by (simp add: ISO_SECTOR_SIZE_def)
  have "outcome True held (iso_read_bytes io ?at 2048 ISO_SECTOR_SIZE s) (\<lambda>b. length b = unat ISO_SECTOR_SIZE
      \<and> (True \<longrightarrow> b = content (unat ?at) (unat ISO_SECTOR_SIZE)))"
    unfolding iso_read_bytes_eq
    by (rule read_bytes_outcome [OF assms(1)]) (use assms l at in \<open>simp_all add: sz readable_def\<close>)
  then show ?thesis unfolding directory_sector_def read_iso_sector_def at sz by (auto dest: outcome_success)
qed

lemma endless_directory:
  assumes "512 \<le> io_block_size io" "io_block_size io \<le> 4096" "\<forall>lba. works lba"
    and sz: "4294965248 < unat (ir_size directory)"
    and zero: "\<forall>n. disk_byte (io_block_size io) disk (unat (n :: u32) * 2048) = 0"
    and "held s"
  shows "find_from_sector io joliet directory name 0 None s = None"
proof -
  have "\<not> (i = io \<and> d = directory \<and> held t \<and> 2048 dvd unat off)"
    if "find_from_sector i j d n off c t = Some y" for i j d n off c t y
  proof (rule find_from_sector.raw_induct
      [where P = "\<lambda>i j d n off c t _. \<not> (i = io \<and> d = directory \<and> held t \<and> 2048 dvd unat off)", OF _ that], rule notI)
    fix self i j d n off c t y
    assume IH: "\<And>i j d n off c t y. self i j d n off c t = Some y \<Longrightarrow>
          \<not> (i = io \<and> d = directory \<and> held t \<and> 2048 dvd unat off)"
      and e: "(if off < ir_size d then
          directory_sector i d off t \<bind> (\<lambda>(r, s1). case r of None \<Rightarrow> Some (None, s1)
            | Some sector \<Rightarrow> find_in_sector j n (ir_size d) sector (unat (off mod ISO_SECTOR_SIZE)) off c \<bind>
                (\<lambda>e. case e of Scan_return r \<Rightarrow> Some (r, s1) | Scan_on off1 c1 \<Rightarrow> self i j d n off1 c1 s1))
        else Some (case c of None \<Rightarrow> None | Some (_, found) \<Rightarrow>
            if ir_flags found AND ISO_RECORD_MULTI_EXTENT = 0 then Some found else None, t)) = Some y"
      and a: "i = io \<and> d = directory \<and> held t \<and> 2048 dvd unat off"
    from a obtain k where k: "unat off = 2048 * k" by auto
    then have "k \<le> 2097151" using unat_less_32 [of off] by linarith
    then have "unat off < unat (ir_size d)" using k sz a by simp
    then have less: "off < ir_size d" by (simp add: word_less_nat_alt)
    obtain t1 where t1: "directory_sector io directory off t
        = Some (Some (content (unat (ir_extent directory + off div ISO_SECTOR_SIZE) * 2048) 2048), t1)" "held t1"
      using directory_sector_outcome [OF _ assms(1-3), of t directory off] a by blast
    let ?sector = "content (unat (ir_extent directory + off div ISO_SECTOR_SIZE) * 2048) 2048"
    have "?sector ! 0 = 0" using zero by simp
    then have z: "drop 0 ?sector ! 0 = 0" by simp
    have "unat (off mod ISO_SECTOR_SIZE) = 0" using k by (simp add: ISO_SECTOR_SIZE_def unat_mod_distrib)
    then have "find_in_sector j n (ir_size d) ?sector (unat (off mod ISO_SECTOR_SIZE)) off c = Some (Scan_on (off + 2048) c)"
      using less zero by (subst find_in_sector.simps) (simp add: Let_def)
    then have "self i j d n (off + 2048) c t1 = Some y" using e less t1(1) a by simp
    moreover have "2048 dvd unat (off + 2048)"
    proof -
      have "unat (off + 2048) = (2048 * k + 2048) mod 4294967296" by (simp add: unat_word_ariths k)
      then show ?thesis by (simp add: dvd_mod)
    qed
    ultimately show False using IH a t1(2) by blast
  qed
  then show ?thesis using assms(6) by (metis dvd_0_right not_Some_eq unat_0)
qed

end

section \<open>Properties\<close>

text \<open>C39: reading a file of an ISO 9660 volume returns the bytes of its extents, one after the other, up to its size and
  the capacity.\<close>

theorem iso9660_read_file_content:
  assumes "block_source io held disk works" and "held s"
    and "find_record io (Some c) (Some path) s = Some (Some r, s1)"
    and "\<not> record_is_directory r" and "\<not> rr_is_symlink r"
    and "0 < min (unat capacity) (unat (ir_size r))"
    and "min (unat capacity) (unat (ir_size r)) \<le> length (record_bytes (disk_bytes (io_block_size io) disk) r)"
    and "512 \<le> io_block_size io" and "io_block_size io \<le> 4096"
    and "\<forall>e \<in> set (ir_extents r). block_source.readable io works (unat (ie_extent e) * 2048) (unat (ie_size e))"
  shows "\<exists>s2. iso9660_context_read_file io (Some c) (Some path) capacity s
      = Some ((min capacity (ucast (ir_size r)), take (min (unat capacity) (unat (ir_size r)))
          (record_bytes (disk_bytes (io_block_size io) disk) r)), s2) \<and> held s2"
proof -
  let ?D = "disk_bytes (io_block_size io) disk"
  define count where "count = (min capacity (ucast (ir_size r)) :: u64)"
  have u: "unat count = min (unat capacity) (unat (ir_size r))"
    by (auto simp: count_def min_def word_le_nat_alt)
  have "held s1"
    using block_source.find_record_keeps [OF assms(1,2), of "Some c" "Some path"] assms(3) by (simp add: keeps_def)
  then have "outcome True held (iso_read_extents io (ir_extents r) count [] s1)
      (\<lambda>b. b = [] @ take (unat count) (concat (map (extent_bytes ?D) (ir_extents r))))"
    using assms(8-) by (intro block_source.iso_read_extents_outcome [OF assms(1)]) simp_all
  then obtain s2 where s2: "iso_read_extents io (ir_extents r) count [] s1
      = Some (Some (take (unat count) (record_bytes ?D r)), s2)" "held s2"
    by (auto simp: record_bytes_def dest: outcome_success)
  have "of_nat (length (take (unat count) (record_bytes ?D r))) = count"
    using assms(7) unfolding u [symmetric] by (simp add: min_absorb2)
  moreover have "count \<noteq> 0" using assms(6) u by (metis less_irrefl unat_0)
  moreover have "(if capacity < ucast (ir_size r) then capacity else ucast (ir_size r)) = count"
    by (auto simp: count_def min_def)
  ultimately show ?thesis
    unfolding u [symmetric] using assms(3-5) s2 by (simp add: iso9660_context_read_file_def count_def [symmetric])
qed

text \<open>A file in two extents, and a directory of almost 4 GiB.\<close>

definition split_file :: ISO9660_RECORD where
  "split_file = \<lparr>ir_extents = [\<lparr>ie_extent = 20, ie_size = 3\<rparr>, \<lparr>ie_extent = 30, ie_size = 2\<rparr>], ir_extent = 20, ir_size = 5,
     rr_mode = 0, rr_has_mode = False, rr_has_tf = False, rr_is_symlink = False, rr_symlink = [], rr_timestamp = [],
     ir_flags = 0\<rparr>"

definition huge_directory :: ISO9660_RECORD where
  "huge_directory = split_file\<lparr>ir_extents := [\<lparr>ie_extent = 20, ie_size = 0xFFFFFFFF\<rparr>], ir_size := 0xFFFFFFFF, ir_flags := 2\<rparr>"

theorem iso9660_read_file_content_witness:
  "\<exists>s2. iso9660_context_read_file (image_io of_nat) (Some \<lparr>iso_root = split_file, iso_joliet = False\<rparr>) (Some ''/'') 4 ()
    = Some ((4, [0, 1, 2, 0]), s2)"
proof -
  let ?c = "\<lparr>iso_root = split_file, iso_joliet = False\<rparr>"
  let ?D = "disk_bytes (io_block_size (image_io of_nat)) (image_block of_nat)"
  have f: "find_record (image_io of_nat) (Some ?c) (Some ''/'') () = Some (Some split_file, ())"
    by (simp add: find_record_def iso_find_components.simps next_path_component_def)
  have n: "min (unat (4 :: u64)) (unat (ir_size split_file)) = 4" "min 4 (ucast (ir_size split_file)) = (4 :: u64)"
    by (simp_all add: split_file_def min_def)
  have r: "record_bytes ?D split_file = [0, 1, 2, 0, 1]"
    by (simp add: record_bytes_def extent_bytes_def split_file_def image_content upt_rec)
  have "\<exists>s2. iso9660_context_read_file (image_io of_nat) (Some ?c) (Some ''/'') 4 ()
      = Some ((min 4 (ucast (ir_size split_file)), take (min (unat (4 :: u64)) (unat (ir_size split_file)))
          (record_bytes ?D split_file)), s2) \<and> True"
    by (rule iso9660_read_file_content [OF image.block_source_axioms TrueI f])
       (simp_all add: n r [unfolded image_io_size] image.readable_def, simp_all add: split_file_def record_is_directory_def)
  then show ?thesis unfolding n r by simp
qed

text \<open>looking up a name in a directory that ends in the last sector below 4 GiB, and whose sectors are empty, never
  ends: the 32-bit offset wraps around to the first sector.\<close>

theorem iso9660_endless_directory:
  assumes "block_source io held disk works" and "held s" and "\<forall>lba. works lba"
    and "512 \<le> io_block_size io" and "io_block_size io \<le> 4096"
    and "record_is_directory directory" and "4294965248 < unat (ir_size directory)"
    and "\<forall>n :: u32. disk_byte (io_block_size io) disk (unat n * 2048) = 0"
  shows "iso_find_in_directory io joliet directory name s = None"
  using block_source.endless_directory [OF assms(1,4,5,3,7,8,2)] assms(6)
  by (simp add: iso_find_in_directory_def record_is_directory_def)

theorem iso9660_endless_directory_witness:
  "iso_find_in_directory (image_io (\<lambda>_. 0)) False huge_directory ''a'' () = None"
  by (rule iso9660_endless_directory [OF image.block_source_axioms TrueI])
     (simp_all add: huge_directory_def split_file_def record_is_directory_def ISO_RECORD_DIRECTORY_def disk_byte_def
      image_block_def)

section \<open>A symbolic link that fills its array\<close>

definition overlong_link :: bytes where
  "overlong_link = [0x53, 0x4C, 177, 1, 0] @ concat (replicate 85 [4, 0]) @ [2, 0]"

lemma iso9660_overlong_link: "rock_ridge_parse_sl overlong_link r = None"
  by code_simp

end
