(* ===== verification/Udf.thy ===== *)
theory Udf
  imports Device_Reader Kernel_Heap
begin

text \<open>
  \<^verbatim>\<open>src/kernel/udf.c\<close>: reading UDF volumes.  The device of a context is the argument \<open>io\<close>.  A function that fills a
  node, an extent or a buffer and returns 1 is one that returns its contents; \<open>None\<close> is \<^verbatim>\<open>return 0\<close>.  A pointer into a
  sector is the rest of the sector from there on.
\<close>

section \<open>Data\<close>

definition UDF_SECTOR_SIZE :: u32 where "UDF_SECTOR_SIZE = 2048"
definition UDF_ANCHOR_SECTOR :: u64 where "UDF_ANCHOR_SECTOR = 256"
definition UDF_TAG_ANCHOR :: u16 where "UDF_TAG_ANCHOR = 2"
definition UDF_TAG_PARTITION :: u16 where "UDF_TAG_PARTITION = 5"
definition UDF_TAG_LOGICAL_VOLUME :: u16 where "UDF_TAG_LOGICAL_VOLUME = 6"
definition UDF_TAG_TERMINATING :: u16 where "UDF_TAG_TERMINATING = 8"
definition UDF_TAG_FILE_SET :: u16 where "UDF_TAG_FILE_SET = 256"
definition UDF_TAG_FILE_IDENTIFIER :: u16 where "UDF_TAG_FILE_IDENTIFIER = 257"
definition UDF_TAG_FILE_ENTRY :: u16 where "UDF_TAG_FILE_ENTRY = 261"
definition UDF_TAG_EXTENDED_FILE_ENTRY :: u16 where "UDF_TAG_EXTENDED_FILE_ENTRY = 266"
definition UDF_MAX_EXTENTS :: nat where "UDF_MAX_EXTENTS = 32"
definition UDF_FILE_TYPE_DIRECTORY :: u8 where "UDF_FILE_TYPE_DIRECTORY = 4"

record UDF_EXTENT =
  ue_block :: u32
  ue_length :: u32
  ue_partition :: u16

record UDF_NODE =
  un_extents :: "UDF_EXTENT list"
  un_size :: u64
  un_type :: u8
  un_embedded :: bool
  un_read_only :: bool
  un_embedded_data :: bytes

record UDF_CONTEXT =
  udf_block_size :: u32
  udf_partition_number :: u16
  udf_partition_start :: u32
  udf_partition_length :: u32
  udf_file_set_extent :: UDF_EXTENT
  udf_root :: UDF_NODE

record UDF_FILE_INFO =
  udf_name :: string
  udf_size :: u64
  udf_is_directory :: bool
  udf_read_only :: bool

section \<open>Descriptors\<close>

definition descriptor_tag_valid :: "bytes \<Rightarrow> u16 \<Rightarrow> bool" where
  "descriptor_tag_valid sector expected \<longleftrightarrow>
     \<not> (u16_at 0 sector \<noteq> expected \<or> sector ! 5 \<noteq> 2)
     \<and> fold (\<lambda>index checksum. if index \<noteq> 4 then checksum + sector ! index else checksum) [0 ..< 16] 0 = sector ! 4"

text \<open>\<open>read_udf_sector\<close>: whole blocks, or a part of a larger block.\<close>

definition read_udf_sector :: "'d block_io \<Rightarrow> u64 \<Rightarrow> 'd \<Rightarrow> (bytes option \<times> 'd) option" where
  "read_udf_sector io sector s =
     (let bs = io_block_size io in
      if bs < 512 \<or> bs > 4096 then Some (None, s)
      else let byte_offset = sector * ucast UDF_SECTOR_SIZE;
               block = byte_offset div ucast bs;
               skip = ucast (byte_offset mod ucast bs) in
        if skip = 0 \<and> UDF_SECTOR_SIZE mod bs = 0 then io_read_blocks io block (UDF_SECTOR_SIZE div bs) s
        else on_success (io_read io block s) (\<lambda>raw s1.
          if skip + UDF_SECTOR_SIZE \<le> bs then Some (Some (take 2048 (drop (unat skip) raw)), s1)
          else Some (None, s1)))"

definition udf_lba :: "UDF_CONTEXT \<Rightarrow> UDF_EXTENT \<Rightarrow> u64" where
  "udf_lba context extent =
     (if ue_partition extent \<noteq> udf_partition_number context then 0
      else ucast (udf_partition_start context) + ucast (ue_block extent))"

text \<open>The loop of \<open>read_extent_bytes\<close>; \<open>acc\<close> are the bytes that have been copied.\<close>

lemma sector_progress:
  fixes offset n :: u64
  assumes "offset < n"
  shows "unat n - unat (offset + ucast (clip UDF_SECTOR_SIZE (n - offset))) < unat n - unat offset"
proof (rule clip_progress [OF assms])
  have "unat (n - offset) = unat n - unat offset" using assms by (simp add: unat_sub_le)
  then have "0 < unat (clip UDF_SECTOR_SIZE (n - offset))"
    using assms by (simp add: unat_clip UDF_SECTOR_SIZE_def word_less_nat_alt)
  then show "clip UDF_SECTOR_SIZE (n - offset) \<noteq> 0" by (metis less_irrefl unat_0)
qed (simp add: unat_clip)

function read_extent_from ::
  "'d block_io \<Rightarrow> u64 \<Rightarrow> u64 \<Rightarrow> u64 \<Rightarrow> u64 \<Rightarrow> u64 \<Rightarrow> bytes \<Rightarrow> 'd \<Rightarrow> (bytes option \<times> 'd) option" where
  "read_extent_from io base_lba extent_length offset capacity copied acc s =
     (if copied < capacity \<and> offset + copied < extent_length then
        let absolute = offset + copied;
            in_sector = ucast (absolute mod ucast UDF_SECTOR_SIZE) :: u32;
            sector_index = absolute div ucast UDF_SECTOR_SIZE;
            part = clip (clip (UDF_SECTOR_SIZE - in_sector) (capacity - copied)) (extent_length - absolute)
        in if part = 0 then None
           else on_success (read_udf_sector io (base_lba + sector_index) s) (\<lambda>sector s1.
             read_extent_from io base_lba extent_length offset capacity (copied + ucast part)
               (acc @ take (unat part) (drop (unat in_sector) sector)) s1)
      else Some (Some acc, s))"
  by pat_completeness auto
termination
proof (relation "measure (\<lambda>(io, base_lba, extent_length, offset, capacity, copied, acc, s). unat capacity - unat copied)",
    goal_cases)
  case (2 io base_lba extent_length offset capacity copied acc s absolute in_sector sector_index part sector s1)
  have "unat part \<le> unat (capacity - copied)" using 2 by (simp add: unat_clip)
  then show ?case using clip_progress [of copied capacity part] 2 by simp
qed simp

declare read_extent_from.simps [simp del]

definition read_extent_bytes ::
  "'d block_io \<Rightarrow> UDF_CONTEXT \<Rightarrow> UDF_EXTENT \<Rightarrow> u64 \<Rightarrow> u64 \<Rightarrow> 'd \<Rightarrow> (bytes option \<times> 'd) option" where
  "read_extent_bytes io context extent offset capacity s =
     (if offset > ucast (ue_length extent) then Some (None, s)
      else let base_lba = udf_lba context extent in
        if base_lba = 0 \<and> ue_block extent \<noteq> 0 then Some (None, s)
        else read_extent_from io base_lba (ucast (ue_length extent)) offset capacity 0 [] s)"

definition udf_append_extent :: "UDF_NODE \<Rightarrow> u32 \<Rightarrow> u32 \<Rightarrow> u16 \<Rightarrow> UDF_NODE option" where
  "udf_append_extent node block len part =
     (if len = 0 \<or> length (un_extents node) \<ge> UDF_MAX_EXTENTS then None
      else Some (node\<lparr>un_extents := un_extents node @
        [\<lparr>ue_block = block, ue_length = len AND 0x3FFFFFFF, ue_partition = part\<rparr>]\<rparr>))"

section \<open>Names\<close>

text \<open>The loop over 16-bit characters, to UTF-8; \<open>out\<close> has at most 255 bytes.\<close>

fun cs0_wide :: "bytes \<Rightarrow> bytes \<Rightarrow> bytes" where
  "cs0_wide (high # low # rest) out =
     (if length out + 1 < 256 then
        let value = push_bit 8 (ucast high) OR ucast low :: u16 in
        cs0_wide rest (out @
          (if value < 0x80 then [ucast value]
           else if value < 0x800 \<and> length out + 2 < 256
           then [ucast (0xC0 OR drop_bit 6 value), ucast (0x80 OR value AND 0x3F)]
           else if length out + 3 < 256
           then [ucast (0xE0 OR drop_bit 12 value), ucast (0x80 OR drop_bit 6 value AND 0x3F),
             ucast (0x80 OR value AND 0x3F)]
           else []))
      else out)"
| "cs0_wide _ out = out"

definition decode_cs0 :: "bytes \<Rightarrow> string option" where
  "decode_cs0 source =
     (case source of
        [] \<Rightarrow> None
      | compression # text \<Rightarrow>
          (let out = (if compression = 8 then Some (take 255 (map (\<lambda>x. if x < 0x80 then x else 0x3F) text))
                      else if compression = 16 then Some (cs0_wide text [])
                      else None)
           in case out of None \<Rightarrow> None | Some b \<Rightarrow> if b \<noteq> [] then Some (c_string b) else None))"

section \<open>File entries\<close>

text \<open>The type of the file and how its space is described.\<close>

definition parse_icb_tag :: "bytes \<Rightarrow> u8 \<times> u16" where
  "parse_icb_tag b = (b ! 11, u16_at 18 b AND 7)"

text \<open>The loop over the allocation descriptors, which have a size for each type.\<close>

definition allocation_size :: "u16 \<Rightarrow> nat" where
  "allocation_size allocation_type =
     (if allocation_type = 1 then 8 else if allocation_type = 2 then 16 else if allocation_type = 3 then 20 else 0)"

function allocation_descriptors :: "UDF_CONTEXT \<Rightarrow> bytes \<Rightarrow> u16 \<Rightarrow> nat \<Rightarrow> nat \<Rightarrow> UDF_NODE \<Rightarrow> UDF_NODE option" where
  "allocation_descriptors context sector allocation_type cursor ad_end node =
     (if cursor < ad_end then
        let n = allocation_size allocation_type in
        if n = 0 \<or> cursor + n > ad_end then None
        else let len = u32_at cursor sector AND 0x3FFFFFFF;
                 block = u32_at (cursor + 4) sector;
                 part = (if allocation_type = 1 then udf_partition_number context else u16_at (cursor + 8) sector) in
          (case (if len \<noteq> 0 then udf_append_extent node block len part else Some node) of
             None \<Rightarrow> None
           | Some node1 \<Rightarrow> allocation_descriptors context sector allocation_type (cursor + n) ad_end node1)
      else Some node)"
  by pat_completeness auto
termination
  by (relation "measure (\<lambda>(context, sector, allocation_type, cursor, ad_end, node). ad_end - cursor)") auto

declare allocation_descriptors.simps [simp del]

definition file_entry_node :: "UDF_CONTEXT \<Rightarrow> bytes \<Rightarrow> UDF_NODE option" where
  "file_entry_node context sector =
     (let tag = u16_at 0 sector in
      if tag \<noteq> UDF_TAG_FILE_ENTRY \<and> tag \<noteq> UDF_TAG_EXTENDED_FILE_ENTRY then None
      else if \<not> descriptor_tag_valid sector tag then None
      else let (type, allocation_type) = parse_icb_tag (drop 16 sector);
               node = \<lparr>un_extents = [], un_size = u64_at 56 sector, un_type = type, un_embedded = False,
                 un_read_only = (u32_at 44 sector AND 2 \<noteq> 0), un_embedded_data = []\<rparr>;
               (ea_length, ad_length, header) = (if tag = UDF_TAG_EXTENDED_FILE_ENTRY
                 then (u32_at 208 sector, u32_at 212 sector, 216) else (u32_at 168 sector, u32_at 172 sector, 176));
               ad_offset = header + ea_length in
        if ad_offset > UDF_SECTOR_SIZE \<or> ad_length > UDF_SECTOR_SIZE - ad_offset then None
        else if allocation_type = 0 then
          (if un_size node \<le> ucast ad_length
           then Some (node\<lparr>un_embedded := True, un_embedded_data := take (unat ad_length) (drop (unat ad_offset) sector)\<rparr>)
           else None)
        else allocation_descriptors context sector allocation_type (unat ad_offset) (unat ad_offset + unat ad_length) node)"

definition parse_file_entry ::
  "'d block_io \<Rightarrow> UDF_CONTEXT \<Rightarrow> UDF_EXTENT \<Rightarrow> 'd \<Rightarrow> (UDF_NODE option \<times> 'd) option" where
  "parse_file_entry io context icb s =
     on_success (read_udf_sector io (udf_lba context icb) s) (\<lambda>sector s1. Some (file_entry_node context sector, s1))"

text \<open>The loop of \<open>read_node_bytes\<close>, \<open>remaining\<close> bytes from the end.\<close>

primrec read_udf_extents ::
  "'d block_io \<Rightarrow> UDF_CONTEXT \<Rightarrow> UDF_EXTENT list \<Rightarrow> u64 \<Rightarrow> u64 \<Rightarrow> bytes \<Rightarrow> 'd \<Rightarrow> (bytes option \<times> 'd) option" where
  "read_udf_extents io context [] offset remaining acc s = Some (if remaining = 0 then Some acc else None, s)"
| "read_udf_extents io context (e # extents) offset remaining acc s =
     (if remaining = 0 then Some (Some acc, s)
      else let extent_length = ucast (ue_length e) in
        if offset \<ge> extent_length then read_udf_extents io context extents (offset - extent_length) remaining acc s
        else let part = (if extent_length - offset > remaining then remaining else extent_length - offset) in
          on_success (read_extent_bytes io context e offset part s)
            (\<lambda>b s1. read_udf_extents io context extents 0 (remaining - part) (acc @ b) s1))"

definition read_node_bytes ::
  "'d block_io \<Rightarrow> UDF_CONTEXT \<Rightarrow> UDF_NODE \<Rightarrow> u64 \<Rightarrow> u64 \<Rightarrow> 'd \<Rightarrow> (bytes option \<times> 'd) option" where
  "read_node_bytes io context node offset cap s =
     (if offset > un_size node then Some (None, s)
      else let capacity = (if cap > un_size node - offset then un_size node - offset else cap) in
        if un_embedded node then
          (if offset + capacity > of_nat (length (un_embedded_data node)) then Some (None, s)
           else Some (Some (take (unat capacity) (drop (unat offset) (un_embedded_data node))), s))
        else read_udf_extents io context (un_extents node) offset capacity [] s)"

section \<open>Directories\<close>

text \<open>The name, the extent and whether it is the entry of the parent; \<open>record\<close> are the \<open>available\<close> bytes.\<close>

definition parse_file_identifier :: "bytes \<Rightarrow> (string \<times> UDF_EXTENT \<times> bool) option" where
  "parse_file_identifier rec =
     (if length rec < 38 \<or> \<not> descriptor_tag_valid rec UDF_TAG_FILE_IDENTIFIER then None
      else let name_length = unat (rec ! 19);
               name_offset = 38 + unat (u16_at 36 rec);
               icb = \<lparr>ue_block = u32_at 24 rec, ue_length = u32_at 20 rec AND 0x3FFFFFFF, ue_partition = u16_at 28 rec\<rparr> in
        if name_offset + name_length > length rec then None
        else if rec ! 18 AND 0x08 \<noteq> 0 then Some (''..'', icb, True)
        else map_option (\<lambda>name. (name, icb, False)) (decode_cs0 (take name_length (drop name_offset rec))))"

definition file_identifier_length :: "bytes \<Rightarrow> nat" where
  "file_identifier_length rec =
     (if length rec < 38 \<or> \<not> descriptor_tag_valid rec UDF_TAG_FILE_IDENTIFIER then 0
      else (38 + unat (u16_at 36 rec) + unat (rec ! 19) + 3) div 4 * 4)"

text \<open>The inner loop of \<open>find_in_directory\<close> over a part of the directory: the extent of the file entry, if the name
  is there.\<close>

function find_in_part :: "string \<Rightarrow> bytes \<Rightarrow> nat \<Rightarrow> UDF_EXTENT option" where
  "find_in_part name part cursor =
     (if cursor + 38 \<le> length part then
        (case parse_file_identifier (drop cursor part) of
           None \<Rightarrow> None
         | Some (entry_name, icb, is_parent) \<Rightarrow>
             let record_length = file_identifier_length (drop cursor part) in
             if record_length = 0 then None
             else if \<not> is_parent \<and> strings_equal_ci entry_name name then Some icb
             else find_in_part name part (cursor + record_length))
      else None)"
  by pat_completeness auto
termination by (relation "measure (\<lambda>(name, part, cursor). length part - cursor)") auto

declare find_in_part.simps [simp del]

function find_from_part ::
  "'d block_io \<Rightarrow> UDF_CONTEXT \<Rightarrow> UDF_NODE \<Rightarrow> string \<Rightarrow> u64 \<Rightarrow> 'd \<Rightarrow> (UDF_NODE option \<times> 'd) option" where
  "find_from_part io context directory name offset s =
     (if offset < un_size directory then
        let part = clip UDF_SECTOR_SIZE (un_size directory - offset) in
        on_success (read_node_bytes io context directory offset (ucast part) s) (\<lambda>buffer s1.
          case find_in_part name buffer 0 of
            Some icb \<Rightarrow> parse_file_entry io context icb s1
          | None \<Rightarrow> find_from_part io context directory name (offset + ucast part) s1)
      else Some (None, s))"
  by pat_completeness auto
termination
proof (relation "measure (\<lambda>(io, context, directory, name, offset, s). unat (un_size directory) - unat offset)", goal_cases)
  case (2 io ctx directory name offset s part buffer s1)
  then show ?case using sector_progress [of offset "un_size directory"] by simp
qed simp

declare find_from_part.simps [simp del]

definition udf_find_in_directory ::
  "'d block_io \<Rightarrow> UDF_CONTEXT \<Rightarrow> UDF_NODE \<Rightarrow> string \<Rightarrow> 'd \<Rightarrow> (UDF_NODE option \<times> 'd) option" where
  "udf_find_in_directory io context directory name s =
     (if un_type directory \<noteq> UDF_FILE_TYPE_DIRECTORY then Some (None, s)
      else find_from_part io context directory name 0 s)"

function udf_find_components ::
  "'d block_io \<Rightarrow> UDF_CONTEXT \<Rightarrow> string \<Rightarrow> UDF_NODE \<Rightarrow> 'd \<Rightarrow> (UDF_NODE option \<times> 'd) option" where
  "udf_find_components io context path current s =
     (case next_path_component path of
        (False, _, _) \<Rightarrow> Some (Some current, s)
      | (True, rest, component) \<Rightarrow>
          on_success (udf_find_in_directory io context current component s)
            (\<lambda>child s1. udf_find_components io context rest child s1))"
  by pat_completeness auto
termination
  by (relation "measure (\<lambda>(io, context, path, current, s). length path)")
     (auto dest!: sym [of "(True, _)"] next_path_component_shorter)

declare udf_find_components.simps [simp del]

definition find_node ::
  "'d block_io \<Rightarrow> UDF_CONTEXT option \<Rightarrow> string option \<Rightarrow> 'd \<Rightarrow> (UDF_NODE option \<times> 'd) option" where
  "find_node io context path s =
     (case (context, path) of
        (Some c, Some p) \<Rightarrow> udf_find_components io c p (udf_root c) s
      | _ \<Rightarrow> Some (None, s))"

section \<open>Mounting\<close>

primrec try_anchors :: "'d block_io \<Rightarrow> u64 list \<Rightarrow> 'd \<Rightarrow> (UDF_EXTENT option \<times> 'd) option" where
  "try_anchors io [] s = Some (None, s)"
| "try_anchors io (candidate # candidates) s =
     (if candidate = 0 then try_anchors io candidates s
      else do {
        (r, s1) \<leftarrow> read_udf_sector io candidate s;
        case r of
          None \<Rightarrow> try_anchors io candidates s1
        | Some sector \<Rightarrow>
            if \<not> descriptor_tag_valid sector UDF_TAG_ANCHOR then try_anchors io candidates s1
            else Some (if u32_at 16 sector \<noteq> 0
              then Some \<lparr>ue_block = u32_at 20 sector, ue_length = u32_at 16 sector, ue_partition = 0\<rparr> else None, s1) })"

definition find_anchor :: "'d block_io \<Rightarrow> 'd \<Rightarrow> (UDF_EXTENT option \<times> 'd) option" where
  "find_anchor io s = try_anchors io [UDF_ANCHOR_SECTOR,
     if io_block_count io > 256 then io_block_count io - 256 else 0,
     if io_block_count io > 1 then io_block_count io - 1 else 0] s"

definition partition_descriptor :: "bytes \<Rightarrow> UDF_CONTEXT \<Rightarrow> UDF_CONTEXT" where
  "partition_descriptor sector context = context\<lparr>udf_partition_number := u16_at 22 sector,
     udf_partition_start := u32_at 188 sector, udf_partition_length := u32_at 192 sector\<rparr>"

definition logical_volume_descriptor :: "bytes \<Rightarrow> UDF_CONTEXT \<Rightarrow> UDF_CONTEXT" where
  "logical_volume_descriptor sector context = context\<lparr>udf_block_size := u32_at 212 sector,
     udf_file_set_extent := \<lparr>ue_block = u32_at 252 sector, ue_length = u32_at 248 sector AND 0x3FFFFFFF,
       ue_partition = u16_at 256 sector\<rparr>\<rparr>"

primrec descriptors_from ::
  "'d block_io \<Rightarrow> UDF_EXTENT \<Rightarrow> nat list \<Rightarrow> bool \<Rightarrow> bool \<Rightarrow> UDF_CONTEXT \<Rightarrow> 'd \<Rightarrow> (UDF_CONTEXT option \<times> 'd) option" where
  "descriptors_from io main_vds [] have_partition have_lvd context s =
     Some (if have_partition \<and> have_lvd then Some context else None, s)"
| "descriptors_from io main_vds (index # rest) have_partition have_lvd context s =
     on_success (read_udf_sector io (ucast (ue_block main_vds + of_nat index)) s) (\<lambda>sector s1.
       let tag = u16_at 0 sector in
       if tag = UDF_TAG_TERMINATING then Some (if have_partition \<and> have_lvd then Some context else None, s1)
       else if \<not> descriptor_tag_valid sector tag then Some (None, s1)
       else if tag = UDF_TAG_PARTITION then
         let c = partition_descriptor sector context in
         descriptors_from io main_vds rest (udf_partition_length c \<noteq> 0) have_lvd c s1
       else if tag = UDF_TAG_LOGICAL_VOLUME then
         let c = logical_volume_descriptor sector context in
         descriptors_from io main_vds rest have_partition
           (udf_block_size c = UDF_SECTOR_SIZE \<and> ue_length (udf_file_set_extent c) \<noteq> 0
            \<and> u32_at 264 sector \<noteq> 0 \<and> u32_at 268 sector \<noteq> 0) c s1
       else descriptors_from io main_vds rest have_partition have_lvd context s1)"

definition read_volume_descriptors ::
  "'d block_io \<Rightarrow> UDF_EXTENT \<Rightarrow> UDF_CONTEXT \<Rightarrow> 'd \<Rightarrow> (UDF_CONTEXT option \<times> 'd) option" where
  "read_volume_descriptors io main_vds context s =
     descriptors_from io main_vds [0 ..< unat (ue_length main_vds div UDF_SECTOR_SIZE)] False False context s"

definition read_file_set :: "'d block_io \<Rightarrow> UDF_CONTEXT \<Rightarrow> 'd \<Rightarrow> (UDF_CONTEXT option \<times> 'd) option" where
  "read_file_set io context s =
     on_success (read_udf_sector io (udf_lba context (udf_file_set_extent context)) s) (\<lambda>sector s1.
       if \<not> descriptor_tag_valid sector UDF_TAG_FILE_SET then Some (None, s1)
       else let root_icb = \<lparr>ue_block = u32_at 404 sector, ue_length = u32_at 400 sector AND 0x3FFFFFFF,
              ue_partition = u16_at 408 sector\<rparr> in
         if ue_length root_icb = 0 then Some (None, s1)
         else on_success (parse_file_entry io context root_icb s1) (\<lambda>root s2.
           Some (if un_type root = UDF_FILE_TYPE_DIRECTORY then Some (context\<lparr>udf_root := root\<rparr>) else None, s2)))"

definition udf_probe :: "'d block_io option \<Rightarrow> 'd \<Rightarrow> (bool \<times> 'd) option" where
  "udf_probe device s =
     (case device of
        None \<Rightarrow> Some (False, s)
      | Some io \<Rightarrow>
          if io_block_size io < 512 \<or> io_block_size io > 4096 then Some (False, s)
          else map_option (\<lambda>(r, s1). (r \<noteq> None, s1)) (find_anchor io s))"

text \<open>The fields of a context before they are set.\<close>

definition new_udf_context :: UDF_CONTEXT where
  "new_udf_context = \<lparr>udf_block_size = UDF_SECTOR_SIZE, udf_partition_number = 0, udf_partition_start = 0,
     udf_partition_length = 0, udf_file_set_extent = \<lparr>ue_block = 0, ue_length = 0, ue_partition = 0\<rparr>,
     udf_root = \<lparr>un_extents = [], un_size = 0, un_type = 0, un_embedded = False, un_read_only = False,
       un_embedded_data = []\<rparr>\<rparr>"

text \<open>The address and the contents of the new context.\<close>

definition udf_context_create ::
  "'d block_io option \<Rightarrow> heap_state \<Rightarrow> 'd \<Rightarrow> ((u64 \<times> UDF_CONTEXT) option \<times> heap_state \<times> 'd) option" where
  "udf_context_create device h s = do {
     (ok, s1) \<leftarrow> udf_probe device s;
     case device of
       None \<Rightarrow> Some (None, h, s1)
     | Some io \<Rightarrow>
         if \<not> ok then Some (None, h, s1)
         else do {
           (p, h1) \<leftarrow> kmalloc 2496 h;
           if p = 0 then Some (None, h1, s1)
           else do {
             (r, s2) \<leftarrow> on_success (find_anchor io s1) (\<lambda>main_vds s2.
               on_success (read_volume_descriptors io main_vds new_udf_context s2) (read_file_set io));
             case r of
               None \<Rightarrow> do { h2 \<leftarrow> kfree p h1; Some (None, h2, s2) }
             | Some context \<Rightarrow> Some (Some (p, context), h1, s2) } } }"

definition udf_context_destroy :: "u64 \<Rightarrow> heap_state \<Rightarrow> heap_state option" where
  "udf_context_destroy p h = (if p \<noteq> 0 then kfree p h else Some h)"

section \<open>The operations\<close>

definition udf_context_exists ::
  "'d block_io \<Rightarrow> UDF_CONTEXT option \<Rightarrow> string option \<Rightarrow> 'd \<Rightarrow> (bool \<times> 'd) option" where
  "udf_context_exists io context path s = do { (r, s1) \<leftarrow> find_node io context path s; Some (r \<noteq> None, s1) }"

definition node_is_directory :: "UDF_NODE \<Rightarrow> bool" where
  "node_is_directory node \<longleftrightarrow> un_type node = UDF_FILE_TYPE_DIRECTORY"

definition udf_context_is_directory ::
  "'d block_io \<Rightarrow> UDF_CONTEXT option \<Rightarrow> string option \<Rightarrow> 'd \<Rightarrow> (bool \<times> 'd) option" where
  "udf_context_is_directory io context path s = do {
     (r, s1) \<leftarrow> find_node io context path s;
     Some (case r of None \<Rightarrow> False | Some node \<Rightarrow> node_is_directory node, s1) }"

definition udf_context_file_size ::
  "'d block_io \<Rightarrow> UDF_CONTEXT option \<Rightarrow> string option \<Rightarrow> 'd \<Rightarrow> (u64 \<times> 'd) option" where
  "udf_context_file_size io context path s = do {
     (r, s1) \<leftarrow> find_node io context path s;
     Some (case r of None \<Rightarrow> 0 | Some node \<Rightarrow> if node_is_directory node then 0 else un_size node, s1) }"

text \<open>The result and the bytes in the buffer, which is not null and has the size \<open>capacity\<close>.\<close>

definition udf_context_read_file ::
  "'d block_io \<Rightarrow> UDF_CONTEXT option \<Rightarrow> string option \<Rightarrow> u64 \<Rightarrow> 'd \<Rightarrow> ((u64 \<times> bytes) \<times> 'd) option" where
  "udf_context_read_file io context path capacity s = do {
     (r, s1) \<leftarrow> find_node io context path s;
     case (context, r) of
       (Some c, Some node) \<Rightarrow>
         if node_is_directory node then Some ((0, []), s1)
         else let n = (if capacity < un_size node then capacity else un_size node) in
           if n = 0 then Some ((0, []), s1)
           else do {
             (data, s2) \<leftarrow> read_node_bytes io c node 0 n s1;
             Some (case data of None \<Rightarrow> (0, []) | Some b \<Rightarrow> (n, b), s2) }
     | _ \<Rightarrow> Some ((0, []), s1) }"

text \<open>The inner loop of \<open>udf_context_list_directory\<close>.\<close>

function list_part ::
  "'d block_io \<Rightarrow> UDF_CONTEXT \<Rightarrow> u64 \<Rightarrow> bytes \<Rightarrow> nat \<Rightarrow> UDF_FILE_INFO list \<Rightarrow> 'd \<Rightarrow> (UDF_FILE_INFO list \<times> 'd) option" where
  "list_part io context capacity part cursor entries s =
     (if cursor + 38 \<le> length part \<and> length entries < unat capacity then
        (case parse_file_identifier (drop cursor part) of
           None \<Rightarrow> Some (entries, s)
         | Some (name, icb, is_parent) \<Rightarrow>
             let record_length = file_identifier_length (drop cursor part) in
             if record_length = 0 then Some (entries, s)
             else if is_parent then list_part io context capacity part (cursor + record_length) entries s
             else do {
               (r, s1) \<leftarrow> parse_file_entry io context icb s;
               list_part io context capacity part (cursor + record_length) (case r of
                   None \<Rightarrow> entries
                 | Some child \<Rightarrow> entries @ [\<lparr>udf_name = copy_string 256 name,
                     udf_size = (if node_is_directory child then 0 else un_size child),
                     udf_is_directory = node_is_directory child, udf_read_only = un_read_only child\<rparr>]) s1 })
      else Some (entries, s))"
  by pat_completeness auto
termination
  by (relation "measure (\<lambda>(io, context, capacity, part, cursor, entries, s). length part - cursor)") auto

declare list_part.simps [simp del]

function list_from_part ::
  "'d block_io \<Rightarrow> UDF_CONTEXT \<Rightarrow> UDF_NODE \<Rightarrow> u64 \<Rightarrow> u64 \<Rightarrow> UDF_FILE_INFO list \<Rightarrow> 'd \<Rightarrow> (UDF_FILE_INFO list \<times> 'd) option" where
  "list_from_part io context directory capacity offset entries s =
     (if offset < un_size directory \<and> length entries < unat capacity then
        let part = clip UDF_SECTOR_SIZE (un_size directory - offset) in do {
          (r, s1) \<leftarrow> read_node_bytes io context directory offset (ucast part) s;
          case r of
            None \<Rightarrow> Some (entries, s1)
          | Some buffer \<Rightarrow> do {
              (entries1, s2) \<leftarrow> list_part io context capacity buffer 0 entries s1;
              list_from_part io context directory capacity (offset + ucast part) entries1 s2 } }
      else Some (entries, s))"
  by pat_completeness auto
termination
proof (relation "measure (\<lambda>(io, context, directory, capacity, offset, entries, s). unat (un_size directory) - unat offset)",
    goal_cases)
  case (2 io ctx directory capacity offset entries s part)
  then show ?case using sector_progress [of offset "un_size directory"] by simp
qed simp

declare list_from_part.simps [simp del]

definition udf_context_list_directory ::
  "'d block_io \<Rightarrow> UDF_CONTEXT option \<Rightarrow> string option \<Rightarrow> u64 \<Rightarrow> 'd \<Rightarrow> ((u64 \<times> UDF_FILE_INFO list) \<times> 'd) option" where
  "udf_context_list_directory io context path capacity s =
     (if capacity = 0 then Some ((0, []), s)
      else do {
        (r, s1) \<leftarrow> find_node io context path s;
        case (context, r) of
          (Some c, Some directory) \<Rightarrow>
            if \<not> node_is_directory directory then Some ((0, []), s1)
            else do {
              (entries, s2) \<leftarrow> list_from_part io c directory capacity 0 [] s1;
              Some ((of_nat (length entries), entries), s2) }
        | _ \<Rightarrow> Some ((0, []), s1) })"

text \<open>The functions that would change the volume.\<close>

definition udf_context_write_file :: "UDF_CONTEXT option \<Rightarrow> string option \<Rightarrow> bytes option \<Rightarrow> u64 \<Rightarrow> bool" where
  "udf_context_write_file context path buffer bytes = False"

definition udf_context_delete_file :: "UDF_CONTEXT option \<Rightarrow> string option \<Rightarrow> bool" where
  "udf_context_delete_file context path = False"

definition udf_context_create_directory :: "UDF_CONTEXT option \<Rightarrow> string option \<Rightarrow> bool" where
  "udf_context_create_directory context path = False"

definition udf_context_delete_directory :: "UDF_CONTEXT option \<Rightarrow> string option \<Rightarrow> bool" where
  "udf_context_delete_directory context path = False"

definition udf_context_rename :: "UDF_CONTEXT option \<Rightarrow> string option \<Rightarrow> string option \<Rightarrow> bool" where
  "udf_context_rename context source destination = False"

definition udf_context_sync :: "'d block_io \<Rightarrow> UDF_CONTEXT option \<Rightarrow> 'd \<Rightarrow> (bool \<times> 'd) option" where
  "udf_context_sync io context s = (case context of None \<Rightarrow> Some (False, s) | Some c \<Rightarrow> io_flush io s)"

end
