(* ===== verification/Udf_Theorems.thy ===== *)
theory Udf_Theorems
  imports Udf
begin

text \<open>
  What reading a file of a UDF volume returns: the bytes of its extents, which lie at the sectors of the partition; and
  the bounds that every node in memory meets, whatever its file entry holds.
\<close>

section \<open>Sectors\<close>

lemma unsigned_numeral_2048: "(ucast (2048 :: u32) :: u64) = 2048"
  by simp

context multi_source
begin

lemma blocks_content:
  assumes "held s" "unat lba + n \<le> 2 ^ 64" "0 < unat (io_block_size io)"
  shows "concat (map (\<lambda>j. disk (lba + of_nat j)) [0 ..< n]) = content (unat lba * unat (io_block_size io)) (n * unat (io_block_size io))"
  using assms(2)
proof (induction n)
  case 0
  then show ?case by (simp add: disk_bytes_def)
next
  case (Suc n)
  let ?bs = "unat (io_block_size io)"
  have "of_nat (unat lba + n) = lba + of_nat n" by simp
  then have "(of_nat ((unat lba + n) * ?bs div ?bs) :: u64) = lba + of_nat n" using assms(3) by simp
  then have "content ((unat lba + n) * ?bs) ?bs = disk (lba + of_nat n)"
    using disk_bytes_in_block [of "(unat lba + n) * ?bs" "io_block_size io" ?bs disk] source_length [OF assms(1)] by simp
  then show ?case
    using Suc disk_bytes_append [of "io_block_size io" disk "unat lba * ?bs" "n * ?bs" ?bs] by (simp add: algebra_simps)
qed

text \<open>The blocks of a sector can be read.\<close>

definition sector_works :: "u64 \<Rightarrow> bool" where
  "sector_works sector \<longleftrightarrow> (let bs = io_block_size io; a = sector * 2048 in
     512 \<le> bs \<and> bs \<le> 4096 \<and> (if unat a mod unat bs = 0 \<and> 2048 mod bs = 0
       then works_all (a div ucast bs) (2048 div bs) else works (a div ucast bs) \<and> unat a mod unat bs + 2048 \<le> unat bs))"

lemma read_udf_sector_outcome:
  assumes "held s" "unat sector * 2048 + 2048 \<le> 2 ^ 64" "W \<Longrightarrow> sector_works sector"
  shows "outcome W held (read_udf_sector io sector s) (\<lambda>b. b = content (unat sector * 2048) 2048)"
proof (cases "io_block_size io < 512 \<or> io_block_size io > 4096")
  case True
  then show ?thesis
    using assms by (auto simp: read_udf_sector_def sector_works_def Let_def intro!: outcome_zero)
next
  case False
  define bs where "bs = io_block_size io"
  define a where "a = sector * 2048"
  have bs: "512 \<le> unat bs" "unat bs \<le> 4096" using False by (simp_all add: bs_def word_le_nat_alt not_less)
  have a: "unat a = unat sector * 2048"
    using assms(2) unfolding a_def by (subst unat_mult_lem [THEN iffD1]) simp_all
  have d: "unat (a div ucast bs) = unat a div unat bs" by (simp add: unat_div_distrib)
  have m: "unat (a mod ucast bs) = unat a mod unat bs" by (simp add: unat_mod_distrib)
  have lt: "unat a mod unat bs < 4096" using bs mod_less_divisor [of "unat bs" "unat a"] by linarith
  then have skip: "unat (ucast (a mod ucast bs) :: u32) = unat a mod unat bs"
    using m by (simp add: unsigned_ucast_eq take_bit_nat_eq_self_iff)
  let ?skip = "ucast (a mod ucast bs) :: u32"
  have zero: "?skip = 0 \<longleftrightarrow> unat a mod unat bs = 0" using skip by (metis unat_0 unat_eq_zero)
  show ?thesis
  proof (cases "unat a mod unat bs = 0 \<and> 2048 mod bs = 0")
    case True
    have "unat (2048 mod bs) = 2048 mod unat bs" by (simp add: unat_mod_distrib)
    then have n: "2048 mod unat bs = 0" using True by simp
    have u: "unat (2048 div bs) = 2048 div unat bs" by (simp add: unat_div_distrib)
    then have nb: "unat (2048 div bs) * unat bs = 2048" using n by auto
    have dd: "unat (a div ucast bs) * unat bs = unat a" using True d by auto
    have fits: "unat (a div ucast bs) + unat (2048 div bs) \<le> 2 ^ 64"
    proof -
      have "unat (2048 div bs) \<le> 2048" unfolding u by (rule div_le_dividend)
      moreover have "unat a + 2048 \<le> 2 ^ 64" using a assms(2) by simp
      moreover have "unat (a div ucast bs) \<le> unat a" unfolding d by (rule div_le_dividend)
      ultimately show ?thesis by linarith
    qed
    have "outcome (works_all (a div ucast bs) (2048 div bs)) held (io_read_blocks io (a div ucast bs) (2048 div bs) s)
        (\<lambda>b. b = concat (map (\<lambda>j. disk (a div ucast bs + of_nat j)) [0 ..< unat (2048 div bs)]))"
      using nb by (intro source_read_blocks [OF assms(1)]) (simp add: bs_def [symmetric])
    then have "outcome W held (io_read_blocks io (a div ucast bs) (2048 div bs) s) (\<lambda>b. b = content (unat sector * 2048) 2048)"
    proof (rule outcome_mono)
      assume W
      then show "works_all (a div ucast bs) (2048 div bs)"
        using assms(3) True by (simp add: sector_works_def Let_def bs_def [symmetric] a_def [symmetric])
    next
      fix b
      assume "b = concat (map (\<lambda>j. disk (a div ucast bs + of_nat j)) [0 ..< unat (2048 div bs)])"
      then show "b = content (unat sector * 2048) 2048"
        using blocks_content [OF assms(1) fits] bs nb dd a by (simp add: bs_def [symmetric])
    qed
    then show ?thesis
      using False True zero by (simp add: read_udf_sector_def UDF_SECTOR_SIZE_def bs_def [symmetric] a_def [symmetric])
  next
    case single: False
    have lba: "of_nat (unat a div unat bs) = a div ucast bs" using d by (metis unat_of_nat_id)
    have "unat (?skip + 2048) = unat ?skip + 2048"
      using skip lt by (subst unat_add_lem [THEN iffD1]) simp_all
    then have fit: "?skip + 2048 \<le> bs \<longleftrightarrow> unat a mod unat bs + 2048 \<le> unat bs"
      using skip by (simp add: word_le_nat_alt)
    have "outcome W held (on_success (io_read io (a div ucast bs) s) (\<lambda>raw s1.
          if ?skip + 2048 \<le> bs then Some (Some (take 2048 (drop (unat ?skip) raw)), s1) else Some (None, s1)))
        (\<lambda>b. b = content (unat sector * 2048) 2048)"
    proof (rule outcome_on_success [OF source_read [OF assms(1)]])
      assume W
      then show "works (a div ucast bs)"
        using assms(3) single by (auto simp: sector_works_def Let_def bs_def [symmetric] a_def [symmetric] split: if_splits)
    next
      fix raw s1
      assume s1: "held s1" "raw = disk (a div ucast bs)"
      show "outcome W held (if ?skip + 2048 \<le> bs then Some (Some (take 2048 (drop (unat ?skip) raw)), s1) else Some (None, s1))
        (\<lambda>b. b = content (unat sector * 2048) 2048)"
      proof (cases "?skip + 2048 \<le> bs")
        case True
        then have "unat a mod unat bs + 2048 \<le> unat bs" using fit by simp
        moreover have "length (disk (of_nat (unat a div unat bs))) = unat bs"
          unfolding bs_def by (rule source_length [OF s1(1)])
        ultimately have "content (unat a) 2048 = take 2048 (drop (unat a mod unat bs) (disk (of_nat (unat a div unat bs))))"
          unfolding bs_def by (rule disk_bytes_in_block)
        then have "content (unat a) 2048 = take 2048 (drop (unat ?skip) raw)"
          unfolding skip s1(2) lba .
        then show ?thesis using True s1(1) a by (simp add: outcome_return)
      next
        case no: False
        then have "\<not> W"
          using assms(3) single fit by (auto simp: sector_works_def Let_def bs_def [symmetric] a_def [symmetric] split: if_splits)
        then show ?thesis using no s1(1) by (simp add: outcome_zero)
      qed
    qed
    moreover have "(?skip = 0 \<and> (2048 :: u32) mod bs = 0) = False" 
      using single by (simp only: zero simp_thms not_False_eq_True)
    moreover have "(bs < 512 \<or> 4096 < bs) = False" using False by (simp add: bs_def)
    ultimately show ?thesis
      by (simp only: read_udf_sector_def Let_def UDF_SECTOR_SIZE_def unsigned_numeral_2048 bs_def [symmetric] a_def [symmetric]
        if_False)
  qed
qed

text \<open>The sectors with bytes of an interval can be read.\<close>

definition sectors_work :: "u64 \<Rightarrow> nat \<Rightarrow> bool" where
  "sectors_work base n \<longleftrightarrow> (\<forall>i. i * 2048 < n \<longrightarrow> sector_works (base + of_nat i))"

lemma read_extent_from_outcome:
  assumes "held s" "unat base * 2048 + unat extent_length + 2048 \<le> 2 ^ 64" "unat offset + unat capacity \<le> unat extent_length"
    "copied \<le> capacity" "W \<Longrightarrow> sectors_work base (unat extent_length)"
  shows "outcome W held (read_extent_from io base extent_length offset capacity copied acc s)
    (\<lambda>b. b = acc @ content (unat base * 2048 + unat offset + unat copied) (unat capacity - unat copied))"
  using assms(1,4)
proof (induction "unat capacity - unat copied" arbitrary: copied acc s rule: less_induct)
  case less
  show ?case
  proof (cases "copied < capacity")
    case False
    then have "copied = capacity" using less.prems(2) by simp
    then show ?thesis
      using less.prems by (subst read_extent_from.simps) (simp add: outcome_return disk_bytes_def)
  next
    case True
    let ?k = "unat offset + unat copied"
    have k: "?k < unat extent_length" "?k < 2 ^ 64"
      using True assms(3) unat_less_64 [of extent_length] by (simp_all add: word_less_nat_alt del: unat_less_64)
    then have o: "unat (offset + copied) = ?k" by (simp add: unat_add_64)
    then have lt: "offset + copied < extent_length" using k by (simp add: word_less_nat_alt)
    define sec where "sec = (offset + copied) div 2048"
    define ins where "ins = (ucast ((offset + copied) mod 2048) :: u32)"
    define part where "part = clip (clip (2048 - ins) (capacity - copied)) (extent_length - (offset + copied))"
    have m: "?k mod 2048 < 2048" by simp
    have us: "unat sec = ?k div 2048" by (simp add: sec_def unat_div_distrib o)
    have ui: "unat ins = ?k mod 2048"
      by (simp add: ins_def unsigned_ucast_eq unat_mod_distrib o take_bit_nat_eq_self_iff)
    have "unat (2048 - ins) = 2048 - ?k mod 2048"
      using m ui by (subst unat_sub_le) (simp_all add: word_le_nat_alt)
    moreover have "unat (capacity - copied) = unat capacity - unat copied"
      using True by (simp add: unat_sub_le)
    moreover have "unat (extent_length - (offset + copied)) = unat extent_length - ?k"
      using lt o by (simp add: unat_sub_le)
    ultimately have up: "unat part = min (2048 - ?k mod 2048) (unat capacity - unat copied)"
      using assms(3) by (simp add: part_def unat_clip)
    have pos: "0 < unat part" using up True m by (simp add: word_less_nat_alt)
    then have part0: "(part = 0) = False" by auto
    have q: "unat part \<le> unat capacity - unat copied" using up by simp
    then have all: "unat part + (unat capacity - (unat copied + unat part)) = unat capacity - unat copied"
      using True by (simp add: word_less_nat_alt)
    have uc: "unat (copied + ucast part) = unat copied + unat part"
    proof -
      have "unat copied + unat part \<le> unat capacity" using up less.prems(2) by (auto simp: word_le_nat_alt)
      then have "unat copied + unat part < 18446744073709551616" using unat_less_64 [of capacity] by linarith
      then show ?thesis by (simp add: unat_add_64)
    qed
    have ub: "unat (base + sec) = unat base + ?k div 2048"
    proof -
      have "unat base + ?k div 2048 < 2 ^ 64" using assms(2) k(1) by linarith
      then show ?thesis using us by (simp add: unat_add_64)
    qed
    have at: "unat (base + sec) * 2048 + ?k mod 2048 = unat base * 2048 + ?k" unfolding ub by simp
    have "outcome W held (on_success (read_udf_sector io (base + sec) s) (\<lambda>sector s1.
        read_extent_from io base extent_length offset capacity (copied + ucast part)
          (acc @ take (unat part) (drop (unat ins) sector)) s1))
      (\<lambda>b. b = acc @ content (unat base * 2048 + unat offset + unat copied) (unat capacity - unat copied))"
    proof (rule outcome_on_success [OF read_udf_sector_outcome [OF less.prems(1)]])
      show "unat (base + sec) * 2048 + 2048 \<le> 2 ^ 64" using at assms(2) k(1) by linarith
    next
      assume W
      moreover have "?k div 2048 * 2048 < unat extent_length" using k(1) by linarith
      ultimately show "sector_works (base + sec)"
        using assms(5) us unfolding sectors_work_def by (metis unat_of_nat_id)
    next
      assume W then show W .
    next
      fix sector s1
      assume s1: "held s1" "sector = content (unat (base + sec) * 2048) 2048"
      have "take (unat part) (drop (unat ins) sector) = content (unat base * 2048 + ?k) (unat part)"
        unfolding s1(2) ui at [symmetric] using up m by (intro take_disk_bytes) simp
      then have e: "(acc @ take (unat part) (drop (unat ins) sector))
          @ content (unat base * 2048 + unat offset + unat (copied + ucast part)) (unat capacity - unat (copied + ucast part))
        = acc @ content (unat base * 2048 + unat offset + unat copied) (unat capacity - unat copied)"
        using disk_bytes_append [of "io_block_size io" disk "unat base * 2048 + ?k" "unat part"
            "unat capacity - unat copied - unat part"] q uc all by (simp add: add.assoc)
      have "copied + ucast part \<le> capacity" using uc q less.prems(2) by (simp add: word_le_nat_alt)
      moreover have "unat capacity - unat (copied + ucast part) < unat capacity - unat copied"
        using uc pos True by (simp add: word_less_nat_alt)
      ultimately show "outcome W held (read_extent_from io base extent_length offset capacity (copied + ucast part)
          (acc @ take (unat part) (drop (unat ins) sector)) s1)
        (\<lambda>b. b = acc @ content (unat base * 2048 + unat offset + unat copied) (unat capacity - unat copied))"
        using less.hyps [of "copied + ucast part" s1 "acc @ take (unat part) (drop (unat ins) sector)"] s1(1)
        unfolding e by simp
    qed
    then show ?thesis
      using True lt
      by (subst read_extent_from.simps) (simp only: Let_def UDF_SECTOR_SIZE_def unsigned_numeral_2048 conj_absorb
        sec_def [symmetric] ins_def [symmetric] part_def [symmetric] part0 if_True if_False simp_thms)
  qed
qed

text \<open>What a successful call leaves is a device in order.\<close>

lemma read_udf_sector_keeps [keeps_rules]: "held s \<Longrightarrow> keeps held (read_udf_sector io sector s)"
proof -
  assume s: "held s"
  have "2048 div unat (io_block_size io) * unat (io_block_size io) \<le> 2048" by (rule div_times_less_eq_dividend)
  then have "2048 div unat (io_block_size io) * unat (io_block_size io) < 4294967296" by linarith
  then have "unat (2048 div io_block_size io) * unat (io_block_size io) < 2 ^ 32" by (simp add: unat_div_distrib)
  then have "keeps held (io_read_blocks io lba (2048 div io_block_size io) s)" for lba
    using outcome_keeps [OF source_read_blocks [OF s]] by blast
  then show ?thesis
    unfolding read_udf_sector_def Let_def UDF_SECTOR_SIZE_def by (intro keeps_rules s) auto
qed

lemma parse_file_entry_keeps [keeps_rules]: "held s \<Longrightarrow> keeps held (parse_file_entry io context icb s)"
  unfolding parse_file_entry_def by (intro keeps_rules)

lemma read_extent_from_keeps:
  "held s \<Longrightarrow> keeps held (read_extent_from io base extent_length offset capacity copied acc s)"
proof (induction "unat capacity - unat copied" arbitrary: copied acc s rule: less_induct)
  case less
  define ins where "ins = (ucast ((offset + copied) mod ucast UDF_SECTOR_SIZE) :: u32)"
  define part where "part = clip (clip (UDF_SECTOR_SIZE - ins) (capacity - copied)) (extent_length - (offset + copied))"
  have "unat part \<le> unat (capacity - copied)" by (simp add: part_def unat_clip)
  then have IH: "held t \<Longrightarrow> keeps held (read_extent_from io base extent_length offset capacity (copied + ucast part) ac t)"
    if "copied < capacity" "part \<noteq> 0" for ac t
    using less.hyps clip_progress that by blast
  show ?case
    by (subst read_extent_from.simps, unfold Let_def, fold ins_def, fold part_def)
       (intro keeps_rules less.prems IH; simp)
qed

lemma read_udf_extents_keeps: "held s \<Longrightarrow> keeps held (read_udf_extents io context extents offset remaining acc s)"
  by (induction extents arbitrary: offset remaining acc s)
     (simp_all add: read_extent_bytes_def Let_def keeps_return keeps_on_success read_extent_from_keeps)

lemma read_node_bytes_keeps [keeps_rules]: "held s \<Longrightarrow> keeps held (read_node_bytes io context node offset capacity s)"
  unfolding read_node_bytes_def Let_def by (intro keeps_rules read_udf_extents_keeps)

lemma find_from_part_keeps: "held s \<Longrightarrow> keeps held (find_from_part io context directory name offset s)"
proof (induction "unat (un_size directory) - unat offset" arbitrary: offset s rule: less_induct)
  case less
  define part where "part = clip UDF_SECTOR_SIZE (un_size directory - offset)"
  have IH: "held t \<Longrightarrow> keeps held (find_from_part io context directory name (offset + ucast part) t)"
    if "offset < un_size directory" for t
    using less.hyps sector_progress [OF that] unfolding part_def by blast
  have "keeps held (case r of Some icb \<Rightarrow> parse_file_entry io context icb t
      | None \<Rightarrow> find_from_part io context directory name (offset + ucast part) t)"
    if "offset < un_size directory" "held t" for r t
    using IH [OF that] that(2) by (cases r) (simp_all add: parse_file_entry_keeps)
  then show ?case
    by (subst find_from_part.simps, unfold Let_def, fold part_def) (intro keeps_rules less.prems; simp)
qed

lemma udf_find_components_keeps: "held s \<Longrightarrow> keeps held (udf_find_components io context path current s)"
proof (induction "length path" arbitrary: path current s rule: less_induct)
  case less
  obtain more rest component where n: "next_path_component path = (more, rest, component)"
    by (cases "next_path_component path")
  show ?case
  proof (cases more)
    case True
    then have "length rest < length path" using n next_path_component_shorter by simp
    note IH = less.hyps [OF this]
    have "keeps held (udf_find_in_directory io context current component s)"
      unfolding udf_find_in_directory_def by (intro keeps_rules find_from_part_keeps less.prems)
    then show ?thesis
      by (subst udf_find_components.simps) (simp add: n True keeps_on_success IH)
  next
    case False
    then show ?thesis by (subst udf_find_components.simps) (simp add: n keeps_return less.prems)
  qed
qed

lemma find_node_keeps: "held s \<Longrightarrow> keeps held (find_node io context path s)"
  unfolding find_node_def by (auto split: option.split intro!: keeps_return udf_find_components_keeps)

text \<open>The bytes of an extent and of a node.\<close>

abbreviation extent_content :: "UDF_CONTEXT \<Rightarrow> UDF_EXTENT \<Rightarrow> bytes" where
  "extent_content c e \<equiv> content ((unat (udf_partition_start c) + unat (ue_block e)) * 2048) (unat (ue_length e))"

lemma udf_lba_eq:
  "ue_partition e = udf_partition_number c \<Longrightarrow> unat (udf_lba c e) = unat (udf_partition_start c) + unat (ue_block e)"
proof -
  assume e: "ue_partition e = udf_partition_number c"
  have "unat (udf_partition_start c) + unat (ue_block e) < 8589934592"
    using unat_less_32 [of "udf_partition_start c"] unat_less_32 [of "ue_block e"] by linarith
  then show ?thesis using e by (simp add: udf_lba_def unat_add_64)
qed

lemma read_extent_bytes_outcome:
  assumes "held s" "ue_partition e = udf_partition_number c" "unat offset + unat capacity \<le> unat (ue_length e)"
    "W \<Longrightarrow> sectors_work (udf_lba c e) (unat (ue_length e))"
  shows "outcome W held (read_extent_bytes io c e offset capacity s)
    (\<lambda>b. b = take (unat capacity) (drop (unat offset) (extent_content c e)))"
proof -
  note lba = udf_lba_eq [OF assms(2)]
  have "udf_lba c e = 0 \<Longrightarrow> ue_block e = 0" using lba by (metis add_is_0 unat_0 unat_eq_zero)
  then have e: "read_extent_bytes io c e offset capacity s
      = read_extent_from io (udf_lba c e) (ucast (ue_length e)) offset capacity 0 [] s"
    using assms(3) by (auto simp: read_extent_bytes_def Let_def word_less_nat_alt)
  have "unat (udf_lba c e) * 2048 + unat (ue_length e) + 2048 \<le> 2 ^ 64"
  proof -
    have "unat (udf_lba c e) \<le> 8589934592"
      unfolding lba using unat_less_32 [of "udf_partition_start c"] unat_less_32 [of "ue_block e"] by linarith
    then have "unat (udf_lba c e) * 2048 + unat (ue_length e) + 2048 \<le> 18446744073709551616"
      using unat_less_32 [of "ue_length e"] by linarith
    then show ?thesis by simp
  qed
  then have "outcome W held (read_extent_from io (udf_lba c e) (ucast (ue_length e)) offset capacity 0 [] s)
      (\<lambda>b. b = [] @ content (unat (udf_lba c e) * 2048 + unat offset + unat (0 :: u64)) (unat capacity - unat (0 :: u64)))"
    using assms by (intro read_extent_from_outcome) simp_all
  then show ?thesis
    unfolding e using assms(3) lba by (simp add: take_disk_bytes)
qed

lemma read_udf_extents_outcome:
  assumes "held s" "\<forall>e \<in> set extents. ue_partition e = udf_partition_number c"
    "W \<Longrightarrow> \<forall>e \<in> set extents. sectors_work (udf_lba c e) (unat (ue_length e))"
    "W \<Longrightarrow> unat offset + unat remaining \<le> length (concat (map (extent_content c) extents))"
  shows "outcome W held (read_udf_extents io c extents offset remaining acc s)
    (\<lambda>b. b = acc @ take (unat remaining) (drop (unat offset) (concat (map (extent_content c) extents))))"
  using assms
proof (induction extents arbitrary: offset remaining acc s)
  case Nil
  then show ?case by (auto simp: unat_eq_zero intro: outcome_return outcome_zero)
next
  case (Cons e extents)
  let ?len = "ucast (ue_length e) :: u64" and ?rest = "concat (map (extent_content c) extents)"
  show ?case
  proof (cases "remaining = 0")
    case True
    then show ?thesis using Cons.prems by (simp add: outcome_return)
  next
    case nz: False
    show ?thesis
    proof (cases "offset \<ge> ?len")
      case True
      then have o: "unat (offset - ?len) = unat offset - unat (ue_length e)" by (simp add: unat_sub_le)
      have "unat (ue_length e) \<le> unat offset" using True by (simp add: word_le_nat_alt)
      moreover from this have "outcome W held (read_udf_extents io c extents (offset - ?len) remaining acc s)
          (\<lambda>b. b = acc @ take (unat remaining) (drop (unat (offset - ?len)) ?rest))"
        using Cons.prems by (intro Cons.IH) (simp_all add: o)
      ultimately show ?thesis using True nz o by simp
    next
      case False
      then have o: "unat offset < unat (ue_length e)" by (simp add: not_le word_less_nat_alt)
      define part where "part = (if ?len - offset > remaining then remaining else ?len - offset)"
      have "unat (?len - offset) = unat (ue_length e) - unat offset"
        using o by (subst unat_sub_le) (simp_all add: word_le_nat_alt)
      then have p: "unat part = min (unat remaining) (unat (ue_length e) - unat offset)"
        by (auto simp: part_def word_less_nat_alt)
      then have r: "unat (remaining - part) = unat remaining - unat part"
        by (subst unat_sub_le) (simp_all add: word_le_nat_alt)
      have "outcome W held (on_success (read_extent_bytes io c e offset part s)
          (\<lambda>b s1. read_udf_extents io c extents 0 (remaining - part) (acc @ b) s1))
        (\<lambda>b. b = acc @ take (unat remaining) (drop (unat offset) (concat (map (extent_content c) (e # extents)))))"
      proof (rule outcome_on_success [OF read_extent_bytes_outcome [OF Cons.prems(1)]])
        show "ue_partition e = udf_partition_number c" using Cons.prems(2) by simp
        show "unat offset + unat part \<le> unat (ue_length e)" using o p by simp
        show "sectors_work (udf_lba c e) (unat (ue_length e))" if W using Cons.prems(3) [OF that] by simp
      next
        fix b t
        assume t: "held t" "b = take (unat part) (drop (unat offset) (extent_content c e))"
        have "outcome W held (read_udf_extents io c extents 0 (remaining - part) (acc @ b) t)
          (\<lambda>x. x = (acc @ b) @ take (unat (remaining - part)) (drop (unat (0 :: u64)) ?rest))"
          using Cons.prems o p by (intro Cons.IH t(1)) (auto simp: r)
        moreover have "(acc @ b) @ take (unat (remaining - part)) (drop (unat (0 :: u64)) ?rest)
            = acc @ take (unat remaining) (drop (unat offset) (concat (map (extent_content c) (e # extents))))"
          unfolding t(2) r p using o by (auto simp: min_def)
        ultimately show "outcome W held (read_udf_extents io c extents 0 (remaining - part) (acc @ b) t)
          (\<lambda>b. b = acc @ take (unat remaining) (drop (unat offset) (concat (map (extent_content c) (e # extents)))))"
          by simp
      qed (assumption)
      then show ?thesis using nz False by (simp add: part_def Let_def)
    qed
  qed
qed

end

section \<open>Nodes\<close>

text \<open>What every node in memory meets.\<close>

definition udf_node_ok :: "UDF_NODE \<Rightarrow> bool" where
  "udf_node_ok node \<longleftrightarrow> length (un_extents node) \<le> UDF_MAX_EXTENTS
     \<and> (\<forall>e \<in> set (un_extents node). 0 < unat (ue_length e) \<and> unat (ue_length e) < 2 ^ 30)
     \<and> length (un_embedded_data node) \<le> 2048
     \<and> (un_embedded node \<longrightarrow> un_extents node = [] \<and> unat (un_size node) \<le> length (un_embedded_data node))"

lemma append_extent_ok:
  assumes "udf_node_ok node" "\<not> un_embedded node" "udf_append_extent node block (x AND 0x3FFFFFFF) part = Some node1"
  shows "udf_node_ok node1 \<and> \<not> un_embedded node1"
proof -
  have "x AND 0x3FFFFFFF = take_bit 30 x" by (simp add: take_bit_eq_mask mask_eq_exp_minus_1)
  then have "unat (x AND 0x3FFFFFFF) = take_bit 30 (unat x)" by (simp only: unsigned_take_bit_eq)
  then have "unat (x AND 0x3FFFFFFF) < 1073741824" using take_bit_nat_less_exp [of 30 "unat x"] by simp
  then show ?thesis
    using assms by (auto simp: udf_node_ok_def udf_append_extent_def and.assoc unat_gt_0 split: if_splits)
qed

lemma allocation_descriptors_ok:
  assumes "udf_node_ok node" "\<not> un_embedded node"
    "allocation_descriptors ctx sector allocation_type cursor ad_end node = Some node1"
  shows "udf_node_ok node1"
  using assms
proof (induction ctx sector allocation_type cursor ad_end node rule: allocation_descriptors.induct)
  case (1 ctx sector allocation_type cursor ad_end node)
  let ?n = "allocation_size allocation_type" and ?len = "u32_at cursor sector AND 0x3FFFFFFF"
    and ?block = "u32_at (cursor + 4) sector"
    and ?part = "if allocation_type = 1 then udf_partition_number ctx else u16_at (cursor + 8) sector"
  show ?case
  proof (cases "cursor < ad_end")
    case True
    define step where "step = (if ?len \<noteq> 0 then udf_append_extent node ?block ?len ?part else Some node)"
    have e: "(if ?n = 0 \<or> ad_end < cursor + ?n then None else case step of None \<Rightarrow> None
        | Some node2 \<Rightarrow> allocation_descriptors ctx sector allocation_type (cursor + ?n) ad_end node2) = Some node1"
      using "1.prems"(3) True by (subst (asm) allocation_descriptors.simps) (simp only: Let_def if_True step_def)
    then have n: "\<not> (?n = 0 \<or> ad_end < cursor + ?n)" by (metis option.discI)
    with e obtain node2 where step: "step = Some node2"
      and rest: "allocation_descriptors ctx sector allocation_type (cursor + ?n) ad_end node2 = Some node1"
      by (cases step) simp_all
    note step = step [unfolded step_def]
    have "udf_node_ok node2 \<and> \<not> un_embedded node2"
      using step append_extent_ok [OF "1.prems"(1,2)] "1.prems"(1,2) by (simp split: if_splits)
    then show ?thesis using "1.IH" [OF True refl n refl refl refl step] rest by blast
  next
    case False
    then show ?thesis using "1.prems" by (simp add: allocation_descriptors.simps [of ctx sector allocation_type cursor])
  qed
qed

text \<open>Every node made from a sector keeps the bounds of its arrays: at most 32 extents of less than 1 GiB, and at most
  2048 bytes of embedded data, which are all that is read of an embedded file.\<close>

theorem file_entry_node_ok:
  assumes "length sector = 2048" and "file_entry_node context sector = Some node"
  shows "udf_node_ok node"
proof -
  define type where "type = fst (parse_icb_tag (drop 16 sector))"
  define al where "al = snd (parse_icb_tag (drop 16 sector))"
  define new where "new = \<lparr>un_extents = [], un_size = u64_at 56 sector, un_type = type, un_embedded = False,
    un_read_only = (u32_at 44 sector AND 2 \<noteq> 0), un_embedded_data = []\<rparr>"
  obtain ad_offset ad_length :: u32 where b: "ad_offset \<le> 2048" "ad_length \<le> 2048 - ad_offset"
    and n: "(if al = 0 then (if un_size new \<le> ucast ad_length
        then Some (new\<lparr>un_embedded := True, un_embedded_data := take (unat ad_length) (drop (unat ad_offset) sector)\<rparr>)
        else None)
      else allocation_descriptors context sector al (unat ad_offset) (unat ad_offset + unat ad_length) new) = Some node"
    using assms(2) unfolding file_entry_node_def Let_def
    by (auto simp: type_def al_def new_def UDF_SECTOR_SIZE_def not_less not_le split: if_splits prod.splits)
  have new: "udf_node_ok new" "\<not> un_embedded new" by (simp_all add: new_def udf_node_ok_def UDF_MAX_EXTENTS_def)
  have "unat (2048 - ad_offset) = 2048 - unat ad_offset" using b(1) by (simp add: unat_sub_le)
  then have l: "unat ad_length \<le> 2048 - unat ad_offset" using b(2) by (simp add: word_le_nat_alt)
  show ?thesis
  proof (cases "al = 0")
    case True
    then show ?thesis
      using n new(1) l assms(1) by (auto simp: udf_node_ok_def new_def word_le_nat_alt split: if_splits)
  next
    case False
    then show ?thesis using n allocation_descriptors_ok [OF new] by simp
  qed
qed

section \<open>Properties\<close>

text \<open>The bytes of a file: those embedded in its entry, or those of its extents.\<close>

definition udf_node_bytes :: "(nat \<Rightarrow> nat \<Rightarrow> bytes) \<Rightarrow> UDF_CONTEXT \<Rightarrow> UDF_NODE \<Rightarrow> bytes" where
  "udf_node_bytes D c node = (if un_embedded node then un_embedded_data node
     else concat (map (\<lambda>e. D ((unat (udf_partition_start c) + unat (ue_block e)) * 2048) (unat (ue_length e))) (un_extents node)))"

text \<open>C38: reading a file of a UDF volume returns the bytes embedded in its entry, or those of its extents one after the
  other at the sectors of the partition, up to its size and the capacity.\<close>

theorem udf_read_file_content:
  assumes "multi_source io held disk works works_all" and "held s"
    and "find_node io (Some c) (Some path) s = Some (Some node, s1)" and "\<not> node_is_directory node"
    and "udf_node_ok node" and "0 < min (unat capacity) (unat (un_size node))"
    and "min (unat capacity) (unat (un_size node)) \<le> length (udf_node_bytes (disk_bytes (io_block_size io) disk) c node)"
    and "\<forall>e \<in> set (un_extents node). ue_partition e = udf_partition_number c
      \<and> multi_source.sectors_work io works works_all (udf_lba c e) (unat (ue_length e))"
  shows "\<exists>s2. udf_context_read_file io (Some c) (Some path) capacity s
      = Some ((min capacity (un_size node), take (min (unat capacity) (unat (un_size node)))
          (udf_node_bytes (disk_bytes (io_block_size io) disk) c node)), s2) \<and> held s2"
proof -
  let ?D = "disk_bytes (io_block_size io) disk"
  define n where "n = min capacity (un_size node)"
  have u: "unat n = min (unat capacity) (unat (un_size node))" by (auto simp: n_def min_def word_le_nat_alt)
  have "held s1"
    using multi_source.find_node_keeps [OF assms(1,2), of "Some c" "Some path"] assms(3) by (simp add: keeps_def)
  have "\<exists>s2. read_node_bytes io c node 0 n s1 = Some (Some (take (unat n) (udf_node_bytes ?D c node)), s2) \<and> held s2"
  proof (cases "un_embedded node")
    case True
    have "n \<le> un_size node" by (simp add: n_def)
    moreover have "\<not> n > of_nat (length (un_embedded_data node))"
    proof
      assume "n > of_nat (length (un_embedded_data node))"
      then have "unat n > unat (of_nat (length (un_embedded_data node)) :: u64)" by (simp add: word_less_nat_alt)
      moreover have "unat n \<le> length (un_embedded_data node)" using assms(7) True u by (simp add: udf_node_bytes_def)
      moreover have "length (un_embedded_data node) < 2 ^ 64" using assms(5) by (simp add: udf_node_ok_def)
      then have "unat (of_nat (length (un_embedded_data node)) :: u64) = length (un_embedded_data node)"
        by (simp add: unsigned_of_nat take_bit_nat_eq_self_iff)
      ultimately show False by simp
    qed
    ultimately show ?thesis using True \<open>held s1\<close> by (auto simp: read_node_bytes_def udf_node_bytes_def Let_def)
  next
    case False
    have "outcome True held (read_udf_extents io c (un_extents node) 0 n [] s1) (\<lambda>b. b = [] @ take (unat n) (drop (unat (0 :: u64))
        (concat (map (\<lambda>e. ?D ((unat (udf_partition_start c) + unat (ue_block e)) * 2048) (unat (ue_length e))) (un_extents node)))))"
      using assms(7,8) \<open>held s1\<close> False
      by (intro multi_source.read_udf_extents_outcome [OF assms(1)]) (simp_all add: udf_node_bytes_def u)
    then show ?thesis
      using False by (auto simp: read_node_bytes_def udf_node_bytes_def Let_def n_def dest: outcome_success)
  qed
  moreover have "n \<noteq> 0" using assms(6) u by (metis less_irrefl unat_0)
  moreover have "(if capacity < un_size node then capacity else un_size node) = n" by (auto simp: n_def min_def)
  ultimately show ?thesis
    unfolding u [symmetric] using assms(3,4) by (auto simp: udf_context_read_file_def n_def [symmetric])
qed

text \<open>A volume whose partition starts at sector 272, with a file in two extents.\<close>

definition udf_sample_node :: UDF_NODE where
  "udf_sample_node = \<lparr>un_extents = [\<lparr>ue_block = 1, ue_length = 3, ue_partition = 0\<rparr>, \<lparr>ue_block = 5, ue_length = 2, ue_partition = 0\<rparr>],
     un_size = 5, un_type = 5, un_embedded = False, un_read_only = False, un_embedded_data = []\<rparr>"

definition udf_sample_context :: UDF_CONTEXT where
  "udf_sample_context = new_udf_context\<lparr>udf_partition_start := 272, udf_root := udf_sample_node\<rparr>"

definition udf_sample_image :: "nat \<Rightarrow> u8" where
  "udf_sample_image a = of_nat (a div 2048 + a mod 2048)"

lemma image_sectors_work: "image_multi.sectors_work img base n"
proof -
  have "unat (sector * 2048) mod 512 = 0" for sector :: u64
  proof -
    have "unat (sector * 2048) = unat sector * 2048 mod 18446744073709551616" by (simp add: unat_word_ariths)
    moreover have "512 dvd unat sector * 2048 mod 18446744073709551616" by (intro dvd_mod dvd_mult) simp_all
    ultimately show ?thesis by simp
  qed
  then have "image_multi.sector_works img sector" for sector
    by (simp add: image_multi.sector_works_def Let_def)
  then show ?thesis by (simp add: image_multi.sectors_work_def)
qed

theorem udf_read_file_content_witness:
  "\<exists>s2. udf_context_read_file (image_io udf_sample_image) (Some udf_sample_context) (Some ''/'') 4 ()
    = Some ((4, [17, 18, 19, 21]), s2)"
proof -
  let ?io = "image_io udf_sample_image"
  let ?D = "disk_bytes (io_block_size ?io) (image_block udf_sample_image)"
  have f: "find_node ?io (Some udf_sample_context) (Some ''/'') () = Some (Some udf_sample_node, ())"
    by (simp add: find_node_def udf_find_components.simps next_path_component_def udf_sample_context_def)
  have n: "min (unat (4 :: u64)) (unat (un_size udf_sample_node)) = 4" "min 4 (un_size udf_sample_node) = (4 :: u64)"
    by (simp_all add: udf_sample_node_def min_def)
  have r: "udf_node_bytes ?D udf_sample_context udf_sample_node = [17, 18, 19, 21, 22]"
    by (simp add: udf_node_bytes_def udf_sample_node_def udf_sample_context_def image_content upt_rec udf_sample_image_def)
  have ok: "\<not> node_is_directory udf_sample_node" "udf_node_ok udf_sample_node"
    "\<forall>e \<in> set (un_extents udf_sample_node). ue_partition e = udf_partition_number udf_sample_context"
    by (simp_all add: udf_sample_node_def node_is_directory_def UDF_FILE_TYPE_DIRECTORY_def udf_node_ok_def UDF_MAX_EXTENTS_def
      udf_sample_context_def new_udf_context_def)
  have "\<exists>s2. udf_context_read_file ?io (Some udf_sample_context) (Some ''/'') 4 ()
      = Some ((min 4 (un_size udf_sample_node), take (min (unat (4 :: u64)) (unat (un_size udf_sample_node)))
          (udf_node_bytes ?D udf_sample_context udf_sample_node)), s2) \<and> True"
    by (rule udf_read_file_content [OF image_multi.multi_source_axioms TrueI f ok(1,2)])
       (simp_all only: n r ok image_sectors_work, simp_all add: ok image_sectors_work)
  then show ?thesis unfolding n r by simp
qed

end
