(* ===== verification/Device_Store.thy ===== *)
theory Device_Store
  imports Device_Reader
begin

text \<open>
  What the file systems that write rely on: a device that holds a map from addresses to blocks, which reading does not
  change and writing changes at the address that is written, if it succeeds.  The interface is the locale \<open>block_store\<close>;
  \<open>returns\<close> says of a computation that it comes back without a fault, in what state, and with what result.
\<close>

section \<open>Computations that return\<close>

definition returns :: "('s \<Rightarrow> bool) \<Rightarrow> ('r \<times> 's) option \<Rightarrow> ('r \<Rightarrow> bool) \<Rightarrow> bool" where
  "returns held m P \<longleftrightarrow> (\<exists>r s. m = Some (r, s) \<and> held s \<and> P r)"

abbreviation succ_if :: "('r \<Rightarrow> bool) \<Rightarrow> 'r option \<Rightarrow> bool" where
  "succ_if P \<equiv> \<lambda>r. \<forall>x. r = Some x \<longrightarrow> P x"

lemma returns_value: "held s \<Longrightarrow> P r \<Longrightarrow> returns held (Some (r, s)) P"
  by (simp add: returns_def)

lemma returns_mono: "returns held m Q \<Longrightarrow> (\<And>r. Q r \<Longrightarrow> P r) \<Longrightarrow> returns held m P"
  by (auto simp: returns_def)

lemma returns_state: "returns held m P \<Longrightarrow> (\<And>s. held s \<Longrightarrow> held' s) \<Longrightarrow> returns held' m P"
  by (auto simp: returns_def)

lemma returns_bind:
  "returns held m Q \<Longrightarrow> (\<And>r s. held s \<Longrightarrow> Q r \<Longrightarrow> returns held (f r s) P) \<Longrightarrow> returns held (m \<bind> (\<lambda>(r, s). f r s)) P"
  by (auto simp: returns_def)

lemma returns_on_success:
  assumes "returns held m (succ_if Q)"
    and "\<And>x s. held s \<Longrightarrow> Q x \<Longrightarrow> returns held (f x s) (succ_if P)"
  shows "returns held (on_success m f) (succ_if P)"
proof -
  obtain r s where m: "m = Some (r, s)" "held s" "succ_if Q r" using assms(1) by (auto simp: returns_def)
  show ?thesis
  proof (cases r)
    case None
    then show ?thesis using m by (simp add: on_success_def returns_def)
  next
    case (Some x)
    then show ?thesis using m assms(2) [of s x] by (simp add: on_success_def)
  qed
qed

lemma returns_if: "(b \<Longrightarrow> returns held m P) \<Longrightarrow> (\<not> b \<Longrightarrow> returns held m' P) \<Longrightarrow> returns held (if b then m else m') P"
  by simp

section \<open>Devices that hold blocks\<close>

locale block_store =
  fixes io :: "'d block_io" and stored :: "(u64 \<Rightarrow> bytes) \<Rightarrow> 'd \<Rightarrow> bool" and works :: "u64 \<Rightarrow> bool"
  assumes store_read: "stored B d \<Longrightarrow> returns (stored B) (io_read io lba d) (succ_if (\<lambda>b. b = B lba))"
    and store_write: "stored B d \<Longrightarrow> length data = unat (io_block_size io) \<Longrightarrow>
      \<exists>ok d'. io_write io lba 1 data d = Some (ok, d') \<and> stored (if ok then B(lba := data) else B) d' \<and> (works lba \<longrightarrow> ok)"
    and store_flush: "stored B d \<Longrightarrow> returns (stored B) (io_flush io d) (\<lambda>_. True)"
    and store_length: "stored B d \<Longrightarrow> length (B lba) = unat (io_block_size io)"

text \<open>The devices of the table, with cache and retries.\<close>

context disk_driver
begin

lemma written_one:
  assumes "request_in_bounds dev lba 1" "length data = block_bytes dev"
  shows "written dev lba 0 (unat (1 :: u32)) data B = B(lba := data)"
  using written_request [of dev lba 1 data B] assms by (auto simp: chunk_def fun_eq_iff word_unat_eq_iff)

lemma device_store:
  assumes "bd_ops dev = Driver_ops n" "read_blocks (drv n) = read_blocks ops" "write_blocks (drv n) = write_blocks ops"
    "flush_blocks (drv n) = flush_blocks ops"
  shows "block_store (device_io (Suc fuel) drv dev i) (\<lambda>B s. settled B s \<and> devices s ! i = dev) (\<lambda>_. False)"
proof
  fix B s lba
  assume s: "settled B s \<and> devices s ! i = dev"
  show "length (B lba) = unat (io_block_size (device_io (Suc fuel) drv dev i))"
    using s block_length by (auto simp: settled_def device_io_def block_bytes_def)
  show "returns (\<lambda>s. settled B s \<and> devices s ! i = dev) (io_read (device_io (Suc fuel) drv dev i) lba s)
      (succ_if (\<lambda>b. b = B lba))"
    using block_source.source_read [OF device_source [where i = i and B = B and fuel = fuel and n = n and drv = drv,
        OF assms(1,2)] s, of lba]
    by (auto simp: outcome_def returns_def)
  obtain ok s' where "block_device_flush (Suc fuel) drv (Some i) s = Some (ok, s')" "settled B s'" "devices s' = devices s"
    using flush_settled [where drv = drv and i = i and s = s and n = n] assms s by blast
  then show "returns (\<lambda>s. settled B s \<and> devices s ! i = dev) (io_flush (device_io (Suc fuel) drv dev i) s) (\<lambda>_. True)"
    using s by (simp add: device_io_def returns_def del: block_device_flush.simps)
next
  fix B s lba and data :: bytes
  assume s: "settled B s \<and> devices s ! i = dev" and l: "length data = unat (io_block_size (device_io (Suc fuel) drv dev i))"
  have b: "block_bytes dev < 2 ^ 32" "length data = block_bytes dev" using l by (simp_all add: device_io_def block_bytes_def)
  then obtain ok s' where w: "block_device_write (Suc fuel) drv (Some i) lba 1 (Some data) s = Some (ok, s')"
    "devices s' = devices s" "settled (if ok then written dev lba 0 (unat (1 :: u32)) data B else B) s'"
    "ok \<longrightarrow> request_in_bounds dev lba 1"
    using write_settled [where drv = drv and n = n and i = i and s = s and cnt = 1 and data = data and B = B
        and lba = lba and fuel = fuel] assms s by auto
  then show "\<exists>ok d'. io_write (device_io (Suc fuel) drv dev i) lba 1 data s = Some (ok, d')
      \<and> (settled (if ok then B(lba := data) else B) d' \<and> devices d' ! i = dev) \<and> (False \<longrightarrow> ok)"
    using s written_one [OF _ b(2)] by (auto simp: device_io_def simp del: block_device_write.simps)
qed

end

interpretation test_store: block_store "test_io fuel dev n i"
    "\<lambda>B s. self_test.settled (test_device dev n) B s \<and> devices s ! i = test_device dev n" "\<lambda>_. False" for fuel dev n i
  unfolding test_io_def by (rule self_test.device_store [where n = n]) (simp_all add: test_device_def)

text \<open>A disk in memory.\<close>

definition memory_io :: "(u64 \<Rightarrow> bytes) block_io" where
  "memory_io = \<lparr>io_block_size = 512, io_block_count = 0, io_flags = 0,
     io_read = (\<lambda>lba d. Some (Some (d lba), d)),
     io_read_blocks = (\<lambda>lba cnt d. Some (Some (concat (map (\<lambda>i. d (lba + of_nat i)) [0 ..< unat cnt])), d)),
     io_write = (\<lambda>lba cnt data d. Some (True, fold (\<lambda>i d. d(lba + of_nat i := take 512 (drop (512 * i) data)))
       [0 ..< unat cnt] d)),
     io_flush = (\<lambda>d. Some (True, d))\<rparr>"

definition sound_memory :: "(u64 \<Rightarrow> bytes) \<Rightarrow> (u64 \<Rightarrow> bytes) \<Rightarrow> bool" where
  "sound_memory B d \<longleftrightarrow> d = B \<and> (\<forall>lba. length (B lba) = 512)"

interpretation memory: block_store memory_io sound_memory "\<lambda>_. True"
  by unfold_locales (auto simp: memory_io_def sound_memory_def returns_def)

end
