(* ===== verification/Exfat_Volume.thy ===== *)
theory Exfat_Volume
  imports Device_Reader Kernel_Heap
begin

text \<open>
  \<^verbatim>\<open>src/kernel/exfat.c\<close> up to \<open>exfat_free_clusters\<close>: the sectors of an exFAT volume, the journal of a transaction, the
  allocation table, streams of clusters, and the bitmap.

  The device of a context is the argument \<open>io\<close>, the fields that do not change after mounting are the argument \<open>c\<close>.
  What an operation changes is \<open>exfat_state\<close>: the device, the kernel heap, and the transaction of the mounted context.
  A function that returns 1 or 0 has the result \<open>Some ()\<close> or \<open>None\<close>, as in \<^verbatim>\<open>Device_Reader\<close>.
\<close>

section \<open>Data\<close>

definition EXFAT_MAX_SECTOR_SIZE :: u32 where "EXFAT_MAX_SECTOR_SIZE = 4096"
definition EXFAT_EOC :: u32 where "EXFAT_EOC = 0xFFFFFFF8"
definition EXFAT_BAD_CLUSTER :: u32 where "EXFAT_BAD_CLUSTER = 0xFFFFFFF7"
definition EXFAT_MAX_TRANSACTION_SECTORS :: nat where "EXFAT_MAX_TRANSACTION_SECTORS = 256"

record EXFAT_NODE =
  en_first_cluster :: u32
  en_valid_data_length :: u64
  en_data_length :: u64
  en_attributes :: u16
  en_no_fat_chain :: bool
  en_name :: "u16 list"
  en_parent_first_cluster :: u32
  en_entry_offset :: u64
  en_entry_count :: nat
  en_parent_no_fat_chain :: bool
  en_parent_data_length :: u64

text \<open>A journal entry has the address of its buffer and what it holds.\<close>

record EXFAT_JOURNAL_ENTRY =
  je_lba :: u64
  je_before :: u64
  je_data :: bytes

record EXFAT_CONTEXT =
  ex_volume_length :: u64
  ex_fat_offset :: u32
  ex_fat_length :: u32
  ex_cluster_heap_offset :: u32
  ex_cluster_count :: u32
  ex_root_cluster :: u32
  ex_sector_size :: u32
  ex_sectors_per_cluster :: u32
  ex_cluster_size :: u32
  ex_upcase_address :: u64
  ex_upcase :: "u16 list option"
  ex_bitmap_first_cluster :: u32
  ex_bitmap_length :: u64

record 'd exfat_state =
  ex_dev :: 'd
  ex_heap :: heap_state
  ex_journal :: "EXFAT_JOURNAL_ENTRY list"
  ex_transaction_active :: bool
  ex_volume_dirty :: bool

definition put_u16 :: "nat \<Rightarrow> u16 \<Rightarrow> bytes \<Rightarrow> bytes" where
  "put_u16 offset v b = put_bytes offset (le_bytes 2 (unat v)) b"

definition put_u32 :: "nat \<Rightarrow> u32 \<Rightarrow> bytes \<Rightarrow> bytes" where
  "put_u32 offset v b = put_bytes offset (le_bytes 4 (unat v)) b"

definition put_u64 :: "nat \<Rightarrow> u64 \<Rightarrow> bytes \<Rightarrow> bytes" where
  "put_u64 offset v b = put_bytes offset (le_bytes 8 (unat v)) b"

definition boot_checksum_step :: "u32 \<Rightarrow> u8 \<Rightarrow> u32" where
  "boot_checksum_step checksum v = (push_bit 31 checksum OR drop_bit 1 checksum) + ucast v"

definition stream_checksum_step :: "u32 \<Rightarrow> u8 \<Rightarrow> u32" where
  "stream_checksum_step checksum v = (push_bit 31 checksum OR drop_bit 1 checksum) + ucast v"

definition entry_set_checksum :: "bytes \<Rightarrow> nat \<Rightarrow> u16" where
  "entry_set_checksum entries n = fold (\<lambda>index checksum. if index = 2 \<or> index = 3 then checksum
     else (push_bit 15 checksum OR drop_bit 1 checksum) + ucast (entries ! index)) [0 ..< 32 * n] 0"

section \<open>Calls\<close>

text \<open>A loop that returns 0 as soon as its body does.\<close>

primrec for_each :: "('a \<Rightarrow> 's \<Rightarrow> (unit option \<times> 's) option) \<Rightarrow> 'a list \<Rightarrow> 's \<Rightarrow> (unit option \<times> 's) option" where
  "for_each body [] s = Some (Some (), s)"
| "for_each body (x # xs) s = on_success (body x s) (\<lambda>_ s1. for_each body xs s1)"

definition ex_read :: "'d block_io \<Rightarrow> u64 \<Rightarrow> 'd exfat_state \<Rightarrow> (bytes option \<times> 'd exfat_state) option" where
  "ex_read io lba s = do { (r, d) \<leftarrow> io_read io lba (ex_dev s); Some (r, s\<lparr>ex_dev := d\<rparr>) }"

definition ex_write :: "'d block_io \<Rightarrow> u64 \<Rightarrow> bytes \<Rightarrow> 'd exfat_state \<Rightarrow> (unit option \<times> 'd exfat_state) option" where
  "ex_write io lba data s = do {
     (ok, d) \<leftarrow> io_write io lba 1 data (ex_dev s);
     Some (if ok then Some () else None, s\<lparr>ex_dev := d\<rparr>) }"

definition ex_flush :: "'d block_io \<Rightarrow> 'd exfat_state \<Rightarrow> (unit option \<times> 'd exfat_state) option" where
  "ex_flush io s = do {
     (ok, d) \<leftarrow> io_flush io (ex_dev s);
     Some (if ok then Some () else None, s\<lparr>ex_dev := d\<rparr>) }"

definition ex_alloc :: "u64 \<Rightarrow> 'd exfat_state \<Rightarrow> (u64 \<times> 'd exfat_state) option" where
  "ex_alloc n s = do { (p, h) \<leftarrow> kmalloc n (ex_heap s); Some (p, s\<lparr>ex_heap := h\<rparr>) }"

definition ex_free :: "u64 \<Rightarrow> 'd exfat_state \<Rightarrow> 'd exfat_state option" where
  "ex_free p s = do { h \<leftarrow> kfree p (ex_heap s); Some (s\<lparr>ex_heap := h\<rparr>) }"

section \<open>Sectors and the journal\<close>

definition valid_cluster :: "EXFAT_CONTEXT \<Rightarrow> u32 \<Rightarrow> bool" where
  "valid_cluster c cluster \<longleftrightarrow> cluster \<ge> 2 \<and> cluster - 2 < ex_cluster_count c"

definition cluster_lba :: "EXFAT_CONTEXT \<Rightarrow> u32 \<Rightarrow> u64" where
  "cluster_lba c cluster = ucast (ex_cluster_heap_offset c) + ucast (cluster - 2) * ucast (ex_sectors_per_cluster c)"

definition exfat_read_sector ::
  "'d block_io \<Rightarrow> EXFAT_CONTEXT \<Rightarrow> u64 \<Rightarrow> 'd exfat_state \<Rightarrow> (bytes option \<times> 'd exfat_state) option" where
  "exfat_read_sector io c lba s = (if lba < ex_volume_length c then ex_read io lba s else Some (None, s))"

definition journal_sector ::
  "'d block_io \<Rightarrow> EXFAT_CONTEXT \<Rightarrow> u64 \<Rightarrow> 'd exfat_state \<Rightarrow> (unit option \<times> 'd exfat_state) option" where
  "journal_sector io c lba s =
     (if \<exists>e \<in> set (ex_journal s). je_lba e = lba then Some (Some (), s)
      else if \<not> ex_transaction_active s \<or> length (ex_journal s) \<ge> EXFAT_MAX_TRANSACTION_SECTORS then Some (None, s)
      else do {
        (before, s1) \<leftarrow> ex_alloc (ucast (ex_sector_size c)) s;
        if before = 0 then Some (None, s1)
        else do {
          (r, s2) \<leftarrow> exfat_read_sector io c lba s1;
          case r of
            None \<Rightarrow> do { s3 \<leftarrow> ex_free before s2; Some (None, s3) }
          | Some data \<Rightarrow> Some (Some (), s2\<lparr>ex_journal := ex_journal s2 @
              [\<lparr>je_lba = lba, je_before = before, je_data = data\<rparr>]\<rparr>) } })"

definition exfat_write_sector ::
  "'d block_io \<Rightarrow> EXFAT_CONTEXT \<Rightarrow> u64 \<Rightarrow> bytes \<Rightarrow> 'd exfat_state \<Rightarrow> (unit option \<times> 'd exfat_state) option" where
  "exfat_write_sector io c lba data s =
     (if lba < ex_volume_length c then on_success (journal_sector io c lba s) (\<lambda>_ s1. ex_write io lba data s1)
      else Some (None, s))"

text \<open>One of the two boot sectors with other flags, or with another byte.\<close>

definition update_boot_sector ::
  "'d block_io \<Rightarrow> EXFAT_CONTEXT \<Rightarrow> (bytes \<Rightarrow> bytes) \<Rightarrow> u64 \<Rightarrow> 'd exfat_state \<Rightarrow> (unit option \<times> 'd exfat_state) option" where
  "update_boot_sector io c change lba s =
     on_success (exfat_read_sector io c lba s) (\<lambda>sector s1. exfat_write_sector io c lba (change sector) s1)"

definition set_volume_dirty ::
  "'d block_io \<Rightarrow> EXFAT_CONTEXT \<Rightarrow> bool \<Rightarrow> 'd exfat_state \<Rightarrow> (unit option \<times> 'd exfat_state) option" where
  "set_volume_dirty io c dirty s =
     on_success (for_each (update_boot_sector io c (\<lambda>sector. put_u16 106
         (if dirty then u16_at 106 sector OR 0x0002 else u16_at 106 sector AND 0xFFFD) sector)) [0, 12] s)
       (\<lambda>_ s1. ex_flush io (s1\<lparr>ex_volume_dirty := dirty\<rparr>))"

text \<open>\<open>transaction_release\<close> and \<open>transaction_rollback\<close> go through the journal from its end.\<close>

primrec release_entries :: "EXFAT_JOURNAL_ENTRY list \<Rightarrow> 'd exfat_state \<Rightarrow> 'd exfat_state option" where
  "release_entries [] s = Some s"
| "release_entries (e # entries) s = do { s1 \<leftarrow> ex_free (je_before e) s; release_entries entries s1 }"

definition transaction_release :: "'d exfat_state \<Rightarrow> 'd exfat_state option" where
  "transaction_release s = do {
     s1 \<leftarrow> release_entries (rev (ex_journal s)) s;
     Some (s1\<lparr>ex_journal := [], ex_transaction_active := False\<rparr>) }"

primrec restore_entries ::
  "'d block_io \<Rightarrow> EXFAT_JOURNAL_ENTRY list \<Rightarrow> bool \<Rightarrow> 'd exfat_state \<Rightarrow> (bool \<times> 'd exfat_state) option" where
  "restore_entries io [] ok s = Some (ok, s)"
| "restore_entries io (e # entries) ok s = do {
     (r, s1) \<leftarrow> ex_write io (je_lba e) (je_data e) s;
     s2 \<leftarrow> ex_free (je_before e) s1;
     restore_entries io entries (ok \<and> r \<noteq> None) s2 }"

definition transaction_rollback :: "'d block_io \<Rightarrow> 'd exfat_state \<Rightarrow> (bool \<times> 'd exfat_state) option" where
  "transaction_rollback io s = do {
     (ok, s1) \<leftarrow> restore_entries io (rev (ex_journal s)) True s;
     (r, s2) \<leftarrow> ex_flush io (s1\<lparr>ex_journal := []\<rparr>);
     Some (ok \<and> r \<noteq> None, s2\<lparr>ex_transaction_active := False, ex_volume_dirty := False\<rparr>) }"

definition transaction_begin ::
  "'d block_io \<Rightarrow> EXFAT_CONTEXT \<Rightarrow> 'd exfat_state \<Rightarrow> (unit option \<times> 'd exfat_state) option" where
  "transaction_begin io c s =
     (if ex_transaction_active s then Some (None, s)
      else do {
        (r, s1) \<leftarrow> set_volume_dirty io c True (s\<lparr>ex_transaction_active := True, ex_journal := []\<rparr>);
        case r of
          Some _ \<Rightarrow> Some (Some (), s1)
        | None \<Rightarrow> do { (_, s2) \<leftarrow> transaction_rollback io s1; Some (None, s2) } })"

section \<open>The allocation table and streams\<close>

text \<open>The sector of the table and the offset in it for a cluster.\<close>

definition exfat_fat_sector :: "EXFAT_CONTEXT \<Rightarrow> u32 \<Rightarrow> u64" where
  "exfat_fat_sector c cluster = ucast cluster * 4 div ucast (ex_sector_size c)"

definition fat_offset_in :: "EXFAT_CONTEXT \<Rightarrow> u32 \<Rightarrow> nat" where
  "fat_offset_in c cluster = unat (ucast cluster * 4 mod ucast (ex_sector_size c) :: u64)"

definition read_fat ::
  "'d block_io \<Rightarrow> EXFAT_CONTEXT \<Rightarrow> u32 \<Rightarrow> 'd exfat_state \<Rightarrow> (u32 option \<times> 'd exfat_state) option" where
  "read_fat io c cluster s =
     (if \<not> valid_cluster c cluster \<or> exfat_fat_sector c cluster \<ge> ucast (ex_fat_length c) then Some (None, s)
      else on_success (exfat_read_sector io c (ucast (ex_fat_offset c) + exfat_fat_sector c cluster) s) (\<lambda>sector s1.
        let nxt = u32_at (fat_offset_in c cluster) sector in
        Some (if nxt = EXFAT_BAD_CLUSTER \<or> nxt < EXFAT_EOC \<and> \<not> valid_cluster c nxt then None else Some nxt, s1)))"

definition write_fat ::
  "'d block_io \<Rightarrow> EXFAT_CONTEXT \<Rightarrow> u32 \<Rightarrow> u32 \<Rightarrow> 'd exfat_state \<Rightarrow> (unit option \<times> 'd exfat_state) option" where
  "write_fat io c cluster v s =
     (if \<not> valid_cluster c cluster \<or> exfat_fat_sector c cluster \<ge> ucast (ex_fat_length c) then Some (None, s)
      else let lba = ucast (ex_fat_offset c) + exfat_fat_sector c cluster in
        on_success (exfat_read_sector io c lba s) (\<lambda>sector s1.
          exfat_write_sector io c lba (put_u32 (fat_offset_in c cluster) v sector) s1))"

text \<open>The cluster that is \<open>n\<close> links on.\<close>

primrec chain_from ::
  "'d block_io \<Rightarrow> EXFAT_CONTEXT \<Rightarrow> nat \<Rightarrow> u32 \<Rightarrow> 'd exfat_state \<Rightarrow> (u32 option \<times> 'd exfat_state) option" where
  "chain_from io c 0 current s = Some (Some current, s)"
| "chain_from io c (Suc n) current s =
     on_success (read_fat io c current s) (\<lambda>nxt s1.
       if nxt \<ge> EXFAT_EOC then Some (None, s1) else chain_from io c n nxt s1)"

definition stream_cluster ::
  "'d block_io \<Rightarrow> EXFAT_CONTEXT \<Rightarrow> u32 \<Rightarrow> bool \<Rightarrow> u32 \<Rightarrow> 'd exfat_state \<Rightarrow> (u32 option \<times> 'd exfat_state) option" where
  "stream_cluster io c first_cluster no_fat_chain index s =
     (if \<not> valid_cluster c first_cluster \<or> index \<ge> ex_cluster_count c then Some (None, s)
      else if no_fat_chain then
        Some (if first_cluster - 2 > ex_cluster_count c - 1 - index then None else Some (first_cluster + index), s)
      else chain_from io c (unat index) first_cluster s)"

text \<open>Where a byte of a stream is: the sector and the offset in it.\<close>

definition stream_byte_location ::
  "'d block_io \<Rightarrow> EXFAT_CONTEXT \<Rightarrow> u32 \<Rightarrow> bool \<Rightarrow> u64 \<Rightarrow> 'd exfat_state \<Rightarrow> ((u64 \<times> u32) option \<times> 'd exfat_state) option" where
  "stream_byte_location io c first_cluster no_fat_chain offset s =
     (let inside_cluster = ucast (offset mod ucast (ex_cluster_size c)) :: u32 in
      on_success (stream_cluster io c first_cluster no_fat_chain (ucast (offset div ucast (ex_cluster_size c))) s)
        (\<lambda>cluster s1. Some (Some (cluster_lba c cluster + ucast (inside_cluster div ex_sector_size c),
          inside_cluster mod ex_sector_size c), s1)))"

text \<open>The loop of \<open>read_stream\<close>, whose result are the bytes that could be read.\<close>

lemma stream_progress:
  fixes copied capacity :: u64 and part :: u32
  assumes "copied < capacity" "clip part (capacity - copied) \<noteq> 0"
  shows "unat capacity - unat (copied + ucast (clip part (capacity - copied))) < unat capacity - unat copied"
  using assms by (intro clip_progress) (simp_all add: unat_clip)

function read_stream_from ::
  "'d block_io \<Rightarrow> EXFAT_CONTEXT \<Rightarrow> u32 \<Rightarrow> bool \<Rightarrow> u64 \<Rightarrow> u64 \<Rightarrow> u64 \<Rightarrow> bytes \<Rightarrow> 'd exfat_state \<Rightarrow>
   (bytes \<times> 'd exfat_state) option" where
  "read_stream_from io c first_cluster no_fat_chain offset capacity done_bytes acc s =
     (if done_bytes < capacity then
        let position = offset + done_bytes;
            inside_cluster = ucast (position mod ucast (ex_cluster_size c)) :: u32;
            sector_offset = inside_cluster mod ex_sector_size c;
            part = clip (ex_sector_size c - sector_offset) (capacity - done_bytes)
        in if part = 0 then None
           else do {
             (r, s1) \<leftarrow> on_success (stream_cluster io c first_cluster no_fat_chain
                 (ucast (position div ucast (ex_cluster_size c))) s)
               (\<lambda>cluster s1. exfat_read_sector io c
                 (cluster_lba c cluster + ucast (inside_cluster div ex_sector_size c)) s1);
             case r of
               None \<Rightarrow> Some (acc, s1)
             | Some sector \<Rightarrow> read_stream_from io c first_cluster no_fat_chain offset capacity (done_bytes + ucast part)
                 (acc @ take (unat part) (drop (unat sector_offset) sector)) s1 }
      else Some (acc, s))"
  by pat_completeness auto
termination
  by (relation "measure (\<lambda>(io, c, first_cluster, no_fat_chain, offset, capacity, done_bytes, acc, s).
      unat capacity - unat done_bytes)") (auto intro!: stream_progress)

declare read_stream_from.simps [simp del]

definition read_stream ::
  "'d block_io \<Rightarrow> EXFAT_CONTEXT \<Rightarrow> u32 \<Rightarrow> bool \<Rightarrow> u64 \<Rightarrow> u64 \<Rightarrow> u64 \<Rightarrow> 'd exfat_state \<Rightarrow> (bytes \<times> 'd exfat_state) option" where
  "read_stream io c first_cluster no_fat_chain data_length offset capacity s =
     (if offset \<ge> data_length \<or> capacity = 0 then Some ([], s)
      else read_stream_from io c first_cluster no_fat_chain offset
        (if capacity > data_length - offset then data_length - offset else capacity) 0 [] s)"

text \<open>The loop of \<open>write_stream_metadata\<close>, \<open>n\<close> bytes of \<open>source\<close> in all.\<close>

function write_stream_from ::
  "'d block_io \<Rightarrow> EXFAT_CONTEXT \<Rightarrow> u32 \<Rightarrow> bool \<Rightarrow> u64 \<Rightarrow> bytes \<Rightarrow> u64 \<Rightarrow> u64 \<Rightarrow> 'd exfat_state \<Rightarrow>
   (unit option \<times> 'd exfat_state) option" where
  "write_stream_from io c first_cluster no_fat_chain offset source n done_bytes s =
     (if done_bytes < n then
        on_success (stream_byte_location io c first_cluster no_fat_chain (offset + done_bytes) s) (\<lambda>(lba, inside) s1.
        on_success (exfat_read_sector io c lba s1) (\<lambda>sector s2.
          let part = clip (ex_sector_size c - inside) (n - done_bytes) in
          if part = 0 then None
          else on_success (exfat_write_sector io c lba
              (put_bytes (unat inside) (take (unat part) (drop (unat done_bytes) source)) sector) s2)
            (\<lambda>_ s3. write_stream_from io c first_cluster no_fat_chain offset source n (done_bytes + ucast part) s3)))
      else Some (Some (), s))"
  by pat_completeness auto
termination
  by (relation "measure (\<lambda>(io, c, first_cluster, no_fat_chain, offset, source, n, done_bytes, s). unat n - unat done_bytes)")
     (auto intro!: stream_progress)

declare write_stream_from.simps [simp del]

definition write_stream_metadata ::
  "'d block_io \<Rightarrow> EXFAT_CONTEXT \<Rightarrow> u32 \<Rightarrow> bool \<Rightarrow> u64 \<Rightarrow> bytes \<Rightarrow> 'd exfat_state \<Rightarrow> (unit option \<times> 'd exfat_state) option" where
  "write_stream_metadata io c first_cluster no_fat_chain offset source s =
     write_stream_from io c first_cluster no_fat_chain offset source (of_nat (length source)) 0 s"

text \<open>The two loops of \<open>write_new_clusters\<close> over all sectors of the clusters.\<close>

definition exfat_cluster_sectors :: "EXFAT_CONTEXT \<Rightarrow> u32 \<Rightarrow> u64 list" where
  "exfat_cluster_sectors c cluster = map (\<lambda>i. cluster_lba c cluster + of_nat i) [0 ..< unat (ex_sectors_per_cluster c)]"

primrec write_padded ::
  "'d block_io \<Rightarrow> nat \<Rightarrow> u64 list \<Rightarrow> bytes \<Rightarrow> 'd exfat_state \<Rightarrow> (unit option \<times> 'd exfat_state) option" where
  "write_padded io n [] source s = Some (Some (), s)"
| "write_padded io n (lba # lbas) source s =
     on_success (ex_write io lba (take n source @ replicate (n - length (take n source)) 0) s)
       (\<lambda>_ s1. write_padded io n lbas (drop n source) s1)"

definition write_new_clusters ::
  "'d block_io \<Rightarrow> EXFAT_CONTEXT \<Rightarrow> u32 list \<Rightarrow> bytes \<Rightarrow> 'd exfat_state \<Rightarrow> (unit option \<times> 'd exfat_state) option" where
  "write_new_clusters io c clusters source s =
     on_success (write_padded io (unat (ex_sector_size c)) (concat (map (exfat_cluster_sectors c) clusters)) source s)
       (\<lambda>_ s1. ex_flush io s1)"

section \<open>The bitmap\<close>

definition bitmap_mask :: "u32 \<Rightarrow> u8" where
  "bitmap_mask cluster = push_bit (unat ((cluster - 2) AND 7)) 1"

definition bitmap_byte ::
  "'d block_io \<Rightarrow> EXFAT_CONTEXT \<Rightarrow> u32 \<Rightarrow> 'd exfat_state \<Rightarrow> (u8 option \<times> 'd exfat_state) option" where
  "bitmap_byte io c cluster s =
     (if \<not> valid_cluster c cluster then Some (None, s)
      else do {
        (b, s1) \<leftarrow> read_stream io c (ex_bitmap_first_cluster c) False (ex_bitmap_length c)
          (drop_bit 3 (ucast (cluster - 2))) 1 s;
        Some (case b of [v] \<Rightarrow> Some v | _ \<Rightarrow> None, s1) })"

definition bitmap_bit ::
  "'d block_io \<Rightarrow> EXFAT_CONTEXT \<Rightarrow> u32 \<Rightarrow> 'd exfat_state \<Rightarrow> (bool option \<times> 'd exfat_state) option" where
  "bitmap_bit io c cluster s = on_success (bitmap_byte io c cluster s)
     (\<lambda>v s1. Some (Some (v AND bitmap_mask cluster \<noteq> 0), s1))"

definition set_bitmap_bit ::
  "'d block_io \<Rightarrow> EXFAT_CONTEXT \<Rightarrow> u32 \<Rightarrow> bool \<Rightarrow> 'd exfat_state \<Rightarrow> (unit option \<times> 'd exfat_state) option" where
  "set_bitmap_bit io c cluster allocated s = on_success (bitmap_byte io c cluster s)
     (\<lambda>v s1. write_stream_metadata io c (ex_bitmap_first_cluster c) False (drop_bit 3 (ucast (cluster - 2)))
       [if allocated then v OR bitmap_mask cluster else v AND NOT (bitmap_mask cluster)] s1)"

text \<open>The numbers of all clusters of the volume.\<close>

definition all_clusters :: "EXFAT_CONTEXT \<Rightarrow> u32 list" where
  "all_clusters c = map (\<lambda>i. of_nat i + 2) [0 ..< unat (ex_cluster_count c)]"

text \<open>The first loop of \<open>allocate_clusters\<close>.\<close>

primrec find_free_clusters :: "'d block_io \<Rightarrow> EXFAT_CONTEXT \<Rightarrow> nat \<Rightarrow> u32 list \<Rightarrow> u32 list \<Rightarrow> 'd exfat_state \<Rightarrow>
    (u32 list option \<times> 'd exfat_state) option" where
  "find_free_clusters io c n [] clusters s = Some (Some clusters, s)"
| "find_free_clusters io c n (cluster # rest) clusters s =
     (if length clusters < n then
        on_success (bitmap_bit io c cluster s) (\<lambda>allocated s1.
          find_free_clusters io c n rest (if allocated then clusters else clusters @ [cluster]) s1)
      else Some (Some clusters, s))"

definition allocate_clusters ::
  "'d block_io \<Rightarrow> EXFAT_CONTEXT \<Rightarrow> u32 \<Rightarrow> 'd exfat_state \<Rightarrow> (u32 list option \<times> 'd exfat_state) option" where
  "allocate_clusters io c n s =
     (if n = 0 then Some (Some [], s)
      else on_success (find_free_clusters io c (unat n) (all_clusters c) [] s) (\<lambda>clusters s1.
        if length clusters \<noteq> unat n then Some (None, s1)
        else on_success (for_each (\<lambda>i s. on_success (set_bitmap_bit io c (clusters ! i) True s)
            (\<lambda>_ s1. write_fat io c (clusters ! i) (if i + 1 < unat n then clusters ! (i + 1) else 0xFFFFFFFF) s1))
            [0 ..< unat n] s1)
          (\<lambda>_ s2. Some (Some clusters, s2))))"

text \<open>The length of a chain: the loops of \<open>collect_clusters\<close> and \<open>directory_length\<close>.\<close>

primrec chain_length ::
  "'d block_io \<Rightarrow> EXFAT_CONTEXT \<Rightarrow> nat \<Rightarrow> u32 \<Rightarrow> u32 \<Rightarrow> 'd exfat_state \<Rightarrow> (u32 \<times> 'd exfat_state) option" where
  "chain_length io c 0 current n s = Some (n, s)"
| "chain_length io c (Suc left) current n s =
     (if valid_cluster c current then do {
        (r, s1) \<leftarrow> read_fat io c current s;
        case r of
          None \<Rightarrow> Some (n + 1, s1)
        | Some nxt \<Rightarrow> if nxt \<ge> EXFAT_EOC then Some (n + 1, s1) else chain_length io c left nxt (n + 1) s1 }
      else Some (n, s))"

text \<open>The first loop of \<open>collect_clusters\<close>, over the clusters of the node.\<close>

primrec collect_from :: "'d block_io \<Rightarrow> EXFAT_CONTEXT \<Rightarrow> EXFAT_NODE \<Rightarrow> nat list \<Rightarrow> u32 list \<Rightarrow> 'd exfat_state \<Rightarrow>
    (u32 list option \<times> 'd exfat_state) option" where
  "collect_from io c node [] clusters s = Some (Some clusters, s)"
| "collect_from io c node (index # rest) clusters s =
     on_success (stream_cluster io c (en_first_cluster node) (en_no_fat_chain node) (of_nat index) s)
       (\<lambda>cluster s1. collect_from io c node rest (clusters @ [cluster]) s1)"

text \<open>The result is the address of the array and what it holds.\<close>

definition collect_clusters ::
  "'d block_io \<Rightarrow> EXFAT_CONTEXT \<Rightarrow> EXFAT_NODE \<Rightarrow> 'd exfat_state \<Rightarrow> ((u64 \<times> u32 list) option \<times> 'd exfat_state) option" where
  "collect_clusters io c node s = do {
     (n, s1) \<leftarrow> (if en_data_length node = 0
       then chain_length io c (unat (ex_cluster_count c)) (en_first_cluster node) 0 s
       else Some (ucast ((en_data_length node + ucast (ex_cluster_size c) - 1) div ucast (ex_cluster_size c)), s));
     (p, s2) \<leftarrow> ex_alloc (ucast n * 4) s1;
     if p = 0 then Some (None, s2)
     else do {
       (r, s3) \<leftarrow> collect_from io c node [0 ..< unat n] [] s2;
       case r of
         None \<Rightarrow> do { s4 \<leftarrow> ex_free p s3; Some (None, s4) }
       | Some clusters \<Rightarrow> Some (Some (p, clusters), s3) } }"

definition exfat_free_clusters ::
  "'d block_io \<Rightarrow> EXFAT_CONTEXT \<Rightarrow> u32 list \<Rightarrow> 'd exfat_state \<Rightarrow> (unit option \<times> 'd exfat_state) option" where
  "exfat_free_clusters io c clusters s =
     for_each (\<lambda>cluster s. on_success (set_bitmap_bit io c cluster False s) (\<lambda>_ s1. write_fat io c cluster 0 s1)) clusters s"

section \<open>The end of a transaction\<close>

primrec count_allocated ::
  "'d block_io \<Rightarrow> EXFAT_CONTEXT \<Rightarrow> u32 list \<Rightarrow> u64 \<Rightarrow> 'd exfat_state \<Rightarrow> (u64 option \<times> 'd exfat_state) option" where
  "count_allocated io c [] allocated s = Some (Some allocated, s)"
| "count_allocated io c (cluster # rest) allocated s =
     on_success (bitmap_bit io c cluster s) (\<lambda>used s1. count_allocated io c rest (if used then allocated + 1 else allocated) s1)"

definition update_percent_in_use ::
  "'d block_io \<Rightarrow> EXFAT_CONTEXT \<Rightarrow> 'd exfat_state \<Rightarrow> (unit option \<times> 'd exfat_state) option" where
  "update_percent_in_use io c s =
     on_success (count_allocated io c (all_clusters c) 0 s) (\<lambda>allocated s1.
       let percent = ucast ((allocated * 100 + ucast (ex_cluster_count c) - 1) div ucast (ex_cluster_count c)) :: u8 in
       for_each (update_boot_sector io c (\<lambda>sector. sector[112 := percent])) [0, 12] s1)"

definition transaction_commit ::
  "'d block_io \<Rightarrow> EXFAT_CONTEXT \<Rightarrow> 'd exfat_state \<Rightarrow> (unit option \<times> 'd exfat_state) option" where
  "transaction_commit io c s = do {
     (r, s1) \<leftarrow> on_success (ex_flush io s) (\<lambda>_ s1. on_success (update_percent_in_use io c s1) (\<lambda>_ s2.
       on_success (set_volume_dirty io c False s2) (\<lambda>_ s3. ex_flush io s3)));
     case r of
       None \<Rightarrow> do { (_, s2) \<leftarrow> transaction_rollback io s1; Some (None, s2) }
     | Some _ \<Rightarrow> do { s2 \<leftarrow> transaction_release s1; Some (Some (), s2) } }"

text \<open>The frame that the operations share: begin, a body that is rolled back when it fails, and commit.\<close>

definition exfat_transaction :: "'d block_io \<Rightarrow> EXFAT_CONTEXT \<Rightarrow> ('d exfat_state \<Rightarrow> ('r option \<times> 'd exfat_state) option) \<Rightarrow>
    'd exfat_state \<Rightarrow> ('r option \<times> 'd exfat_state) option" where
  "exfat_transaction io c body s =
     on_success (transaction_begin io c s) (\<lambda>_ s1. do {
       (r, s2) \<leftarrow> body s1;
       case r of
         None \<Rightarrow> do { (_, s3) \<leftarrow> transaction_rollback io s2; Some (None, s3) }
       | Some x \<Rightarrow> on_success (transaction_commit io c s2) (\<lambda>_ s3. Some (Some x, s3)) })"

end
