(* ===== verification/Exfat.thy ===== *)
theory Exfat
  imports Exfat_Volume
begin

text \<open>
  \<^verbatim>\<open>src/kernel/exfat.c\<close>, names and directories: walking a directory, finding a path, and making, changing and
  retiring the entries of a file.  A path is the list of
  its bytes, without the terminating NUL.  A visitor of \<open>visit_directory\<close> is a function from a node and what has been
  collected to whether to go on and what is collected then.
\<close>

definition EXFAT_ENTRY_FILE :: u8 where "EXFAT_ENTRY_FILE = 0x85"
definition EXFAT_ENTRY_STREAM :: u8 where "EXFAT_ENTRY_STREAM = 0xC0"
definition EXFAT_ENTRY_NAME :: u8 where "EXFAT_ENTRY_NAME = 0xC1"
definition EXFAT_ENTRY_UPCASE :: u8 where "EXFAT_ENTRY_UPCASE = 0x82"
definition EXFAT_ENTRY_BITMAP :: u8 where "EXFAT_ENTRY_BITMAP = 0x81"
definition EXFAT_ATTR_DIRECTORY :: u16 where "EXFAT_ATTR_DIRECTORY = 0x10"
definition EXFAT_STREAM_NO_FAT_CHAIN :: u8 where "EXFAT_STREAM_NO_FAT_CHAIN = 0x02"

record EXFAT_FILE_INFO =
  exi_name :: bytes
  exi_size :: u64
  exi_is_directory :: bool
  exi_read_only :: bool

section \<open>Names\<close>

definition upcase_character :: "EXFAT_CONTEXT \<Rightarrow> u16 \<Rightarrow> u16" where
  "upcase_character c character =
     (case ex_upcase c of
        Some table \<Rightarrow> table ! unat character
      | None \<Rightarrow> if 0x61 \<le> character \<and> character \<le> 0x7A then character - 32 else character)"

definition names_equal :: "EXFAT_CONTEXT \<Rightarrow> u16 list \<Rightarrow> u16 list \<Rightarrow> bool" where
  "names_equal c left right \<longleftrightarrow> length left = length right
     \<and> list_all2 (\<lambda>l r. upcase_character c l = upcase_character c r) left right"

text \<open>One character in UTF-8 at the start of a string: its code and the rest.\<close>

definition continuation :: "u8 \<Rightarrow> bool" where
  "continuation b \<longleftrightarrow> b AND 0xC0 = 0x80"

fun utf8_character :: "bytes \<Rightarrow> (u32 \<times> bytes) option" where
  "utf8_character [] = None"
| "utf8_character (b0 # rest) =
     (if b0 < 0x80 then Some (ucast b0, rest)
      else if b0 AND 0xE0 = 0xC0 \<and> rest \<noteq> [] \<and> continuation (rest ! 0) then
        (let code = push_bit 6 (ucast (b0 AND 0x1F)) OR ucast (rest ! 0 AND 0x3F) in
         if code < 0x80 then None else Some (code, drop 1 rest))
      else if b0 AND 0xF0 = 0xE0 \<and> length rest \<ge> 2 \<and> continuation (rest ! 0) \<and> continuation (rest ! 1) then
        (let code = push_bit 12 (ucast (b0 AND 0x0F)) OR push_bit 6 (ucast (rest ! 0 AND 0x3F))
           OR ucast (rest ! 1 AND 0x3F) in
         if code < 0x800 \<or> 0xD800 \<le> code \<and> code \<le> 0xDFFF then None else Some (code, drop 2 rest))
      else None)"

lemma utf8_character_shorter: "utf8_character source = Some (code, rest) \<Longrightarrow> length rest < length source"
  by (cases source) (auto simp: Let_def split: if_splits)

text \<open>The second loop of \<open>utf8_component\<close>.\<close>

function utf8_from :: "bytes \<Rightarrow> u16 list \<Rightarrow> (u16 list \<times> bytes) option" where
  "utf8_from source name =
     (if source = [] \<or> hd source = 0x2F then Some (name, source)
      else case utf8_character source of
        None \<Rightarrow> None
      | Some (code, rest) \<Rightarrow>
          if code > 0xFFFF \<or> length name \<ge> 255 then None else utf8_from rest (name @ [ucast code]))"
  by pat_completeness auto
termination by (relation "measure (\<lambda>(source, name). length source)") (auto dest: utf8_character_shorter)

declare utf8_from.simps [simp del]

text \<open>The first name of a path, if it is not empty, and the rest of the path.\<close>

definition utf8_component :: "bytes \<Rightarrow> (u16 list \<times> bytes) option" where
  "utf8_component path =
     (case utf8_from (dropWhile (\<lambda>b. b = 0x2F) path) [] of
        Some (name, rest) \<Rightarrow> if name \<noteq> [] then Some (name, rest) else None
      | None \<Rightarrow> None)"

lemma utf8_from_shorter:
  "utf8_from source name = Some (name', rest) \<Longrightarrow> length rest \<le> length source
    \<and> (length rest = length source \<longrightarrow> name' = name)"
proof (induction source name rule: utf8_from.induct)
  case (1 source name)
  show ?case
  proof (cases "source = [] \<or> hd source = 0x2F")
    case True
    then show ?thesis using "1.prems" by (simp add: utf8_from.simps [of source])
  next
    case False
    then obtain code rest1 where r: "utf8_character source = Some (code, rest1)"
      "\<not> (code > 0xFFFF \<or> length name \<ge> 255)" "utf8_from rest1 (name @ [ucast code]) = Some (name', rest)"
      using "1.prems" by (auto simp: utf8_from.simps [of source] split: option.splits if_splits)
    then show ?thesis
      using "1.IH" [OF False r(1) refl r(2,3)] utf8_character_shorter [OF r(1)] by simp
  qed
qed

lemma utf8_component_shorter:
  assumes "utf8_component path = Some (name, rest)"
  shows "length rest < length path"
proof -
  have "utf8_from (dropWhile (\<lambda>b. b = 0x2F) path) [] = Some (name, rest)" "name \<noteq> []"
    using assms by (auto simp: utf8_component_def split: option.splits if_splits)
  then have "length rest < length (dropWhile (\<lambda>b. b = 0x2F) path)" using utf8_from_shorter by fastforce
  then show ?thesis using length_dropWhile_le [of "\<lambda>b. b = 0x2F" path] by linarith
qed

text \<open>\<open>exfat_utf16_to_utf8\<close>: the bytes, without the terminating NUL, for which there is room.\<close>

definition exfat_utf8_encode :: "u32 \<Rightarrow> bytes" where
  "exfat_utf8_encode code =
     (if code < 0x80 then [ucast code]
      else if code < 0x800 then [ucast (0xC0 OR drop_bit 6 code), ucast (0x80 OR code AND 0x3F)]
      else if code < 0x10000
      then [ucast (0xE0 OR drop_bit 12 code), ucast (0x80 OR drop_bit 6 code AND 0x3F), ucast (0x80 OR code AND 0x3F)]
      else [ucast (0xF0 OR drop_bit 18 code), ucast (0x80 OR drop_bit 12 code AND 0x3F),
        ucast (0x80 OR drop_bit 6 code AND 0x3F), ucast (0x80 OR code AND 0x3F)])"

fun utf16_from :: "u16 list \<Rightarrow> nat \<Rightarrow> bytes \<Rightarrow> bytes option" where
  "utf16_from [] capacity out = Some out"
| "utf16_from (high # source) capacity out =
     (if 0xD800 \<le> high \<and> high \<le> 0xDBFF \<and> source \<noteq> [] \<and> 0xDC00 \<le> hd source \<and> hd source \<le> 0xDFFF then
        (let b = exfat_utf8_encode (0x10000 + push_bit 10 (ucast high - 0xD800) + (ucast (hd source) - 0xDC00)) in
         if length out + length b \<ge> capacity then None else utf16_from (tl source) capacity (out @ b))
      else if 0xD800 \<le> high \<and> high \<le> 0xDFFF then None
      else (let b = exfat_utf8_encode (ucast high) in
        if length out + length b \<ge> capacity then None else utf16_from source capacity (out @ b)))"

definition exfat_utf16_to_utf8 :: "u16 list \<Rightarrow> nat \<Rightarrow> bytes option" where
  "exfat_utf16_to_utf8 source capacity = utf16_from source capacity []"

definition name_hash :: "EXFAT_CONTEXT \<Rightarrow> u16 list \<Rightarrow> u16" where
  "name_hash c name = fold (\<lambda>character hash.
     let v = upcase_character c character;
         h = (push_bit 15 hash OR drop_bit 1 hash) + (v AND 0xFF)
     in (push_bit 15 h OR drop_bit 1 h) + drop_bit 8 v) name 0"

section \<open>Directories\<close>

text \<open>The node that a complete set of entries describes.\<close>

definition entry_at :: "bytes \<Rightarrow> nat \<Rightarrow> bytes" where
  "entry_at entries i = take 32 (drop (32 * i) entries)"

definition name_characters :: "bytes \<Rightarrow> u16 list" where
  "name_characters entry = map (\<lambda>i. u16_at (2 + 2 * i) entry) [0 ..< 15]"

definition set_name :: "bytes \<Rightarrow> nat \<Rightarrow> nat \<Rightarrow> u16 list" where
  "set_name entries n name_length = take name_length (concat (map name_characters
     (filter (\<lambda>entry. entry ! 0 = EXFAT_ENTRY_NAME) (map (entry_at entries) [2 ..< n]))))"

definition set_node :: "EXFAT_CONTEXT \<Rightarrow> EXFAT_NODE \<Rightarrow> u64 \<Rightarrow> bytes \<Rightarrow> nat \<Rightarrow> EXFAT_NODE option" where
  "set_node c directory processed entries n =
     (let stream = entry_at entries 1; name_length = unat (stream ! 3); name = set_name entries n name_length in
      if stream ! 0 \<noteq> EXFAT_ENTRY_STREAM \<or> entry_set_checksum entries n \<noteq> u16_at 2 entries
        \<or> name_length = 0 \<or> u64_at 8 stream > u64_at 24 stream
        \<or> u64_at 24 stream \<noteq> 0 \<and> \<not> valid_cluster c (u32_at 20 stream)
        \<or> length name \<noteq> name_length then None
      else Some \<lparr>en_first_cluster = u32_at 20 stream, en_valid_data_length = u64_at 8 stream,
        en_data_length = u64_at 24 stream, en_attributes = u16_at 4 entries,
        en_no_fat_chain = (stream ! 1 AND EXFAT_STREAM_NO_FAT_CHAIN \<noteq> 0), en_name = name,
        en_parent_first_cluster = en_first_cluster directory, en_entry_offset = processed - of_nat n * 32,
        en_entry_count = n, en_parent_no_fat_chain = en_no_fat_chain directory,
        en_parent_data_length = en_data_length directory\<rparr>)"

text \<open>What is between two entries: the entries of the set so far, how many it has, and the position.\<close>

record 'a visit_state =
  vs_set :: bytes
  vs_expected :: nat
  vs_processed :: u64
  vs_found :: 'a

datatype 'a visit_end = Visit_return 'a | Visit_on "'a visit_state"

definition visit_entry :: "EXFAT_CONTEXT \<Rightarrow> EXFAT_NODE \<Rightarrow> (EXFAT_NODE \<Rightarrow> 'a \<Rightarrow> bool \<times> 'a) \<Rightarrow> bytes \<Rightarrow> 'a visit_state \<Rightarrow>
    'a visit_end" where
  "visit_entry c directory visitor entry vs =
     (if en_data_length directory \<noteq> 0 \<and> vs_processed vs \<ge> en_data_length directory then Visit_return (vs_found vs)
      else let vs1 = vs\<lparr>vs_processed := vs_processed vs + 32\<rparr> in
        if entry ! 0 = 0 then Visit_return (vs_found vs)
        else if vs_expected vs = 0 then
          (let n = unat (entry ! 1) + 1 in
           if entry ! 0 \<noteq> EXFAT_ENTRY_FILE \<or> n < 3 \<or> n > 19 then Visit_on vs1
           else Visit_on (vs1\<lparr>vs_set := entry, vs_expected := n\<rparr>))
        else
          (let entries = vs_set vs @ entry in
           if length entries = 32 * vs_expected vs then
             (case set_node c directory (vs_processed vs1) entries (vs_expected vs) of
                None \<Rightarrow> Visit_on (vs1\<lparr>vs_set := [], vs_expected := 0\<rparr>)
              | Some node \<Rightarrow> (case visitor node (vs_found vs) of
                    (False, found) \<Rightarrow> Visit_return found
                  | (True, found) \<Rightarrow> Visit_on (vs1\<lparr>vs_set := [], vs_expected := 0, vs_found := found\<rparr>)))
           else Visit_on (vs1\<lparr>vs_set := entries\<rparr>)))"

primrec visit_entries :: "EXFAT_CONTEXT \<Rightarrow> EXFAT_NODE \<Rightarrow> (EXFAT_NODE \<Rightarrow> 'a \<Rightarrow> bool \<times> 'a) \<Rightarrow> bytes list \<Rightarrow> 'a visit_state \<Rightarrow>
    'a visit_end" where
  "visit_entries c directory visitor [] vs = Visit_on vs"
| "visit_entries c directory visitor (entry # entries) vs =
     (case visit_entry c directory visitor entry vs of
        Visit_return found \<Rightarrow> Visit_return found
      | Visit_on vs1 \<Rightarrow> visit_entries c directory visitor entries vs1)"

definition sector_entries :: "EXFAT_CONTEXT \<Rightarrow> bytes \<Rightarrow> bytes list" where
  "sector_entries c sector = map (entry_at sector) [0 ..< (unat (ex_sector_size c) + 31) div 32]"

primrec visit_sectors :: "'d block_io \<Rightarrow> EXFAT_CONTEXT \<Rightarrow> EXFAT_NODE \<Rightarrow> (EXFAT_NODE \<Rightarrow> 'a \<Rightarrow> bool \<times> 'a) \<Rightarrow>
    u64 list \<Rightarrow> 'a visit_state \<Rightarrow> 'd exfat_state \<Rightarrow> ('a visit_end option \<times> 'd exfat_state) option" where
  "visit_sectors io c directory visitor [] vs s = Some (Some (Visit_on vs), s)"
| "visit_sectors io c directory visitor (lba # lbas) vs s =
     on_success (exfat_read_sector io c lba s) (\<lambda>sector s1.
       case visit_entries c directory visitor (sector_entries c sector) vs of
         Visit_return found \<Rightarrow> Some (Some (Visit_return found), s1)
       | Visit_on vs1 \<Rightarrow> visit_sectors io c directory visitor lbas vs1 s1)"

definition visit_result :: "EXFAT_NODE \<Rightarrow> 'a visit_state \<Rightarrow> 'a option" where
  "visit_result directory vs = (if en_data_length directory = 0 then None
     else if vs_processed vs \<ge> en_data_length directory then Some (vs_found vs) else None)"

primrec visit_clusters :: "'d block_io \<Rightarrow> EXFAT_CONTEXT \<Rightarrow> EXFAT_NODE \<Rightarrow> (EXFAT_NODE \<Rightarrow> 'a \<Rightarrow> bool \<times> 'a) \<Rightarrow>
    nat list \<Rightarrow> 'a visit_state \<Rightarrow> 'd exfat_state \<Rightarrow> ('a option \<times> 'd exfat_state) option" where
  "visit_clusters io c directory visitor [] vs s = Some (visit_result directory vs, s)"
| "visit_clusters io c directory visitor (index # rest) vs s = do {
     (r, s1) \<leftarrow> stream_cluster io c (en_first_cluster directory) (en_no_fat_chain directory) (of_nat index) s;
     case r of
       None \<Rightarrow> Some (visit_result directory vs, s1)
     | Some cluster \<Rightarrow>
         on_success (visit_sectors io c directory visitor (exfat_cluster_sectors c cluster) vs s1) (\<lambda>e s2.
           case e of
             Visit_return found \<Rightarrow> Some (Some found, s2)
           | Visit_on vs1 \<Rightarrow>
               if \<not> en_no_fat_chain directory then do {
                 (nxt, s3) \<leftarrow> read_fat io c cluster s2;
                 case nxt of
                   None \<Rightarrow> Some (Some (vs_found vs1), s3)
                 | Some n \<Rightarrow> if n \<ge> EXFAT_EOC then Some (Some (vs_found vs1), s3)
                     else visit_clusters io c directory visitor rest vs1 s3 }
               else if en_data_length directory = 0 then Some (None, s2)
               else visit_clusters io c directory visitor rest vs1 s2) }"

definition visit_directory :: "'d block_io \<Rightarrow> EXFAT_CONTEXT \<Rightarrow> EXFAT_NODE \<Rightarrow> (EXFAT_NODE \<Rightarrow> 'a \<Rightarrow> bool \<times> 'a) \<Rightarrow> 'a \<Rightarrow>
    'd exfat_state \<Rightarrow> ('a option \<times> 'd exfat_state) option" where
  "visit_directory io c directory visitor found s =
     visit_clusters io c directory visitor [0 ..< unat (ex_cluster_count c)]
       \<lparr>vs_set = [], vs_expected = 0, vs_processed = 0, vs_found = found\<rparr> s"

definition find_visitor :: "EXFAT_CONTEXT \<Rightarrow> u16 list \<Rightarrow> EXFAT_NODE \<Rightarrow> EXFAT_NODE option \<Rightarrow> bool \<times> EXFAT_NODE option" where
  "find_visitor c name node found = (if names_equal c name (en_name node) then (False, Some node) else (True, found))"

text \<open>The root directory has no entry; its length is not known.\<close>

definition root_node :: "EXFAT_CONTEXT \<Rightarrow> EXFAT_NODE" where
  "root_node c = \<lparr>en_first_cluster = ex_root_cluster c, en_valid_data_length = 0, en_data_length = 0,
     en_attributes = EXFAT_ATTR_DIRECTORY, en_no_fat_chain = False, en_name = [], en_parent_first_cluster = 0,
     en_entry_offset = 0, en_entry_count = 0, en_parent_no_fat_chain = False, en_parent_data_length = 0\<rparr>"

definition is_directory_node :: "EXFAT_NODE \<Rightarrow> bool" where
  "is_directory_node node \<longleftrightarrow> en_attributes node AND EXFAT_ATTR_DIRECTORY \<noteq> 0"

definition skip_slashes :: "bytes \<Rightarrow> bytes" where
  "skip_slashes path = dropWhile (\<lambda>b. b = 0x2F) path"

lemma length_skip_slashes: "length (skip_slashes path) \<le> length path"
  by (simp add: skip_slashes_def length_dropWhile_le)

function exfat_resolve_from ::
  "'d block_io \<Rightarrow> EXFAT_CONTEXT \<Rightarrow> bytes \<Rightarrow> EXFAT_NODE \<Rightarrow> 'd exfat_state \<Rightarrow> (EXFAT_NODE option \<times> 'd exfat_state) option" where
  "exfat_resolve_from io c path current s =
     (if path = [] then Some (Some current, s)
      else if \<not> is_directory_node current then Some (None, s)
      else case utf8_component path of
        None \<Rightarrow> Some (None, s)
      | Some (component, rest) \<Rightarrow>
          on_success (visit_directory io c current (find_visitor c component) None s) (\<lambda>found s1.
            case found of
              None \<Rightarrow> Some (None, s1)
            | Some node \<Rightarrow> exfat_resolve_from io c (skip_slashes rest) node s1))"
  by pat_completeness auto
termination
  by (relation "measure (\<lambda>(io, c, path, current, s). length path)")
     (auto intro: order_le_less_trans [OF length_skip_slashes] utf8_component_shorter)

declare exfat_resolve_from.simps [simp del]

definition exfat_resolve_path ::
  "'d block_io \<Rightarrow> EXFAT_CONTEXT \<Rightarrow> bytes \<Rightarrow> 'd exfat_state \<Rightarrow> (EXFAT_NODE option \<times> 'd exfat_state) option" where
  "exfat_resolve_path io c path s = exfat_resolve_from io c (skip_slashes path) (root_node c) s"

definition directory_length ::
  "'d block_io \<Rightarrow> EXFAT_CONTEXT \<Rightarrow> EXFAT_NODE \<Rightarrow> 'd exfat_state \<Rightarrow> (u64 \<times> 'd exfat_state) option" where
  "directory_length io c directory s =
     (if en_data_length directory \<noteq> 0 then Some (en_data_length directory, s)
      else do {
        (n, s1) \<leftarrow> chain_length io c (unat (ex_cluster_count c)) (en_first_cluster directory) 0 s;
        Some (ucast n * ucast (ex_cluster_size c), s1) })"

definition read_directory_bytes :: "'d block_io \<Rightarrow> EXFAT_CONTEXT \<Rightarrow> EXFAT_NODE \<Rightarrow> u64 \<Rightarrow> nat \<Rightarrow> 'd exfat_state \<Rightarrow>
    (bytes option \<times> 'd exfat_state) option" where
  "read_directory_bytes io c directory offset n s = do {
     (len, s1) \<leftarrow> directory_length io c directory s;
     (b, s2) \<leftarrow> read_stream io c (en_first_cluster directory) (en_no_fat_chain directory) len offset (of_nat n) s1;
     Some (if length b = n then Some b else None, s2) }"

definition write_directory_bytes :: "'d block_io \<Rightarrow> EXFAT_CONTEXT \<Rightarrow> EXFAT_NODE \<Rightarrow> u64 \<Rightarrow> bytes \<Rightarrow> 'd exfat_state \<Rightarrow>
    (unit option \<times> 'd exfat_state) option" where
  "write_directory_bytes io c directory offset data s = do {
     (len, s1) \<leftarrow> directory_length io c directory s;
     if offset + of_nat (length data) \<le> len
     then write_stream_metadata io c (en_first_cluster directory) (en_no_fat_chain directory) offset data s1
     else Some (None, s1) }"

text \<open>The directory of a node, as far as it is used.\<close>

definition parent_node :: "EXFAT_NODE \<Rightarrow> EXFAT_NODE" where
  "parent_node node = \<lparr>en_first_cluster = en_parent_first_cluster node, en_valid_data_length = 0,
     en_data_length = en_parent_data_length node, en_attributes = 0, en_no_fat_chain = en_parent_no_fat_chain node,
     en_name = [], en_parent_first_cluster = 0, en_entry_offset = 0, en_entry_count = 0,
     en_parent_no_fat_chain = False, en_parent_data_length = 0\<rparr>"

definition read_node_set ::
  "'d block_io \<Rightarrow> EXFAT_CONTEXT \<Rightarrow> EXFAT_NODE \<Rightarrow> 'd exfat_state \<Rightarrow> (bytes option \<times> 'd exfat_state) option" where
  "read_node_set io c node s =
     (if en_entry_count node \<ge> 3 \<and> en_entry_count node \<le> 19
      then read_directory_bytes io c (parent_node node) (en_entry_offset node) (en_entry_count node * 32) s
      else Some (None, s))"

definition write_node_set ::
  "'d block_io \<Rightarrow> EXFAT_CONTEXT \<Rightarrow> EXFAT_NODE \<Rightarrow> bytes \<Rightarrow> 'd exfat_state \<Rightarrow> (unit option \<times> 'd exfat_state) option" where
  "write_node_set io c node entries s =
     write_directory_bytes io c (parent_node node) (en_entry_offset node) (take (en_entry_count node * 32) entries) s"

definition no_fat_chain_flag :: "bool \<Rightarrow> u8" where
  "no_fat_chain_flag no_fat_chain = (if no_fat_chain then EXFAT_STREAM_NO_FAT_CHAIN else 0)"

definition update_stream_entry :: "bytes \<Rightarrow> nat \<Rightarrow> u32 \<Rightarrow> u64 \<Rightarrow> u64 \<Rightarrow> bool \<Rightarrow> bytes" where
  "update_stream_entry entries n first_cluster data_length valid_length no_fat_chain =
     (let e = put_u64 56 data_length (put_u32 52 first_cluster (put_u64 40 valid_length
        (entries[33 := no_fat_chain_flag no_fat_chain])))
      in put_u16 2 (entry_set_checksum e n) e)"

definition update_node_stream :: "'d block_io \<Rightarrow> EXFAT_CONTEXT \<Rightarrow> EXFAT_NODE \<Rightarrow> u32 \<Rightarrow> u64 \<Rightarrow> u64 \<Rightarrow> bool \<Rightarrow> 'd exfat_state \<Rightarrow>
    (unit option \<times> 'd exfat_state) option" where
  "update_node_stream io c node first_cluster data_length valid_length no_fat_chain s =
     on_success (read_node_set io c node s) (\<lambda>entries s1.
       if entries ! 32 \<noteq> EXFAT_ENTRY_STREAM then Some (None, s1)
       else write_node_set io c node
         (update_stream_entry entries (en_entry_count node) first_cluster data_length valid_length no_fat_chain) s1)"

text \<open>The parent path and the name; both ends of the loop over the path are the position of its last slash, or 0.\<close>

definition bad_character :: "u16 \<Rightarrow> bool" where
  "bad_character character \<longleftrightarrow> character < 0x20 \<or> character \<in> {0x22, 0x2A, 0x2F, 0x3A, 0x3C, 0x3E, 0x3F, 0x5C, 0x7C}"

definition last_slash :: "bytes \<Rightarrow> nat" where
  "last_slash path = fold (\<lambda>i slash. if path ! i = 0x2F then i else slash) [0 ..< length path] 0"

definition split_parent_path :: "bytes \<Rightarrow> (bytes \<times> u16 list) option" where
  "split_parent_path path =
     (let len = length path; slash = last_slash path in
      if len = 0 \<or> len \<ge> 512 \<or> slash + 1 \<ge> len then None
      else let parent = (if slash = 0 then [0x2F] else take slash path) in
        case utf8_component (drop (slash + 1) path) of
          None \<Rightarrow> None
        | Some (leaf, rest) \<Rightarrow>
            if rest \<noteq> [] \<or> leaf = [0x2E] \<or> leaf = [0x2E, 0x2E] \<or> list_ex bad_character leaf then None
            else Some (parent, leaf))"

definition name_entry :: "u16 list \<Rightarrow> nat \<Rightarrow> bytes" where
  "name_entry name index = [EXFAT_ENTRY_NAME, 0] @ concat (map (\<lambda>i. le_bytes 2
     (unat (if index * 15 + i < length name then name ! (index * 15 + i) else 0))) [0 ..< 15])"

text \<open>The entries of a new file, before the checksum is stored.\<close>

definition raw_entry_set :: "EXFAT_CONTEXT \<Rightarrow> u16 list \<Rightarrow> u16 \<Rightarrow> u32 \<Rightarrow> u64 \<Rightarrow> u64 \<Rightarrow> bool \<Rightarrow> bytes" where
  "raw_entry_set c name attributes first_cluster data_length valid_length no_fat_chain =
     (let name_entries = (length name + 14) div 15 in
      [EXFAT_ENTRY_FILE, of_nat (name_entries + 1), 0, 0] @ le_bytes 2 (unat attributes) @ replicate 26 0
      @ [EXFAT_ENTRY_STREAM, no_fat_chain_flag no_fat_chain, 0, of_nat (length name)]
      @ le_bytes 2 (unat (name_hash c name)) @ replicate 2 0 @ le_bytes 8 (unat valid_length) @ replicate 4 0
      @ le_bytes 4 (unat first_cluster) @ le_bytes 8 (unat data_length)
      @ concat (map (name_entry name) [0 ..< name_entries]))"

definition build_entry_set :: "EXFAT_CONTEXT \<Rightarrow> u16 list \<Rightarrow> u16 \<Rightarrow> u32 \<Rightarrow> u64 \<Rightarrow> u64 \<Rightarrow> bool \<Rightarrow> bytes option" where
  "build_entry_set c name attributes first_cluster data_length valid_length no_fat_chain =
     (if length name = 0 \<or> length name > 255 then None
      else let e = raw_entry_set c name attributes first_cluster data_length valid_length no_fat_chain
        in Some (put_u16 2 (entry_set_checksum e (length e div 32)) e))"

section \<open>New entries\<close>

definition pairs :: "u32 list \<Rightarrow> (u32 \<times> u32) list" where
  "pairs clusters = zip clusters (tl clusters)"

definition extend_with ::
  "'d block_io \<Rightarrow> EXFAT_CONTEXT \<Rightarrow> EXFAT_NODE \<Rightarrow> u32 list \<Rightarrow> 'd exfat_state \<Rightarrow> (EXFAT_NODE option \<times> 'd exfat_state) option" where
  "extend_with io c directory old_clusters s =
     (if old_clusters = [] then Some (None, s)
      else on_success (allocate_clusters io c 1 s) (\<lambda>clusters s1.
        let new_cluster = clusters ! 0;
            d = directory\<lparr>en_no_fat_chain := False,
              en_data_length := ucast (of_nat (length old_clusters) + 1 :: u32) * ucast (ex_cluster_size c)\<rparr> in
        on_success (for_each (\<lambda>lba s. ex_write io lba (replicate (unat (ex_sector_size c)) 0) s)
          (exfat_cluster_sectors c new_cluster) s1) (\<lambda>_ s2.
        on_success (for_each (\<lambda>(cluster, nxt) s. write_fat io c cluster nxt s) (pairs old_clusters) s2) (\<lambda>_ s3.
        on_success (write_fat io c (last old_clusters) new_cluster s3) (\<lambda>_ s4.
        on_success (write_fat io c new_cluster 0xFFFFFFFF s4) (\<lambda>_ s5.
        on_success (if en_entry_count directory \<noteq> 0
            then update_node_stream io c d (en_first_cluster d) (en_data_length d) (en_data_length d) False s5
            else Some (Some (), s5)) (\<lambda>_ s6. Some (Some d, s6))))))))"

text \<open>The directory with one more cluster.\<close>

definition extend_directory ::
  "'d block_io \<Rightarrow> EXFAT_CONTEXT \<Rightarrow> EXFAT_NODE \<Rightarrow> 'd exfat_state \<Rightarrow> (EXFAT_NODE option \<times> 'd exfat_state) option" where
  "extend_directory io c directory s =
     on_success (collect_clusters io c directory s) (\<lambda>(p, old_clusters) s1. do {
       (r, s2) \<leftarrow> extend_with io c directory old_clusters s1;
       s3 \<leftarrow> ex_free p s2;
       Some (r, s3) })"

text \<open>The loops of \<open>find_free_entries\<close>; the result is the offset and the directory, which may be longer.\<close>

partial_function (option) free_entries_from :: "'d block_io \<Rightarrow> EXFAT_CONTEXT \<Rightarrow> EXFAT_NODE \<Rightarrow> nat \<Rightarrow> u64 \<Rightarrow> u64 \<Rightarrow> nat \<Rightarrow> u64 \<Rightarrow>
    'd exfat_state \<Rightarrow> ((u64 \<times> EXFAT_NODE) option \<times> 'd exfat_state) option" where
  "free_entries_from io c directory needed len offset consecutive start s =
     (if offset + 32 \<le> len then
        Option.bind (read_directory_bytes io c directory offset 32 s) (\<lambda>(r, s1). case r of
            None \<Rightarrow> Some (None, s1)
          | Some entry \<Rightarrow>
              if entry ! 0 AND 0x80 = 0 then
                (if consecutive + 1 = needed
                 then Some (Some (if consecutive = 0 then offset else start, directory), s1)
                 else free_entries_from io c directory needed len (offset + 32) (consecutive + 1)
                   (if consecutive = 0 then offset else start) s1)
              else free_entries_from io c directory needed len (offset + 32) 0 start s1)
      else
        Option.bind (extend_directory io c directory s) (\<lambda>(r, s1). case r of
            None \<Rightarrow> Some (None, s1)
          | Some d \<Rightarrow> Option.bind (directory_length io c d s1) (\<lambda>(len1, s2).
              free_entries_from io c d needed len1 0 consecutive start s2)))"

definition find_free_entries :: "'d block_io \<Rightarrow> EXFAT_CONTEXT \<Rightarrow> EXFAT_NODE \<Rightarrow> nat \<Rightarrow> 'd exfat_state \<Rightarrow>
    ((u64 \<times> EXFAT_NODE) option \<times> 'd exfat_state) option" where
  "find_free_entries io c directory needed s = do {
     (len, s1) \<leftarrow> directory_length io c directory s;
     free_entries_from io c directory needed len 0 0 0 s1 }"

text \<open>The result is the node for \<open>published\<close>.\<close>

definition publish_entry :: "'d block_io \<Rightarrow> EXFAT_CONTEXT \<Rightarrow> EXFAT_NODE \<Rightarrow> u16 list \<Rightarrow> u16 \<Rightarrow> u32 \<Rightarrow> u64 \<Rightarrow> u64 \<Rightarrow> bool \<Rightarrow>
    'd exfat_state \<Rightarrow> (EXFAT_NODE option \<times> 'd exfat_state) option" where
  "publish_entry io c parent name attributes first_cluster data_length valid_length no_fat_chain s =
     (case build_entry_set c name attributes first_cluster data_length valid_length no_fat_chain of
        None \<Rightarrow> Some (None, s)
      | Some entries \<Rightarrow>
          on_success (find_free_entries io c parent (length entries div 32) s) (\<lambda>(offset, p) s1.
          on_success (write_directory_bytes io c p offset entries s1) (\<lambda>_ s2.
            Some (Some \<lparr>en_first_cluster = first_cluster, en_valid_data_length = valid_length,
              en_data_length = data_length, en_attributes = attributes, en_no_fat_chain = no_fat_chain, en_name = [],
              en_parent_first_cluster = en_first_cluster p, en_entry_offset = offset,
              en_entry_count = length entries div 32, en_parent_no_fat_chain = en_no_fat_chain p,
              en_parent_data_length = en_data_length p\<rparr>, s2))))"

definition retired_set :: "bytes \<Rightarrow> nat \<Rightarrow> bytes" where
  "retired_set entries n = fold (\<lambda>index e. e[index * 32 := e ! (index * 32) AND 0x7F]) [0 ..< n] entries"

definition retire_entry ::
  "'d block_io \<Rightarrow> EXFAT_CONTEXT \<Rightarrow> EXFAT_NODE \<Rightarrow> 'd exfat_state \<Rightarrow> (unit option \<times> 'd exfat_state) option" where
  "retire_entry io c node s =
     on_success (read_node_set io c node s) (\<lambda>entries s1.
       write_node_set io c node (retired_set entries (en_entry_count node)) s1)"

end
