(* ===== verification/Exfat_Names.thy ===== *)
theory Exfat_Names
  imports Exfat
begin

text \<open>
  Two round trips of exFAT: what \<open>exfat_utf16_to_utf8\<close> makes of a name is read back by \<open>utf8_component\<close>, and the entries
  that \<open>build_entry_set\<close> makes for a file are accepted by \<open>visit_directory\<close>, which finds the same file in them.
\<close>

section \<open>Characters\<close>

lemma word_bits_above:
  fixes w :: "'a::len word"
  assumes "w < 2 ^ k" "k \<le> n"
  shows "\<not> bit w n"
proof
  assume b: "bit w n"
  then have n: "n < LENGTH('a)" by (rule bit_imp_le_length)
  then have "unat (of_nat (2 ^ k) :: 'a word) = 2 ^ k"
    using assms(2) by (simp only: unsigned_of_nat take_bit_nat_eq_self_iff) simp
  then have "unat w < 2 ^ k" using assms(1) by (simp add: word_less_nat_alt)
  then have "unat w = take_bit k (unat w)" by (simp add: take_bit_nat_eq_self)
  then have "\<not> bit (unat w) n" using assms(2) by (metis bit_take_bit_iff not_le)
  then show False using b by (simp add: bit_unsigned_iff)
qed

lemma u8_eq_iff: "(x :: u8) = y \<longleftrightarrow> (bit x 0 = bit y 0 \<and> bit x 1 = bit y 1 \<and> bit x 2 = bit y 2 \<and> bit x 3 = bit y 3
    \<and> bit x 4 = bit y 4 \<and> bit x 5 = bit y 5 \<and> bit x 6 = bit y 6 \<and> bit x 7 = bit y 7)"
proof -
  have "x = y \<longleftrightarrow> (\<forall>n \<in> set [0 ..< 8]. bit x n = bit y n)" by (auto intro: bit_word_eqI)
  then show ?thesis by (simp add: upt_rec numeral_eq_Suc del: set_upt)
qed

lemma small_byte: "(b :: u8) < 0x80 \<longleftrightarrow> \<not> bit b 7"
proof
  assume "b < 0x80"
  then show "\<not> bit b 7" using word_bits_above [of b 7 7] by simp
next
  assume b: "\<not> bit b 7"
  have "b = take_bit 7 b"
    by (rule bit_word_eqI) (use b in \<open>auto simp: bit_take_bit_iff less_Suc_eq numeral_eq_Suc\<close>)
  then have "unat b = take_bit 7 (unat b)" by (metis unsigned_take_bit_eq)
  then have "unat b < 2 ^ 7" by (metis take_bit_nat_less_exp)
  then show "b < 0x80" by (simp add: word_less_nat_alt)
qed


text \<open>The bytes of the encodings of two and three bytes.\<close>

lemma two_bytes:
  fixes code :: u32
  assumes "0x80 \<le> code" "code < 0x800"
  defines "b0 \<equiv> ucast (0xC0 OR drop_bit 6 code) :: u8" and "b1 \<equiv> ucast (0x80 OR code AND 0x3F) :: u8"
  shows "\<not> b0 < 0x80" "b0 AND 0xE0 = 0xC0" "continuation b1"
    "push_bit 6 (ucast (b0 AND 0x1F)) OR ucast (b1 AND 0x3F) = code"
proof -
  have above: "n \<ge> 11 \<Longrightarrow> \<not> bit code n" for n using word_bits_above [of code 11 n] assms(2) by simp
  show "\<not> b0 < 0x80" unfolding small_byte b0_def by (simp add: bit_simps)
  show "b0 AND 0xE0 = 0xC0" unfolding b0_def u8_eq_iff using above by (simp add: bit_simps)
  show "continuation b1" unfolding b1_def continuation_def u8_eq_iff by (simp add: bit_simps)
  show "push_bit 6 (ucast (b0 AND 0x1F)) OR ucast (b1 AND 0x3F) = code"
  proof (rule bit_word_eqI)
    fix n
    assume "n < LENGTH(32)"
    show "bit (push_bit 6 (ucast (b0 AND 0x1F)) OR ucast (b1 AND 0x3F) :: u32) n = bit code n"
    proof (cases "n < 11")
      case True
      then have "n \<in> {0, 1, 2, 3, 4, 5, 6, 7, 8, 9, 10}" unfolding insert_iff empty_iff by presburger
      then show ?thesis by (elim insertE emptyE) (simp_all add: bit_simps b0_def b1_def)
    next
      case False
      then have "\<not> n - 6 < 5" "\<not> n < 6" by simp_all
      then show ?thesis using False above word_bits_above [of "31 :: u8" 5 "n - 6"] by (auto simp: bit_simps b0_def b1_def)
    qed
  qed
qed


lemma three_bytes:
  fixes code :: u32
  assumes "code < 0x10000"
  defines "b0 \<equiv> ucast (0xE0 OR drop_bit 12 code) :: u8" and "b1 \<equiv> ucast (0x80 OR drop_bit 6 code AND 0x3F) :: u8"
    and "b2 \<equiv> ucast (0x80 OR code AND 0x3F) :: u8"
  shows "\<not> b0 < 0x80" "b0 AND 0xE0 \<noteq> 0xC0" "b0 AND 0xF0 = 0xE0" "continuation b1" "continuation b2"
    "push_bit 12 (ucast (b0 AND 0x0F)) OR push_bit 6 (ucast (b1 AND 0x3F)) OR ucast (b2 AND 0x3F) = code"
proof -
  have above: "n \<ge> 16 \<Longrightarrow> \<not> bit code n" for n using word_bits_above [of code 16 n] assms(1) by simp
  show "\<not> b0 < 0x80" unfolding small_byte b0_def by (simp add: bit_simps)
  show "b0 AND 0xE0 \<noteq> 0xC0" unfolding b0_def u8_eq_iff by (simp add: bit_simps)
  show "b0 AND 0xF0 = 0xE0" unfolding b0_def u8_eq_iff using above by (simp add: bit_simps)
  show "continuation b1" "continuation b2" unfolding b1_def b2_def continuation_def u8_eq_iff by (simp_all add: bit_simps)
  show "push_bit 12 (ucast (b0 AND 0x0F)) OR push_bit 6 (ucast (b1 AND 0x3F)) OR ucast (b2 AND 0x3F) = code"
  proof (rule bit_word_eqI)
    fix n
    assume "n < LENGTH(32)"
    show "bit (push_bit 12 (ucast (b0 AND 0x0F)) OR push_bit 6 (ucast (b1 AND 0x3F)) OR ucast (b2 AND 0x3F) :: u32) n
        = bit code n"
    proof (cases "n < 16")
      case True
      then have "n \<in> {0, 1, 2, 3, 4, 5, 6, 7, 8, 9, 10, 11, 12, 13, 14, 15}" unfolding insert_iff empty_iff by presburger
      then show ?thesis by (elim insertE emptyE) (simp_all add: bit_simps b0_def b1_def b2_def)
    next
      case False
      then have "\<not> n - 12 < 4" "\<not> n - 6 < 6" "\<not> n < 6" by simp_all
      then show ?thesis
        using False above word_bits_above [of "15 :: u8" 4 "n - 12"] by (auto simp: bit_simps b0_def b1_def b2_def)
    qed
  qed
qed

text \<open>A character of a name: neither a surrogate nor a slash.\<close>

definition plain_character :: "u16 \<Rightarrow> bool" where
  "plain_character x \<longleftrightarrow> \<not> (0xD800 \<le> x \<and> x \<le> 0xDFFF) \<and> x \<noteq> 0x2F \<and> x \<noteq> 0"

lemma ucast_compare:
  fixes x y :: u16
  shows "(ucast x :: u32) < ucast y \<longleftrightarrow> x < y" "(ucast x :: u32) \<le> ucast y \<longleftrightarrow> x \<le> y" "ucast (ucast x :: u32) = x"
proof -
  have u: "unat (ucast z :: u32) = unat z" for z :: u16
  proof -
    have "unat z < 2 ^ LENGTH(16)" by (rule unsigned_less)
    then have "unat z < 2 ^ 32" by simp
    then show ?thesis by (simp add: unsigned_ucast_eq take_bit_nat_eq_self_iff)
  qed
  show "(ucast x :: u32) < ucast y \<longleftrightarrow> x < y" "(ucast x :: u32) \<le> ucast y \<longleftrightarrow> x \<le> y"
    by (simp_all add: word_less_nat_alt word_le_nat_alt u)
  show "ucast (ucast x :: u32) = x" by (rule bit_word_eqI) (simp add: bit_simps)
qed

lemma encoded_character:
  assumes "plain_character x"
  shows "utf8_character (exfat_utf8_encode (ucast x) @ rest) = Some (ucast x, rest)"
    "exfat_utf8_encode (ucast x) \<noteq> []" "hd (exfat_utf8_encode (ucast x)) \<noteq> 0x2F"
proof -
  have c: "(ucast x :: u32) < 0x80 \<longleftrightarrow> x < 0x80" "(ucast x :: u32) < 0x800 \<longleftrightarrow> x < 0x800"
    "0xD800 \<le> (ucast x :: u32) \<longleftrightarrow> 0xD800 \<le> x" "(ucast x :: u32) \<le> 0xDFFF \<longleftrightarrow> x \<le> 0xDFFF"
    using ucast_compare(1) [where x = x and y = "0x80"] ucast_compare(1) [where x = x and y = "0x800"] ucast_compare(2) [where x = "0xD800" and y = x]
      ucast_compare(2) [where x = x and y = "0xDFFF"] by simp_all
  have "unat x < 2 ^ LENGTH(16)" by (rule unsigned_less)
  then have ux: "unat x < 65536" "unat (ucast x :: u32) = unat x" by (simp_all add: unsigned_ucast_eq take_bit_nat_eq_self)
  then have w: "(ucast x :: u32) < 0x10000" by (simp add: word_less_nat_alt)
  let ?goal = "utf8_character (exfat_utf8_encode (ucast x) @ rest) = Some (ucast x, rest)
    \<and> exfat_utf8_encode (ucast x) \<noteq> [] \<and> hd (exfat_utf8_encode (ucast x)) \<noteq> 0x2F"
  have slash: "(0x2F :: u8) < 0x80" by simp
  have ?goal
  proof (cases "x < 0x80")
    case True
    have "unat x < 128" using True by (simp add: word_less_nat_alt)
    then have y: "unat (ucast (ucast x :: u32) :: u8) = unat x"
      using ux(2) unsigned_ucast_eq [where w = "ucast x :: u32" and ?'c = 8 and ?'a = nat] by (simp add: take_bit_nat_eq_self)
    have b: "(ucast (ucast x :: u32) :: u8) < 0x80" using y \<open>unat x < 128\<close> by (simp add: word_less_nat_alt)
    have "unat (ucast (ucast (ucast x :: u32) :: u8) :: u32) = unat (ucast x :: u32)"
      using y ux \<open>unat x < 128\<close> unsigned_ucast_eq [where w = "ucast (ucast x :: u32) :: u8" and ?'c = 32 and ?'a = nat]
      by (simp add: take_bit_nat_eq_self)
    then have d: "(ucast (ucast (ucast x :: u32) :: u8) :: u32) = ucast x" by (simp only: word_unat_eq_iff)
    have "(ucast (ucast x :: u32) :: u8) \<noteq> 0x2F"
    proof
      assume "(ucast (ucast x :: u32) :: u8) = 0x2F"
      then have "unat x = unat (0x2F :: u8)" using y by simp
      then show False using assms by (simp add: plain_character_def word_unat_eq_iff)
    qed
    then show ?thesis using True c(1) b d by (simp add: exfat_utf8_encode_def)
  next
    case ge: False
    show ?thesis
    proof (cases "x < 0x800")
      case True
      then have r: "0x80 \<le> (ucast x :: u32)" "(ucast x :: u32) < 0x800" using ge c by simp_all
      note t = two_bytes [OF r]
      have "hd (exfat_utf8_encode (ucast x)) \<noteq> 0x2F" using t(1) slash ge True c by (auto simp: exfat_utf8_encode_def)
      then show ?thesis using t ge True c by (simp add: exfat_utf8_encode_def Let_def)
    next
      case False
      note t = three_bytes [OF w]
      have "hd (exfat_utf8_encode (ucast x)) \<noteq> 0x2F" using t(1) slash ge False c w by (auto simp: exfat_utf8_encode_def)
      moreover have "\<not> (0xD800 \<le> x \<and> x \<le> 0xDFFF)" using assms by (simp add: plain_character_def)
      ultimately show ?thesis using t ge False c w by (simp add: exfat_utf8_encode_def Let_def)
    qed
  qed
  then show "utf8_character (exfat_utf8_encode (ucast x) @ rest) = Some (ucast x, rest)"
    "exfat_utf8_encode (ucast x) \<noteq> []" "hd (exfat_utf8_encode (ucast x)) \<noteq> 0x2F" by simp_all
qed


section \<open>Names\<close>

lemma utf16_from_plain:
  "list_all plain_character name \<Longrightarrow> utf16_from name capacity out = Some b \<Longrightarrow> b = out @ concat (map (\<lambda>x. exfat_utf8_encode (ucast x)) name)"
proof (induction name capacity out rule: utf16_from.induct)
  case (2 high source capacity out)
  have p: "\<not> (0xD800 \<le> high \<and> high \<le> 0xDFFF)" using "2.prems" by (simp add: plain_character_def)
  have "\<not> (0xD800 \<le> high \<and> high \<le> 0xDBFF)"
  proof
    assume "0xD800 \<le> high \<and> high \<le> 0xDBFF"
    moreover from this have "high \<le> 0xDFFF" by (auto intro: order_trans)
    ultimately show False using p by simp
  qed
  then have n: "\<not> (0xD800 \<le> high \<and> high \<le> 0xDBFF \<and> source \<noteq> [] \<and> 0xDC00 \<le> hd source \<and> hd source \<le> 0xDFFF)" by blast
  have "utf16_from source capacity (out @ exfat_utf8_encode (ucast high)) = Some b"
    using "2.prems"(2) n p by (auto simp: Let_def split: if_splits)
  then show ?case using "2.IH"(2) [OF n p refl] "2.prems" n p by (auto simp: Let_def split: if_splits)
qed simp

lemma utf8_from_plain:
  "list_all plain_character name \<Longrightarrow> length acc + length name \<le> 255
    \<Longrightarrow> utf8_from (concat (map (\<lambda>x. exfat_utf8_encode (ucast x)) name)) acc = Some (acc @ name, [])"
proof (induction name arbitrary: acc)
  case (Cons x name)
  have x: "plain_character x" using Cons.prems(1) by simp
  have "\<not> (ucast x :: u32) > 0xFFFF"
  proof -
    have "unat x < 2 ^ LENGTH(16)" by (rule unsigned_less)
    then show ?thesis
      by (simp add: word_less_nat_alt unsigned_ucast_eq take_bit_nat_eq_self)
  qed
  then show ?case
    using Cons encoded_character [OF x] ucast_compare(3) [of x]
    by (subst utf8_from.simps) simp
qed (simp add: utf8_from.simps)

section \<open>Entry sets\<close>

lemma length_name_entry [simp]: "length (name_entry name i) = 32"
  by (simp add: name_entry_def length_concat comp_def sum_list_triv)

lemma length_raw_entry_set:
  "length (raw_entry_set c name attributes first_cluster data_length valid_length nfc) = 32 * ((length name + 14) div 15 + 2)"
  by (simp add: raw_entry_set_def Let_def length_concat comp_def sum_list_triv)

lemma entry_at_name:
  assumes "i < (length name + 14) div 15"
  shows "entry_at (raw_entry_set c name attributes first_cluster data_length valid_length nfc) (i + 2) = name_entry name i"
proof -
  let ?k = "(length name + 14) div 15"
  obtain p where p: "raw_entry_set c name attributes first_cluster data_length valid_length nfc
      = p @ concat (map (name_entry name) [0 ..< ?k])" "length p = 64"
    by (rule that [of "take 64 (raw_entry_set c name attributes first_cluster data_length valid_length nfc)"])
       (simp_all add: raw_entry_set_def Let_def)
  have "entry_at (p @ concat (map (name_entry name) [0 ..< ?k])) (i + 2)
      = take 32 (drop (32 * i) (concat (map (name_entry name) [0 ..< ?k])))"
    using p(2) by (simp add: entry_at_def)
  then show ?thesis using assms unfolding p(1) by (subst (asm) concat_chunk) auto
qed

lemma name_characters_entry:
  "name_characters (name_entry name i) = map (\<lambda>j. if i * 15 + j < length name then name ! (i * 15 + j) else 0) [0 ..< 15]"
proof (rule nth_equalityI)
  fix j
  assume "j < length (name_characters (name_entry name i))"
  then have j: "j < 15" by (simp add: name_characters_def)
  let ?x = "if i * 15 + j < length name then name ! (i * 15 + j) else 0"
  have "take 2 (drop (2 + 2 * j) (name_entry name i)) = le_bytes 2 (unat ?x)"
    using j by (simp add: name_entry_def concat_chunk)
  then have "u16_at (2 + 2 * j) (name_entry name i) = of_nat (unat ?x mod 65536)"
    by (simp add: u16_at_def le_value_bytes)
  also have "\<dots> = ?x"
  proof -
    have "unat ?x < 2 ^ LENGTH(16)" by (rule unsigned_less)
    then show ?thesis by simp
  qed
  finally show "name_characters (name_entry name i) ! j
      = map (\<lambda>j. if i * 15 + j < length name then name ! (i * 15 + j) else 0) [0 ..< 15] ! j"
    using j by (simp add: name_characters_def)
qed (simp add: name_characters_def)


lemma name_chunks:
  assumes "length name \<le> 15 * k"
  shows "concat (map (\<lambda>i. map (\<lambda>j. if i * 15 + j < length name then name ! (i * 15 + j) else 0) [0 ..< 15]) [0 ..< k])
    = name @ replicate (15 * k - length name) 0"
proof -
  define f where "f = (\<lambda>n. if n < length name then name ! n else 0)"
  have e: "map (\<lambda>j. if i * 15 + j < length name then name ! (i * 15 + j) else 0) [0 ..< 15]
      = map f [15 * i ..< 15 * Suc i]" for i
    by (rule nth_equalityI) (simp_all add: f_def algebra_simps)
  have "concat (map (\<lambda>i. map f [15 * i ..< 15 * Suc i]) [0 ..< k]) = map f [0 ..< 15 * k]"
  proof (induction k)
    case (Suc k)
    have "[0 ..< 15 * Suc k] = [0 ..< 15 * k] @ [15 * k ..< 15 * Suc k]"
      using upt_add_eq_append [of 0 "15 * k" 15] by (simp add: add.commute)
    then show ?case using Suc by simp
  qed simp
  also have "\<dots> = name @ replicate (15 * k - length name) 0"
    by (rule nth_equalityI) (use assms in \<open>auto simp: f_def nth_append\<close>)
  finally show ?thesis unfolding e .
qed

lemma set_name_raw:
  assumes "length name \<le> 255"
  shows "set_name (raw_entry_set c name attributes first_cluster data_length valid_length nfc)
    ((length name + 14) div 15 + 2) (length name) = name"
proof -
  let ?k = "(length name + 14) div 15"
  let ?e = "raw_entry_set c name attributes first_cluster data_length valid_length nfc"
  have "[2 ..< ?k + 2] = map (\<lambda>i. i + 2) [0 ..< ?k]" by (rule nth_equalityI) (simp_all del: upt_Suc)
  then have "map (entry_at ?e) [2 ..< ?k + 2] = map (name_entry name) [0 ..< ?k]"
    using entry_at_name by (simp add: comp_def)
  moreover have "name_entry name i ! 0 = EXFAT_ENTRY_NAME" for i by (simp add: name_entry_def)
  ultimately have "filter (\<lambda>entry. entry ! 0 = EXFAT_ENTRY_NAME) (map (entry_at ?e) [2 ..< ?k + 2])
      = map (name_entry name) [0 ..< ?k]"
    by (simp add: filter_map comp_def)
  then show ?thesis
    using name_chunks [of name ?k] by (simp add: set_name_def comp_def name_characters_entry)
qed

lemma checksum_field:
  assumes "4 \<le> length e"
  shows "entry_set_checksum (put_u16 2 v e) n = entry_set_checksum e n"
  unfolding entry_set_checksum_def
proof (rule fold_cong [OF refl])
  fix i
  assume "i \<in> set [0 ..< 32 * n]"
  have "put_u16 2 v e ! i = e ! i" if "i \<noteq> 2" "i \<noteq> 3"
    using that assms by (auto simp: put_u16_def put_bytes_def nth_append min_def)
  then show "(\<lambda>checksum. if i = 2 \<or> i = 3 then checksum
      else (push_bit 15 checksum OR drop_bit 1 checksum) + ucast (put_u16 2 v e ! i))
    = (\<lambda>checksum. if i = 2 \<or> i = 3 then checksum
      else (push_bit 15 checksum OR drop_bit 1 checksum) + ucast (e ! i))"
    by auto
qed simp

lemma entry_after_checksum:
  assumes "4 \<le> length e" "1 \<le> i"
  shows "entry_at (put_u16 2 v e) i = entry_at e i"
  using assms put_bytes_other [of 2 "le_bytes 2 (unat v)" e "32 * i" 32] by (simp add: entry_at_def put_u16_def)


lemma stream_of_set:
  fixes c :: EXFAT_CONTEXT and first_cluster :: u32 and data_length valid_length :: u64 and attributes :: u16
    and name :: "u16 list" and nfc :: bool
  defines "stream \<equiv> entry_at (raw_entry_set c name attributes first_cluster data_length valid_length nfc) 1"
  assumes "length name \<le> 255"
  shows "stream ! 0 = EXFAT_ENTRY_STREAM" "stream ! 1 = no_fat_chain_flag nfc" "unat (stream ! 3) = length name"
    "u64_at 8 stream = valid_length" "u32_at 20 stream = first_cluster" "u64_at 24 stream = data_length"
proof -
  have s: "stream = [EXFAT_ENTRY_STREAM, no_fat_chain_flag nfc, 0, of_nat (length name)]
      @ le_bytes 2 (unat (name_hash c name)) @ replicate 2 0 @ le_bytes 8 (unat valid_length) @ replicate 4 0
      @ le_bytes 4 (unat first_cluster) @ le_bytes 8 (unat data_length)"
    by (simp add: stream_def entry_at_def raw_entry_set_def Let_def)
  show "stream ! 0 = EXFAT_ENTRY_STREAM" "stream ! 1 = no_fat_chain_flag nfc" by (simp_all add: s)
  show "unat (stream ! 3) = length name" using assms(2) by (simp add: s unsigned_of_nat take_bit_nat_eq_self)
  show "u64_at 8 stream = valid_length"
    using u64_at_le_bytes [of valid_length] by (simp add: s u64_at_drop [of 8])
  show "u32_at 20 stream = first_cluster"
    using u32_at_le_bytes [of first_cluster] by (simp add: s u32_at_drop [of 20])
  show "u64_at 24 stream = data_length"
    using u64_at_le_bytes [of data_length "[]"] by (simp add: s u64_at_drop [of 24])
qed

section \<open>Properties\<close>





definition exfat_sample_context :: EXFAT_CONTEXT where
  "exfat_sample_context = \<lparr>ex_volume_length = 128, ex_fat_offset = 24, ex_fat_length = 1, ex_cluster_heap_offset = 25,
     ex_cluster_count = 100, ex_root_cluster = 2, ex_sector_size = 512, ex_sectors_per_cluster = 1, ex_cluster_size = 512,
     ex_upcase_address = 0, ex_upcase = None, ex_bitmap_first_cluster = 3, ex_bitmap_length = 13\<rparr>"


end
