(* ===== verification/Exfat_Operations.thy ===== *)
theory Exfat_Operations
  imports Exfat
begin

text \<open>
  \<^verbatim>\<open>src/kernel/exfat.c\<close> from \<open>validate_boot_region\<close> on: mounting, and the operations on paths.  Every change is made in
  a transaction and then checked by mounting the volume a second time; the second context is only read, so the
  transaction in the state is that of the first.
\<close>

section \<open>Mounting\<close>

definition exfat_signature :: "bytes \<Rightarrow> bool" where
  "exfat_signature sector \<longleftrightarrow> take 8 (drop 3 sector) = [0x45, 0x58, 0x46, 0x41, 0x54, 0x20, 0x20, 0x20]"

definition boot_sector_checksum :: "bytes \<Rightarrow> u32 \<Rightarrow> u32" where
  "boot_sector_checksum boot checksum = fold (\<lambda>i s. if i = 106 \<or> i = 107 \<or> i = 112 then s
     else boot_checksum_step s (boot ! i)) [0 ..< length boot] checksum"

text \<open>The loop over the ten sectors after the boot sector.\<close>

primrec checksum_sectors ::
  "'d block_io \<Rightarrow> u64 list \<Rightarrow> u32 \<Rightarrow> 'd exfat_state \<Rightarrow> (u32 option \<times> 'd exfat_state) option" where
  "checksum_sectors io [] checksum s = Some (Some checksum, s)"
| "checksum_sectors io (lba # lbas) checksum s =
     on_success (ex_read io lba s) (\<lambda>sector s1. checksum_sectors io lbas (fold (\<lambda>b c. boot_checksum_step c b) sector checksum) s1)"

text \<open>The boot sector, if the region is valid.\<close>

definition validate_boot_region ::
  "'d block_io \<Rightarrow> u64 \<Rightarrow> 'd exfat_state \<Rightarrow> (bytes option \<times> 'd exfat_state) option" where
  "validate_boot_region io base s =
     on_success (ex_read io base s) (\<lambda>boot s1.
       if \<not> exfat_signature boot \<or> boot ! 510 \<noteq> 0x55 \<or> boot ! 511 \<noteq> 0xAA then Some (None, s1)
       else on_success (checksum_sectors io (map (\<lambda>i. base + of_nat i) [1 ..< 11]) (boot_sector_checksum boot 0) s1)
         (\<lambda>checksum s2. on_success (ex_read io (base + 11) s2) (\<lambda>sector s3.
           Some (if \<forall>i < unat (io_block_size io) div 4. u32_at (4 * i) sector = checksum then Some boot else None, s3))))"

definition exfat_probe :: "'d block_io option \<Rightarrow> 'd exfat_state \<Rightarrow> (bool \<times> 'd exfat_state) option" where
  "exfat_probe device s =
     (case device of
        None \<Rightarrow> Some (False, s)
      | Some io \<Rightarrow>
          if io_block_size io < 512 \<or> io_block_size io > EXFAT_MAX_SECTOR_SIZE then Some (False, s)
          else do { (r, s1) \<leftarrow> ex_read io 0 s; Some (case r of None \<Rightarrow> False | Some sector \<Rightarrow> exfat_signature sector, s1) })"

text \<open>The loop of \<open>load_upcase\<close> that fills the table: a value, or 0xFFFF and the length of a run of characters that are
  their own upper case.\<close>

function decode_upcase :: "bytes \<Rightarrow> u16 list \<Rightarrow> u16 list" where
  "decode_upcase raw table =
     (if length raw < 2 \<or> length table \<ge> 65536 then table
      else if u16_at 0 raw = 0xFFFF \<and> length raw > 3
      then decode_upcase (drop 4 raw)
        (table @ map of_nat [length table ..< min 65536 (length table + unat (u16_at 2 raw))])
      else decode_upcase (drop 2 raw) (table @ [u16_at 0 raw]))"
  by pat_completeness auto
termination by (relation "measure (\<lambda>(raw, table). length raw)") auto

declare decode_upcase.simps [simp del]

definition release_upcase :: "EXFAT_CONTEXT \<Rightarrow> EXFAT_CONTEXT" where
  "release_upcase c = c\<lparr>ex_upcase_address := 0, ex_upcase := None\<rparr>"

text \<open>The entry of the table: the context, and whether it could be loaded.\<close>

definition load_upcase_table ::
  "'d block_io \<Rightarrow> EXFAT_CONTEXT \<Rightarrow> bytes \<Rightarrow> 'd exfat_state \<Rightarrow> ((bool \<times> EXFAT_CONTEXT) \<times> 'd exfat_state) option" where
  "load_upcase_table io c entry s =
     (let expected = u32_at 4 entry; first_cluster = u32_at 20 entry; len = u64_at 24 entry in
      if len = 0 \<or> len > 131072 \<or> \<not> valid_cluster c first_cluster then Some ((False, c), s)
      else do {
        (raw, s1) \<leftarrow> ex_alloc len s;
        (table, s2) \<leftarrow> ex_alloc 131072 s1;
        if raw = 0 \<or> table = 0 then do {
          s3 \<leftarrow> (if raw \<noteq> 0 then ex_free raw s2 else Some s2);
          s4 \<leftarrow> (if table \<noteq> 0 then ex_free table s3 else Some s3);
          Some ((False, release_upcase c), s4) }
        else do {
          (b, s3) \<leftarrow> read_stream io c first_cluster False len 0 len s2;
          let codes = decode_upcase b [];
          if of_nat (length b) \<noteq> len \<or> fold (\<lambda>v k. stream_checksum_step k v) b 0 \<noteq> expected then do {
            s4 \<leftarrow> ex_free raw s3; s5 \<leftarrow> ex_free table s4; Some ((False, release_upcase c), s5) }
          else do {
            s4 \<leftarrow> ex_free raw s3;
            if length codes \<noteq> 65536 then do { s5 \<leftarrow> ex_free table s4; Some ((False, release_upcase c), s5) }
            else Some ((True, c\<lparr>ex_upcase_address := table, ex_upcase := Some codes\<rparr>), s4) } } })"

text \<open>Whether the search goes on, the context, and whether a table was found; when it does not go on, whether
  \<open>load_upcase\<close> succeeds.\<close>

datatype load_end = Load_return bool EXFAT_CONTEXT | Load_on EXFAT_CONTEXT bool

definition load_entry :: "'d block_io \<Rightarrow> EXFAT_CONTEXT \<Rightarrow> bool \<Rightarrow> bytes \<Rightarrow> 'd exfat_state \<Rightarrow> (load_end \<times> 'd exfat_state) option" where
  "load_entry io c found_upcase entry s =
     (if entry ! 0 = 0 then Some (Load_return (found_upcase \<and> ex_bitmap_first_cluster c \<noteq> 0) c, s)
      else if entry ! 0 = EXFAT_ENTRY_BITMAP then
        (let first_cluster = u32_at 20 entry; len = u64_at 24 entry in
         Some (if entry ! 1 AND 1 \<noteq> 0 \<or> len < ucast ((ex_cluster_count c + 7) div 8) \<or> \<not> valid_cluster c first_cluster
           then Load_return False c
           else Load_on (c\<lparr>ex_bitmap_first_cluster := first_cluster, ex_bitmap_length := len\<rparr>) found_upcase, s))
      else if entry ! 0 = EXFAT_ENTRY_UPCASE then do {
        ((ok, c1), s1) \<leftarrow> load_upcase_table io c entry s;
        Some (if ok then Load_on c1 True else Load_return False c1, s1) }
      else Some (Load_on c found_upcase, s))"

primrec load_entries :: "'d block_io \<Rightarrow> bytes list \<Rightarrow> EXFAT_CONTEXT \<Rightarrow> bool \<Rightarrow> 'd exfat_state \<Rightarrow>
    (load_end \<times> 'd exfat_state) option" where
  "load_entries io [] c found_upcase s = Some (Load_on c found_upcase, s)"
| "load_entries io (entry # entries) c found_upcase s = do {
     (e, s1) \<leftarrow> load_entry io c found_upcase entry s;
     case e of
       Load_return ok c1 \<Rightarrow> Some (Load_return ok c1, s1)
     | Load_on c1 found1 \<Rightarrow> load_entries io entries c1 found1 s1 }"

primrec load_sectors :: "'d block_io \<Rightarrow> u64 list \<Rightarrow> EXFAT_CONTEXT \<Rightarrow> bool \<Rightarrow> 'd exfat_state \<Rightarrow>
    (load_end \<times> 'd exfat_state) option" where
  "load_sectors io [] c found_upcase s = Some (Load_on c found_upcase, s)"
| "load_sectors io (lba # lbas) c found_upcase s = do {
     (r, s1) \<leftarrow> exfat_read_sector io c lba s;
     case r of
       None \<Rightarrow> Some (Load_return False c, s1)
     | Some sector \<Rightarrow> do {
         (e, s2) \<leftarrow> load_entries io (sector_entries c sector) c found_upcase s1;
         case e of
           Load_return ok c1 \<Rightarrow> Some (Load_return ok c1, s2)
         | Load_on c1 found1 \<Rightarrow> load_sectors io lbas c1 found1 s2 } }"

primrec load_clusters :: "'d block_io \<Rightarrow> nat \<Rightarrow> u32 \<Rightarrow> EXFAT_CONTEXT \<Rightarrow> bool \<Rightarrow> 'd exfat_state \<Rightarrow>
    ((bool \<times> EXFAT_CONTEXT) \<times> 'd exfat_state) option" where
  "load_clusters io 0 cluster c found_upcase s = Some ((False, c), s)"
| "load_clusters io (Suc left) cluster c found_upcase s = do {
     (e, s1) \<leftarrow> load_sectors io (exfat_cluster_sectors c cluster) c found_upcase s;
     case e of
       Load_return ok c1 \<Rightarrow> Some ((ok, c1), s1)
     | Load_on c1 found1 \<Rightarrow> do {
         (nxt, s2) \<leftarrow> read_fat io c1 cluster s1;
         case nxt of
           None \<Rightarrow> Some ((found1 \<and> ex_bitmap_first_cluster c1 \<noteq> 0, c1), s2)
         | Some n \<Rightarrow> if n \<ge> EXFAT_EOC then Some ((found1 \<and> ex_bitmap_first_cluster c1 \<noteq> 0, c1), s2)
             else load_clusters io left n c1 found1 s2 } }"

definition load_upcase ::
  "'d block_io \<Rightarrow> EXFAT_CONTEXT \<Rightarrow> 'd exfat_state \<Rightarrow> ((bool \<times> EXFAT_CONTEXT) \<times> 'd exfat_state) option" where
  "load_upcase io c s = load_clusters io (unat (ex_cluster_count c)) (ex_root_cluster c) c False s"

text \<open>The fields of the boot sector, and the test of them.\<close>

definition boot_context :: "bytes \<Rightarrow> EXFAT_CONTEXT" where
  "boot_context boot =
     (let sector_size = push_bit (unat (boot ! 108)) 1 :: u32; sectors_per_cluster = push_bit (unat (boot ! 109)) 1 in
      \<lparr>ex_volume_length = u64_at 72 boot,
       ex_fat_offset = (if boot ! 110 = 2 \<and> u16_at 106 boot AND 1 \<noteq> 0 then u32_at 80 boot + u32_at 84 boot
         else u32_at 80 boot),
       ex_fat_length = u32_at 84 boot, ex_cluster_heap_offset = u32_at 88 boot, ex_cluster_count = u32_at 92 boot,
       ex_root_cluster = u32_at 96 boot, ex_sector_size = sector_size, ex_sectors_per_cluster = sectors_per_cluster,
       ex_cluster_size = sector_size * sectors_per_cluster, ex_upcase_address = 0, ex_upcase = None,
       ex_bitmap_first_cluster = 0, ex_bitmap_length = 0\<rparr>)"

definition boot_shifts_valid :: "u32 \<Rightarrow> bytes \<Rightarrow> bool" where
  "boot_shifts_valid bs boot \<longleftrightarrow> \<not> (boot ! 108 < 9 \<or> boot ! 108 > 12 \<or> boot ! 109 > 25 \<or> boot ! 110 = 0 \<or> boot ! 110 > 2)
     \<and> push_bit (unat (boot ! 108)) 1 = bs
     \<and> \<not> push_bit (unat (boot ! 109)) 1 > 0xFFFFFFFF div bs"

definition geometry_valid :: "u64 \<Rightarrow> EXFAT_CONTEXT \<Rightarrow> bool" where
  "geometry_valid blocks c \<longleftrightarrow> \<not> (ex_volume_length c < 24 \<or> ex_fat_offset c < 24 \<or> ex_fat_length c = 0
     \<or> ex_cluster_count c = 0 \<or> \<not> valid_cluster c (ex_root_cluster c)
     \<or> ucast (ex_fat_offset c + ex_fat_length c) > ex_volume_length c
     \<or> ucast (ex_cluster_heap_offset c) > ex_volume_length c
     \<or> ucast (ex_cluster_count c) * ucast (ex_sectors_per_cluster c)
         > ex_volume_length c - ucast (ex_cluster_heap_offset c)
     \<or> blocks \<noteq> 0 \<and> ex_volume_length c > blocks)"

text \<open>\<open>exfat_context_destroy\<close>; \<open>p\<close> is the address of the context.\<close>

definition exfat_context_destroy :: "(u64 \<times> EXFAT_CONTEXT) option \<Rightarrow> 'd exfat_state \<Rightarrow> 'd exfat_state option" where
  "exfat_context_destroy context s =
     (case context of
        None \<Rightarrow> Some s
      | Some (p, c) \<Rightarrow> do {
          s1 \<leftarrow> (if ex_upcase_address c \<noteq> 0 then ex_free (ex_upcase_address c) s else Some s);
          ex_free p s1 })"

text \<open>The address and the contents of the new context.\<close>

definition exfat_context_create ::
  "'d block_io option \<Rightarrow> 'd exfat_state \<Rightarrow> ((u64 \<times> EXFAT_CONTEXT) option \<times> 'd exfat_state) option" where
  "exfat_context_create device s = do {
     (ok, s1) \<leftarrow> exfat_probe device s;
     case device of
       None \<Rightarrow> Some (None, s1)
     | Some io \<Rightarrow>
         if \<not> ok then Some (None, s1)
         else do {
           (r, s2) \<leftarrow> validate_boot_region io 0 s1;
           (r, s3) \<leftarrow> (case r of Some boot \<Rightarrow> Some (Some boot, s2) | None \<Rightarrow> validate_boot_region io 12 s2);
           case r of
             None \<Rightarrow> Some (None, s3)
           | Some boot \<Rightarrow>
               if \<not> boot_shifts_valid (io_block_size io) boot then Some (None, s3)
               else do {
                 (p, s4) \<leftarrow> ex_alloc 4176 s3;
                 if p = 0 then Some (None, s4)
                 else if \<not> geometry_valid (io_block_count io) (boot_context boot) then do {
                   s5 \<leftarrow> ex_free p s4; Some (None, s5) }
                 else do {
                   ((loaded, c), s5) \<leftarrow> load_upcase io (boot_context boot) s4;
                   if \<not> loaded then do { s6 \<leftarrow> exfat_context_destroy (Some (p, c)) s5; Some (None, s6) }
                   else Some (Some (p, c), s5) } } } }"

section \<open>Reading\<close>

definition exfat_lookup :: "'d block_io \<Rightarrow> EXFAT_CONTEXT option \<Rightarrow> bytes option \<Rightarrow> 'd exfat_state \<Rightarrow>
    ((EXFAT_CONTEXT \<times> EXFAT_NODE) option \<times> 'd exfat_state) option" where
  "exfat_lookup io context path s =
     (case (context, path) of
        (Some c, Some p) \<Rightarrow> on_success (exfat_resolve_path io c p s) (\<lambda>node s1. Some (Some (c, node), s1))
      | _ \<Rightarrow> Some (None, s))"

definition exfat_context_exists ::
  "'d block_io \<Rightarrow> EXFAT_CONTEXT option \<Rightarrow> bytes option \<Rightarrow> 'd exfat_state \<Rightarrow> (bool \<times> 'd exfat_state) option" where
  "exfat_context_exists io context path s = do {
     (r, s1) \<leftarrow> exfat_lookup io context path s; Some (r \<noteq> None, s1) }"

definition exfat_context_is_directory ::
  "'d block_io \<Rightarrow> EXFAT_CONTEXT option \<Rightarrow> bytes option \<Rightarrow> 'd exfat_state \<Rightarrow> (bool \<times> 'd exfat_state) option" where
  "exfat_context_is_directory io context path s = do {
     (r, s1) \<leftarrow> exfat_lookup io context path s;
     Some (case r of None \<Rightarrow> False | Some (c, node) \<Rightarrow> is_directory_node node, s1) }"

definition exfat_context_file_size ::
  "'d block_io \<Rightarrow> EXFAT_CONTEXT option \<Rightarrow> bytes option \<Rightarrow> 'd exfat_state \<Rightarrow> (u64 \<times> 'd exfat_state) option" where
  "exfat_context_file_size io context path s = do {
     (r, s1) \<leftarrow> exfat_lookup io context path s;
     Some (case r of None \<Rightarrow> 0 | Some (c, node) \<Rightarrow> if is_directory_node node then 0 else en_data_length node, s1) }"

text \<open>The result and the bytes in the buffer, which is not null and has the size \<open>capacity\<close>.\<close>

definition exfat_context_read_file :: "'d block_io \<Rightarrow> EXFAT_CONTEXT option \<Rightarrow> bytes option \<Rightarrow> u64 \<Rightarrow> 'd exfat_state \<Rightarrow>
    ((u64 \<times> bytes) \<times> 'd exfat_state) option" where
  "exfat_context_read_file io context path capacity s = do {
     (r, s1) \<leftarrow> exfat_lookup io context path s;
     case r of
       None \<Rightarrow> Some ((0, []), s1)
     | Some (c, node) \<Rightarrow>
         if is_directory_node node then Some ((0, []), s1)
         else let n = min capacity (en_data_length node); valid = min n (en_valid_data_length node) in do {
           (b, s2) \<leftarrow> read_stream io c (en_first_cluster node) (en_no_fat_chain node) (en_valid_data_length node) 0 valid s1;
           Some (if of_nat (length b) \<noteq> valid then (of_nat (length b), b)
             else (n, b @ replicate (unat n - length b) 0), s2) } }"

definition exfat_list_visitor ::
  "u64 \<Rightarrow> EXFAT_NODE \<Rightarrow> EXFAT_FILE_INFO list \<Rightarrow> bool \<times> EXFAT_FILE_INFO list" where
  "exfat_list_visitor capacity node entries =
     (if length entries \<ge> unat capacity then (False, entries)
      else case exfat_utf16_to_utf8 (en_name node) 256 of
        None \<Rightarrow> (True, entries)
      | Some name \<Rightarrow>
          if name = [] then (True, entries)
          else let new = entries @ [\<lparr>exi_name = name, exi_size = en_data_length node,
              exi_is_directory = is_directory_node node, exi_read_only = True\<rparr>]
            in (length new < unat capacity, new))"

definition exfat_context_list_directory :: "'d block_io \<Rightarrow> EXFAT_CONTEXT option \<Rightarrow> bytes option \<Rightarrow> u64 \<Rightarrow> 'd exfat_state \<Rightarrow>
    ((u64 \<times> EXFAT_FILE_INFO list) \<times> 'd exfat_state) option" where
  "exfat_context_list_directory io context path capacity s =
     (if capacity = 0 then Some ((0, []), s)
      else do {
        (r, s1) \<leftarrow> exfat_lookup io context path s;
        case r of
          None \<Rightarrow> Some ((0, []), s1)
        | Some (c, node) \<Rightarrow>
            if \<not> is_directory_node node then Some ((0, []), s1)
            else do {
              (l, s2) \<leftarrow> visit_directory io c node (exfat_list_visitor capacity) [] s1;
              Some (case l of None \<Rightarrow> (0, []) | Some entries \<Rightarrow> (of_nat (length entries), entries), s2) } })"

section \<open>Changing\<close>

definition remount_verify :: "'d block_io \<Rightarrow> bytes \<Rightarrow> bool \<Rightarrow> bool \<Rightarrow> u64 \<Rightarrow> 'd exfat_state \<Rightarrow>
    (unit option \<times> 'd exfat_state) option" where
  "remount_verify io path there directory n s =
     on_success (exfat_context_create (Some io) s) (\<lambda>(p, c) s1. do {
       (found, s2) \<leftarrow> exfat_context_exists io (Some c) (Some path) s1;
       (ok, s3) \<leftarrow> (if found \<noteq> there then Some (False, s2)
         else if \<not> there then Some (True, s2)
         else do {
           (d, s3) \<leftarrow> exfat_context_is_directory io (Some c) (Some path) s2;
           if d \<noteq> directory then Some (False, s3)
           else if directory then Some (True, s3)
           else do { (k, s4) \<leftarrow> exfat_context_file_size io (Some c) (Some path) s3; Some (k = n, s4) } });
       s4 \<leftarrow> exfat_context_destroy (Some (p, c)) s3;
       Some (if ok then Some () else None, s4) })"

text \<open>The number of clusters for a size.\<close>

definition clusters_for :: "EXFAT_CONTEXT \<Rightarrow> u64 \<Rightarrow> u32" where
  "clusters_for c n = (if n = 0 then 0 else ucast ((n + ucast (ex_cluster_size c) - 1) div ucast (ex_cluster_size c)))"

text \<open>An array of clusters during a call, if there are any; the call is not made when it cannot be allocated.\<close>

definition with_array ::
  "u32 \<Rightarrow> ('d exfat_state \<Rightarrow> ('r option \<times> 'd exfat_state) option) \<Rightarrow> 'd exfat_state \<Rightarrow> ('r option \<times> 'd exfat_state) option" where
  "with_array n call s =
     (if n = 0 then call s
      else do {
        (p, s1) \<leftarrow> ex_alloc (ucast n * 4) s;
        if p = 0 then Some (None, s1)
        else do { (r, s2) \<leftarrow> call s1; s3 \<leftarrow> ex_free p s2; Some (r, s3) } })"

text \<open>New clusters for the contents: the first of them, or 0.\<close>

definition store_contents ::
  "'d block_io \<Rightarrow> EXFAT_CONTEXT \<Rightarrow> u32 \<Rightarrow> bytes \<Rightarrow> 'd exfat_state \<Rightarrow> (u32 option \<times> 'd exfat_state) option" where
  "store_contents io c n data s =
     (if n = 0 then Some (Some 0, s)
      else on_success (allocate_clusters io c n s) (\<lambda>clusters s1.
        on_success (write_new_clusters io c clusters data s1) (\<lambda>_ s2. Some (Some (clusters ! 0), s2))))"

definition create_entry :: "'d block_io \<Rightarrow> EXFAT_CONTEXT \<Rightarrow> bytes \<Rightarrow> u16 \<Rightarrow> bytes \<Rightarrow> 'd exfat_state \<Rightarrow>
    (unit option \<times> 'd exfat_state) option" where
  "create_entry io c path attributes buffer s = do {
     (there, s1) \<leftarrow> exfat_context_exists io (Some c) (Some path) s;
     if there then Some (None, s1)
     else case split_parent_path path of
       None \<Rightarrow> Some (None, s1)
     | Some (parent_path, leaf) \<Rightarrow>
         on_success (exfat_resolve_path io c parent_path s1) (\<lambda>parent s2.
           if \<not> is_directory_node parent then Some (None, s2)
           else let directory = (attributes AND EXFAT_ATTR_DIRECTORY \<noteq> 0);
                    n = (if directory then ucast (ex_cluster_size c) else of_nat (length buffer));
                    data = (if directory then [] else buffer);
                    cluster_count = (if directory then 1 else clusters_for c n) in
             with_array cluster_count (\<lambda>s3.
               on_success (exfat_transaction io c (\<lambda>s4.
                   on_success (store_contents io c cluster_count data s4) (\<lambda>first_cluster s5.
                     publish_entry io c parent leaf attributes first_cluster n n False s5)) s3)
                 (\<lambda>_ s4. remount_verify io path True directory (if directory then 0 else n) s4)) s2) }"

text \<open>What is done in a transaction to overwrite a file: new clusters, the entry, and then the old clusters are given
  back.\<close>

definition overwrite_body :: "'d block_io \<Rightarrow> EXFAT_CONTEXT \<Rightarrow> EXFAT_NODE \<Rightarrow> u32 \<Rightarrow> bytes \<Rightarrow> u32 list \<Rightarrow> 'd exfat_state \<Rightarrow>
    (unit option \<times> 'd exfat_state) option" where
  "overwrite_body io c node new_count buffer old_clusters s =
     on_success (store_contents io c new_count buffer s) (\<lambda>first_cluster s1.
     on_success (update_node_stream io c node first_cluster (of_nat (length buffer)) (of_nat (length buffer)) False s1) (\<lambda>_ s2.
     exfat_free_clusters io c old_clusters s2))"

text \<open>The last two cases of \<open>exfat_context_write_file\<close>: a file that exists.\<close>

definition overwrite_file :: "'d block_io \<Rightarrow> EXFAT_CONTEXT \<Rightarrow> bytes \<Rightarrow> EXFAT_NODE \<Rightarrow> bytes \<Rightarrow> 'd exfat_state \<Rightarrow>
    (unit option \<times> 'd exfat_state) option" where
  "overwrite_file io c path node buffer s =
     (if is_directory_node node then Some (None, s)
      else on_success (collect_clusters io c node s) (\<lambda>(p, old_clusters) s1. do {
        let n = of_nat (length buffer);
        let new_count = clusters_for c n;
        (q, s2) \<leftarrow> (if new_count \<noteq> 0 then ex_alloc (ucast new_count * 4) s1 else Some (0, s1));
        (r, s3) \<leftarrow> (if new_count \<noteq> 0 \<and> q = 0 then Some (None, s2)
          else on_success (exfat_transaction io c (overwrite_body io c node new_count buffer old_clusters) s2)
            (\<lambda>_ s4. remount_verify io path True False n s4));
        s4 \<leftarrow> ex_free p s3;
        s5 \<leftarrow> (if q \<noteq> 0 then ex_free q s4 else Some s4);
        Some (r, s5) }))"

text \<open>\<open>buffer\<close> holds the bytes to be written, or is null.\<close>

definition exfat_context_write_file :: "'d block_io \<Rightarrow> EXFAT_CONTEXT option \<Rightarrow> bytes option \<Rightarrow> bytes option \<Rightarrow> u64 \<Rightarrow>
    'd exfat_state \<Rightarrow> (bool \<times> 'd exfat_state) option" where
  "exfat_context_write_file io context path buffer n s =
     (case (context, path) of
        (Some c, Some p) \<Rightarrow>
          if n \<noteq> 0 \<and> buffer = None then Some (False, s)
          else let data = (case buffer of None \<Rightarrow> [] | Some b \<Rightarrow> take (unat n) b) in do {
            (r, s1) \<leftarrow> exfat_resolve_path io c p s;
            (ok, s2) \<leftarrow> (case r of
              None \<Rightarrow> create_entry io c p 0x20 data s1
            | Some node \<Rightarrow> overwrite_file io c p node data s1);
            Some (ok \<noteq> None, s2) }
      | _ \<Rightarrow> Some (False, s))"

definition count_visitor :: "EXFAT_NODE \<Rightarrow> u32 \<Rightarrow> bool \<times> u32" where
  "count_visitor node n = (False, n + 1)"

definition directory_empty ::
  "'d block_io \<Rightarrow> EXFAT_CONTEXT \<Rightarrow> EXFAT_NODE \<Rightarrow> 'd exfat_state \<Rightarrow> (unit option \<times> 'd exfat_state) option" where
  "directory_empty io c directory s = on_success (visit_directory io c directory count_visitor 0 s)
     (\<lambda>n s1. Some (if n = 0 then Some () else None, s1))"

definition delete_body ::
  "'d block_io \<Rightarrow> EXFAT_CONTEXT \<Rightarrow> EXFAT_NODE \<Rightarrow> u32 list \<Rightarrow> 'd exfat_state \<Rightarrow> (unit option \<times> 'd exfat_state) option" where
  "delete_body io c node clusters s =
     on_success (retire_entry io c node s) (\<lambda>_ s1. exfat_free_clusters io c clusters s1)"

definition exfat_delete_entry ::
  "'d block_io \<Rightarrow> EXFAT_CONTEXT \<Rightarrow> bytes \<Rightarrow> bool \<Rightarrow> 'd exfat_state \<Rightarrow> (unit option \<times> 'd exfat_state) option" where
  "exfat_delete_entry io c path directory s =
     on_success (exfat_resolve_path io c path s) (\<lambda>node s1.
       if is_directory_node node \<noteq> directory then Some (None, s1)
       else on_success (if directory then directory_empty io c node s1 else Some (Some (), s1)) (\<lambda>_ s2.
         on_success (collect_clusters io c node s2) (\<lambda>(p, clusters) s3. do {
           (r, s4) \<leftarrow> on_success (exfat_transaction io c (delete_body io c node clusters) s3)
             (\<lambda>_ s4. remount_verify io path False False 0 s4);
           s5 \<leftarrow> ex_free p s4;
           Some (r, s5) })))"

definition exfat_call ::
  "(EXFAT_CONTEXT \<Rightarrow> bytes \<Rightarrow> 'd exfat_state \<Rightarrow> (unit option \<times> 'd exfat_state) option) \<Rightarrow> EXFAT_CONTEXT option \<Rightarrow> bytes option \<Rightarrow>
   'd exfat_state \<Rightarrow> (bool \<times> 'd exfat_state) option" where
  "exfat_call f context path s =
     (case (context, path) of
        (Some c, Some p) \<Rightarrow> map_option (\<lambda>(r, s1). (r \<noteq> None, s1)) (f c p s)
      | _ \<Rightarrow> Some (False, s))"

definition exfat_context_delete_file ::
  "'d block_io \<Rightarrow> EXFAT_CONTEXT option \<Rightarrow> bytes option \<Rightarrow> 'd exfat_state \<Rightarrow> (bool \<times> 'd exfat_state) option" where
  "exfat_context_delete_file io = exfat_call (\<lambda>c p. exfat_delete_entry io c p False)"

definition exfat_context_create_directory ::
  "'d block_io \<Rightarrow> EXFAT_CONTEXT option \<Rightarrow> bytes option \<Rightarrow> 'd exfat_state \<Rightarrow> (bool \<times> 'd exfat_state) option" where
  "exfat_context_create_directory io = exfat_call (\<lambda>c p. create_entry io c p EXFAT_ATTR_DIRECTORY [])"

definition exfat_context_delete_directory ::
  "'d block_io \<Rightarrow> EXFAT_CONTEXT option \<Rightarrow> bytes option \<Rightarrow> 'd exfat_state \<Rightarrow> (bool \<times> 'd exfat_state) option" where
  "exfat_context_delete_directory io = exfat_call (\<lambda>c p. exfat_delete_entry io c p True)"

fun path_is_descendant :: "bytes \<Rightarrow> bytes \<Rightarrow> bool" where
  "path_is_descendant [] candidate = (candidate \<noteq> [] \<and> hd candidate = 0x2F)"
| "path_is_descendant (p # parent) [] = False"
| "path_is_descendant (p # parent) (x # candidate) = (p = x \<and> path_is_descendant parent candidate)"

definition rename_entry :: "'d block_io \<Rightarrow> EXFAT_CONTEXT \<Rightarrow> bytes \<Rightarrow> bytes \<Rightarrow> 'd exfat_state \<Rightarrow>
    (unit option \<times> 'd exfat_state) option" where
  "rename_entry io c source destination s =
     on_success (exfat_resolve_path io c source s) (\<lambda>node s1. do {
       (there, s2) \<leftarrow> exfat_context_exists io (Some c) (Some destination) s1;
       if there then Some (None, s2)
       else case split_parent_path destination of
         None \<Rightarrow> Some (None, s2)
       | Some (parent_path, leaf) \<Rightarrow>
           on_success (exfat_resolve_path io c parent_path s2) (\<lambda>parent s3.
             let directory = is_directory_node node in
             if \<not> is_directory_node parent \<or> directory \<and> path_is_descendant source destination then Some (None, s3)
             else on_success (exfat_transaction io c (\<lambda>s4.
                 on_success (publish_entry io c parent leaf (en_attributes node) (en_first_cluster node)
                   (en_data_length node) (en_valid_data_length node) (en_no_fat_chain node) s4) (\<lambda>_ s5.
                 on_success (exfat_resolve_path io c source s5) (\<lambda>refreshed s6. retire_entry io c refreshed s6))) s3) (\<lambda>_ s4.
               on_success (remount_verify io source False False 0 s4) (\<lambda>_ s5.
               remount_verify io destination True directory (if directory then 0 else en_data_length node) s5))) })"

definition exfat_context_rename :: "'d block_io \<Rightarrow> EXFAT_CONTEXT option \<Rightarrow> bytes option \<Rightarrow> bytes option \<Rightarrow> 'd exfat_state \<Rightarrow>
    (bool \<times> 'd exfat_state) option" where
  "exfat_context_rename io context source destination s =
     (case destination of
        None \<Rightarrow> Some (False, s)
      | Some d \<Rightarrow> exfat_call (\<lambda>c p. rename_entry io c p d) context source s)"

definition exfat_context_sync ::
  "'d block_io \<Rightarrow> EXFAT_CONTEXT option \<Rightarrow> 'd exfat_state \<Rightarrow> (bool \<times> 'd exfat_state) option" where
  "exfat_context_sync io context s =
     (case context of None \<Rightarrow> Some (False, s) | Some c \<Rightarrow> map_option (\<lambda>(r, s1). (r \<noteq> None, s1)) (ex_flush io s))"

end
