(* ===== verification/Exfat_Transactions.thy ===== *)
theory Exfat_Transactions
  imports Exfat_Operations Exfat_Names Device_Store
begin

text \<open>
  Transactions of exFAT are atomic.  During a transaction the disk differs from what it was before only in sectors that
  the journal holds a copy of, and in a set \<open>F\<close> of sectors that were not in use (\<open>journaled\<close>).  Everything the
  operations do keeps this; rolling back restores the disk outside of \<open>F\<close>, frees the buffers of the journal, and ends the
  transaction.  The set \<open>F\<close> are the sectors of the clusters that the bitmap marks as free.
\<close>

section \<open>What the sectors hold\<close>

definition fat_entry :: "(u64 \<Rightarrow> bytes) \<Rightarrow> EXFAT_CONTEXT \<Rightarrow> u32 \<Rightarrow> u32" where
  "fat_entry C c cluster = u32_at (fat_offset_in c cluster) (C (ucast (ex_fat_offset c) + exfat_fat_sector c cluster))"

primrec chain_entry :: "(u64 \<Rightarrow> bytes) \<Rightarrow> EXFAT_CONTEXT \<Rightarrow> nat \<Rightarrow> u32 \<Rightarrow> u32" where
  "chain_entry C c 0 cluster = cluster"
| "chain_entry C c (Suc n) cluster = chain_entry C c n (fat_entry C c cluster)"

definition stream_cluster_in :: "(u64 \<Rightarrow> bytes) \<Rightarrow> EXFAT_CONTEXT \<Rightarrow> u32 \<Rightarrow> bool \<Rightarrow> u32 \<Rightarrow> u32" where
  "stream_cluster_in C c first_cluster no_fat_chain index =
     (if no_fat_chain then first_cluster + index else chain_entry C c (unat index) first_cluster)"

definition stream_sector :: "(u64 \<Rightarrow> bytes) \<Rightarrow> EXFAT_CONTEXT \<Rightarrow> u32 \<Rightarrow> bool \<Rightarrow> u64 \<Rightarrow> u64" where
  "stream_sector C c first_cluster no_fat_chain offset =
     cluster_lba c (stream_cluster_in C c first_cluster no_fat_chain (ucast (offset div ucast (ex_cluster_size c))))
     + ucast (ucast (offset mod ucast (ex_cluster_size c)) div ex_sector_size c)"

definition stream_byte :: "(u64 \<Rightarrow> bytes) \<Rightarrow> EXFAT_CONTEXT \<Rightarrow> u32 \<Rightarrow> bool \<Rightarrow> u64 \<Rightarrow> u8" where
  "stream_byte C c first_cluster no_fat_chain offset = C (stream_sector C c first_cluster no_fat_chain offset)
     ! unat (ucast (offset mod ucast (ex_cluster_size c)) mod ex_sector_size c)"

definition cluster_is_free :: "(u64 \<Rightarrow> bytes) \<Rightarrow> EXFAT_CONTEXT \<Rightarrow> u32 \<Rightarrow> bool" where
  "cluster_is_free C c cluster \<longleftrightarrow> valid_cluster c cluster
     \<and> stream_byte C c (ex_bitmap_first_cluster c) False (drop_bit 3 (ucast (cluster - 2))) AND bitmap_mask cluster = 0"

definition free_sectors :: "(u64 \<Rightarrow> bytes) \<Rightarrow> EXFAT_CONTEXT \<Rightarrow> u64 set" where
  "free_sectors C c = (\<Union>cluster \<in> {k. cluster_is_free C c k}. set (exfat_cluster_sectors c cluster))"

text \<open>The sectors of a mounted volume: of the size of the blocks of its device.\<close>

definition sectors_fit :: "u32 \<Rightarrow> EXFAT_CONTEXT \<Rightarrow> bool" where
  "sectors_fit bs c \<longleftrightarrow> ex_sector_size c = bs \<and> 512 \<le> unat bs \<and> 4 dvd unat bs"

lemma fat_offset_fits:
  assumes "sectors_fit bs c"
  shows "fat_offset_in c cluster + 4 \<le> unat bs"
proof -
  have b: "ex_sector_size c = bs" "512 \<le> unat bs" "4 dvd unat bs" using assms by (simp_all add: sectors_fit_def)
  have "unat (ucast cluster * 4 :: u64) = unat cluster * 4"
  proof -
    have "unat cluster * 4 < 18446744073709551616" using unat_less_32 [of cluster] by linarith
    then show ?thesis by (subst unat_mult_lem [THEN iffD1]) simp_all
  qed
  then have e: "fat_offset_in c cluster = unat cluster * 4 mod unat bs"
    by (simp add: fat_offset_in_def b unat_mod_distrib)
  obtain k where k: "unat bs = 4 * k" using b(3) by auto
  have "unat cluster * 4 mod unat bs = 4 * (unat cluster mod k)" unfolding k by (simp add: mult.commute mod_mult_mult1)
  moreover have "unat cluster mod k < k" using b(2) k by simp
  ultimately show ?thesis unfolding e k by simp
qed

text \<open>Which clusters are free does not depend on the boot sectors.\<close>

lemma heap_sector_bound:
  fixes heap_offset a b k :: u32
  shows "ucast heap_offset \<le> (ucast heap_offset + ucast a * ucast b + ucast k :: u64)"
proof -
  have a: "unat a \<le> 4294967295" and b: "unat b \<le> 4294967295" and k: "unat k \<le> 4294967295" and h: "unat heap_offset \<le> 4294967295"
    using unat_less_32 [of a] unat_less_32 [of b] unat_less_32 [of k] unat_less_32 [of heap_offset] by linarith+
  have ab: "unat a * unat b \<le> 4294967295 * 4294967295" using mult_le_mono [OF a b] .
  then have m: "unat (ucast a * ucast b :: u64) = unat a * unat b"
    by (subst unat_mult_lem [THEN iffD1]) (simp_all add: order_le_less_trans)
  have s1: "unat (ucast heap_offset + ucast a * ucast b :: u64) = unat heap_offset + unat a * unat b"
    using ab h by (subst unat_add_lem [THEN iffD1]) (simp_all add: m)
  have "unat (ucast heap_offset + ucast a * ucast b + ucast k :: u64) = unat heap_offset + unat a * unat b + unat k"
    using ab h k by (subst unat_add_lem [THEN iffD1]) (simp_all add: s1)
  then show ?thesis by (simp add: word_le_nat_alt)
qed

lemma heap_sector_beyond:
  assumes "12 < ex_cluster_heap_offset c"
  shows "cluster_lba c cluster + ucast (k :: u32) \<noteq> 0" "cluster_lba c cluster + ucast (k :: u32) \<noteq> 12"
proof -
  have "ucast (ex_cluster_heap_offset c) \<le> cluster_lba c cluster + ucast k"
    unfolding cluster_lba_def by (rule heap_sector_bound)
  moreover have "(12 :: u64) < ucast (ex_cluster_heap_offset c)" using assms by (simp add: word_less_nat_alt)
  ultimately have "12 < cluster_lba c cluster + ucast k" by simp
  then show "cluster_lba c cluster + ucast k \<noteq> 0" "cluster_lba c cluster + ucast k \<noteq> 12" by auto
qed

lemma fat_sector_beyond:
  assumes "12 < ex_fat_offset c"
  shows "ucast (ex_fat_offset c) + exfat_fat_sector c cluster \<noteq> 0" "ucast (ex_fat_offset c) + exfat_fat_sector c cluster \<noteq> 12"
proof -
  have u: "unat cluster < 4294967296" "unat (ex_fat_offset c) < 4294967296" by (rule unat_less_32)+
  have "unat cluster * 4 < 18446744073709551616" using u(1) by linarith
  then have "unat (ucast cluster * 4 :: u64) = unat cluster * 4"
    by (subst unat_mult_lem [THEN iffD1]) simp_all
  then have "unat (exfat_fat_sector c cluster) \<le> unat cluster * 4"
    by (simp add: exfat_fat_sector_def unat_div_distrib)
  then have "unat (ex_fat_offset c) + unat (exfat_fat_sector c cluster) < 18446744073709551616" using u by linarith
  then have "unat (ucast (ex_fat_offset c) + exfat_fat_sector c cluster :: u64)
      = unat (ex_fat_offset c) + unat (exfat_fat_sector c cluster)"
    by (subst unat_add_lem [THEN iffD1]) simp_all
  then have "12 < unat (ucast (ex_fat_offset c) + exfat_fat_sector c cluster :: u64)"
    using assms by (simp add: word_less_nat_alt)
  then show "ucast (ex_fat_offset c) + exfat_fat_sector c cluster \<noteq> 0"
    "ucast (ex_fat_offset c) + exfat_fat_sector c cluster \<noteq> 12" by auto
qed

lemma cluster_is_free_unchanged:
  assumes "\<forall>lba. lba \<noteq> 0 \<longrightarrow> lba \<noteq> 12 \<longrightarrow> C lba = B lba" "12 < ex_cluster_heap_offset c" "12 < ex_fat_offset c"
  shows "cluster_is_free C c cluster \<longleftrightarrow> cluster_is_free B c cluster"
proof -
  have entry: "fat_entry C c k = fat_entry B c k" for k
    using assms(1) fat_sector_beyond [OF assms(3)] by (simp add: fat_entry_def)
  have chain: "chain_entry C c n k = chain_entry B c n k" for n k
    by (induction n arbitrary: k) (simp_all add: entry)
  have "stream_byte C c fc nfc offset = stream_byte B c fc nfc offset" for fc nfc offset
    using assms(1) heap_sector_beyond [OF assms(2)]
    by (simp add: stream_byte_def stream_sector_def stream_cluster_in_def chain)
  then show ?thesis by (simp add: cluster_is_free_def)
qed

section \<open>The journal\<close>

text \<open>Each entry holds what is to be restored, outside of the sectors \<open>F\<close>; the addresses are in \<open>J\<close>.\<close>

definition entries_ok :: "nat \<Rightarrow> (u64 \<Rightarrow> bytes) \<Rightarrow> u64 set \<Rightarrow> u64 set \<Rightarrow> EXFAT_JOURNAL_ENTRY list \<Rightarrow> bool" where
  "entries_ok n B F J entries \<longleftrightarrow> (\<forall>e \<in> set entries. je_lba e \<in> J \<and> length (je_data e) = n
     \<and> (je_lba e \<notin> F \<longrightarrow> je_data e = B (je_lba e)))"

text \<open>The buffers in use are those of the journal and \<open>L\<close>.\<close>

definition buffers_ok :: "(u64 \<times> u64) set \<Rightarrow> heap_state \<Rightarrow> EXFAT_JOURNAL_ENTRY list \<Rightarrow> bool" where
  "buffers_ok L h entries \<longleftrightarrow> (\<exists>bs. heap_wf h bs) \<and> distinct (map je_before entries)
     \<and> je_before ` set entries \<subseteq> fst ` heap_live h \<and> L = {b \<in> heap_live h. fst b \<notin> je_before ` set entries}"

lemma buffers_alloc:
  assumes "buffers_ok L h entries"
  shows "\<exists>p h'. kmalloc n h = Some (p, h') \<and> (p = 0 \<longrightarrow> buffers_ok L h' entries)
    \<and> (p \<noteq> 0 \<longrightarrow> (\<forall>e. je_before e = p \<longrightarrow> buffers_ok L h' (entries @ [e])))"
proof -
  have b: "\<exists>bs. heap_wf h bs" "distinct (map je_before entries)" "je_before ` set entries \<subseteq> fst ` heap_live h"
    "L = {b \<in> heap_live h. fst b \<notin> je_before ` set entries}" using assms by (simp_all add: buffers_ok_def)
  obtain p h' where a: "kmalloc n h = Some (p, h')" "\<exists>bs. heap_wf h' bs" using kheap.alloc_total [OF b(1)] by blast
  have "buffers_ok L h' entries" if "p = 0"
    using b a(2) kheap.alloc_null [OF b(1)] a(1) that by (simp add: buffers_ok_def)
  moreover have "buffers_ok L h' (entries @ [e])" if "p \<noteq> 0" "je_before e = p" for e
  proof -
    note p = that
    obtain z where z: "p \<notin> fst ` heap_live h" "heap_live h' = insert (p, z) (heap_live h)"
      using kheap.alloc_live [OF b(1) a(1) p(1)] by blast
    have "p \<notin> je_before ` set entries" using z(1) b(3) by blast
    then show ?thesis
      unfolding buffers_ok_def using a(2) b z p by (auto simp: image_iff)
  qed
  ultimately show ?thesis using a(1) by blast
qed

lemma buffers_free:
  assumes "buffers_ok L h (entries @ [e])"
  shows "\<exists>h'. kfree (je_before e) h = Some h' \<and> buffers_ok L h' entries"
proof -
  have b: "\<exists>bs. heap_wf h bs" "distinct (map je_before entries)" "je_before e \<notin> je_before ` set entries"
    "je_before ` set entries \<subseteq> fst ` heap_live h" "je_before e \<in> fst ` heap_live h"
    "L = {b \<in> heap_live h. fst b \<notin> insert (je_before e) (je_before ` set entries)}"
    using assms by (auto simp: buffers_ok_def)
  obtain h' where h: "kfree (je_before e) h = Some h'" "\<exists>bs. heap_wf h' bs" "heap_live h' = {b \<in> heap_live h. fst b \<noteq> je_before e}"
    using kheap.release_live [OF b(1,5)] by blast
  have "je_before ` set entries \<subseteq> fst ` heap_live h'" using b(3,4) h(3) by (force simp: image_iff)
  moreover have "L = {b \<in> heap_live h'. fst b \<notin> je_before ` set entries}" using b(6) h(3) by auto
  ultimately show ?thesis using h b(2) by (auto simp: buffers_ok_def)
qed

lemma buffers_freed: "buffers_ok L h [] \<longleftrightarrow> (\<exists>bs. heap_wf h bs) \<and> heap_live h = L"
  by (auto simp: buffers_ok_def)

lemma returns_on_success_or:
  "returns held m (succ_if Q) \<Longrightarrow> P None \<Longrightarrow> (\<And>x s. held s \<Longrightarrow> Q x \<Longrightarrow> returns held (f x s) P) \<Longrightarrow>
    returns held (on_success m f) P"
  by (fastforce simp: returns_def on_success_def split: option.splits)

abbreviation goes_on :: "('s \<Rightarrow> bool) \<Rightarrow> ('r \<times> 's) option \<Rightarrow> bool" where
  "goes_on held m \<equiv> returns held m (\<lambda>_. True)"

named_theorems goes_on_rules \<open>what comes back and keeps the invariant\<close>

lemma goes_on_return [goes_on_rules]: "held s \<Longrightarrow> goes_on held (Some (r, s))"
  by (simp add: returns_value)

lemma goes_on_success [goes_on_rules]:
  "goes_on held m \<Longrightarrow> (\<And>x s. held s \<Longrightarrow> goes_on held (f x s)) \<Longrightarrow> goes_on held (on_success m f)"
  by (rule returns_on_success_or [where Q = "\<lambda>_. True"]) simp_all

lemma goes_on_bind [goes_on_rules]:
  "goes_on held m \<Longrightarrow> (\<And>r s. held s \<Longrightarrow> goes_on held (f r s)) \<Longrightarrow> goes_on held (m \<bind> (\<lambda>(r, s). f r s))"
  by (rule returns_bind)

lemma goes_on_if [goes_on_rules]: "(b \<Longrightarrow> goes_on held m) \<Longrightarrow> (\<not> b \<Longrightarrow> goes_on held m') \<Longrightarrow> goes_on held (if b then m else m')"
  by simp

lemma for_each_goes_on:
  "(\<And>x s. x \<in> set xs \<Longrightarrow> held s \<Longrightarrow> goes_on held (body x s)) \<Longrightarrow> held s \<Longrightarrow> goes_on held (for_each body xs s)"
  by (induction xs arbitrary: s) (auto intro!: goes_on_rules)

context block_store
begin

abbreviation block_bytes_of :: nat where
  "block_bytes_of \<equiv> unat (io_block_size io)"

definition journaled :: "(u64 \<Rightarrow> bytes) \<Rightarrow> u64 set \<Rightarrow> u64 set \<Rightarrow> (u64 \<times> u64) set \<Rightarrow> 'd exfat_state \<Rightarrow> bool" where
  "journaled B F J L s \<longleftrightarrow> ex_transaction_active s
     \<and> (\<exists>C. stored C (ex_dev s) \<and> (\<forall>lba. lba \<notin> F \<longrightarrow> lba \<notin> je_lba ` set (ex_journal s) \<longrightarrow> C lba = B lba))
     \<and> entries_ok block_bytes_of B F J (ex_journal s) \<and> buffers_ok L (ex_heap s) (ex_journal s)"

text \<open>After a transaction: all sectors that can be written are as in \<open>B\<close>, outside of \<open>F\<close>.\<close>

definition ended :: "(u64 \<Rightarrow> bytes) \<Rightarrow> u64 set \<Rightarrow> (u64 \<times> u64) set \<Rightarrow> 'd exfat_state \<Rightarrow> bool" where
  "ended B F L s \<longleftrightarrow> \<not> ex_transaction_active s \<and> ex_journal s = []
     \<and> (\<exists>C. stored C (ex_dev s) \<and> (\<forall>lba. lba \<notin> F \<longrightarrow> works lba \<longrightarrow> C lba = B lba))
     \<and> buffers_ok L (ex_heap s) []"

lemma restore_entries_restores:
  assumes "stored C (ex_dev s)" "entries_ok block_bytes_of B F J entries" "buffers_ok L (ex_heap s) entries"
    "\<forall>lba. lba \<notin> F \<longrightarrow> lba \<notin> je_lba ` set entries \<longrightarrow> works lba \<longrightarrow> C lba = B lba"
  shows "\<exists>ok' d h C'. restore_entries io (rev entries) ok s = Some (ok', s\<lparr>ex_dev := d, ex_heap := h\<rparr>)
    \<and> stored C' d \<and> (\<forall>lba. lba \<notin> F \<longrightarrow> works lba \<longrightarrow> C' lba = B lba) \<and> buffers_ok L h []"
  using assms
proof (induction entries arbitrary: C s ok rule: rev_induct)
  case Nil
  then show ?case by (intro exI [of _ ok] exI [of _ "ex_dev s"] exI [of _ "ex_heap s"] exI [of _ C]) simp
next
  case (snoc e entries)
  have e: "length (je_data e) = block_bytes_of" "je_lba e \<notin> F \<Longrightarrow> je_data e = B (je_lba e)"
    "entries_ok block_bytes_of B F J entries" using snoc.prems(2) by (auto simp: entries_ok_def)
  obtain w d where w: "io_write io (je_lba e) 1 (je_data e) (ex_dev s) = Some (w, d)"
    "stored (if w then C(je_lba e := je_data e) else C) d" "works (je_lba e) \<longrightarrow> w"
    using store_write [OF snoc.prems(1) e(1)] by blast
  obtain h where h: "kfree (je_before e) (ex_heap s) = Some h" "buffers_ok L h entries"
    using buffers_free [OF snoc.prems(3)] by blast
  let ?s = "s\<lparr>ex_dev := d, ex_heap := h\<rparr>"
  define C1 where "C1 = (if w then C(je_lba e := je_data e) else C)"
  have "\<forall>lba. lba \<notin> F \<longrightarrow> lba \<notin> je_lba ` set entries \<longrightarrow> works lba \<longrightarrow> C1 lba = B lba"
    using snoc.prems(4) e(2) w(3) by (auto simp: C1_def)
  moreover have "stored C1 (ex_dev ?s)" using w(2) by (simp add: C1_def)
  ultimately obtain ok' d' h' C' where "restore_entries io (rev entries) (ok \<and> w) ?s = Some (ok', ?s\<lparr>ex_dev := d', ex_heap := h'\<rparr>)"
    "stored C' d'" "\<forall>lba. lba \<notin> F \<longrightarrow> works lba \<longrightarrow> C' lba = B lba" "buffers_ok L h' []"
    using snoc.IH [of C1 ?s "ok \<and> w", OF _ e(3)] h(2) by auto
  then show ?case
    by (intro exI [of _ ok'] exI [of _ d'] exI [of _ h'] exI [of _ C'])
       (auto simp: ex_write_def ex_free_def w(1) h(1))
qed

lemma rollback_ended:
  assumes "journaled B F J L s"
  shows "returns (ended B F L) (transaction_rollback io s) (\<lambda>_. True)"
proof -
  obtain C where C: "stored C (ex_dev s)" "\<forall>lba. lba \<notin> F \<longrightarrow> lba \<notin> je_lba ` set (ex_journal s) \<longrightarrow> works lba \<longrightarrow> C lba = B lba"
    using assms by (auto simp: journaled_def)
  obtain ok d h C' where r: "restore_entries io (rev (ex_journal s)) True s = Some (ok, s\<lparr>ex_dev := d, ex_heap := h\<rparr>)"
    "stored C' d" "\<forall>lba. lba \<notin> F \<longrightarrow> works lba \<longrightarrow> C' lba = B lba" "buffers_ok L h []"
    using restore_entries_restores [OF C(1) _ _ C(2)] assms unfolding journaled_def by blast
  obtain f d' where "io_flush io d = Some (f, d')" "stored C' d'"
    using store_flush [OF r(2)] by (auto simp: returns_def)
  then show ?thesis
    using r by (auto simp: transaction_rollback_def ex_flush_def returns_def ended_def)
qed

lemma release_entries_releases:
  "buffers_ok L (ex_heap s) entries \<Longrightarrow> \<exists>h. release_entries (rev entries) s = Some (s\<lparr>ex_heap := h\<rparr>) \<and> buffers_ok L h []"
proof (induction entries arbitrary: s rule: rev_induct)
  case Nil
  then show ?case by (intro exI [of _ "ex_heap s"]) simp
next
  case (snoc e entries)
  obtain h where h: "kfree (je_before e) (ex_heap s) = Some h" "buffers_ok L h entries"
    using buffers_free [OF snoc.prems] by blast
  obtain h' where "release_entries (rev entries) (s\<lparr>ex_heap := h\<rparr>) = Some (s\<lparr>ex_heap := h'\<rparr>)" "buffers_ok L h' []"
    using snoc.IH [of "s\<lparr>ex_heap := h\<rparr>"] h(2) by auto
  then show ?case using h(1) by (intro exI [of _ h']) (simp add: ex_free_def)
qed

lemma release_ended:
  assumes "journaled B F J L s"
  shows "\<exists>s'. transaction_release s = Some s' \<and> ended B UNIV L s'"
  using release_entries_releases [of L s "ex_journal s"] assms
  by (auto simp: transaction_release_def journaled_def ended_def)

section \<open>What keeps the invariant\<close>

lemma ex_read_journaled:
  "journaled B F J L s \<Longrightarrow> returns (journaled B F J L) (ex_read io lba s) (succ_if (\<lambda>b. length b = block_bytes_of))"
proof -
  assume j: "journaled B F J L s"
  then obtain C where C: "stored C (ex_dev s)" "\<forall>lba. lba \<notin> F \<longrightarrow> lba \<notin> je_lba ` set (ex_journal s) \<longrightarrow> C lba = B lba"
    by (auto simp: journaled_def)
  obtain r d where "io_read io lba (ex_dev s) = Some (r, d)" "stored C d" "succ_if (\<lambda>b. b = C lba) r"
    using store_read [OF C(1), of lba] unfolding returns_def by blast
  then show ?thesis
    using j C(2) store_length [OF C(1)] by (auto simp: ex_read_def returns_def journaled_def)
qed

lemma read_sector_journaled:
  "journaled B F J L s \<Longrightarrow>
    returns (journaled B F J L) (exfat_read_sector io c lba s) (succ_if (\<lambda>b. length b = block_bytes_of))"
  by (simp add: exfat_read_sector_def ex_read_journaled returns_value)

lemma ex_flush_journaled: "journaled B F J L s \<Longrightarrow> returns (journaled B F J L) (ex_flush io s) (\<lambda>_. True)"
  using store_flush by (fastforce simp: ex_flush_def returns_def journaled_def)

text \<open>A sector that may hold anything is written without the journal.\<close>

lemma ex_write_journaled:
  assumes "journaled B F J L s" "lba \<in> F \<or> lba \<in> je_lba ` set (ex_journal s)" "length data = block_bytes_of"
  shows "returns (journaled B F J L) (ex_write io lba data s) (\<lambda>_. True)"
proof -
  obtain C where C: "stored C (ex_dev s)" "\<forall>lba. lba \<notin> F \<longrightarrow> lba \<notin> je_lba ` set (ex_journal s) \<longrightarrow> C lba = B lba"
    using assms(1) by (auto simp: journaled_def)
  obtain w d where w: "io_write io lba 1 data (ex_dev s) = Some (w, d)" "stored (if w then C(lba := data) else C) d"
    using store_write [OF C(1) assms(3)] by blast
  have "\<forall>k. k \<notin> F \<longrightarrow> k \<notin> je_lba ` set (ex_journal s) \<longrightarrow> (if w then C(lba := data) else C) k = B k"
    using C(2) assms(2) by auto
  then show ?thesis
    using assms(1) w by (auto simp: ex_write_def returns_def journaled_def)
qed

lemma journal_sector_journaled:
  assumes "journaled B F J L s" "lba \<in> J"
  shows "\<exists>r s'. journal_sector io c lba s = Some (r, s') \<and> journaled B F J L s'
    \<and> (r \<noteq> None \<longrightarrow> lba \<in> je_lba ` set (ex_journal s'))"
proof (cases "\<exists>e \<in> set (ex_journal s). je_lba e = lba")
  case True
  then show ?thesis using assms(1) by (auto simp: journal_sector_def)
next
  case False
  then have new: "lba \<notin> je_lba ` set (ex_journal s)" by auto
  obtain C where C: "stored C (ex_dev s)" "\<forall>k. k \<notin> F \<longrightarrow> k \<notin> je_lba ` set (ex_journal s) \<longrightarrow> C k = B k"
    and e: "entries_ok block_bytes_of B F J (ex_journal s)" and b: "buffers_ok L (ex_heap s) (ex_journal s)"
    and act: "ex_transaction_active s"
    using assms(1) by (auto simp: journaled_def)
  show ?thesis
  proof (cases "length (ex_journal s) \<ge> EXFAT_MAX_TRANSACTION_SECTORS")
    case True
    then show ?thesis using False assms(1) by (simp add: journal_sector_def)
  next
    case room: False
    obtain p h where a: "kmalloc (ucast (ex_sector_size c)) (ex_heap s) = Some (p, h)"
      "p = 0 \<longrightarrow> buffers_ok L h (ex_journal s)"
      "p \<noteq> 0 \<longrightarrow> (\<forall>e. je_before e = p \<longrightarrow> buffers_ok L h (ex_journal s @ [e]))"
      using buffers_alloc [OF b] by blast
    let ?s1 = "s\<lparr>ex_heap := h\<rparr>"
    show ?thesis
    proof (cases "p = 0")
      case True
      then show ?thesis using False room a C e act
        by (auto simp: journal_sector_def ex_alloc_def journaled_def)
    next
      case p: False
      obtain r d where r: "exfat_read_sector io c lba ?s1 = Some (r, ?s1\<lparr>ex_dev := d\<rparr>)" "stored C d" "succ_if (\<lambda>x. x = C lba) r"
      proof (cases "lba < ex_volume_length c")
        case True
        obtain r d where "io_read io lba (ex_dev s) = Some (r, d)" "stored C d" "succ_if (\<lambda>x. x = C lba) r"
          using store_read [OF C(1), of lba] unfolding returns_def by blast
        then show ?thesis using that [of r d] True by (simp add: exfat_read_sector_def ex_read_def)
      next
        case False
        then show ?thesis using that [of None "ex_dev s"] C(1) by (simp add: exfat_read_sector_def)
      qed
      show ?thesis
      proof (cases r)
        case None
        obtain h' where "kfree p h = Some h'" "buffers_ok L h' (ex_journal s)"
          using buffers_free [of L h "ex_journal s" "\<lparr>je_lba = 0, je_before = p, je_data = []\<rparr>"] a(3) p by auto
        then show ?thesis
          using False room a(1) p r None C e act by (auto simp: journal_sector_def ex_alloc_def ex_free_def journaled_def)
      next
        case (Some x)
        then have x: "x = C lba" using r(3) by simp
        let ?e = "\<lparr>je_lba = lba, je_before = p, je_data = x\<rparr>"
        let ?s2 = "s\<lparr>ex_heap := h, ex_dev := d, ex_journal := ex_journal s @ [?e]\<rparr>"
        have "entries_ok block_bytes_of B F J (ex_journal s @ [?e])"
          using e C(2) new x assms(2) store_length [OF C(1)] by (auto simp: entries_ok_def)
        then have "journaled B F J L ?s2"
          using a(3) p C(2) r(2) act by (auto simp: journaled_def)
        then show ?thesis
          using False room act a(1) p r(1) Some by (simp add: journal_sector_def ex_alloc_def)
      qed
    qed
  qed
qed

lemma write_sector_journaled:
  assumes "journaled B F J L s" "lba \<in> J" "length data = block_bytes_of"
  shows "returns (journaled B F J L) (exfat_write_sector io c lba data s) (\<lambda>_. True)"
proof (cases "lba < ex_volume_length c")
  case True
  obtain r s1 where j: "journal_sector io c lba s = Some (r, s1)" "journaled B F J L s1"
    "r \<noteq> None \<longrightarrow> lba \<in> je_lba ` set (ex_journal s1)"
    using journal_sector_journaled [OF assms(1,2)] by blast
  show ?thesis
  proof (cases r)
    case None
    then show ?thesis using True j by (simp add: exfat_write_sector_def on_success_def returns_def)
  next
    case (Some u)
    then show ?thesis
      using True j ex_write_journaled [OF j(2) _ assms(3), of lba] by (simp add: exfat_write_sector_def on_success_def)
  qed
qed (simp add: exfat_write_sector_def assms(1) returns_value)

section \<open>Reading and writing in a transaction\<close>

abbreviation running :: "(u64 \<Rightarrow> bytes) \<Rightarrow> u64 set \<Rightarrow> (u64 \<times> u64) set \<Rightarrow> 'd exfat_state \<Rightarrow> bool" where
  "running B F L \<equiv> journaled B F UNIV L"

lemma read_fat_running [goes_on_rules]: "running B F L s \<Longrightarrow> goes_on (running B F L) (read_fat io c cluster s)"
  unfolding read_fat_def Let_def by (intro goes_on_rules returns_on_success_or [OF read_sector_journaled]) simp_all

lemma write_fat_running [goes_on_rules]:
  assumes "sectors_fit (io_block_size io) c" "running B F L s"
  shows "goes_on (running B F L) (write_fat io c cluster v s)"
  unfolding write_fat_def Let_def
  using assms(2) fat_offset_fits [OF assms(1), of cluster]
  by (intro goes_on_rules returns_on_success_or [OF read_sector_journaled] write_sector_journaled) (simp_all add: put_u32_def)

lemma chain_from_running [goes_on_rules]: "running B F L s \<Longrightarrow> goes_on (running B F L) (chain_from io c n cluster s)"
  by (induction n arbitrary: cluster s) (auto intro!: goes_on_rules)

lemma stream_cluster_running [goes_on_rules]:
  "running B F L s \<Longrightarrow> goes_on (running B F L) (stream_cluster io c first_cluster no_fat_chain index s)"
  unfolding stream_cluster_def by (intro goes_on_rules)

text \<open>The part of a sector that is copied in a step is not empty and within the sector.\<close>

lemma part_fits:
  fixes inside :: u32
  assumes "sectors_fit bs c" "done_bytes < n"
  shows "unat (inside mod ex_sector_size c) < unat bs"
    "clip (ex_sector_size c - inside mod ex_sector_size c) (n - done_bytes) \<noteq> 0"
    "unat (inside mod ex_sector_size c)
      + unat (clip (ex_sector_size c - inside mod ex_sector_size c) (n - done_bytes)) \<le> unat bs"
proof -
  have b: "ex_sector_size c = bs" "0 < unat bs" using assms(1) by (auto simp: sectors_fit_def)
  show m: "unat (inside mod ex_sector_size c) < unat bs" using b by (simp add: unat_mod_distrib)
  have d: "unat (ex_sector_size c - inside mod ex_sector_size c) = unat bs - unat (inside mod ex_sector_size c)"
    using m b by (simp add: unat_sub word_le_nat_alt)
  have "unat (n - done_bytes) \<noteq> 0" using assms(2) by (simp add: word_less_nat_alt unat_sub word_le_nat_alt)
  then have "unat (clip (ex_sector_size c - inside mod ex_sector_size c) (n - done_bytes)) \<noteq> 0"
    using m d unfolding unat_clip by linarith
  then show "clip (ex_sector_size c - inside mod ex_sector_size c) (n - done_bytes) \<noteq> 0" by (metis unat_0)
  show "unat (inside mod ex_sector_size c)
      + unat (clip (ex_sector_size c - inside mod ex_sector_size c) (n - done_bytes)) \<le> unat bs"
    using m d unfolding unat_clip by linarith
qed

lemma read_stream_from_running:
  assumes "sectors_fit (io_block_size io) c" "running B F L s"
  shows "goes_on (running B F L) (read_stream_from io c first_cluster no_fat_chain offset capacity done_bytes acc s)"
  using assms(2)
proof (induction "unat capacity - unat done_bytes" arbitrary: done_bytes acc s rule: less_induct)
  case less
  show ?case
  proof (cases "done_bytes < capacity")
    case True
    define inside where "inside = (ucast ((offset + done_bytes) mod ucast (ex_cluster_size c)) :: u32)"
    define part where "part = clip (ex_sector_size c - inside mod ex_sector_size c) (capacity - done_bytes)"
    have p: "part \<noteq> 0" unfolding part_def by (rule part_fits(2) [OF assms(1) True])
    have IH: "goes_on (running B F L) (read_stream_from io c first_cluster no_fat_chain offset capacity
        (done_bytes + ucast part) acc' s')" if "running B F L s'" for acc' s'
      using less.hyps [OF stream_progress [OF True p [unfolded part_def], folded part_def] that] .
    have sector: "goes_on (running B F L) (exfat_read_sector io c lba s')" if "running B F L s'" for lba s'
      by (rule returns_mono [OF read_sector_journaled [OF that]]) simp
    have m: "goes_on (running B F L) (on_success (stream_cluster io c first_cluster no_fat_chain
        (ucast ((offset + done_bytes) div ucast (ex_cluster_size c))) s)
        (\<lambda>cluster s1. exfat_read_sector io c (cluster_lba c cluster + ucast (inside div ex_sector_size c)) s1))"
      by (intro goes_on_rules less.prems sector)
    have "goes_on (running B F L) (case r of None \<Rightarrow> Some (acc, s1)
       | Some sector \<Rightarrow> read_stream_from io c first_cluster no_fat_chain offset capacity (done_bytes + ucast part)
           (acc @ take (unat part) (drop (unat (inside mod ex_sector_size c)) sector)) s1)" if "running B F L s1" for r s1
      using that by (cases r) (auto intro: goes_on_return IH)
    then show ?thesis
      by (subst read_stream_from.simps, simp only: Let_def inside_def [symmetric] part_def [symmetric] True p if_True if_False)
         (rule goes_on_bind [OF m])
  next
    case False
    then show ?thesis using less.prems by (subst read_stream_from.simps) (simp add: goes_on_return)
  qed
qed

lemma read_stream_running [goes_on_rules]:
  "sectors_fit (io_block_size io) c \<Longrightarrow> running B F L s \<Longrightarrow>
    goes_on (running B F L) (read_stream io c first_cluster no_fat_chain len offset capacity s)"
  by (simp add: read_stream_def read_stream_from_running goes_on_return)

lemma location_running:
  assumes "sectors_fit (io_block_size io) c" "running B F L s"
  shows "returns (running B F L) (stream_byte_location io c first_cluster no_fat_chain offset s)
    (succ_if (\<lambda>(lba, inside). \<exists>k. inside = k mod ex_sector_size c))"
  unfolding stream_byte_location_def Let_def
  by (rule returns_on_success_or [where Q = "\<lambda>_. True"])
     (use assms in \<open>auto intro!: stream_cluster_running returns_value\<close>)

lemma write_stream_from_running:
  assumes "sectors_fit (io_block_size io) c" "running B F L s"
  shows "goes_on (running B F L) (write_stream_from io c first_cluster no_fat_chain offset source n done_bytes s)"
  using assms(2)
proof (induction "unat n - unat done_bytes" arbitrary: done_bytes s rule: less_induct)
  case less
  show ?case
  proof (cases "done_bytes < n")
    case True
    have step: "goes_on (running B F L) (if clip (ex_sector_size c - inside) (n - done_bytes) = 0 then None
        else on_success (exfat_write_sector io c lba (put_bytes (unat inside)
            (take (unat (clip (ex_sector_size c - inside) (n - done_bytes))) (drop (unat done_bytes) source)) sector) s2)
          (\<lambda>_ s3. write_stream_from io c first_cluster no_fat_chain offset source n
            (done_bytes + ucast (clip (ex_sector_size c - inside) (n - done_bytes))) s3))"
      if s: "running B F L s2" and l: "length sector = block_bytes_of" and k: "inside = k mod ex_sector_size c"
      for s2 sector lba inside k
    proof -
      let ?part = "clip (ex_sector_size c - inside) (n - done_bytes)"
      note fits = part_fits [OF assms(1) True, of k, folded k]
      have "length (put_bytes (unat inside) (take (unat ?part) (drop (unat done_bytes) source)) sector) = block_bytes_of"
        using fits(3) l by (subst length_put_bytes) auto
      then have "goes_on (running B F L) (exfat_write_sector io c lba (put_bytes (unat inside)
            (take (unat ?part) (drop (unat done_bytes) source)) sector) s2)"
        by (rule write_sector_journaled [OF s UNIV_I])
      then show ?thesis
        using fits(2) by (simp add: goes_on_success less.hyps [OF stream_progress [OF True fits(2)]])
    qed
    show ?thesis
      using True
      by (subst write_stream_from.simps)
         (auto simp: Let_def intro!: returns_on_success_or [OF location_running [OF assms(1) less.prems]]
           returns_on_success_or [OF read_sector_journaled] step)
  next
    case False
    then show ?thesis using less.prems by (subst write_stream_from.simps) (simp add: goes_on_return)
  qed
qed

lemma write_stream_running [goes_on_rules]:
  "sectors_fit (io_block_size io) c \<Longrightarrow> running B F L s \<Longrightarrow>
    goes_on (running B F L) (write_stream_metadata io c first_cluster no_fat_chain offset source s)"
  unfolding write_stream_metadata_def by (rule write_stream_from_running)

lemma bitmap_byte_running [goes_on_rules]:
  assumes "sectors_fit (io_block_size io) c" "running B F L s"
  shows "goes_on (running B F L) (bitmap_byte io c cluster s)"
  unfolding bitmap_byte_def using assms by (intro goes_on_rules)

lemma bitmap_running [goes_on_rules]:
  assumes "sectors_fit (io_block_size io) c" "running B F L s"
  shows "goes_on (running B F L) (bitmap_bit io c cluster s)"
    and "goes_on (running B F L) (set_bitmap_bit io c cluster allocated s)"
  unfolding bitmap_bit_def set_bitmap_bit_def by (intro goes_on_rules assms | assumption)+

lemma chain_length_running [goes_on_rules]:
  "running B F L s \<Longrightarrow> goes_on (running B F L) (chain_length io c left current n s)"
proof (induction left arbitrary: current n s)
  case (Suc left)
  have "goes_on (running B F L) (case r of None \<Rightarrow> Some (n + 1, s1)
     | Some nxt \<Rightarrow> if nxt \<ge> EXFAT_EOC then Some (n + 1, s1) else chain_length io c left nxt (n + 1) s1)"
    if "running B F L s1" for r s1
    using that Suc.IH by (cases r) (auto intro: goes_on_return)
  then show ?case
    unfolding chain_length.simps by (intro goes_on_if goes_on_bind [OF read_fat_running [OF Suc.prems]] goes_on_return Suc.prems)
qed (simp add: goes_on_return)

lemma directory_bytes_running [goes_on_rules]:
  assumes "sectors_fit (io_block_size io) c" "running B F L s"
  shows "goes_on (running B F L) (read_directory_bytes io c directory offset n s)"
    and "goes_on (running B F L) (write_directory_bytes io c directory offset data s)"
  unfolding read_directory_bytes_def write_directory_bytes_def directory_length_def
  by (intro goes_on_rules assms | assumption)+

lemma node_set_running [goes_on_rules]:
  assumes "sectors_fit (io_block_size io) c" "running B F L s"
  shows "goes_on (running B F L) (read_node_set io c node s)"
    and "goes_on (running B F L) (write_node_set io c node entries s)"
  unfolding read_node_set_def write_node_set_def by (intro goes_on_rules assms | assumption)+

lemma update_node_running [goes_on_rules]:
  assumes "sectors_fit (io_block_size io) c" "running B F L s"
  shows "goes_on (running B F L) (update_node_stream io c node first_cluster data_length valid_length no_fat_chain s)"
    and "goes_on (running B F L) (retire_entry io c node s)"
  unfolding update_node_stream_def retire_entry_def by (intro goes_on_rules assms | assumption)+

lemma free_clusters_running [goes_on_rules]:
  assumes "sectors_fit (io_block_size io) c" "running B F L s"
  shows "goes_on (running B F L) (exfat_free_clusters io c clusters s)"
  unfolding exfat_free_clusters_def using assms by (intro for_each_goes_on goes_on_rules)

lemma count_allocated_running [goes_on_rules]:
  assumes "sectors_fit (io_block_size io) c" "running B F L s"
  shows "goes_on (running B F L) (count_allocated io c clusters allocated s)"
  using assms(2) by (induction clusters arbitrary: allocated s) (auto intro!: goes_on_rules assms(1))

text \<open>The two boot sectors.\<close>

lemma update_boot_sector_journaled:
  assumes "journaled B F J L s" "lba \<in> J" "\<And>sector. length sector = block_bytes_of \<Longrightarrow> length (change sector) = block_bytes_of"
  shows "goes_on (journaled B F J L) (update_boot_sector io c change lba s)"
  unfolding update_boot_sector_def
  by (intro returns_on_success_or [OF read_sector_journaled [OF assms(1)]] write_sector_journaled assms) simp_all

lemma set_volume_dirty_journaled:
  assumes "sectors_fit (io_block_size io) c" "journaled B F J L s" "{0, 12} \<subseteq> J"
  shows "goes_on (journaled B F J L) (set_volume_dirty io c dirty s)"
proof -
  have flag: "length (put_u16 106 v sector) = block_bytes_of" if "length sector = block_bytes_of" for v sector
    using that assms(1) by (simp add: put_u16_def sectors_fit_def)
  have "journaled B F J L (s\<lparr>ex_volume_dirty := d\<rparr>)" if "journaled B F J L s" for s d
    using that by (simp add: journaled_def)
  then show ?thesis
    unfolding set_volume_dirty_def
    using assms(2,3) by (intro goes_on_success for_each_goes_on update_boot_sector_journaled ex_flush_journaled flag) auto
qed

lemma update_percent_running [goes_on_rules]:
  assumes "sectors_fit (io_block_size io) c" "running B F L s"
  shows "goes_on (running B F L) (update_percent_in_use io c s)"
  unfolding update_percent_in_use_def Let_def
  using assms by (intro goes_on_rules for_each_goes_on update_boot_sector_journaled) simp_all

section \<open>The frame of a transaction\<close>

lemma commit_ended:
  assumes "sectors_fit (io_block_size io) c" "running B F L s"
  shows "\<exists>r s'. transaction_commit io c s = Some (r, s') \<and> ended B (if r = None then F else UNIV) L s'"
proof -
  have "goes_on (running B F L) (on_success (ex_flush io s) (\<lambda>_ s1. on_success (update_percent_in_use io c s1) (\<lambda>_ s2.
      on_success (set_volume_dirty io c False s2) (\<lambda>_ s3. ex_flush io s3))))" (is "goes_on _ ?m")
    using assms by (intro goes_on_rules ex_flush_journaled set_volume_dirty_journaled) simp_all
  then obtain r s1 where m: "?m = Some (r, s1)" "running B F L s1" by (auto simp: returns_def)
  show ?thesis
  proof (cases r)
    case None
    then show ?thesis using rollback_ended [OF m(2)] by (auto simp: transaction_commit_def m(1) returns_def)
  next
    case (Some u)
    then show ?thesis using release_ended [OF m(2)] by (auto simp: transaction_commit_def m(1))
  qed
qed

lemma begin_journaled:
  assumes "sectors_fit (io_block_size io) c" "stored B (ex_dev s)" "buffers_ok L (ex_heap s) []" "\<not> ex_transaction_active s"
  shows "\<exists>r s'. transaction_begin io c s = Some (r, s')
    \<and> (if r = None then ended B {} L s' else journaled B {} {0, 12} L s')"
proof -
  have "journaled B {} {0, 12} L (s\<lparr>ex_transaction_active := True, ex_journal := []\<rparr>)"
    using assms by (auto simp: journaled_def entries_ok_def)
  then have "goes_on (journaled B {} {0, 12} L) (set_volume_dirty io c True (s\<lparr>ex_transaction_active := True, ex_journal := []\<rparr>))"
    using set_volume_dirty_journaled [OF assms(1)] by simp
  then obtain r s1 where m: "set_volume_dirty io c True (s\<lparr>ex_transaction_active := True, ex_journal := []\<rparr>) = Some (r, s1)"
    "journaled B {} {0, 12} L s1" by (auto simp: returns_def)
  show ?thesis
  proof (cases r)
    case None
    then show ?thesis using rollback_ended [OF m(2)] assms(4) by (auto simp: transaction_begin_def m(1) returns_def)
  next
    case (Some u)
    then show ?thesis using m(2) assms(4) by (simp add: transaction_begin_def m(1))
  qed
qed

lemma transaction_atomic:
  assumes "sectors_fit (io_block_size io) c" "stored B (ex_dev s)" "buffers_ok L (ex_heap s) []" "\<not> ex_transaction_active s"
    and body: "\<And>s. journaled B {} {0, 12} L s \<Longrightarrow> goes_on (running B F L) (body s)"
  shows "\<exists>r s'. exfat_transaction io c body s = Some (r, s') \<and> ended B (if r = None then F else UNIV) L s'"
proof -
  have mono: "ended B {} L s' \<Longrightarrow> ended B F L s'" for s' by (auto simp: ended_def)
  obtain r s1 where b: "transaction_begin io c s = Some (r, s1)"
    "if r = None then ended B {} L s1 else journaled B {} {0, 12} L s1"
    using begin_journaled [OF assms(1-4)] by blast
  show ?thesis
  proof (cases r)
    case None
    then show ?thesis using b mono by (auto simp: exfat_transaction_def on_success_def)
  next
    case (Some u)
    then obtain x s2 where x: "body s1 = Some (x, s2)" "running B F L s2"
      using body [of s1] b(2) by (auto simp: returns_def)
    show ?thesis
    proof (cases x)
      case None
      then show ?thesis
        using b(1) Some x rollback_ended [OF x(2)] by (auto simp: exfat_transaction_def on_success_def returns_def)
    next
      case (Some y)
      obtain r3 s3 where "transaction_commit io c s2 = Some (r3, s3)" "ended B (if r3 = None then F else UNIV) L s3"
        using commit_ended [OF assms(1) x(2)] by blast
      then show ?thesis
        using b(1) \<open>r = Some u\<close> x(1) Some by (cases r3) (auto simp: exfat_transaction_def on_success_def)
    qed
  qed
qed

lemma journaled_running: "journaled B {} {0, 12} L s \<Longrightarrow> running B F L s"
  by (auto simp: journaled_def entries_ok_def)

section \<open>Finding free clusters\<close>

text \<open>Reading changes nothing but the state of the device.\<close>

definition reading :: "(u64 \<Rightarrow> bytes) \<Rightarrow> 'd exfat_state \<Rightarrow> 'd exfat_state \<Rightarrow> bool" where
  "reading C s0 s \<longleftrightarrow> (\<exists>d. s = s0\<lparr>ex_dev := d\<rparr> \<and> stored C d)"

lemma reading_start: "stored C (ex_dev s) \<Longrightarrow> reading C s s"
  unfolding reading_def by (rule exI [of _ "ex_dev s"]) simp

lemma sector_reading:
  assumes "reading C s0 s"
  shows "returns (reading C s0) (exfat_read_sector io c lba s) (succ_if (\<lambda>b. b = C lba))"
proof -
  obtain d where d: "s = s0\<lparr>ex_dev := d\<rparr>" "stored C d" using assms by (auto simp: reading_def)
  obtain r d' where "io_read io lba d = Some (r, d')" "stored C d'" "succ_if (\<lambda>b. b = C lba) r"
    using store_read [OF d(2), of lba] unfolding returns_def by blast
  then show ?thesis using d assms by (auto simp: exfat_read_sector_def ex_read_def returns_def reading_def)
qed

lemma read_fat_reading:
  "reading C s0 s \<Longrightarrow> returns (reading C s0) (read_fat io c cluster s) (succ_if (\<lambda>v. v = fat_entry C c cluster))"
  unfolding read_fat_def Let_def
  by (intro returns_if returns_on_success_or [OF sector_reading] returns_value) (auto simp: fat_entry_def)

lemma chain_from_reading:
  "reading C s0 s \<Longrightarrow> returns (reading C s0) (chain_from io c n cluster s) (succ_if (\<lambda>v. v = chain_entry C c n cluster))"
proof (induction n arbitrary: cluster s)
  case (Suc n)
  show ?case
    unfolding chain_from.simps chain_entry.simps
    by (rule returns_on_success_or [OF read_fat_reading [OF Suc.prems]]) (use Suc.IH in \<open>auto intro: returns_value\<close>)
qed (simp add: returns_value)

lemma stream_cluster_reading:
  "reading C s0 s \<Longrightarrow> returns (reading C s0) (stream_cluster io c first_cluster no_fat_chain index s)
    (succ_if (\<lambda>v. v = stream_cluster_in C c first_cluster no_fat_chain index))"
  unfolding stream_cluster_def stream_cluster_in_def
  by (auto intro!: returns_value chain_from_reading)

lemma stream_sector_reading:
  assumes "reading C s0 s"
  shows "returns (reading C s0) (on_success (stream_cluster io c first_cluster no_fat_chain
      (ucast (offset div ucast (ex_cluster_size c))) s)
    (\<lambda>cluster s1. exfat_read_sector io c (cluster_lba c cluster
      + ucast (ucast (offset mod ucast (ex_cluster_size c)) div ex_sector_size c)) s1))
    (succ_if (\<lambda>b. b = C (stream_sector C c first_cluster no_fat_chain offset)))"
  by (rule returns_on_success_or [OF stream_cluster_reading [OF assms]])
     (use sector_reading in \<open>auto simp: stream_sector_def\<close>)

lemma byte_reading:
  assumes "sectors_fit (io_block_size io) c" "reading C s0 s"
  shows "returns (reading C s0) (read_stream io c first_cluster no_fat_chain len offset 1 s)
    (\<lambda>b. b = [] \<or> b = [stream_byte C c first_cluster no_fat_chain offset])"
proof (cases "offset < len")
  case True
  define inside where "inside = (ucast (offset mod ucast (ex_cluster_size c)) :: u32)"
  define k where "k = inside mod ex_sector_size c"
  define m where "m = on_success (stream_cluster io c first_cluster no_fat_chain (ucast (offset div ucast (ex_cluster_size c))) s)
    (\<lambda>cluster s1. exfat_read_sector io c (cluster_lba c cluster + ucast (inside div ex_sector_size c)) s1)"
  have fits: "unat k < block_bytes_of" "clip (ex_sector_size c - k) 1 \<noteq> 0"
    using part_fits [OF assms(1), of 0 1 inside] by (simp_all add: k_def)
  have "unat (clip (ex_sector_size c - k) 1) \<le> 1" by (simp add: unat_clip)
  moreover have "unat (clip (ex_sector_size c - k) 1) \<noteq> 0" using fits(2) by (simp add: unat_eq_zero)
  ultimately have "unat (clip (ex_sector_size c - k) 1) = 1" by linarith
  then have part: "clip (ex_sector_size c - k) 1 = 1" by (metis unsigned_1 unsigned_word_eqI)
  have "len - offset \<noteq> 0" using True by auto
  then have one: "\<not> 1 > len - offset" by (simp add: word_less_nat_alt unat_eq_zero)
  have stop: "read_stream_from io c first_cluster no_fat_chain offset 1 1 acc s1 = Some (acc, s1)" for acc s1
    by (subst read_stream_from.simps) simp
  have "read_stream io c first_cluster no_fat_chain len offset 1 s
      = read_stream_from io c first_cluster no_fat_chain offset 1 0 [] s"
    using True one by (simp only: read_stream_def not_le [symmetric] if_False) simp
  also have "\<dots> = do {
      (r, s1) \<leftarrow> m;
      case r of None \<Rightarrow> Some ([], s1) | Some sector \<Rightarrow> Some (take 1 (drop (unat k) sector), s1) }"
    by (subst read_stream_from.simps, simp only: Let_def add_0_right add_0_left diff_zero inside_def [symmetric]
        k_def [symmetric] m_def [symmetric] part) (simp add: stop cong: option.case_cong)
  finally have e: "read_stream io c first_cluster no_fat_chain len offset 1 s = do {
      (r, s1) \<leftarrow> m;
      case r of None \<Rightarrow> Some ([], s1) | Some sector \<Rightarrow> Some (take 1 (drop (unat k) sector), s1) }" .
  obtain r s1 where r: "m = Some (r, s1)" "reading C s0 s1"
    "succ_if (\<lambda>b. b = C (stream_sector C c first_cluster no_fat_chain offset)) r"
    using stream_sector_reading [OF assms(2), of c first_cluster no_fat_chain offset]
    unfolding returns_def m_def inside_def by blast
  obtain d where "stored C d" using r(2) by (auto simp: reading_def)
  then have "length (C lba) = block_bytes_of" for lba by (rule store_length)
  then have "take 1 (drop (unat k) (C lba)) = [C lba ! unat k]" for lba
    using fits(1) by (simp add: take_Suc_conv_app_nth hd_drop_conv_nth take_Suc)
  then show ?thesis
    unfolding e using r by (auto simp: returns_def stream_byte_def inside_def k_def split: option.split)
next
  case False
  then have "offset \<ge> len" by simp
  then show ?thesis using assms(2) by (simp add: read_stream_def returns_value)
qed

lemma bitmap_bit_reading:
  assumes "sectors_fit (io_block_size io) c" "reading C s0 s"
  shows "returns (reading C s0) (bitmap_bit io c cluster s) (succ_if (\<lambda>used. used = (\<not> cluster_is_free C c cluster)))"
proof (cases "valid_cluster c cluster")
  case True
  obtain b s1 where "read_stream io c (ex_bitmap_first_cluster c) False (ex_bitmap_length c) (drop_bit 3 (ucast (cluster - 2))) 1 s
      = Some (b, s1)" "reading C s0 s1"
    "b = [] \<or> b = [stream_byte C c (ex_bitmap_first_cluster c) False (drop_bit 3 (ucast (cluster - 2)))]"
    using byte_reading [OF assms] unfolding returns_def by blast
  then show ?thesis
    using True by (auto simp: bitmap_bit_def bitmap_byte_def on_success_def returns_def cluster_is_free_def)
next
  case False
  then show ?thesis using assms(2) by (simp add: bitmap_bit_def bitmap_byte_def on_success_def returns_def)
qed

lemma find_free_clusters_reading:
  assumes "sectors_fit (io_block_size io) c" "reading C s0 s" "\<forall>k \<in> set clusters. cluster_is_free C c k"
  shows "returns (reading C s0) (find_free_clusters io c n candidates clusters s)
    (succ_if (\<lambda>l. \<forall>k \<in> set l. cluster_is_free C c k))"
  using assms(2,3)
proof (induction candidates arbitrary: clusters s)
  case (Cons cluster candidates)
  show ?case
    unfolding find_free_clusters.simps
    by (intro returns_if returns_on_success_or [OF bitmap_bit_reading [OF assms(1) Cons.prems(1)]] returns_value)
       (use Cons in auto)
qed (simp add: returns_value)

lemma allocate_clusters_running:
  assumes "sectors_fit (io_block_size io) c" "journaled B {} {0, 12} L s" "12 < ex_cluster_heap_offset c" "12 < ex_fat_offset c"
  shows "returns (running B F L) (allocate_clusters io c n s) (succ_if (\<lambda>l. \<forall>k \<in> set l. cluster_is_free B c k))"
proof -
  obtain C where C: "stored C (ex_dev s)" "\<forall>lba. lba \<notin> je_lba ` set (ex_journal s) \<longrightarrow> C lba = B lba"
    using assms(2) by (auto simp: journaled_def)
  have "je_lba ` set (ex_journal s) \<subseteq> {0, 12}" using assms(2) by (auto simp: journaled_def entries_ok_def)
  then have boot: "\<forall>lba. lba \<noteq> 0 \<longrightarrow> lba \<noteq> 12 \<longrightarrow> C lba = B lba" using C(2) by blast
  have free: "cluster_is_free B c k" if "cluster_is_free C c k" for k
    using cluster_is_free_unchanged [OF boot assms(3,4)] that by simp
  have kept: "running B F L s1" if "reading C s s1" for s1
    using that C(2) journaled_running [OF assms(2)]
    by (auto simp: reading_def journaled_def)
  obtain r s1 where f: "find_free_clusters io c (unat n) (all_clusters c) [] s = Some (r, s1)" "reading C s s1"
    "succ_if (\<lambda>l. \<forall>k \<in> set l. cluster_is_free C c k) r"
    using find_free_clusters_reading [OF assms(1) reading_start [OF C(1)], of "[]" "unat n" "all_clusters c"]
    unfolding returns_def by auto
  have m: "returns (running B F L) (find_free_clusters io c (unat n) (all_clusters c) [] s)
      (succ_if (\<lambda>l. \<forall>k \<in> set l. cluster_is_free B c k))"
    unfolding f(1) using f(2,3) free by (intro returns_value kept) auto
  have marks: "goes_on (running B F L) (for_each (\<lambda>i s. on_success (set_bitmap_bit io c (l ! i) True s)
      (\<lambda>_ s1. write_fat io c (l ! i) (if i + 1 < unat n then l ! (i + 1) else 0xFFFFFFFF) s1)) [0 ..< unat n] s2)"
    if "running B F L s2" for l s2
    by (rule for_each_goes_on) (intro goes_on_rules assms(1) that | assumption)+
  show ?thesis
    unfolding allocate_clusters_def
    by (intro returns_if returns_on_success_or [OF m] returns_value kept [OF reading_start [OF C(1)]]
        returns_on_success_or [where Q = "\<lambda>_. True", OF returns_mono [OF marks]]) simp_all
qed

lemma write_padded_running:
  assumes "running B F L s" "set lbas \<subseteq> F"
  shows "goes_on (running B F L) (write_padded io block_bytes_of lbas source s)"
  using assms by (induction lbas arbitrary: source s) (auto intro!: goes_on_rules ex_write_journaled)

lemma write_new_clusters_running:
  assumes "sectors_fit (io_block_size io) c" "running B F L s" "\<forall>k \<in> set clusters. set (exfat_cluster_sectors c k) \<subseteq> F"
  shows "goes_on (running B F L) (write_new_clusters io c clusters source s)"
proof -
  have "unat (ex_sector_size c) = block_bytes_of" using assms(1) by (simp add: sectors_fit_def)
  then show ?thesis
    unfolding write_new_clusters_def using assms(3)
    by (intro goes_on_success ex_flush_journaled) (simp_all add: write_padded_running [OF assms(2)] UN_subset_iff)
qed

lemma store_contents_running:
  assumes "sectors_fit (io_block_size io) c" "journaled B {} {0, 12} L s" "12 < ex_cluster_heap_offset c" "12 < ex_fat_offset c"
  shows "goes_on (running B (free_sectors B c) L) (store_contents io c n data s)"
proof (cases "n = 0")
  case True
  then show ?thesis using journaled_running [OF assms(2)] by (simp add: store_contents_def goes_on_return)
next
  case False
  have new: "goes_on (running B (free_sectors B c) L) (write_new_clusters io c l data s1)"
    if "running B (free_sectors B c) L s1" "\<forall>k \<in> set l. cluster_is_free B c k" for l s1
    using that by (intro write_new_clusters_running assms(1)) (auto simp: free_sectors_def)
  have "goes_on (running B (free_sectors B c) L) (on_success (allocate_clusters io c n s) (\<lambda>clusters s1.
      on_success (write_new_clusters io c clusters data s1) (\<lambda>_ s2. Some (Some (clusters ! 0), s2))))"
    by (intro returns_on_success_or [OF allocate_clusters_running [OF assms]] goes_on_success goes_on_return new) simp_all
  then show ?thesis using False by (simp add: store_contents_def)
qed

lemma overwrite_body_running:
  assumes "sectors_fit (io_block_size io) c" "journaled B {} {0, 12} L s" "12 < ex_cluster_heap_offset c" "12 < ex_fat_offset c"
  shows "goes_on (running B (free_sectors B c) L) (overwrite_body io c node n buffer clusters s)"
  unfolding overwrite_body_def
  by (intro goes_on_success store_contents_running [OF assms] assms(1) update_node_running free_clusters_running)

lemma delete_body_running:
  assumes "sectors_fit (io_block_size io) c" "journaled B {} {0, 12} L s"
  shows "goes_on (running B F L) (delete_body io c node clusters s)"
  unfolding delete_body_def
  by (intro goes_on_success assms(1) update_node_running free_clusters_running journaled_running [OF assms(2)])

lemma overwrite_ended:
  assumes "stored B (ex_dev s)" "sectors_fit (io_block_size io) c" "12 < ex_cluster_heap_offset c" "12 < ex_fat_offset c"
    "buffers_ok L (ex_heap s) []" "\<not> ex_transaction_active s"
  shows "\<exists>r s'. exfat_transaction io c (overwrite_body io c node n buffer clusters) s = Some (r, s')
    \<and> ended B (if r = None then free_sectors B c else UNIV) L s'"
  by (rule transaction_atomic [OF assms(2,1,5,6)]) (rule overwrite_body_running [OF assms(2) _ assms(3,4)])

lemma delete_ended:
  assumes "stored B (ex_dev s)" "sectors_fit (io_block_size io) c" "buffers_ok L (ex_heap s) []" "\<not> ex_transaction_active s"
  shows "\<exists>r s'. exfat_transaction io c (delete_body io c node clusters) s = Some (r, s')
    \<and> ended B (if r = None then {} else UNIV) L s'"
  by (rule transaction_atomic [OF assms(2,1,3,4)]) (rule delete_body_running [OF assms(2)])

end

section \<open>Transactions are atomic\<close>

definition exfat_sample_state :: "'d \<Rightarrow> 'd exfat_state" where
  "exfat_sample_state d = \<lparr>ex_dev = d, ex_heap = heap_format \<lparr>heap_head = 0, heap_mem = Map.empty\<rparr>, ex_journal = [],
     ex_transaction_active = False, ex_volume_dirty = False\<rparr>"

lemma exfat_sample:
  shows "sound_memory (\<lambda>_. replicate 512 0) (ex_dev (exfat_sample_state (\<lambda>_. replicate 512 0)))"
    and "sectors_fit (io_block_size memory_io) exfat_sample_context"
    and "12 < ex_cluster_heap_offset exfat_sample_context" and "12 < ex_fat_offset exfat_sample_context"
    and "heap_wf (ex_heap (exfat_sample_state d)) [(HEAP_BASE, HEAP_SIZE - 24, True)]"
    and "\<not> ex_transaction_active (exfat_sample_state d)"
  by (simp_all add: sound_memory_def exfat_sample_state_def sectors_fit_def memory_io_def exfat_sample_context_def
      heap_wf_format)

text \<open>C34: overwriting the contents of an exFAT file is a transaction that always returns; when it fails, every sector
  that can be written holds what it held before, except for sectors of clusters that were free; and in either case it
  ends the transaction and gives back every buffer of its journal.\<close>
theorem exfat_overwrite_atomic:
  assumes "block_store io stored works" "stored B (ex_dev s)" "sectors_fit (io_block_size io) c"
    "12 < ex_cluster_heap_offset c" "12 < ex_fat_offset c" "heap_wf (ex_heap s) bs" "\<not> ex_transaction_active s"
  shows "\<exists>r s' C. exfat_transaction io c (overwrite_body io c node n buffer clusters) s = Some (r, s')
    \<and> stored C (ex_dev s') \<and> (r = None \<longrightarrow> (\<forall>lba. works lba \<longrightarrow> lba \<notin> free_sectors B c \<longrightarrow> C lba = B lba))
    \<and> \<not> ex_transaction_active s' \<and> ex_journal s' = [] \<and> heap_live (ex_heap s') = heap_live (ex_heap s)"
proof -
  have "buffers_ok (heap_live (ex_heap s)) (ex_heap s) []" using assms(6) by (auto simp: buffers_freed)
  from block_store.overwrite_ended [OF assms(1-5) this assms(7)]
  obtain r s' where t: "exfat_transaction io c (overwrite_body io c node n buffer clusters) s = Some (r, s')"
    "block_store.ended stored works B (if r = None then free_sectors B c else UNIV) (heap_live (ex_heap s)) s'"
    by blast
  then show ?thesis
    by (cases r) (auto simp: block_store.ended_def [OF assms(1)] buffers_freed)
qed

theorem exfat_overwrite_atomic_witness:
  "\<exists>r s' C. exfat_transaction memory_io exfat_sample_context
      (overwrite_body memory_io exfat_sample_context (root_node exfat_sample_context) 1 [7] [9])
      (exfat_sample_state (\<lambda>_. replicate 512 0)) = Some (r, s')
    \<and> sound_memory C (ex_dev s') \<and> \<not> ex_transaction_active s' \<and> ex_journal s' = []"
  using exfat_overwrite_atomic [OF memory.block_store_axioms exfat_sample,
      of "root_node exfat_sample_context" 1 "[7]" "[9]"]
  by blast

text \<open>C35: deleting a file or directory of an exFAT volume is a transaction that always returns; when it fails, every
  sector that can be written holds what it held before; and in either case it ends the transaction and gives back every
  buffer of its journal.\<close>
theorem exfat_delete_atomic:
  assumes "block_store io stored works" "stored B (ex_dev s)" "sectors_fit (io_block_size io) c"
    "heap_wf (ex_heap s) bs" "\<not> ex_transaction_active s"
  shows "\<exists>r s' C. exfat_transaction io c (delete_body io c node clusters) s = Some (r, s')
    \<and> stored C (ex_dev s') \<and> (r = None \<longrightarrow> (\<forall>lba. works lba \<longrightarrow> C lba = B lba))
    \<and> \<not> ex_transaction_active s' \<and> ex_journal s' = [] \<and> heap_live (ex_heap s') = heap_live (ex_heap s)"
proof -
  have "buffers_ok (heap_live (ex_heap s)) (ex_heap s) []" using assms(4) by (auto simp: buffers_freed)
  from block_store.delete_ended [OF assms(1-3) this assms(5)]
  obtain r s' where t: "exfat_transaction io c (delete_body io c node clusters) s = Some (r, s')"
    "block_store.ended stored works B (if r = None then {} else UNIV) (heap_live (ex_heap s)) s'"
    by blast
  then show ?thesis
    by (cases r) (auto simp: block_store.ended_def [OF assms(1)] buffers_freed)
qed

theorem exfat_delete_atomic_witness:
  "\<exists>r s' C. exfat_transaction memory_io exfat_sample_context
      (delete_body memory_io exfat_sample_context (root_node exfat_sample_context) [9])
      (exfat_sample_state (\<lambda>_. replicate 512 0)) = Some (r, s')
    \<and> sound_memory C (ex_dev s') \<and> (r = None \<longrightarrow> (\<forall>lba. C lba = replicate 512 0)) \<and> \<not> ex_transaction_active s'"
  using exfat_delete_atomic [OF memory.block_store_axioms exfat_sample(1,2,5,6), of "root_node exfat_sample_context" "[9]"]
  by simp blast

section \<open>Empty files\<close>

text \<open>A file of length 0 without a cluster cannot be overwritten: the array of its clusters has no elements, and that it is
  a null pointer is taken for a failure.\<close>

lemma empty_file_not_collected:
  assumes "en_data_length node = 0" "\<not> valid_cluster c (en_first_cluster node)"
  shows "collect_clusters io c node s = Some (None, s)"
proof -
  have "chain_length io c n (en_first_cluster node) 0 s = Some (0, s)" for n
    using assms(2) by (cases n) simp_all
  then show ?thesis
    using assms(1) by (simp add: collect_clusters_def ex_alloc_def kmalloc_zero align_size_def)
qed

theorem exfat_empty_file_stays:
  assumes "en_data_length node = 0" "\<not> valid_cluster c (en_first_cluster node)"
  shows "overwrite_file io c path node buffer s = Some (None, s)"
  by (simp add: overwrite_file_def on_success_def empty_file_not_collected [OF assms])

end
