(* ===== verification/Program_Loader.thy ===== *)
theory Program_Loader
  imports Kernel_Paging Virtual_Filesystem
begin

text \<open>
  \<^verbatim>\<open>src/kernel/pe_loader.c\<close> and \<^verbatim>\<open>src/kernel/aslr.c\<close>: the program \<^verbatim>\<open>/HELLO.EXE\<close> is read through the virtual file
  system, its image is mapped and copied to the address its header names, and it is entered in user mode with a stack
  at a random address.

  Bytes are stored through virtual addresses.  \<open>store\<close> says which of them the processor lets the kernel write with
  given page tables (\<open>None\<close> is a page fault), and \<open>user_memory\<close> is what has been stored.  The buffer for the file is
  the bytes that were read; \<open>None\<close> is also an access outside of them.
\<close>

section \<open>Stack addresses\<close>

definition ASLR_DEFAULT_SEED :: u64 where "ASLR_DEFAULT_SEED = 0x4153415341534C52"
definition ASLR_USER_STACK_BASE :: u64 where "ASLR_USER_STACK_BASE = 0x0000600000400000"
definition ASLR_USER_STACK_STRIDE :: u64 where "ASLR_USER_STACK_STRIDE = 0x20000"
definition ASLR_USER_STACK_SLOTS :: u64 where "ASLR_USER_STACK_SLOTS = 256"

definition aslr_next :: "u64 \<Rightarrow> u64" where
  "aslr_next aslr_state = aslr_state * 6364136223846793005 + 1442695040888963407"

definition aslr_initialize :: "u64 \<Rightarrow> u64" where
  "aslr_initialize seed = (let s = seed XOR ASLR_DEFAULT_SEED in if s = 0 then ASLR_DEFAULT_SEED else s)"

text \<open>The address and the new state.\<close>

definition aslr_user_stack_address :: "u64 \<Rightarrow> u64 \<times> u64" where
  "aslr_user_stack_address aslr_state =
     (let s = aslr_next aslr_state; slot = drop_bit 12 s mod ASLR_USER_STACK_SLOTS
      in (ASLR_USER_STACK_BASE + slot * ASLR_USER_STACK_STRIDE, s))"

definition aslr_self_test :: "u64 \<Rightarrow> bool \<times> u64" where
  "aslr_self_test aslr_state =
     (let (first_address, s1) = aslr_user_stack_address aslr_state;
          (second_address, s2) = aslr_user_stack_address s1;
          window_end = ASLR_USER_STACK_BASE + ASLR_USER_STACK_STRIDE * ASLR_USER_STACK_SLOTS
      in (\<not> (first_address < ASLR_USER_STACK_BASE \<or> second_address < ASLR_USER_STACK_BASE
           \<or> first_address \<ge> window_end \<or> second_address \<ge> window_end
           \<or> first_address AND 0xFFF \<noteq> 0 \<or> second_address AND 0xFFF \<noteq> 0 \<or> first_address = second_address), s2))"

section \<open>The loader\<close>

definition PE_BUFFER_SIZE :: u64 where "PE_BUFFER_SIZE = 65536"

record PE_COFF_HEADER =
  number_of_sections :: u16
  size_of_optional_header :: u16

record PE_OPTIONAL_HEADER_PREFIX =
  opt_magic :: u16
  entry_point :: u32
  image_base :: u64
  size_of_image :: u32
  size_of_headers :: u32

record PE_SECTION_HEADER =
  virtual_address :: u32
  raw_size :: u32
  raw_offset :: u32

text \<open>A packed structure at an offset of the file, if all of it was read.\<close>

definition struct_at :: "nat \<Rightarrow> nat \<Rightarrow> (bytes \<Rightarrow> 'a) \<Rightarrow> bytes \<Rightarrow> 'a option" where
  "struct_at offset n parse file = (if offset + n \<le> length file then Some (parse (drop offset file)) else None)"

definition coff_header :: "bytes \<Rightarrow> PE_COFF_HEADER" where
  "coff_header b = \<lparr>number_of_sections = u16_at 2 b, size_of_optional_header = u16_at 16 b\<rparr>"

definition optional_header :: "bytes \<Rightarrow> PE_OPTIONAL_HEADER_PREFIX" where
  "optional_header b = \<lparr>opt_magic = u16_at 0 b, entry_point = u32_at 16 b, image_base = u64_at 24 b,
     size_of_image = u32_at 56 b, size_of_headers = u32_at 60 b\<rparr>"

definition section_header :: "bytes \<Rightarrow> PE_SECTION_HEADER" where
  "section_header b = \<lparr>virtual_address = u32_at 12 b, raw_size = u32_at 16 b, raw_offset = u32_at 20 b\<rparr>"

record ('v, 'd) loader_state =
  loader_vfs :: "('v, 'd) vfs_state"
  loader_machine :: page_machine
  loader_aslr :: u64
  user_memory :: "u64 \<Rightarrow> u8"
  kernel_stack_set :: bool
  entered_user :: "(u64 \<times> u64) option"

type_synonym mmu = "page_tables \<Rightarrow> page_machine \<Rightarrow> u64 \<Rightarrow> bool"

text \<open>\<open>copy_bytes\<close> from the file to a virtual address.\<close>

definition copy_bytes ::
  "mmu \<Rightarrow> page_tables \<Rightarrow> u64 \<Rightarrow> bytes \<Rightarrow> ('v, 'd) loader_state \<Rightarrow> ('v, 'd) loader_state option" where
  "copy_bytes store tables destination source s =
     (if \<forall>index < length source. store tables (loader_machine s) (destination + of_nat index)
      then Some (s\<lparr>user_memory := fold (\<lambda>index m. m(destination + of_nat index := source ! index))
        [0 ..< length source] (user_memory s)\<rparr>)
      else None)"

primrec map_pages :: "page_tables \<Rightarrow> u64 \<Rightarrow> u64 list \<Rightarrow> page_machine \<Rightarrow> bool \<times> page_machine" where
  "map_pages tables base [] m = (True, m)"
| "map_pages tables base (offset # rest) m =
     (let (frame, al) = frame_allocate (pm_frames m); m1 = m\<lparr>pm_frames := al\<rparr>
      in if frame = 0 then (False, m1)
         else (case map_page tables (base + offset) frame (ASAS_PAGE_USER OR ASAS_PAGE_WRITABLE) m1 of
           (False, m2) \<Rightarrow> (False, m2)
         | (True, m2) \<Rightarrow> map_pages tables base rest m2))"

definition map_image_pages :: "page_tables \<Rightarrow> u64 \<Rightarrow> u32 \<Rightarrow> page_machine \<Rightarrow> bool \<times> page_machine" where
  "map_image_pages tables base image_size m =
     map_pages tables base (map (\<lambda>i. of_nat (4096 * i)) [0 ..< (unat image_size + 4095) div 4096]) m"

definition read_program_file ::
  "('v, 'd) vfs_env \<Rightarrow> u64 \<Rightarrow> ('v, 'd) vfs_state \<Rightarrow> (bytes \<times> ('v, 'd) vfs_state) option" where
  "read_program_file e capacity s =
     (if \<not> vfs_can_execute (Some ''/HELLO.EXE'') s then Some ([], s)
      else do {
        (handle, s1) \<leftarrow> vfs_open e ''/HELLO.EXE'' s;
        if handle = 0 then Some ([], s1)
        else do {
          ((n, data), s2) \<leftarrow> vfs_read e handle capacity s1;
          (_, s3) \<leftarrow> vfs_close handle s2;
          Some (take (unat n) data, s3) } })"

text \<open>The loop over the sections.\<close>

primrec copy_sections ::
  "mmu \<Rightarrow> page_tables \<Rightarrow> u64 \<Rightarrow> nat \<Rightarrow> bytes \<Rightarrow> nat list \<Rightarrow> ('v, 'd) loader_state \<Rightarrow> ('v, 'd) loader_state option" where
  "copy_sections store tables base sections file [] s = Some s"
| "copy_sections store tables base sections file (index # rest) s = do {
     h \<leftarrow> struct_at (sections + 40 * index) 40 section_header file;
     s1 \<leftarrow> (if raw_size h \<noteq> 0 \<and> unat (raw_offset h) + unat (raw_size h) \<le> length file
       then copy_bytes store tables (base + ucast (virtual_address h))
         (take (unat (raw_size h)) (drop (unat (raw_offset h)) file)) s
       else Some s);
     copy_sections store tables base sections file rest s1 }"

text \<open>The headers are accepted: where they are in the file.\<close>

definition pe_headers :: "bytes \<Rightarrow> (PE_COFF_HEADER \<times> PE_OPTIONAL_HEADER_PREFIX \<times> nat) option option" where
  "pe_headers file =
     (if length file < 512 \<or> file ! 0 \<noteq> 0x4D \<or> file ! 1 \<noteq> 0x5A then Some None
      else let pe_offset = u32_at 0x3C file in
        if unat (pe_offset + 4) + 20 + 64 > length file then Some None
        else do {
          signature \<leftarrow> struct_at (unat pe_offset) 2 (take 2) file;
          if signature \<noteq> [0x50, 0x45] then Some None
          else do {
            let coff = unat (pe_offset + 4);
            c \<leftarrow> struct_at coff 20 coff_header file;
            opt \<leftarrow> struct_at (coff + 20) 64 optional_header file;
            if opt_magic opt \<noteq> 0x20B \<or> size_of_image opt = 0 then Some None
            else Some (Some (c, opt, coff + 20 + unat (size_of_optional_header c))) } })"

text \<open>The last part: the stack, and entering the program.\<close>

definition enter_program ::
  "page_tables \<Rightarrow> PE_OPTIONAL_HEADER_PREFIX \<Rightarrow> ('v, 'd) loader_state \<Rightarrow> ('v, 'd) loader_state" where
  "enter_program tables opt s =
     (let (stack_address, a) = aslr_user_stack_address (loader_aslr s);
          m = loader_machine s;
          (stack_frame, al) = frame_allocate (pm_frames m);
          m1 = m\<lparr>pm_frames := al\<rparr>;
          s1 = s\<lparr>loader_aslr := a, loader_machine := m1\<rparr>
      in if stack_frame = 0 then s1
         else (case map_page tables stack_address stack_frame
               (ASAS_PAGE_USER OR ASAS_PAGE_WRITABLE OR ASAS_PAGE_NO_EXECUTE) m1 of
           (False, m2) \<Rightarrow> s1\<lparr>loader_machine := m2\<rparr>
         | (True, m2) \<Rightarrow> s1\<lparr>loader_machine := m2, kernel_stack_set := True,
             entered_user := Some (image_base opt + ucast (entry_point opt), stack_address + 4096)\<rparr>))"

text \<open>The result of the function is always 0; whether a program runs is \<open>entered_user\<close>.\<close>

definition pe_load_and_enter_user_program ::
  "('v, 'd) vfs_env \<Rightarrow> mmu \<Rightarrow> page_tables \<Rightarrow> ('v, 'd) loader_state \<Rightarrow> ('v, 'd) loader_state option" where
  "pe_load_and_enter_user_program e store tables s = do {
     (p, h) \<leftarrow> kmalloc PE_BUFFER_SIZE (vfs_heap (loader_vfs s));
     let v = (loader_vfs s)\<lparr>vfs_heap := h\<rparr>;
     if p = 0 then Some (s\<lparr>loader_vfs := v\<rparr>)
     else do {
       (file, v1) \<leftarrow> read_program_file e PE_BUFFER_SIZE v;
       let s1 = s\<lparr>loader_vfs := v1\<rparr>;
       headers \<leftarrow> pe_headers file;
       (case headers of
          None \<Rightarrow> Some s1
        | Some (coff, opt, sections) \<Rightarrow>
            (case map_image_pages tables (image_base opt) (size_of_image opt) (loader_machine s1) of
               (False, m) \<Rightarrow> Some (s1\<lparr>loader_machine := m\<rparr>)
             | (True, m) \<Rightarrow> do {
                 s2 \<leftarrow> copy_bytes store tables (image_base opt) (take (unat (size_of_headers opt)) file)
                   (s1\<lparr>loader_machine := m\<rparr>);
                 s3 \<leftarrow> copy_sections store tables (image_base opt) sections file [0 ..< unat (number_of_sections coff)] s2;
                 Some (enter_program tables opt s3) })) } }"

section \<open>What the loader stores\<close>

lemma fold_store:
  fixes a x :: u64
  assumes "length source \<le> 2 ^ 64"
  shows "fold (\<lambda>index m. m(a + of_nat index := source ! index)) [0 ..< length source] m x
    = (if unat (x - a) < length source then source ! unat (x - a) else m x)"
proof -
  have "fold (\<lambda>index m. m(a + of_nat index := source ! index)) [0 ..< n] m x
      = (if unat (x - a) < n then source ! unat (x - a) else m x)" if "n \<le> length source" for n
    using that
  proof (induction n)
    case (Suc n)
    have "n < 2 ^ 64" using Suc.prems assms by simp
    then have n: "unat (of_nat n :: u64) = n" by (simp add: unsigned_of_nat take_bit_nat_eq_self_iff)
    have "x = a + of_nat n \<longleftrightarrow> unat (x - a) = n"
    proof
      assume "unat (x - a) = n"
      then have "x - a = of_nat n" by auto
      then show "x = a + of_nat n" by (metis add.commute diff_add_cancel)
    qed (simp add: n)
    then show ?case using Suc by (auto simp: less_Suc_eq)
  qed simp
  then show ?thesis by blast
qed

lemma copy_bytes_stores:
  assumes "copy_bytes store tables destination source s = Some s'" "i < length source" "length source \<le> 2 ^ 64"
  shows "user_memory s' (destination + of_nat i) = source ! i"
proof -
  have "i < 2 ^ 64" using assms(2,3) by simp
  then have "unat (of_nat i :: u64) = i" by (simp add: unsigned_of_nat take_bit_nat_eq_self_iff)
  then show ?thesis
    using assms fold_store [OF assms(3), of destination "user_memory s" "destination + of_nat i"]
    by (auto simp: copy_bytes_def split: if_splits)
qed

lemma copy_sections_append:
  "copy_sections store tables base sections file (xs @ ys) s
    = Option.bind (copy_sections store tables base sections file xs s) (copy_sections store tables base sections file ys)"
  by (induction xs arbitrary: s) (auto split: bind_splits)

section \<open>Properties\<close>

text \<open>Whatever the random state, the stack of a program starts on a page boundary in its window.\<close>

theorem aslr_stack_in_window:
  "ASLR_USER_STACK_BASE \<le> fst (aslr_user_stack_address state)
    \<and> fst (aslr_user_stack_address state) < ASLR_USER_STACK_BASE + ASLR_USER_STACK_STRIDE * ASLR_USER_STACK_SLOTS
    \<and> fst (aslr_user_stack_address state) AND 0xFFF = 0"
proof -
  define slot where "slot = drop_bit 12 (aslr_next state) mod ASLR_USER_STACK_SLOTS"
  have l: "unat slot < 256" by (simp add: slot_def ASLR_USER_STACK_SLOTS_def unat_mod_distrib)
  have p: "unat (slot * ASLR_USER_STACK_STRIDE) = unat slot * 131072"
    using l by (simp add: ASLR_USER_STACK_STRIDE_def unat_mult_lem [THEN iffD1])
  then have "unat (ASLR_USER_STACK_BASE + slot * ASLR_USER_STACK_STRIDE) = 105553120460800 + unat slot * 131072"
    using l by (subst unat_add_64) (simp_all add: ASLR_USER_STACK_BASE_def)
  moreover have "4096 dvd (105553120460800 + unat slot * 131072 :: nat)" by (intro dvd_add dvd_mult) simp_all
  moreover from this have "ASLR_USER_STACK_BASE + slot * ASLR_USER_STACK_STRIDE AND 0xFFF = 0"
    using and_4095 [of "ASLR_USER_STACK_BASE + slot * ASLR_USER_STACK_STRIDE"] calculation by (simp add: PAGE_SIZE_def)
  moreover have e: "fst (aslr_user_stack_address state) = ASLR_USER_STACK_BASE + slot * ASLR_USER_STACK_STRIDE"
    by (simp add: aslr_user_stack_address_def Let_def slot_def)
  ultimately show ?thesis
    using l unfolding e by (simp add: word_le_nat_alt word_less_nat_alt ASLR_USER_STACK_BASE_def
      ASLR_USER_STACK_STRIDE_def ASLR_USER_STACK_SLOTS_def)
qed


text \<open>A file of one section of two bytes.\<close>

definition section_file :: bytes where
  "section_file = [0, 0, 0, 0, 0, 0, 0, 0, 0, 0, 0, 0, 0, 16, 0, 0, 2, 0, 0, 0, 40, 0, 0, 0,
     0, 0, 0, 0, 0, 0, 0, 0, 0, 0, 0, 0, 0, 0, 0, 0, 7, 9]"

lemma section_file_header: "struct_at 0 40 section_header section_file
    = Some \<lparr>virtual_address = 0x1000, raw_size = 2, raw_offset = 40\<rparr>"
  by (simp add: struct_at_def section_header_def section_file_def u32_at_def)


text \<open>An offset of the headers from 0xFFFFFFFC on passes the test of the size of the file, because adding 4 to it
  wraps around, and the signature is then read far outside of the file.\<close>

theorem pe_offset_wraps:
  assumes "512 \<le> length file" and "length file < 2 ^ 31" and "file ! 0 = 0x4D" and "file ! 1 = 0x5A"
    and "0xFFFFFFFC \<le> u32_at 0x3C file"
  shows "pe_headers file = None"
proof -
  let ?o = "u32_at 0x3C file"
  have o: "4294967292 \<le> unat ?o" using assms(5) by (simp add: word_le_nat_alt)
  have "unat (?o + 4) = (unat ?o + 4) mod 4294967296" by (simp add: unat_word_ariths)
  also have "\<dots> = unat ?o + 4 - 4294967296"
    using o unat_less_32 [of ?o] by (subst le_mod_geq) (simp_all del: unat_less_32)
  also have "\<dots> \<le> 3" using unat_less_32 [of ?o] by linarith
  finally have "\<not> unat (?o + 4) + 20 + 64 > length file" using assms(1) by linarith
  moreover have "struct_at (unat ?o) 2 (take 2) file = None" using o assms(2) by (simp add: struct_at_def)
  ultimately show ?thesis using assms(1,3,4) by (simp add: pe_headers_def Let_def)
qed

theorem pe_offset_wraps_witness:
  "pe_headers ([0x4D, 0x5A] @ replicate 58 0 @ [0xFC, 0xFF, 0xFF, 0xFF] @ replicate 448 0) = None"
  by (rule pe_offset_wraps) (simp_all add: u32_at_def)

end
