(* ===== verification/Spec2Isabelle.thy ===== *)
theory Spec2Isabelle
  imports Kernel_Security Kernel_Heap Frame_Allocator Kernel_Paging Kernel_Process Kernel_Ipc
    Kernel_Scheduler Input_Devices Kernel_Syscall Block_Device Filesystem_Mounts Partition_Table
    Partition_Scan Partition_Edit Virtual_Filesystem Vfs_Routing Vfs_Sessions Vfs_Files Virtual_Disk
    Vdisk_Images Disk_Management Fat16_Theorems Ext2_Theorems Iso9660_Theorems Udf_Theorems Device_Store
    Exfat_Names Exfat_Transactions Program_Loader
begin

text \<open>
  A verification development for the kernel of Asas OS, a 64-bit operating system in C (\<^verbatim>\<open>src/kernel/*.c\<close>, headers
  in \<^verbatim>\<open>include/*.h\<close>).  The theories follow the files of the kernel; this theory only collects them.

  \<^bold>\<open>The program and its parts.\<close>  The boot loader hands the kernel a memory map.  From it the frame allocator
  (\<^verbatim>\<open>memory.c\<close>) gives out page frames, which paging (\<^verbatim>\<open>paging.c\<close>) uses for page tables and processes (\<^verbatim>\<open>process.c\<close>)
  for their address spaces; the heap (\<^verbatim>\<open>heap.c\<close>) is a first-fit allocator over a fixed region, used by the file
  systems for their contexts and buffers.  Threads (\<^verbatim>\<open>scheduler.c\<close> and the context switch of \<^verbatim>\<open>x86_64.asm\<close>) run round
  robin, processes exchange messages (\<^verbatim>\<open>ipc.c\<close>), user programs enter through system calls (\<^verbatim>\<open>syscall.c\<close>), users and
  permissions are in \<^verbatim>\<open>security.c\<close>, and key strokes and mouse packets are queued in \<^verbatim>\<open>keyboard.c\<close> and \<^verbatim>\<open>mouse.c\<close>.
  Storage is layered: block devices with a shared cache (\<^verbatim>\<open>block_device.c\<close>), partitions on them (\<^verbatim>\<open>partition.c\<close>),
  file system drivers and mounts (\<^verbatim>\<open>filesystem.c\<close>), the name space with its handles (\<^verbatim>\<open>vfs.c\<close>), disk images in files
  as further devices (\<^verbatim>\<open>virtual_disk.c\<close>), and the management operations on top (\<^verbatim>\<open>disk_management.c\<close>).  Below are
  the file systems; FAT16 (\<^verbatim>\<open>fat16.c\<close>) works on the sectors of the legacy backend (\<^verbatim>\<open>virtio_block.c\<close>), the others on
  block devices.

  \<^bold>\<open>Conventions.\<close>  See \<^verbatim>\<open>Asas_Prelude\<close>: fixed-width integers are words and wrap around, a C string is the list of
  its characters, static variables are a state record that every operation takes and returns, and a null pointer is
  \<open>None\<close>.  Where an operation has an outer \<open>option\<close>, its \<open>None\<close> means that the code does not come back with a
  defined result: it follows a wild pointer, touches an element outside of an array, or loops for ever.  Theorems that
  an operation returns say that the result is not \<open>None\<close>.

  \<^bold>\<open>Theories and sources.\<close>
  \<^item> \<^verbatim>\<open>Kernel_Security\<close>: \<^verbatim>\<open>security.c\<close>.  Its theorem: without the administrator's password a guest session gains nothing.
  \<^item> \<^verbatim>\<open>Kernel_Heap\<close>: \<^verbatim>\<open>heap.c\<close>.  The chain of block headers in memory is related to a list of adjacent blocks
    (\<open>heap_wf\<close>); \<open>kmalloc\<close> and \<open>kfree\<close> refine splitting and coalescing of that list.  The locale \<open>allocator\<close> states what
    clients rely on.
  \<^item> \<^verbatim>\<open>Frame_Allocator\<close>: \<^verbatim>\<open>memory.c\<close>; \<^verbatim>\<open>Kernel_Paging\<close>: \<^verbatim>\<open>paging.c\<close>.  \<open>frame_inv\<close> says which frames may still be handed
    out; the locale \<open>frame_source\<close> is their interface.  Mapping a page and reading its flags is a round trip on the
    tables in physical memory, and a new address space shares nothing below the kernel half.
  \<^item> \<^verbatim>\<open>Kernel_Process\<close>, \<^verbatim>\<open>Kernel_Ipc\<close>, \<^verbatim>\<open>Kernel_Scheduler\<close>, \<^verbatim>\<open>Kernel_Syscall\<close>, \<^verbatim>\<open>Input_Devices\<close>: \<^verbatim>\<open>process.c\<close>,
    \<^verbatim>\<open>ipc.c\<close>, \<^verbatim>\<open>scheduler.c\<close> with \<open>context_switch\<close>, \<^verbatim>\<open>syscall.c\<close>, \<^verbatim>\<open>keyboard.c\<close> and \<^verbatim>\<open>mouse.c\<close>.  Invariants by
    induction over all sequences of operations; the locale \<open>mailbox\<close> for messages, \<open>bounded_fifo\<close> for the key queue;
    fairness of the scheduler.
  \<^item> \<^verbatim>\<open>Block_Device\<close>: \<^verbatim>\<open>block_device.c\<close>.  A driver is a record of functions on a state of its own; the locale
    \<open>disk_driver\<close> states what the layer relies on, and the driver of the module's own self test is an interpretation.
    Reading and writing through cache, retries and read-ahead refine reading and writing the disk.
  \<^item> \<^verbatim>\<open>Partition_Table\<close>, \<^verbatim>\<open>Partition_Scan\<close>, \<^verbatim>\<open>Partition_Edit\<close>: \<^verbatim>\<open>partition.c\<close>.  The model, the invariant of scanning
    (partitions inside their disk and apart), and what editing leaves on the disk.
  \<^item> \<^verbatim>\<open>Filesystem_Mounts\<close>: \<^verbatim>\<open>filesystem.c\<close> from line 653 on.  The mount table as a step relation with references.
  \<^item> \<^verbatim>\<open>Virtual_Filesystem\<close>, \<^verbatim>\<open>Vfs_Routing\<close>, \<^verbatim>\<open>Vfs_Sessions\<close>, \<^verbatim>\<open>Vfs_Files\<close>: \<^verbatim>\<open>vfs.c\<close>.  The model, the choice of volumes and
    names, sessions of calls (references and open handles agree, buffers are given back), and what an open file
    guarantees.
  \<^item> \<^verbatim>\<open>Virtual_Disk\<close>, \<^verbatim>\<open>Vdisk_Images\<close>: \<^verbatim>\<open>virtual_disk.c\<close>.  \<^verbatim>\<open>Disk_Management\<close>: \<^verbatim>\<open>disk_management.c\<close>.
  \<^item> \<^verbatim>\<open>Fat16\<close>: \<^verbatim>\<open>fat16.c\<close>.  \<^verbatim>\<open>Fat16_Chains\<close> to \<^verbatim>\<open>Fat16_Write\<close> relate the sectors of a volume to a map from names of the
    root directory to contents; \<^verbatim>\<open>Fat16_Theorems\<close> says that writing, reading and deleting act on that map as they should.
    \<^verbatim>\<open>Virtio_Block\<close>: \<^verbatim>\<open>virtio_block.c\<close>, shown to be a disk as \<^verbatim>\<open>Fat16\<close> needs it (locale \<open>sector_disk\<close>).
  \<^item> \<^verbatim>\<open>Device_Reader\<close>: what file systems on block devices share: the record \<open>block_io\<close> of the calls they make, reading
    bytes at any offset, and the locale \<open>block_source\<close>, interpreted on the devices of \<^verbatim>\<open>Block_Device\<close> with cache and
    retries.  \<^verbatim>\<open>Ext2\<close>: \<^verbatim>\<open>ext2.c\<close>; \<^verbatim>\<open>Ext2_Read\<close> and \<^verbatim>\<open>Ext2_Theorems\<close>: the bytes that reading a file returns, and that no
    operation changes the volume.  \<^verbatim>\<open>Iso9660\<close> and \<^verbatim>\<open>Iso9660_Theorems\<close>: \<^verbatim>\<open>iso9660.c\<close> likewise,
    \<^verbatim>\<open>Udf\<close> and \<^verbatim>\<open>Udf_Theorems\<close>: \<^verbatim>\<open>udf.c\<close>, which reads several blocks at once (locale \<open>multi_source\<close>).
  \<^item> \<^verbatim>\<open>Exfat_Volume\<close>, \<^verbatim>\<open>Exfat\<close>, \<^verbatim>\<open>Exfat_Operations\<close>: \<^verbatim>\<open>exfat.c\<close> without its self test: sectors and transactions, names
    and directories, mounting and the operations on paths.  \<^verbatim>\<open>Exfat_Names\<close>: names in UTF-8 and the entries of a file
    are read back as they were written.  \<^verbatim>\<open>Exfat_Transactions\<close>: what a transaction that fails leaves on the disk, for every
    device that holds blocks.  \<^verbatim>\<open>Device_Store\<close>: the interface of a device that is written (locale
    \<open>block_store\<close>), and computations that return.
  \<^item> \<^verbatim>\<open>Program_Loader\<close>: \<^verbatim>\<open>pe_loader.c\<close> and \<^verbatim>\<open>aslr.c\<close>: where a program file puts its sections, and where its stack is.

  \<^bold>\<open>Bounds and fuel.\<close>  Loops with a bound of their own are structural recursions or have a measure.  Fuel occurs
  where the recursion follows pointers or devices: \<open>block_device_read\<close> and its companions take one unit for a device
  and one for each parent, so two units are enough for a partition of a disk, and the theorems show that they return.
  Loops that may really run for ever (spinning on a lock, following a cluster chain) are partial functions whose value
  is \<open>None\<close> then; \<open>fat16_circular_directory_hangs\<close> in \<^verbatim>\<open>Fat16_Theorems\<close> shows a case where this happens, and the theorems on sessions that it
  does not happen elsewhere.

  \<^bold>\<open>Not modelled.\<close>  Lines that only write to the log; the bytes a failed transfer leaves in a buffer; interleavings
  with interrupts and other processors, except for the lock words, which are tested and set as the code does.  Of the
  kernel files: the drivers that consist of port and memory-mapped accesses to hardware (\<^verbatim>\<open>xhci.c\<close>, \<^verbatim>\<open>ahci.c\<close>,
  \<^verbatim>\<open>nvme.c\<close>, \<^verbatim>\<open>ide_ata.c\<close>, \<^verbatim>\<open>hyperv_storage.c\<close>, \<^verbatim>\<open>virtio_net.c\<close>, \<^verbatim>\<open>virtio_gpu.c\<close>, \<^verbatim>\<open>pci.c\<close>, \<^verbatim>\<open>acpi.c\<close>, \<^verbatim>\<open>apic.c\<close>,
  \<^verbatim>\<open>ioapic.c\<close>, \<^verbatim>\<open>audio.c\<close>, \<^verbatim>\<open>power.c\<close>, \<^verbatim>\<open>laptop.c\<close>), whose meaning is that of devices that are not part of the
  repository; the graphical interface and the console; the shell; start-up, the boot loader and the test drivers.
  The file systems NTFS and FAT32 are not modelled.
\<close>

end
